(* ===== verification/C_Prelude.thy ===== *)
theory C_Prelude
  imports Main "HOL-Library.Word" "HOL-Library.Monad_Syntax"
begin

unbundle bit_operations_syntax

text \<open>
  The C fragment the components share: fixed-width integers, undefined behaviour as a value,
  heaps of structs and the allocator.

  A C computation of type \<open>'a\<close> is an \<open>'a option\<close>: \<open>None\<close> stands for undefined behaviour or a
  trap (dereference of an invalid pointer, failed \<open>assert\<close>, division by zero, signed overflow,
  over-wide shift) and for a loop that does not return, never for an error code of the library:
  error codes are ordinary return values.
\<close>

section \<open>Machine types\<close>

type_synonym u32 = "32 word"
type_synonym u64 = "64 word"
type_synonym addr = nat
type_synonym 'a heap = "addr \<Rightarrow> 'a option"

abbreviation (input) NULL :: addr where
  "NULL \<equiv> 0"

named_theorems heap_simps \<open>symbolic execution of loads and stores\<close>
named_theorems c_eval \<open>definitions unfolded to run a C function on concrete data\<close>

section \<open>Undefined behaviour\<close>

definition c_assert :: "bool \<Rightarrow> unit option" where
  "c_assert b = (if b then Some () else None)"

text \<open>An \<open>int\<close> result: overflow of a signed 32-bit operation is undefined.\<close>

definition in_s32 :: "int \<Rightarrow> bool" where
  "in_s32 x \<longleftrightarrow> - (2 ^ 31) \<le> x \<and> x < 2 ^ 31"

definition s32 :: "int \<Rightarrow> int option" where
  "s32 x = (if in_s32 x then Some x else None)"

text \<open>Unsigned division and remainder trap on a zero divisor.\<close>

definition udiv :: "'a::len word \<Rightarrow> 'a word \<Rightarrow> 'a word option" where
  "udiv x y = (if y = 0 then None else Some (x div y))"

definition umod :: "'a::len word \<Rightarrow> 'a word \<Rightarrow> 'a word option" where
  "umod x y = (if y = 0 then None else Some (x mod y))"

lemma c_assert_bind [simp]: "(c_assert b \<bind> f) = (if b then f () else None)"
  by (simp add: c_assert_def)

lemma s32_eq_Some [simp]: "s32 x = Some y \<longleftrightarrow> in_s32 x \<and> y = x"
  by (auto simp: s32_def)

lemma s32_in [simp]: "in_s32 x \<Longrightarrow> s32 x = Some x"
  by (simp add: s32_def)

lemma udiv_nz [simp]: "y \<noteq> 0 \<Longrightarrow> udiv x y = Some (x div y)"
  by (simp add: udiv_def)

lemma umod_nz [simp]: "y \<noteq> 0 \<Longrightarrow> umod x y = Some (x mod y)"
  by (simp add: umod_def)

lemma udiv_eq_Some: "udiv x y = Some z \<longleftrightarrow> y \<noteq> 0 \<and> z = x div y"
  by (auto simp: udiv_def)

text \<open>A right shift of a non-zero word is a termination measure.\<close>

lemma unat_drop_bit_less:
  fixes x :: "'a::len word"
  assumes "x \<noteq> 0" "0 < n"
  shows "unat (drop_bit n x) < unat x"
proof -
  have "unat (drop_bit n x) = unat x div 2 ^ n"
    using drop_bit_eq_div [of n "unat x"] by (simp only: unat_drop_bit_eq)
  moreover have "0 < unat x" using assms(1) by (simp add: unat_gt_0)
  moreover have "1 < (2 :: nat) ^ n" using assms(2) by (rule one_less_power [rotated]) simp
  ultimately show ?thesis by (simp only: div_less_dividend)
qed

lemma unat_of_nat_small: "n < 2 ^ LENGTH('a) \<Longrightarrow> unat (of_nat n :: 'a::len word) = n"
  by (simp add: unsigned_of_nat take_bit_nat_eq_self)

text \<open>Sums and products that fit.\<close>

lemma unat_mult_small:
  "unat x * unat y < 2 ^ LENGTH('a) \<Longrightarrow> unat (x * y) = unat x * unat (y :: 'a::len word)"
  using unat_mult_lem [of x y] by blast

lemma unat_add_small:
  "unat x + unat y < 2 ^ LENGTH('a) \<Longrightarrow> unat (x + y) = unat x + unat (y :: 'a::len word)"
  using unat_add_lem [of x y] by blast

text \<open>The error numbers of the C library (Linux) the sources return.\<close>

definition EINTR :: int where "EINTR = 4"
definition EAGAIN :: int where "EAGAIN = 11"
definition ENOMEM :: int where "ENOMEM = 12"
definition EFAULT :: int where "EFAULT = 14"
definition EINVAL :: int where "EINVAL = 22"
definition ENOSPC :: int where "ENOSPC = 28"
definition ETIME :: int where "ETIME = 62"

lemmas errno_defs = EINTR_def EAGAIN_def ENOMEM_def EFAULT_def EINVAL_def ENOSPC_def ETIME_def

section \<open>Heaps of structs\<close>

text \<open>
  \<open>wr s p f\<close> stores through \<open>p\<close>: the struct \<open>f\<close> makes of the one at \<open>p\<close> (a field update).
  A load is the application \<open>s p\<close>. Both are undefined when nothing is allocated at \<open>p\<close>.
\<close>

definition wr :: "'a heap \<Rightarrow> addr \<Rightarrow> ('a \<Rightarrow> 'a) \<Rightarrow> 'a heap option" where
  "wr s p f = (case s p of None \<Rightarrow> None | Some b \<Rightarrow> Some (s(p \<mapsto> f b)))"

text \<open>\<open>ld s p g\<close> is the load of field \<open>g\<close> through \<open>p\<close>.\<close>

definition ld :: "'a heap \<Rightarrow> addr \<Rightarrow> ('a \<Rightarrow> 'b) \<Rightarrow> 'b option" where
  "ld s p g = map_option g (s p)"

text \<open>\<open>free(p)\<close>: the struct is gone; a second \<open>free\<close> is undefined.\<close>

definition dealloc :: "'a heap \<Rightarrow> addr \<Rightarrow> 'a heap option" where
  "dealloc s p = (case s p of None \<Rightarrow> None | Some _ \<Rightarrow> Some (s(p := None)))"

text \<open>
  \<open>malloc\<close>/\<open>calloc\<close> is a function from the heap to the address it returns, \<open>None\<close> when out
  of memory. What the code relies on: the block is not \<open>NULL\<close> and not already allocated.
\<close>

type_synonym 'a allocator = "'a heap \<Rightarrow> addr option"

definition fresh_alloc :: "'a allocator \<Rightarrow> bool" where
  "fresh_alloc al \<longleftrightarrow> (\<forall>s a. al s = Some a \<longrightarrow> a \<noteq> NULL \<and> s a = None)"

text \<open>A concrete allocator: the first unused address below a limit.\<close>

definition first_free :: "nat \<Rightarrow> 'a allocator" where
  "first_free n s = find (\<lambda>a. s a = None) [1..<n]"

lemma fresh_allocD: "fresh_alloc al \<Longrightarrow> al s = Some a \<Longrightarrow> a \<noteq> NULL \<and> s a = None"
  by (simp add: fresh_alloc_def)

lemma fresh_first_free: "fresh_alloc (first_free n)"
  by (auto simp: fresh_alloc_def first_free_def find_Some_iff)

text \<open>
  The functional view: \<open>setf\<close> is \<open>wr\<close> where the address is valid, and \<open>fld g s\<close> is the field
  \<open>g\<close> of a heap as a function of the address. Stores become function updates of the fields
  they change and are invisible to the others.
\<close>

definition setf :: "'a heap \<Rightarrow> addr \<Rightarrow> ('a \<Rightarrow> 'a) \<Rightarrow> 'a heap" where
  "setf s p f = s(p := map_option f (s p))"

definition fld :: "('a \<Rightarrow> 'b) \<Rightarrow> 'a heap \<Rightarrow> addr \<Rightarrow> 'b" where
  "fld g s p = g (the (s p))"

lemma wr_setf [heap_simps]: "p \<in> dom s \<Longrightarrow> wr s p f = Some (setf s p f)"
  by (auto simp: wr_def setf_def)

lemma ld_fld [heap_simps]: "p \<in> dom s \<Longrightarrow> ld s p g = Some (fld g s p)"
  by (auto simp: ld_def fld_def)

lemma dom_setf [simp]: "dom (setf s p f) = dom s"
  by (auto simp: setf_def split: if_splits)

lemma setf_None [simp]: "setf s p f a = None \<longleftrightarrow> s a = None"
  by (auto simp: setf_def)

lemma fld_setf [heap_simps]:
  "p \<in> dom s \<Longrightarrow> fld g (setf s p f) = (fld g s)(p := g (f (the (s p))))"
  by (auto simp: fld_def setf_def fun_eq_iff)

lemma fld_triv [heap_simps]: "(fld g s)(p := g (the (s p))) = fld g s"
  by (auto simp: fld_def fun_eq_iff)

lemma fld_setf_frame [simp]: "(\<And>b. g (f b) = g b) \<Longrightarrow> fld g (setf s p f) = fld g s"
  by (auto simp: fld_def setf_def fun_eq_iff) (metis option.map_sel option.map_disc_iff)

lemma fld_new [heap_simps]: "fld g (s(p \<mapsto> b)) = (fld g s)(p := g b)"
  by (auto simp: fld_def fun_eq_iff)

lemma fld_dealloc: "a \<noteq> p \<Longrightarrow> fld g (s(p := None)) a = fld g s a"
  by (simp add: fld_def)

lemma fld_cong: "s' b = s b \<Longrightarrow> fld g s' b = fld g s b"
  by (simp add: fld_def)

lemma wr_eq_Some: "wr s p f = Some s' \<longleftrightarrow> p \<in> dom s \<and> s' = setf s p f"
  by (auto simp: wr_def setf_def split: option.splits)

lemma ld_eq_Some: "ld s p g = Some v \<longleftrightarrow> p \<in> dom s \<and> v = fld g s p"
  by (auto simp: ld_def fld_def)

lemma dealloc_dom [heap_simps]: "p \<in> dom s \<Longrightarrow> dealloc s p = Some (s(p := None))"
  by (auto simp: dealloc_def)

section \<open>Singly linked chains\<close>

text \<open>
  \<open>chain nx a xs b\<close>: following \<open>nx\<close> from \<open>a\<close> visits exactly the cells \<open>xs\<close> and arrives at \<open>b\<close>.
\<close>

primrec chain :: "(addr \<Rightarrow> addr) \<Rightarrow> addr \<Rightarrow> addr list \<Rightarrow> addr \<Rightarrow> bool" where
  "chain nx a [] b \<longleftrightarrow> a = b"
| "chain nx a (x # xs) b \<longleftrightarrow> a = x \<and> chain nx (nx x) xs b"

lemma chain_append: "chain nx a (xs @ ys) b \<longleftrightarrow> (\<exists>c. chain nx a xs c \<and> chain nx c ys b)"
  by (induction xs arbitrary: a) auto

lemma chain_split:
  "chain nx a (xs @ y # ys) b \<longleftrightarrow> chain nx a xs y \<and> chain nx (nx y) ys b"
  by (induction xs arbitrary: a) auto

lemma chain_cong:
  "(\<And>x. x \<in> set xs \<Longrightarrow> nx x = nx' x) \<Longrightarrow> chain nx a xs b \<longleftrightarrow> chain nx' a xs b"
  by (induction xs arbitrary: a) auto

lemma chain_upd [simp]: "x \<notin> set xs \<Longrightarrow> chain (nx(x := y)) a xs b \<longleftrightarrow> chain nx a xs b"
  by (rule chain_cong) auto

lemma chain_hd: "chain nx a xs b \<Longrightarrow> a = hd (xs @ [b])"
  by (cases xs) auto

lemma chain_snoc: "chain nx a (xs @ [y]) b \<longleftrightarrow> chain nx a xs y \<and> nx y = b"
  by (induction xs arbitrary: a) auto

section \<open>Lists\<close>

lemma list_update_append_mid [simp]: "(xs @ y # ys)[length xs := z] = xs @ z # ys"
  by (induction xs) auto

lemma find_SomeD: "find P xs = Some x \<Longrightarrow> x \<in> set xs \<and> P x"
  by (induction xs) (auto split: if_splits)

lemma distinct_mid: "distinct (xs @ y # ys) \<longleftrightarrow>
    y \<notin> set xs \<and> y \<notin> set ys \<and> distinct xs \<and> distinct ys \<and> set xs \<inter> set ys = {}"
  by auto

section \<open>Rounding up with a mask\<close>

text \<open>
  The macro \<open>ALIGN(value, alignment)\<close> of the drivers: \<open>(value + alignment - 1) AND NOT (alignment - 1)\<close>
  on unsigned words.
\<close>

definition ALIGN :: "'a::len word \<Rightarrow> 'a word \<Rightarrow> 'a word" where
  "ALIGN v a = (v + a - 1) AND NOT (a - 1)"

lemma and_not_eq_minus: "a AND NOT m = a - (a AND m)" for a m :: "'a::ring_bit_operations"
proof -
  have "a - (a AND m) = a AND NOT (a AND m)"
    by (rule disjunctive_diff_eq_and_not) (auto simp: bit_eq_iff bit_simps)
  then show ?thesis by (auto simp: bit_eq_iff bit_simps)
qed

lemma int_and_not_mask: "(x :: int) AND NOT (2 ^ k - 1) = x - x mod 2 ^ k"
  by (simp add: and_not_eq_minus flip: mask_eq_exp_minus_1 take_bit_eq_mask take_bit_eq_mod)

lemma int_round_up:
  fixes x :: int and k :: nat
  defines "r \<equiv> (x + (2 ^ k - 1)) AND NOT (2 ^ k - 1)"
  shows "2 ^ k dvd r" "x \<le> r" "r < x + 2 ^ k"
proof -
  have r: "r = (x + (2 ^ k - 1)) - (x + (2 ^ k - 1)) mod 2 ^ k"
    unfolding r_def by (rule int_and_not_mask)
  show "2 ^ k dvd r" unfolding r by (simp add: minus_mod_eq_mult_div)
  have "0 \<le> (x + (2 ^ k - 1)) mod 2 ^ k" "(x + (2 ^ k - 1)) mod 2 ^ k < 2 ^ k" by simp_all
  then show "x \<le> r" "r < x + 2 ^ k" unfolding r by linarith+
qed

text \<open>
  Without wrap-around, \<open>ALIGN\<close> never rounds down and adds less than the alignment, whatever
  the alignment is; that the result is a multiple of it needs a power of two.
\<close>

lemma word_and_le: "x AND y \<le> (y :: 'a::len word)"
  by (rule word_and_le1)

lemma unat_ALIGN:
  assumes "0 < unat a" "unat v + unat a \<le> 2 ^ LENGTH('a)"
  shows "unat v \<le> unat (ALIGN v a)" "unat (ALIGN v a) < unat v + unat (a :: 'a::len word)"
proof -
  let ?t = "v + a - 1" and ?m = "a - 1"
  have m: "unat ?m = unat a - 1"
    using assms(1) by (metis One_nat_def unat_minus_one unat_0 less_irrefl)
  have t: "unat ?t = unat v + (unat a - 1)"
  proof -
    have "?t = v + ?m" by (simp add: algebra_simps)
    moreover have "unat (v + ?m) = unat v + unat ?m"
      using assms m by (subst unat_add_lem [symmetric]) auto
    ultimately show ?thesis using m by (simp only:)
  qed
  have le: "?t AND ?m \<le> ?t" "?t AND ?m \<le> ?m" by (rule word_and_le2, rule word_and_le1)
  have "unat (ALIGN v a) = unat ?t - unat (?t AND ?m)"
    unfolding ALIGN_def and_not_eq_minus using le(1) by (rule unat_sub)
  moreover have "unat (?t AND ?m) \<le> unat a - 1"
    using le(2) m by (simp add: word_le_nat_alt)
  ultimately show "unat v \<le> unat (ALIGN v a)" "unat (ALIGN v a) < unat v + unat a"
    using t assms(1) by linarith+
qed

lemma unat_ALIGN_dvd:
  fixes v :: "'a::len word"
  assumes k: "k < LENGTH('a)" and le: "unat v + 2 ^ k \<le> 2 ^ LENGTH('a)"
  shows "2 ^ k dvd unat (ALIGN v (2 ^ k))"
proof -
  have e: "(2 ^ k - 1 :: 'a word) = mask k" by (simp add: mask_eq_exp_minus_1)
  let ?t = "v + 2 ^ k - 1"
  have "ALIGN v (2 ^ k) = ?t - take_bit k ?t"
    unfolding ALIGN_def and_not_eq_minus e by (simp add: take_bit_eq_mask)
  moreover have "take_bit k ?t \<le> ?t" by (metis take_bit_eq_mask word_and_le2)
  ultimately have "unat (ALIGN v (2 ^ k)) = unat ?t - take_bit k (unat ?t)"
    by (simp add: unat_sub unsigned_take_bit_eq)
  then show ?thesis by (simp add: take_bit_eq_mod minus_mod_eq_mult_div)
qed

end
