(* ===== verification/C_Arith.thy ===== *)
theory C_Arith
  imports C_Prelude
begin

text \<open>
  Rounding in unbounded arithmetic, and the masks and quotients of the sources that compute it at
  32 and 64 bits.
\<close>

definition cdiv :: "nat \<Rightarrow> nat \<Rightarrow> nat" where
  "cdiv n d = (n + d - 1) div d"

definition align_up :: "nat \<Rightarrow> nat \<Rightarrow> nat" where
  "align_up n a = cdiv n a * a"

lemma cdiv_pos [simp]: "0 < n \<Longrightarrow> 0 < d \<Longrightarrow> 0 < cdiv n d"
  by (simp add: cdiv_def div_greater_zero_iff)

lemma cdiv_le: "0 < d \<Longrightarrow> cdiv n d \<le> n"
proof -
  assume d: "0 < d"
  show ?thesis
  proof (cases "n = 0")
    case False
    have "n + d - 1 \<le> n * d" using d False by (cases n; cases d) auto
    then have "(n + d - 1) div d \<le> n * d div d" by (rule div_le_mono)
    then show ?thesis using d by (simp add: cdiv_def)
  qed (use d in \<open>simp add: cdiv_def\<close>)
qed

lemma cdiv_covers: "0 < d \<Longrightarrow> n \<le> cdiv n d * d"
proof -
  assume d: "0 < d"
  have "(n + d - 1) div d * d + (n + d - 1) mod d = n + d - 1" by simp
  moreover have "(n + d - 1) mod d < d" using d by simp
  ultimately show ?thesis unfolding cdiv_def using d by linarith
qed

lemma align_up_ge: "0 < a \<Longrightarrow> n \<le> align_up n a"
  by (simp add: align_up_def cdiv_covers)

lemma align_up_less: "0 < a \<Longrightarrow> align_up n a < n + a"
proof -
  assume a: "0 < a"
  have "cdiv n a * a \<le> n + a - 1" by (simp add: cdiv_def)
  then show ?thesis using a by (simp add: align_up_def)
qed

lemma align_up_dvd [simp]: "a dvd align_up n a"
  by (simp add: align_up_def)

lemma align_up_1 [simp]: "align_up n 1 = n" "align_up n (Suc 0) = n"
  by (simp_all add: align_up_def cdiv_def)

lemma align_up_pos [simp]: "0 < n \<Longrightarrow> 0 < a \<Longrightarrow> 0 < align_up n a"
  by (simp add: align_up_def)

text \<open>A multiple of \<open>a\<close> less than \<open>a\<close> above \<open>n\<close> is the rounded-up value.\<close>

lemma align_up_unique:
  assumes "a dvd m" "n \<le> m" "m < n + a"
  shows "m = align_up n a"
proof -
  from assms(1) obtain q where q: "m = a * q" by (elim dvdE)
  have a: "0 < a" using assms by linarith
  have "align_up n a = a * cdiv n a" by (simp add: align_up_def)
  moreover have "a * q < a * (cdiv n a + 1)"
    using align_up_ge [OF a, of n] assms(3) q calculation by (simp add: algebra_simps)
  moreover have "a * cdiv n a < a * (q + 1)"
    using align_up_less [OF a, of n] assms(2) q calculation by (simp add: algebra_simps)
  ultimately have "q < cdiv n a + 1" "cdiv n a < q + 1" by (metis mult_less_cancel1)+
  then show ?thesis using q by (simp add: align_up_def)
qed

lemma unat_ALIGN_pow2:
  fixes v :: "'a::len word"
  assumes "k < LENGTH('a)" "unat v + 2 ^ k \<le> 2 ^ LENGTH('a)"
  shows "unat (ALIGN v (2 ^ k)) = align_up (unat v) (2 ^ k)"
proof (rule align_up_unique)
  have "(2 :: nat) ^ k < 2 ^ LENGTH('a)" using assms(1) by (rule power_strict_increasing) simp
  then have "unat (of_nat (2 ^ k) :: 'a word) = 2 ^ k" by (rule unat_of_nat_small)
  then have u: "unat (2 ^ k :: 'a word) = 2 ^ k" by (simp only: of_nat_power of_nat_numeral)
  show "2 ^ k dvd unat (ALIGN v (2 ^ k))" by (rule unat_ALIGN_dvd [OF assms])
  show "unat v \<le> unat (ALIGN v (2 ^ k))" "unat (ALIGN v (2 ^ k)) < unat v + 2 ^ k"
    using unat_ALIGN [of "2 ^ k" v] u assms(2) by simp_all
qed


lemma unat_pow2_64: "k < 64 \<Longrightarrow> unat (2 ^ k :: u64) = 2 ^ k"
proof -
  assume "k < 64"
  then have "(2 :: nat) ^ k < 2 ^ 64" by (rule power_strict_increasing) simp
  then have "unat (of_nat (2 ^ k) :: u64) = 2 ^ k" by (intro unat_of_nat_small) simp
  then show ?thesis by (simp only: of_nat_power of_nat_numeral)
qed

lemma align_up_least: "a dvd m \<Longrightarrow> n \<le> m \<Longrightarrow> 0 < a \<Longrightarrow> align_up n a \<le> m"
proof -
  assume a: "a dvd m" "n \<le> m" "0 < a"
  then obtain q where q: "m = a * q" by (elim dvdE)
  have "a * cdiv n a < a * (q + 1)"
    using align_up_less [OF a(3), of n] a(2) q by (simp add: align_up_def algebra_simps)
  then have "cdiv n a < q + 1" by (metis mult_less_cancel1)
  then have "cdiv n a \<le> q" by simp
  then show "align_up n a \<le> m" using q by (simp add: align_up_def mult.commute)
qed

end
