(* ===== verification/C_Rings.thy ===== *)
theory C_Rings
  imports C_Prelude
begin

text \<open>
  Circular doubly linked lists. A ring is given by its two link functions (the \<open>next\<close> and
  \<open>prev\<close> fields of a heap), its head cell and the list of its other cells. The lemmas are
  about link functions under function update, so they serve every struct that carries a ring:
  the list heads of \<open>libdrm_lists.h\<close> and both rings of \<open>mem_block\<close>.
\<close>

section \<open>Linked segments and rings\<close>

primrec links :: "(addr \<Rightarrow> addr) \<Rightarrow> (addr \<Rightarrow> addr) \<Rightarrow> addr \<Rightarrow> addr list \<Rightarrow> addr \<Rightarrow> bool" where
  "links nx pv a [] b \<longleftrightarrow> nx a = b \<and> pv b = a"
| "links nx pv a (x # xs) b \<longleftrightarrow> nx a = x \<and> pv x = a \<and> links nx pv x xs b"

definition ring :: "(addr \<Rightarrow> addr) \<Rightarrow> (addr \<Rightarrow> addr) \<Rightarrow> addr \<Rightarrow> addr list \<Rightarrow> bool" where
  "ring nx pv h xs \<longleftrightarrow> links nx pv h xs h \<and> distinct (h # xs)"

lemma links_append:
  "links nx pv a (xs @ c # ys) b \<longleftrightarrow> links nx pv a xs c \<and> links nx pv c ys b"
  by (induction xs arbitrary: a) auto

lemma links_cong:
  "(\<And>x. x \<in> set (a # xs) \<Longrightarrow> nx x = nx' x) \<Longrightarrow> (\<And>x. x \<in> set (xs @ [b]) \<Longrightarrow> pv x = pv' x) \<Longrightarrow>
   links nx pv a xs b \<longleftrightarrow> links nx' pv' a xs b"
  by (induction xs arbitrary: a) auto

lemma links_upd_nx [simp]:
  "x \<notin> set (a # xs) \<Longrightarrow> links (nx(x := y)) pv a xs b \<longleftrightarrow> links nx pv a xs b"
  by (rule links_cong) auto

lemma links_upd_pv [simp]:
  "x \<notin> set (xs @ [b]) \<Longrightarrow> links nx (pv(x := y)) a xs b \<longleftrightarrow> links nx pv a xs b"
  by (rule links_cong) auto

lemma links_next: "links nx pv a xs b \<Longrightarrow> nx a = hd (xs @ [b])"
  by (cases xs) auto

lemma links_prev: "links nx pv a xs b \<Longrightarrow> pv b = last (a # xs)"
  by (induction xs arbitrary: a) auto

lemma links_change_last:
  "links nx pv a xs b \<Longrightarrow> distinct (a # xs) \<Longrightarrow> b' \<notin> set xs \<Longrightarrow>
   links (nx(last (a # xs) := b')) (pv(b' := last (a # xs))) a xs b'"
  by (induction xs arbitrary: a) auto

lemma links_change_first:
  "links nx pv a xs b \<Longrightarrow> distinct (xs @ [b]) \<Longrightarrow> a' \<notin> set xs \<Longrightarrow>
   links (nx(a' := hd (xs @ [b]))) (pv(hd (xs @ [b]) := a')) a' xs b"
  by (cases xs) auto

section \<open>Insertion and removal\<close>

text \<open>
  \<open>last (h # xs)\<close> is the cell the new one goes after (the head itself when \<open>xs\<close> is empty).
\<close>

lemma ring_insert:
  assumes r: "ring nx pv h (xs @ ys)" and new: "n \<notin> set (h # xs @ ys)"
    and p: "p = last (h # xs)"
  shows "ring (nx(n := nx p, p := n)) (pv(n := p, nx p := n)) h (xs @ n # ys)"
proof -
  have l: "links nx pv h (xs @ ys) h" and d: "distinct (h # xs @ ys)"
    using r by (auto simp: ring_def)
  have "links (nx(n := nx p, p := n)) (pv(n := p, nx p := n)) h (xs @ n # ys) h"
  proof (cases xs rule: rev_cases)
    case Nil
    then have p: "p = h" using p by simp
    show ?thesis
    proof (cases ys)
      case Nil
      with \<open>xs = []\<close> p l new show ?thesis by auto
    next
      case (Cons y zs)
      with \<open>xs = []\<close> p l d new show ?thesis by auto
    qed
  next
    case (snoc zs z)
    then have z: "p = z" using p by simp
    have ls: "links nx pv h zs z" "links nx pv z ys h"
      using l snoc by (simp_all add: links_append)
    have nz: "nx z = hd (ys @ [h])" using ls(2) by (rule links_next)
    show ?thesis
    proof (cases ys)
      case Nil
      with snoc z ls nz d new show ?thesis by (auto simp: links_append)
    next
      case (Cons y ws)
      with snoc z ls nz d new show ?thesis by (auto simp: links_append)
    qed
  qed
  moreover have "distinct (h # xs @ n # ys)" using d new by auto
  ultimately show ?thesis by (simp add: ring_def)
qed

lemma ring_remove:
  assumes r: "ring nx pv h (xs @ x # ys)"
  shows "ring (nx(pv x := nx x)) (pv(nx x := pv x)) h (xs @ ys)"
proof -
  have l: "links nx pv h xs x" "links nx pv x ys h" and d: "distinct (h # xs @ x # ys)"
    using r by (auto simp: ring_def links_append)
  have px: "pv x = last (h # xs)" using l(1) by (rule links_prev)
  have nx: "nx x = hd (ys @ [h])" using l(2) by (rule links_next)
  have "links (nx(pv x := nx x)) (pv(nx x := pv x)) h (xs @ ys) h"
  proof (cases xs rule: rev_cases)
    case Nil
    with l px nx d show ?thesis by (cases ys) auto
  next
    case (snoc zs z)
    with l px nx d show ?thesis by (cases ys) (auto simp: links_append)
  qed
  then show ?thesis using d by (auto simp: ring_def)
qed

section \<open>Reading a ring\<close>

lemma ring_Nil: "ring nx pv h [] \<longleftrightarrow> nx h = h \<and> pv h = h"
  by (simp add: ring_def)

lemma ring_next_mem: "ring nx pv h xs \<Longrightarrow> a \<in> set (h # xs) \<Longrightarrow> nx a \<in> set (h # xs)"
proof -
  assume r: "ring nx pv h xs" and a: "a \<in> set (h # xs)"
  have "links nx pv h xs h" using r by (simp add: ring_def)
  then have "nx h \<in> set (h # xs)" by (auto dest!: links_next simp: hd_append)
  moreover have "nx a \<in> set (h # xs)" if "a \<in> set xs"
  proof -
    from that obtain ys zs where xs: "xs = ys @ a # zs" by (auto simp: in_set_conv_decomp)
    then have "links nx pv a zs h" using \<open>links nx pv h xs h\<close> by (simp add: links_append)
    then show ?thesis using xs by (auto dest!: links_next simp: hd_append)
  qed
  ultimately show ?thesis using a by auto
qed

lemma ring_prev_mem: "ring nx pv h xs \<Longrightarrow> a \<in> set (h # xs) \<Longrightarrow> pv a \<in> set (h # xs)"
proof -
  assume r: "ring nx pv h xs" and a: "a \<in> set (h # xs)"
  have l: "links nx pv h xs h" using r by (simp add: ring_def)
  then have "pv h \<in> set (h # xs)" by (metis links_prev last_in_set list.discI)
  moreover have "pv a \<in> set (h # xs)" if "a \<in> set xs"
  proof -
    from that obtain ys zs where xs: "xs = ys @ a # zs" by (auto simp: in_set_conv_decomp)
    then have "links nx pv h ys a" using l by (simp add: links_append)
    then have "pv a = last (h # ys)" by (rule links_prev)
    then show ?thesis using xs by (cases ys rule: rev_cases) auto
  qed
  ultimately show ?thesis using a by auto
qed

lemma ring_split_next:
  "ring nx pv h (xs @ x # ys) \<Longrightarrow> nx x = hd (ys @ [h])"
  by (auto simp: ring_def links_append dest: links_next)

lemma ring_split_prev:
  "ring nx pv h (xs @ x # ys) \<Longrightarrow> pv x = last (h # xs)"
  by (auto simp: ring_def links_append dest: links_prev simp del: last.simps)

lemma ring_cong:
  "(\<And>x. x \<in> set (h # xs) \<Longrightarrow> nx x = nx' x \<and> pv x = pv' x) \<Longrightarrow>
   ring nx pv h xs \<longleftrightarrow> ring nx' pv' h xs"
  unfolding ring_def by (subst links_cong [where nx' = nx' and pv' = pv']) auto

lemma ring_chain: "ring nx pv h xs \<Longrightarrow> chain nx (nx h) xs h"
proof -
  have "links nx pv a xs b \<Longrightarrow> chain nx (nx a) xs b" for a b
    by (induction xs arbitrary: a) auto
  then show "ring nx pv h xs \<Longrightarrow> ?thesis" by (simp add: ring_def)
qed

lemma ring_no_self:
  assumes "ring nx pv h (xs @ x # ys)"
  shows "nx x \<noteq> x" "pv x \<noteq> x"
proof -
  have d: "distinct (h # xs @ x # ys)" using assms by (simp add: ring_def)
  show "nx x \<noteq> x" using ring_split_next [OF assms] d by (cases ys) auto
  show "pv x \<noteq> x" using ring_split_prev [OF assms] d by (cases xs rule: rev_cases) auto
qed

end
