(* ===== verification/Drm_Random.thy ===== *)
theory Drm_Random
  imports C_Prelude
begin

text \<open>
  The Park-Miller ``minimal standard'' generator of \<open>xf86drmRandom.c\<close>. \<open>unsigned long\<close> and
  \<open>long\<close> are 64 bits wide (LP64); \<open>seed\<close> is the \<open>long\<close> field, held as a word and read with
  \<open>sint\<close> where the code compares it with \<open>0\<close>. Mixed signed and unsigned operands convert to
  \<open>unsigned long\<close>, so \<open>/\<close>, \<open>%\<close>, \<open>*\<close>, \<open>-\<close> and \<open>>=\<close> of the code are unsigned.
\<close>

section \<open>Model\<close>

record RandomState =
  rs_magic :: u64
  rs_a :: u64
  rs_m :: u64
  rs_q :: u64
  rs_r :: u64
  rs_check :: u64
  rs_seed :: u64

definition RANDOM_MAGIC :: u64 where
  "RANDOM_MAGIC = 0xfeedbeef"

text \<open>
  \<open>drmRandomCreate\<close>; \<open>ok\<close> says whether the allocation succeeds. The inner \<open>None\<close> is the
  \<open>NULL\<close> the code returns. \<open>m / a\<close> and \<open>m % a\<close> divide by the constant 48271.
\<close>

definition drmRandomCreate :: "bool \<Rightarrow> u64 \<Rightarrow> RandomState option" where
  "drmRandomCreate ok seed =
    (if \<not> ok then None
     else
       let a = 48271; m = 2147483647;
           seed1 = (if sint seed \<le> 0 then 1 else seed);
           seed2 = (if seed1 \<ge> m then m - 1 else seed1)
       in Some \<lparr>rs_magic = RANDOM_MAGIC, rs_a = a, rs_m = m, rs_q = m div a, rs_r = m mod a,
                rs_check = 399268537, rs_seed = seed2\<rparr>)"

definition drmRandom :: "RandomState \<Rightarrow> (u64 \<times> RandomState) option" where
  "drmRandom s = do {
     hi \<leftarrow> udiv (rs_seed s) (rs_q s);
     lo \<leftarrow> umod (rs_seed s) (rs_q s);
     let seed = rs_a s * lo - rs_r s * hi;
     let seed = (if sint seed \<le> 0 then seed + rs_m s else seed);
     Some (seed, s\<lparr>rs_seed := seed\<rparr>)
   }"

text \<open>
  \<open>n\<close> calls in a row, as the loops that fill a table or test the generator make them: the
  values in the order they were drawn, and the state left.
\<close>

fun drmRandoms :: "nat \<Rightarrow> RandomState \<Rightarrow> (u64 list \<times> RandomState) option" where
  "drmRandoms 0 s = Some ([], s)"
| "drmRandoms (Suc n) s = do {
     (v, s) \<leftarrow> drmRandom s;
     (vs, s) \<leftarrow> drmRandoms n s;
     Some (v # vs, s)
   }"

section \<open>The reference generator\<close>

definition lehmer_m :: nat where
  "lehmer_m = 2147483647"

definition lehmer :: "nat \<Rightarrow> nat" where
  "lehmer x = 48271 * x mod lehmer_m"

text \<open>The states the library makes: the constants of the 1993 parameters and a legal seed.\<close>

definition random_inv :: "RandomState \<Rightarrow> bool" where
  "random_inv s \<longleftrightarrow>
     rs_magic s = RANDOM_MAGIC \<and> rs_a s = 48271 \<and> rs_m s = 2147483647 \<and> rs_q s = 44488 \<and>
     rs_r s = 3399 \<and> rs_check s = 399268537 \<and>
     0 < unat (rs_seed s) \<and> unat (rs_seed s) < lehmer_m"

section \<open>Schrage's method\<close>

text \<open>
  The decomposition \<open>m = a q + r\<close> with \<open>r < q\<close> computes \<open>a x mod m\<close> without a product
  wider than \<open>m\<close>. The value before the correction lies strictly between \<open>-m\<close> and \<open>m\<close>.
\<close>

lemma coprime_lehmer: "coprime (2147483647 :: int) 48271"
  by code_simp

lemma schrage_int:
  fixes x :: int
  assumes "0 < x" "x < 2147483647"
  defines "t \<equiv> 48271 * (x mod 44488) - 3399 * (x div 44488)"
  shows "- 2147483647 < t" "t < 2147483647"
    "(if t \<le> 0 then t + 2147483647 else t) = 48271 * x mod 2147483647"
proof -
  have dm: "x = 44488 * (x div 44488) + x mod 44488" by simp
  have lo: "0 \<le> x mod 44488" "x mod 44488 < 44488" by simp_all
  have hi: "0 \<le> x div 44488" "x div 44488 \<le> 48271" using assms by auto
  show b: "- 2147483647 < t" "t < 2147483647" using lo hi unfolding t_def by linarith+
  have eq: "48271 * x = t + 2147483647 * (x div 44488)" unfolding t_def using dm by linarith
  then have m: "48271 * x mod 2147483647 = t mod 2147483647" by simp
  have nz: "48271 * x mod 2147483647 \<noteq> 0"
  proof
    assume "48271 * x mod 2147483647 = 0"
    then have "2147483647 dvd 48271 * x" by presburger
    moreover note coprime_lehmer
    ultimately have "2147483647 dvd x" by (simp add: coprime_dvd_mult_right_iff)
    then show False using assms zdvd_not_zless by blast
  qed
  show "(if t \<le> 0 then t + 2147483647 else t) = 48271 * x mod 2147483647"
  proof (cases "t \<le> 0")
    case True
    then have "t \<noteq> 0" using m nz by auto
    then have "(t + 2147483647) mod 2147483647 = t + 2147483647"
      using True b by (intro mod_pos_pos_trivial) auto
    then show ?thesis using True m by simp
  next
    case False
    then show ?thesis using m b by simp
  qed
qed

section \<open>One call\<close>

lemma sint_word_of_int_small:
  "- (2 ^ (LENGTH('a) - 1)) \<le> t \<Longrightarrow> t < 2 ^ (LENGTH('a) - 1) \<Longrightarrow>
   sint (word_of_int t :: 'a::len word) = t"
  by (simp add: sint_sbintrunc' signed_take_bit_int_eq_self)

lemma int_unat: "int (unat x) = uint x"
  by simp

lemma uint_less_of_unat: "unat x < n \<Longrightarrow> uint x < int n"
  using int_unat [of x] by linarith

lemma lehmer_pos:
  assumes "0 < x" "x < lehmer_m"
  shows "0 < lehmer x"
proof (rule ccontr)
  assume "\<not> 0 < lehmer x"
  then have "lehmer_m dvd 48271 * x" by (auto simp: lehmer_def)
  moreover have "coprime (int lehmer_m) (int 48271)" using coprime_lehmer by (simp add: lehmer_m_def)
  ultimately have "lehmer_m dvd x" by (simp only: coprime_int_iff coprime_dvd_mult_right_iff)
  then show False using assms by (auto dest: dvd_imp_le)
qed

lemma lehmer_bound: "lehmer x < lehmer_m"
  by (simp add: lehmer_def lehmer_m_def)

lemma random_invD:
  assumes "random_inv s"
  shows "rs_a s = 48271" "rs_m s = 2147483647" "rs_q s = 44488" "rs_r s = 3399"
    "0 < uint (rs_seed s)" "uint (rs_seed s) < 2147483647"
proof -
  note int_unat [of "rs_seed s"]
  moreover have "0 < unat (rs_seed s)" "unat (rs_seed s) < 2147483647"
    using assms by (simp_all add: random_inv_def lehmer_m_def)
  ultimately show "0 < uint (rs_seed s)" "uint (rs_seed s) < 2147483647" by linarith+
qed (use assms in \<open>simp_all add: random_inv_def\<close>)

lemma drmRandom_step:
  assumes "random_inv s"
  shows "drmRandom s = Some (word_of_nat (lehmer (unat (rs_seed s))),
                             s\<lparr>rs_seed := word_of_nat (lehmer (unat (rs_seed s)))\<rparr>)"
proof -
  define x where "x = uint (rs_seed s)"
  have x: "0 < x" "x < 2147483647" using random_invD [OF assms] by (simp_all add: x_def)
  define t where "t = 48271 * (x mod 44488) - 3399 * (x div 44488)"
  note sch = schrage_int [OF x, folded t_def]
  have hi: "rs_seed s div 44488 = word_of_int (x div 44488)"
    unfolding x_def by (simp add: word_div_def)
  have lo: "rs_seed s mod 44488 = word_of_int (x mod 44488)"
    unfolding x_def by (simp add: word_mod_def)
  have w: "48271 * (rs_seed s mod 44488) - 3399 * (rs_seed s div 44488) = (word_of_int t :: u64)"
    unfolding hi lo t_def by simp
  have st: "sint (word_of_int t :: u64) = t"
    using sch(1,2) by (intro sint_word_of_int_small) auto
  have "(if t \<le> 0 then word_of_int t + 2147483647 else word_of_int t) =
        (word_of_int (if t \<le> 0 then t + 2147483647 else t) :: u64)" by simp
  also have "\<dots> = word_of_int (48271 * x mod 2147483647)" by (simp only: sch(3))
  also have "48271 * x mod 2147483647 = int (lehmer (unat (rs_seed s)))"
    by (simp add: x_def lehmer_def lehmer_m_def zmod_int)
  finally have res: "(if t \<le> 0 then word_of_int t + 2147483647 else word_of_int t) =
      (word_of_nat (lehmer (unat (rs_seed s))) :: u64)" by simp
  show ?thesis
    using random_invD(1-4) [OF assms] w st res by (simp add: drmRandom_def Let_def cong: if_cong split del: if_split)
qed

lemma unat_word_of_lehmer: "unat (word_of_nat (lehmer x) :: u64) = lehmer x"
  using lehmer_bound [of x] by (simp add: unat_of_nat lehmer_m_def)

lemma drmRandom_inv:
  "random_inv s \<Longrightarrow> drmRandom s = Some (v, s') \<Longrightarrow> random_inv s'"
  by (auto simp: drmRandom_step random_inv_def unat_word_of_lehmer lehmer_bound lehmer_pos)

section \<open>Creation and sequences of calls\<close>

lemma drmRandomCreate_inv: "drmRandomCreate ok seed = Some s \<Longrightarrow> random_inv s"
proof -
  assume "drmRandomCreate ok seed = Some s"
  moreover have "0 < unat seed" if "\<not> sint seed \<le> 0"
    using that by (metis bot_nat_0.not_eq_extremum order_refl signed_0 unat_eq_zero)
  ultimately show ?thesis
    by (auto simp: drmRandomCreate_def random_inv_def lehmer_m_def Let_def word_le_nat_alt
        split: if_splits)
qed

lemma lehmer_iter: "(lehmer ^^ n) x mod lehmer_m = 48271 ^ n * x mod lehmer_m"
proof (induction n)
  case 0
  then show ?case by simp
next
  case (Suc n)
  have "(lehmer ^^ Suc n) x mod lehmer_m = 48271 * ((lehmer ^^ n) x mod lehmer_m) mod lehmer_m"
    by (simp add: lehmer_def mod_mult_right_eq)
  also have "\<dots> = 48271 ^ Suc n * x mod lehmer_m"
    by (simp only: Suc.IH) (simp add: mod_mult_right_eq mult.assoc)
  finally show ?case .
qed

lemma drmRandoms_lehmer:
  "random_inv s \<Longrightarrow>
   drmRandoms n s = Some (map (\<lambda>k. word_of_nat ((lehmer ^^ Suc k) (unat (rs_seed s)))) [0..<n],
                          s\<lparr>rs_seed := word_of_nat ((lehmer ^^ n) (unat (rs_seed s)))\<rparr>)"
proof (induction n arbitrary: s)
  case 0
  then show ?case by simp
next
  case (Suc n)
  define s' where "s' = s\<lparr>rs_seed := word_of_nat (lehmer (unat (rs_seed s)))\<rparr>"
  have step: "drmRandom s = Some (word_of_nat (lehmer (unat (rs_seed s))), s')"
    unfolding s'_def using Suc.prems by (rule drmRandom_step)
  have seed: "unat (rs_seed s') = lehmer (unat (rs_seed s))"
    by (simp add: s'_def unat_word_of_lehmer)
  note IH = Suc.IH [OF drmRandom_inv [OF Suc.prems step]]
  show ?case
    by (simp only: drmRandoms.simps step bind.bind_lunit prod.case IH seed)
       (simp add: s'_def funpow_swap1 map_Suc_upt [symmetric] upt_rec [of 0 "Suc n"] del: upt_Suc)
qed

section \<open>Evaluating powers of the multiplier\<close>

text \<open>Square and multiply modulo \<open>m\<close>, on integers, so that long runs evaluate in the kernel.\<close>

fun pow_mod :: "int \<Rightarrow> num \<Rightarrow> int \<Rightarrow> int" where
  "pow_mod b num.One m = b mod m"
| "pow_mod b (num.Bit0 n) m = pow_mod (b * b mod m) n m"
| "pow_mod b (num.Bit1 n) m = b * pow_mod (b * b mod m) n m mod m"

lemma pow_mod_power: "pow_mod b n m = b ^ numeral n mod m"
proof (induction b n m rule: pow_mod.induct)
  case (2 b n m)
  then show ?case by (simp add: power_mod numeral_Bit0 power_add power_mult_distrib)
next
  case (3 b n m)
  have "pow_mod b (num.Bit1 n) m = b * ((b * b) ^ numeral n mod m) mod m"
    using 3 by (simp add: power_mod)
  also have "\<dots> = b ^ numeral (num.Bit1 n) mod m"
    unfolding power_numeral_odd Let_def by (simp add: mod_mult_right_eq power_mult_distrib ac_simps)
  finally show ?case .
qed simp

lemma lehmer_iter_int:
  "int ((lehmer ^^ n) x mod lehmer_m) = 48271 ^ n mod 2147483647 * int x mod 2147483647"
  unfolding lehmer_iter by (simp add: zmod_int lehmer_m_def mod_mult_left_eq)

lemma lehmer_iter_less: "x < lehmer_m \<Longrightarrow> (lehmer ^^ n) x < lehmer_m"
  by (cases n) (simp_all add: lehmer_bound)

lemma lehmer_power_10000: "(48271 :: int) ^ 10000 mod 2147483647 = 399268537"
  unfolding pow_mod_power [symmetric] by simp

lemma lehmer_power_period: "(48271 :: int) ^ 2147483646 mod 2147483647 = 1"
  unfolding pow_mod_power [symmetric] by simp

section \<open>Properties\<close>

text \<open>C26. From any legal state, a call of \<open>drmRandom\<close> does not trap and returns exactly
  \<open>48271 * seed mod (2^31 - 1)\<close>, the next element of the reference Lehmer sequence, although
  Schrage's decomposition never forms that product; the new state is legal again.\<close>

theorem drmRandom_is_lehmer:
  assumes "random_inv s"
  shows "\<exists>v s'. drmRandom s = Some (v, s') \<and> unat v = lehmer (unat (rs_seed s)) \<and>
           rs_seed s' = v \<and> random_inv s'"
proof -
  obtain v s' where "drmRandom s = Some (v, s')" "unat v = lehmer (unat (rs_seed s))"
    "rs_seed s' = v"
    using drmRandom_step [OF assms] by (auto simp: unat_word_of_lehmer)
  with drmRandom_inv [OF assms] show ?thesis by blast
qed

definition random_37 :: RandomState where
  "random_37 = \<lparr>rs_magic = RANDOM_MAGIC, rs_a = 48271, rs_m = 2147483647, rs_q = 44488,
     rs_r = 3399, rs_check = 399268537, rs_seed = 37\<rparr>"

theorem drmRandom_is_lehmer_witness:
  "random_inv random_37 \<and>
   (\<exists>v s'. drmRandom random_37 = Some (v, s') \<and> unat v = 1786027 \<and> random_inv s')"
proof -
  have inv: "random_inv random_37" by (simp add: random_inv_def random_37_def lehmer_m_def)
  show ?thesis
    using inv drmRandom_is_lehmer [OF inv] by (auto simp: random_37_def lehmer_def lehmer_m_def)
qed

text \<open>\<open>drmRandomCreate\<close> clamps every 64-bit argument to a legal seed: whenever the
  allocation succeeds the state satisfies the invariant, and a seed already in range is kept.\<close>

theorem drmRandomCreate_legal:
  "\<exists>s. drmRandomCreate True seed = Some s \<and> random_inv s \<and>
     (rs_seed s = seed \<or> unat seed = 0 \<or> lehmer_m \<le> unat seed)"
proof -
  obtain s where s: "drmRandomCreate True seed = Some s" by (simp add: drmRandomCreate_def Let_def)
  moreover have "rs_seed s = seed \<or> unat seed = 0 \<or> lehmer_m \<le> unat seed"
  proof (rule ccontr)
    assume "\<not> ?thesis"
    then have n: "rs_seed s \<noteq> seed" "0 < unat seed" "unat seed < 2147483647"
      by (auto simp: lehmer_m_def)
    have "sint seed = uint seed"
      using sint_word_of_int_small [where 'a = 64, of "uint seed"] uint_less_of_unat [OF n(3)]
      by (simp add: order_trans [OF _ uint_ge_0])
    moreover have "0 < uint seed" using n(2) int_unat [of seed] by linarith
    ultimately show False using s n by (auto simp: drmRandomCreate_def Let_def word_le_nat_alt)
  qed
  ultimately show ?thesis using drmRandomCreate_inv by blast
qed

text \<open>The self-test constant the generator carries is right: after 10000 calls from seed 1
  the value drawn is the \<open>check\<close> field.\<close>

theorem drmRandom_check_value:
  "\<exists>s vs s'. drmRandomCreate True 1 = Some s \<and> drmRandoms 10000 s = Some (vs, s') \<and>
     length vs = 10000 \<and> vs ! 9999 = rs_check s"
proof -
  obtain s where s: "drmRandomCreate True 1 = Some s" "rs_seed s = 1" "rs_check s = 399268537"
    by (simp add: drmRandomCreate_def Let_def word_le_nat_alt)
  note run = drmRandoms_lehmer [OF drmRandomCreate_inv [OF s(1)], of 10000]
  have "int ((lehmer ^^ 10000) 1 mod lehmer_m) = 399268537"
    unfolding lehmer_iter_int lehmer_power_10000 by simp
  then have "(lehmer ^^ 10000) 1 = 399268537"
    using lehmer_iter_less [of 1 10000] by (simp add: lehmer_m_def)
  moreover have "(lehmer ^^ Suc 9999) 1 = (lehmer ^^ 10000) 1" by (rule arg_cong) simp
  ultimately have "word_of_nat ((lehmer ^^ Suc 9999) (unat (rs_seed s))) = rs_check s"
    using s by simp
  then show ?thesis using s(1) run by (simp del: funpow.simps)
qed

text \<open>The state returns to itself after \<open>2^31 - 2\<close> calls: the period of the generator is at
  most \<open>2^31 - 2\<close>, not the \<open>2^31 - 1\<close> the comment at the top of the file gives.\<close>

theorem drmRandom_period:
  assumes "random_inv s"
  shows "\<exists>vs. drmRandoms (2 ^ 31 - 2) s = Some (vs, s)"
proof -
  let ?x = "unat (rs_seed s)"
  have x: "?x < lehmer_m" using assms by (simp add: random_inv_def)
  have "int ((lehmer ^^ 2147483646) ?x mod lehmer_m) = int ?x"
    unfolding lehmer_iter_int lehmer_power_period using random_invD(5,6) [OF assms] by simp
  then have "(lehmer ^^ 2147483646) ?x = ?x"
    using lehmer_iter_less [OF x, of 2147483646] by (simp only: mod_less of_nat_eq_iff)
  then have "s\<lparr>rs_seed := word_of_nat ((lehmer ^^ 2147483646) ?x)\<rparr> = s" by simp
  then show ?thesis using drmRandoms_lehmer [OF assms, of 2147483646] by simp
qed

theorem drmRandom_period_witness:
  "\<exists>vs. drmRandoms (2 ^ 31 - 2) random_37 = Some (vs, random_37)"
proof (rule drmRandom_period)
  show "random_inv random_37" by (simp add: random_inv_def random_37_def lehmer_m_def)
qed

end
