(* ===== verification/Drm_Lists.thy ===== *)
theory Drm_Lists
  imports C_Rings
begin

text \<open>
  The intrusive lists of \<open>libdrm_lists.h\<close>, the kernel-style rings that the buffer managers
  keep their caches, LRU queues and fence lists in. Every macro is one function on a heap of
  list heads, with the loads and stores in the order the macro makes them; the iteration
  macros are loops over a body.
\<close>

section \<open>Model\<close>

record drmMMListHead =
  lh_prev :: addr
  lh_next :: addr

type_synonym lheap = "drmMMListHead heap"

definition DRMINITLISTHEAD :: "lheap \<Rightarrow> addr \<Rightarrow> lheap option" where
  "DRMINITLISTHEAD s item = do {
     s \<leftarrow> wr s item (\<lambda>b. b\<lparr>lh_prev := item\<rparr>);
     wr s item (\<lambda>b. b\<lparr>lh_next := item\<rparr>)
   }"

definition DRMLISTADD :: "lheap \<Rightarrow> addr \<Rightarrow> addr \<Rightarrow> lheap option" where
  "DRMLISTADD s item list = do {
     s \<leftarrow> wr s item (\<lambda>b. b\<lparr>lh_prev := list\<rparr>);
     n \<leftarrow> ld s list lh_next;
     s \<leftarrow> wr s item (\<lambda>b. b\<lparr>lh_next := n\<rparr>);
     n \<leftarrow> ld s list lh_next;
     s \<leftarrow> wr s n (\<lambda>b. b\<lparr>lh_prev := item\<rparr>);
     wr s list (\<lambda>b. b\<lparr>lh_next := item\<rparr>)
   }"

definition DRMLISTADDTAIL :: "lheap \<Rightarrow> addr \<Rightarrow> addr \<Rightarrow> lheap option" where
  "DRMLISTADDTAIL s item list = do {
     s \<leftarrow> wr s item (\<lambda>b. b\<lparr>lh_next := list\<rparr>);
     p \<leftarrow> ld s list lh_prev;
     s \<leftarrow> wr s item (\<lambda>b. b\<lparr>lh_prev := p\<rparr>);
     p \<leftarrow> ld s list lh_prev;
     s \<leftarrow> wr s p (\<lambda>b. b\<lparr>lh_next := item\<rparr>);
     wr s list (\<lambda>b. b\<lparr>lh_prev := item\<rparr>)
   }"

definition DRMLISTDEL :: "lheap \<Rightarrow> addr \<Rightarrow> lheap option" where
  "DRMLISTDEL s item = do {
     p \<leftarrow> ld s item lh_prev;
     n \<leftarrow> ld s item lh_next;
     s \<leftarrow> wr s p (\<lambda>b. b\<lparr>lh_next := n\<rparr>);
     n \<leftarrow> ld s item lh_next;
     p \<leftarrow> ld s item lh_prev;
     wr s n (\<lambda>b. b\<lparr>lh_prev := p\<rparr>)
   }"

definition DRMLISTDELINIT :: "lheap \<Rightarrow> addr \<Rightarrow> lheap option" where
  "DRMLISTDELINIT s item = do {
     p \<leftarrow> ld s item lh_prev;
     n \<leftarrow> ld s item lh_next;
     s \<leftarrow> wr s p (\<lambda>b. b\<lparr>lh_next := n\<rparr>);
     n \<leftarrow> ld s item lh_next;
     p \<leftarrow> ld s item lh_prev;
     s \<leftarrow> wr s n (\<lambda>b. b\<lparr>lh_prev := p\<rparr>);
     s \<leftarrow> wr s item (\<lambda>b. b\<lparr>lh_next := item\<rparr>);
     wr s item (\<lambda>b. b\<lparr>lh_prev := item\<rparr>)
   }"

text \<open>The address of the struct around a list head: \<open>off\<close> is \<open>offsetof(type, field)\<close>.\<close>

definition DRMLISTENTRY :: "nat \<Rightarrow> addr \<Rightarrow> addr" where
  "DRMLISTENTRY off item = item - off"

definition DRMLISTEMPTY :: "lheap \<Rightarrow> addr \<Rightarrow> bool option" where
  "DRMLISTEMPTY s item = do { n \<leftarrow> ld s item lh_next; Some (n = item) }"

definition DRMLISTSINGLE :: "lheap \<Rightarrow> addr \<Rightarrow> bool option" where
  "DRMLISTSINGLE s list = do {
     e \<leftarrow> DRMLISTEMPTY s list;
     if e then Some False else do {
       n \<leftarrow> ld s list lh_next;
       p \<leftarrow> ld s list lh_prev;
       Some (n = p)
     }
   }"

text \<open>
  \<open>DRMLISTFOREACH\<close>: from \<open>item\<close> until the head comes back; the body maps the heap and a
  local state \<open>x\<close>, and the \<open>next\<close> link is read after it.
\<close>

partial_function (option) foreach_loop ::
  "(lheap \<Rightarrow> 'x \<Rightarrow> addr \<Rightarrow> (lheap \<times> 'x) option) \<Rightarrow> addr \<Rightarrow> lheap \<Rightarrow> 'x \<Rightarrow> addr \<Rightarrow> (lheap \<times> 'x) option"
where
  "foreach_loop body list s x item =
    (if item = list then Some (s, x)
     else do {
       (s, x) \<leftarrow> body s x item;
       n \<leftarrow> ld s item lh_next;
       foreach_loop body list s x n
     })"

definition DRMLISTFOREACH ::
  "(lheap \<Rightarrow> 'x \<Rightarrow> addr \<Rightarrow> (lheap \<times> 'x) option) \<Rightarrow> addr \<Rightarrow> lheap \<Rightarrow> 'x \<Rightarrow> (lheap \<times> 'x) option"
where
  "DRMLISTFOREACH body list s x = do {
     n \<leftarrow> ld s list lh_next;
     foreach_loop body list s x n
   }"

text \<open>\<open>DRMLISTFOREACHSAFE\<close>: the successor is read before the body runs. The reverse macro is the
  same loop along \<open>prev\<close>, so the link field is a parameter.\<close>

partial_function (option) foreach_safe_loop ::
  "(drmMMListHead \<Rightarrow> addr) \<Rightarrow> (lheap \<Rightarrow> 'x \<Rightarrow> addr \<Rightarrow> (lheap \<times> 'x) option) \<Rightarrow> addr \<Rightarrow>
   lheap \<Rightarrow> 'x \<Rightarrow> addr \<Rightarrow> addr \<Rightarrow> (lheap \<times> 'x) option"
where
  "foreach_safe_loop link body list s x item temp =
    (if item = list then Some (s, x)
     else do {
       (s, x) \<leftarrow> body s x item;
       t \<leftarrow> ld s temp link;
       foreach_safe_loop link body list s x temp t
     })"

definition foreach_safe ::
  "(drmMMListHead \<Rightarrow> addr) \<Rightarrow> (lheap \<Rightarrow> 'x \<Rightarrow> addr \<Rightarrow> (lheap \<times> 'x) option) \<Rightarrow> addr \<Rightarrow>
   lheap \<Rightarrow> 'x \<Rightarrow> (lheap \<times> 'x) option"
where
  "foreach_safe link body list s x = do {
     item \<leftarrow> ld s list link;
     temp \<leftarrow> ld s item link;
     foreach_safe_loop link body list s x item temp
   }"

definition DRMLISTFOREACHSAFE ::
  "(lheap \<Rightarrow> 'x \<Rightarrow> addr \<Rightarrow> (lheap \<times> 'x) option) \<Rightarrow> addr \<Rightarrow> lheap \<Rightarrow> 'x \<Rightarrow> (lheap \<times> 'x) option"
where
  "DRMLISTFOREACHSAFE = foreach_safe lh_next"

definition DRMLISTFOREACHSAFEREVERSE ::
  "(lheap \<Rightarrow> 'x \<Rightarrow> addr \<Rightarrow> (lheap \<times> 'x) option) \<Rightarrow> addr \<Rightarrow> lheap \<Rightarrow> 'x \<Rightarrow> (lheap \<times> 'x) option"
where
  "DRMLISTFOREACHSAFEREVERSE = foreach_safe lh_prev"

definition DRMLISTJOIN :: "lheap \<Rightarrow> addr \<Rightarrow> addr \<Rightarrow> lheap option" where
  "DRMLISTJOIN s list join = do {
     e \<leftarrow> DRMLISTEMPTY s list;
     if e then Some s else do {
       n \<leftarrow> ld s list lh_next;
       s \<leftarrow> wr s n (\<lambda>b. b\<lparr>lh_prev := join\<rparr>);
       p \<leftarrow> ld s list lh_prev;
       jn \<leftarrow> ld s join lh_next;
       s \<leftarrow> wr s p (\<lambda>b. b\<lparr>lh_next := jn\<rparr>);
       jn \<leftarrow> ld s join lh_next;
       p \<leftarrow> ld s list lh_prev;
       s \<leftarrow> wr s jn (\<lambda>b. b\<lparr>lh_prev := p\<rparr>);
       n \<leftarrow> ld s list lh_next;
       wr s join (\<lambda>b. b\<lparr>lh_next := n\<rparr>)
     }
   }"

section \<open>Representation\<close>

definition lrep :: "lheap \<Rightarrow> addr \<Rightarrow> addr list \<Rightarrow> bool" where
  "lrep s h xs \<longleftrightarrow> set (h # xs) \<subseteq> dom s \<and> ring (fld lh_next s) (fld lh_prev s) h xs"

lemma lrepD:
  "lrep s h xs \<Longrightarrow> ring (fld lh_next s) (fld lh_prev s) h xs"
  "lrep s h xs \<Longrightarrow> a \<in> set (h # xs) \<Longrightarrow> a \<in> dom s"
  by (auto simp: lrep_def)

lemma lrep_next_dom: "lrep s h xs \<Longrightarrow> a \<in> set (h # xs) \<Longrightarrow> fld lh_next s a \<in> dom s"
  by (meson lrepD ring_next_mem)

lemma lrep_prev_dom: "lrep s h xs \<Longrightarrow> a \<in> set (h # xs) \<Longrightarrow> fld lh_prev s a \<in> dom s"
  by (meson lrepD ring_prev_mem)

lemma lrep_init: "a \<in> dom s \<Longrightarrow> \<exists>s'. DRMINITLISTHEAD s a = Some s' \<and> lrep s' a [] \<and> dom s' = dom s"
  by (auto simp: DRMINITLISTHEAD_def heap_simps lrep_def ring_Nil)

lemma lrep_add:
  assumes r: "lrep s l xs" and n: "n \<in> dom s" "n \<notin> set (l # xs)"
  shows "\<exists>s'. DRMLISTADD s n l = Some s' \<and> lrep s' l (n # xs) \<and> dom s' = dom s"
proof -
  have d: "l \<in> dom s" "fld lh_next s l \<in> dom s"
    using r lrepD lrep_next_dom by auto
  have ne: "n \<noteq> l" "l \<noteq> n" "fld lh_next s l \<noteq> n"
    using n ring_next_mem [OF lrepD(1) [OF r], of l] by auto
  note ring_insert [of "fld lh_next s" "fld lh_prev s" l "[]" xs n l]
  then show ?thesis
    using r n d ne by (simp add: DRMLISTADD_def heap_simps lrep_def fun_upd_twist)
qed

lemma lrep_addtail:
  assumes r: "lrep s l xs" and n: "n \<in> dom s" "n \<notin> set (l # xs)"
  shows "\<exists>s'. DRMLISTADDTAIL s n l = Some s' \<and> lrep s' l (xs @ [n]) \<and> dom s' = dom s"
proof -
  let ?p = "fld lh_prev s l"
  have rg: "ring (fld lh_next s) (fld lh_prev s) l xs" using r by (rule lrepD)
  have p: "?p = last (l # xs)" using rg unfolding ring_def by (blast intro: links_prev)
  have np: "fld lh_next s ?p = l"
  proof (cases xs rule: rev_cases)
    case Nil
    then show ?thesis using rg by (simp add: ring_Nil)
  next
    case (snoc ys y)
    then show ?thesis using rg p ring_split_next [of _ _ l ys y "[]"] by simp
  qed
  have d: "l \<in> dom s" "?p \<in> dom s" using r lrepD lrep_prev_dom by auto
  have ne: "n \<noteq> l" "l \<noteq> n" "?p \<noteq> n" using n ring_prev_mem [OF rg, of l] by auto
  note ring_insert [of "fld lh_next s" "fld lh_prev s" l xs "[]" n ?p]
  then show ?thesis
    using r n d ne p np by (simp add: DRMLISTADDTAIL_def heap_simps lrep_def fun_upd_twist)
qed

lemma lrep_del_dom:
  assumes "lrep s l (xs @ x # ys)"
  shows "x \<in> dom s" "fld lh_next s x \<in> dom s" "fld lh_prev s x \<in> dom s"
    "fld lh_prev s x \<noteq> x" "fld lh_next s x \<noteq> x"
proof -
  show "x \<in> dom s" using lrepD(2) [OF assms] by simp
  show "fld lh_next s x \<in> dom s" using lrep_next_dom [OF assms] by simp
  show "fld lh_prev s x \<in> dom s" using lrep_prev_dom [OF assms] by simp
qed (use ring_no_self [OF lrepD(1) [OF assms]] in auto)

lemma lrep_del:
  assumes r: "lrep s l (xs @ x # ys)"
  shows "\<exists>s'. DRMLISTDEL s x = Some s' \<and> lrep s' l (xs @ ys) \<and> dom s' = dom s"
  using ring_remove [OF lrepD(1) [OF r]] lrep_del_dom [OF r] r
  by (simp add: DRMLISTDEL_def heap_simps lrep_def)

lemma lrep_delinit:
  assumes r: "lrep s l (xs @ x # ys)"
  shows "\<exists>s'. DRMLISTDELINIT s x = Some s' \<and> lrep s' l (xs @ ys) \<and> lrep s' x [] \<and> dom s' = dom s"
proof -
  let ?nx = "(fld lh_next s)(fld lh_prev s x := fld lh_next s x)"
  let ?pv = "(fld lh_prev s)(fld lh_next s x := fld lh_prev s x)"
  have d: "x \<notin> set (l # xs @ ys)" using lrepD(1) [OF r] by (auto simp: ring_def)
  have "ring (?nx(x := x)) (?pv(x := x)) l (xs @ ys)"
    using ring_remove [OF lrepD(1) [OF r]] d by (subst ring_cong [where nx' = ?nx and pv' = ?pv]) auto
  then show ?thesis
    using lrep_del_dom [OF r] r by (simp add: DRMLISTDELINIT_def heap_simps lrep_def ring_Nil)
qed

lemma lrep_empty: "lrep s l xs \<Longrightarrow> DRMLISTEMPTY s l = Some (xs = [])"
  using ring_split_next [of "fld lh_next s" "fld lh_prev s" l "[]" "hd xs" "tl xs"]
  by (cases xs) (auto simp: DRMLISTEMPTY_def heap_simps lrep_def ring_def)

lemma lrep_single: "lrep s l xs \<Longrightarrow> DRMLISTSINGLE s l = Some (length xs = 1)"
proof -
  assume r: "lrep s l xs"
  have l: "l \<in> dom s" using lrepD(2) [OF r] by simp
  have rg: "links (fld lh_next s) (fld lh_prev s) l xs l" "distinct (l # xs)"
    using lrepD(1) [OF r] by (auto simp: ring_def)
  have "xs \<noteq> [] \<Longrightarrow> (hd (xs @ [l]) = last (l # xs)) = (length xs = 1)"
    using rg(2) by (cases xs) (auto simp: last_conv_nth nth_Cons' split: if_splits)
  then show ?thesis
    using links_next [OF rg(1)] links_prev [OF rg(1)] l
    by (auto simp: DRMLISTSINGLE_def lrep_empty [OF r] heap_simps)
qed

text \<open>Splicing: the cells of \<open>list\<close> go to the front of \<open>join\<close>.\<close>

lemma links_join:
  assumes "links nx pv l xs l" "xs \<noteq> []" "links nx pv j ys j"
    "distinct (l # xs @ j # ys)"
  shows "links (nx(last xs := nx j, j := nx l)) (pv(nx l := j, nx j := last xs)) j (xs @ ys) j"
proof -
  obtain x xt where xs: "xs = x # xt" using assms(2) by (cases xs) auto
  show ?thesis
  proof (cases xt rule: rev_cases)
    case Nil
    then show ?thesis using assms xs by (cases ys) auto
  next
    case (snoc zs z)
    then show ?thesis using assms xs by (cases ys) (auto simp: links_append)
  qed
qed

lemma lrep_join:
  assumes l: "lrep s l xs" and j: "lrep s j ys" and disj: "set (l # xs) \<inter> set (j # ys) = {}"
  shows "\<exists>s'. DRMLISTJOIN s l j = Some s' \<and> lrep s' j (xs @ ys) \<and> dom s' = dom s"
proof (cases "xs = []")
  case True
  then show ?thesis using j by (simp add: DRMLISTJOIN_def lrep_empty [OF l])
next
  case False
  have rl: "links (fld lh_next s) (fld lh_prev s) l xs l" "distinct (l # xs)"
    and rj: "links (fld lh_next s) (fld lh_prev s) j ys j" "distinct (j # ys)"
    using lrepD(1) [OF l] lrepD(1) [OF j] by (auto simp: ring_def)
  have p: "fld lh_prev s l = last xs" using links_prev [OF rl(1)] False by simp
  have n: "fld lh_next s l \<in> set xs"
    using links_next [OF rl(1)] False by (cases xs) auto
  have jn: "fld lh_next s j \<in> set (j # ys)" using ring_next_mem [OF lrepD(1) [OF j], of j] by simp
  have ls: "last xs \<in> set xs" using False by simp
  have ne: "l \<noteq> j" "fld lh_next s l \<noteq> l" "last xs \<noteq> l" "last xs \<noteq> j" "fld lh_next s j \<noteq> l"
    using disj n ls jn rl(2) by auto
  have d: "l \<in> dom s" "j \<in> dom s" "fld lh_next s l \<in> dom s" "last xs \<in> dom s"
    "fld lh_next s j \<in> dom s"
    using lrepD(2) [OF l] lrepD(2) [OF j] n ls jn by auto
  have "distinct (l # xs @ j # ys)" using rl rj disj by auto
  from links_join [OF rl(1) False rj(1) this]
  show ?thesis
    using l j disj d ne p rl rj False
    by (auto simp: DRMLISTJOIN_def lrep_empty [OF l] heap_simps lrep_def ring_def)
qed

section \<open>Iteration\<close>

lemma foreach_loop_visits:
  assumes "chain (fld lh_next s) a xs l" "set xs \<subseteq> dom s" "l \<notin> set xs"
    and "\<And>x a. a \<in> set xs \<Longrightarrow> body s x a = Some (s, f a x)"
  shows "foreach_loop body l s x a = Some (s, fold f xs x)"
  using assms
proof (induction xs arbitrary: a x)
  case Nil
  then show ?case by (simp add: foreach_loop.simps)
next
  case (Cons y ys)
  have "foreach_loop body l s (f y x) (fld lh_next s y) = Some (s, fold f ys (f y x))"
    using Cons.prems by (intro Cons.IH) auto
  then show ?case
    using Cons.prems by (auto simp: foreach_loop.simps [of body l s x y] heap_simps)
qed

lemma foreach_visits:
  assumes r: "lrep s l xs" and b: "\<And>x a. a \<in> set xs \<Longrightarrow> body s x a = Some (s, f a x)"
  shows "DRMLISTFOREACH body l s x = Some (s, fold f xs x)"
proof -
  have "chain (fld lh_next s) (fld lh_next s l) xs l" "set xs \<subseteq> dom s" "l \<notin> set xs" "l \<in> dom s"
    using r ring_chain by (auto simp: lrep_def ring_def)
  with foreach_loop_visits [of s _ xs l body f] b show ?thesis
    by (simp add: DRMLISTFOREACH_def heap_simps)
qed

text \<open>
  A body that either keeps the current cell or unlinks it leaves the safe loops on track: the
  cells not kept are gone, every cell was visited once and in order.
\<close>

lemma safe_loop_filters:
  assumes "lrep s l (ks @ xs)"
    and "\<And>s x a ks ys. a \<in> set xs \<Longrightarrow> lrep s l (ks @ a # ys) \<Longrightarrow>
           \<exists>s'. body s x a = Some (s', f a x) \<and> lrep s' l (ks @ (if keep a then a # ys else ys))"
  shows "\<exists>s'. foreach_safe_loop lh_next body l s x (hd (xs @ [l])) t = Some (s', fold f xs x) \<and>
           lrep s' l (ks @ filter keep xs)
         \<or> xs \<noteq> [] \<and> t \<noteq> hd (tl xs @ [l])"
  using assms
proof (induction xs arbitrary: ks s x t)
  case Nil
  then show ?case by (simp add: foreach_safe_loop.simps)
next
  case (Cons a xs)
  show ?case
  proof (cases "t = hd (xs @ [l])")
    case True
    let ?ks = "ks @ (if keep a then [a] else [])"
    have al: "a \<noteq> l" using Cons.prems(1) by (auto simp: lrep_def ring_def)
    obtain s' where b: "body s x a = Some (s', f a x)"
      and r: "lrep s' l (ks @ (if keep a then a # xs else xs))"
      using Cons.prems by fastforce
    then have r': "lrep s' l (?ks @ xs)" by (simp split: if_splits)
    have td: "t \<in> dom s'" using True lrepD(2) [OF r'] by (cases xs) auto
    have "fld lh_next s' t = hd (tl xs @ [l])" if "xs \<noteq> []"
    proof -
      from that obtain y ys where "xs = y # ys" by (cases xs) auto
      then show ?thesis using True ring_split_next [OF lrepD(1) [OF r' [unfolded \<open>xs = y # ys\<close>]]]
        by simp
    qed
    with Cons.IH [OF r', of "f a x" "fld lh_next s' t"] Cons.prems(2)
    have "\<exists>s''. foreach_safe_loop lh_next body l s' (f a x) t (fld lh_next s' t) =
        Some (s'', fold f xs (f a x)) \<and> lrep s'' l (?ks @ filter keep xs)"
      using True by auto
    then show ?thesis
      using al b td by (auto simp: foreach_safe_loop.simps [of _ _ _ _ _ a] heap_simps)
  qed simp
qed

lemma foreach_safe_filters:
  assumes r: "lrep s l xs"
    and b: "\<And>s x a ks ys. a \<in> set xs \<Longrightarrow> lrep s l (ks @ a # ys) \<Longrightarrow>
           \<exists>s'. body s x a = Some (s', f a x) \<and> lrep s' l (ks @ (if keep a then a # ys else ys))"
  shows "\<exists>s'. DRMLISTFOREACHSAFE body l s x = Some (s', fold f xs x) \<and> lrep s' l (filter keep xs)"
proof -
  have l: "l \<in> dom s" "fld lh_next s l \<in> dom s" using r lrepD(2) lrep_next_dom by auto
  have n: "fld lh_next s l = hd (xs @ [l])"
    using lrepD(1) [OF r] by (auto simp: ring_def dest: links_next)
  have t: "fld lh_next s (hd (xs @ [l])) = hd (tl xs @ [l])" if "xs \<noteq> []"
  proof -
    from that obtain y ys where "xs = y # ys" by (cases xs) auto
    then show ?thesis using ring_split_next [of _ _ l "[]" y ys] lrepD(1) [OF r] by simp
  qed
  show ?thesis
    using safe_loop_filters [of s l "[]" xs body f keep x "fld lh_next s (hd (xs @ [l]))"]
      r b l n t
    by (auto simp: DRMLISTFOREACHSAFE_def foreach_safe_def heap_simps)
qed

section \<open>The list contract\<close>

text \<open>
  What the users of the macros rely on: \<open>rep s l xs\<close> says that the list with head \<open>l\<close> holds
  the cells \<open>xs\<close> in order. The buffer managers move a buffer to the tail of an LRU list with
  \<open>del\<close> and \<open>addtail\<close>, and drain a list from its front.
\<close>

locale intrusive_list =
  fixes rep :: "'s \<Rightarrow> addr \<Rightarrow> addr list \<Rightarrow> bool"
    and valid :: "'s \<Rightarrow> addr \<Rightarrow> bool"
    and add :: "'s \<Rightarrow> addr \<Rightarrow> addr \<Rightarrow> 's option"
    and addtail :: "'s \<Rightarrow> addr \<Rightarrow> addr \<Rightarrow> 's option"
    and del :: "'s \<Rightarrow> addr \<Rightarrow> 's option"
  assumes rep_distinct: "rep s l xs \<Longrightarrow> distinct (l # xs)"
    and rep_valid: "rep s l xs \<Longrightarrow> a \<in> set (l # xs) \<Longrightarrow> valid s a"
    and rep_add: "rep s l xs \<Longrightarrow> valid s n \<Longrightarrow> n \<notin> set (l # xs) \<Longrightarrow>
       \<exists>s'. add s n l = Some s' \<and> rep s' l (n # xs) \<and> valid s' = valid s"
    and rep_addtail: "rep s l xs \<Longrightarrow> valid s n \<Longrightarrow> n \<notin> set (l # xs) \<Longrightarrow>
       \<exists>s'. addtail s n l = Some s' \<and> rep s' l (xs @ [n]) \<and> valid s' = valid s"
    and rep_del: "rep s l (xs @ x # ys) \<Longrightarrow>
       \<exists>s'. del s x = Some s' \<and> rep s' l (xs @ ys) \<and> valid s' = valid s"
begin

text \<open>Touching a cell: it becomes the most recently used one, the others keep their order.\<close>

lemma move_to_tail:
  assumes "rep s l (xs @ x # ys)"
  shows "\<exists>s'. (del s x \<bind> (\<lambda>s. addtail s x l)) = Some s' \<and> rep s' l (xs @ ys @ [x]) \<and>
           valid s' = valid s"
proof -
  obtain s1 where s1: "del s x = Some s1" "rep s1 l (xs @ ys)" "valid s1 = valid s"
    using rep_del [OF assms] by blast
  have "valid s1 x" "x \<notin> set (l # xs @ ys)"
    using rep_valid [OF assms] rep_distinct [OF assms] s1(3) by auto
  with rep_addtail [OF s1(2)] s1 show ?thesis by auto
qed

text \<open>Queue discipline: cells appended one by one come off the front in the same order.\<close>

lemma addtails:
  assumes "rep s l xs" "distinct ns" "set ns \<inter> set (l # xs) = {}" "\<And>n. n \<in> set ns \<Longrightarrow> valid s n"
  shows "\<exists>s'. fold (\<lambda>n r. r \<bind> (\<lambda>s. addtail s n l)) ns (Some s) = Some s' \<and>
           rep s' l (xs @ ns) \<and> valid s' = valid s"
  using assms
proof (induction ns arbitrary: s xs)
  case Nil
  then show ?case by simp
next
  case (Cons n ns)
  then obtain s1 where "addtail s n l = Some s1" "rep s1 l (xs @ [n])" "valid s1 = valid s"
    using rep_addtail [of s l xs n] by auto
  with Cons.IH [of s1 "xs @ [n]"] Cons.prems show ?case by auto
qed

end

interpretation drm_list: intrusive_list lrep "\<lambda>s a. a \<in> dom s" DRMLISTADD DRMLISTADDTAIL DRMLISTDEL
proof (unfold_locales, goal_cases)
  case 1
  then show ?case by (simp add: lrep_def ring_def)
next
  case 2
  then show ?case by (rule lrepD)
next
  case 3
  then show ?case using lrep_add by fastforce
next
  case 4
  then show ?case using lrep_addtail by fastforce
next
  case 5
  then show ?case using lrep_del by fastforce
qed

section \<open>Properties\<close>

text \<open>Unlinking a cell and appending it to the same list, which is how the buffer managers
  keep their LRU order, moves that cell to the end and keeps the order of all the others; no
  step touches an unallocated cell.\<close>

theorem list_move_to_tail:
  assumes "lrep s l (xs @ x # ys)"
  shows "\<exists>s'. (DRMLISTDEL s x \<bind> (\<lambda>s. DRMLISTADDTAIL s x l)) = Some s' \<and> lrep s' l (xs @ ys @ [x])"
  using drm_list.move_to_tail [OF assms] by blast

definition list_123 :: lheap where
  "list_123 = [1 \<mapsto> \<lparr>lh_prev = 3, lh_next = 2\<rparr>, 2 \<mapsto> \<lparr>lh_prev = 1, lh_next = 3\<rparr>,
               3 \<mapsto> \<lparr>lh_prev = 2, lh_next = 1\<rparr>, 4 \<mapsto> \<lparr>lh_prev = 5, lh_next = 5\<rparr>,
               5 \<mapsto> \<lparr>lh_prev = 4, lh_next = 4\<rparr>]"

lemma lrep_list_123: "lrep list_123 1 [2, 3]"
  by (simp add: lrep_def list_123_def ring_def fld_def)

theorem list_move_to_tail_witness:
  "lrep list_123 1 [2, 3] \<and>
   (\<exists>s'. (DRMLISTDEL list_123 2 \<bind> (\<lambda>s. DRMLISTADDTAIL s 2 1)) = Some s' \<and> lrep s' 1 [3, 2])"
  using list_move_to_tail [of list_123 1 "[]" 2 "[3]"] lrep_list_123 by simp

text \<open>A loop body for the safe iteration: unlink the cell unless it is to be kept, and record the visit.\<close>

definition purge_body :: "(addr \<Rightarrow> bool) \<Rightarrow> lheap \<Rightarrow> addr list \<Rightarrow> addr \<Rightarrow> (lheap \<times> addr list) option" where
  "purge_body keep s seen a =
    (if keep a then Some (s, seen @ [a])
     else do { s \<leftarrow> DRMLISTDELINIT s a; Some (s, seen @ [a]) })"

lemma purge_body_step:
  "lrep s l (ks @ a # ys) \<Longrightarrow>
   \<exists>s'. purge_body keep s x a = Some (s', x @ [a]) \<and> lrep s' l (ks @ (if keep a then a # ys else ys))"
  using lrep_delinit [of s l ks a ys] by (auto simp: purge_body_def)

lemma fold_snoc: "fold (\<lambda>a x. x @ [a]) xs ys = ys @ xs"
  by (induction xs arbitrary: ys) auto

text \<open>C27. \<open>DRMLISTFOREACHSAFE\<close> with a body that unlinks some of the cells it visits terminates,
  visits every cell of the list exactly once and in order, and leaves exactly the cells the
  body kept, in their order.\<close>

theorem list_foreach_safe_purge:
  assumes "lrep s l xs"
  shows "\<exists>s'. DRMLISTFOREACHSAFE (purge_body keep) l s [] = Some (s', xs) \<and> lrep s' l (filter keep xs)"
  using foreach_safe_filters [where body = "purge_body keep" and keep = keep and
      f = "\<lambda>a x. x @ [a]" and x = "[]", OF assms purge_body_step]
  by (simp add: fold_snoc)

theorem list_foreach_safe_purge_witness:
  "lrep list_123 1 [2, 3] \<and>
   (\<exists>s'. DRMLISTFOREACHSAFE (purge_body (\<lambda>a. a = 3)) 1 list_123 [] = Some (s', [2, 3]) \<and>
      lrep s' 1 [3])"
  using list_foreach_safe_purge [OF lrep_list_123, of "\<lambda>a. a = 3"] lrep_list_123 by simp

text \<open>\<open>DRMLISTJOIN\<close> puts the cells of the first list, in order, in front of the cells of the
  second, for disjoint lists, the empty ones included.\<close>

theorem list_join:
  assumes "lrep s l xs" and "lrep s j ys" and "set (l # xs) \<inter> set (j # ys) = {}"
  shows "\<exists>s'. DRMLISTJOIN s l j = Some s' \<and> lrep s' j (xs @ ys)"
  using lrep_join [OF assms] by blast

lemma lrep_list_45: "lrep list_123 4 [5]"
  by (simp add: lrep_def list_123_def ring_def fld_def)

theorem list_join_witness:
  "\<exists>s'. DRMLISTJOIN list_123 1 4 = Some s' \<and> lrep s' 4 [2, 3, 5]"
  using list_join [OF lrep_list_123 lrep_list_45] by simp

end
