(* ===== verification/Drm_Dict.thy ===== *)
theory Drm_Dict
  imports C_Prelude
begin

text \<open>
  The contract the hash table (\<open>xf86drmHash.c\<close>) and the skip list (\<open>xf86drmSL.c\<close>) share:
  dictionaries from \<open>unsigned long\<close> keys to \<open>void *\<close> values, whose operations answer with an
  \<open>int\<close> code. The locales state the contract against a map; their clients are proved once and
  used for both implementations.
\<close>

section \<open>Sequences of calls\<close>

datatype dict_op = Look u64 | Ins u64 addr | Del u64

text \<open>What the contract answers on a map. \<open>absent\<close> is the code of a failed lookup, which the two
  implementations choose differently.\<close>

fun dict_spec :: "int \<Rightarrow> (u64 \<rightharpoonup> addr) \<Rightarrow> dict_op \<Rightarrow> int \<times> (u64 \<rightharpoonup> addr)" where
  "dict_spec absent m (Look k) = (if k \<in> dom m then 0 else absent, m)"
| "dict_spec absent m (Ins k v) = (if k \<in> dom m then (1, m) else (0, m(k \<mapsto> v)))"
| "dict_spec absent m (Del k) = (if k \<in> dom m then (0, m(k := None)) else (1, m))"

fun dict_specs :: "int \<Rightarrow> (u64 \<rightharpoonup> addr) \<Rightarrow> dict_op list \<Rightarrow> int list \<times> (u64 \<rightharpoonup> addr)" where
  "dict_specs absent m [] = ([], m)"
| "dict_specs absent m (op # ops) =
    (let (r, m) = dict_spec absent m op; (rs, m) = dict_specs absent m ops in (r # rs, m))"

text \<open>The implementation's side of a call and of a sequence of calls: the codes returned.\<close>

fun dict_call ::
  "('s \<Rightarrow> u64 \<Rightarrow> (int \<times> addr option \<times> 's) option) \<Rightarrow> ('s \<Rightarrow> u64 \<Rightarrow> addr \<Rightarrow> (int \<times> 's) option) \<Rightarrow>
   ('s \<Rightarrow> u64 \<Rightarrow> (int \<times> 's) option) \<Rightarrow> 's \<Rightarrow> dict_op \<Rightarrow> (int \<times> 's) option" where
  "dict_call look ins del s (Look k) = do { (r, _, s) \<leftarrow> look s k; Some (r, s) }"
| "dict_call look ins del s (Ins k v) = ins s k v"
| "dict_call look ins del s (Del k) = del s k"

fun dict_run ::
  "('s \<Rightarrow> dict_op \<Rightarrow> (int \<times> 's) option) \<Rightarrow> 's \<Rightarrow> dict_op list \<Rightarrow> (int list \<times> 's) option" where
  "dict_run call s [] = Some ([], s)"
| "dict_run call s (op # ops) = do {
     (r, s) \<leftarrow> call s op;
     (rs, s) \<leftarrow> dict_run call s ops;
     Some (r # rs, s)
   }"

text \<open>No call of the sequence is made in a state with no memory left.\<close>

fun dict_room :: "('s \<Rightarrow> bool) \<Rightarrow> ('s \<Rightarrow> dict_op \<Rightarrow> (int \<times> 's) option) \<Rightarrow> 's \<Rightarrow> dict_op list \<Rightarrow> bool" where
  "dict_room oom call s [] \<longleftrightarrow> True"
| "dict_room oom call s (op # ops) \<longleftrightarrow> \<not> oom s \<and>
    (case call s op of None \<Rightarrow> True | Some (r, s) \<Rightarrow> dict_room oom call s ops)"

text \<open>What an implementation that reports exhausted memory may answer: the contract's answer, or
  \<open>-1\<close> to the insertion of a new key, with the map unchanged.\<close>

inductive dict_trace :: "int \<Rightarrow> (u64 \<rightharpoonup> addr) \<Rightarrow> dict_op list \<Rightarrow> int list \<Rightarrow> (u64 \<rightharpoonup> addr) \<Rightarrow> bool"
  for absent where
  stop: "dict_trace absent m [] [] m"
| answer: "dict_spec absent m op = (r, m') \<Longrightarrow> dict_trace absent m' ops rs m'' \<Longrightarrow>
    dict_trace absent m (op # ops) (r # rs) m''"
| exhausted: "k \<notin> dom m \<Longrightarrow> dict_trace absent m ops rs m'' \<Longrightarrow>
    dict_trace absent m (Ins k v # ops) (- 1 # rs) m''"

section \<open>The contract\<close>

locale int_dict =
  fixes rep :: "'s \<Rightarrow> (u64 \<rightharpoonup> addr) \<Rightarrow> bool"
    and oom :: "'s \<Rightarrow> bool"
    and absent :: int
    and look :: "'s \<Rightarrow> u64 \<Rightarrow> (int \<times> addr option \<times> 's) option"
    and ins :: "'s \<Rightarrow> u64 \<Rightarrow> addr \<Rightarrow> (int \<times> 's) option"
    and del :: "'s \<Rightarrow> u64 \<Rightarrow> (int \<times> 's) option"
  assumes look_rep: "rep s m \<Longrightarrow>
      \<exists>out s'. look s k = Some (if k \<in> dom m then 0 else absent, out, s') \<and> rep s' m"
    and ins_present: "rep s m \<Longrightarrow> k \<in> dom m \<Longrightarrow> \<exists>s'. ins s k v = Some (1, s') \<and> rep s' m"
    and ins_new: "rep s m \<Longrightarrow> k \<notin> dom m \<Longrightarrow> \<not> oom s \<Longrightarrow>
      \<exists>s'. ins s k v = Some (0, s') \<and> rep s' (m(k \<mapsto> v))"
    and del_rep: "rep s m \<Longrightarrow>
      \<exists>s'. del s k = Some (if k \<in> dom m then 0 else 1, s') \<and> rep s' (m(k := None))"
begin

lemma call_spec:
  assumes "rep s m" "\<And>k v. op = Ins k v \<Longrightarrow> k \<notin> dom m \<Longrightarrow> \<not> oom s"
  shows "\<exists>s'. dict_call look ins del s op = Some (fst (dict_spec absent m op), s') \<and>
    rep s' (snd (dict_spec absent m op))"
proof (cases op)
  case (Look k)
  then show ?thesis using look_rep [OF assms(1), of k] by auto
next
  case (Ins k v)
  then show ?thesis
    using ins_present [OF assms(1), of k v] ins_new [OF assms(1), of k v] assms(2) [OF Ins]
    by (cases "k \<in> dom m") (simp_all only: dict_call.simps dict_spec.simps if_True if_False fst_conv snd_conv simp_thms)
next
  case (Del k)
  moreover have "k \<notin> dom m \<Longrightarrow> m(k := None) = m" by auto
  ultimately show ?thesis
    using del_rep [OF assms(1), of k]
    by (cases "k \<in> dom m") (simp_all only: dict_call.simps dict_spec.simps if_True if_False fst_conv snd_conv simp_thms)
qed

lemma run_spec:
  assumes "rep s m" "dict_room oom (dict_call look ins del) s ops"
  shows "\<exists>s'. dict_run (dict_call look ins del) s ops = Some (fst (dict_specs absent m ops), s') \<and>
    rep s' (snd (dict_specs absent m ops))"
  using assms
proof (induction ops arbitrary: s m)
  case (Cons op ops)
  from call_spec [of s m op] Cons.prems obtain s' where
    s': "dict_call look ins del s op = Some (fst (dict_spec absent m op), s')"
    "rep s' (snd (dict_spec absent m op))" by auto
  with Cons.IH [OF s'(2)] Cons.prems(2) show ?case by (auto simp: split_beta)
qed simp

end

text \<open>An implementation that also returns the value stored, and reports exhausted memory.\<close>

locale int_dict_total = int_dict +
  assumes look_value: "rep s m \<Longrightarrow> m k = Some v \<Longrightarrow> \<exists>s'. look s k = Some (0, Some v, s')"
    and ins_oom: "rep s m \<Longrightarrow> k \<notin> dom m \<Longrightarrow> oom s \<Longrightarrow> \<exists>s'. ins s k v = Some (- 1, s') \<and> rep s' m"
begin

lemma call_trace:
  assumes "rep s m"
  shows "\<exists>r s' m'. dict_call look ins del s op = Some (r, s') \<and> rep s' m' \<and>
    (dict_spec absent m op = (r, m') \<or> (\<exists>k v. op = Ins k v \<and> k \<notin> dom m \<and> r = - 1 \<and> m' = m))"
proof (cases "\<exists>k v. op = Ins k v \<and> k \<notin> dom m \<and> oom s")
  case True
  then show ?thesis using ins_oom [OF assms] by fastforce
next
  case False
  then show ?thesis using call_spec [OF assms, of op] by (metis prod.collapse)
qed

lemma run_trace:
  assumes "rep s m"
  shows "\<exists>rs s' m'. dict_run (dict_call look ins del) s ops = Some (rs, s') \<and> rep s' m' \<and>
    dict_trace absent m ops rs m'"
  using assms
proof (induction ops arbitrary: s m)
  case Nil
  then show ?case by (auto intro: dict_trace.stop)
next
  case (Cons op ops)
  from call_trace [OF Cons.prems, of op] obtain r s1 m1 where
    c: "dict_call look ins del s op = Some (r, s1)" "rep s1 m1"
    "dict_spec absent m op = (r, m1) \<or> (\<exists>k v. op = Ins k v \<and> k \<notin> dom m \<and> r = - 1 \<and> m1 = m)" by blast
  from Cons.IH [OF c(2)] obtain rs s2 m2 where
    i: "dict_run (dict_call look ins del) s1 ops = Some (rs, s2)" "rep s2 m2"
    "dict_trace absent m1 ops rs m2" by blast
  have "dict_trace absent m (op # ops) (r # rs) m2"
    using c(3) i(3) by (auto intro: dict_trace.intros)
  then show ?case using c(1) i(1,2) by auto
qed

end

end
