(* ===== verification/Drm_Hash.thy ===== *)
theory Drm_Hash
  imports Drm_Random Drm_Dict
begin

text \<open>
  The hash table of \<open>xf86drmHash.c\<close>: 512 singly linked buckets in move-to-front order. The model
  keeps the heap of \<open>struct HashTable\<close>, the heap of \<open>struct HashBucket\<close> and the static
  \<open>scatter\<close> table, which the first call of \<open>HashHash\<close> fills from the generator; \<open>HASH_ALLOC\<close>
  is \<open>drmMalloc\<close>, which clears what it allocates. \<open>unsigned long\<close> is 64 bits wide.
\<close>

section \<open>Model\<close>

record HashBucket =
  hb_key :: u64
  hb_value :: addr
  hb_next :: addr

record HashTable =
  ht_magic :: u64
  ht_entries :: u64
  ht_hits :: u64
  ht_partials :: u64
  ht_misses :: u64
  ht_buckets :: "addr list"
  ht_p0 :: int
  ht_p1 :: addr

definition HASH_MAGIC :: u64 where
  "HASH_MAGIC = 0xdeadbeef"

definition HASH_SIZE :: nat where
  "HASH_SIZE = 512"

text \<open>The memory, with \<open>None\<close> for \<open>scatter\<close> while \<open>init\<close> is 0.\<close>

record hash_mem =
  hm_tables :: "HashTable heap"
  hm_buckets :: "HashBucket heap"
  hm_scatter :: "u64 list option"

text \<open>The allocators the code calls: for tables, for buckets, and whether \<open>drmRandomCreate\<close>
  gets memory for the generator's state.\<close>

record hash_env =
  he_table :: "HashTable allocator"
  he_bucket :: "HashBucket allocator"
  he_random :: bool

text \<open>The first call draws 256 numbers from a generator seeded with 37. The state pointer is
  not checked: with no memory for it the first draw dereferences \<open>NULL\<close>.\<close>

definition hash_scatter_init :: "hash_env \<Rightarrow> hash_mem \<Rightarrow> (u64 list \<times> hash_mem) option" where
  "hash_scatter_init env m =
    (case hm_scatter m of
       Some sc \<Rightarrow> Some (sc, m)
     | None \<Rightarrow> do {
         st \<leftarrow> drmRandomCreate (he_random env) 37;
         (sc, _) \<leftarrow> drmRandoms 256 st;
         Some (sc, m\<lparr>hm_scatter := Some sc\<rparr>)
       })"

function hash_loop :: "u64 list \<Rightarrow> u64 \<Rightarrow> u64 \<Rightarrow> u64" where
  "hash_loop scatter h tmp =
    (if tmp = 0 then h
     else hash_loop scatter (push_bit 1 h + scatter ! unat (tmp AND 0xff)) (drop_bit 8 tmp))"
  by auto
termination
  by (relation "measure (\<lambda>(_, _, tmp). unat tmp)") (auto simp: unat_drop_bit_less)

declare hash_loop.simps [simp del]

definition HashHash :: "hash_env \<Rightarrow> hash_mem \<Rightarrow> u64 \<Rightarrow> (u64 \<times> hash_mem) option" where
  "HashHash env m key = do {
     (sc, m) \<leftarrow> hash_scatter_init env m;
     Some (hash_loop sc 0 key mod 512, m)
   }"

text \<open>\<open>drmMalloc\<close> clears the struct, which is what sets \<open>p0\<close> and \<open>p1\<close>.\<close>

definition drmHashCreate :: "hash_env \<Rightarrow> hash_mem \<Rightarrow> addr \<times> hash_mem" where
  "drmHashCreate env m =
    (case he_table env (hm_tables m) of
       None \<Rightarrow> (NULL, m)
     | Some t \<Rightarrow> (t, m\<lparr>hm_tables := (hm_tables m)(t \<mapsto>
         \<lparr>ht_magic = HASH_MAGIC, ht_entries = 0, ht_hits = 0, ht_partials = 0, ht_misses = 0,
          ht_buckets = replicate HASH_SIZE NULL, ht_p0 = 0, ht_p1 = NULL\<rparr>)\<rparr>))"

partial_function (option) free_bucket_loop :: "HashBucket heap \<Rightarrow> addr \<Rightarrow> HashBucket heap option" where
  "free_bucket_loop s bucket =
    (if bucket = NULL then Some s
     else do {
       nxt \<leftarrow> ld s bucket hb_next;
       s \<leftarrow> dealloc s bucket;
       free_bucket_loop s nxt
     })"

fun free_buckets_loop :: "HashBucket heap \<Rightarrow> addr list \<Rightarrow> HashBucket heap option" where
  "free_buckets_loop s [] = Some s"
| "free_buckets_loop s (b # bs) = do {
     s \<leftarrow> free_bucket_loop s b;
     free_buckets_loop s bs
   }"

definition drmHashDestroy :: "hash_mem \<Rightarrow> addr \<Rightarrow> (int \<times> hash_mem) option" where
  "drmHashDestroy m t = do {
     mg \<leftarrow> ld (hm_tables m) t ht_magic;
     if mg \<noteq> HASH_MAGIC then Some (- 1, m)
     else do {
       bs \<leftarrow> ld (hm_tables m) t ht_buckets;
       s \<leftarrow> free_buckets_loop (hm_buckets m) bs;
       ts \<leftarrow> dealloc (hm_tables m) t;
       Some (0, m\<lparr>hm_tables := ts, hm_buckets := s\<rparr>)
     }
   }"

text \<open>Read and write \<open>table->buckets[i]\<close>; an index out of the array is undefined.\<close>

definition bucket_get :: "hash_mem \<Rightarrow> addr \<Rightarrow> nat \<Rightarrow> addr option" where
  "bucket_get m t i = do {
     bs \<leftarrow> ld (hm_tables m) t ht_buckets;
     c_assert (i < length bs);
     Some (bs ! i)
   }"

definition bucket_set :: "hash_mem \<Rightarrow> addr \<Rightarrow> nat \<Rightarrow> addr \<Rightarrow> hash_mem option" where
  "bucket_set m t i b = do {
     bs \<leftarrow> ld (hm_tables m) t ht_buckets;
     c_assert (i < length bs);
     ts \<leftarrow> wr (hm_tables m) t (\<lambda>tb. tb\<lparr>ht_buckets := bs[i := b]\<rparr>);
     Some (m\<lparr>hm_tables := ts\<rparr>)
   }"

definition table_upd :: "hash_mem \<Rightarrow> addr \<Rightarrow> (HashTable \<Rightarrow> HashTable) \<Rightarrow> hash_mem option" where
  "table_upd m t f = do { ts \<leftarrow> wr (hm_tables m) t f; Some (m\<lparr>hm_tables := ts\<rparr>) }"

definition bucket_upd :: "hash_mem \<Rightarrow> addr \<Rightarrow> (HashBucket \<Rightarrow> HashBucket) \<Rightarrow> hash_mem option" where
  "bucket_upd m b f = do { s \<leftarrow> wr (hm_buckets m) b f; Some (m\<lparr>hm_buckets := s\<rparr>) }"

partial_function (option) hash_find_loop ::
  "hash_mem \<Rightarrow> addr \<Rightarrow> u64 \<Rightarrow> nat \<Rightarrow> addr \<Rightarrow> addr \<Rightarrow> (addr \<times> hash_mem) option" where
  "hash_find_loop m t key hash prev bucket =
    (if bucket = NULL then do {
       m \<leftarrow> table_upd m t (\<lambda>tb. tb\<lparr>ht_misses := ht_misses tb + 1\<rparr>);
       Some (NULL, m)
     }
     else do {
       k \<leftarrow> ld (hm_buckets m) bucket hb_key;
       n \<leftarrow> ld (hm_buckets m) bucket hb_next;
       if k = key then
         if prev \<noteq> NULL then do {
           m \<leftarrow> bucket_upd m prev (\<lambda>b. b\<lparr>hb_next := n\<rparr>);
           first \<leftarrow> bucket_get m t hash;
           m \<leftarrow> bucket_upd m bucket (\<lambda>b. b\<lparr>hb_next := first\<rparr>);
           m \<leftarrow> bucket_set m t hash bucket;
           m \<leftarrow> table_upd m t (\<lambda>tb. tb\<lparr>ht_partials := ht_partials tb + 1\<rparr>);
           Some (bucket, m)
         }
         else do {
           m \<leftarrow> table_upd m t (\<lambda>tb. tb\<lparr>ht_hits := ht_hits tb + 1\<rparr>);
           Some (bucket, m)
         }
       else hash_find_loop m t key hash bucket n
     })"

text \<open>The bucket found (or \<open>NULL\<close>) and the hash the code stores through \<open>h\<close>.\<close>

definition HashFind :: "hash_env \<Rightarrow> hash_mem \<Rightarrow> addr \<Rightarrow> u64 \<Rightarrow> (addr \<times> nat \<times> hash_mem) option" where
  "HashFind env m t key = do {
     (hash, m) \<leftarrow> HashHash env m key;
     first \<leftarrow> bucket_get m t (unat hash);
     (b, m) \<leftarrow> hash_find_loop m t key (unat hash) NULL first;
     Some (b, unat hash, m)
   }"

text \<open>The second component of the result is what is stored through \<open>value\<close>, if anything.\<close>

definition drmHashLookup ::
  "hash_env \<Rightarrow> hash_mem \<Rightarrow> addr \<Rightarrow> u64 \<Rightarrow> (int \<times> addr option \<times> hash_mem) option" where
  "drmHashLookup env m t key =
    (if t = NULL then Some (- 1, None, m)
     else do {
       mg \<leftarrow> ld (hm_tables m) t ht_magic;
       if mg \<noteq> HASH_MAGIC then Some (- 1, None, m)
       else do {
         (bucket, _, m) \<leftarrow> HashFind env m t key;
         if bucket = NULL then Some (1, None, m)
         else do {
           v \<leftarrow> ld (hm_buckets m) bucket hb_value;
           Some (0, Some v, m)
         }
       }
     })"

definition drmHashInsert ::
  "hash_env \<Rightarrow> hash_mem \<Rightarrow> addr \<Rightarrow> u64 \<Rightarrow> addr \<Rightarrow> (int \<times> hash_mem) option" where
  "drmHashInsert env m t key val = do {
     mg \<leftarrow> ld (hm_tables m) t ht_magic;
     if mg \<noteq> HASH_MAGIC then Some (- 1, m)
     else do {
       (found, hash, m) \<leftarrow> HashFind env m t key;
       if found \<noteq> NULL then Some (1, m)
       else
         (case he_bucket env (hm_buckets m) of
            None \<Rightarrow> Some (- 1, m)
          | Some bucket \<Rightarrow> do {
              first \<leftarrow> bucket_get m t hash;
              let m = m\<lparr>hm_buckets := (hm_buckets m)(bucket \<mapsto>
                \<lparr>hb_key = key, hb_value = val, hb_next = first\<rparr>)\<rparr>;
              m \<leftarrow> bucket_set m t hash bucket;
              Some (0, m)
            })
     }
   }"

definition drmHashDelete :: "hash_env \<Rightarrow> hash_mem \<Rightarrow> addr \<Rightarrow> u64 \<Rightarrow> (int \<times> hash_mem) option" where
  "drmHashDelete env m t key = do {
     mg \<leftarrow> ld (hm_tables m) t ht_magic;
     if mg \<noteq> HASH_MAGIC then Some (- 1, m)
     else do {
       (bucket, hash, m) \<leftarrow> HashFind env m t key;
       if bucket = NULL then Some (1, m)
       else do {
         n \<leftarrow> ld (hm_buckets m) bucket hb_next;
         m \<leftarrow> bucket_set m t hash n;
         s \<leftarrow> dealloc (hm_buckets m) bucket;
         Some (0, m\<lparr>hm_buckets := s\<rparr>)
       }
     }
   }"

text \<open>The iterator: the code returned and, with 1, the key and the value.\<close>

partial_function (option) hash_next_loop ::
  "hash_mem \<Rightarrow> addr \<Rightarrow> (int \<times> (u64 \<times> addr) option \<times> hash_mem) option" where
  "hash_next_loop m t = do {
     p0 \<leftarrow> ld (hm_tables m) t ht_p0;
     if p0 < int HASH_SIZE then do {
       p1 \<leftarrow> ld (hm_tables m) t ht_p1;
       if p1 \<noteq> NULL then do {
         k \<leftarrow> ld (hm_buckets m) p1 hb_key;
         v \<leftarrow> ld (hm_buckets m) p1 hb_value;
         n \<leftarrow> ld (hm_buckets m) p1 hb_next;
         m \<leftarrow> table_upd m t (\<lambda>tb. tb\<lparr>ht_p1 := n\<rparr>);
         Some (1, Some (k, v), m)
       }
       else do {
         c_assert (0 \<le> p0);
         b \<leftarrow> bucket_get m t (nat p0);
         m \<leftarrow> table_upd m t (\<lambda>tb. tb\<lparr>ht_p1 := b\<rparr>);
         m \<leftarrow> table_upd m t (\<lambda>tb. tb\<lparr>ht_p0 := p0 + 1\<rparr>);
         hash_next_loop m t
       }
     }
     else Some (0, None, m)
   }"

definition drmHashNext :: "hash_mem \<Rightarrow> addr \<Rightarrow> (int \<times> (u64 \<times> addr) option \<times> hash_mem) option" where
  "drmHashNext m t = hash_next_loop m t"

definition drmHashFirst :: "hash_mem \<Rightarrow> addr \<Rightarrow> (int \<times> (u64 \<times> addr) option \<times> hash_mem) option" where
  "drmHashFirst m t = do {
     mg \<leftarrow> ld (hm_tables m) t ht_magic;
     if mg \<noteq> HASH_MAGIC then Some (- 1, None, m)
     else do {
       m \<leftarrow> table_upd m t (\<lambda>tb. tb\<lparr>ht_p0 := 0\<rparr>);
       b \<leftarrow> bucket_get m t 0;
       m \<leftarrow> table_upd m t (\<lambda>tb. tb\<lparr>ht_p1 := b\<rparr>);
       drmHashNext m t
     }
   }"

section \<open>Representation\<close>

text \<open>The table the generator fills, and the bucket a key belongs to.\<close>

definition hash_scatter :: "u64 list" where
  "hash_scatter = (case drmRandomCreate True 37 \<bind> drmRandoms 256 of
     None \<Rightarrow> [] | Some (sc, _) \<Rightarrow> sc)"

definition hash_idx :: "u64 \<Rightarrow> nat" where
  "hash_idx k = unat (hash_loop hash_scatter 0 k mod 512)"

text \<open>One bucket: a \<open>NULL\<close>-terminated chain of allocated cells with distinct keys that all hash
  to it. Chains of different buckets share no cell, since a cell has one key.\<close>

definition bucket_ok :: "HashBucket heap \<Rightarrow> nat \<Rightarrow> addr \<Rightarrow> addr list \<Rightarrow> bool" where
  "bucket_ok s i first es \<longleftrightarrow>
     chain (fld hb_next s) first es NULL \<and> NULL \<notin> set es \<and> set es \<subseteq> dom s \<and>
     distinct (map (fld hb_key s) es) \<and> (\<forall>a \<in> set es. hash_idx (fld hb_key s a) = i)"

definition hash_ok :: "hash_env \<Rightarrow> hash_mem \<Rightarrow> addr \<Rightarrow> (nat \<Rightarrow> addr list) \<Rightarrow> bool" where
  "hash_ok env m t es \<longleftrightarrow>
     fresh_alloc (he_bucket env) \<and> he_random env \<and>
     (hm_scatter m = None \<or> hm_scatter m = Some hash_scatter) \<and>
     t \<noteq> NULL \<and> t \<in> dom (hm_tables m) \<and> fld ht_magic (hm_tables m) t = HASH_MAGIC \<and>
     length (fld ht_buckets (hm_tables m) t) = HASH_SIZE \<and>
     (\<forall>i < HASH_SIZE. bucket_ok (hm_buckets m) i (fld ht_buckets (hm_tables m) t ! i) (es i))"

text \<open>The map a table stands for.\<close>

definition bucket_map :: "HashBucket heap \<Rightarrow> addr list \<Rightarrow> u64 \<rightharpoonup> addr" where
  "bucket_map s es = map_of (map (\<lambda>a. (fld hb_key s a, fld hb_value s a)) es)"

definition hash_map :: "hash_mem \<Rightarrow> (nat \<Rightarrow> addr list) \<Rightarrow> u64 \<rightharpoonup> addr" where
  "hash_map m es k = bucket_map (hm_buckets m) (es (hash_idx k)) k"

definition hash_rep :: "hash_env \<Rightarrow> addr \<Rightarrow> hash_mem \<Rightarrow> (u64 \<rightharpoonup> addr) \<Rightarrow> bool" where
  "hash_rep env t m M \<longleftrightarrow> (\<exists>es. hash_ok env m t es \<and> M = hash_map m es)"

section \<open>Hashing\<close>

lemma hash_idx_less [simp]: "hash_idx k < HASH_SIZE"
  by (simp add: hash_idx_def HASH_SIZE_def unat_mod)

lemma hash_scatter_eq:
  "\<exists>st s'. drmRandomCreate True 37 = Some st \<and> drmRandoms 256 st = Some (hash_scatter, s') \<and>
     length hash_scatter = 256"
proof -
  obtain st where st: "drmRandomCreate True 37 = Some st" by (simp add: drmRandomCreate_def Let_def)
  note drmRandoms_lehmer [OF drmRandomCreate_inv [OF st], of 256]
  then show ?thesis using st by (simp add: hash_scatter_def)
qed

lemma HashHash_idx:
  assumes "he_random env" "hm_scatter m = None \<or> hm_scatter m = Some hash_scatter"
  shows "\<exists>h. HashHash env m k = Some (h, m\<lparr>hm_scatter := Some hash_scatter\<rparr>) \<and> unat h = hash_idx k"
proof -
  have "hash_scatter_init env m = Some (hash_scatter, m\<lparr>hm_scatter := Some hash_scatter\<rparr>)"
    using assms hash_scatter_eq by (auto simp: hash_scatter_init_def)
  then show ?thesis by (simp add: HashHash_def hash_idx_def)
qed

section \<open>Buckets\<close>

lemma bucket_okD:
  assumes "bucket_ok s i first es"
  shows "chain (fld hb_next s) first es NULL" "NULL \<notin> set es" "set es \<subseteq> dom s"
    "distinct (map (fld hb_key s) es)" "\<And>a. a \<in> set es \<Longrightarrow> hash_idx (fld hb_key s a) = i"
    "distinct es"
  using assms by (auto simp: bucket_ok_def distinct_map)

lemma bucket_map_simps [simp]:
  "bucket_map s [] k = None"
  "bucket_map s (a # es) k = (if k = fld hb_key s a then Some (fld hb_value s a) else bucket_map s es k)"
  by (auto simp: bucket_map_def)

lemma bucket_map_None: "bucket_map s es k = None \<longleftrightarrow> k \<notin> fld hb_key s ` set es"
  by (induction es) auto

lemma bucket_map_Some:
  "distinct (map (fld hb_key s) es) \<Longrightarrow>
   bucket_map s es k = Some v \<longleftrightarrow> (\<exists>a \<in> set es. fld hb_key s a = k \<and> fld hb_value s a = v)"
  by (induction es) (auto simp: image_iff)

lemma bucket_map_perm:
  assumes "distinct (map (fld hb_key s) es)" "distinct (map (fld hb_key s') es')" "set es = set es'"
    "\<And>a. a \<in> set es \<Longrightarrow> fld hb_key s' a = fld hb_key s a \<and> fld hb_value s' a = fld hb_value s a"
  shows "bucket_map s' es' = bucket_map s es"
proof
  fix k
  have "bucket_map s' es' k = Some v \<longleftrightarrow> bucket_map s es k = Some v" for v
    using assms by (auto simp: bucket_map_Some)
  then show "bucket_map s' es' k = bucket_map s es k" by (metis option.exhaust)
qed

lemma bucket_ok_cong:
  assumes "bucket_ok s i first es" "\<And>a. a \<in> set es \<Longrightarrow> s' a = s a"
  shows "bucket_ok s' i first es" "bucket_map s' es = bucket_map s es"
proof -
  note e = fld_cong [where s' = s' and s = s, OF assms(2)]
  note d = bucket_okD [OF assms(1)]
  have m: "distinct (map (fld hb_key s') es)"
    using d(4) by (subst map_cong [where ys = es and g = "fld hb_key s"]) (auto simp: e)
  have "set es \<subseteq> dom s'"
  proof
    fix a assume a: "a \<in> set es"
    then show "a \<in> dom s'" using d(3) assms(2) [OF a] by (auto simp: dom_def)
  qed
  moreover have "chain (fld hb_next s') first es NULL"
    using d(1) by (subst chain_cong [where nx' = "fld hb_next s"]) (auto simp: e)
  ultimately show "bucket_ok s' i first es" unfolding bucket_ok_def using d m by (auto simp: e)
  show "bucket_map s' es = bucket_map s es" by (rule bucket_map_perm) (use d m in \<open>auto simp: e\<close>)
qed

lemma bucket_push:
  fixes v :: addr
  assumes ok: "bucket_ok s i first es" and n: "n \<noteq> NULL" "n \<notin> dom s"
    and k: "k \<notin> fld hb_key s ` set es" "hash_idx k = i"
  defines "s' \<equiv> s(n \<mapsto> \<lparr>hb_key = k, hb_value = v, hb_next = first\<rparr>)"
  shows "bucket_ok s' i n (n # es)" "bucket_map s' (n # es) = (bucket_map s es)(k \<mapsto> v)"
proof -
  have ne: "n \<notin> set es" using bucket_okD(3) [OF ok] n(2) by auto
  then have c: "bucket_ok s' i first es" "bucket_map s' es = bucket_map s es"
    by (auto simp: s'_def intro!: bucket_ok_cong [OF ok])
  have f: "fld hb_key s' n = k" "fld hb_value s' n = v" "fld hb_next s' n = first" "n \<in> dom s'"
    by (auto simp: s'_def fld_def)
  have "k \<notin> fld hb_key s' ` set es" using k(1) ne by (auto simp: s'_def fld_def image_iff split: if_splits)
  then show "bucket_ok s' i n (n # es)" using bucket_okD [OF c(1)] f n(1) k(2) by (simp add: bucket_ok_def)
  show "bucket_map s' (n # es) = (bucket_map s es)(k \<mapsto> v)" using c(2) f by (simp add: fun_eq_iff)
qed

lemma bucket_pop:
  assumes ok: "bucket_ok s i first (b # es)"
  shows "bucket_ok (s(b := None)) i (fld hb_next s b) es"
    "bucket_map (s(b := None)) es = (bucket_map s (b # es))(fld hb_key s b := None)"
proof -
  note d = bucket_okD [OF ok]
  have c: "bucket_ok s i (fld hb_next s b) es" using d by (simp add: bucket_ok_def)
  have f: "(s(b := None)) a = s a" if "a \<in> set es" for a using that d(6) by auto
  show "bucket_ok (s(b := None)) i (fld hb_next s b) es" by (rule bucket_ok_cong(1) [OF c f])
  have "bucket_map (s(b := None)) es = bucket_map s es" by (rule bucket_ok_cong(2) [OF c f])
  moreover have "bucket_map s es (fld hb_key s b) = None" using d(4) by (simp add: bucket_map_None)
  ultimately show "bucket_map (s(b := None)) es = (bucket_map s (b # es))(fld hb_key s b := None)"
    by (simp add: fun_eq_iff)
qed

lemma hash_disjoint:
  assumes "hash_ok env m t es" "i < HASH_SIZE" "j < HASH_SIZE" "i \<noteq> j"
    "a \<in> set (es i)" "b \<in> set (es j)"
  shows "a \<noteq> b"
  using assms bucket_okD(5) unfolding hash_ok_def by blast

text \<open>An operation that touches one bucket.\<close>

lemma hash_ok_upd:
  assumes ok: "hash_ok env m t es" and i: "i < HASH_SIZE"
    and sc: "hm_scatter m' = None \<or> hm_scatter m' = Some hash_scatter"
    and tb: "dom (hm_tables m') = dom (hm_tables m)"
      "fld ht_magic (hm_tables m') t = fld ht_magic (hm_tables m) t"
      "fld ht_buckets (hm_tables m') t = (fld ht_buckets (hm_tables m) t)[i := first]"
    and bk: "bucket_ok (hm_buckets m') i first es'"
    and fr: "\<And>j a. j < HASH_SIZE \<Longrightarrow> j \<noteq> i \<Longrightarrow> a \<in> set (es j) \<Longrightarrow> hm_buckets m' a = hm_buckets m a"
  shows "hash_ok env m' t (es(i := es'))"
    "hash_map m' (es(i := es')) k =
       (if hash_idx k = i then bucket_map (hm_buckets m') es' k else hash_map m es k)"
proof -
  have o: "bucket_ok (hm_buckets m) j (fld ht_buckets (hm_tables m) t ! j) (es j)" if "j < HASH_SIZE" for j
    using ok that by (auto simp: hash_ok_def)
  have "bucket_ok (hm_buckets m') j (fld ht_buckets (hm_tables m') t ! j) ((es(i := es')) j)"
    if j: "j < HASH_SIZE" for j
  proof (cases "j = i")
    case True
    then show ?thesis using bk tb(3) ok i by (simp add: hash_ok_def)
  next
    case False
    then show ?thesis using bucket_ok_cong(1) [OF o [OF j] fr [OF j False]] tb(3) by simp
  qed
  then show "hash_ok env m' t (es(i := es'))" using ok sc tb by (auto simp: hash_ok_def)
  have "bucket_map (hm_buckets m') (es (hash_idx k)) = bucket_map (hm_buckets m) (es (hash_idx k))"
    if "hash_idx k \<noteq> i" using bucket_ok_cong(2) [OF o fr [OF _ that]] by simp
  then show "hash_map m' (es(i := es')) k =
       (if hash_idx k = i then bucket_map (hm_buckets m') es' k else hash_map m es k)"
    by (simp add: hash_map_def)
qed

lemma hash_okD:
  assumes "hash_ok env m t es"
  shows "fresh_alloc (he_bucket env)" "he_random env"
    "hm_scatter m = None \<or> hm_scatter m = Some hash_scatter" "t \<noteq> NULL" "t \<in> dom (hm_tables m)"
    "fld ht_magic (hm_tables m) t = HASH_MAGIC" "length (fld ht_buckets (hm_tables m) t) = HASH_SIZE"
    "\<And>i. i < HASH_SIZE \<Longrightarrow> bucket_ok (hm_buckets m) i (fld ht_buckets (hm_tables m) t ! i) (es i)"
  using assms by (auto simp: hash_ok_def)

section \<open>The search\<close>

lemma hash_find_skip:
  assumes "chain (fld hb_next (hm_buckets m)) bucket mid b" "set mid \<subseteq> dom (hm_buckets m)"
    "NULL \<notin> set mid" "key \<notin> fld hb_key (hm_buckets m) ` set mid"
  shows "hash_find_loop m t key i prev bucket = hash_find_loop m t key i (last (prev # mid)) b"
  using assms
proof (induction mid arbitrary: prev bucket)
  case (Cons a mid)
  have "hash_find_loop m t key i prev bucket =
      hash_find_loop m t key i a (fld hb_next (hm_buckets m) a)"
    using Cons.prems by (subst hash_find_loop.simps) (auto simp: heap_simps)
  also have "\<dots> = hash_find_loop m t key i (last (a # mid)) b"
    using Cons.prems by (intro Cons.IH) auto
  finally show ?case by simp
qed simp

text \<open>Move-to-front on a chain.\<close>

lemma chain_to_front:
  assumes "chain nx f (mid @ p # b # post) z" "distinct (mid @ p # b # post)"
  shows "chain (nx(p := nx b, b := f)) b (b # mid @ p # post) z"
  using assms by (auto simp: chain_split chain_append)

lemma hash_find_front:
  assumes ok: "hash_ok env m t es" and i: "i < HASH_SIZE" and es: "es i = mid @ p # b # post"
    and k: "fld hb_key (hm_buckets m) b = key"
  shows "\<exists>m'. hash_find_loop m t key i p b = Some (b, m') \<and>
    hash_ok env m' t (es(i := b # mid @ p # post)) \<and>
    fld hb_key (hm_buckets m') = fld hb_key (hm_buckets m) \<and>
    fld hb_value (hm_buckets m') = fld hb_value (hm_buckets m) \<and>
    hash_map m' (es(i := b # mid @ p # post)) = hash_map m es"
proof -
  note d = hash_okD [OF ok]
  note b = bucket_okD [OF d(8) [OF i], unfolded es]
  let ?s = "hm_buckets m" and ?f = "fld ht_buckets (hm_tables m) t ! i"
  have m: "p \<in> dom ?s" "b \<in> dom ?s" "p \<noteq> NULL" "b \<noteq> NULL" "p \<noteq> b" using b(2,3,6) by (auto intro!: gr0I)
  define s1 where "s1 = setf (setf ?s p (\<lambda>c. c\<lparr>hb_next := fld hb_next ?s b\<rparr>)) b (\<lambda>c. c\<lparr>hb_next := ?f\<rparr>)"
  define ts where "ts = setf (setf (hm_tables m) t
      (\<lambda>tb. tb\<lparr>ht_buckets := (fld ht_buckets (hm_tables m) t)[i := b]\<rparr>))
      t (\<lambda>tb. tb\<lparr>ht_partials := ht_partials tb + 1\<rparr>)"
  let ?m = "m\<lparr>hm_buckets := s1, hm_tables := ts\<rparr>"
  have fl: "fld hb_next s1 = (fld hb_next ?s)(p := fld hb_next ?s b, b := ?f)"
    "fld hb_key s1 = fld hb_key ?s" "fld hb_value s1 = fld hb_value ?s" "dom s1 = dom ?s"
    using m by (simp_all add: s1_def heap_simps)
  have tl: "dom ts = dom (hm_tables m)" "fld ht_magic ts = fld ht_magic (hm_tables m)"
    "fld ht_buckets ts t = (fld ht_buckets (hm_tables m) t)[i := b]"
    using d(5) by (simp_all add: ts_def heap_simps)
  have run: "hash_find_loop m t key i p b = Some (b, ?m)"
    using m k d(5,7) i
    by (simp add: hash_find_loop.simps [of m t key i p b] heap_simps bucket_upd_def bucket_get_def
        bucket_set_def table_upd_def s1_def ts_def)
  have bk: "bucket_ok s1 i b (b # mid @ p # post)"
    using chain_to_front [OF b(1,6)] b(2,3,4,5) unfolding bucket_ok_def fl by auto
  have fr: "s1 a = ?s a" if "j < HASH_SIZE" "j \<noteq> i" "a \<in> set (es j)" for j a
    using hash_disjoint [OF ok i that(1) _ _ that(3)] that(2) es by (auto simp: s1_def setf_def)
  have up: "hash_ok env ?m t (es(i := b # mid @ p # post))"
    "hash_map ?m (es(i := b # mid @ p # post)) k =
     (if hash_idx k = i then bucket_map s1 (b # mid @ p # post) k else hash_map m es k)" for k
    using hash_ok_upd [OF ok i, of ?m b "b # mid @ p # post"] d(3) tl bk fr by simp_all
  have "bucket_map s1 (b # mid @ p # post) = bucket_map ?s (es i)"
    by (rule bucket_map_perm) (use b(4) bucket_okD(4) [OF bk] es fl in auto)
  then have "hash_map ?m (es(i := b # mid @ p # post)) = hash_map m es"
    using up(2) by (auto simp: hash_map_def fun_eq_iff)
  then show ?thesis using run up(1) fl by (intro exI [of _ ?m]) auto
qed

lemma hash_counter:
  assumes ok: "hash_ok env m t es" and f: "\<And>tb. ht_magic (f tb) = ht_magic tb"
    "\<And>tb. ht_buckets (f tb) = ht_buckets tb"
  shows "\<exists>m'. table_upd m t f = Some m' \<and> hash_ok env m' t es \<and> hash_map m' es = hash_map m es \<and>
    hm_buckets m' = hm_buckets m"
  using hash_okD [OF ok] f
  by (auto simp: table_upd_def heap_simps hash_ok_def hash_map_def)

lemma hash_find_loop_rep:
  assumes ok: "hash_ok env m t es" and i: "i = hash_idx key"
  shows "\<exists>b m' es'. hash_find_loop m t key i NULL (fld ht_buckets (hm_tables m) t ! i) = Some (b, m') \<and>
    hash_ok env m' t es' \<and> hash_map m' es' = hash_map m es \<and>
    (if b = NULL then hash_map m es key = None \<and> hm_buckets m' = hm_buckets m
     else \<exists>rest. es' i = b # rest \<and> fld hb_key (hm_buckets m') b = key \<and>
       hash_map m es key = Some (fld hb_value (hm_buckets m') b))"
proof (cases "key \<in> fld hb_key (hm_buckets m) ` set (es i)")
  case False
  have lt: "i < HASH_SIZE" using i by simp
  note b = bucket_okD [OF hash_okD(8) [OF ok lt]]
  have "hash_find_loop m t key i NULL (fld ht_buckets (hm_tables m) t ! i) =
      hash_find_loop m t key i (last (NULL # es i)) NULL"
    using hash_find_skip [OF b(1,3,2) False] .
  moreover from hash_counter [OF ok, of "\<lambda>tb. tb\<lparr>ht_misses := ht_misses tb + 1\<rparr>"]
  obtain m' where "table_upd m t (\<lambda>tb. tb\<lparr>ht_misses := ht_misses tb + 1\<rparr>) = Some m'"
    "hash_ok env m' t es" "hash_map m' es = hash_map m es" "hm_buckets m' = hm_buckets m" by auto
  moreover have "hash_map m es key = None" using False i by (simp add: hash_map_def bucket_map_None)
  ultimately show ?thesis
    by (intro exI [of _ NULL] exI [of _ m'] exI [of _ es]) (simp add: hash_find_loop.simps [of _ _ _ _ _ NULL])
next
  case True
  have lt: "i < HASH_SIZE" using i by simp
  note b = bucket_okD [OF hash_okD(8) [OF ok lt]]
  from True obtain b where b': "b \<in> set (es i)" "fld hb_key (hm_buckets m) b = key" by auto
  then obtain mid post where es: "es i = mid @ b # post" by (auto simp: in_set_conv_decomp)
  have bn: "b \<noteq> NULL" "b \<in> dom (hm_buckets m)" using b' b(2,3) by (auto intro!: gr0I)
  have v: "hash_map m es key = Some (fld hb_value (hm_buckets m) b)"
    using b(4) b' i by (auto simp: hash_map_def bucket_map_Some)
  have ch: "chain (fld hb_next (hm_buckets m)) (fld ht_buckets (hm_tables m) t ! i) mid b"
    using b(1) es by (simp add: chain_split)
  have "hash_find_loop m t key i NULL (fld ht_buckets (hm_tables m) t ! i) =
      hash_find_loop m t key i (last (NULL # mid)) b"
    by (rule hash_find_skip [OF ch]) (use b(2,3,4) es b'(2) in auto)
  then show ?thesis
  proof (cases mid rule: rev_cases)
    case Nil
    from hash_counter [OF ok, of "\<lambda>tb. tb\<lparr>ht_hits := ht_hits tb + 1\<rparr>"]
    obtain m' where "table_upd m t (\<lambda>tb. tb\<lparr>ht_hits := ht_hits tb + 1\<rparr>) = Some m'"
      "hash_ok env m' t es" "hash_map m' es = hash_map m es" "hm_buckets m' = hm_buckets m" by auto
    then show ?thesis
      using \<open>_ = hash_find_loop m t key i (last (NULL # mid)) b\<close> Nil es v bn b'
      by (intro exI [of _ b] exI [of _ m'] exI [of _ es])
        (simp add: hash_find_loop.simps [of _ _ _ _ NULL b] heap_simps)
  next
    case (snoc ms p)
    from hash_find_front [OF ok lt, of ms p b post key] es snoc b' obtain m' where
      "hash_find_loop m t key i p b = Some (b, m')" "hash_ok env m' t (es(i := b # ms @ p # post))"
      "fld hb_key (hm_buckets m') = fld hb_key (hm_buckets m)"
      "fld hb_value (hm_buckets m') = fld hb_value (hm_buckets m)"
      "hash_map m' (es(i := b # ms @ p # post)) = hash_map m es" by auto
    then show ?thesis
      using \<open>_ = hash_find_loop m t key i (last (NULL # mid)) b\<close> snoc v bn b'
      by (intro exI [of _ b] exI [of _ m'] exI [of _ "es(i := b # ms @ p # post)"]) simp
  qed
qed

lemma HashFind_rep:
  assumes ok: "hash_ok env m t es"
  shows "\<exists>b m' es'. HashFind env m t key = Some (b, hash_idx key, m') \<and>
    hash_ok env m' t es' \<and> hash_map m' es' = hash_map m es \<and>
    (if b = NULL then hash_map m es key = None \<and> hm_buckets m' = hm_buckets m
     else \<exists>rest. es' (hash_idx key) = b # rest \<and> fld hb_key (hm_buckets m') b = key \<and>
       hash_map m es key = Some (fld hb_value (hm_buckets m') b))"
proof -
  note d = hash_okD [OF ok]
  let ?m = "m\<lparr>hm_scatter := Some hash_scatter\<rparr>"
  have ok': "hash_ok env ?m t es" "hash_map ?m es = hash_map m es"
    using ok by (auto simp: hash_ok_def hash_map_def)
  obtain h where h: "HashHash env m key = Some (h, ?m)" "unat h = hash_idx key"
    using HashHash_idx [OF d(2,3)] by blast
  have "bucket_get ?m t (hash_idx key) = Some (fld ht_buckets (hm_tables m) t ! hash_idx key)"
    using d(5,7) by (simp add: bucket_get_def heap_simps)
  then have run: "HashFind env m t key = (do {
      (b, m) \<leftarrow> hash_find_loop ?m t key (hash_idx key) NULL (fld ht_buckets (hm_tables m) t ! hash_idx key);
      Some (b, hash_idx key, m) })"
    using h by (simp add: HashFind_def)
  from hash_find_loop_rep [OF ok'(1) refl, of key] show ?thesis
    unfolding run using ok'(2) by (elim exE conjE) (auto split: if_splits)
qed

section \<open>The dictionary operations\<close>

lemma hash_repD:
  assumes "hash_rep env t m M"
  shows "fresh_alloc (he_bucket env)" "t \<noteq> NULL" "t \<in> dom (hm_tables m)"
    "fld ht_magic (hm_tables m) t = HASH_MAGIC"
  using assms unfolding hash_rep_def hash_ok_def by blast+

lemma hash_repI: "hash_ok env m t es \<Longrightarrow> (\<And>x. hash_map m es x = M x) \<Longrightarrow> hash_rep env t m M"
  unfolding hash_rep_def by (metis ext)

lemma hash_rep_find:
  assumes "hash_rep env t m M"
  obtains b m' es' where "HashFind env m t k = Some (b, hash_idx k, m')" "hash_ok env m' t es'"
    "\<forall>x. hash_map m' es' x = M x" "b = NULL \<longrightarrow> M k = None \<and> hm_buckets m' = hm_buckets m"
    "b \<noteq> NULL \<longrightarrow> (\<exists>rest. es' (hash_idx k) = b # rest \<and> fld hb_key (hm_buckets m') b = k \<and>
       M k = Some (fld hb_value (hm_buckets m') b))"
proof -
  obtain es where ok: "hash_ok env m t es" "M = hash_map m es" using assms by (auto simp: hash_rep_def)
  from HashFind_rep [OF ok(1), of k] obtain b m' es' where
    "HashFind env m t k = Some (b, hash_idx k, m')" "hash_ok env m' t es'" "hash_map m' es' = M"
    "if b = NULL then M k = None \<and> hm_buckets m' = hm_buckets m
     else \<exists>rest. es' (hash_idx k) = b # rest \<and> fld hb_key (hm_buckets m') b = k \<and>
       M k = Some (fld hb_value (hm_buckets m') b)" unfolding ok(2) by blast
  then show ?thesis by (intro that [of b m' es']) (simp_all split: if_splits)
qed

lemma drmHashLookup_rep:
  assumes "hash_rep env t m M"
  shows "\<exists>m'. drmHashLookup env m t k =
      Some (if k \<in> dom M then 0 else 1, M k, m') \<and> hash_rep env t m' M"
proof -
  note d = hash_repD [OF assms]
  obtain b m' es' where
    f: "HashFind env m t k = Some (b, hash_idx k, m')" "hash_ok env m' t es'" "\<forall>x. hash_map m' es' x = M x"
    "b = NULL \<longrightarrow> M k = None \<and> hm_buckets m' = hm_buckets m"
    "b \<noteq> NULL \<longrightarrow> (\<exists>rest. es' (hash_idx k) = b # rest \<and> fld hb_key (hm_buckets m') b = k \<and>
       M k = Some (fld hb_value (hm_buckets m') b))" by (rule hash_rep_find [OF assms, of k])
  have r: "hash_rep env t m' M" by (rule hash_repI [OF f(2) f(3) [rule_format]])
  show ?thesis
  proof (cases "b = NULL")
    case True
    then show ?thesis using f(1,4) d(2,3,4) r by (auto simp: drmHashLookup_def heap_simps)
  next
    case False
    then have "b \<in> dom (hm_buckets m')"
      using f(5) bucket_okD(3) [OF hash_okD(8) [OF f(2)], of "hash_idx k"] by auto
    then show ?thesis using False f(1,5) d(2,3,4) r by (auto simp: drmHashLookup_def heap_simps)
  qed
qed

lemma drmHashInsert_rep:
  assumes "hash_rep env t m M"
  shows "if k \<in> dom M then \<exists>m'. drmHashInsert env m t k v = Some (1, m') \<and> hash_rep env t m' M
    else if he_bucket env (hm_buckets m) = None
    then \<exists>m'. drmHashInsert env m t k v = Some (- 1, m') \<and> hash_rep env t m' M
    else \<exists>m'. drmHashInsert env m t k v = Some (0, m') \<and> hash_rep env t m' (M(k \<mapsto> v))"
proof -
  note d = hash_repD [OF assms]
  obtain b m' es' where
    f: "HashFind env m t k = Some (b, hash_idx k, m')" "hash_ok env m' t es'" "\<forall>x. hash_map m' es' x = M x"
    "b = NULL \<longrightarrow> M k = None \<and> hm_buckets m' = hm_buckets m"
    "b \<noteq> NULL \<longrightarrow> (\<exists>rest. es' (hash_idx k) = b # rest \<and> fld hb_key (hm_buckets m') b = k \<and>
       M k = Some (fld hb_value (hm_buckets m') b))" by (rule hash_rep_find [OF assms, of k])
  note d' = hash_okD [OF f(2)]
  let ?i = "hash_idx k"
  show ?thesis
  proof (cases "b = NULL \<and> he_bucket env (hm_buckets m) \<noteq> None")
    case False
    moreover have "hash_rep env t m' M" by (rule hash_repI [OF f(2) f(3) [rule_format]])
    ultimately show ?thesis
      using f(1,4,5) d(3,4) by (cases "b = NULL") (auto simp: drmHashInsert_def heap_simps)
  next
    case True
    then obtain n where n: "he_bucket env (hm_buckets m') = Some n" using f(4) by auto
    then have fresh: "n \<noteq> NULL" "n \<notin> dom (hm_buckets m')" using fresh_allocD [OF d(1) n] by auto
    let ?bs = "fld ht_buckets (hm_tables m') t"
    let ?m = "m'\<lparr>hm_buckets := (hm_buckets m')(n \<mapsto> \<lparr>hb_key = k, hb_value = v, hb_next = ?bs ! ?i\<rparr>),
       hm_tables := setf (hm_tables m') t (\<lambda>tb. tb\<lparr>ht_buckets := ?bs[?i := n]\<rparr>)\<rparr>"
    have run: "drmHashInsert env m t k v = Some (0, ?m)"
      using f(1) True n d(3,4) d'(5,7)
      by (simp add: drmHashInsert_def heap_simps bucket_get_def bucket_set_def)
    have ne: "n \<notin> set (es' j)" if "j < HASH_SIZE" for j
      using fresh bucket_okD(3) [OF d'(8) [OF that]] by auto
    have "k \<notin> fld hb_key (hm_buckets m') ` set (es' ?i)"
      using f(3) [rule_format, of k] f(4) True by (simp add: hash_map_def bucket_map_None)
    then have bk: "bucket_ok (hm_buckets ?m) ?i n (n # es' ?i)"
      "bucket_map (hm_buckets ?m) (n # es' ?i) = (bucket_map (hm_buckets m') (es' ?i))(k \<mapsto> v)"
      using bucket_push [OF d'(8) [OF hash_idx_less [of k]] fresh] by simp_all
    have fr: "a \<noteq> n" if "j < HASH_SIZE" "a \<in> set (es' j)" for j a using ne that by auto
    have up: "hash_ok env ?m t (es'(?i := n # es' ?i))"
      "hash_map ?m (es'(?i := n # es' ?i)) x =
        (if hash_idx x = ?i then bucket_map (hm_buckets ?m) (n # es' ?i) x else hash_map m' es' x)" for x
      using hash_ok_upd [OF f(2) hash_idx_less [of k], of ?m n "n # es' ?i"] d'(3,5) bk(1) fr
      by (simp_all add: heap_simps)
    have "hash_map ?m (es'(?i := n # es' ?i)) x = (M(k \<mapsto> v)) x" for x
      unfolding up(2) bk(2) using f(3) [rule_format, of x]
      by (cases "hash_idx x = ?i") (auto simp: hash_map_def)
    then have "hash_rep env t ?m (M(k \<mapsto> v))" by (rule hash_repI [OF up(1)])
    then show ?thesis using run True f(4) by auto
  qed
qed

lemma drmHashDelete_rep:
  assumes "hash_rep env t m M"
  shows "\<exists>m'. drmHashDelete env m t k = Some (if k \<in> dom M then 0 else 1, m') \<and>
    hash_rep env t m' (M(k := None))"
proof -
  note d = hash_repD [OF assms]
  obtain b m' es' where
    f: "HashFind env m t k = Some (b, hash_idx k, m')" "hash_ok env m' t es'" "\<forall>x. hash_map m' es' x = M x"
    "b = NULL \<longrightarrow> M k = None \<and> hm_buckets m' = hm_buckets m"
    "b \<noteq> NULL \<longrightarrow> (\<exists>rest. es' (hash_idx k) = b # rest \<and> fld hb_key (hm_buckets m') b = k \<and>
       M k = Some (fld hb_value (hm_buckets m') b))" by (rule hash_rep_find [OF assms, of k])
  note d' = hash_okD [OF f(2)]
  let ?i = "hash_idx k"
  show ?thesis
  proof (cases "b = NULL")
    case True
    then have "M(k := None) = M" "k \<notin> dom M" using f(4) by auto
    moreover have "hash_rep env t m' M" by (rule hash_repI [OF f(2) f(3) [rule_format]])
    ultimately show ?thesis
      using True f(1) d(3,4) by (auto simp: drmHashDelete_def heap_simps)
  next
    case False
    then obtain rest where r: "es' ?i = b # rest" "fld hb_key (hm_buckets m') b = k"
      "M k = Some (fld hb_value (hm_buckets m') b)" using f(5) by auto
    note b = bucket_okD [OF d'(8) [OF hash_idx_less [of k]], unfolded r(1)]
    let ?nx = "fld hb_next (hm_buckets m') b" and ?bs = "fld ht_buckets (hm_tables m') t"
    let ?m = "m'\<lparr>hm_tables := setf (hm_tables m') t (\<lambda>tb. tb\<lparr>ht_buckets := ?bs[?i := ?nx]\<rparr>),
      hm_buckets := (hm_buckets m')(b := None)\<rparr>"
    have bd: "b \<in> dom (hm_buckets m')" using b(3) by auto
    have run: "drmHashDelete env m t k = Some (0, ?m)"
      using f(1) False d(3,4) d'(5,7) bd
      by (simp add: drmHashDelete_def heap_simps bucket_set_def)
    have bk: "bucket_ok (hm_buckets ?m) ?i ?nx rest"
      "bucket_map (hm_buckets ?m) rest = (bucket_map (hm_buckets m') (es' ?i))(k := None)"
      using bucket_pop [OF d'(8) [OF hash_idx_less [of k], unfolded r(1)]] r(1,2) by simp_all
    have ob: "a \<noteq> b" if "j < HASH_SIZE" "j \<noteq> ?i" "a \<in> set (es' j)" for j a
      using hash_disjoint [OF f(2) that(1) hash_idx_less that(2,3), of b] r(1) by simp
    have up: "hash_ok env ?m t (es'(?i := rest))"
      "hash_map ?m (es'(?i := rest)) x =
        (if hash_idx x = ?i then bucket_map (hm_buckets ?m) rest x else hash_map m' es' x)" for x
      using hash_ok_upd [OF f(2) hash_idx_less [of k], of ?m ?nx rest] d'(3,5) bk(1) ob
      by (simp_all add: heap_simps)
    have "hash_map ?m (es'(?i := rest)) x = (M(k := None)) x" for x
      unfolding up(2) bk(2) using f(3) [rule_format, of x]
      by (cases "hash_idx x = ?i") (auto simp: hash_map_def)
    then have "hash_rep env t ?m (M(k := None))" by (rule hash_repI [OF up(1)])
    then show ?thesis using run r(3) by auto
  qed
qed

interpretation hash_dict: int_dict_total "hash_rep env t" "\<lambda>m. he_bucket env (hm_buckets m) = None" 1
  "\<lambda>m. drmHashLookup env m t" "\<lambda>m. drmHashInsert env m t" "\<lambda>m. drmHashDelete env m t" for env t
proof unfold_locales
  fix m M k v
  assume r: "hash_rep env t m M"
  show "\<exists>out m'. drmHashLookup env m t k = Some (if k \<in> dom M then 0 else 1, out, m') \<and> hash_rep env t m' M"
    using drmHashLookup_rep [OF r] by blast
  show "\<exists>m'. drmHashDelete env m t k = Some (if k \<in> dom M then 0 else 1, m') \<and> hash_rep env t m' (M(k := None))"
    using drmHashDelete_rep [OF r] by blast
  show "\<exists>m'. drmHashInsert env m t k v = Some (1, m') \<and> hash_rep env t m' M" if "k \<in> dom M"
    using drmHashInsert_rep [OF r, of k v] that by simp
  show "\<exists>m'. drmHashInsert env m t k v = Some (0, m') \<and> hash_rep env t m' (M(k \<mapsto> v))"
    if "k \<notin> dom M" "he_bucket env (hm_buckets m) \<noteq> None"
    using drmHashInsert_rep [OF r, of k v] that by simp
  show "\<exists>m'. drmHashInsert env m t k v = Some (- 1, m') \<and> hash_rep env t m' M"
    if "k \<notin> dom M" "he_bucket env (hm_buckets m) = None"
    using drmHashInsert_rep [OF r, of k v] that by simp
  show "\<exists>m'. drmHashLookup env m t k = Some (0, Some v, m')" if "M k = Some v"
    using drmHashLookup_rep [OF r, of k] that by auto
qed

section \<open>Creation and destruction\<close>

lemma drmHashCreate_rep:
  assumes "fresh_alloc (he_table env)" "fresh_alloc (he_bucket env)" "he_random env"
    "hm_scatter m = None \<or> hm_scatter m = Some hash_scatter" "drmHashCreate env m = (t, m')" "t \<noteq> NULL"
  shows "hash_rep env t m' Map.empty"
proof (rule hash_repI [where es = "\<lambda>_. []"])
  show "hash_ok env m' t (\<lambda>_. [])"
    using assms by (auto simp: drmHashCreate_def hash_ok_def bucket_ok_def fld_def split: option.splits)
qed (simp add: hash_map_def)

lemma free_bucket_loop_frees:
  assumes "chain (fld hb_next s) b es NULL" "set es \<subseteq> dom s" "NULL \<notin> set es" "distinct es"
  shows "free_bucket_loop s b = Some (s |` (- set es))"
  using assms
proof (induction es arbitrary: s b)
  case Nil
  then show ?case by (simp add: free_bucket_loop.simps)
next
  case (Cons a es)
  define u where "u = s(a := None)"
  have ch: "chain (fld hb_next u) (fld hb_next s a) es NULL"
    unfolding u_def using Cons.prems
    by (subst chain_cong [where nx' = "fld hb_next s"]) (auto intro!: fld_dealloc)
  have u: "set es \<subseteq> dom u" "NULL \<notin> set es" "distinct es"
    unfolding u_def using Cons.prems by (auto simp: subset_iff)
  have "free_bucket_loop u (fld hb_next s a) = Some (u |` (- set es))" by (rule Cons.IH [OF ch u])
  moreover have "u |` (- set es) = s |` (- set (a # es))"
    unfolding u_def by (auto simp: restrict_map_def fun_eq_iff)
  moreover have "b = a" "a \<in> dom s" "a \<noteq> NULL" using Cons.prems by auto
  ultimately show ?case
    by (simp add: free_bucket_loop.simps [of s a] heap_simps flip: u_def)
qed

lemma free_buckets_loop_frees:
  assumes "\<And>i. i < length bs \<Longrightarrow> bucket_ok s (n + i) (bs ! i) (es (n + i))"
  shows "free_buckets_loop s bs = Some (s |` (- (\<Union>i < length bs. set (es (n + i)))))"
  using assms
proof (induction bs arbitrary: s n)
  case (Cons b bs)
  let ?u = "s |` (- set (es n))"
  have b: "bucket_ok s n b (es n)" using Cons.prems [of 0] by simp
  have "bucket_ok ?u (Suc n + i) (bs ! i) (es (Suc n + i))" if "i < length bs" for i
  proof -
    have o: "bucket_ok s (Suc n + i) (bs ! i) (es (Suc n + i))" using Cons.prems [of "Suc i"] that by simp
    have "a \<notin> set (es n)" if "a \<in> set (es (Suc n + i))" for a
      using bucket_okD(5) [OF b] bucket_okD(5) [OF o that] by force
    then show ?thesis by (intro bucket_ok_cong(1) [OF o]) simp
  qed
  from Cons.IH [OF this] have
    "free_buckets_loop ?u bs = Some (?u |` (- (\<Union>i < length bs. set (es (Suc n + i)))))" by simp
  moreover have "free_bucket_loop s b = Some ?u"
    using bucket_okD [OF b] by (intro free_bucket_loop_frees)
  moreover have "(\<Union>i < length (b # bs). set (es (n + i))) =
      set (es n) \<union> (\<Union>i < length bs. set (es (Suc n + i)))"
    by (auto simp: less_Suc_eq_0_disj)
  ultimately show ?case by (simp add: Int_commute)
qed (auto simp: restrict_map_def)

lemma drmHashDestroy_frees:
  assumes ok: "hash_ok env m t es"
  shows "drmHashDestroy m t = Some (0, m\<lparr>hm_tables := (hm_tables m)(t := None),
    hm_buckets := hm_buckets m |` (- (\<Union>i < HASH_SIZE. set (es i)))\<rparr>)"
proof -
  note d = hash_okD [OF ok]
  have "free_buckets_loop (hm_buckets m) (fld ht_buckets (hm_tables m) t) =
      Some (hm_buckets m |` (- (\<Union>i < HASH_SIZE. set (es i))))"
    using free_buckets_loop_frees [of "fld ht_buckets (hm_tables m) t" "hm_buckets m" 0 es] d(7,8) by simp
  then show ?thesis using d(5,6) by (simp add: drmHashDestroy_def heap_simps)
qed

section \<open>Enumeration\<close>

text \<open>The loop clients write: \<open>drmHashFirst\<close>, then \<open>drmHashNext\<close> while it returns 1.\<close>

partial_function (option) hash_drain ::
  "hash_mem \<Rightarrow> addr \<Rightarrow> ((u64 \<times> addr) list \<times> hash_mem) option" where
  "hash_drain m t = do {
     (r, kv, m) \<leftarrow> drmHashNext m t;
     if r = 1 then do { (kvs, m) \<leftarrow> hash_drain m t; Some (the kv # kvs, m) } else Some ([], m)
   }"

definition hash_enumerate :: "hash_mem \<Rightarrow> addr \<Rightarrow> ((u64 \<times> addr) list \<times> hash_mem) option" where
  "hash_enumerate m t = do {
     (r, kv, m) \<leftarrow> drmHashFirst m t;
     if r = 1 then do { (kvs, m) \<leftarrow> hash_drain m t; Some (the kv # kvs, m) } else Some ([], m)
   }"

text \<open>The cursor is about to return the cells \<open>xs\<close> and then to open bucket \<open>j\<close>.\<close>

definition hash_cursor ::
  "hash_env \<Rightarrow> hash_mem \<Rightarrow> addr \<Rightarrow> (nat \<Rightarrow> addr list) \<Rightarrow> HashBucket heap \<Rightarrow> nat \<Rightarrow> addr list \<Rightarrow> bool" where
  "hash_cursor env m t es s j xs \<longleftrightarrow>
     hash_ok env m t es \<and> hm_buckets m = s \<and> fld ht_p0 (hm_tables m) t = int j \<and> j \<le> HASH_SIZE \<and>
     chain (fld hb_next s) (fld ht_p1 (hm_tables m) t) xs NULL \<and> NULL \<notin> set xs \<and> set xs \<subseteq> dom s"

definition bucket_kv :: "HashBucket heap \<Rightarrow> addr \<Rightarrow> u64 \<times> addr" where
  "bucket_kv s a = (fld hb_key s a, fld hb_value s a)"

lemma hash_cursor_table:
  assumes c: "hash_ok env m t es" "hm_buckets m = s" and f: "\<And>tb. ht_magic (f tb) = ht_magic tb"
    "\<And>tb. ht_buckets (f tb) = ht_buckets tb" and j: "j \<le> HASH_SIZE"
    and x: "chain (fld hb_next s) (ht_p1 (f (the (hm_tables m t)))) xs NULL" "NULL \<notin> set xs" "set xs \<subseteq> dom s"
      "ht_p0 (f (the (hm_tables m t))) = int j"
  shows "hash_cursor env (m\<lparr>hm_tables := setf (hm_tables m) t f\<rparr>) t es s j xs"
proof -
  obtain m' where m': "table_upd m t f = Some m'" "hash_ok env m' t es"
    using hash_counter [OF c(1), of f] f by blast
  moreover have "m' = m\<lparr>hm_tables := setf (hm_tables m) t f\<rparr>"
    using m'(1) hash_okD(5) [OF c(1)] by (simp add: table_upd_def heap_simps)
  ultimately show ?thesis
    using c x j hash_okD(5) [OF c(1)] by (simp add: hash_cursor_def heap_simps)
qed

lemma hash_cursorD:
  assumes "hash_cursor env m t es s j xs"
  shows "hash_ok env m t es" "hm_buckets m = s" "fld ht_p0 (hm_tables m) t = int j" "j \<le> HASH_SIZE"
    "chain (fld hb_next s) (fld ht_p1 (hm_tables m) t) xs NULL" "NULL \<notin> set xs" "set xs \<subseteq> dom s"
    "t \<in> dom (hm_tables m)" "length (fld ht_buckets (hm_tables m) t) = HASH_SIZE"
  using assms hash_okD(5,7) [of env m t es] unfolding hash_cursor_def by blast+

lemma hash_next_cell:
  assumes c: "hash_cursor env m t es s j (a # xs)" and j: "j < HASH_SIZE"
  shows "\<exists>m'. drmHashNext m t = Some (1, Some (bucket_kv s a), m') \<and> hash_cursor env m' t es s j xs"
proof -
  note d = hash_cursorD [OF c]
  have a: "fld ht_p1 (hm_tables m) t = a" "a \<in> dom s" "a \<noteq> NULL" using d(5,6,7) by auto
  let ?f = "\<lambda>tb. tb\<lparr>ht_p1 := fld hb_next s a\<rparr>"
  let ?m = "m\<lparr>hm_tables := setf (hm_tables m) t ?f\<rparr>"
  have "drmHashNext m t = Some (1, Some (bucket_kv s a), ?m)"
    unfolding drmHashNext_def
    using a d(2,3,8) j by (simp add: hash_next_loop.simps [of m t] heap_simps table_upd_def bucket_kv_def)
  moreover have "hash_cursor env ?m t es s j xs"
    by (rule hash_cursor_table [OF d(1,2)]) (use d in \<open>auto simp: fld_def\<close>)
  ultimately show ?thesis by blast
qed

lemma hash_next_bucket:
  assumes c: "hash_cursor env m t es s j []" and j: "j < HASH_SIZE"
  shows "\<exists>m'. drmHashNext m t = drmHashNext m' t \<and> hash_cursor env m' t es s (Suc j) (es j)"
proof -
  note d = hash_cursorD [OF c]
  note b = bucket_okD [OF hash_okD(8) [OF d(1) j], unfolded d(2)]
  have p1: "fld ht_p1 (hm_tables m) t = NULL" using d(5) by simp
  let ?f = "\<lambda>tb. tb\<lparr>ht_p1 := fld ht_buckets (hm_tables m) t ! j\<rparr>"
  let ?m = "m\<lparr>hm_tables := setf (hm_tables m) t ?f\<rparr>" and ?g = "\<lambda>tb. tb\<lparr>ht_p0 := int j + 1\<rparr>"
  let ?n = "?m\<lparr>hm_tables := setf (hm_tables ?m) t ?g\<rparr>"
  have c1: "hash_cursor env ?m t es s j (es j)"
    by (rule hash_cursor_table [OF d(1,2)]) (use b d in \<open>auto simp: fld_def\<close>)
  have "hash_cursor env ?n t es s (Suc j) (es j)"
    by (rule hash_cursor_table [OF hash_cursorD(1,2) [OF c1]])
      (use b j hash_cursorD(5) [OF c1] in \<open>auto simp: fld_def\<close>)
  moreover have "drmHashNext m t = drmHashNext ?n t"
    unfolding drmHashNext_def using p1 d(3,8,9) j
    by (subst hash_next_loop.simps) (simp add: heap_simps table_upd_def bucket_get_def)
  ultimately show ?thesis by blast
qed

lemma hash_drain_cursor:
  assumes "hash_cursor env m t es s j xs"
  shows "\<exists>m'. hash_drain m t = Some (if j < HASH_SIZE
      then map (bucket_kv s) (xs @ concat (map es [j..<HASH_SIZE - 1])) else [], m') \<and> hash_ok env m' t es
      \<and> hm_buckets m' = s"
  using assms
proof (induction "HASH_SIZE - j" arbitrary: m j xs)
  case 0
  note d = hash_cursorD [OF 0(2)]
  have "drmHashNext m t = Some (0, None, m)"
    unfolding drmHashNext_def using 0(1) d(3,8) by (simp add: hash_next_loop.simps [of m t] heap_simps)
  then show ?case using 0(1) d(1,2) by (simp add: hash_drain.simps [of m t])
next
  case (Suc n)
  have j: "j < HASH_SIZE" using Suc(2) by simp
  show ?case
    using Suc(3)
  proof (induction xs arbitrary: m)
    case Nil
    obtain m1 where m1: "drmHashNext m t = drmHashNext m1 t" "hash_cursor env m1 t es s (Suc j) (es j)"
      using hash_next_bucket [OF Nil j] by blast
    have h: "hash_drain m t = hash_drain m1 t" unfolding hash_drain.simps [of m t] hash_drain.simps [of m1 t] m1(1) ..
    have e: "(if Suc j < HASH_SIZE then map (bucket_kv s) (es j @ concat (map es [Suc j..<HASH_SIZE - 1])) else [])
        = map (bucket_kv s) (concat (map es [j..<HASH_SIZE - 1]))"
      using j by (cases "Suc j < HASH_SIZE") (simp_all add: upt_conv_Cons)
    show ?case using Suc(1) [OF _ m1(2)] Suc(2) j unfolding h e by simp
  next
    case (Cons a xs)
    obtain m1 where m1: "drmHashNext m t = Some (1, Some (bucket_kv s a), m1)" "hash_cursor env m1 t es s j xs"
      using hash_next_cell [OF Cons(2) j] by blast
    from Cons.IH [OF m1(2)] j show ?case by (auto simp: hash_drain.simps [of m t] m1(1))
  qed
qed

lemma hash_enumerate_drain:
  assumes "hash_ok env m t es"
  shows "\<exists>m'. hash_enumerate m t =
      Some (map (bucket_kv (hm_buckets m)) (es 0 @ concat (map es [0..<HASH_SIZE - 1])), m') \<and>
      hash_ok env m' t es \<and> hm_buckets m' = hm_buckets m"
proof -
  note d = hash_okD [OF assms]
  have z: "0 < HASH_SIZE" by (simp add: HASH_SIZE_def)
  note b = bucket_okD [OF d(8) [OF z]]
  let ?f = "\<lambda>tb. tb\<lparr>ht_p0 := 0\<rparr>" and ?g = "\<lambda>tb. tb\<lparr>ht_p1 := fld ht_buckets (hm_tables m) t ! 0\<rparr>"
  let ?m = "m\<lparr>hm_tables := setf (hm_tables m) t ?f\<rparr>"
  let ?n = "?m\<lparr>hm_tables := setf (hm_tables ?m) t ?g\<rparr>"
  obtain m1 where "table_upd m t ?f = Some m1" "hash_ok env m1 t es"
    using hash_counter [OF assms, of ?f] by auto
  then have ok: "hash_ok env ?m t es" using d(5) by (auto simp: table_upd_def heap_simps)
  have c: "hash_cursor env ?n t es (hm_buckets m) 0 (es 0)"
    by (rule hash_cursor_table [OF ok]) (use b d(5) in \<open>auto simp: setf_def\<close>)
  have "drmHashFirst m t = drmHashNext ?n t"
    using d(5,6,7) z by (auto simp: drmHashFirst_def table_upd_def bucket_get_def heap_simps)
  then have "hash_enumerate m t = hash_drain ?n t"
    unfolding hash_enumerate_def by (subst hash_drain.simps) (simp only:)
  then show ?thesis using hash_drain_cursor [OF c] z by simp
qed

text \<open>How often a key appears.\<close>

lemma count_list_distinct: "distinct xs \<Longrightarrow> count_list xs k = (if k \<in> set xs then 1 else 0)"
  by (induction xs) auto

lemma sum_list_pick:
  "sum_list (map (\<lambda>i. if i = a \<and> P then 1 else 0) [0..<n]) = (if a < n \<and> P then 1 else (0 :: nat))"
  by (induction n) auto

lemma count_bucket:
  assumes "hash_ok env m t es" "i < HASH_SIZE"
  shows "count_list (map (fld hb_key (hm_buckets m)) (es i)) k =
    (if i = hash_idx k \<and> k \<in> dom (hash_map m es) then 1 else 0)"
proof -
  note b = bucket_okD [OF hash_okD(8) [OF assms]]
  have "k \<in> fld hb_key (hm_buckets m) ` set (es i) \<longleftrightarrow> i = hash_idx k \<and> k \<in> dom (hash_map m es)"
    using b(5) bucket_map_None [of "hm_buckets m" "es i" k] by (auto simp: hash_map_def)
  then show ?thesis
    unfolding count_list_distinct [OF b(4)] by simp
qed

lemma count_list_concat: "count_list (concat xss) k = sum_list (map (\<lambda>xs. count_list xs k) xss)"
  by (induction xss) auto

lemma hash_enumerate_count:
  assumes "hash_ok env m t es"
  shows "count_list (map fst (map (bucket_kv (hm_buckets m)) (es 0 @ concat (map es [0..<HASH_SIZE - 1])))) k =
    (if k \<notin> dom (hash_map m es) \<or> hash_idx k = HASH_SIZE - 1 then 0
     else if hash_idx k = 0 then 2 else 1)"
proof -
  let ?kv = "fld hb_key (hm_buckets m)" and ?D = "dom (hash_map m es)"
  have e: "map fst (map (bucket_kv (hm_buckets m)) xs) = map ?kv xs" for xs by (simp add: bucket_kv_def)
  have "sum_list (map (\<lambda>i. count_list (map ?kv (es i)) k) [0..<HASH_SIZE - 1]) =
      sum_list (map (\<lambda>i. if i = hash_idx k \<and> k \<in> ?D then 1 else 0) [0..<HASH_SIZE - 1])"
    by (intro arg_cong [where f = sum_list] map_cong refl count_bucket [OF assms]) auto
  also have "\<dots> = (if hash_idx k < HASH_SIZE - 1 \<and> k \<in> ?D then 1 else 0)"
    by (rule sum_list_pick)
  finally show ?thesis
    unfolding e using hash_idx_less [of k] count_bucket [OF assms, of 0 k]
    by (auto simp: map_concat count_list_concat comp_def HASH_SIZE_def)
qed

section \<open>Properties\<close>

text \<open>An empty table at address 1, as \<open>drmHashCreate\<close> makes it, with room for seven buckets.\<close>

definition hash_demo_env :: hash_env where
  "hash_demo_env = \<lparr>he_table = first_free 9, he_bucket = first_free 9, he_random = True\<rparr>"

definition hash_demo :: hash_mem where
  "hash_demo = snd (drmHashCreate hash_demo_env \<lparr>hm_tables = Map.empty, hm_buckets = Map.empty, hm_scatter = None\<rparr>)"

lemma hash_demo_create:
  "drmHashCreate hash_demo_env \<lparr>hm_tables = Map.empty, hm_buckets = Map.empty, hm_scatter = None\<rparr> = (1, hash_demo)"
  by (simp add: hash_demo_def drmHashCreate_def hash_demo_env_def first_free_def upt_rec)

lemma hash_demo_ok: "hash_ok hash_demo_env hash_demo 1 (\<lambda>_. [])"
  by (auto simp: hash_demo_def drmHashCreate_def hash_demo_env_def first_free_def upt_rec hash_ok_def
      bucket_ok_def fld_def HASH_SIZE_def fresh_first_free)

lemma hash_demo_rep: "hash_rep hash_demo_env 1 hash_demo Map.empty"
  by (rule hash_repI [OF hash_demo_ok]) (simp add: hash_map_def)



text \<open>Round trip: a value inserted under a new key is what a lookup of that key returns, a lookup
  of any other key answers as before, and after the key is deleted it is absent again.\<close>

theorem drmHash_roundtrip:
  assumes "hash_rep env t m M" and "M k = None" and "he_bucket env (hm_buckets m) \<noteq> None"
  shows "\<exists>m1 m2 m3. drmHashInsert env m t k v = Some (0, m1) \<and>
    drmHashLookup env m1 t k = Some (0, Some v, m2) \<and>
    (\<forall>k'. k' \<noteq> k \<longrightarrow> (\<exists>m'. drmHashLookup env m1 t k' = Some (if M k' = None then 1 else 0, M k', m'))) \<and>
    drmHashDelete env m2 t k = Some (0, m3) \<and> hash_rep env t m3 M"
proof -
  obtain m1 where m1: "drmHashInsert env m t k v = Some (0, m1)" "hash_rep env t m1 (M(k \<mapsto> v))"
    using drmHashInsert_rep [OF assms(1), of k v] assms(2,3) by (auto split: if_splits)
  obtain m2 where m2: "drmHashLookup env m1 t k = Some (0, Some v, m2)" "hash_rep env t m2 (M(k \<mapsto> v))"
    using drmHashLookup_rep [OF m1(2), of k] by auto
  obtain m3 where m3: "drmHashDelete env m2 t k = Some (0, m3)" "hash_rep env t m3 ((M(k \<mapsto> v))(k := None))"
    using drmHashDelete_rep [OF m2(2), of k] by auto
  have "(M(k \<mapsto> v))(k := None) = M" using assms(2) by auto
  moreover have "\<exists>m'. drmHashLookup env m1 t k' = Some (if M k' = None then 1 else 0, M k', m')"
    if "k' \<noteq> k" for k' using drmHashLookup_rep [OF m1(2), of k'] that by (auto simp: dom_def)
  ultimately show ?thesis using m1(1) m2(1) m3 by auto
qed

theorem drmHash_roundtrip_witness:
  "\<exists>m1 m2 m3. drmHashInsert hash_demo_env hash_demo 1 7 70 = Some (0, m1) \<and>
    drmHashLookup hash_demo_env m1 1 7 = Some (0, Some 70, m2) \<and>
    drmHashDelete hash_demo_env m2 1 7 = Some (0, m3) \<and> hash_rep hash_demo_env 1 m3 Map.empty"
proof -
  have "he_bucket hash_demo_env (hm_buckets hash_demo) \<noteq> None"
    by (simp add: hash_demo_env_def hash_demo_def drmHashCreate_def first_free_def upt_rec)
  from drmHash_roundtrip [OF hash_demo_rep _ this, of 7 70] show ?thesis by blast
qed

text \<open>C23. Enumeration with \<open>drmHashFirst\<close> and \<open>drmHashNext\<close> terminates and leaves the map
  unchanged, but it is not faithful to the table: a key of bucket 511 is never returned, a key of
  bucket 0 is returned twice, and only the other keys are returned exactly once.\<close>

theorem drmHash_enumeration:
  assumes "hash_rep env t m M"
  shows "\<exists>kvs m'. hash_enumerate m t = Some (kvs, m') \<and> hash_rep env t m' M \<and>
    (\<forall>(k, v) \<in> set kvs. M k = Some v) \<and>
    (\<forall>k. count_list (map fst kvs) k =
      (if M k = None \<or> hash_idx k = HASH_SIZE - 1 then 0 else if hash_idx k = 0 then 2 else 1))"
proof -
  obtain es where ok: "hash_ok env m t es" "M = hash_map m es" using assms by (auto simp: hash_rep_def)
  obtain m' where m': "hash_enumerate m t =
      Some (map (bucket_kv (hm_buckets m)) (es 0 @ concat (map es [0..<HASH_SIZE - 1])), m')"
    "hash_ok env m' t es" "hm_buckets m' = hm_buckets m" using hash_enumerate_drain [OF ok(1)] by blast
  have r: "hash_rep env t m' M"
    using m'(3) ok(2) by (intro hash_repI [OF m'(2)]) (simp add: hash_map_def)
  have v: "M (fld hb_key (hm_buckets m) a) = Some (fld hb_value (hm_buckets m) a)"
    if "a \<in> set (es i)" "i < HASH_SIZE" for a i
  proof -
    note b = bucket_okD [OF hash_okD(8) [OF ok(1) that(2)]]
    then show ?thesis using that(1) ok(2) by (auto simp: hash_map_def bucket_map_Some)
  qed
  have "\<forall>(k, v) \<in> set (map (bucket_kv (hm_buckets m)) (es 0 @ concat (map es [0..<HASH_SIZE - 1]))). M k = Some v"
    using v by (auto simp: bucket_kv_def HASH_SIZE_def)
  moreover have "count_list (map fst (map (bucket_kv (hm_buckets m)) (es 0 @ concat (map es [0..<HASH_SIZE - 1])))) k =
      (if M k = None \<or> hash_idx k = HASH_SIZE - 1 then 0 else if hash_idx k = 0 then 2 else 1)" for k
    unfolding hash_enumerate_count [OF ok(1)] ok(2) by (simp add: domIff)
  ultimately show ?thesis using m'(1) r by blast
qed

theorem drmHash_enumeration_witness:
  "\<exists>m1 kvs m2. drmHashInsert hash_demo_env hash_demo 1 0 70 = Some (0, m1) \<and>
     hash_enumerate m1 1 = Some (kvs, m2) \<and> count_list (map fst kvs) 0 = 2"
proof -
  have "he_bucket hash_demo_env (hm_buckets hash_demo) \<noteq> None"
    by (simp add: hash_demo_env_def hash_demo_def drmHashCreate_def first_free_def upt_rec)
  then obtain m1 where m1: "drmHashInsert hash_demo_env hash_demo 1 0 70 = Some (0, m1)"
    "hash_rep hash_demo_env 1 m1 [0 \<mapsto> 70]"
    using drmHashInsert_rep [OF hash_demo_rep, of 0 70] by auto
  have "hash_idx 0 = 0" by (simp add: hash_idx_def hash_loop.simps)
  then show ?thesis
    using m1(1) drmHash_enumeration [OF m1(2)] by (auto simp: HASH_SIZE_def)
qed

text \<open>Destruction frees the table and every bucket of it exactly once and nothing else, and
  returns 0.\<close>

theorem drmHashDestroy_correct:
  assumes "hash_ok env m t es"
  shows "drmHashDestroy m t = Some (0, m\<lparr>hm_tables := (hm_tables m)(t := None),
    hm_buckets := hm_buckets m |` (- (\<Union>i < HASH_SIZE. set (es i)))\<rparr>)"
  by (rule drmHashDestroy_frees [OF assms])

theorem drmHashDestroy_correct_witness:
  "\<exists>m'. drmHashDestroy hash_demo 1 = Some (0, m') \<and> hm_tables m' 1 = None"
  using drmHashDestroy_correct [OF hash_demo_ok] by simp

end
