(* ===== verification/Drm_SkipList.thy ===== *)
theory Drm_SkipList
  imports Drm_Random Drm_Dict
begin

text \<open>
  The skip list of \<open>xf86drmSL.c\<close>. The model keeps the heap of \<open>struct SLEntry\<close> (the variable
  sized \<open>forward\<close> array as a list), the heap of \<open>struct SkipList\<close> and the static generator
  state of \<open>SLRandomLevel\<close>; \<open>SL_ALLOC\<close> is \<open>drmMalloc\<close>, which clears what it allocates. The
  field \<open>level\<close> is decremented only while it is not zero and is kept as a natural number. An
  element of the local arrays \<open>update\<close> that was never assigned is \<open>None\<close>; reading it is
  undefined.
\<close>

section \<open>Model\<close>

record SLEntry =
  sl_magic :: u64
  sl_key :: u64
  sl_value :: addr
  sl_levels :: nat
  sl_forward :: "addr list"

record SkipList =
  ls_magic :: u64
  ls_level :: nat
  ls_count :: int
  ls_head :: addr
  ls_p0 :: addr

definition SL_LIST_MAGIC :: u64 where
  "SL_LIST_MAGIC = 0xfacade00"

definition SL_ENTRY_MAGIC :: u64 where
  "SL_ENTRY_MAGIC = 0x00fab1ed"

definition SL_FREED_MAGIC :: u64 where
  "SL_FREED_MAGIC = 0xdecea5ed"

definition SL_MAX_LEVEL :: nat where
  "SL_MAX_LEVEL = 16"

definition SL_RANDOM_SEED :: u64 where
  "SL_RANDOM_SEED = 0xc01055a1"

type_synonym eheap = "SLEntry heap"

record sl_mem =
  sm_entries :: eheap
  sm_lists :: "SkipList heap"
  sm_random :: "RandomState option"

record sl_env =
  se_entry :: "SLEntry allocator"
  se_list :: "SkipList allocator"
  se_random :: bool

text \<open>Element \<open>i\<close> of an entry's \<open>forward\<close> array; an index past the allocation is undefined.\<close>

definition fwd_get :: "eheap \<Rightarrow> addr \<Rightarrow> nat \<Rightarrow> addr option" where
  "fwd_get s e i = do { f \<leftarrow> ld s e sl_forward; c_assert (i < length f); Some (f ! i) }"

definition fwd_set :: "eheap \<Rightarrow> addr \<Rightarrow> nat \<Rightarrow> addr \<Rightarrow> eheap option" where
  "fwd_set s e i v = do {
     f \<leftarrow> ld s e sl_forward;
     c_assert (i < length f);
     wr s e (\<lambda>x. x\<lparr>sl_forward := f[i := v]\<rparr>)
   }"

type_synonym update_arr = "addr option list"

definition update_uninit :: update_arr where
  "update_uninit = replicate (SL_MAX_LEVEL + 1) None"

definition upd_get :: "update_arr \<Rightarrow> nat \<Rightarrow> addr option" where
  "upd_get u i = (if i < length u then u ! i else None)"

definition upd_set :: "update_arr \<Rightarrow> nat \<Rightarrow> addr \<Rightarrow> update_arr option" where
  "upd_set u i v = (if i < length u then Some (u[i := Some v]) else None)"

text \<open>The allocation holds \<open>max_level + 2\<close> pointers: one in the struct and \<open>max_level + 1\<close> more.\<close>

definition SLCreateEntry :: "sl_env \<Rightarrow> eheap \<Rightarrow> int \<Rightarrow> u64 \<Rightarrow> addr \<Rightarrow> addr \<times> eheap" where
  "SLCreateEntry env s max_level key val =
    (let ml = (if max_level < 0 \<or> max_level > int SL_MAX_LEVEL then SL_MAX_LEVEL else nat max_level) in
     case se_entry env s of
       None \<Rightarrow> (NULL, s)
     | Some e \<Rightarrow> (e, s(e \<mapsto> \<lparr>sl_magic = SL_ENTRY_MAGIC, sl_key = key, sl_value = val,
                        sl_levels = ml + 1, sl_forward = replicate (ml + 2) NULL\<rparr>)))"

text \<open>The generator is created by the first call. Its pointer is not checked, so a failed
  allocation makes the first draw undefined. A number is drawn before the limit is tested.\<close>

function sl_level_loop :: "RandomState \<Rightarrow> nat \<Rightarrow> (nat \<times> RandomState) option" where
  "sl_level_loop st level =
    (case drmRandom st of
       None \<Rightarrow> None
     | Some (r, st) \<Rightarrow>
         if odd (unat r) \<and> level < SL_MAX_LEVEL then sl_level_loop st (level + 1) else Some (level, st))"
  by auto
termination
  by (relation "measure (\<lambda>(_, level). SL_MAX_LEVEL - level)") auto

declare sl_level_loop.simps [simp del]

definition SLRandomLevel :: "sl_env \<Rightarrow> RandomState option \<Rightarrow> (nat \<times> RandomState option) option" where
  "SLRandomLevel env rs = do {
     st \<leftarrow> (case rs of Some st \<Rightarrow> Some st | None \<Rightarrow> drmRandomCreate (se_random env) SL_RANDOM_SEED);
     (level, st) \<leftarrow> sl_level_loop st 1;
     Some (level, Some st)
   }"

text \<open>The head entry is not checked either: without memory for it the loop writes through
  \<open>NULL\<close>.\<close>

fun clear_fwd :: "eheap \<Rightarrow> addr \<Rightarrow> nat list \<Rightarrow> eheap option" where
  "clear_fwd s e [] = Some s"
| "clear_fwd s e (i # is) = do { s \<leftarrow> fwd_set s e i NULL; clear_fwd s e is }"

definition drmSLCreate :: "sl_env \<Rightarrow> sl_mem \<Rightarrow> (addr \<times> sl_mem) option" where
  "drmSLCreate env m =
    (case se_list env (sm_lists m) of
       None \<Rightarrow> Some (NULL, m)
     | Some l \<Rightarrow> do {
         let (h, s) = SLCreateEntry env (sm_entries m) (int SL_MAX_LEVEL) 0 NULL;
         let ls = (sm_lists m)(l \<mapsto> \<lparr>ls_magic = SL_LIST_MAGIC, ls_level = 0, ls_count = 0,
                                    ls_head = h, ls_p0 = NULL\<rparr>);
         s \<leftarrow> clear_fwd s h [0..<SL_MAX_LEVEL + 1];
         Some (l, m\<lparr>sm_entries := s, sm_lists := ls\<rparr>)
       })"

partial_function (option) sl_destroy_loop :: "eheap \<Rightarrow> addr \<Rightarrow> (bool \<times> eheap) option" where
  "sl_destroy_loop s e =
    (if e = NULL then Some (True, s)
     else do {
       mg \<leftarrow> ld s e sl_magic;
       if mg \<noteq> SL_ENTRY_MAGIC then Some (False, s)
       else do {
         n \<leftarrow> fwd_get s e 0;
         s \<leftarrow> wr s e (\<lambda>x. x\<lparr>sl_magic := SL_FREED_MAGIC\<rparr>);
         s \<leftarrow> dealloc s e;
         sl_destroy_loop s n
       }
     })"

definition drmSLDestroy :: "sl_mem \<Rightarrow> addr \<Rightarrow> (int \<times> sl_mem) option" where
  "drmSLDestroy m l = do {
     mg \<leftarrow> ld (sm_lists m) l ls_magic;
     if mg \<noteq> SL_LIST_MAGIC then Some (- 1, m)
     else do {
       h \<leftarrow> ld (sm_lists m) l ls_head;
       (ok, s) \<leftarrow> sl_destroy_loop (sm_entries m) h;
       let m = m\<lparr>sm_entries := s\<rparr>;
       if \<not> ok then Some (- 1, m)
       else do {
         ls \<leftarrow> wr (sm_lists m) l (\<lambda>x. x\<lparr>ls_magic := SL_FREED_MAGIC\<rparr>);
         ls \<leftarrow> dealloc ls l;
         Some (0, m\<lparr>sm_lists := ls\<rparr>)
       }
     }
   }"

partial_function (option) locate_while :: "eheap \<Rightarrow> u64 \<Rightarrow> nat \<Rightarrow> addr \<Rightarrow> addr option" where
  "locate_while s key i e = do {
     n \<leftarrow> fwd_get s e i;
     if n = NULL then Some e
     else do {
       k \<leftarrow> ld s n sl_key;
       if k < key then locate_while s key i n else Some e
     }
   }"

text \<open>The levels \<open>n - 1\<close> down to 0.\<close>

fun locate_levels :: "eheap \<Rightarrow> u64 \<Rightarrow> nat \<Rightarrow> addr \<Rightarrow> update_arr \<Rightarrow> (addr \<times> update_arr) option" where
  "locate_levels s key 0 e u = Some (e, u)"
| "locate_levels s key (Suc i) e u = do {
     e \<leftarrow> locate_while s key i e;
     u \<leftarrow> upd_set u i e;
     locate_levels s key i e u
   }"

definition SLLocate :: "sl_mem \<Rightarrow> addr \<Rightarrow> u64 \<Rightarrow> update_arr \<Rightarrow> (addr \<times> update_arr) option" where
  "SLLocate m l key u = do {
     mg \<leftarrow> ld (sm_lists m) l ls_magic;
     if mg \<noteq> SL_LIST_MAGIC then Some (NULL, u)
     else do {
       level \<leftarrow> ld (sm_lists m) l ls_level;
       h \<leftarrow> ld (sm_lists m) l ls_head;
       (e, u) \<leftarrow> locate_levels (sm_entries m) key (Suc level) h u;
       n \<leftarrow> fwd_get (sm_entries m) e 0;
       Some (n, u)
     }
   }"

text \<open>``Fix up forward pointers'' of the insertion, on the levels given.\<close>

fun link_levels :: "eheap \<Rightarrow> addr \<Rightarrow> update_arr \<Rightarrow> nat list \<Rightarrow> eheap option" where
  "link_levels s e u [] = Some s"
| "link_levels s e u (i # is) = do {
     p \<leftarrow> upd_get u i;
     n \<leftarrow> fwd_get s p i;
     s \<leftarrow> fwd_set s e i n;
     p \<leftarrow> upd_get u i;
     s \<leftarrow> fwd_set s p i e;
     link_levels s e u is
   }"

text \<open>A level above the list's raises the list by one level only.\<close>

definition raise_level ::
  "SkipList heap \<Rightarrow> addr \<Rightarrow> nat \<Rightarrow> update_arr \<Rightarrow> (nat \<times> SkipList heap \<times> update_arr) option" where
  "raise_level ls l level u = do {
     ll \<leftarrow> ld ls l ls_level;
     if level > ll then do {
       ls \<leftarrow> wr ls l (\<lambda>x. x\<lparr>ls_level := ll + 1\<rparr>);
       h \<leftarrow> ld ls l ls_head;
       u \<leftarrow> upd_set u (ll + 1) h;
       Some (ll + 1, ls, u)
     }
     else Some (level, ls, u)
   }"

definition drmSLInsert :: "sl_env \<Rightarrow> sl_mem \<Rightarrow> addr \<Rightarrow> u64 \<Rightarrow> addr \<Rightarrow> (int \<times> sl_mem) option" where
  "drmSLInsert env m l key val = do {
     mg \<leftarrow> ld (sm_lists m) l ls_magic;
     if mg \<noteq> SL_LIST_MAGIC then Some (- 1, m)
     else do {
       (e, u) \<leftarrow> SLLocate m l key update_uninit;
       found \<leftarrow> (if e \<noteq> NULL then do { k \<leftarrow> ld (sm_entries m) e sl_key; Some (k = key) } else Some False);
       if found then Some (1, m)
       else do {
         (level, rs) \<leftarrow> SLRandomLevel env (sm_random m);
         let m = m\<lparr>sm_random := rs\<rparr>;
         (level, ls, u) \<leftarrow> raise_level (sm_lists m) l level u;
         let (e, s) = SLCreateEntry env (sm_entries m) (int level) key val;
         s \<leftarrow> link_levels s e u [0..<level + 1];
         c \<leftarrow> ld ls l ls_count;
         c \<leftarrow> s32 (c + 1);
         ls \<leftarrow> wr ls l (\<lambda>x. x\<lparr>ls_count := c\<rparr>);
         Some (0, m\<lparr>sm_entries := s, sm_lists := ls\<rparr>)
       }
     }
   }"

fun unlink_levels :: "eheap \<Rightarrow> addr \<Rightarrow> update_arr \<Rightarrow> nat list \<Rightarrow> eheap option" where
  "unlink_levels s e u [] = Some s"
| "unlink_levels s e u (i # is) = do {
     p \<leftarrow> upd_get u i;
     n \<leftarrow> fwd_get s p i;
     s \<leftarrow> (if n = e then do { x \<leftarrow> fwd_get s e i; fwd_set s p i x } else Some s);
     unlink_levels s e u is
   }"

fun trim_level :: "eheap \<Rightarrow> addr \<Rightarrow> nat \<Rightarrow> nat option" where
  "trim_level s h 0 = Some 0"
| "trim_level s h (Suc i) = do {
     n \<leftarrow> fwd_get s h (Suc i);
     if n = NULL then trim_level s h i else Some (Suc i)
   }"

definition drmSLDelete :: "sl_mem \<Rightarrow> addr \<Rightarrow> u64 \<Rightarrow> (int \<times> sl_mem) option" where
  "drmSLDelete m l key = do {
     mg \<leftarrow> ld (sm_lists m) l ls_magic;
     if mg \<noteq> SL_LIST_MAGIC then Some (- 1, m)
     else do {
       (e, u) \<leftarrow> SLLocate m l key update_uninit;
       found \<leftarrow> (if e \<noteq> NULL then do { k \<leftarrow> ld (sm_entries m) e sl_key; Some (k = key) } else Some False);
       if \<not> found then Some (1, m)
       else do {
         ll \<leftarrow> ld (sm_lists m) l ls_level;
         s \<leftarrow> unlink_levels (sm_entries m) e u [0..<ll + 1];
         s \<leftarrow> wr s e (\<lambda>x. x\<lparr>sl_magic := SL_FREED_MAGIC\<rparr>);
         s \<leftarrow> dealloc s e;
         h \<leftarrow> ld (sm_lists m) l ls_head;
         ll \<leftarrow> trim_level s h ll;
         ls \<leftarrow> wr (sm_lists m) l (\<lambda>x. x\<lparr>ls_level := ll\<rparr>);
         c \<leftarrow> ld ls l ls_count;
         c \<leftarrow> s32 (c - 1);
         ls \<leftarrow> wr ls l (\<lambda>x. x\<lparr>ls_count := c\<rparr>);
         Some (0, m\<lparr>sm_entries := s, sm_lists := ls\<rparr>)
       }
     }
   }"

text \<open>The value stored through \<open>value\<close> is the address of the entry, not its \<open>value\<close> field.\<close>

definition drmSLLookup :: "sl_mem \<Rightarrow> addr \<Rightarrow> u64 \<Rightarrow> (int \<times> addr option \<times> sl_mem) option" where
  "drmSLLookup m l key = do {
     (e, u) \<leftarrow> SLLocate m l key update_uninit;
     found \<leftarrow> (if e \<noteq> NULL then do { k \<leftarrow> ld (sm_entries m) e sl_key; Some (k = key) } else Some False);
     if found then Some (0, Some e, m) else Some (- 1, Some NULL, m)
   }"

text \<open>\<open>SLLocate\<close> is not called: \<open>update\<close> is read as it was declared. The result is the code
  and the two pairs stored.\<close>

definition drmSLLookupNeighbors ::
  "sl_mem \<Rightarrow> addr \<Rightarrow> u64 \<Rightarrow> (int \<times> (u64 \<times> addr) \<times> (u64 \<times> addr)) option" where
  "drmSLLookupNeighbors m l key = do {
     p \<leftarrow> upd_get update_uninit 0;
     if p = NULL then Some (0, (key, NULL), (key, NULL))
     else do {
       pk \<leftarrow> ld (sm_entries m) p sl_key;
       pv \<leftarrow> ld (sm_entries m) p sl_value;
       n \<leftarrow> fwd_get (sm_entries m) p 0;
       if n = NULL then Some (1, (pk, pv), (key, NULL))
       else do {
         nk \<leftarrow> ld (sm_entries m) n sl_key;
         nv \<leftarrow> ld (sm_entries m) n sl_value;
         Some (2, (pk, pv), (nk, nv))
       }
     }
   }"

definition drmSLNext :: "sl_mem \<Rightarrow> addr \<Rightarrow> (int \<times> (u64 \<times> addr) option \<times> sl_mem) option" where
  "drmSLNext m l = do {
     mg \<leftarrow> ld (sm_lists m) l ls_magic;
     if mg \<noteq> SL_LIST_MAGIC then Some (- 1, None, m)
     else do {
       e \<leftarrow> ld (sm_lists m) l ls_p0;
       if e \<noteq> NULL then do {
         n \<leftarrow> fwd_get (sm_entries m) e 0;
         ls \<leftarrow> wr (sm_lists m) l (\<lambda>x. x\<lparr>ls_p0 := n\<rparr>);
         k \<leftarrow> ld (sm_entries m) e sl_key;
         v \<leftarrow> ld (sm_entries m) e sl_value;
         Some (1, Some (k, v), m\<lparr>sm_lists := ls\<rparr>)
       }
       else do {
         ls \<leftarrow> wr (sm_lists m) l (\<lambda>x. x\<lparr>ls_p0 := NULL\<rparr>);
         Some (0, None, m\<lparr>sm_lists := ls\<rparr>)
       }
     }
   }"

definition drmSLFirst :: "sl_mem \<Rightarrow> addr \<Rightarrow> (int \<times> (u64 \<times> addr) option \<times> sl_mem) option" where
  "drmSLFirst m l = do {
     mg \<leftarrow> ld (sm_lists m) l ls_magic;
     if mg \<noteq> SL_LIST_MAGIC then Some (- 1, None, m)
     else do {
       h \<leftarrow> ld (sm_lists m) l ls_head;
       n \<leftarrow> fwd_get (sm_entries m) h 0;
       ls \<leftarrow> wr (sm_lists m) l (\<lambda>x. x\<lparr>ls_p0 := n\<rparr>);
       drmSLNext (m\<lparr>sm_lists := ls\<rparr>) l
     }
   }"

section \<open>Representation\<close>

text \<open>Level \<open>i\<close> of the list as a pointer function, and the entries that take part in it.\<close>

definition fw :: "nat \<Rightarrow> eheap \<Rightarrow> addr \<Rightarrow> addr" where
  "fw i s a = fld sl_forward s a ! i"

definition flen :: "eheap \<Rightarrow> addr \<Rightarrow> nat" where
  "flen s a = length (fld sl_forward s a)"

definition lvl :: "eheap \<Rightarrow> nat \<Rightarrow> addr list \<Rightarrow> addr list" where
  "lvl s i xs = filter (\<lambda>a. i < fld sl_levels s a) xs"

text \<open>The entries \<open>xs\<close> behind the head \<open>h\<close>, in key order: level \<open>i\<close> chains exactly the
  entries of more than \<open>i\<close> levels.\<close>

definition sl_ok :: "eheap \<Rightarrow> addr \<Rightarrow> nat \<Rightarrow> addr list \<Rightarrow> bool" where
  "sl_ok s h L xs \<longleftrightarrow>
     NULL \<notin> set (h # xs) \<and> set (h # xs) \<subseteq> dom s \<and> h \<notin> set xs \<and>
     sorted_wrt (<) (map (fld sl_key s) xs) \<and>
     (\<forall>a \<in> set (h # xs). fld sl_magic s a = SL_ENTRY_MAGIC \<and> flen s a = fld sl_levels s a + 1) \<and>
     fld sl_levels s h = SL_MAX_LEVEL + 1 \<and> L \<le> SL_MAX_LEVEL \<and>
     (\<forall>a \<in> set xs. 0 < fld sl_levels s a \<and> fld sl_levels s a \<le> L + 1) \<and>
     (\<forall>i \<le> SL_MAX_LEVEL. chain (fw i s) h (h # lvl s i xs) NULL)"

definition sl_map :: "eheap \<Rightarrow> addr list \<Rightarrow> u64 \<rightharpoonup> addr" where
  "sl_map s xs = map_of (map (\<lambda>a. (fld sl_key s a, fld sl_value s a)) xs)"

definition sl_list :: "sl_env \<Rightarrow> sl_mem \<Rightarrow> addr \<Rightarrow> addr \<Rightarrow> addr list \<Rightarrow> bool" where
  "sl_list env m l h xs \<longleftrightarrow>
     fresh_alloc (se_entry env) \<and>
     (case sm_random m of None \<Rightarrow> se_random env | Some st \<Rightarrow> random_inv st) \<and>
     l \<in> dom (sm_lists m) \<and> fld ls_magic (sm_lists m) l = SL_LIST_MAGIC \<and>
     fld ls_head (sm_lists m) l = h \<and> fld ls_count (sm_lists m) l = int (length xs) \<and>
     int (length xs) < 2 ^ 31 \<and> sl_ok (sm_entries m) h (fld ls_level (sm_lists m) l) xs"

definition sl_rep :: "sl_env \<Rightarrow> addr \<Rightarrow> sl_mem \<Rightarrow> (u64 \<rightharpoonup> addr) \<Rightarrow> bool" where
  "sl_rep env l m M \<longleftrightarrow> (\<exists>h xs. sl_list env m l h xs \<and> M = sl_map (sm_entries m) xs)"

text \<open>No room for one more entry: no memory, or the \<open>int\<close> counter at its limit.\<close>

definition sl_full :: "sl_env \<Rightarrow> addr \<Rightarrow> sl_mem \<Rightarrow> bool" where
  "sl_full env l m \<longleftrightarrow> se_entry env (sm_entries m) = None \<or> \<not> in_s32 (fld ls_count (sm_lists m) l + 1)"

section \<open>Forward pointers\<close>

definition fwd_upd :: "eheap \<Rightarrow> addr \<Rightarrow> nat \<Rightarrow> addr \<Rightarrow> eheap" where
  "fwd_upd s e i v = setf s e (\<lambda>x. x\<lparr>sl_forward := (sl_forward x)[i := v]\<rparr>)"

lemma fwd_get_fw [heap_simps]: "e \<in> dom s \<Longrightarrow> i < flen s e \<Longrightarrow> fwd_get s e i = Some (fw i s e)"
  by (simp add: fwd_get_def heap_simps flen_def fw_def)

lemma fwd_set_upd [heap_simps]: "e \<in> dom s \<Longrightarrow> i < flen s e \<Longrightarrow> fwd_set s e i v = Some (fwd_upd s e i v)"
  by (auto simp: fwd_set_def heap_simps flen_def fwd_upd_def fld_def setf_def)

lemma fwd_upd_frame [simp]:
  "dom (fwd_upd s e i v) = dom s"
  "fld sl_key (fwd_upd s e i v) = fld sl_key s" "fld sl_value (fwd_upd s e i v) = fld sl_value s"
  "fld sl_magic (fwd_upd s e i v) = fld sl_magic s" "fld sl_levels (fwd_upd s e i v) = fld sl_levels s"
  by (simp_all add: fwd_upd_def)

lemma flen_fwd_upd [simp]: "flen (fwd_upd s e i v) = flen s"
  by (rule ext) (auto simp: flen_def fwd_upd_def fld_def setf_def map_option_case split: option.splits)

lemma fw_fwd_upd:
  assumes "e \<in> dom s" "i < flen s e"
  shows "fw j (fwd_upd s e i v) = (if j = i then (fw i s)(e := v) else fw j s)"
  using assms by (auto simp: fw_def fwd_upd_def fld_def setf_def flen_def fun_eq_iff)

text \<open>Insertion and removal in one chain.\<close>

lemma chain_insert_after:
  assumes "chain nx h (as @ p # qs) z" "distinct (as @ p # qs)" "n \<notin> set (as @ p # qs)"
  shows "chain (nx(n := nx p, p := n)) h (as @ p # n # qs) z"
  using assms by (auto simp: chain_split)

lemma chain_remove_after:
  assumes "chain nx h (as @ p # e # qs) z" "distinct (as @ p # e # qs)"
  shows "chain (nx(p := nx e)) h (as @ p # qs) z"
  using assms by (auto simp: chain_split)

lemma link_levels_eff:
  assumes "distinct is" "e \<in> dom s"
    "\<And>i. i \<in> set is \<Longrightarrow> upd_get u i = Some (p i) \<and> p i \<in> dom s \<and> p i \<noteq> e \<and> i < flen s (p i) \<and> i < flen s e"
  shows "\<exists>s'. link_levels s e u is = Some s' \<and> dom s' = dom s \<and> fld sl_key s' = fld sl_key s \<and>
    fld sl_value s' = fld sl_value s \<and> fld sl_magic s' = fld sl_magic s \<and>
    fld sl_levels s' = fld sl_levels s \<and> flen s' = flen s \<and>
    (\<forall>i. fw i s' = (if i \<in> set is then (fw i s)(e := fw i s (p i), p i := e) else fw i s))"
  using assms
proof (induction "is" arbitrary: s)
  case (Cons i "is")
  let ?s = "fwd_upd (fwd_upd s e i (fw i s (p i))) (p i) i e"
  have i: "upd_get u i = Some (p i)" "p i \<in> dom s" "p i \<noteq> e" "i < flen s (p i)" "i < flen s e"
    using Cons.prems(3) [of i] by auto
  have f: "fw j ?s = (if j = i then (fw i s)(e := fw i s (p i), p i := e) else fw j s)" for j
    using i Cons.prems(2) by (simp add: fw_fwd_upd)
  from Cons.IH [of ?s] Cons.prems obtain s' where
    s': "link_levels ?s e u is = Some s'" "dom s' = dom s" "fld sl_key s' = fld sl_key s"
    "fld sl_value s' = fld sl_value s" "fld sl_magic s' = fld sl_magic s"
    "fld sl_levels s' = fld sl_levels s" "flen s' = flen s"
    "\<forall>j. fw j s' = (if j \<in> set is then (fw j ?s)(e := fw j ?s (p j), p j := e) else fw j ?s)" by auto
  have "link_levels s e u (i # is) = Some s'"
    using i s'(1) Cons.prems(2) by (simp add: heap_simps)
  moreover have "fw j s' = (if j \<in> set (i # is) then (fw j s)(e := fw j s (p j), p j := e) else fw j s)" for j
    using s'(8) f Cons.prems(1) by auto
  ultimately show ?case using s' by blast
qed simp

lemma unlink_levels_eff:
  assumes "distinct is" "e \<in> dom s"
    "\<And>i. i \<in> set is \<Longrightarrow> upd_get u i = Some (p i) \<and> p i \<in> dom s \<and> i < flen s (p i) \<and>
       (fw i s (p i) = e \<longrightarrow> i < flen s e)"
  shows "\<exists>s'. unlink_levels s e u is = Some s' \<and> dom s' = dom s \<and> fld sl_key s' = fld sl_key s \<and>
    fld sl_value s' = fld sl_value s \<and> fld sl_magic s' = fld sl_magic s \<and>
    fld sl_levels s' = fld sl_levels s \<and> flen s' = flen s \<and>
    (\<forall>i. fw i s' = (if i \<in> set is \<and> fw i s (p i) = e then (fw i s)(p i := fw i s e) else fw i s))"
  using assms
proof (induction "is" arbitrary: s)
  case (Cons i "is")
  define t where "t = (if fw i s (p i) = e then fwd_upd s (p i) i (fw i s e) else s)"
  have i: "upd_get u i = Some (p i)" "p i \<in> dom s" "i < flen s (p i)" "fw i s (p i) = e \<Longrightarrow> i < flen s e"
    using Cons.prems(3) [of i] by auto
  have f: "fw j t = (if j = i \<and> fw i s (p i) = e then (fw i s)(p i := fw i s e) else fw j s)" for j
    using i by (simp add: fw_fwd_upd t_def)
  have fr: "dom t = dom s" "fld sl_key t = fld sl_key s" "fld sl_value t = fld sl_value s"
    "fld sl_magic t = fld sl_magic s" "fld sl_levels t = fld sl_levels s" "flen t = flen s"
    by (simp_all add: t_def)
  have fj: "fw j t = fw j s" if "j \<in> set is" for j using that Cons.prems(1) f by auto
  have d: "distinct is" "e \<in> dom t" using Cons.prems(1,2) fr by auto
  have pre: "upd_get u j = Some (p j) \<and> p j \<in> dom t \<and> j < flen t (p j) \<and> (fw j t (p j) = e \<longrightarrow> j < flen t e)"
    if "j \<in> set is" for j using Cons.prems(3) [of j] that fr fj [OF that] by auto
  from Cons.IH [OF d pre] obtain s' where
    s': "unlink_levels t e u is = Some s'" "dom s' = dom t" "fld sl_key s' = fld sl_key t"
    "fld sl_value s' = fld sl_value t" "fld sl_magic s' = fld sl_magic t"
    "fld sl_levels s' = fld sl_levels t" "flen s' = flen t"
    "\<forall>j. fw j s' = (if j \<in> set is \<and> fw j t (p j) = e then (fw j t)(p j := fw j t e) else fw j t)"
    by blast
  have "unlink_levels s e u (i # is) = Some s'"
    using i s'(1) Cons.prems(2) by (auto simp: heap_simps t_def)
  moreover have "fw j s' = (if j \<in> set (i # is) \<and> fw j s (p j) = e then (fw j s)(p j := fw j s e) else fw j s)" for j
    using s'(8) [rule_format, of j] f fj Cons.prems(1) by (cases "j = i") auto
  ultimately show ?case using s'(2-7) fr by auto
qed simp

section \<open>Locating a key\<close>

definition sl_below :: "eheap \<Rightarrow> u64 \<Rightarrow> addr list \<Rightarrow> addr list" where
  "sl_below s k xs = filter (\<lambda>a. fld sl_key s a < k) xs"

definition sl_from :: "eheap \<Rightarrow> u64 \<Rightarrow> addr list \<Rightarrow> addr list" where
  "sl_from s k xs = filter (\<lambda>a. \<not> fld sl_key s a < k) xs"

text \<open>The last entry of level \<open>i\<close> before the key, or the head.\<close>

definition sl_pred :: "eheap \<Rightarrow> addr \<Rightarrow> u64 \<Rightarrow> nat \<Rightarrow> addr list \<Rightarrow> addr" where
  "sl_pred s h k i xs = last (h # sl_below s k (lvl s i xs))"

lemma sl_okD:
  assumes "sl_ok s h L xs"
  shows "NULL \<notin> set (h # xs)" "set (h # xs) \<subseteq> dom s" "h \<notin> set xs"
    "sorted_wrt (<) (map (fld sl_key s) xs)"
    "\<And>a. a \<in> set (h # xs) \<Longrightarrow> fld sl_magic s a = SL_ENTRY_MAGIC"
    "\<And>a. a \<in> set (h # xs) \<Longrightarrow> flen s a = fld sl_levels s a + 1"
    "fld sl_levels s h = SL_MAX_LEVEL + 1" "L \<le> SL_MAX_LEVEL"
    "\<And>a. a \<in> set xs \<Longrightarrow> 0 < fld sl_levels s a" "\<And>a. a \<in> set xs \<Longrightarrow> fld sl_levels s a \<le> L + 1"
    "\<And>i. i \<le> SL_MAX_LEVEL \<Longrightarrow> chain (fw i s) h (h # lvl s i xs) NULL"
  using assms unfolding sl_ok_def by blast+

lemma sorted_below_from:
  "sorted_wrt (<) (map (fld sl_key s) xs) \<Longrightarrow> sl_below s k xs @ sl_from s k xs = xs"
proof (induction xs)
  case (Cons a xs)
  have "sl_below s k xs = []" if "\<not> fld sl_key s a < k"
    using Cons.prems that by (auto simp: sl_below_def filter_empty_conv)
  then show ?case using Cons by (auto simp: sl_below_def sl_from_def)
qed (simp add: sl_below_def sl_from_def)

lemma sorted_lvl:
  "sorted_wrt (<) (map (fld sl_key s) xs) \<Longrightarrow> sorted_wrt (<) (map (fld sl_key s) (lvl s i xs))"
  unfolding lvl_def by (induction xs) auto

lemma lvl_flen:
  assumes "sl_ok s h L xs" "i \<le> SL_MAX_LEVEL" "a \<in> set (h # lvl s i xs)"
  shows "a \<in> dom s" "i < flen s a" "a \<noteq> NULL"
proof -
  show "a \<in> dom s" "a \<noteq> NULL" using sl_okD(1,2) [OF assms(1)] assms(3) by (auto simp: lvl_def intro!: gr0I)
  show "i < flen s a"
    using sl_okD(6) [OF assms(1), of a] sl_okD(7) [OF assms(1)] assms(2,3) by (auto simp: lvl_def)
qed

lemma lvl_below_subset: "j \<le> i \<Longrightarrow> set (sl_below s k (lvl s i xs)) \<subseteq> set (sl_below s k (lvl s j xs))"
  by (auto simp: sl_below_def lvl_def)

lemma locate_while_chain:
  assumes "chain (fw i s) e (e # ps @ qs) NULL" "\<And>a. a \<in> set (e # ps @ qs) \<Longrightarrow> a \<in> dom s \<and> i < flen s a \<and> a \<noteq> NULL"
    "\<And>a. a \<in> set ps \<Longrightarrow> fld sl_key s a < k" "qs \<noteq> [] \<Longrightarrow> \<not> fld sl_key s (hd qs) < k"
  shows "locate_while s k i e = Some (last (e # ps))"
  using assms
proof (induction ps arbitrary: e)
  case Nil
  then show ?case
    by (cases qs) (auto simp: locate_while.simps [of s k i e] heap_simps)
next
  case (Cons p ps)
  have "locate_while s k i p = Some (last (p # ps))" using Cons.prems by (intro Cons.IH) auto
  moreover have "locate_while s k i e = locate_while s k i p"
    using Cons.prems(1,3) Cons.prems(2) [of e] Cons.prems(2) [of p]
    by (subst locate_while.simps) (simp add: heap_simps)
  ultimately show ?case by simp
qed

lemma locate_while_pred:
  assumes ok: "sl_ok s h L xs" and i: "i \<le> SL_MAX_LEVEL" and e: "e \<in> set (h # sl_below s k (lvl s i xs))"
  shows "locate_while s k i e = Some (sl_pred s h k i xs)"
proof -
  let ?P = "sl_below s k (lvl s i xs)" and ?Q = "sl_from s k (lvl s i xs)"
  have sp: "lvl s i xs = ?P @ ?Q" using sorted_below_from [OF sorted_lvl [OF sl_okD(4) [OF ok]]] by simp
  from e obtain as bs where ab: "h # ?P = as @ e # bs" by (metis split_list)
  have "chain (fw i s) h (as @ e # bs @ ?Q) NULL"
    using sl_okD(11) [OF ok i] sp ab by (metis append.assoc append_Cons)
  then have ch: "chain (fw i s) e (e # bs @ ?Q) NULL" by (simp add: chain_split)
  have sub: "set (e # bs @ ?Q) \<subseteq> set (h # lvl s i xs)"
  proof -
    have "set (e # bs) \<subseteq> set (h # ?P)" unfolding ab by auto
    then show ?thesis using sp by (auto simp: sl_below_def sl_from_def)
  qed
  have bs: "set bs \<subseteq> set ?P" using ab by (cases as) auto
  have "locate_while s k i e = Some (last (e # bs))"
  proof (rule locate_while_chain [OF ch])
    show "a \<in> dom s \<and> i < flen s a \<and> a \<noteq> NULL" if "a \<in> set (e # bs @ ?Q)" for a
      using lvl_flen [OF ok i, of a] sub that by blast
    show "fld sl_key s a < k" if "a \<in> set bs" for a using bs that by (auto simp: sl_below_def)
    show "\<not> fld sl_key s (hd ?Q) < k" if "?Q \<noteq> []"
      using hd_in_set [OF that] by (simp add: sl_from_def)
  qed
  moreover have "last (e # bs) = last (h # ?P)" unfolding ab by simp
  ultimately show ?thesis by (simp add: sl_pred_def)
qed

lemma pred_mem: "sl_pred s h k i xs \<in> set (h # sl_below s k (lvl s i xs))"
  unfolding sl_pred_def by (rule last_in_set) simp

lemma locate_levels_pred:
  assumes ok: "sl_ok s h L xs"
  shows "n \<le> SL_MAX_LEVEL + 1 \<Longrightarrow> n \<le> length u \<Longrightarrow> e \<in> set (h # sl_below s k (lvl s (n - 1) xs)) \<Longrightarrow>
    \<exists>u'. locate_levels s k n e u = Some (if n = 0 then e else sl_pred s h k 0 xs, u') \<and> length u' = length u \<and>
      (\<forall>i < length u. u' ! i = (if i < n then Some (sl_pred s h k i xs) else u ! i))"
proof (induction n arbitrary: e u)
  case (Suc n)
  let ?p = "sl_pred s h k n xs"
  have w: "locate_while s k n e = Some ?p" using locate_while_pred [OF ok] Suc.prems by simp
  have "?p \<in> set (h # sl_below s k (lvl s (n - 1) xs))"
    using pred_mem [of s h k n xs] lvl_below_subset [of "n - 1" n s k xs] by auto
  from Suc.IH [OF _ _ this, of "u[n := Some ?p]"] Suc.prems obtain u' where
    "locate_levels s k n ?p (u[n := Some ?p]) = Some (if n = 0 then ?p else sl_pred s h k 0 xs, u')"
    "length u' = length u"
    "\<forall>i < length u. u' ! i = (if i < n then Some (sl_pred s h k i xs) else u[n := Some ?p] ! i)" by auto
  then show ?case using w Suc.prems by (auto simp: upd_set_def less_Suc_eq)
qed simp

lemma lvl_0: "sl_ok s h L xs \<Longrightarrow> lvl s 0 xs = xs"
  using sl_okD(9) by (auto simp: lvl_def filter_id_conv)

lemma SLLocate_pred:
  assumes l: "sl_list env m l h xs"
  shows "\<exists>u. SLLocate m l k update_uninit = Some (hd (sl_from (sm_entries m) k xs @ [NULL]), u) \<and>
    length u = SL_MAX_LEVEL + 1 \<and>
    (\<forall>i \<le> fld ls_level (sm_lists m) l. upd_get u i = Some (sl_pred (sm_entries m) h k i xs))"
proof -
  let ?s = "sm_entries m" and ?L = "fld ls_level (sm_lists m) l"
  have d: "l \<in> dom (sm_lists m)" "fld ls_magic (sm_lists m) l = SL_LIST_MAGIC"
    "fld ls_head (sm_lists m) l = h" and ok: "sl_ok ?s h ?L xs" using l by (auto simp: sl_list_def)
  have L: "Suc ?L \<le> SL_MAX_LEVEL + 1" "Suc ?L \<le> length update_uninit"
    using sl_okD(8) [OF ok] by (auto simp: update_uninit_def)
  from locate_levels_pred [OF ok L, of h k] obtain u where
    u: "locate_levels ?s k (Suc ?L) h update_uninit = Some (sl_pred ?s h k 0 xs, u)" "length u = SL_MAX_LEVEL + 1"
    "\<forall>i < length u. u ! i = (if i < Suc ?L then Some (sl_pred ?s h k i xs) else update_uninit ! i)"
    by (auto simp: update_uninit_def)
  let ?p = "sl_pred ?s h k 0 xs"
  have p: "?p \<in> set (h # lvl ?s 0 xs)" using pred_mem [of ?s h k 0 xs] by (auto simp: sl_below_def)
  have "chain (fw 0 ?s) h (h # sl_below ?s k xs @ sl_from ?s k xs) NULL"
    using sl_okD(11) [OF ok, of 0] lvl_0 [OF ok] sorted_below_from [OF sl_okD(4) [OF ok], of k] by simp
  then have "chain (fw 0 ?s) h (butlast (h # sl_below ?s k xs) @ ?p # sl_from ?s k xs) NULL"
    unfolding sl_pred_def lvl_0 [OF ok] by (metis append_Cons append_butlast_last_id append_eq_Cons_conv
        append.assoc list.distinct(1) append_Nil)
  then have "fw 0 ?s ?p = hd (sl_from ?s k xs @ [NULL])" by (auto simp: chain_split dest: chain_hd)
  moreover have "fwd_get ?s ?p 0 = Some (fw 0 ?s ?p)"
    using lvl_flen [OF ok _ p] by (simp add: heap_simps)
  ultimately have "SLLocate m l k update_uninit = Some (hd (sl_from ?s k xs @ [NULL]), u)"
    using d u(1) by (simp add: SLLocate_def heap_simps del: locate_levels.simps)
  then show ?thesis using u(2,3) L by (auto simp: upd_get_def)
qed

section \<open>The map of a list\<close>

lemma sl_map_dom: "dom (sl_map s xs) = fld sl_key s ` set xs"
  by (simp add: sl_map_def dom_map_of_conv_image_fst image_image)

lemma sl_distinct: "sorted_wrt (<) (map (fld sl_key s) xs) \<Longrightarrow> distinct (map (fld sl_key s) xs)"
  by (metis strict_sorted_iff)

lemma sl_map_Some:
  assumes "sorted_wrt (<) (map (fld sl_key s) xs)"
  shows "sl_map s xs k = Some v \<longleftrightarrow> (\<exists>a \<in> set xs. fld sl_key s a = k \<and> fld sl_value s a = v)"
  using map_of_eq_Some_iff [of "map (\<lambda>a. (fld sl_key s a, fld sl_value s a)) xs" k v]
    sl_distinct [OF assms] by (auto simp: sl_map_def comp_def)

lemma sl_from_mem: "a \<in> set (sl_from s k xs) \<longleftrightarrow> a \<in> set xs \<and> k \<le> fld sl_key s a"
  by (auto simp: sl_from_def)

lemma sl_below_mem: "a \<in> set (sl_below s k xs) \<longleftrightarrow> a \<in> set xs \<and> fld sl_key s a < k"
  by (auto simp: sl_below_def)

lemma sl_from_hd:
  assumes "sorted_wrt (<) (map (fld sl_key s) xs)" "a \<in> set xs" "fld sl_key s a = k"
  shows "\<exists>rest. sl_from s k xs = a # rest"
proof -
  have "a \<in> set (sl_from s k xs)" using assms by (simp add: sl_from_mem)
  then obtain us vs where uv: "sl_from s k xs = us @ a # vs" by (metis split_list)
  have "sorted_wrt (<) (map (fld sl_key s) (sl_from s k xs))"
    using assms(1) unfolding sl_from_def by (induction xs) auto
  then have "fld sl_key s u < k" if "u \<in> set us" for u
    using that assms(3) unfolding uv by (auto simp: sorted_wrt_append)
  moreover have "k \<le> fld sl_key s u" if "u \<in> set us" for u
    using sl_from_mem [of u s k xs] uv that by simp
  ultimately have "us = []" by (cases us) (auto simp: not_less [symmetric])
  then show ?thesis using uv by simp
qed

text \<open>The test the three operations make on the entry \<open>SLLocate\<close> returns.\<close>

lemma sl_found:
  fixes k :: u64
  assumes ok: "sl_ok s h L xs"
  defines "e \<equiv> hd (sl_from s k xs @ [NULL])"
  shows "(if e \<noteq> NULL then do { x \<leftarrow> ld s e sl_key; Some (x = k) } else Some False) =
      Some (k \<in> dom (sl_map s xs))"
    "k \<in> dom (sl_map s xs) \<Longrightarrow> e \<in> set xs \<and> fld sl_key s e = k \<and> e \<noteq> NULL \<and> (\<exists>rest. sl_from s k xs = e # rest)"
proof -
  note d = sl_okD [OF ok]
  have f: "e \<in> set xs \<and> fld sl_key s e = k \<and> e \<noteq> NULL \<and> (\<exists>rest. sl_from s k xs = e # rest)"
    if k: "k \<in> dom (sl_map s xs)"
  proof -
    from k obtain a where a: "a \<in> set xs" "fld sl_key s a = k" by (auto simp: sl_map_dom)
    then obtain rest where "sl_from s k xs = a # rest" using sl_from_hd [OF d(4)] by blast
    then show ?thesis using a d(1) by (auto simp: e_def intro!: gr0I)
  qed
  then show "k \<in> dom (sl_map s xs) \<Longrightarrow> e \<in> set xs \<and> fld sl_key s e = k \<and> e \<noteq> NULL \<and> (\<exists>rest. sl_from s k xs = e # rest)" .
  show "(if e \<noteq> NULL then do { x \<leftarrow> ld s e sl_key; Some (x = k) } else Some False) =
      Some (k \<in> dom (sl_map s xs))"
  proof (cases "k \<in> dom (sl_map s xs)")
    case True
    moreover from f [OF True] have "e \<in> dom s" "fld sl_key s e = k" "e \<noteq> NULL" using d(2) by auto
    ultimately show ?thesis by (simp add: heap_simps)
  next
    case False
    have "e \<in> set xs" if "e \<noteq> NULL"
      using that by (cases "sl_from s k xs") (auto simp: e_def sl_from_def dest: filter_eq_ConsD)
    then have "e \<in> dom s \<and> fld sl_key s e \<noteq> k" if "e \<noteq> NULL"
      using that False d(2) by (auto simp: sl_map_dom)
    then show ?thesis using False by (auto simp: heap_simps)
  qed
qed

lemma sl_repD:
  assumes "sl_list env m l h xs"
  shows "fresh_alloc (se_entry env)" "case sm_random m of None \<Rightarrow> se_random env | Some st \<Rightarrow> random_inv st"
    "l \<in> dom (sm_lists m)" "fld ls_magic (sm_lists m) l = SL_LIST_MAGIC"
    "fld ls_head (sm_lists m) l = h" "fld ls_count (sm_lists m) l = int (length xs)"
    "int (length xs) < 2 ^ 31" "sl_ok (sm_entries m) h (fld ls_level (sm_lists m) l) xs"
  using assms by (auto simp: sl_list_def)

lemma drmSLLookup_rep:
  assumes "sl_list env m l h xs"
  shows "drmSLLookup m l k =
    Some (if k \<in> dom (sl_map (sm_entries m) xs)
      then (0, Some (hd (sl_from (sm_entries m) k xs)), m) else (- 1, Some NULL, m))"
proof -
  note d = sl_repD [OF assms]
  obtain u where "SLLocate m l k update_uninit = Some (hd (sl_from (sm_entries m) k xs @ [NULL]), u)"
    using SLLocate_pred [OF assms] by blast
  moreover have "hd (sl_from (sm_entries m) k xs @ [NULL]) = hd (sl_from (sm_entries m) k xs)"
    if "k \<in> dom (sl_map (sm_entries m) xs)" using sl_found(2) [OF d(8) that] by (metis list.sel(1))
  ultimately show ?thesis
    using sl_found(1) [OF d(8), of k] by (simp add: drmSLLookup_def)
qed

section \<open>Random levels\<close>

lemma sl_level_loop_range:
  "random_inv st \<Longrightarrow> 1 \<le> level \<Longrightarrow> level \<le> SL_MAX_LEVEL \<Longrightarrow>
   \<exists>v st'. sl_level_loop st level = Some (v, st') \<and> 1 \<le> v \<and> v \<le> SL_MAX_LEVEL \<and> random_inv st'"
proof (induction st level rule: sl_level_loop.induct)
  case (1 st level)
  obtain r st1 where r: "drmRandom st = Some (r, st1)" using drmRandom_step [OF 1(2)] by blast
  have st1: "random_inv st1" using drmRandom_inv [OF 1(2) r] .
  show ?case
    using 1(1) [OF r refl _ st1] 1(3,4) r st1 by (subst sl_level_loop.simps) auto
qed

lemma SLRandomLevel_range:
  assumes "case rs of None \<Rightarrow> se_random env | Some st \<Rightarrow> random_inv st"
  shows "\<exists>v st. SLRandomLevel env rs = Some (v, Some st) \<and> 1 \<le> v \<and> v \<le> SL_MAX_LEVEL \<and> random_inv st"
proof -
  obtain st where st: "(case rs of Some st \<Rightarrow> Some st | None \<Rightarrow> drmRandomCreate (se_random env) SL_RANDOM_SEED) = Some st"
    "random_inv st"
    using assms drmRandomCreate_inv [of True SL_RANDOM_SEED]
    by (cases rs) (auto simp: drmRandomCreate_def Let_def)
  from sl_level_loop_range [OF st(2), of 1] show ?thesis
    using st(1) by (auto simp: SLRandomLevel_def SL_MAX_LEVEL_def)
qed

section \<open>Insertion\<close>

lemma lvl_below: "lvl s i (sl_below s k xs) = sl_below s k (lvl s i xs)"
  "lvl s i (sl_from s k xs) = sl_from s k (lvl s i xs)"
  by (auto simp: lvl_def sl_below_def sl_from_def conj_commute)

lemma lvl_cong: "(\<And>a. a \<in> set xs \<Longrightarrow> fld sl_levels s' a = fld sl_levels s a) \<Longrightarrow> lvl s' i xs = lvl s i xs"
  unfolding lvl_def by (rule filter_cong) auto

lemma lvl_set: "set (lvl s i xs) \<subseteq> set xs"
  by (auto simp: lvl_def)

text \<open>Level \<open>i\<close> split at the key.\<close>

lemma chain_at_pred:
  fixes k :: u64
  assumes ok: "sl_ok s h L xs" and i: "i \<le> SL_MAX_LEVEL"
  defines "p \<equiv> sl_pred s h k i xs" and "as \<equiv> butlast (h # sl_below s k (lvl s i xs))"
    and "qs \<equiv> sl_from s k (lvl s i xs)"
  shows "chain (fw i s) h (as @ p # qs) NULL" "distinct (as @ p # qs)"
    "as @ [p] = h # sl_below s k (lvl s i xs)" "set (as @ p # qs) = set (h # lvl s i xs)"
proof -
  note d = sl_okD [OF ok]
  show ap: "as @ [p] = h # sl_below s k (lvl s i xs)"
    unfolding as_def p_def sl_pred_def by (rule append_butlast_last_id) simp
  then have e: "as @ p # qs = h # lvl s i xs"
    using sorted_below_from [OF sorted_lvl [OF d(4)], of k i] unfolding qs_def
    by (metis append.assoc append_Cons append_Nil)
  show "chain (fw i s) h (as @ p # qs) NULL" "set (as @ p # qs) = set (h # lvl s i xs)"
    unfolding e using d(11) [OF i] by simp_all
  have "distinct (lvl s i xs)"
    using sl_distinct [OF d(4)] by (auto simp: lvl_def distinct_map)
  then show "distinct (as @ p # qs)" unfolding e using d(3) lvl_set [of s i xs] by auto
qed

lemma sl_insert_chain:
  assumes ok: "sl_ok s h L xs" and i: "i \<le> SL_MAX_LEVEL" and n: "n \<notin> set (h # xs)"
    and f: "\<And>a. a \<in> set (h # xs) \<Longrightarrow> g a = fw i s a"
  shows "chain (g(n := g (sl_pred s h k i xs), sl_pred s h k i xs := n)) h
    (h # sl_below s k (lvl s i xs) @ n # sl_from s k (lvl s i xs)) NULL"
proof -
  note c = chain_at_pred [OF ok i, of k]
  let ?p = "sl_pred s h k i xs" and ?as = "butlast (h # sl_below s k (lvl s i xs))"
    and ?qs = "sl_from s k (lvl s i xs)"
  have sub: "set (?as @ ?p # ?qs) \<subseteq> set (h # xs)" unfolding c(4) using lvl_set [of s i xs] by auto
  have "chain g h (?as @ ?p # ?qs) NULL"
    using c(1) f sub by (subst chain_cong [where nx' = "fw i s"]) blast+
  then have "chain (g(n := g ?p, ?p := n)) h (?as @ ?p # n # ?qs) NULL"
    using c(2) sub n by (intro chain_insert_after) blast+
  moreover have "?as @ ?p # n # ?qs = h # sl_below s k (lvl s i xs) @ n # ?qs"
    using c(3) by (metis append.assoc append_Cons append_Nil)
  ultimately show ?thesis by (simp only:)
qed

lemma sorted_insert_key:
  fixes f :: "'a \<Rightarrow> 'b::linorder"
  assumes "sorted_wrt (<) (map f (as @ bs))" "\<And>a. a \<in> set as \<Longrightarrow> f a < k" "\<And>b. b \<in> set bs \<Longrightarrow> k < f b"
    "g n = k" "\<And>a. a \<in> set (as @ bs) \<Longrightarrow> g a = f a"
  shows "sorted_wrt (<) (map g (as @ n # bs))"
proof -
  have e: "map g as = map f as" "map g bs = map f bs" using assms(5) by auto
  show ?thesis unfolding map_append list.map e using assms(1-4) by (auto simp: sorted_wrt_append)
qed

lemma sl_ok_insert:
  fixes v :: addr
  assumes ok: "sl_ok s h L xs" and n: "n \<noteq> NULL" "n \<notin> dom s" and k: "k \<notin> fld sl_key s ` set xs"
    and L: "lv \<le> L'" "L \<le> L'" "L' \<le> SL_MAX_LEVEL"
    and u: "\<And>i. i \<le> lv \<Longrightarrow> upd_get u i = Some (sl_pred s h k i xs)"
  defines "s1 \<equiv> s(n \<mapsto> \<lparr>sl_magic = SL_ENTRY_MAGIC, sl_key = k, sl_value = v,
       sl_levels = lv + 1, sl_forward = replicate (lv + 2) NULL\<rparr>)"
    and "xs' \<equiv> sl_below s k xs @ n # sl_from s k xs"
  shows "\<exists>s'. link_levels s1 n u [0..<lv + 1] = Some s' \<and> sl_ok s' h L' xs' \<and>
    sl_map s' xs' = (sl_map s xs)(k \<mapsto> v)"
proof -
  note d = sl_okD [OF ok]
  have nn: "n \<notin> set (h # xs)" using d(2) n by auto
  let ?p = "\<lambda>i. sl_pred s h k i xs"
  have p: "?p i \<in> set (h # lvl s i xs)" for i using pred_mem [of s h k i xs] by (auto simp: sl_below_def)
  have s1: "dom s1 = insert n (dom s)" "flen s1 n = lv + 2" "\<And>a. a \<noteq> n \<Longrightarrow> flen s1 a = flen s a"
    "\<And>i a. a \<noteq> n \<Longrightarrow> fw i s1 a = fw i s a"
    "fld sl_key s1 = (fld sl_key s)(n := k)" "fld sl_value s1 = (fld sl_value s)(n := v)"
    "fld sl_magic s1 = (fld sl_magic s)(n := SL_ENTRY_MAGIC)" "fld sl_levels s1 = (fld sl_levels s)(n := lv + 1)"
    by (auto simp: s1_def flen_def fw_def fld_def)
  have pre: "upd_get u i = Some (?p i) \<and> ?p i \<in> dom s1 \<and> ?p i \<noteq> n \<and> i < flen s1 (?p i) \<and> i < flen s1 n"
    if "i \<in> set [0..<lv + 1]" for i
  proof -
    have i: "i \<le> lv" "i \<le> SL_MAX_LEVEL" using that L by auto
    have "?p i \<noteq> n" using p [of i] nn lvl_set [of s i xs] by auto
    then show ?thesis using lvl_flen [OF ok i(2) p] u [OF i(1)] s1(1,2,3) i by auto
  qed
  obtain s' where s': "link_levels s1 n u [0..<lv + 1] = Some s'" "dom s' = dom s1"
    "fld sl_key s' = fld sl_key s1" "fld sl_value s' = fld sl_value s1" "fld sl_magic s' = fld sl_magic s1"
    "fld sl_levels s' = fld sl_levels s1" "flen s' = flen s1"
    "\<forall>i. fw i s' = (if i \<in> set [0..<lv + 1] then (fw i s1)(n := fw i s1 (?p i), ?p i := n) else fw i s1)"
    using link_levels_eff [of "[0..<lv + 1]" n s1 u ?p] pre s1(1) by auto
  have lw: "lvl s' i xs' = (if i \<le> lv then sl_below s k (lvl s i xs) @ n # sl_from s k (lvl s i xs) else lvl s i xs)" for i
  proof -
    have eq: "lvl s' i ys = lvl s i ys" if "set ys \<subseteq> set xs" for ys
      using that nn s1(8) s'(6) by (intro lvl_cong) auto
    have "lvl s' i xs' = lvl s' i (sl_below s k xs) @ lvl s' i [n] @ lvl s' i (sl_from s k xs)"
      by (simp add: xs'_def lvl_def)
    also have "\<dots> = sl_below s k (lvl s i xs) @ lvl s' i [n] @ sl_from s k (lvl s i xs)"
      by (simp add: eq lvl_below sl_below_mem sl_from_mem subset_iff)
    finally show ?thesis
      using sorted_below_from [OF sorted_lvl [OF d(4)], of k i] s1(8) s'(6) by (simp add: lvl_def)
  qed
  have f: "fw i s1 a = fw i s a" if "a \<in> set (h # xs)" for a i using s1(4) nn that by metis
  have ch: "chain (fw i s') h (h # lvl s' i xs') NULL" if i: "i \<le> SL_MAX_LEVEL" for i
  proof (cases "i \<le> lv")
    case True
    show ?thesis using sl_insert_chain [OF ok i nn f, of k] True s'(8) lw by simp
  next
    case False
    have "chain (fw i s1) h (h # lvl s i xs) NULL"
      using d(11) [OF i] f lvl_set [of s i xs]
      by (subst chain_cong [where nx' = "fw i s"]) auto
    then show ?thesis using False s'(8) lw by simp
  qed
  have set': "set xs' = insert n (set xs)"
    using sorted_below_from [OF d(4), of k] by (auto simp: xs'_def sl_below_mem sl_from_mem not_less)
  have "sorted_wrt (<) (map (fld sl_key s) (sl_below s k xs @ sl_from s k xs))"
    using d(4) sorted_below_from [OF d(4), of k] by simp
  moreover have "k < fld sl_key s a" if "a \<in> set (sl_from s k xs)" for a
    using that k by (auto simp: sl_from_mem order_le_less)
  moreover have "fld sl_key s' a = fld sl_key s a" if "a \<in> set (sl_below s k xs @ sl_from s k xs)" for a
    using that nn s'(3) s1(5) by (auto simp: sl_below_mem sl_from_mem)
  moreover have "fld sl_key s' n = k" using s'(3) s1(5) by simp
  ultimately have so: "sorted_wrt (<) (map (fld sl_key s') xs')"
    unfolding xs'_def by (intro sorted_insert_key [where f = "fld sl_key s"]) (simp_all add: sl_below_mem)
  have "fld sl_levels s a \<le> L' + 1" if "a \<in> set xs" for a using d(10) [OF that] L(2) by simp
  then have "sl_ok s' h L' xs'" unfolding sl_ok_def
    using d(1-9) n nn L so ch set' s1(1,2,3,7,8) s'(2,5,6,7) by auto
  moreover have "sl_map s' xs' x = Some w \<longleftrightarrow> ((sl_map s xs)(k \<mapsto> v)) x = Some w" for x w
    unfolding sl_map_Some [OF so] using sl_map_Some [OF d(4), of x w] k nn s1(5,6) s'(3,4)
    by (auto simp: set')
  then have "sl_map s' xs' = (sl_map s xs)(k \<mapsto> v)" by (intro ext) (metis option.exhaust)
  ultimately show ?thesis using s'(1) by blast
qed

lemma pred_above:
  assumes "sl_ok s h L xs" "L < i"
  shows "sl_pred s h k i xs = h"
proof -
  have "lvl s i xs = []" using sl_okD(10) [OF assms(1)] assms(2) by (fastforce simp: lvl_def filter_empty_conv)
  then show ?thesis by (simp add: sl_pred_def sl_below_def)
qed

lemma drmSLInsert_present:
  assumes "sl_list env m l h xs" "k \<in> dom (sl_map (sm_entries m) xs)"
  shows "drmSLInsert env m l k v = Some (1, m)"
proof -
  note d = sl_repD [OF assms(1)]
  obtain u where "SLLocate m l k update_uninit = Some (hd (sl_from (sm_entries m) k xs @ [NULL]), u)"
    using SLLocate_pred [OF assms(1)] by blast
  then show ?thesis
    using sl_found(1) [OF d(8), of k] assms(2) d(3,4) by (simp add: drmSLInsert_def heap_simps)
qed

text \<open>The level chosen: the list grows by at most one level, whose predecessor is the head.\<close>

lemma raise_level_spec:
  assumes ok: "sl_ok s h L xs" and v: "1 \<le> v" "v \<le> SL_MAX_LEVEL" and u: "length u = SL_MAX_LEVEL + 1"
    "\<forall>i \<le> L. upd_get u i = Some (sl_pred s h k i xs)"
    and l: "l \<in> dom ls" "fld ls_level ls l = L" "fld ls_head ls l = h"
  shows "\<exists>lv ls' u' L'. raise_level ls l v u = Some (lv, ls', u') \<and>
    (\<forall>i \<le> lv. upd_get u' i = Some (sl_pred s h k i xs)) \<and> 1 \<le> lv \<and> lv \<le> L' \<and> L \<le> L' \<and> L' \<le> SL_MAX_LEVEL \<and>
    dom ls' = dom ls \<and> fld ls_level ls' l = L' \<and> fld ls_magic ls' = fld ls_magic ls \<and>
    fld ls_head ls' = fld ls_head ls \<and> fld ls_count ls' = fld ls_count ls"
proof (cases "v > L")
  case True
  let ?u = "u[L + 1 := Some h]"
  have "upd_get ?u i = Some (sl_pred s h k i xs)" if "i \<le> L + 1" for i
    using that u v True pred_above [OF ok, of i k] by (cases "i = L + 1") (auto simp: upd_get_def)
  then show ?thesis
    using True v u(1) l by (simp add: raise_level_def heap_simps upd_set_def)
next
  case False
  then show ?thesis using u(2) v sl_okD(8) [OF ok] l by (simp add: raise_level_def heap_simps)
qed

lemma drmSLInsert_new:
  assumes sl: "sl_list env m l h xs" and k: "k \<notin> dom (sl_map (sm_entries m) xs)" and f: "\<not> sl_full env l m"
  shows "\<exists>m' xs'. drmSLInsert env m l k v = Some (0, m') \<and> sl_list env m' l h xs' \<and>
    sl_map (sm_entries m') xs' = (sl_map (sm_entries m) xs)(k \<mapsto> v)"
proof -
  note d = sl_repD [OF sl]
  let ?s = "sm_entries m" and ?L = "fld ls_level (sm_lists m) l"
  obtain u where u: "SLLocate m l k update_uninit = Some (hd (sl_from ?s k xs @ [NULL]), u)"
    "length u = SL_MAX_LEVEL + 1" "\<forall>i \<le> ?L. upd_get u i = Some (sl_pred ?s h k i xs)"
    using SLLocate_pred [OF sl] by blast
  obtain v0 st where r: "SLRandomLevel env (sm_random m) = Some (v0, Some st)" "1 \<le> v0" "v0 \<le> SL_MAX_LEVEL"
    "random_inv st" using SLRandomLevel_range [OF d(2)] by blast
  obtain lv ls' u' L' where lv: "raise_level (sm_lists m) l v0 u = Some (lv, ls', u')"
    "\<forall>i \<le> lv. upd_get u' i = Some (sl_pred ?s h k i xs)" "1 \<le> lv" "lv \<le> L'" "?L \<le> L'" "L' \<le> SL_MAX_LEVEL"
    "dom ls' = dom (sm_lists m)" "fld ls_level ls' l = L'" "fld ls_magic ls' = fld ls_magic (sm_lists m)"
    "fld ls_head ls' = fld ls_head (sm_lists m)" "fld ls_count ls' = fld ls_count (sm_lists m)"
    using raise_level_spec [OF d(8) r(2,3) u(2,3) d(3) refl d(5)] by (elim exE conjE)
  obtain n where n: "se_entry env ?s = Some n" using f by (auto simp: sl_full_def)
  have fresh: "n \<noteq> NULL" "n \<notin> dom ?s" using fresh_allocD [OF d(1) n] by auto
  let ?new = "\<lparr>sl_magic = SL_ENTRY_MAGIC, sl_key = k, sl_value = v, sl_levels = lv + 1,
      sl_forward = replicate (lv + 2) NULL\<rparr>"
  have cr: "SLCreateEntry env ?s (int lv) k v = (n, ?s(n \<mapsto> ?new))"
    using n lv(4,6) by (simp add: SLCreateEntry_def)
  have k': "k \<notin> fld sl_key ?s ` set xs" using k by (simp add: sl_map_dom)
  obtain s' where s': "link_levels (?s(n \<mapsto> ?new)) n u' [0..<lv + 1] = Some s'"
    "sl_ok s' h L' (sl_below ?s k xs @ n # sl_from ?s k xs)"
    "sl_map s' (sl_below ?s k xs @ n # sl_from ?s k xs) = (sl_map ?s xs)(k \<mapsto> v)"
    using sl_ok_insert [OF d(8) fresh k' lv(4,5,6), of u' v] lv(2) by blast
  have c: "in_s32 (int (length xs) + 1)" using f d(6) by (simp add: sl_full_def)
  let ?m = "m\<lparr>sm_random := Some st, sm_entries := s',
      sm_lists := setf ls' l (\<lambda>x. x\<lparr>ls_count := int (length xs) + 1\<rparr>)\<rparr>"
  have run: "drmSLInsert env m l k v = Some (0, ?m)"
    using u(1) sl_found(1) [OF d(8), of k] k d(3,4,6) r(1) lv(1,7,11) cr s'(1) c
    by (simp add: drmSLInsert_def heap_simps Let_def)
  have "length (sl_below ?s k xs @ n # sl_from ?s k xs) = length xs + 1"
    using arg_cong [where f = length, OF sorted_below_from [OF sl_okD(4) [OF d(8)], of k]] by simp
  then have "sl_list env ?m l h (sl_below ?s k xs @ n # sl_from ?s k xs)"
    using d lv(7-11) s'(2) r(4) c by (simp add: sl_list_def heap_simps in_s32_def)
  then show ?thesis using run s'(3) by auto
qed

section \<open>Deletion\<close>

lemma trim_level_spec:
  "h \<in> dom s \<Longrightarrow> L < flen s h \<Longrightarrow>
   \<exists>L'. trim_level s h L = Some L' \<and> L' \<le> L \<and> (\<forall>i. L' < i \<and> i \<le> L \<longrightarrow> fw i s h = NULL)"
proof (induction L)
  case (Suc L)
  show ?case
  proof (cases "fw (Suc L) s h = NULL")
    case True
    with Suc obtain L' where "trim_level s h L = Some L'" "L' \<le> L" "\<forall>i. L' < i \<and> i \<le> L \<longrightarrow> fw i s h = NULL" by auto
    then show ?thesis using True Suc.prems by (intro exI [of _ L']) (auto simp: heap_simps le_Suc_eq)
  next
    case False
    then show ?thesis using Suc.prems by (intro exI [of _ "Suc L"]) (auto simp: heap_simps)
  qed
qed simp

lemma sl_ok_trim:
  assumes ok: "sl_ok s h L xs"
  shows "\<exists>L'. trim_level s h L = Some L' \<and> sl_ok s h L' xs"
proof -
  note d = sl_okD [OF ok]
  obtain L' where L': "trim_level s h L = Some L'" "L' \<le> L" "\<forall>i. L' < i \<and> i \<le> L \<longrightarrow> fw i s h = NULL"
    using trim_level_spec [of h s L] d(2,6,7,8) by auto
  have "fld sl_levels s a \<le> L' + 1" if a: "a \<in> set xs" for a
  proof (rule ccontr)
    assume gt: "\<not> fld sl_levels s a \<le> L' + 1"
    let ?i = "L' + 1"
    have i: "?i \<le> L" using gt d(10) [OF a] by simp
    have "a \<in> set (lvl s ?i xs)" using gt a by (simp add: lvl_def)
    then have "lvl s ?i xs \<noteq> []" by auto
    moreover have "chain (fw ?i s) NULL (lvl s ?i xs) NULL"
      using d(11) [of ?i] i d(8) L'(3) [rule_format, of ?i] by simp
    ultimately have "NULL \<in> set (lvl s ?i xs)" by (cases "lvl s ?i xs") auto
    then show False using d(1) lvl_set [of s ?i xs] by auto
  qed
  then have "sl_ok s h L' xs" using ok L'(2) by (auto simp: sl_ok_def)
  then show ?thesis using L'(1) by blast
qed

text \<open>Where the predecessor of a level points.\<close>

lemma fw_pred:
  assumes "sl_ok s h L xs" "i \<le> SL_MAX_LEVEL"
  shows "fw i s (sl_pred s h k i xs) = hd (lvl s i (sl_from s k xs) @ [NULL])"
  using chain_at_pred(1) [OF assms, of k] by (auto simp: chain_split lvl_below dest: chain_hd)

lemma sl_unlink_chain:
  assumes ok: "sl_ok s h L xs" and i: "i \<le> SL_MAX_LEVEL" and e: "sl_from s k xs = e # rest"
  defines "g \<equiv> (if fw i s (sl_pred s h k i xs) = e
      then (fw i s)(sl_pred s h k i xs := fw i s e) else fw i s)"
  shows "chain g h (h # lvl s i (sl_below s k xs @ rest)) NULL"
    "fw i s (sl_pred s h k i xs) = e \<longleftrightarrow> i < fld sl_levels s e"
proof -
  note c = chain_at_pred [OF ok i, of k]
  note d = sl_okD [OF ok]
  let ?p = "sl_pred s h k i xs" and ?as = "butlast (h # sl_below s k (lvl s i xs))"
  have x: "sl_below s k xs @ e # rest = xs" using sorted_below_from [OF d(4), of k] e by simp
  then have "distinct (sl_below s k xs @ e # rest)" using sl_distinct [OF d(4)] by (metis distinct_map)
  moreover have "set (sl_below s k xs @ e # rest) = set xs" by (simp only: x)
  ultimately have dst: "distinct (e # rest)" "e \<in> set xs" "set rest \<subseteq> set xs" by auto
  have q: "sl_from s k (lvl s i xs) = (if i < fld sl_levels s e then e # lvl s i rest else lvl s i rest)"
    unfolding lvl_below(2) [symmetric] e by (simp add: lvl_def)
  have "hd (lvl s i rest @ [NULL]) \<noteq> e"
    using dst d(1) lvl_set [of s i rest] by (cases "lvl s i rest") (auto intro!: gr0I)
  then show iff: "fw i s ?p = e \<longleftrightarrow> i < fld sl_levels s e"
    unfolding fw_pred [OF ok i] lvl_below(2) q by auto
  have lw: "h # lvl s i (sl_below s k xs @ rest) = ?as @ ?p # lvl s i rest"
    using c(3) by (simp add: lvl_def sl_below_def conj_commute)
  show "chain g h (h # lvl s i (sl_below s k xs @ rest)) NULL"
  proof (cases "i < fld sl_levels s e")
    case True
    then show ?thesis unfolding lw g_def using chain_remove_after [of "fw i s" h ?as ?p e] c(1,2) q iff by simp
  next
    case False
    then show ?thesis unfolding lw g_def using c(1) q iff by simp
  qed
qed

lemma sl_ok_unlink:
  assumes ok: "sl_ok s h L xs" and e: "sl_from s k xs = e # rest" and ek: "fld sl_key s e = k"
    and u: "\<And>i. i \<le> L \<Longrightarrow> upd_get u i = Some (sl_pred s h k i xs)"
  defines "xs' \<equiv> sl_below s k xs @ rest"
  shows "\<exists>s'. unlink_levels s e u [0..<L + 1] = Some s' \<and> e \<in> dom s' \<and>
    sl_ok ((setf s' e f)(e := None)) h L xs' \<and>
    sl_map ((setf s' e f)(e := None)) xs' = (sl_map s xs)(k := None)"
proof -
  note d = sl_okD [OF ok]
  let ?p = "\<lambda>i. sl_pred s h k i xs"
  have x: "sl_below s k xs @ e # rest = xs" using sorted_below_from [OF d(4), of k] e by simp
  then have "distinct (sl_below s k xs @ e # rest)" using sl_distinct [OF d(4)] by (metis distinct_map)
  moreover have sx: "set (sl_below s k xs @ e # rest) = set xs" by (simp only: x)
  ultimately have ee: "e \<in> set xs" "e \<notin> set xs'" "insert e (set xs') = set xs" by (auto simp: xs'_def)
  have pre: "upd_get u i = Some (?p i) \<and> ?p i \<in> dom s \<and> i < flen s (?p i) \<and> (fw i s (?p i) = e \<longrightarrow> i < flen s e)"
    if "i \<in> set [0..<L + 1]" for i
  proof -
    have i: "i \<le> L" "i \<le> SL_MAX_LEVEL" using that d(8) by auto
    have "?p i \<in> set (h # lvl s i xs)" using pred_mem [of s h k i xs] by (auto simp: sl_below_def)
    then show ?thesis
      using lvl_flen [OF ok i(2)] u [OF i(1)] sl_unlink_chain(2) [OF ok i(2) e] d(6) ee(1) by auto
  qed
  obtain s' where s': "unlink_levels s e u [0..<L + 1] = Some s'" "dom s' = dom s"
    "fld sl_key s' = fld sl_key s" "fld sl_value s' = fld sl_value s" "fld sl_magic s' = fld sl_magic s"
    "fld sl_levels s' = fld sl_levels s" "flen s' = flen s"
    "\<forall>i. fw i s' = (if i \<in> set [0..<L + 1] \<and> fw i s (?p i) = e then (fw i s)(?p i := fw i s e) else fw i s)"
    using unlink_levels_eff [of "[0..<L + 1]" e s u ?p] pre d(2) ee(1) by auto
  define t where "t = (setf s' e f)(e := None)"
  have t: "t a = s' a" if "a \<in> set (h # xs')" for a
    using that ee d(3) by (auto simp: t_def setf_def)
  have tf: "fld g t a = fld g s' a" if "a \<in> set (h # xs')" for g a using t [OF that] by (simp add: fld_def)
  have fwt: "fw i t a = fw i s' a" if "a \<in> set (h # xs')" for i a by (simp add: fw_def tf [OF that])
  have lt: "lvl t i xs' = lvl s i xs'" for i using s'(6) by (intro lvl_cong) (simp add: tf)
  have ch: "chain (fw i t) h (h # lvl t i xs') NULL" if i: "i \<le> SL_MAX_LEVEL" for i
  proof -
    have "fw i s (?p i) = e \<longleftrightarrow> i < fld sl_levels s e" using sl_unlink_chain(2) [OF ok i e] .
    then have "fw i s' = (if fw i s (?p i) = e then (fw i s)(?p i := fw i s e) else fw i s)"
      using s'(8) d(10) [OF ee(1)] by auto
    then have "chain (fw i s') h (h # lvl s i xs') NULL"
      using sl_unlink_chain(1) [OF ok i e] by (simp add: xs'_def)
    then show ?thesis unfolding lt
      using fwt lvl_set [of s i xs'] by (subst chain_cong [where nx' = "fw i s'"]) auto
  qed
  have mk: "map (fld sl_key t) xs' = map (fld sl_key s) xs'" using s'(3) by (simp add: tf)
  have "sorted_wrt (<) (map (fld sl_key s) (sl_below s k xs @ e # rest))" using d(4) x by simp
  then have so: "sorted_wrt (<) (map (fld sl_key t) xs')"
    unfolding mk by (auto simp: xs'_def sorted_wrt_append)
  have sub: "set (h # xs') \<subseteq> set (h # xs)" using ee by auto
  have "sl_ok t h L xs'" unfolding sl_ok_def
  proof (intro conjI ballI allI impI)
    show "NULL \<notin> set (h # xs')" "h \<notin> set xs'" using d(1,3) sub ee(3) by auto
    show "set (h # xs') \<subseteq> dom t"
    proof
      fix a assume a: "a \<in> set (h # xs')"
      then have "a \<in> dom s'" using sub d(2) s'(2) by blast
      then show "a \<in> dom t" using t [OF a] by (simp add: domIff)
    qed
    show "fld sl_magic t a = SL_ENTRY_MAGIC" "flen t a = fld sl_levels t a + 1" if "a \<in> set (h # xs')" for a
      using d(5,6) [of a] s'(5,6,7) that sub by (auto simp: flen_def fun_eq_iff tf [OF that])
    show "fld sl_levels t h = SL_MAX_LEVEL + 1" using d(7) s'(6) by (simp add: tf)
    show "0 < fld sl_levels t a" "fld sl_levels t a \<le> L + 1" if "a \<in> set xs'" for a
      using d(9,10) [of a] s'(6) that ee(3) by (auto simp: tf)
  qed (use so ch d(8) in auto)
  moreover have "sl_map t xs' y = Some w \<longleftrightarrow> ((sl_map s xs)(k := None)) y = Some w" for y w
  proof -
    have "fld sl_key s a \<noteq> k" if "a \<in> set xs'" for a
      using sl_distinct [OF d(4)] ek ee that by (auto simp: distinct_map inj_on_def)
    moreover have "sl_map s xs y = Some w \<longleftrightarrow>
        (\<exists>a \<in> insert e (set xs'). fld sl_key s a = y \<and> fld sl_value s a = w)"
      unfolding ee(3) by (rule sl_map_Some [OF d(4)])
    ultimately show ?thesis
      unfolding sl_map_Some [OF so] using s'(3,4) ek by (auto simp: tf)
  qed
  then have "sl_map t xs' = (sl_map s xs)(k := None)" by (intro ext) (metis option.exhaust)
  ultimately show ?thesis using s'(1,2) d(2) ee(1) by (auto simp: t_def)
qed

lemma drmSLDelete_rep:
  assumes sl: "sl_list env m l h xs"
  shows "\<exists>m' xs'. drmSLDelete m l k = Some (if k \<in> dom (sl_map (sm_entries m) xs) then 0 else 1, m') \<and>
    sl_list env m' l h xs' \<and> sl_map (sm_entries m') xs' = (sl_map (sm_entries m) xs)(k := None)"
proof -
  note d = sl_repD [OF sl]
  let ?s = "sm_entries m" and ?L = "fld ls_level (sm_lists m) l"
  let ?e = "hd (sl_from ?s k xs @ [NULL])"
  obtain u where u: "SLLocate m l k update_uninit = Some (?e, u)"
    "\<forall>i \<le> ?L. upd_get u i = Some (sl_pred ?s h k i xs)"
    using SLLocate_pred [OF sl] by blast
  show ?thesis
  proof (cases "k \<in> dom (sl_map ?s xs)")
    case False
    then have "drmSLDelete m l k = Some (1, m)"
      using u(1) sl_found(1) [OF d(8), of k] d(3,4) by (simp add: drmSLDelete_def heap_simps)
    moreover have "(sl_map ?s xs)(k := None) = sl_map ?s xs" using False by auto
    ultimately show ?thesis using False sl by auto
  next
    case True
    let ?f = "\<lambda>x :: SLEntry. x\<lparr>sl_magic := SL_FREED_MAGIC\<rparr>"
    from sl_found(2) [OF d(8) True] obtain rest where
      e: "?e \<in> set xs" "fld sl_key ?s ?e = k" "sl_from ?s k xs = ?e # rest" by auto
    obtain s' where s': "unlink_levels ?s ?e u [0..<?L + 1] = Some s'" "?e \<in> dom s'"
      "sl_ok ((setf s' ?e ?f)(?e := None)) h ?L (sl_below ?s k xs @ rest)"
      "sl_map ((setf s' ?e ?f)(?e := None)) (sl_below ?s k xs @ rest) = (sl_map ?s xs)(k := None)"
      using sl_ok_unlink [OF d(8) e(3,2), of u ?f] u(2) by blast
    define t where "t = (setf s' ?e ?f)(?e := None)"
    obtain L' where L': "trim_level t h ?L = Some L'" "sl_ok t h L' (sl_below ?s k xs @ rest)"
      using sl_ok_trim [OF s'(3) [folded t_def]] by blast
    have len: "length xs = Suc (length (sl_below ?s k xs @ rest))"
      using arg_cong [where f = length, OF sorted_below_from [OF sl_okD(4) [OF d(8)], of k]]
        arg_cong [where f = length, OF e(3)] by simp
    have c: "in_s32 (int (length xs) - 1)" using d(7) by (simp add: in_s32_def)
    let ?m = "m\<lparr>sm_entries := t, sm_lists := setf (setf (sm_lists m) l (\<lambda>x. x\<lparr>ls_level := L'\<rparr>)) l
        (\<lambda>x. x\<lparr>ls_count := int (length xs) - 1\<rparr>)\<rparr>"
    have "wr s' ?e ?f = Some (setf s' ?e ?f)" "dealloc (setf s' ?e ?f) ?e = Some t"
      using s'(2) by (simp_all add: heap_simps t_def)
    then have run: "drmSLDelete m l k = Some (0, ?m)"
      using u(1) sl_found(1) [OF d(8), of k] True d(3,4,5,6) s'(1) L'(1) c
      by (simp add: drmSLDelete_def heap_simps)
    have "sl_list env ?m l h (sl_below ?s k xs @ rest)"
      using d L'(2) len by (simp add: sl_list_def heap_simps)
    then show ?thesis using run s'(4) True by (auto simp: t_def)
  qed
qed

interpretation sl_dict: int_dict "sl_rep env l" "sl_full env l" "- 1"
  "\<lambda>m. drmSLLookup m l" "\<lambda>m. drmSLInsert env m l" "\<lambda>m. drmSLDelete m l" for env l
proof unfold_locales
  fix m M k v
  assume "sl_rep env l m M"
  then obtain h xs where r: "sl_list env m l h xs" "M = sl_map (sm_entries m) xs" by (auto simp: sl_rep_def)
  show "\<exists>out m'. drmSLLookup m l k = Some (if k \<in> dom M then 0 else - 1, out, m') \<and> sl_rep env l m' M"
    using drmSLLookup_rep [OF r(1), of k] r unfolding sl_rep_def by auto
  show "\<exists>m'. drmSLDelete m l k = Some (if k \<in> dom M then 0 else 1, m') \<and> sl_rep env l m' (M(k := None))"
    using drmSLDelete_rep [OF r(1), of k] unfolding r(2) sl_rep_def by metis
  show "\<exists>m'. drmSLInsert env m l k v = Some (1, m') \<and> sl_rep env l m' M" if "k \<in> dom M"
    using drmSLInsert_present [OF r(1)] r that unfolding sl_rep_def by blast
  show "\<exists>m'. drmSLInsert env m l k v = Some (0, m') \<and> sl_rep env l m' (M(k \<mapsto> v))"
    if "k \<notin> dom M" "\<not> sl_full env l m"
    using drmSLInsert_new [OF r(1), of k v] that unfolding r(2) sl_rep_def by metis
qed

section \<open>Creation, destruction, enumeration\<close>

lemma clear_fwd_eff:
  assumes "e \<in> dom s" "\<And>i. i \<in> set is \<Longrightarrow> i < flen s e" "fld sl_forward s e = replicate n NULL"
  shows "clear_fwd s e is = Some s"
  using assms
proof (induction "is")
  case (Cons i "is")
  have "(sl_forward (the (s e)))[i := NULL] = sl_forward (the (s e))"
    using Cons.prems(2) [of i] Cons.prems(3) by (auto simp: fld_def flen_def list_update_same_conv)
  then have "fwd_upd s e i NULL = s"
    using Cons.prems(1) by (auto simp: fwd_upd_def setf_def fun_eq_iff)
  moreover have "fwd_set s e i NULL = Some (fwd_upd s e i NULL)"
    using Cons.prems by (simp add: heap_simps)
  ultimately show ?case using Cons by simp
qed simp

lemma drmSLCreate_rep:
  assumes "fresh_alloc (se_entry env)" "case sm_random m of None \<Rightarrow> se_random env | Some st \<Rightarrow> random_inv st"
    "se_entry env (sm_entries m) = Some h" "se_list env (sm_lists m) = Some l"
  shows "\<exists>m'. drmSLCreate env m = Some (l, m') \<and> sl_list env m' l h [] \<and>
    dom (sm_entries m') = insert h (dom (sm_entries m))"
proof -
  let ?hd = "\<lparr>sl_magic = SL_ENTRY_MAGIC, sl_key = 0, sl_value = NULL, sl_levels = SL_MAX_LEVEL + 1,
     sl_forward = replicate (SL_MAX_LEVEL + 2) NULL\<rparr>"
  let ?s = "(sm_entries m)(h \<mapsto> ?hd)"
  have cl: "clear_fwd ?s h [0..<SL_MAX_LEVEL + 1] = Some ?s"
    by (rule clear_fwd_eff [where n = "SL_MAX_LEVEL + 2"]) (auto simp: flen_def fld_def)
  have cr: "SLCreateEntry env (sm_entries m) (int SL_MAX_LEVEL) 0 NULL = (h, ?s)"
    using assms(3) by (simp add: SLCreateEntry_def)
  have "fw i ?s h = NULL" if "i \<le> SL_MAX_LEVEL" for i
    using that nth_replicate [of i "SL_MAX_LEVEL + 2" NULL] by (simp add: fw_def fld_def del: replicate.simps replicate_Suc)
  then have "sl_ok ?s h 0 []"
    using fresh_allocD [OF assms(1,3)] by (auto simp: sl_ok_def flen_def fld_def lvl_def)
  then show ?thesis
    using assms cl cr by (simp add: drmSLCreate_def sl_list_def fld_def)
qed

lemma sl_destroy_loop_frees:
  assumes "chain (fw 0 s) e es NULL"
    "\<And>a. a \<in> set es \<Longrightarrow> a \<in> dom s \<and> 0 < flen s a \<and> fld sl_magic s a = SL_ENTRY_MAGIC \<and> a \<noteq> NULL" "distinct es"
  shows "sl_destroy_loop s e = Some (True, s |` (- set es))"
  using assms
proof (induction es arbitrary: s e)
  case Nil
  then show ?case by (simp add: sl_destroy_loop.simps)
next
  case (Cons a es)
  let ?f = "\<lambda>x :: SLEntry. x\<lparr>sl_magic := SL_FREED_MAGIC\<rparr>"
  define t where "t = (setf s a ?f)(a := None)"
  have t: "t b = s b" if "b \<in> set es" for b using that Cons.prems(3) by (auto simp: t_def setf_def)
  have tf: "fld g t b = fld g s b" if "b \<in> set es" for g b using t [OF that] by (simp add: fld_def)
  have fwt: "fw 0 t b = fw 0 s b" if "b \<in> set es" for b by (simp add: fw_def tf [OF that])
  have ch: "chain (fw 0 t) (fw 0 s a) es NULL"
    using Cons.prems(1) fwt by (subst chain_cong [where nx' = "fw 0 s"]) auto
  have "b \<in> dom t \<and> 0 < flen t b \<and> fld sl_magic t b = SL_ENTRY_MAGIC \<and> b \<noteq> NULL" if "b \<in> set es" for b
    using Cons.prems(2) [of b] that t [OF that] by (auto simp: flen_def tf domIff)
  from Cons.IH [OF ch this] Cons.prems(3) have
    "sl_destroy_loop t (fw 0 s a) = Some (True, t |` (- set es))" by simp
  moreover have "t |` (- set es) = s |` (- set (a # es))"
    unfolding t_def setf_def by (auto simp: restrict_map_def fun_eq_iff)
  moreover have "e = a" "a \<in> dom s" "a \<noteq> NULL" "0 < flen s a" "fld sl_magic s a = SL_ENTRY_MAGIC"
    using Cons.prems(1) Cons.prems(2) [of a] by auto
  moreover have "wr s a ?f = Some (setf s a ?f)" "dealloc (setf s a ?f) a = Some t"
    using \<open>a \<in> dom s\<close> by (simp_all add: heap_simps t_def)
  ultimately show ?case by (simp add: sl_destroy_loop.simps [of s a] heap_simps)
qed

lemma drmSLDestroy_frees:
  assumes sl: "sl_list env m l h xs"
  shows "drmSLDestroy m l = Some (0, m\<lparr>sm_entries := sm_entries m |` (- set (h # xs)),
    sm_lists := (sm_lists m)(l := None)\<rparr>)"
proof -
  note d = sl_repD [OF sl]
  note o = sl_okD [OF d(8)]
  have ch: "chain (fw 0 (sm_entries m)) h (h # xs) NULL" using o(11) [of 0] lvl_0 [OF d(8)] by simp
  have "sl_destroy_loop (sm_entries m) h = Some (True, sm_entries m |` (- set (h # xs)))"
  proof (rule sl_destroy_loop_frees [OF ch])
    fix a assume a: "a \<in> set (h # xs)"
    then show "a \<in> dom (sm_entries m) \<and> 0 < flen (sm_entries m) a \<and>
        fld sl_magic (sm_entries m) a = SL_ENTRY_MAGIC \<and> a \<noteq> NULL"
      using o(1,2) o(5,6) [OF a] by (auto intro!: gr0I)
  next
    show "distinct (h # xs)" using sl_distinct [OF o(4)] o(3) by (simp add: distinct_map)
  qed
  moreover have "(setf (sm_lists m) l f)(l := None) = (sm_lists m)(l := None)" for f by (simp add: setf_def)
  ultimately show ?thesis using d(3,4,5) by (simp add: drmSLDestroy_def heap_simps)
qed

text \<open>The loop clients write: \<open>drmSLFirst\<close>, then \<open>drmSLNext\<close> while it returns 1.\<close>

partial_function (option) sl_drain :: "sl_mem \<Rightarrow> addr \<Rightarrow> ((u64 \<times> addr) list \<times> sl_mem) option" where
  "sl_drain m l = do {
     (r, kv, m) \<leftarrow> drmSLNext m l;
     if r = 1 then do { (kvs, m) \<leftarrow> sl_drain m l; Some (the kv # kvs, m) } else Some ([], m)
   }"

definition sl_enumerate :: "sl_mem \<Rightarrow> addr \<Rightarrow> ((u64 \<times> addr) list \<times> sl_mem) option" where
  "sl_enumerate m l = do {
     (r, kv, m) \<leftarrow> drmSLFirst m l;
     if r = 1 then do { (kvs, m) \<leftarrow> sl_drain m l; Some (the kv # kvs, m) } else Some ([], m)
   }"

definition sl_kv :: "eheap \<Rightarrow> addr \<Rightarrow> u64 \<times> addr" where
  "sl_kv s a = (fld sl_key s a, fld sl_value s a)"

lemma sl_list_cursor:
  assumes "sl_list env m l h xs" "\<And>x. ls_magic (f x) = ls_magic x" "\<And>x. ls_head (f x) = ls_head x"
    "\<And>x. ls_count (f x) = ls_count x" "\<And>x. ls_level (f x) = ls_level x"
  shows "sl_list env (m\<lparr>sm_lists := setf (sm_lists m) l f\<rparr>) l h xs"
  using assms by (simp add: sl_list_def heap_simps)

lemma sl_drain_chain:
  assumes "sl_list env m l h xs" "chain (fw 0 (sm_entries m)) (fld ls_p0 (sm_lists m) l) ys NULL"
    "set ys \<subseteq> set xs"
  shows "\<exists>m'. sl_drain m l = Some (map (sl_kv (sm_entries m)) ys, m') \<and> sl_list env m' l h xs \<and>
    sm_entries m' = sm_entries m"
  using assms
proof (induction ys arbitrary: m)
  case Nil
  note d = sl_repD [OF Nil(1)]
  let ?m = "m\<lparr>sm_lists := setf (sm_lists m) l (\<lambda>x. x\<lparr>ls_p0 := NULL\<rparr>)\<rparr>"
  have "drmSLNext m l = Some (0, None, ?m)"
    using d(3,4) Nil(2) by (simp add: drmSLNext_def heap_simps)
  moreover have "sl_list env ?m l h xs" by (rule sl_list_cursor [OF Nil(1)]) simp_all
  ultimately show ?case by (simp add: sl_drain.simps [of m l])
next
  case (Cons a ys)
  note d = sl_repD [OF Cons.prems(1)]
  have a: "a \<in> set xs" "fld ls_p0 (sm_lists m) l = a" using Cons.prems(2,3) by auto
  then have ad: "a \<in> dom (sm_entries m)" "a \<noteq> NULL" "0 < flen (sm_entries m) a"
    using sl_okD(1,2,6) [OF d(8)] by (auto intro!: gr0I)
  let ?f = "\<lambda>x :: SkipList. x\<lparr>ls_p0 := fw 0 (sm_entries m) a\<rparr>"
  let ?m = "m\<lparr>sm_lists := setf (sm_lists m) l ?f\<rparr>"
  have n: "drmSLNext m l = Some (1, Some (sl_kv (sm_entries m) a), ?m)"
    using d(3,4) a ad by (simp add: drmSLNext_def heap_simps sl_kv_def)
  have sl: "sl_list env ?m l h xs" by (rule sl_list_cursor [OF Cons.prems(1)]) simp_all
  have "chain (fw 0 (sm_entries ?m)) (fld ls_p0 (sm_lists ?m) l) ys NULL"
    using Cons.prems(2) d(3) by (simp add: heap_simps)
  from Cons.IH [OF sl this] Cons.prems(3) show ?case
    by (auto simp: sl_drain.simps [of m l] n)
qed

lemma sl_enumerate_all:
  assumes sl: "sl_list env m l h xs"
  shows "\<exists>m'. sl_enumerate m l = Some (map (sl_kv (sm_entries m)) xs, m') \<and> sl_list env m' l h xs \<and>
    sm_entries m' = sm_entries m"
proof -
  note d = sl_repD [OF sl]
  let ?f = "\<lambda>x :: SkipList. x\<lparr>ls_p0 := fw 0 (sm_entries m) h\<rparr>"
  let ?m = "m\<lparr>sm_lists := setf (sm_lists m) l ?f\<rparr>"
  have h: "h \<in> dom (sm_entries m)" "0 < flen (sm_entries m) h" using sl_okD(2,6) [OF d(8)] by auto
  have "drmSLFirst m l = drmSLNext ?m l" using d(3,4,5) h by (simp add: drmSLFirst_def heap_simps)
  then have e: "sl_enumerate m l = sl_drain ?m l"
    unfolding sl_enumerate_def by (subst sl_drain.simps) (simp only:)
  have sl': "sl_list env ?m l h xs" by (rule sl_list_cursor [OF sl]) simp_all
  have "chain (fw 0 (sm_entries ?m)) (fld ls_p0 (sm_lists ?m) l) xs NULL"
    using sl_okD(11) [OF d(8), of 0] lvl_0 [OF d(8)] d(3) by (simp add: heap_simps)
  from sl_drain_chain [OF sl' this] show ?thesis unfolding e by simp
qed

section \<open>Properties\<close>

text \<open>An empty list at address 1 with its head at 1 of the entry heap.\<close>

definition sl_demo_env :: sl_env where
  "sl_demo_env = \<lparr>se_entry = first_free 9, se_list = first_free 9, se_random = True\<rparr>"

definition sl_demo :: sl_mem where
  "sl_demo = snd (the (drmSLCreate sl_demo_env \<lparr>sm_entries = Map.empty, sm_lists = Map.empty, sm_random = None\<rparr>))"

lemma sl_demo_list:
  "sl_list sl_demo_env sl_demo 1 1 []" "dom (sm_entries sl_demo) = {1}"
proof -
  let ?m = "\<lparr>sm_entries = Map.empty, sm_lists = Map.empty, sm_random = None\<rparr> :: sl_mem"
  have "se_entry sl_demo_env (sm_entries ?m) = Some 1" "se_list sl_demo_env (sm_lists ?m) = Some 1"
    by (simp_all add: sl_demo_env_def first_free_def upt_rec)
  then have "\<exists>m'. drmSLCreate sl_demo_env ?m = Some (1, m') \<and> sl_list sl_demo_env m' 1 1 [] \<and>
      dom (sm_entries m') = insert 1 (dom (sm_entries ?m))"
    by (intro drmSLCreate_rep) (simp_all add: sl_demo_env_def fresh_first_free)
  then show "sl_list sl_demo_env sl_demo 1 1 []" "dom (sm_entries sl_demo) = {1}"
    by (elim exE conjE, simp add: sl_demo_def)+
qed

lemma sl_demo_rep: "sl_rep sl_demo_env 1 sl_demo Map.empty"
  unfolding sl_rep_def using sl_demo_list(1) by (intro exI conjI) (auto simp: sl_map_def)

lemma sl_demo_room: "\<not> sl_full sl_demo_env 1 sl_demo"
proof -
  have "2 \<notin> dom (sm_entries sl_demo)" unfolding sl_demo_list(2) by simp
  then have "first_free 9 (sm_entries sl_demo) \<noteq> None"
    by (auto simp: first_free_def find_None_iff intro!: bexI [of _ 2])
  then show ?thesis
    using sl_repD(6) [OF sl_demo_list(1)] by (simp add: sl_full_def sl_demo_env_def in_s32_def)
qed

text \<open>C20. The skip list refines a finite map: any sequence of lookups, insertions and deletions on a
  well-formed list, while there is room for a new entry, runs without undefined behaviour and
  terminates, answers with exactly the codes a map would give and represents the map that results,
  whatever levels the generator chooses.\<close>

theorem drmSL_refines_map:
  assumes "sl_rep env l m M"
    and "dict_room (sl_full env l) (dict_call (\<lambda>m. drmSLLookup m l) (\<lambda>m. drmSLInsert env m l)
      (\<lambda>m. drmSLDelete m l)) m ops"
  shows "\<exists>m'. dict_run (dict_call (\<lambda>m. drmSLLookup m l) (\<lambda>m. drmSLInsert env m l)
      (\<lambda>m. drmSLDelete m l)) m ops = Some (fst (dict_specs (- 1) M ops), m') \<and>
    sl_rep env l m' (snd (dict_specs (- 1) M ops))"
  by (rule sl_dict.run_spec [OF assms])

theorem drmSL_refines_map_witness:
  "\<exists>m'. dict_run (dict_call (\<lambda>m. drmSLLookup m 1) (\<lambda>m. drmSLInsert sl_demo_env m 1)
      (\<lambda>m. drmSLDelete m 1)) sl_demo [Look 7, Ins 7 70] = Some ([- 1, 0], m') \<and>
    sl_rep sl_demo_env 1 m' [7 \<mapsto> 70]"
proof -
  have "drmSLLookup sl_demo 1 7 = Some (- 1, Some NULL, sl_demo)"
    using drmSLLookup_rep [OF sl_demo_list(1), of 7] by (simp add: sl_map_def)
  then have "dict_room (sl_full sl_demo_env 1) (dict_call (\<lambda>m. drmSLLookup m 1)
      (\<lambda>m. drmSLInsert sl_demo_env m 1) (\<lambda>m. drmSLDelete m 1)) sl_demo [Look 7, Ins 7 70]"
    using sl_demo_room by (simp split: option.split)
  from drmSL_refines_map [OF sl_demo_rep this] show ?thesis by simp
qed

text \<open>C24. Enumeration is faithful and sorted: \<open>drmSLFirst\<close> followed by \<open>drmSLNext\<close> terminates,
  returns every key of the list exactly once with its value, in increasing key order, and leaves the
  list unchanged.\<close>

theorem drmSL_enumeration:
  assumes "sl_rep env l m M"
  shows "\<exists>kvs m'. sl_enumerate m l = Some (kvs, m') \<and> sorted_wrt (<) (map fst kvs) \<and>
    map_of kvs = M \<and> sl_rep env l m' M"
proof -
  obtain h xs where r: "sl_list env m l h xs" "M = sl_map (sm_entries m) xs"
    using assms by (auto simp: sl_rep_def)
  obtain m' where m': "sl_enumerate m l = Some (map (sl_kv (sm_entries m)) xs, m')"
    "sl_list env m' l h xs" "sm_entries m' = sm_entries m" using sl_enumerate_all [OF r(1)] by blast
  have "sorted_wrt (<) (map fst (map (sl_kv (sm_entries m)) xs))"
    using sl_okD(4) [OF sl_repD(8) [OF r(1)]] by (simp add: sl_kv_def comp_def)
  moreover have "map_of (map (sl_kv (sm_entries m)) xs) = M"
    by (simp add: r(2) sl_map_def sl_kv_def [abs_def])
  moreover have "sl_rep env l m' M" using m'(2,3) r(2) by (auto simp: sl_rep_def)
  ultimately show ?thesis using m'(1) by blast
qed

theorem drmSL_enumeration_witness:
  "\<exists>m1 kvs m2. drmSLInsert sl_demo_env sl_demo 1 7 70 = Some (0, m1) \<and>
     sl_enumerate m1 1 = Some (kvs, m2) \<and> map_of kvs = [7 \<mapsto> 70]"
proof -
  obtain m1 where m1: "drmSLInsert sl_demo_env sl_demo 1 7 70 = Some (0, m1)" "sl_rep sl_demo_env 1 m1 [7 \<mapsto> 70]"
    using sl_dict.ins_new [OF sl_demo_rep _ sl_demo_room, of 7 70] by auto
  then show ?thesis using drmSL_enumeration [OF m1(2)] by blast
qed

text \<open>What a successful lookup stores: the address of the list's entry for the key, whose
  \<open>value\<close> field holds the value that was inserted, not that value itself.\<close>

theorem drmSLLookup_entry:
  assumes "sl_rep env l m M" and "M k = Some v"
  shows "\<exists>e. drmSLLookup m l k = Some (0, Some e, m) \<and> e \<noteq> NULL \<and> e \<in> dom (sm_entries m) \<and>
    fld sl_key (sm_entries m) e = k \<and> fld sl_value (sm_entries m) e = v"
proof -
  obtain h xs where r: "sl_list env m l h xs" "M = sl_map (sm_entries m) xs"
    using assms by (auto simp: sl_rep_def)
  note d = sl_repD [OF r(1)]
  have k: "k \<in> dom (sl_map (sm_entries m) xs)" using assms(2) r(2) by auto
  let ?e = "hd (sl_from (sm_entries m) k xs)"
  have e: "?e \<in> set xs" "fld sl_key (sm_entries m) ?e = k" "?e \<noteq> NULL"
    using sl_found(2) [OF d(8) k] by (metis append_Cons list.sel(1))+
  have "M k = Some (fld sl_value (sm_entries m) ?e)"
    unfolding r(2) sl_map_Some [OF sl_okD(4) [OF d(8)]] using e by blast
  then show ?thesis
    using drmSLLookup_rep [OF r(1), of k] k e sl_okD(2) [OF d(8)] assms(2) by auto
qed

theorem drmSLLookup_entry_witness:
  "\<exists>m1 e. drmSLInsert sl_demo_env sl_demo 1 7 70 = Some (0, m1) \<and>
     drmSLLookup m1 1 7 = Some (0, Some e, m1) \<and> fld sl_value (sm_entries m1) e = 70"
proof -
  obtain m1 where m1: "drmSLInsert sl_demo_env sl_demo 1 7 70 = Some (0, m1)" "sl_rep sl_demo_env 1 m1 [7 \<mapsto> 70]"
    using sl_dict.ins_new [OF sl_demo_rep _ sl_demo_room, of 7 70] by auto
  then show ?thesis using drmSLLookup_entry [OF m1(2), of 7 70] by auto
qed


text \<open>Destruction frees the head, every entry and the list structure exactly once and nothing
  else, and returns 0.\<close>

theorem drmSLDestroy_correct:
  assumes "sl_list env m l h xs"
  shows "drmSLDestroy m l = Some (0, m\<lparr>sm_entries := sm_entries m |` (- set (h # xs)),
    sm_lists := (sm_lists m)(l := None)\<rparr>)"
  by (rule drmSLDestroy_frees [OF assms])

theorem drmSLDestroy_correct_witness: "\<exists>m'. drmSLDestroy sl_demo 1 = Some (0, m') \<and> sm_entries m' = Map.empty"
proof -
  have "sm_entries sl_demo |` (- {1}) = Map.empty"
    using sl_demo_list(2) by (auto simp: restrict_map_def fun_eq_iff)
  then show ?thesis using drmSLDestroy_correct [OF sl_demo_list(1)] by simp
qed

end
