(* ===== verification/Drm_Mode.thy ===== *)
theory Drm_Mode
  imports C_Prelude "HOL-Library.Multiset"
begin

text \<open>
  The mode setting queries of \<open>xf86drmMode.c\<close>. A query asks the kernel twice: first how many ids there are, then,
  with arrays of that size, for the ids; when something was plugged in between it starts again. What is returned
  is a copy in memory of its own.
\<close>

section \<open>Memory\<close>

record drm_mode_modeinfo =
  mi_clock :: u32
  mi_hdisplay :: "16 word"
  mi_hsync_start :: "16 word"
  mi_hsync_end :: "16 word"
  mi_htotal :: "16 word"
  mi_hskew :: "16 word"
  mi_vdisplay :: "16 word"
  mi_vsync_start :: "16 word"
  mi_vsync_end :: "16 word"
  mi_vtotal :: "16 word"
  mi_vscan :: "16 word"
  mi_vrefresh :: u32
  mi_flags :: u32
  mi_type :: u32
  mi_name :: "8 word list"

text \<open>An entry of an array: a number of 32 or 64 bits, a mode.\<close>

datatype cell = Num u64 | Mode drm_mode_modeinfo

record drmModeRes =
  mr_count_fbs :: u32
  mr_fbs :: addr
  mr_count_crtcs :: u32
  mr_crtcs :: addr
  mr_count_connectors :: u32
  mr_connectors :: addr
  mr_count_encoders :: u32
  mr_encoders :: addr
  mr_min_width :: u32
  mr_max_width :: u32
  mr_min_height :: u32
  mr_max_height :: u32

record drmModeConnector =
  mc_connector_id :: u32
  mc_encoder_id :: u32
  mc_connector_type :: u32
  mc_connector_type_id :: u32
  mc_connection :: u32
  mc_mmWidth :: u32
  mc_mmHeight :: u32
  mc_subpixel :: u32
  mc_count_modes :: u32
  mc_modes :: addr
  mc_count_props :: u32
  mc_props :: addr
  mc_prop_values :: addr
  mc_count_encoders :: u32
  mc_encoders :: addr

record drmModePlane =
  mp_count_formats :: u32
  mp_formats :: addr
  mp_plane_id :: u32
  mp_crtc_id :: u32
  mp_fb_id :: u32
  mp_possible_crtcs :: u32
  mp_gamma_size :: u32

record drmModePlaneRes =
  ml_count_planes :: u32
  ml_planes :: addr

record drmModeObjectProperties =
  mo_count_props :: u32
  mo_props :: addr
  mo_prop_values :: addr

record drmModePropertyBlob =
  mb_id :: u32
  mb_length :: u32
  mb_data :: addr

datatype mode_obj =
    ModeRes drmModeRes
  | ModeConnector drmModeConnector
  | ModePlane drmModePlane
  | ModePlaneRes drmModePlaneRes
  | ModeObjectProperties drmModeObjectProperties
  | ModePropertyBlob drmModePropertyBlob

record mode_state =
  ms_arrays :: "cell list heap"
  ms_objs :: "mode_obj heap"
  ms_clock :: nat

text \<open>
  What the \<open>n\<close>-th request is answered. An \<open>ioctl\<close> is given the numbers of entries that fit and answers with its
  return value, \<open>errno\<close>, for every array the number of entries there are and those it wrote, and the
  other fields of its structure.
\<close>

type_synonym 'x query = "nat \<Rightarrow> u32 list \<Rightarrow> int \<times> int \<times> (u32 \<times> cell list) list \<times> 'x"

record mode_env =
  me_malloc_array :: "nat \<Rightarrow> cell list allocator"
  me_malloc_obj :: "nat \<Rightarrow> mode_obj allocator"

definition mtick :: "mode_state \<Rightarrow> mode_state" where
  "mtick s = s\<lparr>ms_clock := Suc (ms_clock s)\<rparr>"

text \<open>\<open>drmMalloc\<close> takes an \<open>int\<close> and clears the memory; \<open>n\<close> entries of \<open>esz\<close> bytes that are \<open>z\<close> when cleared.\<close>

definition drmMalloc :: "mode_env \<Rightarrow> nat \<Rightarrow> nat \<Rightarrow> cell \<Rightarrow> mode_state \<Rightarrow> (addr \<times> mode_state) option" where
  "drmMalloc env n esz z s = do {
     c_assert (n * esz < 2 ^ 31);
     Some (case me_malloc_array env (ms_clock s) (ms_arrays s) of
         None \<Rightarrow> (NULL, mtick s)
       | Some a \<Rightarrow> (a, (mtick s)\<lparr>ms_arrays := (ms_arrays s)(a \<mapsto> replicate n z)\<rparr>))
   }"

definition drmFree :: "addr \<Rightarrow> mode_state \<Rightarrow> mode_state option" where
  "drmFree p s = (if p = NULL then Some s else do { h \<leftarrow> dealloc (ms_arrays s) p; Some (s\<lparr>ms_arrays := h\<rparr>) })"

definition drmFree_obj :: "addr \<Rightarrow> mode_state \<Rightarrow> mode_state option" where
  "drmFree_obj p s = do { h \<leftarrow> dealloc (ms_objs s) p; Some (s\<lparr>ms_objs := h\<rparr>) }"

definition drmAllocCpy :: "mode_env \<Rightarrow> addr \<Rightarrow> u32 \<Rightarrow> nat \<times> cell \<Rightarrow> mode_state \<Rightarrow> (addr \<times> mode_state) option" where
  "drmAllocCpy env p c k s =
    (if c = 0 \<or> p = NULL then Some (NULL, s)
     else do {
       (a, s) \<leftarrow> drmMalloc env (unat c) (fst k) (snd k) s;
       if a = NULL then Some (NULL, s)
       else do {
         xs \<leftarrow> ms_arrays s p;
         c_assert (unat c \<le> length xs);
         h \<leftarrow> wr (ms_arrays s) a (\<lambda>_. take (unat c) xs);
         Some (a, s\<lparr>ms_arrays := h\<rparr>)
       }
     })"

section \<open>The requests\<close>

partial_function (option) drmIoctl ::
  "'x query \<Rightarrow> u32 list \<Rightarrow> mode_state \<Rightarrow> (int \<times> (u32 \<times> cell list) list \<times> 'x \<times> mode_state) option" where
  "drmIoctl ask caps s =
     (let (r, e, ans, x) = ask (ms_clock s) caps in
      if r = - 1 \<and> (e = EINTR \<or> e = EAGAIN) then drmIoctl ask caps (mtick s) else Some (r, ans, x, mtick s))"

text \<open>What the kernel wrote must lie within the arrays it was given.\<close>

fun fill_arrays :: "addr list \<Rightarrow> (u32 \<times> cell list) list \<Rightarrow> mode_state \<Rightarrow> mode_state option" where
  "fill_arrays (p # ps) ((c, w) # ans) s = do {
     s \<leftarrow> (if w = [] then Some s
       else do {
         xs \<leftarrow> ms_arrays s p;
         c_assert (length w \<le> length xs);
         h \<leftarrow> wr (ms_arrays s) p (\<lambda>xs. w @ drop (length w) xs);
         Some (s\<lparr>ms_arrays := h\<rparr>)
       });
     fill_arrays ps ans s
   }"
| "fill_arrays _ _ s = Some s"

text \<open>The arrays one after the other until one cannot be had; the pointers that are not set are \<open>NULL\<close>.\<close>

fun alloc_arrays :: "mode_env \<Rightarrow> (nat \<times> cell) list \<Rightarrow> u32 list \<Rightarrow> mode_state \<Rightarrow> (addr list \<times> bool \<times> mode_state) option" where
  "alloc_arrays env (k # ks) (c # cs) s =
    (if c = 0 then do {
       (ps, ok, s) \<leftarrow> alloc_arrays env ks cs s;
       Some (NULL # ps, ok, s)
     }
     else do {
       (p, s) \<leftarrow> drmMalloc env (unat c) (fst k) (snd k) s;
       if p = NULL then Some (NULL # map (\<lambda>_. NULL) ks, False, s)
       else do {
         (ps, ok, s) \<leftarrow> alloc_arrays env ks cs s;
         Some (p # ps, ok, s)
       }
     })"
| "alloc_arrays env ks cs s = Some (map (\<lambda>_. NULL) ks, True, s)"

primrec free_arrays :: "addr list \<Rightarrow> mode_state \<Rightarrow> mode_state option" where
  "free_arrays [] s = Some s"
| "free_arrays (p # ps) s = do { s \<leftarrow> drmFree p s; free_arrays ps s }"

fun copy_arrays :: "mode_env \<Rightarrow> (nat \<times> cell) list \<Rightarrow> u32 list \<Rightarrow> addr list \<Rightarrow> mode_state \<Rightarrow> (addr list \<times> mode_state) option" where
  "copy_arrays env (k # ks) (c # cs) (p # ps) s = do {
     (q, s) \<leftarrow> drmAllocCpy env p c k s;
     (qs, s) \<leftarrow> copy_arrays env ks cs ps s;
     Some (q # qs, s)
   }"
| "copy_arrays env _ _ _ s = Some ([], s)"

text \<open>
  The course of a query, the same in all the functions: the kinds of the arrays, and the structure \<open>mk\<close> made of the
  fields, the numbers and the copies. \<open>NULL\<close> is returned when a request or an allocation fails; \<open>Inl\<close> is the jump
  back to \<open>retry\<close>.
\<close>

definition give_up :: "addr list \<Rightarrow> mode_state \<Rightarrow> (mode_state + addr \<times> mode_state) option" where
  "give_up ps s = do { s \<leftarrow> free_arrays ps s; Some (Inr (NULL, s)) }"

definition mode_return ::
  "mode_env \<Rightarrow> (nat \<times> cell) list \<Rightarrow> (u32 list \<Rightarrow> addr list \<Rightarrow> mode_obj) \<Rightarrow> u32 list \<Rightarrow> addr list \<Rightarrow> mode_state \<Rightarrow>
   (mode_state + addr \<times> mode_state) option" where
  "mode_return env ks mk counts ps s =
    (case me_malloc_obj env (ms_clock s) (ms_objs s) of
       None \<Rightarrow> give_up ps (mtick s)
     | Some r \<Rightarrow> do {
         (qs, s) \<leftarrow> copy_arrays env ks counts ps ((mtick s)\<lparr>ms_objs := (ms_objs s)(r \<mapsto> mk counts (map (\<lambda>_. NULL) ks))\<rparr>);
         if list_ex (\<lambda>(c, q). c \<noteq> 0 \<and> q = NULL) (zip counts qs) then do {
           s \<leftarrow> free_arrays qs s;
           s \<leftarrow> drmFree_obj r s;
           give_up ps s
         }
         else do {
           h \<leftarrow> wr (ms_objs s) r (\<lambda>_. mk counts qs);
           s \<leftarrow> free_arrays ps (s\<lparr>ms_objs := h\<rparr>);
           Some (Inr (r, s))
         }
       })"

text \<open>The second request, into the arrays \<open>ps\<close>.\<close>

definition mode_fetch ::
  "mode_env \<Rightarrow> 'x query \<Rightarrow> (nat \<times> cell) list \<Rightarrow> ('x \<Rightarrow> u32 list \<Rightarrow> addr list \<Rightarrow> mode_obj) \<Rightarrow> u32 list \<Rightarrow> addr list \<Rightarrow> mode_state \<Rightarrow>
   (mode_state + addr \<times> mode_state) option" where
  "mode_fetch env ask ks mk counts ps s = do {
     (r, ans, x, s) \<leftarrow> drmIoctl ask counts s;
     if r \<noteq> 0 then give_up ps s
     else do {
       s \<leftarrow> fill_arrays ps ans s;
       if list_ex (\<lambda>(c, c'). c < c') (zip counts (map fst ans)) then do {
         s \<leftarrow> free_arrays ps s;
         Some (Inl s)
       }
       else mode_return env ks (mk x) (map fst ans) ps s
     }
   }"

definition mode_try ::
  "mode_env \<Rightarrow> 'x query \<Rightarrow> (nat \<times> cell) list \<Rightarrow> ('x \<Rightarrow> u32 list \<Rightarrow> addr list \<Rightarrow> mode_obj) \<Rightarrow> mode_state \<Rightarrow>
   (mode_state + addr \<times> mode_state) option" where
  "mode_try env ask ks mk s = do {
     (r, ans, x, s) \<leftarrow> drmIoctl ask (map (\<lambda>_. 0) ks) s;
     if r \<noteq> 0 then Some (Inr (NULL, s))
     else do {
       s \<leftarrow> fill_arrays (map (\<lambda>_. NULL) ks) ans s;
       (ps, ok, s) \<leftarrow> alloc_arrays env ks (map fst ans) s;
       if \<not> ok then give_up ps s else mode_fetch env ask ks mk (map fst ans) ps s
     }
   }"

partial_function (option) mode_get ::
  "mode_env \<Rightarrow> 'x query \<Rightarrow> (nat \<times> cell) list \<Rightarrow> ('x \<Rightarrow> u32 list \<Rightarrow> addr list \<Rightarrow> mode_obj) \<Rightarrow> mode_state \<Rightarrow> (addr \<times> mode_state) option" where
  "mode_get env ask ks mk s = do {
     t \<leftarrow> mode_try env ask ks mk s;
     case t of Inl s \<Rightarrow> mode_get env ask ks mk s | Inr res \<Rightarrow> Some res
   }"

section \<open>The queries\<close>

definition mk_resources :: "u32 \<times> u32 \<times> u32 \<times> u32 \<Rightarrow> u32 list \<Rightarrow> addr list \<Rightarrow> mode_obj" where
  "mk_resources x cs ps = (case x of (min_width, max_width, min_height, max_height) \<Rightarrow> ModeRes \<lparr>mr_count_fbs = cs ! 0, mr_fbs = ps ! 0,
     mr_count_crtcs = cs ! 1, mr_crtcs = ps ! 1, mr_count_connectors = cs ! 2, mr_connectors = ps ! 2,
     mr_count_encoders = cs ! 3, mr_encoders = ps ! 3, mr_min_width = min_width, mr_max_width = max_width,
     mr_min_height = min_height, mr_max_height = max_height\<rparr>)"

definition drmModeGetResources :: "mode_env \<Rightarrow> (u32 \<times> u32 \<times> u32 \<times> u32) query \<Rightarrow> mode_state \<Rightarrow> (addr \<times> mode_state) option" where
  "drmModeGetResources env ask s = mode_get env ask [(4, Num 0), (4, Num 0), (4, Num 0), (4, Num 0)] mk_resources s"

definition drmModeFreeResources :: "addr \<Rightarrow> mode_state \<Rightarrow> mode_state option" where
  "drmModeFreeResources p s =
    (if p = NULL then Some s
     else case ms_objs s p of
       Some (ModeRes r) \<Rightarrow> do {
         s \<leftarrow> free_arrays [mr_fbs r, mr_crtcs r, mr_connectors r, mr_encoders r] s;
         drmFree_obj p s
       }
     | _ \<Rightarrow> None)"

definition zero_mode :: drm_mode_modeinfo where
  "zero_mode = \<lparr>mi_clock = 0, mi_hdisplay = 0, mi_hsync_start = 0, mi_hsync_end = 0, mi_htotal = 0, mi_hskew = 0, mi_vdisplay = 0,
     mi_vsync_start = 0, mi_vsync_end = 0, mi_vtotal = 0, mi_vscan = 0, mi_vrefresh = 0, mi_flags = 0, mi_type = 0,
     mi_name = replicate 32 0\<rparr>"

text \<open>The fields of a connector other than its arrays; the ids and the values of its properties have one number.\<close>

record conn_fields =
  cf_encoder_id :: u32
  cf_connector_id :: u32
  cf_connector_type :: u32
  cf_connector_type_id :: u32
  cf_connection :: u32
  cf_mm_width :: u32
  cf_mm_height :: u32
  cf_subpixel :: u32

type_synonym conn_query = "nat \<Rightarrow> u32 \<Rightarrow> u32 \<Rightarrow> u32 \<Rightarrow>
  int \<times> int \<times> (u32 \<times> cell list \<times> cell list) \<times> (u32 \<times> cell list) \<times> (u32 \<times> cell list) \<times> conn_fields"

definition connector_query :: "conn_query \<Rightarrow> conn_fields query" where
  "connector_query ask n caps =
    (case ask n (caps ! 0) (caps ! 2) (caps ! 3) of
       (r, e, (np, wp, wv), m, en, x) \<Rightarrow> (r, e, [(np, wp), (np, wv), m, en], x))"

definition mk_connector :: "conn_fields \<Rightarrow> u32 list \<Rightarrow> addr list \<Rightarrow> mode_obj" where
  "mk_connector x cs ps = ModeConnector \<lparr>mc_connector_id = cf_connector_id x, mc_encoder_id = cf_encoder_id x,
     mc_connector_type = cf_connector_type x, mc_connector_type_id = cf_connector_type_id x,
     mc_connection = cf_connection x, mc_mmWidth = cf_mm_width x, mc_mmHeight = cf_mm_height x,
     mc_subpixel = cf_subpixel x + 1, mc_count_modes = cs ! 2, mc_modes = ps ! 2, mc_count_props = cs ! 0,
     mc_props = ps ! 0, mc_prop_values = ps ! 1, mc_count_encoders = cs ! 3, mc_encoders = ps ! 3\<rparr>"

definition drmModeGetConnector :: "mode_env \<Rightarrow> (u32 \<Rightarrow> conn_query) \<Rightarrow> u32 \<Rightarrow> mode_state \<Rightarrow> (addr \<times> mode_state) option" where
  "drmModeGetConnector env ask connector_id s =
     mode_get env (connector_query (ask connector_id)) [(4, Num 0), (8, Num 0), (68, Mode zero_mode), (4, Num 0)] mk_connector s"

definition drmModeFreeConnector :: "addr \<Rightarrow> mode_state \<Rightarrow> mode_state option" where
  "drmModeFreeConnector p s =
    (if p = NULL then Some s
     else case ms_objs s p of
       Some (ModeConnector c) \<Rightarrow> do {
         s \<leftarrow> free_arrays [mc_encoders c, mc_prop_values c, mc_props c, mc_modes c] s;
         drmFree_obj p s
       }
     | _ \<Rightarrow> None)"

definition mk_plane :: "u32 \<times> u32 \<times> u32 \<times> u32 \<times> u32 \<Rightarrow> u32 list \<Rightarrow> addr list \<Rightarrow> mode_obj" where
  "mk_plane x cs ps = (case x of (plane_id, crtc_id, fb_id, possible_crtcs, gamma_size) \<Rightarrow> ModePlane \<lparr>mp_count_formats = cs ! 0,
     mp_formats = ps ! 0, mp_plane_id = plane_id, mp_crtc_id = crtc_id, mp_fb_id = fb_id, mp_possible_crtcs = possible_crtcs,
     mp_gamma_size = gamma_size\<rparr>)"

definition drmModeGetPlane ::
  "mode_env \<Rightarrow> (u32 \<Rightarrow> (u32 \<times> u32 \<times> u32 \<times> u32 \<times> u32) query) \<Rightarrow> u32 \<Rightarrow> mode_state \<Rightarrow> (addr \<times> mode_state) option" where
  "drmModeGetPlane env ask plane_id s = mode_get env (ask plane_id) [(4, Num 0)] mk_plane s"

definition drmModeFreePlane :: "addr \<Rightarrow> mode_state \<Rightarrow> mode_state option" where
  "drmModeFreePlane p s =
    (if p = NULL then Some s
     else case ms_objs s p of
       Some (ModePlane r) \<Rightarrow> do { s \<leftarrow> free_arrays [mp_formats r] s; drmFree_obj p s }
     | _ \<Rightarrow> None)"

definition mk_plane_res :: "unit \<Rightarrow> u32 list \<Rightarrow> addr list \<Rightarrow> mode_obj" where
  "mk_plane_res x cs ps = ModePlaneRes \<lparr>ml_count_planes = cs ! 0, ml_planes = ps ! 0\<rparr>"

definition drmModeGetPlaneResources :: "mode_env \<Rightarrow> unit query \<Rightarrow> mode_state \<Rightarrow> (addr \<times> mode_state) option" where
  "drmModeGetPlaneResources env ask s = mode_get env ask [(4, Num 0)] mk_plane_res s"

definition drmModeFreePlaneResources :: "addr \<Rightarrow> mode_state \<Rightarrow> mode_state option" where
  "drmModeFreePlaneResources p s =
    (if p = NULL then Some s
     else case ms_objs s p of
       Some (ModePlaneRes r) \<Rightarrow> do { s \<leftarrow> free_arrays [ml_planes r] s; drmFree_obj p s }
     | _ \<Rightarrow> None)"

type_synonym props_query = "nat \<Rightarrow> u32 \<Rightarrow> int \<times> int \<times> u32 \<times> cell list \<times> cell list"

definition object_query :: "props_query \<Rightarrow> unit query" where
  "object_query ask n caps = (case ask n (caps ! 0) of (r, e, c, wp, wv) \<Rightarrow> (r, e, [(c, wp), (c, wv)], ()))"

definition mk_properties :: "unit \<Rightarrow> u32 list \<Rightarrow> addr list \<Rightarrow> mode_obj" where
  "mk_properties x cs ps = ModeObjectProperties \<lparr>mo_count_props = cs ! 0, mo_props = ps ! 0, mo_prop_values = ps ! 1\<rparr>"

definition drmModeObjectGetProperties ::
  "mode_env \<Rightarrow> (u32 \<Rightarrow> u32 \<Rightarrow> props_query) \<Rightarrow> u32 \<Rightarrow> u32 \<Rightarrow> mode_state \<Rightarrow> (addr \<times> mode_state) option" where
  "drmModeObjectGetProperties env ask object_id object_type s =
     mode_get env (object_query (ask object_id object_type)) [(4, Num 0), (8, Num 0)] mk_properties s"

definition drmModeFreeObjectProperties :: "addr \<Rightarrow> mode_state \<Rightarrow> mode_state option" where
  "drmModeFreeObjectProperties p s =
    (if p = NULL then Some s
     else case ms_objs s p of
       Some (ModeObjectProperties r) \<Rightarrow> do { s \<leftarrow> free_arrays [mo_props r, mo_prop_values r] s; drmFree_obj p s }
     | _ \<Rightarrow> None)"

section \<open>Contracts\<close>

text \<open>
  An answer \<open>(c, w)\<close> for an array with room for \<open>cap\<close> entries, as the kernel documents it: all entries when they fit,
  and otherwise none. Counts that make the sizes in bytes overflow do not occur.
\<close>

definition fills :: "u32 \<Rightarrow> nat \<times> cell \<Rightarrow> u32 \<times> cell list \<Rightarrow> bool" where
  "fills cap k a \<longleftrightarrow> length (snd a) = (if fst a \<le> cap then unat (fst a) else 0) \<and> unat (fst a) * fst k < 2 ^ 31"

definition query_ok :: "'x query \<Rightarrow> (nat \<times> cell) list \<Rightarrow> bool" where
  "query_ok ask ks \<longleftrightarrow> (\<forall>n caps r e ans x. ask n caps = (r, e, ans, x) \<longrightarrow> length caps = length ks \<longrightarrow> r = 0 \<longrightarrow>
     length ans = length ks \<and> (\<forall>i < length ks. fills (caps ! i) (ks ! i) (ans ! i)))"

text \<open>From request \<open>N\<close> on nothing is plugged in any more, and requests are not interrupted.\<close>

definition settles :: "'x query \<Rightarrow> nat \<Rightarrow> bool" where
  "settles ask N \<longleftrightarrow> (\<exists>C. \<forall>n \<ge> N. \<forall>caps r e ans x. ask n caps = (r, e, ans, x) \<longrightarrow>
     \<not> (r = - 1 \<and> (e = EINTR \<or> e = EAGAIN)) \<and> (r = 0 \<longrightarrow> map fst ans = C))"

definition mode_env_ok :: "mode_env \<Rightarrow> bool" where
  "mode_env_ok env \<longleftrightarrow> (\<forall>n. fresh_alloc (me_malloc_array env n) \<and> fresh_alloc (me_malloc_obj env n))"

section \<open>Blocks\<close>

text \<open>The blocks \<open>A\<close> that belong to the pointers \<open>ps\<close> and are apart from the heap \<open>h\<close>.\<close>

definition blocks :: "addr list \<Rightarrow> cell list heap \<Rightarrow> cell list heap \<Rightarrow> bool" where
  "blocks ps A h \<longleftrightarrow> dom A = set ps - {NULL} \<and> dom A \<inter> dom h = {} \<and> distinct (filter (\<lambda>p. p \<noteq> NULL) ps)"

lemma free_arrays_eq:
  assumes "set ps - {NULL} \<subseteq> dom (ms_arrays s)" "distinct (filter (\<lambda>p. p \<noteq> NULL) ps)"
  shows "free_arrays ps s = Some (s\<lparr>ms_arrays := ms_arrays s |` (- (set ps - {NULL}))\<rparr>)"
  using assms
proof (induction ps arbitrary: s)
  case (Cons p ps)
  show ?case
  proof (cases "p = NULL")
    case True
    then show ?thesis using Cons by (simp add: drmFree_def)
  next
    case False
    then obtain xs where "ms_arrays s p = Some xs" using Cons.prems(1) by auto
    let ?s = "s\<lparr>ms_arrays := (ms_arrays s)(p := None)\<rparr>"
    have step: "free_arrays (p # ps) s = free_arrays ps ?s"
      using False \<open>ms_arrays s p = Some xs\<close> by (simp add: drmFree_def dealloc_def)
    have "set ps - {NULL} \<subseteq> dom (ms_arrays ?s)" "distinct (filter (\<lambda>p. p \<noteq> NULL) ps)" using Cons.prems False by auto
    from Cons.IH [OF this] have "free_arrays ps ?s = Some (s\<lparr>ms_arrays := (ms_arrays s)(p := None) |` (- (set ps - {NULL}))\<rparr>)"
      by (simp del: fun_upd_apply)
    moreover have "(ms_arrays s)(p := None) |` (- (set ps - {NULL})) = ms_arrays s |` (- (set (p # ps) - {NULL}))"
      using False by (auto simp: restrict_map_def fun_eq_iff)
    ultimately show ?thesis unfolding step by (simp only:)
  qed
qed (simp add: restrict_map_def)

text \<open>Releasing the blocks \<open>A\<close> leaves the rest, \<open>B\<close> included.\<close>

lemma free_blocks:
  assumes "blocks ps A h" "ms_arrays s = (h ++ A) ++ B" "dom B \<inter> dom A = {}"
  shows "free_arrays ps s = Some (s\<lparr>ms_arrays := h ++ B\<rparr>)"
proof -
  have d: "set ps - {NULL} = dom A" "dom A \<inter> dom h = {}" "distinct (filter (\<lambda>p. p \<noteq> NULL) ps)"
    using assms(1) unfolding blocks_def by blast+
  have "((h ++ A) ++ B) |` (- dom A) = h ++ B"
  proof
    fix a
    have "A a \<noteq> None \<Longrightarrow> h a = None \<and> B a = None" using d(2) assms(3) by (auto simp: disjoint_iff)
    then show "(((h ++ A) ++ B) |` (- dom A)) a = (h ++ B) a"
      by (cases "A a") (auto simp: restrict_map_def map_add_def domIff split: option.splits)
  qed
  moreover have "set ps - {NULL} \<subseteq> dom (ms_arrays s)" unfolding d(1) assms(2) by auto
  ultimately show ?thesis using free_arrays_eq d(1,3) assms(2) by metis
qed

section \<open>The steps of a query\<close>

lemma malloc_eq:
  assumes "mode_env_ok env" "n * esz < 2 ^ 31"
  shows "drmMalloc env n esz z s = Some (NULL, mtick s) \<or>
    (\<exists>a. a \<noteq> NULL \<and> ms_arrays s a = None \<and> drmMalloc env n esz z s = Some (a, (mtick s)\<lparr>ms_arrays := (ms_arrays s)(a \<mapsto> replicate n z)\<rparr>))"
proof (cases "me_malloc_array env (ms_clock s) (ms_arrays s)")
  case (Some a)
  moreover have "a \<noteq> NULL \<and> ms_arrays s a = None"
    using assms(1) Some fresh_allocD unfolding mode_env_ok_def by blast
  ultimately show ?thesis using assms(2) by (intro disjI2 exI [of _ a]) (simp add: drmMalloc_def)
qed (use assms(2) in \<open>simp add: drmMalloc_def\<close>)

text \<open>A step that changes only arrays and the clock, which does not go back.\<close>

definition arrays_step :: "mode_state \<Rightarrow> cell list heap \<Rightarrow> mode_state \<Rightarrow> bool" where
  "arrays_step s h s' \<longleftrightarrow> ms_arrays s' = h \<and> ms_objs s' = ms_objs s \<and> ms_clock s \<le> ms_clock s'"

lemma arrays_step_trans: "arrays_step s h s' \<Longrightarrow> arrays_step s' h' s'' \<Longrightarrow> arrays_step s h' s''"
  by (simp add: arrays_step_def)

lemma arrays_step_simps [simp]:
  "arrays_step s (ms_arrays s) s"
  "arrays_step s (ms_arrays s) (mtick s)"
  "arrays_step s h ((mtick s)\<lparr>ms_arrays := h\<rparr>)"
  by (simp_all add: arrays_step_def mtick_def)

definition sized :: "(nat \<times> cell) list \<Rightarrow> u32 list \<Rightarrow> bool" where
  "sized ks cs \<longleftrightarrow> list_all2 (\<lambda>k c. unat c * fst k < 2 ^ 31) ks cs"

text \<open>The pointers \<open>ps\<close> to blocks of \<open>A\<close> with room for \<open>cs\<close> entries; \<open>NULL\<close> for none.\<close>

definition roomy :: "addr list \<Rightarrow> u32 list \<Rightarrow> cell list heap \<Rightarrow> bool" where
  "roomy ps cs A \<longleftrightarrow> list_all2 (\<lambda>p c. if c = 0 then p = NULL else p \<noteq> NULL \<and> (\<exists>xs. A p = Some xs \<and> length xs = unat c)) ps cs"

lemma blocks_Cons:
  assumes "blocks ps A (h(p \<mapsto> xs))" "p \<noteq> NULL" "h p = None"
  shows "blocks (p # ps) (A(p \<mapsto> xs)) h" "h(p \<mapsto> xs) ++ A = h ++ A(p \<mapsto> xs)" "p \<notin> dom A"
proof -
  have A: "dom A = set ps - {NULL}" "dom A \<inter> dom (h(p \<mapsto> xs)) = {}" "distinct (filter (\<lambda>p. p \<noteq> NULL) ps)"
    using assms(1) unfolding blocks_def by blast+
  show p: "p \<notin> dom A" using A(2) by auto
  then have "p \<notin> set ps" using A(1) assms(2) by auto
  then show "blocks (p # ps) (A(p \<mapsto> xs)) h" unfolding blocks_def using A assms(2,3) by auto
  show "h(p \<mapsto> xs) ++ A = h ++ A(p \<mapsto> xs)" using p by (auto simp: map_add_def fun_eq_iff dom_def split: option.splits)
qed

lemma alloc_arrays_ok:
  assumes "mode_env_ok env" "sized ks cs"
  shows "\<exists>ps ok s' A. alloc_arrays env ks cs s = Some (ps, ok, s') \<and> arrays_step s (ms_arrays s ++ A) s' \<and> blocks ps A (ms_arrays s) \<and>
    length ps = length ks \<and> (ok \<longrightarrow> roomy ps cs A)"
  using assms(2)
proof (induction ks arbitrary: cs s)
  case Nil
  then show ?case by (intro exI [of _ "[]"] exI [of _ True] exI [of _ s] exI [of _ Map.empty])
      (simp add: sized_def blocks_def roomy_def)
next
  case (Cons k ks)
  then obtain c cs' where cs: "cs = c # cs'" "unat c * fst k < 2 ^ 31" "sized ks cs'" by (auto simp: sized_def list_all2_Cons1)
  show ?case
  proof (cases "c = 0")
    case True
    from Cons.IH [OF cs(3), of s] obtain ps ok s' A where r: "alloc_arrays env ks cs' s = Some (ps, ok, s')"
      "arrays_step s (ms_arrays s ++ A) s'" "blocks ps A (ms_arrays s)" "length ps = length ks" "ok \<longrightarrow> roomy ps cs' A" by blast
    have "blocks (NULL # ps) A (ms_arrays s)" using r(3) unfolding blocks_def by auto
    then show ?thesis using r True cs(1) by (intro exI [of _ "NULL # ps"] exI [of _ ok] exI [of _ s'] exI [of _ A]) (simp add: roomy_def)
  next
    case False
    from malloc_eq [OF assms(1) cs(2), of "snd k" s] show ?thesis
    proof (elim disjE exE conjE)
      assume "drmMalloc env (unat c) (fst k) (snd k) s = Some (NULL, mtick s)"
      then have "alloc_arrays env (k # ks) cs s = Some (NULL # map (\<lambda>_. NULL) ks, False, mtick s)" using cs(1) False by simp
      moreover have "blocks (NULL # map (\<lambda>_. NULL) ks) Map.empty (ms_arrays s)" by (auto simp: blocks_def)
      ultimately show ?thesis
        by (intro exI [of _ "NULL # map (\<lambda>_. NULL) ks"] exI [of _ False] exI [of _ "mtick s"] exI [of _ Map.empty]) simp
    next
      fix p assume p: "p \<noteq> NULL" "ms_arrays s p = None"
        and m: "drmMalloc env (unat c) (fst k) (snd k) s = Some (p, (mtick s)\<lparr>ms_arrays := (ms_arrays s)(p \<mapsto> replicate (unat c) (snd k))\<rparr>)"
      let ?xs = "replicate (unat c) (snd k)" and ?s = "(mtick s)\<lparr>ms_arrays := (ms_arrays s)(p \<mapsto> replicate (unat c) (snd k))\<rparr>"
      have "ms_arrays ?s = (ms_arrays s)(p \<mapsto> ?xs)" by simp
      from Cons.IH [OF cs(3), of ?s, unfolded this] obtain ps ok s' A where r: "alloc_arrays env ks cs' ?s = Some (ps, ok, s')"
        "arrays_step ?s ((ms_arrays s)(p \<mapsto> ?xs) ++ A) s'" "blocks ps A ((ms_arrays s)(p \<mapsto> ?xs))" "length ps = length ks"
        "ok \<longrightarrow> roomy ps cs' A" by blast
      define A1 where "A1 = A(p \<mapsto> ?xs)"
      note b = blocks_Cons [OF r(3) p, folded A1_def]
      have "arrays_step s (ms_arrays s ++ A1) s'"
        using arrays_step_trans [OF arrays_step_simps(3) r(2)] unfolding b(2) .
      moreover have "roomy (p # ps) cs A1" if "roomy ps cs' A"
      proof -
        have "roomy ps cs' A1" using that b(3) unfolding roomy_def A1_def by (elim list.rel_mono_strong) (auto split: if_splits)
        then show ?thesis using False p(1) unfolding roomy_def cs(1) by (simp add: A1_def)
      qed
      moreover have "alloc_arrays env (k # ks) cs s = Some (p # ps, ok, s')" using m r(1) False p(1) cs(1) by simp
      ultimately show ?thesis using b(1) r(4,5)
        by (intro exI [of _ "p # ps"] exI [of _ ok] exI [of _ s'] exI [of _ A1]) simp
    qed
  qed
qed

text \<open>The blocks begin with the entries that were written.\<close>

definition holds :: "addr list \<Rightarrow> (u32 \<times> cell list) list \<Rightarrow> cell list heap \<Rightarrow> bool" where
  "holds ps ans A \<longleftrightarrow> list_all2 (\<lambda>p a. if p = NULL then snd a = [] else \<exists>t. A p = Some (snd a @ t)) ps ans"

lemma fill_arrays_ok:
  assumes "blocks ps A h" "roomy ps caps A" "list_all2 (\<lambda>c a. length (snd a) \<le> unat c) caps ans" "ms_arrays s = h ++ A"
  shows "\<exists>A'. fill_arrays ps ans s = Some (s\<lparr>ms_arrays := h ++ A'\<rparr>) \<and> blocks ps A' h \<and> holds ps ans A'"
  using assms
proof (induction ps arbitrary: caps ans A h s)
  case Nil
  then show ?case by (intro exI [of _ A]) (simp add: holds_def roomy_def)
next
  case (Cons p ps)
  obtain c cs where caps: "caps = c # cs" "if c = 0 then p = NULL else p \<noteq> NULL \<and> (\<exists>xs. A p = Some xs \<and> length xs = unat c)" "roomy ps cs A"
    using Cons.prems(2) by (auto simp: roomy_def list_all2_Cons1)
  obtain d w ans' where ans: "ans = (d, w) # ans'" "length w \<le> unat c" "list_all2 (\<lambda>c a. length (snd a) \<le> unat c) cs ans'"
    using Cons.prems(3) by (auto simp: caps(1) list_all2_Cons1)
  show ?case
  proof (cases "p = NULL")
    case True
    then have w: "w = []" using caps(2) ans(2) by (auto split: if_splits)
    have b: "blocks ps A h" using Cons.prems(1) True unfolding blocks_def by auto
    from Cons.IH [OF b caps(3) ans(3) Cons.prems(4)] obtain A' where
      A': "fill_arrays ps ans' s = Some (s\<lparr>ms_arrays := h ++ A'\<rparr>)" "blocks ps A' h" "holds ps ans' A'" by blast
    then show ?thesis using True w ans(1) by (intro exI [of _ A']) (auto simp: holds_def blocks_def)
  next
    case False
    then obtain xs where xs: "A p = Some xs" "length xs = unat c" using caps(2) by (auto split: if_splits)
    have d: "dom A = set (p # ps) - {NULL}" "dom A \<inter> dom h = {}" "distinct (filter (\<lambda>p. p \<noteq> NULL) (p # ps))"
      using Cons.prems(1) unfolding blocks_def by blast+
    have notin: "p \<notin> set ps" using d(3) False by auto
    let ?ys = "w @ drop (length w) xs"
    define h1 A0 where h1: "h1 = h(p \<mapsto> ?ys)" and A0: "A0 = A(p := None)"
    let ?s = "s\<lparr>ms_arrays := h1 ++ A0\<rparr>"
    have hp: "h p = None" using d(2) xs(1) by (auto simp: disjoint_iff)
    have eq: "h1 ++ A0 = (h ++ A)(p \<mapsto> ?ys)" unfolding h1 A0 by (auto simp: map_add_def fun_eq_iff split: option.splits)
    have st: "ms_arrays s p = Some xs" using Cons.prems(4) xs(1) by simp
    have step: "fill_arrays (p # ps) ans s = fill_arrays ps ans' ?s"
    proof (cases "w = []")
      case True
      then have "?s = s" using st Cons.prems(4) eq by (simp add: map_upd_triv)
      then show ?thesis using True ans(1) by simp
    next
      case False
      then show ?thesis using ans(1,2) st xs(2) Cons.prems(4) eq by (simp add: wr_def)
    qed
    have b: "blocks ps A0 h1" unfolding blocks_def h1 A0 using d notin False by auto
    have r: "roomy ps cs A0" using caps(3) notin unfolding roomy_def A0 by (elim list.rel_mono_strong) (auto split: if_splits)
    from Cons.IH [OF b r ans(3), of ?s] obtain A' where
      A': "fill_arrays ps ans' ?s = Some (s\<lparr>ms_arrays := h1 ++ A'\<rparr>)" "blocks ps A' h1" "holds ps ans' A'" by auto
    note bc = blocks_Cons [OF A'(2) [unfolded h1] False hp]
    define A1 where "A1 = A'(p \<mapsto> ?ys)"
    have "holds ps ans' A1" using A'(3) notin unfolding holds_def A1_def by (elim list.rel_mono_strong) (auto split: if_splits)
    then have "holds (p # ps) ans A1" using False unfolding holds_def ans(1) by (auto simp: A1_def)
    then show ?thesis using step A'(1) bc(1,2) unfolding h1 A1_def [symmetric] by (intro exI [of _ A1]) simp
  qed
qed

text \<open>The copies.\<close>

definition complete :: "(u32 \<times> cell list) list \<Rightarrow> bool" where
  "complete ans \<longleftrightarrow> list_all (\<lambda>a. length (snd a) = unat (fst a)) ans"

definition copied :: "addr list \<Rightarrow> (u32 \<times> cell list) list \<Rightarrow> cell list heap \<Rightarrow> bool" where
  "copied qs ans B \<longleftrightarrow> list_all2 (\<lambda>q a. q \<noteq> NULL \<longrightarrow> fst a \<noteq> 0 \<and> B q = Some (snd a)) qs ans"

lemma holds_mono: "holds ps ans A \<Longrightarrow> A \<subseteq>\<^sub>m A' \<Longrightarrow> holds ps ans A'"
  unfolding holds_def by (elim list.rel_mono_strong) (auto simp: map_le_def dom_def split: if_splits)

lemma copy_one:
  assumes "mode_env_ok env" "unat c * fst k < 2 ^ 31" "length w = unat c" "if p = NULL then w = [] else \<exists>t. ms_arrays s p = Some (w @ t)"
  shows "\<exists>s'. drmAllocCpy env p c k s = Some (NULL, s') \<and> arrays_step s (ms_arrays s) s' \<or>
    (\<exists>q. q \<noteq> NULL \<and> ms_arrays s q = None \<and> c \<noteq> 0 \<and> drmAllocCpy env p c k s = Some (q, s') \<and> arrays_step s ((ms_arrays s)(q \<mapsto> w)) s')"
proof (cases "c = 0 \<or> p = NULL")
  case True
  then show ?thesis by (intro exI [of _ s]) (simp add: drmAllocCpy_def)
next
  case False
  then obtain t where t: "ms_arrays s p = Some (w @ t)" using assms(4) by auto
  from malloc_eq [OF assms(1,2), of "snd k" s] show ?thesis
  proof (elim disjE exE conjE)
    assume "drmMalloc env (unat c) (fst k) (snd k) s = Some (NULL, mtick s)"
    then have "drmAllocCpy env p c k s = Some (NULL, mtick s)" using False by (simp add: drmAllocCpy_def)
    then show ?thesis by (intro exI [of _ "mtick s"]) simp
  next
    fix q assume q: "q \<noteq> NULL" "ms_arrays s q = None"
      and m: "drmMalloc env (unat c) (fst k) (snd k) s = Some (q, (mtick s)\<lparr>ms_arrays := (ms_arrays s)(q \<mapsto> replicate (unat c) (snd k))\<rparr>)"
    have "p \<noteq> q" using q(2) t by auto
    then have "drmAllocCpy env p c k s = Some (q, (mtick s)\<lparr>ms_arrays := (ms_arrays s)(q \<mapsto> w)\<rparr>)"
      using False m q(1) t assms(3) by (simp add: drmAllocCpy_def wr_def)
    then show ?thesis using q False
      by (intro exI [of _ "(mtick s)\<lparr>ms_arrays := (ms_arrays s)(q \<mapsto> w)\<rparr>"] disjI2 exI [of _ q]) (simp del: fun_upd_apply)
  qed
qed

lemma copy_arrays_ok:
  assumes "mode_env_ok env" "sized ks (map fst ans)" "complete ans" "holds ps ans (ms_arrays s)"
  shows "\<exists>qs s' B. copy_arrays env ks (map fst ans) ps s = Some (qs, s') \<and> arrays_step s (ms_arrays s ++ B) s' \<and>
    blocks qs B (ms_arrays s) \<and> length qs = length ks \<and> copied qs ans B"
  using assms(2-4)
proof (induction ks arbitrary: ans ps s)
  case Nil
  then show ?case by (intro exI [of _ "[]"] exI [of _ s] exI [of _ Map.empty]) (simp add: sized_def blocks_def copied_def)
next
  case (Cons k ks)
  obtain c w ans' where ans: "ans = (c, w) # ans'" "unat c * fst k < 2 ^ 31" "sized ks (map fst ans')" "length w = unat c" "complete ans'"
    using Cons.prems(1,2) by (cases ans) (auto simp: sized_def complete_def)
  obtain p ps' where ps: "ps = p # ps'" "if p = NULL then w = [] else \<exists>t. ms_arrays s p = Some (w @ t)" "holds ps' ans' (ms_arrays s)"
    using Cons.prems(3) unfolding holds_def ans(1) list_all2_Cons2 snd_conv by blast
  from copy_one [OF assms(1) ans(2,4) ps(2)] obtain s1 where
    "drmAllocCpy env p c k s = Some (NULL, s1) \<and> arrays_step s (ms_arrays s) s1 \<or>
    (\<exists>q. q \<noteq> NULL \<and> ms_arrays s q = None \<and> c \<noteq> 0 \<and> drmAllocCpy env p c k s = Some (q, s1) \<and> arrays_step s ((ms_arrays s)(q \<mapsto> w)) s1)" ..
  then show ?case
  proof (elim disjE exE conjE)
    assume one: "drmAllocCpy env p c k s = Some (NULL, s1)" "arrays_step s (ms_arrays s) s1"
    have ar: "ms_arrays s1 = ms_arrays s" using one(2) by (simp add: arrays_step_def)
    from Cons.IH [OF ans(3,5), of ps' s1] ps(3) obtain qs s' B where r: "copy_arrays env ks (map fst ans') ps' s1 = Some (qs, s')"
      "arrays_step s1 (ms_arrays s ++ B) s'" "blocks qs B (ms_arrays s)" "length qs = length ks" "copied qs ans' B" unfolding ar by blast
    have "blocks (NULL # qs) B (ms_arrays s)" using r(3) unfolding blocks_def by auto
    then show ?thesis using one(1) r arrays_step_trans [OF one(2) r(2)]
      by (intro exI [of _ "NULL # qs"] exI [of _ s'] exI [of _ B]) (simp add: ans(1) ps(1) copied_def)
  next
    fix q assume q: "q \<noteq> NULL" "ms_arrays s q = None" "c \<noteq> 0"
      and one: "drmAllocCpy env p c k s = Some (q, s1)" "arrays_step s ((ms_arrays s)(q \<mapsto> w)) s1"
    have ar: "ms_arrays s1 = (ms_arrays s)(q \<mapsto> w)" using one(2) by (simp add: arrays_step_def)
    have "holds ps' ans' (ms_arrays s1)" by (rule holds_mono [OF ps(3)]) (use q(2) in \<open>auto simp: ar map_le_def\<close>)
    from Cons.IH [OF ans(3,5) this] obtain qs s' B where r: "copy_arrays env ks (map fst ans') ps' s1 = Some (qs, s')"
      "arrays_step s1 ((ms_arrays s)(q \<mapsto> w) ++ B) s'" "blocks qs B ((ms_arrays s)(q \<mapsto> w))" "length qs = length ks" "copied qs ans' B"
      unfolding ar by blast
    define B1 where "B1 = B(q \<mapsto> w)"
    note b = blocks_Cons [OF r(3) q(1,2), folded B1_def]
    have "copied qs ans' B1" using r(5) b(3) unfolding copied_def B1_def by (elim list.rel_mono_strong) auto
    then have "copied (q # qs) ans B1" using q(3) by (simp add: copied_def ans(1) B1_def)
    moreover have "arrays_step s (ms_arrays s ++ B1) s'" using arrays_step_trans [OF one(2) r(2)] unfolding b(2) .
    ultimately show ?thesis using one(1) r(1,4) b(1)
      by (intro exI [of _ "q # qs"] exI [of _ s'] exI [of _ B1]) (simp add: ans(1) ps(1))
  qed
qed

text \<open>What a query may return: \<open>NULL\<close> and no memory, or a structure with its copies of the kernel's entries.\<close>

definition returned :: "addr list \<Rightarrow> (u32 \<times> cell list) list \<Rightarrow> cell list heap \<Rightarrow> bool" where
  "returned qs ans B \<longleftrightarrow> list_all2 (\<lambda>q a. if fst a = 0 then q = NULL else q \<noteq> NULL \<and> B q = Some (snd a)) qs ans"

definition mode_result ::
  "('x \<Rightarrow> u32 list \<Rightarrow> addr list \<Rightarrow> mode_obj) \<Rightarrow> cell list heap \<Rightarrow> mode_obj heap \<Rightarrow> (u32 \<times> cell list) list \<Rightarrow> 'x \<Rightarrow> addr \<Rightarrow> mode_state \<Rightarrow> bool" where
  "mode_result mk h obs ans x r s' \<longleftrightarrow>
    (if r = NULL then ms_arrays s' = h \<and> ms_objs s' = obs
     else obs r = None \<and> (\<exists>qs B. ms_objs s' = obs(r \<mapsto> mk x (map fst ans) qs) \<and> ms_arrays s' = h ++ B \<and> blocks qs B h \<and> returned qs ans B))"

lemma blocks_split:
  assumes "blocks qs B (h ++ A)"
  shows "blocks qs B h" "dom B \<inter> dom A = {}"
  using assms unfolding blocks_def by auto

lemma give_up_eq:
  assumes "blocks ps A h" "ms_arrays s = h ++ A"
  shows "give_up ps s = Some (Inr (NULL, s\<lparr>ms_arrays := h\<rparr>))"
  using free_blocks [OF assms(1), of s Map.empty] assms(2) by (simp add: give_up_def)

lemma mode_return_ok:
  assumes "mode_env_ok env" "sized ks (map fst ans)" "complete ans" "holds ps ans A" "blocks ps A h" "ms_arrays s = h ++ A"
    "length ans = length ks"
  shows "\<exists>r s'. mode_return env ks (mk x) (map fst ans) ps s = Some (Inr (r, s')) \<and> mode_result mk h (ms_objs s) ans x r s'"
proof (cases "me_malloc_obj env (ms_clock s) (ms_objs s)")
  case None
  have "give_up ps (mtick s) = Some (Inr (NULL, (mtick s)\<lparr>ms_arrays := h\<rparr>))"
    using give_up_eq [OF assms(5), of "mtick s"] assms(6) by (simp add: mtick_def)
  then show ?thesis using None by (intro exI [of _ NULL] exI [of _ "(mtick s)\<lparr>ms_arrays := h\<rparr>"])
      (simp add: mode_return_def mode_result_def mtick_def)
next
  case (Some r)
  have r: "r \<noteq> NULL" "ms_objs s r = None" using assms(1) Some fresh_allocD unfolding mode_env_ok_def by blast+
  define s1 where "s1 = (mtick s)\<lparr>ms_objs := (ms_objs s)(r \<mapsto> mk x (map fst ans) (map (\<lambda>_. NULL) ks))\<rparr>"
  have s1: "ms_arrays s1 = h ++ A" using assms(6) by (simp add: s1_def mtick_def)
  have "holds ps ans (ms_arrays s1)" unfolding s1 by (rule holds_mono [OF assms(4)]) (simp add: map_le_def map_add_dom_app_simps)
  from copy_arrays_ok [OF assms(1-3) this] obtain qs s2 B where c: "copy_arrays env ks (map fst ans) ps s1 = Some (qs, s2)"
    "arrays_step s1 ((h ++ A) ++ B) s2" "blocks qs B (h ++ A)" "length qs = length ks" "copied qs ans B" unfolding s1 by blast
  note bs = blocks_split [OF c(3)]
  have ar: "ms_arrays s2 = (h ++ A) ++ B" "ms_objs s2 = (ms_objs s)(r \<mapsto> mk x (map fst ans) (map (\<lambda>_. NULL) ks))"
    using c(2) by (simp_all add: arrays_step_def s1_def)
  let ?bad = "list_ex (\<lambda>(c, q). c \<noteq> 0 \<and> q = NULL) (zip (map fst ans) qs)"
  note run = mode_return_def Some option.case s1_def [symmetric] c(1) bind.bind_lunit prod.case
  show ?thesis
  proof (cases ?bad)
    case True
    have f: "free_arrays qs s2 = Some (s2\<lparr>ms_arrays := h ++ A\<rparr>)"
      using free_blocks [OF c(3), of s2 Map.empty] ar(1) by simp
    let ?s3 = "s2\<lparr>ms_arrays := h ++ A, ms_objs := ms_objs s\<rparr>"
    have "drmFree_obj r (s2\<lparr>ms_arrays := h ++ A\<rparr>) = Some ?s3"
      using r(2) by (simp add: drmFree_obj_def dealloc_def ar(2) fun_upd_idem)
    moreover have "give_up ps ?s3 = Some (Inr (NULL, ?s3\<lparr>ms_arrays := h\<rparr>))" by (rule give_up_eq [OF assms(5)]) simp
    ultimately have "mode_return env ks (mk x) (map fst ans) ps s = Some (Inr (NULL, ?s3\<lparr>ms_arrays := h\<rparr>))"
      unfolding run if_P [OF True] f by simp
    then show ?thesis by (intro exI [of _ NULL] exI [of _ "?s3\<lparr>ms_arrays := h\<rparr>"]) (simp add: mode_result_def)
  next
    case False
    have w: "wr (ms_objs s2) r (\<lambda>_. mk x (map fst ans) qs) = Some ((ms_objs s)(r \<mapsto> mk x (map fst ans) qs))" by (simp add: wr_def ar(2))
    let ?s3 = "s2\<lparr>ms_objs := (ms_objs s)(r \<mapsto> mk x (map fst ans) qs)\<rparr>"
    have "free_arrays ps ?s3 = Some (?s3\<lparr>ms_arrays := h ++ B\<rparr>)" using free_blocks [OF assms(5) _ bs(2), of ?s3] ar(1) by simp
    then have res: "mode_return env ks (mk x) (map fst ans) ps s = Some (Inr (r, ?s3\<lparr>ms_arrays := h ++ B\<rparr>))"
      unfolding run if_not_P [OF False] w by simp
    have nn: "qs ! i \<noteq> NULL" if i: "i < length ks" "fst (ans ! i) \<noteq> 0" for i
    proof -
      have "(fst (ans ! i), qs ! i) \<in> set (zip (map fst ans) qs)" using i(1) c(4) assms(7) by (auto simp: set_zip intro!: exI [of _ i])
      then show ?thesis using False i(2) unfolding list_ex_iff by auto
    qed
    have "returned qs ans B"
      using c(4,5) nn assms(7) unfolding returned_def copied_def list_all2_conv_all_nth by (auto simp: nn)
    then have "mode_result mk h (ms_objs s) ans x r (?s3\<lparr>ms_arrays := h ++ B\<rparr>)"
      using r bs(1) unfolding mode_result_def by auto
    then show ?thesis using res by blast
  qed
qed

section \<open>Queries return\<close>

lemma ioctl_returns:
  assumes "settles ask N"
  shows "\<exists>n r e ans x. ms_clock s \<le> n \<and> ask n caps = (r, e, ans, x) \<and> drmIoctl ask caps s = Some (r, ans, x, s\<lparr>ms_clock := Suc n\<rparr>)"
proof (induction "N - ms_clock s" arbitrary: s)
  case 0
  obtain r e ans x where a: "ask (ms_clock s) caps = (r, e, ans, x)" by (metis prod_cases4)
  have "ms_clock s \<ge> N" using 0 by simp
  then have "\<not> (r = - 1 \<and> (e = EINTR \<or> e = EAGAIN))" using assms a unfolding settles_def by blast
  then have "drmIoctl ask caps s = Some (r, ans, x, mtick s)" using a by (subst drmIoctl.simps) auto
  then show ?case using a by (intro exI [of _ "ms_clock s"] exI [of _ r] exI [of _ e] exI [of _ ans] exI [of _ x]) (simp add: mtick_def)
next
  case (Suc d)
  obtain r e ans x where a: "ask (ms_clock s) caps = (r, e, ans, x)" by (metis prod_cases4)
  show ?case
  proof (cases "r = - 1 \<and> (e = EINTR \<or> e = EAGAIN)")
    case True
    have "drmIoctl ask caps s = drmIoctl ask caps (mtick s)" using a True by (subst drmIoctl.simps) simp
    moreover have "d = N - ms_clock (mtick s)" using Suc.hyps(2) by (simp add: mtick_def)
    from Suc.hyps(1) [OF this] obtain n r e ans x where "ms_clock (mtick s) \<le> n" "ask n caps = (r, e, ans, x)"
      "drmIoctl ask caps (mtick s) = Some (r, ans, x, (mtick s)\<lparr>ms_clock := Suc n\<rparr>)" by blast
    ultimately show ?thesis by (intro exI [of _ n] exI [of _ r] exI [of _ e] exI [of _ ans] exI [of _ x]) (simp add: mtick_def)
  next
    case False
    then have "drmIoctl ask caps s = Some (r, ans, x, mtick s)" using a by (subst drmIoctl.simps) auto
    then show ?thesis using a by (intro exI [of _ "ms_clock s"] exI [of _ r] exI [of _ e] exI [of _ ans] exI [of _ x]) (simp add: mtick_def)
  qed
qed

lemma fill_none: "list_all (\<lambda>a. snd a = []) ans \<Longrightarrow> fill_arrays ps ans s = Some s"
  by (induction ps ans s rule: fill_arrays.induct) auto

text \<open>An outcome: nothing, or what the kernel answered some request with.\<close>

definition mode_answer ::
  "(nat \<times> cell) list \<Rightarrow> 'x query \<Rightarrow> ('x \<Rightarrow> u32 list \<Rightarrow> addr list \<Rightarrow> mode_obj) \<Rightarrow> cell list heap \<Rightarrow> mode_obj heap \<Rightarrow> addr \<Rightarrow> mode_state \<Rightarrow> bool" where
  "mode_answer ks ask mk h obs r s' \<longleftrightarrow> (r = NULL \<and> ms_arrays s' = h \<and> ms_objs s' = obs) \<or>
     (r \<noteq> NULL \<and> (\<exists>n caps e ans x. ask n caps = (0, e, ans, x) \<and> length ans = length ks \<and> complete ans \<and> mode_result mk h obs ans x r s'))"

lemma not_more:
  assumes "\<not> list_ex (\<lambda>(c, c'). c < c') (zip cs (map fst ans))" "length ans = length cs" "i < length cs"
  shows "fst (ans ! i) \<le> (cs ! i :: u32)"
proof -
  have "(cs ! i, fst (ans ! i)) \<in> set (zip cs (map fst ans))" using assms(2,3) by (auto simp: set_zip intro!: exI [of _ i])
  then show ?thesis using assms(1) unfolding list_ex_iff by auto
qed

lemma mode_fetch_ok:
  assumes "mode_env_ok env" "query_ok ask ks" "settles ask N" "length cs = length ks" "roomy ps cs A" "blocks ps A h" "ms_arrays s = h ++ A"
  shows "\<exists>t. mode_fetch env ask ks mk cs ps s = Some t \<and> (case t of
      Inl s' \<Rightarrow> ms_arrays s' = h \<and> ms_objs s' = ms_objs s \<and> ms_clock s < ms_clock s' \<and>
        (\<exists>n e ans x. ms_clock s \<le> n \<and> ask n cs = (0, e, ans, x) \<and> map fst ans \<noteq> cs)
    | Inr (r, s') \<Rightarrow> mode_answer ks ask mk h (ms_objs s) r s')"
proof -
  obtain n r e ans x where i: "ms_clock s \<le> n" "ask n cs = (r, e, ans, x)"
    "drmIoctl ask cs s = Some (r, ans, x, s\<lparr>ms_clock := Suc n\<rparr>)" using ioctl_returns [OF assms(3)] by blast
  define s1 where "s1 = s\<lparr>ms_clock := Suc n\<rparr>"
  have s1: "ms_arrays s1 = h ++ A" "ms_objs s1 = ms_objs s" "ms_clock s < ms_clock s1" using assms(7) i(1) by (simp_all add: s1_def)
  note run = mode_fetch_def i(3) [folded s1_def] bind.bind_lunit prod.case
  show ?thesis
  proof (cases "r = 0")
    case False
    then have "mode_fetch env ask ks mk cs ps s = Some (Inr (NULL, s1\<lparr>ms_arrays := h\<rparr>))"
      unfolding run using give_up_eq [OF assms(6) s1(1)] by simp
    then show ?thesis by (intro exI [of _ "Inr (NULL, s1\<lparr>ms_arrays := h\<rparr>)"]) (simp add: mode_answer_def s1)
  next
    case True
    have a: "length ans = length ks" "\<forall>i < length ks. fills (cs ! i) (ks ! i) (ans ! i)"
      using assms(2,4) i(2) True unfolding query_ok_def by blast+
    have "list_all2 (\<lambda>c a. length (snd a) \<le> unat c) cs ans"
      using assms(4) a by (auto simp: list_all2_conv_all_nth fills_def word_le_nat_alt)
    from fill_arrays_ok [OF assms(6,5) this s1(1)] obtain A' where
      f: "fill_arrays ps ans s1 = Some (s1\<lparr>ms_arrays := h ++ A'\<rparr>)" "blocks ps A' h" "holds ps ans A'" by blast
    define s2 where "s2 = s1\<lparr>ms_arrays := h ++ A'\<rparr>"
    have s2: "ms_arrays s2 = h ++ A'" "ms_objs s2 = ms_objs s" "ms_clock s < ms_clock s2" using s1 by (simp_all add: s2_def)
    let ?more = "list_ex (\<lambda>(c, c'). c < c') (zip cs (map fst ans))"
    have run2: "mode_fetch env ask ks mk cs ps s = (if ?more then do { s \<leftarrow> free_arrays ps s2; Some (Inl s) }
        else mode_return env ks (mk x) (map fst ans) ps s2)"
      unfolding run using True f(1) by (simp add: s2_def)
    show ?thesis
    proof (cases ?more)
      case m: True
      have "free_arrays ps s2 = Some (s2\<lparr>ms_arrays := h\<rparr>)" using free_blocks [OF f(2), of s2 Map.empty] s2(1) by simp
      moreover have "map fst ans \<noteq> cs" using m by (auto simp: list_ex_iff set_zip)
      ultimately show ?thesis using run2 m i(1,2) True s2
        by (intro exI [of _ "Inl (s2\<lparr>ms_arrays := h\<rparr>)"]) auto
    next
      case False
      have cm: "complete ans" using a not_more [OF False] assms(4) by (auto simp: complete_def list_all_length fills_def)
      have sz: "sized ks (map fst ans)" using a by (auto simp: sized_def list_all2_conv_all_nth fills_def)
      from mode_return_ok [OF assms(1) sz cm f(3,2) s2(1) a(1), of mk x] obtain q s' where
        res: "mode_return env ks (mk x) (map fst ans) ps s2 = Some (Inr (q, s'))" "mode_result mk h (ms_objs s) ans x q s'"
        unfolding s2(2) by blast
      have "mode_answer ks ask mk h (ms_objs s) q s'"
      proof (cases "q = NULL")
        case True
        then show ?thesis using res(2) by (simp add: mode_answer_def mode_result_def)
      next
        case False
        then show ?thesis using i(2) True cm a(1) res(2) unfolding mode_answer_def by blast
      qed
      then show ?thesis using run2 False res(1) by (intro exI [of _ "Inr (q, s')"]) simp
    qed
  qed
qed

lemma mode_try_ok:
  assumes "mode_env_ok env" "query_ok ask ks" "settles ask N"
  shows "\<exists>t. mode_try env ask ks mk s = Some t \<and> (case t of
      Inl s' \<Rightarrow> ms_arrays s' = ms_arrays s \<and> ms_objs s' = ms_objs s \<and> ms_clock s < ms_clock s' \<and> ms_clock s < N
    | Inr (r, s') \<Rightarrow> mode_answer ks ask mk (ms_arrays s) (ms_objs s) r s')"
proof -
  let ?h = "ms_arrays s"
  obtain n r e ans x where i: "ms_clock s \<le> n" "ask n (map (\<lambda>_. 0) ks) = (r, e, ans, x)"
    "drmIoctl ask (map (\<lambda>_. 0) ks) s = Some (r, ans, x, s\<lparr>ms_clock := Suc n\<rparr>)" using ioctl_returns [OF assms(3)] by blast
  define s1 where "s1 = s\<lparr>ms_clock := Suc n\<rparr>"
  note run = mode_try_def i(3) [folded s1_def] bind.bind_lunit prod.case
  show ?thesis
  proof (cases "r = 0")
    case False
    then have "mode_try env ask ks mk s = Some (Inr (NULL, s1))" unfolding run by simp
    then show ?thesis by (intro exI [of _ "Inr (NULL, s1)"]) (simp add: mode_answer_def s1_def)
  next
    case True
    have a: "length ans = length ks" "\<forall>i < length ks. fills 0 (ks ! i) (ans ! i)"
      using assms(2) i(2) True unfolding query_ok_def by fastforce+
    then have "list_all (\<lambda>a. snd a = []) ans" by (auto simp: list_all_length fills_def split: if_splits)
    then have f: "fill_arrays (map (\<lambda>_. NULL) ks) ans s1 = Some s1" by (rule fill_none)
    let ?cs = "map fst ans"
    have sz: "sized ks ?cs" using a by (auto simp: sized_def list_all2_conv_all_nth fills_def)
    have h1: "ms_arrays s1 = ?h" by (simp add: s1_def)
    from alloc_arrays_ok [OF assms(1) sz, of s1] obtain ps ok s2 A where al: "alloc_arrays env ks ?cs s1 = Some (ps, ok, s2)"
      "arrays_step s1 (?h ++ A) s2" "blocks ps A ?h" "ok \<longrightarrow> roomy ps ?cs A" unfolding h1 by blast
    have s2: "ms_arrays s2 = ?h ++ A" "ms_objs s2 = ms_objs s" "n < ms_clock s2"
      using al(2) i(1) by (auto simp: arrays_step_def s1_def)
    have run2: "mode_try env ask ks mk s = (if \<not> ok then give_up ps s2 else mode_fetch env ask ks mk ?cs ps s2)"
      unfolding run using True f al(1) by simp
    show ?thesis
    proof (cases ok)
      case False
      then have "mode_try env ask ks mk s = Some (Inr (NULL, s2\<lparr>ms_arrays := ?h\<rparr>))"
        unfolding run2 using give_up_eq [OF al(3) s2(1)] by simp
      then show ?thesis by (intro exI [of _ "Inr (NULL, s2\<lparr>ms_arrays := ?h\<rparr>)"]) (simp add: mode_answer_def s2)
    next
      case ok: True
      have len: "length ?cs = length ks" using a(1) by simp
      from mode_fetch_ok [OF assms len al(4) [rule_format, OF ok] al(3) s2(1), of mk] obtain t where
        t: "mode_fetch env ask ks mk ?cs ps s2 = Some t" "case t of
          Inl s' \<Rightarrow> ms_arrays s' = ?h \<and> ms_objs s' = ms_objs s2 \<and> ms_clock s2 < ms_clock s' \<and>
            (\<exists>n e ans' x. ms_clock s2 \<le> n \<and> ask n ?cs = (0, e, ans', x) \<and> map fst ans' \<noteq> ?cs)
        | Inr (r, s') \<Rightarrow> mode_answer ks ask mk ?h (ms_objs s2) r s'" by blast
      have "ms_clock s < N" if "ms_clock s2 \<le> n'" "ask n' ?cs = (0, e', ans', x')" "map fst ans' \<noteq> ?cs" for n' e' ans' x'
      proof (rule ccontr)
        assume "\<not> ms_clock s < N"
        then have "N \<le> n" "N \<le> n'" using i(1) that(1) s2(3) by simp_all
        then show False using assms(3) i(2) True that(2,3) unfolding settles_def by metis
      qed
      then show ?thesis using run2 ok t s2 i(1) by (cases t) auto
    qed
  qed
qed

lemma mode_get_ok:
  assumes "mode_env_ok env" "query_ok ask ks" "settles ask N"
  shows "\<exists>r s'. mode_get env ask ks mk s = Some (r, s') \<and> mode_answer ks ask mk (ms_arrays s) (ms_objs s) r s'"
proof (induction "N - ms_clock s" arbitrary: s rule: less_induct)
  case less
  from mode_try_ok [OF assms, of mk s] obtain t where t: "mode_try env ask ks mk s = Some t"
    "case t of Inl s' \<Rightarrow> ms_arrays s' = ms_arrays s \<and> ms_objs s' = ms_objs s \<and> ms_clock s < ms_clock s' \<and> ms_clock s < N
    | Inr (r, s') \<Rightarrow> mode_answer ks ask mk (ms_arrays s) (ms_objs s) r s'" by blast
  show ?case
  proof (cases t)
    case (Inl s1)
    then have s1: "ms_arrays s1 = ms_arrays s" "ms_objs s1 = ms_objs s" "N - ms_clock s1 < N - ms_clock s" using t(2) by auto
    have "mode_get env ask ks mk s = mode_get env ask ks mk s1" using t(1) Inl by (subst mode_get.simps) simp
    then show ?thesis using less [OF s1(3)] s1(1,2) by simp
  next
    case (Inr res)
    then have "mode_get env ask ks mk s = Some res" using t(1) by (subst mode_get.simps) simp
    then show ?thesis using Inr t(2) by (cases res) simp
  qed
qed

section \<open>Queries and releases\<close>

text \<open>
  The interface of a query: its structure \<open>mk\<close> with arrays of the kinds \<open>ks\<close>, and the function that releases it,
  which frees the arrays in some order and then the structure.
\<close>

locale mode_struct =
  fixes ks :: "(nat \<times> cell) list"
    and mk :: "'x \<Rightarrow> u32 list \<Rightarrow> addr list \<Rightarrow> mode_obj"
    and release :: "addr \<Rightarrow> mode_state \<Rightarrow> mode_state option"
    and order :: "addr list \<Rightarrow> addr list"
  assumes order_perm: "length qs = length ks \<Longrightarrow> mset (order qs) = mset qs"
    and release_eq: "r \<noteq> NULL \<Longrightarrow> length qs = length ks \<Longrightarrow> ms_objs s r = Some (mk x cs qs) \<Longrightarrow>
      release r s = do { s \<leftarrow> free_arrays (order qs) s; drmFree_obj r s }"
begin

lemma release_result:
  assumes "mode_result mk h obs ans x r s" "r \<noteq> NULL" "length ans = length ks"
  shows "release r s = Some (s\<lparr>ms_arrays := h, ms_objs := obs\<rparr>)"
proof -
  obtain qs B where q: "obs r = None" "ms_objs s = obs(r \<mapsto> mk x (map fst ans) qs)" "ms_arrays s = h ++ B" "blocks qs B h" "returned qs ans B"
    using assms(1,2) by (auto simp: mode_result_def)
  have len: "length qs = length ks" using q(5) assms(3) unfolding returned_def by (simp add: list_all2_lengthD)
  note p = order_perm [OF len]
  have "set (order qs) = set qs" using p by (rule mset_eq_setD)
  moreover have "mset (filter (\<lambda>p. p \<noteq> NULL) (order qs)) = mset (filter (\<lambda>p. p \<noteq> NULL) qs)" using p by simp
  ultimately have "blocks (order qs) B h" using q(4) mset_eq_imp_distinct_iff unfolding blocks_def by metis
  then have "free_arrays (order qs) s = Some (s\<lparr>ms_arrays := h\<rparr>)" using free_blocks [of "order qs" B h s Map.empty] q(3) by simp
  moreover have "ms_objs s r = Some (mk x (map fst ans) qs)" using q(2) by simp
  ultimately show ?thesis using release_eq [OF assms(2) len, of s x "map fst ans"] q(1,2)
    by (simp add: drmFree_obj_def dealloc_def fun_upd_idem)
qed

lemma get_release:
  assumes "mode_env_ok env" "query_ok ask ks" "settles ask N"
  shows "\<exists>r s'. mode_get env ask ks mk s = Some (r, s') \<and>
    (r = NULL \<longrightarrow> ms_arrays s' = ms_arrays s \<and> ms_objs s' = ms_objs s) \<and>
    (r \<noteq> NULL \<longrightarrow> (\<exists>n caps e ans x qs. ask n caps = (0, e, ans, x) \<and> complete ans \<and> ms_objs s' r = Some (mk x (map fst ans) qs) \<and>
        returned qs ans (ms_arrays s') \<and>
        release r s' = Some (s'\<lparr>ms_arrays := ms_arrays s, ms_objs := ms_objs s\<rparr>)))"
proof -
  from mode_get_ok [OF assms, of mk s] obtain r s' where g: "mode_get env ask ks mk s = Some (r, s')"
    "mode_answer ks ask mk (ms_arrays s) (ms_objs s) r s'" by blast
  show ?thesis
  proof (cases "r = NULL")
    case True
    then show ?thesis using g by (auto simp: mode_answer_def)
  next
    case False
    then obtain n caps e ans x where a: "ask n caps = (0, e, ans, x)" "length ans = length ks" "complete ans"
      "mode_result mk (ms_arrays s) (ms_objs s) ans x r s'" using g(2) unfolding mode_answer_def by blast
    then obtain qs B where q: "ms_objs s' = (ms_objs s)(r \<mapsto> mk x (map fst ans) qs)" "ms_arrays s' = ms_arrays s ++ B" "returned qs ans B"
      using False by (auto simp: mode_result_def)
    have "returned qs ans (ms_arrays s')" using q(3) unfolding returned_def q(2) by (elim list.rel_mono_strong) (auto split: if_splits)
    moreover have "ms_objs s' r = Some (mk x (map fst ans) qs)" by (simp add: q(1))
    ultimately show ?thesis using g(1) False a(1,3) release_result [OF a(4) False a(2)] by blast
  qed
qed

end

interpretation resources: mode_struct "[(4, Num 0), (4, Num 0), (4, Num 0), (4, Num 0)]" mk_resources drmModeFreeResources "\<lambda>qs. qs"
  by unfold_locales (auto simp: drmModeFreeResources_def mk_resources_def length_Suc_conv split: prod.splits)

interpretation connector: mode_struct "[(4, Num 0), (8, Num 0), (68, Mode zero_mode), (4, Num 0)]" mk_connector drmModeFreeConnector
  "\<lambda>qs. [qs ! 3, qs ! 1, qs ! 0, qs ! 2]"
  by unfold_locales (auto simp: drmModeFreeConnector_def mk_connector_def length_Suc_conv)

interpretation plane: mode_struct "[(4, Num 0)]" mk_plane drmModeFreePlane "\<lambda>qs. qs"
  by unfold_locales (auto simp: drmModeFreePlane_def mk_plane_def length_Suc_conv split: prod.splits)

interpretation plane_res: mode_struct "[(4, Num 0)]" mk_plane_res drmModeFreePlaneResources "\<lambda>qs. qs"
  by unfold_locales (auto simp: drmModeFreePlaneResources_def mk_plane_res_def length_Suc_conv)

interpretation properties: mode_struct "[(4, Num 0), (8, Num 0)]" mk_properties drmModeFreeObjectProperties "\<lambda>qs. qs"
  by unfold_locales (auto simp: drmModeFreeObjectProperties_def mk_properties_def length_Suc_conv)

section \<open>Blobs\<close>

text \<open>
  \<open>drmModeGetPropertyBlob\<close> asks twice as well, but looks neither at its allocations nor at a length that changed:
  \<open>ask\<close> is given the length and whether there is memory. The bytes are entries of size 1.
\<close>

type_synonym blob_query = "nat \<Rightarrow> u32 \<Rightarrow> bool \<Rightarrow> int \<times> int \<times> u32 \<times> cell list"

definition blob_ask :: "blob_query \<Rightarrow> bool \<Rightarrow> unit query" where
  "blob_ask ask mem n caps = (case ask n (caps ! 0) mem of (r, e, len, w) \<Rightarrow> (r, e, [(len, w)], ()))"

definition drmModeGetPropertyBlob :: "mode_env \<Rightarrow> (u32 \<Rightarrow> blob_query) \<Rightarrow> u32 \<Rightarrow> mode_state \<Rightarrow> (addr \<times> mode_state) option" where
  "drmModeGetPropertyBlob env ask blob_id s = do {
     (r, ans, x, s) \<leftarrow> drmIoctl (blob_ask (ask blob_id) False) [0] s;
     if r \<noteq> 0 then Some (NULL, s)
     else do {
       let len = fst (ans ! 0);
       (data, s) \<leftarrow> (if len \<noteq> 0 then drmMalloc env (unat len) 1 (Num 0) s else Some (NULL, s));
       (r, ans, x, s) \<leftarrow> drmIoctl (blob_ask (ask blob_id) (data \<noteq> NULL)) [len] s;
       if r \<noteq> 0 then do { s \<leftarrow> drmFree data s; Some (NULL, s) }
       else do {
         s \<leftarrow> fill_arrays [data] ans s;
         let len = fst (ans ! 0);
         case me_malloc_obj env (ms_clock s) (ms_objs s) of
           None \<Rightarrow> do { s \<leftarrow> drmFree data (mtick s); Some (NULL, s) }
         | Some r \<Rightarrow> do {
             (p, s) \<leftarrow> drmAllocCpy env data len (1, Num 0) (mtick s);
             s \<leftarrow> drmFree data (s\<lparr>ms_objs := (ms_objs s)(r \<mapsto> ModePropertyBlob \<lparr>mb_id = blob_id, mb_length = len, mb_data = p\<rparr>)\<rparr>);
             Some (r, s)
           }
       }
     }
   }"

definition drmModeFreePropertyBlob :: "addr \<Rightarrow> mode_state \<Rightarrow> mode_state option" where
  "drmModeFreePropertyBlob p s =
    (if p = NULL then Some s
     else case ms_objs s p of
       Some (ModePropertyBlob b) \<Rightarrow> do { s \<leftarrow> free_arrays [mb_data b] s; drmFree_obj p s }
     | _ \<Rightarrow> None)"

section \<open>Theorems\<close>

text \<open>C15. As long as the kernel keeps to its contract and things stop being plugged in, \<open>drmModeGetResources\<close> returns. It returns
  \<open>NULL\<close> and leaves no memory behind, or a structure whose numbers and arrays are all of one answer of the kernel;
  \<open>drmModeFreeResources\<close> then gives back exactly what was allocated.\<close>

theorem get_resources_release:
  assumes "mode_env_ok env" "query_ok ask [(4, Num 0), (4, Num 0), (4, Num 0), (4, Num 0)]" "settles ask N"
  shows "\<exists>r s'. drmModeGetResources env ask s = Some (r, s') \<and>
    (r = NULL \<longrightarrow> ms_arrays s' = ms_arrays s \<and> ms_objs s' = ms_objs s) \<and>
    (r \<noteq> NULL \<longrightarrow> (\<exists>n caps e ans x qs. ask n caps = (0, e, ans, x) \<and> complete ans \<and>
        ms_objs s' r = Some (mk_resources x (map fst ans) qs) \<and> returned qs ans (ms_arrays s') \<and>
        drmModeFreeResources r s' = Some (s'\<lparr>ms_arrays := ms_arrays s, ms_objs := ms_objs s\<rparr>)))"
  unfolding drmModeGetResources_def by (rule resources.get_release [OF assms])

text \<open>A kernel with one CRTC and nothing else.\<close>

definition ex_mode_env :: mode_env where
  "ex_mode_env = \<lparr>me_malloc_array = \<lambda>_. first_free 100, me_malloc_obj = \<lambda>_. first_free 100\<rparr>"

definition ex_resources :: "(u32 \<times> u32 \<times> u32 \<times> u32) query" where
  "ex_resources n caps = (0, 0, [(0, []), (1, if 1 \<le> caps ! 1 then [Num 5] else []), (0, []), (0, [])], (0, 4096, 0, 4096))"

definition ex_mode_state :: mode_state where
  "ex_mode_state = \<lparr>ms_arrays = Map.empty, ms_objs = Map.empty, ms_clock = 0\<rparr>"

lemma ex_mode_env_ok: "mode_env_ok ex_mode_env"
  by (simp add: mode_env_ok_def ex_mode_env_def fresh_first_free)

lemma ex_resources_ok:
  "query_ok ex_resources [(4, Num 0), (4, Num 0), (4, Num 0), (4, Num 0)]" "settles ex_resources 0"
  by (auto simp: query_ok_def ex_resources_def fills_def settles_def less_Suc_eq)

theorem get_resources_release_witness:
  "\<exists>r s'. drmModeGetResources ex_mode_env ex_resources ex_mode_state = Some (r, s') \<and>
    (r = NULL \<longrightarrow> ms_arrays s' = ms_arrays ex_mode_state \<and> ms_objs s' = ms_objs ex_mode_state) \<and>
    (r \<noteq> NULL \<longrightarrow> (\<exists>n caps e ans x qs. ex_resources n caps = (0, e, ans, x) \<and> complete ans \<and>
        ms_objs s' r = Some (mk_resources x (map fst ans) qs) \<and> returned qs ans (ms_arrays s') \<and>
        drmModeFreeResources r s' = Some (s'\<lparr>ms_arrays := ms_arrays ex_mode_state, ms_objs := ms_objs ex_mode_state\<rparr>)))"
  by (rule get_resources_release [OF ex_mode_env_ok ex_resources_ok])

text \<open>The same of the other queries.\<close>

lemma get_connector_release:
  assumes "mode_env_ok env" "query_ok (connector_query (ask i)) [(4, Num 0), (8, Num 0), (68, Mode zero_mode), (4, Num 0)]"
    "settles (connector_query (ask i)) N"
  shows "\<exists>r s'. drmModeGetConnector env ask i s = Some (r, s') \<and>
    (r = NULL \<longrightarrow> ms_arrays s' = ms_arrays s \<and> ms_objs s' = ms_objs s) \<and>
    (r \<noteq> NULL \<longrightarrow> (\<exists>n caps e ans x qs. connector_query (ask i) n caps = (0, e, ans, x) \<and> complete ans \<and>
        ms_objs s' r = Some (mk_connector x (map fst ans) qs) \<and> returned qs ans (ms_arrays s') \<and>
        drmModeFreeConnector r s' = Some (s'\<lparr>ms_arrays := ms_arrays s, ms_objs := ms_objs s\<rparr>)))"
  unfolding drmModeGetConnector_def by (rule connector.get_release [OF assms])

lemma get_plane_release:
  assumes "mode_env_ok env" "query_ok (ask i) [(4, Num 0)]" "settles (ask i) N"
  shows "\<exists>r s'. drmModeGetPlane env ask i s = Some (r, s') \<and>
    (r = NULL \<longrightarrow> ms_arrays s' = ms_arrays s \<and> ms_objs s' = ms_objs s) \<and>
    (r \<noteq> NULL \<longrightarrow> (\<exists>n caps e ans x qs. ask i n caps = (0, e, ans, x) \<and> complete ans \<and>
        ms_objs s' r = Some (mk_plane x (map fst ans) qs) \<and> returned qs ans (ms_arrays s') \<and>
        drmModeFreePlane r s' = Some (s'\<lparr>ms_arrays := ms_arrays s, ms_objs := ms_objs s\<rparr>)))"
  unfolding drmModeGetPlane_def by (rule plane.get_release [OF assms])

lemma get_plane_resources_release:
  assumes "mode_env_ok env" "query_ok ask [(4, Num 0)]" "settles ask N"
  shows "\<exists>r s'. drmModeGetPlaneResources env ask s = Some (r, s') \<and>
    (r = NULL \<longrightarrow> ms_arrays s' = ms_arrays s \<and> ms_objs s' = ms_objs s) \<and>
    (r \<noteq> NULL \<longrightarrow> (\<exists>n caps e ans x qs. ask n caps = (0, e, ans, x) \<and> complete ans \<and>
        ms_objs s' r = Some (mk_plane_res x (map fst ans) qs) \<and> returned qs ans (ms_arrays s') \<and>
        drmModeFreePlaneResources r s' = Some (s'\<lparr>ms_arrays := ms_arrays s, ms_objs := ms_objs s\<rparr>)))"
  unfolding drmModeGetPlaneResources_def by (rule plane_res.get_release [OF assms])

lemma get_properties_release:
  assumes "mode_env_ok env" "query_ok (object_query (ask i t)) [(4, Num 0), (8, Num 0)]" "settles (object_query (ask i t)) N"
  shows "\<exists>r s'. drmModeObjectGetProperties env ask i t s = Some (r, s') \<and>
    (r = NULL \<longrightarrow> ms_arrays s' = ms_arrays s \<and> ms_objs s' = ms_objs s) \<and>
    (r \<noteq> NULL \<longrightarrow> (\<exists>n caps e ans x qs. object_query (ask i t) n caps = (0, e, ans, x) \<and> complete ans \<and>
        ms_objs s' r = Some (mk_properties x (map fst ans) qs) \<and> returned qs ans (ms_arrays s') \<and>
        drmModeFreeObjectProperties r s' = Some (s'\<lparr>ms_arrays := ms_arrays s, ms_objs := ms_objs s\<rparr>)))"
  unfolding drmModeObjectGetProperties_def by (rule properties.get_release [OF assms])

text \<open>A blob that grows between the two requests is read past the end of its array.\<close>

lemma blob_grows:
  "drmModeGetPropertyBlob ex_mode_env (\<lambda>_ n cap mem. (0, 0, if n = 0 then 4 else 8, [])) i ex_mode_state = None"
proof -
  have u: "[Suc 0..<100] = 1 # 2 # [3..<100]" by (simp add: upt_conv_Cons del: upt_Suc)
  show ?thesis
    by (simp add: drmModeGetPropertyBlob_def drmIoctl.simps blob_ask_def ex_mode_env_def ex_mode_state_def drmMalloc_def first_free_def
        mtick_def drmAllocCpy_def u)
qed

end
