(* ===== verification/Drm_Event.thy ===== *)
theory Drm_Event
  imports C_Prelude
begin

text \<open>
  \<open>drmHandleEvent\<close> of \<open>xf86drmMode.c\<close>: the events the kernel wrote into a buffer one after the other are passed to the
  handlers of the program.
\<close>

section \<open>Bytes\<close>

type_synonym byte = "8 word"

text \<open>Numbers as a little-endian machine stores them.\<close>

definition bytes32 :: "u32 \<Rightarrow> byte list" where
  "bytes32 w = map (\<lambda>k. ucast (drop_bit (8 * k) w)) [0, 1, 2, 3]"

definition bytes64 :: "u64 \<Rightarrow> byte list" where
  "bytes64 w = bytes32 (ucast w) @ bytes32 (ucast (drop_bit 32 w))"

definition word32 :: "byte list \<Rightarrow> u32" where
  "word32 bs = (ucast (bs ! 0) OR push_bit 8 (ucast (bs ! 1))) OR (push_bit 16 (ucast (bs ! 2)) OR push_bit 24 (ucast (bs ! 3)))"

definition word64 :: "byte list \<Rightarrow> u64" where
  "word64 bs = ucast (word32 bs) OR push_bit 32 (ucast (word32 (drop 4 bs)))"

text \<open>A load at \<open>i\<close> must lie within the bytes that were read.\<close>

definition load32 :: "byte list \<Rightarrow> int \<Rightarrow> u32 option" where
  "load32 buf i = (if 0 \<le> i \<and> i + 4 \<le> int (length buf) then Some (word32 (drop (nat i) buf)) else None)"

definition load64 :: "byte list \<Rightarrow> int \<Rightarrow> u64 option" where
  "load64 buf i = (if 0 \<le> i \<and> i + 8 \<le> int (length buf) then Some (word64 (drop (nat i) buf)) else None)"

section \<open>Events\<close>

definition DRM_EVENT_VBLANK :: u32 where "DRM_EVENT_VBLANK = 1"
definition DRM_EVENT_FLIP_COMPLETE :: u32 where "DRM_EVENT_FLIP_COMPLETE = 2"

text \<open>Which handlers there are, and the calls they got: sequence, seconds, microseconds, user data.\<close>

record drmEventContext =
  ec_version :: int
  ec_vblank_handler :: bool
  ec_page_flip_handler :: bool

datatype event_call = VblankCall u32 u32 u32 u64 | FlipCall u32 u32 u32 u64

definition read_vblank :: "(u32 \<Rightarrow> u32 \<Rightarrow> u32 \<Rightarrow> u64 \<Rightarrow> event_call) \<Rightarrow> byte list \<Rightarrow> int \<Rightarrow> event_call option" where
  "read_vblank call buf i = do {
     user_data \<leftarrow> load64 buf (i + 8);
     tv_sec \<leftarrow> load32 buf (i + 16);
     tv_usec \<leftarrow> load32 buf (i + 20);
     sequence \<leftarrow> load32 buf (i + 24);
     Some (call sequence tv_sec tv_usec user_data)
   }"

text \<open>The calls for the event at \<open>i\<close>.\<close>

definition dispatch :: "drmEventContext \<Rightarrow> byte list \<Rightarrow> int \<Rightarrow> u32 \<Rightarrow> event_call list option" where
  "dispatch ctx buf i ty =
    (if ty = DRM_EVENT_VBLANK then
       if ec_version ctx < 1 \<or> \<not> ec_vblank_handler ctx then Some []
       else map_option (\<lambda>c. [c]) (read_vblank VblankCall buf i)
     else if ty = DRM_EVENT_FLIP_COMPLETE then
       if ec_version ctx < 2 \<or> \<not> ec_page_flip_handler ctx then Some []
       else map_option (\<lambda>c. [c]) (read_vblank FlipCall buf i)
     else Some [])"

text \<open>\<open>i += e->length\<close> adds an unsigned number to an \<open>int\<close>. A length of 0 keeps the loop at the same event.\<close>

partial_function (option) event_loop :: "drmEventContext \<Rightarrow> byte list \<Rightarrow> int \<Rightarrow> event_call list option" where
  "event_loop ctx buf i =
     (if i < int (length buf) then do {
        ty \<leftarrow> load32 buf i;
        len \<leftarrow> load32 buf (i + 4);
        cs \<leftarrow> dispatch ctx buf i ty;
        rest \<leftarrow> event_loop ctx buf (sint (of_int i + len));
        Some (cs @ rest)
      }
      else Some [])"

text \<open>
  \<open>len\<close> is what \<open>read\<close> returned, \<open>buf\<close> the bytes it read. The comparison with \<open>sizeof\<close> is unsigned: the \<open>-1\<close> of an error
  is not less.
\<close>

definition drmHandleEvent :: "drmEventContext \<Rightarrow> int \<Rightarrow> byte list \<Rightarrow> (int \<times> event_call list) option" where
  "drmHandleEvent ctx len buf =
    (if len = 0 then Some (0, [])
     else if (of_int len :: u64) < 8 then Some (-1, [])
     else if len < 0 then Some (0, [])
     else do { cs \<leftarrow> event_loop ctx buf 0; Some (0, cs) })"

section \<open>What the kernel writes\<close>

datatype devent =
    Vblank u64 u32 u32 u32 u32
  | FlipComplete u64 u32 u32 u32 u32
  | OtherEvent u32 "byte list"

fun event_bytes :: "devent \<Rightarrow> byte list" where
  "event_bytes (Vblank user sec usec seq res) =
     bytes32 DRM_EVENT_VBLANK @ bytes32 32 @ bytes64 user @ bytes32 sec @ bytes32 usec @ bytes32 seq @ bytes32 res"
| "event_bytes (FlipComplete user sec usec seq res) =
     bytes32 DRM_EVENT_FLIP_COMPLETE @ bytes32 32 @ bytes64 user @ bytes32 sec @ bytes32 usec @ bytes32 seq @ bytes32 res"
| "event_bytes (OtherEvent ty payload) = bytes32 ty @ bytes32 (of_nat (8 + length payload)) @ payload"

fun known :: "devent \<Rightarrow> bool" where
  "known (OtherEvent ty payload) = (ty \<noteq> DRM_EVENT_VBLANK \<and> ty \<noteq> DRM_EVENT_FLIP_COMPLETE)"
| "known _ = True"

fun event_calls :: "drmEventContext \<Rightarrow> devent \<Rightarrow> event_call list" where
  "event_calls ctx (Vblank user sec usec seq res) =
     (if 1 \<le> ec_version ctx \<and> ec_vblank_handler ctx then [VblankCall seq sec usec user] else [])"
| "event_calls ctx (FlipComplete user sec usec seq res) =
     (if 2 \<le> ec_version ctx \<and> ec_page_flip_handler ctx then [FlipCall seq sec usec user] else [])"
| "event_calls ctx (OtherEvent ty payload) = []"

section \<open>Reading back\<close>

lemma length_bytes [simp]: "length (bytes32 w) = 4" "length (bytes64 x) = 8"
  by (simp_all add: bytes32_def bytes64_def)

lemma word32_bytes [simp]: "word32 (bytes32 w @ bs) = w"
proof (rule bit_word_eqI)
  fix n assume "n < LENGTH(32)"
  then show "bit (word32 (bytes32 w @ bs)) n \<longleftrightarrow> bit w n"
    by (cases "24 \<le> n"; cases "16 \<le> n"; cases "8 \<le> n") (auto simp: word32_def bytes32_def bit_simps)
qed

lemma word64_bytes [simp]: "word64 (bytes64 w @ bs) = w"
proof -
  have "word64 (bytes64 w @ bs) = ucast (ucast w :: u32) OR push_bit 32 (ucast (ucast (drop_bit 32 w) :: u32))"
    by (simp add: word64_def bytes64_def)
  also have "\<dots> = w" by (rule bit_word_eqI) (auto simp: bit_simps)
  finally show ?thesis .
qed

lemma load32_at [simp]: "i = int (length pre) \<Longrightarrow> load32 (pre @ bytes32 w @ bs) i = Some w"
  by (simp add: load32_def)

lemma load64_at [simp]: "i = int (length pre) \<Longrightarrow> load64 (pre @ bytes64 w @ bs) i = Some w"
  by (simp add: load64_def)

text \<open>An event in the middle of a buffer.\<close>

lemma read_vblank_at:
  "read_vblank call (pre @ bytes32 ty @ bytes32 len @ bytes64 user @ bytes32 sec @ bytes32 usec @ bytes32 seq @ bytes32 res @ post) (int (length pre)) =
     Some (call seq sec usec user)"
proof -
  let ?buf = "pre @ bytes32 ty @ bytes32 len @ bytes64 user @ bytes32 sec @ bytes32 usec @ bytes32 seq @ bytes32 res @ post"
  have "load64 ?buf (int (length pre) + 8) = Some user"
    using load64_at [of _ "pre @ bytes32 ty @ bytes32 len" user] by simp
  moreover have "load32 ?buf (int (length pre) + 16) = Some sec"
    using load32_at [of _ "pre @ bytes32 ty @ bytes32 len @ bytes64 user" sec] by simp
  moreover have "load32 ?buf (int (length pre) + 20) = Some usec"
    using load32_at [of _ "pre @ bytes32 ty @ bytes32 len @ bytes64 user @ bytes32 sec" usec] by simp
  moreover have "load32 ?buf (int (length pre) + 24) = Some seq"
    using load32_at [of _ "pre @ bytes32 ty @ bytes32 len @ bytes64 user @ bytes32 sec @ bytes32 usec" seq] by simp
  ultimately show ?thesis by (simp add: read_vblank_def)
qed

fun event_type :: "devent \<Rightarrow> u32" where
  "event_type (Vblank _ _ _ _ _) = DRM_EVENT_VBLANK"
| "event_type (FlipComplete _ _ _ _ _) = DRM_EVENT_FLIP_COMPLETE"
| "event_type (OtherEvent ty _) = ty"

lemma event_header: "\<exists>rest. event_bytes e = bytes32 (event_type e) @ bytes32 (of_nat (length (event_bytes e))) @ rest"
  by (cases e) simp_all

lemma dispatch_at:
  assumes "known e"
  shows "dispatch ctx (pre @ event_bytes e @ post) (int (length pre)) (event_type e) = Some (event_calls ctx e)"
  using assms by (cases e) (auto simp: dispatch_def read_vblank_at DRM_EVENT_VBLANK_def DRM_EVENT_FLIP_COMPLETE_def)

lemma event_length: "8 \<le> length (event_bytes e)"
  by (cases e) simp_all

lemma event_loop_at:
  assumes "list_all known es" "length pre + length (concat (map event_bytes es)) < 2 ^ 31"
  shows "event_loop ctx (pre @ concat (map event_bytes es)) (int (length pre)) = Some (concat (map (event_calls ctx) es))"
  using assms
proof (induction es arbitrary: pre)
  case Nil
  then show ?case by (subst event_loop.simps) simp
next
  case (Cons e es)
  let ?post = "concat (map event_bytes es)"
  let ?buf = "pre @ event_bytes e @ ?post" and ?i = "int (length pre)" and ?n = "length (event_bytes e)"
  obtain rest where rest: "event_bytes e = bytes32 (event_type e) @ bytes32 (of_nat ?n) @ rest" using event_header by blast
  have ty: "load32 ?buf ?i = Some (event_type e)" by (subst rest) simp
  have len: "load32 ?buf (?i + 4) = Some (of_nat ?n)"
    using load32_at [of "?i + 4" "pre @ bytes32 (event_type e)" "of_nat ?n" "rest @ ?post"] by (subst rest) simp
  have "?i < int (length ?buf)" using event_length [of e] by simp
  moreover have "sint (of_int ?i + of_nat ?n :: u32) = int (length (pre @ event_bytes e))"
  proof -
    have "int (length pre + ?n) < 2 ^ 31" using Cons.prems(2) by simp
    then have "sint (of_int (int (length pre + ?n)) :: u32) = int (length pre + ?n)"
      by (simp only: signed_of_int) (simp add: signed_take_bit_int_eq_self)
    then show ?thesis by simp
  qed
  ultimately have "event_loop ctx ?buf ?i = do {
      rest \<leftarrow> event_loop ctx ?buf (int (length (pre @ event_bytes e))); Some (event_calls ctx e @ rest) }"
    using ty len dispatch_at [of e ctx pre ?post] Cons.prems(1) by (subst event_loop.simps) simp
  moreover have "event_loop ctx ((pre @ event_bytes e) @ ?post) (int (length (pre @ event_bytes e))) = Some (concat (map (event_calls ctx) es))"
    using Cons.prems by (intro Cons.IH) simp_all
  ultimately show ?case by simp
qed

section \<open>Theorems\<close>

text \<open>C16. Whatever complete events \<open>read\<close> returned, \<open>drmHandleEvent\<close> ends, stays within the buffer and calls the handlers the
  program has once for every event of their kind, in order and with its data; unknown events are skipped.\<close>

theorem handle_event_calls:
  assumes "list_all known es" "length (concat (map event_bytes es)) \<le> 1024"
  shows "drmHandleEvent ctx (int (length (concat (map event_bytes es)))) (concat (map event_bytes es)) =
    Some (0, concat (map (event_calls ctx) es))"
proof (cases es)
  case Nil
  then show ?thesis by (simp add: drmHandleEvent_def)
next
  case (Cons e es')
  let ?n = "length (concat (map event_bytes es))"
  have n: "8 \<le> ?n" using event_length [of e] by (simp add: Cons)
  have ne: "int ?n \<noteq> 0" "\<not> int ?n < 0" using n by linarith+
  have lt: "\<not> (of_int (int ?n) :: u64) < 8"
    using n assms(2) by (simp add: word_less_nat_alt unat_of_nat)
  have "event_loop ctx (concat (map event_bytes es)) 0 = Some (concat (map (event_calls ctx) es))"
    using event_loop_at [OF assms(1), of "[]" ctx] assms(2) by simp
  then show ?thesis unfolding drmHandleEvent_def if_not_P [OF ne(1)] if_not_P [OF lt] if_not_P [OF ne(2)] by simp
qed

theorem handle_event_calls_witness:
  "drmHandleEvent \<lparr>ec_version = 2, ec_vblank_handler = True, ec_page_flip_handler = True\<rparr>
     (int (length (concat (map event_bytes [Vblank 7 1 2 3 0, OtherEvent 9 [5]]))))
     (concat (map event_bytes [Vblank 7 1 2 3 0, OtherEvent 9 [5]])) = Some (0, [VblankCall 3 1 2 7])"
  using handle_event_calls [of "[Vblank 7 1 2 3 0, OtherEvent 9 [5]]" "\<lparr>ec_version = 2, ec_vblank_handler = True, ec_page_flip_handler = True\<rparr>"]
  by (simp add: DRM_EVENT_VBLANK_def DRM_EVENT_FLIP_COMPLETE_def)


end
