(* ===== verification/Intel_MM.thy ===== *)
theory Intel_MM
  imports C_Rings
begin

text \<open>
  The offset-range allocator of \<open>intel/mm.c\<close>, which the fake buffer manager carves its card
  memory with. A heap is a cell with two rings through it: all blocks in offset order, and the
  free blocks in any order. The model works on the heap of \<open>struct mem_block\<close>s with every
  load and store of the code; \<open>int\<close> arithmetic is checked with \<open>s32\<close>, so a signed overflow is
  the undefined value, as is a failed \<open>assert\<close>.
\<close>

section \<open>Model\<close>

record mem_block =
  mb_next :: addr
  mb_prev :: addr
  mb_next_free :: addr
  mb_prev_free :: addr
  mb_heap :: addr
  mb_ofs :: int
  mb_size :: int
  mb_free :: bool
  mb_reserved :: bool

type_synonym mheap = "mem_block heap"

text \<open>\<open>calloc\<close> clears the struct.\<close>

definition zero_block :: mem_block where
  "zero_block = \<lparr>mb_next = NULL, mb_prev = NULL, mb_next_free = NULL, mb_prev_free = NULL,
     mb_heap = NULL, mb_ofs = 0, mb_size = 0, mb_free = False, mb_reserved = False\<rparr>"

definition mmInit :: "mem_block allocator \<Rightarrow> mheap \<Rightarrow> int \<Rightarrow> int \<Rightarrow> (addr \<times> mheap) option" where
  "mmInit al s ofs sz =
    (if sz \<le> 0 then Some (NULL, s)
     else case al s of
       None \<Rightarrow> Some (NULL, s)
     | Some heap \<Rightarrow>
         (let s = s(heap \<mapsto> zero_block) in
          case al s of
            None \<Rightarrow> do { s \<leftarrow> dealloc s heap; Some (NULL, s) }
          | Some block \<Rightarrow> do {
              let s = s(block \<mapsto> zero_block);
              s \<leftarrow> wr s heap (\<lambda>b. b\<lparr>mb_next := block\<rparr>);
              s \<leftarrow> wr s heap (\<lambda>b. b\<lparr>mb_prev := block\<rparr>);
              s \<leftarrow> wr s heap (\<lambda>b. b\<lparr>mb_next_free := block\<rparr>);
              s \<leftarrow> wr s heap (\<lambda>b. b\<lparr>mb_prev_free := block\<rparr>);
              s \<leftarrow> wr s block (\<lambda>b. b\<lparr>mb_heap := heap\<rparr>);
              s \<leftarrow> wr s block (\<lambda>b. b\<lparr>mb_next := heap\<rparr>);
              s \<leftarrow> wr s block (\<lambda>b. b\<lparr>mb_prev := heap\<rparr>);
              s \<leftarrow> wr s block (\<lambda>b. b\<lparr>mb_next_free := heap\<rparr>);
              s \<leftarrow> wr s block (\<lambda>b. b\<lparr>mb_prev_free := heap\<rparr>);
              s \<leftarrow> wr s block (\<lambda>b. b\<lparr>mb_ofs := ofs\<rparr>);
              s \<leftarrow> wr s block (\<lambda>b. b\<lparr>mb_size := sz\<rparr>);
              s \<leftarrow> wr s block (\<lambda>b. b\<lparr>mb_free := True\<rparr>);
              Some (heap, s)
            }))"

text \<open>
  \<open>SliceBlock\<close>, part by part. Both ``break'' parts insert a new free block of offset \<open>ofs\<close> and
  size \<open>sz\<close> behind \<open>p\<close> in both rings, with the same assignments; \<open>NULL\<close> is the early return.
\<close>

definition insert_block :: "mheap \<Rightarrow> addr \<Rightarrow> addr \<Rightarrow> int \<Rightarrow> int \<Rightarrow> mheap option" where
  "insert_block s newblock p ofs sz = do {
     let s = s(newblock \<mapsto> zero_block);
     s \<leftarrow> wr s newblock (\<lambda>b. b\<lparr>mb_ofs := ofs\<rparr>);
     s \<leftarrow> wr s newblock (\<lambda>b. b\<lparr>mb_size := sz\<rparr>);
     s \<leftarrow> wr s newblock (\<lambda>b. b\<lparr>mb_free := True\<rparr>);
     h \<leftarrow> ld s p mb_heap;
     s \<leftarrow> wr s newblock (\<lambda>b. b\<lparr>mb_heap := h\<rparr>);

     n \<leftarrow> ld s p mb_next;
     s \<leftarrow> wr s newblock (\<lambda>b. b\<lparr>mb_next := n\<rparr>);
     s \<leftarrow> wr s newblock (\<lambda>b. b\<lparr>mb_prev := p\<rparr>);
     n \<leftarrow> ld s p mb_next;
     s \<leftarrow> wr s n (\<lambda>b. b\<lparr>mb_prev := newblock\<rparr>);
     s \<leftarrow> wr s p (\<lambda>b. b\<lparr>mb_next := newblock\<rparr>);

     n \<leftarrow> ld s p mb_next_free;
     s \<leftarrow> wr s newblock (\<lambda>b. b\<lparr>mb_next_free := n\<rparr>);
     s \<leftarrow> wr s newblock (\<lambda>b. b\<lparr>mb_prev_free := p\<rparr>);
     n \<leftarrow> ld s p mb_next_free;
     s \<leftarrow> wr s n (\<lambda>b. b\<lparr>mb_prev_free := newblock\<rparr>);
     wr s p (\<lambda>b. b\<lparr>mb_next_free := newblock\<rparr>)
   }"

definition break_left :: "mem_block allocator \<Rightarrow> mheap \<Rightarrow> addr \<Rightarrow> int \<Rightarrow> (addr \<times> mheap) option" where
  "break_left al s p startofs = do {
     pofs \<leftarrow> ld s p mb_ofs;
     if startofs > pofs then
       (case al s of
          None \<Rightarrow> Some (NULL, s)
        | Some newblock \<Rightarrow> do {
            psize \<leftarrow> ld s p mb_size;
            d \<leftarrow> s32 (startofs - pofs);
            nsize \<leftarrow> s32 (psize - d);
            s \<leftarrow> insert_block s newblock p startofs nsize;
            psize' \<leftarrow> s32 (psize - nsize);
            s \<leftarrow> wr s p (\<lambda>b. b\<lparr>mb_size := psize'\<rparr>);
            Some (newblock, s)
          })
     else Some (p, s)
   }"

definition break_right ::
  "mem_block allocator \<Rightarrow> mheap \<Rightarrow> addr \<Rightarrow> int \<Rightarrow> int \<Rightarrow> (addr \<times> mheap) option" where
  "break_right al s p startofs sz = do {
     psize \<leftarrow> ld s p mb_size;
     if sz < psize then
       (case al s of
          None \<Rightarrow> Some (NULL, s)
        | Some newblock \<Rightarrow> do {
            nofs \<leftarrow> s32 (startofs + sz);
            nsize \<leftarrow> s32 (psize - sz);
            s \<leftarrow> insert_block s newblock p nofs nsize;
            s \<leftarrow> wr s p (\<lambda>b. b\<lparr>mb_size := sz\<rparr>);
            Some (p, s)
          })
     else Some (p, s)
   }"

definition take_middle :: "mheap \<Rightarrow> addr \<Rightarrow> int \<Rightarrow> mheap option" where
  "take_middle s p reserved = do {
     s \<leftarrow> wr s p (\<lambda>b. b\<lparr>mb_free := False\<rparr>);
     n \<leftarrow> ld s p mb_next_free;
     q \<leftarrow> ld s p mb_prev_free;
     s \<leftarrow> wr s n (\<lambda>b. b\<lparr>mb_prev_free := q\<rparr>);
     q \<leftarrow> ld s p mb_prev_free;
     n \<leftarrow> ld s p mb_next_free;
     s \<leftarrow> wr s q (\<lambda>b. b\<lparr>mb_next_free := n\<rparr>);
     s \<leftarrow> wr s p (\<lambda>b. b\<lparr>mb_next_free := NULL\<rparr>);
     s \<leftarrow> wr s p (\<lambda>b. b\<lparr>mb_prev_free := NULL\<rparr>);
     wr s p (\<lambda>b. b\<lparr>mb_reserved := odd reserved\<rparr>)
   }"

definition SliceBlock ::
  "mem_block allocator \<Rightarrow> mheap \<Rightarrow> addr \<Rightarrow> int \<Rightarrow> int \<Rightarrow> int \<Rightarrow> int \<Rightarrow> (addr \<times> mheap) option" where
  "SliceBlock al s p startofs sz reserved alignment = do {
     (p, s) \<leftarrow> break_left al s p startofs;
     if p = NULL then Some (NULL, s)
     else do {
       (p, s) \<leftarrow> break_right al s p startofs sz;
       if p = NULL then Some (NULL, s)
       else do {
         s \<leftarrow> take_middle s p reserved;
         Some (p, s)
       }
     }
   }"

text \<open>The first-fit search of \<open>mmAllocMem\<close>: the block found and the offset to use in it, or
  the heap cell itself.\<close>

partial_function (option) alloc_search ::
  "mheap \<Rightarrow> addr \<Rightarrow> int \<Rightarrow> int \<Rightarrow> int \<Rightarrow> addr \<Rightarrow> (addr \<times> int) option" where
  "alloc_search s heap sz msk startSearch p =
    (if p = heap then Some (p, 0)
     else do {
       fr \<leftarrow> ld s p mb_free;
       c_assert fr;
       pofs \<leftarrow> ld s p mb_ofs;
       psize \<leftarrow> ld s p mb_size;
       t \<leftarrow> s32 (pofs + msk);
       let startofs = t AND NOT msk;
       let startofs = (if startofs < startSearch then startSearch else startofs);
       endofs \<leftarrow> s32 (startofs + sz);
       lim \<leftarrow> s32 (pofs + psize);
       if endofs \<le> lim then Some (p, startofs)
       else do {
         n \<leftarrow> ld s p mb_next_free;
         alloc_search s heap sz msk startSearch n
       }
     })"

definition mmAllocMem ::
  "mem_block allocator \<Rightarrow> mheap \<Rightarrow> addr \<Rightarrow> int \<Rightarrow> int \<Rightarrow> int \<Rightarrow> (addr \<times> mheap) option" where
  "mmAllocMem al s heap sz align2 startSearch = do {
     c_assert (0 \<le> align2 \<and> align2 < 32);
     sh \<leftarrow> s32 (2 ^ nat align2);
     msk \<leftarrow> s32 (sh - 1);
     if heap = NULL \<or> align2 < 0 \<or> sz \<le> 0 then Some (NULL, s)
     else do {
       p \<leftarrow> ld s heap mb_next_free;
       (p, startofs) \<leftarrow> alloc_search s heap sz msk startSearch p;
       if p = heap then Some (NULL, s)
       else do {
         fr \<leftarrow> ld s p mb_free;
         c_assert fr;
         al1 \<leftarrow> s32 (msk + 1);
         SliceBlock al s p startofs sz 0 al1
       }
     }
   }"

partial_function (option) find_block_loop :: "mheap \<Rightarrow> addr \<Rightarrow> int \<Rightarrow> addr \<Rightarrow> addr option" where
  "find_block_loop s heap start p =
    (if p = heap then Some NULL
     else do {
       pofs \<leftarrow> ld s p mb_ofs;
       if pofs = start then Some p
       else do {
         n \<leftarrow> ld s p mb_next;
         find_block_loop s heap start n
       }
     })"

definition mmFindBlock :: "mheap \<Rightarrow> addr \<Rightarrow> int \<Rightarrow> addr option" where
  "mmFindBlock s heap start = do {
     p \<leftarrow> ld s heap mb_next;
     find_block_loop s heap start p
   }"

definition Join2Blocks :: "mheap \<Rightarrow> addr \<Rightarrow> (int \<times> mheap) option" where
  "Join2Blocks s p = do {
     pfree \<leftarrow> ld s p mb_free;
     nfree \<leftarrow> (if pfree then do { n \<leftarrow> ld s p mb_next; ld s n mb_free } else Some False);
     if pfree \<and> nfree then do {
       q \<leftarrow> ld s p mb_next;
       pofs \<leftarrow> ld s p mb_ofs;
       psize \<leftarrow> ld s p mb_size;
       qofs \<leftarrow> ld s q mb_ofs;
       e \<leftarrow> s32 (pofs + psize);
       c_assert (e = qofs);
       qsize \<leftarrow> ld s q mb_size;
       z \<leftarrow> s32 (psize + qsize);
       s \<leftarrow> wr s p (\<lambda>b. b\<lparr>mb_size := z\<rparr>);

       qn \<leftarrow> ld s q mb_next;
       s \<leftarrow> wr s p (\<lambda>b. b\<lparr>mb_next := qn\<rparr>);
       qn \<leftarrow> ld s q mb_next;
       s \<leftarrow> wr s qn (\<lambda>b. b\<lparr>mb_prev := p\<rparr>);

       nf \<leftarrow> ld s q mb_next_free;
       pf \<leftarrow> ld s q mb_prev_free;
       s \<leftarrow> wr s nf (\<lambda>b. b\<lparr>mb_prev_free := pf\<rparr>);
       pf \<leftarrow> ld s q mb_prev_free;
       nf \<leftarrow> ld s q mb_next_free;
       s \<leftarrow> wr s pf (\<lambda>b. b\<lparr>mb_next_free := nf\<rparr>);

       s \<leftarrow> dealloc s q;
       Some (1, s)
     }
     else Some (0, s)
   }"

definition mmFreeMem :: "mheap \<Rightarrow> addr \<Rightarrow> (int \<times> mheap) option" where
  "mmFreeMem s b =
    (if b = NULL then Some (0, s)
     else do {
       fr \<leftarrow> ld s b mb_free;
       if fr then Some (- 1, s)
       else do {
         rv \<leftarrow> ld s b mb_reserved;
         if rv then Some (- 1, s)
         else do {
           s \<leftarrow> wr s b (\<lambda>c. c\<lparr>mb_free := True\<rparr>);
           h \<leftarrow> ld s b mb_heap;
           hn \<leftarrow> ld s h mb_next_free;
           s \<leftarrow> wr s b (\<lambda>c. c\<lparr>mb_next_free := hn\<rparr>);
           h \<leftarrow> ld s b mb_heap;
           s \<leftarrow> wr s b (\<lambda>c. c\<lparr>mb_prev_free := h\<rparr>);
           nf \<leftarrow> ld s b mb_next_free;
           s \<leftarrow> wr s nf (\<lambda>c. c\<lparr>mb_prev_free := b\<rparr>);
           pf \<leftarrow> ld s b mb_prev_free;
           s \<leftarrow> wr s pf (\<lambda>c. c\<lparr>mb_next_free := b\<rparr>);

           (_, s) \<leftarrow> Join2Blocks s b;
           pb \<leftarrow> ld s b mb_prev;
           h \<leftarrow> ld s b mb_heap;
           if pb \<noteq> h then do {
             (_, s) \<leftarrow> Join2Blocks s pb;
             Some (0, s)
           }
           else Some (0, s)
         }
       }
     })"

partial_function (option) destroy_loop :: "mheap \<Rightarrow> addr \<Rightarrow> addr \<Rightarrow> mheap option" where
  "destroy_loop s heap p =
    (if p = heap then Some s
     else do {
       n \<leftarrow> ld s p mb_next;
       s \<leftarrow> dealloc s p;
       destroy_loop s heap n
     })"

definition mmDestroy :: "mheap \<Rightarrow> addr \<Rightarrow> mheap option" where
  "mmDestroy s heap =
    (if heap = NULL then Some s
     else do {
       p \<leftarrow> ld s heap mb_next;
       s \<leftarrow> destroy_loop s heap p;
       dealloc s heap
     })"

section \<open>Representation\<close>

text \<open>\<open>tiled o z lo bs hi\<close>: the blocks \<open>bs\<close>, in order, tile the interval \<open>[lo, hi)\<close>.\<close>

primrec tiled :: "(addr \<Rightarrow> int) \<Rightarrow> (addr \<Rightarrow> int) \<Rightarrow> int \<Rightarrow> addr list \<Rightarrow> int \<Rightarrow> bool" where
  "tiled ofs sz lo [] hi \<longleftrightarrow> lo = hi"
| "tiled ofs sz lo (b # bs) hi \<longleftrightarrow> ofs b = lo \<and> 0 < sz b \<and> tiled ofs sz (lo + sz b) bs hi"

definition mm_rep :: "mheap \<Rightarrow> addr \<Rightarrow> int \<Rightarrow> int \<Rightarrow> addr list \<Rightarrow> addr list \<Rightarrow> bool" where
  "mm_rep s h lo hi bs fs \<longleftrightarrow>
     NULL \<notin> set (h # bs) \<and> set (h # bs) \<subseteq> dom s \<and>
     ring (fld mb_next s) (fld mb_prev s) h bs \<and>
     ring (fld mb_next_free s) (fld mb_prev_free s) h fs \<and>
     set fs = {b \<in> set bs. fld mb_free s b} \<and> \<not> fld mb_free s h \<and>
     (\<forall>b \<in> set bs. fld mb_heap s b = h \<and> \<not> fld mb_reserved s b) \<and>
     tiled (fld mb_ofs s) (fld mb_size s) lo bs hi \<and>
     in_s32 lo \<and> in_s32 hi \<and> in_s32 (hi - lo)"

text \<open>The allocations outstanding: block, offset and size.\<close>

definition mm_used :: "mheap \<Rightarrow> addr list \<Rightarrow> (addr \<times> int \<times> int) set" where
  "mm_used s bs = (\<lambda>b. (b, fld mb_ofs s b, fld mb_size s b)) ` {b \<in> set bs. \<not> fld mb_free s b}"

text \<open>No two neighbouring blocks are both free.\<close>

definition coalesced :: "mheap \<Rightarrow> addr list \<Rightarrow> bool" where
  "coalesced s bs \<longleftrightarrow> successively (\<lambda>a b. \<not> (fld mb_free s a \<and> fld mb_free s b)) bs"

section \<open>Tilings\<close>

lemma tiled_append:
  "tiled ofs sz lo (xs @ ys) hi \<longleftrightarrow> (\<exists>mid. tiled ofs sz lo xs mid \<and> tiled ofs sz mid ys hi)"
  by (induction xs arbitrary: lo) auto

lemma tiled_cong:
  "(\<And>b. b \<in> set bs \<Longrightarrow> ofs b = ofs' b \<and> sz b = sz' b) \<Longrightarrow>
   tiled ofs sz lo bs hi \<longleftrightarrow> tiled ofs' sz' lo bs hi"
  by (induction bs arbitrary: lo) auto

lemma tiled_upd [simp]:
  "b \<notin> set bs \<Longrightarrow> tiled (ofs(b := x)) sz lo bs hi \<longleftrightarrow> tiled ofs sz lo bs hi"
  "b \<notin> set bs \<Longrightarrow> tiled ofs (sz(b := x)) lo bs hi \<longleftrightarrow> tiled ofs sz lo bs hi"
  by (rule tiled_cong; auto)+

lemma tiled_mid:
  "tiled ofs sz lo (xs @ b # ys) hi \<longleftrightarrow>
   tiled ofs sz lo xs (ofs b) \<and> 0 < sz b \<and> tiled ofs sz (ofs b + sz b) ys hi"
  by (auto simp: tiled_append)

lemma tiled_le: "tiled ofs sz lo bs hi \<Longrightarrow> lo \<le> hi"
  by (induction bs arbitrary: lo) fastforce+

lemma tiled_bounds:
  "tiled ofs sz lo bs hi \<Longrightarrow> b \<in> set bs \<Longrightarrow> lo \<le> ofs b \<and> 0 < sz b \<and> ofs b + sz b \<le> hi"
  by (auto simp: in_set_conv_decomp tiled_mid dest: tiled_le)

lemma tiled_disjoint:
  assumes "tiled ofs sz lo bs hi" "distinct bs" "a \<in> set bs" "b \<in> set bs" "a \<noteq> b"
  shows "ofs a + sz a \<le> ofs b \<or> ofs b + sz b \<le> ofs a"
proof -
  obtain xs ys where bs: "bs = xs @ a # ys" using assms(3) by (auto simp: in_set_conv_decomp)
  then have t: "tiled ofs sz lo xs (ofs a)" "tiled ofs sz (ofs a + sz a) ys hi"
    using assms(1) by (auto simp: tiled_mid)
  have "b \<in> set xs \<or> b \<in> set ys" using assms bs by auto
  then show ?thesis using tiled_bounds [OF t(1)] tiled_bounds [OF t(2)] by auto
qed

section \<open>Splitting a block\<close>

text \<open>The stores of \<open>insert_block\<close>, seen field by field.\<close>

lemma insert_block_eff:
  assumes "p \<in> dom s" "n \<notin> dom s" "fld mb_next s p \<in> dom s" "fld mb_next_free s p \<in> dom s"
  shows "\<exists>s'. insert_block s n p z w = Some s' \<and> dom s' = insert n (dom s) \<and>
     fld mb_next s' = (fld mb_next s)(n := fld mb_next s p, p := n) \<and>
     fld mb_prev s' = (fld mb_prev s)(n := p, fld mb_next s p := n) \<and>
     fld mb_next_free s' = (fld mb_next_free s)(n := fld mb_next_free s p, p := n) \<and>
     fld mb_prev_free s' = (fld mb_prev_free s)(n := p, fld mb_next_free s p := n) \<and>
     fld mb_heap s' = (fld mb_heap s)(n := fld mb_heap s p) \<and>
     fld mb_ofs s' = (fld mb_ofs s)(n := z) \<and> fld mb_size s' = (fld mb_size s)(n := w) \<and>
     fld mb_free s' = (fld mb_free s)(n := True) \<and>
     fld mb_reserved s' = (fld mb_reserved s)(n := False)"
proof -
  have ne: "p \<noteq> n" "n \<noteq> p" "fld mb_next s p \<noteq> n" "fld mb_next_free s p \<noteq> n" using assms by auto
  show ?thesis
    using assms ne
    by (simp add: insert_block_def heap_simps zero_block_def fun_upd_twist)
qed

lemma mm_repD:
  assumes "mm_rep s h lo hi bs fs"
  shows "NULL \<notin> set (h # bs)" "set (h # bs) \<subseteq> dom s"
    "ring (fld mb_next s) (fld mb_prev s) h bs" "ring (fld mb_next_free s) (fld mb_prev_free s) h fs"
    "set fs = {b \<in> set bs. fld mb_free s b}" "\<not> fld mb_free s h"
    "\<And>b. b \<in> set bs \<Longrightarrow> fld mb_heap s b = h" "\<And>b. b \<in> set bs \<Longrightarrow> \<not> fld mb_reserved s b"
    "tiled (fld mb_ofs s) (fld mb_size s) lo bs hi" "in_s32 lo" "in_s32 hi"
    "distinct (h # bs)" "distinct (h # fs)" "set fs \<subseteq> set bs" "in_s32 (hi - lo)"
  using assms by (auto simp: mm_rep_def ring_def)

lemma mm_rep_dom:
  assumes "mm_rep s h lo hi bs fs"
  shows "b \<in> set (h # bs) \<Longrightarrow> b \<in> dom s"
    "b \<in> set (h # bs) \<Longrightarrow> fld mb_next s b \<in> set (h # bs)"
    "b \<in> set (h # bs) \<Longrightarrow> fld mb_prev s b \<in> set (h # bs)"
    "b \<in> set (h # fs) \<Longrightarrow> fld mb_next_free s b \<in> set (h # fs)"
    "b \<in> set (h # fs) \<Longrightarrow> fld mb_prev_free s b \<in> set (h # fs)"
  using mm_repD(2) [OF assms] ring_next_mem [OF mm_repD(3) [OF assms]]
    ring_prev_mem [OF mm_repD(3) [OF assms]] ring_next_mem [OF mm_repD(4) [OF assms]]
    ring_prev_mem [OF mm_repD(4) [OF assms]] by auto

lemma mm_rep_free_dom:
  assumes "mm_rep s h lo hi bs fs" "b \<in> set (h # fs)"
  shows "b \<in> dom s" "fld mb_next_free s b \<in> dom s" "fld mb_prev_free s b \<in> dom s"
  using mm_repD(2,14) [OF assms(1)] assms(2) mm_rep_dom(4,5) [OF assms] by auto

lemma mm_rep_bounds:
  assumes "mm_rep s h lo hi bs fs" "b \<in> set bs"
  shows "lo \<le> fld mb_ofs s b" "0 < fld mb_size s b" "fld mb_ofs s b + fld mb_size s b \<le> hi"
  using tiled_bounds [OF mm_repD(9) [OF assms(1)] assms(2)] by auto

lemma in_s32_between: "in_s32 a \<Longrightarrow> in_s32 c \<Longrightarrow> a \<le> b \<Longrightarrow> b \<le> c \<Longrightarrow> in_s32 b"
  by (auto simp: in_s32_def)

lemma mm_rep_size:
  assumes "mm_rep s h lo hi bs fs" "b \<in> set bs"
  shows "in_s32 (fld mb_size s b)" "in_s32 (fld mb_ofs s b)" "in_s32 (fld mb_ofs s b + fld mb_size s b)"
  using mm_rep_bounds [OF assms] mm_repD(10,11,15) [OF assms(1)] by (auto simp: in_s32_def)

lemma split_block:
  assumes r: "mm_rep s h lo hi (xs @ p # ys) (us @ p # vs)"
    and n: "n \<noteq> NULL" "n \<notin> dom s"
    and z: "fld mb_ofs s p < z" "z < fld mb_ofs s p + fld mb_size s p"
  shows "\<exists>s1 s2. insert_block s n p z (fld mb_ofs s p + fld mb_size s p - z) = Some s1 \<and>
     wr s1 p (\<lambda>b. b\<lparr>mb_size := z - fld mb_ofs s p\<rparr>) = Some s2 \<and>
     mm_rep s2 h lo hi (xs @ p # n # ys) (us @ p # n # vs) \<and> dom s2 = insert n (dom s) \<and>
     fld mb_ofs s2 = (fld mb_ofs s)(n := z) \<and>
     fld mb_size s2 = (fld mb_size s)(n := fld mb_ofs s p + fld mb_size s p - z, p := z - fld mb_ofs s p) \<and>
     fld mb_free s2 = (fld mb_free s)(n := True)"
proof -
  note d = mm_repD [OF r]
  have p: "p \<in> dom s" "p \<in> set (xs @ p # ys)" using d(2) by auto
  have nx: "fld mb_next s p \<in> dom s" "fld mb_next_free s p \<in> dom s"
    using mm_rep_dom(1,2) [OF r, of p] mm_rep_dom(1) [OF r] mm_rep_free_dom [OF r, of p] by auto
  have nn: "n \<notin> set (h # xs @ p # ys)" "n \<notin> set (h # us @ p # vs)" using n d(2,14) by auto
  then have ne: "p \<noteq> n" "n \<noteq> p" by auto
  have ri: "ring ((fld mb_next s)(n := fld mb_next s p, p := n))
      ((fld mb_prev s)(n := p, fld mb_next s p := n)) h (xs @ p # n # ys)"
    using ring_insert [of "fld mb_next s" "fld mb_prev s" h "xs @ [p]" ys n p] d(3) nn by simp
  have rf: "ring ((fld mb_next_free s)(n := fld mb_next_free s p, p := n))
      ((fld mb_prev_free s)(n := p, fld mb_next_free s p := n)) h (us @ p # n # vs)"
    using ring_insert [of "fld mb_next_free s" "fld mb_prev_free s" h "us @ [p]" vs n p] d(4) nn by simp
  have dist: "p \<notin> set xs" "p \<notin> set ys" "n \<notin> set xs" "n \<notin> set ys" using d(12) nn by auto
  have t: "tiled ((fld mb_ofs s)(n := z)) ((fld mb_size s)(n := fld mb_ofs s p + fld mb_size s p - z,
      p := z - fld mb_ofs s p)) lo (xs @ p # n # ys) hi"
    using d(9) z dist ne by (simp add: tiled_mid tiled_append [of _ _ _ "xs @ [p]", simplified])
  have fr: "set (us @ p # n # vs) =
      {b \<in> set (xs @ p # n # ys). ((fld mb_free s)(n := True)) b}"
    using d(5) nn by auto
  obtain s1 where s1: "insert_block s n p z (fld mb_ofs s p + fld mb_size s p - z) = Some s1"
    "dom s1 = insert n (dom s)"
    "fld mb_next s1 = (fld mb_next s)(n := fld mb_next s p, p := n)"
    "fld mb_prev s1 = (fld mb_prev s)(n := p, fld mb_next s p := n)"
    "fld mb_next_free s1 = (fld mb_next_free s)(n := fld mb_next_free s p, p := n)"
    "fld mb_prev_free s1 = (fld mb_prev_free s)(n := p, fld mb_next_free s p := n)"
    "fld mb_heap s1 = (fld mb_heap s)(n := fld mb_heap s p)"
    "fld mb_ofs s1 = (fld mb_ofs s)(n := z)"
    "fld mb_size s1 = (fld mb_size s)(n := fld mb_ofs s p + fld mb_size s p - z)"
    "fld mb_free s1 = (fld mb_free s)(n := True)"
    "fld mb_reserved s1 = (fld mb_reserved s)(n := False)"
    using insert_block_eff [OF p(1) n(2) nx] by metis
  have p1: "p \<in> dom s1" using p s1 by simp
  have "mm_rep (setf s1 p (\<lambda>b. b\<lparr>mb_size := z - fld mb_ofs s p\<rparr>)) h lo hi
      (xs @ p # n # ys) (us @ p # n # vs)"
    unfolding mm_rep_def using p1 s1 ri rf t fr d n nn
    by (simp add: heap_simps) blast
  then show ?thesis using p1 s1 by (simp add: heap_simps)
qed

lemma mm_used_split:
  assumes "fld mb_ofs s' = (fld mb_ofs s)(n := z)" "fld mb_free s' = (fld mb_free s)(n := True)"
    "fld mb_size s' = (fld mb_size s)(n := w, p := v)" "fld mb_free s p" "n \<notin> set (xs @ p # ys)"
  shows "mm_used s' (xs @ p # n # ys) = mm_used s (xs @ p # ys)"
proof -
  have "{b \<in> set (xs @ p # n # ys). \<not> fld mb_free s' b} = {b \<in> set (xs @ p # ys). \<not> fld mb_free s b}"
    using assms by auto
  then show ?thesis unfolding mm_used_def using assms by (intro image_cong) auto
qed

lemma break_left_rep:
  assumes al: "fresh_alloc al" and r: "mm_rep s h lo hi (xs @ p # ys) (us @ p # vs)"
    and st: "fld mb_ofs s p \<le> st" "st < fld mb_ofs s p + fld mb_size s p"
  shows "break_left al s p st = Some (NULL, s) \<and> al s = None \<or>
    (\<exists>q s' L us'. break_left al s p st = Some (q, s') \<and> q \<noteq> NULL \<and>
       mm_rep s' h lo hi (xs @ L @ q # ys) (us' @ q # vs) \<and> length L \<le> 1 \<and>
       dom s \<subseteq> dom s' \<and> finite (dom s' - dom s) \<and> fld mb_ofs s' q = st \<and> fld mb_size s' q = fld mb_ofs s p + fld mb_size s p - st \<and>
       mm_used s' (xs @ L @ q # ys) = mm_used s (xs @ p # ys) \<and>
       (\<forall>b \<in> set (xs @ ys). fld mb_free s' b = fld mb_free s b))"
proof (cases "st = fld mb_ofs s p")
  case True
  have "p \<in> dom s" "p \<noteq> NULL" using mm_repD(1,2) [OF r] by auto
  with True r have "break_left al s p st = Some (p, s) \<and> p \<noteq> NULL \<and>
      mm_rep s h lo hi (xs @ [] @ p # ys) (us @ p # vs)"
    by (simp add: break_left_def heap_simps)
  with True show ?thesis
    by (intro disjI2 exI [of _ p] exI [of _ s] exI [of _ "[]"] exI [of _ us]) simp
next
  case False
  have p: "p \<in> dom s" "p \<noteq> NULL" "fld mb_free s p" using mm_repD(1,2,5) [OF r] by auto
  have z: "fld mb_ofs s p < st" using st False by simp
  show ?thesis
  proof (cases "al s")
    case None
    then show ?thesis using p z by (simp add: break_left_def heap_simps)
  next
    case (Some n)
    then have n: "n \<noteq> NULL" "n \<notin> dom s" using fresh_allocD [OF al Some] by auto
    from split_block [OF r n z st(2)] obtain s1 s2 where s2:
      "insert_block s n p st (fld mb_ofs s p + fld mb_size s p - st) = Some s1"
      "wr s1 p (\<lambda>b. b\<lparr>mb_size := st - fld mb_ofs s p\<rparr>) = Some s2"
      "mm_rep s2 h lo hi (xs @ p # n # ys) (us @ p # n # vs)"
      "fld mb_ofs s2 = (fld mb_ofs s)(n := st)"
      "fld mb_size s2 = (fld mb_size s)(n := fld mb_ofs s p + fld mb_size s p - st, p := st - fld mb_ofs s p)"
      "fld mb_free s2 = (fld mb_free s)(n := True)" "dom s2 = insert n (dom s)" by blast
    have nn: "n \<notin> set (xs @ p # ys)" using n(2) mm_repD(2) [OF r] by auto
    have b: "in_s32 (st - fld mb_ofs s p)" "in_s32 (fld mb_size s p - (st - fld mb_ofs s p))"
      using mm_rep_size [OF r, of p] st by (auto simp: in_s32_def)
    have "break_left al s p st = Some (n, s2)"
      using Some p z s2(1,2) b by (simp add: break_left_def heap_simps algebra_simps)
    moreover have "mm_used s2 (xs @ p # n # ys) = mm_used s (xs @ p # ys)"
      using mm_used_split [OF s2(4,6,5) p(3) nn] .
    ultimately show ?thesis
      using n s2 nn
      by (intro disjI2 exI [of _ n] exI [of _ s2] exI [of _ "[p]"] exI [of _ "us @ [p]"])
        (simp add: Diff_insert0 insert_Diff_if, blast)
  qed
qed

lemma break_right_rep:
  assumes al: "fresh_alloc al" and r: "mm_rep s h lo hi (xs @ p # ys) (us @ p # vs)"
    and sz: "0 < sz" "sz \<le> fld mb_size s p"
  shows "break_right al s p (fld mb_ofs s p) sz = Some (NULL, s) \<and> al s = None \<or>
    (\<exists>s' R vs'. break_right al s p (fld mb_ofs s p) sz = Some (p, s') \<and>
       mm_rep s' h lo hi (xs @ p # R @ ys) (us @ p # vs') \<and> length R \<le> 1 \<and>
       fld mb_ofs s' p = fld mb_ofs s p \<and> fld mb_size s' p = sz \<and>
       mm_used s' (xs @ p # R @ ys) = mm_used s (xs @ p # ys) \<and>
       (\<forall>b \<in> set (xs @ ys). fld mb_free s' b = fld mb_free s b))"
proof (cases "sz = fld mb_size s p")
  case True
  have "p \<in> dom s" using mm_repD(2) [OF r] by auto
  with True r show ?thesis
    by (intro disjI2 exI [of _ s] exI [of _ "[]"] exI [of _ vs]) (simp add: break_right_def heap_simps)
next
  case False
  have p: "p \<in> dom s" "fld mb_free s p" using mm_repD(2,5) [OF r] by auto
  let ?z = "fld mb_ofs s p + sz"
  have lt: "sz < fld mb_size s p" using False sz by simp
  have z: "fld mb_ofs s p < ?z" "?z < fld mb_ofs s p + fld mb_size s p" using lt sz by auto
  show ?thesis
  proof (cases "al s")
    case None
    then show ?thesis using p lt by (simp add: break_right_def heap_simps)
  next
    case (Some n)
    then have n: "n \<noteq> NULL" "n \<notin> dom s" using fresh_allocD [OF al Some] by auto
    from split_block [OF r n z] obtain s1 s2 where s2:
      "insert_block s n p ?z (fld mb_size s p - sz) = Some s1"
      "wr s1 p (\<lambda>b. b\<lparr>mb_size := sz\<rparr>) = Some s2"
      "mm_rep s2 h lo hi (xs @ p # n # ys) (us @ p # n # vs)"
      "fld mb_ofs s2 = (fld mb_ofs s)(n := ?z)"
      "fld mb_size s2 = (fld mb_size s)(n := fld mb_size s p - sz, p := sz)"
      "fld mb_free s2 = (fld mb_free s)(n := True)" by auto
    have nn: "n \<notin> set (xs @ p # ys)" using n(2) mm_repD(2) [OF r] by auto
    have b: "in_s32 ?z" "in_s32 (fld mb_size s p - sz)"
      using mm_rep_size [OF r, of p] sz by (auto simp: in_s32_def)
    have "break_right al s p (fld mb_ofs s p) sz = Some (p, s2)"
      using Some p lt s2(1,2) b by (simp add: break_right_def heap_simps)
    moreover have "mm_used s2 (xs @ p # n # ys) = mm_used s (xs @ p # ys)"
      using mm_used_split [OF s2(4,6,5) p(2) nn] .
    ultimately show ?thesis
      using n s2 nn
      by (intro disjI2 exI [of _ s2] exI [of _ "[n]"] exI [of _ "n # vs"]) auto
  qed
qed

lemma take_middle_rep:
  assumes r: "mm_rep s h lo hi (xs @ p # ys) (us @ p # vs)"
  shows "\<exists>s'. take_middle s p 0 = Some s' \<and> mm_rep s' h lo hi (xs @ p # ys) (us @ vs) \<and>
     fld mb_ofs s' = fld mb_ofs s \<and> fld mb_size s' = fld mb_size s \<and>
     fld mb_free s' = (fld mb_free s)(p := False)"
proof -
  note d = mm_repD [OF r]
  have p: "p \<in> dom s" "p \<noteq> h" using d(2,12) by auto
  have dm: "fld mb_next_free s p \<in> dom s" "fld mb_prev_free s p \<in> dom s"
    using mm_rep_free_dom [OF r, of p] by auto
  have np: "p \<notin> set (h # us @ vs)" using d(13) by auto
  have ne: "fld mb_next_free s p \<noteq> p" "fld mb_prev_free s p \<noteq> p"
    using ring_no_self [OF d(4)] by auto
  let ?nx = "(fld mb_next_free s)(fld mb_prev_free s p := fld mb_next_free s p)"
  let ?pv = "(fld mb_prev_free s)(fld mb_next_free s p := fld mb_prev_free s p)"
  have rg: "ring (?nx(p := NULL)) (?pv(p := NULL)) h (us @ vs)"
    using ring_remove [OF d(4)] np by (subst ring_cong [where nx' = ?nx and pv' = ?pv]) auto
  have fs: "set (us @ vs) = {b \<in> set (xs @ p # ys). ((fld mb_free s)(p := False)) b}"
    using d(5) np by auto
  show ?thesis
    using p dm ne rg fs d by (simp add: take_middle_def heap_simps mm_rep_def)
qed

section \<open>Allocation\<close>

lemma mm_used_take:
  assumes "fld mb_ofs s' = fld mb_ofs s" "fld mb_size s' = fld mb_size s"
    "fld mb_free s' = (fld mb_free s)(p := False)" "fld mb_free s p" "p \<in> set bs"
  shows "mm_used s' bs = insert (p, fld mb_ofs s p, fld mb_size s p) (mm_used s bs)"
proof -
  have "{b \<in> set bs. \<not> fld mb_free s' b} = insert p {b \<in> set bs. \<not> fld mb_free s b}"
    using assms by auto
  then show ?thesis unfolding mm_used_def using assms(1,2) by simp
qed

text \<open>The allocator runs out of memory at \<open>s\<close> or after finitely many more blocks.\<close>

definition alloc_fails :: "mem_block allocator \<Rightarrow> mheap \<Rightarrow> bool" where
  "alloc_fails al s \<longleftrightarrow> (\<exists>t. dom s \<subseteq> dom t \<and> finite (dom t - dom s) \<and> al t = None)"

lemma alloc_failsI: "al s = None \<Longrightarrow> alloc_fails al s"
  "al t = None \<Longrightarrow> dom s \<subseteq> dom t \<Longrightarrow> finite (dom t - dom s) \<Longrightarrow> alloc_fails al s"
  by (auto simp: alloc_fails_def intro: exI [of _ s])

lemma coalesced_ends:
  assumes "coalesced s (xs @ p # ys)" "fld mb_free s p"
  shows "coalesced s xs" "coalesced s ys" "xs \<noteq> [] \<Longrightarrow> \<not> fld mb_free s (last xs)"
    "ys \<noteq> [] \<Longrightarrow> \<not> fld mb_free s (hd ys)"
  using assms by (auto simp: coalesced_def successively_append_iff successively_Cons)

lemma coalesced_cong:
  "(\<And>b. b \<in> set bs \<Longrightarrow> fld mb_free s b = fld mb_free s' b) \<Longrightarrow> coalesced s bs \<longleftrightarrow> coalesced s' bs"
  unfolding coalesced_def by (rule successively_cong) auto

lemma coalesced_slice:
  assumes c: "coalesced s (xs @ p # ys)" "fld mb_free s p"
    and f: "\<And>b. b \<in> set (xs @ ys) \<Longrightarrow> fld mb_free s' b = fld mb_free s b"
    and q: "\<not> fld mb_free s' q" and len: "length L \<le> 1" "length R \<le> 1"
  shows "coalesced s' (xs @ L @ q # R @ ys)"
proof -
  note e = coalesced_ends [OF c]
  have xy: "coalesced s' xs" "coalesced s' ys"
    using e(1,2) f coalesced_cong [of xs s s'] coalesced_cong [of ys s s'] by auto
  have ends: "xs \<noteq> [] \<Longrightarrow> \<not> fld mb_free s' (last xs)" "ys \<noteq> [] \<Longrightarrow> \<not> fld mb_free s' (hd ys)"
    using e(3,4) f by auto
  show ?thesis
    using xy ends q len
    by (cases L; cases R) (auto simp: coalesced_def successively_append_iff successively_Cons)
qed

lemma SliceBlock_rep:
  assumes al: "fresh_alloc al" and r: "mm_rep s h lo hi (xs @ p # ys) (us @ p # vs)"
    and st: "fld mb_ofs s p \<le> st" "0 < sz" "st + sz \<le> fld mb_ofs s p + fld mb_size s p"
  shows "\<exists>q s' bs' fs'. SliceBlock al s p st sz 0 a = Some (q, s') \<and> mm_rep s' h lo hi bs' fs' \<and>
    (if q = NULL then mm_used s' bs' = mm_used s (xs @ p # ys) \<and> alloc_fails al s
     else mm_used s' bs' = insert (q, st, sz) (mm_used s (xs @ p # ys)) \<and>
       q \<notin> fst ` mm_used s (xs @ p # ys) \<and>
       (coalesced s (xs @ p # ys) \<longrightarrow> coalesced s' bs'))"
proof -
  have st': "st < fld mb_ofs s p + fld mb_size s p" using st by simp
  have fp: "fld mb_free s p" using mm_repD(5) [OF r] by auto
  from break_left_rep [OF al r st(1) st'] consider
    (oom) "break_left al s p st = Some (NULL, s)" "al s = None"
  | (ok) q s1 L us' where "break_left al s p st = Some (q, s1)" "q \<noteq> NULL"
      "mm_rep s1 h lo hi (xs @ L @ q # ys) (us' @ q # vs)" "length L \<le> 1"
      "fld mb_ofs s1 q = st" "fld mb_size s1 q = fld mb_ofs s p + fld mb_size s p - st"
      "mm_used s1 (xs @ L @ q # ys) = mm_used s (xs @ p # ys)"
      "\<forall>b \<in> set (xs @ ys). fld mb_free s1 b = fld mb_free s b"
      "dom s \<subseteq> dom s1" "finite (dom s1 - dom s)"
    by (elim disjE exE conjE) auto
  then show ?thesis
  proof cases
    case oom
    then show ?thesis using r by (auto simp: SliceBlock_def dest: alloc_failsI(1))
  next
    case ok
    have r1: "mm_rep s1 h lo hi ((xs @ L) @ q # ys) (us' @ q # vs)" using ok(3) by simp
    have sz: "sz \<le> fld mb_size s1 q" using ok(6) st(3) by simp
    from break_right_rep [OF al r1 st(2) sz] consider
      (oom2) "break_right al s1 q st sz = Some (NULL, s1)" "al s1 = None"
    | (ok2) s2 R vs' where "break_right al s1 q st sz = Some (q, s2)"
        "mm_rep s2 h lo hi ((xs @ L) @ q # R @ ys) (us' @ q # vs')" "length R \<le> 1"
        "fld mb_ofs s2 q = st" "fld mb_size s2 q = sz"
        "mm_used s2 ((xs @ L) @ q # R @ ys) = mm_used s1 ((xs @ L) @ q # ys)"
        "\<forall>b \<in> set ((xs @ L) @ ys). fld mb_free s2 b = fld mb_free s1 b"
      unfolding ok(5) by (elim disjE exE conjE) auto
    then show ?thesis
    proof cases
      case oom2
      then show ?thesis using ok r1 alloc_failsI(2) [of al s1 s] by (auto simp: SliceBlock_def)
    next
      case ok2
      from take_middle_rep [OF ok2(2)] obtain s3 where s3: "take_middle s2 q 0 = Some s3"
        "mm_rep s3 h lo hi ((xs @ L) @ q # R @ ys) (us' @ vs')"
        "fld mb_ofs s3 = fld mb_ofs s2" "fld mb_size s3 = fld mb_size s2"
        "fld mb_free s3 = (fld mb_free s2)(q := False)" by blast
      have fq: "fld mb_free s2 q" using mm_repD(5) [OF ok2(2)] by auto
      have u: "mm_used s3 ((xs @ L) @ q # R @ ys) = insert (q, st, sz) (mm_used s (xs @ p # ys))"
        using mm_used_take [OF s3(3,4,5) fq, of "(xs @ L) @ q # R @ ys"] ok2(4,5,6) ok(7) by simp
      have "q \<notin> set (xs @ ys)" using mm_repD(12) [OF ok2(2)] by auto
      then have "fld mb_free s3 b = fld mb_free s b" if "b \<in> set (xs @ ys)" for b
        using that s3(5) ok(8) ok2(7) by auto
      then have c: "coalesced s (xs @ p # ys) \<longrightarrow> coalesced s3 (xs @ L @ q # R @ ys)"
        using coalesced_slice [OF _ fp, of xs ys s3 q L R] s3(5) ok(4) ok2(3) by auto
      have "q \<notin> fst ` mm_used s2 ((xs @ L) @ q # R @ ys)" using fq by (auto simp: mm_used_def)
      then have "q \<notin> fst ` mm_used s (xs @ p # ys)" using ok2(6) ok(7) by simp
      then show ?thesis
        using ok(1,2) ok2(1) s3(1,2) u c by (auto simp: SliceBlock_def)
    qed
  qed
qed

text \<open>Where the search puts an allocation in a free block, and whether it fits there.\<close>

definition mm_place :: "nat \<Rightarrow> int \<Rightarrow> int \<Rightarrow> int" where
  "mm_place k start ofs = max ((ofs + (2 ^ k - 1)) AND NOT (2 ^ k - 1)) start"

definition mm_fits :: "mheap \<Rightarrow> nat \<Rightarrow> int \<Rightarrow> int \<Rightarrow> addr \<Rightarrow> bool" where
  "mm_fits s k start sz b \<longleftrightarrow>
     mm_place k start (fld mb_ofs s b) + sz \<le> fld mb_ofs s b + fld mb_size s b"

lemma mm_place:
  "ofs \<le> mm_place k start ofs" "start \<le> mm_place k start ofs"
  "2 ^ k dvd mm_place k start ofs \<or> mm_place k start ofs = start"
  "mm_place k start ofs < ofs + 2 ^ k \<or> mm_place k start ofs = start"
  using int_round_up [where x = ofs and k = k] by (auto simp: mm_place_def max_def)

lemma alloc_search_find:
  assumes "chain (fld mb_next_free s) p gs h" "set gs \<subseteq> dom s" "h \<notin> set gs"
    and "\<And>b. b \<in> set gs \<Longrightarrow> fld mb_free s b \<and> in_s32 (fld mb_ofs s b + (2 ^ k - 1)) \<and>
           in_s32 (mm_place k start (fld mb_ofs s b) + sz) \<and> in_s32 (fld mb_ofs s b + fld mb_size s b)"
  shows "alloc_search s h sz (2 ^ k - 1) start p =
    Some (case find (mm_fits s k start sz) gs of
            None \<Rightarrow> (h, 0) | Some b \<Rightarrow> (b, mm_place k start (fld mb_ofs s b)))"
  using assms
proof (induction gs arbitrary: p)
  case Nil
  then show ?case by (simp add: alloc_search.simps)
next
  case (Cons b gs)
  have ih: "alloc_search s h sz (2 ^ k - 1) start (fld mb_next_free s b) =
    Some (case find (mm_fits s k start sz) gs of
            None \<Rightarrow> (h, 0) | Some b \<Rightarrow> (b, mm_place k start (fld mb_ofs s b)))"
    using Cons.prems by (intro Cons.IH) auto
  have b: "b \<in> dom s" "b \<noteq> h" "p = b" "fld mb_free s b" "in_s32 (fld mb_ofs s b + (2 ^ k - 1))"
    "in_s32 (mm_place k start (fld mb_ofs s b) + sz)" "in_s32 (fld mb_ofs s b + fld mb_size s b)"
    using Cons.prems by auto
  have pl: "(if (fld mb_ofs s b + (2 ^ k - 1)) AND NOT (2 ^ k - 1) < start then start
      else (fld mb_ofs s b + (2 ^ k - 1)) AND NOT (2 ^ k - 1)) = mm_place k start (fld mb_ofs s b)"
    by (simp add: mm_place_def)
  show ?case
    unfolding b(3) alloc_search.simps [of s h sz _ start b]
    using b(1,2,4-) ih by (simp add: heap_simps pl Let_def mm_fits_def [of s k start sz b])
qed

lemma mmAllocMem_search:
  assumes r: "mm_rep s h lo hi bs fs" and a: "0 \<le> align2" "align2 < 31" and sz: "0 < sz"
    and ov: "hi + 2 ^ nat align2 + sz \<le> 2 ^ 31" "start + sz < 2 ^ 31"
  shows "mmAllocMem al s h sz align2 start =
    (case find (mm_fits s (nat align2) start sz) fs of
       None \<Rightarrow> Some (NULL, s)
     | Some b \<Rightarrow> SliceBlock al s b (mm_place (nat align2) start (fld mb_ofs s b)) sz 0 (2 ^ nat align2))"
proof -
  note d = mm_repD [OF r]
  let ?k = "nat align2"
  have k: "(2::int) ^ ?k \<le> 2 ^ 30" "(0::int) < 2 ^ ?k"
    using a power_increasing [of ?k 30 "2::int"] by auto
  have "in_s32 x \<and> in_s32 (x - 1)" if "0 < x" "x \<le> 2 ^ 30" for x
    using that by (auto simp: in_s32_def)
  then have sh: "in_s32 (2 ^ ?k)" "in_s32 (2 ^ ?k - 1)" using k by blast+
  have h: "h \<in> dom s" "h \<noteq> NULL" using d(1,2) by auto
  have ch: "chain (fld mb_next_free s) (fld mb_next_free s h) fs h" using d(4) by (rule ring_chain)
  have "alloc_search s h sz (2 ^ ?k - 1) start (fld mb_next_free s h) =
      Some (case find (mm_fits s ?k start sz) fs of
        None \<Rightarrow> (h, 0) | Some b \<Rightarrow> (b, mm_place ?k start (fld mb_ofs s b)))"
  proof (rule alloc_search_find [OF ch])
    show "set fs \<subseteq> dom s" "h \<notin> set fs" using d(2,13,14) by auto
    fix b assume b: "b \<in> set fs"
    then have bb: "b \<in> set bs" "fld mb_free s b" using d(5) by auto
    note bd = mm_rep_bounds [OF r bb(1)] and sz' = mm_rep_size [OF r bb(1)]
    note pl = mm_place [where ofs = "fld mb_ofs s b" and k = ?k and start = start]
    have lim: "- (2 ^ 31) \<le> fld mb_ofs s b" "fld mb_ofs s b + 2 ^ ?k + sz \<le> 2 ^ 31"
      using ov(1) bd sz'(2) by (auto simp: in_s32_def)
    have "in_s32 (o' + (m - 1))" if "- (2 ^ 31) \<le> o'" "o' + m + sz \<le> 2 ^ 31" "0 < m" for o' m
      using that sz by (auto simp: in_s32_def)
    from this [OF lim k(2)] have 1: "in_s32 (fld mb_ofs s b + (2 ^ ?k - 1))" .
    have "in_s32 (x + sz)" if "- (2 ^ 31) \<le> o'" "o' + m + sz \<le> 2 ^ 31" "o' \<le> x"
      "x < o' + m \<or> x = start" for x o' m
      using that sz ov(2) by (auto simp: in_s32_def)
    from this [OF lim pl(1) pl(4)]
    have "in_s32 (mm_place ?k start (fld mb_ofs s b) + sz)" .
    with 1 show "fld mb_free s b \<and> in_s32 (fld mb_ofs s b + (2 ^ ?k - 1)) \<and>
        in_s32 (mm_place ?k start (fld mb_ofs s b) + sz) \<and> in_s32 (fld mb_ofs s b + fld mb_size s b)"
      using bb(2) sz'(3) by simp
  qed
  moreover have "b \<in> dom s \<and> b \<noteq> h \<and> fld mb_free s b"
    if "find (mm_fits s ?k start sz) fs = Some b" for b
  proof -
    have "b \<in> set fs" using find_SomeD [OF that] by simp
    then show ?thesis using d(2,5,12) by auto
  qed
  ultimately show ?thesis
    using a h sh sz by (auto simp: mmAllocMem_def heap_simps split: option.splits)
qed

text \<open>
  One allocation, on every outcome: the heap stays well formed; on success exactly one
  allocation is added, at an offset not below \<open>start\<close>; on failure nothing changed for the
  client, and either the allocator was out of memory or no free block has room.
\<close>

lemma mmAllocMem_rep:
  assumes al: "fresh_alloc al" and r: "mm_rep s h lo hi bs fs"
    and a: "0 \<le> align2" "align2 < 31" and sz: "0 < sz"
    and ov: "hi + 2 ^ nat align2 + sz \<le> 2 ^ 31" "start + sz < 2 ^ 31"
  shows "\<exists>q s' bs' fs'. mmAllocMem al s h sz align2 start = Some (q, s') \<and>
    mm_rep s' h lo hi bs' fs' \<and>
    (if q = NULL then mm_used s' bs' = mm_used s bs \<and>
       (alloc_fails al s \<or> s' = s \<and> bs' = bs \<and> (\<forall>b \<in> set fs. \<not> mm_fits s (nat align2) start sz b))
     else \<exists>st. start \<le> st \<and> (2 ^ nat align2 dvd st \<or> st = start) \<and>
       mm_used s' bs' = insert (q, st, sz) (mm_used s bs) \<and> q \<notin> fst ` mm_used s bs \<and>
       (coalesced s bs \<longrightarrow> coalesced s' bs'))"
proof (cases "find (mm_fits s (nat align2) start sz) fs")
  case None
  then have "mmAllocMem al s h sz align2 start = Some (NULL, s)"
    using mmAllocMem_search [OF r a sz ov] by simp
  moreover have "\<forall>b \<in> set fs. \<not> mm_fits s (nat align2) start sz b"
    using None by (auto simp: find_None_iff)
  ultimately show ?thesis using r by (intro exI conjI) auto
next
  case (Some b)
  then have b: "b \<in> set fs" "mm_fits s (nat align2) start sz b" by (auto dest: find_SomeD)
  obtain us vs where fs: "fs = us @ b # vs" using b(1) by (auto simp: in_set_conv_decomp)
  have "b \<in> set bs" using b(1) mm_repD(5) [OF r] by auto
  then obtain xs ys where bs: "bs = xs @ b # ys" by (auto simp: in_set_conv_decomp)
  note pl = mm_place [where ofs = "fld mb_ofs s b" and k = "nat align2" and start = start]
  have "mmAllocMem al s h sz align2 start =
      SliceBlock al s b (mm_place (nat align2) start (fld mb_ofs s b)) sz 0 (2 ^ nat align2)"
    using mmAllocMem_search [OF r a sz ov] Some by simp
  with SliceBlock_rep [OF al r [unfolded bs fs] pl(1) sz, of "2 ^ nat align2"] b(2) pl(2,3)
  show ?thesis unfolding bs mm_fits_def by (metis (no_types, lifting))
qed

section \<open>Freeing\<close>

lemma mm_rep_cong:
  assumes "mm_rep s h lo hi bs fs" "\<And>b. b \<in> set (h # bs) \<Longrightarrow> s' b = s b"
  shows "mm_rep s' h lo hi bs fs" "mm_used s' bs = mm_used s bs"
    "\<And>b. b \<in> set (h # bs) \<Longrightarrow> fld mb_free s' b = fld mb_free s b"
proof -
  note e = fld_cong [where s' = s' and s = s, OF assms(2)]
  note d = mm_repD [OF assms(1)]
  have "set (h # bs) \<subseteq> dom s'"
  proof
    fix b assume b: "b \<in> set (h # bs)"
    then show "b \<in> dom s'" using d(2) assms(2) [OF b] by (auto simp: dom_def)
  qed
  moreover have "ring (fld mb_next s') (fld mb_prev s') h bs"
    using d(3) e by (subst ring_cong [where nx' = "fld mb_next s" and pv' = "fld mb_prev s"]) auto
  moreover have "ring (fld mb_next_free s') (fld mb_prev_free s') h fs"
    using d(4,14) e
    by (subst ring_cong [where nx' = "fld mb_next_free s" and pv' = "fld mb_prev_free s"]) auto
  moreover have "tiled (fld mb_ofs s') (fld mb_size s') lo bs hi"
    using d(9) e by (subst tiled_cong [where ofs' = "fld mb_ofs s" and sz' = "fld mb_size s"]) auto
  ultimately show "mm_rep s' h lo hi bs fs" unfolding mm_rep_def using d by (auto simp: e)
  have "{b \<in> set bs. \<not> fld mb_free s' b} = {b \<in> set bs. \<not> fld mb_free s b}" by (auto simp: e)
  then show "mm_used s' bs = mm_used s bs" unfolding mm_used_def by (intro image_cong) (auto simp: e)
qed (use assms(2) in \<open>simp add: fld_def\<close>)

lemma Join2Blocks_no:
  assumes "p \<in> dom s" "fld mb_next s p \<in> dom s" "\<not> (fld mb_free s p \<and> fld mb_free s (fld mb_next s p))"
  shows "Join2Blocks s p = Some (0, s)"
  using assms by (auto simp: Join2Blocks_def heap_simps)

lemma Join2Blocks_join:
  assumes r: "mm_rep s h lo hi (xs @ p # q # ys) fs" and f: "fld mb_free s p" "fld mb_free s q"
  shows "\<exists>s' us vs. Join2Blocks s p = Some (1, s') \<and> fs = us @ q # vs \<and>
    mm_rep s' h lo hi (xs @ p # ys) (us @ vs) \<and>
    mm_used s' (xs @ p # ys) = mm_used s (xs @ p # q # ys) \<and>
    (\<forall>b \<in> set (h # xs @ p # ys). fld mb_free s' b = fld mb_free s b)"
proof -
  note d = mm_repD [OF r]
  have "q \<in> set fs" using d(5) f by auto
  then obtain us vs where fs: "fs = us @ q # vs" by (auto simp: in_set_conv_decomp)
  have nx: "fld mb_next s p = q" using ring_split_next [OF d(3)] by simp
  have pv: "fld mb_prev s q = p"
    using ring_split_prev [of "fld mb_next s" "fld mb_prev s" h "xs @ [p]" q ys] d(3) by simp
  have dd: "p \<in> dom s" "q \<in> dom s" "p \<noteq> q" "q \<noteq> p" using d(2,12) by auto
  have qn: "fld mb_next s q \<in> dom s" "fld mb_next s q \<noteq> q"
    using mm_rep_dom(1,2) [OF r, of q] mm_rep_dom(1) [OF r] ring_no_self(1) [of _ _ h "xs @ [p]" q ys] d(3)
    by auto
  have fn: "fld mb_next_free s q \<in> dom s" "fld mb_prev_free s q \<in> dom s"
    "fld mb_next_free s q \<noteq> q" "fld mb_prev_free s q \<noteq> q"
    using mm_rep_free_dom [OF r, of q] fs ring_no_self d(4) by auto
  have t: "fld mb_ofs s q = fld mb_ofs s p + fld mb_size s p"
    "tiled (fld mb_ofs s) ((fld mb_size s)(p := fld mb_size s p + fld mb_size s q)) lo (xs @ p # ys) hi"
    using d(9,12) by (auto simp: tiled_mid tiled_append [of _ _ _ "xs @ [p]", simplified] add.assoc)
  have ov: "in_s32 (fld mb_ofs s p + fld mb_size s p)" "in_s32 (fld mb_size s p + fld mb_size s q)"
    using mm_rep_size [OF r, of p] mm_rep_bounds [OF r, of p] mm_rep_bounds [OF r, of q] t(1) d(15)
    by (auto simp: in_s32_def)
  have r1: "ring ((fld mb_next s)(p := fld mb_next s q)) ((fld mb_prev s)(fld mb_next s q := p)) h (xs @ p # ys)"
    using ring_remove [of "fld mb_next s" "fld mb_prev s" h "xs @ [p]" q ys] d(3) pv by simp
  have r2: "ring ((fld mb_next_free s)(fld mb_prev_free s q := fld mb_next_free s q))
      ((fld mb_prev_free s)(fld mb_next_free s q := fld mb_prev_free s q)) h (us @ vs)"
    using ring_remove [of _ _ h us q vs] d(4) fs by simp
  define s' where "s' = setf (setf (setf (setf (setf s p (\<lambda>b. b\<lparr>mb_size := fld mb_size s p + fld mb_size s q\<rparr>))
     p (\<lambda>b. b\<lparr>mb_next := fld mb_next s q\<rparr>)) (fld mb_next s q) (\<lambda>b. b\<lparr>mb_prev := p\<rparr>))
     (fld mb_next_free s q) (\<lambda>b. b\<lparr>mb_prev_free := fld mb_prev_free s q\<rparr>))
     (fld mb_prev_free s q) (\<lambda>b. b\<lparr>mb_next_free := fld mb_next_free s q\<rparr>)"
  have j: "Join2Blocks s p = Some (1, s'(q := None))"
    using dd qn fn f t(1) ov nx by (simp add: Join2Blocks_def heap_simps s'_def)
  have fl: "dom s' = dom s" "fld mb_next s' = (fld mb_next s)(p := fld mb_next s q)"
    "fld mb_prev s' = (fld mb_prev s)(fld mb_next s q := p)"
    "fld mb_next_free s' = (fld mb_next_free s)(fld mb_prev_free s q := fld mb_next_free s q)"
    "fld mb_prev_free s' = (fld mb_prev_free s)(fld mb_next_free s q := fld mb_prev_free s q)"
    "fld mb_size s' = (fld mb_size s)(p := fld mb_size s p + fld mb_size s q)"
    "fld mb_ofs s' = fld mb_ofs s" "fld mb_free s' = fld mb_free s" "fld mb_heap s' = fld mb_heap s"
    "fld mb_reserved s' = fld mb_reserved s"
    using dd qn fn by (simp_all add: s'_def heap_simps)
  have ne: "h \<noteq> p" "q \<notin> set (h # xs @ p # ys)" "p \<notin> set xs" "p \<notin> set ys" using d(12) by auto
  have fs': "set (us @ vs) = {b \<in> set (xs @ p # ys). fld mb_free s b}" using d(5,13) fs ne by auto
  have rep: "mm_rep s' h lo hi (xs @ p # ys) (us @ vs)"
    unfolding mm_rep_def fl using d(1,2,6,7,8,10,11,15) r1 r2 t(2) fs' by simp
  have "mm_used s' (xs @ p # ys) = mm_used s (xs @ p # q # ys)"
  proof -
    have "{b \<in> set (xs @ p # ys). \<not> fld mb_free s' b} = {b \<in> set (xs @ p # q # ys). \<not> fld mb_free s b}"
      using f fl by auto
    then show ?thesis unfolding mm_used_def using f fl by (intro image_cong) auto
  qed
  moreover have "(s'(q := None)) b = s' b" if "b \<in> set (h # xs @ p # ys)" for b
    using that ne(2) by auto
  ultimately show ?thesis
    using mm_rep_cong [OF rep, of "s'(q := None)"] j fs fl(8) by auto
qed

text \<open>Joining a free block with what follows it, whatever that is.\<close>

lemma join_next:
  assumes r: "mm_rep s h lo hi (xs @ b # ys) fs" and f: "fld mb_free s b"
  shows "\<exists>v s' ys' fs'. Join2Blocks s b = Some (v, s') \<and> mm_rep s' h lo hi (xs @ b # ys') fs' \<and>
    mm_used s' (xs @ b # ys') = mm_used s (xs @ b # ys) \<and>
    (\<forall>a \<in> set (h # xs @ b # ys'). fld mb_free s' a = fld mb_free s a) \<and>
    (coalesced s ys \<longrightarrow> coalesced s' ys' \<and> (ys' \<noteq> [] \<longrightarrow> \<not> fld mb_free s' (hd ys')))"
proof -
  note d = mm_repD [OF r]
  have b: "b \<in> dom s" "fld mb_next s b \<in> dom s"
    using mm_rep_dom(1,2) [OF r, of b] mm_rep_dom(1) [OF r] by auto
  have n: "fld mb_next s b = hd (ys @ [h])" using ring_split_next [OF d(3)] .
  show ?thesis
  proof (cases "ys \<noteq> [] \<and> fld mb_free s (hd ys)")
    case False
    then have "\<not> fld mb_free s (fld mb_next s b)" using n d(6) by (cases ys) auto
    then have "Join2Blocks s b = Some (0, s)" using Join2Blocks_no b by auto
    then show ?thesis using r False by (intro exI [of _ 0] exI [of _ s] exI [of _ ys] exI [of _ fs]) auto
  next
    case True
    then obtain q zs where ys: "ys = q # zs" "fld mb_free s q" by (cases ys) auto
    from Join2Blocks_join [OF r [unfolded ys(1)] f ys(2)] obtain s' us vs where s':
      "Join2Blocks s b = Some (1, s')" "mm_rep s' h lo hi (xs @ b # zs) (us @ vs)"
      "mm_used s' (xs @ b # zs) = mm_used s (xs @ b # q # zs)"
      "\<forall>a \<in> set (h # xs @ b # zs). fld mb_free s' a = fld mb_free s a" by blast
    have "coalesced s' zs \<and> (zs \<noteq> [] \<longrightarrow> \<not> fld mb_free s' (hd zs))" if c: "coalesced s ys"
    proof -
      have "coalesced s zs" "zs \<noteq> [] \<Longrightarrow> \<not> fld mb_free s (hd zs)"
        using c ys by (auto simp: coalesced_def successively_Cons)
      then show ?thesis using s'(4) coalesced_cong [of zs s s'] by auto
    qed
    then show ?thesis
      using s' ys by (intro exI [of _ 1] exI [of _ s'] exI [of _ zs] exI [of _ "us @ vs"]) simp
  qed
qed

text \<open>The stores of \<open>mmFreeMem\<close> before it joins: the block is free and first in the free ring.\<close>

lemma mmFreeMem_mark:
  assumes r: "mm_rep s h lo hi bs fs" and b: "b \<in> set bs" "\<not> fld mb_free s b"
  shows "\<exists>s1. mmFreeMem s b = do {
           (_, s) \<leftarrow> Join2Blocks s1 b;
           pb \<leftarrow> ld s b mb_prev;
           h \<leftarrow> ld s b mb_heap;
           if pb \<noteq> h then do { (_, s) \<leftarrow> Join2Blocks s pb; Some (0, s) } else Some (0, s) } \<and>
     mm_rep s1 h lo hi bs (b # fs) \<and> fld mb_free s1 = (fld mb_free s)(b := True) \<and>
     mm_used s1 bs = mm_used s bs - {(b, fld mb_ofs s b, fld mb_size s b)}"
proof -
  note d = mm_repD [OF r]
  have dd: "b \<in> dom s" "h \<in> dom s" "b \<noteq> NULL" "b \<noteq> h" "h \<noteq> b" "b \<notin> set fs" "fld mb_heap s b = h"
    "\<not> fld mb_reserved s b" using d(1,2,5,7,8,12) b by auto
  have hn: "fld mb_next_free s h \<in> dom s" "fld mb_next_free s h \<noteq> b"
    using mm_rep_free_dom [OF r, of h] mm_rep_dom(4) [OF r, of h] dd by auto
  define s1 where "s1 = setf (setf (setf (setf (setf s b (\<lambda>c. c\<lparr>mb_free := True\<rparr>))
      b (\<lambda>c. c\<lparr>mb_next_free := fld mb_next_free s h\<rparr>)) b (\<lambda>c. c\<lparr>mb_prev_free := h\<rparr>))
      (fld mb_next_free s h) (\<lambda>c. c\<lparr>mb_prev_free := b\<rparr>)) h (\<lambda>c. c\<lparr>mb_next_free := b\<rparr>)"
  have fl: "dom s1 = dom s" "fld mb_free s1 = (fld mb_free s)(b := True)"
    "fld mb_next_free s1 = (fld mb_next_free s)(b := fld mb_next_free s h, h := b)"
    "fld mb_prev_free s1 = (fld mb_prev_free s)(b := h, fld mb_next_free s h := b)"
    "fld mb_next s1 = fld mb_next s" "fld mb_prev s1 = fld mb_prev s" "fld mb_ofs s1 = fld mb_ofs s"
    "fld mb_size s1 = fld mb_size s" "fld mb_heap s1 = fld mb_heap s"
    "fld mb_reserved s1 = fld mb_reserved s"
    using dd hn by (simp_all add: s1_def heap_simps)
  have rg: "ring (fld mb_next_free s1) (fld mb_prev_free s1) h (b # fs)"
    using ring_insert [of _ _ h "[]" fs b h] d(4) dd fl(3,4) by simp
  have rep: "mm_rep s1 h lo hi bs (b # fs)"
    unfolding mm_rep_def using rg d b dd fl by auto
  have "mm_used s1 bs = mm_used s bs - {(b, fld mb_ofs s b, fld mb_size s b)}"
    using b fl(2,7,8) by (auto simp: mm_used_def)
  moreover have "mmFreeMem s b = do {
           (_, s) \<leftarrow> Join2Blocks s1 b;
           pb \<leftarrow> ld s b mb_prev;
           h \<leftarrow> ld s b mb_heap;
           if pb \<noteq> h then do { (_, s) \<leftarrow> Join2Blocks s pb; Some (0, s) } else Some (0, s) }"
    using b(2) dd hn unfolding mmFreeMem_def s1_def by (simp add: heap_simps cong: if_cong)
  ultimately show ?thesis using rep fl(2) by blast
qed

lemma join_prev:
  assumes r: "mm_rep s h lo hi (xs @ b # ys) fs" and fb: "fld mb_free s b"
  shows "\<exists>s' bs' fs'. do {
      pb \<leftarrow> ld s b mb_prev;
      h \<leftarrow> ld s b mb_heap;
      if pb \<noteq> h then do { (_, s) \<leftarrow> Join2Blocks s pb; Some (0 :: int, s) } else Some (0, s)
    } = Some (0, s') \<and> mm_rep s' h lo hi bs' fs' \<and> mm_used s' bs' = mm_used s (xs @ b # ys) \<and>
    (coalesced s xs \<and> coalesced s (b # ys) \<longrightarrow> coalesced s' bs')"
proof -
  note d = mm_repD [OF r]
  have b: "b \<in> dom s" "fld mb_heap s b = h" using d(2,7) by auto
  have pv: "fld mb_prev s b = last (h # xs)" using ring_split_prev [OF d(3)] .
  show ?thesis
  proof (cases xs rule: rev_cases)
    case Nil
    then show ?thesis using b pv r by (auto simp: heap_simps)
  next
    case (snoc zs p)
    then have p: "fld mb_prev s b = p" "p \<noteq> h" using pv d(12) by auto
    have r2: "mm_rep s h lo hi (zs @ p # b # ys) fs" using r snoc by simp
    show ?thesis
    proof (cases "fld mb_free s p")
      case False
      have "p \<in> dom s" "fld mb_next s p \<in> dom s"
        using mm_rep_dom(1,2) [OF r2, of p] mm_rep_dom(1) [OF r2] by auto
      moreover have "coalesced s (xs @ b # ys)" if "coalesced s xs" "coalesced s (b # ys)"
        using that False snoc by (auto simp: coalesced_def successively_Cons successively_append_iff)
      ultimately show ?thesis
        using Join2Blocks_no [of p s] False b p r by (auto simp: heap_simps)
    next
      case True
      from join_next [OF r2 True] obtain v s3 ws fs3 where s3:
        "Join2Blocks s p = Some (v, s3)" "mm_rep s3 h lo hi (zs @ p # ws) fs3"
        "mm_used s3 (zs @ p # ws) = mm_used s (zs @ p # b # ys)"
        "\<forall>a \<in> set (h # zs @ p # ws). fld mb_free s3 a = fld mb_free s a"
        "coalesced s (b # ys) \<longrightarrow> coalesced s3 ws \<and> (ws \<noteq> [] \<longrightarrow> \<not> fld mb_free s3 (hd ws))" by blast
      have "coalesced s3 (zs @ p # ws)" if "coalesced s xs" "coalesced s (b # ys)"
      proof -
        have "coalesced s3 (zs @ [p])"
          using that s3(4) coalesced_cong [of "zs @ [p]" s s3] snoc by auto
        then show ?thesis
          using s3(5) that by (auto simp: coalesced_def successively_Cons successively_append_iff)
      qed
      then show ?thesis using s3(1,2,3) b p snoc by (auto simp: heap_simps)
    qed
  qed
qed

lemma mmFreeMem_rep:
  assumes r: "mm_rep s h lo hi bs fs" and b: "b \<in> set bs" "\<not> fld mb_free s b"
  shows "\<exists>s' bs' fs'. mmFreeMem s b = Some (0, s') \<and> mm_rep s' h lo hi bs' fs' \<and>
    mm_used s' bs' = mm_used s bs - {(b, fld mb_ofs s b, fld mb_size s b)} \<and>
    (coalesced s bs \<longrightarrow> coalesced s' bs')"
proof -
  from mmFreeMem_mark [OF r b] obtain s1 where s1: "mmFreeMem s b = do {
           (_, s) \<leftarrow> Join2Blocks s1 b;
           pb \<leftarrow> ld s b mb_prev;
           h \<leftarrow> ld s b mb_heap;
           if pb \<noteq> h then do { (_, s) \<leftarrow> Join2Blocks s pb; Some (0, s) } else Some (0, s) }"
     "mm_rep s1 h lo hi bs (b # fs)" "fld mb_free s1 = (fld mb_free s)(b := True)"
     "mm_used s1 bs = mm_used s bs - {(b, fld mb_ofs s b, fld mb_size s b)}" by blast
  obtain xs ys where bs: "bs = xs @ b # ys" using b(1) by (auto simp: in_set_conv_decomp)
  have fb: "fld mb_free s1 b" using s1(3) by simp
  from join_next [OF s1(2) [unfolded bs] fb] obtain v s2 ys' fs2 where s2:
    "Join2Blocks s1 b = Some (v, s2)" "mm_rep s2 h lo hi (xs @ b # ys') fs2"
    "mm_used s2 (xs @ b # ys') = mm_used s1 (xs @ b # ys)"
    "\<forall>a \<in> set (h # xs @ b # ys'). fld mb_free s2 a = fld mb_free s1 a"
    "coalesced s1 ys \<longrightarrow> coalesced s2 ys' \<and> (ys' \<noteq> [] \<longrightarrow> \<not> fld mb_free s2 (hd ys'))" by blast
  have dist: "b \<notin> set xs" "b \<notin> set ys" using mm_repD(12) [OF r] bs by auto
  have cs: "coalesced s2 xs \<and> coalesced s2 (b # ys')" if "coalesced s bs"
  proof -
    have "coalesced s xs" "coalesced s ys"
      using that bs by (auto simp: coalesced_def successively_append_iff successively_Cons)
    moreover have "fld mb_free s1 a = fld mb_free s a" if "a \<in> set xs \<union> set ys" for a
      using that s1(3) dist by auto
    ultimately have "coalesced s1 ys" "coalesced s2 xs"
      using s2(4) coalesced_cong [of xs s s2] coalesced_cong [of ys s s1] by auto
    then show ?thesis using s2(5) by (auto simp: coalesced_def successively_Cons)
  qed
  have "fld mb_free s2 b" using s2(4) fb by simp
  from join_prev [OF s2(2) this] show ?thesis
    using s1(1,4) s2(1,3) cs bs by fastforce
qed

section \<open>Creation, lookup, destruction\<close>

lemma mmInit_rep:
  assumes al: "fresh_alloc al" and sz: "0 < sz" "in_s32 ofs" "in_s32 (ofs + sz)" "in_s32 sz"
    and i: "mmInit al s ofs sz = Some (h, s')" "h \<noteq> NULL"
  shows "\<exists>b. mm_rep s' h ofs (ofs + sz) [b] [b] \<and> mm_used s' [b] = {} \<and> coalesced s' [b]"
proof -
  obtain h1 where h1: "al s = Some h1" using i sz by (auto simp: mmInit_def split: option.splits)
  have f1: "h1 \<noteq> NULL" "s h1 = None" using fresh_allocD [OF al h1] by auto
  let ?s1 = "s(h1 \<mapsto> zero_block)"
  obtain b where b: "al ?s1 = Some b"
    using i sz h1 by (auto simp: mmInit_def heap_simps Let_def split: option.splits)
  have f2: "b \<noteq> NULL" "b \<noteq> h1" using fresh_allocD [OF al b] by (auto split: if_splits)
  have "\<exists>t. mmInit al s ofs sz = Some (h1, t) \<and> dom t = insert b (insert h1 (dom s)) \<and>
    fld mb_next t h1 = b \<and> fld mb_prev t h1 = b \<and> fld mb_next_free t h1 = b \<and>
    fld mb_prev_free t h1 = b \<and> fld mb_next t b = h1 \<and> fld mb_prev t b = h1 \<and>
    fld mb_next_free t b = h1 \<and> fld mb_prev_free t b = h1 \<and> fld mb_heap t b = h1 \<and>
    fld mb_ofs t b = ofs \<and> fld mb_size t b = sz \<and> fld mb_free t b \<and> \<not> fld mb_free t h1 \<and>
    \<not> fld mb_reserved t b"
    using sz(1) h1 b f1 f2 by (simp add: mmInit_def heap_simps zero_block_def Let_def)
  then have h: "h = h1" and s': "dom s' = insert b (insert h1 (dom s))"
    "fld mb_next s' h1 = b" "fld mb_prev s' h1 = b" "fld mb_next_free s' h1 = b"
    "fld mb_prev_free s' h1 = b" "fld mb_next s' b = h1" "fld mb_prev s' b = h1"
    "fld mb_next_free s' b = h1" "fld mb_prev_free s' b = h1" "fld mb_heap s' b = h1"
    "fld mb_ofs s' b = ofs" "fld mb_size s' b = sz" "fld mb_free s' b" "\<not> fld mb_free s' h1"
    "\<not> fld mb_reserved s' b"
    using i(1) by auto
  then show ?thesis
    using f1 f2 sz by (intro exI [of _ b]) (auto simp: mm_rep_def ring_def mm_used_def coalesced_def)
qed

lemma find_block_loop_find:
  assumes "chain (fld mb_next s) p bs h" "set bs \<subseteq> dom s" "h \<notin> set bs"
  shows "find_block_loop s h start p =
    Some (case find (\<lambda>b. fld mb_ofs s b = start) bs of None \<Rightarrow> NULL | Some b \<Rightarrow> b)"
  using assms
proof (induction bs arbitrary: p)
  case Nil
  then show ?case by (simp add: find_block_loop.simps)
next
  case (Cons b bs)
  then have "find_block_loop s h start (fld mb_next s b) =
    Some (case find (\<lambda>b. fld mb_ofs s b = start) bs of None \<Rightarrow> NULL | Some b \<Rightarrow> b)" by simp
  then show ?case
    using Cons.prems by (auto simp: find_block_loop.simps [of s h start b] heap_simps)
qed

lemma mmFindBlock_find:
  assumes "mm_rep s h lo hi bs fs"
  shows "mmFindBlock s h start =
    Some (case find (\<lambda>b. fld mb_ofs s b = start) bs of None \<Rightarrow> NULL | Some b \<Rightarrow> b)"
proof -
  note d = mm_repD [OF assms]
  show ?thesis
    using find_block_loop_find [OF ring_chain [OF d(3)]] d(2,12)
    by (auto simp: mmFindBlock_def heap_simps)
qed

lemma destroy_loop_frees:
  assumes "chain (fld mb_next s) p bs h" "set bs \<subseteq> dom s" "h \<notin> set bs" "distinct bs"
  shows "destroy_loop s h p = Some (s |` (- set bs))"
  using assms
proof (induction bs arbitrary: s p)
  case Nil
  then show ?case by (simp add: destroy_loop.simps)
next
  case (Cons b bs)
  define t where "t = s(b := None)"
  have ch: "chain (fld mb_next t) (fld mb_next s b) bs h"
    unfolding t_def using Cons.prems
    by (subst chain_cong [where nx' = "fld mb_next s"]) (auto intro!: fld_dealloc)
  have t: "set bs \<subseteq> dom t" "h \<notin> set bs" "distinct bs"
    unfolding t_def using Cons.prems by (auto simp: subset_iff)
  have "destroy_loop t h (fld mb_next s b) = Some (t |` (- set bs))"
    by (rule Cons.IH [OF ch t])
  moreover have "t |` (- set bs) = s |` (- set (b # bs))"
    unfolding t_def by (auto simp: restrict_map_def fun_eq_iff)
  moreover have "p = b" "b \<in> dom s" "b \<noteq> h" using Cons.prems by auto
  ultimately show ?case
    by (simp add: destroy_loop.simps [of s h b] heap_simps flip: t_def)
qed

lemma mmDestroy_frees:
  assumes "mm_rep s h lo hi bs fs"
  shows "mmDestroy s h = Some (s |` (- set (h # bs)))"
proof -
  note d = mm_repD [OF assms]
  have "destroy_loop s h (fld mb_next s h) = Some (s |` (- set bs))"
    using d(2,12) by (intro destroy_loop_frees ring_chain [OF d(3)]) auto
  moreover have "(s |` (- set bs))(h := None) = s |` (- set (h # bs))"
    by (auto simp: restrict_map_def fun_eq_iff)
  moreover have "h \<in> dom (s |` (- set bs))" using d(2,12) by auto
  ultimately show ?thesis using d(1,2) by (simp add: mmDestroy_def heap_simps)
qed

section \<open>Client runs\<close>

text \<open>
  A client creates a heap over \<open>[lo, lo + sz)\<close> and then allocates and frees in any order; it
  frees only blocks it holds. The last component is what the client was handed and has not
  given back; the flag stays set as long as every failed allocation left the heap as it was
  (nothing fitted, or memory for the bookkeeping ran out before the first split).
\<close>

definition mm_args_ok :: "int \<Rightarrow> int \<Rightarrow> int \<Rightarrow> int \<Rightarrow> bool" where
  "mm_args_ok hi sz align2 start \<longleftrightarrow> 0 \<le> align2 \<and> align2 < 31 \<and> 0 < sz \<and>
     hi + 2 ^ nat align2 + sz \<le> 2 ^ 31 \<and> start + sz < 2 ^ 31"

inductive mm_reach ::
  "mem_block allocator \<Rightarrow> addr \<Rightarrow> int \<Rightarrow> int \<Rightarrow> bool \<Rightarrow> mheap \<Rightarrow> (addr \<times> int \<times> int) set \<Rightarrow> bool"
  for al h lo hi where
  init: "lo < hi \<Longrightarrow> in_s32 lo \<Longrightarrow> in_s32 hi \<Longrightarrow> in_s32 (hi - lo) \<Longrightarrow>
    mmInit al s0 lo (hi - lo) = Some (h, s) \<Longrightarrow> h \<noteq> NULL \<Longrightarrow> mm_reach al h lo hi True s {}"
| alloc: "mm_reach al h lo hi c s H \<Longrightarrow> mm_args_ok hi sz align2 start \<Longrightarrow>
    mmAllocMem al s h sz align2 start = Some (q, s') \<Longrightarrow> q \<noteq> NULL \<Longrightarrow>
    mm_reach al h lo hi c s' (insert (q, fld mb_ofs s' q, fld mb_size s' q) H)"
| alloc_fail: "mm_reach al h lo hi c s H \<Longrightarrow> mm_args_ok hi sz align2 start \<Longrightarrow>
    mmAllocMem al s h sz align2 start = Some (NULL, s') \<Longrightarrow> mm_reach al h lo hi (c \<and> s' = s) s' H"
| free: "mm_reach al h lo hi c s H \<Longrightarrow> (b, ofs, z) \<in> H \<Longrightarrow> mmFreeMem s b = Some (r, s') \<Longrightarrow>
    mm_reach al h lo hi c s' (H - {(b, ofs, z)})"

lemma mm_usedD: "(b, ofs, z) \<in> mm_used s bs \<Longrightarrow>
    b \<in> set bs \<and> \<not> fld mb_free s b \<and> ofs = fld mb_ofs s b \<and> z = fld mb_size s b"
  by (auto simp: mm_used_def)

lemma mm_reach_rep:
  assumes "fresh_alloc al" "mm_reach al h lo hi c s H"
  shows "\<exists>bs fs. mm_rep s h lo hi bs fs \<and> mm_used s bs = H \<and> (c \<longrightarrow> coalesced s bs)"
  using assms(2)
proof (induction rule: mm_reach.induct)
  case (init s0 s)
  then show ?case using mmInit_rep [OF assms(1), of "hi - lo" lo s0 h s] by fastforce
next
  case (alloc c s H sz align2 start q s')
  then obtain bs fs where r: "mm_rep s h lo hi bs fs" "mm_used s bs = H" "c \<longrightarrow> coalesced s bs"
    by blast
  from mmAllocMem_rep [OF assms(1) r(1), of align2 sz start] alloc(2,3,4)
  obtain bs' fs' st where r': "mm_rep s' h lo hi bs' fs'" "mm_used s' bs' = insert (q, st, sz) (mm_used s bs)"
    "coalesced s bs \<longrightarrow> coalesced s' bs'" by (auto simp: mm_args_ok_def)
  then have "st = fld mb_ofs s' q" "sz = fld mb_size s' q"
    using mm_usedD [of q st sz s' bs'] by auto
  then show ?case using r r' by blast
next
  case (alloc_fail c s H sz align2 start s')
  then obtain bs fs where r: "mm_rep s h lo hi bs fs" "mm_used s bs = H" "c \<longrightarrow> coalesced s bs"
    by blast
  from mmAllocMem_rep [OF assms(1) r(1), of align2 sz start] alloc_fail(2,3)
  obtain bs' fs' where "mm_rep s' h lo hi bs' fs'" "mm_used s' bs' = mm_used s bs"
    by (auto simp: mm_args_ok_def)
  then show ?case using r by (cases "s' = s") auto
next
  case (free c s H b ofs z r s')
  then obtain bs fs where r: "mm_rep s h lo hi bs fs" "mm_used s bs = H" "c \<longrightarrow> coalesced s bs"
    by blast
  have b: "b \<in> set bs" "\<not> fld mb_free s b" "ofs = fld mb_ofs s b" "z = fld mb_size s b"
    using free(2) r(2) mm_usedD [of b ofs z s bs] by auto
  from mmFreeMem_rep [OF r(1) b(1,2)] free(3) r b(3,4) show ?case by fastforce
qed

lemma mm_reach_lt: "mm_reach al h lo hi c s H \<Longrightarrow> lo < hi"
  by (induction rule: mm_reach.induct) auto

section \<open>Properties\<close>

text \<open>A concrete heap: card memory \<open>[0, 4096)\<close> as \<open>mmInit\<close> leaves it, heap cell at 1, one
  free block at 2.\<close>

definition mm_demo :: mheap where
  "mm_demo = [1 \<mapsto> zero_block\<lparr>mb_next := 2, mb_prev := 2, mb_next_free := 2, mb_prev_free := 2\<rparr>,
     2 \<mapsto> zero_block\<lparr>mb_next := 1, mb_prev := 1, mb_next_free := 1, mb_prev_free := 1,
       mb_heap := 1, mb_size := 4096, mb_free := True\<rparr>]"

lemma mm_demo_init: "mmInit (first_free 9) Map.empty 0 4096 = Some (1, mm_demo)"
  by (simp add: mmInit_def first_free_def upt_rec wr_def mm_demo_def zero_block_def numeral_2_eq_2)

lemma mm_demo_rep: "mm_rep mm_demo 1 0 4096 [2] [2]"
  by (auto simp: mm_rep_def mm_demo_def ring_def fld_def zero_block_def in_s32_def)

lemma mm_demo_used: "mm_used mm_demo [2] = {}" "coalesced mm_demo [2]"
  by (auto simp: mm_used_def coalesced_def mm_demo_def fld_def zero_block_def)



text \<open>C22. Freeing, on every outcome: \<open>mmFreeMem\<close> of an outstanding block succeeds, removes
  exactly that allocation and leaves a well-formed heap, coalesced if it was; a block that is
  already free is refused with -1 and nothing changes.\<close>

theorem mmFreeMem_correct:
  assumes "mm_rep s h lo hi bs fs" and "b \<in> set bs"
  shows "if fld mb_free s b then mmFreeMem s b = Some (- 1, s)
    else \<exists>s' bs' fs'. mmFreeMem s b = Some (0, s') \<and> mm_rep s' h lo hi bs' fs' \<and>
      mm_used s' bs' = mm_used s bs - {(b, fld mb_ofs s b, fld mb_size s b)} \<and>
      (coalesced s bs \<longrightarrow> coalesced s' bs')"
proof (cases "fld mb_free s b")
  case True
  have "b \<in> dom s" "b \<noteq> NULL" using mm_repD(1,2) [OF assms(1)] assms(2) by (auto intro: gr0I)
  then show ?thesis using True by (simp add: mmFreeMem_def heap_simps)
qed (use mmFreeMem_rep [OF assms] in simp)

theorem mmFreeMem_correct_witness: "mmFreeMem mm_demo 2 = Some (- 1, mm_demo)"
proof -
  have "fld mb_free mm_demo 2" by (simp add: mm_demo_def fld_def zero_block_def)
  then show ?thesis using mmFreeMem_correct [OF mm_demo_rep, of 2] by simp
qed

text \<open>C3. Safety of every client run: whatever sequence of allocations and frees the client
  makes, each allocation it holds lies inside the heap's range and two of them never overlap.\<close>

theorem mm_client_disjoint:
  assumes "fresh_alloc al" and "mm_reach al h lo hi c s H"
    and "(a, ofs, z) \<in> H" and "(b, ofs', z') \<in> H"
  shows "lo \<le> ofs \<and> 0 < z \<and> ofs + z \<le> hi \<and>
    (a \<noteq> b \<longrightarrow> ofs + z \<le> ofs' \<or> ofs' + z' \<le> ofs)"
proof -
  obtain bs fs where r: "mm_rep s h lo hi bs fs" "mm_used s bs = H"
    using mm_reach_rep [OF assms(1,2)] by blast
  note u = mm_usedD [OF assms(3) [folded r(2)]] mm_usedD [OF assms(4) [folded r(2)]]
  show ?thesis
    using u mm_rep_bounds [OF r(1), of a] mm_repD(12) [OF r(1)]
      tiled_disjoint [OF mm_repD(9) [OF r(1)], of a b] by auto
qed

lemma mm_demo_reach: "mm_reach (first_free 9) 1 0 4096 True mm_demo {}"
  using mm_reach.init [of 0 4096 "first_free 9" Map.empty 1 mm_demo] mm_demo_init
  by (simp add: in_s32_def)

text \<open>A run of two allocations.\<close>

lemma mm_demo_alloc:
  "\<exists>s1 s2. mmAllocMem (first_free 9) mm_demo 1 100 4 0 = Some (2, s1) \<and>
     fld mb_ofs s1 2 = 0 \<and> fld mb_size s1 2 = 100 \<and>
     mmAllocMem (first_free 9) s1 1 100 4 0 = Some (4, s2) \<and>
     fld mb_ofs s2 4 = 112 \<and> fld mb_size s2 4 = 100"
  by (simp add: mmAllocMem_def alloc_search.simps SliceBlock_def break_left_def break_right_def
      insert_block_def take_middle_def first_free_def upt_rec wr_def ld_def fld_def mm_demo_def
      zero_block_def in_s32_def s32_def)

theorem mm_client_disjoint_witness:
  "\<exists>s. mm_reach (first_free 9) 1 0 4096 True s {(2, 0, 100), (4, 112, 100)} \<and>
     0 \<le> (0 :: int) \<and> (0 :: int) + 100 \<le> 112"
proof -
  obtain s1 s2 where s: "mmAllocMem (first_free 9) mm_demo 1 100 4 0 = Some (2, s1)"
    "fld mb_ofs s1 2 = 0" "fld mb_size s1 2 = 100"
    "mmAllocMem (first_free 9) s1 1 100 4 0 = Some (4, s2)" "fld mb_ofs s2 4 = 112"
    "fld mb_size s2 4 = 100" using mm_demo_alloc by blast
  have ok: "mm_args_ok 4096 100 4 0" by (simp add: mm_args_ok_def)
  have "mm_reach (first_free 9) 1 0 4096 True s1 {(2, 0, 100)}"
    using mm_reach.alloc [OF mm_demo_reach ok s(1)] s(2,3) by simp
  then have "mm_reach (first_free 9) 1 0 4096 True s2 {(4, 112, 100), (2, 0, 100)}"
    using mm_reach.alloc [OF _ ok s(4)] s(5,6) by simp
  then have r: "mm_reach (first_free 9) 1 0 4096 True s2 {(2, 0, 100), (4, 112, 100)}"
    by (simp add: insert_commute)
  then show ?thesis
    using mm_client_disjoint [OF fresh_first_free r, of 2 0 100 4 112 100] by auto
qed

text \<open>No fragmentation remains: once the client has freed everything, the heap is one free
  block spanning the whole range again, provided every failed allocation of the run had left
  the heap unchanged.\<close>

theorem mm_all_freed:
  assumes "fresh_alloc al" and "mm_reach al h lo hi True s {}"
  shows "\<exists>b. mm_rep s h lo hi [b] [b] \<and> fld mb_ofs s b = lo \<and> fld mb_size s b = hi - lo"
proof -
  obtain bs fs where r: "mm_rep s h lo hi bs fs" "mm_used s bs = {}" "coalesced s bs"
    using mm_reach_rep [OF assms] by auto
  note d = mm_repD [OF r(1)]
  have fr: "\<forall>b \<in> set bs. fld mb_free s b" using r(2) by (auto simp: mm_used_def)
  then have "length bs < 2"
    using r(3) by (cases bs rule: remdups_adj.cases) (auto simp: coalesced_def)
  moreover have "bs \<noteq> []" using d(9) mm_reach_lt [OF assms(2)] by auto
  ultimately obtain b where b: "bs = [b]" by (cases bs) auto
  then have "set fs = {b}" "distinct fs" using d(5,13) fr by auto
  then have "fs = [b]" by (cases fs rule: remdups_adj.cases) auto
  then show ?thesis using r(1) d(9) b by auto
qed

theorem mm_all_freed_witness:
  "\<exists>b. mm_rep mm_demo 1 0 4096 [b] [b] \<and> fld mb_ofs mm_demo b = 0 \<and> fld mb_size mm_demo b = 4096"
  using mm_all_freed [OF fresh_first_free mm_demo_reach] by simp

text \<open>Destruction: \<open>mmDestroy\<close> of a well-formed heap terminates, frees the heap cell and
  every block of it exactly once, and touches nothing else.\<close>

theorem mmDestroy_correct:
  assumes "mm_rep s h lo hi bs fs"
  shows "mmDestroy s h = Some (s |` (- set (h # bs)))"
  using mmDestroy_frees [OF assms] .

theorem mmDestroy_correct_witness: "mmDestroy mm_demo 1 = Some Map.empty"
proof -
  have "mm_demo |` (- {1, 2}) = Map.empty" by (auto simp: mm_demo_def restrict_map_def fun_eq_iff)
  then show ?thesis using mmDestroy_correct [OF mm_demo_rep] by simp
qed

end
