(* ===== verification/Intel_Chipset.thy ===== *)
theory Intel_Chipset
  imports C_Prelude
begin

text \<open>
  The chipset predicates of \<open>intel/intel_chipset.h\<close> on PCI device ids, and the generation
  \<open>drm_intel_bufmgr_gem_init\<close> derives from them. A predicate that compares with a list of
  \<open>PCI_CHIP\<close> constants is membership in the list of their values, in the order of the macro.
\<close>

section \<open>Predicates\<close>

named_theorems chipset_defs \<open>the chipset predicates\<close>

definition IS_IGDGM :: "u32 \<Rightarrow> bool" where
  [chipset_defs]: "IS_IGDGM devid \<longleftrightarrow> devid \<in> {0xA011}"

definition IS_IGDG :: "u32 \<Rightarrow> bool" where
  [chipset_defs]: "IS_IGDG devid \<longleftrightarrow> devid \<in> {0xA001}"

definition IS_IGD :: "u32 \<Rightarrow> bool" where
  [chipset_defs]: "IS_IGD devid \<longleftrightarrow> IS_IGDG devid \<or> IS_IGDGM devid"

definition IS_MOBILE :: "u32 \<Rightarrow> bool" where
  [chipset_defs]: "IS_MOBILE devid \<longleftrightarrow> devid \<in> {0x3582, 0x2592, 0x27A2, 0x27AE, 0x2A02, 0x2A12, 0x2A42, 0x0156, 0x0166} \<or> IS_IGD devid"

definition IS_G45 :: "u32 \<Rightarrow> bool" where
  [chipset_defs]: "IS_G45 devid \<longleftrightarrow> devid \<in> {0x2E02, 0x2E12, 0x2E22, 0x2E32}"

definition IS_GM45 :: "u32 \<Rightarrow> bool" where
  [chipset_defs]: "IS_GM45 devid \<longleftrightarrow> devid \<in> {0x2A42}"

definition IS_G4X :: "u32 \<Rightarrow> bool" where
  [chipset_defs]: "IS_G4X devid \<longleftrightarrow> IS_G45 devid \<or> IS_GM45 devid"

definition IS_ILD :: "u32 \<Rightarrow> bool" where
  [chipset_defs]: "IS_ILD devid \<longleftrightarrow> devid \<in> {0x0042}"

definition IS_ILM :: "u32 \<Rightarrow> bool" where
  [chipset_defs]: "IS_ILM devid \<longleftrightarrow> devid \<in> {0x0046}"

definition IS_915 :: "u32 \<Rightarrow> bool" where
  [chipset_defs]: "IS_915 devid \<longleftrightarrow> devid \<in> {0x2582, 0x258A, 0x2592}"

definition IS_945GM :: "u32 \<Rightarrow> bool" where
  [chipset_defs]: "IS_945GM devid \<longleftrightarrow> devid \<in> {0x27A2, 0x27AE}"

definition IS_G33 :: "u32 \<Rightarrow> bool" where
  [chipset_defs]: "IS_G33 devid \<longleftrightarrow> devid \<in> {0x29C2, 0x29D2, 0x29B2} \<or> IS_IGD devid"

definition IS_945 :: "u32 \<Rightarrow> bool" where
  [chipset_defs]: "IS_945 devid \<longleftrightarrow> devid \<in> {0x2772, 0x27A2, 0x27AE} \<or> IS_G33 devid"

definition IS_GEN2 :: "u32 \<Rightarrow> bool" where
  [chipset_defs]: "IS_GEN2 devid \<longleftrightarrow> devid \<in> {0x3577, 0x2562, 0x3582, 0x2572}"

definition IS_GEN3 :: "u32 \<Rightarrow> bool" where
  [chipset_defs]: "IS_GEN3 devid \<longleftrightarrow> IS_945 devid \<or> IS_915 devid"

definition IS_GEN4 :: "u32 \<Rightarrow> bool" where
  [chipset_defs]: "IS_GEN4 devid \<longleftrightarrow> devid \<in> {0x29A2, 0x2992, 0x2982, 0x2A02, 0x2A12, 0x2972} \<or> IS_G4X devid"

definition IS_GEN5 :: "u32 \<Rightarrow> bool" where
  [chipset_defs]: "IS_GEN5 devid \<longleftrightarrow> IS_ILD devid \<or> IS_ILM devid"

definition IS_GEN6 :: "u32 \<Rightarrow> bool" where
  [chipset_defs]: "IS_GEN6 devid \<longleftrightarrow> devid \<in> {0x0102, 0x0112, 0x0122, 0x0106, 0x0116, 0x0126, 0x010A}"

definition IS_IVYBRIDGE :: "u32 \<Rightarrow> bool" where
  [chipset_defs]: "IS_IVYBRIDGE devid \<longleftrightarrow> devid \<in> {0x0152, 0x0162, 0x0156, 0x0166, 0x015a, 0x016a}"

definition IS_VALLEYVIEW :: "u32 \<Rightarrow> bool" where
  [chipset_defs]: "IS_VALLEYVIEW devid \<longleftrightarrow> devid \<in> {0x0f30, 0x0f31, 0x0f32, 0x0f33}"

definition IS_HSW_GT1 :: "u32 \<Rightarrow> bool" where
  [chipset_defs]: "IS_HSW_GT1 devid \<longleftrightarrow> devid \<in> {0x0402, 0x0406, 0x040A, 0x040B, 0x040E, 0x0C02, 0x0C06, 0x0C0A, 0x0C0B, 0x0C0E,
       0x0A02, 0x0A06, 0x0A0A, 0x0A0B, 0x0A0E, 0x0D02, 0x0D06, 0x0D0A, 0x0D0B, 0x0D0E}"

definition IS_HSW_GT2 :: "u32 \<Rightarrow> bool" where
  [chipset_defs]: "IS_HSW_GT2 devid \<longleftrightarrow> devid \<in> {0x0412, 0x0416, 0x041A, 0x041B, 0x041E, 0x0C12, 0x0C16, 0x0C1A, 0x0C1B, 0x0C1E,
       0x0A12, 0x0A16, 0x0A1A, 0x0A1B, 0x0A1E, 0x0D12, 0x0D16, 0x0D1A, 0x0D1B, 0x0D1E}"

definition IS_HSW_GT3 :: "u32 \<Rightarrow> bool" where
  [chipset_defs]: "IS_HSW_GT3 devid \<longleftrightarrow> devid \<in> {0x0422, 0x0426, 0x042A, 0x042B, 0x042E, 0x0C22, 0x0C26, 0x0C2A, 0x0C2B, 0x0C2E,
       0x0A22, 0x0A26, 0x0A2A, 0x0A2B, 0x0A2E, 0x0D22, 0x0D26, 0x0D2A, 0x0D2B, 0x0D2E}"

definition IS_HASWELL :: "u32 \<Rightarrow> bool" where
  [chipset_defs]: "IS_HASWELL devid \<longleftrightarrow> IS_HSW_GT1 devid \<or> IS_HSW_GT2 devid \<or> IS_HSW_GT3 devid"

definition IS_GEN7 :: "u32 \<Rightarrow> bool" where
  [chipset_defs]: "IS_GEN7 devid \<longleftrightarrow> IS_IVYBRIDGE devid \<or> IS_HASWELL devid \<or> IS_VALLEYVIEW devid"

definition IS_BROADWELL :: "u32 \<Rightarrow> bool" where
  [chipset_defs]: "IS_BROADWELL devid \<longleftrightarrow>
     (if devid AND 0xff00 \<noteq> 0x1600 then False
      else if drop_bit 4 (devid AND 0x00f0) > 3 then False
      else devid AND 0x000f \<in> {0x2, 0x6, 0xb, 0xa, 0xd, 0xe})"

definition IS_CHERRYVIEW :: "u32 \<Rightarrow> bool" where
  [chipset_defs]: "IS_CHERRYVIEW devid \<longleftrightarrow> devid \<in> {0x22b0, 0x22b1, 0x22b2, 0x22b3}"

definition IS_GEN8 :: "u32 \<Rightarrow> bool" where
  [chipset_defs]: "IS_GEN8 devid \<longleftrightarrow> IS_BROADWELL devid \<or> IS_CHERRYVIEW devid"

definition IS_9XX :: "u32 \<Rightarrow> bool" where
  [chipset_defs]: "IS_9XX devid \<longleftrightarrow> IS_GEN3 devid \<or> IS_GEN4 devid \<or> IS_GEN5 devid \<or> IS_GEN6 devid \<or> IS_GEN7 devid \<or> IS_GEN8 devid"

section \<open>The generation\<close>

text \<open>The chain of tests in \<open>drm_intel_bufmgr_gem_init\<close>; \<open>None\<close> is the branch that gives up.\<close>

definition gem_gen :: "u32 \<Rightarrow> nat option" where
  "gem_gen devid =
    (if IS_GEN2 devid then Some 2 else if IS_GEN3 devid then Some 3 else if IS_GEN4 devid then Some 4
     else if IS_GEN5 devid then Some 5 else if IS_GEN6 devid then Some 6 else if IS_GEN7 devid then Some 7
     else if IS_GEN8 devid then Some 8 else None)"

text \<open>Every listed id, with its generation.\<close>

lemmas listed_ids = IS_945_def IS_915_def IS_G33_def IS_IGD_def IS_IGDG_def IS_IGDGM_def IS_G4X_def IS_G45_def
  IS_GM45_def IS_ILD_def IS_ILM_def IS_IVYBRIDGE_def IS_HASWELL_def IS_HSW_GT1_def IS_HSW_GT2_def IS_HSW_GT3_def
  IS_VALLEYVIEW_def insert_iff empty_iff

text \<open>The ids of a generation, checked against the later generations.\<close>

lemma generation_2: "IS_GEN2 d \<Longrightarrow> \<not> IS_GEN3 d \<and> \<not> IS_GEN4 d \<and> \<not> IS_GEN5 d \<and> \<not> IS_GEN6 d \<and> \<not> IS_GEN7 d \<and> \<not> IS_GEN8 d"
  by (unfold IS_GEN2_def listed_ids, elim disjE FalseE; simp add: chipset_defs)

lemma generation_3: "IS_GEN3 d \<Longrightarrow> \<not> IS_GEN4 d \<and> \<not> IS_GEN5 d \<and> \<not> IS_GEN6 d \<and> \<not> IS_GEN7 d \<and> \<not> IS_GEN8 d"
  by (unfold IS_GEN3_def listed_ids, elim disjE FalseE; simp add: chipset_defs)

lemma generation_4: "IS_GEN4 d \<Longrightarrow> \<not> IS_GEN5 d \<and> \<not> IS_GEN6 d \<and> \<not> IS_GEN7 d \<and> \<not> IS_GEN8 d"
  by (unfold IS_GEN4_def listed_ids, elim disjE FalseE; simp add: chipset_defs)

lemma generation_5: "IS_GEN5 d \<Longrightarrow> \<not> IS_GEN6 d \<and> \<not> IS_GEN7 d \<and> \<not> IS_GEN8 d"
  by (unfold IS_GEN5_def listed_ids, elim disjE FalseE; simp add: chipset_defs)

lemma generation_6: "IS_GEN6 d \<Longrightarrow> \<not> IS_GEN7 d \<and> \<not> IS_GEN8 d"
  by (unfold IS_GEN6_def listed_ids, elim disjE FalseE; simp add: chipset_defs)

lemma generation_7: "IS_GEN7 d \<Longrightarrow> \<not> IS_GEN8 d"
  by (unfold IS_GEN7_def listed_ids, elim disjE FalseE; simp add: chipset_defs)

lemmas generations = generation_2 generation_3 generation_4 generation_5 generation_6 generation_7

text \<open>C36. The chipset generations are disjoint: of \<open>IS_GEN2\<close> to \<open>IS_GEN8\<close> at most one holds of a
  device id, so the order of the tests in \<open>drm_intel_bufmgr_gem_init\<close> does not matter, and exactly the
  ids of generation 3 and later are \<open>IS_9XX\<close>.\<close>

theorem gem_gen_unique:
  "(gem_gen devid = Some 2 \<longleftrightarrow> IS_GEN2 devid) \<and> (gem_gen devid = Some 3 \<longleftrightarrow> IS_GEN3 devid) \<and>
   (gem_gen devid = Some 4 \<longleftrightarrow> IS_GEN4 devid) \<and> (gem_gen devid = Some 5 \<longleftrightarrow> IS_GEN5 devid) \<and>
   (gem_gen devid = Some 6 \<longleftrightarrow> IS_GEN6 devid) \<and> (gem_gen devid = Some 7 \<longleftrightarrow> IS_GEN7 devid) \<and>
   (gem_gen devid = Some 8 \<longleftrightarrow> IS_GEN8 devid) \<and>
   (IS_9XX devid \<longleftrightarrow> (\<exists>g. gem_gen devid = Some g \<and> 3 \<le> g))"
  using generations [of devid] by (auto simp: gem_gen_def IS_9XX_def)

end
