(* ===== verification/Intel_Gem_Types.thy ===== *)
theory Intel_Gem_Types
  imports C_Arith Intel_Chipset
begin

text \<open>
  The state of the GEM buffer manager \<open>intel/intel_bufmgr_gem.c\<close>: buffer objects, the manager with
  its cache buckets, lists and execution arrays, and the kernel behind \<open>drmIoctl\<close>.

  An intrusive list is the HOL list of the buffers on it, from the head's \<open>next\<close> to its \<open>prev\<close>, and
  each buffer's list node records what its pointers are worth, since unlinking through the pointers of
  a node that was never initialised, or was unlinked before, is undefined (the macros themselves are
  verified at pointer level in \<open>Drm_Lists\<close>). Every operation runs with the manager's mutex held, or
  in a single thread.
\<close>

section \<open>Constants\<close>

definition I915_TILING_NONE :: u32 where "I915_TILING_NONE = 0"
definition I915_TILING_X :: u32 where "I915_TILING_X = 1"
definition I915_TILING_Y :: u32 where "I915_TILING_Y = 2"
definition I915_BIT_6_SWIZZLE_NONE :: u32 where "I915_BIT_6_SWIZZLE_NONE = 0"
definition I915_MADV_WILLNEED :: u32 where "I915_MADV_WILLNEED = 0"
definition I915_MADV_DONTNEED :: u32 where "I915_MADV_DONTNEED = 1"
definition I915_EXEC_DEFAULT :: u32 where "I915_EXEC_DEFAULT = 0"
definition I915_EXEC_RENDER :: u32 where "I915_EXEC_RENDER = 1"
definition I915_EXEC_BSD :: u32 where "I915_EXEC_BSD = 2"
definition I915_EXEC_BLT :: u32 where "I915_EXEC_BLT = 3"
definition I915_EXEC_VEBOX :: u32 where "I915_EXEC_VEBOX = 4"
definition EXEC_OBJECT_NEEDS_FENCE :: u64 where "EXEC_OBJECT_NEEDS_FENCE = 1"
definition DRM_INTEL_RELOC_FENCE :: int where "DRM_INTEL_RELOC_FENCE = 1"
definition BO_ALLOC_FOR_RENDER :: u64 where "BO_ALLOC_FOR_RENDER = 1"

lemmas tiling_defs = I915_TILING_NONE_def I915_TILING_X_def I915_TILING_Y_def

section \<open>Structures\<close>

text \<open>A list node: zero from \<open>calloc\<close>, initialised to itself, on a list, or left behind by
  \<open>DRMLISTDEL\<close> with the pointers it had there.\<close>

datatype lnode = LNull | LSelf | LIn | LStale

record drm_i915_gem_relocation_entry =
  re_target_handle :: u32
  re_delta :: u32
  re_offset :: u64
  re_presumed_offset :: u64
  re_read_domains :: u32
  re_write_domain :: u32

record drm_intel_reloc_target =
  rt_bo :: addr
  rt_flags :: int

text \<open>
  \<open>relocs\<close> and \<open>reloc_target_info\<close> are arrays of \<open>gb_reloc_max\<close> slots, allocated together, of which
  the first \<open>reloc_count\<close> are in use: the lists hold the used slots, \<open>None\<close> is \<open>NULL\<close>.
\<close>

record drm_intel_bo_gem =
  gb_size :: u64
  gb_offset64 :: u64
  gb_virtual :: u64
  gb_refcount :: int
  gb_gem_handle :: u32
  gb_global_name :: u32
  gb_name_list :: lnode
  gb_validate_index :: int
  gb_tiling_mode :: u32
  gb_swizzle_mode :: u32
  gb_stride :: u64
  gb_free_time :: int
  gb_relocs :: "drm_i915_gem_relocation_entry list option"
  gb_reloc_target_info :: "drm_intel_reloc_target list"
  gb_reloc_max :: nat
  gb_mem_virtual :: u64
  gb_gtt_virtual :: u64
  gb_user_virtual :: u64
  gb_map_count :: int
  gb_vma_list :: lnode
  gb_included_in_check_aperture :: bool
  gb_used_as_reloc_target :: bool
  gb_has_error :: bool
  gb_reusable :: bool
  gb_idle :: bool
  gb_is_userptr :: bool
  gb_reloc_tree_size :: int
  gb_reloc_tree_fences :: int
  gb_mapped_cpu_write :: bool

abbreviation gb_reloc_count :: "drm_intel_bo_gem \<Rightarrow> nat" where
  "gb_reloc_count b \<equiv> length (gb_reloc_target_info b)"

text \<open>\<open>calloc(1, sizeof(*bo_gem))\<close>.\<close>

definition bo_zero :: drm_intel_bo_gem where
  "bo_zero = \<lparr>gb_size = 0, gb_offset64 = 0, gb_virtual = 0, gb_refcount = 0, gb_gem_handle = 0, gb_global_name = 0,
     gb_name_list = LNull, gb_validate_index = 0, gb_tiling_mode = 0, gb_swizzle_mode = 0, gb_stride = 0,
     gb_free_time = 0, gb_relocs = None, gb_reloc_target_info = [], gb_reloc_max = 0, gb_mem_virtual = 0,
     gb_gtt_virtual = 0, gb_user_virtual = 0, gb_map_count = 0, gb_vma_list = LNull,
     gb_included_in_check_aperture = False, gb_used_as_reloc_target = False, gb_has_error = False,
     gb_reusable = False, gb_idle = False, gb_is_userptr = False, gb_reloc_tree_size = 0,
     gb_reloc_tree_fences = 0, gb_mapped_cpu_write = False\<rparr>"

record drm_i915_gem_exec_object2 =
  eo_handle :: u32
  eo_relocation_count :: nat
  eo_relocs :: "drm_i915_gem_relocation_entry list"
  eo_offset :: u64
  eo_flags :: u64

text \<open>A cache bucket: its size and the free buffers, oldest first.\<close>

record drm_intel_gem_bo_bucket =
  bk_size :: u64
  bk_head :: "addr list"

text \<open>
  The manager together with the memory: \<open>gm_bos\<close> are the buffer objects, \<open>gm_clock\<close> counts the
  requests to the kernel and the C library. The first \<open>exec_count\<close> slots of the execution arrays
  are the lists \<open>gm_exec_bos\<close> and \<open>gm_exec_objects\<close> (\<open>exec_objects\<close> or \<open>exec2_objects\<close>).
\<close>

record drm_intel_bufmgr_gem =
  gm_bos :: "drm_intel_bo_gem heap"
  gm_clock :: nat
  gm_max_relocs :: int
  gm_exec_bos :: "addr list"
  gm_exec_objects :: "drm_i915_gem_exec_object2 list"
  gm_exec_size :: int
  gm_cache_bucket :: "drm_intel_gem_bo_bucket list"
  gm_time :: int
  gm_named :: "addr list"
  gm_vma_cache :: "addr list"
  gm_vma_count :: int
  gm_vma_open :: int
  gm_vma_max :: int
  gm_gtt_size :: u64
  gm_available_fences :: int
  gm_pci_device :: u32
  gm_gen :: nat
  gm_has_bsd :: bool
  gm_has_blt :: bool
  gm_has_relaxed_fencing :: bool
  gm_has_llc :: bool
  gm_bo_reuse :: bool
  gm_no_exec :: bool
  gm_has_vebox :: bool
  gm_fenced_relocs :: bool
  gm_has_wait_timeout :: bool
  gm_has_userptr :: bool
  gm_exec2 :: bool

text \<open>\<open>gm_has_userptr\<close> and \<open>gm_exec2\<close> are the function pointers \<open>bo_alloc_userptr\<close>, set or \<open>NULL\<close>, and
  \<open>bo_exec\<close>, which is \<open>drm_intel_gem_bo_exec2\<close> or \<open>drm_intel_gem_bo_exec\<close>.\<close>

text \<open>\<open>calloc(1, sizeof(*bufmgr_gem))\<close>, with no buffer allocated yet and empty lists.\<close>

definition gem_zero :: drm_intel_bufmgr_gem where
  "gem_zero = \<lparr>gm_bos = \<lambda>_. None, gm_clock = 0, gm_max_relocs = 0, gm_exec_bos = [], gm_exec_objects = [],
     gm_exec_size = 0, gm_cache_bucket = [], gm_time = 0, gm_named = [], gm_vma_cache = [], gm_vma_count = 0,
     gm_vma_open = 0, gm_vma_max = 0, gm_gtt_size = 0, gm_available_fences = 0, gm_pci_device = 0, gm_gen = 0,
     gm_has_bsd = False, gm_has_blt = False, gm_has_relaxed_fencing = False, gm_has_llc = False,
     gm_bo_reuse = False, gm_no_exec = False, gm_has_vebox = False, gm_fenced_relocs = False,
     gm_has_wait_timeout = False, gm_has_userptr = False, gm_exec2 = False\<rparr>"

section \<open>The kernel\<close>

text \<open>
  What the \<open>n\<close>-th request is answered: \<open>calloc\<close> and \<open>malloc\<close>, and the ioctls with the return code
  (0 or \<open>-errno\<close>) and the fields the kernel fills in. \<open>drmIoctl\<close> repeats an interrupted request, so
  these are its final answers; \<open>set_tiling\<close> repeats its request itself.
\<close>

record gem_env =
  k_calloc :: "nat \<Rightarrow> drm_intel_bo_gem allocator"
  k_malloc :: "nat \<Rightarrow> bool"
  k_create :: "nat \<Rightarrow> u64 \<Rightarrow> int \<times> u32"
  k_userptr :: "nat \<Rightarrow> u64 \<Rightarrow> u64 \<Rightarrow> int \<times> u32"
  k_open :: "nat \<Rightarrow> u32 \<Rightarrow> int \<times> u32 \<times> u64"
  k_get_tiling :: "nat \<Rightarrow> u32 \<Rightarrow> int \<times> u32 \<times> u32"
  k_set_tiling :: "nat \<Rightarrow> u32 \<Rightarrow> u32 \<Rightarrow> u32 \<Rightarrow> int \<times> u32 \<times> u32 \<times> u32"
  k_flink :: "nat \<Rightarrow> u32 \<Rightarrow> int \<times> u32"
  k_fd_to_handle :: "nat \<Rightarrow> int \<Rightarrow> int \<times> u32"
  k_lseek :: "nat \<Rightarrow> int \<Rightarrow> int"
  k_handle_to_fd :: "nat \<Rightarrow> u32 \<Rightarrow> int \<times> int"
  k_busy :: "nat \<Rightarrow> u32 \<Rightarrow> int \<times> bool"
  k_madvise :: "nat \<Rightarrow> u32 \<Rightarrow> u32 \<Rightarrow> bool"
  k_mmap :: "nat \<Rightarrow> u32 \<Rightarrow> u64 \<Rightarrow> int \<times> u64"
  k_mmap_gtt :: "nat \<Rightarrow> u32 \<Rightarrow> u64 \<Rightarrow> int \<times> u64"
  k_sw_finish :: "nat \<Rightarrow> u32 \<Rightarrow> int"
  k_exec :: "nat \<Rightarrow> drm_i915_gem_exec_object2 list \<Rightarrow> int \<times> u64 list"
  k_pin :: "nat \<Rightarrow> u32 \<Rightarrow> u32 \<Rightarrow> int \<times> u64"
  k_unpin :: "nat \<Rightarrow> u32 \<Rightarrow> int"
  k_stack :: nat

text \<open>\<open>k_stack\<close> is the depth to which the recursive functions may nest.\<close>

text \<open>A kernel that grants every request, used to exercise the theorems.\<close>

definition sample_kernel :: gem_env where
  "sample_kernel = \<lparr>k_calloc = \<lambda>n s. if s (8 * Suc n) = None then Some (8 * Suc n) else None, k_malloc = \<lambda>_. True,
     k_create = \<lambda>n sz. (0, of_nat (Suc n)), k_userptr = \<lambda>n p sz. (0, of_nat (Suc n)),
     k_open = \<lambda>n name. (0, of_nat (Suc n), 4096), k_get_tiling = \<lambda>n h. (0, 0, 0),
     k_set_tiling = \<lambda>n h t s. (0, t, 0, s), k_flink = \<lambda>n h. (0, h + 100), k_fd_to_handle = \<lambda>n fd. (0, of_nat (Suc n)),
     k_lseek = \<lambda>n fd. 4096, k_handle_to_fd = \<lambda>n h. (0, 3), k_busy = \<lambda>n h. (0, False), k_madvise = \<lambda>n h s. True,
     k_mmap = \<lambda>n h sz. (0, of_nat (Suc n) * 4096), k_mmap_gtt = \<lambda>n h sz. (0, of_nat (Suc n) * 4096),
     k_sw_finish = \<lambda>n h. 0, k_exec = \<lambda>n objs. (0, map (\<lambda>i. of_nat (Suc i) * 4096) [0..<length objs]),
     k_pin = \<lambda>n h a. (0, 0), k_unpin = \<lambda>n h. 0, k_stack = 100\<rparr>"

text \<open>Loads and stores of buffer objects, and the tick of a request.\<close>

definition get_bo :: "drm_intel_bufmgr_gem \<Rightarrow> addr \<Rightarrow> drm_intel_bo_gem option" where
  "get_bo m bo = gm_bos m bo"

definition put_bo :: "drm_intel_bufmgr_gem \<Rightarrow> addr \<Rightarrow> (drm_intel_bo_gem \<Rightarrow> drm_intel_bo_gem) \<Rightarrow>
    drm_intel_bufmgr_gem option" where
  "put_bo m bo f = do { s \<leftarrow> wr (gm_bos m) bo f; Some (m\<lparr>gm_bos := s\<rparr>) }"

definition tick :: "drm_intel_bufmgr_gem \<Rightarrow> drm_intel_bufmgr_gem" where
  "tick m = m\<lparr>gm_clock := Suc (gm_clock m)\<rparr>"

primrec fold_o :: "('a \<Rightarrow> 's \<Rightarrow> 's option) \<Rightarrow> 'a list \<Rightarrow> 's \<Rightarrow> 's option" where
  "fold_o f [] s = Some s"
| "fold_o f (x # xs) s = do { s \<leftarrow> f x s; fold_o f xs s }"

text \<open>\<open>DRMLISTDEL\<close> of a buffer's node on the list of named buffers, and of its node on the list of
  unused mappings.\<close>

definition name_list_del :: "drm_intel_bufmgr_gem \<Rightarrow> addr \<Rightarrow> drm_intel_bufmgr_gem option" where
  "name_list_del m bo = do {
     b \<leftarrow> get_bo m bo;
     case gb_name_list b of
       LNull \<Rightarrow> None
     | LSelf \<Rightarrow> Some m
     | LIn \<Rightarrow> put_bo (m\<lparr>gm_named := remove1 bo (gm_named m)\<rparr>) bo (\<lambda>b. b\<lparr>gb_name_list := LStale\<rparr>)
     | LStale \<Rightarrow> None
   }"

definition vma_list_del :: "drm_intel_bufmgr_gem \<Rightarrow> addr \<Rightarrow> drm_intel_bufmgr_gem option" where
  "vma_list_del m bo = do {
     b \<leftarrow> get_bo m bo;
     case gb_vma_list b of
       LNull \<Rightarrow> None
     | LSelf \<Rightarrow> Some m
     | LIn \<Rightarrow> put_bo (m\<lparr>gm_vma_cache := remove1 bo (gm_vma_cache m)\<rparr>) bo (\<lambda>b. b\<lparr>gb_vma_list := LStale\<rparr>)
     | LStale \<Rightarrow> None
   }"

end
