(* ===== verification/Intel_Gem_Size.thy ===== *)
theory Intel_Gem_Size
  imports Intel_Gem_Types
begin

text \<open>
  Sizes in the GEM buffer manager: the pitch and size of tiled buffers, the room a buffer needs in
  the aperture, and the size classes of the buffer cache.
\<close>

section \<open>Tiled buffers\<close>

text \<open>\<open>for (i = min; i < size; i <<= 1)\<close>: the value \<open>i\<close> has behind the loop.\<close>

partial_function (option) shl_until :: "u64 \<Rightarrow> u64 \<Rightarrow> u64 option" where
  "shl_until i sz = (if i < sz then shl_until (push_bit 1 i) sz else Some i)"

definition ROUND_UP_TO :: "u64 \<Rightarrow> u64 \<Rightarrow> u64" where
  "ROUND_UP_TO x y = (x + y - 1) div y * y"

text \<open>The size to allocate, and the tiling mode the caller is left with.\<close>

definition drm_intel_gem_bo_tile_size :: "drm_intel_bufmgr_gem \<Rightarrow> u64 \<Rightarrow> u32 \<Rightarrow> (u64 \<times> u32) option" where
  "drm_intel_gem_bo_tile_size m sz tiling_mode =
    (if tiling_mode = I915_TILING_NONE then Some (sz, tiling_mode)
     else if gm_gen m \<ge> 4 then Some (ROUND_UP_TO sz 4096, tiling_mode)
     else
       let (min_size, max_size) = (if gm_gen m = 3 then (1024 * 1024, 128 * 1024 * 1024)
                                   else (512 * 1024, 64 * 1024 * 1024))
       in if sz > max_size then Some (sz, I915_TILING_NONE)
          else if gm_has_relaxed_fencing m then Some (ROUND_UP_TO sz 4096, tiling_mode)
          else do { i \<leftarrow> shl_until min_size sz; Some (i, tiling_mode) })"

definition drm_intel_gem_bo_tile_pitch :: "drm_intel_bufmgr_gem \<Rightarrow> u64 \<Rightarrow> u32 \<Rightarrow> (u64 \<times> u32) option" where
  "drm_intel_gem_bo_tile_pitch m pitch tiling_mode =
    (if tiling_mode = I915_TILING_NONE then Some (ALIGN pitch 64, tiling_mode)
     else
       let tile_width = (if tiling_mode = I915_TILING_X \<or> IS_915 (gm_pci_device m) \<and> tiling_mode = I915_TILING_Y
                         then 512 else 128)
       in if gm_gen m \<ge> 4 then Some (ROUND_UP_TO pitch tile_width, tiling_mode)
          else if pitch > 8192 then Some (ALIGN pitch 64, I915_TILING_NONE)
          else do { i \<leftarrow> shl_until tile_width pitch; Some (i, tiling_mode) })"

definition height_alignment :: "drm_intel_bufmgr_gem \<Rightarrow> u32 \<Rightarrow> u64" where
  "height_alignment m tiling =
    (if gm_gen m = 2 \<and> tiling \<noteq> I915_TILING_NONE then 16
     else if tiling = I915_TILING_X \<or> IS_915 (gm_pci_device m) \<and> tiling = I915_TILING_Y then 8
     else if tiling = I915_TILING_Y then 32
     else 2)"

text \<open>The loop of \<open>drm_intel_gem_bo_alloc_tiled\<close>: size, stride and tiling mode behind it.\<close>

partial_function (option) alloc_tiled_loop ::
  "drm_intel_bufmgr_gem \<Rightarrow> int \<Rightarrow> int \<Rightarrow> int \<Rightarrow> u32 \<Rightarrow> (u64 \<times> u64 \<times> u32) option" where
  "alloc_tiled_loop m x y cpp tiling_mode =
     (s32 (x * cpp)) \<bind> (\<lambda>w.
     (drm_intel_gem_bo_tile_pitch m (of_int w) tiling_mode) \<bind> (\<lambda>(stride, mode).
     (drm_intel_gem_bo_tile_size m (stride * ALIGN (of_int y) (height_alignment m tiling_mode)) mode) \<bind> (\<lambda>(sz, mode).
     if mode \<noteq> tiling_mode then alloc_tiled_loop m x y cpp mode
     else Some (sz, stride, tiling_mode))))"

section \<open>Room in the aperture\<close>

text \<open>\<open>while (min_size < size) min_size *= 2\<close> on \<open>int\<close>.\<close>

partial_function (option) min_size_loop :: "int \<Rightarrow> int \<Rightarrow> int option" where
  "min_size_loop min_size sz =
     (if min_size < sz then (s32 (min_size * 2)) \<bind> (\<lambda>n. min_size_loop n sz) else Some min_size)"

text \<open>An \<open>unsigned long\<close> assigned to an \<open>int\<close>.\<close>

definition to_int :: "u64 \<Rightarrow> int" where
  "to_int v = sint (ucast v :: u32)"

definition drm_intel_bo_gem_set_in_aperture_size ::
  "drm_intel_bufmgr_gem \<Rightarrow> addr \<Rightarrow> drm_intel_bufmgr_gem option" where
  "drm_intel_bo_gem_set_in_aperture_size m bo = do {
     b \<leftarrow> get_bo m bo;
     c_assert (\<not> gb_used_as_reloc_target b);
     let sz = to_int (gb_size b);
     sz \<leftarrow> (if gm_gen m < 4 \<and> gb_tiling_mode b \<noteq> I915_TILING_NONE then do {
         min_size \<leftarrow> (if gm_has_relaxed_fencing m
            then min_size_loop (if gm_gen m = 3 then 1024 * 1024 else 512 * 1024) sz else Some sz);
         s32 (2 * min_size)
       } else Some sz);
     put_bo m bo (\<lambda>b. b\<lparr>gb_reloc_tree_size := sz\<rparr>)
   }"

section \<open>Size classes\<close>

definition add_bucket :: "drm_intel_bufmgr_gem \<Rightarrow> int \<Rightarrow> drm_intel_bufmgr_gem option" where
  "add_bucket m sz = do {
     c_assert (length (gm_cache_bucket m) < 14 * 4);
     Some (m\<lparr>gm_cache_bucket := gm_cache_bucket m @ [\<lparr>bk_size = of_int sz, bk_head = []\<rparr>]\<rparr>)
   }"

partial_function (option) init_buckets_loop :: "u64 \<Rightarrow> drm_intel_bufmgr_gem \<Rightarrow> drm_intel_bufmgr_gem option" where
  "init_buckets_loop sz m =
     (if sz \<le> 64 * 1024 * 1024 then
        (fold_o (\<lambda>v m. add_bucket m (to_int v)) [sz, sz + sz * 1 div 4, sz + sz * 2 div 4, sz + sz * 3 div 4] m) \<bind>
          (\<lambda>m. init_buckets_loop (sz * 2) m)
      else Some m)"

definition init_cache_buckets :: "drm_intel_bufmgr_gem \<Rightarrow> drm_intel_bufmgr_gem option" where
  "init_cache_buckets m = do {
     m \<leftarrow> add_bucket m 4096;
     m \<leftarrow> add_bucket m (4096 * 2);
     m \<leftarrow> add_bucket m (4096 * 3);
     init_buckets_loop (4 * 4096) m
   }"

text \<open>The index of the bucket.\<close>

definition drm_intel_gem_bo_bucket_for_size :: "drm_intel_bufmgr_gem \<Rightarrow> u64 \<Rightarrow> nat option" where
  "drm_intel_gem_bo_bucket_for_size m sz =
     find (\<lambda>i. bk_size (gm_cache_bucket m ! i) \<ge> sz) [0..<length (gm_cache_bucket m)]"

section \<open>Loops\<close>

lemma shl_until_pow2:
  assumes "k \<le> n" "n < 64" "unat sz \<le> 2 ^ n"
  shows "\<exists>j. k \<le> j \<and> j \<le> n \<and> shl_until (2 ^ k) sz = Some (2 ^ j) \<and> unat sz \<le> 2 ^ j \<and> (j = k \<or> 2 ^ (j - 1) < unat sz)"
  using assms
proof (induction "n - k" arbitrary: k)
  case 0
  then have "k = n" by simp
  then have "\<not> (2 ^ k :: u64) < sz" using 0 unat_pow2_64 [of n] by (simp add: word_less_nat_alt)
  then show ?case using 0 \<open>k = n\<close> by (intro exI [of _ k]) (simp add: shl_until.simps)
next
  case (Suc d)
  show ?case
  proof (cases "(2 ^ k :: u64) < sz")
    case False
    then have "unat sz \<le> 2 ^ k" using Suc unat_pow2_64 [of k] by (simp add: word_less_nat_alt not_less)
    then show ?thesis using Suc False by (intro exI [of _ k]) (simp add: shl_until.simps)
  next
    case True
    have d: "d = n - Suc k" "Suc k \<le> n" using Suc.hyps(2) by simp_all
    have lt: "2 ^ k < unat sz" using True Suc unat_pow2_64 [of k] by (simp add: word_less_nat_alt)
    have "shl_until (2 ^ k) sz = shl_until (2 ^ Suc k) sz"
      using True by (simp add: shl_until.simps [of "2 ^ k"] push_bit_eq_mult mult.commute)
    moreover obtain j where "Suc k \<le> j" "j \<le> n" "shl_until (2 ^ Suc k) sz = Some (2 ^ j)" "unat sz \<le> 2 ^ j"
        "j = Suc k \<or> 2 ^ (j - 1) < unat sz"
      using Suc.hyps(1) [OF d] Suc.prems by blast
    ultimately show ?thesis using lt by (intro exI [of _ j]) auto
  qed
qed

lemma unat_ROUND_UP_TO:
  assumes "0 < unat y" "unat x + unat y < 2 ^ 64"
  shows "unat (ROUND_UP_TO x y) = align_up (unat x) (unat y)"
proof -
  have s: "unat (x + y) = unat x + unat y" by (rule unat_add_small) (use assms in simp)
  then have "unat (x + y - 1) = unat x + unat y - 1"
    using assms(1) by (metis One_nat_def add_gr_0 less_irrefl unat_0 unat_minus_one)
  then have d: "unat ((x + y - 1) div y) = cdiv (unat x) (unat y)" by (simp add: unat_div cdiv_def)
  have "cdiv (unat x) (unat y) * unat y < 2 ^ 64"
    using align_up_less [OF assms(1), of "unat x"] assms(2) by (simp add: align_up_def)
  then have "unat ((x + y - 1) div y) * unat y < 2 ^ LENGTH(64)" unfolding d by simp
  from unat_mult_small [OF this] show ?thesis by (simp add: ROUND_UP_TO_def d align_up_def)
qed

section \<open>Tiled buffers fit\<close>

text \<open>The width of a tile in bytes and its height in rows.\<close>

definition tile_width :: "drm_intel_bufmgr_gem \<Rightarrow> u32 \<Rightarrow> nat" where
  "tile_width m tiling =
    (if tiling = I915_TILING_NONE then 64
     else if tiling = I915_TILING_X \<or> IS_915 (gm_pci_device m) \<and> tiling = I915_TILING_Y then 512 else 128)"

text \<open>A legal pitch: whole tiles, and on the older chips a power of two of at most 8 KiB.\<close>

definition pitch_ok :: "drm_intel_bufmgr_gem \<Rightarrow> u32 \<Rightarrow> nat \<Rightarrow> bool" where
  "pitch_ok m tiling p \<longleftrightarrow> tile_width m tiling dvd p \<and>
     (gm_gen m < 4 \<and> tiling \<noteq> I915_TILING_NONE \<longrightarrow> p \<le> 8192 \<and> (\<exists>k. p = 2 ^ k))"

text \<open>A legal size: whole pages for a tiled buffer, and on the older chips without relaxed fencing a
  fence region, a power of two within the chip's bounds.\<close>

definition size_ok :: "drm_intel_bufmgr_gem \<Rightarrow> u32 \<Rightarrow> nat \<Rightarrow> bool" where
  "size_ok m tiling n \<longleftrightarrow> tiling \<noteq> I915_TILING_NONE \<longrightarrow> 4096 dvd n \<and>
     (gm_gen m < 4 \<longrightarrow> n \<le> (if gm_gen m = 3 then 2 ^ 27 else 2 ^ 26) \<and>
        (\<not> gm_has_relaxed_fencing m \<longrightarrow> (if gm_gen m = 3 then 2 ^ 20 else 2 ^ 19) \<le> n \<and> (\<exists>k. n = 2 ^ k)))"

lemma unat_ALIGN_numeral: "unat (v :: u64) < 2 ^ 63 \<Longrightarrow> k < 10 \<Longrightarrow> unat (ALIGN v (2 ^ k)) = align_up (unat v) (2 ^ k)"
proof -
  assume v: "unat v < 2 ^ 63" "k < 10"
  have "(2 :: nat) ^ k \<le> 2 ^ 10" using v(2) by (intro power_increasing) simp_all
  then show ?thesis using v by (intro unat_ALIGN_pow2) simp_all
qed

lemma tile_pitch_fits:
  assumes "unat pitch < 2 ^ 31"
  shows "\<exists>p mode. drm_intel_gem_bo_tile_pitch m pitch tiling = Some (p, mode) \<and> unat pitch \<le> unat p \<and>
    unat p < unat pitch + 2 ^ 14 \<and> (mode = tiling \<or> mode = I915_TILING_NONE) \<and> pitch_ok m mode (unat p)"
proof -
  have a: "unat (ALIGN pitch 64) = align_up (unat pitch) 64" using unat_ALIGN_numeral [of pitch 6] assms by simp
  note ge = align_up_ge [of 64 "unat pitch"] and lt = align_up_less [of 64 "unat pitch"]
  have none: "pitch_ok m I915_TILING_NONE (align_up (unat pitch) 64)" by (simp add: pitch_ok_def tile_width_def)
  consider "tiling = I915_TILING_NONE" | "tiling \<noteq> I915_TILING_NONE" "gm_gen m \<ge> 4"
    | "tiling \<noteq> I915_TILING_NONE" "gm_gen m < 4" "pitch > 8192" | "tiling \<noteq> I915_TILING_NONE" "gm_gen m < 4" "pitch \<le> 8192"
    by (meson not_less)
  then show ?thesis
  proof cases
    case 1
    then show ?thesis using a ge lt none by (simp add: drm_intel_gem_bo_tile_pitch_def)
  next
    case 2
    define tw :: u64 where "tw = (if tiling = I915_TILING_X \<or> IS_915 (gm_pci_device m) \<and> tiling = I915_TILING_Y then 512 else 128)"
    have tw: "unat tw = tile_width m tiling" "0 < tile_width m tiling" "tile_width m tiling \<le> 512"
      using 2 by (auto simp: tw_def tile_width_def)
    have u: "unat (ROUND_UP_TO pitch tw) = align_up (unat pitch) (tile_width m tiling)"
      using unat_ROUND_UP_TO [of tw pitch] tw assms by simp
    show ?thesis using 2 u align_up_ge [OF tw(2), of "unat pitch"] align_up_less [OF tw(2), of "unat pitch"] tw(3)
      by (simp add: drm_intel_gem_bo_tile_pitch_def pitch_ok_def flip: tw_def)
  next
    case 3
    then show ?thesis using a ge lt none by (simp add: drm_intel_gem_bo_tile_pitch_def Let_def)
  next
    case 4
    then have p: "unat pitch \<le> 2 ^ 13" by (simp add: word_le_nat_alt)
    define k :: nat where "k = (if tiling = I915_TILING_X \<or> IS_915 (gm_pci_device m) \<and> tiling = I915_TILING_Y then 9 else 7)"
    have k: "k \<le> 13" "2 ^ k = tile_width m tiling" using 4 by (auto simp: k_def tile_width_def)
    obtain j where j: "k \<le> j" "j \<le> 13" "shl_until (2 ^ k) pitch = Some (2 ^ j)" "unat pitch \<le> 2 ^ j"
      using shl_until_pow2 [OF k(1) _ p] by auto
    have u: "unat (2 ^ j :: u64) = 2 ^ j" using j(2) by (intro unat_pow2_64) simp
    have le: "(2 :: nat) ^ j \<le> 2 ^ 13" using j(2) by (intro power_increasing) simp_all
    have "tile_width m tiling dvd 2 ^ j" using k(2) j(1) by (metis le_imp_power_dvd)
    moreover have "drm_intel_gem_bo_tile_pitch m pitch tiling = Some (2 ^ j, tiling)"
      using 4 j(3) by (auto simp: drm_intel_gem_bo_tile_pitch_def k_def not_less split: if_splits)
    ultimately show ?thesis using j(4) le u by (auto simp: pitch_ok_def)
  qed
qed

lemma tile_size_fits:
  assumes "unat sz < 2 ^ 63"
  shows "\<exists>n mode. drm_intel_gem_bo_tile_size m sz tiling = Some (n, mode) \<and> unat sz \<le> unat n \<and>
    (mode = tiling \<or> mode = I915_TILING_NONE) \<and> size_ok m mode (unat n)"
proof -
  define k :: nat where "k = (if gm_gen m = 3 then 20 else 19)"
  define l :: nat where "l = (if gm_gen m = 3 then 27 else 26)"
  have r: "unat (ROUND_UP_TO sz 4096) = align_up (unat sz) 4096" using unat_ROUND_UP_TO [of 4096 sz] assms by simp
  note ge = align_up_ge [of 4096 "unat sz"]
  have mm: "(if gm_gen m = 3 then (1024 * 1024 :: u64, 128 * 1024 * 1024 :: u64) else (512 * 1024, 64 * 1024 * 1024)) =
      (2 ^ k, 2 ^ l)" by (simp add: k_def l_def)
  have l64: "unat (2 ^ l :: u64) = 2 ^ l" "12 \<le> l" "l < 64" by (simp_all add: l_def unat_pow2_64)
  have so: "size_ok m tiling n \<longleftrightarrow> tiling \<noteq> I915_TILING_NONE \<longrightarrow> 4096 dvd n \<and> (gm_gen m < 4 \<longrightarrow> n \<le> 2 ^ l \<and>
      (\<not> gm_has_relaxed_fencing m \<longrightarrow> 2 ^ k \<le> n \<and> (\<exists>i. n = 2 ^ i)))" for n
    by (simp add: size_ok_def k_def l_def)
  have kl: "k \<le> l" by (simp add: k_def l_def)
  consider "tiling = I915_TILING_NONE" | "tiling \<noteq> I915_TILING_NONE" "gm_gen m \<ge> 4"
    | "tiling \<noteq> I915_TILING_NONE" "gm_gen m < 4" "sz > 2 ^ l"
    | "tiling \<noteq> I915_TILING_NONE" "gm_gen m < 4" "sz \<le> 2 ^ l" "gm_has_relaxed_fencing m"
    | "tiling \<noteq> I915_TILING_NONE" "gm_gen m < 4" "sz \<le> 2 ^ l" "\<not> gm_has_relaxed_fencing m"
    by (meson not_less)
  then show ?thesis
  proof cases
    case 1
    then show ?thesis by (simp add: drm_intel_gem_bo_tile_size_def size_ok_def)
  next
    case 2
    then show ?thesis using r ge by (simp add: drm_intel_gem_bo_tile_size_def size_ok_def)
  next
    case 3
    then show ?thesis by (simp add: drm_intel_gem_bo_tile_size_def mm size_ok_def)
  next
    case 4
    have "unat sz \<le> 2 ^ l" using 4(3) l64 by (simp add: word_le_nat_alt)
    moreover have "(4096 :: nat) dvd 2 ^ l" using le_imp_power_dvd [OF l64(2), of "2 :: nat"] by simp
    ultimately have "align_up (unat sz) 4096 \<le> 2 ^ l" by (intro align_up_least) simp_all
    then show ?thesis using 4 r ge by (auto simp: drm_intel_gem_bo_tile_size_def mm size_ok_def l_def)
  next
    case 5
    have "unat sz \<le> 2 ^ l" using 5(3) l64 by (simp add: word_le_nat_alt)
    then obtain j where j: "k \<le> j" "j \<le> l" "shl_until (2 ^ k) sz = Some (2 ^ j)" "unat sz \<le> 2 ^ j"
      using shl_until_pow2 [OF kl l64(3)] by blast
    have u: "unat (2 ^ j :: u64) = 2 ^ j" using j(2) l64(3) by (intro unat_pow2_64) simp
    have le: "(2 :: nat) ^ j \<le> 2 ^ l" "(2 :: nat) ^ k \<le> 2 ^ j" using j(1,2) by (intro power_increasing; simp)+
    have "12 \<le> j" using j(1) by (simp add: k_def split: if_splits)
    then have "(4096 :: nat) dvd 2 ^ j" using le_imp_power_dvd [of 12 j "2 :: nat"] by simp
    then have "size_ok m tiling (2 ^ j)" unfolding so using le by blast
    moreover have "drm_intel_gem_bo_tile_size m sz tiling = Some (2 ^ j, tiling)"
      using 5 j(3) by (simp add: drm_intel_gem_bo_tile_size_def mm not_less)
    ultimately show ?thesis using j(4) u by auto
  qed
qed

text \<open>One round of the loop, and the loop: a second round is needed at most once, to redo the sizes
  of a buffer that cannot be tiled.\<close>

definition rows :: "drm_intel_bufmgr_gem \<Rightarrow> u32 \<Rightarrow> int \<Rightarrow> nat" where
  "rows m tiling y = align_up (nat y) (unat (height_alignment m tiling))"

definition tiled_ok :: "drm_intel_bufmgr_gem \<Rightarrow> int \<Rightarrow> int \<Rightarrow> u32 \<Rightarrow> u64 \<Rightarrow> u64 \<Rightarrow> bool" where
  "tiled_ok m w y tiling sz stride \<longleftrightarrow> nat w \<le> unat stride \<and> pitch_ok m tiling (unat stride) \<and>
     unat stride * rows m tiling y \<le> unat sz \<and> size_ok m tiling (unat sz)"

lemma unat_of_int_s32: "0 \<le> i \<Longrightarrow> in_s32 i \<Longrightarrow> unat (of_int i :: u64) = nat i"
proof -
  assume i: "0 \<le> i" "in_s32 i"
  have "unat (of_nat (nat i) :: u64) = nat i" using i by (intro unat_of_nat_small) (simp add: in_s32_def nat_less_iff)
  then show ?thesis using i(1) by (simp only: of_nat_nat)
qed

lemma rows_fit:
  assumes "0 \<le> y" "in_s32 y"
  shows "unat (ALIGN (of_int y) (height_alignment m tiling)) = rows m tiling y" "rows m tiling y < 2 ^ 31 + 32"
proof -
  obtain k where k: "height_alignment m tiling = 2 ^ k" "k < 6" "unat (height_alignment m tiling) = 2 ^ k"
  proof -
    have "height_alignment m tiling \<in> {2 ^ 1, 2 ^ 3, 2 ^ 4, 2 ^ 5}" by (simp add: height_alignment_def)
    then obtain k where "height_alignment m tiling = 2 ^ k" "k < 6" by (elim insertE emptyE) (rule that, assumption, simp)+
    then show thesis using that unat_pow2_64 [of k] by simp
  qed
  have y: "unat (of_int y :: u64) = nat y" "nat y < 2 ^ 31" using assms unat_of_int_s32 by (auto simp: in_s32_def)
  have "(2 :: nat) ^ k \<le> 2 ^ 5" using k(2) by (intro power_increasing) simp_all
  then show "rows m tiling y < 2 ^ 31 + 32" "unat (ALIGN (of_int y) (height_alignment m tiling)) = rows m tiling y"
    using align_up_less [of "2 ^ k" "nat y"] y k unat_ALIGN_numeral [of "of_int y" k] by (simp_all add: rows_def)
qed

lemma tiled_round:
  assumes "0 \<le> w" "in_s32 w" "0 \<le> y" "in_s32 y"
  obtains stride sz mode1 mode2 where
    "drm_intel_gem_bo_tile_pitch m (of_int w) tiling = Some (stride, mode1)"
    "drm_intel_gem_bo_tile_size m (stride * ALIGN (of_int y) (height_alignment m tiling)) mode1 = Some (sz, mode2)"
    "mode2 = tiling \<or> mode2 = I915_TILING_NONE" "mode2 = tiling \<Longrightarrow> tiled_ok m w y tiling sz stride"
proof -
  have w: "unat (of_int w :: u64) = nat w" "nat w < 2 ^ 31" using assms(1,2) unat_of_int_s32 by (auto simp: in_s32_def)
  obtain stride mode1 where p: "drm_intel_gem_bo_tile_pitch m (of_int w) tiling = Some (stride, mode1)"
      "nat w \<le> unat stride" "unat stride < nat w + 2 ^ 14" "mode1 = tiling \<or> mode1 = I915_TILING_NONE"
      "pitch_ok m mode1 (unat stride)"
    using tile_pitch_fits [of "of_int w" m tiling] w by auto
  let ?y = "ALIGN (of_int y) (height_alignment m tiling)"
  note r = rows_fit [OF assms(3,4), of m tiling]
  have "unat stride * rows m tiling y \<le> (2 ^ 31 + 2 ^ 14) * (2 ^ 31 + 32)"
    using p(3) w(2) r(2) by (intro mult_le_mono) simp_all
  then have lt: "unat stride * rows m tiling y < 2 ^ 63" by simp
  then have u: "unat (stride * ?y) = unat stride * rows m tiling y" using r(1) unat_mult_small [of stride ?y] by simp
  obtain sz mode2 where t: "drm_intel_gem_bo_tile_size m (stride * ?y) mode1 = Some (sz, mode2)"
      "unat stride * rows m tiling y \<le> unat sz" "mode2 = mode1 \<or> mode2 = I915_TILING_NONE" "size_ok m mode2 (unat sz)"
    using tile_size_fits [of "stride * ?y" m mode1] u lt by auto
  show thesis
  proof (rule that [OF p(1) t(1)])
    show "mode2 = tiling \<or> mode2 = I915_TILING_NONE" using p(4) t(3) by auto
    show "tiled_ok m w y tiling sz stride" if "mode2 = tiling"
      using that p t by (auto simp: tiled_ok_def)
  qed
qed

text \<open>C34. \<open>drm_intel_gem_bo_alloc_tiled\<close> settles on a layout: for any non-negative dimensions whose row
  fits an \<open>int\<close> the loop ends, with the requested tiling or none; the stride holds a row and is legal for
  the chip (whole tiles, a power of two of at most 8 KiB before the 965), and the size holds all rows,
  rounded up to the tile height, and is a legal fence region where the chip needs one.\<close>

theorem alloc_tiled_layout:
  assumes "0 \<le> x * cpp" "in_s32 (x * cpp)" "0 \<le> y" "in_s32 y"
  shows "\<exists>sz stride tiling'. alloc_tiled_loop m x y cpp tiling = Some (sz, stride, tiling') \<and>
    (tiling' = tiling \<or> tiling' = I915_TILING_NONE) \<and> tiled_ok m (x * cpp) y tiling' sz stride"
proof -
  have step: "\<exists>sz stride. alloc_tiled_loop m x y cpp t = Some (sz, stride, t) \<and> tiled_ok m (x * cpp) y t sz stride \<or>
      t \<noteq> I915_TILING_NONE \<and> alloc_tiled_loop m x y cpp t = alloc_tiled_loop m x y cpp I915_TILING_NONE" for t
  proof -
    obtain stride sz mode1 mode2 where r:
      "drm_intel_gem_bo_tile_pitch m (of_int (x * cpp)) t = Some (stride, mode1)"
      "drm_intel_gem_bo_tile_size m (stride * ALIGN (of_int y) (height_alignment m t)) mode1 = Some (sz, mode2)"
      "mode2 = t \<or> mode2 = I915_TILING_NONE" "mode2 = t \<Longrightarrow> tiled_ok m (x * cpp) y t sz stride"
      using tiled_round [OF assms, of m t] by metis
    have "alloc_tiled_loop m x y cpp t = (if mode2 \<noteq> t then alloc_tiled_loop m x y cpp mode2 else Some (sz, stride, t))"
      unfolding alloc_tiled_loop.simps [of m x y cpp t] using assms(2) r(1,2) by (simp add: del: of_int_mult)
    then show ?thesis using r(3,4) by (cases "mode2 = t") auto
  qed
  from step [of tiling] step [of I915_TILING_NONE] show ?thesis by metis
qed

theorem alloc_tiled_layout_witness:
  "\<exists>sz stride tiling'. alloc_tiled_loop (gem_zero\<lparr>gm_gen := 3, gm_pci_device := 0x2582\<rparr>) 300 100 4 I915_TILING_X =
      Some (sz, stride, tiling') \<and> (tiling' = I915_TILING_X \<or> tiling' = I915_TILING_NONE) \<and>
     tiled_ok (gem_zero\<lparr>gm_gen := 3, gm_pci_device := 0x2582\<rparr>) 1200 100 tiling' sz stride"
  using alloc_tiled_layout [of 300 4 100 "gem_zero\<lparr>gm_gen := 3, gm_pci_device := 0x2582\<rparr>" I915_TILING_X]
  by (simp add: in_s32_def)

section \<open>Size classes\<close>

lemma add_bucket_eq:
  "length (gm_cache_bucket m) < 56 \<Longrightarrow>
   add_bucket m sz = Some (m\<lparr>gm_cache_bucket := gm_cache_bucket m @ [\<lparr>bk_size = of_int sz, bk_head = []\<rparr>]\<rparr>)"
  by (simp add: add_bucket_def)

lemma signed_take_bit_nat: "n < 2 ^ 31 \<Longrightarrow> signed_take_bit 31 (int n) = int n"
  by (intro signed_take_bit_int_eq_self) simp_all

lemma to_int_small: "unat v < 2 ^ 31 \<Longrightarrow> of_int (to_int v) = v"
proof -
  assume v: "unat v < 2 ^ 31"
  have "unat (ucast v :: u32) = unat v" using v by (simp add: unsigned_ucast_eq take_bit_nat_eq_self)
  then have u: "uint (ucast v :: u32) = int (unat v)" by (metis of_nat_unat uint_nat)
  have "to_int v = int (unat v)" unfolding to_int_def
    unfolding sint_uint u using signed_take_bit_nat [OF v] by simp
  then show ?thesis by simp
qed

definition bucket_of :: "nat \<Rightarrow> drm_intel_gem_bo_bucket" where
  "bucket_of n = \<lparr>bk_size = of_nat n, bk_head = []\<rparr>"

lemma add_bucket_nat:
  assumes "length (gm_cache_bucket m) < 56" "n < 2 ^ 31"
  shows "add_bucket m (to_int (of_nat n)) = Some (m\<lparr>gm_cache_bucket := gm_cache_bucket m @ [bucket_of n]\<rparr>)"
proof -
  have "unat (of_nat n :: u64) = n" using assms(2) by (intro unat_of_nat_small) simp
  then have "of_int (to_int (of_nat n)) = (of_nat n :: u64)" using assms(2) by (intro to_int_small) simp
  then show ?thesis using assms(1) by (simp add: add_bucket_eq bucket_of_def)
qed

lemma add_buckets_nat:
  assumes "length (gm_cache_bucket m) + length ns \<le> 56" "\<forall>n \<in> set ns. n < 2 ^ 31"
  shows "fold_o (\<lambda>v m. add_bucket m (to_int v)) (map of_nat ns) m =
    Some (m\<lparr>gm_cache_bucket := gm_cache_bucket m @ map bucket_of ns\<rparr>)"
  using assms by (induction ns arbitrary: m) (simp_all add: add_bucket_nat)

text \<open>Four classes: the words \<open>init_cache_buckets\<close> computes from a power of two.\<close>

definition four_sizes :: "nat \<Rightarrow> nat list" where
  "four_sizes n = [n, n + n div 4, n + 2 * n div 4, n + 3 * n div 4]"

lemma four_words:
  assumes "n < 2 ^ 60"
  shows "[of_nat n, of_nat n + of_nat n * 1 div 4, of_nat n + of_nat n * 2 div 4, of_nat n + of_nat n * 3 div 4] =
    map (of_nat :: nat \<Rightarrow> u64) (four_sizes n)"
proof -
  have "of_nat n * of_nat c div 4 = (of_nat (c * n div 4) :: u64)" if "c \<le> 3" for c
  proof -
    have "c * n \<le> 3 * n" using that by (intro mult_le_mono1)
    also have "3 * n < 2 ^ 64" using assms by simp
    finally have "c * n < 2 ^ 64" .
    then have u: "unat (of_nat (c * n) :: u64) = c * n" by (intro unat_of_nat_small) simp
    have "unat (of_nat (c * n) div 4 :: u64) = c * n div 4" by (simp add: unat_div u del: of_nat_mult)
    then have "of_nat (c * n) div 4 = (of_nat (c * n div 4) :: u64)" by (metis of_nat_unat ucast_id)
    then show ?thesis by (simp add: mult.commute)
  qed
  from this [of 1] this [of 2] this [of 3] show ?thesis by (simp add: four_sizes_def)
qed

lemma init_buckets_step:
  assumes "n \<le> 2 ^ 26" "length (gm_cache_bucket m) \<le> 52"
  shows "init_buckets_loop (of_nat n) m =
    init_buckets_loop (of_nat (2 * n)) (m\<lparr>gm_cache_bucket := gm_cache_bucket m @ map bucket_of (four_sizes n)\<rparr>)"
proof -
  have u: "unat (of_nat n :: u64) = n" using assms(1) by (intro unat_of_nat_small) simp
  have le: "of_nat n \<le> (64 * 1024 * 1024 :: u64)" using assms(1) by (simp add: word_le_nat_alt u)
  have "\<forall>v \<in> set (four_sizes n). v < 2 ^ 31" "length (four_sizes n) = 4" using assms(1) by (auto simp: four_sizes_def)
  then have "fold_o (\<lambda>v m. add_bucket m (to_int v)) (map of_nat (four_sizes n)) m =
      Some (m\<lparr>gm_cache_bucket := gm_cache_bucket m @ map bucket_of (four_sizes n)\<rparr>)"
    using assms(2) by (intro add_buckets_nat) simp_all
  then show ?thesis
    unfolding init_buckets_loop.simps [of "of_nat n"] using le four_words [of n] assms(1)
    by (simp add: mult.commute)
qed

lemma init_buckets_loop_eq:
  assumes "k \<le> 27" "length (gm_cache_bucket m) + 4 * (27 - k) \<le> 56"
  shows "init_buckets_loop (of_nat (2 ^ k)) m = Some (m\<lparr>gm_cache_bucket :=
    gm_cache_bucket m @ map bucket_of (concat (map (\<lambda>k. four_sizes (2 ^ k)) [k..<27]))\<rparr>)"
  using assms
proof (induction "27 - k" arbitrary: k m)
  case 0
  then have "k = 27" by simp
  then show ?case by (simp add: init_buckets_loop.simps)
next
  case (Suc d)
  have k: "k < 27" "d = 27 - Suc k" "Suc k \<le> 27" using Suc.hyps(2) by simp_all
  let ?m = "m\<lparr>gm_cache_bucket := gm_cache_bucket m @ map bucket_of (four_sizes (2 ^ k))\<rparr>"
  have "(2 :: nat) ^ k \<le> 2 ^ 26" using k(1) by (intro power_increasing) simp_all
  then have "init_buckets_loop (of_nat (2 ^ k)) m = init_buckets_loop (of_nat (2 ^ Suc k)) ?m"
    using init_buckets_step [of "2 ^ k" m] Suc.prems(2) k(1) by simp
  also have "\<dots> = Some (?m\<lparr>gm_cache_bucket :=
      gm_cache_bucket ?m @ map bucket_of (concat (map (\<lambda>k. four_sizes (2 ^ k)) [Suc k..<27]))\<rparr>)"
    using Suc.prems(2) k by (intro Suc.hyps(1)) (simp_all add: four_sizes_def)
  finally show ?case using k(1) by (simp add: upt_conv_Cons)
qed

lemma init_cache_buckets_eq:
  assumes "gm_cache_bucket m = []"
  shows "init_cache_buckets m = Some (m\<lparr>gm_cache_bucket := map bucket_of
    ([4096, 8192, 12288] @ concat (map (\<lambda>k. four_sizes (2 ^ k)) [14..<27]))\<rparr>)"
  using init_buckets_loop_eq [of 14] assms
  by (simp add: init_cache_buckets_def add_bucket_eq bucket_of_def del: upt_rec_numeral)

text \<open>The size classes, and what separates one from the next.\<close>

definition class_sizes :: "nat list" where
  "class_sizes = [4096, 8192, 12288] @ concat (map (\<lambda>k. four_sizes (2 ^ k)) [14..<27])"

lemma class_list:
  "length class_sizes = 55" "hd class_sizes = 4096" "last class_sizes = 117440512"
  "list_all (\<lambda>(a, b). a < b \<and> b \<le> a + max 4096 (a div 4)) (zip class_sizes (tl class_sizes))"
proof -
  have u: "[14..<27] = [14, 15, 16, 17, 18, 19, 20, 21, 22, 23, 24, 25, 26]" by (simp add: upt_rec)
  show "length class_sizes = 55" "hd class_sizes = 4096" "last class_sizes = 117440512"
    "list_all (\<lambda>(a, b). a < b \<and> b \<le> a + max 4096 (a div 4)) (zip class_sizes (tl class_sizes))"
    unfolding class_sizes_def u by (simp_all add: four_sizes_def)
qed

lemma class_ends: "class_sizes ! 0 = 4096" "class_sizes ! 54 = 117440512"
proof -
  have "class_sizes \<noteq> []" using class_list(1) by auto
  then show "class_sizes ! 0 = 4096" "class_sizes ! 54 = 117440512"
    using class_list(1-3) hd_conv_nth last_conv_nth by fastforce+
qed

lemma class_step:
  assumes "Suc i < 55"
  shows "class_sizes ! i < class_sizes ! Suc i"
    "class_sizes ! Suc i \<le> class_sizes ! i + max 4096 (class_sizes ! i div 4)"
proof -
  let ?z = "zip class_sizes (tl class_sizes)"
  have "i < length ?z" "?z ! i = (class_sizes ! i, class_sizes ! Suc i)" using assms class_list(1) by (simp_all add: nth_tl)
  then have "(class_sizes ! i, class_sizes ! Suc i) \<in> set ?z" by (metis nth_mem)
  then show "class_sizes ! i < class_sizes ! Suc i" "class_sizes ! Suc i \<le> class_sizes ! i + max 4096 (class_sizes ! i div 4)"
    using class_list(4) by (auto simp: list_all_iff)
qed

lemma class_sizes_mono: "i \<le> j \<Longrightarrow> j < 55 \<Longrightarrow> class_sizes ! i \<le> class_sizes ! j"
proof (induction j)
  case (Suc j)
  then show ?case using class_step(1) [of j] by (cases "i = Suc j") (simp_all add: le_Suc_eq)
qed simp

lemma class_sizes_le: "i < 55 \<Longrightarrow> class_sizes ! i \<le> 117440512"
  using class_sizes_mono [of i 54] class_ends(2) by simp



end
