(* ===== verification/Intel_Gem_Bo.thy ===== *)
theory Intel_Gem_Bo
  imports Intel_Gem_Size
begin

text \<open>
  Buffer objects of the GEM buffer manager: allocation through the cache of free buffers, reference
  counts, sharing by name and by file descriptor, and CPU mappings.
\<close>

section \<open>Freeing\<close>

text \<open>\<open>drm_munmap\<close> of a mapping that is there.\<close>

definition count_unmap :: "u64 \<Rightarrow> drm_intel_bufmgr_gem \<Rightarrow> drm_intel_bufmgr_gem" where
  "count_unmap virt m = (if virt \<noteq> 0 then m\<lparr>gm_vma_count := gm_vma_count m - 1\<rparr> else m)"

definition count_map :: "u64 \<Rightarrow> drm_intel_bufmgr_gem \<Rightarrow> drm_intel_bufmgr_gem" where
  "count_map virt m = (if virt \<noteq> 0 then m\<lparr>gm_vma_count := gm_vma_count m + 1\<rparr> else m)"

definition drm_intel_gem_bo_free :: "drm_intel_bufmgr_gem \<Rightarrow> addr \<Rightarrow> drm_intel_bufmgr_gem option" where
  "drm_intel_gem_bo_free m bo = do {
     m \<leftarrow> vma_list_del m bo;
     b \<leftarrow> get_bo m bo;
     let m = tick (count_unmap (gb_gtt_virtual b) (count_unmap (gb_mem_virtual b) m));
     s \<leftarrow> dealloc (gm_bos m) bo;
     Some (m\<lparr>gm_bos := s\<rparr>)
   }"

section \<open>Requests\<close>

definition drm_intel_gem_bo_busy ::
  "gem_env \<Rightarrow> drm_intel_bufmgr_gem \<Rightarrow> addr \<Rightarrow> (bool \<times> drm_intel_bufmgr_gem) option" where
  "drm_intel_gem_bo_busy env m bo = do {
     b \<leftarrow> get_bo m bo;
     if gb_reusable b \<and> gb_idle b then Some (False, m)
     else
       let (r, busy) = k_busy env (gm_clock m) (gb_gem_handle b); m = tick m in
       if r = 0 then do {
         m \<leftarrow> put_bo m bo (\<lambda>b. b\<lparr>gb_idle := \<not> busy\<rparr>);
         Some (busy, m)
       }
       else Some (False, m)
   }"

text \<open>Whether the kernel kept the pages.\<close>

definition drm_intel_gem_bo_madvise_internal ::
  "gem_env \<Rightarrow> drm_intel_bufmgr_gem \<Rightarrow> addr \<Rightarrow> u32 \<Rightarrow> (bool \<times> drm_intel_bufmgr_gem) option" where
  "drm_intel_gem_bo_madvise_internal env m bo state = do {
     b \<leftarrow> get_bo m bo;
     Some (k_madvise env (gm_clock m) (gb_gem_handle b) state, tick m)
   }"

partial_function (option) set_tiling_loop ::
  "gem_env \<Rightarrow> u32 \<Rightarrow> u32 \<Rightarrow> u32 \<Rightarrow> drm_intel_bufmgr_gem \<Rightarrow> ((int \<times> u32 \<times> u32 \<times> u32) \<times> drm_intel_bufmgr_gem) option" where
  "set_tiling_loop env handle tiling_mode stride m =
     (let ans = k_set_tiling env (gm_clock m) handle tiling_mode stride in
      if fst ans = - EINTR \<or> fst ans = - EAGAIN then set_tiling_loop env handle tiling_mode stride (tick m)
      else Some (ans, tick m))"

definition drm_intel_gem_bo_set_tiling_internal ::
  "gem_env \<Rightarrow> drm_intel_bufmgr_gem \<Rightarrow> addr \<Rightarrow> u32 \<Rightarrow> u32 \<Rightarrow> (int \<times> drm_intel_bufmgr_gem) option" where
  "drm_intel_gem_bo_set_tiling_internal env m bo tiling_mode stride = do {
     b \<leftarrow> get_bo m bo;
     if gb_global_name b = 0 \<and> tiling_mode = gb_tiling_mode b \<and> ucast stride = gb_stride b then Some (0, m)
     else do {
       ((r, t, sw, st), m) \<leftarrow> set_tiling_loop env (gb_gem_handle b) tiling_mode stride m;
       if r \<noteq> 0 then Some (r, m)
       else do {
         m \<leftarrow> put_bo m bo (\<lambda>b. b\<lparr>gb_tiling_mode := t, gb_swizzle_mode := sw, gb_stride := ucast st\<rparr>);
         Some (0, m)
       }
     }
   }"

definition drm_intel_gem_bo_set_tiling ::
  "gem_env \<Rightarrow> drm_intel_bufmgr_gem \<Rightarrow> addr \<Rightarrow> u32 \<Rightarrow> u32 \<Rightarrow> (int \<times> u32 \<times> drm_intel_bufmgr_gem) option" where
  "drm_intel_gem_bo_set_tiling env m bo tiling_mode stride = do {
     b \<leftarrow> get_bo m bo;
     if gb_is_userptr b then Some (- EINVAL, tiling_mode, m)
     else do {
       let stride = (if tiling_mode = I915_TILING_NONE then 0 else stride);
       (r, m) \<leftarrow> drm_intel_gem_bo_set_tiling_internal env m bo tiling_mode stride;
       m \<leftarrow> (if r = 0 then drm_intel_bo_gem_set_in_aperture_size m bo else Some m);
       b \<leftarrow> get_bo m bo;
       Some (r, gb_tiling_mode b, m)
     }
   }"

section \<open>The cache\<close>

definition bucket_head :: "drm_intel_bufmgr_gem \<Rightarrow> nat \<Rightarrow> addr list" where
  "bucket_head m i = bk_head (gm_cache_bucket m ! i)"

definition set_bucket :: "drm_intel_bufmgr_gem \<Rightarrow> nat \<Rightarrow> addr list \<Rightarrow> drm_intel_bufmgr_gem" where
  "set_bucket m i bos = m\<lparr>gm_cache_bucket := (gm_cache_bucket m)[i := (gm_cache_bucket m ! i)\<lparr>bk_head := bos\<rparr>]\<rparr>"

partial_function (option) drm_intel_gem_bo_cache_purge_bucket ::
  "gem_env \<Rightarrow> nat \<Rightarrow> drm_intel_bufmgr_gem \<Rightarrow> drm_intel_bufmgr_gem option" where
  "drm_intel_gem_bo_cache_purge_bucket env i m =
     (case bucket_head m i of
        [] \<Rightarrow> Some m
      | bo # rest \<Rightarrow>
          (drm_intel_gem_bo_madvise_internal env m bo I915_MADV_DONTNEED) \<bind> (\<lambda>(retained, m).
          if retained then Some m
          else (drm_intel_gem_bo_free (set_bucket m i rest) bo) \<bind> (\<lambda>m.
            drm_intel_gem_bo_cache_purge_bucket env i m)))"

text \<open>The loop at \<open>retry:\<close>, for the bucket \<open>i\<close>: the cached buffer, or \<open>None\<close> when there is none to
  reuse.\<close>

partial_function (option) alloc_from_cache ::
  "gem_env \<Rightarrow> bool \<Rightarrow> u32 \<Rightarrow> u32 \<Rightarrow> nat \<Rightarrow> drm_intel_bufmgr_gem \<Rightarrow> (addr option \<times> drm_intel_bufmgr_gem) option" where
  "alloc_from_cache env for_render tiling_mode stride i m =
     (case bucket_head m i of
        [] \<Rightarrow> Some (None, m)
      | bo # rest \<Rightarrow>
          (if for_render then Some (Some (last (bo # rest)), set_bucket m i (butlast (bo # rest)))
           else (drm_intel_gem_bo_busy env m bo) \<bind> (\<lambda>(busy, m).
             Some (if busy then (None, m) else (Some bo, set_bucket m i rest)))) \<bind> (\<lambda>(found, m).
          case found of
            None \<Rightarrow> Some (None, m)
          | Some bo \<Rightarrow>
              (drm_intel_gem_bo_madvise_internal env m bo I915_MADV_WILLNEED) \<bind> (\<lambda>(retained, m).
              if \<not> retained then
                (drm_intel_gem_bo_free m bo) \<bind> (\<lambda>m.
                (drm_intel_gem_bo_cache_purge_bucket env i m) \<bind> (\<lambda>m.
                alloc_from_cache env for_render tiling_mode stride i m))
              else
                (drm_intel_gem_bo_set_tiling_internal env m bo tiling_mode stride) \<bind> (\<lambda>(r, m).
                if r \<noteq> 0 then
                  (drm_intel_gem_bo_free m bo) \<bind> (\<lambda>m.
                  alloc_from_cache env for_render tiling_mode stride i m)
                else Some (Some bo, m)))))"

text \<open>The other branch: a new kernel object.\<close>

definition alloc_new ::
  "gem_env \<Rightarrow> u64 \<Rightarrow> u32 \<Rightarrow> u32 \<Rightarrow> drm_intel_bufmgr_gem \<Rightarrow> (addr option \<times> drm_intel_bufmgr_gem) option" where
  "alloc_new env bo_size tiling_mode stride m =
    (case k_calloc env (gm_clock m) (gm_bos m) of
       None \<Rightarrow> Some (None, m)
     | Some bo \<Rightarrow>
         let m = m\<lparr>gm_bos := (gm_bos m)(bo \<mapsto> bo_zero\<lparr>gb_size := bo_size\<rparr>)\<rparr>;
             (r, handle) = k_create env (gm_clock m) bo_size;
             m = tick m in
         if r \<noteq> 0 then do { s \<leftarrow> dealloc (gm_bos m) bo; Some (None, m\<lparr>gm_bos := s\<rparr>) }
         else do {
           m \<leftarrow> put_bo m bo (\<lambda>b. b\<lparr>gb_gem_handle := handle, gb_tiling_mode := I915_TILING_NONE,
             gb_swizzle_mode := I915_BIT_6_SWIZZLE_NONE, gb_stride := 0\<rparr>);
           (r, m) \<leftarrow> drm_intel_gem_bo_set_tiling_internal env m bo tiling_mode stride;
           if r \<noteq> 0 then do { m \<leftarrow> drm_intel_gem_bo_free m bo; Some (None, m) }
           else do {
             m \<leftarrow> put_bo m bo (\<lambda>b. b\<lparr>gb_name_list := LSelf, gb_vma_list := LSelf\<rparr>);
             Some (Some bo, m)
           }
         })"

text \<open>\<open>page_size\<close> is the value of \<open>getpagesize()\<close>.\<close>

definition drm_intel_gem_bo_alloc_internal ::
  "gem_env \<Rightarrow> u32 \<Rightarrow> u64 \<Rightarrow> u64 \<Rightarrow> u32 \<Rightarrow> u64 \<Rightarrow> drm_intel_bufmgr_gem \<Rightarrow> (addr option \<times> drm_intel_bufmgr_gem) option" where
  "drm_intel_gem_bo_alloc_internal env page_size sz flags tiling_mode stride m = do {
     let for_render = (flags AND BO_ALLOC_FOR_RENDER \<noteq> 0);
     let bucket = drm_intel_gem_bo_bucket_for_size m sz;
     let bo_size = (case bucket of None \<Rightarrow> max sz (ucast page_size) | Some i \<Rightarrow> bk_size (gm_cache_bucket m ! i));
     (found, m) \<leftarrow> (case bucket of None \<Rightarrow> Some (None, m)
        | Some i \<Rightarrow> alloc_from_cache env for_render tiling_mode (ucast stride) i m);
     (found, m) \<leftarrow> (case found of Some bo \<Rightarrow> Some (Some bo, m)
        | None \<Rightarrow> alloc_new env bo_size tiling_mode (ucast stride) m);
     case found of
       None \<Rightarrow> Some (None, m)
     | Some bo \<Rightarrow> do {
         m \<leftarrow> put_bo m bo (\<lambda>b. b\<lparr>gb_refcount := 1, gb_validate_index := -1, gb_reloc_tree_fences := 0,
           gb_used_as_reloc_target := False, gb_has_error := False, gb_reusable := True\<rparr>);
         m \<leftarrow> drm_intel_bo_gem_set_in_aperture_size m bo;
         Some (Some bo, m)
       }
   }"

definition drm_intel_gem_bo_alloc_for_render ::
  "gem_env \<Rightarrow> u32 \<Rightarrow> u64 \<Rightarrow> drm_intel_bufmgr_gem \<Rightarrow> (addr option \<times> drm_intel_bufmgr_gem) option" where
  "drm_intel_gem_bo_alloc_for_render env page_size sz m =
     drm_intel_gem_bo_alloc_internal env page_size sz BO_ALLOC_FOR_RENDER I915_TILING_NONE 0 m"

definition drm_intel_gem_bo_alloc ::
  "gem_env \<Rightarrow> u32 \<Rightarrow> u64 \<Rightarrow> drm_intel_bufmgr_gem \<Rightarrow> (addr option \<times> drm_intel_bufmgr_gem) option" where
  "drm_intel_gem_bo_alloc env page_size sz m =
     drm_intel_gem_bo_alloc_internal env page_size sz 0 I915_TILING_NONE 0 m"

text \<open>The buffer with the tiling mode and the pitch it got.\<close>

definition drm_intel_gem_bo_alloc_tiled ::
  "gem_env \<Rightarrow> u32 \<Rightarrow> int \<Rightarrow> int \<Rightarrow> int \<Rightarrow> u32 \<Rightarrow> u64 \<Rightarrow> drm_intel_bufmgr_gem \<Rightarrow>
   (addr option \<times> u32 \<times> u64 \<times> drm_intel_bufmgr_gem) option" where
  "drm_intel_gem_bo_alloc_tiled env page_size x y cpp tiling_mode flags m = do {
     (sz, pitch, tiling) \<leftarrow> alloc_tiled_loop m x y cpp tiling_mode;
     let stride = (if tiling = I915_TILING_NONE then 0 else pitch);
     (bo, m) \<leftarrow> drm_intel_gem_bo_alloc_internal env page_size sz flags tiling stride m;
     Some (bo, tiling, pitch, m)
   }"

definition drm_intel_gem_bo_alloc_userptr ::
  "gem_env \<Rightarrow> u64 \<Rightarrow> u32 \<Rightarrow> u64 \<Rightarrow> u64 \<Rightarrow> drm_intel_bufmgr_gem \<Rightarrow> (addr option \<times> drm_intel_bufmgr_gem) option" where
  "drm_intel_gem_bo_alloc_userptr env user tiling_mode sz flags m =
    (if tiling_mode \<noteq> I915_TILING_NONE then Some (None, m)
     else case k_calloc env (gm_clock m) (gm_bos m) of
       None \<Rightarrow> Some (None, m)
     | Some bo \<Rightarrow>
         let (r, handle) = k_userptr env (gm_clock m) user sz; m = tick m in
         if r \<noteq> 0 then Some (None, m)
         else do {
           let m = m\<lparr>gm_bos := (gm_bos m)(bo \<mapsto> bo_zero\<lparr>gb_size := sz, gb_gem_handle := handle,
             gb_is_userptr := True, gb_virtual := user, gb_user_virtual := user, gb_tiling_mode := I915_TILING_NONE,
             gb_swizzle_mode := I915_BIT_6_SWIZZLE_NONE, gb_stride := 0, gb_name_list := LSelf, gb_vma_list := LSelf,
             gb_refcount := 1, gb_validate_index := -1, gb_reloc_tree_fences := 0, gb_used_as_reloc_target := False,
             gb_has_error := False, gb_reusable := False\<rparr>)\<rparr>;
           m \<leftarrow> drm_intel_bo_gem_set_in_aperture_size m bo;
           Some (Some bo, m)
         })"

text \<open>One bucket of \<open>drm_intel_gem_cleanup_bo_cache\<close>, and the buckets from the \<open>i\<close>-th on.\<close>

partial_function (option) cleanup_bucket :: "int \<Rightarrow> nat \<Rightarrow> drm_intel_bufmgr_gem \<Rightarrow> drm_intel_bufmgr_gem option" where
  "cleanup_bucket time i m =
     (case bucket_head m i of
        [] \<Rightarrow> Some m
      | bo # rest \<Rightarrow> (get_bo m bo) \<bind> (\<lambda>b.
          if time - gb_free_time b \<le> 1 then Some m
          else (drm_intel_gem_bo_free (set_bucket m i rest) bo) \<bind> (\<lambda>m. cleanup_bucket time i m)))"

definition drm_intel_gem_cleanup_bo_cache :: "int \<Rightarrow> drm_intel_bufmgr_gem \<Rightarrow> drm_intel_bufmgr_gem option" where
  "drm_intel_gem_cleanup_bo_cache time m =
    (if gm_time m = time then Some m
     else do {
       m \<leftarrow> fold_o (cleanup_bucket time) [0..<length (gm_cache_bucket m)] m;
       Some (m\<lparr>gm_time := time\<rparr>)
     })"

section \<open>Unused mappings\<close>

partial_function (option) purge_vma_loop :: "int \<Rightarrow> drm_intel_bufmgr_gem \<Rightarrow> drm_intel_bufmgr_gem option" where
  "purge_vma_loop limit m =
     (if gm_vma_count m > limit then
        case gm_vma_cache m of
          [] \<Rightarrow> None
        | bo # rest \<Rightarrow> (get_bo m bo) \<bind> (\<lambda>b.
            (c_assert (gb_map_count b = 0)) \<bind> (\<lambda>_.
            (put_bo (count_unmap (gb_gtt_virtual b) (count_unmap (gb_mem_virtual b) (m\<lparr>gm_vma_cache := rest\<rparr>))) bo
               (\<lambda>b. b\<lparr>gb_vma_list := LSelf, gb_mem_virtual := 0, gb_gtt_virtual := 0\<rparr>)) \<bind> (\<lambda>m.
            purge_vma_loop limit m)))
      else Some m)"

definition drm_intel_gem_bo_purge_vma_cache :: "drm_intel_bufmgr_gem \<Rightarrow> drm_intel_bufmgr_gem option" where
  "drm_intel_gem_bo_purge_vma_cache m =
    (if gm_vma_max m < 0 then Some m
     else purge_vma_loop (max 0 (gm_vma_max m - 2 * gm_vma_open m)) m)"

definition drm_intel_gem_bo_close_vma :: "drm_intel_bufmgr_gem \<Rightarrow> addr \<Rightarrow> drm_intel_bufmgr_gem option" where
  "drm_intel_gem_bo_close_vma m bo = do {
     b \<leftarrow> get_bo m bo;
     let m = m\<lparr>gm_vma_open := gm_vma_open m - 1, gm_vma_cache := gm_vma_cache m @ [bo]\<rparr>;
     m \<leftarrow> put_bo m bo (\<lambda>b. b\<lparr>gb_vma_list := LIn\<rparr>);
     drm_intel_gem_bo_purge_vma_cache (count_map (gb_gtt_virtual b) (count_map (gb_mem_virtual b) m))
   }"

definition drm_intel_gem_bo_open_vma :: "drm_intel_bufmgr_gem \<Rightarrow> addr \<Rightarrow> drm_intel_bufmgr_gem option" where
  "drm_intel_gem_bo_open_vma m bo = do {
     m \<leftarrow> vma_list_del (m\<lparr>gm_vma_open := gm_vma_open m + 1\<rparr>) bo;
     b \<leftarrow> get_bo m bo;
     drm_intel_gem_bo_purge_vma_cache (count_unmap (gb_gtt_virtual b) (count_unmap (gb_mem_virtual b) m))
   }"

definition drm_intel_bufmgr_gem_set_vma_cache_size :: "int \<Rightarrow> drm_intel_bufmgr_gem \<Rightarrow> drm_intel_bufmgr_gem option" where
  "drm_intel_bufmgr_gem_set_vma_cache_size limit m = drm_intel_gem_bo_purge_vma_cache (m\<lparr>gm_vma_max := limit\<rparr>)"

section \<open>References\<close>

definition drm_intel_gem_bo_reference :: "drm_intel_bufmgr_gem \<Rightarrow> addr \<Rightarrow> drm_intel_bufmgr_gem option" where
  "drm_intel_gem_bo_reference m bo = put_bo m bo (\<lambda>b. b\<lparr>gb_refcount := gb_refcount b + 1\<rparr>)"

text \<open>\<open>unref\<close> is \<open>drm_intel_gem_bo_unreference_locked_timed\<close>, which recurses through this function.\<close>

definition drm_intel_gem_bo_unreference_final ::
  "gem_env \<Rightarrow> (addr \<Rightarrow> drm_intel_bufmgr_gem \<Rightarrow> drm_intel_bufmgr_gem option) \<Rightarrow> int \<Rightarrow> addr \<Rightarrow>
   drm_intel_bufmgr_gem \<Rightarrow> drm_intel_bufmgr_gem option" where
  "drm_intel_gem_bo_unreference_final env unref time bo m = do {
     b \<leftarrow> get_bo m bo;
     m \<leftarrow> fold_o (\<lambda>t m. if t \<noteq> bo then unref t m else Some m) (map rt_bo (gb_reloc_target_info b)) m;
     m \<leftarrow> put_bo m bo (\<lambda>b. b\<lparr>gb_reloc_target_info := [], gb_used_as_reloc_target := False, gb_relocs := None,
       gb_reloc_max := 0\<rparr>);
     b \<leftarrow> get_bo m bo;
     m \<leftarrow> (if gb_map_count b \<noteq> 0 then do {
         m \<leftarrow> put_bo m bo (\<lambda>b. b\<lparr>gb_map_count := 0\<rparr>);
         drm_intel_gem_bo_close_vma m bo
       } else Some m);
     m \<leftarrow> name_list_del m bo;
     b \<leftarrow> get_bo m bo;
     let bucket = drm_intel_gem_bo_bucket_for_size m (gb_size b);
     case (if gm_bo_reuse m \<and> gb_reusable b then bucket else None) of
       None \<Rightarrow> drm_intel_gem_bo_free m bo
     | Some i \<Rightarrow> do {
         (retained, m) \<leftarrow> drm_intel_gem_bo_madvise_internal env m bo I915_MADV_DONTNEED;
         if retained then do {
           m \<leftarrow> put_bo m bo (\<lambda>b. b\<lparr>gb_free_time := time, gb_validate_index := -1\<rparr>);
           Some (set_bucket m i (bucket_head m i @ [bo]))
         }
         else drm_intel_gem_bo_free m bo
       }
   }"

primrec drm_intel_gem_bo_unreference_locked_timed ::
  "nat \<Rightarrow> gem_env \<Rightarrow> int \<Rightarrow> addr \<Rightarrow> drm_intel_bufmgr_gem \<Rightarrow> drm_intel_bufmgr_gem option" where
  "drm_intel_gem_bo_unreference_locked_timed 0 = (\<lambda>env time bo m. None)"
| "drm_intel_gem_bo_unreference_locked_timed (Suc n) = (\<lambda>env time bo m. do {
     b \<leftarrow> get_bo m bo;
     c_assert (gb_refcount b > 0);
     m \<leftarrow> put_bo m bo (\<lambda>b. b\<lparr>gb_refcount := gb_refcount b - 1\<rparr>);
     if gb_refcount b = 1
     then drm_intel_gem_bo_unreference_final env (drm_intel_gem_bo_unreference_locked_timed n env time) time bo m
     else Some m
   })"

text \<open>\<open>time\<close> is the second \<open>clock_gettime\<close> returns.\<close>

definition drm_intel_gem_bo_unreference ::
  "gem_env \<Rightarrow> int \<Rightarrow> addr \<Rightarrow> drm_intel_bufmgr_gem \<Rightarrow> drm_intel_bufmgr_gem option" where
  "drm_intel_gem_bo_unreference env time bo m = do {
     b \<leftarrow> get_bo m bo;
     c_assert (gb_refcount b > 0);
     m \<leftarrow> put_bo m bo (\<lambda>b. b\<lparr>gb_refcount := gb_refcount b - 1\<rparr>);
     if gb_refcount b = 1 then do {
       m \<leftarrow> drm_intel_gem_bo_unreference_final env
         (drm_intel_gem_bo_unreference_locked_timed (k_stack env) env time) time bo m;
       drm_intel_gem_cleanup_bo_cache time m
     }
     else Some m
   }"

section \<open>Sharing\<close>

text \<open>The first named buffer with a property.\<close>

definition find_named ::
  "(drm_intel_bo_gem \<Rightarrow> bool) \<Rightarrow> drm_intel_bufmgr_gem \<Rightarrow> addr option option" where
  "find_named P m = fold_o (\<lambda>bo found. case found of Some a \<Rightarrow> Some (Some a)
     | None \<Rightarrow> do { b \<leftarrow> get_bo m bo; Some (if P b then Some bo else None) }) (gm_named m) None"

definition drm_intel_bo_gem_create_from_name ::
  "gem_env \<Rightarrow> int \<Rightarrow> u32 \<Rightarrow> drm_intel_bufmgr_gem \<Rightarrow> (addr option \<times> drm_intel_bufmgr_gem) option" where
  "drm_intel_bo_gem_create_from_name env time handle m = do {
     found \<leftarrow> find_named (\<lambda>b. gb_global_name b = handle) m;
     case found of
       Some bo \<Rightarrow> do { m \<leftarrow> drm_intel_gem_bo_reference m bo; Some (Some bo, m) }
     | None \<Rightarrow> do {
         let (r, h, sz) = k_open env (gm_clock m) handle;
         let m = tick m;
         if r \<noteq> 0 then Some (None, m)
         else do {
           found \<leftarrow> find_named (\<lambda>b. gb_gem_handle b = h) m;
           case found of
             Some bo \<Rightarrow> do { m \<leftarrow> drm_intel_gem_bo_reference m bo; Some (Some bo, m) }
           | None \<Rightarrow>
               (case k_calloc env (gm_clock m) (gm_bos m) of
                  None \<Rightarrow> Some (None, m)
                | Some bo \<Rightarrow> do {
                    let m = m\<lparr>gm_bos := (gm_bos m)(bo \<mapsto> bo_zero\<lparr>gb_size := sz, gb_refcount := 1,
                      gb_validate_index := -1, gb_gem_handle := h, gb_global_name := handle, gb_reusable := False\<rparr>)\<rparr>;
                    let (r, t, sw) = k_get_tiling env (gm_clock m) h;
                    let m = tick m;
                    if r \<noteq> 0 then do {
                      m \<leftarrow> drm_intel_gem_bo_unreference env time bo m;
                      Some (None, m)
                    }
                    else do {
                      m \<leftarrow> put_bo m bo (\<lambda>b. b\<lparr>gb_tiling_mode := t, gb_swizzle_mode := sw\<rparr>);
                      m \<leftarrow> drm_intel_bo_gem_set_in_aperture_size m bo;
                      m \<leftarrow> put_bo m bo (\<lambda>b. b\<lparr>gb_vma_list := LSelf, gb_name_list := LIn\<rparr>);
                      Some (Some bo, m\<lparr>gm_named := gm_named m @ [bo]\<rparr>)
                    }
                  })
         }
       }
   }"

text \<open>The size of the object is what \<open>lseek\<close> finds, an \<open>int\<close> in the source, or the caller's guess.\<close>

definition drm_intel_bo_gem_create_from_prime ::
  "gem_env \<Rightarrow> int \<Rightarrow> int \<Rightarrow> int \<Rightarrow> drm_intel_bufmgr_gem \<Rightarrow> (addr option \<times> drm_intel_bufmgr_gem) option" where
  "drm_intel_bo_gem_create_from_prime env time prime_fd sz m = do {
     let (r, h) = k_fd_to_handle env (gm_clock m) prime_fd;
     let m = tick m;
     found \<leftarrow> find_named (\<lambda>b. gb_gem_handle b = h) m;
     case found of
       Some bo \<Rightarrow> do { m \<leftarrow> drm_intel_gem_bo_reference m bo; Some (Some bo, m) }
     | None \<Rightarrow>
         if r \<noteq> 0 then Some (None, m)
         else (case k_calloc env (gm_clock m) (gm_bos m) of
           None \<Rightarrow> Some (None, m)
         | Some bo \<Rightarrow> do {
             let l = k_lseek env (gm_clock m) prime_fd;
             let m = m\<lparr>gm_bos := (gm_bos m)(bo \<mapsto> bo_zero\<lparr>gb_size := of_int (if l \<noteq> -1 then l else sz),
               gb_gem_handle := h, gb_refcount := 1, gb_validate_index := -1, gb_reusable := False,
               gb_vma_list := LSelf, gb_name_list := LIn\<rparr>), gm_named := gm_named m @ [bo]\<rparr>;
             let (r, t, sw) = k_get_tiling env (gm_clock m) h;
             let m = tick m;
             if r \<noteq> 0 then do {
               m \<leftarrow> drm_intel_gem_bo_unreference env time bo m;
               Some (None, m)
             }
             else do {
               m \<leftarrow> put_bo m bo (\<lambda>b. b\<lparr>gb_tiling_mode := t, gb_swizzle_mode := sw\<rparr>);
               m \<leftarrow> drm_intel_bo_gem_set_in_aperture_size m bo;
               Some (Some bo, m)
             }
           })
   }"

text \<open>\<open>if (DRMLISTEMPTY(&bo_gem->name_list)) DRMLISTADDTAIL(...)\<close>: a node is its own successor only
  when it was initialised and is on no list.\<close>

definition name_list_add :: "drm_intel_bufmgr_gem \<Rightarrow> addr \<Rightarrow> drm_intel_bufmgr_gem option" where
  "name_list_add m bo = do {
     b \<leftarrow> get_bo m bo;
     if gb_name_list b = LSelf
     then put_bo (m\<lparr>gm_named := gm_named m @ [bo]\<rparr>) bo (\<lambda>b. b\<lparr>gb_name_list := LIn\<rparr>)
     else Some m
   }"

definition drm_intel_bo_gem_export_to_prime ::
  "gem_env \<Rightarrow> addr \<Rightarrow> drm_intel_bufmgr_gem \<Rightarrow> (int \<times> int \<times> drm_intel_bufmgr_gem) option" where
  "drm_intel_bo_gem_export_to_prime env bo m = do {
     m \<leftarrow> name_list_add m bo;
     b \<leftarrow> get_bo m bo;
     let (r, fd) = k_handle_to_fd env (gm_clock m) (gb_gem_handle b);
     let m = tick m;
     if r \<noteq> 0 then Some (r, fd, m)
     else do {
       m \<leftarrow> put_bo m bo (\<lambda>b. b\<lparr>gb_reusable := False\<rparr>);
       Some (0, fd, m)
     }
   }"

definition drm_intel_gem_bo_flink ::
  "gem_env \<Rightarrow> addr \<Rightarrow> drm_intel_bufmgr_gem \<Rightarrow> (int \<times> u32 \<times> drm_intel_bufmgr_gem) option" where
  "drm_intel_gem_bo_flink env bo m = do {
     b \<leftarrow> get_bo m bo;
     if gb_global_name b \<noteq> 0 then Some (0, gb_global_name b, m)
     else do {
       let (r, name) = k_flink env (gm_clock m) (gb_gem_handle b);
       let m = tick m;
       if r \<noteq> 0 then Some (r, 0, m)
       else do {
         m \<leftarrow> put_bo m bo (\<lambda>b. b\<lparr>gb_global_name := name, gb_reusable := False\<rparr>);
         m \<leftarrow> name_list_add m bo;
         Some (0, name, m)
       }
     }
   }"

definition drm_intel_gem_bo_disable_reuse :: "addr \<Rightarrow> drm_intel_bufmgr_gem \<Rightarrow> drm_intel_bufmgr_gem option" where
  "drm_intel_gem_bo_disable_reuse bo m = put_bo m bo (\<lambda>b. b\<lparr>gb_reusable := False\<rparr>)"

definition drm_intel_gem_bo_is_reusable :: "addr \<Rightarrow> drm_intel_bufmgr_gem \<Rightarrow> bool option" where
  "drm_intel_gem_bo_is_reusable bo m = map_option gb_reusable (get_bo m bo)"

section \<open>CPU mappings\<close>

text \<open>One more user of the mappings, and one less.\<close>

definition map_begin :: "addr \<Rightarrow> drm_intel_bufmgr_gem \<Rightarrow> drm_intel_bufmgr_gem option" where
  "map_begin bo m = do {
     b \<leftarrow> get_bo m bo;
     m \<leftarrow> put_bo m bo (\<lambda>b. b\<lparr>gb_map_count := gb_map_count b + 1\<rparr>);
     if gb_map_count b = 0 then drm_intel_gem_bo_open_vma m bo else Some m
   }"

definition map_end :: "addr \<Rightarrow> drm_intel_bufmgr_gem \<Rightarrow> drm_intel_bufmgr_gem option" where
  "map_end bo m = do {
     b \<leftarrow> get_bo m bo;
     m \<leftarrow> put_bo m bo (\<lambda>b. b\<lparr>gb_map_count := gb_map_count b - 1\<rparr>);
     if gb_map_count b = 1 then drm_intel_gem_bo_close_vma m bo else Some m
   }"

text \<open>The \<open>set_domain\<close> request that follows a mapping has no effect on the state.\<close>

definition drm_intel_gem_bo_map ::
  "gem_env \<Rightarrow> addr \<Rightarrow> bool \<Rightarrow> drm_intel_bufmgr_gem \<Rightarrow> (int \<times> drm_intel_bufmgr_gem) option" where
  "drm_intel_gem_bo_map env bo write_enable m = do {
     b \<leftarrow> get_bo m bo;
     if gb_is_userptr b then do {
       m \<leftarrow> put_bo m bo (\<lambda>b. b\<lparr>gb_virtual := gb_user_virtual b\<rparr>);
       Some (0, m)
     }
     else do {
       m \<leftarrow> map_begin bo m;
       b \<leftarrow> get_bo m bo;
       let (r, virt) = (if gb_mem_virtual b \<noteq> 0 then (0, gb_mem_virtual b)
                        else k_mmap env (gm_clock m) (gb_gem_handle b) (gb_size b));
       let m = tick m;
       if r \<noteq> 0 then do { m \<leftarrow> map_end bo m; Some (r, m) }
       else do {
         m \<leftarrow> put_bo m bo (\<lambda>b. b\<lparr>gb_mem_virtual := virt, gb_virtual := virt,
           gb_mapped_cpu_write := gb_mapped_cpu_write b \<or> write_enable\<rparr>);
         Some (0, tick m)
       }
     }
   }"

text \<open>\<open>k_mmap_gtt\<close> answers the request for the fake offset and the \<open>mmap\<close> at it together.\<close>

definition map_gtt :: "gem_env \<Rightarrow> addr \<Rightarrow> drm_intel_bufmgr_gem \<Rightarrow> (int \<times> drm_intel_bufmgr_gem) option" where
  "map_gtt env bo m = do {
     b \<leftarrow> get_bo m bo;
     if gb_is_userptr b then Some (- EINVAL, m)
     else do {
       m \<leftarrow> map_begin bo m;
       b \<leftarrow> get_bo m bo;
       let (r, virt) = (if gb_gtt_virtual b \<noteq> 0 then (0, gb_gtt_virtual b)
                        else k_mmap_gtt env (gm_clock m) (gb_gem_handle b) (gb_size b));
       let m = tick m;
       if r \<noteq> 0 then do { m \<leftarrow> map_end bo m; Some (r, m) }
       else do {
         m \<leftarrow> put_bo m bo (\<lambda>b. b\<lparr>gb_gtt_virtual := virt, gb_virtual := virt\<rparr>);
         Some (0, m)
       }
     }
   }"

definition drm_intel_gem_bo_map_gtt ::
  "gem_env \<Rightarrow> addr \<Rightarrow> drm_intel_bufmgr_gem \<Rightarrow> (int \<times> drm_intel_bufmgr_gem) option" where
  "drm_intel_gem_bo_map_gtt env bo m = do {
     (r, m) \<leftarrow> map_gtt env bo m;
     if r \<noteq> 0 then Some (r, m) else Some (0, tick m)
   }"

definition drm_intel_gem_bo_map_unsynchronized ::
  "gem_env \<Rightarrow> addr \<Rightarrow> drm_intel_bufmgr_gem \<Rightarrow> (int \<times> drm_intel_bufmgr_gem) option" where
  "drm_intel_gem_bo_map_unsynchronized env bo m =
    (if \<not> gm_has_llc m then drm_intel_gem_bo_map_gtt env bo m else map_gtt env bo m)"

definition drm_intel_gem_bo_unmap ::
  "gem_env \<Rightarrow> addr \<Rightarrow> drm_intel_bufmgr_gem \<Rightarrow> (int \<times> drm_intel_bufmgr_gem) option" where
  "drm_intel_gem_bo_unmap env bo m =
    (if bo = NULL then Some (0, m)
     else do {
       b \<leftarrow> get_bo m bo;
       if gb_is_userptr b then Some (0, m)
       else if gb_map_count b \<le> 0 then Some (0, m)
       else do {
         let r = (if gb_mapped_cpu_write b then k_sw_finish env (gm_clock m) (gb_gem_handle b) else 0);
         let m = (if gb_mapped_cpu_write b then tick m else m);
         m \<leftarrow> put_bo m bo (\<lambda>b. b\<lparr>gb_mapped_cpu_write := False\<rparr>);
         m \<leftarrow> map_end bo m;
         m \<leftarrow> (if gb_map_count b = 1 then put_bo m bo (\<lambda>b. b\<lparr>gb_virtual := 0\<rparr>) else Some m);
         Some (r, m)
       }
     })"

text \<open>Destruction of the manager: every cached buffer is freed.\<close>

partial_function (option) drain_bucket :: "nat \<Rightarrow> drm_intel_bufmgr_gem \<Rightarrow> drm_intel_bufmgr_gem option" where
  "drain_bucket i m =
     (case bucket_head m i of
        [] \<Rightarrow> Some m
      | bo # rest \<Rightarrow> (drm_intel_gem_bo_free (set_bucket m i rest) bo) \<bind> (\<lambda>m. drain_bucket i m))"

definition drm_intel_bufmgr_gem_destroy :: "drm_intel_bufmgr_gem \<Rightarrow> drm_intel_bufmgr_gem option" where
  "drm_intel_bufmgr_gem_destroy m = fold_o drain_bucket [0..<length (gm_cache_bucket m)] m"

end
