(* ===== verification/Intel_Gem_Exec.thy ===== *)
theory Intel_Gem_Exec
  imports Intel_Gem_Bo
begin

text \<open>
  Relocations and execution in the GEM buffer manager: relocation lists and the trees they span, the
  validation list of an execution, and the check that a batch fits the aperture.
\<close>

section \<open>Relocations\<close>

definition drm_intel_setup_reloc_list ::
  "gem_env \<Rightarrow> addr \<Rightarrow> drm_intel_bufmgr_gem \<Rightarrow> (bool \<times> drm_intel_bufmgr_gem) option" where
  "drm_intel_setup_reloc_list env bo m = do {
     b \<leftarrow> get_bo m bo;
     let max_relocs = (of_int (gm_max_relocs m) :: u32);
     let max_relocs = (if gb_size b div 4 < ucast max_relocs then ucast (gb_size b div 4) else max_relocs);
     let ok = (k_malloc env (gm_clock m) \<and> k_malloc env (Suc (gm_clock m)));
     m \<leftarrow> put_bo (tick (tick m)) bo (\<lambda>b. if ok then b\<lparr>gb_relocs := Some [], gb_reloc_max := unat max_relocs\<rparr>
        else b\<lparr>gb_has_error := True, gb_relocs := None\<rparr>);
     Some (ok, m)
   }"

text \<open>Everything behind the two early returns: the checks, the accounting and the new entry, which must
  lie within the arrays.\<close>

definition add_reloc ::
  "addr \<Rightarrow> u32 \<Rightarrow> addr \<Rightarrow> u32 \<Rightarrow> u32 \<Rightarrow> u32 \<Rightarrow> bool \<Rightarrow> bool \<Rightarrow> drm_intel_bufmgr_gem \<Rightarrow> drm_intel_bufmgr_gem option" where
  "add_reloc bo offset target_bo target_offset read_domains write_domain need_fence fenced_command m = do {
     b \<leftarrow> get_bo m bo;
     c_assert (int (gb_reloc_count b) < gm_max_relocs m);
     c_assert (ucast offset \<le> gb_size b - 4);
     c_assert (write_domain AND (write_domain - 1) = 0);
     c_assert (\<not> gb_used_as_reloc_target b);
     m \<leftarrow> (if target_bo \<noteq> bo then do {
         m \<leftarrow> put_bo m target_bo (\<lambda>t. t\<lparr>gb_used_as_reloc_target := True\<rparr>);
         t \<leftarrow> get_bo m target_bo;
         sz \<leftarrow> s32 (gb_reloc_tree_size b + gb_reloc_tree_size t);
         put_bo m bo (\<lambda>b. b\<lparr>gb_reloc_tree_size := sz\<rparr>)
       } else Some m);
     m \<leftarrow> (if need_fence then put_bo m target_bo (\<lambda>t. t\<lparr>gb_reloc_tree_fences := 1\<rparr>) else Some m);
     t \<leftarrow> get_bo m target_bo;
     b \<leftarrow> get_bo m bo;
     f \<leftarrow> s32 (gb_reloc_tree_fences b + gb_reloc_tree_fences t);
     rs \<leftarrow> gb_relocs b;
     c_assert (gb_reloc_count b < gb_reloc_max b);
     m \<leftarrow> put_bo m bo (\<lambda>b. b\<lparr>gb_reloc_tree_fences := f,
       gb_relocs := Some (rs @ [\<lparr>re_target_handle = gb_gem_handle t, re_delta = target_offset, re_offset = ucast offset,
         re_presumed_offset = gb_offset64 t, re_read_domains = read_domains, re_write_domain = write_domain\<rparr>]),
       gb_reloc_target_info := gb_reloc_target_info b @
         [\<lparr>rt_bo = target_bo, rt_flags = if fenced_command then DRM_INTEL_RELOC_FENCE else 0\<rparr>]\<rparr>);
     if target_bo \<noteq> bo then drm_intel_gem_bo_reference m target_bo else Some m
   }"

definition do_bo_emit_reloc ::
  "gem_env \<Rightarrow> addr \<Rightarrow> u32 \<Rightarrow> addr \<Rightarrow> u32 \<Rightarrow> u32 \<Rightarrow> u32 \<Rightarrow> bool \<Rightarrow> drm_intel_bufmgr_gem \<Rightarrow>
   (int \<times> drm_intel_bufmgr_gem) option" where
  "do_bo_emit_reloc env bo offset target_bo target_offset read_domains write_domain need_fence m = do {
     b \<leftarrow> get_bo m bo;
     if gb_has_error b then Some (- ENOMEM, m)
     else do {
       t \<leftarrow> get_bo m target_bo;
       if gb_has_error t then do {
         m \<leftarrow> put_bo m bo (\<lambda>b. b\<lparr>gb_has_error := True\<rparr>);
         Some (- ENOMEM, m)
       }
       else do {
         let need_fence = (need_fence \<and> gm_gen m < 4);
         let fenced_command = need_fence;
         let need_fence = (need_fence \<and> gb_tiling_mode t \<noteq> I915_TILING_NONE);
         (ok, m) \<leftarrow> (if gb_relocs b = None then drm_intel_setup_reloc_list env bo m else Some (True, m));
         if \<not> ok then Some (- ENOMEM, m)
         else do {
           m \<leftarrow> add_reloc bo offset target_bo target_offset read_domains write_domain need_fence fenced_command m;
           Some (0, m)
         }
       }
     }
   }"

definition drm_intel_gem_bo_emit_reloc ::
  "gem_env \<Rightarrow> addr \<Rightarrow> u32 \<Rightarrow> addr \<Rightarrow> u32 \<Rightarrow> u32 \<Rightarrow> u32 \<Rightarrow> drm_intel_bufmgr_gem \<Rightarrow> (int \<times> drm_intel_bufmgr_gem) option" where
  "drm_intel_gem_bo_emit_reloc env bo offset target_bo target_offset read_domains write_domain m =
     do_bo_emit_reloc env bo offset target_bo target_offset read_domains write_domain (\<not> gm_fenced_relocs m) m"

definition drm_intel_gem_bo_emit_reloc_fence ::
  "gem_env \<Rightarrow> addr \<Rightarrow> u32 \<Rightarrow> addr \<Rightarrow> u32 \<Rightarrow> u32 \<Rightarrow> u32 \<Rightarrow> drm_intel_bufmgr_gem \<Rightarrow> (int \<times> drm_intel_bufmgr_gem) option" where
  "drm_intel_gem_bo_emit_reloc_fence env bo offset target_bo target_offset read_domains write_domain m =
     do_bo_emit_reloc env bo offset target_bo target_offset read_domains write_domain True m"

definition drm_intel_gem_bo_get_reloc_count :: "addr \<Rightarrow> drm_intel_bufmgr_gem \<Rightarrow> nat option" where
  "drm_intel_gem_bo_get_reloc_count bo m = map_option gb_reloc_count (get_bo m bo)"

definition drm_intel_gem_bo_clear_relocs ::
  "gem_env \<Rightarrow> int \<Rightarrow> addr \<Rightarrow> nat \<Rightarrow> drm_intel_bufmgr_gem \<Rightarrow> drm_intel_bufmgr_gem option" where
  "drm_intel_gem_bo_clear_relocs env time bo start m = do {
     b \<leftarrow> get_bo m bo;
     c_assert (gb_reloc_count b \<ge> start);
     m \<leftarrow> fold_o (\<lambda>t m. if t \<noteq> bo then do {
         tb \<leftarrow> get_bo m t;
         b \<leftarrow> get_bo m bo;
         f \<leftarrow> s32 (gb_reloc_tree_fences b - gb_reloc_tree_fences tb);
         m \<leftarrow> put_bo m bo (\<lambda>b. b\<lparr>gb_reloc_tree_fences := f\<rparr>);
         drm_intel_gem_bo_unreference_locked_timed (k_stack env) env time t m
       } else Some m) (drop start (map rt_bo (gb_reloc_target_info b))) m;
     put_bo m bo (\<lambda>b. b\<lparr>gb_reloc_target_info := take start (gb_reloc_target_info b),
       gb_relocs := map_option (take start) (gb_relocs b)\<rparr>)
   }"

section \<open>The validation list\<close>

text \<open>\<open>realloc\<close> of the two arrays, whose result is used unchecked; the new entry must lie within them.\<close>

definition grow_exec :: "gem_env \<Rightarrow> drm_intel_bufmgr_gem \<Rightarrow> drm_intel_bufmgr_gem option" where
  "grow_exec env m =
    (if int (length (gm_exec_bos m)) = gm_exec_size m then do {
       c_assert (k_malloc env (gm_clock m) \<and> k_malloc env (Suc (gm_clock m)));
       Some ((tick (tick m))\<lparr>gm_exec_size := if gm_exec_size m = 0 then 5 else gm_exec_size m * 2\<rparr>)
     } else Some m)"

definition exec_object :: "drm_intel_bo_gem \<Rightarrow> u64 \<Rightarrow> drm_i915_gem_exec_object2" where
  "exec_object b flags = \<lparr>eo_handle = gb_gem_handle b, eo_relocation_count = gb_reloc_count b,
     eo_relocs = (case gb_relocs b of None \<Rightarrow> [] | Some rs \<Rightarrow> rs), eo_offset = 0, eo_flags = flags\<rparr>"

definition append_exec ::
  "gem_env \<Rightarrow> addr \<Rightarrow> u64 \<Rightarrow> drm_intel_bufmgr_gem \<Rightarrow> drm_intel_bufmgr_gem option" where
  "append_exec env bo flags m = do {
     m \<leftarrow> grow_exec env m;
     c_assert (int (length (gm_exec_bos m)) < gm_exec_size m);
     b \<leftarrow> get_bo m bo;
     m \<leftarrow> put_bo m bo (\<lambda>b. b\<lparr>gb_validate_index := int (length (gm_exec_bos m))\<rparr>);
     Some (m\<lparr>gm_exec_objects := gm_exec_objects m @ [exec_object b flags], gm_exec_bos := gm_exec_bos m @ [bo]\<rparr>)
   }"

definition drm_intel_add_validate_buffer :: "gem_env \<Rightarrow> addr \<Rightarrow> drm_intel_bufmgr_gem \<Rightarrow> drm_intel_bufmgr_gem option" where
  "drm_intel_add_validate_buffer env bo m = do {
     b \<leftarrow> get_bo m bo;
     if gb_validate_index b \<noteq> -1 then Some m else append_exec env bo 0 m
   }"

definition drm_intel_add_validate_buffer2 ::
  "gem_env \<Rightarrow> bool \<Rightarrow> addr \<Rightarrow> drm_intel_bufmgr_gem \<Rightarrow> drm_intel_bufmgr_gem option" where
  "drm_intel_add_validate_buffer2 env need_fence bo m = do {
     b \<leftarrow> get_bo m bo;
     if gb_validate_index b \<noteq> -1 then
       if need_fence then do {
         let i = nat (gb_validate_index b);
         c_assert (0 \<le> gb_validate_index b \<and> i < length (gm_exec_objects m));
         Some (m\<lparr>gm_exec_objects := (gm_exec_objects m)[i := (gm_exec_objects m ! i)
           \<lparr>eo_flags := eo_flags (gm_exec_objects m ! i) OR EXEC_OBJECT_NEEDS_FENCE\<rparr>]\<rparr>)
       }
       else Some m
     else append_exec env bo (if need_fence then EXEC_OBJECT_NEEDS_FENCE else 0) m
   }"

text \<open>The depth-first walk of the relocation tree. Both variants are this walk with their own way to
  add a buffer; \<open>fence\<close> is the flag of the relocation.\<close>

primrec process_reloc ::
  "nat \<Rightarrow> (bool \<Rightarrow> addr \<Rightarrow> drm_intel_bufmgr_gem \<Rightarrow> drm_intel_bufmgr_gem option) \<Rightarrow> addr \<Rightarrow>
   drm_intel_bufmgr_gem \<Rightarrow> drm_intel_bufmgr_gem option" where
  "process_reloc 0 = (\<lambda>add bo m. None)"
| "process_reloc (Suc n) = (\<lambda>add bo m. do {
     b \<leftarrow> get_bo m bo;
     if gb_relocs b = None then Some m
     else fold_o (\<lambda>t m. if rt_bo t = bo then Some m else do {
         m \<leftarrow> process_reloc n add (rt_bo t) m;
         add (rt_flags t AND DRM_INTEL_RELOC_FENCE \<noteq> 0) (rt_bo t) m
       }) (gb_reloc_target_info b) m
   })"

definition drm_intel_gem_bo_process_reloc ::
  "gem_env \<Rightarrow> addr \<Rightarrow> drm_intel_bufmgr_gem \<Rightarrow> drm_intel_bufmgr_gem option" where
  "drm_intel_gem_bo_process_reloc env = process_reloc (k_stack env) (\<lambda>_. drm_intel_add_validate_buffer env)"

definition drm_intel_gem_bo_process_reloc2 ::
  "gem_env \<Rightarrow> addr \<Rightarrow> drm_intel_bufmgr_gem \<Rightarrow> drm_intel_bufmgr_gem option" where
  "drm_intel_gem_bo_process_reloc2 env = process_reloc (k_stack env) (drm_intel_add_validate_buffer2 env)"

text \<open>The offsets the kernel wrote into the execution objects.\<close>

definition exec_answer :: "u64 list \<Rightarrow> drm_i915_gem_exec_object2 list \<Rightarrow> drm_i915_gem_exec_object2 list" where
  "exec_answer offs objs = map2 (\<lambda>i ob. if i < length offs then ob\<lparr>eo_offset := offs ! i\<rparr> else ob) [0..<length objs] objs"

definition drm_intel_update_buffer_offsets :: "drm_intel_bufmgr_gem \<Rightarrow> drm_intel_bufmgr_gem option" where
  "drm_intel_update_buffer_offsets m =
     fold_o (\<lambda>(bo, ob) m. put_bo m bo (\<lambda>b. b\<lparr>gb_offset64 := eo_offset ob\<rparr>))
       (zip (gm_exec_bos m) (gm_exec_objects m)) m"

text \<open>The loop that takes the buffers off the validation list.\<close>

definition disconnect_exec :: "drm_intel_bufmgr_gem \<Rightarrow> drm_intel_bufmgr_gem option" where
  "disconnect_exec m = do {
     m \<leftarrow> fold_o (\<lambda>bo m. put_bo m bo (\<lambda>b. b\<lparr>gb_idle := False, gb_validate_index := -1\<rparr>)) (gm_exec_bos m) m;
     Some (m\<lparr>gm_exec_bos := [], gm_exec_objects := []\<rparr>)
   }"

definition run_exec :: "gem_env \<Rightarrow> drm_intel_bufmgr_gem \<Rightarrow> (int \<times> drm_intel_bufmgr_gem) option" where
  "run_exec env m = do {
     let (r, offs) = k_exec env (gm_clock m) (gm_exec_objects m);
     m \<leftarrow> drm_intel_update_buffer_offsets (tick m\<lparr>gm_exec_objects := exec_answer offs (gm_exec_objects m)\<rparr>);
     Some (r, m)
   }"

definition drm_intel_gem_bo_exec ::
  "gem_env \<Rightarrow> addr \<Rightarrow> drm_intel_bufmgr_gem \<Rightarrow> (int \<times> drm_intel_bufmgr_gem) option" where
  "drm_intel_gem_bo_exec env bo m = do {
     b \<leftarrow> get_bo m bo;
     if gb_has_error b then Some (- ENOMEM, m)
     else do {
       m \<leftarrow> drm_intel_gem_bo_process_reloc env bo m;
       m \<leftarrow> drm_intel_add_validate_buffer env bo m;
       (r, m) \<leftarrow> run_exec env m;
       m \<leftarrow> disconnect_exec m;
       Some (r, m)
     }
   }"

text \<open>The ring of an execution is supported.\<close>

definition exec_ring_ok :: "drm_intel_bufmgr_gem \<Rightarrow> u32 \<Rightarrow> bool" where
  "exec_ring_ok m flags \<longleftrightarrow>
    (let ring = flags AND 7 in
     if ring = I915_EXEC_BLT then gm_has_blt m
     else if ring = I915_EXEC_BSD then gm_has_bsd m
     else if ring = I915_EXEC_VEBOX then gm_has_vebox m
     else ring = I915_EXEC_RENDER \<or> ring = I915_EXEC_DEFAULT)"

definition do_exec2 :: "gem_env \<Rightarrow> addr \<Rightarrow> u32 \<Rightarrow> drm_intel_bufmgr_gem \<Rightarrow> (int \<times> drm_intel_bufmgr_gem) option" where
  "do_exec2 env bo flags m =
    (if \<not> exec_ring_ok m flags then Some (- EINVAL, m)
     else do {
       m \<leftarrow> drm_intel_gem_bo_process_reloc2 env bo m;
       m \<leftarrow> drm_intel_add_validate_buffer2 env False bo m;
       (r, m) \<leftarrow> (if gm_no_exec m then Some (0, m) else run_exec env m);
       m \<leftarrow> disconnect_exec m;
       Some (r, m)
     })"

definition drm_intel_gem_bo_exec2 ::
  "gem_env \<Rightarrow> addr \<Rightarrow> drm_intel_bufmgr_gem \<Rightarrow> (int \<times> drm_intel_bufmgr_gem) option" where
  "drm_intel_gem_bo_exec2 env bo m = do_exec2 env bo I915_EXEC_RENDER m"

definition drm_intel_gem_bo_pin ::
  "gem_env \<Rightarrow> addr \<Rightarrow> u32 \<Rightarrow> drm_intel_bufmgr_gem \<Rightarrow> (int \<times> drm_intel_bufmgr_gem) option" where
  "drm_intel_gem_bo_pin env bo algn m = do {
     b \<leftarrow> get_bo m bo;
     let (r, off) = k_pin env (gm_clock m) (gb_gem_handle b) algn;
     if r \<noteq> 0 then Some (r, tick m)
     else do { m \<leftarrow> put_bo (tick m) bo (\<lambda>b. b\<lparr>gb_offset64 := off\<rparr>); Some (0, m) }
   }"

definition drm_intel_gem_bo_unpin ::
  "gem_env \<Rightarrow> addr \<Rightarrow> drm_intel_bufmgr_gem \<Rightarrow> (int \<times> drm_intel_bufmgr_gem) option" where
  "drm_intel_gem_bo_unpin env bo m = do {
     b \<leftarrow> get_bo m bo;
     Some (k_unpin env (gm_clock m) (gb_gem_handle b), tick m)
   }"

section \<open>Aperture space\<close>

primrec drm_intel_gem_bo_get_aperture_space ::
  "nat \<Rightarrow> addr \<Rightarrow> drm_intel_bufmgr_gem \<Rightarrow> (int \<times> drm_intel_bufmgr_gem) option" where
  "drm_intel_gem_bo_get_aperture_space 0 = (\<lambda>bo m. None)"
| "drm_intel_gem_bo_get_aperture_space (Suc n) = (\<lambda>bo m.
    (if bo = NULL then Some (0, m)
     else do {
       b \<leftarrow> get_bo m bo;
       if gb_included_in_check_aperture b then Some (0, m)
       else do {
         m \<leftarrow> put_bo m bo (\<lambda>b. b\<lparr>gb_included_in_check_aperture := True\<rparr>);
         fold_o (\<lambda>t (total, m). do {
           (x, m) \<leftarrow> drm_intel_gem_bo_get_aperture_space n (rt_bo t) m;
           total \<leftarrow> s32 (total + x);
           Some (total, m)
         }) (gb_reloc_target_info b) (to_int (gb_size b), m)
       }
     }))"

primrec drm_intel_gem_bo_clear_aperture_space_flag ::
  "nat \<Rightarrow> addr \<Rightarrow> drm_intel_bufmgr_gem \<Rightarrow> drm_intel_bufmgr_gem option" where
  "drm_intel_gem_bo_clear_aperture_space_flag 0 = (\<lambda>bo m. None)"
| "drm_intel_gem_bo_clear_aperture_space_flag (Suc n) = (\<lambda>bo m.
    (if bo = NULL then Some m
     else do {
       b \<leftarrow> get_bo m bo;
       if \<not> gb_included_in_check_aperture b then Some m
       else do {
         m \<leftarrow> put_bo m bo (\<lambda>b. b\<lparr>gb_included_in_check_aperture := False\<rparr>);
         fold_o (\<lambda>t m. drm_intel_gem_bo_clear_aperture_space_flag n (rt_bo t) m) (gb_reloc_target_info b) m
       }
     }))"

definition drm_intel_gem_total_fences :: "addr list \<Rightarrow> drm_intel_bufmgr_gem \<Rightarrow> u32 option" where
  "drm_intel_gem_total_fences bos m = fold_o (\<lambda>bo total. if bo = NULL then Some total
     else do { b \<leftarrow> get_bo m bo; Some (total + of_int (gb_reloc_tree_fences b)) }) bos 0"

definition drm_intel_gem_estimate_batch_space :: "addr list \<Rightarrow> drm_intel_bufmgr_gem \<Rightarrow> u32 option" where
  "drm_intel_gem_estimate_batch_space bos m = fold_o (\<lambda>bo total. if bo = NULL then Some total
     else do { b \<leftarrow> get_bo m bo; Some (total + of_int (gb_reloc_tree_size b)) }) bos 0"

definition drm_intel_gem_compute_batch_space ::
  "gem_env \<Rightarrow> addr list \<Rightarrow> drm_intel_bufmgr_gem \<Rightarrow> (u32 \<times> drm_intel_bufmgr_gem) option" where
  "drm_intel_gem_compute_batch_space env bos m = do {
     (total, m) \<leftarrow> fold_o (\<lambda>(i, bo) (total, m). do {
         (x, m) \<leftarrow> drm_intel_gem_bo_get_aperture_space (k_stack env) bo m;
         let total = total + of_int x;
         m \<leftarrow> (if i = 0 then put_bo m bo (\<lambda>b. b\<lparr>gb_reloc_tree_size := sint total\<rparr>) else Some m);
         Some (total, m)
       }) (zip [0..<length bos] bos) ((0 :: u32), m);
     m \<leftarrow> fold_o (drm_intel_gem_bo_clear_aperture_space_flag (k_stack env)) bos m;
     Some (total, m)
   }"

definition drm_intel_gem_check_aperture_space ::
  "gem_env \<Rightarrow> addr list \<Rightarrow> drm_intel_bufmgr_gem \<Rightarrow> (int \<times> drm_intel_bufmgr_gem) option" where
  "drm_intel_gem_check_aperture_space env bos m = do {
     let threshold = (ucast (gm_gtt_size m * 3 div 4) :: u32);
     fences \<leftarrow> (if gm_available_fences m \<noteq> 0 then do {
         t \<leftarrow> drm_intel_gem_total_fences bos m;
         Some (sint t > gm_available_fences m)
       } else Some False);
     if fences then Some (- ENOSPC, m)
     else do {
       total \<leftarrow> drm_intel_gem_estimate_batch_space bos m;
       (total, m) \<leftarrow> (if total > threshold then drm_intel_gem_compute_batch_space env bos m else Some (total, m));
       Some (if total > threshold then - ENOSPC else 0, m)
     }
   }"

section \<open>References\<close>

primrec drm_intel_gem_bo_references_rec ::
  "nat \<Rightarrow> addr \<Rightarrow> addr \<Rightarrow> drm_intel_bufmgr_gem \<Rightarrow> bool option" where
  "drm_intel_gem_bo_references_rec 0 = (\<lambda>bo target m. None)"
| "drm_intel_gem_bo_references_rec (Suc n) = (\<lambda>bo target m. do {
     b \<leftarrow> get_bo m bo;
     fold_o (\<lambda>t found. if found then Some True
       else if rt_bo t = target then Some True
       else if rt_bo t = bo then Some False
       else drm_intel_gem_bo_references_rec n (rt_bo t) target m) (gb_reloc_target_info b) False
   })"

definition drm_intel_gem_bo_references ::
  "gem_env \<Rightarrow> addr \<Rightarrow> addr \<Rightarrow> drm_intel_bufmgr_gem \<Rightarrow> bool option" where
  "drm_intel_gem_bo_references env bo target m =
    (if bo = NULL \<or> target = NULL then Some False
     else do {
       t \<leftarrow> get_bo m target;
       if gb_used_as_reloc_target t then drm_intel_gem_bo_references_rec (k_stack env) bo target m
       else Some False
     })"

end
