(* ===== verification/Intel_Gem_Validate.thy ===== *)
theory Intel_Gem_Validate
  imports Intel_Gem_Exec
begin

text \<open>
  The validation list of an execution: the walk of the relocation tree lists every buffer of the tree
  once, each after the buffers it has relocations to, and the kernel's answer is stored back.
\<close>

section \<open>The relocation tree\<close>

text \<open>The other buffers a buffer has relocations to.\<close>

definition targets :: "drm_intel_bufmgr_gem \<Rightarrow> addr \<Rightarrow> addr list" where
  "targets m bo = (case gm_bos m bo of None \<Rightarrow> []
     | Some b \<Rightarrow> filter (\<lambda>t. t \<noteq> bo) (map rt_bo (gb_reloc_target_info b)))"

definition edges :: "drm_intel_bufmgr_gem \<Rightarrow> (addr \<times> addr) set" where
  "edges m = {(a, t). t \<in> set (targets m a)}"

definition reach :: "drm_intel_bufmgr_gem \<Rightarrow> addr \<Rightarrow> addr set" where
  "reach m bo = {a. (bo, a) \<in> (edges m)\<^sup>*}"

text \<open>
  Well-formed relocations: only a buffer with relocation arrays has relocations, their targets exist,
  and \<open>rank\<close> decreases from a buffer to its targets, so there is no cycle.
\<close>

definition reloc_wf :: "(addr \<Rightarrow> nat) \<Rightarrow> drm_intel_bufmgr_gem \<Rightarrow> bool" where
  "reloc_wf rank m \<longleftrightarrow> (\<forall>a b. gm_bos m a = Some b \<longrightarrow>
     (gb_relocs b = None \<longrightarrow> gb_reloc_target_info b = []) \<and>
     (\<forall>t \<in> set (targets m a). t \<in> dom (gm_bos m) \<and> rank t < rank a))"

text \<open>Buffers that differ in validation indices only.\<close>

definition vframe :: "drm_intel_bufmgr_gem \<Rightarrow> drm_intel_bufmgr_gem \<Rightarrow> bool" where
  "vframe m m' \<longleftrightarrow> gm_no_exec m' = gm_no_exec m \<and> (\<forall>a. map_option (\<lambda>b. b\<lparr>gb_validate_index := 0\<rparr>) (gm_bos m a) =
     map_option (\<lambda>b. b\<lparr>gb_validate_index := 0\<rparr>) (gm_bos m' a))"

lemma vframe_refl [simp]: "vframe m m"
  by (simp add: vframe_def)

lemma vframe_trans: "vframe a b \<Longrightarrow> vframe b c \<Longrightarrow> vframe a c"
  by (simp add: vframe_def)

lemma vframeD:
  assumes "vframe m m'"
  shows "dom (gm_bos m') = dom (gm_bos m)"
    "gm_bos m a = Some b \<Longrightarrow> \<exists>v. gm_bos m' a = Some (b\<lparr>gb_validate_index := v\<rparr>)"
proof -
  have e: "map_option (\<lambda>b. b\<lparr>gb_validate_index := 0\<rparr>) (gm_bos m a) =
      map_option (\<lambda>b. b\<lparr>gb_validate_index := 0\<rparr>) (gm_bos m' a)" for a
    using assms by (simp add: vframe_def)
  have "gm_bos m a = None \<longleftrightarrow> gm_bos m' a = None" for a
    using e [of a] by (metis option.map_disc_iff)
  then show "dom (gm_bos m') = dom (gm_bos m)" by (auto simp: dom_def)
  assume "gm_bos m a = Some b"
  then obtain b' where b': "gm_bos m' a = Some b'" "b'\<lparr>gb_validate_index := 0\<rparr> = b\<lparr>gb_validate_index := 0\<rparr>"
    using e [of a] by (cases "gm_bos m' a") auto
  then have "b' = b\<lparr>gb_validate_index := gb_validate_index b'\<rparr>" by (cases b; cases b') simp
  then show "\<exists>v. gm_bos m' a = Some (b\<lparr>gb_validate_index := v\<rparr>)" using b'(1) by metis
qed

lemma vframe_targets: "vframe m m' \<Longrightarrow> targets m' = targets m"
proof
  fix a assume f: "vframe m m'"
  show "targets m' a = targets m a"
  proof (cases "gm_bos m a")
    case None
    then have "gm_bos m' a = None" using vframeD(1) [OF f] by blast
    then show ?thesis using None by (simp add: targets_def)
  next
    case (Some b)
    then show ?thesis using vframeD(2) [OF f Some] by (auto simp: targets_def)
  qed
qed

lemma vframe_wf: "vframe m m' \<Longrightarrow> reloc_wf rank m \<Longrightarrow> reloc_wf rank m'"
  unfolding reloc_wf_def
proof (intro allI impI)
  fix a b' assume f: "vframe m m'" and wf: "\<forall>a b. gm_bos m a = Some b \<longrightarrow>
     (gb_relocs b = None \<longrightarrow> gb_reloc_target_info b = []) \<and>
     (\<forall>t \<in> set (targets m a). t \<in> dom (gm_bos m) \<and> rank t < rank a)" and b': "gm_bos m' a = Some b'"
  then obtain b where b: "gm_bos m a = Some b" using vframeD(1) [OF f] by blast
  then show "(gb_relocs b' = None \<longrightarrow> gb_reloc_target_info b' = []) \<and>
     (\<forall>t \<in> set (targets m' a). t \<in> dom (gm_bos m') \<and> rank t < rank a)"
    using vframeD [OF f] vframe_targets [OF f] wf b' by force
qed

lemma vframe_reach: "vframe m m' \<Longrightarrow> reach m' = reach m"
  by (simp add: fun_eq_iff reach_def edges_def vframe_targets)

lemma edge_rank: "reloc_wf rank m \<Longrightarrow> (a, t) \<in> edges m \<Longrightarrow> rank t < rank a \<and> t \<in> dom (gm_bos m)"
  by (cases "gm_bos m a") (auto simp: reloc_wf_def edges_def targets_def)

lemma rank_reach:
  assumes "reloc_wf rank m" "(a, b) \<in> (edges m)\<^sup>*"
  shows "rank b \<le> rank a"
  using assms(2)
proof (induction rule: rtrancl_induct)
  case (step b c)
  then show ?case using edge_rank [OF assms(1) step(2)] by simp
qed simp

section \<open>The list\<close>

text \<open>An execution object as it is filled in for a buffer.\<close>

definition describes :: "drm_i915_gem_exec_object2 \<Rightarrow> drm_intel_bo_gem \<Rightarrow> bool" where
  "describes ob b \<longleftrightarrow> eo_handle ob = gb_gem_handle b \<and> eo_relocation_count ob = gb_reloc_count b \<and>
     eo_relocs ob = (case gb_relocs b of None \<Rightarrow> [] | Some rs \<Rightarrow> rs) \<and> eo_offset ob = 0"

text \<open>
  The validation list is consistent: buffers once each, objects in step with the buffers, room in the
  arrays, and the index of a buffer is its place, or -1.
\<close>

definition vlist :: "drm_intel_bufmgr_gem \<Rightarrow> bool" where
  "vlist m \<longleftrightarrow> distinct (gm_exec_bos m) \<and> length (gm_exec_objects m) = length (gm_exec_bos m) \<and>
     int (length (gm_exec_bos m)) \<le> gm_exec_size m \<and> set (gm_exec_bos m) \<subseteq> dom (gm_bos m) \<and>
     (\<forall>i < length (gm_exec_bos m). describes (gm_exec_objects m ! i) (the (gm_bos m (gm_exec_bos m ! i)))) \<and>
     (\<forall>a b. gm_bos m a = Some b \<longrightarrow>
        (if a \<in> set (gm_exec_bos m)
         then 0 \<le> gb_validate_index b \<and> nat (gb_validate_index b) < length (gm_exec_bos m) \<and>
              gm_exec_bos m ! nat (gb_validate_index b) = a
         else gb_validate_index b = -1))"

text \<open>Every buffer on a list stands behind its targets.\<close>

definition behind :: "(addr \<Rightarrow> addr list) \<Rightarrow> addr list \<Rightarrow> bool" where
  "behind T xs \<longleftrightarrow> (\<forall>i < length xs. set (T (xs ! i)) \<subseteq> set (take i xs))"

lemma behind_Nil [simp]: "behind T []"
  by (simp add: behind_def)

lemma behind_snoc: "behind T xs \<Longrightarrow> set (T x) \<subseteq> set xs \<Longrightarrow> behind T (xs @ [x])"
  by (auto simp: behind_def nth_append less_Suc_eq)

lemma behind_closed: "behind T xs \<Longrightarrow> x \<in> set xs \<Longrightarrow> set (T x) \<subseteq> set xs"
  unfolding behind_def in_set_conv_nth by (meson set_take_subset subset_trans)

text \<open>
  What the walk relies on of a function that adds a buffer: a buffer that is not on the list is put at
  its end, one that is on it leaves the list as it is, and only the index changes in memory.
\<close>

locale validation =
  fixes add :: "bool \<Rightarrow> addr \<Rightarrow> drm_intel_bufmgr_gem \<Rightarrow> drm_intel_bufmgr_gem option"
    and avail :: bool
  assumes add_step: "avail \<Longrightarrow> vlist m \<Longrightarrow> bo \<in> dom (gm_bos m) \<Longrightarrow>
    \<exists>m'. add f bo m = Some m' \<and> vlist m' \<and> vframe m m' \<and>
      gm_exec_bos m' = (if bo \<in> set (gm_exec_bos m) then gm_exec_bos m else gm_exec_bos m @ [bo])"
begin

lemma walk_targets:
  assumes ih: "\<And>t m. vlist m \<Longrightarrow> behind (targets m) (gm_exec_bos m) \<Longrightarrow> reloc_wf rank m \<Longrightarrow>
      t \<in> dom (gm_bos m) \<Longrightarrow> rank t < n \<Longrightarrow>
      \<exists>m'. process_reloc n add t m = Some m' \<and> vlist m' \<and> vframe m m' \<and> behind (targets m) (gm_exec_bos m') \<and>
        set (targets m t) \<subseteq> set (gm_exec_bos m') \<and>
        (\<exists>new. gm_exec_bos m' = gm_exec_bos m @ new \<and> set new \<subseteq> reach m t - {t})"
    and "avail" "vlist m" "behind (targets m) (gm_exec_bos m)" "reloc_wf rank m" "rank bo \<le> n"
    and "\<And>t. t \<in> set (map rt_bo ts) \<Longrightarrow> t \<noteq> bo \<Longrightarrow> t \<in> set (targets m bo)" "bo \<in> dom (gm_bos m)"
  shows "\<exists>m'. fold_o (\<lambda>t m. if rt_bo t = bo then Some m else do {
        m \<leftarrow> process_reloc n add (rt_bo t) m;
        add (rt_flags t AND DRM_INTEL_RELOC_FENCE \<noteq> 0) (rt_bo t) m }) ts m = Some m' \<and> vlist m' \<and> vframe m m' \<and>
      behind (targets m) (gm_exec_bos m') \<and> set (map rt_bo ts) - {bo} \<subseteq> set (gm_exec_bos m') \<and>
      (\<exists>new. gm_exec_bos m' = gm_exec_bos m @ new \<and> set new \<subseteq> reach m bo - {bo})"
  using assms(3-)
proof (induction ts arbitrary: m)
  case Nil
  then show ?case by simp
next
  case (Cons t ts)
  show ?case
  proof (cases "rt_bo t = bo")
    case True
    then show ?thesis using Cons by simp
  next
    case False
    then have t: "rt_bo t \<in> set (targets m bo)" using Cons.prems(5) by simp
    have dom: "rt_bo t \<in> dom (gm_bos m)" "rank (rt_bo t) < rank bo"
      using Cons.prems(3,6) t by (auto simp: reloc_wf_def)
    obtain m1 where p: "process_reloc n add (rt_bo t) m = Some m1" "vlist m1" "vframe m m1"
        "behind (targets m) (gm_exec_bos m1)" "set (targets m (rt_bo t)) \<subseteq> set (gm_exec_bos m1)"
        "\<exists>new. gm_exec_bos m1 = gm_exec_bos m @ new \<and> set new \<subseteq> reach m (rt_bo t) - {rt_bo t}"
      using ih [OF Cons.prems(1-3) dom(1)] dom(2) Cons.prems(4) by auto
    have d1: "rt_bo t \<in> dom (gm_bos m1)" using vframeD(1) [OF p(3)] dom(1) by simp
    obtain m2 where a: "add (rt_flags t AND DRM_INTEL_RELOC_FENCE \<noteq> 0) (rt_bo t) m1 = Some m2" "vlist m2" "vframe m1 m2"
        "gm_exec_bos m2 = (if rt_bo t \<in> set (gm_exec_bos m1) then gm_exec_bos m1 else gm_exec_bos m1 @ [rt_bo t])"
      using add_step [OF assms(2) p(2) d1] by blast
    have f: "vframe m m2" by (rule vframe_trans [OF p(3) a(3)])
    note T = vframe_targets [OF f] and R = vframe_reach [OF f]
    have b2: "behind (targets m) (gm_exec_bos m2)" using p(4,5) a(4) by (simp add: behind_snoc)
    have sub: "reach m (rt_bo t) \<subseteq> reach m bo - {bo}"
    proof -
      have "(bo, rt_bo t) \<in> edges m" using t by (simp add: edges_def)
      then have "reach m (rt_bo t) \<subseteq> reach m bo" by (auto simp: reach_def)
      moreover have "bo \<notin> reach m (rt_bo t)"
        using rank_reach [OF Cons.prems(3), of "rt_bo t" bo] dom(2) by (auto simp: reach_def)
      ultimately show ?thesis by blast
    qed
    obtain m' where r: "fold_o (\<lambda>t m. if rt_bo t = bo then Some m else do {
        m \<leftarrow> process_reloc n add (rt_bo t) m;
        add (rt_flags t AND DRM_INTEL_RELOC_FENCE \<noteq> 0) (rt_bo t) m }) ts m2 = Some m'" "vlist m'" "vframe m2 m'"
      "behind (targets m) (gm_exec_bos m')" "set (map rt_bo ts) - {bo} \<subseteq> set (gm_exec_bos m')"
      "\<exists>new. gm_exec_bos m' = gm_exec_bos m2 @ new \<and> set new \<subseteq> reach m bo - {bo}"
      using Cons.IH [OF a(2) _ vframe_wf [OF f Cons.prems(3)] Cons.prems(4)] b2 Cons.prems(5,6) vframeD(1) [OF f]
      unfolding T R by (auto simp: set_eq_iff)
    have t2: "rt_bo t \<in> set (gm_exec_bos m2)" using a(4) by simp
    obtain n1 where n1: "gm_exec_bos m1 = gm_exec_bos m @ n1" "set n1 \<subseteq> reach m bo - {bo}" using p(6) sub by blast
    have n2: "\<exists>new. gm_exec_bos m2 = gm_exec_bos m @ new \<and> set new \<subseteq> reach m bo - {bo}"
      using a(4) n1 sub by (auto simp: reach_def intro: exI [of _ n1] exI [of _ "n1 @ [rt_bo t]"])
    have "\<exists>new. gm_exec_bos m' = gm_exec_bos m @ new \<and> set new \<subseteq> reach m bo - {bo}"
      using n2 r(6) by (metis append.assoc set_append Un_least)
    moreover have "set (gm_exec_bos m2) \<subseteq> set (gm_exec_bos m')" using r(6) by auto
    ultimately show ?thesis using False p(1) a(1) r(1-5) t2 vframe_trans [OF f r(3)] by auto
  qed
qed

lemma walk:
  assumes "avail" "vlist m" "behind (targets m) (gm_exec_bos m)" "reloc_wf rank m" "bo \<in> dom (gm_bos m)" "rank bo < n"
  shows "\<exists>m'. process_reloc n add bo m = Some m' \<and> vlist m' \<and> vframe m m' \<and> behind (targets m) (gm_exec_bos m') \<and>
    set (targets m bo) \<subseteq> set (gm_exec_bos m') \<and>
    (\<exists>new. gm_exec_bos m' = gm_exec_bos m @ new \<and> set new \<subseteq> reach m bo - {bo})"
  using assms(2-)
proof (induction n arbitrary: bo m)
  case (Suc n)
  obtain b where b: "gm_bos m bo = Some b" using Suc.prems(4) by blast
  have T: "targets m bo = filter (\<lambda>t. t \<noteq> bo) (map rt_bo (gb_reloc_target_info b))" using b by (simp add: targets_def)
  show ?case
  proof (cases "gb_relocs b = None")
    case True
    then have "targets m bo = []" using Suc.prems(3) b T by (simp add: reloc_wf_def)
    then show ?thesis using True b Suc.prems by (intro exI [of _ m]) (simp add: get_bo_def)
  next
    case False
    have "rank bo \<le> n" using Suc.prems(5) by simp
    have ts: "t \<in> set (targets m bo)" if "t \<in> set (map rt_bo (gb_reloc_target_info b))" "t \<noteq> bo" for t
      using that T by simp
    have sT: "set (targets m bo) = set (map rt_bo (gb_reloc_target_info b)) - {bo}" unfolding T by auto
    have step: "process_reloc (Suc n) add bo m = fold_o (\<lambda>t m. if rt_bo t = bo then Some m else do {
        m \<leftarrow> process_reloc n add (rt_bo t) m;
        add (rt_flags t AND DRM_INTEL_RELOC_FENCE \<noteq> 0) (rt_bo t) m }) (gb_reloc_target_info b) m"
      using False b by (auto simp: get_bo_def)
    show ?thesis unfolding step sT
      by (rule walk_targets [OF Suc.IH assms(1) Suc.prems(1-3) \<open>rank bo \<le> n\<close> ts Suc.prems(4)])
  qed
qed simp

text \<open>The whole list: the tree, the buffer itself last.\<close>

lemma walk_root:
  assumes "avail" "vlist m" "gm_exec_bos m = []" "reloc_wf rank m" "bo \<in> dom (gm_bos m)" "rank bo < n"
  shows "\<exists>m1 m'. process_reloc n add bo m = Some m1 \<and> add f bo m1 = Some m' \<and> vlist m' \<and> vframe m m' \<and>
    set (gm_exec_bos m') = reach m bo \<and> last (gm_exec_bos m') = bo \<and> behind (targets m) (gm_exec_bos m')"
proof -
  obtain m1 where w: "process_reloc n add bo m = Some m1" "vlist m1" "vframe m m1" "behind (targets m) (gm_exec_bos m1)"
      "set (targets m bo) \<subseteq> set (gm_exec_bos m1)" "set (gm_exec_bos m1) \<subseteq> reach m bo - {bo}"
    using walk [OF assms(1,2) _ assms(4-6)] assms(3) by auto
  have "bo \<in> dom (gm_bos m1)" using vframeD(1) [OF w(3)] assms(5) by simp
  then obtain m' where a: "add f bo m1 = Some m'" "vlist m'" "vframe m1 m'" "gm_exec_bos m' = gm_exec_bos m1 @ [bo]"
    using add_step [OF assms(1) w(2)] w(6) by (metis Diff_iff insertCI subsetD)
  have b: "behind (targets m) (gm_exec_bos m')" using w(4,5) a(4) by (simp add: behind_snoc)
  have "reach m bo \<subseteq> set (gm_exec_bos m')"
  proof
    fix x assume "x \<in> reach m bo"
    then have "(bo, x) \<in> (edges m)\<^sup>*" by (simp add: reach_def)
    then show "x \<in> set (gm_exec_bos m')"
    proof (induction rule: rtrancl_induct)
      case (step y z)
      then show ?case using behind_closed [OF b] by (auto simp: edges_def)
    qed (simp add: a(4))
  qed
  moreover have "set (gm_exec_bos m') \<subseteq> reach m bo" using w(6) a(4) by (auto simp: reach_def)
  ultimately show ?thesis using w(1) a b vframe_trans [OF w(3) a(3)] by (intro exI) auto
qed

end

section \<open>The two ways to add a buffer\<close>

definition mem_ok :: "gem_env \<Rightarrow> bool" where
  "mem_ok env \<longleftrightarrow> (\<forall>n. k_malloc env n)"

lemma grow_exec_ok:
  assumes "mem_ok env" "int (length (gm_exec_bos m)) \<le> gm_exec_size m"
  obtains m1 where "grow_exec env m = Some m1" "gm_bos m1 = gm_bos m" "gm_exec_bos m1 = gm_exec_bos m"
    "gm_exec_objects m1 = gm_exec_objects m" "int (length (gm_exec_bos m)) < gm_exec_size m1"
    "gm_no_exec m1 = gm_no_exec m"
proof (cases "int (length (gm_exec_bos m)) = gm_exec_size m")
  case True
  then show thesis using assms(1)
    by (intro that [of "(tick (tick m))\<lparr>gm_exec_size := if gm_exec_size m = 0 then 5 else gm_exec_size m * 2\<rparr>"])
      (auto simp: grow_exec_def tick_def mem_ok_def)
next
  case False
  then show thesis using assms(2) by (intro that) (auto simp: grow_exec_def)
qed

lemma vlist_index:
  assumes "vlist m" "gm_bos m bo = Some b"
  shows "bo \<in> set (gm_exec_bos m) \<Longrightarrow> 0 \<le> gb_validate_index b \<and> nat (gb_validate_index b) < length (gm_exec_bos m)"
    "bo \<notin> set (gm_exec_bos m) \<Longrightarrow> gb_validate_index b = -1"
  using assms unfolding vlist_def by metis+

lemma append_exec_ok:
  assumes "mem_ok env" "vlist m" "gm_bos m bo = Some b" "bo \<notin> set (gm_exec_bos m)"
  shows "\<exists>m'. append_exec env bo flags m = Some m' \<and> vlist m' \<and> vframe m m' \<and> gm_exec_bos m' = gm_exec_bos m @ [bo]"
proof -
  have size: "int (length (gm_exec_bos m)) \<le> gm_exec_size m" using assms(2) by (simp add: vlist_def)
  obtain m1 where g: "grow_exec env m = Some m1" "gm_bos m1 = gm_bos m" "gm_exec_bos m1 = gm_exec_bos m"
    "gm_exec_objects m1 = gm_exec_objects m" "int (length (gm_exec_bos m)) < gm_exec_size m1"
    "gm_no_exec m1 = gm_no_exec m"
    by (rule grow_exec_ok [OF assms(1) size])
  let ?n = "length (gm_exec_bos m)"
  let ?m = "m1\<lparr>gm_bos := (gm_bos m)(bo \<mapsto> b\<lparr>gb_validate_index := int ?n\<rparr>),
    gm_exec_objects := gm_exec_objects m @ [exec_object b flags], gm_exec_bos := gm_exec_bos m @ [bo]\<rparr>"
  have "append_exec env bo flags m = Some ?m"
    using g assms(3) by (simp add: append_exec_def get_bo_def put_bo_def wr_def)
  moreover have "vframe m ?m" using assms(3) g(6) by (simp add: vframe_def)
  moreover have "vlist ?m"
  proof -
    have ob: "describes (exec_object b flags) (b\<lparr>gb_validate_index := int ?n\<rparr>)"
      by (simp add: describes_def exec_object_def)
    have old: "describes (gm_exec_objects m ! i) (the (gm_bos ?m (gm_exec_bos m ! i)))" if "i < ?n" for i
      using that assms(2,4) nth_mem [OF that] by (auto simp: vlist_def)
    show ?thesis using assms(2-4) g(5) ob old
      by (auto simp: vlist_def nth_append less_Suc_eq split: if_splits)
  qed
  ultimately show ?thesis by simp
qed

interpretation v1: validation "\<lambda>_. drm_intel_add_validate_buffer env" "mem_ok env" for env
proof (unfold_locales, goal_cases)
  case (1 m bo f)
  then obtain b where b: "gm_bos m bo = Some b" by blast
  have "gb_validate_index b \<noteq> -1 \<longleftrightarrow> bo \<in> set (gm_exec_bos m)" using vlist_index [OF 1(2) b] by force
  then show ?case using append_exec_ok [OF 1(1,2) b, of 0] 1(2) b
    by (auto simp: drm_intel_add_validate_buffer_def get_bo_def)
qed

lemma describes_flags [simp]: "describes (ob\<lparr>eo_flags := f\<rparr>) b = describes ob b"
  by (simp add: describes_def)

interpretation v2: validation "drm_intel_add_validate_buffer2 env" "mem_ok env" for env
proof (unfold_locales, goal_cases)
  case (1 m bo f)
  then obtain b where b: "gm_bos m bo = Some b" by blast
  let ?i = "nat (gb_validate_index b)"
  note i = vlist_index [OF 1(2) b]
  show ?case
  proof (cases "bo \<in> set (gm_exec_bos m)")
    case True
    let ?m = "m\<lparr>gm_exec_objects := (gm_exec_objects m)[?i := (gm_exec_objects m ! ?i)
       \<lparr>eo_flags := eo_flags (gm_exec_objects m ! ?i) OR EXEC_OBJECT_NEEDS_FENCE\<rparr>]\<rparr>"
    have "describes (gm_exec_objects ?m ! j) (the (gm_bos m (gm_exec_bos m ! j)))" if "j < length (gm_exec_bos m)" for j
      using that 1(2) by (cases "j = ?i") (simp_all add: vlist_def)
    then have "vlist ?m" using 1(2) unfolding vlist_def by simp
    moreover have "vframe m ?m" by (simp add: vframe_def)
    moreover have "length (gm_exec_objects m) = length (gm_exec_bos m)" using 1(2) by (simp add: vlist_def)
    ultimately show ?thesis using True i b 1(2)
      by (cases f) (auto simp: drm_intel_add_validate_buffer2_def get_bo_def Let_def)
  next
    case False
    then show ?thesis using append_exec_ok [OF 1(1,2) b] i b by (simp add: drm_intel_add_validate_buffer2_def get_bo_def)
  qed
qed

section \<open>Execution\<close>

text \<open>A store to each of several buffers.\<close>

lemma fold_put_bo:
  assumes "distinct (map fst xs)" "fst ` set xs \<subseteq> dom (gm_bos m)"
  shows "fold_o (\<lambda>(bo, x) m. put_bo m bo (g x)) xs m = Some (m\<lparr>gm_bos := \<lambda>a. case map_of xs a of
     None \<Rightarrow> gm_bos m a | Some x \<Rightarrow> map_option (g x) (gm_bos m a)\<rparr>)"
  using assms
proof (induction xs arbitrary: m)
  case (Cons y ys)
  obtain bo x where y: "y = (bo, x)" by (cases y)
  obtain b where b: "gm_bos m bo = Some b" using Cons.prems(2) y by auto
  let ?m = "m\<lparr>gm_bos := (gm_bos m)(bo \<mapsto> g x b)\<rparr>"
  have p: "put_bo m bo (g x) = Some ?m" using b by (simp add: put_bo_def wr_def)
  have n: "map_of ys bo = None" using Cons.prems(1) y by (force simp: map_of_eq_None_iff)
  have "fold_o (\<lambda>(bo, x) m. put_bo m bo (g x)) ys ?m = Some (?m\<lparr>gm_bos := \<lambda>a. case map_of ys a of
     None \<Rightarrow> gm_bos ?m a | Some x \<Rightarrow> map_option (g x) (gm_bos ?m a)\<rparr>)"
    using Cons.prems by (intro Cons.IH) auto
  moreover have "(\<lambda>a. case map_of ys a of None \<Rightarrow> gm_bos ?m a | Some x \<Rightarrow> map_option (g x) (gm_bos ?m a)) =
      (\<lambda>a. case map_of (y # ys) a of None \<Rightarrow> gm_bos m a | Some x \<Rightarrow> map_option (g x) (gm_bos m a))"
    using b n y by (auto simp: fun_eq_iff split: option.splits)
  ultimately show ?case using p y by simp
qed simp

lemma run_exec_ok:
  assumes "vlist m"
  shows "\<exists>m'. run_exec env m = Some (fst (k_exec env (gm_clock m) (gm_exec_objects m)), m') \<and>
    gm_exec_bos m' = gm_exec_bos m \<and> dom (gm_bos m') = dom (gm_bos m) \<and> gm_exec_size m' = gm_exec_size m \<and>
    (\<forall>a. a \<notin> set (gm_exec_bos m) \<longrightarrow> gm_bos m' a = gm_bos m a) \<and>
    (\<forall>i < length (gm_exec_bos m). gm_bos m' (gm_exec_bos m ! i) = map_option (\<lambda>b. b\<lparr>gb_offset64 :=
       (let offs = snd (k_exec env (gm_clock m) (gm_exec_objects m)) in if i < length offs then offs ! i else 0)\<rparr>)
       (gm_bos m (gm_exec_bos m ! i)))"
proof -
  obtain r offs where k: "k_exec env (gm_clock m) (gm_exec_objects m) = (r, offs)" by fastforce
  let ?objs = "exec_answer offs (gm_exec_objects m)" and ?bos = "gm_exec_bos m"
  let ?m = "tick m\<lparr>gm_exec_objects := ?objs\<rparr>" and ?xs = "zip (gm_exec_bos m) (exec_answer offs (gm_exec_objects m))"
  have v: "distinct ?bos" "length (gm_exec_objects m) = length ?bos" "set ?bos \<subseteq> dom (gm_bos m)"
    "\<forall>i < length ?bos. eo_offset (gm_exec_objects m ! i) = 0"
    using assms by (simp_all add: vlist_def describes_def)
  have len: "length ?objs = length ?bos" using v(2) by (simp add: exec_answer_def)
  have fst: "map fst ?xs = ?bos" using len by simp
  have fsts: "fst ` set ?xs = set ?bos" using fst by (metis list.set_map)
  let ?h = "\<lambda>a. case map_of ?xs a of None \<Rightarrow> gm_bos m a | Some ob \<Rightarrow> map_option (\<lambda>b. b\<lparr>gb_offset64 := eo_offset ob\<rparr>) (gm_bos m a)"
  have bm: "gm_bos ?m = gm_bos m" by (simp add: tick_def)
  have u: "drm_intel_update_buffer_offsets ?m = Some (?m\<lparr>gm_bos := ?h\<rparr>)"
    unfolding drm_intel_update_buffer_offsets_def
    using fold_put_bo [of ?xs ?m "\<lambda>ob b. b\<lparr>gb_offset64 := eo_offset ob\<rparr>"] fst fsts v(1,3)
    unfolding bm by (simp add: tick_def)
  have off: "?h (?bos ! i) = map_option (\<lambda>b. b\<lparr>gb_offset64 := if i < length offs then offs ! i else 0\<rparr>) (gm_bos m (?bos ! i))"
    if "i < length ?bos" for i
  proof -
    have "map_of ?xs (?bos ! i) = Some (?objs ! i)" using that v(1) len by (simp add: map_of_zip_nth)
    moreover have "eo_offset (?objs ! i) = (if i < length offs then offs ! i else 0)"
      using that v(2,4) by (simp add: exec_answer_def)
    ultimately show ?thesis by simp
  qed
  have "dom ?h = dom (gm_bos m)" by (auto simp: dom_def split: option.splits)
  moreover have "?h a = gm_bos m a" if "a \<notin> set ?bos" for a
  proof -
    have "map_of ?xs a = None" using that fsts by (simp add: map_of_eq_None_iff)
    then show ?thesis by simp
  qed
  ultimately show ?thesis using u off k by (simp add: run_exec_def tick_def)
qed

lemma disconnect_exec_ok:
  assumes "set (gm_exec_bos m) \<subseteq> dom (gm_bos m)" "distinct (gm_exec_bos m)"
  shows "disconnect_exec m = Some (m\<lparr>gm_bos := \<lambda>a. if a \<in> set (gm_exec_bos m)
      then map_option (\<lambda>b. b\<lparr>gb_idle := False, gb_validate_index := -1\<rparr>) (gm_bos m a) else gm_bos m a,
    gm_exec_bos := [], gm_exec_objects := []\<rparr>)"
proof -
  let ?xs = "map (\<lambda>bo. (bo, ())) (gm_exec_bos m)" and ?g = "\<lambda>b. b\<lparr>gb_idle := False, gb_validate_index := -1\<rparr>"
  have f: "fold_o (\<lambda>bo m. put_bo m bo ?g) bos m = fold_o (\<lambda>(bo, x) m. put_bo m bo ((\<lambda>_. ?g) x)) (map (\<lambda>bo. (bo, ())) bos) m"
    for bos m by (induction bos arbitrary: m) (simp_all add: put_bo_def wr_def split: option.splits)
  have mo: "map_of (map (\<lambda>bo. (bo, ())) bos) a = (if a \<in> set bos then Some () else None)" for a and bos :: "addr list"
    by (induction bos) auto
  show ?thesis unfolding disconnect_exec_def f using assms
    by (subst fold_put_bo) (auto simp: comp_def mo fun_eq_iff image_subset_iff)
qed

text \<open>The list is empty again, and only the offset and the idle mark of the listed buffers changed.\<close>

lemma vlist_reset:
  assumes "\<And>a b. gm_bos m a = Some b \<Longrightarrow> gb_validate_index b = -1" "gm_exec_bos m = []" "gm_exec_objects m = []"
    "0 \<le> gm_exec_size m"
  shows "vlist m"
  using assms by (auto simp: vlist_def)

lemma run_disconnect_ok:
  assumes "vlist m"
  shows "\<exists>m1 m'. run_exec env m = Some (fst (k_exec env (gm_clock m) (gm_exec_objects m)), m1) \<and>
    disconnect_exec m1 = Some m' \<and> vlist m' \<and> gm_exec_bos m' = [] \<and>
    (\<forall>a. a \<notin> set (gm_exec_bos m) \<longrightarrow> gm_bos m' a = gm_bos m a) \<and>
    (\<forall>i < length (gm_exec_bos m). gm_bos m' (gm_exec_bos m ! i) = map_option (\<lambda>b. b\<lparr>gb_offset64 :=
       (let offs = snd (k_exec env (gm_clock m) (gm_exec_objects m)) in if i < length offs then offs ! i else 0),
       gb_idle := False, gb_validate_index := -1\<rparr>) (gm_bos m (gm_exec_bos m ! i)))"
proof -
  let ?bos = "gm_exec_bos m"
  obtain m1 where r: "run_exec env m = Some (fst (k_exec env (gm_clock m) (gm_exec_objects m)), m1)"
    "gm_exec_bos m1 = ?bos" "dom (gm_bos m1) = dom (gm_bos m)" "gm_exec_size m1 = gm_exec_size m"
    "\<forall>a. a \<notin> set ?bos \<longrightarrow> gm_bos m1 a = gm_bos m a"
    "\<forall>i < length ?bos. gm_bos m1 (?bos ! i) = map_option (\<lambda>b. b\<lparr>gb_offset64 :=
       (let offs = snd (k_exec env (gm_clock m) (gm_exec_objects m)) in if i < length offs then offs ! i else 0)\<rparr>)
       (gm_bos m (?bos ! i))"
    using run_exec_ok [OF assms, of env] by blast
  have v: "distinct ?bos" "set ?bos \<subseteq> dom (gm_bos m)" "0 \<le> gm_exec_size m" using assms by (auto simp: vlist_def)
  let ?m = "m1\<lparr>gm_bos := \<lambda>a. if a \<in> set ?bos
      then map_option (\<lambda>b. b\<lparr>gb_idle := False, gb_validate_index := -1\<rparr>) (gm_bos m1 a) else gm_bos m1 a,
    gm_exec_bos := [], gm_exec_objects := []\<rparr>"
  have d: "disconnect_exec m1 = Some ?m" using disconnect_exec_ok [of m1] r(2,3) v by simp
  have "vlist ?m"
  proof (rule vlist_reset)
    fix a b assume "gm_bos ?m a = Some b"
    then show "gb_validate_index b = -1" using r(5) assms by (auto simp: vlist_def split: if_splits)
  qed (use r(4) v(3) in simp_all)
  then show ?thesis using r(1,5,6) d by (simp add: option.map_comp comp_def)
qed

text \<open>What a walk from an empty list leaves of the buffers.\<close>

lemma walk_frame:
  assumes "vlist m" "gm_exec_bos m = []" "vlist m2" "vframe m m2"
  shows "a \<in> set (gm_exec_bos m2) \<Longrightarrow> \<exists>b v. gm_bos m a = Some b \<and> gb_validate_index b = -1 \<and>
      gm_bos m2 a = Some (b\<lparr>gb_validate_index := v\<rparr>)"
    "a \<notin> set (gm_exec_bos m2) \<Longrightarrow> gm_bos m2 a = gm_bos m a"
proof -
  assume "a \<in> set (gm_exec_bos m2)"
  then have "a \<in> dom (gm_bos m)" using assms(3) vframeD(1) [OF assms(4)] by (auto simp: vlist_def)
  then obtain b where b: "gm_bos m a = Some b" by blast
  then show "\<exists>b v. gm_bos m a = Some b \<and> gb_validate_index b = -1 \<and> gm_bos m2 a = Some (b\<lparr>gb_validate_index := v\<rparr>)"
    using vframeD(2) [OF assms(4) b] vlist_index(2) [OF assms(1) b] assms(2) by auto
next
  assume out: "a \<notin> set (gm_exec_bos m2)"
  show "gm_bos m2 a = gm_bos m a"
  proof (cases "gm_bos m a")
    case None
    then have "a \<notin> dom (gm_bos m2)" unfolding vframeD(1) [OF assms(4)] by (simp add: domIff)
    then show ?thesis using None by (simp add: domIff)
  next
    case (Some b)
    then obtain v where v: "gm_bos m2 a = Some (b\<lparr>gb_validate_index := v\<rparr>)" using vframeD(2) [OF assms(4)] by blast
    then have "v = -1" using vlist_index(2) [OF assms(3) v out] by simp
    moreover have "gb_validate_index b = -1" using vlist_index(2) [OF assms(1) Some] assms(2) by simp
    ultimately show ?thesis using v Some by (cases b) simp
  qed
qed

text \<open>C2. Execution of a batch. With the validation list empty, an acyclic relocation tree whose depth the
  stack allows and memory available, \<open>do_exec2\<close> on a supported ring calls the kernel with a list that has every
  buffer reachable through relocations exactly once, each behind all the buffers it refers to and the batch
  last, every entry describing its buffer; it returns the kernel's result, and afterwards the list is empty,
  every listed buffer has the offset the kernel wrote back and is not idle, and nothing else changed.\<close>

theorem do_exec2_validates:
  assumes "vlist m" "gm_exec_bos m = []" "reloc_wf rank m" "bo \<in> dom (gm_bos m)" "rank bo < k_stack env"
    "mem_ok env" "exec_ring_ok m flags" "\<not> gm_no_exec m"
  shows "\<exists>n bos objs m'. do_exec2 env bo flags m = Some (fst (k_exec env n objs), m') \<and>
    distinct bos \<and> set bos = reach m bo \<and> last bos = bo \<and> behind (targets m) bos \<and>
    list_all2 (\<lambda>ob a. describes ob (the (gm_bos m a))) objs bos \<and> vlist m' \<and> gm_exec_bos m' = [] \<and>
    (\<forall>a. a \<notin> set bos \<longrightarrow> gm_bos m' a = gm_bos m a) \<and>
    (\<forall>i < length bos. gm_bos m' (bos ! i) = map_option (\<lambda>b. b\<lparr>gb_offset64 :=
       (let offs = snd (k_exec env n objs) in if i < length offs then offs ! i else 0), gb_idle := False\<rparr>)
       (gm_bos m (bos ! i)))"
proof -
  obtain m1 m2 where w: "process_reloc (k_stack env) (drm_intel_add_validate_buffer2 env) bo m = Some m1"
      "drm_intel_add_validate_buffer2 env False bo m1 = Some m2" "vlist m2" "vframe m m2"
      "set (gm_exec_bos m2) = reach m bo" "last (gm_exec_bos m2) = bo" "behind (targets m) (gm_exec_bos m2)"
    using v2.walk_root [OF assms(6,1-5), of False] by blast
  let ?bos = "gm_exec_bos m2" and ?objs = "gm_exec_objects m2" and ?n = "gm_clock m2"
  obtain m3 m' where x: "run_exec env m2 = Some (fst (k_exec env ?n ?objs), m3)" "disconnect_exec m3 = Some m'"
      "vlist m'" "gm_exec_bos m' = []" "\<forall>a. a \<notin> set ?bos \<longrightarrow> gm_bos m' a = gm_bos m2 a"
      "\<forall>i < length ?bos. gm_bos m' (?bos ! i) = map_option (\<lambda>b. b\<lparr>gb_offset64 :=
       (let offs = snd (k_exec env ?n ?objs) in if i < length offs then offs ! i else 0),
       gb_idle := False, gb_validate_index := -1\<rparr>) (gm_bos m2 (?bos ! i))"
    using run_disconnect_ok [OF w(3), of env] by blast
  note same = walk_frame(1) [OF assms(1,2) w(3,4)] and off = walk_frame(2) [OF assms(1,2) w(3,4)]
  have len: "length ?objs = length ?bos" using w(3) by (simp add: vlist_def)
  have desc: "describes (?objs ! i) (the (gm_bos m (?bos ! i)))" if "i < length ?bos" for i
  proof -
    have "describes (?objs ! i) (the (gm_bos m2 (?bos ! i)))" using that w(3) by (simp add: vlist_def)
    then show ?thesis using same [OF nth_mem [OF that]] by (auto simp: describes_def)
  qed
  have upd: "gm_bos m' (?bos ! i) = map_option (\<lambda>b. b\<lparr>gb_offset64 :=
       (let offs = snd (k_exec env ?n ?objs) in if i < length offs then offs ! i else 0), gb_idle := False\<rparr>)
       (gm_bos m (?bos ! i))" if i: "i < length ?bos" for i
  proof -
    obtain b v where b: "gm_bos m (?bos ! i) = Some b" "gb_validate_index b = -1"
      "gm_bos m2 (?bos ! i) = Some (b\<lparr>gb_validate_index := v\<rparr>)" using same [OF nth_mem [OF i]] by blast
    then show ?thesis using x(6) i by (cases b) simp
  qed
  have "\<not> gm_no_exec m2" using w(4) assms(8) by (simp add: vframe_def)
  then have run: "do_exec2 env bo flags m = Some (fst (k_exec env ?n ?objs), m')"
    using w(1,2) x(1,2) assms(7) by (simp add: do_exec2_def drm_intel_gem_bo_process_reloc2_def)
  have objs: "list_all2 (\<lambda>ob a. describes ob (the (gm_bos m a))) ?objs ?bos"
    using len desc by (simp add: list_all2_conv_all_nth)
  have dist: "distinct ?bos" using w(3) by (simp add: vlist_def)
  have out: "\<forall>a. a \<notin> set ?bos \<longrightarrow> gm_bos m' a = gm_bos m a" using x(5) off by simp
  show ?thesis
    by (intro exI [of _ ?n] exI [of _ ?bos] exI [of _ ?objs] exI [of _ m'] conjI run dist w(5) w(6) w(7) objs x(3)
        x(4) out allI impI upd)
qed

text \<open>A batch at 8 that refers to the buffers at 16 and 24, the first of which refers to the second.\<close>

definition sample_reloc :: "addr \<Rightarrow> drm_intel_reloc_target" where
  "sample_reloc t = \<lparr>rt_bo = t, rt_flags = 0\<rparr>"

definition sample_batch :: drm_intel_bufmgr_gem where
  "sample_batch = gem_zero\<lparr>gm_gtt_size := 65536, gm_bos := [
     8 \<mapsto> bo_zero\<lparr>gb_size := 4096, gb_reloc_tree_size := 12288, gb_validate_index := -1, gb_refcount := 1,
       gb_relocs := Some [], gb_reloc_target_info := map sample_reloc [16, 24]\<rparr>,
     16 \<mapsto> bo_zero\<lparr>gb_size := 4096, gb_reloc_tree_size := 8192, gb_validate_index := -1, gb_refcount := 2,
       gb_used_as_reloc_target := True, gb_relocs := Some [], gb_reloc_target_info := map sample_reloc [24]\<rparr>,
     24 \<mapsto> bo_zero\<lparr>gb_size := 4096, gb_reloc_tree_size := 4096, gb_validate_index := -1, gb_refcount := 3,
       gb_used_as_reloc_target := True\<rparr>]\<rparr>"

lemmas sample_batch_simps = sample_batch_def sample_reloc_def gem_zero_def bo_zero_def

lemma sample_batch_vlist: "vlist sample_batch"
  by (rule vlist_reset) (auto simp: sample_batch_simps split: if_splits)

lemma sample_batch_wf: "reloc_wf (\<lambda>a. 3 - a div 8) sample_batch"
  by (auto simp: reloc_wf_def targets_def sample_batch_simps split: if_splits)

theorem do_exec2_validates_witness:
  "\<exists>n bos objs m'. do_exec2 sample_kernel 8 I915_EXEC_RENDER sample_batch = Some (fst (k_exec sample_kernel n objs), m') \<and>
    distinct bos \<and> set bos = reach sample_batch 8 \<and> last bos = 8 \<and> behind (targets sample_batch) bos \<and>
    list_all2 (\<lambda>ob a. describes ob (the (gm_bos sample_batch a))) objs bos \<and> vlist m' \<and> gm_exec_bos m' = [] \<and>
    (\<forall>a. a \<notin> set bos \<longrightarrow> gm_bos m' a = gm_bos sample_batch a) \<and>
    (\<forall>i < length bos. gm_bos m' (bos ! i) = map_option (\<lambda>b. b\<lparr>gb_offset64 :=
       (let offs = snd (k_exec sample_kernel n objs) in if i < length offs then offs ! i else 0), gb_idle := False\<rparr>)
       (gm_bos sample_batch (bos ! i)))"
proof (rule do_exec2_validates [OF sample_batch_vlist _ sample_batch_wf])
  show "exec_ring_ok sample_batch I915_EXEC_RENDER"
    by (simp add: exec_ring_ok_def I915_EXEC_RENDER_def I915_EXEC_BLT_def I915_EXEC_BSD_def I915_EXEC_VEBOX_def)
qed (simp_all add: sample_batch_simps sample_kernel_def mem_ok_def)

end
