(* ===== verification/Intel_Gem_Aperture.thy ===== *)
theory Intel_Gem_Aperture
  imports Intel_Gem_Validate
begin

text \<open>
  Walks of the relocation tree that mark or search it: whether a buffer refers to another, and the space
  a batch needs in the aperture.
\<close>

section \<open>Reachability\<close>

lemma reach_refl [simp]: "bo \<in> reach m bo"
  by (simp add: reach_def)

lemma reach_target: "t \<in> set (targets m bo) \<Longrightarrow> reach m t \<subseteq> reach m bo"
  by (auto simp: reach_def edges_def intro: converse_rtrancl_into_rtrancl)

lemma reach_trans: "a \<in> reach m bo \<Longrightarrow> reach m a \<subseteq> reach m bo"
  by (auto simp: reach_def)

lemma reach_unfold: "reach m bo = insert bo (\<Union>t \<in> set (targets m bo). reach m t)"
  by (auto simp: reach_def edges_def intro: converse_rtrancl_into_rtrancl elim: converse_rtranclE)

lemma target_not_back:
  assumes "reloc_wf rank m" "t \<in> set (targets m bo)"
  shows "bo \<notin> reach m t"
  using rank_reach [OF assms(1), of t bo] edge_rank [OF assms(1), of bo t] assms(2) by (auto simp: reach_def edges_def)

lemma finite_reach:
  assumes "reloc_wf rank m"
  shows "finite (reach m bo)"
proof (induction "rank bo" arbitrary: bo rule: less_induct)
  case less
  have "finite (reach m t)" if "t \<in> set (targets m bo)" for t
    using less edge_rank [OF assms, of bo t] that by (simp add: edges_def)
  then show ?case unfolding reach_unfold [of m bo] by simp
qed

lemma targets_Some: "gm_bos m bo = Some b \<Longrightarrow> t \<in> set (targets m bo) \<longleftrightarrow> t \<noteq> bo \<and> t \<in> rt_bo ` set (gb_reloc_target_info b)"
  by (auto simp: targets_def)

section \<open>References\<close>

lemma references_fold:
  "(\<And>t. t \<in> rt_bo ` set ts \<Longrightarrow> t \<noteq> bo \<Longrightarrow> t \<noteq> target \<Longrightarrow> f t = Some (P t)) \<Longrightarrow> P target \<Longrightarrow> target \<noteq> bo \<Longrightarrow>
   fold_o (\<lambda>t found. if found then Some True else if rt_bo t = target then Some True
       else if rt_bo t = bo then Some False else f (rt_bo t)) ts found =
   Some (found \<or> (\<exists>t \<in> rt_bo ` set ts. t \<noteq> bo \<and> P t))"
  by (induction ts arbitrary: found) auto

lemma references_rec_reach:
  assumes "reloc_wf rank m" "target \<noteq> bo" "bo \<in> dom (gm_bos m)" "rank bo < n"
  shows "drm_intel_gem_bo_references_rec n bo target m = Some (target \<in> reach m bo)"
  using assms(2-)
proof (induction n arbitrary: bo)
  case (Suc n)
  obtain b where b: "gm_bos m bo = Some b" using Suc.prems(2) by blast
  have ih: "drm_intel_gem_bo_references_rec n t target m = Some (target \<in> reach m t)"
    if "t \<in> rt_bo ` set (gb_reloc_target_info b)" "t \<noteq> bo" "t \<noteq> target" for t
  proof (rule Suc.IH)
    have "(bo, t) \<in> edges m" using that b by (simp add: edges_def targets_Some)
    then show "t \<in> dom (gm_bos m)" "rank t < n" using edge_rank [OF assms(1), of bo t] Suc.prems(3) by auto
  qed (use that in simp)
  have "drm_intel_gem_bo_references_rec (Suc n) bo target m =
      Some (\<exists>t \<in> rt_bo ` set (gb_reloc_target_info b). t \<noteq> bo \<and> target \<in> reach m t)"
    using references_fold [of "gb_reloc_target_info b" bo target "\<lambda>t. drm_intel_gem_bo_references_rec n t target m"
        "\<lambda>t. target \<in> reach m t" False] ih Suc.prems(1) b by (simp add: get_bo_def)
  also have "\<dots> = Some (target \<in> reach m bo)"
    using Suc.prems(1) b unfolding reach_unfold [of m bo] by (auto simp: targets_Some)
  finally show ?case .
qed simp

text \<open>The mark \<open>used_as_reloc_target\<close> is set on every buffer another one has a relocation to.\<close>

definition reloc_marked :: "drm_intel_bufmgr_gem \<Rightarrow> bool" where
  "reloc_marked m \<longleftrightarrow> (\<forall>a t b. t \<in> set (targets m a) \<and> gm_bos m t = Some b \<longrightarrow> gb_used_as_reloc_target b)"

text \<open>C28. \<open>drm_intel_gem_bo_references\<close> decides reachability: on an acyclic relocation tree whose targets carry
  their mark, for two different buffers it is true exactly when a chain of relocations leads from the
  first to the second.\<close>

theorem references_iff_reach:
  assumes "reloc_wf rank m" "reloc_marked m" "bo \<in> dom (gm_bos m)" "target \<in> dom (gm_bos m)" "bo \<noteq> NULL" "target \<noteq> NULL"
    "target \<noteq> bo" "rank bo < k_stack env"
  shows "drm_intel_gem_bo_references env bo target m = Some ((bo, target) \<in> (edges m)\<^sup>+)"
proof -
  obtain b where b: "gm_bos m target = Some b" using assms(4) by blast
  have r: "(bo, target) \<in> (edges m)\<^sup>+ \<longleftrightarrow> target \<in> reach m bo" using assms(7) by (auto simp: reach_def rtrancl_eq_or_trancl)
  have "gb_used_as_reloc_target b" if "(bo, target) \<in> (edges m)\<^sup>+"
    using that assms(2) b by (cases rule: tranclE) (auto simp: reloc_marked_def edges_def)
  then show ?thesis using references_rec_reach [OF assms(1,7,3,8)] r b assms(5,6)
    by (auto simp: drm_intel_gem_bo_references_def get_bo_def)
qed

section \<open>Marked walks\<close>

text \<open>The manager with exactly the buffers of \<open>S\<close> marked as counted.\<close>

definition marks :: "addr set \<Rightarrow> drm_intel_bufmgr_gem \<Rightarrow> drm_intel_bufmgr_gem" where
  "marks S m = m\<lparr>gm_bos := \<lambda>a. map_option (\<lambda>b. b\<lparr>gb_included_in_check_aperture := a \<in> S\<rparr>) (gm_bos m a)\<rparr>"

lemma marks_get: "gm_bos m bo = Some b \<Longrightarrow> get_bo (marks S m) bo = Some (b\<lparr>gb_included_in_check_aperture := bo \<in> S\<rparr>)"
  by (simp add: marks_def get_bo_def)

lemma marks_put:
  assumes "gm_bos m bo = Some b"
  shows "put_bo (marks S m) bo (\<lambda>b. b\<lparr>gb_included_in_check_aperture := True\<rparr>) = Some (marks (insert bo S) m)"
    "put_bo (marks S m) bo (\<lambda>b. b\<lparr>gb_included_in_check_aperture := False\<rparr>) = Some (marks (S - {bo}) m)"
  using assms by (auto simp: marks_def put_bo_def wr_def fun_eq_iff intro!: drm_intel_bufmgr_gem.fold_congs)

definition bo_space :: "drm_intel_bufmgr_gem \<Rightarrow> addr \<Rightarrow> int" where
  "bo_space m a = (case gm_bos m a of None \<Rightarrow> 0 | Some b \<Rightarrow> uint (gb_size b))"

lemma bo_space_nonneg [simp]: "0 \<le> bo_space m a"
  by (simp add: bo_space_def split: option.split)

lemma to_int_uint: "uint v < 2 ^ 31 \<Longrightarrow> to_int v = uint v" for v :: u64
proof -
  assume v: "uint v < 2 ^ 31"
  have "uint (ucast v :: u32) = uint v" using v by (simp add: unsigned_ucast_eq take_bit_int_eq_self_iff)
  then show ?thesis using v unfolding to_int_def
    by (simp add: sint_uint signed_take_bit_int_eq_self_iff) (rule order_trans [of _ 0], simp_all)
qed

lemma sum_Un_Diff:
  assumes "finite A" "finite B"
  shows "sum f (A \<union> B - S) = sum f (A - S) + sum f (B - (S \<union> A))"
proof -
  have "A \<union> B - S = (A - S) \<union> (B - (S \<union> A))" by blast
  moreover have "(A - S) \<inter> (B - (S \<union> A)) = {}" by blast
  ultimately show ?thesis using assms by (simp add: sum.union_disjoint)
qed

lemma get_space_step:
  "get_bo m bo = Some b \<Longrightarrow> bo \<noteq> NULL \<Longrightarrow> \<not> gb_included_in_check_aperture b \<Longrightarrow>
   put_bo m bo (\<lambda>b. b\<lparr>gb_included_in_check_aperture := True\<rparr>) = Some m1 \<Longrightarrow>
   drm_intel_gem_bo_get_aperture_space (Suc n) bo m = fold_o (\<lambda>t (total, m). do {
           (x, m) \<leftarrow> drm_intel_gem_bo_get_aperture_space n (rt_bo t) m;
           total \<leftarrow> s32 (total + x);
           Some (total, m)
         }) (gb_reloc_target_info b) (to_int (gb_size b), m1)"
  by simp

text \<open>The loop over the targets of a marked buffer, given what the recursive calls do.\<close>

lemma space_targets:
  assumes ih: "\<And>t S. t \<in> dom (gm_bos m) \<Longrightarrow> rank t < n \<Longrightarrow> \<forall>a \<in> reach m t \<inter> S. reach m a \<subseteq> S \<Longrightarrow>
      sum (bo_space m) (reach m t) < 2 ^ 31 \<Longrightarrow>
      drm_intel_gem_bo_get_aperture_space (Suc n) t (marks S m) =
        Some (sum (bo_space m) (reach m t - S), marks (S \<union> reach m t) m)"
    and "reloc_wf rank m" "gm_bos m bo = Some b" "bo \<noteq> NULL" "bo \<in> S" "rank bo \<le> n"
    and "rt_bo ` set ts \<subseteq> rt_bo ` set (gb_reloc_target_info b)"
    and "\<forall>a \<in> reach m bo \<inter> S - {bo}. reach m a \<subseteq> S"
    and "sum (bo_space m) (reach m bo) < 2 ^ 31" "0 \<le> x"
    and "x + sum (bo_space m) ((\<Union>t \<in> set (targets m bo) \<inter> rt_bo ` set ts. reach m t) - S) < 2 ^ 31"
  shows "fold_o (\<lambda>t (total, m). do {
           (x, m) \<leftarrow> drm_intel_gem_bo_get_aperture_space (Suc n) (rt_bo t) m;
           total \<leftarrow> s32 (total + x);
           Some (total, m)
         }) ts (x, marks S m) =
      (let R = \<Union>t \<in> set (targets m bo) \<inter> rt_bo ` set ts. reach m t in
       Some (x + sum (bo_space m) (R - S), marks (S \<union> R) m))"
  using assms(5,7-)
proof (induction ts arbitrary: S x)
  case (Cons t ts)
  let ?R = "\<lambda>ts. \<Union>t \<in> set (targets m bo) \<inter> rt_bo ` set ts. reach m t"
  have fin: "finite (?R ts)" for ts using finite_reach [OF assms(2)] by auto
  show ?case
  proof (cases "rt_bo t = bo")
    case True
    then have "rt_bo t \<notin> set (targets m bo)" using assms(3) by (simp add: targets_Some)
    then have R: "?R (t # ts) = ?R ts" by auto
    have "drm_intel_gem_bo_get_aperture_space (Suc n) (rt_bo t) (marks S m) = Some (0, marks S m)"
      using True assms(3,4) Cons.prems(1) marks_get [of m bo b S] by simp
    moreover have "in_s32 x" using Cons.prems(5,6) sum_nonneg [of "?R (t # ts) - S" "bo_space m"] by (simp add: in_s32_def)
    ultimately show ?thesis using Cons.IH [OF Cons.prems(1) _ Cons.prems(3-5)] Cons.prems(2,6) unfolding R
      by (simp del: drm_intel_gem_bo_get_aperture_space.simps)
  next
    case False
    then have t: "rt_bo t \<in> set (targets m bo)" using assms(3) Cons.prems(2) by (auto simp: targets_Some)
    let ?t = "rt_bo t"
    have e: "?t \<in> dom (gm_bos m)" "rank ?t < n"
      using edge_rank [OF assms(2), of bo ?t] t assms(6) by (auto simp: edges_def)
    have nb: "bo \<notin> reach m ?t" by (rule target_not_back [OF assms(2) t])
    have sub: "reach m ?t \<subseteq> reach m bo" by (rule reach_target [OF t])
    have cl: "\<forall>a \<in> reach m ?t \<inter> S. reach m a \<subseteq> S" using Cons.prems(3) nb sub by blast
    have "sum (bo_space m) (reach m ?t) \<le> sum (bo_space m) (reach m bo)"
      using sub finite_reach [OF assms(2)] by (intro sum_mono2) auto
    then have g: "drm_intel_gem_bo_get_aperture_space (Suc n) ?t (marks S m) =
        Some (sum (bo_space m) (reach m ?t - S), marks (S \<union> reach m ?t) m)"
      using Cons.prems(4) by (intro ih e cl) simp
    let ?x = "x + sum (bo_space m) (reach m ?t - S)" and ?S = "S \<union> reach m ?t"
    have R: "?R (t # ts) = reach m ?t \<union> ?R ts" using t by auto
    have split: "sum (bo_space m) (?R (t # ts) - S) = sum (bo_space m) (reach m ?t - S) + sum (bo_space m) (?R ts - ?S)"
      unfolding R by (rule sum_Un_Diff [OF finite_reach [OF assms(2)] fin])
    have "in_s32 ?x" using Cons.prems(5,6) split sum_nonneg [of "?R ts - ?S" "bo_space m"]
        sum_nonneg [of "reach m ?t - S" "bo_space m"] by (simp add: in_s32_def)
    moreover have "\<forall>a \<in> reach m bo \<inter> ?S - {bo}. reach m a \<subseteq> ?S"
      using Cons.prems(3) reach_trans by blast
    ultimately show ?thesis
      using Cons.IH [of ?S ?x] Cons.prems g split finite_reach [OF assms(2)] R
        sum_nonneg [of "reach m ?t - S" "bo_space m"] by (simp add: Let_def Un_assoc del: drm_intel_gem_bo_get_aperture_space.simps)
  qed
qed simp

text \<open>One walk: it returns the sizes of the buffers it marks, those of the tree that are not marked yet.
  Marked buffers of the tree must have marked trees.\<close>

lemma get_aperture_space_reach:
  assumes "reloc_wf rank m" "NULL \<notin> dom (gm_bos m)" "bo \<in> dom (gm_bos m)" "rank bo < n"
    "\<forall>a \<in> reach m bo \<inter> S. reach m a \<subseteq> S" "sum (bo_space m) (reach m bo) < 2 ^ 31"
  shows "drm_intel_gem_bo_get_aperture_space (Suc n) bo (marks S m) =
    Some (sum (bo_space m) (reach m bo - S), marks (S \<union> reach m bo) m)"
  using assms(3-)
proof (induction n arbitrary: bo S)
  case (Suc n)
  obtain b where b: "gm_bos m bo = Some b" using Suc.prems(1) by blast
  have nz: "bo \<noteq> NULL" using Suc.prems(1) assms(2) by metis
  show ?case
  proof (cases "bo \<in> S")
    case True
    then have R: "reach m bo \<subseteq> S" using Suc.prems(3) by auto
    then have u: "S \<union> reach m bo = S" by auto
    have z: "sum (bo_space m) (reach m bo - S) = 0" using R by (simp add: Diff_eq_empty_iff [THEN iffD2])
    show ?thesis unfolding u z using True nz marks_get [OF b, of S] by simp
  next
    case False
    let ?R = "\<Union>t \<in> set (targets m bo). reach m t"
    have T: "set (targets m bo) \<inter> rt_bo ` set (gb_reloc_target_info b) = set (targets m bo)"
      using b by (auto simp: targets_Some)
    have nb: "bo \<notin> ?R" using target_not_back [OF assms(1)] by blast
    have fin: "finite ?R" using finite_reach [OF assms(1)] by auto
    have R: "reach m bo = insert bo ?R" by (rule reach_unfold)
    have total: "sum (bo_space m) (reach m bo) = bo_space m bo + sum (bo_space m) ?R"
      unfolding R using nb fin by simp
    have sp: "bo_space m bo = uint (gb_size b)" using b by (simp add: bo_space_def)
    have small: "to_int (gb_size b) = bo_space m bo"
      using total Suc.prems(4) sum_nonneg [of ?R "bo_space m"] sp by (simp add: to_int_uint)
    have part: "sum (bo_space m) (?R - insert bo S) \<le> sum (bo_space m) ?R" using fin by (intro sum_mono2) auto
    have le: "rank bo \<le> n" using Suc.prems(2) by simp
    have bound: "bo_space m bo + sum (bo_space m) ((\<Union>t \<in> set (targets m bo) \<inter> rt_bo ` set (gb_reloc_target_info b).
        reach m t) - insert bo S) < 2 ^ 31"
      unfolding T using part total Suc.prems(4) by linarith
    have cl: "\<forall>a \<in> reach m bo \<inter> insert bo S - {bo}. reach m a \<subseteq> insert bo S" using Suc.prems(3) by blast
    have eq: "reach m bo - S = insert bo (?R - insert bo S)" "insert bo S \<union> ?R = S \<union> reach m bo"
      unfolding R using False by auto
    have "sum (bo_space m) (reach m bo - S) = bo_space m bo + sum (bo_space m) (?R - insert bo S)"
      unfolding eq(1) using fin by simp
    moreover have "fold_o (\<lambda>t (total, m). do {
           (x, m) \<leftarrow> drm_intel_gem_bo_get_aperture_space (Suc n) (rt_bo t) m;
           total \<leftarrow> s32 (total + x);
           Some (total, m)
         }) (gb_reloc_target_info b) (bo_space m bo, marks (insert bo S) m) =
        Some (bo_space m bo + sum (bo_space m) (?R - insert bo S), marks (S \<union> reach m bo) m)"
      using space_targets [OF Suc.IH assms(1) b nz insertI1 le order_refl cl Suc.prems(4) bo_space_nonneg bound]
      unfolding Let_def T eq(2) .
    moreover have "\<not> gb_included_in_check_aperture (b\<lparr>gb_included_in_check_aperture := bo \<in> S\<rparr>)" using False by simp
    ultimately show ?thesis using get_space_step [OF marks_get [OF b] nz _ marks_put(1) [OF b], of S "Suc n"] small
      by (simp del: drm_intel_gem_bo_get_aperture_space.simps)
  qed
qed simp

lemma clear_targets:
  assumes ih: "\<And>t S. t \<in> dom (gm_bos m) \<Longrightarrow> rank t < n \<Longrightarrow> \<forall>a \<in> reach m t - S. reach m a \<inter> S = {} \<Longrightarrow>
      drm_intel_gem_bo_clear_aperture_space_flag (Suc n) t (marks S m) = Some (marks (S - reach m t) m)"
    and "reloc_wf rank m" "gm_bos m bo = Some b" "bo \<noteq> NULL" "rank bo \<le> n"
    and "bo \<notin> S" "rt_bo ` set ts \<subseteq> rt_bo ` set (gb_reloc_target_info b)"
    and "\<forall>a \<in> reach m bo - S - {bo}. reach m a \<inter> S = {}"
  shows "fold_o (\<lambda>t m. drm_intel_gem_bo_clear_aperture_space_flag (Suc n) (rt_bo t) m) ts (marks S m) =
      Some (marks (S - (\<Union>t \<in> set (targets m bo) \<inter> rt_bo ` set ts. reach m t)) m)"
  using assms(6-)
proof (induction ts arbitrary: S)
  case (Cons t ts)
  let ?R = "\<lambda>ts. \<Union>t \<in> set (targets m bo) \<inter> rt_bo ` set ts. reach m t" and ?t = "rt_bo t"
  show ?case
  proof (cases "?t = bo")
    case True
    then have "?t \<notin> set (targets m bo)" using assms(3) by (simp add: targets_Some)
    then have R: "?R (t # ts) = ?R ts" by auto
    have "drm_intel_gem_bo_clear_aperture_space_flag (Suc n) ?t (marks S m) = Some (marks S m)"
      using True assms(3,4) Cons.prems(1) marks_get [of m bo b S] by simp
    then show ?thesis using Cons.IH [OF Cons.prems(1) _ Cons.prems(3)] Cons.prems(2) unfolding R by simp
  next
    case False
    then have t: "?t \<in> set (targets m bo)" using assms(3) Cons.prems(2) by (auto simp: targets_Some)
    have e: "?t \<in> dom (gm_bos m)" "rank ?t < n"
      using edge_rank [OF assms(2), of bo ?t] t assms(5) by (auto simp: edges_def)
    have nb: "bo \<notin> reach m ?t" by (rule target_not_back [OF assms(2) t])
    have sub: "reach m ?t \<subseteq> reach m bo" by (rule reach_target [OF t])
    have "\<forall>a \<in> reach m ?t - S. reach m a \<inter> S = {}" using Cons.prems(3) nb sub by blast
    then have g: "drm_intel_gem_bo_clear_aperture_space_flag (Suc n) ?t (marks S m) = Some (marks (S - reach m ?t) m)"
      by (intro ih e)
    have R: "S - ?R (t # ts) = S - reach m ?t - ?R ts" using t by auto
    have "reach m a \<inter> (S - reach m ?t) = {}" if a: "a \<in> reach m bo - (S - reach m ?t) - {bo}" for a
    proof (cases "a \<in> reach m ?t")
      case True
      then show ?thesis using reach_trans [OF True] by blast
    next
      case False
      then show ?thesis using a Cons.prems(3) by blast
    qed
    then show ?thesis using Cons.IH [of "S - reach m ?t"] Cons.prems(1,2) g unfolding R by simp
  qed
qed simp

text \<open>The second walk takes the marks off.\<close>

lemma clear_aperture_space_flag_reach:
  assumes "reloc_wf rank m" "NULL \<notin> dom (gm_bos m)" "bo \<in> dom (gm_bos m)" "rank bo < n"
    "\<forall>a \<in> reach m bo - S. reach m a \<inter> S = {}"
  shows "drm_intel_gem_bo_clear_aperture_space_flag (Suc n) bo (marks S m) = Some (marks (S - reach m bo) m)"
  using assms(3-)
proof (induction n arbitrary: bo S)
  case (Suc n)
  obtain b where b: "gm_bos m bo = Some b" using Suc.prems(1) by blast
  have nz: "bo \<noteq> NULL" using Suc.prems(1) assms(2) by metis
  show ?case
  proof (cases "bo \<in> S")
    case False
    then have R: "S - reach m bo = S" using Suc.prems(3) by auto
    show ?thesis unfolding R using False nz marks_get [OF b, of S] by simp
  next
    case True
    let ?R = "\<Union>t \<in> set (targets m bo). reach m t" and ?S = "S - {bo}"
    have T: "set (targets m bo) \<inter> rt_bo ` set (gb_reloc_target_info b) = set (targets m bo)"
      using b by (auto simp: targets_Some)
    have cl: "\<forall>a \<in> reach m bo - ?S - {bo}. reach m a \<inter> ?S = {}" using Suc.prems(3) by blast
    have eq: "?S - ?R = S - reach m bo" unfolding reach_unfold [of m bo] by blast
    have "fold_o (\<lambda>t m. drm_intel_gem_bo_clear_aperture_space_flag (Suc n) (rt_bo t) m) (gb_reloc_target_info b) (marks ?S m) =
        Some (marks (S - reach m bo) m)"
      using clear_targets [OF Suc.IH assms(1) b nz, of ?S "gb_reloc_target_info b"] Suc.prems(2) cl unfolding T eq by simp
    then show ?thesis using True nz b marks_get [OF b, of S] marks_put(2) [OF b, of S]
      by (subst drm_intel_gem_bo_clear_aperture_space_flag.simps) (simp del: drm_intel_gem_bo_clear_aperture_space_flag.simps)
  qed
qed simp

section \<open>The space of a batch\<close>

lemma compute_rest:
  assumes "reloc_wf rank m" "NULL \<notin> dom (gm_bos m)" "set bos \<subseteq> dom (gm_bos m)" "\<forall>a \<in> set bos. rank a < n"
    "\<forall>a \<in> set bos. sum (bo_space m) (reach m a) < 2 ^ 31" "\<forall>a \<in> S. reach m a \<subseteq> S" "0 < k"
  shows "fold_o (\<lambda>(i, bo) (total, m). do {
         (x, m) \<leftarrow> drm_intel_gem_bo_get_aperture_space (Suc n) bo m;
         let total = total + of_int x;
         m \<leftarrow> (if i = 0 then put_bo m bo (\<lambda>b. b\<lparr>gb_reloc_tree_size := sint total\<rparr>) else Some m);
         Some (total, m)
       }) (zip [k..<k + length bos] bos) ((t :: u32), marks S m) =
    Some (t + of_int (sum (bo_space m) ((\<Union>a \<in> set bos. reach m a) - S)), marks (S \<union> (\<Union>a \<in> set bos. reach m a)) m)"
  using assms(3-)
proof (induction bos arbitrary: S t k)
  case (Cons bo bos)
  let ?R = "\<Union>a \<in> set bos. reach m a" and ?S = "S \<union> reach m bo"
  have z: "zip [k..<k + length (bo # bos)] (bo # bos) = (k, bo) # zip [Suc k..<Suc k + length bos] bos"
    by (simp add: upt_conv_Cons del: upt_Suc)
  have g: "drm_intel_gem_bo_get_aperture_space (Suc n) bo (marks S m) =
      Some (sum (bo_space m) (reach m bo - S), marks ?S m)"
    using Cons.prems by (intro get_aperture_space_reach [OF assms(1,2)]) auto
  have cl: "\<forall>a \<in> ?S. reach m a \<subseteq> ?S" using Cons.prems(4) reach_trans [of _ m bo] by blast
  have fin: "finite ?R" "finite (reach m bo)" using finite_reach [OF assms(1)] by auto
  have eq: "sum (bo_space m) ((\<Union>a \<in> set (bo # bos). reach m a) - S) =
      sum (bo_space m) (reach m bo - S) + sum (bo_space m) (?R - ?S)"
    using sum_Un_Diff [OF fin(2,1)] by simp
  have U: "S \<union> (\<Union>a \<in> set (bo # bos). reach m a) = ?S \<union> ?R" by auto
  show ?case unfolding z eq U using g Cons.IH [OF _ _ _ cl, of "Suc k" "t + of_int (sum (bo_space m) (reach m bo - S))"] Cons.prems
    by (simp del: drm_intel_gem_bo_get_aperture_space.simps add: Let_def add.assoc)
qed simp

lemma clear_rest:
  assumes "reloc_wf rank m" "NULL \<notin> dom (gm_bos m)" "set bos \<subseteq> dom (gm_bos m)" "\<forall>a \<in> set bos. rank a < n"
    "\<forall>a \<in> (\<Union>a \<in> set bos. reach m a) - S. reach m a \<inter> S = {}"
  shows "fold_o (drm_intel_gem_bo_clear_aperture_space_flag (Suc n)) bos (marks S m) =
    Some (marks (S - (\<Union>a \<in> set bos. reach m a)) m)"
  using assms(3-)
proof (induction bos arbitrary: S)
  case (Cons bo bos)
  let ?R = "\<Union>a \<in> set bos. reach m a" and ?S = "S - reach m bo"
  have g: "drm_intel_gem_bo_clear_aperture_space_flag (Suc n) bo (marks S m) = Some (marks ?S m)"
    using Cons.prems by (intro clear_aperture_space_flag_reach [OF assms(1,2)]) auto
  have "reach m a \<inter> ?S = {}" if "a \<in> ?R - ?S" for a
  proof (cases "a \<in> reach m bo")
    case True
    then show ?thesis using reach_trans [OF True] by blast
  next
    case False
    then show ?thesis using that Cons.prems(3) by auto
  qed
  moreover have "S - (\<Union>a \<in> set (bo # bos). reach m a) = ?S - ?R" by auto
  ultimately show ?case using g Cons.IH [of ?S] Cons.prems(1,2)
    by (simp del: drm_intel_gem_bo_clear_aperture_space_flag.simps)
qed simp

lemma sint_of_int_u32: "0 \<le> x \<Longrightarrow> x < 2 ^ 31 \<Longrightarrow> sint (of_int x :: u32) = x"
  by (simp add: signed_of_int signed_take_bit_int_eq_self_iff)

text \<open>A new estimate for one buffer.\<close>

definition with_tree_size :: "addr \<Rightarrow> int \<Rightarrow> drm_intel_bufmgr_gem \<Rightarrow> drm_intel_bufmgr_gem" where
  "with_tree_size bo v m = m\<lparr>gm_bos := (gm_bos m)(bo := map_option (\<lambda>b. b\<lparr>gb_reloc_tree_size := v\<rparr>) (gm_bos m bo))\<rparr>"

lemma with_tree_size_tree [simp]:
  "targets (with_tree_size bo v m) = targets m" "reach (with_tree_size bo v m) = reach m"
  "bo_space (with_tree_size bo v m) = bo_space m" "dom (gm_bos (with_tree_size bo v m)) = dom (gm_bos m)"
  "reloc_wf rank (with_tree_size bo v m) = reloc_wf rank m"
proof -
  show T: "targets (with_tree_size bo v m) = targets m"
    by (auto simp: fun_eq_iff targets_def with_tree_size_def split: option.splits)
  show "reach (with_tree_size bo v m) = reach m" by (simp add: fun_eq_iff reach_def edges_def T)
  show "bo_space (with_tree_size bo v m) = bo_space m"
    by (auto simp: fun_eq_iff bo_space_def with_tree_size_def split: option.splits)
  show D: "dom (gm_bos (with_tree_size bo v m)) = dom (gm_bos m)" by (auto simp: with_tree_size_def split: if_splits)
  show "reloc_wf rank (with_tree_size bo v m) = reloc_wf rank m"
    unfolding reloc_wf_def T D by (auto simp: with_tree_size_def split: if_splits)
qed

lemma marks_put_tree_size:
  "bo \<in> dom (gm_bos m) \<Longrightarrow>
   put_bo (marks S m) bo (\<lambda>b. b\<lparr>gb_reloc_tree_size := v\<rparr>) = Some (marks S (with_tree_size bo v m))"
  by (auto simp: marks_def put_bo_def wr_def with_tree_size_def fun_eq_iff intro!: drm_intel_bufmgr_gem.fold_congs)

lemma marks_none: "marks {} m = m" if "\<forall>a b. gm_bos m a = Some b \<longrightarrow> \<not> gb_included_in_check_aperture b"
proof -
  have "map_option (\<lambda>b. b\<lparr>gb_included_in_check_aperture := False\<rparr>) (gm_bos m a) = gm_bos m a" for a
    using that by (cases "gm_bos m a") (auto intro: drm_intel_bo_gem.equality)
  then show ?thesis by (simp add: marks_def)
qed

text \<open>What the two walks rely on: an acyclic tree over existing buffers that fits the stack, no mark left
  over, and trees of less than 2 GiB.\<close>

definition batch_ok :: "(addr \<Rightarrow> nat) \<Rightarrow> gem_env \<Rightarrow> addr list \<Rightarrow> drm_intel_bufmgr_gem \<Rightarrow> bool" where
  "batch_ok rank env bos m \<longleftrightarrow> reloc_wf rank m \<and> NULL \<notin> dom (gm_bos m) \<and> bos \<noteq> [] \<and> set bos \<subseteq> dom (gm_bos m) \<and>
     (\<forall>a \<in> set bos. Suc (rank a) < k_stack env \<and> sum (bo_space m) (reach m a) < 2 ^ 31) \<and>
     (\<forall>a b. gm_bos m a = Some b \<longrightarrow> \<not> gb_included_in_check_aperture b)"

lemma compute_batch_space_sum:
  assumes "batch_ok rank env bos m"
  shows "drm_intel_gem_compute_batch_space env bos m =
    Some (of_int (sum (bo_space m) (\<Union>a \<in> set bos. reach m a)),
      with_tree_size (hd bos) (sum (bo_space m) (reach m (hd bos))) m)"
proof -
  obtain bo rest where bos: "bos = bo # rest" using assms by (cases bos) (auto simp: batch_ok_def)
  obtain n where n: "k_stack env = Suc n" using assms bos by (cases "k_stack env") (auto simp: batch_ok_def)
  have wf: "reloc_wf rank m" "NULL \<notin> dom (gm_bos m)" and bo: "bo \<in> dom (gm_bos m)" "rank bo < n"
    "sum (bo_space m) (reach m bo) < 2 ^ 31" and d: "set rest \<subseteq> dom (gm_bos m)" and rk: "\<forall>a \<in> set rest. rank a < n"
    and lt: "\<forall>a \<in> set rest. sum (bo_space m) (reach m a) < 2 ^ 31" and um: "marks {} m = m"
    using assms n bos by (auto simp: batch_ok_def intro: marks_none)
  let ?s = "sum (bo_space m) (reach m bo)" and ?R = "\<Union>a \<in> set rest. reach m a"
  let ?m = "with_tree_size bo ?s m" and ?U = "\<Union>a \<in> set bos. reach m a"
  let ?f = "\<lambda>(i, bo) (total :: u32, m). do {
         (x, m) \<leftarrow> drm_intel_gem_bo_get_aperture_space (k_stack env) bo m;
         let total = total + of_int x;
         m \<leftarrow> (if i = 0 then put_bo m bo (\<lambda>b. b\<lparr>gb_reloc_tree_size := sint total\<rparr>) else Some m);
         Some (total, m)
       }"
  have U: "?U = reach m bo \<union> ?R" using bos by simp
  have fin: "finite (reach m bo)" "finite ?R" using finite_reach [OF wf(1)] by auto
  have g: "drm_intel_gem_bo_get_aperture_space (Suc n) bo m = Some (?s, marks (reach m bo) m)"
    using get_aperture_space_reach [OF wf bo(1,2) _ bo(3), of "{}"] unfolding um by simp
  have s: "sint (of_int ?s :: u32) = ?s" using bo(3) by (intro sint_of_int_u32) (simp_all add: sum_nonneg)
  have "sint (0 + of_int ?s :: u32) = ?s" using s by (simp del: of_int_sum)
  then have first: "?f (0, bo) (0, m) = Some (of_int ?s, marks (reach m bo) ?m)"
    using g marks_put_tree_size [OF bo(1), of "reach m bo" ?s] by (simp del: of_int_sum drm_intel_gem_bo_get_aperture_space.simps add: n)
  have z: "zip [0..<length bos] bos = (0, bo) # zip [1..<1 + length rest] rest"
    using bos by (simp add: upt_conv_Cons del: upt_Suc)
  have r: "fold_o ?f (zip [1..<1 + length rest] rest) (of_int ?s, marks (reach m bo) ?m) =
      Some (of_int ?s + of_int (sum (bo_space m) (?R - reach m bo)), marks ?U ?m)"
    using compute_rest [of rank ?m rest n "reach m bo" 1 "of_int ?s"] wf d rk lt reach_trans [of _ m bo]
    unfolding n U by simp
  have tot: "of_int ?s + of_int (sum (bo_space m) (?R - reach m bo)) = (of_int (sum (bo_space m) ?U) :: u32)"
    using sum_Un_Diff [OF fin, of "bo_space m" "{}"] U by simp
  have c: "fold_o (drm_intel_gem_bo_clear_aperture_space_flag (k_stack env)) bos (marks ?U ?m) = Some (marks {} ?m)"
    using clear_rest [of rank ?m bos n ?U] wf d rk bo(1,2) bos unfolding n by simp
  have "marks {} ?m = ?m"
    using assms by (intro marks_none) (auto simp: with_tree_size_def batch_ok_def split: if_splits)
  moreover have "fold_o ?f (zip [0..<length bos] bos) (0, m) = Some (of_int (sum (bo_space m) ?U), marks ?U ?m)"
    by (simp only: z fold_o.simps first Option.bind_lunit r tot)
  moreover have "hd bos = bo" using bos by simp
  ultimately show ?thesis using c
    by (simp add: drm_intel_gem_compute_batch_space_def del: fold_o.simps of_int_sum upt_Suc)
qed

text \<open>The estimate of every buffer is at least the size of its tree.\<close>

definition tree_bound :: "drm_intel_bufmgr_gem \<Rightarrow> bool" where
  "tree_bound m \<longleftrightarrow> (\<forall>a b. gm_bos m a = Some b \<longrightarrow> sum (bo_space m) (reach m a) \<le> gb_reloc_tree_size b)"

definition tree_sizes :: "addr list \<Rightarrow> drm_intel_bufmgr_gem \<Rightarrow> int" where
  "tree_sizes bos m = (\<Sum>a \<leftarrow> bos. case gm_bos m a of None \<Rightarrow> 0 | Some b \<Rightarrow> gb_reloc_tree_size b)"

lemma estimate_fold:
  "NULL \<notin> set bos \<Longrightarrow> set bos \<subseteq> dom (gm_bos m) \<Longrightarrow>
   fold_o (\<lambda>bo total. if bo = NULL then Some total
     else do { b \<leftarrow> get_bo m bo; Some (total + of_int (gb_reloc_tree_size b)) }) bos (t :: u32) =
   Some (t + of_int (tree_sizes bos m))"
  by (induction bos arbitrary: t) (auto simp: tree_sizes_def get_bo_def)

lemma fences_fold:
  "set bos \<subseteq> dom (gm_bos m) \<Longrightarrow>
   \<exists>f. fold_o (\<lambda>bo total. if bo = NULL then Some total
     else do { b \<leftarrow> get_bo m bo; Some (total + of_int (gb_reloc_tree_fences b)) }) bos (t :: u32) = Some f"
  by (induction bos arbitrary: t) (auto simp: get_bo_def)

lemma tree_sizes_bound:
  assumes "tree_bound m" "reloc_wf rank m" "set bos \<subseteq> dom (gm_bos m)"
  shows "sum (bo_space m) (\<Union>a \<in> set bos. reach m a) \<le> tree_sizes bos m"
  using assms(3)
proof (induction bos)
  case (Cons bo bos)
  obtain b where b: "gm_bos m bo = Some b" using Cons.prems by auto
  have fin: "finite (reach m bo)" "finite (\<Union>a \<in> set bos. reach m a)" using finite_reach [OF assms(2)] by auto
  have "sum (bo_space m) (\<Union>a \<in> set (bo # bos). reach m a) \<le>
      sum (bo_space m) (reach m bo) + sum (bo_space m) (\<Union>a \<in> set bos. reach m a)"
    using fin by (simp add: sum_Un sum_nonneg)
  also have "\<dots> \<le> gb_reloc_tree_size b + tree_sizes bos m"
    using Cons assms(1) b by (intro add_mono) (auto simp: tree_bound_def)
  finally show ?case using b by (simp add: tree_sizes_def)
qed (simp add: tree_sizes_def)

lemma threshold_le: "uint (ucast (g * 3 div 4) :: u32) \<le> uint g * 3 div 4" for g :: u64
proof -
  have "uint (ucast (g * 3 div 4) :: u32) \<le> uint (g * 3 div 4)"
    by (simp add: unsigned_ucast_eq take_bit_int_less_eq_self_iff)
  also have "\<dots> = uint (g * 3) div 4" by (simp add: uint_div)
  also have "\<dots> \<le> uint g * 3 div 4"
    by (intro zdiv_mono1) (simp_all add: uint_word_ariths zmod_le_nonneg_dividend)
  finally show ?thesis .
qed


lemma sample_targets [simp]:
  "targets sample_batch 8 = [16, 24]" "targets sample_batch 16 = [24]" "targets sample_batch 24 = []"
  by (simp_all add: targets_def sample_batch_simps)

lemma sample_reach [simp]:
  "reach sample_batch 24 = {24}" "reach sample_batch 16 = {16, 24}" "reach sample_batch 8 = {8, 16, 24}"
proof -
  show 1: "reach sample_batch 24 = {24}" by (subst reach_unfold) simp
  show 2: "reach sample_batch 16 = {16, 24}" by (subst reach_unfold) (simp add: 1)
  show "reach sample_batch 8 = {8, 16, 24}" by (subst reach_unfold) (auto simp: 1 2)
qed

lemma sample_space [simp]: "bo_space sample_batch 8 = 4096" "bo_space sample_batch 16 = 4096" "bo_space sample_batch 24 = 4096"
  by (simp_all add: bo_space_def sample_batch_simps)

lemma sample_batch_ok: "batch_ok (\<lambda>a. 3 - a div 8) sample_kernel [8, 16] sample_batch"
  using sample_batch_wf unfolding batch_ok_def
  by (auto simp: sample_kernel_def) (auto simp: sample_batch_simps split: if_splits)

lemma sample_tree_bound: "tree_bound sample_batch"
proof -
  have "a \<in> {8, 16, 24} \<and> gb_reloc_tree_size b = (if a = 8 then 12288 else if a = 16 then 8192 else 4096)"
    if "gm_bos sample_batch a = Some b" for a b using that by (auto simp: sample_batch_simps split: if_splits)
  then show ?thesis unfolding tree_bound_def by fastforce
qed

theorem references_iff_reach_witness:
  "drm_intel_gem_bo_references sample_kernel 16 24 sample_batch = Some ((16, 24) \<in> (edges sample_batch)\<^sup>+)"
proof (rule references_iff_reach [OF sample_batch_wf])
  show "reloc_marked sample_batch"
    by (auto simp: reloc_marked_def targets_def sample_batch_simps split: if_splits)
qed (simp_all add: sample_kernel_def sample_batch_simps)


end
