(* ===== verification/Intel_Gem_Vma.thy ===== *)
theory Intel_Gem_Vma
  imports Intel_Gem_Bo
begin

text \<open>
  The accounting of CPU mappings: which buffers are mapped, which keep an unused mapping on the list
  \<open>vma_cache\<close>, and how many mappings that list holds.
\<close>

section \<open>The invariant\<close>

text \<open>The mappings a buffer holds.\<close>

definition bo_vmas :: "drm_intel_bo_gem \<Rightarrow> int" where
  "bo_vmas b = of_bool (gb_mem_virtual b \<noteq> 0) + of_bool (gb_gtt_virtual b \<noteq> 0)"

definition vmas_on :: "drm_intel_bufmgr_gem \<Rightarrow> addr list \<Rightarrow> int" where
  "vmas_on m bos = (\<Sum>a \<leftarrow> bos. bo_vmas (the (gm_bos m a)))"

definition mapped :: "drm_intel_bufmgr_gem \<Rightarrow> addr set" where
  "mapped m = {a. \<exists>b. gm_bos m a = Some b \<and> gb_map_count b > 0}"

text \<open>The list node of a buffer, its use count and its mappings agree.\<close>

definition vma_bo_ok :: "bool \<Rightarrow> drm_intel_bo_gem \<Rightarrow> bool" where
  "vma_bo_ok cached b \<longleftrightarrow> 0 \<le> gb_map_count b \<and> (cached \<longleftrightarrow> gb_vma_list b = LIn) \<and> gb_vma_list b \<noteq> LNull \<and>
     (gb_map_count b > 0 \<longrightarrow> gb_vma_list b \<noteq> LIn) \<and>
     (gb_map_count b = 0 \<longrightarrow> gb_vma_list b \<noteq> LStale \<and> (gb_vma_list b = LSelf \<longrightarrow> bo_vmas b = 0))"

definition vma_inv :: "drm_intel_bufmgr_gem \<Rightarrow> bool" where
  "vma_inv m \<longleftrightarrow> distinct (gm_vma_cache m) \<and> set (gm_vma_cache m) \<subseteq> dom (gm_bos m) \<and>
     (\<forall>a b. gm_bos m a = Some b \<longrightarrow> vma_bo_ok (a \<in> set (gm_vma_cache m)) b) \<and>
     gm_vma_count m = vmas_on m (gm_vma_cache m) \<and>
     finite (dom (gm_bos m)) \<and> gm_vma_open m = int (card (mapped m))"

lemma vma_invD: "vma_inv m \<Longrightarrow> gm_bos m a = Some b \<Longrightarrow> vma_bo_ok (a \<in> set (gm_vma_cache m)) b"
  by (simp add: vma_inv_def)

lemma bo_vmas_nonneg [simp]: "0 \<le> bo_vmas b"
  by (simp add: bo_vmas_def)

lemma bo_vmas_eq_0: "bo_vmas b = 0 \<longleftrightarrow> gb_mem_virtual b = 0 \<and> gb_gtt_virtual b = 0"
  by (simp add: bo_vmas_def of_bool_def)

lemma count_unmap_twice:
  "count_unmap (gb_gtt_virtual b) (count_unmap (gb_mem_virtual b) m) = m\<lparr>gm_vma_count := gm_vma_count m - bo_vmas b\<rparr>"
  by (simp add: count_unmap_def bo_vmas_def)

lemma count_map_twice:
  "count_map (gb_gtt_virtual b) (count_map (gb_mem_virtual b) m) = m\<lparr>gm_vma_count := gm_vma_count m + bo_vmas b\<rparr>"
  by (simp add: count_map_def bo_vmas_def)

lemma vmas_on_cong: "(\<And>a. a \<in> set bos \<Longrightarrow> gm_bos m' a = gm_bos m a) \<Longrightarrow> vmas_on m' bos = vmas_on m bos"
  unfolding vmas_on_def by (intro arg_cong [of _ _ sum_list] map_cong) auto

lemma vmas_on_append [simp]: "vmas_on m (xs @ ys) = vmas_on m xs + vmas_on m ys"
  by (simp add: vmas_on_def)

lemma vmas_on_remove1: "a \<in> set xs \<Longrightarrow> vmas_on m (remove1 a xs) = vmas_on m xs - bo_vmas (the (gm_bos m a))"
  unfolding vmas_on_def by (induction xs) auto

section \<open>What the accounting of mappings changes\<close>

text \<open>A buffer without its mappings, and without its use count when \<open>p\<close> holds: what reference counting, the
  cache and sharing depend on.\<close>

definition core :: "bool \<Rightarrow> drm_intel_bo_gem \<Rightarrow> u64 \<times> int \<times> lnode \<times> u32 \<times> drm_intel_reloc_target list \<times> bool \<times> bool \<times> int" where
  "core p b = (gb_size b, gb_refcount b, gb_name_list b, gb_global_name b, gb_reloc_target_info b, gb_reusable b,
     gb_used_as_reloc_target b, if p then 0 else gb_map_count b)"

lemma core_stores [simp]:
  "core p (gb_offset64_update f1 b) = core p b" "core p (gb_virtual_update f2 b) = core p b"
  "core p (gb_gem_handle_update f3 b) = core p b" "core p (gb_validate_index_update f4 b) = core p b"
  "core p (gb_tiling_mode_update f5 b) = core p b" "core p (gb_swizzle_mode_update f6 b) = core p b"
  "core p (gb_stride_update f7 b) = core p b" "core p (gb_free_time_update f8 b) = core p b"
  "core p (gb_relocs_update f9 b) = core p b" "core p (gb_reloc_max_update f10 b) = core p b"
  "core p (gb_mem_virtual_update f11 b) = core p b" "core p (gb_gtt_virtual_update f12 b) = core p b"
  "core p (gb_user_virtual_update f13 b) = core p b" "core p (gb_vma_list_update f14 b) = core p b"
  "core p (gb_included_in_check_aperture_update f15 b) = core p b"
  "core p (gb_has_error_update f17 b) = core p b"
  "core p (gb_idle_update f18 b) = core p b" "core p (gb_is_userptr_update f19 b) = core p b"
  "core p (gb_reloc_tree_size_update f20 b) = core p b" "core p (gb_reloc_tree_fences_update f21 b) = core p b"
  "core p (gb_mapped_cpu_write_update f22 b) = core p b"
  "core True (gb_map_count_update g b) = core True b"
  by (simp_all add: core_def)

text \<open>Two states that differ in mappings, their accounting and the use counts of \<open>S\<close> only.\<close>

definition keeps :: "addr set \<Rightarrow> drm_intel_bufmgr_gem \<Rightarrow> drm_intel_bufmgr_gem \<Rightarrow> bool" where
  "keeps S m m' \<longleftrightarrow> gm_named m' = gm_named m \<and> gm_cache_bucket m' = gm_cache_bucket m \<and> gm_bo_reuse m' = gm_bo_reuse m \<and>
     (\<forall>a. map_option (core (a \<in> S)) (gm_bos m' a) = map_option (core (a \<in> S)) (gm_bos m a))"

lemma keeps_refl [simp]: "keeps S m m"
  by (simp add: keeps_def)

lemma core_weaken: "map_option (core p) x = map_option (core p) y \<Longrightarrow> map_option (core (p \<or> q)) x = map_option (core (p \<or> q)) y"
  by (cases x; cases y; cases p) (simp_all add: core_def)

lemma keeps_mono:
  assumes "keeps S m m'" "S \<subseteq> T"
  shows "keeps T m m'"
proof -
  have "map_option (core (a \<in> T)) (gm_bos m' a) = map_option (core (a \<in> T)) (gm_bos m a)" for a
  proof -
    have "(a \<in> S \<or> a \<in> T) = (a \<in> T)" using assms(2) by blast
    moreover have "map_option (core (a \<in> S)) (gm_bos m' a) = map_option (core (a \<in> S)) (gm_bos m a)"
      using assms(1) by (simp add: keeps_def)
    ultimately show ?thesis using core_weaken [of "a \<in> S" "gm_bos m' a" "gm_bos m a" "a \<in> T"] by simp
  qed
  then show ?thesis using assms(1) by (simp add: keeps_def)
qed

lemma keeps_trans: "keeps S a b \<Longrightarrow> keeps S b c \<Longrightarrow> keeps S a c"
  by (simp add: keeps_def)

lemma keeps_dom: "keeps S m m' \<Longrightarrow> dom (gm_bos m') = dom (gm_bos m)"
  unfolding keeps_def dom_def by (metis map_option_is_None)

lemma keeps_get:
  assumes "keeps S m m'" "gm_bos m a = Some b"
  shows "\<exists>b'. gm_bos m' a = Some b' \<and> core (a \<in> S) b' = core (a \<in> S) b"
proof -
  have "map_option (core (a \<in> S)) (gm_bos m' a) = Some (core (a \<in> S) b)" using assms by (simp add: keeps_def)
  then show ?thesis by (simp add: map_option_eq_Some)
qed

lemma keeps_put:
  assumes "gm_bos m bo = Some b" "core (bo \<in> S) b' = core (bo \<in> S) b"
  shows "keeps S m (m\<lparr>gm_bos := (gm_bos m)(bo \<mapsto> b')\<rparr>)"
  using assms by (simp add: keeps_def)

lemma keeps_tick [simp]: "keeps S m (tick m') = keeps S m m'" "keeps S (tick m) m' = keeps S m m'"
  by (simp_all add: keeps_def tick_def)

section \<open>Purging\<close>

text \<open>The purge ends: it drops the oldest unused mappings until no more than the limit are left, and the list
  never runs out before.\<close>

lemma purge_vma_loop_ok:
  assumes "vma_inv m" "0 \<le> limit"
  shows "\<exists>m'. purge_vma_loop limit m = Some m' \<and> vma_inv m' \<and> gm_vma_count m' \<le> limit \<and>
    gm_vma_max m' = gm_vma_max m \<and> gm_vma_open m' = gm_vma_open m \<and> keeps {} m m' \<and>
    (\<exists>done. gm_vma_cache m = done @ gm_vma_cache m' \<and>
      (\<forall>a. gm_bos m' a = (if a \<in> set done
         then map_option (\<lambda>b. b\<lparr>gb_vma_list := LSelf, gb_mem_virtual := 0, gb_gtt_virtual := 0\<rparr>) (gm_bos m a)
         else gm_bos m a)))"
  using assms(1)
proof (induction "gm_vma_cache m" arbitrary: m)
  case Nil
  then have "gm_vma_count m = 0" by (simp add: vma_inv_def vmas_on_def)
  then show ?case using Nil assms(2) by (subst purge_vma_loop.simps) simp
next
  case (Cons bo rest)
  show ?case
  proof (cases "gm_vma_count m \<le> limit")
    case True
    then show ?thesis using Cons.prems by (subst purge_vma_loop.simps) simp
  next
    case False
    have c: "gm_vma_cache m = bo # rest" using Cons.hyps(2) by simp
    obtain b where b: "gm_bos m bo = Some b" using Cons.prems c by (auto simp: vma_inv_def)
    have "vma_bo_ok (bo \<in> set (gm_vma_cache m)) b" using Cons.prems b by (simp add: vma_inv_def)
    then have ok: "vma_bo_ok True b" using c by simp
    let ?b = "b\<lparr>gb_vma_list := LSelf, gb_mem_virtual := 0, gb_gtt_virtual := 0\<rparr>"
    let ?m = "m\<lparr>gm_vma_cache := rest, gm_vma_count := gm_vma_count m - bo_vmas b, gm_bos := (gm_bos m)(bo \<mapsto> ?b)\<rparr>"
    have mc: "gb_map_count b = 0" using ok by (auto simp: vma_bo_ok_def)
    have step: "purge_vma_loop limit m = purge_vma_loop limit ?m"
      using False b c mc by (subst purge_vma_loop.simps) (simp add: get_bo_def put_bo_def wr_def count_unmap_twice)
    have bo: "bo \<notin> set rest" using Cons.prems c by (simp add: vma_inv_def)
    have "mapped ?m = mapped m" using b mc by (auto simp: mapped_def)
    moreover have "vmas_on ?m rest = vmas_on m rest" using bo by (intro vmas_on_cong) auto
    moreover have "vma_bo_ok False ?b" using mc by (simp add: vma_bo_ok_def bo_vmas_def)
    moreover have "vma_bo_ok (a \<in> set rest) b'" if "a \<noteq> bo" "gm_bos m a = Some b'" for a b'
      using vma_invD [OF Cons.prems that(2)] that(1) c by simp
    ultimately have "vma_inv ?m" using Cons.prems b c bo unfolding vma_inv_def by (auto simp: vmas_on_def)
    from Cons.hyps(1) [OF _ this] obtain m' "done" where r: "purge_vma_loop limit ?m = Some m'" "vma_inv m'"
      "gm_vma_count m' \<le> limit" "gm_vma_max m' = gm_vma_max m" "gm_vma_open m' = gm_vma_open m"
      "keeps {} ?m m'" "rest = done @ gm_vma_cache m'"
      "\<forall>a. gm_bos m' a = (if a \<in> set done
         then map_option (\<lambda>b. b\<lparr>gb_vma_list := LSelf, gb_mem_virtual := 0, gb_gtt_virtual := 0\<rparr>) (gm_bos ?m a)
         else gm_bos ?m a)" by auto
    have "gm_vma_cache m = (bo # done) @ gm_vma_cache m'" using c r(7) by simp
    moreover have "gm_bos m' a = (if a \<in> set (bo # done)
         then map_option (\<lambda>b. b\<lparr>gb_vma_list := LSelf, gb_mem_virtual := 0, gb_gtt_virtual := 0\<rparr>) (gm_bos m a)
         else gm_bos m a)" for a
      using r(7,8) bo b by (cases "a = bo") auto
    moreover have "keeps {} m ?m" using b by (simp add: keeps_def core_def)
    ultimately show ?thesis using r(1-6) keeps_trans unfolding step by blast
  qed
qed

text \<open>The number of unused mappings that may be kept.\<close>

definition vma_budget :: "drm_intel_bufmgr_gem \<Rightarrow> bool" where
  "vma_budget m \<longleftrightarrow> gm_vma_max m < 0 \<or> gm_vma_count m \<le> max 0 (gm_vma_max m - 2 * gm_vma_open m)"

lemma purge_vma_cache_ok:
  assumes "vma_inv m"
  shows "\<exists>m'. drm_intel_gem_bo_purge_vma_cache m = Some m' \<and> vma_inv m' \<and> vma_budget m' \<and> dom (gm_bos m') = dom (gm_bos m) \<and>
    keeps {} m m' \<and> (\<forall>a. a \<notin> set (gm_vma_cache m) \<longrightarrow> gm_bos m' a = gm_bos m a) \<and>
    (\<forall>a b. gm_bos m a = Some b \<longrightarrow>
       (\<exists>v x y. gm_bos m' a = Some (b\<lparr>gb_vma_list := v, gb_mem_virtual := x, gb_gtt_virtual := y\<rparr>)))"
proof (cases "gm_vma_max m < 0")
  case True
  have "\<exists>v x y. b = b\<lparr>gb_vma_list := v, gb_mem_virtual := x, gb_gtt_virtual := y\<rparr>" for b :: drm_intel_bo_gem
    by (intro exI [of _ "gb_vma_list b"] exI [of _ "gb_mem_virtual b"] exI [of _ "gb_gtt_virtual b"]) simp
  then show ?thesis using True assms by (simp add: drm_intel_gem_bo_purge_vma_cache_def vma_budget_def)
next
  case False
  let ?limit = "max 0 (gm_vma_max m - 2 * gm_vma_open m)"
  obtain m' "done" where r: "purge_vma_loop ?limit m = Some m'" "vma_inv m'" "gm_vma_count m' \<le> ?limit"
    "gm_vma_max m' = gm_vma_max m" "gm_vma_open m' = gm_vma_open m" "keeps {} m m'"
    "gm_vma_cache m = done @ gm_vma_cache m'"
    "\<forall>a. gm_bos m' a = (if a \<in> set done
         then map_option (\<lambda>b. b\<lparr>gb_vma_list := LSelf, gb_mem_virtual := 0, gb_gtt_virtual := 0\<rparr>) (gm_bos m a)
         else gm_bos m a)"
    using purge_vma_loop_ok [OF assms, of ?limit] by auto
  have "\<exists>v x y. gm_bos m' a = Some (b\<lparr>gb_vma_list := v, gb_mem_virtual := x, gb_gtt_virtual := y\<rparr>)"
    if "gm_bos m a = Some b" for a b
  proof (cases "a \<in> set done")
    case True
    then show ?thesis using r(8) that by auto
  next
    case False
    then have "gm_bos m' a = Some (b\<lparr>gb_vma_list := gb_vma_list b, gb_mem_virtual := gb_mem_virtual b,
        gb_gtt_virtual := gb_gtt_virtual b\<rparr>)" using r(8) that by simp
    then show ?thesis by blast
  qed
  then show ?thesis using r False keeps_dom [OF r(6)] by (auto simp: drm_intel_gem_bo_purge_vma_cache_def vma_budget_def)
qed

section \<open>Opening and closing\<close>

text \<open>A store to a mapped buffer that keeps its count and its node.\<close>

lemma vma_inv_store:
  assumes "vma_inv m" "gm_bos m bo = Some b" "gb_map_count b > 0" "gb_map_count b' > 0" "gb_vma_list b' = gb_vma_list b"
  shows "vma_inv (m\<lparr>gm_bos := (gm_bos m)(bo \<mapsto> b')\<rparr>)"
proof -
  let ?m = "m\<lparr>gm_bos := (gm_bos m)(bo \<mapsto> b')\<rparr>"
  have ok: "vma_bo_ok (bo \<in> set (gm_vma_cache m)) b" using assms(1,2) by (simp add: vma_inv_def)
  then have bo: "bo \<notin> set (gm_vma_cache m)" using assms(3) by (simp add: vma_bo_ok_def)
  have "vma_bo_ok False b'" using ok bo assms(3-5) by (simp add: vma_bo_ok_def)
  moreover have "mapped ?m = mapped m" using assms(2-4) by (auto simp: mapped_def)
  moreover have "vmas_on ?m (gm_vma_cache m) = vmas_on m (gm_vma_cache m)" using bo by (intro vmas_on_cong) auto
  ultimately show ?thesis using assms(1,2) bo unfolding vma_inv_def by auto
qed

lemma tick_bos [simp]: "gm_bos (tick m) = gm_bos m"
  by (simp add: tick_def)

lemma vma_inv_tick [simp]: "vma_inv (tick m) = vma_inv m" "vma_budget (tick m) = vma_budget m"
  by (simp_all add: vma_inv_def vma_budget_def tick_def vmas_on_def mapped_def)

lemma finite_mapped: "vma_inv m \<Longrightarrow> finite (mapped m)"
  unfolding vma_inv_def mapped_def by (rule finite_subset [of _ "dom (gm_bos m)"]) auto

text \<open>The first user of a mapping takes the buffer off the list, and the last one puts it back.\<close>

lemma map_begin_ok:
  assumes "vma_inv m" "vma_budget m" "gm_bos m bo = Some b"
  shows "\<exists>m' v. map_begin bo m = Some m' \<and> vma_inv m' \<and> vma_budget m' \<and> keeps {bo} m m' \<and>
    gm_bos m' bo = Some (b\<lparr>gb_map_count := gb_map_count b + 1, gb_vma_list := v\<rparr>)"
proof (cases "gb_map_count b = 0")
  case False
  have "gb_map_count b > 0" using False assms(1,3) by (auto simp: vma_inv_def vma_bo_ok_def order.strict_iff_order)
  then have "vma_inv (m\<lparr>gm_bos := (gm_bos m)(bo \<mapsto> b\<lparr>gb_map_count := gb_map_count b + 1\<rparr>)\<rparr>)"
    using assms(1,3) by (intro vma_inv_store) simp_all
  moreover have "vma_budget (m\<lparr>gm_bos := (gm_bos m)(bo \<mapsto> b\<lparr>gb_map_count := gb_map_count b + 1\<rparr>)\<rparr>)"
    using assms(2) by (simp add: vma_budget_def)
  ultimately show ?thesis using False assms(3)
    by (intro exI [of _ "m\<lparr>gm_bos := (gm_bos m)(bo \<mapsto> b\<lparr>gb_map_count := gb_map_count b + 1\<rparr>)\<rparr>"] exI [of _ "gb_vma_list b"])
      (auto simp: map_begin_def get_bo_def put_bo_def wr_def core_def intro!: keeps_put)
next
  case True
  let ?in = "bo \<in> set (gm_vma_cache m)" and ?v = "if gb_vma_list b = LIn then LStale else LSelf"
  have ok: "vma_bo_ok ?in b" using assms(1,3) by (simp add: vma_inv_def)
  then have node: "?in \<longleftrightarrow> gb_vma_list b = LIn" "gb_vma_list b = LIn \<or> gb_vma_list b = LSelf \<and> bo_vmas b = 0"
    using True by (cases "gb_vma_list b"; simp add: vma_bo_ok_def)+
  let ?b = "b\<lparr>gb_map_count := 1, gb_vma_list := ?v\<rparr>"
  let ?m = "m\<lparr>gm_vma_open := gm_vma_open m + 1, gm_vma_cache := remove1 bo (gm_vma_cache m),
    gm_bos := (gm_bos m)(bo \<mapsto> ?b), gm_vma_count := gm_vma_count m - bo_vmas b\<rparr>"
  have dist: "distinct (gm_vma_cache m)" "set (gm_vma_cache m) \<subseteq> dom (gm_bos m)" using assms(1) by (simp_all add: vma_inv_def)
  have run: "map_begin bo m = drm_intel_gem_bo_purge_vma_cache ?m"
  proof (cases "gb_vma_list b = LIn")
    case True
    then show ?thesis using \<open>gb_map_count b = 0\<close> assms(3)
      by (simp add: map_begin_def drm_intel_gem_bo_open_vma_def vma_list_del_def get_bo_def put_bo_def wr_def
          count_unmap_twice bo_vmas_def)
  next
    case False
    then have "gb_vma_list b = LSelf" "bo_vmas b = 0" "bo \<notin> set (gm_vma_cache m)" using node by auto
    then show ?thesis using \<open>gb_map_count b = 0\<close> assms(3)
      by (auto simp: map_begin_def drm_intel_gem_bo_open_vma_def vma_list_del_def get_bo_def put_bo_def wr_def
          count_unmap_twice bo_vmas_eq_0 bo_vmas_def remove1_idem
          intro!: arg_cong [of _ _ drm_intel_gem_bo_purge_vma_cache] drm_intel_bufmgr_gem.equality)
  qed
  have "vmas_on ?m (remove1 bo (gm_vma_cache m)) = vmas_on m (gm_vma_cache m) - bo_vmas b"
  proof -
    have "vmas_on ?m (remove1 bo (gm_vma_cache m)) = vmas_on m (remove1 bo (gm_vma_cache m))"
      using dist by (intro vmas_on_cong) auto
    then show ?thesis using node assms(3) by (cases ?in) (auto simp: vmas_on_remove1 remove1_idem)
  qed
  moreover have "mapped ?m = insert bo (mapped m)" "bo \<notin> mapped m" using True assms(3) by (auto simp: mapped_def)
  moreover have "vma_bo_ok False ?b" by (simp add: vma_bo_ok_def)
  ultimately have "vma_inv ?m" using assms(1,3) dist finite_mapped [OF assms(1)] unfolding vma_inv_def by auto
  from purge_vma_cache_ok [OF this] obtain m' where p: "drm_intel_gem_bo_purge_vma_cache ?m = Some m'" "vma_inv m'"
    "vma_budget m'" "keeps {} ?m m'" "\<forall>a. a \<notin> set (gm_vma_cache ?m) \<longrightarrow> gm_bos m' a = gm_bos ?m a"
    by blast
  have "gm_bos m' bo = Some ?b" using p(5) dist(1) by simp
  moreover have "keeps {bo} m ?m" using assms(3) by (simp add: keeps_def core_def)
  moreover have "keeps {bo} ?m m'" using keeps_mono [OF p(4)] by simp
  ultimately show ?thesis using p(1-3) True keeps_trans unfolding run by auto
qed

lemma close_ok:
  assumes "vma_inv m" "gm_bos m bo = Some b" "gb_map_count b > 0"
  shows "\<exists>m' v x y. drm_intel_gem_bo_close_vma (m\<lparr>gm_bos := (gm_bos m)(bo \<mapsto> b\<lparr>gb_map_count := 0\<rparr>)\<rparr>) bo = Some m' \<and>
    vma_inv m' \<and> vma_budget m' \<and> keeps {bo} m m' \<and>
    gm_bos m' bo = Some (b\<lparr>gb_map_count := 0, gb_vma_list := v, gb_mem_virtual := x, gb_gtt_virtual := y\<rparr>)"
proof -
  have ok: "vma_bo_ok (bo \<in> set (gm_vma_cache m)) b" by (rule vma_invD [OF assms(1,2)])
  then have bo: "bo \<notin> set (gm_vma_cache m)" using assms(3) by (simp add: vma_bo_ok_def)
  let ?b = "b\<lparr>gb_map_count := 0, gb_vma_list := LIn\<rparr>"
  let ?m = "m\<lparr>gm_bos := (gm_bos m)(bo \<mapsto> ?b), gm_vma_open := gm_vma_open m - 1, gm_vma_cache := gm_vma_cache m @ [bo],
    gm_vma_count := gm_vma_count m + bo_vmas b\<rparr>"
  have run: "drm_intel_gem_bo_close_vma (m\<lparr>gm_bos := (gm_bos m)(bo \<mapsto> b\<lparr>gb_map_count := 0\<rparr>)\<rparr>) bo =
      drm_intel_gem_bo_purge_vma_cache ?m"
    by (auto simp: drm_intel_gem_bo_close_vma_def get_bo_def put_bo_def wr_def count_map_def bo_vmas_def
        intro!: arg_cong [of _ _ drm_intel_gem_bo_purge_vma_cache] drm_intel_bufmgr_gem.equality)
  have "vmas_on ?m (gm_vma_cache m) = vmas_on m (gm_vma_cache m)" using bo by (intro vmas_on_cong) auto
  moreover have "vmas_on ?m [bo] = bo_vmas b" by (simp add: vmas_on_def bo_vmas_def)
  moreover have "mapped ?m = mapped m - {bo}" "bo \<in> mapped m" using assms(2,3) by (auto simp: mapped_def)
  moreover have "vma_bo_ok True ?b" by (simp add: vma_bo_ok_def)
  moreover have "card (mapped m) > 0" using calculation(4) finite_mapped [OF assms(1)] card_gt_0_iff by blast
  ultimately have "vma_inv ?m" using assms(1,2) bo finite_mapped [OF assms(1)] unfolding vma_inv_def by auto
  from purge_vma_cache_ok [OF this] obtain m' where p: "drm_intel_gem_bo_purge_vma_cache ?m = Some m'" "vma_inv m'"
    "vma_budget m'" "keeps {} ?m m'"
    "\<forall>a b. gm_bos ?m a = Some b \<longrightarrow>
       (\<exists>v x y. gm_bos m' a = Some (b\<lparr>gb_vma_list := v, gb_mem_virtual := x, gb_gtt_virtual := y\<rparr>))" by blast
  have "\<exists>v x y. gm_bos m' bo = Some (?b\<lparr>gb_vma_list := v, gb_mem_virtual := x, gb_gtt_virtual := y\<rparr>)"
    by (rule p(5) [rule_format]) simp
  then have "\<exists>v x y. gm_bos m' bo = Some (b\<lparr>gb_map_count := 0, gb_vma_list := v, gb_mem_virtual := x, gb_gtt_virtual := y\<rparr>)"
    by simp
  moreover have "keeps {bo} m ?m" using assms(2) by (simp add: keeps_def core_def)
  then have "keeps {bo} m m'" using keeps_trans keeps_mono [OF p(4)] by blast
  ultimately show ?thesis using p(1-3) unfolding run by blast
qed

lemma map_end_ok:
  assumes "vma_inv m" "vma_budget m" "gm_bos m bo = Some b" "gb_map_count b > 0"
  shows "\<exists>m' v x y. map_end bo m = Some m' \<and> vma_inv m' \<and> vma_budget m' \<and> keeps {bo} m m' \<and>
    gm_bos m' bo = Some (b\<lparr>gb_map_count := gb_map_count b - 1, gb_vma_list := v, gb_mem_virtual := x, gb_gtt_virtual := y\<rparr>)"
proof (cases "gb_map_count b = 1")
  case False
  let ?m = "m\<lparr>gm_bos := (gm_bos m)(bo \<mapsto> b\<lparr>gb_map_count := gb_map_count b - 1\<rparr>)\<rparr>"
  have "vma_inv ?m" using assms False by (intro vma_inv_store) simp_all
  moreover have "vma_budget ?m" using assms(2) by (simp add: vma_budget_def)
  moreover have "keeps {bo} m ?m" using assms(3) by (intro keeps_put) (simp_all add: core_def)
  ultimately show ?thesis using False assms(3)
    by (intro exI [of _ ?m] exI [of _ "gb_vma_list b"] exI [of _ "gb_mem_virtual b"] exI [of _ "gb_gtt_virtual b"])
      (auto simp: map_end_def get_bo_def put_bo_def wr_def)
next
  case True
  then have "map_end bo m = drm_intel_gem_bo_close_vma (m\<lparr>gm_bos := (gm_bos m)(bo \<mapsto> b\<lparr>gb_map_count := 0\<rparr>)\<rparr>) bo"
    using assms(3) by (simp add: map_end_def get_bo_def put_bo_def wr_def)
  then show ?thesis using close_ok [OF assms(1,3,4)] True by simp
qed

section \<open>Mapping operations\<close>

text \<open>Every operation on a buffer that exists returns, keeps the invariant and the budget, and the buffers that
  exist.\<close>

definition vma_safe :: "addr set \<Rightarrow> (int \<times> drm_intel_bufmgr_gem) option \<Rightarrow> drm_intel_bufmgr_gem \<Rightarrow> bool" where
  "vma_safe S res m \<longleftrightarrow> (\<exists>r m'. res = Some (r, m') \<and> vma_inv m' \<and> vma_budget m' \<and> keeps S m m')"

text \<open>A store to a mapped buffer.\<close>

lemma put_mapped_ok:
  assumes "vma_inv m" "vma_budget m" "gm_bos m bo = Some b" "gb_map_count b > 0" "gb_map_count (f b) = gb_map_count b"
    "gb_vma_list (f b) = gb_vma_list b" "core True (f b) = core True b"
  shows "\<exists>m'. put_bo m bo f = Some m' \<and> vma_inv m' \<and> vma_budget m' \<and> keeps {bo} m m' \<and>
    gm_bos m' bo = Some (f b)"
  using vma_inv_store [OF assms(1,3,4), of "f b"] keeps_put [OF assms(3), of "{bo}" "f b"] assms
  by (auto simp: put_bo_def wr_def vma_budget_def)

text \<open>A store that keeps the count, the node and the mappings.\<close>

lemma put_other_ok:
  assumes "vma_inv m" "vma_budget m" "gm_bos m bo = Some b" "gb_map_count (f b) = gb_map_count b"
    "gb_vma_list (f b) = gb_vma_list b" "bo_vmas (f b) = bo_vmas b" "core True (f b) = core True b"
  shows "\<exists>m'. put_bo m bo f = Some m' \<and> vma_inv m' \<and> vma_budget m' \<and> keeps {bo} m m'"
proof -
  let ?m = "m\<lparr>gm_bos := (gm_bos m)(bo \<mapsto> f b)\<rparr>"
  have "vma_bo_ok (bo \<in> set (gm_vma_cache m)) (f b)"
    using vma_invD [OF assms(1,3)] assms(4-6) by (simp add: vma_bo_ok_def)
  moreover have "mapped ?m = mapped m" using assms(3,4) by (auto simp: mapped_def)
  moreover have "vmas_on ?m (gm_vma_cache m) = vmas_on m (gm_vma_cache m)"
    unfolding vmas_on_def using assms(3,6) by (intro arg_cong [of _ _ sum_list] map_cong) auto
  ultimately have "vma_inv ?m" using assms(1,3) unfolding vma_inv_def by auto
  then show ?thesis using assms(2,3) keeps_put [OF assms(3), of "{bo}" "f b"] assms(7)
    by (auto simp: put_bo_def wr_def vma_budget_def)
qed

text \<open>The failure path of the two mapping functions.\<close>

lemma map_fail_ok:
  assumes "vma_inv m" "vma_budget m" "gm_bos m bo = Some b" "gb_map_count b > 0"
  shows "\<exists>m'. map_end bo (tick m) = Some m' \<and> vma_inv m' \<and> vma_budget m' \<and> keeps {bo} m m'"
  using map_end_ok [of "tick m" bo b] assms by auto

lemma map_ok:
  assumes "vma_inv m" "vma_budget m" "bo \<in> dom (gm_bos m)"
  shows "vma_safe {bo} (drm_intel_gem_bo_map env bo w m) m"
proof -
  obtain b where b: "gm_bos m bo = Some b" using assms(3) by blast
  show ?thesis
  proof (cases "gb_is_userptr b")
    case True
    then show ?thesis
      using put_other_ok [OF assms(1,2) b, of "\<lambda>b. b\<lparr>gb_virtual := gb_user_virtual b\<rparr>"] b
      by (auto simp: drm_intel_gem_bo_map_def get_bo_def vma_safe_def bo_vmas_def)
  next
    case False
    obtain m1 v where m1: "map_begin bo m = Some m1" "vma_inv m1" "vma_budget m1" "keeps {bo} m m1"
      "gm_bos m1 bo = Some (b\<lparr>gb_map_count := gb_map_count b + 1, gb_vma_list := v\<rparr>)"
      using map_begin_ok [OF assms(1,2) b] by blast
    let ?b = "b\<lparr>gb_map_count := gb_map_count b + 1, gb_vma_list := v\<rparr>"
    have pos: "gb_map_count ?b > 0" using vma_invD [OF assms(1) b] by (simp add: vma_bo_ok_def)
    obtain r virt where k: "(if gb_mem_virtual ?b \<noteq> 0 then (0, gb_mem_virtual ?b)
        else k_mmap env (gm_clock m1) (gb_gem_handle ?b) (gb_size ?b)) = (r, virt)" by fastforce
    show ?thesis
    proof (cases "r = 0")
      case False
      then show ?thesis using map_fail_ok [OF m1(2,3,5) pos] m1 k b \<open>\<not> gb_is_userptr b\<close>
        by (auto simp: drm_intel_gem_bo_map_def get_bo_def vma_safe_def elim: keeps_trans)
    next
      case True
      then show ?thesis using put_mapped_ok [of "tick m1" bo ?b "\<lambda>b. b\<lparr>gb_mem_virtual := virt, gb_virtual := virt,
           gb_mapped_cpu_write := gb_mapped_cpu_write b \<or> w\<rparr>"] m1 k b pos \<open>\<not> gb_is_userptr b\<close>
        by (auto simp: drm_intel_gem_bo_map_def get_bo_def vma_safe_def elim: keeps_trans)
    qed
  qed
qed

lemma map_gtt_ok:
  assumes "vma_inv m" "vma_budget m" "bo \<in> dom (gm_bos m)"
  shows "vma_safe {bo} (map_gtt env bo m) m"
proof -
  obtain b where b: "gm_bos m bo = Some b" using assms(3) by blast
  show ?thesis
  proof (cases "gb_is_userptr b")
    case True
    then show ?thesis using assms b by (simp add: map_gtt_def get_bo_def vma_safe_def)
  next
    case False
    obtain m1 v where m1: "map_begin bo m = Some m1" "vma_inv m1" "vma_budget m1" "keeps {bo} m m1"
      "gm_bos m1 bo = Some (b\<lparr>gb_map_count := gb_map_count b + 1, gb_vma_list := v\<rparr>)"
      using map_begin_ok [OF assms(1,2) b] by blast
    let ?b = "b\<lparr>gb_map_count := gb_map_count b + 1, gb_vma_list := v\<rparr>"
    have pos: "gb_map_count ?b > 0" using vma_invD [OF assms(1) b] by (simp add: vma_bo_ok_def)
    obtain r virt where k: "(if gb_gtt_virtual ?b \<noteq> 0 then (0, gb_gtt_virtual ?b)
        else k_mmap_gtt env (gm_clock m1) (gb_gem_handle ?b) (gb_size ?b)) = (r, virt)" by fastforce
    show ?thesis
    proof (cases "r = 0")
      case False
      then show ?thesis using map_fail_ok [OF m1(2,3,5) pos] m1 k b \<open>\<not> gb_is_userptr b\<close>
        by (auto simp: map_gtt_def get_bo_def vma_safe_def elim: keeps_trans)
    next
      case True
      then show ?thesis using put_mapped_ok [of "tick m1" bo ?b "\<lambda>b. b\<lparr>gb_gtt_virtual := virt, gb_virtual := virt\<rparr>"]
          m1 k b pos \<open>\<not> gb_is_userptr b\<close>
        by (auto simp: map_gtt_def get_bo_def vma_safe_def elim: keeps_trans)
    qed
  qed
qed

lemma bo_map_gtt_ok:
  assumes "vma_inv m" "vma_budget m" "bo \<in> dom (gm_bos m)"
  shows "vma_safe {bo} (drm_intel_gem_bo_map_gtt env bo m) m"
  using map_gtt_ok [OF assms, of env] by (auto simp: vma_safe_def drm_intel_gem_bo_map_gtt_def)

lemma unmap_ok:
  assumes "vma_inv m" "vma_budget m" "bo \<in> dom (gm_bos m)"
  shows "vma_safe {bo} (drm_intel_gem_bo_unmap env bo m) m"
proof -
  obtain b where b: "gm_bos m bo = Some b" using assms(3) by blast
  show ?thesis
  proof (cases "bo = NULL \<or> gb_is_userptr b \<or> gb_map_count b \<le> 0")
    case True
    then show ?thesis using assms b by (auto simp: drm_intel_gem_bo_unmap_def get_bo_def vma_safe_def elim: keeps_trans)
  next
    case False
    let ?m = "if gb_mapped_cpu_write b then tick m else m" and ?b = "b\<lparr>gb_mapped_cpu_write := False\<rparr>"
    have t: "vma_inv ?m" "vma_budget ?m" "gm_bos ?m = gm_bos m" "keeps {bo} ?m m1 = keeps {bo} m m1" for m1
      using assms(1,2) by simp_all
    obtain m1 where m1: "put_bo ?m bo (\<lambda>b. b\<lparr>gb_mapped_cpu_write := False\<rparr>) = Some m1" "vma_inv m1" "vma_budget m1"
      "keeps {bo} m m1" "gm_bos m1 bo = Some ?b"
      using put_mapped_ok [OF t(1,2), of bo b "\<lambda>b. b\<lparr>gb_mapped_cpu_write := False\<rparr>"] b False unfolding t(3,4) by auto
    obtain m2 v x y where m2: "map_end bo m1 = Some m2" "vma_inv m2" "vma_budget m2" "keeps {bo} m1 m2"
      "gm_bos m2 bo = Some (?b\<lparr>gb_map_count := gb_map_count ?b - 1, gb_vma_list := v, gb_mem_virtual := x, gb_gtt_virtual := y\<rparr>)"
      using map_end_ok [OF m1(2,3,5)] False by auto
    obtain m3 where m3: "put_bo m2 bo (\<lambda>b. b\<lparr>gb_virtual := 0\<rparr>) = Some m3" "vma_inv m3" "vma_budget m3"
      "keeps {bo} m2 m3"
      using put_other_ok [OF m2(2,3,5), of "\<lambda>b. b\<lparr>gb_virtual := 0\<rparr>"] by (auto simp: bo_vmas_def)
    show ?thesis using False b m1 m2 m3
      by (auto simp: drm_intel_gem_bo_unmap_def get_bo_def vma_safe_def Let_def elim: keeps_trans)
  qed
qed

text \<open>The operations of a client of the mapping interface.\<close>

datatype vma_op = Map addr bool | Map_gtt addr | Map_unsynchronized addr | Unmap addr | Set_vma_cache_size int

fun vma_run :: "gem_env \<Rightarrow> vma_op \<Rightarrow> drm_intel_bufmgr_gem \<Rightarrow> (int \<times> drm_intel_bufmgr_gem) option" where
  "vma_run env (Map bo w) m = drm_intel_gem_bo_map env bo w m"
| "vma_run env (Map_gtt bo) m = drm_intel_gem_bo_map_gtt env bo m"
| "vma_run env (Map_unsynchronized bo) m = drm_intel_gem_bo_map_unsynchronized env bo m"
| "vma_run env (Unmap bo) m = drm_intel_gem_bo_unmap env bo m"
| "vma_run env (Set_vma_cache_size n) m = map_option (Pair 0) (drm_intel_bufmgr_gem_set_vma_cache_size n m)"

text \<open>The buffers an operation is about.\<close>

fun vma_op_bos :: "vma_op \<Rightarrow> addr set" where
  "vma_op_bos (Map bo w) = {bo}"
| "vma_op_bos (Map_gtt bo) = {bo}"
| "vma_op_bos (Map_unsynchronized bo) = {bo}"
| "vma_op_bos (Unmap bo) = {bo}"
| "vma_op_bos (Set_vma_cache_size n) = {}"

lemma vma_run_ok:
  assumes "vma_inv m" "vma_budget m" "vma_op_bos op \<subseteq> dom (gm_bos m)"
  shows "vma_safe (vma_op_bos op) (vma_run env op m) m"
proof (cases op)
  case (Set_vma_cache_size n)
  have k: "keeps S m m'" if "keeps {} (m\<lparr>gm_vma_max := n\<rparr>) m'" for S m'
    using keeps_mono [OF that, of S] by (simp add: keeps_def)
  have "vma_inv (m\<lparr>gm_vma_max := n\<rparr>)" using assms(1) by (simp add: vma_inv_def vmas_on_def mapped_def)
  from purge_vma_cache_ok [OF this] show ?thesis using Set_vma_cache_size
    by (auto intro: k simp: vma_safe_def drm_intel_bufmgr_gem_set_vma_cache_size_def)
qed (use assms in \<open>simp_all add: map_ok bo_map_gtt_ok unmap_ok map_gtt_ok drm_intel_gem_bo_map_unsynchronized_def\<close>)



end
