(* ===== verification/Intel_Gem_Share.thy ===== *)
theory Intel_Gem_Share
  imports Intel_Gem_Vma
begin

text \<open>
  Sharing of buffers: a name or file descriptor leads back to the buffer it was made from. Then the error
  paths that unlink a list node the code never initialised, or unlinked before.
\<close>

section \<open>Names\<close>

text \<open>A buffer is on the list of named buffers when its node says so, and one with a name always is.\<close>

definition name_inv :: "drm_intel_bufmgr_gem \<Rightarrow> bool" where
  "name_inv m \<longleftrightarrow> set (gm_named m) \<subseteq> dom (gm_bos m) \<and>
     (\<forall>a b. gm_bos m a = Some b \<longrightarrow> (gb_name_list b = LIn \<longleftrightarrow> a \<in> set (gm_named m)) \<and>
        (gb_name_list b = LIn \<or> gb_name_list b = LSelf) \<and> (gb_global_name b \<noteq> 0 \<longrightarrow> gb_name_list b = LIn))"

definition named_with :: "(drm_intel_bo_gem \<Rightarrow> bool) \<Rightarrow> drm_intel_bufmgr_gem \<Rightarrow> addr \<Rightarrow> bool" where
  "named_with P m a \<longleftrightarrow> a \<in> set (gm_named m) \<and> (\<exists>b. gm_bos m a = Some b \<and> P b)"

lemma find_named_unique:
  assumes "set (gm_named m) \<subseteq> dom (gm_bos m)" "\<And>a. named_with P m a \<longleftrightarrow> a = bo"
  shows "find_named P m = Some (Some bo)"
proof -
  let ?f = "\<lambda>a found. case found of Some a \<Rightarrow> Some (Some a)
     | None \<Rightarrow> do { b \<leftarrow> get_bo m a; Some (if P b then Some a else None) }"
  have fin: "fold_o ?f bos (Some bo) = Some (Some bo)" for bos
    by (induction bos) simp_all
  have "fold_o ?f bos None = Some (if bo \<in> set bos then Some bo else None)" if "set bos \<subseteq> set (gm_named m)" for bos
    using that
  proof (induction bos)
    case (Cons a bos)
    obtain b where b: "gm_bos m a = Some b" using Cons.prems assms(1) by auto
    have "P b \<longleftrightarrow> a = bo" using assms(2) [of a] Cons.prems b by (simp add: named_with_def)
    moreover have "get_bo m a = Some b" using b by (simp add: get_bo_def)
    ultimately show ?case using Cons fin by auto
  qed simp
  moreover have "bo \<in> set (gm_named m)" using assms(2) [of bo] by (simp add: named_with_def)
  ultimately show ?thesis by (simp add: find_named_def)
qed

lemma name_list_add_ok:
  assumes "gm_bos m bo = Some b" "gb_name_list b = LIn \<longleftrightarrow> bo \<in> set (gm_named m)" "gb_name_list b = LIn \<or> gb_name_list b = LSelf"
  shows "\<exists>m'. name_list_add m bo = Some m' \<and> set (gm_named m') = insert bo (set (gm_named m)) \<and> gm_clock m' = gm_clock m \<and>
    gm_bos m' = (gm_bos m)(bo \<mapsto> b\<lparr>gb_name_list := LIn\<rparr>)"
proof (cases "gb_name_list b = LSelf")
  case True
  then show ?thesis using assms(1) by (simp add: name_list_add_def get_bo_def put_bo_def wr_def)
next
  case False
  then have i: "gb_name_list b = LIn" using assms(3) by simp
  then have "b\<lparr>gb_name_list := LIn\<rparr> = b" by (cases b) simp
  then show ?thesis using i assms(1,2) by (auto simp: name_list_add_def get_bo_def insert_absorb fun_upd_idem)
qed

text \<open>C29. Names lead back. When \<open>flink\<close> gave a buffer a name that no other buffer on the list of named buffers
  has, opening that name in the same manager takes a reference to that very buffer and makes no new
  kernel object.\<close>

theorem flink_create_from_name:
  assumes "name_inv m" "bo \<in> dom (gm_bos m)" "drm_intel_gem_bo_flink env bo m = Some (0, name, m1)" "name \<noteq> 0"
    "\<And>a. named_with (\<lambda>b. gb_global_name b = name) m a \<Longrightarrow> a = bo"
  shows "\<exists>b. gm_bos m1 bo = Some b \<and> gb_global_name b = name \<and>
    drm_intel_bo_gem_create_from_name env' time name m1 =
      Some (Some bo, m1\<lparr>gm_bos := (gm_bos m1)(bo \<mapsto> b\<lparr>gb_refcount := gb_refcount b + 1\<rparr>)\<rparr>)"
proof -
  obtain b where b: "gm_bos m bo = Some b" using assms(2) by blast
  have "\<exists>b1. gm_bos m1 bo = Some b1 \<and> gb_global_name b1 = name \<and> set (gm_named m1) = insert bo (set (gm_named m)) \<and>
      (\<forall>a. a \<noteq> bo \<longrightarrow> gm_bos m1 a = gm_bos m a)"
  proof (cases "gb_global_name b = 0")
    case False
    then have "bo \<in> set (gm_named m)" using assms(1) b by (auto simp: name_inv_def)
    then show ?thesis using False assms(3) b by (auto simp: drm_intel_gem_bo_flink_def get_bo_def)
  next
    case True
    obtain r n where k: "k_flink env (gm_clock m) (gb_gem_handle b) = (r, n)" by fastforce
    have r: "r = 0" "n = name" using True assms(3) b k
      by (auto simp: drm_intel_gem_bo_flink_def get_bo_def Let_def split: if_splits bind_splits)
    let ?b = "b\<lparr>gb_global_name := name, gb_reusable := False\<rparr>"
    let ?m = "(tick m)\<lparr>gm_bos := (gm_bos m)(bo \<mapsto> ?b)\<rparr>"
    have c: "gb_name_list b = LIn \<longleftrightarrow> bo \<in> set (gm_named m)" "gb_name_list b = LIn \<or> gb_name_list b = LSelf"
      using assms(1) b by (auto simp: name_inv_def)
    obtain m' where m': "name_list_add ?m bo = Some m'" "set (gm_named m') = insert bo (set (gm_named m))"
      "gm_bos m' = (gm_bos m)(bo \<mapsto> ?b\<lparr>gb_name_list := LIn\<rparr>)"
      using name_list_add_ok [of ?m bo ?b] c by (auto simp: tick_def)
    have "drm_intel_gem_bo_flink env bo m = Some (0, name, m')"
      using True b k r m'(1) by (simp add: drm_intel_gem_bo_flink_def get_bo_def put_bo_def wr_def)
    then show ?thesis using assms(3) m'(2,3) by auto
  qed
  then obtain b1 where b1: "gm_bos m1 bo = Some b1" "gb_global_name b1 = name"
    "set (gm_named m1) = insert bo (set (gm_named m))" "\<forall>a. a \<noteq> bo \<longrightarrow> gm_bos m1 a = gm_bos m a" by blast
  have "set (gm_named m1) \<subseteq> dom (gm_bos m1)"
  proof
    fix a assume "a \<in> set (gm_named m1)"
    then show "a \<in> dom (gm_bos m1)" using assms(1) b1 by (cases "a = bo") (auto simp: name_inv_def)
  qed
  moreover have "named_with (\<lambda>b. gb_global_name b = name) m1 a \<longleftrightarrow> a = bo" for a
    using assms(5) [of a] b1 by (cases "a = bo") (auto simp: named_with_def)
  ultimately have "find_named (\<lambda>b. gb_global_name b = name) m1 = Some (Some bo)" by (rule find_named_unique)
  then show ?thesis using b1(1,2)
    by (simp add: drm_intel_bo_gem_create_from_name_def drm_intel_gem_bo_reference_def put_bo_def wr_def)
qed

text \<open>A buffer without a name is exported, and its name opened.\<close>

definition sample_shared :: drm_intel_bufmgr_gem where
  "sample_shared = gem_zero\<lparr>gm_bos := [8 \<mapsto> bo_zero\<lparr>gb_size := 4096, gb_gem_handle := 5, gb_refcount := 1, gb_name_list := LSelf,
     gb_vma_list := LSelf, gb_reusable := True\<rparr>], gm_bo_reuse := True,
     gm_cache_bucket := [\<lparr>bk_size = 4096, bk_head = []\<rparr>]\<rparr>"

lemma sample_shared_inv: "name_inv sample_shared"
  by (auto simp: name_inv_def sample_shared_def bo_zero_def gem_zero_def split: if_splits)

theorem flink_create_from_name_witness:
  "\<exists>m1 b. drm_intel_gem_bo_flink sample_kernel 8 sample_shared = Some (0, 105, m1) \<and>
    gm_bos m1 8 = Some b \<and> gb_global_name b = 105 \<and>
    drm_intel_bo_gem_create_from_name sample_kernel 1 105 m1 =
      Some (Some 8, m1\<lparr>gm_bos := (gm_bos m1)(8 \<mapsto> b\<lparr>gb_refcount := gb_refcount b + 1\<rparr>)\<rparr>)"
proof -
  obtain m1 where f: "drm_intel_gem_bo_flink sample_kernel 8 sample_shared = Some (0, 105, m1)"
    by (simp add: drm_intel_gem_bo_flink_def sample_kernel_def sample_shared_def get_bo_def put_bo_def wr_def bo_zero_def
        gem_zero_def name_list_add_def tick_def)
  have d: "8 \<in> dom (gm_bos sample_shared)" by (simp add: sample_shared_def)
  have u: "a = 8" if "named_with (\<lambda>b. gb_global_name b = 105) sample_shared a" for a
    using that by (simp add: named_with_def sample_shared_def gem_zero_def)
  have "\<exists>b. gm_bos m1 8 = Some b \<and> gb_global_name b = 105 \<and>
    drm_intel_bo_gem_create_from_name sample_kernel 1 105 m1 =
      Some (Some 8, m1\<lparr>gm_bos := (gm_bos m1)(8 \<mapsto> b\<lparr>gb_refcount := gb_refcount b + 1\<rparr>)\<rparr>)"
    by (rule flink_create_from_name [OF sample_shared_inv d f _ u]) simp_all
  then show ?thesis using f by blast
qed

text \<open>C30. File descriptors lead back. When a buffer was exported and the kernel maps the descriptor to the
  buffer's handle, as it does for a descriptor of the same device, and no other buffer on the list of
  named buffers has that handle, importing the descriptor takes a reference to that very buffer; an
  exported buffer is never reused.\<close>

theorem export_create_from_prime:
  assumes "name_inv m" "gm_bos m bo = Some b" "drm_intel_bo_gem_export_to_prime env bo m = Some (0, fd, m1)"
    "snd (k_fd_to_handle env (gm_clock m1) fd) = gb_gem_handle b"
    "\<And>a. named_with (\<lambda>b'. gb_gem_handle b' = gb_gem_handle b) m a \<Longrightarrow> a = bo"
  shows "\<exists>m2. drm_intel_bo_gem_create_from_prime env time fd sz m1 = Some (Some bo, m2) \<and>
    gm_bos m2 = (gm_bos m)(bo \<mapsto> b\<lparr>gb_name_list := LIn, gb_reusable := False, gb_refcount := gb_refcount b + 1\<rparr>)"
proof -
  have c: "gb_name_list b = LIn \<longleftrightarrow> bo \<in> set (gm_named m)" "gb_name_list b = LIn \<or> gb_name_list b = LSelf"
    using assms(1,2) by (auto simp: name_inv_def)
  let ?b = "b\<lparr>gb_name_list := LIn\<rparr>" and ?b1 = "b\<lparr>gb_name_list := LIn, gb_reusable := False\<rparr>"
  obtain m' where m': "name_list_add m bo = Some m'" "set (gm_named m') = insert bo (set (gm_named m))"
    "gm_bos m' = (gm_bos m)(bo \<mapsto> ?b)"
    using name_list_add_ok [OF assms(2) c] by blast
  obtain r fd' where k: "k_handle_to_fd env (gm_clock m') (gb_gem_handle b) = (r, fd')" by fastforce
  have m1: "m1 = (tick m')\<lparr>gm_bos := (gm_bos m)(bo \<mapsto> ?b1)\<rparr>"
    using assms(3) m'(1,3) k
    by (auto simp: drm_intel_bo_gem_export_to_prime_def get_bo_def put_bo_def wr_def Let_def split: if_splits)
  let ?P = "\<lambda>b'. gb_gem_handle b' = gb_gem_handle b"
  have dom: "set (gm_named m1) \<subseteq> dom (gm_bos m1)"
    using assms(1) m'(2) unfolding m1 by (auto simp: name_inv_def tick_def)
  have uni: "named_with ?P m1 a \<longleftrightarrow> a = bo" for a
    using assms(5) [of a] m'(2) unfolding m1 by (cases "a = bo") (auto simp: named_with_def tick_def)
  obtain r' h where h: "k_fd_to_handle env (gm_clock m1) fd = (r', h)" "h = gb_gem_handle b"
    using assms(4) by (metis prod.collapse)
  have "named_with ?P (tick m1) = named_with ?P m1" by (simp add: fun_eq_iff named_with_def tick_def)
  then have "find_named ?P (tick m1) = Some (Some bo)"
    using dom uni by (intro find_named_unique) (simp_all add: tick_def)
  then show ?thesis using h m1
    by (auto simp: drm_intel_bo_gem_create_from_prime_def drm_intel_gem_bo_reference_def put_bo_def wr_def)
qed

theorem export_create_from_prime_witness:
  "\<exists>m1 m2. drm_intel_bo_gem_export_to_prime (sample_kernel\<lparr>k_fd_to_handle := \<lambda>n fd. (0, 5)\<rparr>) 8 sample_shared = Some (0, 3, m1) \<and>
    drm_intel_bo_gem_create_from_prime (sample_kernel\<lparr>k_fd_to_handle := \<lambda>n fd. (0, 5)\<rparr>) 1 3 4096 m1 = Some (Some 8, m2) \<and>
    gm_bos m2 = (gm_bos sample_shared)(8 \<mapsto> (the (gm_bos sample_shared 8))
      \<lparr>gb_name_list := LIn, gb_reusable := False, gb_refcount := gb_refcount (the (gm_bos sample_shared 8)) + 1\<rparr>)"
proof -
  let ?k = "sample_kernel\<lparr>k_fd_to_handle := \<lambda>n fd. (0, 5)\<rparr>" and ?b = "the (gm_bos sample_shared 8)"
  obtain m1 where f: "drm_intel_bo_gem_export_to_prime ?k 8 sample_shared = Some (0, 3, m1)"
    by (simp add: drm_intel_bo_gem_export_to_prime_def sample_kernel_def sample_shared_def get_bo_def put_bo_def wr_def
        bo_zero_def gem_zero_def name_list_add_def tick_def)
  have b: "gm_bos sample_shared 8 = Some ?b" by (simp add: sample_shared_def)
  have h: "snd (k_fd_to_handle ?k (gm_clock m1) 3) = gb_gem_handle ?b" by (simp add: sample_shared_def)
  have u: "a = 8" if "named_with (\<lambda>b'. gb_gem_handle b' = gb_gem_handle ?b) sample_shared a" for a
    using that by (simp add: named_with_def sample_shared_def gem_zero_def)
  have "\<exists>m2. drm_intel_bo_gem_create_from_prime ?k 1 3 4096 m1 = Some (Some 8, m2) \<and>
    gm_bos m2 = (gm_bos sample_shared)(8 \<mapsto> ?b\<lparr>gb_name_list := LIn, gb_reusable := False, gb_refcount := gb_refcount ?b + 1\<rparr>)"
    by (rule export_create_from_prime [OF sample_shared_inv b f h u])
  then show ?thesis using f by blast
qed

section \<open>Error paths\<close>

lemma set_tiling_loop_answer:
  "k_set_tiling env (gm_clock m) h t s = (r, x) \<Longrightarrow> r \<noteq> - EINTR \<Longrightarrow> r \<noteq> - EAGAIN \<Longrightarrow>
   set_tiling_loop env h t s m = Some ((r, x), tick m)"
  by (subst set_tiling_loop.simps) simp

text \<open>C31. An allocation whose tiling request fails goes wrong: the new buffer's node on the list of unused
  mappings is still zero when \<open>drm_intel_gem_bo_free\<close> unlinks it, so the code follows a null pointer
  instead of returning \<open>NULL\<close>.\<close>

theorem alloc_new_tiling_failure:
  assumes "k_calloc env (gm_clock m) (gm_bos m) = Some bo" "k_create env (gm_clock m) sz = (0, h)"
    "tiling_mode \<noteq> I915_TILING_NONE" "k_set_tiling env (Suc (gm_clock m)) h tiling_mode stride = (r, x)"
    "r \<noteq> 0" "r \<noteq> - EINTR" "r \<noteq> - EAGAIN"
  shows "alloc_new env sz tiling_mode stride m = None"
  using assms
  by (simp add: alloc_new_def drm_intel_gem_bo_set_tiling_internal_def get_bo_def put_bo_def wr_def bo_zero_def tick_def
      set_tiling_loop_answer drm_intel_gem_bo_free_def vma_list_del_def Let_def)

theorem alloc_new_tiling_failure_witness:
  "alloc_new (sample_kernel\<lparr>k_set_tiling := \<lambda>n h t s. (- EINVAL, 0, 0, 0)\<rparr>) 4096 I915_TILING_X 512 gem_zero = None"
  by (rule alloc_new_tiling_failure [where bo = 8 and h = 1 and r = "- EINVAL" and x = "(0, 0, 0)"])
    (simp_all add: sample_kernel_def gem_zero_def tiling_defs errno_defs)

text \<open>Opening a name goes wrong the same way when the kernel cannot tell the tiling: both list nodes of the new
  buffer are still zero when it is released.\<close>

lemma create_from_name_tiling_failure:
  assumes "gm_named m = []" "k_open env (gm_clock m) name = (0, h, sz)"
    "k_calloc env (Suc (gm_clock m)) (gm_bos m) = Some bo" "k_get_tiling env (Suc (gm_clock m)) h = (r, x)" "r \<noteq> 0"
  shows "drm_intel_bo_gem_create_from_name env time name m = None"
  using assms by (simp add: drm_intel_bo_gem_create_from_name_def find_named_def tick_def drm_intel_gem_bo_unreference_def
      drm_intel_gem_bo_unreference_final_def get_bo_def put_bo_def wr_def bo_zero_def name_list_del_def Let_def split: prod.split)

text \<open>A failed export leaves the buffer on the list of named buffers and still reusable. Released, it goes to the
  cache with a stale node; allocated again and released again, the stale node is unlinked a second time.\<close>

definition export_release :: "gem_env \<Rightarrow> drm_intel_bufmgr_gem \<Rightarrow> (addr option \<times> drm_intel_bufmgr_gem) option" where
  "export_release env m = do {
     (r, fd, m) \<leftarrow> drm_intel_bo_gem_export_to_prime env 8 m;
     m \<leftarrow> drm_intel_gem_bo_unreference env 0 8 m;
     drm_intel_gem_bo_alloc env 4096 4096 m
   }"

lemma failed_export_double_unlink:
  "\<exists>m. export_release (sample_kernel\<lparr>k_handle_to_fd := \<lambda>n h. (- EINVAL, 0)\<rparr>) sample_shared = Some (Some 8, m) \<and>
     drm_intel_gem_bo_unreference sample_kernel 0 8 m = None"
  by (simp add: export_release_def drm_intel_bo_gem_export_to_prime_def name_list_add_def sample_shared_def gem_zero_def
      bo_zero_def sample_kernel_def get_bo_def put_bo_def wr_def tick_def drm_intel_gem_bo_unreference_def errno_defs
      drm_intel_gem_bo_unreference_final_def name_list_del_def drm_intel_gem_bo_bucket_for_size_def
      drm_intel_gem_bo_madvise_internal_def set_bucket_def bucket_head_def drm_intel_gem_cleanup_bo_cache_def
      drm_intel_gem_bo_alloc_def drm_intel_gem_bo_alloc_internal_def alloc_from_cache.simps drm_intel_gem_bo_busy_def
      drm_intel_gem_bo_set_tiling_internal_def drm_intel_bo_gem_set_in_aperture_size_def tiling_defs Let_def
      BO_ALLOC_FOR_RENDER_def)

end
