(* ===== verification/Intel_Gem_Init.thy ===== *)
theory Intel_Gem_Init
  imports Intel_Gem_Share Intel_Gem_Aperture
begin

text \<open>
  Creation of a GEM buffer manager: what \<open>drm_intel_bufmgr_gem_init\<close> asks the kernel, the generation it
  settles on, and the process-wide list of managers.
\<close>

section \<open>Queries\<close>

definition I915_PARAM_CHIPSET_ID :: nat where "I915_PARAM_CHIPSET_ID = 4"
definition I915_PARAM_NUM_FENCES_AVAIL :: nat where "I915_PARAM_NUM_FENCES_AVAIL = 6"
definition I915_PARAM_HAS_EXECBUF2 :: nat where "I915_PARAM_HAS_EXECBUF2 = 9"
definition I915_PARAM_HAS_BSD :: nat where "I915_PARAM_HAS_BSD = 10"
definition I915_PARAM_HAS_BLT :: nat where "I915_PARAM_HAS_BLT = 11"
definition I915_PARAM_HAS_RELAXED_FENCING :: nat where "I915_PARAM_HAS_RELAXED_FENCING = 12"
definition I915_PARAM_HAS_LLC :: nat where "I915_PARAM_HAS_LLC = 17"
definition I915_PARAM_HAS_WAIT_TIMEOUT :: nat where "I915_PARAM_HAS_WAIT_TIMEOUT = 19"
definition I915_PARAM_HAS_VEBOX :: nat where "I915_PARAM_HAS_VEBOX = 22"
definition I915_USERPTR_UNSYNCHRONIZED :: u32 where "I915_USERPTR_UNSYNCHRONIZED = 0x80000000"
definition ENODEV :: int where "ENODEV = 19"

text \<open>
  What the system answers while a manager is created: \<open>calloc\<close> and \<open>pthread_mutex_init\<close>, the size of the
  aperture (\<open>None\<close> when the request fails), the value of \<open>INTEL_DEVID_OVERRIDE\<close> when the process may use it,
  \<open>GETPARAM\<close>, and the requests of the test for user pointers.
\<close>

record gem_system =
  q_calloc :: bool
  q_mutex :: bool
  q_aperture :: "u64 option"
  q_override :: "u32 option"
  q_getparam :: "nat \<Rightarrow> int option"
  q_memalign :: bool
  q_userptr :: "u32 \<Rightarrow> int"
  q_close :: int

text \<open>The device id and whether execution is off; an id the kernel did not give is an uninitialised
  variable.\<close>

definition get_pci_device_id :: "gem_system \<Rightarrow> (u32 \<times> bool) option" where
  "get_pci_device_id q =
    (case q_override q of
       Some devid \<Rightarrow> Some (devid, True)
     | None \<Rightarrow> do { devid \<leftarrow> q_getparam q I915_PARAM_CHIPSET_ID; Some (of_int devid, False) })"

definition has_userptr :: "gem_system \<Rightarrow> bool" where
  "has_userptr q =
    (if \<not> q_memalign q then False
     else
       let r = q_userptr q 0;
           r = (if r = - ENODEV then q_userptr q I915_USERPTR_UNSYNCHRONIZED else r) in
       if r \<noteq> 0 then False else q_close q = 0)"

definition has_param :: "gem_system \<Rightarrow> nat \<Rightarrow> bool" where
  "has_param q p \<longleftrightarrow> q_getparam q p \<noteq> None"

text \<open>The fences that may be used before generation 4: two less than the kernel has.\<close>

definition usable_fences :: "gem_system \<Rightarrow> int option" where
  "usable_fences q =
    (case q_getparam q I915_PARAM_NUM_FENCES_AVAIL of
       None \<Rightarrow> Some 0
     | Some n \<Rightarrow> map_option (max 0) (s32 (n - 2)))"

text \<open>The fields of a manager that the queries decide.\<close>

definition gem_settings :: "gem_system \<Rightarrow> int \<Rightarrow> u64 \<Rightarrow> u32 \<Rightarrow> bool \<Rightarrow> nat \<Rightarrow> int \<Rightarrow> drm_intel_bufmgr_gem" where
  "gem_settings q batch_size gtt_size devid no_exec gen fences =
     gem_zero\<lparr>gm_gtt_size := gtt_size, gm_pci_device := devid, gm_no_exec := no_exec, gm_gen := gen,
       gm_has_bsd := has_param q I915_PARAM_HAS_BSD, gm_has_blt := has_param q I915_PARAM_HAS_BLT,
       gm_has_relaxed_fencing := has_param q I915_PARAM_HAS_RELAXED_FENCING, gm_has_userptr := has_userptr q,
       gm_has_wait_timeout := has_param q I915_PARAM_HAS_WAIT_TIMEOUT,
       gm_has_llc := (case q_getparam q I915_PARAM_HAS_LLC of None \<Rightarrow> IS_GEN6 devid \<or> IS_GEN7 devid | Some v \<Rightarrow> v \<noteq> 0),
       gm_has_vebox := (case q_getparam q I915_PARAM_HAS_VEBOX of None \<Rightarrow> False | Some v \<Rightarrow> v > 0),
       gm_available_fences := fences, gm_max_relocs := to_int (of_int batch_size div 4 div 2 - 2),
       gm_exec2 := has_param q I915_PARAM_HAS_EXECBUF2, gm_vma_max := -1\<rparr>"

text \<open>A new manager, or \<open>None\<close> for \<open>NULL\<close>.\<close>

definition gem_create :: "gem_system \<Rightarrow> int \<Rightarrow> drm_intel_bufmgr_gem option option" where
  "gem_create q batch_size =
    (if \<not> q_calloc q \<or> \<not> q_mutex q then Some None
     else do {
       let gtt_size = (case q_aperture q of Some n \<Rightarrow> n | None \<Rightarrow> 128 * 1024 * 1024);
       (devid, no_exec) \<leftarrow> get_pci_device_id q;
       case gem_gen devid of
         None \<Rightarrow> Some None
       | Some gen \<Rightarrow> do {
           let gtt_size = (if IS_GEN3 devid \<and> gtt_size > 256 * 1024 * 1024 then gtt_size - 256 * 1024 * 1024 else gtt_size);
           fences \<leftarrow> (if gen < 4 then usable_fences q else Some 0);
           m \<leftarrow> init_cache_buckets (gem_settings q batch_size gtt_size devid no_exec gen fences);
           Some (Some m)
         }
     })"

section \<open>Managers\<close>

text \<open>The list \<open>bufmgr_list\<close>. A manager is known by its file descriptor, of which the list has one entry.\<close>

record gem_manager =
  gr_fd :: int
  gr_refcount :: int
  gr_mgr :: drm_intel_bufmgr_gem

fun drm_intel_bufmgr_gem_find :: "int \<Rightarrow> gem_manager list \<Rightarrow> (bool \<times> gem_manager list)" where
  "drm_intel_bufmgr_gem_find fd [] = (False, [])"
| "drm_intel_bufmgr_gem_find fd (r # rs) =
    (if gr_fd r = fd then (True, r\<lparr>gr_refcount := gr_refcount r + 1\<rparr> # rs)
     else let (found, rs) = drm_intel_bufmgr_gem_find fd rs in (found, r # rs))"

text \<open>Whether there is a manager for \<open>fd\<close> afterwards, and the list.\<close>

definition drm_intel_bufmgr_gem_init :: "gem_system \<Rightarrow> int \<Rightarrow> int \<Rightarrow> gem_manager list \<Rightarrow> (bool \<times> gem_manager list) option" where
  "drm_intel_bufmgr_gem_init q fd batch_size rs = do {
     let (found, rs) = drm_intel_bufmgr_gem_find fd rs;
     if found then Some (True, rs)
     else do {
       new \<leftarrow> gem_create q batch_size;
       Some (case new of None \<Rightarrow> (False, rs) | Some m \<Rightarrow> (True, \<lparr>gr_fd = fd, gr_refcount = 1, gr_mgr = m\<rparr> # rs))
     }
   }"

fun drm_intel_bufmgr_gem_unref :: "int \<Rightarrow> gem_manager list \<Rightarrow> gem_manager list option" where
  "drm_intel_bufmgr_gem_unref fd [] = None"
| "drm_intel_bufmgr_gem_unref fd (r # rs) =
    (if gr_fd r = fd then
       if gr_refcount r = 1 then do { _ \<leftarrow> drm_intel_bufmgr_gem_destroy (gr_mgr r); Some rs }
       else Some (r\<lparr>gr_refcount := gr_refcount r - 1\<rparr> # rs)
     else map_option ((#) r) (drm_intel_bufmgr_gem_unref fd rs))"

section \<open>Requests that keep the state\<close>

definition drm_intel_gem_bo_madvise ::
  "gem_env \<Rightarrow> drm_intel_bufmgr_gem \<Rightarrow> addr \<Rightarrow> u32 \<Rightarrow> (bool \<times> drm_intel_bufmgr_gem) option" where
  "drm_intel_gem_bo_madvise env m bo madv = drm_intel_gem_bo_madvise_internal env m bo madv"

definition drm_intel_gem_bo_unmap_gtt ::
  "gem_env \<Rightarrow> addr \<Rightarrow> drm_intel_bufmgr_gem \<Rightarrow> (int \<times> drm_intel_bufmgr_gem) option" where
  "drm_intel_gem_bo_unmap_gtt env bo m = drm_intel_gem_bo_unmap env bo m"

definition drm_intel_gem_bo_get_tiling :: "addr \<Rightarrow> drm_intel_bufmgr_gem \<Rightarrow> (u32 \<times> u32) option" where
  "drm_intel_gem_bo_get_tiling bo m = map_option (\<lambda>b. (gb_tiling_mode b, gb_swizzle_mode b)) (get_bo m bo)"

definition drm_intel_bufmgr_gem_enable_reuse :: "drm_intel_bufmgr_gem \<Rightarrow> drm_intel_bufmgr_gem" where
  "drm_intel_bufmgr_gem_enable_reuse m = m\<lparr>gm_bo_reuse := True\<rparr>"

definition drm_intel_bufmgr_gem_enable_fenced_relocs :: "drm_intel_bufmgr_gem \<Rightarrow> drm_intel_bufmgr_gem" where
  "drm_intel_bufmgr_gem_enable_fenced_relocs m = (if gm_exec2 m then m\<lparr>gm_fenced_relocs := True\<rparr> else m)"

definition drm_intel_bufmgr_gem_get_devid :: "drm_intel_bufmgr_gem \<Rightarrow> u32" where
  "drm_intel_bufmgr_gem_get_devid m = gm_pci_device m"

text \<open>Execution through the function pointers \<open>bo_exec\<close> and \<open>bo_mrb_exec\<close>.\<close>

definition drm_intel_gem_bo_mrb_exec2 ::
  "gem_env \<Rightarrow> addr \<Rightarrow> u32 \<Rightarrow> drm_intel_bufmgr_gem \<Rightarrow> (int \<times> drm_intel_bufmgr_gem) option" where
  "drm_intel_gem_bo_mrb_exec2 env bo flags m = do_exec2 env bo flags m"

text \<open>\<open>wait_ans\<close> is the answer of the \<open>WAIT\<close> request.\<close>

definition drm_intel_gem_bo_wait ::
  "gem_env \<Rightarrow> int \<Rightarrow> addr \<Rightarrow> int \<Rightarrow> drm_intel_bufmgr_gem \<Rightarrow> (int \<times> drm_intel_bufmgr_gem) option" where
  "drm_intel_gem_bo_wait env wait_ans bo timeout_ns m =
    (if \<not> gm_has_wait_timeout m then
       if timeout_ns \<noteq> 0 then do { _ \<leftarrow> get_bo m bo; Some (0, tick m) }
       else do { (busy, m) \<leftarrow> drm_intel_gem_bo_busy env m bo; Some (if busy then - ETIME else 0, m) }
     else do { _ \<leftarrow> get_bo m bo; Some (wait_ans, tick m) })"

section \<open>A new manager\<close>

lemma gem_create_Some:
  assumes "gem_create q batch_size = Some (Some m)"
  shows "gm_bos m = (\<lambda>_. None)" "gm_exec_bos m = []" "gm_exec_objects m = []" "gm_exec_size m = 0" "gm_vma_cache m = []"
    "gm_vma_count m = 0" "gm_vma_open m = 0" "gm_vma_max m = -1" "gm_named m = []" "gem_gen (gm_pci_device m) = Some (gm_gen m)"
    "gm_cache_bucket m = map bucket_of class_sizes" "0 \<le> gm_available_fences m"
proof -
  have nn: "q_calloc q" "q_mutex q" using assms by (auto simp: gem_create_def split: if_splits)
  obtain devid no_exec where pci: "get_pci_device_id q = Some (devid, no_exec)"
    using assms nn by (cases "get_pci_device_id q") (auto simp: gem_create_def Let_def)
  obtain gen where gen: "gem_gen devid = Some gen"
    using assms nn pci by (cases "gem_gen devid") (auto simp: gem_create_def Let_def)
  obtain fences where f: "(if gen < 4 then usable_fences q else Some 0) = Some fences"
    using assms nn pci gen by (cases "if gen < 4 then usable_fences q else Some 0") (auto simp: gem_create_def Let_def)
  have fn: "0 \<le> fences" using f by (auto simp: usable_fences_def split: if_splits option.splits)
  obtain gtt where b: "init_cache_buckets (gem_settings q batch_size gtt devid no_exec gen fences) = Some m"
    using assms nn pci gen f by (auto simp: gem_create_def Let_def simp del: if_split split: bind_splits)
  note c = gen fn b
  have m: "m = (gem_settings q batch_size gtt devid no_exec gen fences)\<lparr>gm_cache_bucket := map bucket_of class_sizes\<rparr>"
    using c(3) init_cache_buckets_eq [of "gem_settings q batch_size gtt devid no_exec gen fences"]
    unfolding class_sizes_def by (simp add: gem_settings_def gem_zero_def)
  show "gm_bos m = (\<lambda>_. None)" "gm_exec_bos m = []" "gm_exec_objects m = []" "gm_exec_size m = 0" "gm_vma_cache m = []"
    "gm_vma_count m = 0" "gm_vma_open m = 0" "gm_vma_max m = -1" "gm_named m = []" "gem_gen (gm_pci_device m) = Some (gm_gen m)"
    "gm_cache_bucket m = map bucket_of class_sizes" "0 \<le> gm_available_fences m"
    using c unfolding m by (simp_all add: gem_settings_def gem_zero_def)
qed


text \<open>An Ivybridge that supports everything.\<close>

definition sample_system :: gem_system where
  "sample_system = \<lparr>q_calloc = True, q_mutex = True, q_aperture = Some 0x10000000, q_override = None,
     q_getparam = \<lambda>p. Some (if p = 4 then 0x0162 else 1), q_memalign = True, q_userptr = \<lambda>_. 0, q_close = 0\<rparr>"

lemma gem_gen_IVB: "gem_gen 0x0162 = Some 7"
  using generation_2 [of "0x0162"] generation_3 [of "0x0162"] generation_4 [of "0x0162"] generation_5 [of "0x0162"]
    generation_6 [of "0x0162"] by (auto simp: gem_gen_def IS_GEN7_def IS_IVYBRIDGE_def)

lemma gem_create_works:
  assumes "q_calloc q" "q_mutex q" "get_pci_device_id q = Some (devid, no_exec)" "gem_gen devid = Some gen" "4 \<le> gen"
  shows "\<exists>m. gem_create q batch_size = Some (Some m)"
  using assms by (simp add: gem_create_def Let_def gem_settings_def gem_zero_def init_cache_buckets_eq)

lemma sample_system_create: "\<exists>m. gem_create sample_system 4096 = Some (Some m)"
  by (rule gem_create_works [where no_exec = False, OF _ _ _ gem_gen_IVB])
    (simp_all add: sample_system_def get_pci_device_id_def I915_PARAM_CHIPSET_ID_def)

section \<open>The list of managers\<close>

definition managers_ok :: "gem_manager list \<Rightarrow> bool" where
  "managers_ok rs \<longleftrightarrow> distinct (map gr_fd rs) \<and> (\<forall>r \<in> set rs. 1 \<le> gr_refcount r)"

lemma drain_empty: "bucket_head m i = [] \<Longrightarrow> drain_bucket i m = Some m"
  by (subst drain_bucket.simps) simp

lemma destroy_new: "gem_create q batch_size = Some (Some m) \<Longrightarrow> drm_intel_bufmgr_gem_destroy m = Some m"
proof -
  assume "gem_create q batch_size = Some (Some m)"
  then have b: "gm_cache_bucket m = map bucket_of class_sizes" by (rule gem_create_Some)
  then have e: "bucket_head m i = []" if "i < length (gm_cache_bucket m)" for i
    using that by (simp add: bucket_head_def bucket_of_def)
  have "fold_o drain_bucket xs m = Some m" if "\<forall>i \<in> set xs. bucket_head m i = []" for xs
    using that by (induction xs) (simp_all add: drain_empty)
  then show ?thesis using e by (simp add: drm_intel_bufmgr_gem_destroy_def)
qed

lemma find_unref:
  assumes "managers_ok rs" "drm_intel_bufmgr_gem_find fd rs = (True, rs')"
  shows "drm_intel_bufmgr_gem_unref fd rs' = Some rs"
  using assms
proof (induction rs arbitrary: rs')
  case (Cons r rs)
  show ?case
  proof (cases "gr_fd r = fd")
    case True
    then have "rs' = r\<lparr>gr_refcount := gr_refcount r + 1\<rparr> # rs" using Cons.prems(2) by simp
    then show ?thesis using True Cons.prems(1) by (simp add: managers_ok_def)
  next
    case False
    then obtain rs1 where "drm_intel_bufmgr_gem_find fd rs = (True, rs1)" "rs' = r # rs1"
      using Cons.prems(2) by (auto split: prod.splits)
    moreover have "managers_ok rs" using Cons.prems(1) by (simp add: managers_ok_def)
    ultimately show ?thesis using Cons.IH False by simp
  qed
qed simp

lemma find_keeps:
  "managers_ok rs \<Longrightarrow> managers_ok (snd (drm_intel_bufmgr_gem_find fd rs)) \<and>
     map gr_fd (snd (drm_intel_bufmgr_gem_find fd rs)) = map gr_fd rs"
proof (induction rs)
  case (Cons r rs)
  obtain found rs1 where f: "drm_intel_bufmgr_gem_find fd rs = (found, rs1)" by fastforce
  have "managers_ok rs" using Cons.prems by (simp add: managers_ok_def)
  then have i: "managers_ok rs1" "map gr_fd rs1 = map gr_fd rs" using Cons.IH f by simp_all
  have "gr_fd ` set rs1 = gr_fd ` set rs" using i(2) by (metis list.set_map)
  then show ?case using Cons.prems f i by (auto simp: managers_ok_def)
qed simp

lemma find_fails: "drm_intel_bufmgr_gem_find fd rs = (False, rs') \<Longrightarrow> rs' = rs \<and> fd \<notin> gr_fd ` set rs"
proof (induction rs arbitrary: rs')
  case (Cons r rs)
  obtain found rs1 where f: "drm_intel_bufmgr_gem_find fd rs = (found, rs1)" by fastforce
  then show ?case using Cons.prems Cons.IH [of rs1] by (auto split: if_splits)
qed simp

text \<open>C33. \<open>drm_intel_bufmgr_gem_init\<close> and \<open>drm_intel_bufmgr_gem_unref\<close> are inverse on the list of managers, whether
  the first finds the manager of the file descriptor, which then has one more reference, or makes a new
  one, which is destroyed again; at no time does the list have two managers for one file descriptor.\<close>

theorem init_unref_inverse:
  assumes "managers_ok rs" "drm_intel_bufmgr_gem_init q fd batch_size rs = Some (True, rs')"
  shows "managers_ok rs' \<and> drm_intel_bufmgr_gem_unref fd rs' = Some rs"
proof -
  obtain found rs1 where f: "drm_intel_bufmgr_gem_find fd rs = (found, rs1)" by fastforce
  show ?thesis
  proof (cases found)
    case True
    then have "rs' = rs1" using assms(2) f by (simp add: drm_intel_bufmgr_gem_init_def)
    moreover have "managers_ok rs1" using f True find_keeps [OF assms(1), of fd] by simp
    ultimately show ?thesis using find_unref [OF assms(1)] f True by simp
  next
    case False
    then obtain m where m: "gem_create q batch_size = Some (Some m)" "rs' = \<lparr>gr_fd = fd, gr_refcount = 1, gr_mgr = m\<rparr> # rs"
      using assms(2) f find_fails [of fd rs rs1] by (auto simp: drm_intel_bufmgr_gem_init_def split: bind_splits option.splits)
    moreover have "fd \<notin> gr_fd ` set rs" using f False find_fails [of fd rs rs1] by simp
    ultimately show ?thesis using assms(1) destroy_new [OF m(1)] by (simp add: managers_ok_def)
  qed
qed


theorem init_unref_inverse_witness:
  "\<exists>rs'. drm_intel_bufmgr_gem_init sample_system 3 4096 [] = Some (True, rs') \<and> managers_ok rs' \<and>
    drm_intel_bufmgr_gem_unref 3 rs' = Some []"
proof -
  obtain m where "gem_create sample_system 4096 = Some (Some m)" using sample_system_create by blast
  then have i: "drm_intel_bufmgr_gem_init sample_system 3 4096 [] = Some (True, [\<lparr>gr_fd = 3, gr_refcount = 1, gr_mgr = m\<rparr>])"
    by (simp add: drm_intel_bufmgr_gem_init_def)
  have "managers_ok []" by (simp add: managers_ok_def)
  from init_unref_inverse [OF this i] i show ?thesis by blast
qed

end
