(* ===== verification/Intel_Gem_Refs.thy ===== *)
theory Intel_Gem_Refs
  imports Intel_Gem_Share Intel_Gem_Validate "HOL-Library.Multiset"
begin

text \<open>
  Reference counts and the cache of free buffers: whoever releases the references it holds never makes
  the manager touch a freed buffer, and no buffer is freed, or kept in the cache, while it is referenced.
\<close>

section \<open>The invariant\<close>

text \<open>The buffers in use, the references the relocations of buffers in use hold, and the buffers in the cache.\<close>

abbreviation refcount :: "drm_intel_bufmgr_gem \<Rightarrow> addr \<Rightarrow> int" where
  "refcount m \<equiv> fld gb_refcount (gm_bos m)"

definition live :: "drm_intel_bufmgr_gem \<Rightarrow> addr set" where
  "live m = {a \<in> dom (gm_bos m). 0 < refcount m a}"

definition refs :: "drm_intel_bufmgr_gem \<Rightarrow> addr \<Rightarrow> nat" where
  "refs m a = (\<Sum>x \<in> live m. count (mset (targets m x)) a)"

definition cached :: "drm_intel_bufmgr_gem \<Rightarrow> addr list" where
  "cached m = concat (map bk_head (gm_cache_bucket m))"

text \<open>
  \<open>C\<close> are the references others hold, and \<open>A\<close> buffers that are on their way into the cache or out of it. Every
  count is the number of references there are, a buffer without any is in the cache or in \<open>A\<close>, ...
\<close>

definition count_inv :: "addr multiset \<Rightarrow> addr set \<Rightarrow> drm_intel_bufmgr_gem \<Rightarrow> bool" where
  "count_inv C A m \<longleftrightarrow> finite (dom (gm_bos m)) \<and> set_mset C \<subseteq> dom (gm_bos m) \<and>
     (\<forall>x \<in> live m. set (targets m x) \<subseteq> dom (gm_bos m)) \<and>
     (\<forall>a \<in> dom (gm_bos m). refcount m a = int (refs m a + count C a)) \<and>
     distinct (cached m) \<and> A \<inter> set (cached m) = {} \<and>
     {a \<in> dom (gm_bos m). refcount m a = 0} = A \<union> set (cached m) \<and> A \<union> set (cached m) \<subseteq> dom (gm_bos m)"

text \<open>... and what is in the cache is fit for use: no relocations, no mapping in use, no name, and the size of
  its bucket.\<close>

definition spare :: "u64 \<Rightarrow> drm_intel_bo_gem \<Rightarrow> bool" where
  "spare sz b \<longleftrightarrow> gb_reloc_target_info b = [] \<and> gb_map_count b = 0 \<and> gb_name_list b = LSelf \<and> gb_global_name b = 0 \<and>
     gb_reusable b \<and> gb_size b = sz"

definition fits :: "drm_intel_bufmgr_gem \<Rightarrow> u64 \<Rightarrow> bool" where
  "fits m sz \<longleftrightarrow> (case drm_intel_gem_bo_bucket_for_size m sz of None \<Rightarrow> True
     | Some i \<Rightarrow> bk_size (gm_cache_bucket m ! i) = sz)"

definition cache_inv :: "drm_intel_bufmgr_gem \<Rightarrow> bool" where
  "cache_inv m \<longleftrightarrow>
     (\<forall>k \<in> set (gm_cache_bucket m). \<forall>a \<in> set (bk_head k). \<exists>b. gm_bos m a = Some b \<and> spare (bk_size k) b) \<and>
     (\<forall>a b. gm_bos m a = Some b \<longrightarrow> gb_reusable b \<longrightarrow> gb_name_list b = LSelf \<and> gb_global_name b = 0 \<and> fits m (gb_size b))"

definition ref_inv :: "addr multiset \<Rightarrow> addr set \<Rightarrow> drm_intel_bufmgr_gem \<Rightarrow> bool" where
  "ref_inv C A m \<longleftrightarrow> count_inv C A m \<and> cache_inv m \<and> name_inv m \<and> distinct (gm_named m)"

text \<open>No buffer in use reaches itself: \<open>rank\<close> decreases along relocations, whose targets are marked.\<close>

definition ranked :: "(addr \<Rightarrow> nat) \<Rightarrow> drm_intel_bufmgr_gem \<Rightarrow> bool" where
  "ranked rank m \<longleftrightarrow> (\<forall>x \<in> live m. \<forall>t \<in> set (targets m x).
     rank t < rank x \<and> fld gb_used_as_reloc_target (gm_bos m) t)"

section \<open>What keeps it\<close>

lemma keeps_fld:
  assumes "keeps S m m'"
  shows "refcount m' = refcount m" "live m' = live m" "targets m' = targets m" "cached m' = cached m"
    "fld gb_used_as_reloc_target (gm_bos m') = fld gb_used_as_reloc_target (gm_bos m)"
proof -
  have c: "map_option (core (a \<in> S)) (gm_bos m' a) = map_option (core (a \<in> S)) (gm_bos m a)" for a
    using assms by (simp add: keeps_def)
  show r: "refcount m' = refcount m"
  proof
    fix a
    show "refcount m' a = refcount m a"
      using c [of a] by (cases "gm_bos m a"; cases "gm_bos m' a") (simp_all add: fld_def core_def)
  qed
  show "live m' = live m" using r keeps_dom [OF assms] by (simp add: live_def)
  show "targets m' = targets m"
  proof
    fix a
    show "targets m' a = targets m a"
      using c [of a] by (cases "gm_bos m a"; cases "gm_bos m' a") (simp_all add: targets_def core_def)
  qed
  show "cached m' = cached m" using assms by (simp add: keeps_def cached_def)
  show "fld gb_used_as_reloc_target (gm_bos m') = fld gb_used_as_reloc_target (gm_bos m)"
  proof
    fix a
    show "fld gb_used_as_reloc_target (gm_bos m') a = fld gb_used_as_reloc_target (gm_bos m) a"
      using c [of a] by (cases "gm_bos m a"; cases "gm_bos m' a") (simp_all add: fld_def core_def)
  qed
qed

lemma keeps_count: "keeps S m m' \<Longrightarrow> count_inv C A m' = count_inv C A m"
  by (simp add: count_inv_def refs_def keeps_fld keeps_dom)

lemma keeps_ranked: "keeps S m m' \<Longrightarrow> ranked rank m' = ranked rank m"
  by (simp add: ranked_def keeps_fld)

lemma keeps_sym: "keeps S m m' \<Longrightarrow> keeps S m' m"
  by (simp add: keeps_def)

lemma bucket_for_size_cong:
  assumes "map bk_size (gm_cache_bucket m') = map bk_size (gm_cache_bucket m)"
  shows "drm_intel_gem_bo_bucket_for_size m' = drm_intel_gem_bo_bucket_for_size m"
proof
  fix sz
  have l: "length (gm_cache_bucket m') = length (gm_cache_bucket m)" by (rule map_eq_imp_length_eq [OF assms])
  have "bk_size (gm_cache_bucket m' ! i) = bk_size (gm_cache_bucket m ! i)" if "i < length (gm_cache_bucket m)" for i
    using that l nth_map [of i "gm_cache_bucket m" bk_size] nth_map [of i "gm_cache_bucket m'" bk_size] assms by simp
  then show "drm_intel_gem_bo_bucket_for_size m' sz = drm_intel_gem_bo_bucket_for_size m sz"
    unfolding drm_intel_gem_bo_bucket_for_size_def l by (intro find_cong) auto
qed

lemma bucket_for_size_Some:
  "drm_intel_gem_bo_bucket_for_size m sz = Some i \<Longrightarrow> i < length (gm_cache_bucket m) \<and> sz \<le> bk_size (gm_cache_bucket m ! i)"
  by (auto simp: drm_intel_gem_bo_bucket_for_size_def find_Some_iff)

lemma fits_cong:
  assumes "map bk_size (gm_cache_bucket m') = map bk_size (gm_cache_bucket m)"
  shows "fits m' = fits m"
proof
  fix sz
  have "bk_size (gm_cache_bucket m' ! i) = bk_size (gm_cache_bucket m ! i)" if "i < length (gm_cache_bucket m)" for i
    using that nth_map [of i "gm_cache_bucket m" bk_size] nth_map [of i "gm_cache_bucket m'" bk_size] assms
      map_eq_imp_length_eq [OF assms] by simp
  then show "fits m' sz = fits m sz"
    unfolding fits_def bucket_for_size_cong [OF assms] by (auto dest: bucket_for_size_Some split: option.splits)
qed

lemma cache_inv_keeps:
  assumes "keeps S m m'" "cache_inv m" "S \<inter> set (cached m) = {}"
  shows "cache_inv m'"
proof -
  have bk: "gm_cache_bucket m' = gm_cache_bucket m" using assms(1) by (simp add: keeps_def)
  then have fit: "fits m' = fits m" by (intro fits_cong) simp
  have "\<exists>b. gm_bos m' a = Some b \<and> spare (bk_size k) b" if k: "k \<in> set (gm_cache_bucket m)" "a \<in> set (bk_head k)" for k a
  proof -
    obtain b where b: "gm_bos m a = Some b" "spare (bk_size k) b" using assms(2) k unfolding cache_inv_def by blast
    have "a \<notin> S" using assms(3) k by (auto simp: cached_def)
    then show ?thesis using keeps_get [OF assms(1) b(1)] b(2) by (auto simp: core_def spare_def)
  qed
  moreover have "gb_name_list b = LSelf \<and> gb_global_name b = 0 \<and> fits m' (gb_size b)" if ab: "gm_bos m' a = Some b" "gb_reusable b" for a b
  proof -
    obtain b0 where b0: "gm_bos m a = Some b0" "core (a \<in> S) b0 = core (a \<in> S) b"
      using keeps_get [OF keeps_sym [OF assms(1)] ab(1)] by blast
    then have s: "gb_size b = gb_size b0" "gb_name_list b = gb_name_list b0" "gb_global_name b = gb_global_name b0"
      "gb_reusable b0" using ab(2) by (simp_all add: core_def)
    then show ?thesis using assms(2) b0(1) fit unfolding cache_inv_def by metis
  qed
  ultimately show ?thesis unfolding cache_inv_def bk by blast
qed

lemma name_inv_keeps: "keeps S m m' \<Longrightarrow> name_inv m \<Longrightarrow> name_inv m'"
proof -
  assume k: "keeps S m m'" and n: "name_inv m"
  have "\<exists>b0. gm_bos m a = Some b0 \<and> core (a \<in> S) b0 = core (a \<in> S) b" if "gm_bos m' a = Some b" for a b
    by (rule keeps_get [OF keeps_sym [OF k] that])
  then show "name_inv m'" using n k keeps_dom [OF k] unfolding name_inv_def keeps_def core_def by fastforce
qed

lemma ref_inv_keeps:
  "keeps S m m' \<Longrightarrow> ref_inv C A m \<Longrightarrow> S \<inter> set (cached m) = {} \<Longrightarrow> ref_inv C A m'"
  using keeps_count cache_inv_keeps name_inv_keeps by (auto simp: ref_inv_def keeps_def)

section \<open>Steps\<close>

text \<open>The state with another value of a buffer.\<close>

abbreviation with_bo :: "drm_intel_bufmgr_gem \<Rightarrow> addr \<Rightarrow> drm_intel_bo_gem \<Rightarrow> drm_intel_bufmgr_gem" where
  "with_bo m a b \<equiv> m\<lparr>gm_bos := (gm_bos m)(a \<mapsto> b)\<rparr>"

lemma cache_inv_with:
  assumes "cache_inv m" "a \<notin> set (cached m)"
    "gb_reusable b \<Longrightarrow> gb_name_list b = LSelf \<and> gb_global_name b = 0 \<and> fits m (gb_size b)"
  shows "cache_inv (with_bo m a b)"
proof -
  have f: "fits (with_bo m a b) = fits m" by (rule fits_cong) simp
  have "\<exists>b'. gm_bos (with_bo m a b) x = Some b' \<and> spare (bk_size k) b'"
    if "k \<in> set (gm_cache_bucket m)" "x \<in> set (bk_head k)" for k x
  proof -
    have "x \<noteq> a" using that assms(2) by (auto simp: cached_def)
    then show ?thesis using assms(1) that unfolding cache_inv_def by simp
  qed
  moreover have "gb_name_list b' = LSelf \<and> gb_global_name b' = 0 \<and> fits m (gb_size b')"
    if "gm_bos (with_bo m a b) x = Some b'" "gb_reusable b'" for x b'
    using that assms(1,3) unfolding cache_inv_def by (cases "x = a") auto
  ultimately show ?thesis unfolding cache_inv_def f by simp
qed

lemma name_inv_with:
  assumes "name_inv m" "gm_bos m a = Some b" "gb_name_list b' = gb_name_list b" "gb_global_name b' = gb_global_name b"
  shows "name_inv (with_bo m a b')"
  using assms unfolding name_inv_def by auto

lemma with_fld [simp]:
  "refcount (with_bo m a b) = (refcount m)(a := gb_refcount b)" "cached (with_bo m a b) = cached m"
  "gm_bos m a = Some b0 \<Longrightarrow> gb_reloc_target_info b = gb_reloc_target_info b0 \<Longrightarrow> targets (with_bo m a b) = targets m"
  by (auto simp: fld_new cached_def targets_def fun_eq_iff)

lemma refcount_Some: "gm_bos m a = Some b \<Longrightarrow> refcount m a = gb_refcount b"
  by (simp add: fld_def)

lemma count_invD:
  assumes "count_inv C A m" "gm_bos m a = Some b"
  shows "gb_refcount b = int (refs m a + count C a)"
  using assms unfolding count_inv_def by (metis domI refcount_Some)

lemma idle_iff:
  assumes "count_inv C A m" "gm_bos m a = Some b"
  shows "gb_refcount b = 0 \<longleftrightarrow> a \<in> A \<union> set (cached m)"
proof -
  have "{a \<in> dom (gm_bos m). refcount m a = 0} = A \<union> set (cached m)" using assms(1) by (simp add: count_inv_def)
  then have "a \<in> dom (gm_bos m) \<and> refcount m a = 0 \<longleftrightarrow> a \<in> A \<union> set (cached m)" by blast
  then show ?thesis using assms(2) by (simp add: refcount_Some domI)
qed

lemma idle_no_target:
  assumes "count_inv C A m" "gm_bos m a = Some b" "gb_refcount b = 0" "x \<in> live m"
  shows "a \<notin> set (targets m x)"
proof -
  have "finite (live m)" using assms(1) unfolding count_inv_def live_def by auto
  moreover have "refs m a = 0" using count_invD [OF assms(1,2)] assms(3) by simp
  ultimately show ?thesis using assms(4) by (simp add: refs_def)
qed

text \<open>A reference that is not the last is dropped.\<close>

lemma drop_one:
  assumes "ref_inv C A m" "a \<in># C" "gm_bos m a = Some b" "gb_refcount b \<noteq> 1"
  shows "ref_inv (C - {#a#}) A (with_bo m a (b\<lparr>gb_refcount := gb_refcount b - 1\<rparr>))"
    "ranked rank m \<Longrightarrow> ranked rank (with_bo m a (b\<lparr>gb_refcount := gb_refcount b - 1\<rparr>))"
proof -
  let ?m = "with_bo m a (b\<lparr>gb_refcount := gb_refcount b - 1\<rparr>)"
  have ci: "count_inv C A m" "cache_inv m" "name_inv m" "distinct (gm_named m)" using assms(1) by (simp_all add: ref_inv_def)
  have ca: "count C a > 0" using assms(2) by simp
  have r: "gb_refcount b > 1" using count_invD [OF ci(1) assms(3)] ca assms(4) by linarith
  have t: "targets ?m = targets m" using assms(3) by simp
  have d: "dom (gm_bos ?m) = dom (gm_bos m)" using assms(3) by auto
  have l: "live ?m = live m" unfolding live_def d using r assms(3) by (auto simp: fld_new refcount_Some)
  have z: "a \<notin> A \<union> set (cached m)" using idle_iff [OF ci(1) assms(3)] r by simp
  have "refcount ?m x = int (refs ?m x + count (C - {#a#}) x)" if "x \<in> dom (gm_bos m)" for x
    using ci(1) that assms(3) ca count_invD [OF ci(1) assms(3)] unfolding count_inv_def refs_def l t by (auto simp: fld_new)
  moreover have "{x \<in> dom (gm_bos m). refcount ?m x = 0} = {x \<in> dom (gm_bos m). refcount m x = 0}"
    using r assms(3) by (auto simp: fld_new refcount_Some)
  moreover have "set_mset (C - {#a#}) \<subseteq> set_mset C" by (meson in_diffD subsetI)
  ultimately have "count_inv (C - {#a#}) A ?m" using ci(1) unfolding count_inv_def d l t with_fld(2) by auto
  moreover have "cache_inv ?m" using ci(2) z assms(3) by (intro cache_inv_with) (auto simp: cache_inv_def)
  moreover have "name_inv ?m" using ci(3) assms(3) by (intro name_inv_with) simp_all
  ultimately show "ref_inv (C - {#a#}) A ?m" using ci(4) by (simp add: ref_inv_def)
  have u: "fld gb_used_as_reloc_target (gm_bos ?m) = fld gb_used_as_reloc_target (gm_bos m)"
    using assms(3) by (simp add: fld_def fun_eq_iff)
  show "ranked rank m \<Longrightarrow> ranked rank ?m" unfolding ranked_def l t u by auto
qed

text \<open>The last reference is dropped: those that its relocations hold are now to be released.\<close>

lemma drop_last:
  assumes "ref_inv C A m" "a \<in># C" "gm_bos m a = Some b" "gb_refcount b = 1"
  shows "ref_inv (C - {#a#} + mset (targets m a)) (insert a A) (with_bo m a (b\<lparr>gb_refcount := 0\<rparr>))"
    "ranked rank m \<Longrightarrow> ranked rank (with_bo m a (b\<lparr>gb_refcount := 0\<rparr>))" "a \<notin> A" "a \<notin># C - {#a#} + mset (targets m a)"
proof -
  let ?m = "with_bo m a (b\<lparr>gb_refcount := 0\<rparr>)" and ?C = "C - {#a#} + mset (targets m a)"
  have ci: "count_inv C A m" "cache_inv m" "name_inv m" "distinct (gm_named m)" using assms(1) by (simp_all add: ref_inv_def)
  have "count C a > 0" using assms(2) by simp
  then have ca: "count C a = 1" "refs m a = 0" using count_invD [OF ci(1) assms(3)] assms(4) by linarith+
  have al: "a \<in> live m" using assms(3,4) by (auto simp: live_def refcount_Some)
  have t: "targets ?m = targets m" using assms(3) by simp
  have d: "dom (gm_bos ?m) = dom (gm_bos m)" using assms(3) by auto
  have l: "live ?m = live m - {a}" unfolding live_def d by (auto simp: fld_new)
  have fin: "finite (live m)" using ci(1) unfolding count_inv_def live_def by auto
  have self: "a \<notin> set (targets m a)" by (simp add: targets_def split: option.splits)
  have refs: "refs m x = refs ?m x + count (mset (targets m a)) x" for x
    unfolding refs_def l t using sum.remove [OF fin al, of "\<lambda>y. count (mset (targets m y)) x"] by simp
  show aA: "a \<notin> A" using idle_iff [OF ci(1) assms(3)] assms(4) by simp
  have z: "a \<notin> set (cached m)" using idle_iff [OF ci(1) assms(3)] assms(4) by simp
  have "refcount ?m x = int (refs ?m x + count ?C x)" if "x \<in> dom (gm_bos m)" for x
  proof (cases "x = a")
    case True
    then show ?thesis using ca refs [of a] self by (simp add: fld_new count_mset_0_iff)
  next
    case False
    then show ?thesis using ci(1) that refs [of x] unfolding count_inv_def by (simp add: fld_new)
  qed
  moreover have "{x \<in> dom (gm_bos m). refcount ?m x = 0} = insert a {x \<in> dom (gm_bos m). refcount m x = 0}"
    using assms(3) by (auto simp: fld_new)
  moreover have "set_mset ?C \<subseteq> dom (gm_bos m)" using ci(1) al unfolding count_inv_def by (auto dest: in_diffD)
  ultimately have "count_inv ?C (insert a A) ?m"
    using ci(1) z assms(3) unfolding count_inv_def d l t with_fld(2) by auto
  moreover have "cache_inv ?m" using ci(2) z assms(3) by (intro cache_inv_with) (auto simp: cache_inv_def)
  moreover have "name_inv ?m" using ci(3) assms(3) by (intro name_inv_with) simp_all
  ultimately show "ref_inv ?C (insert a A) ?m" using ci(4) by (simp add: ref_inv_def)
  have u: "fld gb_used_as_reloc_target (gm_bos ?m) = fld gb_used_as_reloc_target (gm_bos m)"
    using assms(3) by (simp add: fld_def fun_eq_iff)
  show "ranked rank m \<Longrightarrow> ranked rank ?m" unfolding ranked_def l t u by auto
  show "a \<notin># ?C" using ca self by (simp add: not_in_iff)
qed

text \<open>Buffers in \<open>A\<close> may change.\<close>

lemma refs_cong:
  assumes "live m' = live m" "\<And>x. x \<in> live m \<Longrightarrow> targets m' x = targets m x"
  shows "refs m' = refs m"
  unfolding refs_def assms(1) using assms(2) by (simp add: fun_eq_iff cong: sum.cong)

lemma change_idle:
  assumes "ref_inv C A m" "a \<in> A" "gm_bos m a = Some b" "gb_refcount b' = 0" "gb_name_list b' = gb_name_list b"
    "gb_global_name b' = gb_global_name b" "gb_reusable b' = gb_reusable b" "gb_size b' = gb_size b"
  shows "ref_inv C A (with_bo m a b')" "ranked rank m \<Longrightarrow> ranked rank (with_bo m a b')"
proof -
  let ?m = "with_bo m a b'"
  have ci: "count_inv C A m" "cache_inv m" "name_inv m" "distinct (gm_named m)" using assms(1) by (simp_all add: ref_inv_def)
  have d: "dom (gm_bos ?m) = dom (gm_bos m)" using assms(3) by auto
  have b0: "gb_refcount b = 0" using idle_iff [OF ci(1) assms(3)] assms(2) by simp
  have rc: "refcount ?m = refcount m" using assms(4) b0 refcount_Some [OF assms(3)] by (auto simp: fld_new)
  have l: "live ?m = live m" unfolding live_def d rc ..
  have t: "targets ?m x = targets m x" if "x \<in> live m" for x
    using that b0 assms(3) by (auto simp: live_def targets_def refcount_Some)
  have rf: "refs ?m = refs m" using t by (intro refs_cong l) simp
  have z: "a \<notin> set (cached m)" using ci(1) assms(2) unfolding count_inv_def by auto
  have nt: "a \<notin> set (targets m x)" if "x \<in> live m" for x using idle_no_target [OF ci(1) assms(3) b0 that] .
  have "count_inv C A ?m" using ci(1) t unfolding count_inv_def d l rc rf with_fld(2) by auto
  moreover have "cache_inv ?m" using ci(2) z assms(3,5-8) by (intro cache_inv_with) (auto simp: cache_inv_def)
  moreover have "name_inv ?m" using ci(3) assms(3,5,6) by (intro name_inv_with)
  ultimately show "ref_inv C A ?m" using ci(4) by (simp add: ref_inv_def)
  show "ranked rank m \<Longrightarrow> ranked rank ?m" using t nt unfolding ranked_def l by (auto simp: fld_new)
qed

text \<open>A buffer in \<open>A\<close> goes away, and its name with it.\<close>

lemma remove_idle:
  assumes "ref_inv C (insert a A) m" "a \<notin> A"
  shows "ref_inv C A (m\<lparr>gm_bos := (gm_bos m)(a := None), gm_named := remove1 a (gm_named m)\<rparr>)"
    "ranked rank m \<Longrightarrow> ranked rank (m\<lparr>gm_bos := (gm_bos m)(a := None), gm_named := remove1 a (gm_named m)\<rparr>)"
proof -
  let ?m = "m\<lparr>gm_bos := (gm_bos m)(a := None), gm_named := remove1 a (gm_named m)\<rparr>"
  have ci: "count_inv C (insert a A) m" "cache_inv m" "name_inv m" "distinct (gm_named m)" using assms(1) by (simp_all add: ref_inv_def)
  have "a \<in> dom (gm_bos m)" using ci(1) by (simp add: count_inv_def)
  then obtain b where b: "gm_bos m a = Some b" by blast
  have b0: "gb_refcount b = 0" using idle_iff [OF ci(1) b] by simp
  have ra: "refs m a = 0" "count C a = 0" using count_invD [OF ci(1) b] b0 by simp_all
  have d: "dom (gm_bos ?m) = dom (gm_bos m) - {a}" by auto
  have rc: "refcount ?m x = refcount m x" if "x \<noteq> a" for x using that by (simp add: fld_def)
  have l: "live ?m = live m"
  proof -
    have "x \<in> live ?m \<longleftrightarrow> x \<in> live m" for x using rc [of x] b0 b unfolding live_def d by (cases "x = a") (auto simp: refcount_Some)
    then show ?thesis by blast
  qed
  have fin: "finite (live m)" using ci(1) unfolding count_inv_def live_def by auto
  have t: "targets ?m x = targets m x" if "x \<in> live m" for x
    using that b0 b by (auto simp: live_def targets_def refcount_Some)
  have nt: "a \<notin> set (targets m x)" if "x \<in> live m" for x using idle_no_target [OF ci(1) b b0 that] .
  have rf: "refs ?m = refs m" using t by (intro refs_cong l) simp
  have z: "a \<notin> set (cached m)" "cached ?m = cached m" using ci(1) unfolding count_inv_def by (auto simp: cached_def)
  have idle: "{x \<in> dom (gm_bos ?m). refcount ?m x = 0} = {x \<in> dom (gm_bos m). refcount m x = 0} - {a}"
    using rc unfolding d by auto
  have "count_inv C A ?m"
    unfolding count_inv_def l z(2) rf idle unfolding d
    using ci(1) rc t nt z(1) assms(2) ra(2) by (auto simp: count_inv_def not_in_iff [symmetric])
  moreover have "cache_inv ?m"
  proof -
    have f: "fits ?m = fits m" by (rule fits_cong) simp
    have "x \<noteq> a" if "k \<in> set (gm_cache_bucket m)" "x \<in> set (bk_head k)" for k x
      using that z(1) by (auto simp: cached_def)
    then show ?thesis using ci(2) unfolding cache_inv_def f by simp
  qed
  moreover have "name_inv ?m" using ci(3,4) unfolding name_inv_def d by auto
  moreover have "distinct (gm_named ?m)" using ci(4) by simp
  ultimately show "ref_inv C A ?m" by (simp add: ref_inv_def)
  show "ranked rank m \<Longrightarrow> ranked rank ?m" using t nt unfolding ranked_def l by (auto simp: fld_def)
qed

text \<open>Buckets.\<close>

lemma set_bucket_sel [simp]:
  "gm_bos (set_bucket m i bos) = gm_bos m" "gm_named (set_bucket m i bos) = gm_named m"
  "gm_bo_reuse (set_bucket m i bos) = gm_bo_reuse m"
  "map bk_size (gm_cache_bucket (set_bucket m i bos)) = map bk_size (gm_cache_bucket m)"
  "targets (set_bucket m i bos) = targets m" "live (set_bucket m i bos) = live m"
  "vma_inv (set_bucket m i bos) = vma_inv m" "vma_budget (set_bucket m i bos) = vma_budget m"
proof -
  have "(map bk_size ks)[i := bk_size (ks ! i)] = map bk_size ks" for ks :: "drm_intel_gem_bo_bucket list"
    by (cases "i < length ks") (simp_all add: list_update_same_conv list_update_beyond)
  then show "map bk_size (gm_cache_bucket (set_bucket m i bos)) = map bk_size (gm_cache_bucket m)"
    by (simp add: set_bucket_def map_update)
qed (simp_all add: set_bucket_def targets_def live_def vma_inv_def vma_budget_def vmas_on_def mapped_def fun_eq_iff)

lemma cached_split:
  assumes "i < length (gm_cache_bucket m)"
  shows "\<exists>xs ys. cached m = xs @ bucket_head m i @ ys \<and> cached (set_bucket m i bos) = xs @ bos @ ys"
proof -
  let ?f = "\<lambda>ks. concat (map bk_head ks)"
  have "cached m = ?f (take i (gm_cache_bucket m)) @ bucket_head m i @ ?f (drop (Suc i) (gm_cache_bucket m))"
    unfolding cached_def bucket_head_def using id_take_nth_drop [OF assms] by (metis concat.simps(2) concat_append list.simps(9) map_append)
  moreover have "cached (set_bucket m i bos) = ?f (take i (gm_cache_bucket m)) @ bos @ ?f (drop (Suc i) (gm_cache_bucket m))"
    using assms by (simp add: cached_def set_bucket_def upd_conv_take_nth_drop)
  ultimately show ?thesis by blast
qed

lemma bucket_set:
  "k \<in> set (gm_cache_bucket (set_bucket m i bos)) \<Longrightarrow> x \<in> set (bk_head k) \<Longrightarrow>
     (\<exists>k' \<in> set (gm_cache_bucket m). bk_size k' = bk_size k \<and> x \<in> set (bk_head k')) \<or>
     i < length (gm_cache_bucket m) \<and> bk_size k = bk_size (gm_cache_bucket m ! i) \<and> x \<in> set bos"
  by (cases "i < length (gm_cache_bucket m)")
    (auto simp: set_bucket_def list_update_beyond dest!: set_update_subset_insert [THEN subsetD])

lemma ranked_bucket [simp]: "ranked rank (set_bucket m i bos) = ranked rank m"
  by (simp add: ranked_def)

lemma count_inv_bucket:
  assumes "count_inv C A m" "distinct (cached (set_bucket m i bos))" "A' \<inter> set (cached (set_bucket m i bos)) = {}"
    "A' \<union> set (cached (set_bucket m i bos)) = A \<union> set (cached m)"
  shows "count_inv C A' (set_bucket m i bos)"
proof -
  have "refs (set_bucket m i bos) = refs m" by (simp add: refs_def fun_eq_iff)
  then show ?thesis using assms(1-3) unfolding count_inv_def assms(4) by simp
qed

lemma cache_inv_bucket:
  assumes "cache_inv m" "\<And>x. x \<in> set bos \<Longrightarrow> \<exists>b. gm_bos m x = Some b \<and> spare (bk_size (gm_cache_bucket m ! i)) b"
  shows "cache_inv (set_bucket m i bos)"
proof -
  have f: "fits (set_bucket m i bos) = fits m" by (rule fits_cong) simp
  have "\<exists>b. gm_bos m x = Some b \<and> spare (bk_size k) b"
    if "k \<in> set (gm_cache_bucket (set_bucket m i bos))" "x \<in> set (bk_head k)" for k x
    using bucket_set [OF that] assms unfolding cache_inv_def by metis
  then show ?thesis using assms(1) unfolding cache_inv_def f by simp
qed

lemma bucket_spare:
  assumes "cache_inv m" "i < length (gm_cache_bucket m)" "x \<in> set (bucket_head m i)"
  shows "\<exists>b. gm_bos m x = Some b \<and> spare (bk_size (gm_cache_bucket m ! i)) b"
  using assms unfolding cache_inv_def bucket_head_def by simp

lemma name_inv_bucket [simp]: "name_inv (set_bucket m i bos) = name_inv m"
  by (simp add: name_inv_def)

text \<open>A buffer goes into the cache, and out of it.\<close>

lemma to_cache:
  assumes "ref_inv C (insert a A) m" "a \<notin> A" "i < length (gm_cache_bucket m)" "gm_bos m a = Some b"
    "spare (bk_size (gm_cache_bucket m ! i)) b"
  shows "ref_inv C A (set_bucket m i (bucket_head m i @ [a]))"
proof -
  have ci: "count_inv C (insert a A) m" "cache_inv m" "name_inv m" "distinct (gm_named m)"
    using assms(1) by (simp_all add: ref_inv_def)
  obtain xs ys where c: "cached m = xs @ bucket_head m i @ ys"
    "cached (set_bucket m i (bucket_head m i @ [a])) = xs @ (bucket_head m i @ [a]) @ ys"
    using cached_split [OF assms(3)] by blast
  have d: "distinct (cached m)" "insert a A \<inter> set (cached m) = {}" using ci(1) by (simp_all add: count_inv_def)
  have "count_inv C A (set_bucket m i (bucket_head m i @ [a]))"
    using d assms(2) by (intro count_inv_bucket [OF ci(1)]) (auto simp: c)
  moreover have "cache_inv (set_bucket m i (bucket_head m i @ [a]))"
    using bucket_spare [OF ci(2) assms(3)] assms(4,5) by (intro cache_inv_bucket ci) auto
  ultimately show ?thesis using ci by (simp add: ref_inv_def)
qed

lemma from_cache:
  assumes "ref_inv C A m" "i < length (gm_cache_bucket m)" "bucket_head m i = us @ a # vs"
  shows "ref_inv C (insert a A) (set_bucket m i (us @ vs)) \<and> a \<notin> A"
    "\<exists>b. gm_bos m a = Some b \<and> spare (bk_size (gm_cache_bucket m ! i)) b \<and> gb_refcount b = 0"
proof -
  have ci: "count_inv C A m" "cache_inv m" "name_inv m" "distinct (gm_named m)" using assms(1) by (simp_all add: ref_inv_def)
  obtain xs ys where c: "cached m = xs @ (us @ a # vs) @ ys" "cached (set_bucket m i (us @ vs)) = xs @ (us @ vs) @ ys"
    using cached_split [OF assms(2)] assms(3) by metis
  have d: "distinct (cached m)" "A \<inter> set (cached m) = {}" using ci(1) by (simp_all add: count_inv_def)
  have "count_inv C (insert a A) (set_bucket m i (us @ vs))"
    using d by (intro count_inv_bucket [OF ci(1)]) (auto simp: c)
  moreover have "cache_inv (set_bucket m i (us @ vs))"
    using bucket_spare [OF ci(2) assms(2)] assms(3) by (intro cache_inv_bucket ci) auto
  moreover have "a \<notin> A" using d c by auto
  ultimately show "ref_inv C (insert a A) (set_bucket m i (us @ vs)) \<and> a \<notin> A" using ci by (simp add: ref_inv_def)
  obtain b where b: "gm_bos m a = Some b" "spare (bk_size (gm_cache_bucket m ! i)) b"
    using bucket_spare [OF ci(2) assms(2), of a] assms(3) by auto
  have "a \<in> set (cached m)" using c(1) by simp
  then show "\<exists>b. gm_bos m a = Some b \<and> spare (bk_size (gm_cache_bucket m ! i)) b \<and> gb_refcount b = 0"
    using b idle_iff [OF ci(1) b(1)] by blast
qed

section \<open>Freeing\<close>

lemma vma_inv_with:
  assumes "vma_inv m" "gm_bos m a = Some b" "gb_map_count b' = gb_map_count b" "gb_vma_list b' = gb_vma_list b"
    "bo_vmas b' = bo_vmas b"
  shows "vma_inv (with_bo m a b')"
proof -
  have "vma_bo_ok (a \<in> set (gm_vma_cache m)) b'"
    using vma_invD [OF assms(1,2)] assms(3-5) by (simp add: vma_bo_ok_def)
  moreover have "mapped (with_bo m a b') = mapped m" using assms(2,3) by (auto simp: mapped_def)
  moreover have "vmas_on (with_bo m a b') (gm_vma_cache m) = vmas_on m (gm_vma_cache m)"
    unfolding vmas_on_def using assms(2,5) by (intro arg_cong [of _ _ sum_list] map_cong) auto
  ultimately show ?thesis using assms(1,2) unfolding vma_inv_def by auto
qed

lemma vma_inv_remove:
  assumes "vma_inv m" "gm_bos m a = Some b" "gb_map_count b = 0"
  shows "vma_inv (m\<lparr>gm_vma_cache := remove1 a (gm_vma_cache m), gm_vma_count := gm_vma_count m - bo_vmas b,
    gm_bos := (gm_bos m)(a := None)\<rparr>)" (is "vma_inv ?m")
proof -
  have dist: "distinct (gm_vma_cache m)" "set (gm_vma_cache m) \<subseteq> dom (gm_bos m)" using assms(1) by (simp_all add: vma_inv_def)
  have ok: "vma_bo_ok (a \<in> set (gm_vma_cache m)) b" by (rule vma_invD [OF assms(1,2)])
  have out: "bo_vmas b = 0" if "a \<notin> set (gm_vma_cache m)"
    using ok assms(3) that by (cases "gb_vma_list b") (simp_all add: vma_bo_ok_def)
  have "vmas_on ?m (remove1 a (gm_vma_cache m)) = vmas_on m (remove1 a (gm_vma_cache m))"
    using dist by (intro vmas_on_cong) auto
  moreover have "vmas_on m (remove1 a (gm_vma_cache m)) = vmas_on m (gm_vma_cache m) - bo_vmas b"
    using out assms(2) by (cases "a \<in> set (gm_vma_cache m)") (simp_all add: vmas_on_remove1 remove1_idem)
  moreover have "mapped ?m = mapped m" using assms(2,3) by (auto simp: mapped_def)
  moreover have "vma_bo_ok (x \<in> set (remove1 a (gm_vma_cache m))) b'" if "gm_bos ?m x = Some b'" for x b'
  proof -
    have x: "x \<noteq> a" "gm_bos m x = Some b'" using that by (auto split: if_splits)
    then show ?thesis using vma_invD [OF assms(1) x(2)] dist(1) by simp
  qed
  ultimately show ?thesis using assms(1) dist unfolding vma_inv_def by auto
qed

lemma free_ok:
  assumes "vma_inv m" "gm_bos m a = Some b" "gb_map_count b = 0"
  shows "\<exists>m'. drm_intel_gem_bo_free m a = Some m' \<and> vma_inv m' \<and> (vma_budget m \<longrightarrow> vma_budget m') \<and>
    keeps S (m\<lparr>gm_bos := (gm_bos m)(a := None)\<rparr>) m'"
proof -
  let ?m = "m\<lparr>gm_vma_cache := remove1 a (gm_vma_cache m), gm_vma_count := gm_vma_count m - bo_vmas b,
    gm_bos := (gm_bos m)(a := None)\<rparr>"
  have ok: "vma_bo_ok (a \<in> set (gm_vma_cache m)) b" by (rule vma_invD [OF assms(1,2)])
  have "drm_intel_gem_bo_free m a = Some (tick ?m)"
  proof (cases "gb_vma_list b = LIn")
    case True
    then show ?thesis using assms(2)
      by (simp add: drm_intel_gem_bo_free_def vma_list_del_def get_bo_def put_bo_def wr_def count_unmap_twice Let_def
          dealloc_def tick_def bo_vmas_def)
  next
    case False
    then have "gb_vma_list b = LSelf" "a \<notin> set (gm_vma_cache m)"
      using ok assms(3) by (cases "gb_vma_list b"; simp add: vma_bo_ok_def)+
    then show ?thesis using assms(2)
      by (simp add: drm_intel_gem_bo_free_def vma_list_del_def get_bo_def count_unmap_twice Let_def
          dealloc_def tick_def remove1_idem)
  qed
  moreover have "vma_inv (tick ?m)" using vma_inv_remove [OF assms] by simp
  moreover have "vma_budget m \<longrightarrow> vma_budget (tick ?m)"
  proof -
    have le: "gm_vma_count m - bo_vmas b \<le> gm_vma_count m" by simp
    show ?thesis unfolding vma_inv_tick by (auto simp: vma_budget_def intro: order_trans [OF le])
  qed
  moreover have "keeps S (m\<lparr>gm_bos := (gm_bos m)(a := None)\<rparr>) (tick ?m)" unfolding keeps_tick by (simp add: keeps_def)
  ultimately show ?thesis by blast
qed

text \<open>All that holds between operations, and during them with \<open>A\<close> the buffers at hand.\<close>

definition gem_inv :: "(addr \<Rightarrow> nat) \<Rightarrow> addr multiset \<Rightarrow> addr set \<Rightarrow> drm_intel_bufmgr_gem \<Rightarrow> bool" where
  "gem_inv rank C A m \<longleftrightarrow> ref_inv C A m \<and> ranked rank m \<and> vma_inv m \<and> vma_budget m"

lemma gem_inv_get: "gem_inv rank C A m \<Longrightarrow> a \<in> A \<Longrightarrow> \<exists>b. gm_bos m a = Some b \<and> gb_refcount b = 0"
proof -
  assume i: "gem_inv rank C A m" and a: "a \<in> A"
  have c: "count_inv C A m" using i by (simp add: gem_inv_def ref_inv_def)
  then have "a \<in> dom (gm_bos m)" using a by (auto simp: count_inv_def)
  then show ?thesis using idle_iff [OF c] a by blast
qed

lemma gem_inv_tick [simp]: "gem_inv rank C A (tick m) = gem_inv rank C A m"
proof -
  have k: "keeps {} m (tick m)" "keeps {} (tick m) m" by simp_all
  have "ref_inv C A (tick m) = ref_inv C A m" using ref_inv_keeps [OF k(1)] ref_inv_keeps [OF k(2)] by auto
  then show ?thesis using keeps_ranked [OF k(1)] by (simp add: gem_inv_def)
qed

lemma gem_inv_keeps:
  assumes "keeps S m m'" "gem_inv rank C A m" "S \<inter> set (cached m) = {}" "vma_inv m'" "vma_budget m'"
  shows "gem_inv rank C A m'"
  using assms ref_inv_keeps [OF assms(1)] keeps_ranked [OF assms(1)] by (simp add: gem_inv_def)

lemma not_cached: "gem_inv rank C A m \<Longrightarrow> a \<in> A \<Longrightarrow> {a} \<inter> set (cached m) = {}"
  unfolding gem_inv_def ref_inv_def count_inv_def by auto

text \<open>A store to a buffer in \<open>A\<close> that keeps what the invariants are about.\<close>

lemma store_idle:
  assumes "gem_inv rank C A m" "a \<in> A" "gm_bos m a = Some b" "gb_refcount b' = 0" "gb_name_list b' = gb_name_list b"
    "gb_global_name b' = gb_global_name b" "gb_reusable b' = gb_reusable b" "gb_size b' = gb_size b"
    "gb_map_count b' = gb_map_count b" "gb_vma_list b' = gb_vma_list b" "bo_vmas b' = bo_vmas b"
  shows "gem_inv rank C A (with_bo m a b')"
proof -
  have "vma_inv (with_bo m a b') \<and> vma_budget (with_bo m a b')"
    using vma_inv_with [of m a b b'] assms unfolding gem_inv_def by (simp add: vma_budget_def)
  then show ?thesis using change_idle [of C A m a b b'] assms(1-8) by (simp add: gem_inv_def)
qed

lemma free_idle:
  assumes "gem_inv rank C (insert a A) m" "a \<notin> A" "gm_bos m a = Some b" "gb_map_count b = 0"
  shows "\<exists>m1 m2 b1. name_list_del m a = Some m1 \<and> drm_intel_gem_bo_free m1 a = Some m2 \<and> gem_inv rank C A m2 \<and>
    gm_bos m1 a = Some b1 \<and> gb_reusable b1 = gb_reusable b \<and> gb_size b1 = gb_size b \<and> gm_bo_reuse m1 = gm_bo_reuse m \<and>
    gm_cache_bucket m1 = gm_cache_bucket m \<and> gm_cache_bucket m2 = gm_cache_bucket m \<and>
    (gb_name_list b = LSelf \<longrightarrow> m1 = m)"
proof -
  have ri: "ref_inv C (insert a A) m" "ranked rank m" and v: "vma_inv m" "vma_budget m"
    using assms(1) by (simp_all add: gem_inv_def)
  have n: "gb_name_list b = LIn \<longleftrightarrow> a \<in> set (gm_named m)" "gb_name_list b = LIn \<or> gb_name_list b = LSelf"
    using ri(1) assms(3) unfolding ref_inv_def name_inv_def by blast+
  let ?b = "b\<lparr>gb_name_list := LStale\<rparr>"
  let ?m = "if gb_name_list b = LSelf then m else with_bo (m\<lparr>gm_named := remove1 a (gm_named m)\<rparr>) a ?b"
  let ?r = "m\<lparr>gm_bos := (gm_bos m)(a := None), gm_named := remove1 a (gm_named m)\<rparr>"
  have run: "name_list_del m a = Some ?m"
    using n assms(3) by (auto simp: name_list_del_def get_bo_def put_bo_def wr_def)
  have "vma_inv (with_bo m a ?b)" using vma_inv_with [OF v(1) assms(3), of ?b] by (simp add: bo_vmas_def)
  then have vi: "vma_inv ?m" "vma_budget ?m"
    using v by (simp_all add: vma_inv_def vma_budget_def vmas_on_def mapped_def)
  obtain b1 where b1: "gm_bos ?m a = Some b1" "gb_map_count b1 = 0" "gb_reusable b1 = gb_reusable b" "gb_size b1 = gb_size b"
    using assms(3,4) by (cases "gb_name_list b = LSelf") auto
  obtain m2 where m2: "drm_intel_gem_bo_free ?m a = Some m2" "vma_inv m2" "vma_budget m2"
    "keeps {} (?m\<lparr>gm_bos := (gm_bos ?m)(a := None)\<rparr>) m2"
    using free_ok [OF vi(1) b1(1,2), of "{}"] vi(2) by blast
  have "?m\<lparr>gm_bos := (gm_bos ?m)(a := None)\<rparr> = ?r"
    using n by (cases "gb_name_list b = LSelf") (auto simp: remove1_idem)
  then have k: "keeps {} ?r m2" using m2(4) by simp
  have "ref_inv C A ?r" "ranked rank ?r" using remove_idle [OF ri(1) assms(2)] ri(2) by simp_all
  then have "gem_inv rank C A m2" using m2(2,3) ref_inv_keeps [OF k] keeps_ranked [OF k] by (simp add: gem_inv_def)
  moreover have "gm_cache_bucket m2 = gm_cache_bucket m" using k by (simp add: keeps_def)
  ultimately show ?thesis using run m2(1) b1 by (intro exI [of _ ?m] exI [of _ m2] exI [of _ b1]) auto
qed

text \<open>In the cache no buffer has a name.\<close>

lemma free_spare:
  assumes "gem_inv rank C (insert a A) m" "a \<notin> A" "gm_bos m a = Some b" "spare sz b"
  shows "\<exists>m2. drm_intel_gem_bo_free m a = Some m2 \<and> gem_inv rank C A m2 \<and> gm_cache_bucket m2 = gm_cache_bucket m"
  using free_idle [OF assms(1-3)] assms(4) by (auto simp: spare_def)

section \<open>Dropping references\<close>

text \<open>What follows the release of the relocation targets in \<open>drm_intel_gem_bo_unreference_final\<close>.\<close>

definition release :: "gem_env \<Rightarrow> int \<Rightarrow> addr \<Rightarrow> drm_intel_bufmgr_gem \<Rightarrow> drm_intel_bufmgr_gem option" where
  "release env time bo m = do {
     m \<leftarrow> put_bo m bo (\<lambda>b. b\<lparr>gb_reloc_target_info := [], gb_used_as_reloc_target := False, gb_relocs := None,
       gb_reloc_max := 0\<rparr>);
     b \<leftarrow> get_bo m bo;
     m \<leftarrow> (if gb_map_count b \<noteq> 0 then do {
         m \<leftarrow> put_bo m bo (\<lambda>b. b\<lparr>gb_map_count := 0\<rparr>);
         drm_intel_gem_bo_close_vma m bo
       } else Some m);
     m \<leftarrow> name_list_del m bo;
     b \<leftarrow> get_bo m bo;
     let bucket = drm_intel_gem_bo_bucket_for_size m (gb_size b);
     case (if gm_bo_reuse m \<and> gb_reusable b then bucket else None) of
       None \<Rightarrow> drm_intel_gem_bo_free m bo
     | Some i \<Rightarrow> do {
         (retained, m) \<leftarrow> drm_intel_gem_bo_madvise_internal env m bo I915_MADV_DONTNEED;
         if retained then do {
           m \<leftarrow> put_bo m bo (\<lambda>b. b\<lparr>gb_free_time := time, gb_validate_index := -1\<rparr>);
           Some (set_bucket m i (bucket_head m i @ [bo]))
         }
         else drm_intel_gem_bo_free m bo
       }
   }"

lemma unreference_final_eq:
  "drm_intel_gem_bo_unreference_final env unref time bo m = do {
     b \<leftarrow> get_bo m bo;
     m \<leftarrow> fold_o (\<lambda>t m. if t \<noteq> bo then unref t m else Some m) (map rt_bo (gb_reloc_target_info b)) m;
     release env time bo m
   }"
  unfolding drm_intel_gem_bo_unreference_final_def release_def ..

text \<open>Two helpers: the state after the mappings are closed, and the return to the cache.\<close>

lemma release_close:
  assumes "gem_inv rank C A m" "a \<in> A" "gm_bos m a = Some b"
  shows "\<exists>m' b'. (if gb_map_count b \<noteq> 0 then do {
         m \<leftarrow> put_bo m a (\<lambda>b. b\<lparr>gb_map_count := 0\<rparr>);
         drm_intel_gem_bo_close_vma m a
       } else Some m) = Some m' \<and> gem_inv rank C A m' \<and> gm_bos m' a = Some b' \<and> gb_map_count b' = 0 \<and>
     gb_reloc_target_info b' = gb_reloc_target_info b \<and> gm_cache_bucket m' = gm_cache_bucket m"
proof (cases "gb_map_count b = 0")
  case True
  then show ?thesis using assms by auto
next
  case False
  have v: "vma_inv m" using assms(1) by (simp add: gem_inv_def)
  have pos: "gb_map_count b > 0" using False vma_invD [OF v assms(3)] by (auto simp: vma_bo_ok_def order.strict_iff_order)
  obtain m' p x y where m': "drm_intel_gem_bo_close_vma (with_bo m a (b\<lparr>gb_map_count := 0\<rparr>)) a = Some m'"
    "vma_inv m'" "vma_budget m'" "keeps {a} m m'"
    "gm_bos m' a = Some (b\<lparr>gb_map_count := 0, gb_vma_list := p, gb_mem_virtual := x, gb_gtt_virtual := y\<rparr>)"
    using close_ok [OF v assms(3) pos] by blast
  have "gem_inv rank C A m'" by (rule gem_inv_keeps [OF m'(4) assms(1) not_cached [OF assms(1,2)] m'(2,3)])
  moreover have "gm_cache_bucket m' = gm_cache_bucket m" using m'(4) by (simp add: keeps_def)
  ultimately show ?thesis using False assms(3) m'(1,5) by (simp add: put_bo_def wr_def)
qed

lemma release_cache:
  assumes "gem_inv rank C (insert a A) m" "a \<notin> A" "gm_bos m a = Some b" "gb_map_count b = 0" "gb_reloc_target_info b = []"
    "gb_reusable b" "drm_intel_gem_bo_bucket_for_size m (gb_size b) = Some i"
  shows "gem_inv rank C A (let m = with_bo (tick m) a (b\<lparr>gb_free_time := time, gb_validate_index := -1\<rparr>) in
    set_bucket m i (bucket_head m i @ [a]))"
proof -
  let ?b = "b\<lparr>gb_free_time := time, gb_validate_index := -1\<rparr>"
  let ?m = "with_bo (tick m) a ?b"
  have z: "gb_refcount b = 0" using gem_inv_get [OF assms(1), of a] assms(3) by simp
  have i: "i < length (gm_cache_bucket ?m)" using bucket_for_size_Some [OF assms(7)] by (simp add: tick_def)
  have "cache_inv m" using assms(1) by (simp add: gem_inv_def ref_inv_def)
  then have "gb_name_list b = LSelf \<and> gb_global_name b = 0 \<and> fits m (gb_size b)"
    using assms(3,6) unfolding cache_inv_def by blast
  then have sp: "spare (bk_size (gm_cache_bucket ?m ! i)) ?b"
    using assms(4-7) by (simp add: spare_def fits_def tick_def)
  have g: "gem_inv rank C (insert a A) ?m"
    using assms(1,3) z by (intro store_idle [of _ _ _ "tick m" a b]) (simp_all add: bo_vmas_def)
  then have "ref_inv C A (set_bucket ?m i (bucket_head ?m i @ [a]))"
    using i sp by (intro to_cache [OF _ assms(2)]) (simp_all add: gem_inv_def)
  then show ?thesis using g by (simp add: gem_inv_def Let_def)
qed

lemma release_ok:
  assumes "gem_inv rank C (insert a A) m" "a \<notin> A"
  shows "\<exists>m'. release env time a m = Some m' \<and> gem_inv rank C A m'"
proof -
  obtain b where b: "gm_bos m a = Some b" "gb_refcount b = 0" using gem_inv_get [OF assms(1), of a] by blast
  let ?b = "b\<lparr>gb_reloc_target_info := [], gb_used_as_reloc_target := False, gb_relocs := None, gb_reloc_max := 0\<rparr>"
  have m1: "gem_inv rank C (insert a A) (with_bo m a ?b)"
    using assms(1) b by (intro store_idle [of _ _ _ m a b]) (simp_all add: bo_vmas_def)
  obtain m2 b2 where m2: "(if gb_map_count ?b \<noteq> 0 then do {
         m \<leftarrow> put_bo (with_bo m a ?b) a (\<lambda>b. b\<lparr>gb_map_count := 0\<rparr>);
         drm_intel_gem_bo_close_vma m a
       } else Some (with_bo m a ?b)) = Some m2" "gem_inv rank C (insert a A) m2" "gm_bos m2 a = Some b2" "gb_map_count b2 = 0"
     "gb_reloc_target_info b2 = []"
    using release_close [OF m1, of a ?b] by auto
  obtain m3 m4 b3 where m3: "name_list_del m2 a = Some m3" "drm_intel_gem_bo_free m3 a = Some m4" "gem_inv rank C A m4"
    "gm_bos m3 a = Some b3" "gb_reusable b3 = gb_reusable b2" "gb_size b3 = gb_size b2" "gm_bo_reuse m3 = gm_bo_reuse m2"
    "gm_cache_bucket m3 = gm_cache_bucket m2" "gb_name_list b2 = LSelf \<Longrightarrow> m3 = m2"
    using free_idle [OF m2(2) assms(2) m2(3,4)] by blast
  let ?k = "if gm_bo_reuse m3 \<and> gb_reusable b3 then drm_intel_gem_bo_bucket_for_size m3 (gb_size b3) else None"
  have run: "release env time a m = (case ?k of None \<Rightarrow> drm_intel_gem_bo_free m3 a
     | Some i \<Rightarrow> do {
         (retained, m) \<leftarrow> drm_intel_gem_bo_madvise_internal env m3 a I915_MADV_DONTNEED;
         if retained then do {
           m \<leftarrow> put_bo m a (\<lambda>b. b\<lparr>gb_free_time := time, gb_validate_index := -1\<rparr>);
           Some (set_bucket m i (bucket_head m i @ [a]))
         }
         else drm_intel_gem_bo_free m a
       })"
    using b m2(1) m3(1,4) by (simp add: release_def put_bo_def wr_def get_bo_def Let_def)
  show ?thesis
  proof (cases ?k)
    case None
    then show ?thesis using run m3(2,3) by simp
  next
    case (Some i)
    then have re: "gb_reusable b2" using m3(5) by (auto split: if_splits)
    have "cache_inv m2" using m2(2) by (simp add: gem_inv_def ref_inv_def)
    then have n: "gb_name_list b2 = LSelf" "gb_global_name b2 = 0" using m2(3) re unfolding cache_inv_def by blast+
    then have e: "m3 = m2" "b3 = b2" using m3(4,9) m2(3) by simp_all
    have k: "drm_intel_gem_bo_bucket_for_size m2 (gb_size b2) = Some i" using Some e by (simp split: if_splits)
    have sp: "spare (gb_size b2) b2" using m2(4,5) n re by (simp add: spare_def)
    have "gem_inv rank C (insert a A) (tick m2)" using m2(2) by simp
    from free_spare [OF this assms(2) _ sp] obtain m5 where m5: "drm_intel_gem_bo_free (tick m2) a = Some m5" "gem_inv rank C A m5"
      using m2(3) by auto
    note run = run [unfolded Some option.case]
    show ?thesis using run m5 release_cache [OF m2(2) assms(2) m2(3-5) re k, of time] m2(3) unfolding e
      by (auto simp: drm_intel_gem_bo_madvise_internal_def get_bo_def put_bo_def wr_def Let_def)
  qed
qed

text \<open>A reference is dropped, in a stack that holds the relocation tree.\<close>

lemma unref_ok:
  assumes "gem_inv rank C A m" "a \<in># C" "rank a < n"
  shows "\<exists>m'. drm_intel_gem_bo_unreference_locked_timed n env time a m = Some m' \<and> gem_inv rank (C - {#a#}) A m'"
  using assms
proof (induction n arbitrary: C A m a)
  case (Suc n)
  have ri: "ref_inv C A m" "ranked rank m" and v: "vma_inv m" "vma_budget m" using Suc.prems(1) by (simp_all add: gem_inv_def)
  then have ci: "count_inv C A m" by (simp add: ref_inv_def)
  have "a \<in> dom (gm_bos m)" using ci Suc.prems(2) by (auto simp: count_inv_def)
  then obtain b where b: "gm_bos m a = Some b" by blast
  have ca: "0 < count C a" using Suc.prems(2) by simp
  have pos: "0 < gb_refcount b" using count_invD [OF ci b] ca by linarith
  let ?m = "\<lambda>r. with_bo m a (b\<lparr>gb_refcount := r\<rparr>)"
  have vm: "vma_inv (?m r)" "vma_budget (?m r)" for r
    using vma_inv_with [OF v(1) b, of "b\<lparr>gb_refcount := r\<rparr>"] v(2) by (simp_all add: bo_vmas_def vma_budget_def)
  show ?case
  proof (cases "gb_refcount b = 1")
    case False
    then have "gem_inv rank (C - {#a#}) A (?m (gb_refcount b - 1))"
      using drop_one [OF ri(1) Suc.prems(2) b] ri(2) vm unfolding gem_inv_def by blast
    then show ?thesis using b pos False by (simp add: get_bo_def put_bo_def wr_def)
  next
    case True
    let ?u = "drm_intel_gem_bo_unreference_locked_timed n env time"
    let ?f = "\<lambda>t m. if t \<noteq> a then ?u t m else Some m"
    note dl = drop_last [OF ri(1) Suc.prems(2) b True]
    have g: "gem_inv rank (C - {#a#} + mset (targets m a)) (insert a A) (?m 0)"
      using dl(1,2) ri(2) vm unfolding gem_inv_def by blast
    have low: "rank t < n" if "t \<in> set (targets m a)" for t
      using ri(2) that b True Suc.prems(3) unfolding ranked_def live_def by (fastforce simp: refcount_Some)
    have fold: "\<exists>m'. fold_o ?f ts m0 = Some m' \<and> gem_inv rank D (insert a A) m'"
      if "gem_inv rank (D + mset (filter (\<lambda>t. t \<noteq> a) ts)) (insert a A) m0" "\<forall>t \<in> set ts. t \<noteq> a \<longrightarrow> rank t < n" for ts D m0
      using that
    proof (induction ts arbitrary: m0)
      case (Cons t ts)
      show ?case
      proof (cases "t = a")
        case True
        then show ?thesis using Cons by simp
      next
        case False
        then obtain m1 where m1: "?u t m0 = Some m1" "gem_inv rank (D + mset (filter (\<lambda>t. t \<noteq> a) ts)) (insert a A) m1"
          using Suc.IH [OF Cons.prems(1), of t] Cons.prems(2) by auto
        then show ?thesis using Cons.IH [OF m1(2)] Cons.prems(2) False by simp
      qed
    qed simp
    have t: "targets m a = filter (\<lambda>t. t \<noteq> a) (map rt_bo (gb_reloc_target_info b))" using b by (simp add: targets_def)
    have "\<forall>x \<in> set (map rt_bo (gb_reloc_target_info b)). x \<noteq> a \<longrightarrow> rank x < n" using low t by simp
    from fold [OF g [unfolded t] this] obtain m1 where m1:
      "fold_o ?f (map rt_bo (gb_reloc_target_info b)) (?m 0) = Some m1" "gem_inv rank (C - {#a#}) (insert a A) m1" by blast
    then show ?thesis using release_ok [OF m1(2) dl(3), of env time] b True
      by (simp add: get_bo_def put_bo_def wr_def unreference_final_eq)
  qed
qed simp

section \<open>The age of cached buffers\<close>

lemma cleanup_bucket_ok:
  assumes "gem_inv rank C A m" "i < length (gm_cache_bucket m)"
  shows "\<exists>m'. cleanup_bucket time i m = Some m' \<and> gem_inv rank C A m' \<and> length (gm_cache_bucket m') = length (gm_cache_bucket m)"
  using assms
proof (induction "length (bucket_head m i)" arbitrary: m)
  case 0
  then show ?case by (subst cleanup_bucket.simps) simp
next
  case (Suc n)
  obtain bo rest where h: "bucket_head m i = bo # rest" using Suc.hyps(2) by (cases "bucket_head m i") simp_all
  have ri: "ref_inv C A m" using Suc.prems(1) by (simp add: gem_inv_def)
  obtain b where b: "gm_bos m bo = Some b" "spare (bk_size (gm_cache_bucket m ! i)) b"
    using from_cache(2) [OF ri Suc.prems(2), of "[]"] h by auto
  show ?case
  proof (cases "time - gb_free_time b \<le> 1")
    case True
    then show ?thesis using Suc.prems h b by (subst cleanup_bucket.simps) (simp add: get_bo_def)
  next
    case False
    let ?m = "set_bucket m i rest"
    have g: "gem_inv rank C (insert bo A) ?m" "bo \<notin> A"
      using from_cache(1) [OF ri Suc.prems(2), of "[]"] h Suc.prems(1) by (simp_all add: gem_inv_def)
    obtain m1 where m1: "drm_intel_gem_bo_free ?m bo = Some m1" "gem_inv rank C A m1" "gm_cache_bucket m1 = gm_cache_bucket ?m"
      using free_spare [OF g] b by auto
    have l: "length (gm_cache_bucket m1) = length (gm_cache_bucket m)" using m1(3) by (simp add: set_bucket_def)
    have "n = length (bucket_head m1 i)"
      using m1(3) Suc.hyps(2) Suc.prems(2) h by (simp add: bucket_head_def set_bucket_def)
    from Suc.hyps(1) [OF this m1(2)] show ?thesis
      using False h b m1(1) Suc.prems(2) l by (subst cleanup_bucket.simps) (simp add: get_bo_def)
  qed
qed

lemma cleanup_ok:
  assumes "gem_inv rank C A m"
  shows "\<exists>m'. drm_intel_gem_cleanup_bo_cache time m = Some m' \<and> gem_inv rank C A m'"
proof -
  have fold: "\<exists>m'. fold_o (cleanup_bucket time) is m = Some m' \<and> gem_inv rank C A m'"
    if "gem_inv rank C A m" "\<forall>i \<in> set is. i < length (gm_cache_bucket m)" for "is" m
    using that
  proof (induction "is" arbitrary: m)
    case (Cons i ks)
    then obtain m1 where "cleanup_bucket time i m = Some m1" "gem_inv rank C A m1"
      "length (gm_cache_bucket m1) = length (gm_cache_bucket m)"
      using cleanup_bucket_ok [of rank C A m i time] by auto
    then show ?case using Cons.IH [of m1] Cons.prems(2) by auto
  qed simp
  have time: "gem_inv rank C A (m\<lparr>gm_time := t\<rparr>)" if "gem_inv rank C A m" for m t
  proof -
    have "keeps {} m (m\<lparr>gm_time := t\<rparr>)" by (simp add: keeps_def)
    moreover have "vma_inv (m\<lparr>gm_time := t\<rparr>) = vma_inv m" "vma_budget (m\<lparr>gm_time := t\<rparr>) = vma_budget m"
      by (simp_all add: vma_inv_def vma_budget_def vmas_on_def mapped_def)
    ultimately show ?thesis using that gem_inv_keeps [OF _ that] by (simp add: gem_inv_def)
  qed
  show ?thesis using fold [OF assms, of "[0..<length (gm_cache_bucket m)]"] assms time
    by (auto simp: drm_intel_gem_cleanup_bo_cache_def)
qed

end
