(* ===== verification/Intel_Gem_Alloc.thy ===== *)
theory Intel_Gem_Alloc
  imports Intel_Gem_Refs
begin

text \<open>
  References and allocation: the depth of a relocation tree bounds the stack that a release needs, and an
  allocation through the cache of free buffers returns a buffer that nobody else holds.
\<close>

section \<open>The depth of a relocation tree\<close>

definition live_edges :: "drm_intel_bufmgr_gem \<Rightarrow> (addr \<times> addr) set" where
  "live_edges m = {(x, t). x \<in> live m \<and> t \<in> set (targets m x)}"

lemma ranked_trancl:
  assumes "ranked rank m" "(x, y) \<in> (live_edges m)\<^sup>+"
  shows "rank y < rank x"
  using assms(2)
proof (induction rule: trancl_induct)
  case (base y)
  then show ?case using assms(1) by (auto simp: live_edges_def ranked_def)
next
  case (step y z)
  then have "rank z < rank y" using assms(1) by (auto simp: live_edges_def ranked_def)
  then show ?case using step.IH by simp
qed

lemma gem_inv_depth:
  assumes "gem_inv rank C A m"
  shows "\<exists>rank. gem_inv rank C A m \<and> (\<forall>a. rank a \<le> card (dom (gm_bos m)))"
proof -
  let ?E = "live_edges m" and ?d = "\<lambda>a. card ((live_edges m)\<^sup>+ `` {a})"
  have ci: "count_inv C A m" "ranked rank m" using assms by (simp_all add: gem_inv_def ref_inv_def)
  have fin: "finite (dom (gm_bos m))" using ci(1) by (simp add: count_inv_def)
  have "live m \<subseteq> dom (gm_bos m)" "\<forall>x \<in> live m. set (targets m x) \<subseteq> dom (gm_bos m)"
    using ci(1) by (auto simp: count_inv_def live_def)
  then have "?E \<subseteq> dom (gm_bos m) \<times> dom (gm_bos m)" unfolding live_edges_def by blast
  from trancl_subset_Sigma [OF this] have sub: "?E\<^sup>+ `` {a} \<subseteq> dom (gm_bos m)" for a by blast
  have "?d t < ?d x" if "(x, t) \<in> ?E" for x t
  proof (rule psubset_card_mono)
    show "finite (?E\<^sup>+ `` {x})" using sub fin finite_subset by blast
    have "t \<notin> ?E\<^sup>+ `` {t}" using ranked_trancl [OF ci(2), of t t] by blast
    moreover have "t \<in> ?E\<^sup>+ `` {x}" using that by blast
    moreover have "?E\<^sup>+ `` {t} \<subseteq> ?E\<^sup>+ `` {x}" using that by (auto intro: trancl_into_trancl2)
    ultimately show "?E\<^sup>+ `` {t} \<subset> ?E\<^sup>+ `` {x}" by blast
  qed
  then have "ranked ?d m" using ci(2) by (auto simp: ranked_def live_edges_def)
  then have "gem_inv ?d C A m" using assms by (simp add: gem_inv_def)
  moreover have "\<forall>a. ?d a \<le> card (dom (gm_bos m))" using sub fin by (simp add: card_mono)
  ultimately show ?thesis by blast
qed

section \<open>References\<close>

lemma unreference_eq:
  "drm_intel_gem_bo_unreference env time bo m = do {
     b \<leftarrow> get_bo m bo;
     m \<leftarrow> drm_intel_gem_bo_unreference_locked_timed (Suc (k_stack env)) env time bo m;
     if gb_refcount b = 1 then drm_intel_gem_cleanup_bo_cache time m else Some m
   }"
  by (simp add: drm_intel_gem_bo_unreference_def get_bo_def split: bind_splits)

lemma unreference_ok:
  assumes "gem_inv rank C A m" "a \<in># C" "card (dom (gm_bos m)) \<le> k_stack env"
  shows "\<exists>m' rank'. drm_intel_gem_bo_unreference env time a m = Some m' \<and> gem_inv rank' (C - {#a#}) A m'"
proof -
  obtain r where r: "gem_inv r C A m" "r a \<le> card (dom (gm_bos m))" using gem_inv_depth [OF assms(1)] by blast
  have "r a < Suc (k_stack env)" using r(2) assms(3) by simp
  from unref_ok [OF r(1) assms(2) this] obtain m1 where
    m1: "drm_intel_gem_bo_unreference_locked_timed (Suc (k_stack env)) env time a m = Some m1" "gem_inv r (C - {#a#}) A m1"
    by blast
  have "a \<in> dom (gm_bos m)" using assms(1,2) unfolding gem_inv_def ref_inv_def count_inv_def by auto
  then obtain b where "gm_bos m a = Some b" by blast
  then show ?thesis using m1 cleanup_ok [OF m1(2), of time]
    by (auto simp: unreference_eq get_bo_def simp del: drm_intel_gem_bo_unreference_locked_timed.simps)
qed

text \<open>One more reference to a buffer in use.\<close>

lemma add_ref:
  assumes "gem_inv rank C A m" "gm_bos m a = Some b" "0 < gb_refcount b"
  shows "gem_inv rank (add_mset a C) A (with_bo m a (b\<lparr>gb_refcount := gb_refcount b + 1\<rparr>))"
proof -
  let ?m = "with_bo m a (b\<lparr>gb_refcount := gb_refcount b + 1\<rparr>)"
  have ci: "count_inv C A m" "cache_inv m" "name_inv m" "distinct (gm_named m)" "ranked rank m" "vma_inv m" "vma_budget m"
    using assms(1) by (simp_all add: gem_inv_def ref_inv_def)
  have t: "targets ?m = targets m" using assms(2) by simp
  have d: "dom (gm_bos ?m) = dom (gm_bos m)" using assms(2) by auto
  have l: "live ?m = live m" unfolding live_def d using assms(2,3) by (auto simp: fld_new refcount_Some)
  have u: "fld gb_used_as_reloc_target (gm_bos ?m) = fld gb_used_as_reloc_target (gm_bos m)"
    using assms(2) by (simp add: fld_def fun_eq_iff)
  have z: "a \<notin> set (cached m)" using idle_iff [OF ci(1) assms(2)] assms(3) by simp
  have "refcount ?m x = int (refs ?m x + count (add_mset a C) x)" if "x \<in> dom (gm_bos m)" for x
    using ci(1) that count_invD [OF ci(1) assms(2)] unfolding count_inv_def refs_def l t by (auto simp: fld_new)
  moreover have "{x \<in> dom (gm_bos m). refcount ?m x = 0} = {x \<in> dom (gm_bos m). refcount m x = 0}"
    using assms(2,3) by (auto simp: fld_new refcount_Some)
  ultimately have "count_inv (add_mset a C) A ?m" using ci(1) assms(2) unfolding count_inv_def d l t with_fld(2) by auto
  moreover have "cache_inv ?m" using ci(2) z assms(2) by (intro cache_inv_with) (auto simp: cache_inv_def)
  moreover have "name_inv ?m" using ci(3) assms(2) by (intro name_inv_with) simp_all
  moreover have "vma_inv ?m" using ci(6) assms(2) by (intro vma_inv_with [of m a b]) (simp_all add: bo_vmas_def)
  moreover have "vma_budget ?m" using ci(7) by (simp add: vma_budget_def)
  moreover have "ranked rank ?m" using ci(5) unfolding ranked_def l t u .
  ultimately show ?thesis using ci(4) by (simp add: gem_inv_def ref_inv_def)
qed

lemma held:
  assumes "gem_inv rank C A m" "a \<in># C"
  shows "\<exists>b. gm_bos m a = Some b \<and> 0 < gb_refcount b" "{a} \<inter> set (cached m) = {}" "a \<notin> A"
proof -
  have ci: "count_inv C A m" using assms(1) by (simp add: gem_inv_def ref_inv_def)
  then have "a \<in> dom (gm_bos m)" using assms(2) by (auto simp: count_inv_def)
  then obtain b where b: "gm_bos m a = Some b" by blast
  have "0 < count C a" using assms(2) by simp
  then have p: "0 < gb_refcount b" using count_invD [OF ci b] by linarith
  then show "\<exists>b. gm_bos m a = Some b \<and> 0 < gb_refcount b" using b by blast
  show "{a} \<inter> set (cached m) = {}" "a \<notin> A" using idle_iff [OF ci b] p by simp_all
qed

lemma reference_ok:
  assumes "gem_inv rank C A m" "a \<in># C"
  shows "\<exists>m'. drm_intel_gem_bo_reference m a = Some m' \<and> gem_inv rank (add_mset a C) A m'"
proof -
  obtain b where b: "gm_bos m a = Some b" "0 < gb_refcount b" using held(1) [OF assms] by blast
  then show ?thesis using add_ref [OF assms(1) b] by (simp add: drm_intel_gem_bo_reference_def put_bo_def wr_def)
qed

section \<open>Allocation\<close>

text \<open>An idle buffer is handed out, and a new one is made.\<close>

lemma adopt:
  assumes "gem_inv rank C (insert a A) m" "a \<notin> A" "gm_bos m a = Some b" "gb_reloc_target_info b' = []"
    "gb_refcount b' = 1" "gb_name_list b' = gb_name_list b" "gb_global_name b' = gb_global_name b"
    "gb_reusable b' \<Longrightarrow> gb_name_list b = LSelf \<and> gb_global_name b = 0 \<and> fits m (gb_size b')"
    "gb_map_count b' = gb_map_count b" "gb_vma_list b' = gb_vma_list b" "bo_vmas b' = bo_vmas b"
  shows "gem_inv rank (add_mset a C) A (with_bo m a b')"
proof -
  let ?m = "with_bo m a b'"
  have ci: "count_inv C (insert a A) m" "cache_inv m" "name_inv m" "distinct (gm_named m)" "ranked rank m" "vma_inv m" "vma_budget m"
    using assms(1) by (simp_all add: gem_inv_def ref_inv_def)
  have b0: "gb_refcount b = 0" using idle_iff [OF ci(1) assms(3)] by simp
  have d: "dom (gm_bos ?m) = dom (gm_bos m)" using assms(3) by auto
  have l: "live ?m = insert a (live m)" unfolding live_def d using assms(3,5) by (auto simp: fld_new)
  have al: "a \<notin> live m" using b0 assms(3) by (simp add: live_def refcount_Some)
  have t: "targets ?m x = (if x = a then [] else targets m x)" for x using assms(4) by (simp add: targets_def)
  have fin: "finite (live m)" using ci(1) unfolding count_inv_def live_def by auto
  have rf: "refs ?m x = refs m x" for x
    unfolding refs_def l t using fin al by (auto intro!: sum.cong)
  have z: "a \<notin> set (cached m)" using ci(1) by (auto simp: count_inv_def)
  have "refcount ?m x = int (refs ?m x + count (add_mset a C) x)" if "x \<in> dom (gm_bos m)" for x
    using ci(1) that count_invD [OF ci(1) assms(3)] b0 assms(5) unfolding count_inv_def rf by (auto simp: fld_new)
  moreover have "{x \<in> dom (gm_bos m). refcount ?m x = 0} = {x \<in> dom (gm_bos m). refcount m x = 0} - {a}"
    using assms(5) by (auto simp: fld_new)
  ultimately have "count_inv (add_mset a C) A ?m"
    using ci(1) assms(2,3) z unfolding count_inv_def d l t with_fld(2) by auto
  moreover have "cache_inv ?m" using ci(2) z assms(6-8) by (intro cache_inv_with) auto
  moreover have "name_inv ?m" using ci(3) assms(3,6,7) by (intro name_inv_with)
  moreover have "vma_inv ?m" using ci(6) assms(3,9-11) by (intro vma_inv_with)
  moreover have "vma_budget ?m" using ci(7) by (simp add: vma_budget_def)
  moreover have "ranked rank ?m"
    using ci(5) idle_no_target [OF ci(1) assms(3) b0] unfolding ranked_def l t by (auto simp: fld_new)
  ultimately show ?thesis using ci(4) by (simp add: gem_inv_def ref_inv_def)
qed

lemma new_idle:
  assumes "gem_inv rank C A m" "gm_bos m a = None" "gb_refcount b = 0" "gb_name_list b = LSelf" "gb_global_name b = 0"
    "\<not> gb_reusable b" "gb_map_count b = 0" "gb_vma_list b = LSelf" "bo_vmas b = 0"
  shows "gem_inv rank C (insert a A) (with_bo m a b) \<and> a \<notin> A"
proof -
  let ?m = "with_bo m a b"
  have ci: "count_inv C A m" "cache_inv m" "name_inv m" "distinct (gm_named m)" "ranked rank m" "vma_inv m" "vma_budget m"
    using assms(1) by (simp_all add: gem_inv_def ref_inv_def)
  have d: "dom (gm_bos ?m) = insert a (dom (gm_bos m))" "a \<notin> dom (gm_bos m)" using assms(2) by auto
  have sub: "set_mset C \<subseteq> dom (gm_bos m)" "\<forall>x \<in> live m. set (targets m x) \<subseteq> dom (gm_bos m)"
    "A \<union> set (cached m) \<subseteq> dom (gm_bos m)" "finite (dom (gm_bos m))" using ci(1) by (simp_all add: count_inv_def)
  have l: "live ?m = live m" unfolding live_def d using assms(2,3) by (auto simp: fld_new)
  have t: "targets ?m x = targets m x" if "x \<in> live m" for x using that assms(2) by (auto simp: targets_def live_def)
  have rf: "refs ?m = refs m" using t by (intro refs_cong l) simp
  have z: "a \<notin> set (cached m)" "a \<notin> A" "count C a = 0" using sub d(2) by (auto simp: not_in_iff [symmetric])
  have "a \<notin> set (targets m x)" if "x \<in> live m" for x using that sub(2) d(2) by blast
  then have ra: "refs m a = 0" unfolding refs_def by (intro sum.neutral) (simp add: count_mset_0_iff)
  have "refcount ?m x = int (refs m x + count C x)" if "x \<in> insert a (dom (gm_bos m))" for x
    using ci(1) that assms(3) ra z(3) unfolding count_inv_def by (auto simp: fld_new)
  moreover have "{x \<in> insert a (dom (gm_bos m)). refcount ?m x = 0} = insert a {x \<in> dom (gm_bos m). refcount m x = 0}"
    using assms(3) d(2) by (auto simp: fld_new)
  ultimately have "count_inv C (insert a A) ?m"
    using ci(1) z t sub unfolding count_inv_def d(1) l rf with_fld(2) by auto
  moreover have "cache_inv ?m" using ci(2) z assms(6) by (intro cache_inv_with) auto
  moreover have "name_inv ?m" using ci(3) assms(4,5) d(2) by (auto simp: name_inv_def)
  moreover have "vma_inv ?m"
  proof -
    have "a \<notin> set (gm_vma_cache m)" using ci(6) d(2) by (auto simp: vma_inv_def)
    moreover from this have "vmas_on ?m (gm_vma_cache m) = vmas_on m (gm_vma_cache m)" by (intro vmas_on_cong) auto
    moreover have "mapped ?m = mapped m" using assms(2,7) by (auto simp: mapped_def)
    moreover have "vma_bo_ok False b" using assms(7-9) by (simp add: vma_bo_ok_def)
    ultimately show ?thesis using ci(6) unfolding vma_inv_def d(1) by auto
  qed
  moreover have "vma_budget ?m" using ci(7) by (simp add: vma_budget_def)
  moreover have "ranked rank ?m"
  proof -
    have "x \<noteq> a" if "y \<in> live m" "x \<in> set (targets m y)" for x y using that sub(2) d(2) by auto
    then show ?thesis using ci(5) t unfolding ranked_def l by (auto simp: fld_new)
  qed
  ultimately show ?thesis using ci(4) z by (simp add: gem_inv_def ref_inv_def)
qed

text \<open>What the code relies on of the kernel: memory it is given is not in use, a request to set the tiling is
  answered some time, and one for no tiling not with a tiled layout.\<close>

definition kernel_ok :: "gem_env \<Rightarrow> bool" where
  "kernel_ok env \<longleftrightarrow> (\<forall>n. fresh_alloc (k_calloc env n)) \<and>
     (\<forall>n h t s. \<exists>k \<ge> n. fst (k_set_tiling env k h t s) \<noteq> - EINTR \<and> fst (k_set_tiling env k h t s) \<noteq> - EAGAIN) \<and>
     (\<forall>n h s t sw st. k_set_tiling env n h I915_TILING_NONE s = (0, t, sw, st) \<longrightarrow> t = I915_TILING_NONE)"

lemma set_tiling_loop_ok:
  assumes "kernel_ok env"
  shows "\<exists>n ans. set_tiling_loop env h t s m = Some (ans, m\<lparr>gm_clock := n\<rparr>) \<and> (\<exists>k. ans = k_set_tiling env k h t s)"
proof -
  obtain k where k: "gm_clock m \<le> k" "fst (k_set_tiling env k h t s) \<noteq> - EINTR" "fst (k_set_tiling env k h t s) \<noteq> - EAGAIN"
    using assms unfolding kernel_ok_def by blast
  from k(1) show ?thesis
  proof (induction "k - gm_clock m" arbitrary: m)
    case 0
    then have "gm_clock m = k" by simp
    then show ?case using k(2,3) by (subst set_tiling_loop.simps) (auto simp: tick_def Let_def)
  next
    case (Suc d)
    show ?case
    proof (cases "fst (k_set_tiling env (gm_clock m) h t s) = - EINTR \<or> fst (k_set_tiling env (gm_clock m) h t s) = - EAGAIN")
      case False
      then show ?thesis by (subst set_tiling_loop.simps) (auto simp: tick_def Let_def)
    next
      case True
      have "set_tiling_loop env h t s m = set_tiling_loop env h t s (tick m)"
        using True by (subst set_tiling_loop.simps) (simp add: Let_def)
      then show ?thesis using Suc.hyps(1) [of "tick m"] Suc.hyps(2) Suc.prems by (simp add: tick_def)
    qed
  qed
qed

lemma vma_clock [simp]:
  "vma_inv (m\<lparr>gm_clock := n\<rparr>) = vma_inv m" "vma_budget (m\<lparr>gm_clock := n\<rparr>) = vma_budget m"
  by (simp_all add: vma_inv_def vma_budget_def vmas_on_def mapped_def)

text \<open>Stores that the invariant is not about.\<close>

lemma gem_inv_store:
  assumes "gem_inv rank C A m" "gm_bos m a = Some b" "core False b' = core False b" "gb_vma_list b' = gb_vma_list b"
    "bo_vmas b' = bo_vmas b"
  shows "gem_inv rank C A (with_bo m a b')"
proof -
  have "keeps {} m (with_bo m a b')" using assms(2,3) by (intro keeps_put) simp_all
  moreover have "gb_map_count b' = gb_map_count b" using assms(3) by (simp add: core_def)
  then have "vma_inv (with_bo m a b')" using assms(1,2,4,5) by (intro vma_inv_with) (simp_all add: gem_inv_def)
  moreover have "vma_budget (with_bo m a b')" using assms(1) by (simp add: gem_inv_def vma_budget_def)
  ultimately show ?thesis using gem_inv_keeps [OF _ assms(1)] by simp
qed

text \<open>A request about an idle buffer leaves what the invariant is about.\<close>

definition same_spare :: "addr \<Rightarrow> drm_intel_bufmgr_gem \<Rightarrow> drm_intel_bufmgr_gem \<Rightarrow> bool" where
  "same_spare a m m' \<longleftrightarrow> gm_cache_bucket m' = gm_cache_bucket m \<and>
     (\<forall>b sz. gm_bos m a = Some b \<longrightarrow> spare sz b \<longrightarrow> (\<exists>b'. gm_bos m' a = Some b' \<and> spare sz b'))"

lemma set_tiling_idle:
  assumes "gem_inv rank C A m" "a \<in> A" "kernel_ok env"
  shows "\<exists>r m'. drm_intel_gem_bo_set_tiling_internal env m a t s = Some (r, m') \<and> gem_inv rank C A m' \<and> same_spare a m m' \<and>
    (r = 0 \<longrightarrow> t = I915_TILING_NONE \<longrightarrow> (\<exists>b. gm_bos m' a = Some b \<and> gb_tiling_mode b = I915_TILING_NONE))"
proof -
  obtain b where b: "gm_bos m a = Some b" "gb_refcount b = 0" using gem_inv_get [OF assms(1,2)] by blast
  show ?thesis
  proof (cases "gb_global_name b = 0 \<and> t = gb_tiling_mode b \<and> ucast s = gb_stride b")
    case True
    then show ?thesis using assms(1) b
      by (auto simp: drm_intel_gem_bo_set_tiling_internal_def get_bo_def same_spare_def)
  next
    case False
    obtain n ans k where l: "set_tiling_loop env (gb_gem_handle b) t s m = Some (ans, m\<lparr>gm_clock := n\<rparr>)"
      "ans = k_set_tiling env k (gb_gem_handle b) t s" using set_tiling_loop_ok [OF assms(3)] by blast
    obtain r t' sw st where a: "ans = (r, t', sw, st)" by (cases ans)
    let ?m = "m\<lparr>gm_clock := n\<rparr>" and ?b = "b\<lparr>gb_tiling_mode := t', gb_swizzle_mode := sw, gb_stride := ucast st\<rparr>"
    have "keeps {} m ?m" by (simp add: keeps_def)
    moreover have "vma_inv ?m" "vma_budget ?m" using assms(1) by (simp_all add: gem_inv_def)
    ultimately have g: "gem_inv rank C A ?m" using gem_inv_keeps [OF _ assms(1)] by blast
    then have g2: "gem_inv rank C A (with_bo ?m a ?b)"
      using assms(2) b by (intro store_idle [of _ _ _ ?m a b]) (simp_all add: bo_vmas_def)
    have "t' = I915_TILING_NONE" if "r = 0" "t = I915_TILING_NONE"
      using assms(3) that l(2) a unfolding kernel_ok_def by metis
    then show ?thesis using False b l(1) a g g2
      by (cases "r = 0") (auto simp: drm_intel_gem_bo_set_tiling_internal_def get_bo_def put_bo_def wr_def same_spare_def spare_def)
  qed
qed

lemma bucket_tick [simp]: "gm_cache_bucket (tick m) = gm_cache_bucket m" "bucket_head (tick m) i = bucket_head m i"
  "set_bucket (tick m) i bos = tick (set_bucket m i bos)"
  by (simp_all add: tick_def bucket_head_def set_bucket_def)

lemma busy_ok:
  assumes "gem_inv rank C A m" "gm_bos m a = Some b"
  shows "\<exists>busy m'. drm_intel_gem_bo_busy env m a = Some (busy, m') \<and> gem_inv rank C A m' \<and>
    gm_cache_bucket m' = gm_cache_bucket m"
proof -
  have g: "gem_inv rank C A (with_bo (tick m) a (b\<lparr>gb_idle := i\<rparr>))" for i
    using assms by (intro gem_inv_store [of _ _ _ "tick m" a b]) (simp_all add: bo_vmas_def)
  then show ?thesis using assms
    by (auto simp: drm_intel_gem_bo_busy_def get_bo_def put_bo_def wr_def Let_def split: prod.split)
qed

lemma madvise_eq:
  "gm_bos m a = Some b \<Longrightarrow> drm_intel_gem_bo_madvise_internal env m a st =
     Some (k_madvise env (gm_clock m) (gb_gem_handle b) st, tick m)"
  by (simp add: drm_intel_gem_bo_madvise_internal_def get_bo_def)

text \<open>A buffer is taken out of its bucket and freed.\<close>

lemma take_free:
  assumes "gem_inv rank C A m" "i < length (gm_cache_bucket m)" "bucket_head m i = us @ a # vs"
  shows "gem_inv rank C (insert a A) (set_bucket m i (us @ vs))" "a \<notin> A"
    "\<exists>b. gm_bos m a = Some b \<and> spare (bk_size (gm_cache_bucket m ! i)) b"
    "bucket_head (set_bucket m i (us @ vs)) i = us @ vs"
    "bk_size (gm_cache_bucket (set_bucket m i (us @ vs)) ! i) = bk_size (gm_cache_bucket m ! i)"
proof -
  have ri: "ref_inv C A m" using assms(1) by (simp add: gem_inv_def)
  note f = from_cache [OF ri assms(2,3)]
  show "gem_inv rank C (insert a A) (set_bucket m i (us @ vs))" "a \<notin> A"
    using f(1) assms(1) by (simp_all add: gem_inv_def)
  show "\<exists>b. gm_bos m a = Some b \<and> spare (bk_size (gm_cache_bucket m ! i)) b" using f(2) by blast
  show "bucket_head (set_bucket m i (us @ vs)) i = us @ vs"
    "bk_size (gm_cache_bucket (set_bucket m i (us @ vs)) ! i) = bk_size (gm_cache_bucket m ! i)"
    using assms(2) by (simp_all add: bucket_head_def set_bucket_def)
qed

lemma purge_bucket_ok:
  assumes "gem_inv rank C A m" "i < length (gm_cache_bucket m)"
  shows "\<exists>m'. drm_intel_gem_bo_cache_purge_bucket env i m = Some m' \<and> gem_inv rank C A m' \<and>
    map bk_size (gm_cache_bucket m') = map bk_size (gm_cache_bucket m) \<and>
    length (bucket_head m' i) \<le> length (bucket_head m i)"
  using assms
proof (induction "length (bucket_head m i)" arbitrary: m)
  case 0
  then show ?case by (subst drm_intel_gem_bo_cache_purge_bucket.simps) simp
next
  case (Suc n)
  obtain a rest where h: "bucket_head m i = a # rest" using Suc.hyps(2) by (cases "bucket_head m i") simp_all
  note t = take_free [OF Suc.prems, of "[]" a rest, simplified, OF h]
  obtain b where b: "gm_bos m a = Some b" "spare (bk_size (gm_cache_bucket m ! i)) b" using t(3) by blast
  let ?m = "set_bucket (tick m) i rest"
  obtain m1 where m1: "drm_intel_gem_bo_free ?m a = Some m1" "gem_inv rank C A m1" "gm_cache_bucket m1 = gm_cache_bucket ?m"
    using free_spare [of rank C a A ?m b] t(1,2) b by auto
  have bk: "bucket_head m1 i = rest" "map bk_size (gm_cache_bucket m1) = map bk_size (gm_cache_bucket m)"
    using m1(3) t(4) by (simp_all add: bucket_head_def)
  then have "i < length (gm_cache_bucket m1)" using Suc.prems(2) by (metis length_map)
  from Suc.hyps(1) [OF _ m1(2) this] bk Suc.hyps(2) h show ?case
    using Suc.prems(1) b m1(1) by (subst drm_intel_gem_bo_cache_purge_bucket.simps) (auto simp: madvise_eq)
qed

text \<open>The choice of a cached buffer: the last one for rendering, else the first unless it is busy.\<close>

definition pick :: "gem_env \<Rightarrow> bool \<Rightarrow> nat \<Rightarrow> drm_intel_bufmgr_gem \<Rightarrow> (addr option \<times> drm_intel_bufmgr_gem) option" where
  "pick env for_render i m =
    (if for_render then Some (Some (last (bucket_head m i)), set_bucket m i (butlast (bucket_head m i)))
     else (drm_intel_gem_bo_busy env m (hd (bucket_head m i))) \<bind> (\<lambda>(busy, m').
       Some (if busy then (None, m') else (Some (hd (bucket_head m i)), set_bucket m' i (tl (bucket_head m i))))))"

lemma alloc_from_cache_step:
  "alloc_from_cache env for_render t s i m =
     (if bucket_head m i = [] then Some (None, m)
      else (pick env for_render i m) \<bind> (\<lambda>(found, m).
        case found of
          None \<Rightarrow> Some (None, m)
        | Some bo \<Rightarrow>
            (drm_intel_gem_bo_madvise_internal env m bo I915_MADV_WILLNEED) \<bind> (\<lambda>(retained, m).
            if \<not> retained then
              (drm_intel_gem_bo_free m bo) \<bind> (\<lambda>m.
              (drm_intel_gem_bo_cache_purge_bucket env i m) \<bind> (\<lambda>m.
              alloc_from_cache env for_render t s i m))
            else
              (drm_intel_gem_bo_set_tiling_internal env m bo t s) \<bind> (\<lambda>(r, m).
              if r \<noteq> 0 then
                (drm_intel_gem_bo_free m bo) \<bind> (\<lambda>m.
                alloc_from_cache env for_render t s i m)
              else Some (Some bo, m)))))"
proof (cases "bucket_head m i")
  case Nil
  then show ?thesis by (subst alloc_from_cache.simps) simp
next
  case (Cons bo rest)
  show ?thesis
    by (subst alloc_from_cache.simps) (simp only: Cons list.case list.distinct if_False pick_def list.sel)
qed

lemma pick_ok:
  assumes "gem_inv rank C {} m" "i < length (gm_cache_bucket m)" "bucket_head m i \<noteq> []"
  shows "\<exists>found m'. pick env for_render i m = Some (found, m') \<and>
    map bk_size (gm_cache_bucket m') = map bk_size (gm_cache_bucket m) \<and>
    (case found of None \<Rightarrow> gem_inv rank C {} m'
     | Some a \<Rightarrow> gem_inv rank C {a} m' \<and> length (bucket_head m' i) < length (bucket_head m i) \<and>
         (\<exists>b. gm_bos m' a = Some b \<and> spare (bk_size (gm_cache_bucket m ! i)) b))"
proof (cases for_render)
  case True
  have h: "bucket_head m i = butlast (bucket_head m i) @ last (bucket_head m i) # []" using assms(3) by simp
  note t = take_free [OF assms(1,2) h]
  show ?thesis using True t assms(3) by (auto simp: pick_def)
next
  case False
  obtain a rest where h: "bucket_head m i = [] @ a # rest" using assms(3) by (cases "bucket_head m i") simp_all
  obtain b where b: "gm_bos m a = Some b" using take_free(3) [OF assms(1,2) h] by blast
  obtain busy m1 where m1: "drm_intel_gem_bo_busy env m a = Some (busy, m1)" "gem_inv rank C {} m1"
    "gm_cache_bucket m1 = gm_cache_bucket m" using busy_ok [OF assms(1) b] by blast
  have i: "i < length (gm_cache_bucket m1)" "bucket_head m1 i = [] @ a # rest" using assms(2) m1(3) h by (simp_all add: bucket_head_def)
  note t = take_free [OF m1(2) i]
  show ?thesis using False m1 t h by (auto simp: pick_def)
qed

text \<open>What allocation from the cache gives, in a state with the buckets of \<open>m\<close>.\<close>

definition got_spare :: "(addr \<Rightarrow> nat) \<Rightarrow> addr multiset \<Rightarrow> u32 \<Rightarrow> nat \<Rightarrow> drm_intel_bufmgr_gem \<Rightarrow>
    (addr option \<times> drm_intel_bufmgr_gem) option \<Rightarrow> bool" where
  "got_spare rank C t i m res \<longleftrightarrow> (\<exists>found m'. res = Some (found, m') \<and>
     map bk_size (gm_cache_bucket m') = map bk_size (gm_cache_bucket m) \<and>
     (case found of None \<Rightarrow> gem_inv rank C {} m'
      | Some a \<Rightarrow> gem_inv rank C {a} m' \<and> (\<exists>b. gm_bos m' a = Some b \<and> spare (bk_size (gm_cache_bucket m ! i)) b \<and>
          (t = I915_TILING_NONE \<longrightarrow> gb_tiling_mode b = I915_TILING_NONE))))"

lemma free_same_spare:
  assumes "gem_inv rank C {a} m'" "same_spare a m m'" "gm_bos m a = Some b" "spare sz b"
  shows "\<exists>m2. drm_intel_gem_bo_free m' a = Some m2 \<and> gem_inv rank C {} m2 \<and> gm_cache_bucket m2 = gm_cache_bucket m"
proof -
  obtain b2 where b2: "gm_bos m' a = Some b2" "spare sz b2" using assms(2-4) by (auto simp: same_spare_def)
  then show ?thesis using free_spare [OF assms(1) _ b2] assms(2) by (auto simp: same_spare_def)
qed

text \<open>The picked buffer is used, or freed and another one looked for, in a bucket that is shorter.\<close>

lemma use_picked:
  assumes g: "gem_inv rank C {a} m" and b: "gm_bos m a = Some b" "spare (bk_size (gm_cache_bucket m ! i)) b"
    and i: "i < length (gm_cache_bucket m)" and env: "kernel_ok env"
    and again: "\<And>m2. gem_inv rank C {} m2 \<Longrightarrow> map bk_size (gm_cache_bucket m2) = map bk_size (gm_cache_bucket m) \<Longrightarrow>
      length (bucket_head m2 i) \<le> length (bucket_head m i) \<Longrightarrow> got_spare rank C t i m (nxt m2)"
  shows "got_spare rank C t i m ((drm_intel_gem_bo_madvise_internal env m a I915_MADV_WILLNEED) \<bind> (\<lambda>(retained, m).
            if \<not> retained then
              (drm_intel_gem_bo_free m a) \<bind> (\<lambda>m.
              (drm_intel_gem_bo_cache_purge_bucket env i m) \<bind> (\<lambda>m. nxt m))
            else
              (drm_intel_gem_bo_set_tiling_internal env m a t s) \<bind> (\<lambda>(r, m).
              if r \<noteq> 0 then (drm_intel_gem_bo_free m a) \<bind> (\<lambda>m. nxt m)
              else Some (Some a, m))))"
proof (cases "k_madvise env (gm_clock m) (gb_gem_handle b) I915_MADV_WILLNEED")
  case False
  obtain m3 where m3: "drm_intel_gem_bo_free (tick m) a = Some m3" "gem_inv rank C {} m3"
    "gm_cache_bucket m3 = gm_cache_bucket m"
    using free_same_spare [of rank C a "tick m" "tick m"] g b by (auto simp: same_spare_def)
  obtain m4 where m4: "drm_intel_gem_bo_cache_purge_bucket env i m3 = Some m4" "gem_inv rank C {} m4"
    "map bk_size (gm_cache_bucket m4) = map bk_size (gm_cache_bucket m)" "length (bucket_head m4 i) \<le> length (bucket_head m i)"
    using purge_bucket_ok [OF m3(2), of i env] i m3(3) by (auto simp: bucket_head_def)
  show ?thesis using again [OF m4(2-4)] m4(1) m3(1) False b(1) by (simp add: madvise_eq)
next
  case True
  have gt: "gem_inv rank C {a} (tick m)" using g by simp
  obtain r m2 where m2: "drm_intel_gem_bo_set_tiling_internal env (tick m) a t s = Some (r, m2)" "gem_inv rank C {a} m2"
    "same_spare a (tick m) m2"
    "r = 0 \<longrightarrow> t = I915_TILING_NONE \<longrightarrow> (\<exists>b. gm_bos m2 a = Some b \<and> gb_tiling_mode b = I915_TILING_NONE)"
    using set_tiling_idle [OF gt _ env, of a] by blast
  show ?thesis
  proof (cases "r = 0")
    case r: True
    obtain b2 where b2: "gm_bos m2 a = Some b2" "spare (bk_size (gm_cache_bucket m ! i)) b2"
      using m2(3) b by (auto simp: same_spare_def)
    moreover have "t = I915_TILING_NONE \<longrightarrow> gb_tiling_mode b2 = I915_TILING_NONE" using m2(4) r b2(1) by auto
    moreover have "map bk_size (gm_cache_bucket m2) = map bk_size (gm_cache_bucket m)" using m2(3) by (simp add: same_spare_def)
    ultimately show ?thesis using m2(1,2) r True b(1) by (simp add: madvise_eq got_spare_def)
  next
    case r: False
    obtain m3 where m3: "drm_intel_gem_bo_free m2 a = Some m3" "gem_inv rank C {} m3" "gm_cache_bucket m3 = gm_cache_bucket m"
      using free_same_spare [OF m2(2,3)] b by auto
    then have "got_spare rank C t i m (nxt m3)" by (intro again) (simp_all add: bucket_head_def)
    then show ?thesis using m3(1) m2(1) r True b(1) by (simp add: madvise_eq)
  qed
qed

lemma got_spare_cong:
  assumes "map bk_size (gm_cache_bucket m') = map bk_size (gm_cache_bucket m)" "i < length (gm_cache_bucket m)"
  shows "got_spare rank C t i m' res = got_spare rank C t i m res"
proof -
  have "bk_size (gm_cache_bucket m' ! i) = bk_size (gm_cache_bucket m ! i)"
    using assms by (metis length_map nth_map)
  then show ?thesis using assms(1) by (simp add: got_spare_def cong: option.case_cong)
qed

lemma alloc_from_cache_ok:
  assumes "gem_inv rank C {} m" "i < length (gm_cache_bucket m)" "kernel_ok env"
  shows "got_spare rank C t i m (alloc_from_cache env for_render t s i m)"
  using assms(1,2)
proof (induction "length (bucket_head m i)" arbitrary: m rule: less_induct)
  case less
  show ?case
  proof (cases "bucket_head m i = []")
    case True
    then show ?thesis using less.prems by (subst alloc_from_cache_step) (simp add: got_spare_def)
  next
    case False
    obtain found m1 where p: "pick env for_render i m = Some (found, m1)"
      "map bk_size (gm_cache_bucket m1) = map bk_size (gm_cache_bucket m)"
      "case found of None \<Rightarrow> gem_inv rank C {} m1
       | Some a \<Rightarrow> gem_inv rank C {a} m1 \<and> length (bucket_head m1 i) < length (bucket_head m i) \<and>
           (\<exists>b. gm_bos m1 a = Some b \<and> spare (bk_size (gm_cache_bucket m ! i)) b)"
      using pick_ok [OF less.prems False] by blast
    have i1: "i < length (gm_cache_bucket m1)" "bk_size (gm_cache_bucket m1 ! i) = bk_size (gm_cache_bucket m ! i)"
      using p(2) less.prems(2) by (metis length_map nth_map)+
    show ?thesis
    proof (cases found)
      case None
      then show ?thesis using False p by (subst alloc_from_cache_step) (simp add: got_spare_def)
    next
      case (Some a)
      obtain b where g: "gem_inv rank C {a} m1" "length (bucket_head m1 i) < length (bucket_head m i)"
        and b: "gm_bos m1 a = Some b" "spare (bk_size (gm_cache_bucket m1 ! i)) b" using p(3) Some i1(2) by auto
      have "got_spare rank C t i m1 (alloc_from_cache env for_render t s i m2)"
        if "gem_inv rank C {} m2" "map bk_size (gm_cache_bucket m2) = map bk_size (gm_cache_bucket m1)"
          "length (bucket_head m2 i) \<le> length (bucket_head m1 i)" for m2
      proof -
        have "i < length (gm_cache_bucket m2)" using that(2) i1(1) by (metis length_map)
        then show ?thesis using less.hyps [of m2] that g(2) got_spare_cong [OF that(2) i1(1)] by simp
      qed
      from use_picked [OF g(1) b i1(1) assms(3), of t "alloc_from_cache env for_render t s i" s, OF this]
      show ?thesis using Some p(1) False got_spare_cong [OF p(2) less.prems(2)]
        by (subst alloc_from_cache_step) simp
    qed
  qed
qed

text \<open>A buffer that can be handed out.\<close>

definition blank :: "u64 \<Rightarrow> drm_intel_bo_gem \<Rightarrow> bool" where
  "blank sz b \<longleftrightarrow> gb_reloc_target_info b = [] \<and> gb_map_count b = 0 \<and> gb_name_list b = LSelf \<and> gb_global_name b = 0 \<and>
     gb_size b = sz \<and> gb_tiling_mode b = I915_TILING_NONE"

lemma alloc_new_ok:
  assumes "gem_inv rank C {} m" "kernel_ok env"
  shows "\<exists>found m'. alloc_new env sz I915_TILING_NONE 0 m = Some (found, m') \<and> gm_cache_bucket m' = gm_cache_bucket m \<and>
    (case found of None \<Rightarrow> gem_inv rank C {} m'
     | Some a \<Rightarrow> gem_inv rank C {a} m' \<and> (\<exists>b. gm_bos m' a = Some b \<and> blank sz b))"
proof (cases "k_calloc env (gm_clock m) (gm_bos m)")
  case None
  then show ?thesis using assms(1) by (simp add: alloc_new_def)
next
  case (Some a)
  have free: "gm_bos m a = None" using assms(2) Some unfolding kernel_ok_def by (blast dest: fresh_allocD)
  obtain r h where k: "k_create env (gm_clock m) sz = (r, h)" by fastforce
  show ?thesis
  proof (cases "r = 0")
    case False
    have u: "(gm_bos m)(a := None) = gm_bos m" using free by auto
    have "(tick (with_bo m a (bo_zero\<lparr>gb_size := sz\<rparr>)))\<lparr>gm_bos := (gm_bos m)(a := None)\<rparr> = tick m"
      unfolding u by (simp add: tick_def)
    then show ?thesis using Some k False assms(1) by (simp add: alloc_new_def Let_def dealloc_def)
  next
    case True
    let ?b = "bo_zero\<lparr>gb_size := sz, gb_gem_handle := h, gb_name_list := LSelf, gb_vma_list := LSelf\<rparr>"
    have z: "gb_global_name bo_zero = 0" "gb_tiling_mode bo_zero = I915_TILING_NONE" "gb_stride bo_zero = 0"
      "gb_swizzle_mode bo_zero = I915_BIT_6_SWIZZLE_NONE" by (simp_all add: bo_zero_def I915_TILING_NONE_def I915_BIT_6_SWIZZLE_NONE_def)
    have s: "bo_zero\<lparr>gb_size := sz, gb_gem_handle := h, gb_tiling_mode := I915_TILING_NONE,
        gb_swizzle_mode := I915_BIT_6_SWIZZLE_NONE, gb_stride := 0, gb_name_list := LSelf, gb_vma_list := LSelf\<rparr> = ?b"
      unfolding bo_zero_def I915_TILING_NONE_def I915_BIT_6_SWIZZLE_NONE_def by simp
    have run: "alloc_new env sz I915_TILING_NONE 0 m = Some (Some a, with_bo (tick m) a ?b)"
      using Some k True z by (simp add: alloc_new_def Let_def put_bo_def wr_def drm_intel_gem_bo_set_tiling_internal_def get_bo_def
          tick_def s [symmetric])
    have "gem_inv rank C {} (tick m)" using assms(1) by simp
    then have "gem_inv rank C {a} (with_bo (tick m) a ?b)"
      using new_idle [of rank C "{}" "tick m" a ?b] free by (simp add: bo_zero_def bo_vmas_def)
    moreover have "blank sz ?b" using z by (simp add: blank_def bo_zero_def)
    ultimately show ?thesis using run by simp
  qed
qed

lemma set_in_aperture_size_untiled:
  assumes "gm_bos m a = Some b" "\<not> gb_used_as_reloc_target b" "gb_tiling_mode b = I915_TILING_NONE"
  shows "drm_intel_bo_gem_set_in_aperture_size m a = Some (with_bo m a (b\<lparr>gb_reloc_tree_size := to_int (gb_size b)\<rparr>))"
  using assms by (simp add: drm_intel_bo_gem_set_in_aperture_size_def get_bo_def put_bo_def wr_def)

lemma hand_out:
  assumes "gem_inv rank C {a} m" "gm_bos m a = Some b" "blank bo_size b" "fits m bo_size"
  shows "\<exists>m' b'. (do {
         m \<leftarrow> put_bo m a (\<lambda>b. b\<lparr>gb_refcount := 1, gb_validate_index := -1, gb_reloc_tree_fences := 0,
           gb_used_as_reloc_target := False, gb_has_error := False, gb_reusable := True\<rparr>);
         m \<leftarrow> drm_intel_bo_gem_set_in_aperture_size m a;
         Some (Some a, m)
       }) = Some (Some a, m') \<and> gem_inv rank (add_mset a C) {} m' \<and> a \<notin># C \<and> gm_bos m' a = Some b' \<and>
     blank bo_size b' \<and> gb_refcount b' = 1"
proof -
  let ?b = "b\<lparr>gb_refcount := 1, gb_validate_index := -1, gb_reloc_tree_fences := 0, gb_used_as_reloc_target := False,
    gb_has_error := False, gb_reusable := True\<rparr>"
  have "gem_inv rank (add_mset a C) {} (with_bo m a ?b)"
    using assms by (intro adopt [of _ _ _ _ _ b]) (simp_all add: blank_def bo_vmas_def)
  then have "gem_inv rank (add_mset a C) {} (with_bo (with_bo m a ?b) a (?b\<lparr>gb_reloc_tree_size := to_int (gb_size ?b)\<rparr>))"
    by (intro gem_inv_store [of _ _ _ "with_bo m a ?b" a ?b]) (simp_all add: bo_vmas_def)
  moreover have "drm_intel_bo_gem_set_in_aperture_size (with_bo m a ?b) a =
      Some (with_bo (with_bo m a ?b) a (?b\<lparr>gb_reloc_tree_size := to_int (gb_size ?b)\<rparr>))"
    using assms(3) by (intro set_in_aperture_size_untiled) (simp_all add: blank_def)
  moreover have "a \<notin># C" using held(3) [OF assms(1), of a] by blast
  ultimately show ?thesis using assms(2,3) by (simp add: put_bo_def wr_def blank_def)
qed

lemma fits_bucket:
  assumes "drm_intel_gem_bo_bucket_for_size m sz = Some i"
  shows "fits m (bk_size (gm_cache_bucket m ! i))"
proof -
  let ?k = "\<lambda>j. bk_size (gm_cache_bucket m ! j)"
  have i: "i < length (gm_cache_bucket m)" "sz \<le> ?k i" "\<forall>j < i. \<not> sz \<le> ?k j"
    using assms by (auto simp: drm_intel_gem_bo_bucket_for_size_def find_Some_iff)
  have "drm_intel_gem_bo_bucket_for_size m (?k i) = Some i"
    unfolding drm_intel_gem_bo_bucket_for_size_def find_Some_iff
    using i order_trans by (intro exI [of _ i]) fastforce
  then show ?thesis by (simp add: fits_def)
qed

lemma fits_none:
  assumes "drm_intel_gem_bo_bucket_for_size m sz = None" "sz \<le> sz'"
  shows "fits m sz'"
proof -
  have "drm_intel_gem_bo_bucket_for_size m sz' = None"
    using assms order_trans unfolding drm_intel_gem_bo_bucket_for_size_def find_None_iff by fastforce
  then show ?thesis by (simp add: fits_def)
qed

definition allocated :: "(addr \<Rightarrow> nat) \<Rightarrow> addr multiset \<Rightarrow> u64 \<Rightarrow> (addr option \<times> drm_intel_bufmgr_gem) option \<Rightarrow> bool" where
  "allocated rank C sz res \<longleftrightarrow> (\<exists>found m'. res = Some (found, m') \<and>
     (case found of None \<Rightarrow> gem_inv rank C {} m'
      | Some a \<Rightarrow> gem_inv rank (add_mset a C) {} m' \<and> a \<notin># C \<and>
          (\<exists>b bo_size. gm_bos m' a = Some b \<and> blank bo_size b \<and> sz \<le> bo_size \<and> gb_refcount b = 1)))"

lemma alloc_ok:
  assumes "gem_inv rank C {} m" "kernel_ok env"
  shows "allocated rank C sz (drm_intel_gem_bo_alloc_internal env page_size sz flags I915_TILING_NONE 0 m)"
proof -
  let ?fr = "flags AND BO_ALLOC_FOR_RENDER \<noteq> 0"
  let ?k = "drm_intel_gem_bo_bucket_for_size m sz"
  let ?bs = "case ?k of None \<Rightarrow> max sz (ucast page_size) | Some i \<Rightarrow> bk_size (gm_cache_bucket m ! i)"
  have big: "sz \<le> ?bs" by (auto dest: bucket_for_size_Some split: option.split)
  have fit: "fits m ?bs" using fits_bucket fits_none by (auto split: option.split)
  obtain f1 m1 where r1: "(case ?k of None \<Rightarrow> Some (None, m) | Some i \<Rightarrow> alloc_from_cache env ?fr I915_TILING_NONE (ucast (0 :: u64)) i m) = Some (f1, m1)"
    "map bk_size (gm_cache_bucket m1) = map bk_size (gm_cache_bucket m)"
    "case f1 of None \<Rightarrow> gem_inv rank C {} m1 | Some a \<Rightarrow> gem_inv rank C {a} m1 \<and> (\<exists>b. gm_bos m1 a = Some b \<and> blank ?bs b)"
  proof (cases ?k)
    case None
    then show ?thesis using that assms(1) by simp
  next
    case (Some i)
    have "got_spare rank C I915_TILING_NONE i m (alloc_from_cache env ?fr I915_TILING_NONE (ucast (0 :: u64)) i m)"
      using bucket_for_size_Some [OF Some] assms by (intro alloc_from_cache_ok) simp_all
    then show ?thesis using that Some by (fastforce simp: got_spare_def spare_def blank_def split: option.splits)
  qed
  obtain f2 m2 where r2: "(case f1 of Some bo \<Rightarrow> Some (Some bo, m1) | None \<Rightarrow> alloc_new env ?bs I915_TILING_NONE (ucast (0 :: u64)) m1) = Some (f2, m2)"
    "map bk_size (gm_cache_bucket m2) = map bk_size (gm_cache_bucket m)"
    "case f2 of None \<Rightarrow> gem_inv rank C {} m2 | Some a \<Rightarrow> gem_inv rank C {a} m2 \<and> (\<exists>b. gm_bos m2 a = Some b \<and> blank ?bs b)"
  proof (cases f1)
    case None
    then have "gem_inv rank C {} m1" using r1(3) by simp
    from alloc_new_ok [OF this assms(2), of ?bs] show ?thesis using that None r1(2) by auto
  next
    case (Some a)
    then show ?thesis using that r1 by simp
  qed
  show ?thesis
  proof (cases f2)
    case None
    then show ?thesis using r1(1) r2 by (simp add: allocated_def drm_intel_gem_bo_alloc_internal_def Let_def)
  next
    case (Some a)
    then obtain b where g: "gem_inv rank C {a} m2" and b: "gm_bos m2 a = Some b" "blank ?bs b" using r2(3) by auto
    have "fits m2 ?bs" using fit fits_cong [OF r2(2)] by simp
    from hand_out [OF g b this] show ?thesis using r1(1) r2(1) Some big
      by (fastforce simp: allocated_def drm_intel_gem_bo_alloc_internal_def Let_def)
  qed
qed

end
