(* ===== verification/Intel_Gem_Client.thy ===== *)
theory Intel_Gem_Client
  imports Intel_Gem_Alloc Intel_Gem_Init
begin

text \<open>
  A client of the GEM buffer manager, which uses the buffers it holds references to: its operations as a
  step relation, what holds in every state it can reach, and that it is never refused an operation.
\<close>

section \<open>Relocations\<close>

lemma put_bo_eq: "put_bo m a f = Some m' \<longleftrightarrow> (\<exists>b. gm_bos m a = Some b \<and> m' = with_bo m a (f b))"
  by (auto simp: put_bo_def wr_def split: bind_splits option.splits)

text \<open>A buffer in use changes, but not its references.\<close>

lemma change_live:
  assumes "gem_inv rank C A m" "gm_bos m a = Some b" "0 < gb_refcount b" "gb_refcount b' = gb_refcount b"
    "filter (\<lambda>t. t \<noteq> a) (map rt_bo (gb_reloc_target_info b')) = filter (\<lambda>t. t \<noteq> a) (map rt_bo (gb_reloc_target_info b))"
    "gb_used_as_reloc_target b \<Longrightarrow> gb_used_as_reloc_target b'" "gb_name_list b' = gb_name_list b"
    "gb_global_name b' = gb_global_name b" "gb_size b' = gb_size b" "gb_reusable b' \<Longrightarrow> gb_reusable b"
    "gb_map_count b' = gb_map_count b" "gb_vma_list b' = gb_vma_list b" "bo_vmas b' = bo_vmas b"
  shows "gem_inv rank C A (with_bo m a b')"
proof -
  let ?m = "with_bo m a b'"
  have ci: "count_inv C A m" "cache_inv m" "name_inv m" "distinct (gm_named m)" "ranked rank m" "vma_inv m" "vma_budget m"
    using assms(1) by (simp_all add: gem_inv_def ref_inv_def)
  have t: "targets ?m = targets m" using assms(2,5) by (auto simp: targets_def fun_eq_iff)
  have d: "dom (gm_bos ?m) = dom (gm_bos m)" using assms(2) by auto
  have rc: "refcount ?m = refcount m" using assms(2,4) by (auto simp: fld_def fun_eq_iff)
  have u: "fld gb_used_as_reloc_target (gm_bos m) x \<Longrightarrow> fld gb_used_as_reloc_target (gm_bos ?m) x" for x
    using assms(2,6) by (cases "x = a") (auto simp: fld_def)
  have l: "live ?m = live m" unfolding live_def d rc ..
  have z: "a \<notin> set (cached m)" using idle_iff [OF ci(1) assms(2)] assms(3) by simp
  have rf: "refs ?m = refs m" unfolding refs_def l t ..
  have "count_inv C A ?m" using ci(1) unfolding count_inv_def d l t rc rf with_fld(2) .
  moreover have "cache_inv ?m" using ci(2) z assms(2,7-10) by (intro cache_inv_with) (auto simp: cache_inv_def)
  moreover have "name_inv ?m" using ci(3) assms(2,7,8) by (intro name_inv_with)
  moreover have "vma_inv ?m" using ci(6) assms(2,11-13) by (intro vma_inv_with)
  moreover have "vma_budget ?m" using ci(7) by (simp add: vma_budget_def)
  moreover have "ranked rank ?m" using ci(5) u unfolding ranked_def l t by blast
  ultimately show ?thesis using ci(4) by (simp add: gem_inv_def ref_inv_def)
qed

text \<open>A buffer that was never a target gets one more relocation: whatever the target, there is no cycle.\<close>

lemma link_target:
  assumes "gem_inv rank C A m" "gm_bos m a = Some b" "gm_bos m t = Some tb" "t \<noteq> a" "\<not> gb_used_as_reloc_target b"
    "gb_used_as_reloc_target tb" "0 < gb_refcount b" "0 < gb_refcount tb" "rt_bo e = t"
  shows "gem_inv (rank(a := max (rank a) (Suc (rank t)))) C A
    (with_bo (with_bo m a (b\<lparr>gb_reloc_target_info := gb_reloc_target_info b @ [e]\<rparr>)) t (tb\<lparr>gb_refcount := gb_refcount tb + 1\<rparr>))"
    (is "gem_inv ?rank C A ?m")
proof -
  have ci: "count_inv C A m" "cache_inv m" "name_inv m" "distinct (gm_named m)" "ranked rank m" "vma_inv m" "vma_budget m"
    using assms(1) by (simp_all add: gem_inv_def ref_inv_def)
  have d: "dom (gm_bos ?m) = dom (gm_bos m)" using assms(2,3) by auto
  have rc: "refcount ?m = (refcount m)(t := gb_refcount tb + 1)"
    using assms(2-4) by (auto simp: fld_new refcount_Some fun_eq_iff)
  have l: "live ?m = live m" unfolding live_def d rc using assms(3,8) by (auto simp: refcount_Some)
  have tg: "targets ?m x = (if x = a then targets m a @ [t] else targets m x)" for x
    using assms(2-4,9) by (auto simp: targets_def)
  have al: "a \<in> live m" using assms(2,7) by (auto simp: live_def refcount_Some)
  have fin: "finite (live m)" using ci(1) unfolding count_inv_def live_def by auto
  have rf: "refs ?m x = refs m x + of_bool (x = t)" for x
  proof -
    have "(\<Sum>y \<in> live m - {a}. count (mset (targets ?m y)) x) = (\<Sum>y \<in> live m - {a}. count (mset (targets m y)) x)"
      unfolding tg by (intro sum.cong) auto
    then show ?thesis
      unfolding refs_def l sum.remove [OF fin al] unfolding tg [of a] by simp
  qed
  have z: "a \<notin> set (cached m)" "t \<notin> set (cached m)" using idle_iff [OF ci(1) assms(2)] idle_iff [OF ci(1) assms(3)] assms(7,8) by simp_all
  have rct: "refcount m t = gb_refcount tb" using assms(3) by (rule refcount_Some)
  have "\<forall>x \<in> dom (gm_bos m). refcount ?m x = int (refs ?m x + count C x)"
    using ci(1) rct count_invD [OF ci(1) assms(3)] unfolding count_inv_def rc rf by auto
  moreover have "{x \<in> dom (gm_bos m). refcount ?m x = 0} = {x \<in> dom (gm_bos m). refcount m x = 0}"
    unfolding rc using rct assms(8) by auto
  moreover have "\<forall>x \<in> live m. set (targets ?m x) \<subseteq> dom (gm_bos m)" using ci(1) assms(3) unfolding count_inv_def tg by auto
  moreover have "cached ?m = cached m" by (simp add: cached_def)
  ultimately have "count_inv C A ?m" using ci(1) unfolding count_inv_def d l by simp
  moreover have "cache_inv ?m"
    using ci(2) z assms(2,3) by (intro cache_inv_with) (auto simp: cache_inv_def fits_cong [where m' = "with_bo m _ _"])
  moreover have "name_inv ?m" using ci(3) assms(2-4) by (intro name_inv_with [of _ t tb] name_inv_with [of _ a b]) simp_all
  moreover have "vma_inv ?m" using ci(6) assms(2-4) by (intro vma_inv_with [of _ t tb] vma_inv_with [of _ a b]) (simp_all add: bo_vmas_def)
  moreover have "vma_budget ?m" using ci(7) by (simp add: vma_budget_def)
  moreover have "ranked ?rank ?m"
  proof -
    have u: "fld gb_used_as_reloc_target (gm_bos ?m) = fld gb_used_as_reloc_target (gm_bos m)"
      using assms(2-4) by (auto simp: fld_def fun_eq_iff)
    have "\<not> fld gb_used_as_reloc_target (gm_bos m) a" using assms(2,5) by (simp add: fld_def)
    then have "a \<notin> set (targets m x)" if "x \<in> live m" for x using ci(5) that unfolding ranked_def by blast
    moreover have "fld gb_used_as_reloc_target (gm_bos m) t" using assms(3,6) by (simp add: fld_def)
    ultimately show ?thesis using ci(5) assms(4) unfolding ranked_def l u tg by (auto simp: less_max_iff_disj)
  qed
  ultimately show ?thesis using ci(4) by (simp add: gem_inv_def ref_inv_def)
qed

lemma add_reloc_self:
  assumes "gem_inv rank C A m" "gm_bos m bo = Some b" "0 < gb_refcount b"
    "add_reloc bo offset bo delta rd wd fence cmd m = Some m'"
  shows "gem_inv rank C A m'"
proof -
  let ?e = "\<lparr>rt_bo = bo, rt_flags = if cmd then DRM_INTEL_RELOC_FENCE else 0\<rparr>"
  obtain f rs where m': "m' = with_bo m bo (b\<lparr>gb_reloc_tree_fences := f, gb_relocs := rs,
      gb_reloc_target_info := gb_reloc_target_info b @ [?e]\<rparr>)"
    using assms(2,4) by (cases fence) (auto simp: add_reloc_def get_bo_def put_bo_def wr_def split: if_splits bind_splits)
  show ?thesis unfolding m' using assms(1-3) by (intro change_live [OF assms(1-3)]) (simp_all add: bo_vmas_def)
qed

lemma add_reloc_other:
  assumes g: "gem_inv rank C A m" and b: "gm_bos m bo = Some b" "0 < gb_refcount b"
    and t: "gm_bos m t = Some tb" "0 < gb_refcount tb" "t \<noteq> bo" and run: "add_reloc bo offset t delta rd wd fence cmd m = Some m'"
  shows "\<exists>rank'. gem_inv rank' C A m'"
proof -
  have u: "\<not> gb_used_as_reloc_target b" using run b by (auto simp: add_reloc_def get_bo_def split: if_splits)
  let ?T1 = "tb\<lparr>gb_used_as_reloc_target := True\<rparr>" and ?e = "\<lparr>rt_bo = t, rt_flags = if cmd then DRM_INTEL_RELOC_FENCE else 0\<rparr>"
  let ?T2 = "if fence then ?T1\<lparr>gb_reloc_tree_fences := 1\<rparr> else ?T1"
  let ?M1 = "with_bo m t ?T1"
  obtain sz f rs where m': "m' = with_bo (with_bo (with_bo (with_bo m t ?T2) bo (b\<lparr>gb_reloc_tree_size := sz\<rparr>))
      bo (b\<lparr>gb_reloc_tree_size := sz, gb_reloc_tree_fences := f, gb_relocs := rs, gb_reloc_target_info := gb_reloc_target_info b @ [?e]\<rparr>))
      t (?T2\<lparr>gb_refcount := gb_refcount tb + 1\<rparr>)"
    using run b t unfolding add_reloc_def drm_intel_gem_bo_reference_def
    by (cases fence) (auto simp: get_bo_def put_bo_def wr_def fun_upd_twist split: if_splits bind_splits)
  have g1: "gem_inv rank C A (with_bo m t ?T2)" 
    using g t by (intro change_live [of _ _ _ m t tb]) (simp_all add: bo_vmas_def split: if_splits)
  let ?b = "b\<lparr>gb_reloc_tree_size := sz, gb_reloc_tree_fences := f, gb_relocs := rs\<rparr>"
  let ?m = "with_bo (with_bo m t ?T2) bo ?b"
  have g2: "gem_inv rank C A ?m"
    using g1 b t(3) by (intro change_live [of _ _ _ "with_bo m t ?T2" bo b]) (simp_all add: bo_vmas_def)
  have "gem_inv (rank(bo := max (rank bo) (Suc (rank t)))) C A
      (with_bo (with_bo ?m bo (?b\<lparr>gb_reloc_target_info := gb_reloc_target_info ?b @ [?e]\<rparr>)) t (?T2\<lparr>gb_refcount := gb_refcount ?T2 + 1\<rparr>))"
    using u b t by (intro link_target [OF g2]) simp_all
  moreover have "with_bo (with_bo ?m bo (?b\<lparr>gb_reloc_target_info := gb_reloc_target_info ?b @ [?e]\<rparr>)) t
      (?T2\<lparr>gb_refcount := gb_refcount ?T2 + 1\<rparr>) = m'"
    unfolding m' by simp
  ultimately show ?thesis by auto
qed

lemma emit_reloc_ok:
  assumes "gem_inv rank C A m" "bo \<in># C" "t \<in># C" "do_bo_emit_reloc env bo offset t delta rd wd fence m = Some (r, m')"
  shows "\<exists>rank'. gem_inv rank' C A m'"
proof -
  obtain b where b: "gm_bos m bo = Some b" "0 < gb_refcount b" using held(1) [OF assms(1,2)] by blast
  obtain tb where t: "gm_bos m t = Some tb" "0 < gb_refcount tb" using held(1) [OF assms(1,3)] by blast
  have err: "gem_inv rank C A (with_bo m bo (b\<lparr>gb_has_error := True\<rparr>))"
    using assms(1) b by (intro gem_inv_store [of _ _ _ m bo b]) (simp_all add: bo_vmas_def)
  have add: "\<exists>rank'. gem_inv rank' C A m'"
    if g1: "gem_inv rank C A m1" and a: "add_reloc bo offset t delta rd wd n c m1 = Some m'" for m1 n c
  proof -
    obtain b1 where b1: "gm_bos m1 bo = Some b1" "0 < gb_refcount b1" using held(1) [OF g1 assms(2)] by blast
    obtain t1 where t1: "gm_bos m1 t = Some t1" "0 < gb_refcount t1" using held(1) [OF g1 assms(3)] by blast
    show ?thesis using add_reloc_self [OF g1 b1] add_reloc_other [OF g1 b1 t1] a by (cases "t = bo") blast+
  qed
  have prep: "\<exists>ok m1. drm_intel_setup_reloc_list env bo m = Some (ok, m1) \<and> gem_inv rank C A m1"
  proof -
    have "gem_inv rank C A (with_bo (tick (tick m)) bo b')"
      if "core False b' = core False b" "gb_vma_list b' = gb_vma_list b" "bo_vmas b' = bo_vmas b" for b'
      using assms(1) b(1) that by (intro gem_inv_store [of _ _ _ "tick (tick m)" bo b]) simp_all
    then show ?thesis using b(1) by (auto simp: drm_intel_setup_reloc_list_def get_bo_def put_bo_def wr_def Let_def bo_vmas_def)
  qed
  show ?thesis
  proof (cases "gb_has_error b \<or> gb_has_error tb")
    case True
    then show ?thesis using assms(1,4) b(1) t(1) err
      by (auto simp: do_bo_emit_reloc_def get_bo_def put_bo_def wr_def split: if_splits)
  next
    case False
    obtain ok m1 where s: "(if gb_relocs b = None then drm_intel_setup_reloc_list env bo m else Some (True, m)) = Some (ok, m1)"
      "gem_inv rank C A m1" using prep assms(1) by (cases "gb_relocs b = None") auto
    show ?thesis using assms(4) b(1) t(1) False s add [OF s(2)]
      by (auto simp: do_bo_emit_reloc_def get_bo_def Let_def split: if_splits bind_splits)
  qed
qed

section \<open>Names\<close>

lemma name_live:
  assumes "gem_inv rank C A m" "gm_bos m a = Some b" "0 < gb_refcount b"
  shows "\<exists>m'. name_list_add (with_bo m a (b\<lparr>gb_global_name := n, gb_reusable := False\<rparr>)) a = Some m' \<and> gem_inv rank C A m'"
proof -
  let ?named = "if gb_name_list b = LSelf then gm_named m @ [a] else gm_named m"
  let ?b = "b\<lparr>gb_global_name := n, gb_reusable := False, gb_name_list := LIn\<rparr>"
  let ?m = "m\<lparr>gm_named := ?named, gm_bos := (gm_bos m)(a \<mapsto> ?b)\<rparr>"
  have ci: "count_inv C A m" "cache_inv m" "name_inv m" "distinct (gm_named m)" "ranked rank m" "vma_inv m" "vma_budget m"
    using assms(1) by (simp_all add: gem_inv_def ref_inv_def)
  have nl: "gb_name_list b = LIn \<longleftrightarrow> a \<in> set (gm_named m)" "gb_name_list b = LIn \<or> gb_name_list b = LSelf"
    using ci(3) assms(2) unfolding name_inv_def by blast+
  have "name_list_add (with_bo m a (b\<lparr>gb_global_name := n, gb_reusable := False\<rparr>)) a = Some ?m"
  proof (cases "gb_name_list b = LSelf")
    case True
    then show ?thesis by (simp add: name_list_add_def get_bo_def put_bo_def wr_def)
  next
    case False
    then have "?b = b\<lparr>gb_global_name := n, gb_reusable := False\<rparr>" using nl(2) by (cases b) simp
    then show ?thesis using False by (simp add: name_list_add_def get_bo_def)
  qed
  moreover have "gem_inv rank C A ?m"
  proof -
    have t: "targets ?m = targets m" using assms(2) by (auto simp: targets_def fun_eq_iff)
    have d: "dom (gm_bos ?m) = dom (gm_bos m)" using assms(2) by auto
    have rc: "refcount ?m = refcount m" using assms(2) by (auto simp: fld_def fun_eq_iff)
    have u: "fld gb_used_as_reloc_target (gm_bos ?m) = fld gb_used_as_reloc_target (gm_bos m)"
      using assms(2) by (auto simp: fld_def fun_eq_iff)
    have l: "live ?m = live m" unfolding live_def d rc ..
    have z: "a \<notin> set (cached m)" "cached ?m = cached m" using idle_iff [OF ci(1) assms(2)] assms(3) by (simp_all add: cached_def)
    have rf: "refs ?m = refs m" unfolding refs_def l t ..
    have cn: "count_inv C A ?m" using ci(1) unfolding count_inv_def d l t rc rf z(2) .
    have "cache_inv (with_bo m a ?b)" using ci(2) z by (intro cache_inv_with) simp_all
    moreover have "fits ?m = fits (with_bo m a ?b)" by (rule fits_cong) simp
    ultimately have "cache_inv ?m" unfolding cache_inv_def by simp
    moreover have ns: "a \<notin> set (gm_named m)" if "gb_name_list b = LSelf" using nl(1) that by simp
    then have "distinct (gm_named ?m)" using ci(4) by simp
    moreover have "a \<in> set (gm_named m)" if "gb_name_list b \<noteq> LSelf" using nl that by simp
    then have "name_inv ?m" using ci(3) assms(2) ns unfolding name_inv_def by auto
    moreover have "vma_inv (with_bo m a ?b)" using ci(6) assms(2) by (intro vma_inv_with [of m a b]) (simp_all add: bo_vmas_def)
    then have "vma_inv ?m" by (simp add: vma_inv_def vmas_on_def mapped_def)
    moreover have "vma_budget ?m" using ci(7) by (simp add: vma_budget_def)
    moreover have "ranked rank ?m" using ci(5) unfolding ranked_def l t u .
    ultimately show ?thesis using cn by (simp add: gem_inv_def ref_inv_def)
  qed
  ultimately show ?thesis by blast
qed

lemma flink_ok:
  assumes "gem_inv rank C A m" "a \<in># C"
  shows "\<exists>r n m'. drm_intel_gem_bo_flink env a m = Some (r, n, m') \<and> gem_inv rank C A m'"
proof -
  obtain b where b: "gm_bos m a = Some b" "0 < gb_refcount b" using held(1) [OF assms] by blast
  have g: "gem_inv rank C A (tick m)" using assms(1) by simp
  obtain r n where k: "k_flink env (gm_clock m) (gb_gem_handle b) = (r, n)" by fastforce
  show ?thesis using name_live [OF g, of a b n] b k assms(1)
    by (auto simp: drm_intel_gem_bo_flink_def get_bo_def put_bo_def wr_def Let_def)
qed

lemma disable_reuse_ok:
  assumes "gem_inv rank C A m" "a \<in># C"
  shows "\<exists>m'. drm_intel_gem_bo_disable_reuse a m = Some m' \<and> gem_inv rank C A m'"
proof -
  obtain b where b: "gm_bos m a = Some b" "0 < gb_refcount b" using held(1) [OF assms] by blast
  have "gem_inv rank C A (with_bo m a (b\<lparr>gb_reusable := False\<rparr>))"
    using b by (intro change_live [OF assms(1) b]) (simp_all add: bo_vmas_def)
  then show ?thesis using b by (simp add: drm_intel_gem_bo_disable_reuse_def put_bo_def wr_def)
qed

lemma vma_op_ok:
  assumes "gem_inv rank C A m" "vma_op_bos op \<subseteq> set_mset C"
  shows "\<exists>r m'. vma_run env op m = Some (r, m') \<and> gem_inv rank C A m'"
proof -
  have "set_mset C \<subseteq> dom (gm_bos m)" using assms(1) by (simp add: gem_inv_def ref_inv_def count_inv_def)
  then have "vma_op_bos op \<subseteq> dom (gm_bos m)" using assms(2) by blast
  then obtain r m' where m': "vma_run env op m = Some (r, m')" "vma_inv m'" "vma_budget m'" "keeps (vma_op_bos op) m m'"
    using vma_run_ok [of m op env] assms(1) by (auto simp: gem_inv_def vma_safe_def)
  have "vma_op_bos op \<inter> set (cached m) = {}" using held(2) [OF assms(1)] assms(2) by blast
  then show ?thesis using m' gem_inv_keeps [OF m'(4) assms(1)] by blast
qed

section \<open>The client\<close>

text \<open>The operations, on the references held and the state of the manager.\<close>

datatype client_op = Alloc bool u64 | Reference addr | Unreference int addr
  | Emit_reloc addr u32 addr u32 u32 u32 | Flink addr | Disable_reuse addr | Access vma_op

fun client_run :: "gem_env \<Rightarrow> u32 \<Rightarrow> client_op \<Rightarrow> addr multiset \<times> drm_intel_bufmgr_gem \<Rightarrow>
    (addr multiset \<times> drm_intel_bufmgr_gem) option" where
  "client_run env page_size (Alloc for_render sz) (C, m) = do {
     (bo, m) \<leftarrow> (if for_render then drm_intel_gem_bo_alloc_for_render env page_size sz m
                 else drm_intel_gem_bo_alloc env page_size sz m);
     Some (case bo of None \<Rightarrow> C | Some a \<Rightarrow> add_mset a C, m)
   }"
| "client_run env page_size (Reference a) (C, m) = map_option (Pair (add_mset a C)) (drm_intel_gem_bo_reference m a)"
| "client_run env page_size (Unreference time a) (C, m) =
     map_option (Pair (C - {#a#})) (drm_intel_gem_bo_unreference env time a m)"
| "client_run env page_size (Emit_reloc bo offset t delta rd wd) (C, m) =
     map_option (\<lambda>(r, m). (C, m)) (drm_intel_gem_bo_emit_reloc env bo offset t delta rd wd m)"
| "client_run env page_size (Flink a) (C, m) = map_option (\<lambda>(r, n, m). (C, m)) (drm_intel_gem_bo_flink env a m)"
| "client_run env page_size (Disable_reuse a) (C, m) = map_option (Pair C) (drm_intel_gem_bo_disable_reuse a m)"
| "client_run env page_size (Access op) (C, m) = map_option (\<lambda>(r, m). (C, m)) (vma_run env op m)"

text \<open>A client uses what it holds, and has a stack for as many calls as there are buffers.\<close>

fun client_may :: "gem_env \<Rightarrow> client_op \<Rightarrow> addr multiset \<times> drm_intel_bufmgr_gem \<Rightarrow> bool" where
  "client_may env (Alloc for_render sz) (C, m) \<longleftrightarrow> True"
| "client_may env (Reference a) (C, m) \<longleftrightarrow> a \<in># C"
| "client_may env (Unreference time a) (C, m) \<longleftrightarrow> a \<in># C \<and> card (dom (gm_bos m)) \<le> k_stack env"
| "client_may env (Emit_reloc bo offset t delta rd wd) (C, m) \<longleftrightarrow> bo \<in># C \<and> t \<in># C"
| "client_may env (Flink a) (C, m) \<longleftrightarrow> a \<in># C"
| "client_may env (Disable_reuse a) (C, m) \<longleftrightarrow> a \<in># C"
| "client_may env (Access op) (C, m) \<longleftrightarrow> vma_op_bos op \<subseteq> set_mset C"

inductive client :: "gem_env \<Rightarrow> u32 \<Rightarrow> addr multiset \<times> drm_intel_bufmgr_gem \<Rightarrow>
    addr multiset \<times> drm_intel_bufmgr_gem \<Rightarrow> bool" for env page_size where
  start: "client env page_size s s"
| step: "client env page_size s s1 \<Longrightarrow> client_may env op s1 \<Longrightarrow> client_run env page_size op s1 = Some s2 \<Longrightarrow>
    client env page_size s s2"

text \<open>No operation but the one with assertions is refused, and all of them keep the invariant.\<close>

lemma alloc_step:
  assumes "gem_inv rank C {} m" "kernel_ok env"
  shows "\<exists>C' m'. client_run env page_size (Alloc for_render sz) (C, m) = Some (C', m') \<and> gem_inv rank C' {} m'"
proof -
  have "allocated rank C sz (if for_render then drm_intel_gem_bo_alloc_for_render env page_size sz m
      else drm_intel_gem_bo_alloc env page_size sz m)"
    unfolding drm_intel_gem_bo_alloc_for_render_def drm_intel_gem_bo_alloc_def using alloc_ok [OF assms] by simp
  then show ?thesis unfolding allocated_def by (auto split: option.splits)
qed

lemma client_run_ok:
  assumes "gem_inv rank C {} m" "kernel_ok env" "client_may env op (C, m)"
  shows "\<forall>C' m'. client_run env page_size op (C, m) = Some (C', m') \<longrightarrow> (\<exists>rank. gem_inv rank C' {} m')"
    "(\<forall>bo offset t delta rd wd. op \<noteq> Emit_reloc bo offset t delta rd wd) \<Longrightarrow> client_run env page_size op (C, m) \<noteq> None"
proof -
  have "(\<exists>C' m' rank. client_run env page_size op (C, m) = Some (C', m') \<and> gem_inv rank C' {} m') \<or>
    (\<exists>bo offset t delta rd wd. op = Emit_reloc bo offset t delta rd wd) \<and>
    (\<forall>C' m'. client_run env page_size op (C, m) = Some (C', m') \<longrightarrow> (\<exists>rank. gem_inv rank C' {} m'))"
  proof (cases op)
    case (Alloc for_render sz)
    show ?thesis unfolding Alloc using alloc_step [OF assms(1,2), of page_size for_render sz] by blast
  next
    case (Reference a)
    then show ?thesis using reference_ok [OF assms(1), of a] assms(3) by auto
  next
    case (Unreference time a)
    then show ?thesis using unreference_ok [OF assms(1), of a env time] assms(3) by auto
  next
    case (Emit_reloc bo offset t delta rd wd)
    then show ?thesis using emit_reloc_ok [OF assms(1), of bo t] assms(3) by (auto simp: drm_intel_gem_bo_emit_reloc_def)
  next
    case (Flink a)
    then show ?thesis using flink_ok [OF assms(1), of a env] assms(3) by auto
  next
    case (Disable_reuse a)
    then show ?thesis using disable_reuse_ok [OF assms(1), of a] assms(3) by auto
  next
    case (Access op)
    then show ?thesis using vma_op_ok [OF assms(1), of op env] assms(3) by auto
  qed
  then show "\<forall>C' m'. client_run env page_size op (C, m) = Some (C', m') \<longrightarrow> (\<exists>rank. gem_inv rank C' {} m')"
    "(\<forall>bo offset t delta rd wd. op \<noteq> Emit_reloc bo offset t delta rd wd) \<Longrightarrow> client_run env page_size op (C, m) \<noteq> None"
    by auto
qed

lemma client_inv:
  assumes "client env page_size s0 s" "kernel_ok env" "\<exists>rank. gem_inv rank (fst s0) {} (snd s0)"
  shows "\<exists>rank. gem_inv rank (fst s) {} (snd s)"
  using assms
proof induction
  case (step s s1 op s2)
  obtain rank where "gem_inv rank (fst s1) {} (snd s1)" using step.IH step.prems by blast
  then show ?case using client_run_ok(1) [of rank "fst s1" "snd s1" env op page_size] step.hyps step.prems(1)
    by (cases s2) simp
qed

lemma new_gem_inv:
  assumes "gem_create q batch_size = Some (Some m)"
  shows "gem_inv rank {#} {} m"
proof -
  note c = gem_create_Some [OF assms]
  have l: "live m = {}" using c(1) by (simp add: live_def)
  have bk: "bk_head k = []" if "k \<in> set (gm_cache_bucket m)" for k using that c(11) by (auto simp: bucket_of_def)
  then have e: "cached m = []" by (simp add: cached_def)
  have "count_inv {#} {} m" unfolding count_inv_def l e by (simp add: c(1))
  moreover have "cache_inv m" unfolding cache_inv_def using bk c(1) by simp
  moreover have "name_inv m" "vma_inv m" "vma_budget m" using c
    by (simp_all add: name_inv_def vma_inv_def vma_budget_def vmas_on_def mapped_def)
  ultimately show ?thesis using c(9) l by (simp add: gem_inv_def ref_inv_def ranked_def)
qed

section \<open>Destruction\<close>

lemma drain_bucket_ok:
  assumes "gem_inv rank C A m" "i < length (gm_cache_bucket m)"
  shows "\<exists>m'. drain_bucket i m = Some m' \<and> gem_inv rank C A m' \<and> gm_cache_bucket m' = gm_cache_bucket (set_bucket m i [])"
  using assms
proof (induction "length (bucket_head m i)" arbitrary: m)
  case 0
  then have "gm_cache_bucket (set_bucket m i []) = gm_cache_bucket m"
    by (simp add: set_bucket_def bucket_head_def list_update_same_conv)
  then show ?case using 0 by (subst drain_bucket.simps) simp
next
  case (Suc n)
  obtain a rest where h: "bucket_head m i = a # rest" using Suc.hyps(2) by (cases "bucket_head m i") simp_all
  note t = take_free [OF Suc.prems, of "[]" a rest, simplified, OF h]
  let ?m = "set_bucket m i rest"
  obtain m1 where m1: "drm_intel_gem_bo_free ?m a = Some m1" "gem_inv rank C A m1" "gm_cache_bucket m1 = gm_cache_bucket ?m"
    using free_spare [of rank C a A ?m] t(1-3) by auto
  have "n = length (bucket_head m1 i)" "i < length (gm_cache_bucket m1)"
    using m1(3) t(4) Suc.hyps(2) Suc.prems(2) h by (simp_all add: bucket_head_def set_bucket_def)
  from Suc.hyps(1) [OF this(1) m1(2) this(2)] show ?case
    using h m1(1,3) Suc.prems(2) by (subst drain_bucket.simps) (auto simp: set_bucket_def)
qed

lemma drain_all:
  assumes "gem_inv rank C A m" "list_all (\<lambda>i. i < length (gm_cache_bucket m)) ks"
  shows "\<exists>m'. fold_o drain_bucket ks m = Some m' \<and> gem_inv rank C A m' \<and> length (gm_cache_bucket m') = length (gm_cache_bucket m) \<and>
    (\<forall>i < length (gm_cache_bucket m). i \<in> set ks \<or> bucket_head m i = [] \<longrightarrow> bucket_head m' i = [])"
  using assms
proof (induction ks arbitrary: m)
  case (Cons k ks)
  then obtain m1 where m1: "drain_bucket k m = Some m1" "gem_inv rank C A m1"
    "gm_cache_bucket m1 = gm_cache_bucket (set_bucket m k [])" using drain_bucket_ok [of rank C A m k] by auto
  have l: "length (gm_cache_bucket m1) = length (gm_cache_bucket m)" using m1(3) by (simp add: set_bucket_def)
  have h: "bucket_head m1 i = (if i = k then [] else bucket_head m i)" if "i < length (gm_cache_bucket m)" for i
    using m1(3) that by (simp add: set_bucket_def bucket_head_def)
  obtain m2 where m2: "fold_o drain_bucket ks m1 = Some m2" "gem_inv rank C A m2" "length (gm_cache_bucket m2) = length (gm_cache_bucket m1)"
    "\<forall>i < length (gm_cache_bucket m1). i \<in> set ks \<or> bucket_head m1 i = [] \<longrightarrow> bucket_head m2 i = []"
    using Cons.IH [OF m1(2)] Cons.prems(2) l by auto
  have "\<forall>i < length (gm_cache_bucket m). i \<in> set (k # ks) \<or> bucket_head m i = [] \<longrightarrow> bucket_head m2 i = []"
    using m2(4) h l by auto
  then show ?case using m1(1) m2 l by simp
qed simp

lemma destroy_ok:
  assumes "gem_inv rank C {} m"
  shows "\<exists>m'. drm_intel_bufmgr_gem_destroy m = Some m' \<and> gem_inv rank C {} m' \<and> cached m' = []"
proof -
  obtain m' where m': "fold_o drain_bucket [0..<length (gm_cache_bucket m)] m = Some m'" "gem_inv rank C {} m'"
    "length (gm_cache_bucket m') = length (gm_cache_bucket m)" "\<forall>i < length (gm_cache_bucket m). bucket_head m' i = []"
    using drain_all [OF assms, of "[0..<length (gm_cache_bucket m)]"] by (auto simp: list_all_iff)
  have "bk_head k = []" if "k \<in> set (gm_cache_bucket m')" for k
    using that m'(3,4) by (auto simp: in_set_conv_nth bucket_head_def)
  then have "cached m' = []" by (simp add: cached_def)
  then show ?thesis using m'(1,2) by (simp add: drm_intel_bufmgr_gem_destroy_def)
qed

lemma all_released:
  assumes "gem_inv rank {#} {} m"
  shows "live m = {}"
proof (rule ccontr)
  assume ne: "live m \<noteq> {}"
  have ci: "count_inv {#} {} m" "ranked rank m" using assms by (simp_all add: gem_inv_def ref_inv_def)
  have fin: "finite (live m)" using ci(1) unfolding count_inv_def live_def by auto
  obtain a where a: "a \<in> live m" "\<forall>x \<in> live m. rank x \<le> rank a"
  proof -
    have "Max (rank ` live m) \<in> rank ` live m" using fin ne by simp
    then obtain a where "a \<in> live m" "rank a = Max (rank ` live m)" by auto
    then show ?thesis using that fin by simp
  qed
  have "a \<notin> set (targets m x)" if "x \<in> live m" for x using ci(2) a(2) that unfolding ranked_def by fastforce
  then have "refs m a = 0" unfolding refs_def by (intro sum.neutral) (simp add: count_mset_0_iff)
  moreover obtain b where b: "gm_bos m a = Some b" "0 < gb_refcount b" using a(1) by (auto simp: live_def refcount_Some)
  ultimately show False using count_invD [OF ci(1) b(1)] by simp
qed

section \<open>What holds of a client\<close>





section \<open>A client at work\<close>

lemma sample_kernel_ok: "kernel_ok sample_kernel"
  unfolding kernel_ok_def by (auto simp: sample_kernel_def fresh_alloc_def EINTR_def EAGAIN_def)

text \<open>The first allocation of a client of the sample kernel.\<close>

lemma sample_alloc:
  assumes "gem_create sample_system 4096 = Some (Some m0)"
  shows "\<exists>a m. client_run sample_kernel 4096 (Alloc False sz) ({#}, m0) = Some ({#a#}, m) \<and> dom (gm_bos m) = {a}"
proof -
  note c = gem_create_Some [OF assms]
  let ?a = "8 * Suc (gm_clock m0)"
  have e: "bucket_head m0 i = []" if "drm_intel_gem_bo_bucket_for_size m0 sz = Some i" for i
    using bucket_for_size_Some [OF that] c(11) by (simp add: bucket_head_def bucket_of_def)
  have cache: "(case drm_intel_gem_bo_bucket_for_size m0 sz of None \<Rightarrow> Some (None, m0)
      | Some i \<Rightarrow> alloc_from_cache sample_kernel f t s i m0) = Some (None, m0)" for f t s
    using e by (auto simp: alloc_from_cache_step split: option.split)
  have z: "gb_global_name bo_zero = 0" "gb_tiling_mode bo_zero = I915_TILING_NONE" "gb_stride bo_zero = 0"
    by (simp_all add: bo_zero_def I915_TILING_NONE_def)
  have new: "\<exists>b. alloc_new sample_kernel bs I915_TILING_NONE 0 m0 = Some (Some ?a, with_bo (tick m0) ?a b) \<and>
      gb_tiling_mode b = I915_TILING_NONE" for bs
    using z by (intro exI [of _ "bo_zero\<lparr>gb_size := bs, gb_gem_handle := of_nat (Suc (gm_clock m0)), gb_tiling_mode := I915_TILING_NONE,
        gb_swizzle_mode := I915_BIT_6_SWIZZLE_NONE, gb_stride := 0, gb_name_list := LSelf, gb_vma_list := LSelf\<rparr>"])
      (simp add: alloc_new_def sample_kernel_def c(1) Let_def put_bo_def wr_def drm_intel_gem_bo_set_tiling_internal_def
        get_bo_def tick_def)
  let ?bs = "case drm_intel_gem_bo_bucket_for_size m0 sz of None \<Rightarrow> max sz (ucast (4096 :: u32))
    | Some i \<Rightarrow> bk_size (gm_cache_bucket m0 ! i)"
  obtain b where "alloc_new sample_kernel ?bs I915_TILING_NONE 0 m0 = Some (Some ?a, with_bo (tick m0) ?a b)"
    "gb_tiling_mode b = I915_TILING_NONE" using new by blast
  then have "\<exists>m. drm_intel_gem_bo_alloc sample_kernel 4096 sz m0 = Some (Some ?a, m) \<and> dom (gm_bos m) = {?a}"
    unfolding drm_intel_gem_bo_alloc_def drm_intel_gem_bo_alloc_internal_def Let_def
    using cache c(1) by (simp add: put_bo_def wr_def set_in_aperture_size_untiled)
  then show ?thesis by auto
qed

lemma sample_client:
  "\<exists>m0 a m. gem_create sample_system 4096 = Some (Some m0) \<and> client sample_kernel 4096 ({#}, m0) ({#a#}, m) \<and> dom (gm_bos m) = {a}"
proof -
  obtain m0 where m0: "gem_create sample_system 4096 = Some (Some m0)" using sample_system_create by blast
  obtain a m where "client_run sample_kernel 4096 (Alloc False 5000) ({#}, m0) = Some ({#a#}, m)" "dom (gm_bos m) = {a}"
    using sample_alloc [OF m0] by blast
  then show ?thesis using m0 client.step [OF client.start, of sample_kernel "Alloc False 5000" "({#}, m0)" 4096] by auto
qed





end
