(* ===== verification/Radeon_Types.thy ===== *)
theory Radeon_Types
  imports C_Prelude
begin

text \<open>
  The data of \<open>radeon/radeon_surface.h\<close> and \<open>radeon/radeon_surface.c\<close> and the helpers every
  family shares. All fields keep their width: \<open>uint32_t\<close> and \<open>unsigned\<close> are \<open>u32\<close>,
  \<open>uint64_t\<close> is \<open>u64\<close>, and arithmetic wraps as in C. A division by zero, an over-wide shift,
  a shift of the signed \<open>1\<close> into its sign bit and an access past the end of an array are the
  undefined value \<open>None\<close>; error codes are the integers the functions return.
\<close>

section \<open>Constants\<close>

definition RADEON_SURF_MAX_LEVEL :: nat where "RADEON_SURF_MAX_LEVEL = 32"

definition RADEON_SURF_TYPE_MASK :: u32 where "RADEON_SURF_TYPE_MASK = 0xFF"
definition RADEON_SURF_TYPE_1D :: u32 where "RADEON_SURF_TYPE_1D = 0"
definition RADEON_SURF_TYPE_2D :: u32 where "RADEON_SURF_TYPE_2D = 1"
definition RADEON_SURF_TYPE_3D :: u32 where "RADEON_SURF_TYPE_3D = 2"
definition RADEON_SURF_TYPE_CUBEMAP :: u32 where "RADEON_SURF_TYPE_CUBEMAP = 3"
definition RADEON_SURF_TYPE_1D_ARRAY :: u32 where "RADEON_SURF_TYPE_1D_ARRAY = 4"
definition RADEON_SURF_TYPE_2D_ARRAY :: u32 where "RADEON_SURF_TYPE_2D_ARRAY = 5"
definition RADEON_SURF_MODE_LINEAR :: u32 where "RADEON_SURF_MODE_LINEAR = 0"
definition RADEON_SURF_MODE_LINEAR_ALIGNED :: u32 where "RADEON_SURF_MODE_LINEAR_ALIGNED = 1"
definition RADEON_SURF_MODE_1D :: u32 where "RADEON_SURF_MODE_1D = 2"
definition RADEON_SURF_MODE_2D :: u32 where "RADEON_SURF_MODE_2D = 3"
definition RADEON_SURF_SCANOUT :: u32 where "RADEON_SURF_SCANOUT = 0x10000"
definition RADEON_SURF_ZBUFFER :: u32 where "RADEON_SURF_ZBUFFER = 0x20000"
definition RADEON_SURF_SBUFFER :: u32 where "RADEON_SURF_SBUFFER = 0x40000"
definition RADEON_SURF_Z_OR_SBUFFER :: u32 where
  "RADEON_SURF_Z_OR_SBUFFER = RADEON_SURF_ZBUFFER OR RADEON_SURF_SBUFFER"
definition RADEON_SURF_HAS_SBUFFER_MIPTREE :: u32 where "RADEON_SURF_HAS_SBUFFER_MIPTREE = 0x80000"
definition RADEON_SURF_HAS_TILE_MODE_INDEX :: u32 where "RADEON_SURF_HAS_TILE_MODE_INDEX = 0x100000"
definition RADEON_SURF_FMASK :: u32 where "RADEON_SURF_FMASK = 0x200000"

text \<open>The macros \<open>RADEON_SURF_GET\<close>, \<open>SET\<close> and \<open>CLR\<close> for the two fields they are used with.\<close>

definition RADEON_SURF_GET_TYPE :: "u32 \<Rightarrow> u32" where
  "RADEON_SURF_GET_TYPE v = v AND 0xFF"

definition RADEON_SURF_GET_MODE :: "u32 \<Rightarrow> u32" where
  "RADEON_SURF_GET_MODE v = drop_bit 8 v AND 0xFF"

definition RADEON_SURF_SET_MODE :: "u32 \<Rightarrow> u32" where
  "RADEON_SURF_SET_MODE v = push_bit 8 (v AND 0xFF)"

definition RADEON_SURF_CLR_MODE :: "u32 \<Rightarrow> u32" where
  "RADEON_SURF_CLR_MODE v = v AND NOT 0xFF00"

text \<open>\<open>surf->flags & mask\<close> as a condition.\<close>

definition flag :: "u32 \<Rightarrow> u32 \<Rightarrow> bool" where
  "flag flags msk \<longleftrightarrow> flags AND msk \<noteq> 0"


section \<open>Structures\<close>

record radeon_surface_level =
  sl_offset :: u64
  sl_slice_size :: u64
  sl_npix_x :: u32
  sl_npix_y :: u32
  sl_npix_z :: u32
  sl_nblk_x :: u32
  sl_nblk_y :: u32
  sl_nblk_z :: u32
  sl_pitch_bytes :: u32
  sl_mode :: u32

record radeon_surface =
  su_npix_x :: u32
  su_npix_y :: u32
  su_npix_z :: u32
  su_blk_w :: u32
  su_blk_h :: u32
  su_blk_d :: u32
  su_array_size :: u32
  su_last_level :: u32
  su_bpe :: u32
  su_nsamples :: u32
  su_flags :: u32
  su_bo_size :: u64
  su_bo_alignment :: u64
  su_bankw :: u32
  su_bankh :: u32
  su_mtilea :: u32
  su_tile_split :: u32
  su_stencil_tile_split :: u32
  su_stencil_offset :: u64
  su_level :: "radeon_surface_level list"
  su_stencil_level :: "radeon_surface_level list"
  su_tiling_index :: "u32 list"
  su_stencil_tiling_index :: "u32 list"

record radeon_hw_info =
  hw_group_bytes :: u32
  hw_num_banks :: u32
  hw_num_pipes :: u32
  hw_row_size :: u32
  hw_allow_2d :: u32
  hw_tile_mode_array :: "u32 list"
  hw_macrotile_mode_array :: "u32 list"

text \<open>An uninitialised local level (the array \<open>tmp\<close> of the miptree functions): every field is
  written before it is read.\<close>

definition level_uninit :: radeon_surface_level where
  "level_uninit = \<lparr>sl_offset = 0, sl_slice_size = 0, sl_npix_x = 0, sl_npix_y = 0, sl_npix_z = 0,
     sl_nblk_x = 0, sl_nblk_y = 0, sl_nblk_z = 0, sl_pitch_bytes = 0, sl_mode = 0\<rparr>"

text \<open>The arrays have \<open>RADEON_SURF_MAX_LEVEL\<close> elements.\<close>

definition surf_wf :: "radeon_surface \<Rightarrow> bool" where
  "surf_wf surf \<longleftrightarrow> length (su_level surf) = RADEON_SURF_MAX_LEVEL \<and>
     length (su_stencil_level surf) = RADEON_SURF_MAX_LEVEL \<and>
     length (su_tiling_index surf) = RADEON_SURF_MAX_LEVEL \<and>
     length (su_stencil_tiling_index surf) = RADEON_SURF_MAX_LEVEL"

section \<open>Helpers\<close>

definition shr :: "u32 \<Rightarrow> nat \<Rightarrow> u32 option" where
  "shr x n = (if n < 32 then Some (drop_bit n x) else None)"

text \<open>\<open>1 << n\<close> of the signed \<open>1\<close>.\<close>

definition one_shl :: "nat \<Rightarrow> u32 option" where
  "one_shl n = (if n < 31 then Some (2 ^ n) else None)"

text \<open>\<open>__builtin_clz\<close> of a non-zero \<open>unsigned\<close>: 32 minus the number of significant bits.\<close>

function bit_len :: "u32 \<Rightarrow> nat" where
  "bit_len x = (if x = 0 then 0 else Suc (bit_len (drop_bit 1 x)))"
  by auto
termination
  by (relation "measure unat") (auto simp: unat_drop_bit_less)

declare bit_len.simps [simp del]

definition builtin_clz :: "u32 \<Rightarrow> nat option" where
  "builtin_clz x = (if x = 0 then None else Some (32 - bit_len x))"

definition next_power_of_two :: "u32 \<Rightarrow> u32 option" where
  "next_power_of_two x =
    (if x \<le> 1 then Some 1
     else do { c \<leftarrow> builtin_clz (x - 1); one_shl (32 - c) })"

definition mip_minify :: "u32 \<Rightarrow> nat \<Rightarrow> u32 option" where
  "mip_minify sz level = do {
     v \<leftarrow> shr sz level;
     let val = max 1 v;
     if level > 0 then next_power_of_two val else Some val
   }"

text \<open>The first lines of every \<open>surf_minify\<close> variant: pixels and blocks of the level.\<close>

definition minify_dims :: "radeon_surface \<Rightarrow> radeon_surface_level \<Rightarrow> nat \<Rightarrow> radeon_surface_level option" where
  "minify_dims surf lv level = do {
     x \<leftarrow> mip_minify (su_npix_x surf) level;
     y \<leftarrow> mip_minify (su_npix_y surf) level;
     z \<leftarrow> mip_minify (su_npix_z surf) level;
     bx \<leftarrow> udiv (x + su_blk_w surf - 1) (su_blk_w surf);
     by \<leftarrow> udiv (y + su_blk_h surf - 1) (su_blk_h surf);
     bz \<leftarrow> udiv (z + su_blk_d surf - 1) (su_blk_d surf);
     Some (lv\<lparr>sl_npix_x := x, sl_npix_y := y, sl_npix_z := z,
              sl_nblk_x := bx, sl_nblk_y := by, sl_nblk_z := bz\<rparr>)
   }"

text \<open>The test that makes a 2D level too small for a macro tile fall back to 1D.\<close>

definition falls_back_1d :: "radeon_surface \<Rightarrow> radeon_surface_level \<Rightarrow> u32 \<Rightarrow> u32 \<Rightarrow> bool" where
  "falls_back_1d surf lv w h \<longleftrightarrow>
     su_nsamples surf = 1 \<and> sl_mode lv = RADEON_SURF_MODE_2D \<and> \<not> flag (su_flags surf) RADEON_SURF_FMASK \<and>
     (sl_nblk_x lv < w \<or> sl_nblk_y lv < h)"

text \<open>
  \<open>surf_minify\<close>. The parameter \<open>offset\<close> is an \<open>unsigned\<close>, so the caller's 64-bit offset is cut
  to 32 bits; \<open>pitch_bytes * nblk_y\<close> is a 32-bit product, widened when it is stored.
\<close>

definition surf_minify ::
  "radeon_surface \<Rightarrow> radeon_surface_level \<Rightarrow> u32 \<Rightarrow> nat \<Rightarrow> u32 \<Rightarrow> u32 \<Rightarrow> u32 \<Rightarrow> u32 \<Rightarrow>
   (radeon_surface \<times> radeon_surface_level) option" where
  "surf_minify surf lv bpe level xalign yalign zalign offset = do {
     lv \<leftarrow> minify_dims surf lv level;
     if falls_back_1d surf lv xalign yalign then Some (surf, lv\<lparr>sl_mode := RADEON_SURF_MODE_1D\<rparr>)
     else do {
       let bx = ALIGN (sl_nblk_x lv) xalign;
       let by = ALIGN (sl_nblk_y lv) yalign;
       let bz = ALIGN (sl_nblk_z lv) zalign;
       let pitch = bx * bpe * su_nsamples surf;
       let slice = (ucast (pitch * by) :: u64);
       let lv = lv\<lparr>sl_nblk_x := bx, sl_nblk_y := by, sl_nblk_z := bz, sl_offset := ucast offset,
                   sl_pitch_bytes := pitch, sl_slice_size := slice\<rparr>;
       Some (surf\<lparr>su_bo_size := ucast offset + slice * ucast bz * ucast (su_array_size surf)\<rparr>, lv)
     }
   }"

text \<open>
  The loop ``build mipmap tree'': \<open>body\<close> handles one level, \<open>Inl\<close> continues with the next and
  \<open>Inr\<close> is an early return from the loop.
\<close>

primrec mip_loop :: "(nat \<Rightarrow> 's \<Rightarrow> ('s + 'r) option) \<Rightarrow> ('s \<Rightarrow> 'r) \<Rightarrow> nat list \<Rightarrow> 's \<Rightarrow> 'r option" where
  "mip_loop body fin [] st = Some (fin st)"
| "mip_loop body fin (i # is) st = do {
     r \<leftarrow> body i st;
     case r of Inl st \<Rightarrow> mip_loop body fin is st | Inr res \<Rightarrow> Some res
   }"

definition level_range :: "radeon_surface \<Rightarrow> nat \<Rightarrow> nat list" where
  "level_range surf start = [start..<Suc (unat (su_last_level surf))]"

type_synonym mip_state = "radeon_surface \<times> radeon_surface_level list \<times> u64"
type_synonym mip_result = "int \<times> radeon_surface \<times> radeon_surface_level list"

definition mip_done :: "mip_state \<Rightarrow> mip_result" where
  "mip_done st = (case st of (surf, lvs, off) \<Rightarrow> (0, surf, lvs))"

text \<open>After a level: the next one starts where it ends, aligned behind level 0.\<close>

definition mip_next_offset :: "radeon_surface \<Rightarrow> nat \<Rightarrow> u64" where
  "mip_next_offset surf i =
    (if i = 0 then ALIGN (su_bo_size surf) (su_bo_alignment surf) else su_bo_size surf)"

text \<open>One level of the loops that cannot fall back, for a given \<open>minify\<close>.\<close>

definition mip_body ::
  "u32 \<Rightarrow> (radeon_surface \<Rightarrow> radeon_surface_level \<Rightarrow> nat \<Rightarrow> u64 \<Rightarrow> (radeon_surface \<times> radeon_surface_level) option) \<Rightarrow>
   nat \<Rightarrow> mip_state \<Rightarrow> (mip_state + mip_result) option" where
  "mip_body mode minify i st = (case st of (surf, lvs, off) \<Rightarrow> do {
     c_assert (i < length lvs);
     (surf, lv) \<leftarrow> minify surf ((lvs ! i)\<lparr>sl_mode := mode\<rparr>) i off;
     Some (Inl (surf, lvs[i := lv], mip_next_offset surf i))
   })"

text \<open>One level of the 2D loops: a level that came back as 1D is handed to \<open>fallback\<close> with the
  offset it would have had.\<close>

definition mip_body_2d ::
  "(radeon_surface \<Rightarrow> radeon_surface_level \<Rightarrow> nat \<Rightarrow> u64 \<Rightarrow> (radeon_surface \<times> radeon_surface_level) option) \<Rightarrow>
   (radeon_surface \<Rightarrow> radeon_surface_level list \<Rightarrow> u64 \<Rightarrow> nat \<Rightarrow> mip_result option) \<Rightarrow>
   nat \<Rightarrow> mip_state \<Rightarrow> (mip_state + mip_result) option" where
  "mip_body_2d minify fallback i st = (case st of (surf, lvs, off) \<Rightarrow> do {
     c_assert (i < length lvs);
     (surf, lv) \<leftarrow> minify surf ((lvs ! i)\<lparr>sl_mode := RADEON_SURF_MODE_2D\<rparr>) i off;
     let lvs = lvs[i := lv];
     if sl_mode lv = RADEON_SURF_MODE_1D then do {
       res \<leftarrow> fallback surf lvs off i;
       Some (Inr res)
     }
     else Some (Inl (surf, lvs, mip_next_offset surf i))
   })"

text \<open>
  \<open>ALIGN\<close> of a 64-bit value with an \<open>unsigned\<close> alignment: the complement of the mask is taken at
  32 bits and then widened, so the upper half of the result is cleared.
\<close>

definition ALIGN_u64_u32 :: "u64 \<Rightarrow> u32 \<Rightarrow> u64" where
  "ALIGN_u64_u32 v a = (v + ucast a - 1) AND ucast (NOT (a - 1))"

section \<open>Kernel queries\<close>

text \<open>
  What the kernel answers: the code of a \<open>DRM_RADEON_INFO\<close> request with the words it writes
  through the value pointer, and the minor version, if \<open>drmGetVersion\<close> returns one.
\<close>

record radeon_kernel =
  rk_info :: "u32 \<Rightarrow> int \<times> u32 list"
  rk_version_minor :: "int option"

definition RADEON_INFO_DEVICE_ID :: u32 where "RADEON_INFO_DEVICE_ID = 0x00"
definition RADEON_INFO_TILING_CONFIG :: u32 where "RADEON_INFO_TILING_CONFIG = 0x06"
definition RADEON_INFO_SI_TILE_MODE_ARRAY :: u32 where "RADEON_INFO_SI_TILE_MODE_ARRAY = 0x16"
definition RADEON_INFO_CIK_MACROTILE_MODE_ARRAY :: u32 where "RADEON_INFO_CIK_MACROTILE_MODE_ARRAY = 0x18"

definition radeon_get_value :: "radeon_kernel \<Rightarrow> u32 \<Rightarrow> u32 list \<Rightarrow> (int \<times> u32 list) option" where
  "radeon_get_value k req dst = do {
     c_assert (dst \<noteq> []);
     let dst = dst[0 := 0];
     let (r, ws) = rk_info k req;
     c_assert (length ws \<le> length dst);
     Some (r, ws @ drop (length ws) dst)
   }"

definition version_at_least :: "radeon_kernel \<Rightarrow> int \<Rightarrow> bool" where
  "version_at_least k n \<longleftrightarrow> (case rk_version_minor k of None \<Rightarrow> False | Some v \<Rightarrow> v \<ge> n)"

text \<open>The surface flags after \<open>RADEON_SURF_CLR\<close> and \<open>RADEON_SURF_SET\<close> of a mode.\<close>

definition set_mode :: "radeon_surface \<Rightarrow> u32 \<Rightarrow> radeon_surface" where
  "set_mode surf mode = surf\<lparr>su_flags := RADEON_SURF_CLR_MODE (su_flags surf) OR RADEON_SURF_SET_MODE mode\<rparr>"

text \<open>The common start of the families' \<open>surface_init\<close>: multi-sampled surfaces are 2D, depth and
  stencil surfaces are 1D or 2D.\<close>

definition init_mode :: "radeon_surface \<Rightarrow> u32 \<times> radeon_surface" where
  "init_mode surf =
    (let surf = (if su_nsamples surf > 1 then set_mode surf RADEON_SURF_MODE_2D else surf);
         mode = RADEON_SURF_GET_MODE (su_flags surf)
     in if flag (su_flags surf) RADEON_SURF_Z_OR_SBUFFER \<and>
           mode \<noteq> RADEON_SURF_MODE_1D \<and> mode \<noteq> RADEON_SURF_MODE_2D
        then (RADEON_SURF_MODE_1D, set_mode surf RADEON_SURF_MODE_1D)
        else (mode, surf))"

definition store_level :: "mip_result \<Rightarrow> int \<times> radeon_surface" where
  "store_level res = (case res of (r, surf, lvs) \<Rightarrow> (r, surf\<lparr>su_level := lvs\<rparr>))"

definition scanout_xalign :: "radeon_surface \<Rightarrow> u32 \<Rightarrow> u32 \<Rightarrow> u32" where
  "scanout_xalign surf bpe xalign =
    (if flag (su_flags surf) RADEON_SURF_SCANOUT then max (if bpe = 1 then 64 else 32) xalign else xalign)"

section \<open>Powers of two\<close>

lemma bit_len_0 [simp]: "bit_len 0 = 0"
  by (simp add: bit_len.simps)

lemma unat_half: "unat (drop_bit 1 x) = unat x div 2" for x :: "'a::len word"
  using drop_bit_eq_div [of 1 "unat x"] by (simp only: unat_drop_bit_eq power_one_right)

lemma bit_len_bounds:
  "x \<noteq> 0 \<Longrightarrow> 0 < bit_len x \<and> 2 ^ (bit_len x - 1) \<le> unat x \<and> unat x < 2 ^ bit_len x"
proof (induction x rule: bit_len.induct)
  case (1 x)
  let ?y = "drop_bit 1 x"
  have l: "bit_len x = Suc (bit_len ?y)" using 1(2) by (simp add: bit_len.simps [of x])
  show ?case
  proof (cases "?y = 0")
    case True
    then have "unat x div 2 = 0" by (metis unat_half unat_0)
    moreover have "0 < unat x" using 1(2) by (simp add: unat_gt_0)
    ultimately show ?thesis unfolding l True by simp
  next
    case False
    then have y: "0 < bit_len ?y" "2 ^ (bit_len ?y - 1) \<le> unat x div 2" "unat x div 2 < 2 ^ bit_len ?y"
      using 1(1) [OF 1(2)] unat_half [of x] by simp_all
    from y(1) obtain b where b: "bit_len ?y = Suc b" using gr0_implies_Suc by blast
    have "2 ^ b \<le> unat x div 2" "unat x div 2 < 2 * 2 ^ b" using y(2,3) unfolding b by simp_all
    then have "2 * 2 ^ b \<le> unat x" "unat x < 4 * 2 ^ b" by linarith+
    then show ?thesis unfolding l b by simp
  qed
qed

lemma bit_len_le: "bit_len x \<le> 32"
proof (cases "x = 0")
  case False
  then have "(2 :: nat) ^ (bit_len x - 1) < 2 ^ 32"
    using bit_len_bounds [of x] unsigned_less [of x, where 'a = nat] by simp
  then have "bit_len x - 1 < 32" by (rule power_less_imp_less_exp [rotated]) simp
  then show ?thesis by simp
qed simp

text \<open>The value of \<open>next_power_of_two\<close>: the number of significant bits of \<open>x - 1\<close> as the exponent.\<close>

lemma next_power_of_two_eq:
  "next_power_of_two x = (if x \<le> 1 then Some 1 else one_shl (bit_len (x - 1)))"
proof (cases "x \<le> 1")
  case False
  then have "x - 1 \<noteq> 0" by auto
  then show ?thesis using False bit_len_le [of "x - 1"]
    by (simp add: next_power_of_two_def builtin_clz_def)
qed (simp add: next_power_of_two_def)

lemma unat_pred: "1 < x \<Longrightarrow> unat (x - 1) = unat x - 1" for x :: u32
  by (metis unat_minus_one word_not_simps(1) less_trans word_less_1 zero_neq_one less_irrefl)

lemma unat_pow2: "n < 32 \<Longrightarrow> unat (2 ^ n :: u32) = 2 ^ n"
proof -
  assume "n < 32"
  then have "(2 :: nat) ^ n < 2 ^ 32" by (rule power_strict_increasing) simp
  then have "unat (of_nat (2 ^ n) :: u32) = 2 ^ n" by (intro unat_of_nat_small) simp
  then show ?thesis by (simp only: of_nat_power of_nat_numeral)
qed

lemma next_power_of_two_Some:
  assumes "1 < x" "unat x \<le> 2 ^ 30"
  obtains n where "n \<le> 30" "0 < n" "next_power_of_two x = Some (2 ^ n)"
    "2 ^ (n - 1) < unat x" "unat x \<le> 2 ^ n"
proof -
  let ?n = "bit_len (x - 1)"
  have "x - 1 \<noteq> 0" using assms(1) by auto
  then have b: "0 < ?n" "2 ^ (?n - 1) \<le> unat x - 1" "unat x - 1 < 2 ^ ?n"
    using bit_len_bounds [of "x - 1"] unat_pred [OF assms(1)] by simp_all
  have one: "1 < unat x" using assms(1) by (simp add: word_less_nat_alt)
  have "(2 :: nat) ^ (?n - 1) < 2 ^ 30" using b(2) assms(2) one by linarith
  then have n: "?n \<le> 30" using power_less_imp_less_exp [of "2 :: nat" "?n - 1" 30] by simp
  show thesis
  proof (rule that)
    show "next_power_of_two x = Some (2 ^ ?n)"
      using assms(1) n by (simp add: next_power_of_two_eq one_shl_def flip: linorder_not_less)
    show "2 ^ (?n - 1) < unat x" "unat x \<le> 2 ^ ?n" using b one by linarith+
  qed (use b n in simp_all)
qed

text \<open>\<open>next_power_of_two\<close> returns the least power of two that is at least its argument, for every
  argument up to \<open>2^30\<close>; for greater ones it shifts into or past the sign bit and is undefined.\<close>

theorem next_power_of_two_least:
  "if unat x \<le> 2 ^ 30
   then \<exists>n. next_power_of_two x = Some (2 ^ n) \<and> n \<le> 30 \<and> unat x \<le> 2 ^ n \<and>
            Least (\<lambda>m. unat x \<le> 2 ^ m) = n
   else next_power_of_two x = None"
proof (cases "unat x \<le> 2 ^ 30")
  case True
  show ?thesis
  proof (cases "x \<le> 1")
    case True
    then have "unat x \<le> 2 ^ 0" by (simp add: word_le_nat_alt)
    then have "Least (\<lambda>m. unat x \<le> 2 ^ m) = 0" by (intro Least_equality) simp_all
    then show ?thesis using True \<open>unat x \<le> 2 ^ 0\<close> \<open>unat x \<le> 2 ^ 30\<close>
      by (simp add: next_power_of_two_def exI [of _ 0])
  next
    case False
    then have "1 < x" by simp
    with True obtain n where n: "n \<le> 30" "0 < n" "next_power_of_two x = Some (2 ^ n)"
      "2 ^ (n - 1) < unat x" "unat x \<le> 2 ^ n" by (elim next_power_of_two_Some)
    have "Least (\<lambda>m. unat x \<le> 2 ^ m) = n"
    proof (rule Least_equality)
      fix m assume "unat x \<le> 2 ^ m"
      then have "(2 :: nat) ^ (n - 1) < 2 ^ m" using n(4) by linarith
      then show "n \<le> m" using power_less_imp_less_exp [of "2 :: nat" "n - 1" m] n(2) by simp
    qed (rule n)
    then show ?thesis using n True by auto
  qed
next
  case False
  then have x: "1 < x" by (simp add: word_less_nat_alt)
  then have "x - 1 \<noteq> 0" by auto
  then have "unat x - 1 < 2 ^ bit_len (x - 1)"
    using bit_len_bounds [of "x - 1"] unat_pred [OF x] by simp
  then have "(2 :: nat) ^ 30 < 2 ^ bit_len (x - 1)" using False by linarith
  then have "30 < bit_len (x - 1)" by (rule power_less_imp_less_exp [rotated]) simp
  then show ?thesis using False x
    by (simp add: next_power_of_two_eq one_shl_def flip: linorder_not_less)
qed

end
