(* ===== verification/Radeon_Layout.thy ===== *)
theory Radeon_Layout
  imports Radeon_Types C_Arith
begin

text \<open>
  Mipmap trees in unbounded arithmetic, and the conditions under which the machine arithmetic of
  \<open>radeon/radeon_surface.c\<close> computes exactly that: the reference dimensions of a level, the
  reference placement of the levels, and the interface between the loops that build a tree and the
  functions that lay out one level.
\<close>

section \<open>Reference dimensions\<close>

function npot :: "nat \<Rightarrow> nat" where
  "npot n = (if n \<le> 1 then 1 else 2 * npot ((n + 1) div 2))"
  by auto
termination
  by (relation "measure id") auto

declare npot.simps [simp del]

text \<open>Pixels of level \<open>i\<close> in a direction of \<open>sz\<close> pixels.\<close>

definition mip_dim :: "nat \<Rightarrow> nat \<Rightarrow> nat" where
  "mip_dim sz i = (if i = 0 then max 1 sz else npot (max 1 (sz div 2 ^ i)))"

text \<open>Blocks of a level, and blocks after alignment.\<close>

definition ref_x :: "radeon_surface \<Rightarrow> nat \<Rightarrow> nat" where
  "ref_x surf i = cdiv (mip_dim (unat (su_npix_x surf)) i) (unat (su_blk_w surf))"

definition ref_y :: "radeon_surface \<Rightarrow> nat \<Rightarrow> nat" where
  "ref_y surf i = cdiv (mip_dim (unat (su_npix_y surf)) i) (unat (su_blk_h surf))"

definition ref_z :: "radeon_surface \<Rightarrow> nat \<Rightarrow> nat" where
  "ref_z surf i = cdiv (mip_dim (unat (su_npix_z surf)) i) (unat (su_blk_d surf))"

text \<open>Legal dimensions: what the sanity checks accept, with blocks of at most 64K pixels.\<close>

definition dims_ok :: "radeon_surface \<Rightarrow> bool" where
  "dims_ok surf \<longleftrightarrow>
     su_npix_x surf \<le> 16384 \<and> su_npix_y surf \<le> 16384 \<and> su_npix_z surf \<le> 16384 \<and>
     0 < su_blk_w surf \<and> su_blk_w surf \<le> 65536 \<and> 0 < su_blk_h surf \<and> su_blk_h surf \<le> 65536 \<and>
     0 < su_blk_d surf \<and> su_blk_d surf \<le> 65536 \<and> 0 < su_array_size surf \<and> 0 < su_nsamples surf"

text \<open>
  The layout \<open>surf_minify\<close> computes: \<open>bpe\<close> bytes per block, rows of a multiple of \<open>xa\<close> blocks,
  slices of a multiple of \<open>ya\<close> rows.
\<close>

definition ref_pitch :: "radeon_surface \<Rightarrow> nat \<Rightarrow> nat \<Rightarrow> nat \<Rightarrow> nat" where
  "ref_pitch surf bpe xa i = align_up (ref_x surf i) xa * bpe * unat (su_nsamples surf)"

definition ref_slice :: "radeon_surface \<Rightarrow> nat \<Rightarrow> nat \<Rightarrow> nat \<Rightarrow> nat \<Rightarrow> nat" where
  "ref_slice surf bpe xa ya i = ref_pitch surf bpe xa i * align_up (ref_y surf i) ya"

definition ref_bytes :: "radeon_surface \<Rightarrow> nat \<Rightarrow> nat \<Rightarrow> nat \<Rightarrow> nat \<Rightarrow> nat" where
  "ref_bytes surf bpe xa ya i = ref_slice surf bpe xa ya i * ref_z surf i * unat (su_array_size surf)"

definition ref_level ::
  "radeon_surface \<Rightarrow> nat \<Rightarrow> nat \<Rightarrow> nat \<Rightarrow> u32 \<Rightarrow> nat \<Rightarrow> nat \<Rightarrow> radeon_surface_level" where
  "ref_level surf bpe xa ya mode i off = \<lparr>
     sl_offset = of_nat off, sl_slice_size = of_nat (ref_slice surf bpe xa ya i),
     sl_npix_x = of_nat (mip_dim (unat (su_npix_x surf)) i),
     sl_npix_y = of_nat (mip_dim (unat (su_npix_y surf)) i),
     sl_npix_z = of_nat (mip_dim (unat (su_npix_z surf)) i),
     sl_nblk_x = of_nat (align_up (ref_x surf i) xa), sl_nblk_y = of_nat (align_up (ref_y surf i) ya),
     sl_nblk_z = of_nat (ref_z surf i),
     sl_pitch_bytes = of_nat (ref_pitch surf bpe xa i), sl_mode = mode\<rparr>"

text \<open>A 2D level too small for its alignment.\<close>

definition ref_small :: "radeon_surface \<Rightarrow> nat \<Rightarrow> nat \<Rightarrow> nat \<Rightarrow> bool" where
  "ref_small surf xa ya i \<longleftrightarrow> su_nsamples surf = 1 \<and> \<not> flag (su_flags surf) RADEON_SURF_FMASK \<and>
     (ref_x surf i < xa \<or> ref_y surf i < ya)"

section \<open>Reference placement\<close>

text \<open>
  Where the level after level \<open>j\<close> starts, if level \<open>j\<close> starts at \<open>off\<close> and has \<open>b j\<close> bytes: behind
  it, and aligned to \<open>A\<close> behind level 0; and where level \<open>i\<close> of a tree starts whose level \<open>s\<close>
  starts at \<open>off\<close>.
\<close>

definition mip_step :: "(nat \<Rightarrow> nat) \<Rightarrow> nat \<Rightarrow> nat \<Rightarrow> nat \<Rightarrow> nat" where
  "mip_step b A off j = (if j = 0 then align_up (off + b j) A else off + b j)"

definition mip_place :: "(nat \<Rightarrow> nat) \<Rightarrow> nat \<Rightarrow> nat \<Rightarrow> nat \<Rightarrow> nat \<Rightarrow> nat" where
  "mip_place b A off s i = foldl (mip_step b A) off [s..<i]"

text \<open>Every level from \<open>s\<close> to before \<open>n\<close> ends below 4 GiB.\<close>

definition mip_fits :: "(nat \<Rightarrow> nat) \<Rightarrow> nat \<Rightarrow> nat \<Rightarrow> nat \<Rightarrow> nat \<Rightarrow> bool" where
  "mip_fits b A off s n \<longleftrightarrow> list_all (\<lambda>i. mip_place b A off s i + b i < 2 ^ 32) [s..<n]"

text \<open>The surface fields a tree is computed from: all but the ones the loops write.\<close>

definition surf_frame :: "radeon_surface \<Rightarrow> radeon_surface" where
  "surf_frame surf = surf\<lparr>su_bo_size := 0,
     su_tiling_index := map (\<lambda>_. 0) (su_tiling_index surf),
     su_stencil_tiling_index := map (\<lambda>_. 0) (su_stencil_tiling_index surf)\<rparr>"

definition same_frame :: "radeon_surface \<Rightarrow> radeon_surface \<Rightarrow> bool" where
  "same_frame surf surf' \<longleftrightarrow> surf_frame surf = surf_frame surf'"

text \<open>A tree whose levels are of one kind before level \<open>k\<close> and of another from \<open>k\<close> on, and the first
  level for which \<open>P\<close> holds (or \<open>n\<close>).\<close>

definition mix :: "nat \<Rightarrow> (nat \<Rightarrow> 'a) \<Rightarrow> (nat \<Rightarrow> 'a) \<Rightarrow> nat \<Rightarrow> 'a" where
  "mix k f g i = (if i < k then f i else g i)"

definition first_level :: "(nat \<Rightarrow> bool) \<Rightarrow> nat \<Rightarrow> nat" where
  "first_level P n = length (takeWhile (\<lambda>i. \<not> P i) [0..<n])"

text \<open>An alignment: a power of two of at most a million.\<close>

definition pow2_align :: "u32 \<Rightarrow> bool" where
  "pow2_align a \<longleftrightarrow> (\<exists>k \<le> 20. a = 2 ^ k)"

definition bo_align_ok :: "radeon_surface \<Rightarrow> bool" where
  "bo_align_ok surf \<longleftrightarrow> (\<exists>k \<le> 40. su_bo_alignment surf = 2 ^ k)"

text \<open>What the trees built with \<open>surf_minify\<close> need.\<close>

definition minify_ok :: "u32 \<Rightarrow> u32 \<Rightarrow> radeon_surface \<Rightarrow> bool" where
  "minify_ok xa ya surf \<longleftrightarrow> dims_ok surf \<and> bo_align_ok surf \<and> pow2_align xa \<and> pow2_align ya"

section \<open>What a tree promises\<close>

text \<open>The end of a level in the buffer.\<close>

definition level_end :: "radeon_surface \<Rightarrow> radeon_surface_level \<Rightarrow> nat" where
  "level_end surf lv = unat (sl_offset lv) +
     unat (sl_slice_size lv) * unat (sl_nblk_z lv) * unat (su_array_size surf)"

text \<open>A level of the right size with room for all its blocks, its pitch and slice size exact.\<close>

definition level_covers :: "radeon_surface \<Rightarrow> nat \<Rightarrow> nat \<Rightarrow> radeon_surface_level \<Rightarrow> bool" where
  "level_covers surf bpe i lv \<longleftrightarrow>
     unat (sl_npix_x lv) = mip_dim (unat (su_npix_x surf)) i \<and>
     unat (sl_npix_y lv) = mip_dim (unat (su_npix_y surf)) i \<and>
     unat (sl_npix_z lv) = mip_dim (unat (su_npix_z surf)) i \<and>
     ref_x surf i \<le> unat (sl_nblk_x lv) \<and> ref_y surf i \<le> unat (sl_nblk_y lv) \<and>
     ref_z surf i = unat (sl_nblk_z lv) \<and>
     unat (sl_pitch_bytes lv) = unat (sl_nblk_x lv) * bpe * unat (su_nsamples surf) \<and>
     unat (sl_slice_size lv) = unat (sl_pitch_bytes lv) * unat (sl_nblk_y lv)"

text \<open>The first \<open>n\<close> levels lie in the buffer one behind the other, level 1 aligned to \<open>A\<close>.\<close>

definition tree_placed :: "radeon_surface \<Rightarrow> radeon_surface_level list \<Rightarrow> nat \<Rightarrow> nat \<Rightarrow> bool" where
  "tree_placed surf lvs n A \<longleftrightarrow>
     (\<forall>i j. i < j \<and> j < n \<longrightarrow> level_end surf (lvs ! i) \<le> unat (sl_offset (lvs ! j))) \<and>
     (\<forall>i < n. level_end surf (lvs ! i) \<le> unat (su_bo_size surf)) \<and>
     (1 < n \<longrightarrow> A dvd unat (sl_offset (lvs ! 1)))"

section \<open>Arithmetic\<close>

text \<open>The powers of two.\<close>

lemma npot_unique: "0 < k \<Longrightarrow> 2 ^ (k - 1) < n \<Longrightarrow> n \<le> 2 ^ k \<Longrightarrow> npot n = 2 ^ k"
proof (induction k arbitrary: n)
  case (Suc k)
  have n: "2 ^ k < n" "n \<le> 2 * 2 ^ k" using Suc.prems by simp_all
  moreover have "(1 :: nat) \<le> 2 ^ k" by simp
  ultimately have "1 < n" by linarith
  then have step: "npot n = 2 * npot ((n + 1) div 2)" by (simp add: npot.simps [of n])
  show ?case
  proof (cases k)
    case 0
    then have "n = 2" using n by simp
    then show ?thesis using step 0 by (simp add: npot.simps [of "Suc 0"])
  next
    case (Suc j)
    have "2 ^ j < (n + 1) div 2" "(n + 1) div 2 \<le> 2 ^ Suc j" using n Suc by simp_all
    then have "npot ((n + 1) div 2) = 2 ^ k" using Suc.IH [of "(n + 1) div 2"] Suc by simp
    then show ?thesis using step by simp
  qed
qed simp

lemma npot_le_1 [simp]: "n \<le> 1 \<Longrightarrow> npot n = 1"
  by (simp add: npot.simps)

lemma npot_pos [simp]: "0 < npot n"
  by (induction n rule: npot.induct) (simp add: npot.simps)

lemma next_power_of_two_npot:
  assumes "unat x \<le> 2 ^ 30"
  shows "\<exists>v. next_power_of_two x = Some v \<and> unat v = npot (unat x)"
proof (cases "x \<le> 1")
  case True
  then show ?thesis by (simp add: next_power_of_two_def word_le_nat_alt)
next
  case False
  then have "1 < x" by simp
  then obtain n where "n \<le> 30" "0 < n" "next_power_of_two x = Some (2 ^ n)"
      "2 ^ (n - 1) < unat x" "unat x \<le> 2 ^ n" using assms by (elim next_power_of_two_Some)
  then show ?thesis using npot_unique [of n "unat x"] by (simp add: unat_pow2)
qed

lemma npot_le: "n \<le> 2 ^ k \<Longrightarrow> npot n \<le> 2 ^ k"
proof (induction k arbitrary: n)
  case (Suc k)
  show ?case
  proof (cases "n \<le> 1")
    case False
    have "(n + 1) div 2 \<le> 2 ^ k" using Suc.prems by simp
    then show ?thesis using Suc.IH [of "(n + 1) div 2"] False by (simp add: npot.simps [of n])
  qed simp
qed simp

lemma mip_dim_pos [simp]: "0 < mip_dim sz i"
  by (auto simp: mip_dim_def max_def)

lemma mip_dim_le: "sz \<le> 2 ^ k \<Longrightarrow> mip_dim sz i \<le> 2 ^ k"
  unfolding mip_dim_def by (auto intro!: npot_le order_trans [OF div_le_dividend])

lemma mip_minify_ref:
  assumes "unat sz \<le> 2 ^ 30" "i < 32"
  shows "\<exists>v. mip_minify sz i = Some v \<and> unat v = mip_dim (unat sz) i"
proof -
  let ?v = "max 1 (drop_bit i sz)"
  have v: "unat ?v = max 1 (unat sz div 2 ^ i)"
    using drop_bit_eq_div [of i "unat sz"]
    by (simp add: unat_drop_bit_eq max_def word_le_nat_alt)
  also have "\<dots> \<le> 2 ^ 30"
    using assms(1) order_trans [OF div_le_dividend [of "unat sz" "2 ^ i"]] by simp
  finally have "unat ?v \<le> 2 ^ 30" .
  then show ?thesis
    using next_power_of_two_npot [of ?v] v assms(2)
    by (auto simp: mip_minify_def shr_def mip_dim_def)
qed

text \<open>Blocks of one direction.\<close>

lemma blocks_ref:
  assumes "unat v \<le> 16384" "0 < b" "b \<le> 65536"
  shows "udiv (v + b - 1) b = Some ((v + b - 1) div b)"
    and "unat ((v + b - 1) div b) = cdiv (unat v) (unat (b :: u32))"
proof -
  show "udiv (v + b - 1) b = Some ((v + b - 1) div b)" using assms(2) by (intro udiv_nz) auto
  have b: "0 < unat b" "unat b \<le> 65536" using assms by (simp_all add: word_less_nat_alt word_le_nat_alt)
  have "unat (b - 1) = unat b - 1" using b(1) by (metis unat_minus_one unat_0 less_irrefl)
  moreover have "unat (v + (b - 1)) = unat v + unat (b - 1)"
    using assms b calculation by (intro unat_add_small) simp
  ultimately have "unat (v + b - 1) = unat v + unat b - 1" using b(1) by (simp add: algebra_simps)
  then show "unat ((v + b - 1) div b) = cdiv (unat v) (unat b)" by (simp add: unat_div cdiv_def)
qed

lemma dims_okD:
  assumes "dims_ok surf"
  shows "unat (su_npix_x surf) \<le> 2 ^ 14" "unat (su_npix_y surf) \<le> 2 ^ 14" "unat (su_npix_z surf) \<le> 2 ^ 14"
    "0 < unat (su_blk_w surf)" "0 < unat (su_blk_h surf)" "0 < unat (su_blk_d surf)"
    "0 < unat (su_array_size surf)" "0 < unat (su_nsamples surf)"
  using assms by (simp_all add: dims_ok_def word_le_nat_alt word_less_nat_alt)

text \<open>\<open>minify_dims\<close> stores the reference dimensions.\<close>

definition ref_dims :: "radeon_surface \<Rightarrow> nat \<Rightarrow> radeon_surface_level \<Rightarrow> radeon_surface_level" where
  "ref_dims surf i lv = lv\<lparr>
     sl_npix_x := of_nat (mip_dim (unat (su_npix_x surf)) i),
     sl_npix_y := of_nat (mip_dim (unat (su_npix_y surf)) i),
     sl_npix_z := of_nat (mip_dim (unat (su_npix_z surf)) i),
     sl_nblk_x := of_nat (ref_x surf i), sl_nblk_y := of_nat (ref_y surf i), sl_nblk_z := of_nat (ref_z surf i)\<rparr>"

lemma mip_blocks_ref:
  assumes "unat sz \<le> 2 ^ 14" "i < 32" "0 < b" "b \<le> 65536"
  shows "\<exists>v. mip_minify sz i = Some v \<and> v = of_nat (mip_dim (unat sz) i) \<and>
     udiv (v + b - 1) b = Some (of_nat (cdiv (mip_dim (unat sz) i) (unat b)))"
proof -
  have "unat sz \<le> 2 ^ 30" using assms(1) by (rule order_trans) simp
  then obtain v where v: "mip_minify sz i = Some v" "unat v = mip_dim (unat sz) i"
    using mip_minify_ref assms(2) by blast
  have "unat v \<le> 16384" using mip_dim_le [OF assms(1)] v(2) by simp
  note b = blocks_ref [OF this assms(3,4)]
  have "(v + b - 1) div b = of_nat (cdiv (mip_dim (unat sz) i) (unat b))"
    using b(2) v(2) by (metis of_nat_unat ucast_id)
  moreover have "v = of_nat (mip_dim (unat sz) i)" using v(2) by (metis of_nat_unat ucast_id)
  ultimately show ?thesis using v(1) b(1) by simp
qed

lemma minify_dims_ref:
  assumes "dims_ok surf" "i < 32"
  shows "minify_dims surf lv i = Some (ref_dims surf i lv)"
proof -
  note d = dims_okD [OF assms(1)]
  have b: "0 < su_blk_w surf" "su_blk_w surf \<le> 65536" "0 < su_blk_h surf" "su_blk_h surf \<le> 65536"
    "0 < su_blk_d surf" "su_blk_d surf \<le> 65536" using assms(1) by (simp_all add: dims_ok_def)
  note x = mip_blocks_ref [OF d(1) assms(2) b(1,2)] and y = mip_blocks_ref [OF d(2) assms(2) b(3,4)]
    and z = mip_blocks_ref [OF d(3) assms(2) b(5,6)]
  show ?thesis using x y z by (auto simp: minify_dims_def ref_dims_def ref_x_def ref_y_def ref_z_def)
qed

lemma ref_xyz_pos [simp]:
  "dims_ok surf \<Longrightarrow> 0 < ref_x surf i" "dims_ok surf \<Longrightarrow> 0 < ref_y surf i" "dims_ok surf \<Longrightarrow> 0 < ref_z surf i"
  by (simp_all add: ref_x_def ref_y_def ref_z_def dims_okD)

lemma ref_xyz_le:
  assumes "dims_ok surf"
  shows "ref_x surf i \<le> 2 ^ 14" "ref_y surf i \<le> 2 ^ 14" "ref_z surf i \<le> 2 ^ 14"
  unfolding ref_x_def ref_y_def ref_z_def using dims_okD [OF assms]
  by (intro order_trans [OF cdiv_le mip_dim_le]; simp only:)+

lemma pow2_alignD:
  assumes "pow2_align a"
  shows "0 < unat a" "unat a \<le> 2 ^ 20" "unat v \<le> 2 ^ 14 \<Longrightarrow> unat (ALIGN v a) = align_up (unat v) (unat a)"
proof -
  from assms obtain k where k: "k \<le> 20" "a = 2 ^ k" by (auto simp: pow2_align_def)
  have u: "unat a = 2 ^ k" using k by (simp add: unat_pow2)
  have le: "(2 :: nat) ^ k \<le> 2 ^ 20" using k(1) by (rule power_increasing) simp
  show "0 < unat a" "unat a \<le> 2 ^ 20" using u le by simp_all
  show "unat (ALIGN v a) = align_up (unat v) (unat a)" if "unat v \<le> 2 ^ 14"
    unfolding u unfolding k(2) using that le k(1) by (intro unat_ALIGN_pow2) simp_all
qed

lemma pow2_align_1 [simp]: "pow2_align 1"
  by (auto simp: pow2_align_def intro!: exI [of _ 0])

lemma ALIGN_1 [simp]: "ALIGN v 1 = v"
  by (simp add: ALIGN_def)

lemma unat_of_nat_14 [simp]: "n \<le> 2 ^ 14 \<Longrightarrow> unat (of_nat n :: u32) = n"
  by (rule unat_of_nat_small) simp

lemma ALIGN_ref:
  assumes "pow2_align a" "n \<le> 2 ^ 14"
  shows "ALIGN (of_nat n) a = of_nat (align_up n (unat a))"
  using pow2_alignD(3) [OF assms(1), of "of_nat n"] unat_of_nat_14 [OF assms(2)] assms(2)
  by (metis of_nat_unat ucast_id)

lemma falls_back_ref:
  assumes "dims_ok surf" "sl_mode lv = RADEON_SURF_MODE_2D"
  shows "falls_back_1d surf (ref_dims surf i lv) xa ya \<longleftrightarrow> ref_small surf (unat xa) (unat ya) i"
  using assms ref_xyz_le [OF assms(1), of i]
  by (simp add: falls_back_1d_def ref_small_def ref_dims_def word_less_nat_alt)

text \<open>Factors of a product that fits.\<close>

lemma mult_le_pos: "0 < b \<Longrightarrow> a \<le> a * b" for a b :: nat
  by simp

lemma fits_factor: "a * b < n \<Longrightarrow> 0 < b \<Longrightarrow> a < n" for a b n :: nat
  using mult_le_pos [of b a] by linarith

lemma slice_fits:
  assumes "dims_ok surf" "n + s * ref_z surf i * unat (su_array_size surf) < m"
  shows "s < m"
proof (rule fits_factor [OF fits_factor])
  show "s * ref_z surf i * unat (su_array_size surf) < m" using assms(2) by linarith
qed (use assms(1) in \<open>simp_all add: dims_okD\<close>)

lemma ucast_of_nat: "n < 2 ^ 32 \<Longrightarrow> (ucast (of_nat n :: u32) :: u64) = of_nat n"
  by (simp add: unsigned_of_nat take_bit_nat_eq_self)

lemma ucast_unat: "(ucast v :: u64) = of_nat (unat v)"
  by simp

lemma of_nat_unat_mult: "of_nat (n * unat v) = (of_nat n * v :: 'a::len word)"
  by simp

text \<open>\<open>surf_minify\<close> computes the reference layout whenever the level ends below 4 GiB.\<close>

lemma surf_minify_ref:
  assumes ok: "dims_ok surf" "i < 32" "pow2_align xa" "pow2_align ya"
    and fits: "unat off + ref_bytes surf (unat bpe) (unat xa) (unat ya) i < 2 ^ 32"
    and large: "sl_mode lv = RADEON_SURF_MODE_2D \<longrightarrow> \<not> ref_small surf (unat xa) (unat ya) i"
  shows "surf_minify surf lv bpe i xa ya 1 off =
    Some (surf\<lparr>su_bo_size := of_nat (unat off + ref_bytes surf (unat bpe) (unat xa) (unat ya) i)\<rparr>,
          ref_level surf (unat bpe) (unat xa) (unat ya) (sl_mode lv) i (unat off))"
proof -
  let ?bx = "align_up (ref_x surf i) (unat xa)" and ?by = "align_up (ref_y surf i) (unat ya)"
  have stay: "\<not> falls_back_1d surf (ref_dims surf i lv) xa ya"
    using large falls_back_ref [OF ok(1)] by (auto simp: falls_back_1d_def ref_dims_def)
  have b: "ALIGN (of_nat (ref_x surf i)) xa = of_nat ?bx" "ALIGN (of_nat (ref_y surf i)) ya = of_nat ?by"
    using ALIGN_ref ok(3,4) ref_xyz_le [OF ok(1)] by blast+
  have p: "(of_nat ?bx * bpe * su_nsamples surf :: u32) = of_nat (ref_pitch surf (unat bpe) (unat xa) i)"
    by (simp add: ref_pitch_def)
  have s: "(ucast (of_nat (ref_pitch surf (unat bpe) (unat xa) i) * of_nat ?by :: u32) :: u64) =
      of_nat (ref_slice surf (unat bpe) (unat xa) (unat ya) i)" (is "ucast ?w = _")
  proof -
    have "ref_slice surf (unat bpe) (unat xa) (unat ya) i < 2 ^ 32"
      using slice_fits [OF ok(1)] fits by (simp add: ref_bytes_def)
    moreover have "?w = of_nat (ref_slice surf (unat bpe) (unat xa) (unat ya) i)" by (simp add: ref_slice_def)
    ultimately show ?thesis using ucast_of_nat by simp
  qed
  have z: "(ucast (of_nat (ref_z surf i) :: u32) :: u64) = of_nat (ref_z surf i)"
    using ref_xyz_le(3) [OF ok(1), of i] by (intro ucast_of_nat) simp
  have e: "(ucast off + of_nat (ref_slice surf (unat bpe) (unat xa) (unat ya) i) * of_nat (ref_z surf i) *
      ucast (su_array_size surf) :: u64) = of_nat (unat off + ref_bytes surf (unat bpe) (unat xa) (unat ya) i)"
    by (simp add: ref_bytes_def)
  show ?thesis
    unfolding surf_minify_def minify_dims_ref [OF ok(1,2)] bind.bind_lunit if_not_P [OF stay] Let_def
    using e by (cases lv) (simp add: ref_dims_def b p s z ref_level_def)
qed

section \<open>Placement\<close>

lemma mip_place_same [simp]: "mip_place b A off s s = off"
  by (simp add: mip_place_def)

lemma mip_place_step: "s < i \<Longrightarrow> mip_place b A off s i = mip_place b A (mip_step b A off s) (Suc s) i"
  by (simp add: mip_place_def upt_conv_Cons)

lemma mip_place_Suc: "s \<le> i \<Longrightarrow> mip_place b A off s (Suc i) = mip_step b A (mip_place b A off s i) i"
  by (simp add: mip_place_def)

lemma mip_fits_iff: "mip_fits b A off s n \<longleftrightarrow> (\<forall>i. s \<le> i \<and> i < n \<longrightarrow> mip_place b A off s i + b i < 2 ^ 32)"
  by (auto simp: mip_fits_def list_all_iff)

lemma mip_fits_Suc:
  "s < n \<Longrightarrow> mip_fits b A off s n \<longleftrightarrow> off + b s < 2 ^ 32 \<and> mip_fits b A (mip_step b A off s) (Suc s) n"
  by (auto simp: mip_fits_def upt_conv_Cons list_all_iff mip_place_step [of s] Suc_le_eq)

lemma mip_step_ge: "0 < A \<Longrightarrow> off + b j \<le> mip_step b A off j"
  by (simp add: mip_step_def align_up_ge)

text \<open>Levels follow each other.\<close>

lemma mip_place_end_le:
  assumes "0 < A" "s \<le> i" "i < j"
  shows "mip_place b A off s i + b i \<le> mip_place b A off s j"
  using assms(3)
proof (induction j)
  case (Suc j)
  have step: "mip_place b A off s (Suc j) = mip_step b A (mip_place b A off s j) j"
    using Suc.prems assms(2) by (intro mip_place_Suc) simp
  show ?case
  proof (cases "i = j")
    case True
    then show ?thesis using step mip_step_ge [OF assms(1)] by simp
  next
    case False
    then have "mip_place b A off s i + b i \<le> mip_place b A off s j" using Suc by simp
    then show ?thesis unfolding step
      using mip_step_ge [OF assms(1), of "mip_place b A off s j" b j] by linarith
  qed
qed simp

lemma mip_place_cong: "(\<And>j. s \<le> j \<Longrightarrow> j < i \<Longrightarrow> b j = b' j) \<Longrightarrow> mip_place b A off s i = mip_place b' A off s i"
  unfolding mip_place_def by (rule foldl_cong) (auto simp: mip_step_def)

lemma mip_place_append:
  "s \<le> k \<Longrightarrow> k \<le> i \<Longrightarrow> mip_place b A off s i = mip_place b A (mip_place b A off s k) k i"
  using upt_add_eq_append [of s k "i - k"] by (simp add: mip_place_def)

text \<open>The alignment is used behind level 0 only.\<close>

lemma mip_place_algn: "0 < s \<Longrightarrow> mip_place b A off s i = mip_place b A' off s i"
  unfolding mip_place_def by (rule foldl_cong) (auto simp: mip_step_def)

lemma mip_place_mix_before: "i \<le> k \<Longrightarrow> mip_place (mix k b b') A off s i = mip_place b A off s i"
  by (rule mip_place_cong) (simp add: mix_def)

lemma mip_place_mix_after:
  assumes "s \<le> k" "k \<le> i"
  shows "mip_place (mix k b b') A off s i = mip_place b' A (mip_place b A off s k) k i"
proof -
  have "mip_place (mix k b b') A off s i = mip_place (mix k b b') A (mip_place b A off s k) k i"
    using mip_place_append [OF assms, of "mix k b b'" A off] by (simp add: mip_place_mix_before)
  also have "\<dots> = mip_place b' A (mip_place b A off s k) k i" by (rule mip_place_cong) (simp add: mix_def)
  finally show ?thesis .
qed

lemma mip_fits_mix:
  assumes "s \<le> k" "k \<le> n" "mip_fits (mix k b b') A off s n"
  shows "mip_fits b A off s k" "mip_fits b' A (mip_place b A off s k) k n"
proof -
  have f: "mip_place (mix k b b') A off s i + mix k b b' i < 2 ^ 32" if "s \<le> i" "i < n" for i
    using assms(3) that by (simp add: mip_fits_iff)
  show "mip_fits b A off s k"
    unfolding mip_fits_iff
  proof (intro allI impI)
    fix i assume "s \<le> i \<and> i < k"
    then show "mip_place b A off s i + b i < 2 ^ 32"
      using f [of i] assms(2) mip_place_mix_before [of i k b b' A off s] by (simp add: mix_def)
  qed
  show "mip_fits b' A (mip_place b A off s k) k n"
    unfolding mip_fits_iff
  proof (intro allI impI)
    fix i assume "k \<le> i \<and> i < n"
    then show "mip_place b' A (mip_place b A off s k) k i + b' i < 2 ^ 32"
      using f [of i] assms(1) mip_place_mix_after [of s k i b b' A off] by (simp add: mix_def)
  qed
qed

lemma first_level_le: "first_level P n \<le> n"
  unfolding first_level_def by (metis length_takeWhile_le length_upt diff_zero)

lemma first_level_before: "i < first_level P n \<Longrightarrow> \<not> P i"
proof -
  assume i: "i < first_level P n"
  then have "takeWhile (\<lambda>i. \<not> P i) [0..<n] ! i = [0..<n] ! i"
    unfolding first_level_def by (rule takeWhile_nth)
  also have "\<dots> = i" using i first_level_le [of P n] by simp
  finally show ?thesis using nth_mem [OF i [unfolded first_level_def]] set_takeWhileD by metis
qed

lemma first_level_at: "first_level P n < n \<Longrightarrow> P (first_level P n)"
  using nth_length_takeWhile [of "\<lambda>i. \<not> P i" "[0..<n]"] by (simp add: first_level_def)

lemma same_frame_refl [simp]: "same_frame surf surf"
  by (simp add: same_frame_def)

lemma same_frame_sym: "same_frame surf surf' \<Longrightarrow> same_frame surf' surf"
  by (simp add: same_frame_def)

lemma same_frame_trans: "same_frame surf surf' \<Longrightarrow> same_frame surf' surf'' \<Longrightarrow> same_frame surf surf''"
  by (simp add: same_frame_def)

lemma same_frame_bo_size [simp]: "same_frame surf (surf\<lparr>su_bo_size := v\<rparr>)"
  by (simp add: same_frame_def surf_frame_def)

lemma same_frameD:
  assumes "same_frame surf surf'"
  shows "su_npix_x surf' = su_npix_x surf" "su_npix_y surf' = su_npix_y surf" "su_npix_z surf' = su_npix_z surf"
    "su_blk_w surf' = su_blk_w surf" "su_blk_h surf' = su_blk_h surf" "su_blk_d surf' = su_blk_d surf"
    "su_array_size surf' = su_array_size surf" "su_last_level surf' = su_last_level surf"
    "su_bpe surf' = su_bpe surf" "su_nsamples surf' = su_nsamples surf" "su_flags surf' = su_flags surf"
    "su_bo_alignment surf' = su_bo_alignment surf"
    "su_bankw surf' = su_bankw surf" "su_bankh surf' = su_bankh surf" "su_mtilea surf' = su_mtilea surf"
    "su_tile_split surf' = su_tile_split surf" "su_stencil_tile_split surf' = su_stencil_tile_split surf"
    "su_level surf' = su_level surf" "su_stencil_level surf' = su_stencil_level surf"
  using assms by (cases surf; cases surf'; simp add: same_frame_def surf_frame_def)+

lemma placed_tree:
  assumes "0 < A" "0 < n"
    and lev: "\<And>i. i < n \<Longrightarrow> unat (sl_offset (lvs ! i)) = mip_place b A off 0 i \<and>
        level_end surf (lvs ! i) = mip_place b A off 0 i + b i"
    and size: "unat (su_bo_size surf) = mip_place b A off 0 (n - 1) + b (n - 1)"
  shows "tree_placed surf lvs n A"
  unfolding tree_placed_def
proof (intro conjI allI impI)
  fix i j assume "i < j \<and> j < n"
  then show "level_end surf (lvs ! i) \<le> unat (sl_offset (lvs ! j))"
    using lev [of i] lev [of j] mip_place_end_le [OF assms(1), of 0 i j b off] by simp
next
  fix i assume i: "i < n"
  show "level_end surf (lvs ! i) \<le> unat (su_bo_size surf)"
  proof (cases "i = n - 1")
    case True
    then show ?thesis using lev [OF i] size by simp
  next
    case False
    then have "i < n - 1" using i by simp
    then show ?thesis using lev [OF i] size mip_place_end_le [OF assms(1), of 0 i "n - 1" b off] by simp
  qed
next
  assume "1 < n"
  then have "unat (sl_offset (lvs ! 1)) = align_up (off + b 0) A"
    using lev [of 1] by (simp add: mip_place_def mip_step_def)
  then show "A dvd unat (sl_offset (lvs ! 1))" by simp
qed

lemma level_end_frame: "same_frame surf surf' \<Longrightarrow> level_end surf' lv = level_end surf lv"
  by (simp add: level_end_def same_frameD)

section \<open>Trees\<close>

text \<open>
  What a loop that builds a tree relies on. The state of a loop has a surface \<open>sf\<close>, the levels \<open>lv\<close>
  and the place \<open>po\<close> of the next level; \<open>fpo\<close> is the place it would have in a 1D tree begun there.
  For a surface that is \<open>ok\<close> and a level that is \<open>large\<close> enough and ends below 4 GiB, one iteration
  stores the level \<open>lev\<close>, advances the size of the buffer by \<open>bytes\<close> and the place to the next level,
  and changes nothing else the layout depends on.
\<close>

locale mip_steps =
  fixes body :: "nat \<Rightarrow> 's \<Rightarrow> ('s + mip_result) option"
    and sf :: "'s \<Rightarrow> radeon_surface"
    and lv :: "'s \<Rightarrow> radeon_surface_level list"
    and po :: "'s \<Rightarrow> nat"
    and fpo :: "'s \<Rightarrow> nat \<Rightarrow> nat"
    and ok :: "radeon_surface \<Rightarrow> bool"
    and large :: "radeon_surface \<Rightarrow> nat \<Rightarrow> bool"
    and lev :: "radeon_surface \<Rightarrow> nat \<Rightarrow> nat \<Rightarrow> radeon_surface_level"
    and bytes :: "radeon_surface \<Rightarrow> nat \<Rightarrow> nat"
    and algn :: "radeon_surface \<Rightarrow> nat"
    and falgn :: "radeon_surface \<Rightarrow> nat"
  assumes body_fits:
    "ok (sf st) \<Longrightarrow> large (sf st) i \<Longrightarrow> i < length (lv st) \<Longrightarrow> i < 16 \<Longrightarrow> po st + bytes (sf st) i < 2 ^ 32 \<Longrightarrow>
     \<exists>st'. body i st = Some (Inl st') \<and> same_frame (sf st) (sf st') \<and>
       lv st' = (lv st)[i := lev (sf st) i (po st)] \<and>
       unat (su_bo_size (sf st')) = po st + bytes (sf st) i \<and>
       po st' = mip_step (bytes (sf st)) (algn (sf st)) (po st) i \<and>
       fpo st' (Suc i) = mip_step (bytes (sf st)) (falgn (sf st)) (po st) i"
    and ok_frame: "same_frame surf surf' \<Longrightarrow> ok surf \<Longrightarrow> ok surf'"
    and large_frame: "same_frame surf surf' \<Longrightarrow> large surf' = large surf"
    and lev_frame: "same_frame surf surf' \<Longrightarrow> lev surf' = lev surf"
    and bytes_frame: "same_frame surf surf' \<Longrightarrow> bytes surf' = bytes surf"
    and algn_frame: "same_frame surf surf' \<Longrightarrow> algn surf' = algn surf"
    and falgn_frame: "same_frame surf surf' \<Longrightarrow> falgn surf' = falgn surf"
    and algn_pos: "ok surf \<Longrightarrow> 0 < algn surf \<and> 0 < falgn surf"
    and lev_place: "ok surf \<Longrightarrow> p + bytes surf i < 2 ^ 32 \<Longrightarrow>
      unat (sl_offset (lev surf i p)) = p \<and> level_end surf (lev surf i p) = p + bytes surf i"
begin

lemmas frames = ok_frame large_frame lev_frame bytes_frame algn_frame falgn_frame

text \<open>Large levels from \<open>s\<close> to before \<open>k\<close> are laid out and the loop goes on from there.\<close>

lemma steps_fit:
  assumes "ok (sf st)" "s \<le> k" "k \<le> length (lv st)" "k \<le> 16" "\<And>i. s \<le> i \<Longrightarrow> i < k \<Longrightarrow> large (sf st) i"
    and "mip_fits (bytes (sf st)) (algn (sf st)) (po st) s k"
  shows "\<exists>st'. mip_loop body fin ([s..<k] @ is) st = mip_loop body fin is st' \<and>
     same_frame (sf st) (sf st') \<and> length (lv st') = length (lv st) \<and>
     (\<forall>i < length (lv st). lv st' ! i =
        (if s \<le> i \<and> i < k then lev (sf st) i (mip_place (bytes (sf st)) (algn (sf st)) (po st) s i) else lv st ! i)) \<and>
     po st' = mip_place (bytes (sf st)) (algn (sf st)) (po st) s k \<and>
     fpo st' k = (if s < k then mip_step (bytes (sf st)) (falgn (sf st))
         (mip_place (bytes (sf st)) (algn (sf st)) (po st) s (k - 1)) (k - 1) else fpo st k) \<and>
     unat (su_bo_size (sf st')) =
       (if s < k then mip_place (bytes (sf st)) (algn (sf st)) (po st) s (k - 1) + bytes (sf st) (k - 1)
        else unat (su_bo_size (sf st)))"
  using assms
proof (induction "k - s" arbitrary: s st)
  case 0
  then show ?case by (intro exI [of _ st]) auto
next
  case (Suc m)
  let ?b = "bytes (sf st)" and ?A = "algn (sf st)" and ?F = "falgn (sf st)"
  have i: "s < k" "s < length (lv st)" "s < 16" using Suc.hyps(2) Suc.prems(2-4) by simp_all
  have f: "po st + ?b s < 2 ^ 32" "mip_fits ?b ?A (mip_step ?b ?A (po st) s) (Suc s) k"
    using i(1) Suc.prems(6) by (simp_all add: mip_fits_Suc)
  obtain st1 where b: "body s st = Some (Inl st1)" "same_frame (sf st) (sf st1)"
    "lv st1 = (lv st)[s := lev (sf st) s (po st)]" "unat (su_bo_size (sf st1)) = po st + ?b s"
    "po st1 = mip_step ?b ?A (po st) s" "fpo st1 (Suc s) = mip_step ?b ?F (po st) s"
    using body_fits [OF Suc.prems(1) Suc.prems(5) i(2,3) f(1)] i(1) by blast
  note same = frames [OF b(2)]
  have m: "m = k - Suc s" "Suc s \<le> k" "k \<le> length (lv st1)" using Suc.hyps(2) Suc.prems(3) i b(3) by simp_all
  have l: "large (sf st1) i" if "Suc s \<le> i" "i < k" for i using Suc.prems(5) that same(2) by simp
  have f1: "mip_fits (bytes (sf st1)) (algn (sf st1)) (po st1) (Suc s) k" using f(2) same b(5) by simp
  obtain st2 where r: "mip_loop body fin ([Suc s..<k] @ is) st1 = mip_loop body fin is st2"
    "same_frame (sf st1) (sf st2)" "length (lv st2) = length (lv st1)"
    "\<And>i. i < length (lv st1) \<Longrightarrow> lv st2 ! i = (if Suc s \<le> i \<and> i < k
        then lev (sf st) i (mip_place ?b ?A (po st1) (Suc s) i) else lv st1 ! i)"
    "po st2 = mip_place ?b ?A (po st1) (Suc s) k"
    "fpo st2 k = (if Suc s < k then mip_step ?b ?F (mip_place ?b ?A (po st1) (Suc s) (k - 1)) (k - 1) else fpo st1 k)"
    "unat (su_bo_size (sf st2)) = (if Suc s < k then mip_place ?b ?A (po st1) (Suc s) (k - 1) + ?b (k - 1)
        else unat (su_bo_size (sf st1)))"
    using Suc.hyps(1) [OF m(1) same(1) [OF Suc.prems(1)] m(2,3) Suc.prems(4) l f1] unfolding same(3-6) by blast
  have "lv st2 ! i = (if s \<le> i \<and> i < k then lev (sf st) i (mip_place ?b ?A (po st) s i) else lv st ! i)"
    if "i < length (lv st)" for i
    using r(4) [of i] that i b(3,5) mip_place_step [of s i ?b ?A "po st"]
    by (auto simp: Suc_le_eq nth_list_update)
  moreover have "po st2 = mip_place ?b ?A (po st) s k"
    using r(5) b(5) mip_place_step [OF i(1)] by simp
  moreover have "unat (su_bo_size (sf st2)) = mip_place ?b ?A (po st) s (k - 1) + ?b (k - 1) \<and>
      fpo st2 k = mip_step ?b ?F (mip_place ?b ?A (po st) s (k - 1)) (k - 1)"
  proof (cases "Suc s < k")
    case True
    then show ?thesis using r(6,7) b(5) mip_place_step [of s "k - 1" ?b ?A "po st"] by simp
  next
    case False
    then have "k = Suc s" using i(1) by simp
    then show ?thesis using r(6,7) b(4,6) by simp
  qed
  moreover have "mip_loop body fin ([s..<k] @ is) st = mip_loop body fin is st2"
    using i(1) b(1) r(1) by (simp add: upt_conv_Cons)
  ultimately show ?case using i(1) r(3) b(3) same_frame_trans [OF b(2) r(2)]
    by (intro exI [of _ st2]) auto
qed

end

text \<open>A loop in which every level is large builds a whole tree.\<close>

locale mip_levels = mip_steps body sf lv po fpo ok "\<lambda>_ _. True" lev bytes algn falgn
  for body :: "nat \<Rightarrow> 's \<Rightarrow> ('s + mip_result) option" and sf lv po fpo ok lev bytes algn falgn +
  fixes fin :: "'s \<Rightarrow> mip_result"
  assumes fin: "fin st = (0, sf st, lv st)"
begin

lemma tree_fits:
  assumes "ok (sf st)" "s < n" "n \<le> length (lv st)" "n \<le> 16"
    and "mip_fits (bytes (sf st)) (algn (sf st)) (po st) s n"
  shows "\<exists>surf' lvs'. mip_loop body fin [s..<n] st = Some (0, surf', lvs') \<and>
     same_frame (sf st) surf' \<and> length lvs' = length (lv st) \<and>
     (\<forall>i < length (lv st). lvs' ! i =
        (if s \<le> i \<and> i < n then lev (sf st) i (mip_place (bytes (sf st)) (algn (sf st)) (po st) s i) else lv st ! i)) \<and>
     unat (su_bo_size surf') =
        mip_place (bytes (sf st)) (algn (sf st)) (po st) s (n - 1) + bytes (sf st) (n - 1)"
  using steps_fit [OF assms(1) less_imp_le [OF assms(2)] assms(3,4) TrueI assms(5), of fin "[]"] assms(2)
  by (fastforce simp: fin)

text \<open>A tree from level 0 on lies in the buffer as promised.\<close>

lemma tree_promise:
  assumes "ok (sf st)" "0 < n" "n \<le> length (lv st)" "n \<le> 16"
    and fits: "mip_fits (bytes (sf st)) (algn (sf st)) (po st) 0 n"
  shows "\<exists>surf' lvs'. mip_loop body fin [0..<n] st = Some (0, surf', lvs') \<and>
     same_frame (sf st) surf' \<and> length lvs' = length (lv st) \<and> tree_placed surf' lvs' n (algn (sf st)) \<and>
     unat (su_bo_size surf') =
        mip_place (bytes (sf st)) (algn (sf st)) (po st) 0 (n - 1) + bytes (sf st) (n - 1) \<and>
     (\<forall>i < n. lvs' ! i = lev (sf st) i (mip_place (bytes (sf st)) (algn (sf st)) (po st) 0 i))"
proof -
  let ?P = "mip_place (bytes (sf st)) (algn (sf st)) (po st) 0"
  obtain surf' lvs' where t: "mip_loop body fin [0..<n] st = Some (0, surf', lvs')"
    "same_frame (sf st) surf'" "length lvs' = length (lv st)"
    "\<And>i. i < length (lv st) \<Longrightarrow> lvs' ! i = (if i < n then lev (sf st) i (?P i) else lv st ! i)"
    "unat (su_bo_size surf') = ?P (n - 1) + bytes (sf st) (n - 1)"
    using tree_fits [OF assms] by auto
  have l: "lvs' ! i = lev (sf st) i (?P i)" if "i < n" for i using t(4) that assms(3) by simp
  have "tree_placed surf' lvs' n (algn (sf st))"
    using fits l lev_place [OF assms(1)] level_end_frame [OF t(2)] algn_pos [OF assms(1)]
    by (intro placed_tree [OF _ assms(2) _ t(5)]) (simp_all add: mip_fits_iff)
  then show ?thesis using t l by blast
qed

end

text \<open>
  The 2D trees: a loop over 2D levels that hands the rest of the tree, from the first small level on,
  to a loop over 1D levels, on the surface \<open>fbs\<close> makes of the current one.
\<close>

locale mip_tree_2d =
  two: mip_steps body2 sf2 lv2 po2 fpo2 ok2 large lev2 bytes2 algn2 falgn2 +
  one: mip_levels body1 sf1 lv1 po1 fpo1 ok1 lev1 bytes1 algn1 falgn1 fin1
  for body2 :: "nat \<Rightarrow> 's \<Rightarrow> ('s + mip_result) option" and sf2 lv2 po2 fpo2 ok2 large lev2 bytes2 algn2 falgn2
    and body1 :: "nat \<Rightarrow> 't \<Rightarrow> ('t + mip_result) option" and sf1 lv1 po1 fpo1 ok1 lev1 bytes1 algn1 falgn1 fin1 +
  fixes fbs :: "radeon_surface \<Rightarrow> nat \<Rightarrow> radeon_surface"
    and fin2 :: "'s \<Rightarrow> mip_result"
  assumes fin2: "fin2 st = (0, sf2 st, lv2 st)"
    and body2_small:
    "ok2 (sf2 st) \<Longrightarrow> \<not> large (sf2 st) i \<Longrightarrow> i < length (lv2 st) \<Longrightarrow> i < 16 \<Longrightarrow> fpo2 st i < 2 ^ 32 \<Longrightarrow>
     \<exists>st1 x. body2 i st = map_option Inr (mip_loop body1 fin1 (level_range (sf2 st) i) st1) \<and>
       sf1 st1 = fbs (sf2 st) i \<and> lv1 st1 = (lv2 st)[i := x] \<and> po1 st1 = fpo2 st i"
    and fbs_ok: "ok2 surf \<Longrightarrow> ok1 (fbs surf i)"
    and fbs_frame: "same_frame surf surf' \<Longrightarrow> same_frame (fbs surf i) (fbs surf' i)"
    and fbs_array: "su_array_size (fbs surf i) = su_array_size surf"
begin

text \<open>The alignment behind level 0 and the place of level 0, when level \<open>k\<close> is the first small one.\<close>

definition mixed_algn :: "radeon_surface \<Rightarrow> nat \<Rightarrow> nat" where
  "mixed_algn surf k = (if k = 0 then algn1 (fbs surf 0) else if k = 1 then falgn2 surf else algn2 surf)"

definition mixed_start :: "'s \<Rightarrow> nat \<Rightarrow> nat" where
  "mixed_start st k = (if k = 0 then fpo2 st 0 else po2 st)"

definition mixed_bytes :: "radeon_surface \<Rightarrow> nat \<Rightarrow> nat \<Rightarrow> nat" where
  "mixed_bytes surf k = mix k (bytes2 surf) (bytes1 (fbs surf k))"

definition mixed_place :: "'s \<Rightarrow> nat \<Rightarrow> nat \<Rightarrow> nat" where
  "mixed_place st k = mip_place (mixed_bytes (sf2 st) k) (mixed_algn (sf2 st) k) (mixed_start st k) 0"

text \<open>The places of both kinds of level: the 2D levels as in a 2D tree, the first small level where the
  loop hands over, and the others as in a 1D tree from there.\<close>

lemma mixed_before: "i < k \<Longrightarrow> mip_place (bytes2 (sf2 st)) (algn2 (sf2 st)) (po2 st) 0 i = mixed_place st k i"
  using mip_place_mix_before [of i k "bytes2 (sf2 st)" "bytes1 (fbs (sf2 st) k)" "mixed_algn (sf2 st) k" "mixed_start st k" 0]
  by (cases "k = 1") (simp_all add: mixed_place_def mixed_bytes_def mixed_algn_def mixed_start_def)

lemma mixed_at: "mixed_place st k k = (if 0 < k
    then mip_step (bytes2 (sf2 st)) (falgn2 (sf2 st)) (mixed_place st k (k - 1)) (k - 1) else fpo2 st 0)"
  using mip_place_Suc [of 0 "k - 1" "mixed_bytes (sf2 st) k" "mixed_algn (sf2 st) k" "mixed_start st k"]
  by (cases "k = 0"; cases "k = 1")
    (simp_all add: mixed_place_def mixed_algn_def mixed_start_def mip_step_def mixed_bytes_def mix_def)

lemma mixed_after:
  assumes "k \<le> i"
  shows "mip_place (bytes1 (fbs (sf2 st) k)) (algn1 (fbs (sf2 st) k)) (mixed_place st k k) k i = mixed_place st k i"
proof -
  let ?b2 = "bytes2 (sf2 st)" and ?b1 = "bytes1 (fbs (sf2 st) k)"
  let ?A = "mixed_algn (sf2 st) k" and ?p = "mixed_start st k"
  have "mixed_place st k i = mip_place ?b1 ?A (mixed_place st k k) k i"
    using mip_place_mix_after [OF _ assms, of 0 ?b2 ?b1 ?A ?p] mip_place_mix_before [of k k ?b2 ?b1 ?A ?p 0]
    by (simp add: mixed_place_def mixed_bytes_def)
  also have "\<dots> = mip_place ?b1 (algn1 (fbs (sf2 st) k)) (mixed_place st k k) k i"
    by (cases "k = 0") (simp add: mixed_algn_def, rule mip_place_algn, simp)
  finally show ?thesis by simp
qed

lemma mixed_fits:
  assumes "k \<le> n" "mip_fits (mixed_bytes (sf2 st) k) (mixed_algn (sf2 st) k) (mixed_start st k) 0 n"
  shows "\<And>i. i < n \<Longrightarrow> mixed_place st k i + mixed_bytes (sf2 st) k i < 2 ^ 32"
    "mip_fits (bytes2 (sf2 st)) (algn2 (sf2 st)) (po2 st) 0 k"
    "mip_fits (bytes1 (fbs (sf2 st) k)) (algn1 (fbs (sf2 st) k)) (mixed_place st k k) k n"
proof -
  show *: "mixed_place st k i + mixed_bytes (sf2 st) k i < 2 ^ 32" if "i < n" for i
    using assms(2) that by (simp add: mip_fits_iff mixed_place_def)
  show "mip_fits (bytes2 (sf2 st)) (algn2 (sf2 st)) (po2 st) 0 k"
    unfolding mip_fits_iff
  proof (intro allI impI)
    fix i assume "0 \<le> i \<and> i < k"
    then show "mip_place (bytes2 (sf2 st)) (algn2 (sf2 st)) (po2 st) 0 i + bytes2 (sf2 st) i < 2 ^ 32"
      using * [of i] mixed_before [of i k st] assms(1) by (simp add: mixed_bytes_def mix_def)
  qed
  show "mip_fits (bytes1 (fbs (sf2 st) k)) (algn1 (fbs (sf2 st) k)) (mixed_place st k k) k n"
    unfolding mip_fits_iff
  proof (intro allI impI)
    fix i assume "k \<le> i \<and> i < n"
    then show "mip_place (bytes1 (fbs (sf2 st) k)) (algn1 (fbs (sf2 st) k)) (mixed_place st k k) k i +
        bytes1 (fbs (sf2 st) k) i < 2 ^ 32"
      using * [of i] mixed_after [of k i st] by (simp add: mixed_bytes_def mix_def)
  qed
qed

text \<open>The 2D levels before the first small one.\<close>

lemma before_small:
  assumes "ok2 (sf2 st)" "k \<le> length (lv2 st)" "k \<le> 16" "\<And>i. i < k \<Longrightarrow> large (sf2 st) i"
    and "mip_fits (bytes2 (sf2 st)) (algn2 (sf2 st)) (po2 st) 0 k"
  shows "\<exists>st1. mip_loop body2 fin2 ([0..<k] @ js) st = mip_loop body2 fin2 js st1 \<and>
    same_frame (sf2 st) (sf2 st1) \<and> length (lv2 st1) = length (lv2 st) \<and>
    (\<forall>i < length (lv2 st). lv2 st1 ! i =
       (if i < k then lev2 (sf2 st) i (mixed_place st k i) else lv2 st ! i)) \<and>
    fpo2 st1 k = mixed_place st k k \<and>
    (0 < k \<longrightarrow> unat (su_bo_size (sf2 st1)) = mixed_place st k (k - 1) + bytes2 (sf2 st) (k - 1))"
proof -
  let ?p = "mip_place (bytes2 (sf2 st)) (algn2 (sf2 st)) (po2 st) 0"
  obtain st1 where s: "mip_loop body2 fin2 ([0..<k] @ js) st = mip_loop body2 fin2 js st1"
     "same_frame (sf2 st) (sf2 st1)" "length (lv2 st1) = length (lv2 st)"
     "\<And>i. i < length (lv2 st) \<Longrightarrow> lv2 st1 ! i = (if i < k then lev2 (sf2 st) i (?p i) else lv2 st ! i)"
     "fpo2 st1 k = (if 0 < k then mip_step (bytes2 (sf2 st)) (falgn2 (sf2 st)) (?p (k - 1)) (k - 1) else fpo2 st k)"
     "unat (su_bo_size (sf2 st1)) = (if 0 < k then ?p (k - 1) + bytes2 (sf2 st) (k - 1) else unat (su_bo_size (sf2 st)))"
    using two.steps_fit [OF assms(1) _ assms(2,3,4,5), of fin2 js] by auto
  have "lv2 st1 ! i = (if i < k then lev2 (sf2 st) i (mixed_place st k i) else lv2 st ! i)"
    if "i < length (lv2 st)" for i using s(4) [OF that] mixed_before [of i k st] by simp
  moreover have "fpo2 st1 k = mixed_place st k k"
    using s(5) mixed_at [of st k] mixed_before [of "k - 1" k st] by (cases "k = 0") simp_all
  ultimately show ?thesis using s(1-3,6) mixed_before [of "k - 1" k st] by (intro exI [of _ st1]) simp
qed

lemma tree_2d_fits:
  assumes ok: "ok2 (sf2 st)" and n: "n = Suc (unat (su_last_level (sf2 st)))" "n \<le> length (lv2 st)" "n \<le> 16"
    and k: "k \<le> n" "\<And>i. i < k \<Longrightarrow> large (sf2 st) i" "k < n \<Longrightarrow> \<not> large (sf2 st) k"
    and fits: "mip_fits (mixed_bytes (sf2 st) k) (mixed_algn (sf2 st) k) (mixed_start st k) 0 n"
  shows "\<exists>surf' lvs'. mip_loop body2 fin2 [0..<n] st = Some (0, surf', lvs') \<and>
     same_frame (if k < n then fbs (sf2 st) k else sf2 st) surf' \<and> length lvs' = length (lv2 st) \<and>
     (\<forall>i < n. lvs' ! i = mix k (lev2 (sf2 st)) (lev1 (fbs (sf2 st) k)) i (mixed_place st k i)) \<and>
     unat (su_bo_size surf') = mixed_place st k (n - 1) + mixed_bytes (sf2 st) k (n - 1)"
proof -
  let ?s = "sf2 st" and ?P = "mixed_place st k"
  note fit = mixed_fits [OF k(1) fits]
  have "k \<le> length (lv2 st)" "k \<le> 16" using k(1) n by simp_all
  then obtain st1 where s: "mip_loop body2 fin2 ([0..<k] @ [k..<n]) st = mip_loop body2 fin2 [k..<n] st1"
    "same_frame ?s (sf2 st1)" "length (lv2 st1) = length (lv2 st)"
    "\<And>i. i < length (lv2 st) \<Longrightarrow> lv2 st1 ! i = (if i < k then lev2 ?s i (?P i) else lv2 st ! i)"
    "fpo2 st1 k = ?P k" "0 < k \<Longrightarrow> unat (su_bo_size (sf2 st1)) = ?P (k - 1) + bytes2 ?s (k - 1)"
    using before_small [OF ok _ _ k(2) fit(2), of "[k..<n]"] by blast
  have app: "[0..<n] = [0..<k] @ [k..<n]" using upt_add_eq_append [of 0 k "n - k"] k(1) by simp
  show ?thesis
  proof (cases "k < n")
    case False
    then have "k = n" using k(1) by simp
    then show ?thesis using s n app by (auto simp: fin2 mix_def mixed_bytes_def)
  next
    case True
    have fr: "same_frame (fbs ?s k) (fbs (sf2 st1) k)" by (rule fbs_frame [OF s(2)])
    note eq = one.frames(3-5) [OF fr]
    have small: "\<not> large (sf2 st1) k" "k < length (lv2 st1)" "k < 16" "fpo2 st1 k < 2 ^ 32"
      using fit(1) [OF True] s(5) k(3) [OF True] two.large_frame [OF s(2)] True n s(3) by simp_all
    obtain st2 x where body: "body2 k st1 = map_option Inr (mip_loop body1 fin1 (level_range (sf2 st1) k) st2)"
      "sf1 st2 = fbs (sf2 st1) k" "lv1 st2 = (lv2 st1)[k := x]" "po1 st2 = ?P k"
      using body2_small [OF two.ok_frame [OF s(2) ok] small] s(5) by auto
    have range: "level_range (sf2 st1) k = [k..<n]" using n(1) same_frameD(8) [OF s(2)] by (simp add: level_range_def)
    have ok1: "ok1 (sf1 st2)" "n \<le> length (lv1 st2)" "mip_fits (bytes1 (sf1 st2)) (algn1 (sf1 st2)) (po1 st2) k n"
      using one.ok_frame [OF fr fbs_ok [OF ok]] body n(2) s(3) fit(3) eq by simp_all
    obtain surf2 lvs2 where t: "mip_loop body1 fin1 [k..<n] st2 = Some (0, surf2, lvs2)"
      "same_frame (fbs (sf2 st1) k) surf2" "length lvs2 = length (lv2 st)"
      "\<And>i. i < length (lv2 st) \<Longrightarrow> lvs2 ! i =
         (if k \<le> i \<and> i < n then lev1 (fbs ?s k) i (?P i) else (lv2 st1)[k := x] ! i)"
      "unat (su_bo_size surf2) = ?P (n - 1) + bytes1 (fbs ?s k) (n - 1)"
      using one.tree_fits [OF ok1(1) True ok1(2) n(3) ok1(3)] mixed_after [of k _ st] True s(3)
      unfolding body(2,4) eq by (force simp: body(3) cong: if_cong)
    have "mip_loop body2 fin2 [0..<n] st = Some (0, surf2, lvs2)"
      unfolding app s(1) unfolding upt_conv_Cons [OF True] using body(1) t(1) range by simp
    moreover have "lvs2 ! i = mix k (lev2 ?s) (lev1 (fbs ?s k)) i (?P i)" if "i < n" for i
      using t(4) [of i] s(4) [of i] that n(2) by (auto simp: mix_def nth_list_update)
    ultimately show ?thesis using True t(3,5) same_frame_trans [OF fr t(2)]
      by (intro exI [of _ surf2] exI [of _ lvs2]) (auto simp: mixed_bytes_def mix_def)
  qed
qed

lemma tree_2d_promise:
  assumes ok: "ok2 (sf2 st)" and n: "n = Suc (unat (su_last_level (sf2 st)))" "n \<le> length (lv2 st)" "n \<le> 16"
    and k: "k \<le> n" "\<And>i. i < k \<Longrightarrow> large (sf2 st) i" "k < n \<Longrightarrow> \<not> large (sf2 st) k"
    and fits: "mip_fits (mixed_bytes (sf2 st) k) (mixed_algn (sf2 st) k) (mixed_start st k) 0 n"
  shows "\<exists>surf' lvs'. mip_loop body2 fin2 [0..<n] st = Some (0, surf', lvs') \<and>
     same_frame (if k < n then fbs (sf2 st) k else sf2 st) surf' \<and> length lvs' = length (lv2 st) \<and>
     tree_placed surf' lvs' n (mixed_algn (sf2 st) k) \<and>
     unat (su_bo_size surf') = mixed_place st k (n - 1) + mixed_bytes (sf2 st) k (n - 1) \<and>
     (\<forall>i < n. lvs' ! i = mix k (lev2 (sf2 st)) (lev1 (fbs (sf2 st) k)) i (mixed_place st k i))"
proof -
  obtain surf' lvs' where t: "mip_loop body2 fin2 [0..<n] st = Some (0, surf', lvs')"
    "same_frame (if k < n then fbs (sf2 st) k else sf2 st) surf'" "length lvs' = length (lv2 st)"
    "\<And>i. i < n \<Longrightarrow> lvs' ! i = mix k (lev2 (sf2 st)) (lev1 (fbs (sf2 st) k)) i (mixed_place st k i)"
    "unat (su_bo_size surf') = mixed_place st k (n - 1) + mixed_bytes (sf2 st) k (n - 1)"
    using tree_2d_fits [OF assms] by blast
  have arr: "level_end surf' x = level_end (sf2 st) x" "level_end surf' x = level_end (fbs (sf2 st) k) x" for x
    using same_frameD(7) [OF t(2)] fbs_array [of "sf2 st" k] by (auto simp: level_end_def split: if_splits)
  have "tree_placed surf' lvs' n (mixed_algn (sf2 st) k)"
  proof (rule placed_tree [OF _ _ _ t(5) [unfolded mixed_place_def]])
    show "0 < mixed_algn (sf2 st) k"
      using two.algn_pos [OF ok] one.algn_pos [OF fbs_ok [OF ok]] by (simp add: mixed_algn_def)
    fix i assume i: "i < n"
    show "unat (sl_offset (lvs' ! i)) =
        mip_place (mixed_bytes (sf2 st) k) (mixed_algn (sf2 st) k) (mixed_start st k) 0 i \<and>
      level_end surf' (lvs' ! i) =
        mip_place (mixed_bytes (sf2 st) k) (mixed_algn (sf2 st) k) (mixed_start st k) 0 i + mixed_bytes (sf2 st) k i"
      unfolding mixed_place_def [symmetric]
      using mixed_fits(1) [OF k(1) fits i] t(4) [OF i] two.lev_place [OF ok, of "mixed_place st k i" i]
        one.lev_place [OF fbs_ok [OF ok], of "mixed_place st k i" k i] arr(1) [of "lvs' ! i"] arr(2) [of "lvs' ! i"]
      by (cases "i < k") (simp_all add: mixed_bytes_def mix_def)
  qed (use n(1) in simp)
  then show ?thesis using t by blast
qed

end

section \<open>Trees of \<open>surf_minify\<close>\<close>

lemma unat_ucast_low: "unat (v :: u64) < 2 ^ 32 \<Longrightarrow> unat (ucast v :: u32) = unat v"
  by (simp add: unsigned_ucast_eq take_bit_nat_eq_self)

lemma bo_align_okD:
  assumes "bo_align_ok surf"
  shows "0 < unat (su_bo_alignment surf)"
    and "unat v < 2 ^ 32 \<Longrightarrow> unat (ALIGN v (su_bo_alignment surf)) = align_up (unat v) (unat (su_bo_alignment surf))"
proof -
  from assms obtain k where k: "k \<le> 40" "su_bo_alignment surf = 2 ^ k" by (auto simp: bo_align_ok_def)
  have u: "unat (su_bo_alignment surf) = 2 ^ k" using k by (simp add: unat_pow2_64)
  have le: "(2 :: nat) ^ k \<le> 2 ^ 40" using k(1) by (rule power_increasing) simp
  show "0 < unat (su_bo_alignment surf)" using u by simp
  show "unat (ALIGN v (su_bo_alignment surf)) = align_up (unat v) (unat (su_bo_alignment surf))"
    if "unat v < 2 ^ 32" unfolding u unfolding k(2) using that le k(1) by (intro unat_ALIGN_pow2) simp_all
qed

lemma unat_u64_small: "n < 2 ^ 32 \<Longrightarrow> unat (of_nat n :: u64) = n"
  by (rule unat_of_nat_small) simp

lemma mip_next_offset_ref:
  assumes "bo_align_ok surf" "off + b i < 2 ^ 32"
  shows "unat (mip_next_offset (surf\<lparr>su_bo_size := of_nat (off + b i)\<rparr>) i) =
    mip_step b (unat (su_bo_alignment surf)) off i"
proof -
  have "unat (of_nat (off + b i) :: u64) = off + b i" by (rule unat_u64_small [OF assms(2)])
  then show ?thesis using assms bo_align_okD(2) [OF assms(1), of "of_nat (off + b i)"]
    by (auto simp: mip_next_offset_def mip_step_def simp del: of_nat_add)
qed

lemma frame_minify_ok: "same_frame surf surf' \<Longrightarrow> minify_ok xa ya surf' = minify_ok xa ya surf"
  by (simp add: minify_ok_def dims_ok_def bo_align_ok_def same_frameD)

lemma frame_ref:
  assumes "same_frame surf surf'"
  shows "ref_x surf' = ref_x surf" "ref_y surf' = ref_y surf" "ref_z surf' = ref_z surf"
    "ref_pitch surf' = ref_pitch surf" "ref_slice surf' = ref_slice surf" "ref_bytes surf' = ref_bytes surf"
    "ref_level surf' = ref_level surf" "ref_small surf' = ref_small surf"
  by (intro ext, simp add: ref_x_def ref_y_def ref_z_def ref_pitch_def ref_slice_def ref_bytes_def
      ref_level_def ref_small_def same_frameD [OF assms])+

lemma surf_minify_step:
  fixes off :: u64
  assumes "minify_ok xa ya surf" "i < 32"
    and fits: "unat off + ref_bytes surf (unat bpe) (unat xa) (unat ya) i < 2 ^ 32"
    and large: "sl_mode lv = RADEON_SURF_MODE_2D \<longrightarrow> \<not> ref_small surf (unat xa) (unat ya) i"
  shows "\<exists>surf'. surf_minify surf lv bpe i xa ya 1 (ucast off) =
       Some (surf', ref_level surf (unat bpe) (unat xa) (unat ya) (sl_mode lv) i (unat off)) \<and>
     same_frame surf surf' \<and>
     unat (su_bo_size surf') = unat off + ref_bytes surf (unat bpe) (unat xa) (unat ya) i \<and>
     unat (mip_next_offset surf' i) =
       mip_step (ref_bytes surf (unat bpe) (unat xa) (unat ya)) (unat (su_bo_alignment surf)) (unat off) i"
proof -
  have ok: "dims_ok surf" "bo_align_ok surf" "pow2_align xa" "pow2_align ya"
    using assms(1) by (simp_all add: minify_ok_def)
  have off: "unat (ucast off :: u32) = unat off" using fits by (intro unat_ucast_low) simp
  have f: "unat (ucast off :: u32) + ref_bytes surf (unat bpe) (unat xa) (unat ya) i < 2 ^ 32"
    using fits off by simp
  let ?surf' = "surf\<lparr>su_bo_size := of_nat (unat off + ref_bytes surf (unat bpe) (unat xa) (unat ya) i)\<rparr>"
  have "surf_minify surf lv bpe i xa ya 1 (ucast off) =
      Some (?surf', ref_level surf (unat bpe) (unat xa) (unat ya) (sl_mode lv) i (unat off))"
    using surf_minify_ref [OF ok(1) assms(2) ok(3,4) f large] unfolding off .
  then show ?thesis
    using unat_u64_small [OF fits]
      mip_next_offset_ref [of surf _ "ref_bytes surf (unat bpe) (unat xa) (unat ya)", OF ok(2) fits]
    by (intro exI [of _ ?surf']) (simp del: of_nat_add)
qed

text \<open>The parts of the state of a loop.\<close>

abbreviation st_lv :: "mip_state \<Rightarrow> radeon_surface_level list" where
  "st_lv st \<equiv> fst (snd st)"

abbreviation st_po :: "mip_state \<Rightarrow> nat" where
  "st_po st \<equiv> unat (snd (snd st))"

text \<open>One iteration of the loops without fallback.\<close>

lemma mip_body_minify:
  assumes "minify_ok xa ya (fst st)" "i < length (st_lv st)" "i < 16" "mode \<noteq> RADEON_SURF_MODE_2D"
    and "st_po st + ref_bytes (fst st) (unat (bpe (fst st))) (unat xa) (unat ya) i < 2 ^ 32"
  shows "\<exists>st'. mip_body mode (\<lambda>surf lv i off. surf_minify surf lv (bpe surf) i xa ya 1 (ucast off)) i st =
       Some (Inl st') \<and> same_frame (fst st) (fst st') \<and>
     st_lv st' = (st_lv st)[i :=
       ref_level (fst st) (unat (bpe (fst st))) (unat xa) (unat ya) mode i (st_po st)] \<and>
     unat (su_bo_size (fst st')) = st_po st + ref_bytes (fst st) (unat (bpe (fst st))) (unat xa) (unat ya) i \<and>
     st_po st' = mip_step (ref_bytes (fst st) (unat (bpe (fst st))) (unat xa) (unat ya))
       (unat (su_bo_alignment (fst st))) (st_po st) i"
proof -
  obtain surf lvs off where st: "st = (surf, lvs, off)" by (cases st) auto
  have "i < 32" using assms(3) by simp
  from surf_minify_step [OF assms(1) this assms(5), of "(lvs ! i)\<lparr>sl_mode := mode\<rparr>"] assms(2,4)
  show ?thesis by (auto simp: mip_body_def st)
qed

text \<open>The reference level is what a level promises.\<close>

lemma ref_level_covers:
  fixes mode :: u32
  assumes ok: "dims_ok surf" "pow2_align xa" "pow2_align ya"
    and fits: "off + ref_bytes surf bpe (unat xa) (unat ya) i < 2 ^ 32"
  defines "lv \<equiv> ref_level surf bpe (unat xa) (unat ya) mode i off"
  shows "level_covers surf bpe i lv" "unat (sl_offset lv) = off"
    "level_end surf lv = off + ref_bytes surf bpe (unat xa) (unat ya) i"
proof -
  let ?bx = "align_up (ref_x surf i) (unat xa)" and ?by = "align_up (ref_y surf i) (unat ya)"
  note xyz = ref_xyz_le [OF ok(1), of i] and d = dims_okD [OF ok(1)]
  have a: "0 < unat xa" "unat xa \<le> 2 ^ 20" "0 < unat ya" "unat ya \<le> 2 ^ 20"
    using pow2_alignD ok by blast+
  have bx: "ref_x surf i \<le> ?bx" "unat (of_nat ?bx :: u32) = ?bx"
    using align_up_ge [OF a(1)] align_up_less [OF a(1), of "ref_x surf i"] a xyz by (simp_all add: unat_of_nat_small)
  have yy: "ref_y surf i \<le> ?by" "unat (of_nat ?by :: u32) = ?by" "0 < ?by"
    using align_up_ge [OF a(3)] align_up_less [OF a(3), of "ref_y surf i"] a xyz ok(1) by (simp_all add: unat_of_nat_small)
  have s: "ref_slice surf bpe (unat xa) (unat ya) i < 2 ^ 32"
    using slice_fits [OF ok(1)] fits by (simp add: ref_bytes_def)
  then have p: "ref_pitch surf bpe (unat xa) i < 2 ^ 32"
    using fits_factor [OF _ yy(3)] by (simp add: ref_slice_def)
  have dim: "unat (of_nat (mip_dim sz i) :: u32) = mip_dim sz i" if "sz \<le> 2 ^ 14" for sz
    using mip_dim_le [OF that] by (rule unat_of_nat_14)
  have z: "unat (of_nat (ref_z surf i) :: u32) = ref_z surf i" using xyz(3) by (rule unat_of_nat_14)
  have u: "unat (of_nat (ref_pitch surf bpe (unat xa) i) :: u32) = ref_pitch surf bpe (unat xa) i"
    "unat (of_nat (ref_slice surf bpe (unat xa) (unat ya) i) :: u64) = ref_slice surf bpe (unat xa) (unat ya) i"
    "unat (of_nat off :: u64) = off"
    using p s fits unat_u64_small by (simp_all add: unat_of_nat_small)
  show "level_covers surf bpe i lv"
    using bx yy d by (simp add: level_covers_def lv_def ref_level_def dim z u ref_slice_def [symmetric]
        ref_pitch_def [symmetric])
  show "unat (sl_offset lv) = off" by (simp add: lv_def ref_level_def u)
  show "level_end surf lv = off + ref_bytes surf bpe (unat xa) (unat ya) i"
    by (simp add: lv_def ref_level_def level_end_def u z ref_bytes_def)
qed

lemma minify_okD:
  "minify_ok xa ya surf \<Longrightarrow> 0 < unat (su_bo_alignment surf)" "minify_ok xa ya surf \<Longrightarrow> dims_ok surf"
  "minify_ok xa ya surf \<Longrightarrow> pow2_align xa" "minify_ok xa ya surf \<Longrightarrow> pow2_align ya"
  using bo_align_okD by (auto simp: minify_ok_def)

lemma ref_level_place:
  assumes "minify_ok xa ya surf" "off + ref_bytes surf bpe (unat xa) (unat ya) i < 2 ^ 32"
  shows "unat (sl_offset (ref_level surf bpe (unat xa) (unat ya) mode i off)) = off"
    "level_end surf (ref_level surf bpe (unat xa) (unat ya) mode i off) =
       off + ref_bytes surf bpe (unat xa) (unat ya) i"
  using ref_level_covers(2,3) [OF minify_okD(2-4) [OF assms(1)] assms(2)] by simp_all

text \<open>The trees of the surface's own element size, and those of a given element size.\<close>

interpretation surf_tree: mip_levels
  "mip_body mode (\<lambda>surf lv i off. surf_minify surf lv (su_bpe surf) i xa ya 1 (ucast off))"
  fst st_lv st_po "\<lambda>st _. st_po st"
  "\<lambda>surf. minify_ok xa ya surf \<and> mode \<noteq> RADEON_SURF_MODE_2D"
  "\<lambda>surf. ref_level surf (unat (su_bpe surf)) (unat xa) (unat ya) mode"
  "\<lambda>surf. ref_bytes surf (unat (su_bpe surf)) (unat xa) (unat ya)"
  "\<lambda>surf. unat (su_bo_alignment surf)" "\<lambda>surf. unat (su_bo_alignment surf)" mip_done
  for mode xa ya
proof (unfold_locales, goal_cases)
  case (1 st i)
  then show ?case using mip_body_minify [of xa ya st i mode su_bpe] by auto
qed (auto simp: frame_minify_ok frame_ref same_frameD minify_okD ref_level_place mip_done_def split: prod.splits)

interpretation bpe_tree: mip_levels
  "mip_body mode (\<lambda>surf lv i off. surf_minify surf lv bpe i xa ya 1 (ucast off))"
  fst st_lv st_po "\<lambda>st _. st_po st"
  "\<lambda>surf. minify_ok xa ya surf \<and> mode \<noteq> RADEON_SURF_MODE_2D"
  "\<lambda>surf. ref_level surf (unat bpe) (unat xa) (unat ya) mode"
  "\<lambda>surf. ref_bytes surf (unat bpe) (unat xa) (unat ya)"
  "\<lambda>surf. unat (su_bo_alignment surf)" "\<lambda>surf. unat (su_bo_alignment surf)" mip_done
  for mode bpe xa ya
proof (unfold_locales, goal_cases)
  case (1 st i)
  then show ?case using mip_body_minify [of xa ya st i mode "\<lambda>_. bpe"] by auto
qed (auto simp: frame_minify_ok frame_ref same_frameD minify_okD ref_level_place mip_done_def split: prod.splits)

text \<open>One iteration of the 2D loops, for any function \<open>minify\<close> that lays out a level or turns its mode
  to 1D: a level laid out is stored, a small one goes to the fallback.\<close>

lemma mode_1d_2d [simp]: "RADEON_SURF_MODE_1D \<noteq> RADEON_SURF_MODE_2D" "RADEON_SURF_MODE_2D \<noteq> RADEON_SURF_MODE_1D"
  by (simp_all add: RADEON_SURF_MODE_1D_def RADEON_SURF_MODE_2D_def)

lemma ref_level_mode [simp]: "sl_mode (ref_level surf bpe xa ya mode i off) = mode"
  by (simp add: ref_level_def)

lemma mip_body_2d_large:
  assumes "minify_ok xa ya (fst st)" "\<not> ref_small (fst st) (unat xa) (unat ya) i"
    and "i < length (st_lv st)" "i < 16"
    and "st_po st + ref_bytes (fst st) (unat (bpe (fst st))) (unat xa) (unat ya) i < 2 ^ 32"
  shows "\<exists>st'. mip_body_2d (\<lambda>surf lv i off. surf_minify surf lv (bpe surf) i xa ya 1 (ucast off)) fb i st =
       Some (Inl st') \<and> same_frame (fst st) (fst st') \<and>
     st_lv st' = (st_lv st)[i :=
       ref_level (fst st) (unat (bpe (fst st))) (unat xa) (unat ya) RADEON_SURF_MODE_2D i (st_po st)] \<and>
     unat (su_bo_size (fst st')) = st_po st + ref_bytes (fst st) (unat (bpe (fst st))) (unat xa) (unat ya) i \<and>
     st_po st' = mip_step (ref_bytes (fst st) (unat (bpe (fst st))) (unat xa) (unat ya))
       (unat (su_bo_alignment (fst st))) (st_po st) i"
proof -
  obtain surf lvs off where st: "st = (surf, lvs, off)" by (cases st) auto
  have "i < 32" using assms(4) by simp
  from surf_minify_step [OF assms(1) this assms(5), of "(lvs ! i)\<lparr>sl_mode := RADEON_SURF_MODE_2D\<rparr>"] assms(2,3)
  show ?thesis by (auto simp: mip_body_2d_def st)
qed

lemma mip_body_2d_small:
  assumes "minify (fst st) ((st_lv st ! i)\<lparr>sl_mode := RADEON_SURF_MODE_2D\<rparr>) i (snd (snd st)) =
      Some (fst st, x\<lparr>sl_mode := RADEON_SURF_MODE_1D\<rparr>)" "i < length (st_lv st)"
  shows "mip_body_2d minify fb i st =
    map_option Inr (fb (fst st) ((st_lv st)[i := x\<lparr>sl_mode := RADEON_SURF_MODE_1D\<rparr>]) (snd (snd st)) i)"
  using assms by (cases st)
    (simp add: mip_body_2d_def map_option_case bind_eq_Some_conv split: option.splits)

lemma surf_minify_small:
  assumes "dims_ok surf" "ref_small surf (unat xa) (unat ya) i" "i < 32" "sl_mode x = RADEON_SURF_MODE_2D"
  shows "surf_minify surf x bpe i xa ya 1 off =
    Some (surf, (ref_dims surf i x)\<lparr>sl_mode := RADEON_SURF_MODE_1D\<rparr>)"
  using assms falls_back_ref [of surf x i xa ya] by (simp add: surf_minify_def minify_dims_ref)

end
