(* ===== verification/Radeon_R600.thy ===== *)
theory Radeon_R600
  imports Radeon_Layout
begin

text \<open>
  The r600/r700 part of \<open>radeon/radeon_surface.c\<close>: hardware parameters from the kernel's tiling
  word, and the layout of linear, 1D-tiled and 2D-tiled mipmap trees.
\<close>

section \<open>Hardware parameters\<close>

definition r6_init_hw_info :: "radeon_kernel \<Rightarrow> radeon_hw_info \<Rightarrow> (int \<times> radeon_hw_info) option" where
  "r6_init_hw_info k hw = do {
     (r, v) \<leftarrow> radeon_get_value k RADEON_INFO_TILING_CONFIG [0];
     if r \<noteq> 0 then Some (r, hw)
     else do {
       let tiling_config = v ! 0;
       let hw = hw\<lparr>hw_allow_2d := if version_at_least k 14 then 1 else 0\<rparr>;
       let p = drop_bit 1 (tiling_config AND 0xe);
       let hw = (if p = 0 then hw\<lparr>hw_num_pipes := 1\<rparr>
            else if p = 1 then hw\<lparr>hw_num_pipes := 2\<rparr>
            else if p = 2 then hw\<lparr>hw_num_pipes := 4\<rparr>
            else if p = 3 then hw\<lparr>hw_num_pipes := 8\<rparr>
            else hw\<lparr>hw_num_pipes := 8, hw_allow_2d := 0\<rparr>);
       let b = drop_bit 4 (tiling_config AND 0x30);
       let hw = (if b = 0 then hw\<lparr>hw_num_banks := 4\<rparr>
            else if b = 1 then hw\<lparr>hw_num_banks := 8\<rparr>
            else hw\<lparr>hw_num_banks := 8, hw_allow_2d := 0\<rparr>);
       let g = drop_bit 6 (tiling_config AND 0xc0);
       let hw = (if g = 0 then hw\<lparr>hw_group_bytes := 256\<rparr>
            else if g = 1 then hw\<lparr>hw_group_bytes := 512\<rparr>
            else hw\<lparr>hw_group_bytes := 256, hw_allow_2d := 0\<rparr>);
       Some (0, hw)
     }
   }"

section \<open>Layout\<close>

definition r6_alignment :: "radeon_hw_info \<Rightarrow> radeon_surface \<Rightarrow> nat \<Rightarrow> radeon_surface" where
  "r6_alignment hw surf start_level =
    (if start_level = 0 then surf\<lparr>su_bo_alignment := ucast (max 256 (hw_group_bytes hw))\<rparr> else surf)"

definition r6_surface_init_linear ::
  "radeon_hw_info \<Rightarrow> radeon_surface \<Rightarrow> radeon_surface_level list \<Rightarrow> u64 \<Rightarrow> nat \<Rightarrow> mip_result option" where
  "r6_surface_init_linear hw surf lvs offset start_level = do {
     let surf = r6_alignment hw surf start_level;
     q \<leftarrow> udiv (hw_group_bytes hw) (su_bpe surf);
     let xalign = scanout_xalign surf (su_bpe surf) (max 1 q);
     mip_loop (mip_body RADEON_SURF_MODE_LINEAR
         (\<lambda>surf lv i off. surf_minify surf lv (su_bpe surf) i xalign 1 1 (ucast off)))
       mip_done (level_range surf start_level) (surf, lvs, offset)
   }"

definition r6_surface_init_linear_aligned ::
  "radeon_hw_info \<Rightarrow> radeon_surface \<Rightarrow> radeon_surface_level list \<Rightarrow> u64 \<Rightarrow> nat \<Rightarrow> mip_result option" where
  "r6_surface_init_linear_aligned hw surf lvs offset start_level = do {
     let surf = r6_alignment hw surf start_level;
     q \<leftarrow> udiv (hw_group_bytes hw) (su_bpe surf);
     let xalign = max 64 q;
     mip_loop (mip_body RADEON_SURF_MODE_LINEAR_ALIGNED
         (\<lambda>surf lv i off. surf_minify surf lv (su_bpe surf) i xalign 1 1 (ucast off)))
       mip_done (level_range surf start_level) (surf, lvs, offset)
   }"

definition r6_surface_init_1d ::
  "radeon_hw_info \<Rightarrow> radeon_surface \<Rightarrow> radeon_surface_level list \<Rightarrow> u64 \<Rightarrow> nat \<Rightarrow> mip_result option" where
  "r6_surface_init_1d hw surf lvs offset start_level = do {
     let tilew = 8;
     q \<leftarrow> udiv (hw_group_bytes hw) (tilew * su_bpe surf * su_nsamples surf);
     let xalign = scanout_xalign surf (su_bpe surf) (max tilew q);
     let surf = r6_alignment hw surf start_level;
     mip_loop (mip_body RADEON_SURF_MODE_1D
         (\<lambda>surf lv i off. surf_minify surf lv (su_bpe surf) i xalign tilew 1 (ucast off)))
       mip_done (level_range surf start_level) (surf, lvs, offset)
   }"

definition r6_surface_init_2d ::
  "radeon_hw_info \<Rightarrow> radeon_surface \<Rightarrow> radeon_surface_level list \<Rightarrow> u64 \<Rightarrow> nat \<Rightarrow> mip_result option" where
  "r6_surface_init_2d hw surf lvs offset start_level = do {
     let tilew = 8;
     q \<leftarrow> udiv (hw_group_bytes hw * hw_num_banks hw) (tilew * su_bpe surf * su_nsamples surf);
     let xalign = max (tilew * hw_num_banks hw) q;
     let yalign = tilew * hw_num_pipes hw;
     let xalign = scanout_xalign surf (su_bpe surf) xalign;
     let surf = (if start_level = 0 then surf\<lparr>su_bo_alignment :=
         ucast (max (hw_num_pipes hw * hw_num_banks hw * su_nsamples surf * su_bpe surf * 64)
                    (xalign * yalign * su_nsamples surf * su_bpe surf))\<rparr> else surf);
     mip_loop (mip_body_2d
         (\<lambda>surf lv i off. surf_minify surf lv (su_bpe surf) i xalign yalign 1 (ucast off))
         (r6_surface_init_1d hw))
       mip_done (level_range surf start_level) (surf, lvs, offset)
   }"

definition r6_surface_init :: "radeon_hw_info \<Rightarrow> radeon_surface \<Rightarrow> (int \<times> radeon_surface) option" where
  "r6_surface_init hw surf =
    (let (mode, surf) = init_mode surf in
     if hw_allow_2d hw = 0 \<and> mode > RADEON_SURF_MODE_1D \<and> su_nsamples surf > 1 then Some (- EFAULT, surf)
     else
       let (mode, surf) =
             (if hw_allow_2d hw = 0 \<and> mode > RADEON_SURF_MODE_1D
              then (RADEON_SURF_MODE_1D, set_mode surf RADEON_SURF_MODE_1D) else (mode, surf))
       in if su_npix_x surf > 8192 \<or> su_npix_y surf > 8192 \<or> su_npix_z surf > 8192 then Some (- EINVAL, surf)
          else if su_last_level surf > 14 then Some (- EINVAL, surf)
          else if mode = RADEON_SURF_MODE_LINEAR then
            map_option store_level (r6_surface_init_linear hw surf (su_level surf) 0 0)
          else if mode = RADEON_SURF_MODE_LINEAR_ALIGNED then
            map_option store_level (r6_surface_init_linear_aligned hw surf (su_level surf) 0 0)
          else if mode = RADEON_SURF_MODE_1D then
            map_option store_level (r6_surface_init_1d hw surf (su_level surf) 0 0)
          else if mode = RADEON_SURF_MODE_2D then
            map_option store_level (r6_surface_init_2d hw surf (su_level surf) 0 0)
          else Some (- EINVAL, surf))"

definition r6_surface_best :: "radeon_hw_info \<Rightarrow> radeon_surface \<Rightarrow> (int \<times> radeon_surface) option" where
  "r6_surface_best hw surf = Some (0, surf)"

section \<open>Legal parameters\<close>

text \<open>The hardware parameters the kernel's tiling word can describe, and the surfaces with an element
  size and sample count that are powers of two.\<close>

definition hw_ok :: "radeon_hw_info \<Rightarrow> bool" where
  "hw_ok hw \<longleftrightarrow> hw_group_bytes hw \<in> {256, 512} \<and> hw_num_pipes hw \<in> {1, 2, 4, 8} \<and> hw_num_banks hw \<in> {4, 8, 16}"

definition elem_ok :: "radeon_surface \<Rightarrow> bool" where
  "elem_ok surf \<longleftrightarrow> su_bpe surf \<in> {1, 2, 4, 8, 16} \<and> su_nsamples surf \<in> {1, 2, 4, 8}"

text \<open>The row alignment of the four modes.\<close>

definition r6_xa_linear :: "radeon_hw_info \<Rightarrow> radeon_surface \<Rightarrow> u32" where
  "r6_xa_linear hw surf = scanout_xalign surf (su_bpe surf) (max 1 (hw_group_bytes hw div su_bpe surf))"

definition r6_xa_linear_aligned :: "radeon_hw_info \<Rightarrow> radeon_surface \<Rightarrow> u32" where
  "r6_xa_linear_aligned hw surf = max 64 (hw_group_bytes hw div su_bpe surf)"

definition r6_xa_1d :: "radeon_hw_info \<Rightarrow> radeon_surface \<Rightarrow> u32" where
  "r6_xa_1d hw surf = scanout_xalign surf (su_bpe surf)
     (max 8 (hw_group_bytes hw div (8 * su_bpe surf * su_nsamples surf)))"

definition r6_xa_2d :: "radeon_hw_info \<Rightarrow> radeon_surface \<Rightarrow> u32" where
  "r6_xa_2d hw surf = scanout_xalign surf (su_bpe surf) (max (8 * hw_num_banks hw)
     (hw_group_bytes hw * hw_num_banks hw div (8 * su_bpe surf * su_nsamples surf)))"

definition r6_align_2d :: "radeon_hw_info \<Rightarrow> radeon_surface \<Rightarrow> u32" where
  "r6_align_2d hw surf =
     max (hw_num_pipes hw * hw_num_banks hw * su_nsamples surf * su_bpe surf * 64)
         (r6_xa_2d hw surf * (8 * hw_num_pipes hw) * su_nsamples surf * su_bpe surf)"

text \<open>
  The reference tree of a surface: the first level that falls back to 1D, the bytes of the levels
  and the alignment of the buffer; and the surfaces for which every level ends below 4 GiB.
\<close>

definition r6_first :: "radeon_hw_info \<Rightarrow> radeon_surface \<Rightarrow> nat" where
  "r6_first hw surf = first_level (ref_small surf (unat (r6_xa_2d hw surf)) (unat (8 * hw_num_pipes hw)))
     (Suc (unat (su_last_level surf)))"

definition r6_bytes :: "radeon_hw_info \<Rightarrow> radeon_surface \<Rightarrow> u32 \<Rightarrow> nat \<Rightarrow> nat" where
  "r6_bytes hw surf mode =
    (let bytes = (\<lambda>xa ya. ref_bytes surf (unat (su_bpe surf)) (unat xa) (unat (ya :: u32))) in
     if mode = RADEON_SURF_MODE_LINEAR then bytes (r6_xa_linear hw surf) 1
     else if mode = RADEON_SURF_MODE_LINEAR_ALIGNED then bytes (r6_xa_linear_aligned hw surf) 1
     else if mode = RADEON_SURF_MODE_1D then bytes (r6_xa_1d hw surf) 8
     else mix (r6_first hw surf) (bytes (r6_xa_2d hw surf) (8 * hw_num_pipes hw)) (bytes (r6_xa_1d hw surf) 8))"

definition r6_bo_align :: "radeon_hw_info \<Rightarrow> radeon_surface \<Rightarrow> u32 \<Rightarrow> u32" where
  "r6_bo_align hw surf mode =
    (if mode = RADEON_SURF_MODE_2D \<and> 0 < r6_first hw surf then r6_align_2d hw surf
     else max 256 (hw_group_bytes hw))"

definition r6_fits :: "radeon_hw_info \<Rightarrow> radeon_surface \<Rightarrow> u32 \<Rightarrow> bool" where
  "r6_fits hw surf mode \<longleftrightarrow>
     mip_fits (r6_bytes hw surf mode) (unat (r6_bo_align hw surf mode)) 0 0 (Suc (unat (su_last_level surf)))"

text \<open>The mode the levels are laid out in, and the surface with that mode in its flags.\<close>

definition r6_mode :: "radeon_hw_info \<Rightarrow> radeon_surface \<Rightarrow> u32 \<times> radeon_surface" where
  "r6_mode hw surf =
    (let (mode, surf) = init_mode surf in
     if hw_allow_2d hw = 0 \<and> mode > RADEON_SURF_MODE_1D
     then (RADEON_SURF_MODE_1D, set_mode surf RADEON_SURF_MODE_1D) else (mode, surf))"

text \<open>What a tree function promises for a surface \<open>surf\<close> and the mode \<open>mode\<close>: it succeeds, sets the
  alignment, places the levels, and each level has its size, its room and its mode.\<close>

definition r6_promise :: "radeon_hw_info \<Rightarrow> radeon_surface \<Rightarrow> u32 \<Rightarrow> mip_result option \<Rightarrow> bool" where
  "r6_promise hw surf mode res \<longleftrightarrow> (\<exists>surf' lvs'. res = Some (0, surf', lvs') \<and>
     same_frame (surf\<lparr>su_bo_alignment := ucast (r6_bo_align hw surf mode)\<rparr>) surf' \<and>
     length lvs' = length (su_level surf) \<and>
     tree_placed surf' lvs' (Suc (unat (su_last_level surf))) (unat (r6_bo_align hw surf mode)) \<and>
     (\<forall>i \<le> unat (su_last_level surf). level_covers surf (unat (su_bpe surf)) i (lvs' ! i) \<and>
        sl_mode (lvs' ! i) =
          (if mode = RADEON_SURF_MODE_2D \<and> r6_first hw surf \<le> i then RADEON_SURF_MODE_1D else mode)))"

text \<open>Powers of two, by exponent.\<close>

definition p2 :: "nat \<Rightarrow> u32 \<Rightarrow> bool" where
  "p2 k a \<longleftrightarrow> k < 32 \<and> a = 2 ^ k"

lemma p2_mult: "p2 j a \<Longrightarrow> p2 k b \<Longrightarrow> j + k < 32 \<Longrightarrow> p2 (j + k) (a * b)"
  by (simp add: p2_def power_add)

lemma p2_unat: "p2 k a \<Longrightarrow> unat a = 2 ^ k"
  by (auto simp: p2_def unat_pow2)

lemma p2_max: "p2 j a \<Longrightarrow> p2 k b \<Longrightarrow> p2 (max j k) (max a b)"
  by (auto simp: p2_unat max_def word_le_nat_alt) 

lemma p2_div: "p2 j a \<Longrightarrow> p2 k b \<Longrightarrow> k \<le> j \<Longrightarrow> p2 (j - k) (a div b)"
proof -
  assume a: "p2 j a" "p2 k b" "k \<le> j"
  have "unat (a div b) = 2 ^ j div 2 ^ k" using a by (simp add: unat_div p2_unat)
  also have "\<dots> = 2 ^ (j - k)" using a(3) by (simp add: power_diff)
  also have "\<dots> = unat (2 ^ (j - k) :: u32)"
    by (rule unat_pow2 [symmetric]) (use a(1) in \<open>simp add: p2_def less_imp_diff_less\<close>)
  finally show ?thesis using a(1) by (auto simp: p2_def word_unat_eq_iff)
qed

lemma p2_div_0: "p2 j a \<Longrightarrow> p2 k b \<Longrightarrow> j < k \<Longrightarrow> a div b = 0"
  by (simp add: word_unat_eq_iff unat_div p2_unat)

text \<open>The greater of a power of two and a quotient of powers of two.\<close>

lemma p2_max_div:
  assumes "p2 m c" "p2 j a" "p2 k b"
  shows "p2 (max m (j - k)) (max c (a div b))"
proof (cases "k \<le> j")
  case True
  then show ?thesis using p2_max [OF assms(1) p2_div [OF assms(2,3)]] by simp
next
  case False
  then show ?thesis using assms p2_div_0 [OF assms(2,3)] by (simp add: max_def)
qed

lemma p2_numerals: "p2 0 1" "p2 1 2" "p2 2 4" "p2 3 8" "p2 4 16" "p2 5 32" "p2 6 64" "p2 8 256" "p2 9 512"
  by (simp_all add: p2_def)

lemma p2_bound: "p2 j a \<Longrightarrow> j \<le> n \<Longrightarrow> \<exists>k \<le> n. p2 k a"
  by blast

lemmas p2_bounds = p2_numerals [THEN p2_bound]

lemma p2_scanout: "p2 k a \<Longrightarrow> \<exists>j. p2 j (scanout_xalign surf bpe a) \<and> k \<le> j \<and> j \<le> max 6 k"
  using p2_max [OF p2_numerals(7), of k a] p2_max [OF p2_numerals(6), of k a]
  by (auto simp: scanout_xalign_def max_def intro: exI)

lemma pow2_alignI: "p2 k a \<Longrightarrow> k \<le> 20 \<Longrightarrow> pow2_align a"
  by (auto simp: p2_def pow2_align_def)

lemma bo_align_okI: "p2 k a \<Longrightarrow> bo_align_ok (surf\<lparr>su_bo_alignment := ucast a\<rparr>)"
proof -
  assume a: "p2 k a"
  then have "ucast a = (of_nat (2 ^ k) :: u64)" by (metis ucast_unat p2_unat)
  then show ?thesis using a by (auto simp: bo_align_ok_def p2_def intro!: exI [of _ k])
qed

lemma elem_p2:
  assumes "elem_ok surf"
  obtains p s where "p \<le> 4" "s \<le> 3" "p2 p (su_bpe surf)" "p2 s (su_nsamples surf)"
proof -
  have "\<exists>p \<le> 4. p2 p (su_bpe surf)" using assms by (auto simp: elem_ok_def intro!: p2_bounds)
  moreover have "\<exists>s \<le> 3. p2 s (su_nsamples surf)" using assms by (auto simp: elem_ok_def intro!: p2_bounds)
  ultimately show thesis using that by blast
qed

lemma r6_hw_p2:
  assumes "hw_ok hw"
  obtains g q b where "g \<le> 9" "q \<le> 3" "b \<le> 4" "p2 g (hw_group_bytes hw)" "p2 q (hw_num_pipes hw)"
    "p2 b (hw_num_banks hw)"
proof -
  have "\<exists>g \<le> 9. p2 g (hw_group_bytes hw)" "\<exists>q \<le> 3. p2 q (hw_num_pipes hw)" "\<exists>b \<le> 4. p2 b (hw_num_banks hw)"
    using assms by (auto simp: hw_ok_def intro!: p2_bounds)
  then show thesis using that by blast
qed

text \<open>The divisor of the tile rows is a power of two, hence not zero.\<close>

lemma elem_bytes_p2:
  assumes "p2 p (su_bpe surf)" "p2 s (su_nsamples surf)" "p \<le> 4" "s \<le> 3"
  shows "p2 (3 + p + s) (8 * su_bpe surf * su_nsamples surf)"
  using assms p2_numerals(4) by (intro p2_mult) auto

lemma p2_nz: "p2 k a \<Longrightarrow> a \<noteq> 0"
  using p2_unat [of k a] by auto

lemma r6_alignments:
  assumes "hw_ok hw" "elem_ok surf"
  shows "su_bpe surf \<noteq> 0" "8 * su_bpe surf * su_nsamples surf \<noteq> 0"
    "pow2_align (r6_xa_linear hw surf)" "pow2_align (r6_xa_linear_aligned hw surf)"
    "pow2_align (r6_xa_1d hw surf)" "pow2_align (r6_xa_2d hw surf)" "pow2_align (8 * hw_num_pipes hw)"
    "\<exists>k. p2 k (r6_align_2d hw surf)" "\<exists>k. p2 k (max 256 (hw_group_bytes hw))"
proof -
  obtain p s where e: "p \<le> 4" "s \<le> 3" "p2 p (su_bpe surf)" "p2 s (su_nsamples surf)"
    by (rule elem_p2 [OF assms(2)])
  obtain g q b where h: "g \<le> 9" "q \<le> 3" "b \<le> 4" "p2 g (hw_group_bytes hw)" "p2 q (hw_num_pipes hw)"
    "p2 b (hw_num_banks hw)" by (rule r6_hw_p2 [OF assms(1)])
  note t = elem_bytes_p2 [OF e(3,4,1,2)]
  show "su_bpe surf \<noteq> 0" "8 * su_bpe surf * su_nsamples surf \<noteq> 0" using p2_nz e(3) t by blast+
  have x: "pow2_align (scanout_xalign surf bpe a)" if "p2 k a" "k \<le> 20" for bpe k a
    using p2_scanout [OF that(1), of surf bpe] that(2) by (auto intro!: pow2_alignI)
  show "pow2_align (r6_xa_linear hw surf)"
    unfolding r6_xa_linear_def by (rule x, rule p2_max_div [OF p2_numerals(1) h(4) e(3)]) (use h in simp)
  show "pow2_align (r6_xa_linear_aligned hw surf)"
    unfolding r6_xa_linear_aligned_def
    by (rule pow2_alignI, rule p2_max_div [OF p2_numerals(7) h(4) e(3)]) (use h in simp)
  show "pow2_align (r6_xa_1d hw surf)"
    unfolding r6_xa_1d_def by (rule x, rule p2_max_div [OF p2_numerals(4) h(4) t]) (use h in simp)
  have gb: "p2 (g + b) (hw_group_bytes hw * hw_num_banks hw)" by (rule p2_mult) (use h in simp_all)
  have bb: "p2 (3 + b) (8 * hw_num_banks hw)" by (rule p2_mult) (use h p2_numerals in simp_all)
  have pp: "p2 (3 + q) (8 * hw_num_pipes hw)" by (rule p2_mult) (use h p2_numerals in simp_all)
  note m = p2_max_div [OF bb gb t]
  then obtain k where k: "p2 k (r6_xa_2d hw surf)" "k \<le> 13"
    using p2_scanout [OF m, of surf "su_bpe surf"] h unfolding r6_xa_2d_def by auto
  show "pow2_align (r6_xa_2d hw surf)" using k(2) by (intro pow2_alignI [OF k(1)]) simp
  show "pow2_align (8 * hw_num_pipes hw)" using h by (intro pow2_alignI [OF pp]) simp
  have a: "p2 (q + b + s + p + 6) (hw_num_pipes hw * hw_num_banks hw * su_nsamples surf * su_bpe surf * 64)"
    by (intro p2_mult h(5,6) e(3,4) p2_numerals(7)) (use h e in simp_all)
  have a': "p2 (k + (3 + q) + s + p) (r6_xa_2d hw surf * (8 * hw_num_pipes hw) * su_nsamples surf * su_bpe surf)"
    by (intro p2_mult k(1) pp e(3,4)) (use h e k(2) in simp_all)
  show "\<exists>k. p2 k (r6_align_2d hw surf)" unfolding r6_align_2d_def using p2_max [OF a a'] by blast
  show "\<exists>k. p2 k (max 256 (hw_group_bytes hw))" using p2_max [OF p2_numerals(8) h(4)] by blast
qed

section \<open>Trees\<close>

text \<open>The four functions as loops over the levels.\<close>

lemma level_range_alignment [simp]: "level_range (r6_alignment hw surf s) = level_range surf"
  by (simp add: fun_eq_iff level_range_def r6_alignment_def)

lemma r6_alignment_fields [simp]:
  "su_bpe (r6_alignment hw surf s) = su_bpe surf" "su_nsamples (r6_alignment hw surf s) = su_nsamples surf"
  "su_flags (r6_alignment hw surf s) = su_flags surf" "su_last_level (r6_alignment hw surf s) = su_last_level surf"
  "su_array_size (r6_alignment hw surf s) = su_array_size surf"
  by (simp_all add: r6_alignment_def)

lemma scanout_alignment [simp]: "scanout_xalign (r6_alignment hw surf s) = scanout_xalign surf"
  by (simp add: fun_eq_iff scanout_xalign_def)

lemma r6_surface_init_linear_eq:
  assumes "hw_ok hw" "elem_ok surf"
  shows "r6_surface_init_linear hw surf lvs off s =
    mip_loop (mip_body RADEON_SURF_MODE_LINEAR
        (\<lambda>surf' lv i off. surf_minify surf' lv (su_bpe surf') i (r6_xa_linear hw surf) 1 1 (ucast off)))
      mip_done (level_range surf s) (r6_alignment hw surf s, lvs, off)"
  using r6_alignments(1) [OF assms] by (simp add: r6_surface_init_linear_def r6_xa_linear_def)

lemma r6_surface_init_linear_aligned_eq:
  assumes "hw_ok hw" "elem_ok surf"
  shows "r6_surface_init_linear_aligned hw surf lvs off s =
    mip_loop (mip_body RADEON_SURF_MODE_LINEAR_ALIGNED
        (\<lambda>surf' lv i off. surf_minify surf' lv (su_bpe surf') i (r6_xa_linear_aligned hw surf) 1 1 (ucast off)))
      mip_done (level_range surf s) (r6_alignment hw surf s, lvs, off)"
  using r6_alignments(1) [OF assms] by (simp add: r6_surface_init_linear_aligned_def r6_xa_linear_aligned_def)

lemma r6_surface_init_1d_eq:
  assumes "hw_ok hw" "elem_ok surf"
  shows "r6_surface_init_1d hw surf lvs off s =
    mip_loop (mip_body RADEON_SURF_MODE_1D
        (\<lambda>surf' lv i off. surf_minify surf' lv (su_bpe surf') i (r6_xa_1d hw surf) 8 1 (ucast off)))
      mip_done (level_range surf s) (r6_alignment hw surf s, lvs, off)"
  using r6_alignments(2) [OF assms] by (simp add: r6_surface_init_1d_def r6_xa_1d_def)

lemma r6_surface_init_2d_eq:
  assumes "hw_ok hw" "elem_ok surf"
  shows "r6_surface_init_2d hw surf lvs off 0 =
    mip_loop (mip_body_2d
        (\<lambda>surf' lv i off. surf_minify surf' lv (su_bpe surf') i (r6_xa_2d hw surf) (8 * hw_num_pipes hw) 1 (ucast off))
        (r6_surface_init_1d hw))
      mip_done (level_range surf 0) (surf\<lparr>su_bo_alignment := ucast (r6_align_2d hw surf)\<rparr>, lvs, off)"
  using r6_alignments(2) [OF assms]
  by (simp add: r6_surface_init_2d_def r6_xa_2d_def r6_align_2d_def level_range_def Let_def)

lemma elem_ok_frame: "same_frame surf surf' \<Longrightarrow> elem_ok surf' = elem_ok surf"
  by (simp add: elem_ok_def same_frameD)

lemma r6_xa_1d_frame: "same_frame surf surf' \<Longrightarrow> r6_xa_1d hw surf' = r6_xa_1d hw surf"
  by (simp add: r6_xa_1d_def same_frameD scanout_xalign_def)

lemma r6_alignment_frame: "same_frame surf surf' \<Longrightarrow> same_frame (r6_alignment hw surf s) (r6_alignment hw surf' s)"
  by (cases surf; cases surf') (simp add: r6_alignment_def same_frame_def surf_frame_def)

lemma minify_ok_alignment:
  assumes "hw_ok hw" "elem_ok surf" "dims_ok surf" "bo_align_ok surf \<or> s = 0" "pow2_align xa" "pow2_align ya"
  shows "minify_ok xa ya (r6_alignment hw surf s)"
  using assms r6_alignments(9) [OF assms(1,2)] bo_align_okI [of _ "max 256 (hw_group_bytes hw)" surf]
  by (auto simp: minify_ok_def r6_alignment_def dims_ok_def)

lemma pow2_align_8 [simp]: "pow2_align 8"
  by (rule pow2_alignI [OF p2_numerals(4)]) simp

interpretation r6_tree: mip_tree_2d
  "mip_body_2d (\<lambda>surf lv i off. surf_minify surf lv (su_bpe surf) i xa ya 1 (ucast off)) (r6_surface_init_1d hw)"
  fst st_lv st_po "\<lambda>st _. st_po st"
  "\<lambda>surf. minify_ok xa ya surf \<and> hw_ok hw \<and> elem_ok surf \<and> xo = r6_xa_1d hw surf"
  "\<lambda>surf i. \<not> ref_small surf (unat xa) (unat ya) i"
  "\<lambda>surf. ref_level surf (unat (su_bpe surf)) (unat xa) (unat ya) RADEON_SURF_MODE_2D"
  "\<lambda>surf. ref_bytes surf (unat (su_bpe surf)) (unat xa) (unat ya)"
  "\<lambda>surf. unat (su_bo_alignment surf)" "\<lambda>surf. unat (su_bo_alignment surf)"
  "mip_body RADEON_SURF_MODE_1D (\<lambda>surf lv i off. surf_minify surf lv (su_bpe surf) i xo 8 1 (ucast off))"
  fst st_lv st_po "\<lambda>st _. st_po st"
  "\<lambda>surf. minify_ok xo 8 surf \<and> RADEON_SURF_MODE_1D \<noteq> RADEON_SURF_MODE_2D"
  "\<lambda>surf. ref_level surf (unat (su_bpe surf)) (unat xo) (unat (8 :: u32)) RADEON_SURF_MODE_1D"
  "\<lambda>surf. ref_bytes surf (unat (su_bpe surf)) (unat xo) (unat (8 :: u32))"
  "\<lambda>surf. unat (su_bo_alignment surf)" "\<lambda>surf. unat (su_bo_alignment surf)" mip_done
  "r6_alignment hw" mip_done
  for hw xa ya xo
proof (unfold_locales, goal_cases)
  case (1 st i)
  then show ?case using mip_body_2d_large [of xa ya st i su_bpe "r6_surface_init_1d hw"] by auto
next
  case (10 st i)
  let ?x = "ref_dims (fst st) i ((st_lv st ! i)\<lparr>sl_mode := RADEON_SURF_MODE_2D\<rparr>)"
  have d: "dims_ok (fst st)" using 10 by (simp add: minify_ok_def)
  have "mip_body_2d (\<lambda>surf lv i off. surf_minify surf lv (su_bpe surf) i xa ya 1 (ucast off)) (r6_surface_init_1d hw) i st =
      map_option Inr (r6_surface_init_1d hw (fst st) ((st_lv st)[i := ?x\<lparr>sl_mode := RADEON_SURF_MODE_1D\<rparr>]) (snd (snd st)) i)"
    using 10 d by (intro mip_body_2d_small surf_minify_small) simp_all
  then show ?case using 10
    by (intro exI [of _ "(r6_alignment hw (fst st) i, (st_lv st)[i := ?x\<lparr>sl_mode := RADEON_SURF_MODE_1D\<rparr>], snd (snd st))"]
        exI [of _ "?x\<lparr>sl_mode := RADEON_SURF_MODE_1D\<rparr>"]) (simp add: r6_surface_init_1d_eq)
next
  case (11 surf i)
  then show ?case using r6_alignments(5) [of hw surf] minify_ok_alignment [of hw surf i xo 8]
    by (auto simp: minify_ok_def)
next
  case (12 surf surf' i)
  then show ?case by (rule r6_alignment_frame)
qed (auto simp: frame_minify_ok frame_ref same_frameD elem_ok_frame r6_xa_1d_frame
    minify_okD ref_level_place mip_done_def split: prod.splits)

text \<open>The promises of the four functions.\<close>

lemma ref_alignment [simp]: "ref_bytes (r6_alignment hw surf s) = ref_bytes surf"
  "ref_level (r6_alignment hw surf s) = ref_level surf" "ref_small (r6_alignment hw surf s) = ref_small surf"
  "level_covers (r6_alignment hw surf s) = level_covers surf"
  by (intro ext, simp add: ref_bytes_def ref_slice_def ref_pitch_def ref_x_def ref_y_def ref_z_def ref_level_def
    ref_small_def level_covers_def r6_alignment_def)+

lemma dims_alignment [simp]: "dims_ok (r6_alignment hw surf s) = dims_ok surf"
  by (simp add: dims_ok_def r6_alignment_def)

lemma unat_ucast_up [simp]: "unat (ucast (v :: u32) :: u64) = unat v"
proof -
  have "unat v < 2 ^ 32" using unsigned_less [of v, where 'a = nat] by simp
  then have "unat (of_nat (unat v) :: u64) = unat v" by (rule unat_u64_small)
  then show ?thesis by simp
qed

lemma r6_mode_neq [simp]:
  "RADEON_SURF_MODE_LINEAR \<noteq> RADEON_SURF_MODE_2D" "RADEON_SURF_MODE_LINEAR_ALIGNED \<noteq> RADEON_SURF_MODE_2D"
  "RADEON_SURF_MODE_LINEAR_ALIGNED \<noteq> RADEON_SURF_MODE_LINEAR" "RADEON_SURF_MODE_1D \<noteq> RADEON_SURF_MODE_LINEAR"
  "RADEON_SURF_MODE_1D \<noteq> RADEON_SURF_MODE_LINEAR_ALIGNED"
  "RADEON_SURF_MODE_2D \<noteq> RADEON_SURF_MODE_LINEAR" "RADEON_SURF_MODE_2D \<noteq> RADEON_SURF_MODE_LINEAR_ALIGNED"
  by (simp_all add: RADEON_SURF_MODE_LINEAR_def RADEON_SURF_MODE_LINEAR_ALIGNED_def RADEON_SURF_MODE_1D_def
    RADEON_SURF_MODE_2D_def)

lemma r6_one_kind:
  assumes ok: "hw_ok hw" "elem_ok surf" "dims_ok surf" "su_last_level surf \<le> 14"
    "length (su_level surf) = 32" "pow2_align xa" "pow2_align ya"
    and mode: "mode \<noteq> RADEON_SURF_MODE_2D" "r6_bytes hw surf mode = ref_bytes surf (unat (su_bpe surf)) (unat xa) (unat ya)"
    and fits: "r6_fits hw surf mode"
  shows "r6_promise hw surf mode (mip_loop (mip_body mode
      (\<lambda>surf' lv i off. surf_minify surf' lv (su_bpe surf') i xa ya 1 (ucast off)))
      mip_done (level_range surf 0) (r6_alignment hw surf 0, su_level surf, 0))"
proof -
  let ?n = "Suc (unat (su_last_level surf))" and ?s = "r6_alignment hw surf 0"
  let ?A = "unat (max 256 (hw_group_bytes hw))" and ?b = "ref_bytes surf (unat (su_bpe surf)) (unat xa) (unat ya)"
  have al: "r6_bo_align hw surf mode = max 256 (hw_group_bytes hw)" using mode(1) by (simp add: r6_bo_align_def)
  have s: "?s = surf\<lparr>su_bo_alignment := ucast (max 256 (hw_group_bytes hw))\<rparr>" by (simp add: r6_alignment_def)
  then have A: "unat (su_bo_alignment ?s) = ?A" by simp
  have f: "mip_fits ?b ?A 0 0 ?n" using fits mode(2) al by (simp add: r6_fits_def)
  have m: "minify_ok xa ya ?s" using ok by (intro minify_ok_alignment) simp_all
  have n: "?n \<le> length (su_level surf)" "?n \<le> 16" using ok(4,5) by (simp_all add: word_le_nat_alt)
  obtain surf' lvs' where t: "mip_loop (mip_body mode
      (\<lambda>surf' lv i off. surf_minify surf' lv (su_bpe surf') i xa ya 1 (ucast off)))
      mip_done [0..<?n] (?s, su_level surf, 0) = Some (0, surf', lvs')"
    "same_frame ?s surf'" "length lvs' = length (su_level surf)" "tree_placed surf' lvs' ?n ?A"
    "\<And>i. i < ?n \<Longrightarrow> lvs' ! i = ref_level surf (unat (su_bpe surf)) (unat xa) (unat ya) mode i (mip_place ?b ?A 0 0 i)"
    using surf_tree.tree_promise [of xa ya "(?s, su_level surf, 0)" mode ?n] m mode(1) n f A by auto
  have "level_covers surf (unat (su_bpe surf)) i (lvs' ! i) \<and> sl_mode (lvs' ! i) = mode" if "i < ?n" for i
    using t(5) [OF that] ref_level_covers(1) [OF ok(3,6,7), of "mip_place ?b ?A 0 0 i" "unat (su_bpe surf)" i mode]
      f that by (simp add: mip_fits_iff)
  then show ?thesis using t(1-4) mode(1) s unfolding r6_promise_def al level_range_def
    by (intro exI [of _ surf'] exI [of _ lvs']) (simp add: less_Suc_eq_le)
qed

lemma ref_bo_alignment [simp]: "ref_bytes (surf\<lparr>su_bo_alignment := a\<rparr>) = ref_bytes surf"
  "ref_level (surf\<lparr>su_bo_alignment := a\<rparr>) = ref_level surf"
  "ref_small (surf\<lparr>su_bo_alignment := a\<rparr>) = ref_small surf"
  by (intro ext, simp add: ref_bytes_def ref_slice_def ref_pitch_def ref_x_def ref_y_def ref_z_def ref_level_def
    ref_small_def)+

lemma r6_params_bo_alignment [simp]:
  "dims_ok (surf\<lparr>su_bo_alignment := a\<rparr>) = dims_ok surf" "elem_ok (surf\<lparr>su_bo_alignment := a\<rparr>) = elem_ok surf"
  "r6_xa_1d hw (surf\<lparr>su_bo_alignment := a\<rparr>) = r6_xa_1d hw surf"
  by (simp_all add: dims_ok_def elem_ok_def r6_xa_1d_def scanout_xalign_def)

lemma r6_two_kinds:
  assumes ok: "hw_ok hw" "elem_ok surf" "dims_ok surf" "su_last_level surf \<le> 14" "length (su_level surf) = 32"
    and fits: "r6_fits hw surf RADEON_SURF_MODE_2D"
  shows "r6_promise hw surf RADEON_SURF_MODE_2D (r6_surface_init_2d hw surf (su_level surf) 0 0)"
proof -
  let ?n = "Suc (unat (su_last_level surf))" and ?s = "surf\<lparr>su_bo_alignment := ucast (r6_align_2d hw surf)\<rparr>"
  let ?k = "r6_first hw surf" and ?al = "r6_bo_align hw surf RADEON_SURF_MODE_2D"
  let ?x2 = "r6_xa_2d hw surf" and ?y2 = "8 * hw_num_pipes hw" and ?x1 = "r6_xa_1d hw surf"
  let ?b2 = "ref_bytes surf (unat (su_bpe surf)) (unat ?x2) (unat ?y2)"
    and ?b1 = "ref_bytes surf (unat (su_bpe surf)) (unat ?x1) (unat (8 :: u32))"
  let ?P = "mip_place (mix ?k ?b2 ?b1) (unat ?al) 0 0"
  note al = r6_alignments [OF ok(1,2)]
  have fa: "r6_tree.mixed_algn hw ?s ?k = unat ?al"
    by (simp add: r6_tree.mixed_algn_def r6_alignment_def r6_bo_align_def)
  have fb: "r6_tree.mixed_bytes ?x2 ?y2 ?x1 hw ?s ?k = mix ?k ?b2 ?b1"
    unfolding r6_tree.mixed_bytes_def by simp
  have fs: "r6_tree.mixed_start (?s, su_level surf, 0) ?k = 0" by (simp add: r6_tree.mixed_start_def)
  have f: "mip_fits (mix ?k ?b2 ?b1) (unat ?al) 0 0 ?n"
    using fits by (simp add: r6_fits_def r6_bytes_def Let_def)
  have m: "minify_ok ?x2 ?y2 ?s" using ok(3) al(6-8) bo_align_okI by (auto simp: minify_ok_def)
  have n: "?n \<le> length (su_level surf)" "?n \<le> 16" using ok(4,5) by (simp_all add: word_le_nat_alt)
  have k: "?k \<le> ?n" "\<And>i. i < ?k \<Longrightarrow> \<not> ref_small surf (unat ?x2) (unat ?y2) i"
    "?k < ?n \<Longrightarrow> ref_small surf (unat ?x2) (unat ?y2) ?k"
    unfolding r6_first_def by (rule first_level_le, erule first_level_before, erule first_level_at)
  obtain surf' lvs' where t: "r6_surface_init_2d hw surf (su_level surf) 0 0 = Some (0, surf', lvs')"
    "same_frame (if ?k < ?n then r6_alignment hw ?s ?k else ?s) surf'" "length lvs' = length (su_level surf)"
    "tree_placed surf' lvs' ?n (unat ?al)"
    "\<And>i. i < ?n \<Longrightarrow> lvs' ! i =
       mix ?k (ref_level surf (unat (su_bpe surf)) (unat ?x2) (unat ?y2) RADEON_SURF_MODE_2D)
              (ref_level surf (unat (su_bpe surf)) (unat ?x1) (unat (8 :: u32)) RADEON_SURF_MODE_1D) i (?P i)"
    using r6_tree.tree_2d_promise [where st = "(?s, su_level surf, 0)" and xa = ?x2 and ya = ?y2 and xo = ?x1 and hw = hw and n = ?n and k = ?k] m ok n k f
    unfolding r6_tree.mixed_place_def fst_conv fa fb fs r6_surface_init_2d_eq [OF ok(1,2)] level_range_def by auto
  have lv: "level_covers surf (unat (su_bpe surf)) i (lvs' ! i) \<and>
      sl_mode (lvs' ! i) = (if ?k \<le> i then RADEON_SURF_MODE_1D else RADEON_SURF_MODE_2D)" if "i < ?n" for i
  proof -
    have "?P i + mix ?k ?b2 ?b1 i < 2 ^ 32" using f that by (simp add: mip_fits_iff)
    then show ?thesis
      using t(5) [OF that] ref_level_covers(1) [OF ok(3) al(6,7), of "?P i" "unat (su_bpe surf)" i]
        ref_level_covers(1) [OF ok(3) al(5) pow2_align_8, of "?P i" "unat (su_bpe surf)" i]
      by (cases "i < ?k") (simp_all add: mix_def)
  qed
  have fr: "same_frame (surf\<lparr>su_bo_alignment := ucast ?al\<rparr>) surf'"
    using t(2) by (cases "?k = 0") (simp_all add: r6_bo_align_def r6_alignment_def split: if_splits)
  show ?thesis using t(1,3,4) fr lv unfolding r6_promise_def
    by (intro exI [of _ surf'] exI [of _ lvs']) (simp add: less_Suc_eq_le)
qed

text \<open>The flags are all that \<open>r6_mode\<close> changes.\<close>

lemma set_mode_fields [simp]:
  "dims_ok (set_mode surf mode) = dims_ok surf" "elem_ok (set_mode surf mode) = elem_ok surf"
  "su_npix_x (set_mode surf mode) = su_npix_x surf" "su_npix_y (set_mode surf mode) = su_npix_y surf"
  "su_npix_z (set_mode surf mode) = su_npix_z surf" "su_last_level (set_mode surf mode) = su_last_level surf"
  "su_level (set_mode surf mode) = su_level surf" "su_nsamples (set_mode surf mode) = su_nsamples surf"
  "su_bpe (set_mode surf mode) = su_bpe surf"
  by (simp_all add: set_mode_def dims_ok_def elem_ok_def)

lemma init_mode_fields:
  assumes "init_mode surf = (mode, surf0)"
  shows "dims_ok surf0 = dims_ok surf" "elem_ok surf0 = elem_ok surf" "su_npix_x surf0 = su_npix_x surf"
    "su_npix_y surf0 = su_npix_y surf" "su_npix_z surf0 = su_npix_z surf"
    "su_last_level surf0 = su_last_level surf" "su_level surf0 = su_level surf"
    "su_nsamples surf0 = su_nsamples surf" "su_bpe surf0 = su_bpe surf"
  using assms by (auto simp: init_mode_def Let_def split: if_splits)

lemma r6_mode_fields:
  assumes "r6_mode hw surf = (mode, surf0)"
  shows "dims_ok surf0 = dims_ok surf" "elem_ok surf0 = elem_ok surf" "su_npix_x surf0 = su_npix_x surf"
    "su_npix_y surf0 = su_npix_y surf" "su_npix_z surf0 = su_npix_z surf"
    "su_last_level surf0 = su_last_level surf" "su_level surf0 = su_level surf" "su_bpe surf0 = su_bpe surf"
  using assms init_mode_fields [of surf "fst (init_mode surf)" "snd (init_mode surf)"]
  by (auto simp: r6_mode_def split: if_splits prod.splits)

lemma r6_promise_store:
  assumes "r6_promise hw surf mode res" "length (su_level surf) = 32"
  shows "\<exists>surf'. map_option store_level res = Some (0, surf') \<and> su_flags surf' = su_flags surf \<and>
     su_bo_alignment surf' = ucast (r6_bo_align hw surf mode) \<and>
     tree_placed surf' (su_level surf') (Suc (unat (su_last_level surf))) (unat (su_bo_alignment surf')) \<and>
     (\<forall>i \<le> unat (su_last_level surf). level_covers surf (unat (su_bpe surf)) i (su_level surf' ! i) \<and>
        sl_mode (su_level surf' ! i) =
          (if mode = RADEON_SURF_MODE_2D \<and> r6_first hw surf \<le> i then RADEON_SURF_MODE_1D else mode))"
proof -
  from assms(1) obtain surf' lvs' where t: "res = Some (0, surf', lvs')"
    "same_frame (surf\<lparr>su_bo_alignment := ucast (r6_bo_align hw surf mode)\<rparr>) surf'"
    "tree_placed surf' lvs' (Suc (unat (su_last_level surf))) (unat (r6_bo_align hw surf mode))"
    "\<forall>i \<le> unat (su_last_level surf). level_covers surf (unat (su_bpe surf)) i (lvs' ! i) \<and>
        sl_mode (lvs' ! i) =
          (if mode = RADEON_SURF_MODE_2D \<and> r6_first hw surf \<le> i then RADEON_SURF_MODE_1D else mode)"
    unfolding r6_promise_def by blast
  show ?thesis using t same_frameD(11,12) [OF t(2)]
    by (intro exI [of _ "surf'\<lparr>su_level := lvs'\<rparr>"])
      (simp add: store_level_def tree_placed_def level_end_def)
qed

lemma mode_cases: "mode \<le> RADEON_SURF_MODE_2D \<Longrightarrow> mode = RADEON_SURF_MODE_LINEAR \<or>
    mode = RADEON_SURF_MODE_LINEAR_ALIGNED \<or> mode = RADEON_SURF_MODE_1D \<or> mode = RADEON_SURF_MODE_2D"
proof -
  assume "mode \<le> RADEON_SURF_MODE_2D"
  then have "unat mode \<le> 3" by (simp add: RADEON_SURF_MODE_2D_def word_le_nat_alt)
  then have "unat mode = 0 \<or> unat mode = 1 \<or> unat mode = 2 \<or> unat mode = 3" by linarith
  then show ?thesis
    by (simp add: RADEON_SURF_MODE_LINEAR_def RADEON_SURF_MODE_LINEAR_ALIGNED_def RADEON_SURF_MODE_1D_def
      RADEON_SURF_MODE_2D_def word_unat_eq_iff)
qed

text \<open>The tree of the mode, whichever it is.\<close>

definition r6_tree_of :: "radeon_hw_info \<Rightarrow> radeon_surface \<Rightarrow> u32 \<Rightarrow> mip_result option" where
  "r6_tree_of hw surf mode =
    (if mode = RADEON_SURF_MODE_LINEAR then r6_surface_init_linear hw surf (su_level surf) 0 0
     else if mode = RADEON_SURF_MODE_LINEAR_ALIGNED then r6_surface_init_linear_aligned hw surf (su_level surf) 0 0
     else if mode = RADEON_SURF_MODE_1D then r6_surface_init_1d hw surf (su_level surf) 0 0
     else r6_surface_init_2d hw surf (su_level surf) 0 0)"

lemma r6_tree_of_promise:
  assumes ok: "hw_ok hw" "elem_ok surf" "dims_ok surf" "su_last_level surf \<le> 14" "length (su_level surf) = 32"
    and "mode \<le> RADEON_SURF_MODE_2D" and fits: "r6_fits hw surf mode"
  shows "r6_promise hw surf mode (r6_tree_of hw surf mode)"
proof -
  note al = r6_alignments [OF ok(1,2)] and one = r6_one_kind [OF ok _ _ _ _ fits]
  show ?thesis using mode_cases [OF assms(6)]
  proof (elim disjE)
    assume m: "mode = RADEON_SURF_MODE_LINEAR"
    have "r6_tree_of hw surf mode = mip_loop (mip_body mode
        (\<lambda>surf' lv i off. surf_minify surf' lv (su_bpe surf') i (r6_xa_linear hw surf) 1 1 (ucast off)))
      mip_done (level_range surf 0) (r6_alignment hw surf 0, su_level surf, 0)"
      by (simp add: r6_tree_of_def m r6_surface_init_linear_eq [OF ok(1,2)])
    then show ?thesis using one [OF al(3) pow2_align_1] by (simp add: m r6_bytes_def)
  next
    assume m: "mode = RADEON_SURF_MODE_LINEAR_ALIGNED"
    have "r6_tree_of hw surf mode = mip_loop (mip_body mode
        (\<lambda>surf' lv i off. surf_minify surf' lv (su_bpe surf') i (r6_xa_linear_aligned hw surf) 1 1 (ucast off)))
      mip_done (level_range surf 0) (r6_alignment hw surf 0, su_level surf, 0)"
      by (simp add: r6_tree_of_def m r6_surface_init_linear_aligned_eq [OF ok(1,2)])
    then show ?thesis using one [OF al(4) pow2_align_1] by (simp add: m r6_bytes_def)
  next
    assume m: "mode = RADEON_SURF_MODE_1D"
    have "r6_tree_of hw surf mode = mip_loop (mip_body mode
        (\<lambda>surf' lv i off. surf_minify surf' lv (su_bpe surf') i (r6_xa_1d hw surf) 8 1 (ucast off)))
      mip_done (level_range surf 0) (r6_alignment hw surf 0, su_level surf, 0)"
      by (simp add: r6_tree_of_def m r6_surface_init_1d_eq [OF ok(1,2)])
    then show ?thesis using one [OF al(5) pow2_align_8] by (simp add: m r6_bytes_def)
  next
    assume m: "mode = RADEON_SURF_MODE_2D"
    then show ?thesis using r6_two_kinds [OF ok] fits by (simp add: r6_tree_of_def)
  qed
qed

lemma r6_surface_init_eq:
  assumes "r6_mode hw surf = (mode, surf0)" "hw_allow_2d hw \<noteq> 0 \<or> su_nsamples surf = 1"
    "su_npix_x surf \<le> 8192" "su_npix_y surf \<le> 8192" "su_npix_z surf \<le> 8192" "su_last_level surf \<le> 14"
    "mode \<le> RADEON_SURF_MODE_2D"
  shows "r6_surface_init hw surf = map_option store_level (r6_tree_of hw surf0 mode)"
proof -
  obtain m s where i: "init_mode surf = (m, s)" by fastforce
  have "\<not> (hw_allow_2d hw = 0 \<and> m > RADEON_SURF_MODE_1D \<and> su_nsamples s > 1)"
    using assms(2) init_mode_fields(8) [OF i] by auto
  moreover have "(if hw_allow_2d hw = 0 \<and> m > RADEON_SURF_MODE_1D
      then (RADEON_SURF_MODE_1D, set_mode s RADEON_SURF_MODE_1D) else (m, s)) = (mode, surf0)"
    using assms(1) i by (simp add: r6_mode_def)
  ultimately show ?thesis
    using assms(3-7) r6_mode_fields(3-6) [OF assms(1)] mode_cases [OF assms(7)]
    unfolding r6_surface_init_def i Let_def prod.case if_not_P
    by (auto simp: r6_tree_of_def if_not_P)
qed

text \<open>C12. The r600 layout: for every hardware description the kernel can give, every legal surface whose
  levels end below 4 GiB and every tiling mode, \<open>r6_surface_init\<close> succeeds; every level has the
  halved dimensions, room for all its blocks and an exact pitch and slice size; the levels lie in
  the buffer one behind the other without overlap, level 1 on the buffer's alignment; and a 2D tree
  is 2D up to the first level too small for a macro tile and 1D from there on.\<close>

theorem r6_surface_init_layout:
  assumes "hw_ok hw" "elem_ok surf" "dims_ok surf" "surf_wf surf"
    and "su_npix_x surf \<le> 8192" "su_npix_y surf \<le> 8192" "su_npix_z surf \<le> 8192" "su_last_level surf \<le> 14"
    and "hw_allow_2d hw \<noteq> 0 \<or> su_nsamples surf = 1"
    and "r6_mode hw surf = (mode, surf0)" "mode \<le> RADEON_SURF_MODE_2D" "r6_fits hw surf0 mode"
  shows "\<exists>surf'. r6_surface_init hw surf = Some (0, surf') \<and> su_flags surf' = su_flags surf0 \<and>
     su_bo_alignment surf' = ucast (r6_bo_align hw surf0 mode) \<and>
     tree_placed surf' (su_level surf') (Suc (unat (su_last_level surf))) (unat (su_bo_alignment surf')) \<and>
     (\<forall>i \<le> unat (su_last_level surf). level_covers surf0 (unat (su_bpe surf)) i (su_level surf' ! i) \<and>
        sl_mode (su_level surf' ! i) =
          (if mode = RADEON_SURF_MODE_2D \<and> r6_first hw surf0 \<le> i then RADEON_SURF_MODE_1D else mode))"
proof -
  note f = r6_mode_fields [OF assms(10)]
  have l: "length (su_level surf0) = 32" using assms(4) f(7) by (simp add: surf_wf_def RADEON_SURF_MAX_LEVEL_def)
  have "r6_promise hw surf0 mode (r6_tree_of hw surf0 mode)"
    using assms f l by (intro r6_tree_of_promise) simp_all
  from r6_promise_store [OF this l] show ?thesis
    unfolding r6_surface_init_eq [OF assms(10,9,5-8,11)] f(6,8) .
qed

definition r6_demo_hw :: radeon_hw_info where
  "r6_demo_hw = \<lparr>hw_group_bytes = 256, hw_num_banks = 8, hw_num_pipes = 2, hw_row_size = 0, hw_allow_2d = 1,
     hw_tile_mode_array = [], hw_macrotile_mode_array = []\<rparr>"

definition demo_surf :: "u32 \<Rightarrow> radeon_surface" where
  "demo_surf flags = \<lparr>su_npix_x = 200, su_npix_y = 100, su_npix_z = 1, su_blk_w = 1, su_blk_h = 1, su_blk_d = 1,
     su_array_size = 1, su_last_level = 3, su_bpe = 4, su_nsamples = 1, su_flags = flags, su_bo_size = 0,
     su_bo_alignment = 0, su_bankw = 0, su_bankh = 0, su_mtilea = 0, su_tile_split = 0, su_stencil_tile_split = 0,
     su_stencil_offset = 0, su_level = replicate 32 level_uninit, su_stencil_level = replicate 32 level_uninit,
     su_tiling_index = replicate 32 0, su_stencil_tiling_index = replicate 32 0\<rparr>"

lemma demo_mode: "r6_mode r6_demo_hw (demo_surf 0x301) = (RADEON_SURF_MODE_2D, demo_surf 0x301)"
  by (simp add: r6_mode_def r6_demo_hw_def demo_surf_def init_mode_def RADEON_SURF_GET_MODE_def flag_def
    RADEON_SURF_Z_OR_SBUFFER_def RADEON_SURF_ZBUFFER_def RADEON_SURF_SBUFFER_def RADEON_SURF_MODE_2D_def
    RADEON_SURF_MODE_1D_def)

lemma demo_xa: "r6_xa_2d r6_demo_hw (demo_surf 0x301) = 64" "r6_xa_1d r6_demo_hw (demo_surf 0x301) = 8"
  "r6_align_2d r6_demo_hw (demo_surf 0x301) = 4096"
  by (simp_all add: r6_align_2d_def r6_xa_2d_def r6_xa_1d_def r6_demo_hw_def demo_surf_def scanout_xalign_def flag_def
    RADEON_SURF_SCANOUT_def)

lemma demo_dims: "map (ref_x (demo_surf f)) [0, 1, 2, 3] = [200, 128, 64, 32]"
  "map (ref_y (demo_surf f)) [0, 1, 2, 3] = [100, 64, 32, 16]"
  "map (ref_z (demo_surf f)) [0, 1, 2, 3] = [1, 1, 1, 1]"
  by (simp_all add: ref_x_def ref_y_def ref_z_def demo_surf_def mip_dim_def cdiv_def npot.simps)

lemma demo_fields [simp]:
  "su_last_level (demo_surf f) = 3" "su_bpe (demo_surf f) = 4" "su_nsamples (demo_surf f) = 1"
  "su_flags (demo_surf f) = f" "su_array_size (demo_surf f) = 1" "hw_num_pipes r6_demo_hw = 2"
  "hw_group_bytes r6_demo_hw = 256"
  by (simp_all add: demo_surf_def r6_demo_hw_def)

lemma upt_0_4: "[0..<4] = [0, 1, 2, 3]"
  by (simp add: upt_rec)

lemma demo_first: "r6_first r6_demo_hw (demo_surf 0x301) = 3"
  using demo_dims [of "0x301"]
  by (simp add: r6_first_def demo_xa first_level_def upt_0_4 ref_small_def flag_def RADEON_SURF_FMASK_def)

lemma demo_bytes: "r6_bytes r6_demo_hw (demo_surf 0x301) RADEON_SURF_MODE_2D i =
   (if i < 3 then align_up (ref_x (demo_surf 0x301) i) 64 * 4 * align_up (ref_y (demo_surf 0x301) i) 16
    else align_up (ref_x (demo_surf 0x301) i) 8 * 4 * align_up (ref_y (demo_surf 0x301) i) 8) * ref_z (demo_surf 0x301) i"
  by (simp add: r6_bytes_def Let_def mix_def demo_first demo_xa ref_bytes_def ref_slice_def ref_pitch_def)

lemma demo_fits: "r6_fits r6_demo_hw (demo_surf 0x301) RADEON_SURF_MODE_2D"
proof -
  have b: "map (r6_bytes r6_demo_hw (demo_surf 0x301) RADEON_SURF_MODE_2D) [0, 1, 2, 3] =
      [114688, 32768, 8192, 2048]"
    using demo_dims [of "0x301"] by (simp add: demo_bytes align_up_def cdiv_def)
  have "r6_bytes r6_demo_hw (demo_surf 0x301) RADEON_SURF_MODE_2D (Suc (Suc 0)) = 8192"
    "r6_bytes r6_demo_hw (demo_surf 0x301) RADEON_SURF_MODE_2D (Suc (Suc (Suc 0))) = 2048"
    using b by (simp_all flip: numeral_2_eq_2 numeral_3_eq_3)
  then show ?thesis using b
    by (simp add: r6_fits_def r6_bo_align_def demo_first demo_xa mip_fits_def upt_0_4 mip_place_def
        mip_step_def align_up_def cdiv_def upt_rec)
qed

theorem r6_surface_init_layout_witness:
  "\<exists>surf'. r6_surface_init r6_demo_hw (demo_surf 0x301) = Some (0, surf') \<and>
     tree_placed surf' (su_level surf') 4 (unat (su_bo_alignment surf')) \<and>
     sl_mode (su_level surf' ! 2) = RADEON_SURF_MODE_2D \<and> sl_mode (su_level surf' ! 3) = RADEON_SURF_MODE_1D"
proof -
  have "hw_ok r6_demo_hw" "elem_ok (demo_surf 0x301)" "dims_ok (demo_surf 0x301)" "surf_wf (demo_surf 0x301)"
    "su_npix_x (demo_surf 0x301) \<le> 8192" "su_npix_y (demo_surf 0x301) \<le> 8192" "su_npix_z (demo_surf 0x301) \<le> 8192"
    "su_last_level (demo_surf 0x301) \<le> 14" "hw_allow_2d r6_demo_hw \<noteq> 0 \<or> su_nsamples (demo_surf 0x301) = 1"
    "RADEON_SURF_MODE_2D \<le> RADEON_SURF_MODE_2D"
    by (simp_all add: hw_ok_def elem_ok_def dims_ok_def surf_wf_def r6_demo_hw_def demo_surf_def
      RADEON_SURF_MAX_LEVEL_def)
  from r6_surface_init_layout [OF this(1-9) demo_mode this(10) demo_fits]
  show ?thesis by (auto simp: demo_first)
qed

end
