(* ===== verification/Radeon_Evergreen.thy ===== *)
theory Radeon_Evergreen
  imports Radeon_R600
begin

text \<open>
  The evergreen/cayman part of \<open>radeon/radeon_surface.c\<close>: hardware parameters, sanity checks,
  1D and macro-tiled 2D mipmap trees with separate stencil trees, and the choice of tiling
  parameters.
\<close>

section \<open>Hardware parameters\<close>

text \<open>The four switches on the tiling word, which the evergreen, southern islands and sea islands
  functions repeat.\<close>

definition decode_tiling_config :: "u32 \<Rightarrow> radeon_hw_info \<Rightarrow> radeon_hw_info" where
  "decode_tiling_config tiling_config hw =
    (let p = tiling_config AND 0xf;
         hw = (if p = 0 then hw\<lparr>hw_num_pipes := 1\<rparr>
          else if p = 1 then hw\<lparr>hw_num_pipes := 2\<rparr>
          else if p = 2 then hw\<lparr>hw_num_pipes := 4\<rparr>
          else if p = 3 then hw\<lparr>hw_num_pipes := 8\<rparr>
          else hw\<lparr>hw_num_pipes := 8, hw_allow_2d := 0\<rparr>);
         b = drop_bit 4 (tiling_config AND 0xf0);
         hw = (if b = 0 then hw\<lparr>hw_num_banks := 4\<rparr>
          else if b = 1 then hw\<lparr>hw_num_banks := 8\<rparr>
          else if b = 2 then hw\<lparr>hw_num_banks := 16\<rparr>
          else hw\<lparr>hw_num_banks := 8, hw_allow_2d := 0\<rparr>);
         g = drop_bit 8 (tiling_config AND 0xf00);
         hw = (if g = 0 then hw\<lparr>hw_group_bytes := 256\<rparr>
          else if g = 1 then hw\<lparr>hw_group_bytes := 512\<rparr>
          else hw\<lparr>hw_group_bytes := 256, hw_allow_2d := 0\<rparr>);
         r = drop_bit 12 (tiling_config AND 0xf000);
         hw = (if r = 0 then hw\<lparr>hw_row_size := 1024\<rparr>
          else if r = 1 then hw\<lparr>hw_row_size := 2048\<rparr>
          else if r = 2 then hw\<lparr>hw_row_size := 4096\<rparr>
          else hw\<lparr>hw_row_size := 4096, hw_allow_2d := 0\<rparr>)
     in hw)"

definition eg_init_hw_info :: "radeon_kernel \<Rightarrow> radeon_hw_info \<Rightarrow> (int \<times> radeon_hw_info) option" where
  "eg_init_hw_info k hw = do {
     (r, v) \<leftarrow> radeon_get_value k RADEON_INFO_TILING_CONFIG [0];
     if r \<noteq> 0 then Some (r, hw)
     else do {
       let hw = hw\<lparr>hw_allow_2d := if version_at_least k 16 then 1 else 0\<rparr>;
       Some (0, decode_tiling_config (v ! 0) hw)
     }
   }"

section \<open>Layout\<close>

text \<open>The end of the macro-tiled \<open>surf_minify\<close> variants: the level is a whole number of macro tiles
  of \<open>mtileb\<close> bytes, \<open>slice_pt\<close> times.\<close>

definition macro_tile_level ::
  "radeon_surface \<Rightarrow> radeon_surface_level \<Rightarrow> u32 \<Rightarrow> u32 \<Rightarrow> u32 \<Rightarrow> u32 \<Rightarrow> u32 \<Rightarrow> u32 \<Rightarrow> u32 \<Rightarrow>
   (radeon_surface \<times> radeon_surface_level) option" where
  "macro_tile_level surf lv bpe slice_pt mtilew mtileh zalign mtileb offset = do {
     let bx = ALIGN (sl_nblk_x lv) mtilew;
     let by = ALIGN (sl_nblk_y lv) mtileh;
     let bz = ALIGN (sl_nblk_z lv) zalign;
     mtile_pr \<leftarrow> udiv bx mtilew;
     mtile_ps \<leftarrow> udiv (mtile_pr * by) mtileh;
     let slice = (ucast (mtile_ps * mtileb * slice_pt) :: u64);
     let lv = lv\<lparr>sl_nblk_x := bx, sl_nblk_y := by, sl_nblk_z := bz, sl_offset := ucast offset,
                 sl_pitch_bytes := bx * bpe * slice_pt, sl_slice_size := slice\<rparr>;
     Some (surf\<lparr>su_bo_size := ucast offset + slice * ucast bz * ucast (su_array_size surf)\<rparr>, lv)
   }"

definition eg_surf_minify ::
  "radeon_surface \<Rightarrow> radeon_surface_level \<Rightarrow> u32 \<Rightarrow> nat \<Rightarrow> u32 \<Rightarrow> u32 \<Rightarrow> u32 \<Rightarrow> u32 \<Rightarrow> u32 \<Rightarrow>
   (radeon_surface \<times> radeon_surface_level) option" where
  "eg_surf_minify surf lv bpe level slice_pt mtilew mtileh mtileb offset = do {
     lv \<leftarrow> minify_dims surf lv level;
     if falls_back_1d surf lv mtilew mtileh then Some (surf, lv\<lparr>sl_mode := RADEON_SURF_MODE_1D\<rparr>)
     else macro_tile_level surf lv bpe slice_pt mtilew mtileh 1 mtileb offset
   }"

text \<open>The alignment step of the evergreen functions: only for a tree that starts at level 0.\<close>

definition eg_align ::
  "radeon_surface \<Rightarrow> u32 \<Rightarrow> u64 \<Rightarrow> nat \<Rightarrow> radeon_surface \<times> u64" where
  "eg_align surf alignment offset start_level =
    (if start_level = 0 then
       (surf\<lparr>su_bo_alignment := max (su_bo_alignment surf) (ucast alignment)\<rparr>,
        if offset \<noteq> 0 then ALIGN_u64_u32 offset alignment else offset)
     else (surf, offset))"

definition eg_surface_init_1d ::
  "radeon_hw_info \<Rightarrow> u32 \<Rightarrow> radeon_surface \<Rightarrow> radeon_surface_level list \<Rightarrow> u64 \<Rightarrow> nat \<Rightarrow> mip_result option" where
  "eg_surface_init_1d hw bpe surf lvs offset start_level = do {
     let tilew = 8;
     q \<leftarrow> udiv (hw_group_bytes hw) (tilew * bpe * su_nsamples surf);
     let xalign = scanout_xalign surf bpe (max tilew q);
     let (surf, offset) = eg_align surf (max 256 (hw_group_bytes hw)) offset start_level;
     mip_loop (mip_body RADEON_SURF_MODE_1D
         (\<lambda>surf lv i off. surf_minify surf lv bpe i xalign tilew 1 (ucast off)))
       mip_done (level_range surf start_level) (surf, lvs, offset)
   }"

text \<open>Slices per tile and bytes per tile and slice.\<close>

definition tile_slices :: "u32 \<Rightarrow> u32 \<Rightarrow> (u32 \<times> u32) option" where
  "tile_slices tileb tile_split = do {
     slice_pt \<leftarrow> (if tileb > tile_split \<and> tile_split \<noteq> 0 then udiv tileb tile_split else Some 1);
     b \<leftarrow> udiv tileb slice_pt;
     Some (slice_pt, b)
   }"

text \<open>Macro tile width, height and bytes.\<close>

definition macro_tile ::
  "radeon_surface \<Rightarrow> u32 \<Rightarrow> u32 \<Rightarrow> u32 \<Rightarrow> (u32 \<times> u32 \<times> u32) option" where
  "macro_tile surf num_pipes num_banks tileb = do {
     let tilew = 8;
     let tileh = 8;
     let mtilew = (tilew * su_bankw surf * num_pipes) * su_mtilea surf;
     mtileh \<leftarrow> udiv (tileh * su_bankh surf * num_banks) (su_mtilea surf);
     let mtileb = (mtilew div tilew) * (mtileh div tileh) * tileb;
     Some (mtilew, mtileh, mtileb)
   }"

definition eg_surface_init_2d ::
  "radeon_hw_info \<Rightarrow> u32 \<Rightarrow> u32 \<Rightarrow> radeon_surface \<Rightarrow> radeon_surface_level list \<Rightarrow> u64 \<Rightarrow> nat \<Rightarrow>
   mip_result option" where
  "eg_surface_init_2d hw bpe tile_split surf lvs offset start_level = do {
     (slice_pt, tileb) \<leftarrow> tile_slices (8 * 8 * bpe * su_nsamples surf) tile_split;
     (mtilew, mtileh, mtileb) \<leftarrow> macro_tile surf (hw_num_pipes hw) (hw_num_banks hw) tileb;
     let (surf, offset) = eg_align surf (max 256 mtileb) offset start_level;
     mip_loop (mip_body_2d
         (\<lambda>surf lv i off. eg_surf_minify surf lv bpe i slice_pt mtilew mtileh mtileb (ucast off))
         (eg_surface_init_1d hw bpe))
       mip_done (level_range surf start_level) (surf, lvs, offset)
   }"

section \<open>Sanity\<close>

definition eg_surface_sanity :: "radeon_hw_info \<Rightarrow> radeon_surface \<Rightarrow> u32 \<Rightarrow> int \<times> radeon_surface" where
  "eg_surface_sanity hw surf mode =
    (if su_npix_x surf > 16384 \<or> su_npix_y surf > 16384 \<or> su_npix_z surf > 16384 then (- EINVAL, surf)
     else if su_last_level surf > 15 then (- EINVAL, surf)
     else if hw_allow_2d hw = 0 \<and> mode > RADEON_SURF_MODE_1D \<and> su_nsamples surf > 1 then (- EFAULT, surf)
     else
       let (mode, surf) =
             (if hw_allow_2d hw = 0 \<and> mode > RADEON_SURF_MODE_1D
              then (RADEON_SURF_MODE_1D, set_mode surf RADEON_SURF_MODE_1D) else (mode, surf))
       in if mode = RADEON_SURF_MODE_2D then
            if su_tile_split surf \<notin> {64, 128, 256, 512, 1024, 2048, 4096} then (- EINVAL, surf)
            else if su_mtilea surf \<notin> {1, 2, 4, 8} then (- EINVAL, surf)
            else if hw_num_banks hw < su_mtilea surf then (- EINVAL, surf)
            else if su_bankw surf \<notin> {1, 2, 4, 8} then (- EINVAL, surf)
            else if su_bankh surf \<notin> {1, 2, 4, 8} then (- EINVAL, surf)
            else if min (su_tile_split surf) (64 * su_bpe surf * su_nsamples surf) * su_bankh surf *
                    su_bankw surf < hw_group_bytes hw then (- EINVAL, surf)
            else (0, surf)
          else (0, surf))"

section \<open>Depth and stencil trees\<close>

text \<open>The stencil levels: the surface's own array, or a local one the caller never sees.\<close>

definition stencil_target :: "radeon_surface \<Rightarrow> radeon_surface_level list" where
  "stencil_target surf =
    (if flag (su_flags surf) RADEON_SURF_HAS_SBUFFER_MIPTREE then su_stencil_level surf
     else replicate RADEON_SURF_MAX_LEVEL level_uninit)"

definition eg_is_depth_stencil :: "radeon_surface \<Rightarrow> bool" where
  "eg_is_depth_stencil surf \<longleftrightarrow> su_flags surf AND RADEON_SURF_Z_OR_SBUFFER = RADEON_SURF_Z_OR_SBUFFER"

definition store_stencil :: "bool \<Rightarrow> mip_result \<Rightarrow> (int \<times> radeon_surface) option" where
  "store_stencil own res = (case res of (r, surf, lvs) \<Rightarrow> do {
     c_assert (lvs \<noteq> []);
     let surf = (if own then surf\<lparr>su_stencil_level := lvs\<rparr> else surf);
     Some (r, surf\<lparr>su_stencil_offset := sl_offset (lvs ! 0)\<rparr>)
   })"

definition eg_surface_init_1d_miptrees ::
  "radeon_hw_info \<Rightarrow> radeon_surface \<Rightarrow> (int \<times> radeon_surface) option" where
  "eg_surface_init_1d_miptrees hw surf = do {
     let is_depth_stencil = eg_is_depth_stencil surf;
     let own = flag (su_flags surf) RADEON_SURF_HAS_SBUFFER_MIPTREE;
     res \<leftarrow> eg_surface_init_1d hw (su_bpe surf) surf (su_level surf) 0 0;
     let (r, surf) = store_level res;
     if r \<noteq> 0 then Some (r, surf)
     else if is_depth_stencil then do {
       res \<leftarrow> eg_surface_init_1d hw 1 surf (stencil_target surf) (su_bo_size surf) 0;
       store_stencil own res
     }
     else Some (r, surf)
   }"

definition eg_surface_init_2d_miptrees ::
  "radeon_hw_info \<Rightarrow> radeon_surface \<Rightarrow> (int \<times> radeon_surface) option" where
  "eg_surface_init_2d_miptrees hw surf = do {
     let is_depth_stencil = eg_is_depth_stencil surf;
     let own = flag (su_flags surf) RADEON_SURF_HAS_SBUFFER_MIPTREE;
     res \<leftarrow> eg_surface_init_2d hw (su_bpe surf) (su_tile_split surf) surf (su_level surf) 0 0;
     let (r, surf) = store_level res;
     if r \<noteq> 0 then Some (r, surf)
     else if is_depth_stencil then do {
       res \<leftarrow> eg_surface_init_2d hw 1 (su_stencil_tile_split surf) surf (stencil_target surf) (su_bo_size surf) 0;
       store_stencil own res
     }
     else Some (r, surf)
   }"

definition eg_surface_init :: "radeon_hw_info \<Rightarrow> radeon_surface \<Rightarrow> (int \<times> radeon_surface) option" where
  "eg_surface_init hw surf =
    (let (mode, surf) = init_mode surf;
         (r, surf) = eg_surface_sanity hw surf mode
     in if r \<noteq> 0 then Some (r, surf)
        else
          let surf = surf\<lparr>su_stencil_offset := 0, su_bo_alignment := 0\<rparr> in
          if mode = RADEON_SURF_MODE_LINEAR then
            map_option store_level (r6_surface_init_linear hw surf (su_level surf) 0 0)
          else if mode = RADEON_SURF_MODE_LINEAR_ALIGNED then
            map_option store_level (r6_surface_init_linear_aligned hw surf (su_level surf) 0 0)
          else if mode = RADEON_SURF_MODE_1D then eg_surface_init_1d_miptrees hw surf
          else if mode = RADEON_SURF_MODE_2D then eg_surface_init_2d_miptrees hw surf
          else Some (- EINVAL, surf))"

section \<open>The best parameters\<close>

function log2_loop :: "nat \<Rightarrow> u32 \<Rightarrow> nat option" where
  "log2_loop l x =
    (case one_shl l of
       None \<Rightarrow> None
     | Some v \<Rightarrow> if v > x then Some (l - 1) else log2_loop (l + 1) x)"
  by auto
termination
  by (relation "measure (\<lambda>(l, _). 32 - l)") (auto simp: one_shl_def split: if_splits)

declare log2_loop.simps [simp del]

definition log2_int :: "u32 \<Rightarrow> nat option" where
  "log2_int x = (if x < 2 then Some 0 else log2_loop 2 x)"

text \<open>Double the bank height until a macro tile row covers a group.\<close>

partial_function (option) bankh_loop :: "u32 \<Rightarrow> u32 \<Rightarrow> u32 \<Rightarrow> u32 \<Rightarrow> u32 option" where
  "bankh_loop tileb bankw group_bytes bankh =
    (if bankh \<le> 8 then
       if tileb * bankh * bankw \<ge> group_bytes then Some bankh
       else bankh_loop tileb bankw group_bytes (bankh * 2)
     else Some bankh)"

text \<open>The tile split: \<open>None\<close> for the sample counts the code refuses.\<close>

definition eg_best_split :: "radeon_hw_info \<Rightarrow> radeon_surface \<Rightarrow> radeon_surface option" where
  "eg_best_split hw surf =
    (if su_nsamples surf > 1 then
       if flag (su_flags surf) RADEON_SURF_Z_OR_SBUFFER then
         (let n = su_nsamples surf in
          if n = 2 \<or> n = 4 then Some (surf\<lparr>su_tile_split := 128, su_stencil_tile_split := 64\<rparr>)
          else if n = 8 then Some (surf\<lparr>su_tile_split := 256, su_stencil_tile_split := 64\<rparr>)
          else if n = 16 then Some (surf\<lparr>su_tile_split := 512, su_stencil_tile_split := 64\<rparr>)
          else None)
       else
         let ts = max (su_nsamples surf * su_bpe surf * 64) 256 in
         Some (surf\<lparr>su_tile_split := if ts > 4096 then 4096 else ts\<rparr>)
     else Some (surf\<lparr>su_tile_split := hw_row_size hw, su_stencil_tile_split := hw_row_size hw div 2\<rparr>))"

definition eg_surface_best :: "radeon_hw_info \<Rightarrow> radeon_surface \<Rightarrow> (int \<times> radeon_surface) option" where
  "eg_surface_best hw surf = do {
     let mode = RADEON_SURF_GET_MODE (su_flags surf);
     let surf = surf\<lparr>su_tile_split := 1024, su_bankw := 1, su_bankh := 1, su_mtilea := hw_num_banks hw\<rparr>;
     let tileb = min (su_tile_split surf) (64 * su_bpe surf * su_nsamples surf);
     bh \<leftarrow> bankh_loop tileb (su_bankw surf) (hw_group_bytes hw) (su_bankh surf);
     let surf = surf\<lparr>su_bankh := bh\<rparr>;
     let surf = (if su_mtilea surf > 8 then surf\<lparr>su_mtilea := 8\<rparr> else surf);
     let (r, surf) = eg_surface_sanity hw surf mode;
     if r \<noteq> 0 then Some (r, surf)
     else if mode \<noteq> RADEON_SURF_MODE_2D then Some (0, surf)
     else
       (case eg_best_split hw surf of
          None \<Rightarrow> Some (- EINVAL, surf)
        | Some surf \<Rightarrow> do {
            let tileb = (if flag (su_flags surf) RADEON_SURF_SBUFFER
                         then min (su_tile_split surf) (64 * su_nsamples surf)
                         else min (su_tile_split surf) (64 * su_bpe surf * su_nsamples surf));
            let surf = surf\<lparr>su_bankw := 1,
              su_bankh := if tileb = 64 then 4 else if tileb = 128 \<or> tileb = 256 then 2 else 1\<rparr>;
            bh \<leftarrow> bankh_loop tileb (su_bankw surf) (hw_group_bytes hw) (su_bankh surf);
            let surf = surf\<lparr>su_bankh := bh\<rparr>;
            q \<leftarrow> udiv (push_bit 16 (su_bankh surf * hw_num_banks hw)) (su_bankw surf * hw_num_pipes hw);
            lg \<leftarrow> log2_int (drop_bit 16 q);
            a \<leftarrow> one_shl (lg div 2);
            Some (0, surf\<lparr>su_mtilea := a\<rparr>)
          })
   }"

end
