(* ===== verification/Radeon_Macro.thy ===== *)
theory Radeon_Macro
  imports Radeon_Evergreen
begin

text \<open>
  The layout of macro-tiled mipmap trees (evergreen and later): the level \<open>eg_surf_minify\<close> stores,
  the trees of \<open>eg_surface_init_1d\<close> and \<open>eg_surface_init_2d\<close>, and the depth and stencil trees
  \<open>eg_surface_init\<close> puts in one buffer.
\<close>

section \<open>Macro tiles\<close>

text \<open>A macro tile is a power of two of 8 to 8192 blocks wide and high.\<close>

definition mt_align :: "u32 \<Rightarrow> bool" where
  "mt_align a \<longleftrightarrow> (\<exists>k. 3 \<le> k \<and> k \<le> 13 \<and> p2 k a)"

text \<open>The tile split covers a tile exactly: \<open>slice_pt\<close> slices of \<open>tileb\<close> bytes are an 8 by 8 tile.\<close>

definition split_ok :: "u32 \<Rightarrow> u32 \<Rightarrow> u32 \<Rightarrow> u32 \<Rightarrow> bool" where
  "split_ok bpe ns slice_pt tileb \<longleftrightarrow> unat slice_pt * unat tileb = 64 * (unat bpe * unat ns)"

lemma mt_alignD:
  assumes "mt_align a"
  shows "pow2_align a" "a \<noteq> 0" "8 \<le> unat a" "unat a \<le> 2 ^ 13" "8 dvd unat a" "unat (a div 8) * 8 = unat a"
proof -
  from assms obtain k where k: "3 \<le> k" "k \<le> 13" "p2 k a" by (auto simp: mt_align_def)
  note u = p2_unat [OF k(3)]
  show "pow2_align a" using k by (intro pow2_alignI [OF k(3)]) simp
  show "a \<noteq> 0" by (rule p2_nz [OF k(3)])
  have "(2 :: nat) ^ 3 \<le> 2 ^ k" using k(1) by (rule power_increasing) simp
  then show "8 \<le> unat a" using u by simp
  have "(2 :: nat) ^ k \<le> 2 ^ 13" using k(2) by (rule power_increasing) simp
  then show "unat a \<le> 2 ^ 13" using u by simp
  have "(2 :: nat) ^ 3 dvd 2 ^ k" using k(1) by (rule le_imp_power_dvd)
  then show d: "8 dvd unat a" using u by simp
  then show "unat (a div 8) * 8 = unat a" by (simp add: unat_div)
qed

text \<open>Slices of whole macro tiles hold the blocks exactly.\<close>

lemma macro_tile_slice:
  fixes X Y M N :: nat
  assumes "M dvd X" "N dvd Y" "m * 8 = M" "n * 8 = N" "0 < M" "0 < N" "s * t = 64 * e"
  shows "(X div M) * (Y div N) * (m * n * t) * s = X * Y * e"
proof -
  from assms(1,2) obtain x y where xy: "X = M * x" "Y = N * y" by (elim dvdE)
  have "(X div M) * (Y div N) * (m * n * t) * s = x * y * (m * n) * (s * t)"
    using assms(5,6) xy by (simp add: ac_simps)
  also have "\<dots> = x * y * (m * 8) * (n * 8) * e" unfolding assms(7) by (simp add: ac_simps)
  also have "\<dots> = X * Y * e" unfolding assms(3,4) xy by (simp add: ac_simps)
  finally show ?thesis .
qed

lemma macro_tile_level_ref:
  fixes X Y Z :: nat
  defines "BX \<equiv> \<lambda>mw. align_up X (unat mw)" and "BY \<equiv> \<lambda>mh. align_up Y (unat mh)"
  defines "S \<equiv> \<lambda>mw mh bpe ns. BX mw * unat bpe * unat ns * BY mh"
  assumes nb: "sl_nblk_x lv = of_nat X" "sl_nblk_y lv = of_nat Y" "sl_nblk_z lv = of_nat Z"
    and le: "X \<le> 2 ^ 14" "Y \<le> 2 ^ 14" "Z \<le> 2 ^ 14"
    and mt: "mt_align mw" "mt_align mh" "split_ok bpe (su_nsamples surf) sp tb"
    and fits: "S mw mh bpe (su_nsamples surf) < 2 ^ 32"
  shows "macro_tile_level surf lv bpe sp mw mh 1 ((mw div 8) * (mh div 8) * tb) off =
    Some (surf\<lparr>su_bo_size := of_nat (unat off + S mw mh bpe (su_nsamples surf) * Z * unat (su_array_size surf))\<rparr>,
      lv\<lparr>sl_nblk_x := of_nat (BX mw), sl_nblk_y := of_nat (BY mh), sl_offset := of_nat (unat off),
         sl_pitch_bytes := of_nat (BX mw * unat bpe * unat sp),
         sl_slice_size := of_nat (S mw mh bpe (su_nsamples surf))\<rparr>)"
proof -
  note w = mt_alignD [OF mt(1)] and h = mt_alignD [OF mt(2)]
  let ?bx = "BX mw" and ?by = "BY mh" and ?S = "S mw mh bpe (su_nsamples surf)"
  let ?mb = "unat (mw div 8) * unat (mh div 8) * unat tb"
  have bx: "ALIGN (of_nat X) mw = of_nat ?bx" "ALIGN (of_nat Y) mh = of_nat ?by"
    using ALIGN_ref w(1) h(1) le unfolding BX_def BY_def by blast+
  have lt: "?bx < 2 ^ 15" "?by < 2 ^ 15"
    using align_up_less [of "unat mw" X] align_up_less [of "unat mh" Y] w(3,4) h(3,4) le
    unfolding BX_def BY_def by simp_all
  have u: "unat (of_nat ?bx :: u32) = ?bx" "unat (of_nat ?by :: u32) = ?by"
    using lt by (simp_all add: unat_of_nat_small)
  have pr: "unat (of_nat ?bx div mw) = ?bx div unat mw" by (simp add: unat_div u)
  have "?bx div unat mw \<le> ?bx div 8" using w(3) by (intro div_le_mono2) simp_all
  then have prl: "?bx div unat mw \<le> 2 ^ 12" using lt(1) by simp
  have "(?bx div unat mw) * ?by \<le> 2 ^ 12 * 2 ^ 15" using prl lt(2) by (intro mult_le_mono) simp_all
  then have "unat (of_nat ?bx div mw) * unat (of_nat ?by :: u32) < 2 ^ LENGTH(32)" unfolding pr u by simp
  moreover have d: "unat mh dvd ?by" unfolding BY_def by simp
  moreover note unat_mult_small [OF calculation(1)]
  ultimately have ps: "unat (of_nat ?bx div mw * of_nat ?by div mh) = (?bx div unat mw) * (?by div unat mh)"
    by (simp add: unat_div pr u div_mult_swap)
  have nat: "(?bx div unat mw) * (?by div unat mh) * ?mb * unat sp = ?S"
    using macro_tile_slice [of "unat mw" ?bx "unat mh" ?by "unat (mw div 8)" "unat (mh div 8)"
        "unat sp" "unat tb" "unat bpe * unat (su_nsamples surf)"] w(3,6) h(3,6) mt(3)
    by (simp add: BX_def BY_def S_def split_ok_def ac_simps)
  have wd: "of_nat ?bx div mw * of_nat ?by div mh * ((mw div 8) * (mh div 8) * tb) * sp = (of_nat ?S :: u32)"
    (is "?l = _")
  proof -
    have "?l = of_nat (unat (of_nat ?bx div mw * of_nat ?by div mh)) * of_nat ?mb * of_nat (unat sp)" by simp
    also have "\<dots> = of_nat ((?bx div unat mw) * (?by div unat mh) * ?mb * unat sp)" unfolding ps by (simp only: of_nat_mult)
    finally show ?thesis unfolding nat .
  qed
  have z: "(ucast (of_nat Z :: u32) :: u64) = of_nat Z" using le(3) by (intro ucast_of_nat) simp
  have s: "(ucast (of_nat ?S :: u32) :: u64) = of_nat ?S" by (rule ucast_of_nat [OF fits])
  have lv: "lv\<lparr>sl_nblk_x := a, sl_nblk_y := b, sl_nblk_z := of_nat Z, sl_offset := p, sl_pitch_bytes := q, sl_slice_size := r\<rparr> =
      lv\<lparr>sl_nblk_x := a, sl_nblk_y := b, sl_offset := p, sl_pitch_bytes := q, sl_slice_size := r\<rparr>" for a b p q r
    using nb(3) by (cases lv) simp
  show ?thesis using w(2) h(2)
    by (simp add: macro_tile_level_def nb bx wd z s lv Let_def)
qed

text \<open>The level \<open>eg_surf_minify\<close> stores: the reference level, but for the pitch.\<close>

definition mt_level ::
  "radeon_surface \<Rightarrow> nat \<Rightarrow> nat \<Rightarrow> nat \<Rightarrow> nat \<Rightarrow> nat \<Rightarrow> nat \<Rightarrow> radeon_surface_level" where
  "mt_level surf bpe sp mw mh i off = (ref_level surf bpe mw mh RADEON_SURF_MODE_2D i off)
     \<lparr>sl_pitch_bytes := of_nat (align_up (ref_x surf i) mw * bpe * sp)\<rparr>"

lemma eg_surf_minify_ref:
  assumes ok: "dims_ok surf" "i < 32" "mt_align mw" "mt_align mh" "split_ok bpe (su_nsamples surf) sp tb"
    and fits: "unat off + ref_bytes surf (unat bpe) (unat mw) (unat mh) i < 2 ^ 32"
    and large: "sl_mode lv = RADEON_SURF_MODE_2D" "\<not> ref_small surf (unat mw) (unat mh) i"
  shows "eg_surf_minify surf lv bpe i sp mw mh ((mw div 8) * (mh div 8) * tb) off =
    Some (surf\<lparr>su_bo_size := of_nat (unat off + ref_bytes surf (unat bpe) (unat mw) (unat mh) i)\<rparr>,
          mt_level surf (unat bpe) (unat sp) (unat mw) (unat mh) i (unat off))"
proof -
  have stay: "\<not> falls_back_1d surf (ref_dims surf i lv) mw mh"
    using large falls_back_ref [OF ok(1) large(1)] by simp
  have f: "align_up (ref_x surf i) (unat mw) * unat bpe * unat (su_nsamples surf) *
      align_up (ref_y surf i) (unat mh) < 2 ^ 32"
    using slice_fits [OF ok(1)] fits by (simp add: ref_bytes_def ref_slice_def ref_pitch_def)
  have nb: "sl_nblk_x (ref_dims surf i lv) = of_nat (ref_x surf i)" "sl_nblk_y (ref_dims surf i lv) = of_nat (ref_y surf i)"
    "sl_nblk_z (ref_dims surf i lv) = of_nat (ref_z surf i)" by (simp_all add: ref_dims_def)
  show ?thesis
    unfolding eg_surf_minify_def minify_dims_ref [OF ok(1,2)] bind.bind_lunit if_not_P [OF stay]
      macro_tile_level_ref [OF nb ref_xyz_le [OF ok(1)] ok(3-5) f]
    using large(1) by (cases lv) (simp add: ref_dims_def mt_level_def ref_level_def ref_bytes_def ref_slice_def ref_pitch_def)
qed

text \<open>What a surface needs for a macro-tiled tree, and one iteration of the loop.\<close>

definition mt_ok :: "u32 \<Rightarrow> u32 \<Rightarrow> u32 \<Rightarrow> u32 \<Rightarrow> u32 \<Rightarrow> radeon_surface \<Rightarrow> bool" where
  "mt_ok bpe sp tb mw mh surf \<longleftrightarrow> dims_ok surf \<and> bo_align_ok surf \<and> mt_align mw \<and> mt_align mh \<and>
     split_ok bpe (su_nsamples surf) sp tb"

lemma mt_ok_minify: "mt_ok bpe sp tb mw mh surf \<Longrightarrow> minify_ok mw mh surf"
  by (simp add: mt_ok_def minify_ok_def mt_alignD)

lemma mt_level_place:
  assumes "mt_ok bpe sp tb mw mh surf" "p + ref_bytes surf b (unat mw) (unat mh) i < 2 ^ 32"
  shows "unat (sl_offset (mt_level surf b s (unat mw) (unat mh) i p)) = p"
    "level_end surf (mt_level surf b s (unat mw) (unat mh) i p) = p + ref_bytes surf b (unat mw) (unat mh) i"
  using ref_level_place [OF mt_ok_minify [OF assms(1)] assms(2), of RADEON_SURF_MODE_2D]
  by (simp_all add: mt_level_def level_end_def)

lemma mt_level_mode [simp]: "sl_mode (mt_level surf bpe sp mw mh i off) = RADEON_SURF_MODE_2D"
  by (simp add: mt_level_def)

lemma eg_body_large:
  assumes "mt_ok bpe sp tb mw mh (fst st)" "\<not> ref_small (fst st) (unat mw) (unat mh) i"
    and "i < length (st_lv st)" "i < 16" "st_po st + ref_bytes (fst st) (unat bpe) (unat mw) (unat mh) i < 2 ^ 32"
  shows "\<exists>st'. mip_body_2d (\<lambda>surf lv i off. eg_surf_minify surf lv bpe i sp mw mh ((mw div 8) * (mh div 8) * tb)
         (ucast off)) fb i st = Some (Inl st') \<and> same_frame (fst st) (fst st') \<and>
     st_lv st' = (st_lv st)[i := mt_level (fst st) (unat bpe) (unat sp) (unat mw) (unat mh) i (st_po st)] \<and>
     unat (su_bo_size (fst st')) = st_po st + ref_bytes (fst st) (unat bpe) (unat mw) (unat mh) i \<and>
     st_po st' = mip_step (ref_bytes (fst st) (unat bpe) (unat mw) (unat mh))
       (unat (su_bo_alignment (fst st))) (st_po st) i"
proof -
  obtain surf lvs off where st: "st = (surf, lvs, off)" by (cases st) auto
  let ?b = "ref_bytes surf (unat bpe) (unat mw) (unat mh)"
  have ok: "dims_ok surf" "bo_align_ok surf" "mt_align mw" "mt_align mh" "split_ok bpe (su_nsamples surf) sp tb"
    using assms(1) st by (simp_all add: mt_ok_def)
  have off: "unat (ucast off :: u32) = unat off" using assms(5) st by (intro unat_ucast_low) simp
  have f: "unat off + ?b i < 2 ^ 32" using assms(5) st by simp
  have "eg_surf_minify surf ((lvs ! i)\<lparr>sl_mode := RADEON_SURF_MODE_2D\<rparr>) bpe i sp mw mh ((mw div 8) * (mh div 8) * tb)
      (ucast off) = Some (surf\<lparr>su_bo_size := of_nat (unat off + ?b i)\<rparr>,
        mt_level surf (unat bpe) (unat sp) (unat mw) (unat mh) i (unat off))"
    using eg_surf_minify_ref [OF ok(1) _ ok(3-5), of i "ucast off"] f off assms(2,4) st by simp
  then show ?thesis
    using assms(3) unat_u64_small [OF f] mip_next_offset_ref [of surf _ ?b, OF ok(2) f]
    by (simp add: st mip_body_2d_def del: of_nat_add)
qed

section \<open>The evergreen trees\<close>

text \<open>The row alignment of the 1D levels, and the surface and the offset a tree starts with.\<close>

definition eg_xa_1d :: "radeon_hw_info \<Rightarrow> u32 \<Rightarrow> radeon_surface \<Rightarrow> u32" where
  "eg_xa_1d hw bpe surf = r6_xa_1d hw (surf\<lparr>su_bpe := bpe\<rparr>)"

definition eg_elem_ok :: "u32 \<Rightarrow> radeon_surface \<Rightarrow> bool" where
  "eg_elem_ok bpe surf \<longleftrightarrow> bpe \<in> {1, 2, 4, 8, 16} \<and> su_nsamples surf \<in> {1, 2, 4, 8}"

definition eg_aligned :: "radeon_surface \<Rightarrow> u32 \<Rightarrow> nat \<Rightarrow> radeon_surface" where
  "eg_aligned surf a s = (if s = 0 then surf\<lparr>su_bo_alignment := max (su_bo_alignment surf) (ucast a)\<rparr> else surf)"

definition eg_start :: "u64 \<Rightarrow> u32 \<Rightarrow> nat \<Rightarrow> u64" where
  "eg_start off a s = (if s = 0 \<and> off \<noteq> 0 then ALIGN_u64_u32 off a else off)"

abbreviation eg_al_1d :: "radeon_hw_info \<Rightarrow> u32" where
  "eg_al_1d hw \<equiv> max 256 (hw_group_bytes hw)"

lemma eg_align_eq: "eg_align surf a off s = (eg_aligned surf a s, eg_start off a s)"
  by (simp add: eg_align_def eg_aligned_def eg_start_def)

lemma eg_elem_okD: "eg_elem_ok bpe surf \<Longrightarrow> elem_ok (surf\<lparr>su_bpe := bpe\<rparr>)"
  by (simp add: eg_elem_ok_def elem_ok_def)

lemma eg_aligned_fields [simp]:
  "level_range (eg_aligned surf a s) = level_range surf" "su_array_size (eg_aligned surf a s) = su_array_size surf"
  "su_nsamples (eg_aligned surf a s) = su_nsamples surf" "dims_ok (eg_aligned surf a s) = dims_ok surf"
  "ref_bytes (eg_aligned surf a s) = ref_bytes surf" "ref_level (eg_aligned surf a s) = ref_level surf"
  "ref_small (eg_aligned surf a s) = ref_small surf" "eg_elem_ok bpe (eg_aligned surf a s) = eg_elem_ok bpe surf"
  "su_last_level (eg_aligned surf a s) = su_last_level surf"
  by (simp_all add: fun_eq_iff level_range_def eg_aligned_def dims_ok_def eg_elem_ok_def)

lemma eg_surface_init_1d_eq:
  assumes "hw_ok hw" "eg_elem_ok bpe surf"
  shows "eg_surface_init_1d hw bpe surf lvs off s =
    mip_loop (mip_body RADEON_SURF_MODE_1D
        (\<lambda>surf' lv i off. surf_minify surf' lv bpe i (eg_xa_1d hw bpe surf) 8 1 (ucast off)))
      mip_done (level_range surf s) (eg_aligned surf (eg_al_1d hw) s, lvs, eg_start off (eg_al_1d hw) s)"
  using r6_alignments(2) [OF assms(1) eg_elem_okD [OF assms(2)]]
  by (simp add: eg_surface_init_1d_def eg_xa_1d_def r6_xa_1d_def scanout_xalign_def eg_align_eq)

text \<open>The greater of two powers of two, at 64 bits.\<close>

lemma bo_align_max:
  assumes "su_bo_alignment surf = 0 \<or> bo_align_ok surf" "p2 k a"
  shows "bo_align_ok (surf\<lparr>su_bo_alignment := max (su_bo_alignment surf) (ucast a)\<rparr>)"
  using assms bo_align_okI [OF assms(2), of surf] by (auto simp: bo_align_ok_def max_def)

lemma eg_aligned_ok:
  assumes "hw_ok hw" "bo_align_ok surf \<or> su_bo_alignment surf = 0 \<and> s = 0"
  shows "bo_align_ok (eg_aligned surf (eg_al_1d hw) s)"
proof -
  obtain g q b where "p2 g (hw_group_bytes hw)" by (rule r6_hw_p2 [OF assms(1)])
  note p = p2_max [OF p2_numerals(8) this]
  show ?thesis using assms(2) bo_align_max [OF _ p, of surf] by (auto simp: eg_aligned_def)
qed

lemma eg_aligned_frame: "same_frame surf surf' \<Longrightarrow> same_frame (eg_aligned surf a s) (eg_aligned surf' a s)"
  by (cases surf; cases surf') (simp add: eg_aligned_def same_frame_def surf_frame_def)

lemma mt_ok_frame: "same_frame surf surf' \<Longrightarrow> mt_ok bpe sp tb mw mh surf' = mt_ok bpe sp tb mw mh surf"
  by (simp add: mt_ok_def dims_ok_def bo_align_ok_def same_frameD)

lemma mt_level_frame: "same_frame surf surf' \<Longrightarrow> mt_level surf' = mt_level surf"
  by (intro ext) (simp add: mt_level_def frame_ref)

lemma mt_ok_bo_pos: "mt_ok bpe sp tb mw mh surf \<Longrightarrow> 0 < unat (su_bo_alignment surf)"
  by (rule minify_okD(1) [OF mt_ok_minify])

lemma eg_frame:
  assumes "same_frame surf surf'"
  shows "eg_elem_ok bpe surf' = eg_elem_ok bpe surf" "eg_xa_1d hw bpe surf' = eg_xa_1d hw bpe surf"
  using same_frameD [OF assms] by (simp_all add: eg_elem_ok_def eg_xa_1d_def r6_xa_1d_def scanout_xalign_def)

lemma eg_xa_1d_pow2: "hw_ok hw \<Longrightarrow> eg_elem_ok bpe surf \<Longrightarrow> pow2_align (eg_xa_1d hw bpe surf)"
  unfolding eg_xa_1d_def by (rule r6_alignments(5)) (auto intro: eg_elem_okD)

lemma eg_surf_minify_small:
  assumes "dims_ok surf" "ref_small surf (unat mw) (unat mh) i" "i < 32" "sl_mode x = RADEON_SURF_MODE_2D"
  shows "eg_surf_minify surf x bpe i sp mw mh mb off =
    Some (surf, (ref_dims surf i x)\<lparr>sl_mode := RADEON_SURF_MODE_1D\<rparr>)"
  using assms falls_back_ref [of surf x i mw mh] by (simp add: eg_surf_minify_def minify_dims_ref)

interpretation eg_tree: mip_tree_2d
  "mip_body_2d (\<lambda>surf lv i off. eg_surf_minify surf lv bpe i sp mw mh ((mw div 8) * (mh div 8) * tb) (ucast off))
     (eg_surface_init_1d hw bpe)"
  fst st_lv st_po "\<lambda>st i. unat (eg_start (snd (snd st)) (eg_al_1d hw) i)"
  "\<lambda>surf. mt_ok bpe sp tb mw mh surf \<and> hw_ok hw \<and> eg_elem_ok bpe surf \<and> xo = eg_xa_1d hw bpe surf"
  "\<lambda>surf i. \<not> ref_small surf (unat mw) (unat mh) i"
  "\<lambda>surf. mt_level surf (unat bpe) (unat sp) (unat mw) (unat mh)"
  "\<lambda>surf. ref_bytes surf (unat bpe) (unat mw) (unat mh)"
  "\<lambda>surf. unat (su_bo_alignment surf)" "\<lambda>surf. unat (su_bo_alignment surf)"
  "mip_body RADEON_SURF_MODE_1D (\<lambda>surf lv i off. surf_minify surf lv bpe i xo 8 1 (ucast off))"
  fst st_lv st_po "\<lambda>st _. st_po st"
  "\<lambda>surf. minify_ok xo 8 surf \<and> RADEON_SURF_MODE_1D \<noteq> RADEON_SURF_MODE_2D"
  "\<lambda>surf. ref_level surf (unat bpe) (unat xo) (unat (8 :: u32)) RADEON_SURF_MODE_1D"
  "\<lambda>surf. ref_bytes surf (unat bpe) (unat xo) (unat (8 :: u32))"
  "\<lambda>surf. unat (su_bo_alignment surf)" "\<lambda>surf. unat (su_bo_alignment surf)" mip_done
  "\<lambda>surf. eg_aligned surf (eg_al_1d hw)" mip_done
  for bpe sp tb mw mh hw xo
proof (unfold_locales, goal_cases)
  case (1 st i)
  then show ?case using eg_body_large [of bpe sp tb mw mh st i "eg_surface_init_1d hw bpe"]
    by (auto simp: eg_start_def)
next
  case (10 st i)
  let ?x = "(ref_dims (fst st) i ((st_lv st ! i)\<lparr>sl_mode := RADEON_SURF_MODE_2D\<rparr>))\<lparr>sl_mode := RADEON_SURF_MODE_1D\<rparr>"
  have d: "dims_ok (fst st)" using 10 by (simp add: mt_ok_def)
  have "mip_body_2d (\<lambda>surf lv i off. eg_surf_minify surf lv bpe i sp mw mh ((mw div 8) * (mh div 8) * tb) (ucast off))
      (eg_surface_init_1d hw bpe) i st =
      map_option Inr (eg_surface_init_1d hw bpe (fst st) ((st_lv st)[i := ?x]) (snd (snd st)) i)"
    using 10 d by (intro mip_body_2d_small eg_surf_minify_small) simp_all
  then show ?case using 10
    by (intro exI [of _ "(eg_aligned (fst st) (eg_al_1d hw) i, (st_lv st)[i := ?x],
        eg_start (snd (snd st)) (eg_al_1d hw) i)"] exI [of _ ?x]) (simp add: eg_surface_init_1d_eq)
next
  case (11 surf i)
  then show ?case using eg_aligned_ok [of hw surf i] eg_xa_1d_pow2 [of hw bpe surf]
    by (simp add: mt_ok_def minify_ok_def)
next
  case (12 surf surf' i)
  then show ?case by (rule eg_aligned_frame)
qed (auto simp: frame_ref same_frameD mt_ok_frame mt_level_frame eg_frame mt_level_place mt_ok_bo_pos
    minify_okD mip_done_def split: prod.splits)

section \<open>Tile parameters\<close>

text \<open>Slices per tile, bytes per tile and slice, and the macro tile, for legal parameters: the ones
  \<open>eg_surface_sanity\<close> accepts, and a tile split of 0, which stands for no split.\<close>

definition eg_tile_ok :: "radeon_hw_info \<Rightarrow> u32 \<Rightarrow> radeon_surface \<Rightarrow> bool" where
  "eg_tile_ok hw split surf \<longleftrightarrow> su_bankw surf \<in> {1, 2, 4, 8} \<and> su_bankh surf \<in> {1, 2, 4, 8} \<and>
     su_mtilea surf \<in> {1, 2, 4, 8} \<and> su_mtilea surf \<le> hw_num_banks hw \<and>
     split \<in> {0, 64, 128, 256, 512, 1024, 2048, 4096}"

definition eg_slices :: "u32 \<Rightarrow> u32 \<Rightarrow> radeon_surface \<Rightarrow> u32" where
  "eg_slices bpe split surf =
    (let t = 8 * 8 * bpe * su_nsamples surf in if split < t \<and> split \<noteq> 0 then t div split else 1)"

definition eg_tileb :: "u32 \<Rightarrow> u32 \<Rightarrow> radeon_surface \<Rightarrow> u32" where
  "eg_tileb bpe split surf = 8 * 8 * bpe * su_nsamples surf div eg_slices bpe split surf"

definition eg_mtilew :: "radeon_hw_info \<Rightarrow> radeon_surface \<Rightarrow> u32" where
  "eg_mtilew hw surf = 8 * su_bankw surf * hw_num_pipes hw * su_mtilea surf"

definition eg_mtileh :: "radeon_hw_info \<Rightarrow> radeon_surface \<Rightarrow> u32" where
  "eg_mtileh hw surf = 8 * su_bankh surf * hw_num_banks hw div su_mtilea surf"

definition eg_al_2d :: "radeon_hw_info \<Rightarrow> u32 \<Rightarrow> u32 \<Rightarrow> radeon_surface \<Rightarrow> u32" where
  "eg_al_2d hw bpe split surf =
     max 256 ((eg_mtilew hw surf div 8) * (eg_mtileh hw surf div 8) * eg_tileb bpe split surf)"

lemma eg_elem_p2:
  assumes "eg_elem_ok bpe surf"
  obtains t where "6 \<le> t" "t \<le> 13" "p2 t (8 * 8 * bpe * su_nsamples surf)"
    "unat (8 * 8 * bpe * su_nsamples surf) = 64 * (unat bpe * unat (su_nsamples surf))"
proof -
  obtain p s where e: "p \<le> 4" "s \<le> 3" "p2 p bpe" "p2 s (su_nsamples surf)"
    using elem_p2 [OF eg_elem_okD [OF assms]] by auto
  have t: "p2 (6 + p + s) (8 * 8 * bpe * su_nsamples surf)"
    using p2_mult [OF p2_mult [OF p2_numerals(7) e(3)] e(4)] e by simp
  show thesis using that [OF _ _ t] e p2_unat [OF t] p2_unat [OF e(3)] p2_unat [OF e(4)] by (simp add: power_add)
qed

lemma split_p2: "v \<in> {0, 64, 128, 256, 512, 1024, 2048, 4096} \<Longrightarrow> v = 0 \<or> (\<exists>j. p2 j v)"
proof -
  have "p2 6 64" "p2 7 128" "p2 8 256" "p2 9 512" "p2 10 1024" "p2 11 2048" "p2 12 4096" by (simp_all add: p2_def)
  then show "v \<in> {0, 64, 128, 256, 512, 1024, 2048, 4096} \<Longrightarrow> v = 0 \<or> (\<exists>j. p2 j v)" by auto
qed

lemma eg_split_params:
  assumes "eg_elem_ok bpe surf" "eg_tile_ok hw split surf"
  shows "eg_slices bpe split surf \<noteq> 0" "split_ok bpe (su_nsamples surf) (eg_slices bpe split surf) (eg_tileb bpe split surf)"
    "\<exists>k \<le> 13. p2 k (eg_tileb bpe split surf)"
proof -
  obtain t where t: "6 \<le> t" "t \<le> 13" "p2 t (8 * 8 * bpe * su_nsamples surf)"
    "unat (8 * 8 * bpe * su_nsamples surf) = 64 * (unat bpe * unat (su_nsamples surf))" by (rule eg_elem_p2 [OF assms(1)])
  let ?t = "8 * 8 * bpe * su_nsamples surf"
  have split: "split = 0 \<or> (\<exists>j. p2 j split)"
    using assms(2) split_p2 unfolding eg_tile_ok_def by blast
  have "\<exists>j \<le> t. p2 j (eg_slices bpe split surf) \<and> p2 (t - j) (eg_tileb bpe split surf)"
  proof (cases "split < ?t \<and> split \<noteq> 0")
    case True
    then obtain j where j: "p2 j split" using split by auto
    have "(2 :: nat) ^ j < 2 ^ t" using True p2_unat [OF j] p2_unat [OF t(3)] by (simp add: word_less_nat_alt)
    then have le: "j \<le> t" by simp
    have d: "p2 (t - j) (?t div split)" by (rule p2_div [OF t(3) j le])
    have "p2 (t - (t - j)) (?t div (?t div split))" by (rule p2_div [OF t(3) d]) simp
    then show ?thesis using d True by (intro exI [of _ "t - j"]) (simp add: eg_slices_def eg_tileb_def)
  next
    case False
    then show ?thesis using p2_numerals(1) t(3) by (intro exI [of _ 0]) (auto simp: eg_slices_def eg_tileb_def Let_def)
  qed
  then obtain j where j: "j \<le> t" "p2 j (eg_slices bpe split surf)" "p2 (t - j) (eg_tileb bpe split surf)" by blast
  show "eg_slices bpe split surf \<noteq> 0" by (rule p2_nz [OF j(2)])
  show "\<exists>k \<le> 13. p2 k (eg_tileb bpe split surf)" using j(1,3) t(2) by (intro exI [of _ "t - j"]) simp
  show "split_ok bpe (su_nsamples surf) (eg_slices bpe split surf) (eg_tileb bpe split surf)"
    using p2_unat [OF j(2)] p2_unat [OF j(3)] p2_unat [OF t(3)] t(4) j(1) by (simp add: split_ok_def flip: power_add)
qed

lemma bank_p2: "v \<in> {1, 2, 4, 8} \<Longrightarrow> \<exists>k \<le> 3. p2 k v"
  by (auto intro!: p2_bounds)

lemma eg_macro_params:
  assumes "hw_ok hw" "eg_elem_ok bpe surf" "eg_tile_ok hw split surf"
  shows "su_mtilea surf \<noteq> 0" "mt_align (eg_mtilew hw surf)" "mt_align (eg_mtileh hw surf)"
    "\<exists>k. p2 k (eg_al_2d hw bpe split surf)"
proof -
  obtain g q b where h: "g \<le> 9" "q \<le> 3" "b \<le> 4" "p2 g (hw_group_bytes hw)" "p2 q (hw_num_pipes hw)"
    "p2 b (hw_num_banks hw)" by (rule r6_hw_p2 [OF assms(1)])
  obtain bw bh ma where t: "bw \<le> 3" "p2 bw (su_bankw surf)" "bh \<le> 3" "p2 bh (su_bankh surf)"
    "ma \<le> 3" "p2 ma (su_mtilea surf)"
  proof -
    have "\<exists>bw \<le> 3. p2 bw (su_bankw surf)" "\<exists>bh \<le> 3. p2 bh (su_bankh surf)" "\<exists>ma \<le> 3. p2 ma (su_mtilea surf)"
      using assms(3) bank_p2 unfolding eg_tile_ok_def by blast+
    then show thesis using that by blast
  qed
  have "(2 :: nat) ^ ma \<le> 2 ^ b"
    using assms(3) p2_unat [OF t(6)] p2_unat [OF h(6)] by (simp add: eg_tile_ok_def word_le_nat_alt)
  then have le: "ma \<le> b" by simp
  have w: "p2 (3 + bw + q + ma) (eg_mtilew hw surf)" unfolding eg_mtilew_def
    by (intro p2_mult p2_numerals(4) t(2,6) h(5)) (use t h in simp_all)
  have "p2 (3 + bh + b) (8 * su_bankh surf * hw_num_banks hw)"
    by (intro p2_mult p2_numerals(4) t(4) h(6)) (use t h in simp_all)
  then have hh: "p2 (3 + bh + b - ma) (eg_mtileh hw surf)" unfolding eg_mtileh_def using t(6) le by (intro p2_div) simp_all
  show "su_mtilea surf \<noteq> 0" by (rule p2_nz [OF t(6)])
  show "mt_align (eg_mtilew hw surf)"
    unfolding mt_align_def using w t(1,5) h(2) by (intro exI [of _ "3 + bw + q + ma"]) simp
  show "mt_align (eg_mtileh hw surf)"
    unfolding mt_align_def using hh t(3) h(3) le
    by (intro exI [of _ "3 + bh + b - ma"] conjI) simp_all
  obtain k where k: "k \<le> 13" "p2 k (eg_tileb bpe split surf)" using eg_split_params(3) [OF assms(2,3)] by blast
  have w8: "p2 (3 + bw + q + ma - 3) (eg_mtilew hw surf div 8)" by (intro p2_div w p2_numerals(4)) simp
  have h8: "p2 (3 + bh + b - ma - 3) (eg_mtileh hw surf div 8)" using le by (intro p2_div hh p2_numerals(4)) simp
  have "p2 ((3 + bw + q + ma - 3) + (3 + bh + b - ma - 3) + k)
      ((eg_mtilew hw surf div 8) * (eg_mtileh hw surf div 8) * eg_tileb bpe split surf)"
    by (intro p2_mult w8 h8 k(2)) (use t h k(1) in simp_all)
  from p2_max [OF p2_numerals(8) this] show "\<exists>k. p2 k (eg_al_2d hw bpe split surf)" unfolding eg_al_2d_def by blast
qed

lemma eg_surface_init_2d_eq:
  assumes "hw_ok hw" "eg_elem_ok bpe surf" "eg_tile_ok hw split surf"
  defines "mw \<equiv> eg_mtilew hw surf" and "mh \<equiv> eg_mtileh hw surf"
  shows "eg_surface_init_2d hw bpe split surf lvs off 0 =
    mip_loop (mip_body_2d (\<lambda>surf' lv i off. eg_surf_minify surf' lv bpe i (eg_slices bpe split surf) mw mh
          ((mw div 8) * (mh div 8) * eg_tileb bpe split surf) (ucast off)) (eg_surface_init_1d hw bpe))
      mip_done (level_range surf 0) (eg_aligned surf (eg_al_2d hw bpe split surf) 0, lvs,
        eg_start off (eg_al_2d hw bpe split surf) 0)"
proof -
  have "tile_slices (8 * 8 * bpe * su_nsamples surf) split = Some (eg_slices bpe split surf, eg_tileb bpe split surf)"
    using eg_split_params(1) [OF assms(2,3)]
    by (auto simp: tile_slices_def eg_slices_def eg_tileb_def Let_def split: if_splits)
  moreover have "macro_tile surf (hw_num_pipes hw) (hw_num_banks hw) b = Some (mw, mh, (mw div 8) * (mh div 8) * b)" for b
    using eg_macro_params(1) [OF assms(1-3)] by (simp add: macro_tile_def mw_def mh_def eg_mtilew_def eg_mtileh_def Let_def)
  ultimately show ?thesis
    unfolding eg_surface_init_2d_def by (simp add: eg_align_eq eg_al_2d_def mw_def mh_def)
qed

section \<open>The promise of one tree\<close>

text \<open>The 64-bit \<open>ALIGN\<close> with an \<open>unsigned\<close> alignment is the 32-bit one: exact below 4 GiB.\<close>

lemma ALIGN_u64_u32_cut: "ALIGN_u64_u32 v a = ucast (ALIGN (ucast v :: u32) a)"
proof -
  have "x AND ucast w = (ucast (ucast x AND w) :: u64)" for x :: u64 and w :: u32
    by (rule bit_word_eqI) (auto simp: bit_simps dest: bit_imp_le_length)
  moreover have "ucast (v + ucast a - 1) = (ucast v + a - 1 :: u32)"
  proof transfer
    fix v a :: int
    have "(v + a mod 4294967296 - 1) mod 18446744073709551616 mod 4294967296 = (v + a mod 4294967296 - 1) mod 4294967296"
      by (rule mod_mod_cancel) simp
    also have "\<dots> = (v mod 18446744073709551616 + a - 1) mod 4294967296"
      by (intro mod_diff_cong mod_add_cong) (simp_all add: mod_mod_cancel)
    finally show "take_bit LENGTH(32) (take_bit LENGTH(64) (v + take_bit LENGTH(32) a - 1)) =
        take_bit LENGTH(32) (take_bit LENGTH(64) v + a - 1)" by (simp add: take_bit_eq_mod)
  qed
  ultimately show ?thesis by (simp add: ALIGN_u64_u32_def ALIGN_def)
qed

lemma eg_start_ref:
  assumes "p2 k a" "align_up (unat off) (unat a) < 2 ^ 32"
  shows "unat (eg_start off a 0) = align_up (unat off) (unat a)"
proof (cases "off = 0")
  case True
  then show ?thesis by (simp add: eg_start_def align_up_def cdiv_def p2_unat [OF assms(1)])
next
  case False
  note u = p2_unat [OF assms(1)]
  have k: "k < 32" using assms(1) by (simp add: p2_def)
  have o: "unat off < 2 ^ 32" using assms(2) align_up_ge [of "unat a" "unat off"] u by simp
  have "align_up (unat off) (unat a) + unat a \<le> 2 ^ 32"
  proof -
    have "unat a dvd 2 ^ 32" unfolding u using k by (intro le_imp_power_dvd) simp
    then obtain q where q: "2 ^ 32 = unat a * q" by (elim dvdE)
    have "align_up (unat off) (unat a) = unat a * cdiv (unat off) (unat a)" by (simp add: align_up_def)
    then have "unat a * cdiv (unat off) (unat a) < unat a * q" using assms(2) unfolding q by simp
    then have "Suc (cdiv (unat off) (unat a)) \<le> q" by (simp add: Suc_le_eq)
    then have "unat a * Suc (cdiv (unat off) (unat a)) \<le> unat a * q" by (rule mult_le_mono2)
    then show ?thesis unfolding q by (simp add: align_up_def algebra_simps)
  qed
  then have le: "unat (ucast off :: u32) + 2 ^ k \<le> 2 ^ LENGTH(32)"
    using align_up_ge [of "unat a" "unat off"] u unat_ucast_low [OF o] by simp
  show ?thesis
    using unat_ALIGN_pow2 [OF _ le] k False assms(1) u unat_ucast_low [OF o]
    by (simp add: eg_start_def ALIGN_u64_u32_cut p2_def)
qed

text \<open>
  The reference tree with elements of \<open>bpe\<close> bytes that starts behind \<open>off\<close> bytes: the first level
  that falls back to 1D, the bytes of the levels, the alignment of the buffer and the place of level 0.
\<close>

definition eg_first :: "radeon_hw_info \<Rightarrow> radeon_surface \<Rightarrow> u32 \<Rightarrow> nat" where
  "eg_first hw surf mode = (if mode = RADEON_SURF_MODE_2D
     then first_level (ref_small surf (unat (eg_mtilew hw surf)) (unat (eg_mtileh hw surf))) (Suc (unat (su_last_level surf)))
     else 0)"

definition eg_bytes :: "radeon_hw_info \<Rightarrow> u32 \<Rightarrow> radeon_surface \<Rightarrow> u32 \<Rightarrow> nat \<Rightarrow> nat" where
  "eg_bytes hw bpe surf mode = mix (eg_first hw surf mode)
     (ref_bytes surf (unat bpe) (unat (eg_mtilew hw surf)) (unat (eg_mtileh hw surf)))
     (ref_bytes surf (unat bpe) (unat (eg_xa_1d hw bpe surf)) 8)"

definition eg_bo_align :: "radeon_hw_info \<Rightarrow> u32 \<Rightarrow> u32 \<Rightarrow> radeon_surface \<Rightarrow> u32 \<Rightarrow> u64" where
  "eg_bo_align hw bpe split surf mode =
    (let a = (if mode = RADEON_SURF_MODE_2D then max (su_bo_alignment surf) (ucast (eg_al_2d hw bpe split surf))
              else su_bo_alignment surf)
     in if eg_first hw surf mode = 0 then max a (ucast (eg_al_1d hw)) else a)"

definition eg_place :: "radeon_hw_info \<Rightarrow> u32 \<Rightarrow> u32 \<Rightarrow> radeon_surface \<Rightarrow> u32 \<Rightarrow> nat \<Rightarrow> nat" where
  "eg_place hw bpe split surf mode off =
    (let p = (if mode = RADEON_SURF_MODE_2D then align_up off (unat (eg_al_2d hw bpe split surf)) else off)
     in if eg_first hw surf mode = 0 then align_up p (unat (eg_al_1d hw)) else p)"

definition eg_end :: "radeon_hw_info \<Rightarrow> u32 \<Rightarrow> u32 \<Rightarrow> radeon_surface \<Rightarrow> u32 \<Rightarrow> nat \<Rightarrow> nat" where
  "eg_end hw bpe split surf mode off =
     mip_place (eg_bytes hw bpe surf mode) (unat (eg_bo_align hw bpe split surf mode))
       (eg_place hw bpe split surf mode off) 0 (unat (su_last_level surf)) +
     eg_bytes hw bpe surf mode (unat (su_last_level surf))"

definition eg_fits :: "radeon_hw_info \<Rightarrow> u32 \<Rightarrow> u32 \<Rightarrow> radeon_surface \<Rightarrow> u32 \<Rightarrow> nat \<Rightarrow> bool" where
  "eg_fits hw bpe split surf mode off \<longleftrightarrow>
     mip_fits (eg_bytes hw bpe surf mode) (unat (eg_bo_align hw bpe split surf mode))
       (eg_place hw bpe split surf mode off) 0 (Suc (unat (su_last_level surf)))"

text \<open>A level with room for all its blocks: \<open>sp\<close> is the part of a tile the pitch counts.\<close>

definition level_room :: "radeon_surface \<Rightarrow> nat \<Rightarrow> nat \<Rightarrow> nat \<Rightarrow> radeon_surface_level \<Rightarrow> bool" where
  "level_room surf bpe sp i lv \<longleftrightarrow>
     unat (sl_npix_x lv) = mip_dim (unat (su_npix_x surf)) i \<and>
     unat (sl_npix_y lv) = mip_dim (unat (su_npix_y surf)) i \<and>
     unat (sl_npix_z lv) = mip_dim (unat (su_npix_z surf)) i \<and>
     ref_x surf i \<le> unat (sl_nblk_x lv) \<and> ref_y surf i \<le> unat (sl_nblk_y lv) \<and>
     ref_z surf i = unat (sl_nblk_z lv) \<and>
     sl_pitch_bytes lv = of_nat (unat (sl_nblk_x lv) * bpe * sp) \<and>
     unat (sl_slice_size lv) = unat (sl_nblk_x lv) * unat (sl_nblk_y lv) * bpe * unat (su_nsamples surf)"

lemma level_room_aligned [simp]: "level_room (eg_aligned surf a s) = level_room surf"
  by (intro ext) (simp add: level_room_def eg_aligned_def ref_x_def ref_y_def ref_z_def)

lemma level_covers_room:
  assumes "level_covers surf bpe i lv"
  shows "level_room surf bpe (unat (su_nsamples surf)) i lv"
proof -
  have "sl_pitch_bytes lv = of_nat (unat (sl_pitch_bytes lv))" by simp
  also have "\<dots> = of_nat (unat (sl_nblk_x lv) * bpe * unat (su_nsamples surf))"
    using assms unfolding level_covers_def by (elim conjE) (simp only:)
  finally show ?thesis using assms unfolding level_covers_def level_room_def by (elim conjE) (simp add: ac_simps)
qed

lemma mt_level_room:
  assumes "mt_ok bpe sp tb mw mh surf" "p + ref_bytes surf b (unat mw) (unat mh) i < 2 ^ 32"
  shows "level_room surf b s i (mt_level surf b s (unat mw) (unat mh) i p)"
proof -
  let ?lv = "ref_level surf b (unat mw) (unat mh) RADEON_SURF_MODE_2D i p"
  have ok: "dims_ok surf" "pow2_align mw" "pow2_align mh"
    using minify_okD(2-4) [OF mt_ok_minify [OF assms(1)]] by simp_all
  have c: "level_covers surf b i ?lv" by (rule ref_level_covers(1) [OF ok assms(2)])
  have "unat (sl_nblk_x ?lv) = align_up (ref_x surf i) (unat mw)"
    using align_up_less [of "unat mw" "ref_x surf i"] ref_xyz_le(1) [OF ok(1), of i] pow2_alignD(1,2) [OF ok(2)]
    by (simp add: ref_level_def unat_of_nat_small)
  then show ?thesis
    using level_covers_room [OF c] by (simp add: level_room_def mt_level_def)
qed

text \<open>What a tree function promises.\<close>

definition eg_promise ::
  "radeon_hw_info \<Rightarrow> u32 \<Rightarrow> u32 \<Rightarrow> radeon_surface \<Rightarrow> u32 \<Rightarrow> nat \<Rightarrow> nat \<Rightarrow> mip_result option \<Rightarrow> bool" where
  "eg_promise hw bpe split surf mode off len res \<longleftrightarrow> (\<exists>surf' lvs'. res = Some (0, surf', lvs') \<and>
     same_frame (surf\<lparr>su_bo_alignment := eg_bo_align hw bpe split surf mode\<rparr>) surf' \<and> length lvs' = len \<and>
     tree_placed surf' lvs' (Suc (unat (su_last_level surf))) (unat (eg_bo_align hw bpe split surf mode)) \<and>
     unat (sl_offset (lvs' ! 0)) = eg_place hw bpe split surf mode off \<and>
     unat (su_bo_size surf') = eg_end hw bpe split surf mode off \<and>
     (\<forall>i \<le> unat (su_last_level surf).
        (if i < eg_first hw surf mode
         then level_room surf (unat bpe) (unat (eg_slices bpe split surf)) i (lvs' ! i) \<and>
              sl_mode (lvs' ! i) = RADEON_SURF_MODE_2D
         else level_room surf (unat bpe) (unat (su_nsamples surf)) i (lvs' ! i) \<and>
              sl_mode (lvs' ! i) = RADEON_SURF_MODE_1D)))"

lemma mix_0 [simp]: "mix 0 f g = g"
  by (simp add: fun_eq_iff mix_def)

lemma mip_fits_start: "mip_fits b A p 0 (Suc n) \<Longrightarrow> p < 2 ^ 32"
  unfolding mip_fits_iff by (drule spec [of _ 0]) simp

lemma eg_place_0 [simp]: "mip_place b A p 0 0 = p"
  by (simp add: mip_place_def)

lemma eg_1d_promise:
  assumes ok: "hw_ok hw" "eg_elem_ok bpe surf" "dims_ok surf" "su_last_level surf \<le> 15" "length lvs = 32"
    and bo: "su_bo_alignment surf = 0 \<or> bo_align_ok surf"
    and fits: "eg_fits hw bpe split surf RADEON_SURF_MODE_1D (unat off)"
  shows "eg_promise hw bpe split surf RADEON_SURF_MODE_1D (unat off) 32 (eg_surface_init_1d hw bpe surf lvs off 0)"
proof -
  let ?n = "Suc (unat (su_last_level surf))" and ?s = "eg_aligned surf (eg_al_1d hw) 0"
  let ?xa = "eg_xa_1d hw bpe surf" and ?p = "eg_start off (eg_al_1d hw) 0"
  let ?b = "ref_bytes surf (unat bpe) (unat ?xa) (unat (8 :: u32))" and ?A = "unat (su_bo_alignment ?s)"
  have al: "eg_bo_align hw bpe split surf RADEON_SURF_MODE_1D = su_bo_alignment ?s" 
    and k: "eg_first hw surf RADEON_SURF_MODE_1D = 0" by (simp_all add: eg_bo_align_def eg_first_def eg_aligned_def)
  have pl: "eg_place hw bpe split surf RADEON_SURF_MODE_1D (unat off) = align_up (unat off) (unat (eg_al_1d hw))"
    by (simp add: eg_place_def k)
  have f: "mip_fits ?b ?A (align_up (unat off) (unat (eg_al_1d hw))) 0 ?n"
    using fits by (simp add: eg_fits_def eg_bytes_def k al pl)
  obtain j where j: "p2 j (eg_al_1d hw)" using r6_alignments(9) [OF ok(1) eg_elem_okD [OF ok(2)]] by blast
  have p: "unat ?p = align_up (unat off) (unat (eg_al_1d hw))"
    by (intro eg_start_ref [OF j] mip_fits_start [OF f])
  have m: "minify_ok ?xa 8 ?s"
    using ok bo eg_aligned_ok [OF ok(1), of surf 0] eg_xa_1d_pow2 [OF ok(1,2)] by (auto simp: minify_ok_def)
  have n: "?n \<le> 32" "?n \<le> 16" using ok(4) by (simp_all add: word_le_nat_alt)
  obtain surf' lvs' where t: "eg_surface_init_1d hw bpe surf lvs off 0 = Some (0, surf', lvs')"
    "same_frame ?s surf'" "length lvs' = 32" "tree_placed surf' lvs' ?n ?A"
    "\<And>i. i < ?n \<Longrightarrow> lvs' ! i = ref_level surf (unat bpe) (unat ?xa) (unat (8 :: u32)) RADEON_SURF_MODE_1D i
        (mip_place ?b ?A (unat ?p) 0 i)"
    "unat (su_bo_size surf') = eg_end hw bpe split surf RADEON_SURF_MODE_1D (unat off)"
    using bpe_tree.tree_promise [where mode = RADEON_SURF_MODE_1D and bpe = bpe and xa = ?xa and ya = 8
        and st = "(?s, lvs, ?p)" and n = ?n] m n ok(5) f p
    unfolding eg_surface_init_1d_eq [OF ok(1,2)] level_range_def by (auto simp: eg_end_def eg_bytes_def k al pl)
  have fit: "mip_place ?b ?A (unat ?p) 0 i + ?b i < 2 ^ 32" if "i < ?n" for i
    using f that p by (simp add: mip_fits_iff)
  have lv: "level_room surf (unat bpe) (unat (su_nsamples surf)) i (lvs' ! i) \<and> sl_mode (lvs' ! i) = RADEON_SURF_MODE_1D"
    if "i < ?n" for i
    using t(5) [OF that] level_covers_room [OF ref_level_covers(1) [OF ok(3) eg_xa_1d_pow2 [OF ok(1,2)] pow2_align_8 fit [OF that]]]
    by simp
  have "unat (sl_offset (lvs' ! 0)) = align_up (unat off) (unat (eg_al_1d hw))"
    using t(5) [of 0] ref_level_place(1) [OF m, of "unat ?p" "unat bpe" 0 RADEON_SURF_MODE_1D] fit [of 0] p by simp
  moreover have "?s = surf\<lparr>su_bo_alignment := su_bo_alignment ?s\<rparr>" by (simp add: eg_aligned_def)
  ultimately show ?thesis using t(1-4,6) lv unfolding eg_promise_def al pl k
    by (intro exI [of _ surf'] exI [of _ lvs']) (simp add: less_Suc_eq_le)
qed

lemma eg_2d_promise:
  assumes ok: "hw_ok hw" "eg_elem_ok bpe surf" "dims_ok surf" "su_last_level surf \<le> 15" "length lvs = 32"
    and bo: "su_bo_alignment surf = 0 \<or> bo_align_ok surf" and tile: "eg_tile_ok hw split surf"
    and fits: "eg_fits hw bpe split surf RADEON_SURF_MODE_2D (unat off)"
  shows "eg_promise hw bpe split surf RADEON_SURF_MODE_2D (unat off) 32 (eg_surface_init_2d hw bpe split surf lvs off 0)"
proof -
  let ?mode = RADEON_SURF_MODE_2D
  let ?n = "Suc (unat (su_last_level surf))" and ?k = "eg_first hw surf ?mode"
  let ?a2 = "eg_al_2d hw bpe split surf" and ?a1 = "eg_al_1d hw"
  let ?s = "eg_aligned surf ?a2 0" and ?p = "eg_start off ?a2 0"
  let ?mw = "eg_mtilew hw surf" and ?mh = "eg_mtileh hw surf" and ?xa = "eg_xa_1d hw bpe surf"
  let ?sp = "eg_slices bpe split surf" and ?tb = "eg_tileb bpe split surf"
  let ?b2 = "ref_bytes surf (unat bpe) (unat ?mw) (unat ?mh)" and ?b1 = "ref_bytes surf (unat bpe) (unat ?xa) (unat (8 :: u32))"
  let ?A = "unat (eg_bo_align hw bpe split surf ?mode)" and ?P = "eg_place hw bpe split surf ?mode (unat off)"
  note mp = eg_macro_params [OF ok(1,2) tile]
  obtain j where j: "p2 j ?a2" using mp(4) by blast
  obtain l where l: "p2 l ?a1" using r6_alignments(9) [OF ok(1) eg_elem_okD [OF ok(2)]] by blast
  have f: "mip_fits (mix ?k ?b2 ?b1) ?A ?P 0 ?n" using fits by (simp add: eg_fits_def eg_bytes_def)
  have P: "?P < 2 ^ 32" by (rule mip_fits_start [OF f])
  have pos: "0 < unat ?a1" using p2_unat [OF l] by simp
  have a2: "align_up (unat off) (unat ?a2) < 2 ^ 32"
    using P align_up_ge [OF pos, of "align_up (unat off) (unat ?a2)"] by (simp add: eg_place_def Let_def split: if_splits)
  note p = eg_start_ref [OF j a2]
  have fs: "eg_tree.mixed_start hw (?s, lvs, ?p) ?k = ?P"
  proof (cases "?k = 0")
    case True
    have "align_up (unat ?p) (unat ?a1) < 2 ^ 32" using P True p by (simp add: eg_place_def)
    from eg_start_ref [OF l this] show ?thesis using True p by (simp add: eg_tree.mixed_start_def eg_place_def)
  qed (use p in \<open>simp add: eg_tree.mixed_start_def eg_place_def\<close>)
  have fa: "eg_tree.mixed_algn hw ?s ?k = ?A"
    by (simp add: eg_tree.mixed_algn_def eg_bo_align_def eg_aligned_def)
  have fb: "eg_tree.mixed_bytes bpe ?mw ?mh ?xa hw ?s ?k = mix ?k ?b2 ?b1"
    unfolding eg_tree.mixed_bytes_def by simp
  have xs: "?xa = eg_xa_1d hw bpe ?s" by (simp add: eg_xa_1d_def r6_xa_1d_def eg_aligned_def scanout_xalign_def)
  have m: "mt_ok bpe ?sp ?tb ?mw ?mh ?s"
    using ok(3) mp(2,3) bo_align_max [OF bo j] eg_split_params(2) [OF ok(2) tile] by (simp add: mt_ok_def eg_aligned_def)
  have n: "?n \<le> 32" "?n \<le> 16" using ok(4) by (simp_all add: word_le_nat_alt)
  have k: "?k \<le> ?n" "\<And>i. i < ?k \<Longrightarrow> \<not> ref_small surf (unat ?mw) (unat ?mh) i"
    "?k < ?n \<Longrightarrow> ref_small surf (unat ?mw) (unat ?mh) ?k"
    unfolding eg_first_def if_P [OF refl] by (rule first_level_le, erule first_level_before, erule first_level_at)
  obtain surf' lvs' where t: "eg_surface_init_2d hw bpe split surf lvs off 0 = Some (0, surf', lvs')"
    "same_frame (if ?k < ?n then eg_aligned ?s ?a1 ?k else ?s) surf'" "length lvs' = 32" "tree_placed surf' lvs' ?n ?A"
    "\<And>i. i < ?n \<Longrightarrow> lvs' ! i = mix ?k (mt_level ?s (unat bpe) (unat ?sp) (unat ?mw) (unat ?mh))
       (ref_level surf (unat bpe) (unat ?xa) (unat (8 :: u32)) RADEON_SURF_MODE_1D) i (mip_place (mix ?k ?b2 ?b1) ?A ?P 0 i)"
    "unat (su_bo_size surf') = eg_end hw bpe split surf ?mode (unat off)"
    using eg_tree.tree_2d_promise [where st = "(?s, lvs, ?p)" and bpe = bpe and sp = ?sp and tb = ?tb and mw = ?mw
        and mh = ?mh and xo = ?xa and hw = hw and n = ?n and k = ?k] m ok(1,2,5) n k f xs
    unfolding eg_tree.mixed_place_def fst_conv fa fb fs eg_surface_init_2d_eq [OF ok(1,2) tile] level_range_def
    by (auto simp: eg_end_def eg_bytes_def)
  have fit: "mip_place (mix ?k ?b2 ?b1) ?A ?P 0 i + mix ?k ?b2 ?b1 i < 2 ^ 32" if "i < ?n" for i
    using f that by (simp add: mip_fits_iff)
  have lv: "if i < ?k then level_room surf (unat bpe) (unat ?sp) i (lvs' ! i) \<and> sl_mode (lvs' ! i) = ?mode
     else level_room surf (unat bpe) (unat (su_nsamples surf)) i (lvs' ! i) \<and> sl_mode (lvs' ! i) = RADEON_SURF_MODE_1D"
    if "i < ?n" for i
    using t(5) [OF that] fit [OF that] mt_level_room [OF m, of "mip_place (mix ?k ?b2 ?b1) ?A ?P 0 i" "unat bpe" i "unat ?sp"]
      level_covers_room [OF ref_level_covers(1) [OF ok(3) eg_xa_1d_pow2 [OF ok(1,2)] pow2_align_8]]
    by (auto simp: mix_def)
  have off0: "unat (sl_offset (lvs' ! 0)) = ?P"
    using t(5) [of 0] fit [of 0] mt_level_place(1) [OF m, of ?P "unat bpe" 0 "unat ?sp"]
      ref_level_covers(2) [OF ok(3) eg_xa_1d_pow2 [OF ok(1,2)] pow2_align_8, of ?P "unat bpe" 0 RADEON_SURF_MODE_1D]
    by (cases "?k = 0") (simp_all add: mix_def)
  have "same_frame (surf\<lparr>su_bo_alignment := eg_bo_align hw bpe split surf ?mode\<rparr>) surf'"
    using t(2) by (cases "?k = 0") (simp_all add: eg_bo_align_def eg_aligned_def split: if_splits)
  then show ?thesis using t(1,3,4,6) lv off0 unfolding eg_promise_def
    by (intro exI [of _ surf'] exI [of _ lvs']) (simp add: less_Suc_eq_le)
qed

section \<open>Depth and stencil in one buffer\<close>

definition eg_tree_of ::
  "radeon_hw_info \<Rightarrow> u32 \<Rightarrow> u32 \<Rightarrow> u32 \<Rightarrow> radeon_surface \<Rightarrow> radeon_surface_level list \<Rightarrow> u64 \<Rightarrow> mip_result option" where
  "eg_tree_of hw mode bpe split surf lvs off =
    (if mode = RADEON_SURF_MODE_2D then eg_surface_init_2d hw bpe split surf lvs off 0
     else eg_surface_init_1d hw bpe surf lvs off 0)"

text \<open>What a tree needs.\<close>

definition eg_tree_ok :: "radeon_hw_info \<Rightarrow> u32 \<Rightarrow> u32 \<Rightarrow> u32 \<Rightarrow> radeon_surface \<Rightarrow> bool" where
  "eg_tree_ok hw mode bpe split surf \<longleftrightarrow> hw_ok hw \<and> eg_elem_ok bpe surf \<and> dims_ok surf \<and> su_last_level surf \<le> 15 \<and>
     mode \<in> {RADEON_SURF_MODE_1D, RADEON_SURF_MODE_2D} \<and> (mode = RADEON_SURF_MODE_2D \<longrightarrow> eg_tile_ok hw split surf)"

lemma eg_tree_promise:
  assumes "eg_tree_ok hw mode bpe split surf" "length lvs = 32" "su_bo_alignment surf = 0 \<or> bo_align_ok surf"
    and "eg_fits hw bpe split surf mode (unat off)"
  shows "eg_promise hw bpe split surf mode (unat off) 32 (eg_tree_of hw mode bpe split surf lvs off)"
  using assms eg_1d_promise [of hw bpe surf lvs split off] eg_2d_promise [of hw bpe surf lvs split off]
  by (auto simp: eg_tree_ok_def eg_tree_of_def)

text \<open>Surfaces that differ only in what the trees neither read nor need.\<close>

definition same_layout :: "radeon_surface \<Rightarrow> radeon_surface \<Rightarrow> bool" where
  "same_layout surf surf' \<longleftrightarrow> same_frame (surf\<lparr>su_level := []\<rparr>) (surf'\<lparr>su_level := []\<rparr>)"

lemma same_layoutI: "same_frame surf surf' \<Longrightarrow> same_layout surf (surf'\<lparr>su_level := lvs\<rparr>)"
  by (cases surf; cases surf') (simp add: same_layout_def same_frame_def surf_frame_def)

lemma eg_layout:
  assumes "same_layout surf surf'"
  shows "eg_tree_ok hw mode bpe split surf' = eg_tree_ok hw mode bpe split surf"
    "eg_first hw surf' = eg_first hw surf" "eg_bo_align hw bpe split surf' = eg_bo_align hw bpe split surf"
    "eg_place hw bpe split surf' = eg_place hw bpe split surf" "eg_end hw bpe split surf' = eg_end hw bpe split surf"
    "eg_fits hw bpe split surf' = eg_fits hw bpe split surf" "level_room surf' = level_room surf"
    "eg_slices bpe split surf' = eg_slices bpe split surf" "bo_align_ok surf' = bo_align_ok surf"
proof -
  note f = same_frameD [OF assms [unfolded same_layout_def], simplified]
  have m: "eg_mtilew hw surf' = eg_mtilew hw surf" "eg_mtileh hw surf' = eg_mtileh hw surf"
    by (simp_all add: eg_mtilew_def eg_mtileh_def f)
  show sl: "eg_slices bpe split surf' = eg_slices bpe split surf" by (simp add: eg_slices_def f)
  have x: "ref_small surf' = ref_small surf" "ref_bytes surf' = ref_bytes surf" "eg_xa_1d hw bpe surf' = eg_xa_1d hw bpe surf"
    by (simp_all add: fun_eq_iff ref_small_def ref_bytes_def ref_slice_def ref_pitch_def ref_x_def ref_y_def ref_z_def f
      eg_xa_1d_def r6_xa_1d_def scanout_xalign_def)
  show fl: "eg_first hw surf' = eg_first hw surf" by (simp add: fun_eq_iff eg_first_def m x f)
  have al: "eg_al_2d hw bpe split surf' = eg_al_2d hw bpe split surf" by (simp add: eg_al_2d_def eg_tileb_def sl m f)
  have b: "eg_bytes hw bpe surf' = eg_bytes hw bpe surf" by (simp add: fun_eq_iff eg_bytes_def fl m x)
  show bo: "eg_bo_align hw bpe split surf' = eg_bo_align hw bpe split surf"
    and pl: "eg_place hw bpe split surf' = eg_place hw bpe split surf"
    by (simp_all add: fun_eq_iff eg_bo_align_def eg_place_def fl al f)
  show "eg_end hw bpe split surf' = eg_end hw bpe split surf" "eg_fits hw bpe split surf' = eg_fits hw bpe split surf"
    by (simp_all add: fun_eq_iff eg_end_def eg_fits_def b bo pl f)
  show "level_room surf' = level_room surf" "bo_align_ok surf' = bo_align_ok surf"
    "eg_tree_ok hw mode bpe split surf' = eg_tree_ok hw mode bpe split surf"
    by (simp_all add: fun_eq_iff level_room_def ref_x_def ref_y_def ref_z_def f bo_align_ok_def eg_tree_ok_def
      eg_elem_ok_def dims_ok_def eg_tile_ok_def)
qed

text \<open>The levels of a tree as the caller finds them: \<open>k\<close> macro-tiled levels, the others 1D.\<close>

definition eg_levels :: "radeon_surface \<Rightarrow> u32 \<Rightarrow> u32 \<Rightarrow> nat \<Rightarrow> radeon_surface_level list \<Rightarrow> bool" where
  "eg_levels surf bpe sp k lvs \<longleftrightarrow> (\<forall>i \<le> unat (su_last_level surf).
     (if i < k then level_room surf (unat bpe) (unat sp) i (lvs ! i) \<and> sl_mode (lvs ! i) = RADEON_SURF_MODE_2D
      else level_room surf (unat bpe) (unat (su_nsamples surf)) i (lvs ! i) \<and> sl_mode (lvs ! i) = RADEON_SURF_MODE_1D))"

lemma eg_promiseE:
  assumes "eg_promise hw bpe split surf mode off len res"
  obtains surf' lvs' where "res = Some (0, surf', lvs')"
    "same_frame (surf\<lparr>su_bo_alignment := eg_bo_align hw bpe split surf mode\<rparr>) surf'" "length lvs' = len"
    "tree_placed surf' lvs' (Suc (unat (su_last_level surf))) (unat (eg_bo_align hw bpe split surf mode))"
    "unat (sl_offset (lvs' ! 0)) = eg_place hw bpe split surf mode off"
    "unat (su_bo_size surf') = eg_end hw bpe split surf mode off"
    "eg_levels surf bpe (eg_slices bpe split surf) (eg_first hw surf mode) lvs'"
  using assms unfolding eg_promise_def eg_levels_def by blast

definition eg_miptrees :: "radeon_hw_info \<Rightarrow> u32 \<Rightarrow> radeon_surface \<Rightarrow> (int \<times> radeon_surface) option" where
  "eg_miptrees hw mode surf =
    (if mode = RADEON_SURF_MODE_2D then eg_surface_init_2d_miptrees hw surf else eg_surface_init_1d_miptrees hw surf)"

lemma eg_miptrees_eq:
  "eg_miptrees hw mode surf = do {
     res \<leftarrow> eg_tree_of hw mode (su_bpe surf) (su_tile_split surf) surf (su_level surf) 0;
     let (r, surf') = store_level res;
     if r \<noteq> 0 then Some (r, surf')
     else if eg_is_depth_stencil surf then do {
       res \<leftarrow> eg_tree_of hw mode 1 (su_stencil_tile_split surf') surf' (stencil_target surf') (su_bo_size surf');
       store_stencil (flag (su_flags surf) RADEON_SURF_HAS_SBUFFER_MIPTREE) res
     }
     else Some (r, surf')
   }"
  by (cases "mode = RADEON_SURF_MODE_2D")
    (simp_all add: eg_miptrees_def eg_tree_of_def eg_surface_init_2d_miptrees_def eg_surface_init_1d_miptrees_def Let_def
      cong: prod.case_cong if_cong)

text \<open>The place behind the main tree, where the stencil tree is laid out.\<close>

definition eg_behind :: "radeon_hw_info \<Rightarrow> u32 \<Rightarrow> radeon_surface \<Rightarrow> radeon_surface" where
  "eg_behind hw mode surf = surf\<lparr>su_bo_alignment := eg_bo_align hw (su_bpe surf) (su_tile_split surf) surf mode\<rparr>"

lemma eg_bo_align_ok:
  assumes "eg_tree_ok hw mode bpe split surf" "su_bo_alignment surf = 0 \<or> bo_align_ok surf"
  shows "bo_align_ok (surf\<lparr>su_bo_alignment := eg_bo_align hw bpe split surf mode\<rparr>)"
proof -
  have ok: "hw_ok hw" "eg_elem_ok bpe surf" using assms(1) by (simp_all add: eg_tree_ok_def)
  obtain l where l: "p2 l (eg_al_1d hw)" using r6_alignments(9) [OF ok(1) eg_elem_okD [OF ok(2)]] by blast
  show ?thesis
  proof (cases "mode = RADEON_SURF_MODE_2D")
    case True
    then obtain j where j: "p2 j (eg_al_2d hw bpe split surf)"
      using assms(1) eg_macro_params(4) [OF ok, of split] by (auto simp: eg_tree_ok_def)
    let ?s = "surf\<lparr>su_bo_alignment := max (su_bo_alignment surf) (ucast (eg_al_2d hw bpe split surf))\<rparr>"
    have "bo_align_ok ?s" by (rule bo_align_max [OF assms(2) j])
    then show ?thesis using bo_align_max [of ?s, OF _ l] True
      by (cases "eg_first hw surf mode = 0") (simp_all add: eg_bo_align_def)
  next
    case False
    then show ?thesis using bo_align_max [OF assms(2) l] by (simp add: eg_bo_align_def eg_first_def)
  qed
qed

text \<open>The main tree alone, and the main tree with the stencil tree behind it.\<close>

lemma eg_main_tree:
  assumes ok: "eg_tree_ok hw mode (su_bpe surf) (su_tile_split surf) surf" "surf_wf surf"
    and bo: "su_bo_alignment surf = 0"
    and fits: "eg_fits hw (su_bpe surf) (su_tile_split surf) surf mode 0"
  obtains surf' lvs' where
    "eg_tree_of hw mode (su_bpe surf) (su_tile_split surf) surf (su_level surf) 0 = Some (0, surf', lvs')"
    "same_frame (eg_behind hw mode surf) surf'" "length lvs' = 32"
    "tree_placed surf' lvs' (Suc (unat (su_last_level surf))) (unat (su_bo_alignment (eg_behind hw mode surf)))"
    "unat (su_bo_size surf') = eg_end hw (su_bpe surf) (su_tile_split surf) surf mode 0"
    "eg_levels surf (su_bpe surf) (eg_slices (su_bpe surf) (su_tile_split surf) surf) (eg_first hw surf mode) lvs'"
proof -
  have "length (su_level surf) = 32" using ok(2) by (simp add: surf_wf_def RADEON_SURF_MAX_LEVEL_def)
  from eg_tree_promise [OF ok(1) this, of 0] bo fits
  have "eg_promise hw (su_bpe surf) (su_tile_split surf) surf mode 0 32
      (eg_tree_of hw mode (su_bpe surf) (su_tile_split surf) surf (su_level surf) 0)" by simp
  then show thesis by (elim eg_promiseE) (rule that, simp_all add: eg_behind_def)
qed

lemma eg_levels_layout: "same_layout surf surf' \<Longrightarrow> eg_levels surf' = eg_levels surf"
  using same_frameD [of "surf\<lparr>su_level := []\<rparr>" "surf'\<lparr>su_level := []\<rparr>"]
  by (auto simp: fun_eq_iff eg_levels_def eg_layout same_layout_def)

lemma eg_stencil_tree:
  assumes ok: "eg_tree_ok hw mode 1 split (eg_behind hw mode surf)" "length lvs = 32"
    and main: "same_frame (eg_behind hw mode surf) surf'" "bo_align_ok (eg_behind hw mode surf)"
    and fits: "eg_fits hw 1 split (eg_behind hw mode surf) mode (unat off)"
  obtains surf2 lvs2 where
    "eg_tree_of hw mode 1 split (surf'\<lparr>su_level := l\<rparr>) lvs off = Some (0, surf2, lvs2)"
    "same_frame (surf'\<lparr>su_level := l, su_bo_alignment := eg_bo_align hw 1 split (eg_behind hw mode surf) mode\<rparr>) surf2"
    "length lvs2 = 32"
    "tree_placed surf2 lvs2 (Suc (unat (su_last_level surf))) (unat (eg_bo_align hw 1 split (eg_behind hw mode surf) mode))"
    "unat (sl_offset (lvs2 ! 0)) = eg_place hw 1 split (eg_behind hw mode surf) mode (unat off)"
    "eg_levels surf 1 (eg_slices 1 split surf) (eg_first hw surf mode) lvs2"
proof -
  let ?s = "eg_behind hw mode surf" and ?t = "surf'\<lparr>su_level := l\<rparr>"
  have lay: "same_layout ?s ?t" by (rule same_layoutI [OF main(1)])
  note e = eg_layout [OF lay] and ll = same_frameD(8) [OF main(1)]
  have "eg_promise hw 1 split ?t mode (unat off) 32 (eg_tree_of hw mode 1 split ?t lvs off)"
    using ok main(2) fits by (intro eg_tree_promise) (simp_all add: e)
  moreover have "eg_slices 1 split ?s = eg_slices 1 split surf" "eg_first hw ?s mode = eg_first hw surf mode"
    "eg_levels ?s = eg_levels surf"
    by (simp_all add: eg_behind_def eg_slices_def eg_first_def eg_mtilew_def eg_mtileh_def fun_eq_iff eg_levels_def
      level_room_def ref_x_def ref_y_def ref_z_def)
  ultimately show thesis
    by (elim eg_promiseE) (rule that, simp_all add: e ll eg_levels_layout [OF lay] eg_behind_def)
qed

lemma tree_placed_grow:
  "tree_placed surf lvs n A \<Longrightarrow> su_array_size surf' = su_array_size surf \<Longrightarrow>
   unat (su_bo_size surf) \<le> unat (su_bo_size surf') \<Longrightarrow> tree_placed surf' lvs n A"
  by (auto simp: tree_placed_def level_end_def intro: order_trans)

lemma eg_place_ge:
  assumes "eg_tree_ok hw mode bpe split surf"
  shows "off \<le> eg_place hw bpe split surf mode off"
proof -
  have ok: "hw_ok hw" "eg_elem_ok bpe surf" using assms by (simp_all add: eg_tree_ok_def)
  obtain l where "p2 l (eg_al_1d hw)" using r6_alignments(9) [OF ok(1) eg_elem_okD [OF ok(2)]] by blast
  then have a: "p \<le> align_up p (unat (eg_al_1d hw))" for p by (intro align_up_ge) (simp add: p2_unat)
  show ?thesis
  proof (cases "mode = RADEON_SURF_MODE_2D")
    case True
    then obtain j where "p2 j (eg_al_2d hw bpe split surf)"
      using assms eg_macro_params(4) [OF ok, of split] by (auto simp: eg_tree_ok_def)
    then have "off \<le> align_up off (unat (eg_al_2d hw bpe split surf))" by (intro align_up_ge) (simp add: p2_unat)
    then show ?thesis using a [of "align_up off (unat (eg_al_2d hw bpe split surf))"] True by (simp add: eg_place_def Let_def)
  qed (use a in \<open>simp add: eg_place_def\<close>)
qed

text \<open>The surface the trees are laid out for, and all that \<open>eg_surface_init\<close> needs.\<close>

definition eg_clear :: "radeon_surface \<Rightarrow> radeon_surface" where
  "eg_clear surf = surf\<lparr>su_stencil_offset := 0, su_bo_alignment := 0\<rparr>"

definition eg_stencil_ok :: "radeon_hw_info \<Rightarrow> u32 \<Rightarrow> radeon_surface \<Rightarrow> bool" where
  "eg_stencil_ok hw mode surf \<longleftrightarrow> eg_is_depth_stencil surf \<longrightarrow>
     su_stencil_tile_split surf \<in> {0, 64, 128, 256, 512, 1024, 2048, 4096} \<and>
     eg_fits hw 1 (su_stencil_tile_split surf) (eg_behind hw mode surf) mode
       (eg_end hw (su_bpe surf) (su_tile_split surf) surf mode 0)"

text \<open>What the caller finds in the surface afterwards.\<close>

definition eg_laid_out :: "radeon_hw_info \<Rightarrow> u32 \<Rightarrow> radeon_surface \<Rightarrow> radeon_surface \<Rightarrow> bool" where
  "eg_laid_out hw mode surf surf' \<longleftrightarrow>
     tree_placed surf' (su_level surf') (Suc (unat (su_last_level surf))) (unat (su_bo_alignment (eg_behind hw mode surf))) \<and>
     eg_levels surf (su_bpe surf) (eg_slices (su_bpe surf) (su_tile_split surf) surf) (eg_first hw surf mode) (su_level surf') \<and>
     (eg_is_depth_stencil surf \<longrightarrow>
        (\<forall>i \<le> unat (su_last_level surf). level_end surf' (su_level surf' ! i) \<le> unat (su_stencil_offset surf')) \<and>
        unat (su_stencil_offset surf') \<le> unat (su_bo_size surf') \<and>
        (flag (su_flags surf) RADEON_SURF_HAS_SBUFFER_MIPTREE \<longrightarrow>
           sl_offset (su_stencil_level surf' ! 0) = su_stencil_offset surf' \<and>
           tree_placed surf' (su_stencil_level surf') (Suc (unat (su_last_level surf))) (unat (su_bo_alignment surf')) \<and>
           eg_levels surf 1 (eg_slices 1 (su_stencil_tile_split surf) surf) (eg_first hw surf mode) (su_stencil_level surf')))"

lemma same_frame_levels:
  assumes "same_frame surf surf'"
  shows "su_level surf' = su_level surf" "su_stencil_level surf' = su_stencil_level surf"
proof -
  from assms have e: "surf_frame surf = surf_frame surf'" by (simp add: same_frame_def)
  from arg_cong [OF e, of su_level] arg_cong [OF e, of su_stencil_level]
  show "su_level surf' = su_level surf" "su_stencil_level surf' = su_stencil_level surf" by (simp_all add: surf_frame_def)
qed

lemma level_end_start: "unat (sl_offset lv) \<le> level_end surf lv"
  by (simp add: level_end_def)

lemma eg_miptrees_laid_out:
  assumes ok: "eg_tree_ok hw mode (su_bpe surf) (su_tile_split surf) surf" "surf_wf surf"
    and bo: "su_bo_alignment surf = 0"
    and fits: "eg_fits hw (su_bpe surf) (su_tile_split surf) surf mode 0" "eg_stencil_ok hw mode surf"
  shows "\<exists>surf'. eg_miptrees hw mode surf = Some (0, surf') \<and> su_flags surf' = su_flags surf \<and> eg_laid_out hw mode surf surf'"
proof -
  let ?b = "eg_behind hw mode surf" and ?n = "Suc (unat (su_last_level surf))" and ?split = "su_stencil_tile_split surf"
  obtain surf1 lvs1 where m: "eg_tree_of hw mode (su_bpe surf) (su_tile_split surf) surf (su_level surf) 0 = Some (0, surf1, lvs1)"
    "same_frame ?b surf1" "length lvs1 = 32" "tree_placed surf1 lvs1 ?n (unat (su_bo_alignment ?b))"
    "unat (su_bo_size surf1) = eg_end hw (su_bpe surf) (su_tile_split surf) surf mode 0"
    "eg_levels surf (su_bpe surf) (eg_slices (su_bpe surf) (su_tile_split surf) surf) (eg_first hw surf mode) lvs1"
    by (rule eg_main_tree [OF ok bo fits(1)])
  note f1 = same_frameD [OF m(2)]
  let ?s1 = "surf1\<lparr>su_level := lvs1\<rparr>"
  have pl: "tree_placed ?s1 lvs1 ?n (unat (su_bo_alignment ?b))" by (rule tree_placed_grow [OF m(4)]) simp_all
  show ?thesis
  proof (cases "eg_is_depth_stencil surf")
    case False
    then have "eg_miptrees hw mode surf = Some (0, ?s1)" by (simp add: eg_miptrees_eq m(1) store_level_def)
    then show ?thesis using m(6) pl f1(11) False by (simp add: eg_laid_out_def eg_behind_def)
  next
    case True
    have wf: "length (stencil_target ?s1) = 32"
      using ok(2) same_frame_levels(2) [OF m(2)]
      by (simp add: surf_wf_def RADEON_SURF_MAX_LEVEL_def stencil_target_def eg_behind_def)
    have okb: "eg_tree_ok hw mode 1 ?split ?b"
      using ok(1) fits(2) True
      by (auto simp: eg_tree_ok_def eg_behind_def eg_elem_ok_def dims_ok_def eg_tile_ok_def eg_stencil_ok_def)
    have bob: "bo_align_ok ?b" using eg_bo_align_ok [OF ok(1)] bo by (simp add: eg_behind_def)
    have fb: "eg_fits hw 1 ?split ?b mode (unat (su_bo_size ?s1))" using fits(2) True m(5) by (simp add: eg_stencil_ok_def)
    obtain surf2 lvs2 where t: "eg_tree_of hw mode 1 ?split ?s1 (stencil_target ?s1) (su_bo_size ?s1) = Some (0, surf2, lvs2)"
      "same_frame (?s1\<lparr>su_bo_alignment := eg_bo_align hw 1 ?split ?b mode\<rparr>) surf2" "length lvs2 = 32"
      "tree_placed surf2 lvs2 ?n (unat (eg_bo_align hw 1 ?split ?b mode))"
      "unat (sl_offset (lvs2 ! 0)) = eg_place hw 1 ?split ?b mode (unat (su_bo_size ?s1))"
      "eg_levels surf 1 (eg_slices 1 ?split surf) (eg_first hw surf mode) lvs2"
      by (rule eg_stencil_tree [OF okb wf m(2) bob fb])
    note f2 = same_frameD [OF t(2)] and l2 = same_frame_levels(1) [OF t(2)]
    have place: "unat (su_bo_size surf1) \<le> unat (sl_offset (lvs2 ! 0))" using t(5) eg_place_ge [OF okb] by simp
    have size: "unat (sl_offset (lvs2 ! 0)) \<le> unat (su_bo_size surf2)"
      using t(4) level_end_start [of "lvs2 ! 0" surf2] by (force simp: tree_placed_def)
    let ?own = "flag (su_flags surf) RADEON_SURF_HAS_SBUFFER_MIPTREE"
    let ?s2 = "(if ?own then surf2\<lparr>su_stencil_level := lvs2\<rparr> else surf2)\<lparr>su_stencil_offset := sl_offset (lvs2 ! 0)\<rparr>"
    have "eg_miptrees hw mode surf = Some (0, ?s2)"
      using True t(1,3) f1(17) by (auto simp: eg_miptrees_eq m(1) store_level_def store_stencil_def eg_behind_def)
    moreover have "tree_placed ?s2 lvs1 ?n (unat (su_bo_alignment ?b))"
      by (rule tree_placed_grow [OF pl]) (use place size f2 in auto)
    moreover have "tree_placed ?s2 lvs2 ?n (unat (eg_bo_align hw 1 ?split ?b mode))"
      by (rule tree_placed_grow [OF t(4)]) simp_all
    moreover have "level_end ?s2 (lvs1 ! i) \<le> unat (sl_offset (lvs2 ! 0))" if "i \<le> unat (su_last_level surf)" for i
    proof -
      have "level_end surf1 (lvs1 ! i) \<le> unat (su_bo_size surf1)" using m(4) that by (simp add: tree_placed_def)
      then show ?thesis using place f2(7) by (simp add: level_end_def)
    qed
    ultimately show ?thesis using True m(6) t(6) f1(11) f2(11,12) l2 size
      by (intro exI [of _ ?s2], cases ?own) (simp_all add: eg_laid_out_def eg_behind_def)
  qed
qed

text \<open>What the sanity check leaves of the parameters.\<close>

lemma eg_sanity_accepts:
  assumes "hw_allow_2d hw \<noteq> 0" "fst (eg_surface_sanity hw surf mode) = 0"
  shows "eg_surface_sanity hw surf mode = (0, surf)" "su_last_level surf \<le> 15"
    "mode = RADEON_SURF_MODE_2D \<Longrightarrow> eg_tile_ok hw (su_tile_split surf) surf"
proof -
  show "eg_surface_sanity hw surf mode = (0, surf)" "su_last_level surf \<le> 15"
    using assms by (simp_all add: eg_surface_sanity_def EINVAL_def not_less del: insert_iff split: if_splits)
  show "eg_tile_ok hw (su_tile_split surf) surf" if "mode = RADEON_SURF_MODE_2D"
  proof -
    have "su_tile_split surf \<in> {64, 128, 256, 512, 1024, 2048, 4096}" "su_mtilea surf \<in> {1, 2, 4, 8}"
      "su_mtilea surf \<le> hw_num_banks hw" "su_bankw surf \<in> {1, 2, 4, 8}" "su_bankh surf \<in> {1, 2, 4, 8}"
      using assms that by (simp_all add: eg_surface_sanity_def EINVAL_def not_less del: insert_iff split: if_splits)
    then show ?thesis unfolding eg_tile_ok_def by blast
  qed
qed

lemma eg_surface_init_tiled:
  assumes "hw_allow_2d hw \<noteq> 0" "init_mode surf = (mode, surf0)" "mode \<in> {RADEON_SURF_MODE_1D, RADEON_SURF_MODE_2D}"
    "fst (eg_surface_sanity hw surf0 mode) = 0"
  shows "eg_surface_init hw surf = eg_miptrees hw mode (eg_clear surf0)"
  using assms(3) eg_sanity_accepts(1) [OF assms(1,4)]
  by (auto simp: eg_surface_init_def assms(2) eg_miptrees_def eg_clear_def)


text \<open>A depth and stencil surface of 128 by 64 pixels with three levels, the last one too small for a
  macro tile of 64 by 32.\<close>

definition eg_demo_surf :: radeon_surface where
  "eg_demo_surf = (demo_surf 0xe0301)\<lparr>su_npix_x := 128, su_npix_y := 64, su_last_level := 2, su_bankw := 1,
     su_bankh := 2, su_mtilea := 4, su_tile_split := 256, su_stencil_tile_split := 64\<rparr>"

lemma eg_demo_mode: "init_mode eg_demo_surf = (RADEON_SURF_MODE_2D, eg_demo_surf)"
  by (simp add: eg_demo_surf_def demo_surf_def init_mode_def RADEON_SURF_GET_MODE_def flag_def
    RADEON_SURF_Z_OR_SBUFFER_def RADEON_SURF_ZBUFFER_def RADEON_SURF_SBUFFER_def RADEON_SURF_MODE_2D_def
    RADEON_SURF_MODE_1D_def)

lemma eg_demo_sanity: "fst (eg_surface_sanity r6_demo_hw eg_demo_surf RADEON_SURF_MODE_2D) = 0"
  by (simp add: eg_surface_sanity_def eg_demo_surf_def demo_surf_def r6_demo_hw_def)

lemma eg_demo_fields [simp]:
  "su_bpe eg_demo_surf = 4" "su_tile_split eg_demo_surf = 256" "su_stencil_tile_split eg_demo_surf = 64"
  "su_nsamples eg_demo_surf = 1" "su_last_level eg_demo_surf = 2" "su_flags eg_demo_surf = 0xe0301"
  "su_array_size eg_demo_surf = 1"
  "eg_mtilew r6_demo_hw eg_demo_surf = 64" "eg_mtileh r6_demo_hw eg_demo_surf = 32"
  by (simp_all add: eg_demo_surf_def demo_surf_def eg_mtilew_def eg_mtileh_def r6_demo_hw_def)

lemma upt_0_3: "[0..<3] = [0, 1, 2]"
  by (simp add: upt_rec)

lemma eg_demo_dims: "ref_x eg_demo_surf 0 = 128" "ref_x eg_demo_surf (Suc 0) = 64" "ref_x eg_demo_surf 2 = 32"
  "ref_y eg_demo_surf 0 = 64" "ref_y eg_demo_surf (Suc 0) = 32" "ref_y eg_demo_surf 2 = 16" "ref_z eg_demo_surf i = 1"
  by (simp_all add: ref_x_def ref_y_def ref_z_def eg_demo_surf_def demo_surf_def mip_dim_def cdiv_def npot.simps)

lemma eg_demo_clear: "eg_clear eg_demo_surf = eg_demo_surf"
  by (simp add: eg_clear_def eg_demo_surf_def demo_surf_def)

lemma eg_demo_first: "eg_first r6_demo_hw eg_demo_surf RADEON_SURF_MODE_2D = 2"
  by (simp add: eg_first_def first_level_def upt_0_3 ref_small_def flag_def RADEON_SURF_FMASK_def eg_demo_dims)

lemma eg_demo_bytes:
  "map (eg_bytes r6_demo_hw 4 eg_demo_surf RADEON_SURF_MODE_2D) [0, Suc 0, 2] = [32768, 8192, 2048]"
  "map (eg_bytes r6_demo_hw 1 eg_demo_surf RADEON_SURF_MODE_2D) [0, Suc 0, 2] = [8192, 2048, 512]"
  by (simp_all add: eg_bytes_def eg_demo_first mix_def ref_bytes_def ref_slice_def ref_pitch_def eg_demo_dims
    eg_xa_1d_def r6_xa_1d_def scanout_xalign_def flag_def RADEON_SURF_SCANOUT_def align_up_def cdiv_def)

lemma eg_demo_al: "eg_al_2d r6_demo_hw 4 256 eg_demo_surf = 8192" "eg_al_2d r6_demo_hw 1 64 eg_demo_surf = 2048"
  by (simp_all add: eg_al_2d_def eg_tileb_def eg_slices_def)

lemma eg_demo_place:
  "eg_bo_align r6_demo_hw 4 256 eg_demo_surf RADEON_SURF_MODE_2D = 8192"
  "eg_place r6_demo_hw 4 256 eg_demo_surf RADEON_SURF_MODE_2D 0 = 0"
  "eg_behind r6_demo_hw RADEON_SURF_MODE_2D eg_demo_surf = eg_demo_surf\<lparr>su_bo_alignment := 8192\<rparr>"
proof -
  have a: "su_bo_alignment eg_demo_surf = 0" by (simp add: eg_demo_surf_def demo_surf_def)
  show b: "eg_bo_align r6_demo_hw 4 256 eg_demo_surf RADEON_SURF_MODE_2D = 8192"
    by (simp add: eg_bo_align_def eg_demo_first eg_demo_al a)
  show "eg_place r6_demo_hw 4 256 eg_demo_surf RADEON_SURF_MODE_2D 0 = 0"
    by (simp add: eg_place_def eg_demo_first eg_demo_al align_up_def cdiv_def)
  show "eg_behind r6_demo_hw RADEON_SURF_MODE_2D eg_demo_surf = eg_demo_surf\<lparr>su_bo_alignment := 8192\<rparr>"
    by (simp add: eg_behind_def b)
qed

lemma eg_bo_alignment_irrelevant [simp]:
  "eg_first hw (surf\<lparr>su_bo_alignment := a\<rparr>) mode = eg_first hw surf mode"
  "eg_bytes hw bpe (surf\<lparr>su_bo_alignment := a\<rparr>) mode = eg_bytes hw bpe surf mode"
  "eg_al_2d hw bpe split (surf\<lparr>su_bo_alignment := a\<rparr>) = eg_al_2d hw bpe split surf"
  by (simp_all add: eg_first_def eg_bytes_def eg_al_2d_def eg_mtilew_def eg_mtileh_def eg_xa_1d_def r6_xa_1d_def
    scanout_xalign_def eg_tileb_def eg_slices_def)

lemma three_levels:
  "mip_place b A p 0 2 = align_up (p + b 0) A + b (Suc 0)"
  "mip_fits b A p 0 3 \<longleftrightarrow> p + b 0 < 2 ^ 32 \<and> align_up (p + b 0) A + b (Suc 0) < 2 ^ 32 \<and>
     align_up (p + b 0) A + b (Suc 0) + b 2 < 2 ^ 32"
proof -
  have u: "[0..<2] = [0, Suc 0]" "[0..<Suc 0] = [0]" by (simp_all add: upt_rec)
  show m: "mip_place b A p 0 2 = align_up (p + b 0) A + b (Suc 0)" by (simp add: mip_place_def u mip_step_def)
  have "mip_place b A p 0 (Suc 0) = align_up (p + b 0) A" by (simp add: mip_place_def mip_step_def)
  then show "mip_fits b A p 0 3 \<longleftrightarrow> p + b 0 < 2 ^ 32 \<and> align_up (p + b 0) A + b (Suc 0) < 2 ^ 32 \<and>
     align_up (p + b 0) A + b (Suc 0) + b 2 < 2 ^ 32"
    using m by (simp add: mip_fits_def upt_0_3)
qed

lemma eg_demo_fits:
  "eg_fits r6_demo_hw 4 256 eg_demo_surf RADEON_SURF_MODE_2D 0"
  "eg_end r6_demo_hw 4 256 eg_demo_surf RADEON_SURF_MODE_2D 0 = 43008"
  using eg_demo_bytes(1)
  by (simp_all add: eg_fits_def eg_end_def eg_demo_place three_levels align_up_def cdiv_def)

lemma eg_demo_stencil_fits:
  "eg_fits r6_demo_hw 1 64 (eg_demo_surf\<lparr>su_bo_alignment := 8192\<rparr>) RADEON_SURF_MODE_2D 43008"
  using eg_demo_bytes(2)
  by (simp add: eg_fits_def eg_bo_align_def eg_place_def eg_demo_first eg_demo_al three_levels align_up_def cdiv_def)


end
