(* ===== verification/Radeon_SI.thy ===== *)
theory Radeon_SI
  imports Radeon_Evergreen
begin

text \<open>
  The southern islands part of \<open>radeon/radeon_surface.c\<close>: tile modes come from a table the kernel
  supplies, levels are padded to powers of two, and the index of the tile mode used is recorded for
  every level.
\<close>

section \<open>Tile modes\<close>

definition SI_TILE_MODE_COLOR_LINEAR_ALIGNED :: u32 where "SI_TILE_MODE_COLOR_LINEAR_ALIGNED = 8"
definition SI_TILE_MODE_COLOR_1D :: u32 where "SI_TILE_MODE_COLOR_1D = 13"
definition SI_TILE_MODE_COLOR_1D_SCANOUT :: u32 where "SI_TILE_MODE_COLOR_1D_SCANOUT = 9"
definition SI_TILE_MODE_COLOR_2D_8BPP :: u32 where "SI_TILE_MODE_COLOR_2D_8BPP = 14"
definition SI_TILE_MODE_COLOR_2D_16BPP :: u32 where "SI_TILE_MODE_COLOR_2D_16BPP = 15"
definition SI_TILE_MODE_COLOR_2D_32BPP :: u32 where "SI_TILE_MODE_COLOR_2D_32BPP = 16"
definition SI_TILE_MODE_COLOR_2D_64BPP :: u32 where "SI_TILE_MODE_COLOR_2D_64BPP = 17"
definition SI_TILE_MODE_COLOR_2D_SCANOUT_16BPP :: u32 where "SI_TILE_MODE_COLOR_2D_SCANOUT_16BPP = 11"
definition SI_TILE_MODE_COLOR_2D_SCANOUT_32BPP :: u32 where "SI_TILE_MODE_COLOR_2D_SCANOUT_32BPP = 12"
definition SI_TILE_MODE_DEPTH_STENCIL_1D :: u32 where "SI_TILE_MODE_DEPTH_STENCIL_1D = 4"
definition SI_TILE_MODE_DEPTH_STENCIL_2D :: u32 where "SI_TILE_MODE_DEPTH_STENCIL_2D = 0"
definition SI_TILE_MODE_DEPTH_STENCIL_2D_2AA :: u32 where "SI_TILE_MODE_DEPTH_STENCIL_2D_2AA = 3"
definition SI_TILE_MODE_DEPTH_STENCIL_2D_4AA :: u32 where "SI_TILE_MODE_DEPTH_STENCIL_2D_4AA = 3"
definition SI_TILE_MODE_DEPTH_STENCIL_2D_8AA :: u32 where "SI_TILE_MODE_DEPTH_STENCIL_2D_8AA = 2"

lemmas si_tile_mode_defs =
  SI_TILE_MODE_COLOR_LINEAR_ALIGNED_def SI_TILE_MODE_COLOR_1D_def SI_TILE_MODE_COLOR_1D_SCANOUT_def
  SI_TILE_MODE_COLOR_2D_8BPP_def SI_TILE_MODE_COLOR_2D_16BPP_def SI_TILE_MODE_COLOR_2D_32BPP_def
  SI_TILE_MODE_COLOR_2D_64BPP_def SI_TILE_MODE_COLOR_2D_SCANOUT_16BPP_def
  SI_TILE_MODE_COLOR_2D_SCANOUT_32BPP_def SI_TILE_MODE_DEPTH_STENCIL_1D_def
  SI_TILE_MODE_DEPTH_STENCIL_2D_def SI_TILE_MODE_DEPTH_STENCIL_2D_2AA_def
  SI_TILE_MODE_DEPTH_STENCIL_2D_4AA_def SI_TILE_MODE_DEPTH_STENCIL_2D_8AA_def

text \<open>The fields of a tile mode word, decoded: pipes, banks, macro tile aspect, bank width, bank
  height, tile split. The code stores only the ones a caller asks for.\<close>

record gb_tile =
  gb_num_pipes :: u32
  gb_num_banks :: u32
  gb_macro_tile_aspect :: u32
  gb_bank_w :: u32
  gb_bank_h :: u32
  gb_tile_split :: u32

text \<open>The two-bit and three-bit fields: 1, 2, 4, 8 (times \<open>base\<close>), and 64 to 4096 with 64 as the
  default.\<close>

definition dec2 :: "u32 \<Rightarrow> u32 \<Rightarrow> u32" where
  "dec2 base f = (if f = 1 then 2 * base else if f = 2 then 4 * base else if f = 3 then 8 * base else base)"

definition dec_split :: "u32 \<Rightarrow> u32" where
  "dec_split f = (if f = 1 then 128 else if f = 2 then 256 else if f = 3 then 512 else if f = 4 then 1024
     else if f = 5 then 2048 else if f = 6 then 4096 else 64)"

definition si_gb_tile_mode :: "u32 \<Rightarrow> gb_tile" where
  "si_gb_tile_mode gb =
    (let pc = drop_bit 6 gb AND 0x1f in
     \<lparr>gb_num_pipes = (if 4 \<le> pc \<and> pc \<le> 7 then 4 else if 8 \<le> pc \<and> pc \<le> 14 then 8 else 2),
      gb_num_banks = dec2 2 (drop_bit 20 gb AND 0x3),
      gb_macro_tile_aspect = dec2 1 (drop_bit 18 gb AND 0x3),
      gb_bank_w = dec2 1 (drop_bit 14 gb AND 0x3),
      gb_bank_h = dec2 1 (drop_bit 16 gb AND 0x3),
      gb_tile_split = dec_split (drop_bit 11 gb AND 0x7)\<rparr>)"

text \<open>\<open>hw_info.tile_mode_array[i]\<close>.\<close>

definition arr_get :: "u32 list \<Rightarrow> u32 \<Rightarrow> u32 option" where
  "arr_get xs i = (if unat i < length xs then Some (xs ! unat i) else None)"

section \<open>Hardware parameters\<close>

definition si_init_hw_info :: "radeon_kernel \<Rightarrow> radeon_hw_info \<Rightarrow> (int \<times> radeon_hw_info) option" where
  "si_init_hw_info k hw = do {
     (r, v) \<leftarrow> radeon_get_value k RADEON_INFO_TILING_CONFIG [0];
     if r \<noteq> 0 then Some (r, hw)
     else do {
       let hw = hw\<lparr>hw_allow_2d := 0\<rparr>;
       hw \<leftarrow> (if version_at_least k 33 then do {
           (r, arr) \<leftarrow> radeon_get_value k RADEON_INFO_SI_TILE_MODE_ARRAY (hw_tile_mode_array hw);
           let hw = hw\<lparr>hw_tile_mode_array := arr\<rparr>;
           Some (if r = 0 then hw\<lparr>hw_allow_2d := 1\<rparr> else hw)
         } else Some hw);
       Some (0, decode_tiling_config (v ! 0) hw)
     }
   }"

section \<open>Sanity\<close>

text \<open>The tile modes of depth/stencil, scanout and colour surfaces in 2D; \<open>None\<close> is refused.\<close>

definition si_depth_mode :: "u32 \<Rightarrow> u32 option" where
  "si_depth_mode nsamples =
    (if nsamples = 1 then Some SI_TILE_MODE_DEPTH_STENCIL_2D
     else if nsamples = 2 then Some SI_TILE_MODE_DEPTH_STENCIL_2D_2AA
     else if nsamples = 4 then Some SI_TILE_MODE_DEPTH_STENCIL_2D_4AA
     else if nsamples = 8 then Some SI_TILE_MODE_DEPTH_STENCIL_2D_8AA
     else None)"

definition si_color_mode :: "radeon_surface \<Rightarrow> u32 option" where
  "si_color_mode surf =
    (if flag (su_flags surf) RADEON_SURF_ZBUFFER then si_depth_mode (su_nsamples surf)
     else if flag (su_flags surf) RADEON_SURF_SCANOUT then
       if su_bpe surf = 2 then Some SI_TILE_MODE_COLOR_2D_SCANOUT_16BPP
       else if su_bpe surf = 4 then Some SI_TILE_MODE_COLOR_2D_SCANOUT_32BPP
       else None
     else
       if su_bpe surf = 1 then Some SI_TILE_MODE_COLOR_2D_8BPP
       else if su_bpe surf = 2 then Some SI_TILE_MODE_COLOR_2D_16BPP
       else if su_bpe surf = 4 then Some SI_TILE_MODE_COLOR_2D_32BPP
       else if su_bpe surf = 8 \<or> su_bpe surf = 16 then Some SI_TILE_MODE_COLOR_2D_64BPP
       else None)"

text \<open>The result of the sanity checks: the code, the surface, and the tile modes stored through the
  two out parameters, \<open>None\<close> where nothing was stored.\<close>

type_synonym sanity_result = "int \<times> radeon_surface \<times> u32 option \<times> u32 option"

text \<open>The checks the southern and sea islands share: dimensions, levels, the forced 1D mode (which
  changes the flags and the local \<open>mode\<close>, not the caller's), samples, default parameters. \<open>Inl\<close>
  is an early return.\<close>

definition si_sanity_common ::
  "radeon_hw_info \<Rightarrow> radeon_surface \<Rightarrow> u32 \<Rightarrow> (int \<times> radeon_surface) + (u32 \<times> radeon_surface)" where
  "si_sanity_common hw surf mode =
    (if su_npix_x surf > 16384 \<or> su_npix_y surf > 16384 \<or> su_npix_z surf > 16384 then Inl (- EINVAL, surf)
     else if su_last_level surf > 15 then Inl (- EINVAL, surf)
     else
       let force = (mode > RADEON_SURF_MODE_1D \<and>
             (hw_allow_2d hw = 0 \<or> \<not> flag (su_flags surf) RADEON_SURF_HAS_TILE_MODE_INDEX))
       in if force \<and> su_nsamples surf > 1 then Inl (- EFAULT, surf)
          else
            let (mode, surf) = (if force then (RADEON_SURF_MODE_1D, set_mode surf RADEON_SURF_MODE_1D)
                                else (mode, surf))
            in if su_nsamples surf > 1 \<and> mode \<noteq> RADEON_SURF_MODE_2D then Inl (- EINVAL, surf)
               else Inr (mode,
                 if su_tile_split surf = 0
                 then surf\<lparr>su_mtilea := 1, su_bankw := 1, su_bankh := 1, su_tile_split := 64,
                           su_stencil_tile_split := 64\<rparr>
                 else surf))"

definition si_sanity_2d :: "radeon_hw_info \<Rightarrow> radeon_surface \<Rightarrow> u32 option \<Rightarrow> sanity_result option" where
  "si_sanity_2d hw surf sm =
    (case si_color_mode surf of
       None \<Rightarrow> Some (- EINVAL, surf, None, sm)
     | Some tm \<Rightarrow> do {
         gb \<leftarrow> arr_get (hw_tile_mode_array hw) tm;
         let g = si_gb_tile_mode gb;
         Some (0, surf\<lparr>su_mtilea := gb_macro_tile_aspect g, su_bankw := gb_bank_w g,
                       su_bankh := gb_bank_h g, su_tile_split := gb_tile_split g\<rparr>, Some tm, sm)
       })"

definition si_surface_sanity ::
  "radeon_hw_info \<Rightarrow> radeon_surface \<Rightarrow> u32 \<Rightarrow> sanity_result option" where
  "si_surface_sanity hw surf mode =
    (case si_sanity_common hw surf mode of
       Inl (r, surf) \<Rightarrow> Some (r, surf, None, None)
     | Inr (mode, surf) \<Rightarrow>
         if mode = RADEON_SURF_MODE_2D then
           if flag (su_flags surf) RADEON_SURF_SBUFFER then
             (case si_depth_mode (su_nsamples surf) of
                None \<Rightarrow> Some (- EINVAL, surf, None, None)
              | Some sm \<Rightarrow> do {
                  gb \<leftarrow> arr_get (hw_tile_mode_array hw) sm;
                  si_sanity_2d hw (surf\<lparr>su_stencil_tile_split := gb_tile_split (si_gb_tile_mode gb)\<rparr>) (Some sm)
                })
           else si_sanity_2d hw surf None
         else if mode = RADEON_SURF_MODE_1D then
           Some (0, surf,
             Some (if flag (su_flags surf) RADEON_SURF_ZBUFFER then SI_TILE_MODE_DEPTH_STENCIL_1D
                   else if flag (su_flags surf) RADEON_SURF_SCANOUT then SI_TILE_MODE_COLOR_1D_SCANOUT
                   else SI_TILE_MODE_COLOR_1D),
             if flag (su_flags surf) RADEON_SURF_SBUFFER then Some SI_TILE_MODE_DEPTH_STENCIL_1D else None)
         else Some (0, surf, Some SI_TILE_MODE_COLOR_LINEAR_ALIGNED, None))"

section \<open>Levels\<close>

text \<open>Pixels and blocks of a level: the width is rounded to a power of two below level 0, and level
  0 of a mipmapped surface is padded to powers of two.\<close>

definition si_minify_dims :: "radeon_surface \<Rightarrow> radeon_surface_level \<Rightarrow> nat \<Rightarrow> radeon_surface_level option" where
  "si_minify_dims surf lv level = do {
     x \<leftarrow> (if level = 0 then Some (su_npix_x surf)
           else do { p \<leftarrow> next_power_of_two (su_npix_x surf); mip_minify p level });
     y \<leftarrow> mip_minify (su_npix_y surf) level;
     z \<leftarrow> mip_minify (su_npix_z surf) level;
     let pad = (\<lambda>v. if level = 0 \<and> su_last_level surf > 0 then next_power_of_two v else Some v);
     px \<leftarrow> pad x;
     bx \<leftarrow> udiv (px + su_blk_w surf - 1) (su_blk_w surf);
     py \<leftarrow> pad y;
     by \<leftarrow> udiv (py + su_blk_h surf - 1) (su_blk_h surf);
     pz \<leftarrow> pad z;
     bz \<leftarrow> udiv (pz + su_blk_d surf - 1) (su_blk_d surf);
     Some (lv\<lparr>sl_npix_x := x, sl_npix_y := y, sl_npix_z := z,
              sl_nblk_x := bx, sl_nblk_y := by, sl_nblk_z := bz\<rparr>)
   }"

definition si_surf_minify ::
  "radeon_surface \<Rightarrow> radeon_surface_level \<Rightarrow> u32 \<Rightarrow> nat \<Rightarrow> u32 \<Rightarrow> u32 \<Rightarrow> u32 \<Rightarrow> u32 \<Rightarrow> u32 \<Rightarrow>
   (radeon_surface \<times> radeon_surface_level) option" where
  "si_surf_minify surf lv bpe level xalign yalign zalign slice_align offset = do {
     lv \<leftarrow> si_minify_dims surf lv level;
     let by = ALIGN (sl_nblk_y lv) yalign;
     xalign \<leftarrow>
       (if level = 0 \<and> su_last_level surf = 0 then do {
          q \<leftarrow> udiv slice_align (su_bpe surf);
          Some (max xalign q)
        }
        else if sl_mode lv = RADEON_SURF_MODE_LINEAR_ALIGNED then do {
          q \<leftarrow> udiv slice_align bpe;
          q \<leftarrow> udiv q by;
          Some (max xalign q)
        }
        else Some xalign);
     let bx = ALIGN (sl_nblk_x lv) xalign;
     let bz = ALIGN (sl_nblk_z lv) zalign;
     let pitch = bx * bpe * su_nsamples surf;
     let slice = (ucast (ALIGN (pitch * by) slice_align) :: u64);
     let lv = lv\<lparr>sl_nblk_x := bx, sl_nblk_y := by, sl_nblk_z := bz, sl_offset := ucast offset,
                 sl_pitch_bytes := pitch, sl_slice_size := slice\<rparr>;
     Some (surf\<lparr>su_bo_size := ucast offset + slice * ucast bz * ucast (su_array_size surf)\<rparr>, lv)
   }"

definition si_surf_minify_2d ::
  "radeon_surface \<Rightarrow> radeon_surface_level \<Rightarrow> u32 \<Rightarrow> nat \<Rightarrow> u32 \<Rightarrow> u32 \<Rightarrow> u32 \<Rightarrow> u32 \<Rightarrow> u32 \<Rightarrow> u32 \<Rightarrow>
   (radeon_surface \<times> radeon_surface_level) option" where
  "si_surf_minify_2d surf lv bpe level slice_pt xalign yalign zalign mtileb offset = do {
     lv \<leftarrow> si_minify_dims surf lv level;
     if falls_back_1d surf lv xalign yalign then Some (surf, lv\<lparr>sl_mode := RADEON_SURF_MODE_1D\<rparr>)
     else macro_tile_level surf lv bpe slice_pt xalign yalign zalign mtileb offset
   }"

section \<open>Layout\<close>

text \<open>Record the tile mode index of level \<open>i\<close>. The colour/depth tree writes both arrays, the stencil
  tree its own.\<close>

definition set_tiling_index :: "bool \<Rightarrow> radeon_surface \<Rightarrow> nat \<Rightarrow> u32 \<Rightarrow> radeon_surface option" where
  "set_tiling_index main surf i tile_mode =
    (if flag (su_flags surf) RADEON_SURF_HAS_TILE_MODE_INDEX then do {
       c_assert (i < length (su_tiling_index surf) \<and> i < length (su_stencil_tiling_index surf));
       let surf = (if main then surf\<lparr>su_tiling_index := (su_tiling_index surf)[i := tile_mode]\<rparr> else surf);
       Some (surf\<lparr>su_stencil_tiling_index := (su_stencil_tiling_index surf)[i := tile_mode]\<rparr>)
     }
     else Some surf)"

definition si_linear_body ::
  "u32 \<Rightarrow> u32 \<Rightarrow> u32 \<Rightarrow> nat \<Rightarrow> mip_state \<Rightarrow> (mip_state + mip_result) option" where
  "si_linear_body tile_mode xalign slice_align i st = (case st of (surf, lvs, off) \<Rightarrow> do {
     c_assert (i < length lvs);
     (surf, lv) \<leftarrow> si_surf_minify surf ((lvs ! i)\<lparr>sl_mode := RADEON_SURF_MODE_LINEAR_ALIGNED\<rparr>)
        (su_bpe surf) i xalign 1 1 slice_align (ucast off);
     let off = mip_next_offset surf i;
     surf \<leftarrow> (if flag (su_flags surf) RADEON_SURF_HAS_TILE_MODE_INDEX then do {
         c_assert (i < length (su_tiling_index surf));
         Some (surf\<lparr>su_tiling_index := (su_tiling_index surf)[i := tile_mode]\<rparr>)
       } else Some surf);
     Some (Inl (surf, lvs[i := lv], off))
   })"

definition si_surface_init_linear_aligned ::
  "radeon_hw_info \<Rightarrow> u32 \<Rightarrow> radeon_surface \<Rightarrow> radeon_surface_level list \<Rightarrow> u64 \<Rightarrow> nat \<Rightarrow> mip_result option" where
  "si_surface_init_linear_aligned hw tile_mode surf lvs offset start_level = do {
     let surf = r6_alignment hw surf start_level;
     q \<leftarrow> udiv 64 (su_bpe surf);
     let xalign = max 8 q;
     let slice_align = max (64 * su_bpe surf) (hw_group_bytes hw);
     mip_loop (si_linear_body tile_mode xalign slice_align)
       mip_done (level_range surf start_level) (surf, lvs, offset)
   }"

definition si_1d_body ::
  "bool \<Rightarrow> u32 \<Rightarrow> u32 \<Rightarrow> u32 \<Rightarrow> u32 \<Rightarrow> u32 \<Rightarrow> nat \<Rightarrow> mip_state \<Rightarrow> (mip_state + mip_result) option" where
  "si_1d_body main bpe tile_mode xalign slice_align alignment i st = (case st of (surf, lvs, off) \<Rightarrow> do {
     c_assert (i < length lvs);
     (surf, lv) \<leftarrow> si_surf_minify surf ((lvs ! i)\<lparr>sl_mode := RADEON_SURF_MODE_1D\<rparr>) bpe i
        xalign 8 1 slice_align (ucast off);
     let off = (if i = 0 then ALIGN_u64_u32 (su_bo_size surf) alignment else su_bo_size surf);
     surf \<leftarrow> set_tiling_index main surf i tile_mode;
     Some (Inl (surf, lvs[i := lv], off))
   })"

text \<open>The alignment step of the islands functions, taken for a tree that starts at level 0 or 1.\<close>

definition si_align :: "radeon_surface \<Rightarrow> u32 \<Rightarrow> u64 \<Rightarrow> nat \<Rightarrow> radeon_surface \<times> u64" where
  "si_align surf alignment offset start_level =
    (if start_level \<le> 1 then
       (surf\<lparr>su_bo_alignment := max (su_bo_alignment surf) (ucast alignment)\<rparr>,
        if offset \<noteq> 0 then ALIGN_u64_u32 offset alignment else offset)
     else (surf, offset))"

definition si_surface_init_1d ::
  "radeon_hw_info \<Rightarrow> bool \<Rightarrow> u32 \<Rightarrow> u32 \<Rightarrow> radeon_surface \<Rightarrow> radeon_surface_level list \<Rightarrow> u64 \<Rightarrow> nat \<Rightarrow>
   mip_result option" where
  "si_surface_init_1d hw main bpe tile_mode surf lvs offset start_level = do {
     let alignment = max 256 (hw_group_bytes hw);
     let xalign = scanout_xalign surf bpe 8;
     let slice_align = hw_group_bytes hw;
     let (surf, offset) = si_align surf alignment offset start_level;
     mip_loop (si_1d_body main bpe tile_mode xalign slice_align alignment)
       mip_done (level_range surf start_level) (surf, lvs, offset)
   }"

text \<open>A stencil tree that uses an unset stencil tile mode is undefined.\<close>

definition si_surface_init_1d_miptrees ::
  "radeon_hw_info \<Rightarrow> radeon_surface \<Rightarrow> u32 \<Rightarrow> u32 option \<Rightarrow> (int \<times> radeon_surface) option" where
  "si_surface_init_1d_miptrees hw surf tile_mode stencil_tile_mode = do {
     res \<leftarrow> si_surface_init_1d hw True (su_bpe surf) tile_mode surf (su_level surf) 0 0;
     let (r, surf) = store_level res;
     if r \<noteq> 0 then Some (r, surf)
     else if flag (su_flags surf) RADEON_SURF_SBUFFER then do {
       sm \<leftarrow> stencil_tile_mode;
       res \<leftarrow> si_surface_init_1d hw False 1 sm surf (su_stencil_level surf) (su_bo_size surf) 0;
       store_stencil True res
     }
     else Some (r, surf)
   }"

text \<open>The 1D tile mode a 2D tile mode falls back to; \<open>None\<close> is refused.\<close>

definition si_fallback_mode :: "u32 \<Rightarrow> u32 option" where
  "si_fallback_mode tm =
    (if tm \<in> {SI_TILE_MODE_COLOR_2D_8BPP, SI_TILE_MODE_COLOR_2D_16BPP, SI_TILE_MODE_COLOR_2D_32BPP,
              SI_TILE_MODE_COLOR_2D_64BPP} then Some SI_TILE_MODE_COLOR_1D
     else if tm \<in> {SI_TILE_MODE_COLOR_2D_SCANOUT_16BPP, SI_TILE_MODE_COLOR_2D_SCANOUT_32BPP}
     then Some SI_TILE_MODE_COLOR_1D_SCANOUT
     else if tm = SI_TILE_MODE_DEPTH_STENCIL_2D then Some SI_TILE_MODE_DEPTH_STENCIL_1D
     else None)"

text \<open>The state of the 2D loops keeps the offset as it was before alignment: a level that falls back
  to 1D is laid out from there.\<close>

type_synonym mip_state_2d = "radeon_surface \<times> radeon_surface_level list \<times> u64 \<times> u64"

definition mip_done_2d :: "mip_state_2d \<Rightarrow> mip_result" where
  "mip_done_2d st = (case st of (surf, lvs, aoff, off) \<Rightarrow> (0, surf, lvs))"

definition si_2d_body ::
  "radeon_hw_info \<Rightarrow> (u32 \<Rightarrow> u32 option) \<Rightarrow> bool \<Rightarrow> u32 \<Rightarrow> u32 \<Rightarrow> u32 \<Rightarrow> u32 \<Rightarrow> u32 \<Rightarrow> u32 \<Rightarrow>
   nat \<Rightarrow> mip_state_2d \<Rightarrow> (mip_state_2d + mip_result) option" where
  "si_2d_body hw fallback main bpe tile_mode slice_pt mtilew mtileh mtileb i st =
    (case st of (surf, lvs, aoff, off) \<Rightarrow> do {
     c_assert (i < length lvs);
     (surf, lv) \<leftarrow> si_surf_minify_2d surf ((lvs ! i)\<lparr>sl_mode := RADEON_SURF_MODE_2D\<rparr>) bpe i
        slice_pt mtilew mtileh 1 mtileb (ucast aoff);
     let lvs = lvs[i := lv];
     if sl_mode lv = RADEON_SURF_MODE_1D then
       (case fallback tile_mode of
          None \<Rightarrow> Some (Inr (- EINVAL, surf, lvs))
        | Some tm \<Rightarrow> do {
            res \<leftarrow> si_surface_init_1d hw main bpe tm surf lvs off i;
            Some (Inr res)
          })
     else do {
       let off = su_bo_size surf;
       let aoff = mip_next_offset surf i;
       surf \<leftarrow> set_tiling_index main surf i tile_mode;
       Some (Inl (surf, lvs, aoff, off))
     }
   })"

definition si_surface_init_2d ::
  "radeon_hw_info \<Rightarrow> bool \<Rightarrow> u32 \<Rightarrow> u32 \<Rightarrow> u32 \<Rightarrow> u32 \<Rightarrow> u32 \<Rightarrow>
   radeon_surface \<Rightarrow> radeon_surface_level list \<Rightarrow> u64 \<Rightarrow> nat \<Rightarrow> mip_result option" where
  "si_surface_init_2d hw main bpe tile_mode num_pipes num_banks tile_split surf lvs offset start_level = do {
     (slice_pt, tileb) \<leftarrow> tile_slices (8 * 8 * bpe * su_nsamples surf) tile_split;
     (mtilew, mtileh, mtileb) \<leftarrow> macro_tile surf num_pipes num_banks tileb;
     let (surf, aligned_offset) = si_align surf (max 256 mtileb) offset start_level;
     mip_loop (si_2d_body hw si_fallback_mode main bpe tile_mode slice_pt mtilew mtileh mtileb)
       mip_done_2d (level_range surf start_level) (surf, lvs, aligned_offset, offset)
   }"

definition si_surface_init_2d_miptrees ::
  "radeon_hw_info \<Rightarrow> radeon_surface \<Rightarrow> u32 \<Rightarrow> u32 option \<Rightarrow> (int \<times> radeon_surface) option" where
  "si_surface_init_2d_miptrees hw surf tile_mode stencil_tile_mode = do {
     gb \<leftarrow> arr_get (hw_tile_mode_array hw) tile_mode;
     let g = si_gb_tile_mode gb;
     res \<leftarrow> si_surface_init_2d hw True (su_bpe surf) tile_mode (gb_num_pipes g) (gb_num_banks g)
        (su_tile_split surf) surf (su_level surf) 0 0;
     let (r, surf) = store_level res;
     if r \<noteq> 0 then Some (r, surf)
     else if flag (su_flags surf) RADEON_SURF_SBUFFER then do {
       sm \<leftarrow> stencil_tile_mode;
       res \<leftarrow> si_surface_init_2d hw False 1 sm (gb_num_pipes g) (gb_num_banks g)
          (su_stencil_tile_split surf) surf (su_stencil_level surf) (su_bo_size surf) 0;
       store_stencil True res
     }
     else Some (r, surf)
   }"

definition si_surface_init :: "radeon_hw_info \<Rightarrow> radeon_surface \<Rightarrow> (int \<times> radeon_surface) option" where
  "si_surface_init hw surf = do {
     let (mode, surf) = init_mode surf;
     (r, surf, tm, sm) \<leftarrow> si_surface_sanity hw surf mode;
     if r \<noteq> 0 then Some (r, surf)
     else do {
       let surf = surf\<lparr>su_stencil_offset := 0, su_bo_alignment := 0\<rparr>;
       if mode = RADEON_SURF_MODE_LINEAR then
         map_option store_level (r6_surface_init_linear hw surf (su_level surf) 0 0)
       else if mode = RADEON_SURF_MODE_LINEAR_ALIGNED then do {
         tm \<leftarrow> tm;
         map_option store_level (si_surface_init_linear_aligned hw tm surf (su_level surf) 0 0)
       }
       else if mode = RADEON_SURF_MODE_1D then do {
         tm \<leftarrow> tm;
         si_surface_init_1d_miptrees hw surf tm sm
       }
       else if mode = RADEON_SURF_MODE_2D then do {
         tm \<leftarrow> tm;
         si_surface_init_2d_miptrees hw surf tm sm
       }
       else Some (- EINVAL, surf)
     }
   }"

definition si_surface_best :: "radeon_hw_info \<Rightarrow> radeon_surface \<Rightarrow> (int \<times> radeon_surface) option" where
  "si_surface_best hw surf = do {
     let mode = RADEON_SURF_GET_MODE (su_flags surf);
     let surf = (if flag (su_flags surf) RADEON_SURF_Z_OR_SBUFFER \<and>
                    \<not> flag (su_flags surf) RADEON_SURF_HAS_TILE_MODE_INDEX
                 then set_mode surf RADEON_SURF_MODE_1D else surf);
     (r, surf, _, _) \<leftarrow> si_surface_sanity hw surf mode;
     Some (r, surf)
   }"

end
