(* ===== verification/Radeon_CIK.thy ===== *)
theory Radeon_CIK
  imports Radeon_SI
begin

text \<open>
  The sea islands part of \<open>radeon/radeon_surface.c\<close>: the bank parameters come from a second table,
  indexed by the size of a tile. The linear and 1D layouts are those of the southern islands.
\<close>

section \<open>Tile modes\<close>

definition CIK_TILE_MODE_COLOR_2D :: u32 where "CIK_TILE_MODE_COLOR_2D = 14"
definition CIK_TILE_MODE_COLOR_2D_SCANOUT :: u32 where "CIK_TILE_MODE_COLOR_2D_SCANOUT = 10"
definition CIK_TILE_MODE_DEPTH_STENCIL_2D_TILESPLIT_64 :: u32 where
  "CIK_TILE_MODE_DEPTH_STENCIL_2D_TILESPLIT_64 = 0"
definition CIK_TILE_MODE_DEPTH_STENCIL_2D_TILESPLIT_128 :: u32 where
  "CIK_TILE_MODE_DEPTH_STENCIL_2D_TILESPLIT_128 = 1"
definition CIK_TILE_MODE_DEPTH_STENCIL_2D_TILESPLIT_256 :: u32 where
  "CIK_TILE_MODE_DEPTH_STENCIL_2D_TILESPLIT_256 = 2"
definition CIK_TILE_MODE_DEPTH_STENCIL_2D_TILESPLIT_512 :: u32 where
  "CIK_TILE_MODE_DEPTH_STENCIL_2D_TILESPLIT_512 = 3"
definition CIK_TILE_MODE_DEPTH_STENCIL_2D_TILESPLIT_ROW_SIZE :: u32 where
  "CIK_TILE_MODE_DEPTH_STENCIL_2D_TILESPLIT_ROW_SIZE = 4"
definition CIK_TILE_MODE_DEPTH_STENCIL_1D :: u32 where "CIK_TILE_MODE_DEPTH_STENCIL_1D = 5"

lemmas cik_tile_mode_defs =
  CIK_TILE_MODE_COLOR_2D_def CIK_TILE_MODE_COLOR_2D_SCANOUT_def
  CIK_TILE_MODE_DEPTH_STENCIL_2D_TILESPLIT_64_def CIK_TILE_MODE_DEPTH_STENCIL_2D_TILESPLIT_128_def
  CIK_TILE_MODE_DEPTH_STENCIL_2D_TILESPLIT_256_def CIK_TILE_MODE_DEPTH_STENCIL_2D_TILESPLIT_512_def
  CIK_TILE_MODE_DEPTH_STENCIL_2D_TILESPLIT_ROW_SIZE_def CIK_TILE_MODE_DEPTH_STENCIL_1D_def

definition cik_pipes :: "u32 \<Rightarrow> u32" where
  "cik_pipes pc =
    (if 4 \<le> pc \<and> pc \<le> 7 then 4 else if 8 \<le> pc \<and> pc \<le> 14 then 8
     else if pc = 16 \<or> pc = 17 then 16 else 2)"

text \<open>The index into the macro tile table: how often the tile size is halved before it is at most
  64 bytes.\<close>

function macrotile_index_loop :: "u32 \<Rightarrow> u32 \<Rightarrow> u32" where
  "macrotile_index_loop tileb index =
    (if tileb > 64 then macrotile_index_loop (drop_bit 1 tileb) (index + 1) else index)"
  by auto
termination
  by (relation "measure (\<lambda>(tileb, _). unat tileb)") (auto intro: unat_drop_bit_less)

declare macrotile_index_loop.simps [simp del]

text \<open>\<open>cik_get_2d_params\<close> with all its out parameters; the callers pass \<open>NULL\<close> for the ones they do
  not use.\<close>

definition cik_tile_split :: "radeon_hw_info \<Rightarrow> u32 \<Rightarrow> bool \<Rightarrow> u32 \<Rightarrow> u32" where
  "cik_tile_split hw bpe is_color gb_tile_mode =
    (let tileb_1x = 8 * 8 * bpe;
         sample_split = dec2 1 (drop_bit 25 gb_tile_mode AND 0x3);
         tile_split = dec_split (drop_bit 11 gb_tile_mode AND 0x7);
         tile_split = (if is_color then max 256 (sample_split * tileb_1x) else tile_split)
     in min (hw_row_size hw) tile_split)"

definition cik_get_2d_params ::
  "radeon_hw_info \<Rightarrow> u32 \<Rightarrow> u32 \<Rightarrow> bool \<Rightarrow> u32 \<Rightarrow> gb_tile option" where
  "cik_get_2d_params hw bpe nsamples is_color tile_mode = do {
     gb_tile_mode \<leftarrow> arr_get (hw_tile_mode_array hw) tile_mode;
     let tileb_1x = 8 * 8 * bpe;
     let tile_split = cik_tile_split hw bpe is_color gb_tile_mode;
     let tileb = min tile_split (nsamples * tileb_1x);
     gb_macrotile_mode \<leftarrow> arr_get (hw_macrotile_mode_array hw) (macrotile_index_loop tileb 0);
     Some \<lparr>gb_num_pipes = cik_pipes (drop_bit 6 gb_tile_mode AND 0x1f),
           gb_num_banks = dec2 2 (drop_bit 6 gb_macrotile_mode AND 0x3),
           gb_macro_tile_aspect = dec2 1 (drop_bit 4 gb_macrotile_mode AND 0x3),
           gb_bank_w = dec2 1 (gb_macrotile_mode AND 0x3),
           gb_bank_h = dec2 1 (drop_bit 2 gb_macrotile_mode AND 0x3),
           gb_tile_split = tile_split\<rparr>
   }"

section \<open>Hardware parameters\<close>

text \<open>The second table is asked for only when the first request succeeded.\<close>

definition cik_init_hw_info :: "radeon_kernel \<Rightarrow> radeon_hw_info \<Rightarrow> (int \<times> radeon_hw_info) option" where
  "cik_init_hw_info k hw = do {
     (r, v) \<leftarrow> radeon_get_value k RADEON_INFO_TILING_CONFIG [0];
     if r \<noteq> 0 then Some (r, hw)
     else do {
       let hw = hw\<lparr>hw_allow_2d := 0\<rparr>;
       hw \<leftarrow> (if version_at_least k 35 then do {
           (r, arr) \<leftarrow> radeon_get_value k RADEON_INFO_SI_TILE_MODE_ARRAY (hw_tile_mode_array hw);
           let hw = hw\<lparr>hw_tile_mode_array := arr\<rparr>;
           if r \<noteq> 0 then Some hw
           else do {
             (r, arr) \<leftarrow> radeon_get_value k RADEON_INFO_CIK_MACROTILE_MODE_ARRAY (hw_macrotile_mode_array hw);
             let hw = hw\<lparr>hw_macrotile_mode_array := arr\<rparr>;
             Some (if r = 0 then hw\<lparr>hw_allow_2d := 1\<rparr> else hw)
           }
         } else Some hw);
       Some (0, decode_tiling_config (v ! 0) hw)
     }
   }"

section \<open>Sanity\<close>

definition cik_depth_mode :: "u32 \<Rightarrow> u32 option" where
  "cik_depth_mode nsamples =
    (if nsamples = 1 then Some CIK_TILE_MODE_DEPTH_STENCIL_2D_TILESPLIT_64
     else if nsamples = 2 \<or> nsamples = 4 then Some CIK_TILE_MODE_DEPTH_STENCIL_2D_TILESPLIT_128
     else if nsamples = 8 then Some CIK_TILE_MODE_DEPTH_STENCIL_2D_TILESPLIT_256
     else None)"

definition cik_color_mode :: "radeon_surface \<Rightarrow> u32 option" where
  "cik_color_mode surf =
    (if flag (su_flags surf) RADEON_SURF_Z_OR_SBUFFER then cik_depth_mode (su_nsamples surf)
     else if flag (su_flags surf) RADEON_SURF_SCANOUT then Some CIK_TILE_MODE_COLOR_2D_SCANOUT
     else Some CIK_TILE_MODE_COLOR_2D)"

definition cik_sanity_2d :: "radeon_hw_info \<Rightarrow> radeon_surface \<Rightarrow> sanity_result option" where
  "cik_sanity_2d hw surf =
    (case cik_color_mode surf of
       None \<Rightarrow> Some (- EINVAL, surf, None, None)
     | Some tm \<Rightarrow> do {
         (surf, sm) \<leftarrow> (if flag (su_flags surf) RADEON_SURF_SBUFFER then do {
             g \<leftarrow> cik_get_2d_params hw 1 (su_nsamples surf) False tm;
             Some (surf\<lparr>su_stencil_tile_split := gb_tile_split g\<rparr>, Some tm)
           } else Some (surf, None));
         g \<leftarrow> cik_get_2d_params hw (su_bpe surf) (su_nsamples surf)
               (\<not> flag (su_flags surf) RADEON_SURF_Z_OR_SBUFFER) tm;
         Some (0, surf\<lparr>su_tile_split := gb_tile_split g, su_mtilea := gb_macro_tile_aspect g,
                       su_bankw := gb_bank_w g, su_bankh := gb_bank_h g\<rparr>, Some tm, sm)
       })"

definition cik_surface_sanity ::
  "radeon_hw_info \<Rightarrow> radeon_surface \<Rightarrow> u32 \<Rightarrow> sanity_result option" where
  "cik_surface_sanity hw surf mode =
    (case si_sanity_common hw surf mode of
       Inl (r, surf) \<Rightarrow> Some (r, surf, None, None)
     | Inr (mode, surf) \<Rightarrow>
         if mode = RADEON_SURF_MODE_2D then cik_sanity_2d hw surf
         else if mode = RADEON_SURF_MODE_1D then
           Some (0, surf,
             Some (if flag (su_flags surf) RADEON_SURF_ZBUFFER then CIK_TILE_MODE_DEPTH_STENCIL_1D
                   else if flag (su_flags surf) RADEON_SURF_SCANOUT then SI_TILE_MODE_COLOR_1D_SCANOUT
                   else SI_TILE_MODE_COLOR_1D),
             if flag (su_flags surf) RADEON_SURF_SBUFFER then Some CIK_TILE_MODE_DEPTH_STENCIL_1D else None)
         else Some (0, surf, Some SI_TILE_MODE_COLOR_LINEAR_ALIGNED, None))"

section \<open>Layout\<close>

definition cik_fallback_mode :: "u32 \<Rightarrow> u32 option" where
  "cik_fallback_mode tm =
    (if tm = CIK_TILE_MODE_COLOR_2D then Some SI_TILE_MODE_COLOR_1D
     else if tm = CIK_TILE_MODE_COLOR_2D_SCANOUT then Some SI_TILE_MODE_COLOR_1D_SCANOUT
     else if tm \<in> {CIK_TILE_MODE_DEPTH_STENCIL_2D_TILESPLIT_64, CIK_TILE_MODE_DEPTH_STENCIL_2D_TILESPLIT_128,
                   CIK_TILE_MODE_DEPTH_STENCIL_2D_TILESPLIT_256, CIK_TILE_MODE_DEPTH_STENCIL_2D_TILESPLIT_512,
                   CIK_TILE_MODE_DEPTH_STENCIL_2D_TILESPLIT_ROW_SIZE}
     then Some CIK_TILE_MODE_DEPTH_STENCIL_1D
     else None)"

definition cik_surface_init_2d ::
  "radeon_hw_info \<Rightarrow> bool \<Rightarrow> u32 \<Rightarrow> u32 \<Rightarrow> u32 \<Rightarrow> u32 \<Rightarrow> u32 \<Rightarrow>
   radeon_surface \<Rightarrow> radeon_surface_level list \<Rightarrow> u64 \<Rightarrow> nat \<Rightarrow> mip_result option" where
  "cik_surface_init_2d hw main bpe tile_mode tile_split num_pipes num_banks surf lvs offset start_level = do {
     let tile_split = min (hw_row_size hw) tile_split;
     (slice_pt, tileb) \<leftarrow> tile_slices (su_nsamples surf * (8 * 8 * bpe)) tile_split;
     (mtilew, mtileh, mtileb) \<leftarrow> macro_tile surf num_pipes num_banks tileb;
     let (surf, aligned_offset) = si_align surf (max 256 mtileb) offset start_level;
     mip_loop (si_2d_body hw cik_fallback_mode main bpe tile_mode slice_pt mtilew mtileh mtileb)
       mip_done_2d (level_range surf start_level) (surf, lvs, aligned_offset, offset)
   }"

definition cik_surface_init_2d_miptrees ::
  "radeon_hw_info \<Rightarrow> radeon_surface \<Rightarrow> u32 \<Rightarrow> u32 option \<Rightarrow> (int \<times> radeon_surface) option" where
  "cik_surface_init_2d_miptrees hw surf tile_mode stencil_tile_mode = do {
     g \<leftarrow> cik_get_2d_params hw (su_bpe surf) (su_nsamples surf)
           (\<not> flag (su_flags surf) RADEON_SURF_Z_OR_SBUFFER) tile_mode;
     res \<leftarrow> cik_surface_init_2d hw True (su_bpe surf) tile_mode (su_tile_split surf)
        (gb_num_pipes g) (gb_num_banks g) surf (su_level surf) 0 0;
     let (r, surf) = store_level res;
     if r \<noteq> 0 then Some (r, surf)
     else if flag (su_flags surf) RADEON_SURF_SBUFFER then do {
       sm \<leftarrow> stencil_tile_mode;
       res \<leftarrow> cik_surface_init_2d hw False 1 sm (su_stencil_tile_split surf)
          (gb_num_pipes g) (gb_num_banks g) surf (su_stencil_level surf) (su_bo_size surf) 0;
       store_stencil True res
     }
     else Some (r, surf)
   }"

definition cik_surface_init :: "radeon_hw_info \<Rightarrow> radeon_surface \<Rightarrow> (int \<times> radeon_surface) option" where
  "cik_surface_init hw surf = do {
     let (mode, surf) = init_mode surf;
     (r, surf, tm, sm) \<leftarrow> cik_surface_sanity hw surf mode;
     if r \<noteq> 0 then Some (r, surf)
     else do {
       let surf = surf\<lparr>su_stencil_offset := 0, su_bo_alignment := 0\<rparr>;
       if mode = RADEON_SURF_MODE_LINEAR then
         map_option store_level (r6_surface_init_linear hw surf (su_level surf) 0 0)
       else if mode = RADEON_SURF_MODE_LINEAR_ALIGNED then do {
         tm \<leftarrow> tm;
         map_option store_level (si_surface_init_linear_aligned hw tm surf (su_level surf) 0 0)
       }
       else if mode = RADEON_SURF_MODE_1D then do {
         tm \<leftarrow> tm;
         si_surface_init_1d_miptrees hw surf tm sm
       }
       else if mode = RADEON_SURF_MODE_2D then do {
         tm \<leftarrow> tm;
         cik_surface_init_2d_miptrees hw surf tm sm
       }
       else Some (- EINVAL, surf)
     }
   }"

definition cik_surface_best :: "radeon_hw_info \<Rightarrow> radeon_surface \<Rightarrow> (int \<times> radeon_surface) option" where
  "cik_surface_best hw surf = do {
     let mode = RADEON_SURF_GET_MODE (su_flags surf);
     let surf = (if flag (su_flags surf) RADEON_SURF_Z_OR_SBUFFER \<and>
                    \<not> flag (su_flags surf) RADEON_SURF_HAS_TILE_MODE_INDEX
                 then set_mode surf RADEON_SURF_MODE_1D else surf);
     (r, surf, _, _) \<leftarrow> cik_surface_sanity hw surf mode;
     Some (r, surf)
   }"

end
