(* ===== verification/Radeon_Manager.thy ===== *)
theory Radeon_Manager
  imports Radeon_CIK
begin

text \<open>
  The public functions of \<open>radeon/radeon_surface.c\<close> and the table \<open>radeon/r600_pci_ids.h\<close>: the
  manager asks the kernel for the device, finds its family, reads the family's hardware parameters
  and keeps the family's functions as function pointers.
\<close>

section \<open>Families\<close>

datatype radeon_family =
    CHIP_UNKNOWN | CHIP_R600 | CHIP_RV610 | CHIP_RV630 | CHIP_RV670 | CHIP_RV620 | CHIP_RV635 | CHIP_RS780
  | CHIP_RS880 | CHIP_RV770 | CHIP_RV730 | CHIP_RV710 | CHIP_RV740 | CHIP_CEDAR | CHIP_REDWOOD | CHIP_JUNIPER
  | CHIP_CYPRESS | CHIP_HEMLOCK | CHIP_PALM | CHIP_SUMO | CHIP_SUMO2 | CHIP_BARTS | CHIP_TURKS | CHIP_CAICOS
  | CHIP_CAYMAN | CHIP_ARUBA | CHIP_TAHITI | CHIP_PITCAIRN | CHIP_VERDE | CHIP_OLAND | CHIP_HAINAN | CHIP_BONAIRE
  | CHIP_KAVERI | CHIP_KABINI | CHIP_HAWAII | CHIP_MULLINS | CHIP_LAST

text \<open>The values of the enumeration.\<close>

primrec family_num :: "radeon_family \<Rightarrow> nat" where
    "family_num CHIP_UNKNOWN = 0"
  | "family_num CHIP_R600 = 1"
  | "family_num CHIP_RV610 = 2"
  | "family_num CHIP_RV630 = 3"
  | "family_num CHIP_RV670 = 4"
  | "family_num CHIP_RV620 = 5"
  | "family_num CHIP_RV635 = 6"
  | "family_num CHIP_RS780 = 7"
  | "family_num CHIP_RS880 = 8"
  | "family_num CHIP_RV770 = 9"
  | "family_num CHIP_RV730 = 10"
  | "family_num CHIP_RV710 = 11"
  | "family_num CHIP_RV740 = 12"
  | "family_num CHIP_CEDAR = 13"
  | "family_num CHIP_REDWOOD = 14"
  | "family_num CHIP_JUNIPER = 15"
  | "family_num CHIP_CYPRESS = 16"
  | "family_num CHIP_HEMLOCK = 17"
  | "family_num CHIP_PALM = 18"
  | "family_num CHIP_SUMO = 19"
  | "family_num CHIP_SUMO2 = 20"
  | "family_num CHIP_BARTS = 21"
  | "family_num CHIP_TURKS = 22"
  | "family_num CHIP_CAICOS = 23"
  | "family_num CHIP_CAYMAN = 24"
  | "family_num CHIP_ARUBA = 25"
  | "family_num CHIP_TAHITI = 26"
  | "family_num CHIP_PITCAIRN = 27"
  | "family_num CHIP_VERDE = 28"
  | "family_num CHIP_OLAND = 29"
  | "family_num CHIP_HAINAN = 30"
  | "family_num CHIP_BONAIRE = 31"
  | "family_num CHIP_KAVERI = 32"
  | "family_num CHIP_KABINI = 33"
  | "family_num CHIP_HAWAII = 34"
  | "family_num CHIP_MULLINS = 35"
  | "family_num CHIP_LAST = 36"

definition families :: "radeon_family list" where
  "families = [
    CHIP_UNKNOWN, CHIP_R600, CHIP_RV610, CHIP_RV630, CHIP_RV670, CHIP_RV620, CHIP_RV635, CHIP_RS780,
    CHIP_RS880, CHIP_RV770, CHIP_RV730, CHIP_RV710, CHIP_RV740, CHIP_CEDAR, CHIP_REDWOOD, CHIP_JUNIPER,
    CHIP_CYPRESS, CHIP_HEMLOCK, CHIP_PALM, CHIP_SUMO, CHIP_SUMO2, CHIP_BARTS, CHIP_TURKS, CHIP_CAICOS,
    CHIP_CAYMAN, CHIP_ARUBA, CHIP_TAHITI, CHIP_PITCAIRN, CHIP_VERDE, CHIP_OLAND, CHIP_HAINAN, CHIP_BONAIRE,
    CHIP_KAVERI, CHIP_KABINI, CHIP_HAWAII, CHIP_MULLINS, CHIP_LAST]"

text \<open>The code compares families by their values: a linear order.\<close>

lemma families_nth: "families ! family_num f = f"
  by (cases f) (simp_all add: families_def)

lemma family_num_inj: "family_num f = family_num g \<Longrightarrow> f = g"
  by (metis families_nth)

instantiation radeon_family :: linorder
begin

definition less_eq_radeon_family :: "radeon_family \<Rightarrow> radeon_family \<Rightarrow> bool" where
  "less_eq_radeon_family f g \<longleftrightarrow> family_num f \<le> family_num g"

definition less_radeon_family :: "radeon_family \<Rightarrow> radeon_family \<Rightarrow> bool" where
  "less_radeon_family f g \<longleftrightarrow> family_num f < family_num g"

instance
  by standard (auto simp: less_eq_radeon_family_def less_radeon_family_def intro: family_num_inj)

end

section \<open>Device ids\<close>

text \<open>The rows of \<open>r600_pci_ids.h\<close>, by generation.\<close>

definition pci_ids_r6 :: "(u32 \<times> radeon_family) list" where
  "pci_ids_r6 = [
    (0x9400, CHIP_R600), (0x9401, CHIP_R600), (0x9402, CHIP_R600), (0x9403, CHIP_R600),
    (0x9405, CHIP_R600), (0x940A, CHIP_R600), (0x940B, CHIP_R600), (0x940F, CHIP_R600),
    (0x94C0, CHIP_RV610), (0x94C1, CHIP_RV610), (0x94C3, CHIP_RV610), (0x94C4, CHIP_RV610),
    (0x94C5, CHIP_RV610), (0x94C6, CHIP_RV610), (0x94C7, CHIP_RV610), (0x94C8, CHIP_RV610),
    (0x94C9, CHIP_RV610), (0x94CB, CHIP_RV610), (0x94CC, CHIP_RV610), (0x94CD, CHIP_RV610),
    (0x9580, CHIP_RV630), (0x9581, CHIP_RV630), (0x9583, CHIP_RV630), (0x9586, CHIP_RV630),
    (0x9587, CHIP_RV630), (0x9588, CHIP_RV630), (0x9589, CHIP_RV630), (0x958A, CHIP_RV630),
    (0x958B, CHIP_RV630), (0x958C, CHIP_RV630), (0x958D, CHIP_RV630), (0x958E, CHIP_RV630),
    (0x958F, CHIP_RV630), (0x9500, CHIP_RV670), (0x9501, CHIP_RV670), (0x9504, CHIP_RV670),
    (0x9505, CHIP_RV670), (0x9506, CHIP_RV670), (0x9507, CHIP_RV670), (0x9508, CHIP_RV670),
    (0x9509, CHIP_RV670), (0x950F, CHIP_RV670), (0x9511, CHIP_RV670), (0x9515, CHIP_RV670),
    (0x9517, CHIP_RV670), (0x9519, CHIP_RV670), (0x95C0, CHIP_RV620), (0x95C2, CHIP_RV620),
    (0x95C4, CHIP_RV620), (0x95C5, CHIP_RV620), (0x95C6, CHIP_RV620), (0x95C7, CHIP_RV620),
    (0x95C9, CHIP_RV620), (0x95CC, CHIP_RV620), (0x95CD, CHIP_RV620), (0x95CE, CHIP_RV620),
    (0x95CF, CHIP_RV620), (0x9590, CHIP_RV635), (0x9591, CHIP_RV635), (0x9593, CHIP_RV635),
    (0x9595, CHIP_RV635), (0x9596, CHIP_RV635), (0x9597, CHIP_RV635), (0x9598, CHIP_RV635),
    (0x9599, CHIP_RV635), (0x959B, CHIP_RV635), (0x9610, CHIP_RS780), (0x9611, CHIP_RS780),
    (0x9612, CHIP_RS780), (0x9613, CHIP_RS780), (0x9614, CHIP_RS780), (0x9615, CHIP_RS780),
    (0x9616, CHIP_RS780), (0x9710, CHIP_RS880), (0x9711, CHIP_RS880), (0x9712, CHIP_RS880),
    (0x9713, CHIP_RS880), (0x9714, CHIP_RS880), (0x9715, CHIP_RS880), (0x9440, CHIP_RV770),
    (0x9441, CHIP_RV770), (0x9442, CHIP_RV770), (0x9443, CHIP_RV770), (0x9444, CHIP_RV770),
    (0x9446, CHIP_RV770), (0x944A, CHIP_RV770), (0x944B, CHIP_RV770), (0x944C, CHIP_RV770),
    (0x944E, CHIP_RV770), (0x9450, CHIP_RV770), (0x9452, CHIP_RV770), (0x9456, CHIP_RV770),
    (0x945A, CHIP_RV770), (0x945B, CHIP_RV770), (0x945E, CHIP_RV770), (0x9460, CHIP_RV770),
    (0x9462, CHIP_RV770), (0x946A, CHIP_RV770), (0x946B, CHIP_RV770), (0x947A, CHIP_RV770),
    (0x947B, CHIP_RV770), (0x9480, CHIP_RV730), (0x9487, CHIP_RV730), (0x9488, CHIP_RV730),
    (0x9489, CHIP_RV730), (0x948A, CHIP_RV730), (0x948F, CHIP_RV730), (0x9490, CHIP_RV730),
    (0x9491, CHIP_RV730), (0x9495, CHIP_RV730), (0x9498, CHIP_RV730), (0x949C, CHIP_RV730),
    (0x949E, CHIP_RV730), (0x949F, CHIP_RV730), (0x9540, CHIP_RV710), (0x9541, CHIP_RV710),
    (0x9542, CHIP_RV710), (0x954E, CHIP_RV710), (0x954F, CHIP_RV710), (0x9552, CHIP_RV710),
    (0x9553, CHIP_RV710), (0x9555, CHIP_RV710), (0x9557, CHIP_RV710), (0x955F, CHIP_RV710),
    (0x94A0, CHIP_RV740), (0x94A1, CHIP_RV740), (0x94A3, CHIP_RV740), (0x94B1, CHIP_RV740),
    (0x94B3, CHIP_RV740), (0x94B4, CHIP_RV740), (0x94B5, CHIP_RV740), (0x94B9, CHIP_RV740)]"

definition pci_ids_eg :: "(u32 \<times> radeon_family) list" where
  "pci_ids_eg = [
    (0x68E0, CHIP_CEDAR), (0x68E1, CHIP_CEDAR), (0x68E4, CHIP_CEDAR), (0x68E5, CHIP_CEDAR),
    (0x68E8, CHIP_CEDAR), (0x68E9, CHIP_CEDAR), (0x68F1, CHIP_CEDAR), (0x68F2, CHIP_CEDAR),
    (0x68F8, CHIP_CEDAR), (0x68F9, CHIP_CEDAR), (0x68FA, CHIP_CEDAR), (0x68FE, CHIP_CEDAR),
    (0x68C0, CHIP_REDWOOD), (0x68C1, CHIP_REDWOOD), (0x68C7, CHIP_REDWOOD), (0x68C8, CHIP_REDWOOD),
    (0x68C9, CHIP_REDWOOD), (0x68D8, CHIP_REDWOOD), (0x68D9, CHIP_REDWOOD), (0x68DA, CHIP_REDWOOD),
    (0x68DE, CHIP_REDWOOD), (0x68A0, CHIP_JUNIPER), (0x68A1, CHIP_JUNIPER), (0x68A8, CHIP_JUNIPER),
    (0x68A9, CHIP_JUNIPER), (0x68B0, CHIP_JUNIPER), (0x68B8, CHIP_JUNIPER), (0x68B9, CHIP_JUNIPER),
    (0x68BA, CHIP_JUNIPER), (0x68BE, CHIP_JUNIPER), (0x68BF, CHIP_JUNIPER), (0x6880, CHIP_CYPRESS),
    (0x6888, CHIP_CYPRESS), (0x6889, CHIP_CYPRESS), (0x688A, CHIP_CYPRESS), (0x688C, CHIP_CYPRESS),
    (0x688D, CHIP_CYPRESS), (0x6898, CHIP_CYPRESS), (0x6899, CHIP_CYPRESS), (0x689B, CHIP_CYPRESS),
    (0x689E, CHIP_CYPRESS), (0x689C, CHIP_HEMLOCK), (0x689D, CHIP_HEMLOCK), (0x9802, CHIP_PALM),
    (0x9803, CHIP_PALM), (0x9804, CHIP_PALM), (0x9805, CHIP_PALM), (0x9806, CHIP_PALM),
    (0x9807, CHIP_PALM), (0x9808, CHIP_PALM), (0x9809, CHIP_PALM), (0x980A, CHIP_PALM),
    (0x9640, CHIP_SUMO), (0x9641, CHIP_SUMO), (0x9642, CHIP_SUMO2), (0x9643, CHIP_SUMO2),
    (0x9644, CHIP_SUMO2), (0x9645, CHIP_SUMO2), (0x9647, CHIP_SUMO), (0x9648, CHIP_SUMO),
    (0x9649, CHIP_SUMO2), (0x964a, CHIP_SUMO), (0x964b, CHIP_SUMO), (0x964c, CHIP_SUMO),
    (0x964e, CHIP_SUMO), (0x964f, CHIP_SUMO), (0x6700, CHIP_CAYMAN), (0x6701, CHIP_CAYMAN),
    (0x6702, CHIP_CAYMAN), (0x6703, CHIP_CAYMAN), (0x6704, CHIP_CAYMAN), (0x6705, CHIP_CAYMAN),
    (0x6706, CHIP_CAYMAN), (0x6707, CHIP_CAYMAN), (0x6708, CHIP_CAYMAN), (0x6709, CHIP_CAYMAN),
    (0x6718, CHIP_CAYMAN), (0x6719, CHIP_CAYMAN), (0x671C, CHIP_CAYMAN), (0x671D, CHIP_CAYMAN),
    (0x671F, CHIP_CAYMAN), (0x6720, CHIP_BARTS), (0x6721, CHIP_BARTS), (0x6722, CHIP_BARTS),
    (0x6723, CHIP_BARTS), (0x6724, CHIP_BARTS), (0x6725, CHIP_BARTS), (0x6726, CHIP_BARTS),
    (0x6727, CHIP_BARTS), (0x6728, CHIP_BARTS), (0x6729, CHIP_BARTS), (0x6738, CHIP_BARTS),
    (0x6739, CHIP_BARTS), (0x673E, CHIP_BARTS)]"

definition pci_ids_ni :: "(u32 \<times> radeon_family) list" where
  "pci_ids_ni = [
    (0x6740, CHIP_TURKS), (0x6741, CHIP_TURKS), (0x6742, CHIP_TURKS), (0x6743, CHIP_TURKS),
    (0x6744, CHIP_TURKS), (0x6745, CHIP_TURKS), (0x6746, CHIP_TURKS), (0x6747, CHIP_TURKS),
    (0x6748, CHIP_TURKS), (0x6749, CHIP_TURKS), (0x674A, CHIP_TURKS), (0x6750, CHIP_TURKS),
    (0x6751, CHIP_TURKS), (0x6758, CHIP_TURKS), (0x6759, CHIP_TURKS), (0x675B, CHIP_TURKS),
    (0x675D, CHIP_TURKS), (0x675F, CHIP_TURKS), (0x6840, CHIP_TURKS), (0x6841, CHIP_TURKS),
    (0x6842, CHIP_TURKS), (0x6843, CHIP_TURKS), (0x6849, CHIP_TURKS), (0x6850, CHIP_TURKS),
    (0x6858, CHIP_TURKS), (0x6859, CHIP_TURKS), (0x6760, CHIP_CAICOS), (0x6761, CHIP_CAICOS),
    (0x6762, CHIP_CAICOS), (0x6763, CHIP_CAICOS), (0x6764, CHIP_CAICOS), (0x6765, CHIP_CAICOS),
    (0x6766, CHIP_CAICOS), (0x6767, CHIP_CAICOS), (0x6768, CHIP_CAICOS), (0x6770, CHIP_CAICOS),
    (0x6771, CHIP_CAICOS), (0x6772, CHIP_CAICOS), (0x6778, CHIP_CAICOS), (0x6779, CHIP_CAICOS),
    (0x677B, CHIP_CAICOS), (0x9900, CHIP_ARUBA), (0x9901, CHIP_ARUBA), (0x9903, CHIP_ARUBA),
    (0x9904, CHIP_ARUBA), (0x9905, CHIP_ARUBA), (0x9906, CHIP_ARUBA), (0x9907, CHIP_ARUBA),
    (0x9908, CHIP_ARUBA), (0x9909, CHIP_ARUBA), (0x990A, CHIP_ARUBA), (0x990B, CHIP_ARUBA),
    (0x990C, CHIP_ARUBA), (0x990D, CHIP_ARUBA), (0x990E, CHIP_ARUBA), (0x990F, CHIP_ARUBA),
    (0x9910, CHIP_ARUBA), (0x9913, CHIP_ARUBA), (0x9917, CHIP_ARUBA), (0x9918, CHIP_ARUBA),
    (0x9919, CHIP_ARUBA), (0x9990, CHIP_ARUBA), (0x9991, CHIP_ARUBA), (0x9992, CHIP_ARUBA),
    (0x9993, CHIP_ARUBA), (0x9994, CHIP_ARUBA), (0x9995, CHIP_ARUBA), (0x9996, CHIP_ARUBA),
    (0x9997, CHIP_ARUBA), (0x9998, CHIP_ARUBA), (0x9999, CHIP_ARUBA), (0x999A, CHIP_ARUBA),
    (0x999B, CHIP_ARUBA), (0x999C, CHIP_ARUBA), (0x999D, CHIP_ARUBA), (0x99A0, CHIP_ARUBA),
    (0x99A2, CHIP_ARUBA), (0x99A4, CHIP_ARUBA)]"

definition pci_ids_si :: "(u32 \<times> radeon_family) list" where
  "pci_ids_si = [
    (0x6780, CHIP_TAHITI), (0x6784, CHIP_TAHITI), (0x6788, CHIP_TAHITI), (0x678A, CHIP_TAHITI),
    (0x6790, CHIP_TAHITI), (0x6791, CHIP_TAHITI), (0x6792, CHIP_TAHITI), (0x6798, CHIP_TAHITI),
    (0x6799, CHIP_TAHITI), (0x679A, CHIP_TAHITI), (0x679B, CHIP_TAHITI), (0x679E, CHIP_TAHITI),
    (0x679F, CHIP_TAHITI), (0x6800, CHIP_PITCAIRN), (0x6801, CHIP_PITCAIRN),
    (0x6802, CHIP_PITCAIRN), (0x6806, CHIP_PITCAIRN), (0x6808, CHIP_PITCAIRN),
    (0x6809, CHIP_PITCAIRN), (0x6810, CHIP_PITCAIRN), (0x6811, CHIP_PITCAIRN),
    (0x6816, CHIP_PITCAIRN), (0x6817, CHIP_PITCAIRN), (0x6818, CHIP_PITCAIRN),
    (0x6819, CHIP_PITCAIRN), (0x684C, CHIP_PITCAIRN), (0x6820, CHIP_VERDE), (0x6821, CHIP_VERDE),
    (0x6822, CHIP_VERDE), (0x6823, CHIP_VERDE), (0x6824, CHIP_VERDE), (0x6825, CHIP_VERDE),
    (0x6826, CHIP_VERDE), (0x6827, CHIP_VERDE), (0x6828, CHIP_VERDE), (0x6829, CHIP_VERDE),
    (0x682A, CHIP_VERDE), (0x682B, CHIP_VERDE), (0x682C, CHIP_VERDE), (0x682D, CHIP_VERDE),
    (0x682F, CHIP_VERDE), (0x6830, CHIP_VERDE), (0x6831, CHIP_VERDE), (0x6835, CHIP_VERDE),
    (0x6837, CHIP_VERDE), (0x6838, CHIP_VERDE), (0x6839, CHIP_VERDE), (0x683B, CHIP_VERDE),
    (0x683D, CHIP_VERDE), (0x683F, CHIP_VERDE), (0x6600, CHIP_OLAND), (0x6601, CHIP_OLAND),
    (0x6602, CHIP_OLAND), (0x6603, CHIP_OLAND), (0x6604, CHIP_OLAND), (0x6605, CHIP_OLAND),
    (0x6606, CHIP_OLAND), (0x6607, CHIP_OLAND), (0x6608, CHIP_OLAND), (0x6610, CHIP_OLAND),
    (0x6611, CHIP_OLAND), (0x6613, CHIP_OLAND), (0x6620, CHIP_OLAND), (0x6621, CHIP_OLAND),
    (0x6623, CHIP_OLAND), (0x6631, CHIP_OLAND), (0x6660, CHIP_HAINAN), (0x6663, CHIP_HAINAN),
    (0x6664, CHIP_HAINAN), (0x6665, CHIP_HAINAN), (0x6667, CHIP_HAINAN), (0x666F, CHIP_HAINAN)]"

definition pci_ids_cik :: "(u32 \<times> radeon_family) list" where
  "pci_ids_cik = [
    (0x6640, CHIP_BONAIRE), (0x6641, CHIP_BONAIRE), (0x6646, CHIP_BONAIRE), (0x6647, CHIP_BONAIRE),
    (0x6649, CHIP_BONAIRE), (0x6650, CHIP_BONAIRE), (0x6651, CHIP_BONAIRE), (0x6658, CHIP_BONAIRE),
    (0x665C, CHIP_BONAIRE), (0x665D, CHIP_BONAIRE), (0x9830, CHIP_KABINI), (0x9831, CHIP_KABINI),
    (0x9832, CHIP_KABINI), (0x9833, CHIP_KABINI), (0x9834, CHIP_KABINI), (0x9835, CHIP_KABINI),
    (0x9836, CHIP_KABINI), (0x9837, CHIP_KABINI), (0x9838, CHIP_KABINI), (0x9839, CHIP_KABINI),
    (0x983A, CHIP_KABINI), (0x983B, CHIP_KABINI), (0x983C, CHIP_KABINI), (0x983D, CHIP_KABINI),
    (0x983E, CHIP_KABINI), (0x983F, CHIP_KABINI), (0x9850, CHIP_MULLINS), (0x9851, CHIP_MULLINS),
    (0x9852, CHIP_MULLINS), (0x9853, CHIP_MULLINS), (0x9854, CHIP_MULLINS), (0x9855, CHIP_MULLINS),
    (0x9856, CHIP_MULLINS), (0x9857, CHIP_MULLINS), (0x9858, CHIP_MULLINS), (0x9859, CHIP_MULLINS),
    (0x985A, CHIP_MULLINS), (0x985B, CHIP_MULLINS), (0x985C, CHIP_MULLINS), (0x985D, CHIP_MULLINS),
    (0x985E, CHIP_MULLINS), (0x985F, CHIP_MULLINS), (0x1304, CHIP_KAVERI), (0x1305, CHIP_KAVERI),
    (0x1306, CHIP_KAVERI), (0x1307, CHIP_KAVERI), (0x1309, CHIP_KAVERI), (0x130A, CHIP_KAVERI),
    (0x130B, CHIP_KAVERI), (0x130C, CHIP_KAVERI), (0x130D, CHIP_KAVERI), (0x130E, CHIP_KAVERI),
    (0x130F, CHIP_KAVERI), (0x1310, CHIP_KAVERI), (0x1311, CHIP_KAVERI), (0x1312, CHIP_KAVERI),
    (0x1313, CHIP_KAVERI), (0x1315, CHIP_KAVERI), (0x1316, CHIP_KAVERI), (0x1317, CHIP_KAVERI),
    (0x1318, CHIP_KAVERI), (0x131B, CHIP_KAVERI), (0x131C, CHIP_KAVERI), (0x131D, CHIP_KAVERI),
    (0x67A0, CHIP_HAWAII), (0x67A1, CHIP_HAWAII), (0x67A2, CHIP_HAWAII), (0x67A8, CHIP_HAWAII),
    (0x67A9, CHIP_HAWAII), (0x67AA, CHIP_HAWAII), (0x67B0, CHIP_HAWAII), (0x67B1, CHIP_HAWAII),
    (0x67B8, CHIP_HAWAII), (0x67B9, CHIP_HAWAII), (0x67BA, CHIP_HAWAII), (0x67BE, CHIP_HAWAII)]"

definition r600_pci_ids :: "(u32 \<times> radeon_family) list" where
  "r600_pci_ids = pci_ids_r6 @ pci_ids_eg @ pci_ids_ni @ pci_ids_si @ pci_ids_cik"

section \<open>The manager\<close>

text \<open>The function pointers are the functions themselves, or \<open>None\<close> for \<open>NULL\<close>.\<close>

type_synonym hw_surface_fn = "radeon_hw_info \<Rightarrow> radeon_surface \<Rightarrow> (int \<times> radeon_surface) option"

record radeon_surface_manager =
  man_device_id :: u32
  man_hw_info :: radeon_hw_info
  man_family :: radeon_family
  man_surface_init :: "hw_surface_fn option"
  man_surface_best :: "hw_surface_fn option"

text \<open>What \<open>calloc\<close> returns.\<close>

definition hw_info_zero :: radeon_hw_info where
  "hw_info_zero = \<lparr>hw_group_bytes = 0, hw_num_banks = 0, hw_num_pipes = 0, hw_row_size = 0, hw_allow_2d = 0,
     hw_tile_mode_array = replicate 32 0, hw_macrotile_mode_array = replicate 16 0\<rparr>"

definition man_zero :: radeon_surface_manager where
  "man_zero = \<lparr>man_device_id = 0, man_hw_info = hw_info_zero, man_family = CHIP_UNKNOWN,
     man_surface_init = None, man_surface_best = None\<rparr>"

definition radeon_get_family :: "radeon_surface_manager \<Rightarrow> int \<times> radeon_surface_manager" where
  "radeon_get_family man =
    (case map_of r600_pci_ids (man_device_id man) of
       None \<Rightarrow> (- EINVAL, man)
     | Some fam \<Rightarrow> (0, man\<lparr>man_family := fam\<rparr>))"

text \<open>One branch of \<open>radeon_surface_manager_new\<close>: read the parameters, set the functions.\<close>

definition man_setup ::
  "(radeon_hw_info \<Rightarrow> (int \<times> radeon_hw_info) option) \<Rightarrow> hw_surface_fn \<Rightarrow> hw_surface_fn \<Rightarrow>
   radeon_surface_manager \<Rightarrow> radeon_surface_manager option option" where
  "man_setup init_hw_info ini best man = do {
     (r, hw) \<leftarrow> init_hw_info (man_hw_info man);
     if r \<noteq> 0 then Some None
     else Some (Some (man\<lparr>man_hw_info := hw, man_surface_init := Some ini, man_surface_best := Some best\<rparr>))
   }"

text \<open>
  \<open>radeon_surface_manager_new\<close> for a kernel \<open>k\<close> and the outcome \<open>mem\<close> of \<open>calloc\<close>; the result
  \<open>Some None\<close> is \<open>NULL\<close>.
\<close>

definition radeon_surface_manager_new ::
  "radeon_kernel \<Rightarrow> bool \<Rightarrow> radeon_surface_manager option option" where
  "radeon_surface_manager_new k mem =
    (if \<not> mem then Some None
     else do {
       (r, ids) \<leftarrow> radeon_get_value k RADEON_INFO_DEVICE_ID [man_device_id man_zero];
       let man = man_zero\<lparr>man_device_id := ids ! 0\<rparr>;
       if r \<noteq> 0 then Some None
       else do {
         let (r, man) = radeon_get_family man;
         if r \<noteq> 0 then Some None
         else if man_family man \<le> CHIP_RV740 then
           man_setup (r6_init_hw_info k) r6_surface_init r6_surface_best man
         else if man_family man \<le> CHIP_ARUBA then
           man_setup (eg_init_hw_info k) eg_surface_init eg_surface_best man
         else if man_family man < CHIP_BONAIRE then
           man_setup (si_init_hw_info k) si_surface_init si_surface_best man
         else
           man_setup (cik_init_hw_info k) cik_surface_init cik_surface_best man
       }
     })"

section \<open>Surfaces\<close>

text \<open>The checks on the type: the 1D cases fall through to the 2D ones.\<close>

definition check_type :: "radeon_surface_manager \<Rightarrow> radeon_surface \<Rightarrow> u32 \<Rightarrow> int \<times> radeon_surface" where
  "check_type man surf type =
    (if type = RADEON_SURF_TYPE_1D then
       if su_npix_y surf > 1 then (- EINVAL, surf)
       else if su_npix_z surf > 1 then (- EINVAL, surf)
       else (0, surf)
     else if type = RADEON_SURF_TYPE_2D then
       if su_npix_z surf > 1 then (- EINVAL, surf) else (0, surf)
     else if type = RADEON_SURF_TYPE_CUBEMAP then
       if su_npix_z surf > 1 then (- EINVAL, surf)
       else (0, surf\<lparr>su_array_size :=
         if man_family man \<ge> CHIP_RV770 then 8 else 6\<rparr>)
     else if type = RADEON_SURF_TYPE_3D then (0, surf)
     else if type = RADEON_SURF_TYPE_1D_ARRAY then
       if su_npix_y surf > 1 then (- EINVAL, surf) else (0, surf)
     else if type = RADEON_SURF_TYPE_2D_ARRAY then (0, surf)
     else (- EINVAL, surf))"

text \<open>\<open>radeon_surface_sanity\<close>; its parameter \<open>mode\<close> is not used. The manager may be \<open>NULL\<close>.\<close>

definition radeon_surface_sanity ::
  "radeon_surface_manager option \<Rightarrow> radeon_surface \<Rightarrow> u32 \<Rightarrow> (int \<times> radeon_surface) option" where
  "radeon_surface_sanity man surf type =
    (case man of
       None \<Rightarrow> Some (- EINVAL, surf)
     | Some man \<Rightarrow>
         if man_surface_init man = None then Some (- EINVAL, surf)
         else if su_npix_x surf = 0 \<or> su_npix_y surf = 0 \<or> su_npix_z surf = 0 then Some (- EINVAL, surf)
         else if su_blk_w surf = 0 \<or> su_blk_h surf = 0 \<or> su_blk_d surf = 0 then Some (- EINVAL, surf)
         else if su_array_size surf = 0 then Some (- EINVAL, surf)
         else do {
           n \<leftarrow> next_power_of_two (su_array_size surf);
           let surf = surf\<lparr>su_array_size := n\<rparr>;
           if su_nsamples surf \<notin> {1, 2, 4, 8} then Some (- EINVAL, surf)
           else Some (check_type man surf type)
         })"

text \<open>The entry points; \<open>surf\<close> may be \<open>NULL\<close> and is read before it is checked.\<close>

definition radeon_surface_init ::
  "radeon_surface_manager option \<Rightarrow> radeon_surface option \<Rightarrow> (int \<times> radeon_surface) option" where
  "radeon_surface_init man surf = do {
     surf \<leftarrow> surf;
     let type = RADEON_SURF_GET_TYPE (su_flags surf);
     (r, surf) \<leftarrow> radeon_surface_sanity man surf type;
     if r \<noteq> 0 then Some (r, surf)
     else do {
       man \<leftarrow> man;
       f \<leftarrow> man_surface_init man;
       f (man_hw_info man) surf
     }
   }"

definition radeon_surface_best ::
  "radeon_surface_manager option \<Rightarrow> radeon_surface option \<Rightarrow> (int \<times> radeon_surface) option" where
  "radeon_surface_best man surf = do {
     surf \<leftarrow> surf;
     let type = RADEON_SURF_GET_TYPE (su_flags surf);
     (r, surf) \<leftarrow> radeon_surface_sanity man surf type;
     if r \<noteq> 0 then Some (r, surf)
     else do {
       man \<leftarrow> man;
       f \<leftarrow> man_surface_best man;
       f (man_hw_info man) surf
     }
   }"


end
