(* ===== verification/Radeon_Bo.thy ===== *)
theory Radeon_Bo
  imports C_Prelude
begin

text \<open>
  Radeon buffer objects, \<open>radeon/radeon_bo.c\<close> over \<open>radeon/radeon_bo_gem.c\<close>: the functions of the former call
  those of the latter through the manager's table. A \<open>struct radeon_bo_gem\<close> begins with its
  \<open>struct radeon_bo_int\<close>; both are one record here. \<open>reloc_in_cs\<close> is an atomic \<open>int\<close> of which the code uses the
  bits, so it is a word.
\<close>

section \<open>Structures\<close>

record radeon_bo_gem =
  rb_ptr :: u64
  rb_flags :: u32
  rb_handle :: u32
  rb_size :: u32
  rb_alignment :: u32
  rb_domains :: u32
  rb_cref :: u32
  rb_space_accounted :: u32
  rb_name :: u32
  rb_map_count :: int
  rb_reloc_in_cs :: u32
  rb_priv_ptr :: u64

definition RADEON_GEM_DOMAIN_CPU :: u32 where "RADEON_GEM_DOMAIN_CPU = 1"
definition RADEON_GEM_DOMAIN_GTT :: u32 where "RADEON_GEM_DOMAIN_GTT = 2"
definition RADEON_GEM_DOMAIN_VRAM :: u32 where "RADEON_GEM_DOMAIN_VRAM = 4"

definition EBUSY :: int where "EBUSY = 16"
definition EPIPE :: int where "EPIPE = 32"

record cs_reloc_gem =
  cr_handle :: u32
  cr_read_domain :: u32
  cr_write_domain :: u32
  cr_flags :: u32

text \<open>
  What the \<open>n\<close>-th request is answered: memory, and the ioctls with their return code and the fields the
  kernel fills in. \<open>rk_mmap\<close> answers the request for the offset and the \<open>mmap\<close> at it together. \<open>rk_static\<close> is
  the manager's \<open>bo_is_static\<close>, which GEM leaves \<open>NULL\<close>: no buffer is static then.
\<close>

record radeon_env =
  rk_calloc :: "nat \<Rightarrow> radeon_bo_gem allocator"
  rk_realloc :: "nat \<Rightarrow> bool"
  rk_open :: "nat \<Rightarrow> u32 \<Rightarrow> int \<times> u32 \<times> u64"
  rk_create :: "nat \<Rightarrow> u32 \<Rightarrow> u32 \<Rightarrow> u32 \<Rightarrow> int \<times> u32"
  rk_mmap :: "nat \<Rightarrow> u32 \<Rightarrow> u32 \<Rightarrow> int \<times> u64"
  rk_wait_idle :: "nat \<Rightarrow> u32 \<Rightarrow> int"
  rk_flink :: "nat \<Rightarrow> u32 \<Rightarrow> int \<times> u32"
  rk_fd_to_handle :: "nat \<Rightarrow> int \<Rightarrow> int \<times> u32"
  rk_cs :: "nat \<Rightarrow> u32 list \<Rightarrow> cs_reloc_gem list \<Rightarrow> int"
  rk_static :: "addr \<Rightarrow> bool"

text \<open>The buffers, the count of requests, the accounting of a command stream manager and \<open>cs_id_source\<close>.\<close>

record radeon_state =
  rs_bos :: "radeon_bo_gem heap"
  rs_clock :: nat
  rs_vram_limit :: int
  rs_gart_limit :: int
  rs_vram_write_used :: int
  rs_gart_write_used :: int
  rs_read_used :: int
  rs_id_source :: u32

definition rbo_get :: "radeon_state \<Rightarrow> addr \<Rightarrow> radeon_bo_gem option" where
  "rbo_get s a = rs_bos s a"

definition rbo_put :: "radeon_state \<Rightarrow> addr \<Rightarrow> (radeon_bo_gem \<Rightarrow> radeon_bo_gem) \<Rightarrow> radeon_state option" where
  "rbo_put s a f = do { h \<leftarrow> wr (rs_bos s) a f; Some (s\<lparr>rs_bos := h\<rparr>) }"

definition rtick :: "radeon_state \<Rightarrow> radeon_state" where
  "rtick s = s\<lparr>rs_clock := Suc (rs_clock s)\<rparr>"

text \<open>\<open>calloc(1, sizeof(struct radeon_bo_gem))\<close>.\<close>

definition rbo_zero :: radeon_bo_gem where
  "rbo_zero = \<lparr>rb_ptr = 0, rb_flags = 0, rb_handle = 0, rb_size = 0, rb_alignment = 0, rb_domains = 0, rb_cref = 0,
     rb_space_accounted = 0, rb_name = 0, rb_map_count = 0, rb_reloc_in_cs = 0, rb_priv_ptr = 0\<rparr>"

section \<open>References\<close>

definition radeon_bo_ref :: "addr \<Rightarrow> radeon_state \<Rightarrow> radeon_state option" where
  "radeon_bo_ref a s = rbo_put s a (\<lambda>b. b\<lparr>rb_cref := rb_cref b + 1\<rparr>)"

text \<open>\<open>bo_unref\<close>: the buffer goes with its last reference.\<close>

definition bo_unref :: "addr \<Rightarrow> radeon_state \<Rightarrow> (addr \<times> radeon_state) option" where
  "bo_unref a s = do {
     b \<leftarrow> rbo_get s a;
     if rb_cref b \<noteq> 0 then Some (a, s)
     else do {
       h \<leftarrow> dealloc (rs_bos s) a;
       Some (NULL, (rtick s)\<lparr>rs_bos := h\<rparr>)
     }
   }"

definition radeon_bo_unref :: "addr \<Rightarrow> radeon_state \<Rightarrow> (addr \<times> radeon_state) option" where
  "radeon_bo_unref a s =
    (if a = NULL then Some (NULL, s)
     else do {
       s \<leftarrow> rbo_put s a (\<lambda>b. b\<lparr>rb_cref := rb_cref b - 1\<rparr>);
       bo_unref a s
     })"

section \<open>Creation\<close>

text \<open>A new buffer, or a reference to one that has the name \<open>handle\<close>; \<open>None\<close> for \<open>NULL\<close>.\<close>

definition bo_open ::
  "radeon_env \<Rightarrow> u32 \<Rightarrow> u32 \<Rightarrow> u32 \<Rightarrow> u32 \<Rightarrow> u32 \<Rightarrow> radeon_state \<Rightarrow> (addr option \<times> radeon_state) option" where
  "bo_open env handle sz alignment domains flags s =
    (case rk_calloc env (rs_clock s) (rs_bos s) of
       None \<Rightarrow> Some (None, s)
     | Some a \<Rightarrow>
         let b = rbo_zero\<lparr>rb_size := sz, rb_alignment := alignment, rb_domains := domains, rb_flags := flags\<rparr>;
             (r, b) = (if handle \<noteq> 0 then
                 let (r, h, sz) = rk_open env (rs_clock s) handle in
                 (r, b\<lparr>rb_handle := h, rb_size := ucast sz, rb_name := handle\<rparr>)
               else
                 let (r, h) = rk_create env (rs_clock s) sz alignment domains in
                 (r, b\<lparr>rb_handle := h\<rparr>));
             s = rtick s in
         if r \<noteq> 0 then Some (None, s)
         else do {
           s \<leftarrow> radeon_bo_ref a (s\<lparr>rs_bos := (rs_bos s)(a \<mapsto> b)\<rparr>);
           Some (Some a, s)
         })"

definition radeon_bo_open ::
  "radeon_env \<Rightarrow> u32 \<Rightarrow> u32 \<Rightarrow> u32 \<Rightarrow> u32 \<Rightarrow> u32 \<Rightarrow> radeon_state \<Rightarrow> (addr option \<times> radeon_state) option" where
  "radeon_bo_open env handle sz alignment domains flags s = bo_open env handle sz alignment domains flags s"

definition radeon_gem_bo_open_prime ::
  "radeon_env \<Rightarrow> int \<Rightarrow> u32 \<Rightarrow> radeon_state \<Rightarrow> (addr option \<times> radeon_state) option" where
  "radeon_gem_bo_open_prime env fd_handle sz s =
    (case rk_calloc env (rs_clock s) (rs_bos s) of
       None \<Rightarrow> Some (None, s)
     | Some a \<Rightarrow>
         let (r, h) = rk_fd_to_handle env (rs_clock s) fd_handle; s = rtick s in
         if r \<noteq> 0 then Some (None, s)
         else do {
           s \<leftarrow> radeon_bo_ref a (s\<lparr>rs_bos := (rs_bos s)(a \<mapsto> rbo_zero\<lparr>rb_size := sz,
             rb_domains := RADEON_GEM_DOMAIN_GTT, rb_handle := h, rb_name := h\<rparr>)\<rparr>);
           Some (Some a, s)
         })"

definition radeon_gem_get_kernel_name :: "radeon_env \<Rightarrow> addr \<Rightarrow> radeon_state \<Rightarrow> (int \<times> u32 \<times> radeon_state) option" where
  "radeon_gem_get_kernel_name env a s = do {
     b \<leftarrow> rbo_get s a;
     if rb_name b \<noteq> 0 then Some (0, rb_name b, s)
     else
       let (r, n) = rk_flink env (rs_clock s) (rb_handle b); s = rtick s in
       if r \<noteq> 0 then Some (r, 0, s)
       else do {
         s \<leftarrow> rbo_put s a (\<lambda>b. b\<lparr>rb_name := n\<rparr>);
         Some (0, n, s)
       }
   }"

definition radeon_gem_name_bo :: "addr \<Rightarrow> radeon_state \<Rightarrow> u32 option" where
  "radeon_gem_name_bo a s = map_option rb_name (rbo_get s a)"

definition radeon_bo_is_referenced_by_cs :: "addr \<Rightarrow> radeon_state \<Rightarrow> bool option" where
  "radeon_bo_is_referenced_by_cs a s = map_option (\<lambda>b. rb_cref b > 1) (rbo_get s a)"

definition radeon_bo_get_handle :: "addr \<Rightarrow> radeon_state \<Rightarrow> u32 option" where
  "radeon_bo_get_handle a s = map_option rb_handle (rbo_get s a)"

definition radeon_bo_get_src_domain :: "addr \<Rightarrow> radeon_state \<Rightarrow> u32 option" where
  "radeon_bo_get_src_domain a s = do {
     b \<leftarrow> rbo_get s a;
     let d = rb_space_accounted b AND 0xffff;
     Some (if d = 0 then drop_bit 16 (rb_space_accounted b) else d)
   }"

section \<open>Mappings\<close>

partial_function (option) bo_wait :: "radeon_env \<Rightarrow> u32 \<Rightarrow> radeon_state \<Rightarrow> (int \<times> radeon_state) option" where
  "bo_wait env handle s =
     (let r = rk_wait_idle env (rs_clock s) handle in
      if r = - EBUSY then bo_wait env handle (rtick s) else Some (r, rtick s))"

text \<open>The table of GEM has a \<open>bo_wait\<close>.\<close>

definition radeon_bo_wait :: "radeon_env \<Rightarrow> addr \<Rightarrow> radeon_state \<Rightarrow> (int \<times> radeon_state) option" where
  "radeon_bo_wait env a s = do { b \<leftarrow> rbo_get s a; bo_wait env (rb_handle b) s }"

definition bo_map :: "radeon_env \<Rightarrow> addr \<Rightarrow> radeon_state \<Rightarrow> (int \<times> radeon_state) option" where
  "bo_map env a s = do {
     b \<leftarrow> rbo_get s a;
     n \<leftarrow> s32 (rb_map_count b + 1);
     s \<leftarrow> rbo_put s a (\<lambda>b. b\<lparr>rb_map_count := n\<rparr>);
     if rb_map_count b \<noteq> 0 then Some (0, s)
     else do {
       (r, s) \<leftarrow> (if rb_priv_ptr b \<noteq> 0 then Some (0, s)
         else do {
           s \<leftarrow> rbo_put s a (\<lambda>b. b\<lparr>rb_ptr := 0\<rparr>);
           let (r, p) = rk_mmap env (rs_clock s) (rb_handle b) (rb_size b);
           let s = rtick s;
           if r \<noteq> 0 then Some (r, s)
           else do { s \<leftarrow> rbo_put s a (\<lambda>b. b\<lparr>rb_priv_ptr := p\<rparr>); Some (0, s) }
         });
       if r \<noteq> 0 then Some (r, s)
       else do {
         s \<leftarrow> rbo_put s a (\<lambda>b. b\<lparr>rb_ptr := rb_priv_ptr b\<rparr>);
         bo_wait env (rb_handle b) s
       }
     }
   }"

definition bo_unmap :: "addr \<Rightarrow> radeon_state \<Rightarrow> (int \<times> radeon_state) option" where
  "bo_unmap a s = do {
     b \<leftarrow> rbo_get s a;
     n \<leftarrow> s32 (rb_map_count b - 1);
     s \<leftarrow> rbo_put s a (\<lambda>b. b\<lparr>rb_map_count := n\<rparr>);
     if n > 0 then Some (0, s)
     else do { s \<leftarrow> rbo_put s a (\<lambda>b. b\<lparr>rb_ptr := 0\<rparr>); Some (0, s) }
   }"

section \<open>Opening and closing\<close>

lemma rbo_put_eq: "rs_bos s a = Some b \<Longrightarrow> rbo_put s a f = Some (s\<lparr>rs_bos := (rs_bos s)(a \<mapsto> f b)\<rparr>)"
  by (simp add: rbo_put_def wr_def)

lemma rtick_bos [simp]: "rs_bos (rtick s) = rs_bos s"
  by (simp add: rtick_def)

text \<open>A buffer lives until as many references were dropped as were taken: from \<open>n\<close> references above the first,
  \<open>n\<close> releases keep it, and one more frees it.\<close>

lemma unref_keeps:
  assumes "rs_bos s a = Some b" "a \<noteq> NULL" "1 < unat (rb_cref b)"
  shows "radeon_bo_unref a s = Some (a, s\<lparr>rs_bos := (rs_bos s)(a \<mapsto> b\<lparr>rb_cref := rb_cref b - 1\<rparr>)\<rparr>)"
proof -
  have "rb_cref b - 1 \<noteq> 0" using assms(3) by auto
  then show ?thesis using assms(1,2) by (simp add: radeon_bo_unref_def rbo_put_eq bo_unref_def rbo_get_def)
qed

lemma unref_last:
  assumes "rs_bos s a = Some b" "a \<noteq> NULL" "rb_cref b = 1"
  shows "radeon_bo_unref a s = Some (NULL, (rtick s)\<lparr>rs_bos := (rs_bos s)(a := None)\<rparr>)"
  using assms by (simp add: radeon_bo_unref_def rbo_put_eq bo_unref_def rbo_get_def dealloc_def rtick_def)

text \<open>A failed mapping keeps its use count: the next \<open>bo_map\<close> reports success with no pointer.\<close>

lemma failed_map_counts:
  assumes "rs_bos s a = Some b" "rb_map_count b = 0" "rb_priv_ptr b = 0" "fst (rk_mmap env (rs_clock s) (rb_handle b) (rb_size b)) \<noteq> 0"
  shows "\<exists>s1. bo_map env a s = Some (fst (rk_mmap env (rs_clock s) (rb_handle b) (rb_size b)), s1) \<and>
    (\<exists>s2 b2. bo_map env a s1 = Some (0, s2) \<and> rs_bos s2 a = Some b2 \<and> rb_ptr b2 = 0)"
  using assms by (auto simp: bo_map_def rbo_get_def rbo_put_eq in_s32_def Let_def rtick_def split: prod.splits)

text \<open>The name of a buffer from a file descriptor is its handle, which no other process knows.\<close>

lemma prime_name_is_handle:
  assumes "radeon_gem_bo_open_prime env fd sz s = Some (Some a, s')" "snd (rk_fd_to_handle env (rs_clock s) fd) \<noteq> 0"
  shows "radeon_gem_get_kernel_name env a s' = Some (0, snd (rk_fd_to_handle env (rs_clock s) fd), s')"
  using assms by (auto simp: radeon_gem_bo_open_prime_def radeon_gem_get_kernel_name_def radeon_bo_ref_def rbo_get_def
      rbo_put_def wr_def Let_def split: option.splits prod.splits if_splits)

end
