(* ===== verification/Radeon_Cs.thy ===== *)
theory Radeon_Cs
  imports Radeon_Bo
begin

text \<open>
  Radeon command streams: \<open>radeon/radeon_cs.h\<close> and \<open>radeon/radeon_cs.c\<close> over \<open>radeon/radeon_cs_gem.c\<close>, and the
  accounting of memory in \<open>radeon/radeon_cs_space.c\<close>.
\<close>

section \<open>Structures\<close>

definition RADEON_CS_SPACE_OK :: int where "RADEON_CS_SPACE_OK = 0"
definition RADEON_CS_SPACE_OP_TO_BIG :: int where "RADEON_CS_SPACE_OP_TO_BIG = 1"
definition RADEON_CS_SPACE_FLUSH :: int where "RADEON_CS_SPACE_FLUSH = 2"
definition MAX_SPACE_BOS :: nat where "MAX_SPACE_BOS = 32"
definition RELOC_SIZE :: nat where "RELOC_SIZE = 4"

record radeon_cs_space_check =
  sc_bo :: addr
  sc_read_domains :: u32
  sc_write_domain :: u32
  sc_new_accounted :: u32

text \<open>
  A command stream: the dwords written (\<open>cdw\<close> is their number), the size the code goes by, and the size the
  array really has; the current section; the relocations (\<open>crelocs\<close> is their number) with their
  buffers, \<open>None\<close> for \<open>NULL\<close>, and the slots allocated for them; the buffers to account for (\<open>bo_count\<close> is their
  number); the lengths of the two chunks.
\<close>

record radeon_cs =
  cs_packets :: "u32 list"
  cs_ndw :: u32
  cs_room :: nat
  cs_section_ndw :: u32
  cs_section_cdw :: u32
  cs_relocs :: "cs_reloc_gem list"
  cs_relocs_bo :: "addr option list"
  cs_nrelocs :: nat
  cs_relocs_total_size :: u32
  cs_bos :: "radeon_cs_space_check list"
  cs_id :: u32
  cs_length0 :: u32
  cs_length1 :: u32

abbreviation cs_cdw :: "radeon_cs \<Rightarrow> u32" where
  "cs_cdw cs \<equiv> of_nat (length (cs_packets cs))"

section \<open>Ids\<close>

text \<open>The first zero bit; there is none in \<open>~0\<close>. \<open>1 << 31\<close> is the top bit, as compilers define it.\<close>

definition get_first_zero :: "u32 \<Rightarrow> u32 option" where
  "get_first_zero n = map_option (\<lambda>i. push_bit i 1) (find (\<lambda>i. \<not> bit n i) [0..<32])"

definition generate_id :: "radeon_state \<Rightarrow> (u32 \<times> radeon_state) option" where
  "generate_id s =
    (if rs_id_source s \<noteq> NOT 0 then do {
       r \<leftarrow> get_first_zero (rs_id_source s);
       Some (r, s\<lparr>rs_id_source := rs_id_source s OR r\<rparr>)
     } else Some (0, s))"

definition free_id :: "u32 \<Rightarrow> radeon_state \<Rightarrow> radeon_state" where
  "free_id i s = s\<lparr>rs_id_source := rs_id_source s AND NOT i\<rparr>"

section \<open>Life of a stream\<close>

text \<open>\<open>None\<close> for \<open>NULL\<close>. The requests are the structure, the packets, the two arrays of relocations.\<close>

definition cs_gem_create :: "radeon_env \<Rightarrow> u32 \<Rightarrow> radeon_state \<Rightarrow> (radeon_cs option \<times> radeon_state) option" where
  "cs_gem_create env ndw s =
    (if ndw > 64 * 1024 div 4 then Some (None, s)
     else if \<not> rk_realloc env (rs_clock s) then Some (None, rtick s)
     else if \<not> rk_realloc env (Suc (rs_clock s)) then Some (None, rtick (rtick s))
     else do {
       (i, s) \<leftarrow> generate_id (rtick (rtick s));
       let ok = (rk_realloc env (rs_clock s) \<and> rk_realloc env (Suc (rs_clock s)));
       let s = (if rk_realloc env (rs_clock s) then rtick (rtick s) else rtick s);
       if \<not> ok then Some (None, s)
       else Some (Some \<lparr>cs_packets = [], cs_ndw = 64 * 1024 div 4, cs_room = 64 * 1024 div 4, cs_section_ndw = 0,
         cs_section_cdw = 0, cs_relocs = [], cs_relocs_bo = [], cs_nrelocs = 4096 div (4 * 4), cs_relocs_total_size = 0,
         cs_bos = [], cs_id = i, cs_length0 = 0, cs_length1 = 0\<rparr>, s)
     })"

definition cs_gem_destroy :: "radeon_cs \<Rightarrow> radeon_state \<Rightarrow> radeon_state" where
  "cs_gem_destroy cs s = free_id (cs_id cs) s"

section \<open>Writing\<close>

text \<open>A dword must lie within the array.\<close>

definition radeon_cs_write_dword :: "u32 \<Rightarrow> radeon_cs \<Rightarrow> radeon_cs option" where
  "radeon_cs_write_dword dword cs = do {
     c_assert (length (cs_packets cs) < cs_room cs);
     Some (cs\<lparr>cs_packets := cs_packets cs @ [dword],
       cs_section_cdw := if cs_section_ndw cs \<noteq> 0 then cs_section_cdw cs + 1 else cs_section_cdw cs\<rparr>)
   }"

definition radeon_cs_write_table :: "u32 list \<Rightarrow> radeon_cs \<Rightarrow> radeon_cs option" where
  "radeon_cs_write_table dwords cs = do {
     c_assert (length (cs_packets cs) + length dwords \<le> cs_room cs);
     Some (cs\<lparr>cs_packets := cs_packets cs @ dwords,
       cs_section_cdw := if cs_section_ndw cs \<noteq> 0 then cs_section_cdw cs + of_nat (length dwords) else cs_section_cdw cs\<rparr>)
   }"

text \<open>On a little-endian machine.\<close>

definition radeon_cs_write_qword :: "u64 \<Rightarrow> radeon_cs \<Rightarrow> radeon_cs option" where
  "radeon_cs_write_qword qword cs = radeon_cs_write_table [ucast qword, ucast (drop_bit 32 qword)] cs"

section \<open>Relocations\<close>

text \<open>The entry for another use of a buffer that has one, \<open>None\<close> when the domains do not go together.\<close>

definition merge_reloc :: "u32 \<Rightarrow> u32 \<Rightarrow> u32 \<Rightarrow> cs_reloc_gem \<Rightarrow> cs_reloc_gem option" where
  "merge_reloc read_domain write_domain flags e = do {
     e \<leftarrow> (if write_domain \<noteq> 0 \<and> cr_read_domain e AND write_domain \<noteq> 0
           then Some (e\<lparr>cr_read_domain := 0, cr_write_domain := write_domain\<rparr>)
           else if read_domain AND cr_write_domain e \<noteq> 0 then Some (e\<lparr>cr_read_domain := 0\<rparr>)
           else if write_domain \<noteq> cr_write_domain e then None
           else if read_domain \<noteq> cr_read_domain e then None
           else Some e);
     Some (e\<lparr>cr_read_domain := cr_read_domain e OR read_domain, cr_write_domain := cr_write_domain e OR write_domain,
       cr_flags := cr_flags e OR (flags AND cr_flags e)\<rparr>)
   }"

text \<open>The packet that refers to the entry at \<open>idx\<close>.\<close>

definition reloc_packet :: "u32 \<Rightarrow> radeon_cs \<Rightarrow> radeon_cs option" where
  "reloc_packet idx cs = do { cs \<leftarrow> radeon_cs_write_dword 0xc0001000 cs; radeon_cs_write_dword idx cs }"

definition cs_gem_write_reloc ::
  "radeon_env \<Rightarrow> addr \<Rightarrow> u32 \<Rightarrow> u32 \<Rightarrow> u32 \<Rightarrow> radeon_cs \<Rightarrow> radeon_state \<Rightarrow> (int \<times> radeon_cs \<times> radeon_state) option" where
  "cs_gem_write_reloc env a read_domain write_domain flags cs s = do {
     b \<leftarrow> rbo_get s a;
     c_assert (rb_space_accounted b \<noteq> 0);
     if (read_domain \<noteq> 0 \<and> write_domain \<noteq> 0) \<or> (read_domain = 0 \<and> write_domain = 0) then Some (- EINVAL, cs, s)
     else if read_domain = RADEON_GEM_DOMAIN_CPU then Some (- EINVAL, cs, s)
     else if write_domain = RADEON_GEM_DOMAIN_CPU then Some (- EINVAL, cs, s)
     else case (if rb_reloc_in_cs b AND cs_id cs \<noteq> 0
                then find (\<lambda>i. cr_handle (cs_relocs cs ! i) = rb_handle b) (rev [0..<length (cs_relocs cs)]) else None) of
       Some i \<Rightarrow>
         (case merge_reloc read_domain write_domain flags (cs_relocs cs ! i) of
            None \<Rightarrow> Some (- EINVAL, cs, s)
          | Some e \<Rightarrow> do {
              cs \<leftarrow> reloc_packet (of_nat (i * RELOC_SIZE)) (cs\<lparr>cs_relocs := (cs_relocs cs)[i := e]\<rparr>);
              Some (0, cs, s)
            })
     | None \<Rightarrow> do {
         let full = (length (cs_relocs cs) \<ge> cs_nrelocs cs);
         let ok = (full \<longrightarrow> rk_realloc env (rs_clock s) \<and> rk_realloc env (Suc (rs_clock s)));
         let s = (if full then if rk_realloc env (rs_clock s) then rtick (rtick s) else rtick s else s);
         if \<not> ok then Some (- ENOMEM, cs, s)
         else do {
           let idx = of_nat (length (cs_relocs cs) * RELOC_SIZE);
           let cs = cs\<lparr>cs_nrelocs := if full then cs_nrelocs cs + 1 else cs_nrelocs cs,
             cs_relocs_bo := cs_relocs_bo cs @ [Some a],
             cs_relocs := cs_relocs cs @ [\<lparr>cr_handle = rb_handle b, cr_read_domain = read_domain,
               cr_write_domain = write_domain, cr_flags = flags\<rparr>],
             cs_length1 := cs_length1 cs + of_nat RELOC_SIZE,
             cs_relocs_total_size := cs_relocs_total_size cs + rb_size b\<rparr>;
           s \<leftarrow> radeon_bo_ref a s;
           s \<leftarrow> rbo_put s a (\<lambda>b. b\<lparr>rb_reloc_in_cs := rb_reloc_in_cs b + cs_id cs\<rparr>);
           cs \<leftarrow> reloc_packet idx cs;
           Some (0, cs, s)
         }
       }
   }"

section \<open>Sections\<close>

definition cs_gem_begin :: "radeon_env \<Rightarrow> u32 \<Rightarrow> radeon_cs \<Rightarrow> radeon_state \<Rightarrow> (int \<times> radeon_cs \<times> radeon_state)" where
  "cs_gem_begin env ndw cs s =
    (if cs_section_ndw cs \<noteq> 0 then (- EPIPE, cs, s)
     else
       let cs = cs\<lparr>cs_section_ndw := ndw, cs_section_cdw := 0\<rparr> in
       if cs_cdw cs + ndw > cs_ndw cs then
         let tmp = (cs_cdw cs + ndw + 0x3FF) AND NOT 0x3FF in
         if \<not> rk_realloc env (rs_clock s) then (- ENOMEM, cs, rtick s)
         else (0, cs\<lparr>cs_ndw := tmp, cs_room := unat (4 * tmp) div 4\<rparr>, rtick s)
       else (0, cs, s))"

definition cs_gem_end :: "radeon_cs \<Rightarrow> int \<times> radeon_cs" where
  "cs_gem_end cs =
    (if cs_section_ndw cs = 0 then (- EPIPE, cs)
     else if cs_section_ndw cs \<noteq> cs_section_cdw cs then (- EPIPE, cs\<lparr>cs_section_ndw := 0\<rparr>)
     else (0, cs\<lparr>cs_section_ndw := 0\<rparr>))"

section \<open>Execution\<close>

partial_function (option) pad_packets :: "radeon_cs \<Rightarrow> radeon_cs option" where
  "pad_packets cs =
     (if cs_cdw cs AND 7 \<noteq> 0 then (radeon_cs_write_dword 0x80000000 cs) \<bind> (\<lambda>cs. pad_packets cs) else Some cs)"

text \<open>The reference and the mark of one relocation are dropped.\<close>

definition drop_reloc :: "u32 \<Rightarrow> addr option \<Rightarrow> radeon_state \<Rightarrow> radeon_state option" where
  "drop_reloc i p s = do {
     a \<leftarrow> p;
     s \<leftarrow> rbo_put s a (\<lambda>b. b\<lparr>rb_reloc_in_cs := rb_reloc_in_cs b - i\<rparr>);
     map_option snd (radeon_bo_unref a s)
   }"

primrec emit_relocs :: "u32 \<Rightarrow> addr option list \<Rightarrow> radeon_state \<Rightarrow> radeon_state option" where
  "emit_relocs i [] s = Some s"
| "emit_relocs i (p # ps) s = do {
     a \<leftarrow> p;
     s \<leftarrow> rbo_put s a (\<lambda>b. b\<lparr>rb_space_accounted := 0\<rparr>);
     s \<leftarrow> drop_reloc i p s;
     emit_relocs i ps s
   }"

definition cs_gem_emit :: "radeon_env \<Rightarrow> radeon_cs \<Rightarrow> radeon_state \<Rightarrow> (int \<times> radeon_cs \<times> radeon_state) option" where
  "cs_gem_emit env cs s = do {
     cs \<leftarrow> pad_packets cs;
     let r = rk_cs env (rs_clock s) (cs_packets cs) (cs_relocs cs);
     s \<leftarrow> emit_relocs (cs_id cs) (cs_relocs_bo cs) (rtick s);
     Some (r, cs\<lparr>cs_length0 := cs_cdw cs, cs_relocs_bo := map (\<lambda>_. None) (cs_relocs_bo cs)\<rparr>,
       s\<lparr>rs_read_used := 0, rs_vram_write_used := 0, rs_gart_write_used := 0\<rparr>)
   }"

primrec erase_relocs :: "u32 \<Rightarrow> addr option list \<Rightarrow> radeon_state \<Rightarrow> radeon_state option" where
  "erase_relocs i [] s = Some s"
| "erase_relocs i (p # ps) s = do {
     s \<leftarrow> (if p \<noteq> None then drop_reloc i p s else Some s);
     erase_relocs i ps s
   }"

definition cs_gem_erase :: "radeon_cs \<Rightarrow> radeon_state \<Rightarrow> (radeon_cs \<times> radeon_state) option" where
  "cs_gem_erase cs s = do {
     s \<leftarrow> erase_relocs (cs_id cs) (cs_relocs_bo cs) s;
     Some (cs\<lparr>cs_relocs_total_size := 0, cs_packets := [], cs_section_ndw := 0, cs_relocs := [], cs_relocs_bo := [],
       cs_length0 := 0, cs_length1 := 0\<rparr>, s)
   }"

definition cs_gem_need_flush :: "radeon_cs \<Rightarrow> bool" where
  "cs_gem_need_flush cs = False"

section \<open>Accounting of memory\<close>

text \<open>The sizes are \<open>int32_t\<close> and \<open>bo->size\<close> is \<open>uint32_t\<close>: \<open>+=\<close> and \<open>-=\<close> compute modulo \<open>2^32\<close>.\<close>

record rad_sizes =
  sz_op_read :: int
  sz_op_gart_write :: int
  sz_op_vram_write :: int

definition add_size :: "int \<Rightarrow> u32 \<Rightarrow> int" where
  "add_size n sz = sint (of_int n + sz)"

definition sub_size :: "int \<Rightarrow> u32 \<Rightarrow> int" where
  "sub_size n sz = sint (of_int n - sz)"

definition radeon_cs_setup_bo ::
  "radeon_env \<Rightarrow> radeon_cs_space_check \<Rightarrow> rad_sizes \<Rightarrow> radeon_state \<Rightarrow>
   (int \<times> radeon_cs_space_check \<times> rad_sizes \<times> radeon_state) option" where
  "radeon_cs_setup_bo env sc sizes s = do {
     b \<leftarrow> rbo_get s (sc_bo sc);
     let rd = sc_read_domains sc;
     let wd = sc_write_domain sc;
     let acc = rb_space_accounted b;
     let old_read = drop_bit 16 acc;
     let old_write = acc AND 0xffff;
     if rk_static env (sc_bo sc) then do {
       let v = push_bit 16 rd OR wd;
       s \<leftarrow> rbo_put s (sc_bo sc) (\<lambda>b. b\<lparr>rb_space_accounted := v\<rparr>);
       Some (0, sc\<lparr>sc_new_accounted := v\<rparr>, sizes, s)
     }
     else if wd \<noteq> 0 \<and> wd = acc then Some (0, sc\<lparr>sc_new_accounted := acc\<rparr>, sizes, s)
     else if rd \<noteq> 0 \<and> push_bit 16 rd = acc then Some (0, sc\<lparr>sc_new_accounted := acc\<rparr>, sizes, s)
     else if acc = 0 then
       if wd \<noteq> 0 then Some (0, sc\<lparr>sc_new_accounted := wd\<rparr>,
         (if wd = RADEON_GEM_DOMAIN_VRAM then sizes\<lparr>sz_op_vram_write := add_size (sz_op_vram_write sizes) (rb_size b)\<rparr>
          else if wd = RADEON_GEM_DOMAIN_GTT then sizes\<lparr>sz_op_gart_write := add_size (sz_op_gart_write sizes) (rb_size b)\<rparr>
          else sizes), s)
       else Some (0, sc\<lparr>sc_new_accounted := push_bit 16 rd\<rparr>, sizes\<lparr>sz_op_read := add_size (sz_op_read sizes) (rb_size b)\<rparr>, s)
     else if wd \<noteq> 0 \<and> old_read AND wd \<noteq> 0 then Some (0, sc\<lparr>sc_new_accounted := wd\<rparr>,
       (if wd = RADEON_GEM_DOMAIN_VRAM then sizes\<lparr>sz_op_read := sub_size (sz_op_read sizes) (rb_size b),
          sz_op_vram_write := add_size (sz_op_vram_write sizes) (rb_size b)\<rparr>
        else if wd = RADEON_GEM_DOMAIN_GTT then sizes\<lparr>sz_op_read := sub_size (sz_op_read sizes) (rb_size b),
          sz_op_gart_write := add_size (sz_op_gart_write sizes) (rb_size b)\<rparr>
        else sizes), s)
     else if rd AND old_write \<noteq> 0 then Some (0, sc\<lparr>sc_new_accounted := old_write\<rparr>, sizes, s)
     else Some (RADEON_CS_SPACE_FLUSH, sc\<lparr>sc_new_accounted := 0\<rparr>, sizes, s)
   }"

text \<open>The buffers one after the other, until one asks for a flush.\<close>

primrec setup_bos ::
  "radeon_env \<Rightarrow> radeon_cs_space_check list \<Rightarrow> rad_sizes \<Rightarrow> radeon_state \<Rightarrow>
   (int \<times> radeon_cs_space_check list \<times> rad_sizes \<times> radeon_state) option" where
  "setup_bos env [] sizes s = Some (0, [], sizes, s)"
| "setup_bos env (sc # scs) sizes s = do {
     (r, sc, sizes, s) \<leftarrow> radeon_cs_setup_bo env sc sizes s;
     if r \<noteq> 0 then Some (r, sc # scs, sizes, s)
     else do {
       (r, scs, sizes, s) \<leftarrow> setup_bos env scs sizes s;
       Some (r, sc # scs, sizes, s)
     }
   }"

primrec commit_bos :: "radeon_cs_space_check list \<Rightarrow> radeon_state \<Rightarrow> radeon_state option" where
  "commit_bos [] s = Some s"
| "commit_bos (sc # scs) s = do {
     s \<leftarrow> rbo_put s (sc_bo sc) (\<lambda>b. b\<lparr>rb_space_accounted := sc_new_accounted sc\<rparr>);
     commit_bos scs s
   }"

text \<open>\<open>new_tmp\<close> is a list of at most one buffer; it comes after those of the stream.\<close>

definition radeon_cs_do_space_check ::
  "radeon_env \<Rightarrow> radeon_cs_space_check list \<Rightarrow> radeon_cs \<Rightarrow> radeon_state \<Rightarrow> (int \<times> radeon_cs \<times> radeon_state) option" where
  "radeon_cs_do_space_check env new_tmp cs s =
    (if cs_bos cs = [] \<and> new_tmp = [] then Some (0, cs, s)
     else do {
       (r, scs, sizes, s) \<leftarrow> setup_bos env (cs_bos cs @ new_tmp)
         \<lparr>sz_op_read = 0, sz_op_gart_write = 0, sz_op_vram_write = 0\<rparr> s;
       let cs = cs\<lparr>cs_bos := take (length (cs_bos cs)) scs\<rparr>;
       if r \<noteq> 0 then Some (r, cs, s)
       else do {
         let rd = max 0 (sz_op_read sizes);
         op_gart \<leftarrow> s32 (rd + sz_op_gart_write sizes);
         if op_gart > rs_gart_limit s \<or> sz_op_vram_write sizes > rs_vram_limit s
         then Some (RADEON_CS_SPACE_OP_TO_BIG, cs, s)
         else do {
           vram \<leftarrow> s32 (rs_vram_write_used s + sz_op_vram_write sizes);
           g \<leftarrow> s32 (rs_read_used s + rs_gart_write_used s);
           g \<leftarrow> s32 (g + sz_op_gart_write sizes);
           gart \<leftarrow> s32 (g + rd);
           if vram > rs_vram_limit s \<or> gart > rs_gart_limit s then Some (RADEON_CS_SPACE_FLUSH, cs, s)
           else do {
             gw \<leftarrow> s32 (rs_gart_write_used s + sz_op_gart_write sizes);
             ru \<leftarrow> s32 (rs_read_used s + rd);
             s \<leftarrow> commit_bos scs (s\<lparr>rs_gart_write_used := gw, rs_vram_write_used := vram, rs_read_used := ru\<rparr>);
             Some (RADEON_CS_SPACE_OK, cs, s)
           }
         }
       }
     })"

definition radeon_cs_space_add_persistent_bo ::
  "addr \<Rightarrow> u32 \<Rightarrow> u32 \<Rightarrow> radeon_cs \<Rightarrow> radeon_state \<Rightarrow> (radeon_cs \<times> radeon_state) option" where
  "radeon_cs_space_add_persistent_bo a read_domains write_domain cs s =
    (if list_ex (\<lambda>sc. sc_bo sc = a \<and> sc_read_domains sc = read_domains \<and> sc_write_domain sc = write_domain) (cs_bos cs)
     then Some (cs, s)
     else do {
       s \<leftarrow> radeon_bo_ref a s;
       let cs = cs\<lparr>cs_bos := cs_bos cs @ [\<lparr>sc_bo = a, sc_read_domains = read_domains, sc_write_domain = write_domain,
         sc_new_accounted = 0\<rparr>]\<rparr>;
       c_assert (length (cs_bos cs) < MAX_SPACE_BOS);
       Some (cs, s)
     })"

text \<open>\<open>flush\<close> is the client's \<open>space_flush_fn\<close>; \<open>flushed\<close> says whether it was called before.\<close>

definition check_space_round ::
  "radeon_env \<Rightarrow> (radeon_cs \<Rightarrow> radeon_state \<Rightarrow> (radeon_cs \<times> radeon_state) option) \<Rightarrow> radeon_cs_space_check list \<Rightarrow>
   (radeon_cs \<Rightarrow> radeon_state \<Rightarrow> (int \<times> radeon_cs \<times> radeon_state) option) \<Rightarrow> radeon_cs \<Rightarrow> radeon_state \<Rightarrow>
   (int \<times> radeon_cs \<times> radeon_state) option" where
  "check_space_round env flush tmp_bo again cs s = do {
     (r, cs, s) \<leftarrow> radeon_cs_do_space_check env tmp_bo cs s;
     if r = RADEON_CS_SPACE_OP_TO_BIG then Some (-1, cs, s)
     else if r = RADEON_CS_SPACE_FLUSH then do {
       (cs, s) \<leftarrow> flush cs s;
       again cs s
     }
     else Some (0, cs, s)
   }"

definition radeon_cs_check_space_internal ::
  "radeon_env \<Rightarrow> (radeon_cs \<Rightarrow> radeon_state \<Rightarrow> (radeon_cs \<times> radeon_state) option) \<Rightarrow> radeon_cs_space_check list \<Rightarrow>
   radeon_cs \<Rightarrow> radeon_state \<Rightarrow> (int \<times> radeon_cs \<times> radeon_state) option" where
  "radeon_cs_check_space_internal env flush tmp_bo cs s =
     check_space_round env flush tmp_bo (\<lambda>cs s. check_space_round env flush tmp_bo (\<lambda>cs s. Some (-1, cs, s)) cs s) cs s"

definition radeon_cs_space_check_with_bo ::
  "radeon_env \<Rightarrow> (radeon_cs \<Rightarrow> radeon_state \<Rightarrow> (radeon_cs \<times> radeon_state) option) \<Rightarrow> addr \<Rightarrow> u32 \<Rightarrow> u32 \<Rightarrow>
   radeon_cs \<Rightarrow> radeon_state \<Rightarrow> (int \<times> radeon_cs \<times> radeon_state) option" where
  "radeon_cs_space_check_with_bo env flush a read_domains write_domain cs s =
     radeon_cs_check_space_internal env flush (if a = NULL then [] else
       [\<lparr>sc_bo = a, sc_read_domains = read_domains, sc_write_domain = write_domain, sc_new_accounted = 0\<rparr>]) cs s"

definition radeon_cs_space_check_fn ::
  "radeon_env \<Rightarrow> (radeon_cs \<Rightarrow> radeon_state \<Rightarrow> (radeon_cs \<times> radeon_state) option) \<Rightarrow>
   radeon_cs \<Rightarrow> radeon_state \<Rightarrow> (int \<times> radeon_cs \<times> radeon_state) option" where
  "radeon_cs_space_check_fn env flush cs s = radeon_cs_check_space_internal env flush [] cs s"

primrec unref_bos :: "radeon_cs_space_check list \<Rightarrow> radeon_state \<Rightarrow> radeon_state option" where
  "unref_bos [] s = Some s"
| "unref_bos (sc # scs) s = do { (_, s) \<leftarrow> radeon_bo_unref (sc_bo sc) s; unref_bos scs s }"

definition radeon_cs_space_reset_bos :: "radeon_cs \<Rightarrow> radeon_state \<Rightarrow> (radeon_cs \<times> radeon_state) option" where
  "radeon_cs_space_reset_bos cs s = do { s \<leftarrow> unref_bos (cs_bos cs) s; Some (cs\<lparr>cs_bos := []\<rparr>, s) }"

definition radeon_cs_set_limit :: "u32 \<Rightarrow> u32 \<Rightarrow> radeon_state \<Rightarrow> radeon_state" where
  "radeon_cs_set_limit domain limit s =
    (if domain = RADEON_GEM_DOMAIN_VRAM then s\<lparr>rs_vram_limit := sint limit\<rparr> else s\<lparr>rs_gart_limit := sint limit\<rparr>)"

end
