(* ===== verification/Radeon_Relocs.thy ===== *)
theory Radeon_Relocs
  imports Radeon_Cs
begin

text \<open>
  The relocations of a command stream: the table that goes to the kernel has every buffer once, the packets
  point into it, and an execution gives back every reference the stream took.
\<close>

section \<open>Ids\<close>

text \<open>A new id is a bit that no other stream has, and freeing it undoes its generation.\<close>

lemma generate_id_fresh:
  assumes "rs_id_source s \<noteq> NOT 0"
  shows "\<exists>i < 32. \<not> bit (rs_id_source s) i \<and> generate_id s = Some (push_bit i 1, s\<lparr>rs_id_source := rs_id_source s OR push_bit i 1\<rparr>)"
proof -
  obtain i where i: "i < 32" "\<not> bit (rs_id_source s) i"
    using assms by (auto simp: bit_eq_iff bit_not_iff)
  then have "find (\<lambda>i. \<not> bit (rs_id_source s) i) [0..<32] \<noteq> None" by (auto simp: find_None_iff)
  then obtain j where j: "find (\<lambda>i. \<not> bit (rs_id_source s) i) [0..<32] = Some j" by blast
  then have "j < 32 \<and> \<not> bit (rs_id_source s) j" using find_SomeD [OF j] by auto
  then show ?thesis using assms j by (auto simp: generate_id_def get_first_zero_def)
qed

lemma free_generate_id:
  assumes "generate_id s = Some (i, s')"
  shows "rs_id_source (free_id i s') = rs_id_source s"
proof (cases "rs_id_source s = NOT 0")
  case False
  then obtain j where "\<not> bit (rs_id_source s) j" "i = push_bit j 1" "s' = s\<lparr>rs_id_source := rs_id_source s OR push_bit j 1\<rparr>"
    using generate_id_fresh [OF False] assms by auto
  then show ?thesis by (simp add: free_id_def) (rule bit_word_eqI, auto simp: bit_simps)
qed (use assms in \<open>simp add: generate_id_def free_id_def\<close>)

section \<open>The table\<close>

text \<open>
  \<open>base\<close> are the references others hold to a buffer, \<open>oth\<close> the marks of the other streams it is in. The
  stream has one reference to each buffer in its table, and its mark on exactly those; handles tell
  buffers apart.
\<close>

definition marked_ok :: "(addr \<Rightarrow> nat) \<Rightarrow> (addr \<Rightarrow> u32) \<Rightarrow> u32 \<Rightarrow> bool \<Rightarrow> addr \<Rightarrow> radeon_bo_gem \<Rightarrow> bool" where
  "marked_ok base oth i used a b \<longleftrightarrow> unat (rb_cref b) = base a + of_bool used \<and> 0 < base a \<and> base a < 2 ^ 31 \<and>
     oth a AND i = 0 \<and> rb_reloc_in_cs b = (if used then oth a + i else oth a)"

definition reloc_inv :: "(addr \<Rightarrow> nat) \<Rightarrow> (addr \<Rightarrow> u32) \<Rightarrow> radeon_cs \<Rightarrow> radeon_state \<Rightarrow> bool" where
  "reloc_inv base oth cs s \<longleftrightarrow> cs_id cs \<noteq> 0 \<and> rs_bos s NULL = None \<and> length (cs_relocs_bo cs) = length (cs_relocs cs) \<and>
     length (cs_relocs cs) \<le> cs_nrelocs cs \<and> distinct (cs_relocs_bo cs) \<and>
     (\<forall>i < length (cs_relocs cs). \<exists>a b. cs_relocs_bo cs ! i = Some a \<and> rs_bos s a = Some b \<and>
        cr_handle (cs_relocs cs ! i) = rb_handle b) \<and>
     (\<forall>a b a' b'. rs_bos s a = Some b \<longrightarrow> rs_bos s a' = Some b' \<longrightarrow> rb_handle b = rb_handle b' \<longrightarrow> a = a') \<and>
     (\<forall>a b. rs_bos s a = Some b \<longrightarrow> marked_ok base oth (cs_id cs) (Some a \<in> set (cs_relocs_bo cs)) a b)"

lemma mark_seen:
  fixes i :: u32
  assumes "marked_ok base oth i used a b" "i \<noteq> 0"
  shows "rb_reloc_in_cs b AND i \<noteq> 0 \<longleftrightarrow> used"
proof (cases used)
  case True
  have "oth a + i = oth a OR i" using assms(1) by (intro disjunctive_add_eq_or) (simp add: marked_ok_def)
  moreover have "(oth a OR i) AND i = i" by (rule bit_word_eqI) (auto simp: bit_simps)
  ultimately have "rb_reloc_in_cs b AND i = i" using assms(1) True by (simp add: marked_ok_def)
  then show ?thesis using True assms(2) by simp
qed (use assms in \<open>simp add: marked_ok_def\<close>)

lemma reloc_invD:
  assumes "reloc_inv base oth cs s" "rs_bos s a = Some b"
  shows "marked_ok base oth (cs_id cs) (Some a \<in> set (cs_relocs_bo cs)) a b"
  using assms by (simp add: reloc_inv_def)

text \<open>The search finds the entry of a buffer.\<close>

lemma find_reloc:
  assumes "reloc_inv base oth cs s" "rs_bos s a = Some b" "Some a \<in> set (cs_relocs_bo cs)"
  shows "\<exists>i. find (\<lambda>i. cr_handle (cs_relocs cs ! i) = rb_handle b) (rev [0..<length (cs_relocs cs)]) = Some i \<and>
    i < length (cs_relocs cs) \<and> cs_relocs_bo cs ! i = Some a"
proof -
  have t: "\<forall>i < length (cs_relocs cs). \<exists>a b. cs_relocs_bo cs ! i = Some a \<and> rs_bos s a = Some b \<and>
      cr_handle (cs_relocs cs ! i) = rb_handle b" "length (cs_relocs_bo cs) = length (cs_relocs cs)"
    "\<forall>a b a' b'. rs_bos s a = Some b \<longrightarrow> rs_bos s a' = Some b' \<longrightarrow> rb_handle b = rb_handle b' \<longrightarrow> a = a'"
    using assms(1) by (simp_all add: reloc_inv_def)
  obtain k where k: "k < length (cs_relocs cs)" "cs_relocs_bo cs ! k = Some a"
    using assms(3) t(2) by (auto simp: in_set_conv_nth)
  then have "cr_handle (cs_relocs cs ! k) = rb_handle b" using t(1) assms(2) by fastforce
  then have "find (\<lambda>i. cr_handle (cs_relocs cs ! i) = rb_handle b) (rev [0..<length (cs_relocs cs)]) \<noteq> None"
    using k(1) by (auto simp: find_None_iff)
  then obtain i where i: "find (\<lambda>i. cr_handle (cs_relocs cs ! i) = rb_handle b) (rev [0..<length (cs_relocs cs)]) = Some i"
    by blast
  from find_SomeD [OF this] have "i < length (cs_relocs cs)" "cr_handle (cs_relocs cs ! i) = rb_handle b" by auto
  then show ?thesis using i t(1,3) assms(2) by metis
qed

lemma reloc_packet_eq:
  assumes "length (cs_packets cs) + 2 \<le> cs_room cs"
  shows "\<exists>n. reloc_packet idx cs = Some (cs\<lparr>cs_packets := cs_packets cs @ [0xc0001000, idx], cs_section_cdw := n\<rparr>) \<and>
    (cs_section_ndw cs \<noteq> 0 \<longrightarrow> n = cs_section_cdw cs + 2)"
  using assms by (intro exI [of _ "if cs_section_ndw cs \<noteq> 0 then cs_section_cdw cs + 2 else cs_section_cdw cs"])
    (simp add: reloc_packet_def radeon_cs_write_dword_def)

text \<open>What the invariant is about.\<close>

lemma reloc_inv_cong:
  assumes "cs_id cs' = cs_id cs" "rs_bos s' = rs_bos s" "length (cs_relocs cs') = length (cs_relocs cs)"
    "map cr_handle (cs_relocs cs') = map cr_handle (cs_relocs cs)" "cs_relocs_bo cs' = cs_relocs_bo cs" "cs_nrelocs cs' = cs_nrelocs cs"
    "reloc_inv base oth cs s"
  shows "reloc_inv base oth cs' s'"
proof -
  have "cr_handle (cs_relocs cs' ! i) = cr_handle (cs_relocs cs ! i)" if "i < length (cs_relocs cs)" for i
    using assms(3,4) that by (metis nth_map)
  then show ?thesis using assms unfolding reloc_inv_def by simp
qed

lemma merge_handle: "merge_reloc rd wd fl e = Some e' \<Longrightarrow> cr_handle e' = cr_handle e"
  by (auto simp: merge_reloc_def split: if_splits)

text \<open>The merged entry has the domains of the new use.\<close>

lemma merge_domains:
  "merge_reloc rd wd fl e = Some e' \<Longrightarrow> cr_read_domain e' AND rd = rd \<and> cr_write_domain e' AND wd = wd"
  by (auto simp: merge_reloc_def bit_eq_iff bit_simps split: if_splits)

lemma append_reloc:
  assumes "reloc_inv base oth cs s" "rs_bos s a = Some b" "Some a \<notin> set (cs_relocs_bo cs)" "cr_handle e = rb_handle b"
    "cs_id cs' = cs_id cs" "cs_relocs cs' = cs_relocs cs @ [e]" "cs_relocs_bo cs' = cs_relocs_bo cs @ [Some a]"
    "length (cs_relocs cs) < cs_nrelocs cs'"
    "rs_bos s' = (rs_bos s)(a \<mapsto> b\<lparr>rb_cref := rb_cref b + 1, rb_reloc_in_cs := rb_reloc_in_cs b + cs_id cs\<rparr>)"
  shows "reloc_inv base oth cs' s'"
proof -
  let ?b = "b\<lparr>rb_cref := rb_cref b + 1, rb_reloc_in_cs := rb_reloc_in_cs b + cs_id cs\<rparr>"
  have inv: "length (cs_relocs_bo cs) = length (cs_relocs cs)" "distinct (cs_relocs_bo cs)" "cs_id cs \<noteq> 0" "rs_bos s NULL = None"
    and t: "\<forall>i < length (cs_relocs cs). \<exists>a b. cs_relocs_bo cs ! i = Some a \<and> rs_bos s a = Some b \<and>
      cr_handle (cs_relocs cs ! i) = rb_handle b"
    and h: "\<forall>a b a' b'. rs_bos s a = Some b \<longrightarrow> rs_bos s a' = Some b' \<longrightarrow> rb_handle b = rb_handle b' \<longrightarrow> a = a'"
    using assms(1) by (simp_all add: reloc_inv_def)
  have m: "marked_ok base oth (cs_id cs) False a b" using reloc_invD [OF assms(1,2)] assms(3) by simp
  have "unat (rb_cref b + 1) = unat (rb_cref b) + 1"
    using m unat_add_small [of "rb_cref b" 1] by (simp add: marked_ok_def)
  then have m': "marked_ok base oth (cs_id cs) True a ?b" using m by (simp add: marked_ok_def)
  have tab: "\<exists>x y. cs_relocs_bo cs' ! i = Some x \<and> rs_bos s' x = Some y \<and> cr_handle (cs_relocs cs' ! i) = rb_handle y"
    if i: "i < length (cs_relocs cs')" for i
  proof (cases "i < length (cs_relocs cs)")
    case True
    then obtain x y where x: "cs_relocs_bo cs ! i = Some x" "rs_bos s x = Some y" "cr_handle (cs_relocs cs ! i) = rb_handle y"
      using t by blast
    moreover have "x \<noteq> a" using x(1) True assms(3) inv(1) by (metis nth_mem)
    ultimately show ?thesis using True inv(1) unfolding assms(6,7,9) by (simp add: nth_append)
  next
    case False
    then have "i = length (cs_relocs cs)" using i assms(6) by simp
    then show ?thesis using assms(4) inv(1) unfolding assms(6,7,9) by (simp add: nth_append)
  qed
  have hd: "\<exists>z. rs_bos s x = Some z \<and> rb_handle z = rb_handle y" if "rs_bos s' x = Some y" for x y
    using that assms(2) unfolding assms(9) by (cases "x = a") auto
  have uniq: "x = x'" if xy: "rs_bos s' x = Some y" "rs_bos s' x' = Some y'" "rb_handle y = rb_handle y'" for x y x' y'
  proof -
    obtain z where z: "rs_bos s x = Some z" "rb_handle z = rb_handle y" using hd [OF xy(1)] by blast
    obtain z' where z': "rs_bos s x' = Some z'" "rb_handle z' = rb_handle y'" using hd [OF xy(2)] by blast
    show ?thesis using h [rule_format, OF z(1) z'(1)] z(2) z'(2) xy(3) by simp
  qed
  have mark: "marked_ok base oth (cs_id cs) (Some x \<in> set (cs_relocs_bo cs')) x y" if "rs_bos s' x = Some y" for x y
    using that m' reloc_invD [OF assms(1), of x y] unfolding assms(7,9) by (cases "x = a") simp_all
  have "a \<noteq> NULL" using inv(4) assms(2) by (cases "a = NULL") simp_all
  then have null: "rs_bos s' NULL = None" using inv(4) by (simp add: assms(9))
  have len: "length (cs_relocs_bo cs') = length (cs_relocs cs')" "length (cs_relocs cs') \<le> cs_nrelocs cs'"
    "distinct (cs_relocs_bo cs')" using inv(1,2) assms(3,8) unfolding assms(6,7) by simp_all
  show ?thesis unfolding reloc_inv_def assms(5)
    by (intro conjI allI impI) (fact inv(3) null len tab uniq mark | erule (2) uniq | erule mark)+
qed

section \<open>Writing relocations\<close>

text \<open>The packet that is written points to the entry of the buffer, which has the domains of this use.\<close>

definition refers :: "addr \<Rightarrow> radeon_bo_gem \<Rightarrow> u32 \<Rightarrow> u32 \<Rightarrow> radeon_cs \<Rightarrow> radeon_cs \<Rightarrow> bool" where
  "refers a b rd wd cs cs' \<longleftrightarrow> (\<exists>i < length (cs_relocs cs').
     cs_packets cs' = cs_packets cs @ [0xc0001000, of_nat (i * RELOC_SIZE)] \<and>
     cs_relocs_bo cs' ! i = Some a \<and> cr_handle (cs_relocs cs' ! i) = rb_handle b \<and>
     cr_read_domain (cs_relocs cs' ! i) AND rd = rd \<and> cr_write_domain (cs_relocs cs' ! i) AND wd = wd)"

definition domains_ok :: "u32 \<Rightarrow> u32 \<Rightarrow> bool" where
  "domains_ok rd wd \<longleftrightarrow> (rd = 0 \<longleftrightarrow> wd \<noteq> 0) \<and> rd \<noteq> RADEON_GEM_DOMAIN_CPU \<and> wd \<noteq> RADEON_GEM_DOMAIN_CPU"

text \<open>What a relocation does to the packets and their section: nothing, or two dwords.\<close>

definition section_step :: "int \<Rightarrow> radeon_cs \<Rightarrow> radeon_cs \<Rightarrow> bool" where
  "section_step r cs cs' \<longleftrightarrow> (if r = 0 then length (cs_packets cs') = length (cs_packets cs) + 2 \<and>
       (cs_section_ndw cs \<noteq> 0 \<longrightarrow> cs_section_cdw cs' = cs_section_cdw cs + 2) \<and>
       cs_section_ndw cs' = cs_section_ndw cs \<and> cs_room cs' = cs_room cs \<and> cs_ndw cs' = cs_ndw cs
     else cs' = cs)"

lemma write_reloc_known:
  assumes "reloc_inv base oth cs s" "rs_bos s a = Some b" "rb_space_accounted b \<noteq> 0" "length (cs_packets cs) + 2 \<le> cs_room cs"
    "domains_ok rd wd" "Some a \<in> set (cs_relocs_bo cs)"
  shows "\<exists>r cs'. cs_gem_write_reloc env a rd wd fl cs s = Some (r, cs', s) \<and> reloc_inv base oth cs' s \<and> section_step r cs cs' \<and>
    (r \<noteq> 0 \<longrightarrow> cs' = cs) \<and> (r = 0 \<longrightarrow> refers a b rd wd cs cs')"
proof -
  have "cs_id cs \<noteq> 0" using assms(1) by (simp add: reloc_inv_def)
  then have seen: "rb_reloc_in_cs b AND cs_id cs \<noteq> 0" using mark_seen [OF reloc_invD [OF assms(1,2)]] assms(6) by simp
  obtain i where i: "find (\<lambda>i. cr_handle (cs_relocs cs ! i) = rb_handle b) (rev [0..<length (cs_relocs cs)]) = Some i"
    "i < length (cs_relocs cs)" "cs_relocs_bo cs ! i = Some a" using find_reloc [OF assms(1,2,6)] by blast
  have h: "cr_handle (cs_relocs cs ! i) = rb_handle b" using find_SomeD [OF i(1)] by simp
  show ?thesis
  proof (cases "merge_reloc rd wd fl (cs_relocs cs ! i)")
    case None
    then have "cs_gem_write_reloc env a rd wd fl cs s = Some (- EINVAL, cs, s)"
      using assms seen i(1) by (cases "rd = 0") (simp_all add: cs_gem_write_reloc_def rbo_get_def domains_ok_def RADEON_GEM_DOMAIN_CPU_def)
    then show ?thesis using assms(1) by (simp add: EINVAL_def section_step_def)
  next
    case (Some e)
    let ?cs = "cs\<lparr>cs_relocs := (cs_relocs cs)[i := e]\<rparr>"
    have "length (cs_packets ?cs) + 2 \<le> cs_room ?cs" using assms(4) by simp
    from reloc_packet_eq [OF this] obtain n where n: "reloc_packet (of_nat (i * RELOC_SIZE)) ?cs =
      Some (?cs\<lparr>cs_packets := cs_packets cs @ [0xc0001000, of_nat (i * RELOC_SIZE)], cs_section_cdw := n\<rparr>)"
      "cs_section_ndw cs \<noteq> 0 \<longrightarrow> n = cs_section_cdw cs + 2" by auto
    let ?cs' = "?cs\<lparr>cs_packets := cs_packets cs @ [0xc0001000, of_nat (i * RELOC_SIZE)], cs_section_cdw := n\<rparr>"
    have run: "cs_gem_write_reloc env a rd wd fl cs s = Some (0, ?cs', s)"
      using assms seen i(1) Some n by (cases "rd = 0") (simp_all add: cs_gem_write_reloc_def rbo_get_def domains_ok_def RADEON_GEM_DOMAIN_CPU_def)
    have "map cr_handle ((cs_relocs cs)[i := e]) = map cr_handle (cs_relocs cs)"
      using merge_handle [OF Some] i(2) by (simp add: map_update list_update_same_conv)
    then have "reloc_inv base oth ?cs' s" by (intro reloc_inv_cong [OF _ _ _ _ _ _ assms(1)]) simp_all
    moreover have "refers a b rd wd cs ?cs'"
      unfolding refers_def using i(2,3) merge_domains [OF Some] merge_handle [OF Some] h by (intro exI [of _ i]) simp
    moreover have "section_step 0 cs ?cs'" using n(2) by (simp add: section_step_def)
    ultimately show ?thesis using run by blast
  qed
qed

text \<open>What is left of the operation for a buffer that is not in the table.\<close>

lemma write_reloc_fresh:
  assumes "rs_bos s a = Some b" "rb_space_accounted b \<noteq> 0" "domains_ok rd wd" "rb_reloc_in_cs b AND cs_id cs = 0"
    "full = (length (cs_relocs cs) \<ge> cs_nrelocs cs)" "ok = (full \<longrightarrow> rk_realloc env (rs_clock s) \<and> rk_realloc env (Suc (rs_clock s)))"
    "s1 = (if full then if rk_realloc env (rs_clock s) then rtick (rtick s) else rtick s else s)"
  shows "cs_gem_write_reloc env a rd wd fl cs s = (if \<not> ok then Some (- ENOMEM, cs, s1)
    else do {
      cs' \<leftarrow> reloc_packet (of_nat (length (cs_relocs cs) * RELOC_SIZE))
        (cs\<lparr>cs_nrelocs := if full then cs_nrelocs cs + 1 else cs_nrelocs cs,
          cs_relocs_bo := cs_relocs_bo cs @ [Some a],
          cs_relocs := cs_relocs cs @ [\<lparr>cr_handle = rb_handle b, cr_read_domain = rd, cr_write_domain = wd, cr_flags = fl\<rparr>],
          cs_length1 := cs_length1 cs + of_nat RELOC_SIZE, cs_relocs_total_size := cs_relocs_total_size cs + rb_size b\<rparr>);
      Some (0, cs', s1\<lparr>rs_bos := (rs_bos s)(a \<mapsto> b\<lparr>rb_cref := rb_cref b + 1, rb_reloc_in_cs := rb_reloc_in_cs b + cs_id cs\<rparr>)\<rparr>)
    })"
proof -
  have s1: "rs_bos s1 = rs_bos s" by (simp add: assms(7))
  have dom: "\<not> ((rd \<noteq> 0 \<and> wd \<noteq> 0) \<or> (rd = 0 \<and> wd = 0))" "rd \<noteq> RADEON_GEM_DOMAIN_CPU" "wd \<noteq> RADEON_GEM_DOMAIN_CPU"
    using assms(3) by (auto simp: domains_ok_def)
  have put: "radeon_bo_ref a s1 \<bind> (\<lambda>s. rbo_put s a (\<lambda>b. b\<lparr>rb_reloc_in_cs := rb_reloc_in_cs b + cs_id cs\<rparr>)) =
      Some (s1\<lparr>rs_bos := (rs_bos s)(a \<mapsto> b\<lparr>rb_cref := rb_cref b + 1, rb_reloc_in_cs := rb_reloc_in_cs b + cs_id cs\<rparr>)\<rparr>)"
    using assms(1) s1 by (simp add: radeon_bo_ref_def rbo_put_eq)
  show ?thesis
    unfolding cs_gem_write_reloc_def Let_def assms(5) [symmetric] assms(6) [symmetric] assms(7) [symmetric] if_not_P [OF dom(1)]
    using dom(2,3) assms(1,2,4) put by (simp add: rbo_get_def bind_assoc [symmetric] del: bind_assoc)
qed

lemma write_reloc_new:
  assumes "reloc_inv base oth cs s" "rs_bos s a = Some b" "rb_space_accounted b \<noteq> 0" "length (cs_packets cs) + 2 \<le> cs_room cs"
    "domains_ok rd wd" "Some a \<notin> set (cs_relocs_bo cs)"
  shows "\<exists>r cs' s'. cs_gem_write_reloc env a rd wd fl cs s = Some (r, cs', s') \<and> reloc_inv base oth cs' s' \<and> dom (rs_bos s') = dom (rs_bos s) \<and>
    section_step r cs cs' \<and>
    (r \<noteq> 0 \<longrightarrow> cs' = cs \<and> rs_bos s' = rs_bos s) \<and> (r = 0 \<longrightarrow> refers a b rd wd cs cs')"
proof -
  have len: "length (cs_relocs_bo cs) = length (cs_relocs cs)" "length (cs_relocs cs) \<le> cs_nrelocs cs" "cs_id cs \<noteq> 0"
    using assms(1) by (simp_all add: reloc_inv_def)
  have seen: "rb_reloc_in_cs b AND cs_id cs = 0" using mark_seen [OF reloc_invD [OF assms(1,2)] len(3)] assms(6) by simp
  define full where "full = (length (cs_relocs cs) \<ge> cs_nrelocs cs)"
  define s1 where "s1 = (if full then if rk_realloc env (rs_clock s) then rtick (rtick s) else rtick s else s)"
  have s1: "rs_bos s1 = rs_bos s" by (simp add: s1_def)
  note run = write_reloc_fresh [OF assms(2,3,5) seen full_def refl s1_def, of fl]
  show ?thesis
  proof (cases "full \<longrightarrow> rk_realloc env (rs_clock s) \<and> rk_realloc env (Suc (rs_clock s))")
    case False
    then have "cs_gem_write_reloc env a rd wd fl cs s = Some (- ENOMEM, cs, s1)" using run by simp
    moreover have "reloc_inv base oth cs s1" by (rule reloc_inv_cong [OF _ s1 _ _ _ _ assms(1)]) simp_all
    ultimately show ?thesis using s1 by (auto simp: ENOMEM_def section_step_def)
  next
    case ok: True
    let ?idx = "of_nat (length (cs_relocs cs) * RELOC_SIZE) :: u32"
    let ?e = "\<lparr>cr_handle = rb_handle b, cr_read_domain = rd, cr_write_domain = wd, cr_flags = fl\<rparr>"
    let ?cs = "cs\<lparr>cs_nrelocs := if full then cs_nrelocs cs + 1 else cs_nrelocs cs,
      cs_relocs_bo := cs_relocs_bo cs @ [Some a], cs_relocs := cs_relocs cs @ [?e],
      cs_length1 := cs_length1 cs + of_nat RELOC_SIZE, cs_relocs_total_size := cs_relocs_total_size cs + rb_size b\<rparr>"
    have "length (cs_packets ?cs) + 2 \<le> cs_room ?cs" using assms(4) by simp
    from reloc_packet_eq [OF this] obtain n where n: "reloc_packet ?idx ?cs =
      Some (?cs\<lparr>cs_packets := cs_packets cs @ [0xc0001000, ?idx], cs_section_cdw := n\<rparr>)"
      "cs_section_ndw cs \<noteq> 0 \<longrightarrow> n = cs_section_cdw cs + 2" by auto
    let ?cs' = "?cs\<lparr>cs_packets := cs_packets cs @ [0xc0001000, ?idx], cs_section_cdw := n\<rparr>"
    let ?s' = "s1\<lparr>rs_bos := (rs_bos s)(a \<mapsto> b\<lparr>rb_cref := rb_cref b + 1, rb_reloc_in_cs := rb_reloc_in_cs b + cs_id cs\<rparr>)\<rparr>"
    have run': "cs_gem_write_reloc env a rd wd fl cs s = Some (0, ?cs', ?s')" unfolding run n(1) using ok by simp
    have "length (cs_relocs cs) < cs_nrelocs ?cs'" using len(2) by (auto simp: full_def)
    then have "reloc_inv base oth ?cs' ?s'" by (intro append_reloc [OF assms(1,2,6), of ?e]) simp_all
    moreover have "refers a b rd wd cs ?cs'"
      unfolding refers_def using len(1) by (intro exI [of _ "length (cs_relocs cs)"]) (simp add: nth_append)
    moreover have "dom (rs_bos ?s') = dom (rs_bos s)" using assms(2) by auto
    moreover have "section_step 0 cs ?cs'" using n(2) by (simp add: section_step_def)
    ultimately show ?thesis using run' by (intro exI [of _ 0] exI [of _ ?cs'] exI [of _ ?s']) simp
  qed
qed

lemma write_reloc_ok:
  assumes "reloc_inv base oth cs s" "rs_bos s a = Some b" "rb_space_accounted b \<noteq> 0" "length (cs_packets cs) + 2 \<le> cs_room cs"
  shows "\<exists>r cs' s'. cs_gem_write_reloc env a rd wd fl cs s = Some (r, cs', s') \<and> reloc_inv base oth cs' s' \<and> dom (rs_bos s') = dom (rs_bos s) \<and>
    section_step r cs cs' \<and>
    (r \<noteq> 0 \<longrightarrow> cs' = cs \<and> rs_bos s' = rs_bos s) \<and> (r = 0 \<longrightarrow> refers a b rd wd cs cs')"
proof (cases "domains_ok rd wd")
  case False
  then have "cs_gem_write_reloc env a rd wd fl cs s = Some (- EINVAL, cs, s)"
    using assms by (auto simp: cs_gem_write_reloc_def rbo_get_def domains_ok_def RADEON_GEM_DOMAIN_CPU_def)
  then show ?thesis using assms(1) by (simp add: EINVAL_def section_step_def)
next
  case True
  show ?thesis
  proof (cases "Some a \<in> set (cs_relocs_bo cs)")
    case True
    from write_reloc_known [OF assms \<open>domains_ok rd wd\<close> True, of env fl] show ?thesis by blast
  next
    case False
    from write_reloc_new [OF assms True False, of env fl] show ?thesis .
  qed
qed

section \<open>Sections\<close>

text \<open>A section that was begun has room for its dwords, and ends well exactly when all were written.\<close>

definition room_ok :: "radeon_cs \<Rightarrow> bool" where
  "room_ok cs \<longleftrightarrow> cs_room cs = unat (cs_ndw cs) \<and> 8 dvd cs_room cs \<and> length (cs_packets cs) \<le> cs_room cs"

lemma begin_room:
  assumes "room_ok cs" "cs_section_ndw cs = 0" "length (cs_packets cs) + unat ndw + 0x3FF < 2 ^ 30"
    "cs_gem_begin env ndw cs s = (0, cs', s')"
  shows "room_ok cs' \<and> length (cs_packets cs) + unat ndw \<le> cs_room cs' \<and> rs_bos s' = rs_bos s \<and>
    (\<exists>n r. cs' = cs\<lparr>cs_section_ndw := ndw, cs_section_cdw := 0, cs_ndw := n, cs_room := r\<rparr>)"
proof -
  let ?v = "cs_cdw cs + ndw"
  have "unat (cs_cdw cs) = length (cs_packets cs)" using assms(3) by (simp add: unat_of_nat)
  then have v: "unat ?v = length (cs_packets cs) + unat ndw" using assms(3) by (subst unat_add_small) simp_all
  have al: "(?v + 0x3FF) AND NOT 0x3FF = ALIGN ?v (2 ^ 10)" by (simp add: ALIGN_def algebra_simps)
  have lo: "unat ?v \<le> unat (ALIGN ?v (2 ^ 10))" "unat (ALIGN ?v (2 ^ 10)) < unat ?v + 1024" "1024 dvd unat (ALIGN ?v (2 ^ 10))"
    using unat_ALIGN [of "2 ^ 10 :: u32" ?v] unat_ALIGN_dvd [of 10 ?v] v assms(3) by simp_all
  have four: "unat (4 * ALIGN ?v (2 ^ 10)) div 4 = unat (ALIGN ?v (2 ^ 10))"
    using lo(2) v assms(3) by (simp add: unat_mult_lem [THEN iffD1])
  show ?thesis
  proof (cases "?v > cs_ndw cs")
    case True
    let ?t = "ALIGN ?v (2 ^ 10)"
    have "cs_gem_begin env ndw cs s = (if \<not> rk_realloc env (rs_clock s) then (- ENOMEM, cs\<lparr>cs_section_ndw := ndw, cs_section_cdw := 0\<rparr>, rtick s)
        else (0, cs\<lparr>cs_section_ndw := ndw, cs_section_cdw := 0, cs_ndw := ?t, cs_room := unat (4 * ?t) div 4\<rparr>, rtick s))"
      using True assms(2) unfolding cs_gem_begin_def Let_def al [symmetric] by simp
    then have "cs' = cs\<lparr>cs_section_ndw := ndw, cs_section_cdw := 0, cs_ndw := ?t, cs_room := unat (4 * ?t) div 4\<rparr>" "s' = rtick s"
      using assms(4) by (auto simp: ENOMEM_def split: if_splits)
    moreover have "8 dvd unat ?t" by (rule dvd_trans [OF _ lo(3)]) simp
    ultimately show ?thesis using lo(1) unfolding four by (auto simp: room_ok_def v)
  next
    case False
    then have le: "unat ?v \<le> unat (cs_ndw cs)" unfolding word_le_nat_alt [symmetric] by (rule leI)
    have e: "cs' = cs\<lparr>cs_section_ndw := ndw, cs_section_cdw := 0\<rparr>" "s' = s"
      using False assms(2,4) by (simp_all add: cs_gem_begin_def Let_def)
    moreover have "\<exists>n r. cs' = cs\<lparr>cs_section_ndw := ndw, cs_section_cdw := 0, cs_ndw := n, cs_room := r\<rparr>"
      by (intro exI [of _ "cs_ndw cs"] exI [of _ "cs_room cs"]) (simp add: e)
    moreover have "room_ok cs'" using assms(1) unfolding room_ok_def e(1) by auto
    moreover have "length (cs_packets cs) + unat ndw \<le> cs_room cs'" using le assms(1) unfolding v room_ok_def e(1) by simp
    ultimately show ?thesis using e(2) by blast
  qed
qed

section \<open>Execution\<close>

lemma and_7_of_nat: "of_nat n AND (7 :: u32) = of_nat (n mod 8)"
proof -
  have m: "(7 :: u32) = mask 3" by (simp add: mask_eq_exp_minus_1)
  show ?thesis unfolding m take_bit_eq_mask [symmetric] take_bit_of_nat by (simp add: take_bit_eq_mod)
qed

lemma pad_fits:
  assumes "m mod 8 = 0" "n \<le> (m :: nat)"
  shows "(n + (8 - n mod 8) mod 8) mod 8 = 0 \<and> n + (8 - n mod 8) mod 8 \<le> m"
proof (cases "n mod 8 = 0")
  case False
  obtain p where p: "m = 8 * p" using assms(1) by (auto simp: mod_eq_0_iff_dvd elim: dvdE)
  define q r where qr: "q = n div 8" "r = n mod 8"
  have n: "n = 8 * q + r" "r < 8" "0 < r" using False unfolding qr by simp_all
  have "8 * q < 8 * p" using assms(2) n p by linarith
  then have le: "8 * (q + 1) \<le> m" using p by simp
  have "(8 - n mod 8) mod 8 = 8 - r" using n(2,3) unfolding qr(2) [symmetric] by simp
  moreover have "n + (8 - r) = 8 * (q + 1)" using n(2) unfolding n(1) by simp
  ultimately show ?thesis using le by (simp only:) simp
qed (use assms in simp)

lemma pad_packets_eq:
  assumes "length (cs_packets cs) + k \<le> cs_room cs" "k < 8" "(length (cs_packets cs) + k) mod 8 = 0"
  shows "\<exists>n. pad_packets cs = Some (cs\<lparr>cs_packets := cs_packets cs @ replicate k 0x80000000, cs_section_cdw := n\<rparr>)"
  using assms
proof (induction k arbitrary: cs)
  case 0
  then have "cs_cdw cs AND 7 = 0" by (simp add: and_7_of_nat)
  then have "pad_packets cs = Some cs" by (subst pad_packets.simps) simp
  moreover have "cs = cs\<lparr>cs_packets := cs_packets cs @ replicate 0 0x80000000, cs_section_cdw := cs_section_cdw cs\<rparr>" by simp
  ultimately show ?case by metis
next
  case (Suc k)
  have "length (cs_packets cs) mod 8 \<noteq> 0" using Suc.prems by presburger
  then have "cs_cdw cs AND 7 \<noteq> 0"
    unfolding and_7_of_nat by (simp add: word_of_nat_eq_0_iff nat_dvd_not_less)
  let ?n = "if cs_section_ndw cs \<noteq> 0 then cs_section_cdw cs + 1 else cs_section_cdw cs"
  let ?cs = "cs\<lparr>cs_packets := cs_packets cs @ [0x80000000], cs_section_cdw := ?n\<rparr>"
  have step: "pad_packets cs = pad_packets ?cs"
    using \<open>cs_cdw cs AND 7 \<noteq> 0\<close> Suc.prems(1) by (subst pad_packets.simps) (simp add: radeon_cs_write_dword_def)
  obtain n where "pad_packets ?cs = Some (?cs\<lparr>cs_packets := cs_packets ?cs @ replicate k 0x80000000, cs_section_cdw := n\<rparr>)"
    using Suc.IH [of ?cs] Suc.prems by auto
  then show ?case unfolding step by (intro exI [of _ n]) (simp add: replicate_append_same)
qed

text \<open>The reference and the mark of the stream are taken from its buffers, which others keep alive.\<close>

definition dropped :: "u32 \<Rightarrow> radeon_bo_gem \<Rightarrow> radeon_bo_gem" where
  "dropped i b = b\<lparr>rb_space_accounted := 0, rb_reloc_in_cs := rb_reloc_in_cs b - i, rb_cref := rb_cref b - 1\<rparr>"

lemma emit_relocs_eq:
  assumes "distinct ps" "\<And>p. p \<in> set ps \<Longrightarrow> \<exists>a b. p = Some a \<and> a \<noteq> NULL \<and> rs_bos s a = Some b \<and> 1 < unat (rb_cref b)"
  shows "emit_relocs i ps s =
    Some (s\<lparr>rs_bos := \<lambda>a. if Some a \<in> set ps then map_option (dropped i) (rs_bos s a) else rs_bos s a\<rparr>)"
  using assms
proof (induction ps arbitrary: s)
  case (Cons p ps)
  obtain a b where a: "p = Some a" "a \<noteq> NULL" "rs_bos s a = Some b" "1 < unat (rb_cref b)"
    using Cons.prems(2) by (meson list.set_intros(1))
  let ?s = "s\<lparr>rs_bos := (rs_bos s)(a \<mapsto> dropped i b)\<rparr>"
  have step: "emit_relocs i (p # ps) s = emit_relocs i ps ?s"
    using a by (simp add: drop_reloc_def rbo_put_eq unref_keeps dropped_def)
  have "Some a \<notin> set ps" using Cons.prems(1) a(1) by simp
  then have "\<exists>x y. q = Some x \<and> x \<noteq> NULL \<and> rs_bos ?s x = Some y \<and> 1 < unat (rb_cref y)" if "q \<in> set ps" for q
    using Cons.prems(2) [of q] that by (cases q) auto
  with Cons.IH [of ?s] Cons.prems(1) have "emit_relocs i ps ?s =
    Some (?s\<lparr>rs_bos := \<lambda>a. if Some a \<in> set ps then map_option (dropped i) (rs_bos ?s a) else rs_bos ?s a\<rparr>)" by simp
  then show ?case unfolding step using a \<open>Some a \<notin> set ps\<close> by (auto intro!: arg_cong [of _ _ "\<lambda>h. s\<lparr>rs_bos := h\<rparr>"])
qed simp

lemma erase_relocs_none: "erase_relocs i (map (\<lambda>_. None) ps) s = Some s"
  by (induction ps) simp_all

text \<open>The table has every handle once.\<close>

lemma table_distinct:
  assumes "reloc_inv base oth cs s"
  shows "distinct (map cr_handle (cs_relocs cs))"
proof -
  have t: "\<forall>i < length (cs_relocs cs). \<exists>a b. cs_relocs_bo cs ! i = Some a \<and> rs_bos s a = Some b \<and>
      cr_handle (cs_relocs cs ! i) = rb_handle b" "length (cs_relocs_bo cs) = length (cs_relocs cs)" "distinct (cs_relocs_bo cs)"
    "\<forall>a b a' b'. rs_bos s a = Some b \<longrightarrow> rs_bos s a' = Some b' \<longrightarrow> rb_handle b = rb_handle b' \<longrightarrow> a = a'"
    using assms by (simp_all add: reloc_inv_def)
  have "i = j" if ij: "i < length (cs_relocs cs)" "j < length (cs_relocs cs)"
    and eq: "cr_handle (cs_relocs cs ! i) = cr_handle (cs_relocs cs ! j)" for i j
  proof -
    obtain a b where a: "cs_relocs_bo cs ! i = Some a" "rs_bos s a = Some b" "cr_handle (cs_relocs cs ! i) = rb_handle b"
      using t(1) ij(1) by blast
    obtain a' b' where a': "cs_relocs_bo cs ! j = Some a'" "rs_bos s a' = Some b'" "cr_handle (cs_relocs cs ! j) = rb_handle b'"
      using t(1) ij(2) by blast
    have "a = a'" using t(4) [rule_format, OF a(2) a'(2)] a(3) a'(3) eq by simp
    then show ?thesis using nth_eq_iff_index_eq [OF t(3), of i j] t(2) ij a(1) a'(1) by simp
  qed
  then show ?thesis by (simp add: distinct_conv_nth) blast
qed

lemma reloc_inv_empty:
  assumes "rs_bos s = h" "cs_id cs = i" "cs_relocs cs = []" "cs_relocs_bo cs = []" "i \<noteq> 0" "h NULL = None"
    "\<And>a b a' b'. h a = Some b \<Longrightarrow> h a' = Some b' \<Longrightarrow> rb_handle b = rb_handle b' \<Longrightarrow> a = a'"
    "\<And>a b. h a = Some b \<Longrightarrow> marked_ok base oth i False a b"
  shows "reloc_inv base oth cs s"
  using assms by (simp add: reloc_inv_def)

lemma emit_erase:
  assumes "reloc_inv base oth cs s" "cs_room cs mod 8 = 0" "length (cs_packets cs) \<le> cs_room cs"
    "k = (8 - length (cs_packets cs) mod 8) mod 8"
  shows "\<exists>cs' s' cs''. cs_gem_emit env cs s =
      Some (rk_cs env (rs_clock s) (cs_packets cs @ replicate k 0x80000000) (cs_relocs cs), cs', s') \<and>
    cs_gem_erase cs' s' = Some (cs'', s') \<and> reloc_inv base oth cs'' s' \<and> cs_packets cs'' = [] \<and> cs_relocs cs'' = [] \<and>
    cs_room cs'' = cs_room cs \<and> cs_ndw cs'' = cs_ndw cs \<and> cs_section_ndw cs'' = 0 \<and>
    rs_read_used s' = 0 \<and> rs_vram_write_used s' = 0 \<and> rs_gart_write_used s' = 0 \<and>
    rs_vram_limit s' = rs_vram_limit s \<and> rs_gart_limit s' = rs_gart_limit s \<and>
    rs_bos s' = (\<lambda>a. if Some a \<in> set (cs_relocs_bo cs) then map_option (dropped (cs_id cs)) (rs_bos s a) else rs_bos s a)"
proof -
  have k: "k < 8" "(length (cs_packets cs) + k) mod 8 = 0" "length (cs_packets cs) + k \<le> cs_room cs"
    using pad_fits [OF assms(2,3)] assms(4) by simp_all
  from pad_packets_eq [OF k(3,1,2)] obtain n where
    n: "pad_packets cs = Some (cs\<lparr>cs_packets := cs_packets cs @ replicate k 0x80000000, cs_section_cdw := n\<rparr>)" ..
  have inv: "length (cs_relocs_bo cs) = length (cs_relocs cs)" "distinct (cs_relocs_bo cs)" "cs_id cs \<noteq> 0" "rs_bos s NULL = None"
    and t: "\<forall>i < length (cs_relocs cs). \<exists>a b. cs_relocs_bo cs ! i = Some a \<and> rs_bos s a = Some b \<and>
      cr_handle (cs_relocs cs ! i) = rb_handle b"
    and h: "\<forall>a b a' b'. rs_bos s a = Some b \<longrightarrow> rs_bos s a' = Some b' \<longrightarrow> rb_handle b = rb_handle b' \<longrightarrow> a = a'"
    using assms(1) by (simp_all add: reloc_inv_def)
  have live: "\<exists>a b. p = Some a \<and> a \<noteq> NULL \<and> rs_bos s a = Some b \<and> 1 < unat (rb_cref b)" if p: "p \<in> set (cs_relocs_bo cs)" for p
  proof -
    obtain i where "i < length (cs_relocs cs)" "cs_relocs_bo cs ! i = p" using p inv(1) by (auto simp: in_set_conv_nth)
    then obtain a b where a: "p = Some a" "rs_bos s a = Some b" using t by blast
    then have "1 < unat (rb_cref b)" using reloc_invD [OF assms(1) a(2)] p by (simp add: marked_ok_def)
    moreover have "a \<noteq> NULL" using a(2) inv(4) by (cases "a = NULL") simp_all
    ultimately show ?thesis using a by blast
  qed
  let ?h = "\<lambda>a. if Some a \<in> set (cs_relocs_bo cs) then map_option (dropped (cs_id cs)) (rs_bos s a) else rs_bos s a"
  have rel: "emit_relocs (cs_id cs) (cs_relocs_bo cs) (rtick s) = Some ((rtick s)\<lparr>rs_bos := ?h\<rparr>)"
    using emit_relocs_eq [OF inv(2), of "rtick s" "cs_id cs"] live unfolding rtick_bos by blast
  let ?cs = "cs\<lparr>cs_packets := cs_packets cs @ replicate k 0x80000000, cs_section_cdw := n\<rparr>"
  let ?cs' = "?cs\<lparr>cs_length0 := cs_cdw ?cs, cs_relocs_bo := map (\<lambda>_. None) (cs_relocs_bo cs)\<rparr>"
  let ?s' = "(rtick s)\<lparr>rs_bos := ?h, rs_read_used := 0, rs_vram_write_used := 0, rs_gart_write_used := 0\<rparr>"
  have emit: "cs_gem_emit env cs s =
      Some (rk_cs env (rs_clock s) (cs_packets cs @ replicate k 0x80000000) (cs_relocs cs), ?cs', ?s')"
    by (simp add: cs_gem_emit_def n rel)
  let ?cs'' = "?cs'\<lparr>cs_relocs_total_size := 0, cs_packets := [], cs_section_ndw := 0, cs_relocs := [], cs_relocs_bo := [],
       cs_length0 := 0, cs_length1 := 0\<rparr>"
  have erase: "cs_gem_erase ?cs' ?s' = Some (?cs'', ?s')" by (simp add: cs_gem_erase_def erase_relocs_none)
  have mk: "marked_ok base oth (cs_id cs) False a y" if y: "?h a = Some y" for a y
  proof (cases "Some a \<in> set (cs_relocs_bo cs)")
    case True
    then obtain b where b: "rs_bos s a = Some b" "y = dropped (cs_id cs) b" using y by auto
    have "marked_ok base oth (cs_id cs) True a b" using reloc_invD [OF assms(1) b(1)] True by simp
    moreover from this have "unat (rb_cref b - 1) = unat (rb_cref b) - 1" by (intro unat_minus_one) (auto simp: marked_ok_def)
    ultimately show ?thesis by (simp add: b(2) dropped_def marked_ok_def)
  next
    case False
    then show ?thesis using y reloc_invD [OF assms(1), of a y] by simp
  qed
  have same: "\<exists>b. rs_bos s a = Some b \<and> rb_handle b = rb_handle y" if "?h a = Some y" for a y
    using that by (auto simp: dropped_def split: if_splits)
  have uniq: "a = a'" if y: "?h a = Some y" "?h a' = Some y'" "rb_handle y = rb_handle y'" for a a' y y'
    using same [OF y(1)] same [OF y(2)] y(3) h by metis
  have "reloc_inv base oth ?cs'' ?s'"
    by (rule reloc_inv_empty [of _ ?h _ "cs_id cs"]) (simp, simp, simp, simp, fact inv(3), simp add: inv(4), fact uniq, fact mk)
  then show ?thesis using emit erase by (intro exI [of _ ?cs'] exI [of _ ?s'] exI [of _ ?cs'']) (simp add: rtick_def)
qed

end
