(* ===== verification/Radeon_Space.thy ===== *)
theory Radeon_Space
  imports Radeon_Cs
begin

text \<open>
  The memory that command streams account for. \<open>space_accounted\<close> of a buffer has the domain it is written in, or
  the domains it is read in, sixteen bits higher; the manager adds up the sizes. What a check lets through stays
  within the limits.
\<close>

section \<open>Totals\<close>

definition vram_of :: "u32 \<Rightarrow> int \<Rightarrow> int" where
  "vram_of acc n = (if acc = RADEON_GEM_DOMAIN_VRAM then n else 0)"

definition gart_of :: "u32 \<Rightarrow> int \<Rightarrow> int" where
  "gart_of acc n = (if acc = RADEON_GEM_DOMAIN_GTT then n else 0)"

definition read_of :: "u32 \<Rightarrow> int \<Rightarrow> int" where
  "read_of acc n = (if acc \<noteq> 0 \<and> acc AND 0xffff = 0 then n else 0)"

definition acc_total :: "(u32 \<Rightarrow> int \<Rightarrow> int) \<Rightarrow> radeon_state \<Rightarrow> int" where
  "acc_total c s = (\<Sum>a \<in> dom (rs_bos s). case rs_bos s a of None \<Rightarrow> 0 | Some b \<Rightarrow> c (rb_space_accounted b) (uint (rb_size b)))"

text \<open>A buffer is accounted for as written or as read.\<close>

definition pure_acc :: "u32 \<Rightarrow> bool" where
  "pure_acc acc \<longleftrightarrow> drop_bit 16 acc = 0 \<or> acc AND 0xffff = 0"

text \<open>The totals are within the counters of the manager and these within the limits.\<close>

definition space_ok :: "radeon_state \<Rightarrow> bool" where
  "space_ok s \<longleftrightarrow> finite (dom (rs_bos s)) \<and> (\<forall>a b. rs_bos s a = Some b \<longrightarrow> pure_acc (rb_space_accounted b)) \<and>
     0 \<le> rs_vram_write_used s \<and> 0 \<le> rs_gart_write_used s \<and> 0 \<le> rs_read_used s \<and>
     acc_total vram_of s \<le> rs_vram_write_used s \<and> acc_total gart_of s \<le> rs_gart_write_used s \<and> acc_total read_of s \<le> rs_read_used s \<and>
     rs_vram_write_used s \<le> rs_vram_limit s \<and> rs_read_used s + rs_gart_write_used s \<le> rs_gart_limit s \<and>
     rs_vram_limit s < 2 ^ 30 \<and> rs_gart_limit s < 2 ^ 30"

definition domain_mask_ok :: "u32 \<Rightarrow> u32 \<Rightarrow> bool" where
  "domain_mask_ok rd wd \<longleftrightarrow> drop_bit 16 rd = 0 \<and> drop_bit 16 wd = 0 \<and> (rd \<noteq> 0 \<or> wd \<noteq> 0)"

definition size_of :: "radeon_state \<Rightarrow> addr \<Rightarrow> int" where
  "size_of s a = (case rs_bos s a of None \<Rightarrow> 0 | Some b \<Rightarrow> uint (rb_size b))"

definition acc_of :: "radeon_state \<Rightarrow> addr \<Rightarrow> u32" where
  "acc_of s a = (case rs_bos s a of None \<Rightarrow> 0 | Some b \<Rightarrow> rb_space_accounted b)"

definition checks_ok :: "radeon_env \<Rightarrow> radeon_cs_space_check list \<Rightarrow> radeon_state \<Rightarrow> bool" where
  "checks_ok env scs s \<longleftrightarrow> distinct (map sc_bo scs) \<and> (\<Sum>sc \<leftarrow> scs. size_of s (sc_bo sc)) < 2 ^ 31 \<and>
     (\<forall>sc \<in> set scs. \<not> rk_static env (sc_bo sc) \<and> rs_bos s (sc_bo sc) \<noteq> None \<and> domain_mask_ok (sc_read_domains sc) (sc_write_domain sc))"

section \<open>One buffer\<close>

definition sizes_ok :: "int \<Rightarrow> rad_sizes \<Rightarrow> bool" where
  "sizes_ok n z \<longleftrightarrow> - n \<le> sz_op_read z \<and> 0 \<le> sz_op_gart_write z \<and> 0 \<le> sz_op_vram_write z \<and>
     max 0 (sz_op_read z) + sz_op_gart_write z \<le> n \<and> sz_op_vram_write z \<le> n"

lemma sint_s32: "- (2 ^ 31) \<le> x \<Longrightarrow> x < 2 ^ 31 \<Longrightarrow> sint (of_int x :: u32) = x"
  by (simp add: signed_of_int signed_take_bit_int_eq_self)

lemma add_size_eq: "- (2 ^ 31) \<le> n + uint sz \<Longrightarrow> n + uint sz < 2 ^ 31 \<Longrightarrow> add_size n sz = n + uint sz"
  using sint_s32 [of "n + uint sz"] by (simp add: add_size_def)

lemma sub_size_eq: "- (2 ^ 31) \<le> n - uint sz \<Longrightarrow> n - uint sz < 2 ^ 31 \<Longrightarrow> sub_size n sz = n - uint sz"
  using sint_s32 [of "n - uint sz"] by (simp add: sub_size_def)

lemma bit_ffff: "bit (0xffff :: u32) i \<longleftrightarrow> i < 16"
proof -
  have "(0xffff :: u32) = mask 16" by (simp add: mask_eq_exp_minus_1)
  then show ?thesis by (simp only: bit_mask_iff) auto
qed

lemma low_bits:
  assumes "drop_bit 16 w = 0" "bit (w :: u32) i"
  shows "i < 16"
proof (rule ccontr)
  assume "\<not> i < 16"
  then have "bit (drop_bit 16 w) (i - 16)" using assms(2) by (simp add: bit_drop_bit_eq)
  then show False using assms(1) by simp
qed

lemma low_high:
  fixes w :: u32
  assumes "drop_bit 16 w = 0"
  shows "w AND 0xffff = w" "push_bit 16 w AND 0xffff = 0" "push_bit 16 w = 0 \<longleftrightarrow> w = 0" "drop_bit 16 (push_bit 16 w) = w"
proof -
  show "w AND 0xffff = w" using low_bits [OF assms] by (intro bit_word_eqI) (unfold bit_and_iff bit_ffff, blast)
  show "push_bit 16 w AND 0xffff = 0" by (intro bit_word_eqI) (unfold bit_and_iff bit_ffff bit_push_bit_iff, simp)
  show d: "drop_bit 16 (push_bit 16 w) = w" using low_bits [OF assms] by (intro bit_word_eqI) (auto simp: bit_simps)
  show "push_bit 16 w = 0 \<longleftrightarrow> w = 0" using d by (metis drop_bit_of_0 push_bit_of_0)
qed

lemma domains_ne: "RADEON_GEM_DOMAIN_VRAM \<noteq> RADEON_GEM_DOMAIN_GTT" "RADEON_GEM_DOMAIN_VRAM \<noteq> 0" "RADEON_GEM_DOMAIN_GTT \<noteq> 0"
  by (simp_all add: RADEON_GEM_DOMAIN_VRAM_def RADEON_GEM_DOMAIN_GTT_def)

text \<open>What the totals take of a value written or read.\<close>

lemma written:
  assumes "drop_bit 16 w = 0" "w \<noteq> 0"
  shows "pure_acc w" "read_of w n = 0"
  using assms low_high(1) [OF assms(1)] by (simp_all add: pure_acc_def read_of_def)

lemma was_read:
  assumes "drop_bit 16 w = 0" "w \<noteq> 0"
  shows "pure_acc (push_bit 16 w)" "read_of (push_bit 16 w) n = n" "vram_of (push_bit 16 w) n = 0" "gart_of (push_bit 16 w) n = 0"
proof -
  note l = low_high [OF assms(1)]
  show "pure_acc (push_bit 16 w)" "read_of (push_bit 16 w) n = n" using l assms(2) by (simp_all add: pure_acc_def read_of_def)
  have "push_bit 16 w \<noteq> RADEON_GEM_DOMAIN_VRAM" "push_bit 16 w \<noteq> RADEON_GEM_DOMAIN_GTT"
    using l(2) by (auto simp: RADEON_GEM_DOMAIN_VRAM_def RADEON_GEM_DOMAIN_GTT_def)
  then show "vram_of (push_bit 16 w) n = 0" "gart_of (push_bit 16 w) n = 0" by (simp_all add: vram_of_def gart_of_def)
qed

lemma old_read:
  assumes "pure_acc acc" "drop_bit 16 acc AND w \<noteq> 0"
  shows "read_of acc n = n" "vram_of acc n = 0" "gart_of acc n = 0"
proof -
  have "drop_bit 16 acc \<noteq> 0" using assms(2) by auto
  then have l: "acc AND 0xffff = 0" "acc \<noteq> 0" using assms(1) by (auto simp: pure_acc_def)
  then have "acc \<noteq> RADEON_GEM_DOMAIN_VRAM" "acc \<noteq> RADEON_GEM_DOMAIN_GTT"
    by (auto simp: RADEON_GEM_DOMAIN_VRAM_def RADEON_GEM_DOMAIN_GTT_def)
  then show "read_of acc n = n" "vram_of acc n = 0" "gart_of acc n = 0" using l by (simp_all add: vram_of_def gart_of_def read_of_def)
qed

lemma old_write:
  assumes "pure_acc acc" "r AND (acc AND 0xffff) \<noteq> 0"
  shows "acc AND 0xffff = acc"
proof -
  have "acc AND 0xffff \<noteq> 0" using assms(2) by auto
  then have "drop_bit 16 acc = 0" using assms(1) by (simp add: pure_acc_def)
  then show ?thesis by (rule low_high)
qed

text \<open>The result \<open>(acc, z')\<close> of a buffer of size \<open>n\<close> that was accounted for as \<open>old\<close>.\<close>

definition accounts :: "int \<Rightarrow> u32 \<Rightarrow> rad_sizes \<Rightarrow> u32 \<Rightarrow> rad_sizes \<Rightarrow> bool" where
  "accounts n old z acc z' \<longleftrightarrow> acc \<noteq> 0 \<and> pure_acc acc \<and>
      sz_op_vram_write z' = sz_op_vram_write z + vram_of acc n - vram_of old n \<and>
      sz_op_gart_write z' = sz_op_gart_write z + gart_of acc n - gart_of old n \<and>
      sz_op_read z' \<ge> sz_op_read z + read_of acc n - read_of old n"

lemma accounts_same: "old \<noteq> 0 \<Longrightarrow> pure_acc old \<Longrightarrow> accounts n old z old z"
  by (simp add: accounts_def)

lemma setup_bo_new:
  assumes "domain_mask_ok rd wd" "sizes_ok m z" "0 \<le> m" "m + uint n < 2 ^ 31"
    "z' = (if wd \<noteq> 0 then if wd = RADEON_GEM_DOMAIN_VRAM then z\<lparr>sz_op_vram_write := add_size (sz_op_vram_write z) n\<rparr>
          else if wd = RADEON_GEM_DOMAIN_GTT then z\<lparr>sz_op_gart_write := add_size (sz_op_gart_write z) n\<rparr> else z
       else z\<lparr>sz_op_read := add_size (sz_op_read z) n\<rparr>)"
    "acc = (if wd \<noteq> 0 then wd else push_bit 16 rd)"
  shows "accounts (uint n) 0 z acc z' \<and> sizes_ok (m + uint n) z'"
proof -
  have z: "- m \<le> sz_op_read z" "0 \<le> sz_op_gart_write z" "0 \<le> sz_op_vram_write z"
    "max 0 (sz_op_read z) + sz_op_gart_write z \<le> m" "sz_op_vram_write z \<le> m" using assms(2) by (simp_all add: sizes_ok_def)
  have d: "drop_bit 16 rd = 0" "drop_bit 16 wd = 0" "rd \<noteq> 0 \<or> wd \<noteq> 0" using assms(1) by (simp_all add: domain_mask_ok_def)
  obtain k where k: "uint n = k" "0 \<le> k" by simp
  have add: "add_size (sz_op_vram_write z) n = sz_op_vram_write z + k" "add_size (sz_op_gart_write z) n = sz_op_gart_write z + k"
    "add_size (sz_op_read z) n = sz_op_read z + k" unfolding k(1) [symmetric] using z k assms(3,4) by (intro add_size_eq; linarith)+
  have o: "vram_of 0 k = 0" "gart_of 0 k = 0" "read_of 0 k = 0" for k
    by (simp_all add: vram_of_def gart_of_def read_of_def RADEON_GEM_DOMAIN_VRAM_def RADEON_GEM_DOMAIN_GTT_def)
  show ?thesis
  proof (cases "wd = 0")
    case True
    then have rd: "rd \<noteq> 0" using d(3) by simp
    have "push_bit 16 rd \<noteq> 0" using rd low_high(3) [OF d(1)] by simp
    then have "accounts k 0 z acc z'"
      using True was_read [OF d(1) rd] by (simp add: accounts_def assms(5,6) add o)
    moreover have "sizes_ok (m + k) z'" using z k(2) True by (auto simp: sizes_ok_def assms(5) add)
    ultimately show ?thesis unfolding k(1) ..
  next
    case False
    have "accounts k 0 z acc z'"
      using False written [OF d(2) False] domains_ne by (auto simp: accounts_def assms(5,6) add o vram_of_def gart_of_def)
    moreover have "sizes_ok (m + k) z'" using z k(2) False by (auto simp: sizes_ok_def assms(5) add)
    ultimately show ?thesis unfolding k(1) ..
  qed
qed

text \<open>A buffer that was read is written now.\<close>

lemma setup_bo_move:
  assumes "drop_bit 16 wd = 0" "wd \<noteq> 0" "pure_acc old" "drop_bit 16 old AND wd \<noteq> 0" "sizes_ok m z" "0 \<le> m" "m + uint n < 2 ^ 31"
    "z' = (if wd = RADEON_GEM_DOMAIN_VRAM then z\<lparr>sz_op_read := sub_size (sz_op_read z) n, sz_op_vram_write := add_size (sz_op_vram_write z) n\<rparr>
       else if wd = RADEON_GEM_DOMAIN_GTT then z\<lparr>sz_op_read := sub_size (sz_op_read z) n, sz_op_gart_write := add_size (sz_op_gart_write z) n\<rparr>
       else z)"
  shows "accounts (uint n) old z wd z' \<and> sizes_ok (m + uint n) z'"
proof -
  have z: "- m \<le> sz_op_read z" "0 \<le> sz_op_gart_write z" "0 \<le> sz_op_vram_write z"
    "max 0 (sz_op_read z) + sz_op_gart_write z \<le> m" "sz_op_vram_write z \<le> m" using assms(5) by (simp_all add: sizes_ok_def)
  obtain k where k: "uint n = k" "0 \<le> k" by simp
  have add: "add_size (sz_op_vram_write z) n = sz_op_vram_write z + k" "add_size (sz_op_gart_write z) n = sz_op_gart_write z + k"
    unfolding k(1) [symmetric] using z k assms(6,7) by (intro add_size_eq; linarith)+
  have sub: "sub_size (sz_op_read z) n = sz_op_read z - k"
    unfolding k(1) [symmetric] using z k assms(6,7) by (intro sub_size_eq; linarith)
  have "accounts k old z wd z'" using written [OF assms(1,2)] old_read [OF assms(3,4)] domains_ne assms(2) k(2)
    by (auto simp: accounts_def assms(8) add sub vram_of_def gart_of_def)
  moreover have "sizes_ok (m + k) z'" using z k(2) by (auto simp: sizes_ok_def assms(8) add sub)
  ultimately show ?thesis unfolding k(1) ..
qed

lemma sizes_ok_mono: "sizes_ok m z \<Longrightarrow> 0 \<le> k \<Longrightarrow> sizes_ok (m + k) z"
  by (auto simp: sizes_ok_def)

lemma setup_bo_step:
  assumes "rs_bos s (sc_bo sc) = Some b" "\<not> rk_static env (sc_bo sc)" "domain_mask_ok (sc_read_domains sc) (sc_write_domain sc)"
    "pure_acc (rb_space_accounted b)" "sizes_ok m z" "0 \<le> m" "m + uint (rb_size b) < 2 ^ 31"
  shows "\<exists>r acc z'. radeon_cs_setup_bo env sc z s = Some (r, sc\<lparr>sc_new_accounted := acc\<rparr>, z', s) \<and>
    (r \<noteq> 0 \<longrightarrow> r = RADEON_CS_SPACE_FLUSH) \<and>
    (r = 0 \<longrightarrow> accounts (uint (rb_size b)) (rb_space_accounted b) z acc z' \<and> sizes_ok (m + uint (rb_size b)) z')"
proof -
  let ?rd = "sc_read_domains sc" and ?wd = "sc_write_domain sc" and ?acc = "rb_space_accounted b" and ?n = "rb_size b"
  have d: "drop_bit 16 ?wd = 0" using assms(3) by (simp add: domain_mask_ok_def)
  have keep: "accounts (uint ?n) ?acc z ?acc z \<and> sizes_ok (m + uint ?n) z" if "?acc \<noteq> 0"
    using accounts_same [OF that assms(4)] sizes_ok_mono [OF assms(5)] by simp
  note run = radeon_cs_setup_bo_def rbo_get_def Let_def
  consider (same) "?acc \<noteq> 0" "?wd \<noteq> 0 \<and> ?wd = ?acc \<or> ?rd \<noteq> 0 \<and> push_bit 16 ?rd = ?acc"
    | (new) "?acc = 0"
    | (other) "?acc \<noteq> 0" "\<not> (?wd \<noteq> 0 \<and> ?wd = ?acc)" "\<not> (?rd \<noteq> 0 \<and> push_bit 16 ?rd = ?acc)" by blast
  then show ?thesis
  proof cases
    case same
    have "radeon_cs_setup_bo env sc z s = Some (0, sc\<lparr>sc_new_accounted := ?acc\<rparr>, z, s)"
      using same(2) assms(1,2) by (auto simp: run)
    then show ?thesis using keep [OF same(1)] by (intro exI [of _ 0] exI [of _ ?acc] exI [of _ z]) simp
  next
    case new
    let ?z' = "if ?wd \<noteq> 0 then if ?wd = RADEON_GEM_DOMAIN_VRAM then z\<lparr>sz_op_vram_write := add_size (sz_op_vram_write z) ?n\<rparr>
          else if ?wd = RADEON_GEM_DOMAIN_GTT then z\<lparr>sz_op_gart_write := add_size (sz_op_gart_write z) ?n\<rparr> else z
       else z\<lparr>sz_op_read := add_size (sz_op_read z) ?n\<rparr>"
    let ?a = "if ?wd \<noteq> 0 then ?wd else push_bit 16 ?rd"
    have "push_bit 16 ?rd = 0 \<longleftrightarrow> ?rd = 0" using assms(3) by (intro low_high) (simp add: domain_mask_ok_def)
    then have "radeon_cs_setup_bo env sc z s = Some (0, sc\<lparr>sc_new_accounted := ?a\<rparr>, ?z', s)"
      using new assms(1,2) by (simp add: run)
    moreover have "accounts (uint ?n) 0 z ?a ?z' \<and> sizes_ok (m + uint ?n) ?z'"
      using setup_bo_new [OF assms(3,5-7) refl refl] .
    ultimately show ?thesis using new by (intro exI [of _ 0] exI [of _ ?a] exI [of _ ?z']) (simp only: simp_thms)
  next
    case other
    let ?z' = "if ?wd = RADEON_GEM_DOMAIN_VRAM then z\<lparr>sz_op_read := sub_size (sz_op_read z) ?n, sz_op_vram_write := add_size (sz_op_vram_write z) ?n\<rparr>
       else if ?wd = RADEON_GEM_DOMAIN_GTT then z\<lparr>sz_op_read := sub_size (sz_op_read z) ?n, sz_op_gart_write := add_size (sz_op_gart_write z) ?n\<rparr>
       else z"
    consider (move) "?wd \<noteq> 0" "drop_bit 16 ?acc AND ?wd \<noteq> 0"
      | (written) "\<not> (?wd \<noteq> 0 \<and> drop_bit 16 ?acc AND ?wd \<noteq> 0)" "?rd AND (?acc AND 0xffff) \<noteq> 0"
      | (flush) "\<not> (?wd \<noteq> 0 \<and> drop_bit 16 ?acc AND ?wd \<noteq> 0)" "?rd AND (?acc AND 0xffff) = 0" by blast
    then show ?thesis
    proof cases
      case move
      have "radeon_cs_setup_bo env sc z s = Some (0, sc\<lparr>sc_new_accounted := ?wd\<rparr>, ?z', s)"
        using other(1) move assms(2) unfolding run assms(1) bind.bind_lunit if_not_P [OF other(2)] if_not_P [OF other(3)] by simp
      then show ?thesis using setup_bo_move [OF d move(1) assms(4) move(2) assms(5-7) refl]
        by (intro exI [of _ 0] exI [of _ ?wd] exI [of _ ?z']) (simp only: simp_thms)
    next
      case written
      have "radeon_cs_setup_bo env sc z s = Some (0, sc\<lparr>sc_new_accounted := ?acc\<rparr>, z, s)"
        using other written old_write [OF assms(4) written(2)] assms(1,2) unfolding run by auto
      then show ?thesis using keep [OF other(1)] by (intro exI [of _ 0] exI [of _ ?acc] exI [of _ z]) simp
    next
      case flush
      have "radeon_cs_setup_bo env sc z s = Some (RADEON_CS_SPACE_FLUSH, sc\<lparr>sc_new_accounted := 0\<rparr>, z, s)"
        using other flush assms(1,2) unfolding run by auto
      then show ?thesis by (intro exI [of _ RADEON_CS_SPACE_FLUSH] exI [of _ 0] exI [of _ z]) (simp add: RADEON_CS_SPACE_FLUSH_def)
    qed
  qed
qed

section \<open>All buffers of a check\<close>

text \<open>What the checks \<open>scs\<close> change of a total when their values are committed.\<close>

definition change :: "(u32 \<Rightarrow> int \<Rightarrow> int) \<Rightarrow> radeon_cs_space_check list \<Rightarrow> radeon_state \<Rightarrow> int" where
  "change c scs s = (\<Sum>sc \<leftarrow> scs. c (sc_new_accounted sc) (size_of s (sc_bo sc)) - c (acc_of s (sc_bo sc)) (size_of s (sc_bo sc)))"

definition all_account :: "radeon_state \<Rightarrow> rad_sizes \<Rightarrow> radeon_cs_space_check list \<Rightarrow> rad_sizes \<Rightarrow> bool" where
  "all_account s z scs z' \<longleftrightarrow> (\<forall>sc \<in> set scs. sc_new_accounted sc \<noteq> 0 \<and> pure_acc (sc_new_accounted sc)) \<and>
     sz_op_vram_write z' = sz_op_vram_write z + change vram_of scs s \<and>
     sz_op_gart_write z' = sz_op_gart_write z + change gart_of scs s \<and>
     sz_op_read z' \<ge> sz_op_read z + change read_of scs s"

lemma size_of_nonneg: "0 \<le> size_of s a"
  by (simp add: size_of_def split: option.splits)

lemma sum_sizes_nonneg: "0 \<le> (\<Sum>sc \<leftarrow> scs. size_of s (sc_bo sc))"
  by (induction scs) (simp_all add: size_of_nonneg)

definition check_ok :: "radeon_env \<Rightarrow> radeon_state \<Rightarrow> radeon_cs_space_check \<Rightarrow> bool" where
  "check_ok env s sc \<longleftrightarrow> \<not> rk_static env (sc_bo sc) \<and> domain_mask_ok (sc_read_domains sc) (sc_write_domain sc) \<and>
     rs_bos s (sc_bo sc) \<noteq> None \<and> pure_acc (acc_of s (sc_bo sc))"

text \<open>A check never changes which use of which buffer it is about.\<close>

definition sc_key :: "radeon_cs_space_check \<Rightarrow> addr \<times> u32 \<times> u32" where
  "sc_key sc = (sc_bo sc, sc_read_domains sc, sc_write_domain sc)"

lemma sc_key_new [simp]: "sc_key (sc\<lparr>sc_new_accounted := x\<rparr>) = sc_key sc"
  by (simp add: sc_key_def)

lemma sc_key_bos: "map sc_key xs = map sc_key ys \<Longrightarrow> map sc_bo xs = map sc_bo ys"
  by (drule arg_cong [of _ _ "map fst"]) (simp add: sc_key_def comp_def)

lemma setup_bos_ok:
  assumes "\<forall>sc \<in> set scs. check_ok env s sc" "sizes_ok m z" "0 \<le> m" "m + (\<Sum>sc \<leftarrow> scs. size_of s (sc_bo sc)) < 2 ^ 31"
  shows "\<exists>r scs' z'. setup_bos env scs z s = Some (r, scs', z', s) \<and> map sc_key scs' = map sc_key scs \<and>
    (r \<noteq> 0 \<longrightarrow> r = RADEON_CS_SPACE_FLUSH) \<and>
    (r = 0 \<longrightarrow> all_account s z scs' z' \<and> sizes_ok (m + (\<Sum>sc \<leftarrow> scs. size_of s (sc_bo sc))) z')"
  using assms
proof (induction scs arbitrary: z m)
  case Nil
  then show ?case by (intro exI [of _ 0] exI [of _ "[]"] exI [of _ z]) (simp add: all_account_def change_def)
next
  case (Cons sc scs)
  have c: "check_ok env s sc" using Cons.prems(1) by simp
  then obtain b where b: "rs_bos s (sc_bo sc) = Some b" by (auto simp: check_ok_def)
  have n: "size_of s (sc_bo sc) = uint (rb_size b)" "acc_of s (sc_bo sc) = rb_space_accounted b" by (simp_all add: size_of_def acc_of_def b)
  have lt: "m + uint (rb_size b) + (\<Sum>sc \<leftarrow> scs. size_of s (sc_bo sc)) < 2 ^ 31" using Cons.prems(4) n(1) by simp
  then have "m + uint (rb_size b) < 2 ^ 31" using sum_sizes_nonneg [of s scs] by linarith
  with setup_bo_step [OF b _ _ _ Cons.prems(2,3), of env] c n(2) obtain r acc z1 where
    one: "radeon_cs_setup_bo env sc z s = Some (r, sc\<lparr>sc_new_accounted := acc\<rparr>, z1, s)" "r \<noteq> 0 \<longrightarrow> r = RADEON_CS_SPACE_FLUSH"
    "r = 0 \<longrightarrow> accounts (uint (rb_size b)) (rb_space_accounted b) z acc z1 \<and> sizes_ok (m + uint (rb_size b)) z1"
    by (auto simp: check_ok_def)
  show ?case
  proof (cases "r = 0")
    case False
    then show ?thesis using one(1,2) by simp
  next
    case True
    then have acc: "accounts (uint (rb_size b)) (rb_space_accounted b) z acc z1" and ok: "sizes_ok (m + uint (rb_size b)) z1"
      using one(3) by simp_all
    have "0 \<le> m + uint (rb_size b)" using Cons.prems(3) by simp
    from Cons.IH [OF _ ok this lt] Cons.prems(1) obtain r' scs' z' where
      rest: "setup_bos env scs z1 s = Some (r', scs', z', s)" "map sc_key scs' = map sc_key scs" "r' \<noteq> 0 \<longrightarrow> r' = RADEON_CS_SPACE_FLUSH"
      "r' = 0 \<longrightarrow> all_account s z1 scs' z' \<and> sizes_ok (m + uint (rb_size b) + (\<Sum>sc \<leftarrow> scs. size_of s (sc_bo sc))) z'" by auto
    let ?scs = "sc\<lparr>sc_new_accounted := acc\<rparr> # scs'"
    have "setup_bos env (sc # scs) z s = Some (r', ?scs, z', s)" using one(1) True rest(1) by simp
    moreover have "all_account s z ?scs z'" if "all_account s z1 scs' z'"
      using that acc by (auto simp: all_account_def accounts_def change_def n)
    ultimately show ?thesis using rest(2-4) by (intro exI [of _ r'] exI [of _ ?scs] exI [of _ z']) (simp add: n add.assoc)
  qed
qed

text \<open>The values of a check are stored in its buffers.\<close>

lemma total_update:
  assumes "finite (dom (rs_bos s))" "rs_bos s a = Some b"
  shows "acc_total c (s\<lparr>rs_bos := (rs_bos s)(a \<mapsto> b\<lparr>rb_space_accounted := x\<rparr>)\<rparr>) =
    acc_total c s + c x (uint (rb_size b)) - c (rb_space_accounted b) (uint (rb_size b))"
proof -
  let ?s = "s\<lparr>rs_bos := (rs_bos s)(a \<mapsto> b\<lparr>rb_space_accounted := x\<rparr>)\<rparr>"
  let ?f = "\<lambda>s a. case rs_bos s a of None \<Rightarrow> 0 | Some b \<Rightarrow> c (rb_space_accounted b) (uint (rb_size b))"
  have a: "a \<in> dom (rs_bos s)" using assms(2) by auto
  have "dom (rs_bos ?s) = dom (rs_bos s)" using assms(2) by auto
  then have "acc_total c ?s = sum (?f ?s) (dom (rs_bos s))" unfolding acc_total_def by (simp only:)
  also have "\<dots> = ?f ?s a + sum (?f ?s) (dom (rs_bos s) - {a})" by (rule sum.remove [OF assms(1) a])
  also have "sum (?f ?s) (dom (rs_bos s) - {a}) = sum (?f s) (dom (rs_bos s) - {a})" by (intro sum.cong) auto
  also have "\<dots> = acc_total c s - ?f s a" unfolding acc_total_def sum.remove [OF assms(1) a, of "?f s"] by simp
  finally have "acc_total c ?s = ?f ?s a + (acc_total c s - ?f s a)" .
  moreover have "?f ?s a = c x (uint (rb_size b))" "?f s a = c (rb_space_accounted b) (uint (rb_size b))" using assms(2) by simp_all
  ultimately show ?thesis by linarith
qed

lemma commit_bos_ok:
  assumes "finite (dom (rs_bos s))" "distinct (map sc_bo scs)" "\<forall>sc \<in> set scs. rs_bos s (sc_bo sc) \<noteq> None"
  shows "\<exists>h. commit_bos scs s = Some (s\<lparr>rs_bos := h\<rparr>) \<and> dom h = dom (rs_bos s) \<and>
    (\<forall>c. acc_total c (s\<lparr>rs_bos := h\<rparr>) = acc_total c s + change c scs s) \<and>
    (\<forall>sc \<in> set scs. acc_of (s\<lparr>rs_bos := h\<rparr>) (sc_bo sc) = sc_new_accounted sc) \<and>
    (\<forall>a. a \<notin> sc_bo ` set scs \<longrightarrow> h a = rs_bos s a)"
  using assms
proof (induction scs arbitrary: s)
  case Nil
  then show ?case by (intro exI [of _ "rs_bos s"]) (simp add: change_def)
next
  case (Cons sc scs)
  obtain b where b: "rs_bos s (sc_bo sc) = Some b" using Cons.prems(3) by auto
  let ?s = "s\<lparr>rs_bos := (rs_bos s)(sc_bo sc \<mapsto> b\<lparr>rb_space_accounted := sc_new_accounted sc\<rparr>)\<rparr>"
  have dom: "dom (rs_bos ?s) = dom (rs_bos s)" using b by auto
  have fresh: "sc_bo sc \<notin> sc_bo ` set scs" using Cons.prems(2) by simp
  have "finite (dom (rs_bos ?s))" "distinct (map sc_bo scs)" unfolding dom using Cons.prems(1,2) by simp_all
  moreover have "\<forall>sc \<in> set scs. rs_bos ?s (sc_bo sc) \<noteq> None" using Cons.prems(3) by auto
  ultimately obtain h where h: "commit_bos scs ?s = Some (?s\<lparr>rs_bos := h\<rparr>)" "dom h = dom (rs_bos ?s)"
    "\<forall>c. acc_total c (?s\<lparr>rs_bos := h\<rparr>) = acc_total c ?s + change c scs ?s"
    "\<forall>sc \<in> set scs. acc_of (?s\<lparr>rs_bos := h\<rparr>) (sc_bo sc) = sc_new_accounted sc"
    "\<forall>a. a \<notin> sc_bo ` set scs \<longrightarrow> h a = rs_bos ?s a" using Cons.IH [of ?s] by blast
  have run: "commit_bos (sc # scs) s = Some (s\<lparr>rs_bos := h\<rparr>)" using h(1) by (simp add: rbo_put_eq [OF b])
  have "rs_bos ?s (sc_bo x) = rs_bos s (sc_bo x)" if "x \<in> set scs" for x
    using that fresh imageI [OF that, of sc_bo] by (cases "sc_bo x = sc_bo sc") simp_all
  then have "change c scs ?s = change c scs s" for c
    unfolding change_def by (intro arg_cong [of _ _ sum_list] map_cong refl) (simp add: size_of_def acc_of_def)
  then have tot: "acc_total c (s\<lparr>rs_bos := h\<rparr>) = acc_total c s + change c (sc # scs) s" for c
    using h(3) [rule_format, of c] total_update [OF Cons.prems(1) b, of c "sc_new_accounted sc"]
    by (simp add: change_def size_of_def acc_of_def b)
  have "acc_of (s\<lparr>rs_bos := h\<rparr>) (sc_bo sc) = sc_new_accounted sc" using h(5) fresh by (simp add: acc_of_def)
  then show ?case using run h(2,4,5) dom tot by (intro exI [of _ h]) auto
qed

section \<open>The check\<close>

text \<open>The sums of the check when every buffer could be accounted for.\<close>

definition admit :: "int \<Rightarrow> rad_sizes \<Rightarrow> radeon_state \<Rightarrow> int" where
  "admit rd z s =
    (if rd + sz_op_gart_write z > rs_gart_limit s \<or> sz_op_vram_write z > rs_vram_limit s then RADEON_CS_SPACE_OP_TO_BIG
     else if rs_vram_write_used s + sz_op_vram_write z > rs_vram_limit s \<or>
       rs_read_used s + rs_gart_write_used s + sz_op_gart_write z + rd > rs_gart_limit s then RADEON_CS_SPACE_FLUSH
     else RADEON_CS_SPACE_OK)"

lemmas space_codes = RADEON_CS_SPACE_OK_def RADEON_CS_SPACE_OP_TO_BIG_def RADEON_CS_SPACE_FLUSH_def

lemma admit_ok:
  assumes "admit rd z s = RADEON_CS_SPACE_OK"
  shows "rs_vram_write_used s + sz_op_vram_write z \<le> rs_vram_limit s"
    "rs_read_used s + rs_gart_write_used s + sz_op_gart_write z + rd \<le> rs_gart_limit s"
  using assms by (auto simp: admit_def space_codes split: if_splits)

definition charge :: "int \<Rightarrow> rad_sizes \<Rightarrow> radeon_state \<Rightarrow> radeon_state" where
  "charge rd z s = s\<lparr>rs_gart_write_used := rs_gart_write_used s + sz_op_gart_write z,
     rs_vram_write_used := rs_vram_write_used s + sz_op_vram_write z, rs_read_used := rs_read_used s + rd\<rparr>"

lemma do_space_check_eq:
  assumes "space_ok s" "cs_bos cs @ tmp \<noteq> []" "n < 2 ^ 31" "sizes_ok n z" "rd = max 0 (sz_op_read z)"
    "setup_bos env (cs_bos cs @ tmp) \<lparr>sz_op_read = 0, sz_op_gart_write = 0, sz_op_vram_write = 0\<rparr> s = Some (0, scs, z, s)"
  shows "radeon_cs_do_space_check env tmp cs s =
    (if admit rd z s \<noteq> RADEON_CS_SPACE_OK then Some (admit rd z s, cs\<lparr>cs_bos := take (length (cs_bos cs)) scs\<rparr>, s)
     else commit_bos scs (charge rd z s) \<bind> (\<lambda>s'. Some (RADEON_CS_SPACE_OK, cs\<lparr>cs_bos := take (length (cs_bos cs)) scs\<rparr>, s')))"
proof -
  have u: "0 \<le> rs_vram_write_used s" "0 \<le> rs_gart_write_used s" "0 \<le> rs_read_used s" "rs_vram_write_used s \<le> rs_vram_limit s"
    "rs_read_used s + rs_gart_write_used s \<le> rs_gart_limit s" "rs_vram_limit s < 2 ^ 30" "rs_gart_limit s < 2 ^ 30"
    using assms(1) by (simp_all add: space_ok_def)
  have z: "0 \<le> rd" "0 \<le> sz_op_gart_write z" "0 \<le> sz_op_vram_write z" "rd + sz_op_gart_write z \<le> n" "sz_op_vram_write z \<le> n"
    using assms(4,5) by (simp_all add: sizes_ok_def)
  have op: "s32 (rd + sz_op_gart_write z) = Some (rd + sz_op_gart_write z)" using z assms(3) by (intro s32_in) (simp add: in_s32_def)
  have ne: "\<not> (cs_bos cs = [] \<and> tmp = [])" using assms(2) by simp
  note run = radeon_cs_do_space_check_def if_not_P [OF ne] assms(6) bind.bind_lunit Let_def prod.case assms(5) [symmetric] op
  show ?thesis
  proof (cases "rd + sz_op_gart_write z > rs_gart_limit s \<or> sz_op_vram_write z > rs_vram_limit s")
    case True
    then have "admit rd z s = RADEON_CS_SPACE_OP_TO_BIG" by (simp add: admit_def)
    then show ?thesis unfolding run if_P [OF True] by (simp add: space_codes)
  next
    case False
    then have lim: "rd + sz_op_gart_write z \<le> rs_gart_limit s" "sz_op_vram_write z \<le> rs_vram_limit s" by simp_all
    have sums: "s32 (rs_vram_write_used s + sz_op_vram_write z) = Some (rs_vram_write_used s + sz_op_vram_write z)"
      "s32 (rs_read_used s + rs_gart_write_used s) = Some (rs_read_used s + rs_gart_write_used s)"
      "s32 (rs_read_used s + rs_gart_write_used s + sz_op_gart_write z) = Some (rs_read_used s + rs_gart_write_used s + sz_op_gart_write z)"
      "s32 (rs_read_used s + rs_gart_write_used s + sz_op_gart_write z + rd) =
        Some (rs_read_used s + rs_gart_write_used s + sz_op_gart_write z + rd)"
      "s32 (rs_gart_write_used s + sz_op_gart_write z) = Some (rs_gart_write_used s + sz_op_gart_write z)"
      "s32 (rs_read_used s + rd) = Some (rs_read_used s + rd)"
      using u z lim by (intro s32_in; simp add: in_s32_def)+
    show ?thesis unfolding run if_not_P [OF False] sums using False
      by (simp add: admit_def charge_def space_codes)
  qed
qed

lemma charge_bos [simp]: "rs_bos (charge rd z s) = rs_bos s"
  by (simp add: charge_def)

lemma acc_total_charge [simp]: "acc_total c (charge rd z s) = acc_total c s"
  by (simp add: acc_total_def)

lemma change_charge [simp]: "change c scs (charge rd z s) = change c scs s"
  by (simp add: change_def size_of_def acc_of_def)

lemma space_check_ok:
  assumes "space_ok s" "checks_ok env (cs_bos cs @ tmp) s"
  shows "\<exists>r cs' s'. radeon_cs_do_space_check env tmp cs s = Some (r, cs', s') \<and> space_ok s' \<and>
    r \<in> {RADEON_CS_SPACE_OK, RADEON_CS_SPACE_OP_TO_BIG, RADEON_CS_SPACE_FLUSH} \<and>
    map sc_key (cs_bos cs') = map sc_key (cs_bos cs) \<and> (r \<noteq> RADEON_CS_SPACE_OK \<longrightarrow> s' = s) \<and>
    (r = RADEON_CS_SPACE_OK \<longrightarrow> (\<forall>sc \<in> set (cs_bos cs @ tmp). acc_of s' (sc_bo sc) \<noteq> 0))"
proof (cases "cs_bos cs @ tmp = []")
  case True
  then show ?thesis using assms(1) by (simp add: radeon_cs_do_space_check_def space_codes)
next
  case False
  let ?scs = "cs_bos cs @ tmp" and ?z = "\<lparr>sz_op_read = 0, sz_op_gart_write = 0, sz_op_vram_write = 0\<rparr>"
  let ?n = "\<Sum>sc \<leftarrow> ?scs. size_of s (sc_bo sc)"
  have n: "?n < 2 ^ 31" and dis: "distinct (map sc_bo ?scs)" using assms(2) unfolding checks_ok_def by blast+
  have each: "check_ok env s sc" if "sc \<in> set ?scs" for sc
    using that assms unfolding checks_ok_def space_ok_def check_ok_def acc_of_def by (auto simp: pure_acc_def split: option.splits)
  then obtain r scs z where st: "setup_bos env ?scs ?z s = Some (r, scs, z, s)" "map sc_key scs = map sc_key ?scs"
    "r \<noteq> 0 \<longrightarrow> r = RADEON_CS_SPACE_FLUSH" "r = 0 \<longrightarrow> all_account s ?z scs z \<and> sizes_ok ?n z"
    using setup_bos_ok [of ?scs env s 0 ?z] n by (auto simp: sizes_ok_def)
  note bos = sc_key_bos [OF st(2)]
  have key: "map sc_key (take (length (cs_bos cs)) scs) = map sc_key (cs_bos cs)" unfolding take_map [symmetric] st(2) by simp
  show ?thesis
  proof (cases "r = 0")
    case False
    then show ?thesis using st(1,3) assms(1) key \<open>?scs \<noteq> []\<close> by (auto simp: radeon_cs_do_space_check_def Let_def space_codes)
  next
    case True
    let ?rd = "max 0 (sz_op_read z)" and ?cs = "cs\<lparr>cs_bos := take (length (cs_bos cs)) scs\<rparr>"
    have acc: "all_account s ?z scs z" and ok: "sizes_ok ?n z" using True st(4) by simp_all
    note eq = do_space_check_eq [OF assms(1) False n ok refl st(1) [unfolded True]]
    show ?thesis
    proof (cases "admit ?rd z s = RADEON_CS_SPACE_OK")
      case False
      then show ?thesis using eq assms(1) key by (auto simp: admit_def)
    next
      case True
      have lim: "rs_vram_write_used s + sz_op_vram_write z \<le> rs_vram_limit s"
        "rs_read_used s + rs_gart_write_used s + sz_op_gart_write z + ?rd \<le> rs_gart_limit s" using admit_ok [OF True] .
      have sp: "finite (dom (rs_bos s))" "\<forall>a b. rs_bos s a = Some b \<longrightarrow> pure_acc (rb_space_accounted b)"
        using assms(1) by (simp_all add: space_ok_def)
      have "set (map sc_bo scs) = set (map sc_bo ?scs)" using bos by simp
      then have dom: "\<forall>sc \<in> set scs. rs_bos (charge ?rd z s) (sc_bo sc) \<noteq> None"
        using each by (force simp: check_ok_def charge_def)
      obtain h where h: "commit_bos scs (charge ?rd z s) = Some ((charge ?rd z s)\<lparr>rs_bos := h\<rparr>)"
        "dom h = dom (rs_bos s)" "\<forall>c. acc_total c ((charge ?rd z s)\<lparr>rs_bos := h\<rparr>) = acc_total c s + change c scs s"
        "\<forall>sc \<in> set scs. acc_of ((charge ?rd z s)\<lparr>rs_bos := h\<rparr>) (sc_bo sc) = sc_new_accounted sc"
        "\<forall>a. a \<notin> sc_bo ` set scs \<longrightarrow> h a = rs_bos s a"
        using commit_bos_ok [of "charge ?rd z s" scs] sp(1) dis bos dom by auto
      let ?s = "(charge ?rd z s)\<lparr>rs_bos := h\<rparr>"
      have new: "sc_new_accounted sc \<noteq> 0" "pure_acc (sc_new_accounted sc)" if "sc \<in> set scs" for sc
        using acc that by (simp_all add: all_account_def)
      have "pure_acc (rb_space_accounted b)" if b: "h a = Some b" for a b
      proof (cases "a \<in> sc_bo ` set scs")
        case True
        then obtain sc where "sc \<in> set scs" "a = sc_bo sc" by blast
        then show ?thesis using h(4) new(2) b by (force simp: acc_of_def)
      qed (use b h(5) sp(2) in simp)
      moreover have "acc_total vram_of ?s = acc_total vram_of s + sz_op_vram_write z"
        "acc_total gart_of ?s = acc_total gart_of s + sz_op_gart_write z" "acc_total read_of ?s \<le> acc_total read_of s + ?rd"
        using h(3) acc by (auto simp: all_account_def)
      moreover have "0 \<le> sz_op_gart_write z" "0 \<le> sz_op_vram_write z" using ok by (simp_all add: sizes_ok_def)
      ultimately have "space_ok ?s" using assms(1) lim h(2) unfolding space_ok_def charge_def by (simp add: add.assoc)
      moreover have "acc_of ?s (sc_bo sc) \<noteq> 0" if "sc \<in> set ?scs" for sc
      proof -
        have "sc_bo sc \<in> set (map sc_bo scs)" unfolding bos set_map using that by (rule imageI)
        then show ?thesis using h(4) new(1) by auto
      qed
      ultimately show ?thesis using eq True h(1) key by (intro exI [of _ RADEON_CS_SPACE_OK] exI [of _ ?cs] exI [of _ ?s]) simp
    qed
  qed
qed

lemma checks_ok_key:
  assumes "map sc_key xs = map sc_key ys" "checks_ok env (ys @ zs) s"
  shows "checks_ok env (xs @ zs) s"
proof -
  have bos: "map sc_bo xs = map sc_bo ys" by (rule sc_key_bos [OF assms(1)])
  have "\<not> rk_static env (sc_bo x) \<and> rs_bos s (sc_bo x) \<noteq> None \<and> domain_mask_ok (sc_read_domains x) (sc_write_domain x)"
    if x: "x \<in> set xs" for x
  proof -
    have "sc_key x \<in> set (map sc_key ys)" unfolding assms(1) [symmetric] using x by simp
    then obtain y where "y \<in> set ys" "sc_key x = sc_key y" by auto
    then show ?thesis using assms(2) by (auto simp: checks_ok_def sc_key_def)
  qed
  moreover have "(\<Sum>x \<leftarrow> xs. size_of s (sc_bo x)) = (\<Sum>y \<leftarrow> ys. size_of s (sc_bo y))"
    using arg_cong [OF bos, of "\<lambda>l. sum_list (map (size_of s) l)"] by (simp add: comp_def)
  moreover have "sc_bo ` set xs = sc_bo ` set ys" using arg_cong [OF bos, of set] by simp
  ultimately show ?thesis using assms(2) bos by (auto simp: checks_ok_def)
qed

text \<open>What the driver's flush has to leave behind for the second attempt.\<close>

definition flush_ok ::
  "radeon_env \<Rightarrow> radeon_cs_space_check list \<Rightarrow> (radeon_cs \<Rightarrow> radeon_state \<Rightarrow> (radeon_cs \<times> radeon_state) option) \<Rightarrow> bool" where
  "flush_ok env tmp flush \<longleftrightarrow> (\<forall>cs s. space_ok s \<longrightarrow> checks_ok env (cs_bos cs @ tmp) s \<longrightarrow>
     (\<exists>cs' s'. flush cs s = Some (cs', s') \<and> space_ok s' \<and> checks_ok env (cs_bos cs' @ tmp) s'))"

definition round_ok :: "radeon_cs_space_check list \<Rightarrow> (int \<times> radeon_cs \<times> radeon_state) option \<Rightarrow> bool" where
  "round_ok tmp res \<longleftrightarrow> (\<exists>r cs' s'. res = Some (r, cs', s') \<and> space_ok s' \<and> (r = 0 \<or> r = -1) \<and>
     (r = 0 \<longrightarrow> (\<forall>sc \<in> set (cs_bos cs' @ tmp). acc_of s' (sc_bo sc) \<noteq> 0)))"

lemma check_round:
  assumes "space_ok s" "checks_ok env (cs_bos cs @ tmp) s" "flush_ok env tmp flush"
    "\<And>cs s. space_ok s \<Longrightarrow> checks_ok env (cs_bos cs @ tmp) s \<Longrightarrow> round_ok tmp (again cs s)"
  shows "round_ok tmp (check_space_round env flush tmp again cs s)"
proof -
  from space_check_ok [OF assms(1,2)] obtain r cs1 s1 where c: "radeon_cs_do_space_check env tmp cs s = Some (r, cs1, s1)" "space_ok s1"
    "r \<in> {RADEON_CS_SPACE_OK, RADEON_CS_SPACE_OP_TO_BIG, RADEON_CS_SPACE_FLUSH}"
    "map sc_key (cs_bos cs1) = map sc_key (cs_bos cs)" "r \<noteq> RADEON_CS_SPACE_OK \<longrightarrow> s1 = s"
    "r = RADEON_CS_SPACE_OK \<longrightarrow> (\<forall>sc \<in> set (cs_bos cs @ tmp). acc_of s1 (sc_bo sc) \<noteq> 0)" by blast
  have img: "sc_bo ` set (cs_bos cs1) = sc_bo ` set (cs_bos cs)" using arg_cong [OF sc_key_bos [OF c(4)], of set] by simp
  have ok1: "checks_ok env (cs_bos cs1 @ tmp) s" by (rule checks_ok_key [OF c(4) assms(2)])
  consider "r = RADEON_CS_SPACE_OK" | "r = RADEON_CS_SPACE_OP_TO_BIG" | "r = RADEON_CS_SPACE_FLUSH" using c(3) by blast
  then show ?thesis
  proof cases
    case 1
    then have "acc_of s1 (sc_bo sc) \<noteq> 0" if "sc \<in> set (cs_bos cs1 @ tmp)" for sc
      using that c(6) imageI [of sc "set (cs_bos cs1)" sc_bo] unfolding img by auto
    then show ?thesis using 1 c(1,2) by (simp add: check_space_round_def round_ok_def space_codes)
  next
    case 2
    then show ?thesis using c(1,2) by (simp add: check_space_round_def round_ok_def space_codes)
  next
    case 3
    then have "s1 = s" using c(5) by (simp add: space_codes)
    then obtain cs2 s2 where "flush cs1 s1 = Some (cs2, s2)" "space_ok s2" "checks_ok env (cs_bos cs2 @ tmp) s2"
      using assms(3) c(2) ok1 unfolding flush_ok_def by blast
    then show ?thesis using 3 c(1) assms(4) by (simp add: check_space_round_def space_codes)
  qed
qed

lemma check_internal:
  assumes "space_ok s" "checks_ok env (cs_bos cs @ tmp) s" "flush_ok env tmp flush"
  shows "round_ok tmp (radeon_cs_check_space_internal env flush tmp cs s)"
  unfolding radeon_cs_check_space_internal_def
  by (intro check_round assms) (auto simp: round_ok_def)

section \<open>An example\<close>

text \<open>One buffer, whose memory is accounted for as written in VRAM, and requests that are always granted.\<close>

definition ex_env :: radeon_env where
  "ex_env = \<lparr>rk_calloc = \<lambda>_ _. None, rk_realloc = \<lambda>_. True, rk_open = \<lambda>_ _. (0, 0, 0), rk_create = \<lambda>_ _ _ _. (0, 0),
     rk_mmap = \<lambda>_ _ _. (0, 0), rk_wait_idle = \<lambda>_ _. 0, rk_flink = \<lambda>_ _. (0, 0), rk_fd_to_handle = \<lambda>_ _. (0, 0),
     rk_cs = \<lambda>_ _ _. 0, rk_static = \<lambda>_. False\<rparr>"

definition ex_bo :: radeon_bo_gem where
  "ex_bo = rbo_zero\<lparr>rb_handle := 7, rb_size := 4096, rb_cref := 1, rb_space_accounted := 4\<rparr>"

definition ex_state :: radeon_state where
  "ex_state = \<lparr>rs_bos = [16 \<mapsto> ex_bo], rs_clock = 0, rs_vram_limit = 0x1000000, rs_gart_limit = 0x1000000,
     rs_vram_write_used = 4096, rs_gart_write_used = 0, rs_read_used = 0, rs_id_source = 1\<rparr>"

text \<open>Another buffer that is not accounted for.\<close>

definition ex_two :: radeon_state where
  "ex_two = ex_state\<lparr>rs_bos := [16 \<mapsto> ex_bo, 32 \<mapsto> ex_bo\<lparr>rb_handle := 9, rb_size := 8192, rb_space_accounted := 0\<rparr>]\<rparr>"

definition ex_checks :: radeon_cs where
  "ex_checks = \<lparr>cs_packets = [], cs_ndw = 64 * 1024 div 4, cs_room = 64 * 1024 div 4, cs_section_ndw = 0,
     cs_section_cdw = 0, cs_relocs = [], cs_relocs_bo = [], cs_nrelocs = 256, cs_relocs_total_size = 0,
     cs_bos = [\<lparr>sc_bo = 16, sc_read_domains = 0, sc_write_domain = 4, sc_new_accounted = 0\<rparr>],
     cs_id = 2, cs_length0 = 0, cs_length1 = 0\<rparr>"

lemma ex_space_ok: "space_ok ex_two"
proof -
  have "dom [16 \<mapsto> x, 32 \<mapsto> y] = {16 :: nat, 32}" for x y :: radeon_bo_gem by auto
  then show ?thesis
    by (simp add: space_ok_def ex_two_def ex_state_def ex_bo_def rbo_zero_def acc_total_def vram_of_def gart_of_def read_of_def
        RADEON_GEM_DOMAIN_VRAM_def RADEON_GEM_DOMAIN_GTT_def pure_acc_def)
qed



end
