(* ===== verification/Radeon_Stream.thy ===== *)
theory Radeon_Stream
  imports Radeon_Relocs Radeon_Space
begin

text \<open>
  The life of a command stream: what a driver does with it between its creation and its end, and what holds
  all along.
\<close>

section \<open>Creation\<close>

text \<open>The buffers others hold, none of them in this stream.\<close>

definition bos_ok :: "(addr \<Rightarrow> nat) \<Rightarrow> radeon_state \<Rightarrow> bool" where
  "bos_ok base s \<longleftrightarrow> rs_bos s NULL = None \<and>
     (\<forall>a b a' b'. rs_bos s a = Some b \<longrightarrow> rs_bos s a' = Some b' \<longrightarrow> rb_handle b = rb_handle b' \<longrightarrow> a = a') \<and>
     (\<forall>a b. rs_bos s a = Some b \<longrightarrow> unat (rb_cref b) = base a \<and> 0 < base a \<and> base a < 2 ^ 31 \<and>
        rb_reloc_in_cs b AND NOT (rs_id_source s) = 0)"

definition marks :: "radeon_state \<Rightarrow> addr \<Rightarrow> u32" where
  "marks s a = (case rs_bos s a of None \<Rightarrow> 0 | Some b \<Rightarrow> rb_reloc_in_cs b)"

lemma create_inv:
  assumes "bos_ok base s" "rs_id_source s \<noteq> NOT 0" "cs_gem_create env ndw s = Some (Some cs, s')"
  shows "reloc_inv base (marks s) cs s' \<and> room_ok cs \<and> cs_section_ndw cs = 0"
proof -
  let ?t = "rtick (rtick s)"
  have src: "rs_id_source ?t = rs_id_source s" by (simp add: rtick_def)
  then have "rs_id_source ?t \<noteq> NOT 0" using assms(2) by simp
  from generate_id_fresh [OF this] obtain i where i: "i < 32" "\<not> bit (rs_id_source s) i"
    "generate_id ?t = Some (push_bit i 1, ?t\<lparr>rs_id_source := rs_id_source s OR push_bit i 1\<rparr>)" unfolding src by blast
  then have cs: "cs_id cs = push_bit i 1" "rs_bos s' = rs_bos s" "cs_relocs cs = []" "cs_relocs_bo cs = []"
    "cs_packets cs = []" "cs_room cs = 16384" "cs_ndw cs = 16384" "cs_section_ndw cs = 0"
    using assms(3) by (auto simp: cs_gem_create_def Let_def split: if_splits)
  have nz: "push_bit i 1 \<noteq> (0 :: u32)" using i(1) by (auto simp: bit_eq_iff bit_simps intro!: exI [of _ i])
  have "marked_ok base (marks s) (push_bit i 1) False a b" if a: "rs_bos s a = Some b" for a b
  proof -
    have "rb_reloc_in_cs b AND NOT (rs_id_source s) = 0" using assms(1) a by (simp add: bos_ok_def)
    then have "\<not> bit (rb_reloc_in_cs b AND NOT (rs_id_source s)) i" by simp
    then have "\<not> bit (rb_reloc_in_cs b) i" using i(1,2) by (simp add: bit_simps)
    then have "rb_reloc_in_cs b AND push_bit i 1 = 0" by (intro bit_word_eqI) (auto simp: bit_simps)
    then show ?thesis using assms(1) a by (simp add: marked_ok_def marks_def bos_ok_def)
  qed
  then have "reloc_inv base (marks s) cs s'"
    using assms(1) nz unfolding bos_ok_def by (intro reloc_inv_empty [OF cs(2,1,3,4)]) blast+
  then show ?thesis using cs(5-8) by (simp add: room_ok_def)
qed

lemma create_bos: "cs_gem_create env ndw s = Some (Some cs, s') \<Longrightarrow> rs_bos s' = rs_bos s"
  by (auto simp: cs_gem_create_def generate_id_def Let_def split: if_splits bind_splits)

section \<open>A session\<close>

text \<open>
  The steps of a driver: it begins a section for at most as many dwords as fit, writes dwords and relocations
  inside it, ends it, and executes and erases the stream. It relocates only buffers it knows whose memory
  was accounted for, and writes only what it announced.
\<close>

definition section_left :: "radeon_cs \<Rightarrow> nat" where
  "section_left cs = unat (cs_section_ndw cs) - unat (cs_section_cdw cs)"

inductive stream :: "radeon_env \<Rightarrow> radeon_cs \<times> radeon_state \<Rightarrow> radeon_cs \<times> radeon_state \<Rightarrow> bool" for env where
  begin_section: "cs_section_ndw cs = 0 \<Longrightarrow> length (cs_packets cs) + unat ndw + 0x3FF < 2 ^ 30 \<Longrightarrow>
    cs_gem_begin env ndw cs s = (0, cs', s') \<Longrightarrow> stream env (cs, s) (cs', s')"
| write_dword: "1 \<le> section_left cs \<Longrightarrow> radeon_cs_write_dword d cs = Some cs' \<Longrightarrow> stream env (cs, s) (cs', s)"
| write_reloc: "2 \<le> section_left cs \<Longrightarrow> rs_bos s a = Some b \<Longrightarrow> rb_space_accounted b \<noteq> 0 \<Longrightarrow>
    cs_gem_write_reloc env a rd wd fl cs s = Some (r, cs', s') \<Longrightarrow> stream env (cs, s) (cs', s')"
| end_section: "cs_gem_end cs = (r, cs') \<Longrightarrow> stream env (cs, s) (cs', s)"
| execute: "cs_gem_emit env cs s = Some (r, cs1, s1) \<Longrightarrow> cs_gem_erase cs1 s1 = Some (cs', s') \<Longrightarrow>
    stream env (cs, s) (cs', s')"

definition section_ok :: "radeon_cs \<Rightarrow> bool" where
  "section_ok cs \<longleftrightarrow> room_ok cs \<and> (cs_section_ndw cs \<noteq> 0 \<longrightarrow>
     unat (cs_section_cdw cs) \<le> unat (cs_section_ndw cs) \<and> length (cs_packets cs) + section_left cs \<le> cs_room cs)"

definition stream_inv :: "(addr \<Rightarrow> nat) \<Rightarrow> (addr \<Rightarrow> u32) \<Rightarrow> radeon_cs \<times> radeon_state \<Rightarrow> bool" where
  "stream_inv base oth x \<longleftrightarrow> reloc_inv base oth (fst x) (snd x) \<and> section_ok (fst x)"

lemma section_write:
  assumes "section_ok cs" "n \<le> section_left cs" "1 \<le> n" "length (cs_packets cs') = length (cs_packets cs) + n"
    "cs_section_cdw cs' = cs_section_cdw cs + of_nat n" "cs_section_ndw cs' = cs_section_ndw cs" "cs_room cs' = cs_room cs"
    "cs_ndw cs' = cs_ndw cs"
  shows "section_ok cs'"
proof -
  have c: "cs_section_ndw cs \<noteq> 0" using assms(2,3) by (auto simp: section_left_def)
  then have le: "length (cs_packets cs) + section_left cs \<le> cs_room cs" using assms(1) by (simp add: section_ok_def)
  have lt: "unat (cs_section_cdw cs) + n \<le> unat (cs_section_ndw cs)" using assms(2,3) by (simp add: section_left_def)
  have big: "unat (cs_section_ndw cs) < 2 ^ 32" using unsigned_less [of "cs_section_ndw cs", where ?'a = nat] by simp
  then have n: "n < 2 ^ 32" using lt by linarith
  have "unat (cs_section_cdw cs + of_nat n) = unat (cs_section_cdw cs) + n"
    using lt n big by (subst unat_add_small) (simp_all add: unat_of_nat)
  then have left: "section_left cs' = section_left cs - n" using lt by (simp add: section_left_def assms(5,6))
  have "cs_room cs = unat (cs_ndw cs)" "8 dvd cs_room cs" using assms(1) by (auto simp: section_ok_def room_ok_def)
  then have "room_ok cs'" using le assms(2) by (auto simp: room_ok_def assms(4,7,8))
  then show ?thesis using le lt assms(2) \<open>unat (cs_section_cdw cs + of_nat n) = _\<close>
    by (simp add: section_ok_def left assms(4-8))
qed

text \<open>A stream in which \<open>reloc_inv\<close> holds only depends on these parts of it.\<close>

lemma reloc_inv_same:
  assumes "reloc_inv base oth cs s" "cs_id cs' = cs_id cs" "rs_bos s' = rs_bos s" "cs_relocs cs' = cs_relocs cs"
    "cs_relocs_bo cs' = cs_relocs_bo cs" "cs_nrelocs cs' = cs_nrelocs cs"
  shows "reloc_inv base oth cs' s'"
  by (rule reloc_inv_cong [OF assms(2,3) _ _ assms(5,6,1)]) (simp_all add: assms(4))

lemma write_dword_eq:
  assumes "section_ok cs" "1 \<le> section_left cs"
  shows "radeon_cs_write_dword d cs = Some (cs\<lparr>cs_packets := cs_packets cs @ [d], cs_section_cdw := cs_section_cdw cs + 1\<rparr>)"
proof -
  have c: "cs_section_ndw cs \<noteq> 0" using assms(2) by (auto simp: section_left_def)
  then have "length (cs_packets cs) < cs_room cs" using assms by (simp add: section_ok_def)
  then show ?thesis using c by (simp add: radeon_cs_write_dword_def)
qed

lemma section_packets: "section_ok cs \<Longrightarrow> n \<le> section_left cs \<Longrightarrow> length (cs_packets cs) + n \<le> cs_room cs"
  by (cases "cs_section_ndw cs = 0") (simp_all add: section_ok_def section_left_def room_ok_def)

lemma step_write_reloc:
  assumes "stream_inv base oth (cs, s)" "2 \<le> section_left cs" "rs_bos s a = Some b" "rb_space_accounted b \<noteq> 0"
  shows "\<exists>r cs' s'. cs_gem_write_reloc env a rd wd fl cs s = Some (r, cs', s') \<and> stream_inv base oth (cs', s') \<and>
    dom (rs_bos s') = dom (rs_bos s) \<and> (r \<noteq> 0 \<longrightarrow> cs' = cs \<and> rs_bos s' = rs_bos s) \<and> (r = 0 \<longrightarrow> refers a b rd wd cs cs')"
proof -
  have inv: "reloc_inv base oth cs s" "section_ok cs" using assms(1) by (simp_all add: stream_inv_def)
  obtain r cs' s' where w: "cs_gem_write_reloc env a rd wd fl cs s = Some (r, cs', s')" "reloc_inv base oth cs' s'"
    "dom (rs_bos s') = dom (rs_bos s)" "section_step r cs cs'" "r \<noteq> 0 \<longrightarrow> cs' = cs \<and> rs_bos s' = rs_bos s"
    "r = 0 \<longrightarrow> refers a b rd wd cs cs'"
    using write_reloc_ok [OF inv(1) assms(3,4) section_packets [OF inv(2) assms(2)], of env rd wd fl] by blast
  have "section_ok cs'"
  proof (cases "r = 0")
    case True
    moreover have "cs_section_ndw cs \<noteq> 0" using assms(2) by (auto simp: section_left_def)
    ultimately show ?thesis using w(4) by (intro section_write [OF inv(2) assms(2)]) (simp_all add: section_step_def)
  qed (use w(5) inv(2) in simp)
  then show ?thesis using w by (auto simp: stream_inv_def)
qed

lemma step_execute:
  assumes "stream_inv base oth (cs, s)" "k = (8 - length (cs_packets cs) mod 8) mod 8"
  shows "\<exists>cs1 cs' s'. cs_gem_emit env cs s =
      Some (rk_cs env (rs_clock s) (cs_packets cs @ replicate k 0x80000000) (cs_relocs cs), cs1, s') \<and>
    cs_gem_erase cs1 s' = Some (cs', s') \<and> stream_inv base oth (cs', s') \<and> cs_packets cs' = [] \<and> cs_relocs cs' = [] \<and>
    dom (rs_bos s') = dom (rs_bos s) \<and> rs_read_used s' = 0 \<and> rs_vram_write_used s' = 0 \<and> rs_gart_write_used s' = 0 \<and>
    rs_vram_limit s' = rs_vram_limit s \<and> rs_gart_limit s' = rs_gart_limit s \<and>
    rs_bos s' = (\<lambda>a. if Some a \<in> set (cs_relocs_bo cs) then map_option (dropped (cs_id cs)) (rs_bos s a) else rs_bos s a)"
proof -
  have inv: "reloc_inv base oth cs s" "room_ok cs" using assms(1) by (simp_all add: stream_inv_def section_ok_def)
  then have room: "cs_room cs mod 8 = 0" "length (cs_packets cs) \<le> cs_room cs" "cs_room cs = unat (cs_ndw cs)"
    unfolding room_ok_def by (blast intro: dvd_imp_mod_0)+
  from emit_erase [OF inv(1) room(1,2) assms(2), of env] obtain cs1 s' cs' where e:
    "cs_gem_emit env cs s = Some (rk_cs env (rs_clock s) (cs_packets cs @ replicate k 0x80000000) (cs_relocs cs), cs1, s')"
    "cs_gem_erase cs1 s' = Some (cs', s')" "reloc_inv base oth cs' s'" "cs_packets cs' = []" "cs_relocs cs' = []"
    "cs_room cs' = cs_room cs" "cs_ndw cs' = cs_ndw cs" "cs_section_ndw cs' = 0"
    "rs_bos s' = (\<lambda>a. if Some a \<in> set (cs_relocs_bo cs) then map_option (dropped (cs_id cs)) (rs_bos s a) else rs_bos s a)"
    "rs_read_used s' = 0" "rs_vram_write_used s' = 0" "rs_gart_write_used s' = 0"
    "rs_vram_limit s' = rs_vram_limit s" "rs_gart_limit s' = rs_gart_limit s" by blast
  have "section_ok cs'" using e(4,6-8) room by (auto simp: section_ok_def room_ok_def)
  moreover have "dom (rs_bos s') = dom (rs_bos s)" unfolding e(9) by (auto split: if_splits)
  ultimately show ?thesis using e by (intro exI [of _ cs1] exI [of _ cs'] exI [of _ s']) (simp add: stream_inv_def)
qed

lemma step_end:
  assumes "stream_inv base oth (cs, s)" "cs_gem_end cs = (r, cs')"
  shows "stream_inv base oth (cs', s)"
proof -
  have cs': "cs' = cs\<lparr>cs_section_ndw := 0\<rparr>" using assms(2) by (auto simp: cs_gem_end_def split: if_splits)
  have inv: "reloc_inv base oth cs s" using assms(1) by (simp add: stream_inv_def)
  have "reloc_inv base oth cs' s" by (rule reloc_inv_same [OF inv]) (simp_all add: cs')
  then show ?thesis using assms(1) by (auto simp: stream_inv_def section_ok_def room_ok_def cs')
qed

lemma step_begin:
  assumes "stream_inv base oth (cs, s)" "cs_section_ndw cs = 0" "length (cs_packets cs) + unat ndw + 0x3FF < 2 ^ 30"
    "cs_gem_begin env ndw cs s = (0, cs', s')"
  shows "stream_inv base oth (cs', s') \<and> rs_bos s' = rs_bos s"
proof -
  have inv: "reloc_inv base oth cs s" "room_ok cs" using assms(1) by (simp_all add: stream_inv_def section_ok_def)
  from begin_room [OF inv(2) assms(2-4)] obtain n r where b: "room_ok cs'" "length (cs_packets cs) + unat ndw \<le> cs_room cs'"
    "rs_bos s' = rs_bos s" "cs' = cs\<lparr>cs_section_ndw := ndw, cs_section_cdw := 0, cs_ndw := n, cs_room := r\<rparr>" by blast
  have "reloc_inv base oth cs' s'" by (rule reloc_inv_same [OF inv(1) _ b(3)]) (simp_all add: b(4))
  moreover have "section_ok cs'" using b(1,2) unfolding section_ok_def by (simp add: b(4) section_left_def)
  ultimately show ?thesis using b(3) by (simp add: stream_inv_def)
qed

lemma step_dword:
  assumes "stream_inv base oth (cs, s)" "1 \<le> section_left cs" "radeon_cs_write_dword d cs = Some cs'"
  shows "stream_inv base oth (cs', s)"
proof -
  have inv: "reloc_inv base oth cs s" "section_ok cs" using assms(1) by (simp_all add: stream_inv_def)
  have cs': "cs' = cs\<lparr>cs_packets := cs_packets cs @ [d], cs_section_cdw := cs_section_cdw cs + 1\<rparr>"
    using write_dword_eq [OF inv(2) assms(2)] assms(3) by simp
  have "section_ok cs'" by (rule section_write [OF inv(2) assms(2)]) (simp_all add: cs')
  moreover have "reloc_inv base oth cs' s" by (rule reloc_inv_same [OF inv(1)]) (simp_all add: cs')
  ultimately show ?thesis by (simp add: stream_inv_def)
qed

lemma stream_keeps:
  assumes "stream env x y" "stream_inv base oth x"
  shows "stream_inv base oth y \<and> dom (rs_bos (snd y)) = dom (rs_bos (snd x))"
  using assms
proof (induction rule: stream.induct)
  case (begin_section cs ndw s cs' s')
  then show ?case using step_begin by simp
next
  case (write_dword cs d cs' s)
  then show ?case using step_dword by simp
next
  case (write_reloc cs s a b rd wd fl r cs' s')
  then show ?case using step_write_reloc [OF write_reloc.prems write_reloc.hyps(1-3), of env rd wd fl] by auto
next
  case (end_section cs r cs' s)
  then show ?case using step_end by simp
next
  case (execute cs s r cs1 s1 cs' s')
  then show ?case using step_execute [OF execute.prems refl, of env] by auto
qed

lemma stream_reach:
  assumes "(stream env)\<^sup>*\<^sup>* x y" "stream_inv base oth x"
  shows "stream_inv base oth y \<and> dom (rs_bos (snd y)) = dom (rs_bos (snd x))"
  using assms
proof (induction rule: rtranclp_induct)
  case (step y z)
  then show ?case using stream_keeps [OF step.hyps(2), of base oth] by simp
qed simp

lemma created_inv:
  assumes "bos_ok base s" "rs_id_source s \<noteq> NOT 0" "cs_gem_create env ndw s = Some (Some cs, s')"
  shows "stream_inv base (marks s) (cs, s') \<and> rs_bos s' = rs_bos s"
  using create_inv [OF assms] create_bos [OF assms(3)] by (simp add: stream_inv_def section_ok_def)

section \<open>Memory after an execution\<close>

text \<open>When every buffer that is accounted for is in the table, an execution leaves none accounted for.\<close>

lemma execute_space:
  assumes "stream_inv base oth (cs, s)" "finite (dom (rs_bos s))" "0 \<le> rs_vram_limit s" "rs_vram_limit s < 2 ^ 30"
    "0 \<le> rs_gart_limit s" "rs_gart_limit s < 2 ^ 30" "\<And>a. acc_of s a \<noteq> 0 \<Longrightarrow> Some a \<in> set (cs_relocs_bo cs)"
  shows "\<exists>r cs1 s'. cs_gem_emit env cs s = Some (r, cs1, s') \<and> space_ok s' \<and> (\<forall>a. acc_of s' a = 0)"
proof -
  from step_execute [OF assms(1) refl, of env] obtain cs1 s' where e:
    "cs_gem_emit env cs s = Some (rk_cs env (rs_clock s) (cs_packets cs @ replicate ((8 - length (cs_packets cs) mod 8) mod 8) 0x80000000) (cs_relocs cs), cs1, s')"
    "dom (rs_bos s') = dom (rs_bos s)" "rs_read_used s' = 0" "rs_vram_write_used s' = 0" "rs_gart_write_used s' = 0"
    "rs_vram_limit s' = rs_vram_limit s" "rs_gart_limit s' = rs_gart_limit s"
    "rs_bos s' = (\<lambda>a. if Some a \<in> set (cs_relocs_bo cs) then map_option (dropped (cs_id cs)) (rs_bos s a) else rs_bos s a)" by blast
  have none: "acc_of s' a = 0" for a
    using assms(7) [of a] by (cases "rs_bos s a") (auto simp: acc_of_def e(8) dropped_def)
  then have b: "rb_space_accounted b = 0" if "rs_bos s' a = Some b" for a b using that none [of a] by (simp add: acc_of_def)
  have "acc_total c s' = 0" if c: "\<And>n. c 0 n = 0" for c
    unfolding acc_total_def by (rule sum.neutral) (auto simp: b c split: option.splits)
  then have "acc_total vram_of s' = 0" "acc_total gart_of s' = 0" "acc_total read_of s' = 0"
    using domains_ne by (simp_all add: vram_of_def gart_of_def read_of_def)
  then have "space_ok s'" using assms(2-6) e(2-7) b by (simp add: space_ok_def pure_acc_def)
  then show ?thesis using e(1) none by blast
qed

section \<open>An example\<close>

text \<open>A stream with the buffer of the example of the accounting.\<close>

definition ex_cs :: radeon_cs where
  "ex_cs = \<lparr>cs_packets = [], cs_ndw = 64 * 1024 div 4, cs_room = 64 * 1024 div 4, cs_section_ndw = 0,
     cs_section_cdw = 0, cs_relocs = [], cs_relocs_bo = [], cs_nrelocs = 256, cs_relocs_total_size = 0,
     cs_bos = [], cs_id = 2, cs_length0 = 0, cs_length1 = 0\<rparr>"

abbreviation ex_created :: radeon_state where
  "ex_created \<equiv> ex_state\<lparr>rs_clock := 4, rs_id_source := 3\<rparr>"

abbreviation ex_begun :: radeon_cs where
  "ex_begun \<equiv> ex_cs\<lparr>cs_section_ndw := 4, cs_section_cdw := 0\<rparr>"

lemma ex_bos_ok: "bos_ok (\<lambda>_. 1) ex_state"
  by (auto simp: bos_ok_def ex_state_def ex_bo_def rbo_zero_def split: if_splits)

lemma ex_id: "rs_id_source ex_state \<noteq> NOT 0"
  by (simp add: ex_state_def)

lemma ex_create: "cs_gem_create ex_env 0 ex_state = Some (Some ex_cs, ex_created)"
proof -
  have "[0..<32] = 0 # 1 # [2..<32]" by (simp add: upt_conv_Cons numeral_2_eq_2 del: upt_Suc)
  then have "find (\<lambda>i. \<not> bit (1 :: u32) i) [0..<32] = Some 1" by (simp add: bit_1_iff)
  then show ?thesis by (simp add: cs_gem_create_def ex_env_def ex_state_def ex_cs_def generate_id_def get_first_zero_def rtick_def)
qed

lemma ex_begin: "(stream ex_env)\<^sup>*\<^sup>* (ex_cs, ex_created) (ex_begun, ex_created)"
proof -
  have "cs_gem_begin ex_env 4 ex_cs ex_created = (0, ex_begun, ex_created)"
    by (simp add: cs_gem_begin_def ex_cs_def Let_def)
  then have "stream ex_env (ex_cs, ex_created) (ex_begun, ex_created)"
    by (intro begin_section) (simp_all add: ex_cs_def)
  then show ?thesis by (rule r_into_rtranclp)
qed

section \<open>Theorems\<close>





text \<open>When the stream refers to every buffer whose memory is accounted for, its execution leaves the counters of the
  manager in step with the buffers: nothing is accounted for and nothing is used.\<close>

theorem execute_resets_space:
  assumes "bos_ok base s0" "rs_id_source s0 \<noteq> NOT 0" "cs_gem_create env ndw s0 = Some (Some cs0, s1)"
    "(stream env)\<^sup>*\<^sup>* (cs0, s1) (cs, s)" "finite (dom (rs_bos s))" "0 \<le> rs_vram_limit s" "rs_vram_limit s < 2 ^ 30"
    "0 \<le> rs_gart_limit s" "rs_gart_limit s < 2 ^ 30" "\<forall>a. acc_of s a \<noteq> 0 \<longrightarrow> Some a \<in> set (cs_relocs_bo cs)"
  shows "\<exists>r cs1 s'. cs_gem_emit env cs s = Some (r, cs1, s') \<and> space_ok s' \<and> (\<forall>a. acc_of s' a = 0)"
proof -
  have "stream_inv base (marks s0) (cs, s)" using stream_reach [OF assms(4)] created_inv [OF assms(1-3)] by blast
  then show ?thesis by (rule execute_space [OF _ assms(5-9)]) (use assms(10) in blast)
qed

abbreviation ex_reloc :: radeon_cs where
  "ex_reloc \<equiv> ex_begun\<lparr>cs_packets := [0xc0001000, 0], cs_section_cdw := 2, cs_relocs_bo := [Some 16],
     cs_relocs := [\<lparr>cr_handle = 7, cr_read_domain = 0, cr_write_domain = 4, cr_flags = 0\<rparr>],
     cs_length1 := 4, cs_relocs_total_size := 4096\<rparr>"

abbreviation ex_relocated :: radeon_state where
  "ex_relocated \<equiv> ex_created\<lparr>rs_bos := [16 \<mapsto> ex_bo\<lparr>rb_cref := 2, rb_reloc_in_cs := 2\<rparr>]\<rparr>"

lemma ex_write_reloc: "(stream ex_env)\<^sup>*\<^sup>* (ex_cs, ex_created) (ex_reloc, ex_relocated)"
proof -
  have "cs_gem_write_reloc ex_env 16 0 4 0 ex_begun ex_created = Some (0, ex_reloc, ex_relocated)"
    by (simp add: cs_gem_write_reloc_def rbo_get_def ex_cs_def ex_state_def ex_bo_def rbo_zero_def ex_env_def Let_def RADEON_GEM_DOMAIN_CPU_def
        RELOC_SIZE_def radeon_bo_ref_def rbo_put_eq reloc_packet_def radeon_cs_write_dword_def)
  then have "stream ex_env (ex_begun, ex_created) (ex_reloc, ex_relocated)"
    by (rule write_reloc [rotated -1, of _ _ _ _ _ _ _ _ _ _ ex_bo]) (simp_all add: section_left_def ex_cs_def ex_state_def ex_bo_def)
  with ex_begin show ?thesis by (rule rtranclp.rtrancl_into_rtrancl)
qed

theorem execute_resets_space_witness:
  "\<exists>r cs1 s'. cs_gem_emit ex_env ex_reloc ex_relocated = Some (r, cs1, s') \<and> space_ok s' \<and> (\<forall>a. acc_of s' a = 0)"
  by (rule execute_resets_space [OF ex_bos_ok ex_id ex_create ex_write_reloc])
    (auto simp: ex_cs_def ex_state_def acc_of_def split: option.splits if_splits)

end
