(* ===== verification/Nouveau_Bo.thy ===== *)
theory Nouveau_Bo
  imports C_Prelude "HOL-Library.Multiset"
begin

text \<open>
  Nouveau buffer objects, \<open>nouveau/nouveau.c\<close> and \<open>nouveau/abi16.c\<close>: creation with a tiling configuration, references, and
  sharing by handle, by name and by descriptor over the list of buffers of a device. A \<open>struct nouveau_bo_priv\<close> begins
  with its \<open>struct nouveau_bo\<close>; both are one record. The mutex is a flag: taking it while it is held never returns.
\<close>

section \<open>Structures\<close>

definition NOUVEAU_BO_VRAM :: u32 where "NOUVEAU_BO_VRAM = 0x00000001"
definition NOUVEAU_BO_GART :: u32 where "NOUVEAU_BO_GART = 0x00000002"
definition NOUVEAU_BO_RD :: u32 where "NOUVEAU_BO_RD = 0x00000100"
definition NOUVEAU_BO_WR :: u32 where "NOUVEAU_BO_WR = 0x00000200"
definition NOUVEAU_BO_NOBLOCK :: u32 where "NOUVEAU_BO_NOBLOCK = 0x00000400"
definition NOUVEAU_BO_LOW :: u32 where "NOUVEAU_BO_LOW = 0x00001000"
definition NOUVEAU_BO_HIGH :: u32 where "NOUVEAU_BO_HIGH = 0x00002000"
definition NOUVEAU_BO_OR :: u32 where "NOUVEAU_BO_OR = 0x00004000"
definition NOUVEAU_BO_MAP :: u32 where "NOUVEAU_BO_MAP = 0x80000000"
definition NOUVEAU_BO_CONTIG :: u32 where "NOUVEAU_BO_CONTIG = 0x40000000"

definition NOUVEAU_GEM_DOMAIN_VRAM :: u32 where "NOUVEAU_GEM_DOMAIN_VRAM = 2"
definition NOUVEAU_GEM_DOMAIN_GART :: u32 where "NOUVEAU_GEM_DOMAIN_GART = 4"
definition NOUVEAU_GEM_DOMAIN_MAPPABLE :: u32 where "NOUVEAU_GEM_DOMAIN_MAPPABLE = 8"
definition NOUVEAU_GEM_TILE_NONCONTIG :: u32 where "NOUVEAU_GEM_TILE_NONCONTIG = 8"

lemmas nouveau_flags = NOUVEAU_BO_VRAM_def NOUVEAU_BO_GART_def NOUVEAU_BO_RD_def NOUVEAU_BO_WR_def NOUVEAU_BO_NOBLOCK_def
  NOUVEAU_BO_LOW_def NOUVEAU_BO_HIGH_def NOUVEAU_BO_OR_def NOUVEAU_BO_MAP_def NOUVEAU_BO_CONTIG_def
  NOUVEAU_GEM_DOMAIN_VRAM_def NOUVEAU_GEM_DOMAIN_GART_def NOUVEAU_GEM_DOMAIN_MAPPABLE_def NOUVEAU_GEM_TILE_NONCONTIG_def

text \<open>
  The first two words of the union, all that its members have: \<open>surf_flags\<close> and \<open>surf_pitch\<close> of a nv04, \<open>memtype\<close> and
  \<open>tile_mode\<close> of a nv50 or nvc0.
\<close>

record nouveau_bo_config =
  nc_word0 :: u32
  nc_word1 :: u32

record nouveau_bo_priv =
  nb_handle :: u32
  nb_size :: u64
  nb_flags :: u32
  nb_offset :: u64
  nb_map :: u64
  nb_config :: nouveau_bo_config
  nb_refcnt :: int
  nb_map_handle :: u64
  nb_name :: u32
  nb_access :: u32

record drm_nouveau_gem_info =
  gi_handle :: u32
  gi_domain :: u32
  gi_size :: u64
  gi_offset :: u64
  gi_map_handle :: u64
  gi_tile_mode :: u32
  gi_tile_flags :: u32

record nouveau_device_priv =
  nd_chipset :: u32
  nd_have_bo_usage :: bool
  nd_vram_limit :: u64
  nd_gart_limit :: u64
  nd_vram_limit_percent :: int
  nd_gart_limit_percent :: int

text \<open>The state of a device: its buffers, its list of them, its mutex, the count of requests.\<close>

record nouveau_state =
  ns_dev :: nouveau_device_priv
  ns_bos :: "nouveau_bo_priv heap"
  ns_bo_list :: "addr list"
  ns_lock :: bool
  ns_clock :: nat

text \<open>What the \<open>n\<close>-th request is answered: the return value and what the kernel filled in.\<close>

record nouveau_env =
  nk_calloc :: "nat \<Rightarrow> nouveau_bo_priv allocator"
  nk_gem_new :: "nat \<Rightarrow> drm_nouveau_gem_info \<Rightarrow> u32 \<Rightarrow> int \<times> drm_nouveau_gem_info"
  nk_gem_info :: "nat \<Rightarrow> u32 \<Rightarrow> int \<times> drm_nouveau_gem_info"
  nk_gem_open :: "nat \<Rightarrow> u32 \<Rightarrow> int \<times> u32"
  nk_flink :: "nat \<Rightarrow> u32 \<Rightarrow> int \<times> u32"
  nk_fd_to_handle :: "nat \<Rightarrow> int \<Rightarrow> int \<times> u32"
  nk_handle_to_fd :: "nat \<Rightarrow> u32 \<Rightarrow> int \<times> int"

definition nv_tick :: "'s nouveau_state_scheme \<Rightarrow> 's nouveau_state_scheme" where
  "nv_tick s = s\<lparr>ns_clock := Suc (ns_clock s)\<rparr>"

definition nvbo_put :: "'s nouveau_state_scheme \<Rightarrow> addr \<Rightarrow> (nouveau_bo_priv \<Rightarrow> nouveau_bo_priv) \<Rightarrow> 's nouveau_state_scheme option" where
  "nvbo_put s a f = do { h \<leftarrow> wr (ns_bos s) a f; Some (s\<lparr>ns_bos := h\<rparr>) }"

definition pthread_mutex_lock :: "'s nouveau_state_scheme \<Rightarrow> 's nouveau_state_scheme option" where
  "pthread_mutex_lock s = do { c_assert (\<not> ns_lock s); Some (s\<lparr>ns_lock := True\<rparr>) }"

definition pthread_mutex_unlock :: "'s nouveau_state_scheme \<Rightarrow> 's nouveau_state_scheme" where
  "pthread_mutex_unlock s = s\<lparr>ns_lock := False\<rparr>"

definition zero_config :: nouveau_bo_config where
  "zero_config = \<lparr>nc_word0 = 0, nc_word1 = 0\<rparr>"

text \<open>\<open>calloc(1, sizeof(struct nouveau_bo_priv))\<close>.\<close>

definition nvbo_zero :: nouveau_bo_priv where
  "nvbo_zero = \<lparr>nb_handle = 0, nb_size = 0, nb_flags = 0, nb_offset = 0, nb_map = 0, nb_config = zero_config, nb_refcnt = 0,
     nb_map_handle = 0, nb_name = 0, nb_access = 0\<rparr>"

section \<open>Tiling\<close>

text \<open>The configuration as it is put into the two fields of a request, and read back from them.\<close>

definition config_tile :: "u32 \<Rightarrow> nouveau_bo_config \<Rightarrow> u32 \<times> u32" where
  "config_tile chipset c =
    (if 0xc0 \<le> chipset then (push_bit 8 (nc_word0 c AND 0xff), nc_word1 c)
     else if 0x80 \<le> chipset \<or> chipset = 0x50 then
       (push_bit 8 (nc_word0 c AND 0x07f) OR push_bit 9 (nc_word0 c AND 0x180), drop_bit 4 (nc_word1 c))
     else (nc_word0 c AND 7, nc_word1 c))"

definition tile_config :: "u32 \<Rightarrow> u32 \<Rightarrow> u32 \<Rightarrow> nouveau_bo_config" where
  "tile_config chipset tile_flags tile_mode =
    (if 0xc0 \<le> chipset then \<lparr>nc_word0 = drop_bit 8 (tile_flags AND 0xff00), nc_word1 = tile_mode\<rparr>
     else if 0x80 \<le> chipset \<or> chipset = 0x50 then
       \<lparr>nc_word0 = drop_bit 8 (tile_flags AND 0x07f00) OR drop_bit 9 (tile_flags AND 0x30000), nc_word1 = push_bit 4 tile_mode\<rparr>
     else \<lparr>nc_word0 = tile_flags AND 7, nc_word1 = tile_mode\<rparr>)"

definition abi16_bo_info :: "nouveau_device_priv \<Rightarrow> drm_nouveau_gem_info \<Rightarrow> nouveau_bo_priv \<Rightarrow> nouveau_bo_priv" where
  "abi16_bo_info dev info b =
    (let flags = 0;
         flags = flags OR (if gi_domain info AND NOUVEAU_GEM_DOMAIN_VRAM \<noteq> 0 then NOUVEAU_BO_VRAM else 0);
         flags = flags OR (if gi_domain info AND NOUVEAU_GEM_DOMAIN_GART \<noteq> 0 then NOUVEAU_BO_GART else 0);
         flags = flags OR (if gi_tile_flags info AND NOUVEAU_GEM_TILE_NONCONTIG = 0 then NOUVEAU_BO_CONTIG else 0);
         flags = flags OR (if gi_map_handle info \<noteq> 0 then NOUVEAU_BO_MAP else 0) in
     b\<lparr>nb_map_handle := gi_map_handle info, nb_handle := gi_handle info, nb_size := gi_size info, nb_offset := gi_offset info,
       nb_flags := flags, nb_config := tile_config (nd_chipset dev) (gi_tile_flags info) (gi_tile_mode info)\<rparr>)"

text \<open>What \<open>abi16_bo_init\<close> asks for.\<close>

definition bo_request :: "nouveau_device_priv \<Rightarrow> nouveau_bo_priv \<Rightarrow> nouveau_bo_config option \<Rightarrow> drm_nouveau_gem_info" where
  "bo_request dev b config =
    (let domain = (if nb_flags b AND NOUVEAU_BO_VRAM \<noteq> 0 then NOUVEAU_GEM_DOMAIN_VRAM else 0);
         domain = domain OR (if nb_flags b AND NOUVEAU_BO_GART \<noteq> 0 then NOUVEAU_GEM_DOMAIN_GART else 0);
         domain = (if domain = 0 then NOUVEAU_GEM_DOMAIN_VRAM OR NOUVEAU_GEM_DOMAIN_GART else domain);
         domain = domain OR (if nb_flags b AND NOUVEAU_BO_MAP \<noteq> 0 then NOUVEAU_GEM_DOMAIN_MAPPABLE else 0);
         tile_flags = (if nb_flags b AND NOUVEAU_BO_CONTIG = 0 then NOUVEAU_GEM_TILE_NONCONTIG else 0);
         (tile_flags, tile_mode) = (case config of Some c \<Rightarrow> config_tile (nd_chipset dev) c | None \<Rightarrow> (tile_flags, 0));
         tile_flags = (if nd_have_bo_usage dev then tile_flags else tile_flags AND 0x0000ff00) in
     \<lparr>gi_handle = 0, gi_domain = domain, gi_size = nb_size b, gi_offset = 0, gi_map_handle = 0, gi_tile_mode = tile_mode,
       gi_tile_flags = tile_flags\<rparr>)"

definition abi16_bo_init ::
  "nouveau_env \<Rightarrow> nouveau_device_priv \<Rightarrow> nat \<Rightarrow> u32 \<Rightarrow> nouveau_bo_config option \<Rightarrow> nouveau_bo_priv \<Rightarrow> int \<times> nouveau_bo_priv" where
  "abi16_bo_init env dev n alignment config b =
    (case nk_gem_new env n (bo_request dev b config) alignment of
       (ret, info) \<Rightarrow> (ret, if ret = 0 then abi16_bo_info dev info b else b))"

section \<open>References\<close>

text \<open>\<open>nouveau_bo_del\<close>; \<open>DRM_IOCTL_GEM_CLOSE\<close> is a request whose answer is not looked at.\<close>

definition nouveau_bo_del :: "addr \<Rightarrow> 's nouveau_state_scheme \<Rightarrow> 's nouveau_state_scheme option" where
  "nouveau_bo_del a s = do {
     b \<leftarrow> ns_bos s a;
     s \<leftarrow> pthread_mutex_lock s;
     if nb_name b \<noteq> 0 \<and> nb_refcnt b \<noteq> 0 then Some (pthread_mutex_unlock s)
     else do {
       let s = pthread_mutex_unlock (nv_tick (s\<lparr>ns_bo_list := remove1 a (ns_bo_list s)\<rparr>));
       h \<leftarrow> dealloc (ns_bos s) a;
       Some (s\<lparr>ns_bos := h\<rparr>)
     }
   }"

text \<open>\<open>nouveau_bo_ref(bo, pref)\<close>, with \<open>ref\<close> the old value of \<open>*pref\<close>; the new one is \<open>bo\<close>.\<close>

definition nouveau_bo_ref :: "addr \<Rightarrow> addr \<Rightarrow> 's nouveau_state_scheme \<Rightarrow> 's nouveau_state_scheme option" where
  "nouveau_bo_ref bo ref s = do {
     s \<leftarrow> (if bo \<noteq> NULL then nvbo_put s bo (\<lambda>b. b\<lparr>nb_refcnt := nb_refcnt b + 1\<rparr>) else Some s);
     if ref \<noteq> NULL then do {
       b \<leftarrow> ns_bos s ref;
       s \<leftarrow> nvbo_put s ref (\<lambda>b. b\<lparr>nb_refcnt := nb_refcnt b - 1\<rparr>);
       if nb_refcnt b = 1 then nouveau_bo_del ref s else Some s
     }
     else Some s
   }"

section \<open>Creation and sharing\<close>

text \<open>The functions return the error and the new value of \<open>*pbo\<close>.\<close>

definition nouveau_bo_new ::
  "nouveau_env \<Rightarrow> u32 \<Rightarrow> u32 \<Rightarrow> u64 \<Rightarrow> nouveau_bo_config option \<Rightarrow> addr \<Rightarrow> 's nouveau_state_scheme \<Rightarrow>
   (int \<times> addr \<times> 's nouveau_state_scheme) option" where
  "nouveau_bo_new env flags align sz config pbo s =
    (case nk_calloc env (ns_clock s) (ns_bos s) of
       None \<Rightarrow> Some (- ENOMEM, pbo, nv_tick s)
     | Some a \<Rightarrow>
         let b = nvbo_zero\<lparr>nb_refcnt := 1, nb_flags := flags, nb_size := sz\<rparr>;
             (ret, b) = abi16_bo_init env (ns_dev s) (ns_clock s) align config b;
             s = nv_tick s in
         if ret \<noteq> 0 then Some (ret, pbo, s)
         else do {
           s \<leftarrow> pthread_mutex_lock s;
           Some (0, a, pthread_mutex_unlock (s\<lparr>ns_bos := (ns_bos s)(a \<mapsto> b), ns_bo_list := a # ns_bo_list s\<rparr>))
         })"

text \<open>The walk over the list for the first buffer with a property.\<close>

primrec find_bo :: "(nouveau_bo_priv \<Rightarrow> bool) \<Rightarrow> nouveau_bo_priv heap \<Rightarrow> addr list \<Rightarrow> addr option option" where
  "find_bo P h [] = Some None"
| "find_bo P h (a # as) = do { b \<leftarrow> h a; if P b then Some (Some a) else find_bo P h as }"

definition nouveau_bo_wrap_locked ::
  "nouveau_env \<Rightarrow> u32 \<Rightarrow> addr \<Rightarrow> 's nouveau_state_scheme \<Rightarrow> (int \<times> addr \<times> 's nouveau_state_scheme) option" where
  "nouveau_bo_wrap_locked env handle pbo s = do {
     found \<leftarrow> find_bo (\<lambda>b. nb_handle b = handle) (ns_bos s) (ns_bo_list s);
     case found of
       Some a \<Rightarrow> do { s \<leftarrow> nouveau_bo_ref a NULL s; Some (0, a, s) }
     | None \<Rightarrow>
         let (ret, info) = nk_gem_info env (ns_clock s) handle; s = nv_tick s in
         if ret \<noteq> 0 then Some (ret, pbo, s)
         else case nk_calloc env (ns_clock s) (ns_bos s) of
           None \<Rightarrow> Some (- ENOMEM, pbo, nv_tick s)
         | Some a \<Rightarrow> Some (0, a, (nv_tick s)\<lparr>ns_bos := (ns_bos s)(a \<mapsto> abi16_bo_info (ns_dev s) info (nvbo_zero\<lparr>nb_refcnt := 1\<rparr>)),
             ns_bo_list := a # ns_bo_list s\<rparr>)
   }"

definition nouveau_bo_wrap ::
  "nouveau_env \<Rightarrow> u32 \<Rightarrow> addr \<Rightarrow> 's nouveau_state_scheme \<Rightarrow> (int \<times> addr \<times> 's nouveau_state_scheme) option" where
  "nouveau_bo_wrap env handle pbo s = do {
     s \<leftarrow> pthread_mutex_lock s;
     (ret, pbo, s) \<leftarrow> nouveau_bo_wrap_locked env handle pbo s;
     Some (ret, pbo, pthread_mutex_unlock s)
   }"

text \<open>The name is stored through \<open>*pbo\<close> whatever came of it, and the mutex stays held when the name cannot be opened.\<close>

definition nouveau_bo_name_ref ::
  "nouveau_env \<Rightarrow> u32 \<Rightarrow> addr \<Rightarrow> 's nouveau_state_scheme \<Rightarrow> (int \<times> addr \<times> 's nouveau_state_scheme) option" where
  "nouveau_bo_name_ref env name pbo s = do {
     s \<leftarrow> pthread_mutex_lock s;
     found \<leftarrow> find_bo (\<lambda>b. nb_name b = name) (ns_bos s) (ns_bo_list s);
     case found of
       Some a \<Rightarrow> do { s \<leftarrow> nouveau_bo_ref a NULL s; Some (0, a, pthread_mutex_unlock s) }
     | None \<Rightarrow>
         let (ret, handle) = nk_gem_open env (ns_clock s) name; s = nv_tick s in
         if ret = 0 then do {
           (ret, pbo, s) \<leftarrow> nouveau_bo_wrap_locked env handle pbo s;
           s \<leftarrow> nvbo_put s pbo (\<lambda>b. b\<lparr>nb_name := name\<rparr>);
           Some (ret, pbo, pthread_mutex_unlock s)
         }
         else Some (ret, pbo, s)
   }"

definition nouveau_bo_name_get ::
  "nouveau_env \<Rightarrow> addr \<Rightarrow> 's nouveau_state_scheme \<Rightarrow> (int \<times> u32 \<times> 's nouveau_state_scheme) option" where
  "nouveau_bo_name_get env bo s = do {
     b \<leftarrow> ns_bos s bo;
     if nb_name b = 0 \<or> nb_name b = NOT 0 then
       let (ret, name) = nk_flink env (ns_clock s) (nb_handle b); s = nv_tick s in
       if ret \<noteq> 0 then Some (ret, 0, s)
       else do { s \<leftarrow> nvbo_put s bo (\<lambda>b. b\<lparr>nb_name := name\<rparr>); Some (0, name, s) }
     else Some (0, nb_name b, s)
   }"

text \<open>A shared buffer is closed under the lock: the name all ones says so.\<close>

definition mark_shared :: "nouveau_bo_priv \<Rightarrow> nouveau_bo_priv" where
  "mark_shared b = (if nb_name b = 0 then b\<lparr>nb_name := NOT 0\<rparr> else b)"

definition nouveau_bo_prime_handle_ref ::
  "nouveau_env \<Rightarrow> int \<Rightarrow> addr \<Rightarrow> 's nouveau_state_scheme \<Rightarrow> (int \<times> addr \<times> 's nouveau_state_scheme) option" where
  "nouveau_bo_prime_handle_ref env prime_fd bo s = do {
     s \<leftarrow> nouveau_bo_ref NULL bo s;
     s \<leftarrow> pthread_mutex_lock s;
     let (ret, handle) = nk_fd_to_handle env (ns_clock s) prime_fd;
     let s = nv_tick s;
     if ret = 0 then do {
       (ret, bo, s) \<leftarrow> nouveau_bo_wrap_locked env handle NULL s;
       s \<leftarrow> (if ret = 0 then nvbo_put s bo mark_shared else Some s);
       Some (ret, bo, pthread_mutex_unlock s)
     }
     else Some (ret, NULL, pthread_mutex_unlock s)
   }"

definition nouveau_bo_set_prime ::
  "nouveau_env \<Rightarrow> addr \<Rightarrow> 's nouveau_state_scheme \<Rightarrow> (int \<times> int \<times> 's nouveau_state_scheme) option" where
  "nouveau_bo_set_prime env bo s = do {
     b \<leftarrow> ns_bos s bo;
     let (ret, fd) = nk_handle_to_fd env (ns_clock s) (nb_handle b);
     let s = nv_tick s;
     if ret \<noteq> 0 then Some (ret, fd, s)
     else do {
       s \<leftarrow> nvbo_put s bo mark_shared;
       Some (0, fd, s)
     }
   }"

section \<open>The tiling configuration\<close>

text \<open>The bits of a configuration that a chipset has.\<close>

definition config_legal :: "u32 \<Rightarrow> bool \<Rightarrow> nouveau_bo_config \<Rightarrow> bool" where
  "config_legal chipset usage c \<longleftrightarrow>
    (if 0xc0 \<le> chipset then nc_word0 c < 0x100
     else if 0x80 \<le> chipset \<or> chipset = 0x50 then nc_word0 c < (if usage then 0x200 else 0x80) \<and> nc_word1 c AND 0xf = 0
     else nc_word0 c < 8 \<and> (usage \<or> nc_word0 c = 0))"

lemma bit_below: "(w :: u32) < 2 ^ k \<Longrightarrow> k < 32 \<Longrightarrow> \<forall>n. bit w n \<longrightarrow> n < k"
proof (intro allI impI, rule ccontr)
  fix n assume w: "w < 2 ^ k" and k: "k < 32" and b: "bit w n" "\<not> n < k"
  have "unat (of_nat (2 ^ k) :: u32) = 2 ^ k" using k by (intro unat_of_nat_small power_strict_increasing) simp_all
  then have "unat w < 2 ^ k" using w by (simp add: word_less_nat_alt)
  then have "unat (take_bit k w) = unat w" by (simp only: unsigned_take_bit_eq take_bit_nat_eq_self)
  then have "take_bit k w = w" by (rule unsigned_word_eqI)
  then have "\<not> bit w n" using b(2) by (metis bit_take_bit_iff)
  then show False using b(1) by simp
qed

text \<open>The masks, bit by bit.\<close>

lemma tile_masks:
  "(0xff :: u32) = mask 8" "(0xff00 :: u32) = push_bit 8 (mask 8)" "(0x7f :: u32) = mask 7" "(0x180 :: u32) = push_bit 7 (mask 2)"
  "(0x7f00 :: u32) = push_bit 8 (mask 7)" "(0x30000 :: u32) = push_bit 16 (mask 2)" "(7 :: u32) = mask 3" "(0xf :: u32) = mask 4"
  by (simp_all add: mask_eq_exp_minus_1 push_bit_eq_mult)

lemma bit_tile_masks:
  "bit (0xff :: u32) n \<longleftrightarrow> n < 8" "bit (0xff00 :: u32) n \<longleftrightarrow> 8 \<le> n \<and> n < 16" "bit (0x7f :: u32) n \<longleftrightarrow> n < 7"
  "bit (0x180 :: u32) n \<longleftrightarrow> 7 \<le> n \<and> n < 9" "bit (0x7f00 :: u32) n \<longleftrightarrow> 8 \<le> n \<and> n < 15"
  "bit (0x30000 :: u32) n \<longleftrightarrow> 16 \<le> n \<and> n < 18" "bit (7 :: u32) n \<longleftrightarrow> n < 3" "bit (0xf :: u32) n \<longleftrightarrow> n < 4"
  unfolding tile_masks by (auto simp: bit_simps)

lemma bit_push: "bit (push_bit k w) n \<longleftrightarrow> k \<le> n \<and> n < 32 \<and> bit w (n - k)" for w :: u32
  by (auto simp: bit_simps dest: bit_imp_le_length)

lemma bit_drop: "bit (drop_bit k w) n \<longleftrightarrow> bit w (k + n)" for w :: u32
  by (simp add: bit_simps)

lemmas tile_bits = bit_and_iff bit_or_iff bit_tile_masks bit_push bit_drop

text \<open>The fields of a legal configuration are inside the masks of its chipset.\<close>

lemma nvc0_tile:
  assumes "\<forall>n. bit w n \<longrightarrow> n < 8"
  shows "drop_bit 8 (push_bit 8 (w AND 0xff) AND 0xff00) = (w :: u32)" "push_bit 8 (w AND 0xff) AND 0xff00 = push_bit 8 (w AND 0xff)"
  using assms by (simp_all only: bit_eq_iff tile_bits) auto

lemma nv50_tile:
  fixes w :: u32
  defines "f \<equiv> push_bit 8 (w AND 0x7f) OR push_bit 9 (w AND 0x180)"
  shows "\<forall>n. bit w n \<longrightarrow> n < 9 \<Longrightarrow> drop_bit 8 (f AND 0x7f00) OR drop_bit 9 (f AND 0x30000) = w"
    "\<forall>n. bit w n \<longrightarrow> n < 7 \<Longrightarrow> f AND 0xff00 = f"
proof -
  have f: "bit f n \<longleftrightarrow> (8 \<le> n \<and> n < 15 \<and> bit w (n - 8)) \<or> (16 \<le> n \<and> n < 18 \<and> bit w (n - 9))" for n
    unfolding f_def tile_bits by (auto simp: le_diff_conv2 less_diff_conv2)
  show "f AND 0xff00 = f" if "\<forall>n. bit w n \<longrightarrow> n < 7"
    unfolding bit_eq_iff tile_bits f using that by fastforce
  show "drop_bit 8 (f AND 0x7f00) OR drop_bit 9 (f AND 0x30000) = w" if "\<forall>n. bit w n \<longrightarrow> n < 9"
    unfolding bit_eq_iff tile_bits f using that by fastforce
qed

lemma nv50_mode: "m AND 0xf = 0 \<Longrightarrow> push_bit 4 (drop_bit 4 m) = (m :: u32)"
  unfolding bit_eq_iff tile_bits by (auto dest: bit_imp_le_length)

lemma tile_config_of:
  assumes "config_legal chipset usage c" "config_tile chipset c = (f, m)"
  shows "tile_config chipset (if usage then f else f AND 0xff00) m = c" (is "tile_config _ ?f _ = _")
proof -
  consider "0xc0 \<le> chipset" | "\<not> 0xc0 \<le> chipset" "0x80 \<le> chipset \<or> chipset = 0x50"
    | "\<not> 0xc0 \<le> chipset" "\<not> (0x80 \<le> chipset \<or> chipset = 0x50)" by blast
  then show ?thesis
  proof cases
    case 1
    have f: "f = push_bit 8 (nc_word0 c AND 0xff)" "m = nc_word1 c"
      using assms(2) unfolding config_tile_def if_P [OF 1] by blast+
    have "\<forall>n. bit (nc_word0 c) n \<longrightarrow> n < 8" using assms(1) 1 by (intro bit_below) (simp_all add: config_legal_def)
    note t = nvc0_tile [OF this]
    have F: "?f = f" unfolding f t(2) by simp
    show ?thesis unfolding F unfolding tile_config_def if_P [OF 1] unfolding f t(1) by simp
  next
    case 2
    have f: "f = push_bit 8 (nc_word0 c AND 0x7f) OR push_bit 9 (nc_word0 c AND 0x180)" "m = drop_bit 4 (nc_word1 c)"
      using assms(2) unfolding config_tile_def if_not_P [OF 2(1)] if_P [OF 2(2)] by blast+
    have l: "nc_word0 c < (if usage then 0x200 else 0x80)" "nc_word1 c AND 0xf = 0"
      using assms(1) unfolding config_legal_def if_not_P [OF 2(1)] if_P [OF 2(2)] by blast+
    have b: "\<forall>n. bit (nc_word0 c) n \<longrightarrow> n < (if usage then 9 else 7)" using l(1) by (intro bit_below) (cases usage; simp)+
    have "?f = f"
    proof (cases usage)
      case False
      then show ?thesis using b nv50_tile(2) [of "nc_word0 c"] by (simp only: f if_False)
    qed simp
    moreover have "\<forall>n. bit (nc_word0 c) n \<longrightarrow> n < 9" using b by (fastforce split: if_splits)
    ultimately show ?thesis unfolding tile_config_def if_not_P [OF 2(1)] if_P [OF 2(2)] f
      by (simp only: nv50_tile(1) nv50_mode [OF l(2)]) simp
  next
    case 3
    have f: "f = nc_word0 c AND 7" "m = nc_word1 c"
      using assms(2) unfolding config_tile_def if_not_P [OF 3(1)] if_not_P [OF 3(2)] by blast+
    have l: "nc_word0 c < 8" "usage \<or> nc_word0 c = 0"
      using assms(1) unfolding config_legal_def if_not_P [OF 3(1)] if_not_P [OF 3(2)] by blast+
    have "\<forall>n. bit (nc_word0 c) n \<longrightarrow> n < 3" using l(1) by (intro bit_below) simp_all
    then have "nc_word0 c AND 7 = nc_word0 c" unfolding bit_eq_iff tile_bits by blast
    then show ?thesis using l(2) unfolding tile_config_def if_not_P [OF 3(1)] if_not_P [OF 3(2)] f by auto
  qed
qed

lemma request_tile:
  "config_tile (nd_chipset dev) c = (f, m) \<Longrightarrow> gi_tile_mode (bo_request dev b (Some c)) = m \<and>
    gi_tile_flags (bo_request dev b (Some c)) = (if nd_have_bo_usage dev then f else f AND 0xff00)"
  by (simp add: bo_request_def Let_def)

text \<open>C40. When the kernel grants the tiling a new buffer was asked with, the buffer has the configuration it was created with: what
  \<open>abi16_bo_init\<close> encodes for the chipset is what \<open>abi16_bo_info\<close> decodes.\<close>

theorem bo_config_roundtrip:
  assumes "config_legal (nd_chipset dev) (nd_have_bo_usage dev) c"
    "nk_gem_new env n (bo_request dev b (Some c)) al = (0, info)"
    "gi_tile_flags info = gi_tile_flags (bo_request dev b (Some c))" "gi_tile_mode info = gi_tile_mode (bo_request dev b (Some c))"
  shows "nb_config (snd (abi16_bo_init env dev n al (Some c) b)) = c"
proof -
  obtain f m where fm: "config_tile (nd_chipset dev) c = (f, m)" by (cases "config_tile (nd_chipset dev) c")
  show ?thesis using tile_config_of [OF assms(1) fm] request_tile [OF fm, of b] assms(2-4)
    by (simp add: abi16_bo_init_def abi16_bo_info_def Let_def)
qed

definition ex_nouveau_env :: nouveau_env where
  "ex_nouveau_env = \<lparr>nk_calloc = \<lambda>_. first_free 10, nk_gem_new = \<lambda>n req _. (0, req\<lparr>gi_handle := of_nat (Suc n)\<rparr>),
     nk_gem_info = \<lambda>_ h. (0, \<lparr>gi_handle = h, gi_domain = 2, gi_size = 4096, gi_offset = 0, gi_map_handle = 0, gi_tile_mode = 0, gi_tile_flags = 0\<rparr>),
     nk_gem_open = \<lambda>_ name. (0, name), nk_flink = \<lambda>_ h. (0, h), nk_fd_to_handle = \<lambda>_ fd. (0, of_int fd),
     nk_handle_to_fd = \<lambda>_ h. (0, uint h)\<rparr>"

definition ex_nouveau_dev :: "u32 \<Rightarrow> nouveau_device_priv" where
  "ex_nouveau_dev chipset = \<lparr>nd_chipset = chipset, nd_have_bo_usage = True, nd_vram_limit = 1000, nd_gart_limit = 1000,
     nd_vram_limit_percent = 80, nd_gart_limit_percent = 80\<rparr>"

theorem bo_config_roundtrip_witness:
  "nb_config (snd (abi16_bo_init ex_nouveau_env (ex_nouveau_dev 0x50) 0 0 (Some \<lparr>nc_word0 = 0x1c8, nc_word1 = 0x20\<rparr>) nvbo_zero)) =
    \<lparr>nc_word0 = 0x1c8, nc_word1 = 0x20\<rparr>"
  by (rule bo_config_roundtrip [where info = "(bo_request (ex_nouveau_dev 0x50) nvbo_zero (Some \<lparr>nc_word0 = 0x1c8, nc_word1 = 0x20\<rparr>))\<lparr>gi_handle := 1\<rparr>"])
    (simp_all add: config_legal_def ex_nouveau_dev_def ex_nouveau_env_def)

end
