(* ===== verification/Nouveau_Share.thy ===== *)
theory Nouveau_Share
  imports Nouveau_Bo
begin

text \<open>
  A program that creates, shares and releases nouveau buffers: in every state it can reach, the list of the device has each
  buffer once, no two buffers have the same handle (else closing one would close the other's), and a buffer lives as long
  as there are references to it.
\<close>

section \<open>The invariant\<close>

text \<open>\<open>C\<close> are the references the program holds. A name is 0, or all ones for a buffer shared by descriptor only, or the kernel's.\<close>

definition named :: "u32 \<Rightarrow> bool" where
  "named n \<longleftrightarrow> n \<noteq> 0 \<and> n \<noteq> NOT 0"

definition unique :: "(nouveau_bo_priv \<Rightarrow> u32) \<Rightarrow> (u32 \<Rightarrow> bool) \<Rightarrow> nouveau_bo_priv heap \<Rightarrow> bool" where
  "unique key P h \<longleftrightarrow> (\<forall>a a' b b'. h a = Some b \<longrightarrow> h a' = Some b' \<longrightarrow> key b = key b' \<longrightarrow> P (key b) \<longrightarrow> a = a')"

definition nbo_inv :: "addr multiset \<Rightarrow> 's nouveau_state_scheme \<Rightarrow> bool" where
  "nbo_inv C s \<longleftrightarrow> \<not> ns_lock s \<and> distinct (ns_bo_list s) \<and> set (ns_bo_list s) = dom (ns_bos s) \<and> ns_bos s NULL = None \<and>
     set_mset C = dom (ns_bos s) \<and> (\<forall>a b. ns_bos s a = Some b \<longrightarrow> nb_refcnt b = int (count C a)) \<and>
     unique nb_handle (\<lambda>_. True) (ns_bos s) \<and> unique nb_name named (ns_bos s)"

text \<open>The kernel: memory that is not in use, and information about the handle that was asked about.\<close>

definition nv_kernel_ok :: "nouveau_env \<Rightarrow> bool" where
  "nv_kernel_ok env \<longleftrightarrow> (\<forall>n. fresh_alloc (nk_calloc env n)) \<and> (\<forall>n h info. nk_gem_info env n h = (0, info) \<longrightarrow> gi_handle info = h)"

text \<open>No buffer but \<open>a\<close> has the key.\<close>

definition owns :: "(nouveau_bo_priv \<Rightarrow> u32) \<Rightarrow> addr \<Rightarrow> u32 \<Rightarrow> nouveau_bo_priv heap \<Rightarrow> bool" where
  "owns key a k h \<longleftrightarrow> (\<forall>x b. h x = Some b \<longrightarrow> key b = k \<longrightarrow> x = a)"

section \<open>The operations keep it\<close>

lemma uniqueD: "unique key P h \<Longrightarrow> h a = Some b \<Longrightarrow> P (key b) \<Longrightarrow> owns key a (key b) h"
  unfolding unique_def owns_def by metis

lemma unique_upd:
  assumes "unique key P h" "P (key b) \<Longrightarrow> owns key a (key b) h"
  shows "unique key P (h(a \<mapsto> b))"
  unfolding unique_def
proof (intro allI impI)
  fix x x' c c'
  assume c: "(h(a \<mapsto> b)) x = Some c" "(h(a \<mapsto> b)) x' = Some c'" "key c = key c'" "P (key c)"
  have "y = a" if "h y = Some d" "key d = key b" "P (key b)" for y d using assms(2) that unfolding owns_def by blast
  note new = this
  have old: "x = x'" if "h x = Some c" "h x' = Some c'" using assms(1) that c(3,4) unfolding unique_def by blast
  consider "x = a" "x' = a" | "x = a" "x' \<noteq> a" | "x \<noteq> a" "x' = a" | "x \<noteq> a" "x' \<noteq> a" by blast
  then show "x = x'"
  proof cases
    case 2
    then show ?thesis using c new [of x' c'] by simp
  next
    case 3
    then show ?thesis using c new [of x c] by simp
  next
    case 4
    then show ?thesis using c old by simp
  qed simp
qed

lemma unique_del: "unique key P h \<Longrightarrow> unique key P (h(a := None))"
  unfolding unique_def by (metis fun_upd_apply option.discI)

lemma nbo_invD:
  assumes "nbo_inv C s"
  shows "\<not> ns_lock s" "distinct (ns_bo_list s)" "set (ns_bo_list s) = dom (ns_bos s)" "ns_bos s NULL = None"
    "set_mset C = dom (ns_bos s)" "\<forall>a b. ns_bos s a = Some b \<longrightarrow> nb_refcnt b = int (count C a)"
    "unique nb_handle (\<lambda>_. True) (ns_bos s)" "unique nb_name named (ns_bos s)"
  using assms unfolding nbo_inv_def by blast+

lemma nbo_inv_bo: "nbo_inv C s \<Longrightarrow> a \<in># C \<Longrightarrow> \<exists>b. ns_bos s a = Some b \<and> a \<noteq> NULL \<and> nb_refcnt b = int (count C a)"
  unfolding nbo_inv_def by (metis domD option.discI)

lemma nbo_inv_tick [simp]: "nbo_inv C (s\<lparr>ns_clock := n\<rparr>) = nbo_inv C s"
  by (simp add: nbo_inv_def)

lemma nbo_inv_cong:
  "ns_bos s' = ns_bos s \<Longrightarrow> ns_bo_list s' = ns_bo_list s \<Longrightarrow> ns_lock s' = ns_lock s \<Longrightarrow> nbo_inv C s \<Longrightarrow> nbo_inv C s'"
  by (simp add: nbo_inv_def)

lemma mark_shared_simps [simp]: "nb_handle (mark_shared b) = nb_handle b" "nb_refcnt (mark_shared b) = nb_refcnt b"
  "nb_name (mark_shared b) = (if nb_name b = 0 then NOT 0 else nb_name b)"
  by (simp_all add: mark_shared_def)

text \<open>A new buffer, with a handle of its own.\<close>

lemma nbo_inv_new:
  assumes "nbo_inv C s" "ns_bos s a = None" "a \<noteq> NULL" "nb_refcnt b = 1" "owns nb_handle a (nb_handle b) (ns_bos s)" "\<not> named (nb_name b)"
  shows "nbo_inv (add_mset a C) (s\<lparr>ns_bos := (ns_bos s)(a \<mapsto> b), ns_bo_list := a # ns_bo_list s\<rparr>)"
proof -
  note i = nbo_invD [OF assms(1)]
  have c: "count C a = 0" using i(5) assms(2) by (metis count_eq_zero_iff domIff)
  have "unique nb_handle (\<lambda>_. True) ((ns_bos s)(a \<mapsto> b))" "unique nb_name named ((ns_bos s)(a \<mapsto> b))"
    using unique_upd [OF i(7)] unique_upd [OF i(8)] assms(5,6) by blast+
  then show ?thesis using i(1-6) assms(2-4) c by (auto simp: nbo_inv_def)
qed

text \<open>The references and the name of a buffer change.\<close>

lemma nbo_inv_change:
  assumes "nbo_inv C s" "ns_bos s a = Some b" "set_mset C' = set_mset C" "\<And>x. x \<noteq> a \<Longrightarrow> count C' x = count C x"
    "nb_refcnt b' = int (count C' a)" "nb_handle b' = nb_handle b" "nb_name b' = nb_name b \<or> (named (nb_name b') \<longrightarrow> owns nb_name a (nb_name b') (ns_bos s))"
  shows "nbo_inv C' (s\<lparr>ns_bos := (ns_bos s)(a \<mapsto> b')\<rparr>)"
proof -
  note i = nbo_invD [OF assms(1)]
  have "unique nb_handle (\<lambda>_. True) ((ns_bos s)(a \<mapsto> b'))"
    using uniqueD [OF i(7) assms(2)] assms(6) by (intro unique_upd [OF i(7)]) simp
  moreover have "unique nb_name named ((ns_bos s)(a \<mapsto> b'))"
    using uniqueD [OF i(8) assms(2)] assms(7) by (intro unique_upd [OF i(8)]) metis
  moreover have "a \<noteq> NULL" using i(4) assms(2) by (metis option.discI)
  ultimately show ?thesis using i(1-6) assms(2-5) by (auto simp: nbo_inv_def)
qed

lemma ref_inv:
  assumes "nbo_inv C s" "a \<in># C"
  shows "\<exists>b. ns_bos s a = Some b \<and> nouveau_bo_ref a NULL s = Some (s\<lparr>ns_bos := (ns_bos s)(a \<mapsto> b\<lparr>nb_refcnt := nb_refcnt b + 1\<rparr>)\<rparr>) \<and>
    nbo_inv (add_mset a C) (s\<lparr>ns_bos := (ns_bos s)(a \<mapsto> b\<lparr>nb_refcnt := nb_refcnt b + 1\<rparr>)\<rparr>)"
proof -
  obtain b where b: "ns_bos s a = Some b" "a \<noteq> NULL" "nb_refcnt b = int (count C a)" using nbo_inv_bo [OF assms] by blast
  have "nbo_inv (add_mset a C) (s\<lparr>ns_bos := (ns_bos s)(a \<mapsto> b\<lparr>nb_refcnt := nb_refcnt b + 1\<rparr>)\<rparr>)"
    using b assms(2) by (intro nbo_inv_change [OF assms(1) b(1)]) auto
  then show ?thesis using b(1,2) by (simp add: nouveau_bo_ref_def nvbo_put_def wr_def)
qed

lemma unref_inv:
  assumes "nbo_inv C s" "a \<in># C"
  shows "\<exists>s'. nouveau_bo_ref NULL a s = Some s' \<and> nbo_inv (C - {#a#}) s'"
proof -
  note i = nbo_invD [OF assms(1)]
  obtain b where b: "ns_bos s a = Some b" "a \<noteq> NULL" "nb_refcnt b = int (count C a)" using nbo_inv_bo [OF assms] by blast
  show ?thesis
  proof (cases "count C a = 1")
    case False
    have c: "0 < count C a" using assms(2) by simp
    then have "set_mset (C - {#a#}) = set_mset C" "int (count C a) \<noteq> 1" "int (count (C - {#a#}) a) = int (count C a) - 1"
      using False by (auto simp: set_eq_iff simp flip: count_greater_zero_iff)
    moreover have "nbo_inv (C - {#a#}) (s\<lparr>ns_bos := (ns_bos s)(a \<mapsto> b\<lparr>nb_refcnt := nb_refcnt b - 1\<rparr>)\<rparr>)"
      using b calculation by (intro nbo_inv_change [OF assms(1) b(1)]) auto
    ultimately show ?thesis using b by (simp add: nouveau_bo_ref_def nvbo_put_def wr_def)
  next
    case True
    let ?s = "s\<lparr>ns_bos := (ns_bos s)(a := None), ns_bo_list := remove1 a (ns_bo_list s), ns_clock := Suc (ns_clock s)\<rparr>"
    have "nouveau_bo_ref NULL a s = Some ?s"
      using b True i(1) by (simp add: nouveau_bo_ref_def nvbo_put_def wr_def nouveau_bo_del_def pthread_mutex_lock_def
          pthread_mutex_unlock_def dealloc_def nv_tick_def)
    moreover have "set_mset (C - {#a#}) = set_mset C - {a}" using True by (auto simp: set_eq_iff simp flip: count_greater_zero_iff)
    then have "nbo_inv (C - {#a#}) ?s"
      using i unique_del [OF i(7), of a] unique_del [OF i(8), of a] by (auto simp: nbo_inv_def)
    ultimately show ?thesis by blast
  qed
qed

lemma find_bo_cases:
  "set as \<subseteq> dom h \<Longrightarrow> (\<exists>a b. find_bo P h as = Some (Some a) \<and> a \<in> set as \<and> h a = Some b \<and> P b) \<or>
    (find_bo P h as = Some None \<and> (\<forall>a \<in> set as. \<forall>b. h a = Some b \<longrightarrow> \<not> P b))"
proof (induction as)
  case (Cons a as)
  then obtain b where "h a = Some b" by auto
  with Cons show ?case by (cases "P b") auto
qed simp

lemma new_inv:
  assumes "nbo_inv C s" "nv_kernel_ok env" "nouveau_bo_new env flags align sz config pbo s = Some (ret, a, s')"
    "ret = 0 \<Longrightarrow> \<forall>x b. ns_bos s x = Some b \<longrightarrow> nb_handle b \<noteq> fld nb_handle (ns_bos s') a"
  shows "if ret = 0 then nbo_inv (add_mset a C) s' else nbo_inv C s'"
proof (cases "nk_calloc env (ns_clock s) (ns_bos s)")
  case None
  then show ?thesis using assms(1,3) by (auto simp: nouveau_bo_new_def nv_tick_def ENOMEM_def)
next
  case (Some x)
  have x: "x \<noteq> NULL" "ns_bos s x = None" using assms(2) Some fresh_allocD unfolding nv_kernel_ok_def by blast+
  obtain r b where rb: "abi16_bo_init env (ns_dev s) (ns_clock s) align config (nvbo_zero\<lparr>nb_refcnt := 1, nb_flags := flags, nb_size := sz\<rparr>) = (r, b)"
    by (meson surj_pair)
  show ?thesis
  proof (cases "r = 0")
    case False
    then show ?thesis using assms(1,3) Some rb by (auto simp: nouveau_bo_new_def nv_tick_def)
  next
    case True
    have b: "nb_refcnt b = 1" "nb_name b = 0" using rb True by (auto simp: abi16_bo_init_def abi16_bo_info_def Let_def nvbo_zero_def split: prod.splits)
    let ?s = "s\<lparr>ns_bos := (ns_bos s)(x \<mapsto> b), ns_bo_list := x # ns_bo_list s\<rparr>"
    have r: "ret = 0" "a = x" "s' = ?s\<lparr>ns_clock := Suc (ns_clock s)\<rparr>"
      using assms(1,3) Some rb True by (auto simp: nouveau_bo_new_def nv_tick_def pthread_mutex_lock_def pthread_mutex_unlock_def nbo_inv_def)
    have "owns nb_handle x (nb_handle b) (ns_bos s)" using assms(4) r by (auto simp: owns_def fld_def)
    then show ?thesis using nbo_inv_new [OF assms(1) x(2,1) b(1)] b(2) r by (simp add: named_def)
  qed
qed

text \<open>Under the lock.\<close>

abbreviation unlocked :: "'s nouveau_state_scheme \<Rightarrow> 's nouveau_state_scheme" where
  "unlocked s \<equiv> s\<lparr>ns_lock := False\<rparr>"

lemma unlocked_bos: "unlocked (s\<lparr>ns_bos := h\<rparr>) = (unlocked s)\<lparr>ns_bos := h\<rparr>"
  by simp

lemma wrap_locked_inv:
  assumes "nbo_inv C (unlocked s)" "nv_kernel_ok env"
  shows "\<exists>ret a s'. nouveau_bo_wrap_locked env h pbo s = Some (ret, a, s') \<and>
    (if ret = 0 then nbo_inv (add_mset a C) (unlocked s') \<and> fld nb_handle (ns_bos s') a = h \<and>
        (\<forall>x b'. ns_bos s' x = Some b' \<longrightarrow> nb_name b' \<noteq> 0 \<longrightarrow> (\<exists>b. ns_bos s x = Some b \<and> nb_name b = nb_name b'))
     else a = pbo \<and> nbo_inv C (unlocked s') \<and> ns_bos s' = ns_bos s)"
proof -
  note i = nbo_invD [OF assms(1), simplified]
  have d: "set (ns_bo_list s) \<subseteq> dom (ns_bos s)" using i(3) by simp
  consider (found) a b where "find_bo (\<lambda>b. nb_handle b = h) (ns_bos s) (ns_bo_list s) = Some (Some a)" "a \<in> set (ns_bo_list s)"
      "ns_bos s a = Some b" "nb_handle b = h"
    | (none) "find_bo (\<lambda>b. nb_handle b = h) (ns_bos s) (ns_bo_list s) = Some None"
      "\<forall>a \<in> set (ns_bo_list s). \<forall>b. ns_bos s a = Some b \<longrightarrow> nb_handle b \<noteq> h"
    using find_bo_cases [OF d, of "\<lambda>b. nb_handle b = h"] by blast
  then show ?thesis
  proof cases
    case found
    then have "a \<in># C" using i(3,5) by auto
    with ref_inv [OF assms(1) this] found show ?thesis
      by (auto simp: nouveau_bo_wrap_locked_def nouveau_bo_ref_def nvbo_put_def wr_def fld_def unlocked_bos)
  next
    case none
    obtain ret info where q: "nk_gem_info env (ns_clock s) h = (ret, info)" by (meson surj_pair)
    show ?thesis
    proof (cases "ret = 0 \<and> nk_calloc env (Suc (ns_clock s)) (ns_bos s) \<noteq> None")
      case False
      then obtain r n where "nouveau_bo_wrap_locked env h pbo s = Some (r, pbo, s\<lparr>ns_clock := n\<rparr>)" "r \<noteq> 0"
        using none(1) q by (cases "ret = 0") (auto simp: nouveau_bo_wrap_locked_def nv_tick_def ENOMEM_def)
      moreover have "nbo_inv C (unlocked (s\<lparr>ns_clock := n\<rparr>))" using assms(1) by (simp add: nbo_inv_def)
      ultimately show ?thesis by auto
    next
      case True
      then obtain a where a: "ret = 0" "nk_calloc env (Suc (ns_clock s)) (ns_bos s) = Some a" by blast
      let ?b = "abi16_bo_info (ns_dev s) info (nvbo_zero\<lparr>nb_refcnt := 1\<rparr>)"
      have b: "nb_refcnt ?b = 1" "nb_name ?b = 0" "nb_handle ?b = h"
        using q a(1) assms(2) by (auto simp: abi16_bo_info_def Let_def nvbo_zero_def nv_kernel_ok_def)
      have x: "a \<noteq> NULL" "ns_bos (unlocked s) a = None" using assms(2) a(2) fresh_allocD unfolding nv_kernel_ok_def by fastforce+
      have "owns nb_handle a (nb_handle ?b) (ns_bos (unlocked s))" using none(2) i(3) b(3) by (auto simp: owns_def)
      then have "nbo_inv (add_mset a C) ((unlocked s)\<lparr>ns_bos := (ns_bos s)(a \<mapsto> ?b), ns_bo_list := a # ns_bo_list s\<rparr>)"
        using nbo_inv_new [OF assms(1) x(2,1) b(1)] b(2) by (simp add: named_def)
      then show ?thesis using none(1) q a b by (auto simp: nouveau_bo_wrap_locked_def nv_tick_def nbo_inv_def fld_def split: if_splits)
    qed
  qed
qed

lemma wrap_inv:
  assumes "nbo_inv C s" "nv_kernel_ok env"
  shows "\<exists>ret a s'. nouveau_bo_wrap env h pbo s = Some (ret, a, s') \<and> (if ret = 0 then nbo_inv (add_mset a C) s' else nbo_inv C s')"
proof -
  have u: "unlocked (s\<lparr>ns_lock := True\<rparr>) = s" "\<not> ns_lock s" using nbo_invD(1) [OF assms(1)] by simp_all
  from wrap_locked_inv [of C "s\<lparr>ns_lock := True\<rparr>" env h pbo] u assms show ?thesis
    by (auto simp: nouveau_bo_wrap_def pthread_mutex_lock_def pthread_mutex_unlock_def split: if_splits)
qed

lemma lock_unlock: "nbo_inv C s \<Longrightarrow> pthread_mutex_lock s = Some (s\<lparr>ns_lock := True\<rparr>) \<and> unlocked (s\<lparr>ns_lock := True\<rparr>) = s"
  by (simp add: pthread_mutex_lock_def nbo_inv_def)

lemma rename_inv:
  assumes "nbo_inv C (unlocked s)" "a \<in># C" "\<And>b. ns_bos s a = Some b \<Longrightarrow> nb_name (f b) = nb_name b \<or> (named (nb_name (f b)) \<longrightarrow> owns nb_name a (nb_name (f b)) (ns_bos s))"
    "\<And>b. nb_handle (f b) = nb_handle b" "\<And>b. nb_refcnt (f b) = nb_refcnt b"
  shows "\<exists>s'. nvbo_put s a f = Some s' \<and> nbo_inv C (unlocked s') \<and> ns_lock s' = ns_lock s"
proof -
  obtain b where b: "ns_bos s a = Some b" "nb_refcnt b = int (count C a)" using nbo_inv_bo [OF assms(1,2)] by auto
  have "nbo_inv C ((unlocked s)\<lparr>ns_bos := (ns_bos s)(a \<mapsto> f b)\<rparr>)"
    using nbo_inv_change [OF assms(1), of a b C "f b"] assms(3) [OF b(1)] assms(4,5) b by simp
  then show ?thesis using b(1) by (simp add: nvbo_put_def wr_def unlocked_bos)
qed

lemma name_ref_inv:
  assumes "nbo_inv C s" "nv_kernel_ok env" "named name" "nouveau_bo_name_ref env name pbo s = Some (0, a, s')" "\<not> ns_lock s'"
  shows "nbo_inv (add_mset a C) s'"
proof -
  note i = nbo_invD [OF assms(1)] and l = lock_unlock [OF assms(1)]
  let ?s = "s\<lparr>ns_lock := True\<rparr>"
  have d: "set (ns_bo_list s) \<subseteq> dom (ns_bos s)" using i(3) by simp
  consider (found) x b where "find_bo (\<lambda>b. nb_name b = name) (ns_bos s) (ns_bo_list s) = Some (Some x)" "x \<in> set (ns_bo_list s)"
      "ns_bos s x = Some b" "nb_name b = name"
    | (none) "find_bo (\<lambda>b. nb_name b = name) (ns_bos s) (ns_bo_list s) = Some None"
      "\<forall>a \<in> set (ns_bo_list s). \<forall>b. ns_bos s a = Some b \<longrightarrow> nb_name b \<noteq> name"
    using find_bo_cases [OF d, of "\<lambda>b. nb_name b = name"] by blast
  then show ?thesis
  proof cases
    case found
    then have "x \<in># C" using i(3,5) by auto
    then obtain c where c: "ns_bos s x = Some c" "x \<noteq> NULL" using nbo_inv_bo [OF assms(1)] by blast
    let ?h = "(ns_bos s)(x \<mapsto> c\<lparr>nb_refcnt := nb_refcnt c + 1\<rparr>)"
    have "a = x" "s' = s\<lparr>ns_bos := ?h\<rparr>" using found(1) c assms(4) l
      by (auto simp: nouveau_bo_name_ref_def nouveau_bo_ref_def nvbo_put_def wr_def pthread_mutex_unlock_def unlocked_bos)
    then show ?thesis using ref_inv [OF assms(1) \<open>x \<in># C\<close>] c(1) by auto
  next
    case none
    obtain r h where q: "nk_gem_open env (ns_clock s) name = (r, h)" by (meson surj_pair)
    have r: "r = 0" using assms(4,5) none(1) q l by (auto simp: nouveau_bo_name_ref_def nv_tick_def Let_def split: if_splits)
    have iu: "nbo_inv C (unlocked (nv_tick ?s))" using assms(1) l by (simp add: nv_tick_def nbo_inv_def)
    obtain ret x t where w: "nouveau_bo_wrap_locked env h pbo (nv_tick ?s) = Some (ret, x, t)" and
      w': "if ret = 0 then nbo_inv (add_mset x C) (unlocked t) \<and> fld nb_handle (ns_bos t) x = h \<and>
        (\<forall>y b'. ns_bos t y = Some b' \<longrightarrow> nb_name b' \<noteq> 0 \<longrightarrow> (\<exists>b. ns_bos (nv_tick ?s) y = Some b \<and> nb_name b = nb_name b'))
        else x = pbo \<and> nbo_inv C (unlocked t) \<and> ns_bos t = ns_bos (nv_tick ?s)"
      using wrap_locked_inv [OF iu assms(2), of h pbo] by blast
    have e: "ret = 0" "a = x" "\<exists>t'. nvbo_put t x (\<lambda>b. b\<lparr>nb_name := name\<rparr>) = Some t' \<and> s' = unlocked t'"
      using assms(4) none(1) q r w l by (auto simp: nouveau_bo_name_ref_def nv_tick_def pthread_mutex_unlock_def split: bind_splits)
    have "nb_name b' \<noteq> name" if b': "ns_bos t y = Some b'" for y b'
    proof
      assume "nb_name b' = name"
      then obtain b where "ns_bos s y = Some b" "nb_name b = name" using w' e(1) b' assms(3) by (auto simp: nv_tick_def named_def)
      then show False using none(2) i(3) by (metis domI)
    qed
    then have "owns nb_name x name (ns_bos t)" by (auto simp: owns_def)
    then show ?thesis using rename_inv [of "add_mset x C" t x "\<lambda>b. b\<lparr>nb_name := name\<rparr>"] w' e by auto
  qed
qed

lemma name_get_inv:
  assumes "nbo_inv C s" "a \<in># C" "nouveau_bo_name_get env a s = Some (ret, name, s')" "ret = 0 \<Longrightarrow> owns nb_name a name (ns_bos s)"
  shows "nbo_inv C s'"
proof -
  obtain b where b: "ns_bos s a = Some b" "nb_refcnt b = int (count C a)" using nbo_inv_bo [OF assms(1,2)] by blast
  have "ns_bos s' = ns_bos s \<or> ret = 0 \<and> ns_bos s' = (ns_bos s)(a \<mapsto> b\<lparr>nb_name := name\<rparr>)" "ns_bo_list s' = ns_bo_list s" "ns_lock s' = ns_lock s"
    using assms(3) b by (auto simp: nouveau_bo_name_get_def nvbo_put_def wr_def nv_tick_def Let_def split: if_splits prod.splits)
  moreover have "nbo_inv C (s\<lparr>ns_bos := (ns_bos s)(a \<mapsto> b\<lparr>nb_name := name\<rparr>)\<rparr>)" if "ret = 0"
    using nbo_inv_change [OF assms(1) b(1), of C "b\<lparr>nb_name := name\<rparr>"] assms(4) [OF that] b(2) by simp
  ultimately show ?thesis using nbo_inv_cong [OF _ _ _ assms(1), of s'] nbo_inv_cong [of s' "s\<lparr>ns_bos := _\<rparr>" C] by auto
qed

lemma set_prime_inv:
  assumes "nbo_inv C s" "a \<in># C" "nouveau_bo_set_prime env a s = Some (ret, fd, s')"
  shows "nbo_inv C s'"
proof -
  obtain b where b: "ns_bos s a = Some b" "nb_refcnt b = int (count C a)" using nbo_inv_bo [OF assms(1,2)] by blast
  have "ns_bos s' = ns_bos s \<or> ns_bos s' = (ns_bos s)(a \<mapsto> mark_shared b)" "ns_bo_list s' = ns_bo_list s" "ns_lock s' = ns_lock s"
    using assms(3) b by (auto simp: nouveau_bo_set_prime_def nvbo_put_def wr_def nv_tick_def Let_def split: if_splits prod.splits)
  moreover have "nbo_inv C (s\<lparr>ns_bos := (ns_bos s)(a \<mapsto> mark_shared b)\<rparr>)"
    using nbo_inv_change [OF assms(1) b(1), of C "mark_shared b"] b(2) by (simp add: named_def)
  ultimately show ?thesis using nbo_inv_cong [OF _ _ _ assms(1), of s'] nbo_inv_cong [of s' "s\<lparr>ns_bos := _\<rparr>" C] by auto
qed

lemma prime_handle_ref_inv:
  assumes "nbo_inv C s" "bo = NULL \<or> bo \<in># C" "nv_kernel_ok env"
  shows "\<exists>ret a s'. nouveau_bo_prime_handle_ref env fd bo s = Some (ret, a, s') \<and>
    nbo_inv ((if ret = 0 then {#a#} else {#}) + (C - {#bo#})) s'"
proof -
  have n: "NULL \<notin># C" using nbo_invD(4,5) [OF assms(1)] by (metis domIff)
  obtain t where t: "nouveau_bo_ref NULL bo s = Some t" "nbo_inv (C - {#bo#}) t"
    using unref_inv [OF assms(1), of bo] assms(1,2) n by (cases "bo = NULL") (auto simp: nouveau_bo_ref_def)
  note l = lock_unlock [OF t(2)]
  let ?t = "nv_tick (t\<lparr>ns_lock := True\<rparr>)"
  obtain r h where q: "nk_fd_to_handle env (ns_clock t) fd = (r, h)" by (meson surj_pair)
  have iu: "nbo_inv (C - {#bo#}) (unlocked ?t)" using t(2) l by (simp add: nv_tick_def nbo_inv_def)
  show ?thesis
  proof (cases "r = 0")
    case False
    then show ?thesis using t(1) l q iu by (simp add: nouveau_bo_prime_handle_ref_def pthread_mutex_unlock_def nv_tick_def)
  next
    case True
    obtain ret a u where w: "nouveau_bo_wrap_locked env h NULL ?t = Some (ret, a, u)" and
      w': "if ret = 0 then nbo_inv (add_mset a (C - {#bo#})) (unlocked u) else nbo_inv (C - {#bo#}) (unlocked u)"
      using wrap_locked_inv [OF iu assms(3), of h NULL] by (auto split: if_splits)
    show ?thesis
    proof (cases "ret = 0")
      case False
      then show ?thesis using t(1) l q True w w' by (simp add: nouveau_bo_prime_handle_ref_def pthread_mutex_unlock_def nv_tick_def)
    next
      case ret: True
      obtain v where v: "nvbo_put u a mark_shared = Some v" "nbo_inv (add_mset a (C - {#bo#})) (unlocked v)"
      proof -
        have "nb_name (mark_shared b) = nb_name b \<or> (named (nb_name (mark_shared b)) \<longrightarrow> owns nb_name a (nb_name (mark_shared b)) (ns_bos u))"
          for b by (simp add: named_def)
        then show ?thesis using that rename_inv [of "add_mset a (C - {#bo#})" u a mark_shared] w' ret by auto
      qed
      then show ?thesis using t(1) l q True w ret by (simp add: nouveau_bo_prime_handle_ref_def pthread_mutex_unlock_def nv_tick_def)
    qed
  qed
qed

section \<open>Programs\<close>

text \<open>
  What a program may do: it uses the buffers it holds, asks for names the kernel gave out, and the kernel gives a new buffer a
  handle, and a buffer a name, that no other buffer has. A name that cannot be opened leaves the mutex held and ends the
  program; there is no step for it.
\<close>

inductive nbo_step :: "nouveau_env \<Rightarrow> addr multiset \<times> nouveau_state \<Rightarrow> addr multiset \<times> nouveau_state \<Rightarrow> bool" for env where
  bo_new: "nouveau_bo_new env flags align sz config NULL s = Some (ret, a, s') \<Longrightarrow>
    (ret = 0 \<Longrightarrow> \<forall>x b. ns_bos s x = Some b \<longrightarrow> nb_handle b \<noteq> fld nb_handle (ns_bos s') a) \<Longrightarrow>
    nbo_step env (C, s) ((if ret = 0 then {#a#} else {#}) + C, s')"
| bo_wrap: "nouveau_bo_wrap env h NULL s = Some (ret, a, s') \<Longrightarrow> nbo_step env (C, s) ((if ret = 0 then {#a#} else {#}) + C, s')"
| bo_name_ref: "named name \<Longrightarrow> nouveau_bo_name_ref env name NULL s = Some (0, a, s') \<Longrightarrow> \<not> ns_lock s' \<Longrightarrow> nbo_step env (C, s) (add_mset a C, s')"
| bo_name_get: "a \<in># C \<Longrightarrow> nouveau_bo_name_get env a s = Some (ret, name, s') \<Longrightarrow> (ret = 0 \<Longrightarrow> owns nb_name a name (ns_bos s)) \<Longrightarrow> nbo_step env (C, s) (C, s')"
| bo_set_prime: "a \<in># C \<Longrightarrow> nouveau_bo_set_prime env a s = Some (ret, fd, s') \<Longrightarrow> nbo_step env (C, s) (C, s')"
| bo_prime_handle_ref: "bo = NULL \<or> bo \<in># C \<Longrightarrow> nouveau_bo_prime_handle_ref env fd bo s = Some (ret, a, s') \<Longrightarrow>
    nbo_step env (C, s) ((if ret = 0 then {#a#} else {#}) + (C - {#bo#}), s')"
| bo_ref: "a \<in># C \<Longrightarrow> nouveau_bo_ref a NULL s = Some s' \<Longrightarrow> nbo_step env (C, s) (add_mset a C, s')"
| bo_unref: "a \<in># C \<Longrightarrow> nouveau_bo_ref NULL a s = Some s' \<Longrightarrow> nbo_step env (C, s) (C - {#a#}, s')"

definition fresh_device :: "nouveau_state \<Rightarrow> bool" where
  "fresh_device s \<longleftrightarrow> ns_bos s = Map.empty \<and> ns_bo_list s = [] \<and> \<not> ns_lock s"

inductive nbo_reach :: "nouveau_env \<Rightarrow> addr multiset \<Rightarrow> nouveau_state \<Rightarrow> bool" for env where
  reach_open: "fresh_device s \<Longrightarrow> nbo_reach env {#} s"
| reach_step: "nbo_reach env C s \<Longrightarrow> nbo_step env (C, s) (C', s') \<Longrightarrow> nbo_reach env C' s'"

lemma nbo_step_inv:
  assumes "nbo_step env (C, s) (C', s')" "nv_kernel_ok env" "nbo_inv C s"
  shows "nbo_inv C' s'"
  using assms(1)
proof cases
  case (bo_new flags align sz config ret a)
  then show ?thesis using new_inv [OF assms(3,2), of flags align sz config NULL ret a s'] by (auto split: if_splits)
next
  case (bo_wrap h ret a)
  then show ?thesis using wrap_inv [OF assms(3,2), of h NULL] by (auto split: if_splits)
next
  case (bo_name_ref name a)
  then show ?thesis using name_ref_inv [OF assms(3,2)] by blast
next
  case (bo_name_get a ret name)
  then show ?thesis using name_get_inv [OF assms(3)] by blast
next
  case (bo_set_prime a ret fd)
  then show ?thesis using set_prime_inv [OF assms(3)] by blast
next
  case (bo_prime_handle_ref bo fd ret a)
  then show ?thesis using prime_handle_ref_inv [OF assms(3) _ assms(2), of bo fd] by auto
next
  case (bo_ref a)
  then show ?thesis using ref_inv [OF assms(3), of a] by auto
next
  case (bo_unref a)
  then show ?thesis using unref_inv [OF assms(3), of a] by auto
qed

lemma nbo_reach_inv:
  assumes "nbo_reach env C s" "nv_kernel_ok env"
  shows "nbo_inv C s"
  using assms(1)
proof induction
  case (reach_open s)
  then show ?case by (simp add: fresh_device_def nbo_inv_def unique_def)
next
  case (reach_step C s C' s')
  then show ?case using nbo_step_inv assms(2) by blast
qed

section \<open>Theorems\<close>


definition ex_nouveau_state :: nouveau_state where
  "ex_nouveau_state = \<lparr>ns_dev = ex_nouveau_dev 0x50, ns_bos = Map.empty, ns_bo_list = [], ns_lock = False, ns_clock = 0\<rparr>"

definition ex_wrapped :: nouveau_state where
  "ex_wrapped = ex_nouveau_state\<lparr>ns_clock := 2, ns_bo_list := [1],
     ns_bos := [1 \<mapsto> abi16_bo_info (ex_nouveau_dev 0x50) (snd (nk_gem_info ex_nouveau_env 0 7)) (nvbo_zero\<lparr>nb_refcnt := 1\<rparr>)]\<rparr>"

lemma ex_nouveau_kernel: "nv_kernel_ok ex_nouveau_env"
  by (auto simp: nv_kernel_ok_def ex_nouveau_env_def fresh_first_free)

lemma ex_nouveau_wrap:
  "nouveau_bo_wrap ex_nouveau_env 7 NULL ex_nouveau_state = Some (0, 1, ex_wrapped)"
proof -
  have "[Suc 0..<10] = 1 # [2..<10]" by (simp add: upt_conv_Cons del: upt_Suc)
  then show ?thesis
    by (simp add: nouveau_bo_wrap_def nouveau_bo_wrap_locked_def pthread_mutex_lock_def pthread_mutex_unlock_def ex_nouveau_state_def ex_wrapped_def
        ex_nouveau_env_def first_free_def nv_tick_def)
qed

lemma ex_nouveau_reach:
  "nbo_reach ex_nouveau_env {#1#} ex_wrapped"
  using reach_step [OF reach_open bo_wrap [OF ex_nouveau_wrap]] by (simp add: fresh_device_def ex_nouveau_state_def)


text \<open>C39. Opening the name that \<open>nouveau_bo_name_get\<close> returned for a buffer gives a reference to that very buffer.\<close>

theorem name_get_ref:
  assumes "nv_kernel_ok env" "nbo_reach env C s" "a \<in># C" "nouveau_bo_name_get env a s = Some (0, name, s1)"
    "named name" "owns nb_name a name (ns_bos s)"
  shows "\<exists>b. ns_bos s1 a = Some b \<and>
    nouveau_bo_name_ref env name pbo s1 = Some (0, a, s1\<lparr>ns_bos := (ns_bos s1)(a \<mapsto> b\<lparr>nb_refcnt := nb_refcnt b + 1\<rparr>)\<rparr>)"
proof -
  have i: "nbo_inv C s1" using name_get_inv [OF nbo_reach_inv [OF assms(2,1)] assms(3,4)] assms(6) by blast
  note l = lock_unlock [OF i]
  obtain b where b: "ns_bos s1 a = Some b" "a \<noteq> NULL" using nbo_inv_bo [OF i assms(3)] by blast
  have n: "nb_name b = name" using b(1) assms(4)
    by (auto simp: nouveau_bo_name_get_def nvbo_put_def wr_def nv_tick_def Let_def split: bind_splits if_splits prod.splits option.splits)
  have d: "set (ns_bo_list s1) \<subseteq> dom (ns_bos s1)" "a \<in> set (ns_bo_list s1)" using nbo_invD(3) [OF i] b(1) by auto
  have o: "owns nb_name a name (ns_bos s1)" using uniqueD [OF nbo_invD(8) [OF i] b(1)] n assms(5) by simp
  have "find_bo (\<lambda>b. nb_name b = name) (ns_bos s1) (ns_bo_list s1) = Some (Some a)"
    using find_bo_cases [OF d(1), of "\<lambda>b. nb_name b = name"] d(2) b(1) n o unfolding owns_def by blast
  then show ?thesis using b l
    by (auto simp: nouveau_bo_name_ref_def nouveau_bo_ref_def nvbo_put_def wr_def pthread_mutex_unlock_def unlocked_bos)
qed

lemma ex_name_get:
  "nouveau_bo_name_get ex_nouveau_env 1 ex_wrapped = Some (0, 7, ex_wrapped\<lparr>ns_clock := 3,
     ns_bos := [1 \<mapsto> (the (ns_bos ex_wrapped 1))\<lparr>nb_name := 7\<rparr>]\<rparr>)"
  by (simp add: nouveau_bo_name_get_def ex_wrapped_def abi16_bo_info_def nvbo_zero_def ex_nouveau_env_def nv_tick_def nvbo_put_def wr_def
      ex_nouveau_state_def ex_nouveau_dev_def)

theorem name_get_ref_witness:
  "\<exists>s2. nouveau_bo_name_ref ex_nouveau_env 7 NULL (ex_wrapped\<lparr>ns_clock := 3,
     ns_bos := [1 \<mapsto> (the (ns_bos ex_wrapped 1))\<lparr>nb_name := 7\<rparr>]\<rparr>) = Some (0, 1, s2)"
proof -
  have "named 7" by (simp add: named_def)
  moreover have "owns nb_name 1 7 (ns_bos ex_wrapped)" by (simp add: owns_def ex_wrapped_def)
  ultimately show ?thesis
    using name_get_ref [OF ex_nouveau_kernel ex_nouveau_reach _ ex_name_get, of NULL] by auto
qed

text \<open>Opening a name that the kernel does not know leaves the mutex held: no other buffer can be wrapped any more.\<close>

lemma failed_open_holds_lock:
  assumes "nbo_inv C s" "\<forall>b \<in> ran (ns_bos s). nb_name b \<noteq> name" "nk_gem_open env (ns_clock s) name = (ret, h)" "ret \<noteq> 0"
  shows "\<exists>s'. nouveau_bo_name_ref env name pbo s = Some (ret, pbo, s') \<and> (\<forall>h' p. nouveau_bo_wrap env h' p s' = None)"
proof -
  have d: "set (ns_bo_list s) \<subseteq> dom (ns_bos s)" using nbo_invD(3) [OF assms(1)] by simp
  have "find_bo (\<lambda>b. nb_name b = name) (ns_bos s) (ns_bo_list s) = Some None"
    using find_bo_cases [OF d, of "\<lambda>b. nb_name b = name"] assms(2) by (auto simp: ran_def)
  then show ?thesis using lock_unlock [OF assms(1)] assms(3,4)
    by (simp add: nouveau_bo_name_ref_def nv_tick_def nouveau_bo_wrap_def pthread_mutex_lock_def)
qed

end
