(* ===== verification/Nouveau_Bufctx.thy ===== *)
theory Nouveau_Bufctx
  imports C_Prelude "HOL-Library.Multiset"
begin

text \<open>
  Buffer contexts, \<open>nouveau/bufctx.c\<close>: references to buffers, sorted into bins that are reset one at a time. A reference is
  in the chain of its bin and on one of two lists, the pending one or, once validated, the current one; those of a bin that was
  reset are kept in a chain of free ones. The two lists are lists of the verified macros and stand here for themselves.
\<close>

section \<open>Structures\<close>

record nouveau_bufref_priv =
  br_bo :: addr
  br_packet :: u32
  br_flags :: u32
  br_data :: u32
  br_vor :: u32
  br_tor :: u32
  br_next :: addr
  br_bufctx :: addr

record nouveau_bufbin_priv =
  bb_list :: addr
  bb_relocs :: int

record nouveau_bufctx_priv =
  bc_pending :: "addr list"
  bc_current :: "addr list"
  bc_relocs :: int
  bc_free :: addr
  bc_nr_bins :: nat
  bc_bins :: "nouveau_bufbin_priv list"

record bufctx_state =
  bs_refs :: "nouveau_bufref_priv heap"
  bs_ctxs :: "nouveau_bufctx_priv heap"
  bs_clock :: nat

text \<open>\<open>malloc\<close> leaves in a reference what \<open>be_junk\<close> says.\<close>

record bufctx_env =
  be_malloc :: "nat \<Rightarrow> nouveau_bufref_priv allocator"
  be_calloc :: "nat \<Rightarrow> nouveau_bufctx_priv allocator"
  be_junk :: "nat \<Rightarrow> nouveau_bufref_priv"

definition ref_put :: "'s bufctx_state_scheme \<Rightarrow> addr \<Rightarrow> (nouveau_bufref_priv \<Rightarrow> nouveau_bufref_priv) \<Rightarrow> 's bufctx_state_scheme option" where
  "ref_put s r f = do { h \<leftarrow> wr (bs_refs s) r f; Some (s\<lparr>bs_refs := h\<rparr>) }"

definition ctx_put :: "'s bufctx_state_scheme \<Rightarrow> addr \<Rightarrow> (nouveau_bufctx_priv \<Rightarrow> nouveau_bufctx_priv) \<Rightarrow> 's bufctx_state_scheme option" where
  "ctx_put s c f = do { h \<leftarrow> wr (bs_ctxs s) c f; Some (s\<lparr>bs_ctxs := h\<rparr>) }"

text \<open>\<open>&pctx->bins[bin]\<close> must be one of the bins there is memory for.\<close>

definition bin_get :: "'s bufctx_state_scheme \<Rightarrow> addr \<Rightarrow> nat \<Rightarrow> nouveau_bufbin_priv option" where
  "bin_get s c bin = do { x \<leftarrow> bs_ctxs s c; c_assert (bin < length (bc_bins x)); Some (bc_bins x ! bin) }"

definition bin_put :: "'s bufctx_state_scheme \<Rightarrow> addr \<Rightarrow> nat \<Rightarrow> (nouveau_bufbin_priv \<Rightarrow> nouveau_bufbin_priv) \<Rightarrow> 's bufctx_state_scheme option" where
  "bin_put s c bin f = do {
     b \<leftarrow> bin_get s c bin;
     ctx_put s c (\<lambda>x. x\<lparr>bc_bins := (bc_bins x)[bin := f b]\<rparr>)
   }"

section \<open>Operations\<close>

definition nouveau_bufctx_new :: "bufctx_env \<Rightarrow> nat \<Rightarrow> 's bufctx_state_scheme \<Rightarrow> int \<times> addr \<times> 's bufctx_state_scheme" where
  "nouveau_bufctx_new env bins s =
    (let t = s\<lparr>bs_clock := Suc (bs_clock s)\<rparr> in
     case be_calloc env (bs_clock s) (bs_ctxs s) of
       None \<Rightarrow> (- ENOMEM, NULL, t)
     | Some c \<Rightarrow> (0, c, t\<lparr>bs_ctxs := (bs_ctxs s)(c \<mapsto> \<lparr>bc_pending = [], bc_current = [], bc_relocs = 0, bc_free = NULL,
         bc_nr_bins = bins, bc_bins = replicate bins \<lparr>bb_list = NULL, bb_relocs = 0\<rparr>\<rparr>)\<rparr>))"

text \<open>\<open>DRMLISTDELINIT\<close> takes a reference off the list it is on.\<close>

partial_function (option) reset_loop :: "addr \<Rightarrow> nat \<Rightarrow> 's bufctx_state_scheme \<Rightarrow> 's bufctx_state_scheme option" where
  "reset_loop c bin s = do {
     b \<leftarrow> bin_get s c bin;
     let pref = bb_list b;
     if pref = NULL then Some s
     else do {
       s \<leftarrow> ctx_put s c (\<lambda>x. x\<lparr>bc_pending := remove1 pref (bc_pending x), bc_current := remove1 pref (bc_current x)\<rparr>);
       next_ref \<leftarrow> ld (bs_refs s) pref br_next;
       s \<leftarrow> bin_put s c bin (\<lambda>b. b\<lparr>bb_list := next_ref\<rparr>);
       free_ref \<leftarrow> ld (bs_ctxs s) c bc_free;
       s \<leftarrow> ref_put s pref (\<lambda>r. r\<lparr>br_next := free_ref\<rparr>);
       s \<leftarrow> ctx_put s c (\<lambda>x. x\<lparr>bc_free := pref\<rparr>);
       reset_loop c bin s
     }
   }"

definition nouveau_bufctx_reset :: "addr \<Rightarrow> nat \<Rightarrow> 's bufctx_state_scheme \<Rightarrow> 's bufctx_state_scheme option" where
  "nouveau_bufctx_reset c bin s = do {
     s \<leftarrow> reset_loop c bin s;
     b \<leftarrow> bin_get s c bin;
     s \<leftarrow> ctx_put s c (\<lambda>x. x\<lparr>bc_relocs := bc_relocs x - bb_relocs b\<rparr>);
     bin_put s c bin (\<lambda>b. b\<lparr>bb_relocs := 0\<rparr>)
   }"

definition nouveau_bufctx_refn ::
  "bufctx_env \<Rightarrow> addr \<Rightarrow> nat \<Rightarrow> addr \<Rightarrow> u32 \<Rightarrow> 's bufctx_state_scheme \<Rightarrow> (addr \<times> 's bufctx_state_scheme) option" where
  "nouveau_bufctx_refn env c bin bo flags s = do {
     b \<leftarrow> bin_get s c bin;
     pref \<leftarrow> ld (bs_ctxs s) c bc_free;
     (pref, s) \<leftarrow> (if pref = NULL then
         Some (case be_malloc env (bs_clock s) (bs_refs s) of
           None \<Rightarrow> (NULL, s\<lparr>bs_clock := Suc (bs_clock s)\<rparr>)
         | Some r \<Rightarrow> (r, s\<lparr>bs_clock := Suc (bs_clock s), bs_refs := (bs_refs s)(r \<mapsto> be_junk env (bs_clock s))\<rparr>))
       else do {
         next_ref \<leftarrow> ld (bs_refs s) pref br_next;
         s \<leftarrow> ctx_put s c (\<lambda>x. x\<lparr>bc_free := next_ref\<rparr>);
         Some (pref, s)
       });
     if pref = NULL then Some (NULL, s)
     else do {
       s \<leftarrow> ref_put s pref (\<lambda>r. r\<lparr>br_bo := bo, br_flags := flags, br_packet := 0\<rparr>);
       s \<leftarrow> ctx_put s c (\<lambda>x. x\<lparr>bc_pending := bc_pending x @ [pref]\<rparr>);
       s \<leftarrow> ref_put s pref (\<lambda>r. r\<lparr>br_bufctx := c, br_next := bb_list b\<rparr>);
       s \<leftarrow> bin_put s c bin (\<lambda>b. b\<lparr>bb_list := pref\<rparr>);
       Some (pref, s)
     }
   }"

text \<open>\<open>data\<close> comes as 64 bits and is kept as 32.\<close>

definition nouveau_bufctx_mthd ::
  "bufctx_env \<Rightarrow> addr \<Rightarrow> nat \<Rightarrow> u32 \<Rightarrow> addr \<Rightarrow> u64 \<Rightarrow> u32 \<Rightarrow> u32 \<Rightarrow> u32 \<Rightarrow> 's bufctx_state_scheme \<Rightarrow> (addr \<times> 's bufctx_state_scheme) option" where
  "nouveau_bufctx_mthd env c bin packet bo data flags vor tor s = do {
     (bref, s) \<leftarrow> nouveau_bufctx_refn env c bin bo flags s;
     if bref = NULL then Some (NULL, s)
     else do {
       s \<leftarrow> ref_put s bref (\<lambda>r. r\<lparr>br_packet := packet, br_data := ucast data, br_vor := vor, br_tor := tor\<rparr>);
       s \<leftarrow> bin_put s c bin (\<lambda>b. b\<lparr>bb_relocs := bb_relocs b + 1\<rparr>);
       s \<leftarrow> ctx_put s c (\<lambda>x. x\<lparr>bc_relocs := bc_relocs x + 1\<rparr>);
       Some (bref, s)
     }
   }"

text \<open>The loops of \<open>nouveau_bufctx_del\<close>: over the bins from the last, then over the free references.\<close>

primrec reset_bins :: "addr \<Rightarrow> nat \<Rightarrow> 's bufctx_state_scheme \<Rightarrow> 's bufctx_state_scheme option" where
  "reset_bins c 0 s = Some s"
| "reset_bins c (Suc n) s = do { s \<leftarrow> nouveau_bufctx_reset c n s; reset_bins c n s }"

partial_function (option) free_loop :: "addr \<Rightarrow> 's bufctx_state_scheme \<Rightarrow> 's bufctx_state_scheme option" where
  "free_loop c s = do {
     pref \<leftarrow> ld (bs_ctxs s) c bc_free;
     if pref = NULL then Some s
     else do {
       next_ref \<leftarrow> ld (bs_refs s) pref br_next;
       s \<leftarrow> ctx_put s c (\<lambda>x. x\<lparr>bc_free := next_ref\<rparr>);
       h \<leftarrow> dealloc (bs_refs s) pref;
       free_loop c (s\<lparr>bs_refs := h\<rparr>)
     }
   }"

definition nouveau_bufctx_del :: "addr \<Rightarrow> 's bufctx_state_scheme \<Rightarrow> 's bufctx_state_scheme option" where
  "nouveau_bufctx_del c s =
    (if c = NULL then Some s
     else do {
       n \<leftarrow> ld (bs_ctxs s) c bc_nr_bins;
       s \<leftarrow> reset_bins c n s;
       s \<leftarrow> free_loop c s;
       h \<leftarrow> dealloc (bs_ctxs s) c;
       Some (s\<lparr>bs_ctxs := h\<rparr>)
     })"

text \<open>
  What the push buffer does with a context: \<open>pushbuf_validate\<close> makes the pending references current and
  \<open>pushbuf_flush\<close> makes the current ones pending again. Each is a \<open>DRMLISTJOIN\<close>, which puts what it joins in front.
\<close>

definition bctx_validated :: "addr \<Rightarrow> 's bufctx_state_scheme \<Rightarrow> 's bufctx_state_scheme option" where
  "bctx_validated c s = ctx_put s c (\<lambda>x. x\<lparr>bc_current := bc_pending x @ bc_current x, bc_pending := []\<rparr>)"

definition bctx_flushed :: "addr \<Rightarrow> 's bufctx_state_scheme \<Rightarrow> 's bufctx_state_scheme option" where
  "bctx_flushed c s = ctx_put s c (\<lambda>x. x\<lparr>bc_pending := bc_current x @ bc_pending x, bc_current := []\<rparr>)"

section \<open>The invariant\<close>

text \<open>
  The bins hold the references \<open>Bs\<close>, the free chain holds \<open>F\<close>. All of them are memory of the context and different from the
  memory \<open>R\<close> of others; what is in bins is on one of the two lists.
\<close>

definition own_refs :: "nouveau_bufref_priv heap \<Rightarrow> addr list \<Rightarrow> nouveau_bufref_priv heap \<Rightarrow> bool" where
  "own_refs R xs h \<longleftrightarrow> distinct xs \<and> NULL \<notin> set xs \<and> set xs \<subseteq> dom h \<and> set xs \<inter> dom R = {} \<and> (\<forall>a. a \<notin> set xs \<longrightarrow> h a = R a)"

definition bctx_lists :: "nouveau_bufref_priv heap \<Rightarrow> addr list list \<Rightarrow> addr list \<Rightarrow> nouveau_bufref_priv heap \<Rightarrow> nouveau_bufctx_priv \<Rightarrow> bool" where
  "bctx_lists R Bs F h x \<longleftrightarrow> own_refs R (concat Bs @ F) h \<and> bc_nr_bins x = length (bc_bins x) \<and>
     list_all2 (\<lambda>b xs. chain (fld br_next h) (bb_list b) xs NULL) (bc_bins x) Bs \<and>
     chain (fld br_next h) (bc_free x) F NULL \<and> mset (bc_pending x) + mset (bc_current x) = mset (concat Bs)"

text \<open>The references of a list that come with a method; the counters count them.\<close>

definition methods :: "nouveau_bufref_priv heap \<Rightarrow> addr list \<Rightarrow> int" where
  "methods h xs = int (length (filter (\<lambda>r. fld br_packet h r \<noteq> 0) xs))"

definition bctx_relocs :: "addr list list \<Rightarrow> nouveau_bufref_priv heap \<Rightarrow> nouveau_bufctx_priv \<Rightarrow> bool" where
  "bctx_relocs Bs h x \<longleftrightarrow> map bb_relocs (bc_bins x) = map (methods h) Bs \<and> bc_relocs x = methods h (concat Bs)"

definition bctx_inv :: "addr \<Rightarrow> nouveau_bufref_priv heap \<Rightarrow> 's bufctx_state_scheme \<Rightarrow> bool" where
  "bctx_inv c R s \<longleftrightarrow> c \<noteq> NULL \<and> (\<exists>x Bs F. bs_ctxs s c = Some x \<and> bctx_lists R Bs F (bs_refs s) x \<and> bctx_relocs Bs (bs_refs s) x)"

lemma own_refs_perm: "own_refs R xs h \<Longrightarrow> mset ys = mset xs \<Longrightarrow> own_refs R ys h"
  unfolding own_refs_def using mset_eq_setD mset_eq_imp_distinct_iff by metis

lemma mset_concat_update:
  assumes "i < length Bs"
  shows "mset (concat (Bs[i := ys])) + mset (Bs ! i) = mset (concat Bs) + mset ys"
proof -
  obtain A B where "Bs = A @ Bs ! i # B" "length A = i" using id_take_nth_drop [OF assms] assms by (metis length_take min.absorb4)
  then have "Bs[i := ys] = A @ ys # B" "mset (concat Bs) = mset (concat A) + mset (Bs ! i) + mset (concat B)"
    by (metis list_update_length, metis add.assoc concat.simps(2) concat_append mset_append)
  then show ?thesis by simp
qed

lemma own_refs_setf: "own_refs R xs h \<Longrightarrow> r \<in> set xs \<Longrightarrow> own_refs R xs (setf h r f)"
  by (auto simp: own_refs_def setf_def)

lemma bins_chain_cong:
  "list_all2 (\<lambda>b xs. chain nx (bb_list b) xs NULL) bs Bs \<Longrightarrow> (\<And>x. x \<in> set (concat Bs) \<Longrightarrow> nx' x = nx x) \<Longrightarrow>
   list_all2 (\<lambda>b xs. chain nx' (bb_list b) xs NULL) bs Bs"
  by (erule list.rel_mono_strong) (metis chain_cong UN_I set_concat)

section \<open>Resetting a bin\<close>

lemma remove_once: "A + B = add_mset r M \<Longrightarrow> r \<notin># M \<Longrightarrow> (A - {#r#}) + (B - {#r#}) = M"
proof (rule multiset_eqI)
  fix y assume e: "A + B = add_mset r M" and r: "r \<notin># M"
  have "count A y + count B y = count M y + of_bool (y = r)" using arg_cong [OF e, of "\<lambda>X. count X y"] by simp
  moreover have "count M r = 0" using r by (simp add: count_eq_zero_iff)
  ultimately show "count ((A - {#r#}) + (B - {#r#})) y = count M y" by (cases "y = r") auto
qed

text \<open>A reference moves from the front of a bin to the free chain.\<close>

lemma reset_one:
  assumes l: "bctx_lists R Bs F h x" and i: "i < length Bs" "Bs ! i = r # rs"
  defines "h' \<equiv> setf h r (\<lambda>q. q\<lparr>br_next := bc_free x\<rparr>)"
  shows "bctx_lists R (Bs[i := rs]) (r # F) h' (x\<lparr>bc_pending := remove1 r (bc_pending x), bc_current := remove1 r (bc_current x),
      bc_bins := (bc_bins x)[i := (bc_bins x ! i)\<lparr>bb_list := fld br_next h r\<rparr>], bc_free := r\<rparr>)"
proof -
  note l' = l [unfolded bctx_lists_def]
  have o: "own_refs R (concat Bs @ F) h" and len: "length (bc_bins x) = length Bs" using l' list_all2_lengthD by auto
  have m: "mset (concat Bs) = add_mset r (mset (concat (Bs[i := rs])))" using mset_concat_update [OF i(1), of rs] i(2) by simp
  have rin: "r \<in> set (concat Bs)" using m by (metis union_single_eq_member set_mset_mset add_mset_add_single union_commute multi_member_this)
  have o': "own_refs R (concat (Bs[i := rs]) @ r # F) h'"
    unfolding h'_def using rin m own_refs_perm [OF o] by (intro own_refs_setf) simp_all
  have nr: "r \<notin> set (concat (Bs[i := rs]))" "r \<notin> set F" using o' by (auto simp: own_refs_def)
  have rd: "r \<in> dom h" using o rin by (auto simp: own_refs_def)
  have nx: "fld br_next h' = (fld br_next h)(r := bc_free x)" unfolding h'_def using rd by (simp add: fld_setf)
  have ci: "chain (fld br_next h) (bb_list (bc_bins x ! i)) (r # rs) NULL" using l' i list_all2_nthD2 by fastforce
  have "list_all2 (\<lambda>b xs. chain (fld br_next h) (bb_list b) xs NULL)
      ((bc_bins x)[i := (bc_bins x ! i)\<lparr>bb_list := fld br_next h r\<rparr>]) (Bs[i := rs])"
    using l' ci by (intro list_all2_update_cong) auto
  then have "list_all2 (\<lambda>b xs. chain (fld br_next h') (bb_list b) xs NULL)
      ((bc_bins x)[i := (bc_bins x ! i)\<lparr>bb_list := fld br_next h r\<rparr>]) (Bs[i := rs])"
    using nr(1) nx by (elim bins_chain_cong) auto
  moreover have "chain (fld br_next h') r (r # F) NULL" using l' nx nr(2) by simp
  moreover have "mset (remove1 r (bc_pending x)) + mset (remove1 r (bc_current x)) = mset (concat (Bs[i := rs]))"
    using remove_once [of "mset (bc_pending x)" "mset (bc_current x)" r] l' m nr(1) by simp
  ultimately show ?thesis using o' l' len by (simp add: bctx_lists_def)
qed

lemma reset_loop_ok:
  assumes "bs_ctxs s c = Some x" "bctx_lists R Bs F (bs_refs s) x" "i < length Bs"
  shows "\<exists>h x'. reset_loop c i s = Some (s\<lparr>bs_refs := h, bs_ctxs := (bs_ctxs s)(c \<mapsto> x')\<rparr>) \<and>
    bctx_lists R (Bs[i := []]) (rev (Bs ! i) @ F) h x' \<and> map bb_relocs (bc_bins x') = map bb_relocs (bc_bins x) \<and>
    bc_relocs x' = bc_relocs x \<and> fld br_packet h = fld br_packet (bs_refs s)"
  using assms
proof (induction "Bs ! i" arbitrary: s x Bs F)
  case Nil
  then have len: "i < length (bc_bins x)" and "bb_list (bc_bins x ! i) = NULL"
    using list_all2_lengthD list_all2_nthD2 unfolding bctx_lists_def by fastforce+
  then have "reset_loop c i s = Some s" using Nil.prems(1) by (subst reset_loop.simps) (simp add: bin_get_def)
  moreover have "Bs[i := []] = Bs" using Nil.hyps Nil.prems(3) by (metis list_update_id)
  ultimately show ?case using Nil by (intro exI [of _ "bs_refs s"] exI [of _ x]) (auto simp: fun_upd_idem)
next
  case (Cons r rs)
  let ?f = "\<lambda>q. q\<lparr>br_next := bc_free x\<rparr>"
  let ?h = "setf (bs_refs s) r ?f"
  let ?x = "x\<lparr>bc_pending := remove1 r (bc_pending x), bc_current := remove1 r (bc_current x),
      bc_bins := (bc_bins x)[i := (bc_bins x ! i)\<lparr>bb_list := fld br_next (bs_refs s) r\<rparr>], bc_free := r\<rparr>"
  let ?s = "s\<lparr>bs_refs := ?h, bs_ctxs := (bs_ctxs s)(c \<mapsto> ?x)\<rparr>"
  note l = Cons.prems(2) [unfolded bctx_lists_def]
  have len: "i < length (bc_bins x)" using l Cons.prems(3) list_all2_lengthD by fastforce
  have hd: "bb_list (bc_bins x ! i) = r" using l Cons.hyps(2) Cons.prems(3) list_all2_nthD2 [of _ "bc_bins x" Bs i] by (metis chain.simps(2))
  have "r \<in> set (concat Bs)" using Cons.hyps(2) Cons.prems(3) by (metis UN_I list.set_intros(1) nth_mem set_concat)
  then have r: "r \<in> dom (bs_refs s)" "r \<noteq> NULL" using l unfolding own_refs_def by auto
  have run: "reset_loop c i s = reset_loop c i ?s"
    using Cons.prems(1) len hd r
    by (subst reset_loop.simps) (simp add: bin_get_def bin_put_def ctx_put_def ref_put_def wr_def [of "bs_ctxs _"] wr_setf ld_def [of "bs_ctxs _"] ld_fld)
  have l': "bctx_lists R (Bs[i := rs]) (r # F) (bs_refs ?s) ?x"
    using reset_one [OF Cons.prems(2,3) Cons.hyps(2) [symmetric]] by simp
  obtain h x' where hx: "reset_loop c i ?s = Some (?s\<lparr>bs_refs := h, bs_ctxs := (bs_ctxs ?s)(c \<mapsto> x')\<rparr>)"
    "bctx_lists R (Bs[i := []]) (rev rs @ r # F) h x'" "map bb_relocs (bc_bins x') = map bb_relocs (bc_bins ?x)"
    "bc_relocs x' = bc_relocs ?x" "fld br_packet h = fld br_packet (bs_refs ?s)"
    using Cons.hyps(1) [of "Bs[i := rs]" ?s ?x "r # F"] Cons.prems(3) l' by auto
  have "map bb_relocs (bc_bins ?x) = map bb_relocs (bc_bins x)" using len by (simp add: map_update list_update_same_conv)
  moreover have "fld br_packet ?h = fld br_packet (bs_refs s)" by (rule fld_setf_frame) simp
  ultimately show ?case using run hx Cons.hyps(2) [symmetric] by (intro exI [of _ h] exI [of _ x']) simp
qed

lemma methods_cong: "fld br_packet h = fld br_packet h' \<Longrightarrow> methods h = methods h'"
  by (simp add: methods_def fun_eq_iff)

lemma methods_simps [simp]: "methods h [] = 0" "methods h (xs @ ys) = methods h xs + methods h ys"
  by (simp_all add: methods_def)

lemma methods_mset: "mset xs = mset ys \<Longrightarrow> methods h xs = methods h ys"
  unfolding methods_def by (metis mset_filter size_mset)

lemma methods_update:
  assumes "i < length Bs"
  shows "methods h (concat (Bs[i := ys])) = methods h (concat Bs) - methods h (Bs ! i) + methods h ys"
  using methods_mset [of "concat (Bs[i := ys]) @ Bs ! i" "concat Bs @ ys" h] mset_concat_update [OF assms, of ys] by simp

lemma reset_ok:
  assumes "bs_ctxs s c = Some x" "bctx_lists R Bs F (bs_refs s) x" "bctx_relocs Bs (bs_refs s) x" "i < length Bs"
  shows "\<exists>h x'. nouveau_bufctx_reset c i s = Some (s\<lparr>bs_refs := h, bs_ctxs := (bs_ctxs s)(c \<mapsto> x')\<rparr>) \<and>
    bctx_lists R (Bs[i := []]) (rev (Bs ! i) @ F) h x' \<and> bctx_relocs (Bs[i := []]) h x'"
proof -
  obtain h x' where hx: "reset_loop c i s = Some (s\<lparr>bs_refs := h, bs_ctxs := (bs_ctxs s)(c \<mapsto> x')\<rparr>)"
    "bctx_lists R (Bs[i := []]) (rev (Bs ! i) @ F) h x'" "map bb_relocs (bc_bins x') = map bb_relocs (bc_bins x)"
    "bc_relocs x' = bc_relocs x" "fld br_packet h = fld br_packet (bs_refs s)"
    using reset_loop_ok [OF assms(1,2,4)] by blast
  have len: "length (bc_bins x') = length Bs" using hx(2) list_all2_lengthD unfolding bctx_lists_def by fastforce
  let ?x = "x'\<lparr>bc_relocs := bc_relocs x' - bb_relocs (bc_bins x' ! i), bc_bins := (bc_bins x')[i := (bc_bins x' ! i)\<lparr>bb_relocs := 0\<rparr>]\<rparr>"
  have run: "nouveau_bufctx_reset c i s = Some (s\<lparr>bs_refs := h, bs_ctxs := (bs_ctxs s)(c \<mapsto> ?x)\<rparr>)"
    using hx(1) len assms(4) by (simp add: nouveau_bufctx_reset_def bin_get_def bin_put_def ctx_put_def wr_def)
  have "list_all2 (\<lambda>b xs. chain (fld br_next h) (bb_list b) xs NULL) ((bc_bins x')[i := (bc_bins x' ! i)\<lparr>bb_relocs := 0\<rparr>]) ((Bs[i := []])[i := []])"
    using hx(2) assms(4) by (intro list_all2_update_cong) (auto simp: bctx_lists_def dest: list_all2_nthD2 [where p = i])
  then have l: "bctx_lists R (Bs[i := []]) (rev (Bs ! i) @ F) h ?x" using hx(2) by (simp add: bctx_lists_def)
  have m: "methods h = methods (bs_refs s)" by (rule methods_cong [OF hx(5)])
  have bi: "bb_relocs (bc_bins x' ! i) = methods h (Bs ! i)"
    using hx(3) assms(3,4) len m unfolding bctx_relocs_def by (metis length_map nth_map)
  have "bctx_relocs (Bs[i := []]) h ?x"
    using assms(3,4) hx(3,4) len m bi by (simp add: bctx_relocs_def map_update methods_update)
  then show ?thesis using run l by blast
qed

section \<open>Adding a reference\<close>

lemma refn_put:
  assumes o: "own_refs R (r # concat Bs @ F) h" and b: "list_all2 (\<lambda>b xs. chain (fld br_next h) (bb_list b) xs NULL) (bc_bins x) Bs"
    and f: "chain (fld br_next h) (bc_free x) F NULL" and m: "mset (bc_pending x) + mset (bc_current x) = mset (concat Bs)"
    and n: "bc_nr_bins x = length (bc_bins x)" and i: "i < length Bs"
    and g: "\<And>q. br_next (g q) = bb_list (bc_bins x ! i)"
  shows "bctx_lists R (Bs[i := r # Bs ! i]) F (setf h r g)
    (x\<lparr>bc_pending := bc_pending x @ [r], bc_bins := (bc_bins x)[i := (bc_bins x ! i)\<lparr>bb_list := r\<rparr>]\<rparr>)"
proof -
  have r: "r \<in> dom h" "r \<notin> set (concat Bs)" "r \<notin> set F" using o by (auto simp: own_refs_def)
  have nx: "fld br_next (setf h r g) = (fld br_next h)(r := bb_list (bc_bins x ! i))" using r(1) g by (simp add: fld_setf)
  have m': "mset (concat (Bs[i := r # Bs ! i])) = add_mset r (mset (concat Bs))" using mset_concat_update [OF i, of "r # Bs ! i"] by simp
  have bi: "chain (fld br_next h) (bb_list (bc_bins x ! i)) (Bs ! i) NULL" "r \<notin> set (Bs ! i)"
    using b i r(2) list_all2_nthD2 by fastforce (use i r(2) in auto)
  have "list_all2 (\<lambda>b xs. chain (fld br_next (setf h r g)) (bb_list b) xs NULL) (bc_bins x) Bs"
    using r(2) nx by (intro bins_chain_cong [OF b]) auto
  then have "list_all2 (\<lambda>b xs. chain (fld br_next (setf h r g)) (bb_list b) xs NULL) ((bc_bins x)[i := (bc_bins x ! i)\<lparr>bb_list := r\<rparr>])
      (Bs[i := r # Bs ! i])"
    using bi nx by (intro list_all2_update_cong) auto
  moreover have "own_refs R (concat (Bs[i := r # Bs ! i]) @ F) (setf h r g)"
    using m' own_refs_perm [OF own_refs_setf [OF o]] by simp
  moreover have "chain (fld br_next (setf h r g)) (bc_free x) F NULL" using f r(3) nx by simp
  ultimately show ?thesis using m m' n by (simp add: bctx_lists_def)
qed

lemma own_refs_new:
  assumes "own_refs R xs h" "h r = None" "r \<noteq> NULL"
  shows "own_refs R (r # xs) (h(r \<mapsto> q))"
proof -
  have r: "r \<notin> set xs" using assms(1,2) by (auto simp: own_refs_def)
  then have "R r = None" using assms(1,2) unfolding own_refs_def by metis
  then show ?thesis using r assms by (auto simp: own_refs_def)
qed

lemma refn_ok:
  assumes "bs_ctxs s c = Some x" "bctx_lists R Bs F (bs_refs s) x" "i < length Bs" "fresh_alloc (be_malloc env (bs_clock s))"
  shows "\<exists>r n h x'. nouveau_bufctx_refn env c i bo flags s = Some (r, s\<lparr>bs_clock := n, bs_refs := h, bs_ctxs := (bs_ctxs s)(c \<mapsto> x')\<rparr>) \<and>
    (r = NULL \<longrightarrow> h = bs_refs s \<and> x' = x) \<and>
    (r \<noteq> NULL \<longrightarrow> (\<exists>F'. bctx_lists R (Bs[i := r # Bs ! i]) F' h x') \<and> r \<notin> set (concat Bs) \<and> (\<exists>q. h r = Some q \<and> br_bo q = bo \<and> br_flags q = flags) \<and>
      fld br_packet h = (fld br_packet (bs_refs s))(r := 0) \<and> map bb_relocs (bc_bins x') = map bb_relocs (bc_bins x) \<and> bc_relocs x' = bc_relocs x)"
proof -
  note l = assms(2) [unfolded bctx_lists_def]
  let ?b = "bc_bins x ! i"
  let ?g = "\<lambda>q. q\<lparr>br_bo := bo, br_flags := flags, br_packet := 0, br_bufctx := c, br_next := bb_list ?b\<rparr>"
  let ?x = "\<lambda>x r. x\<lparr>bc_pending := bc_pending x @ [r], bc_bins := (bc_bins x)[i := ?b\<lparr>bb_list := r\<rparr>]\<rparr>"
  have o: "own_refs R (concat Bs @ F) (bs_refs s)" and len: "i < length (bc_bins x)" using l assms(3) list_all2_lengthD by fastforce+
  have put: "(do { s \<leftarrow> ref_put t r (\<lambda>r. r\<lparr>br_bo := bo, br_flags := flags, br_packet := 0\<rparr>);
       s \<leftarrow> ctx_put s c (\<lambda>x. x\<lparr>bc_pending := bc_pending x @ [r]\<rparr>);
       s \<leftarrow> ref_put s r (\<lambda>r. r\<lparr>br_bufctx := c, br_next := bb_list ?b\<rparr>);
       s \<leftarrow> bin_put s c i (\<lambda>b. b\<lparr>bb_list := r\<rparr>); Some (r, s) }) =
      Some (r, t\<lparr>bs_refs := setf (bs_refs t) r ?g, bs_ctxs := (bs_ctxs t)(c \<mapsto> ?x y r)\<rparr>)"
    if "bs_ctxs t c = Some y" "bc_bins y = bc_bins x" "bs_refs t r = Some q" for t y r q
    using that len by (simp add: ref_put_def ctx_put_def bin_put_def bin_get_def wr_def setf_def)
  have rel: "map bb_relocs (bc_bins (?x y r)) = map bb_relocs (bc_bins x)" if "bc_bins y = bc_bins x" for y r
    using that len by (simp add: map_update list_update_same_conv)
  show ?thesis
  proof (cases F)
    case Nil
    then have free: "bc_free x = NULL" using l by simp
    show ?thesis
    proof (cases "be_malloc env (bs_clock s) (bs_refs s)")
      case None
      then show ?thesis using free assms(1) len
        by (intro exI [of _ NULL] exI [of _ "Suc (bs_clock s)"] exI [of _ "bs_refs s"] exI [of _ x])
          (simp add: nouveau_bufctx_refn_def bin_get_def ld_def fun_upd_idem)
    next
      case (Some r)
      have r: "r \<noteq> NULL" "bs_refs s r = None" using fresh_allocD [OF assms(4) Some] by simp_all
      let ?j = "be_junk env (bs_clock s)"
      let ?t = "s\<lparr>bs_clock := Suc (bs_clock s), bs_refs := (bs_refs s)(r \<mapsto> ?j)\<rparr>"
      define h where "h = (bs_refs s)(r \<mapsto> ?j)"
      have run: "nouveau_bufctx_refn env c i bo flags s = Some (r, ?t\<lparr>bs_refs := setf h r ?g, bs_ctxs := (bs_ctxs s)(c \<mapsto> ?x x r)\<rparr>)"
        using put [of ?t x r ?j] free Some assms(1) len r(1) by (simp add: nouveau_bufctx_refn_def bin_get_def ld_def h_def)
      have on: "own_refs R (r # concat Bs @ F) h" unfolding h_def using own_refs_new [OF o r(2,1)] .
      have nr: "r \<notin> set (concat Bs)" using on by (simp add: own_refs_def)
      have lb: "list_all2 (\<lambda>b xs. chain (fld br_next (bs_refs s)) (bb_list b) xs NULL) (bc_bins x) Bs" using l by blast
      have "list_all2 (\<lambda>b xs. chain (fld br_next h) (bb_list b) xs NULL) (bc_bins x) Bs"
        using nr by (intro bins_chain_cong [OF lb]) (auto simp: h_def fld_new)
      then have "bctx_lists R (Bs[i := r # Bs ! i]) F (setf h r ?g) (?x x r)"
        using refn_put [OF on, of x i ?g] l assms(3) Nil by simp
      moreover have "fld br_packet (setf h r ?g) = (fld br_packet (bs_refs s))(r := 0)" by (auto simp: h_def setf_def fld_def fun_eq_iff)
      moreover have "\<exists>q. setf h r ?g r = Some q \<and> br_bo q = bo \<and> br_flags q = flags" by (simp add: h_def setf_def)
      ultimately show ?thesis using run rel [of x r] nr r(1)
        by (intro exI [of _ r] exI [of _ "Suc (bs_clock s)"] exI [of _ "setf h r ?g"] exI [of _ "?x x r"]) auto
    qed
  next
    case (Cons r F')
    then have free: "bc_free x = r" "chain (fld br_next (bs_refs s)) (fld br_next (bs_refs s) r) F' NULL" using l by simp_all
    obtain q where q: "bs_refs s r = Some q" "r \<noteq> NULL" using o Cons by (auto simp: own_refs_def)
    let ?y = "x\<lparr>bc_free := br_next q\<rparr>"
    let ?t = "s\<lparr>bs_ctxs := (bs_ctxs s)(c \<mapsto> ?y)\<rparr>"
    have run: "nouveau_bufctx_refn env c i bo flags s = Some (r, ?t\<lparr>bs_refs := setf (bs_refs s) r ?g, bs_ctxs := (bs_ctxs s)(c \<mapsto> ?x ?y r)\<rparr>)"
      using put [of ?t ?y r q] free(1) assms(1) len q by (simp add: nouveau_bufctx_refn_def bin_get_def ld_def ctx_put_def wr_def)
    have on: "own_refs R (r # concat Bs @ F') (bs_refs s)" using Cons by (intro own_refs_perm [OF o]) simp
    have "bctx_lists R (Bs[i := r # Bs ! i]) F' (setf (bs_refs s) r ?g) (?x ?y r)"
      using refn_put [OF on, of ?y i ?g] l free(2) q assms(3) by (simp add: fld_def)
    moreover have "fld br_packet (setf (bs_refs s) r ?g) = (fld br_packet (bs_refs s))(r := 0)" using q by (auto simp: setf_def fld_def fun_eq_iff)
    moreover have "\<exists>q. setf (bs_refs s) r ?g r = Some q \<and> br_bo q = bo \<and> br_flags q = flags" using q by (simp add: setf_def)
    moreover have "r \<notin> set (concat Bs)" using on by (auto simp: own_refs_def)
    ultimately show ?thesis using run rel [of ?y r] q(2)
      by (intro exI [of _ r] exI [of _ "bs_clock s"] exI [of _ "setf (bs_refs s) r ?g"] exI [of _ "?x ?y r"]) auto
  qed
qed

text \<open>The counters when a reference is added to a bin.\<close>

lemma methods_Cons: "methods h (r # xs) = (if fld br_packet h r = 0 then 0 else 1) + methods h xs"
  by (simp add: methods_def)

lemma methods_frame: "r \<notin> set xs \<Longrightarrow> fld br_packet h' = (fld br_packet h)(r := p) \<Longrightarrow> methods h' xs = methods h xs"
  by (induction xs) (auto simp: methods_Cons)

lemma bctx_relocs_add:
  assumes "bctx_relocs Bs h x" "i < length Bs" "r \<notin> set (concat Bs)" "fld br_packet h' = (fld br_packet h)(r := p)"
    "map bb_relocs (bc_bins x') = (map bb_relocs (bc_bins x))[i := bb_relocs (bc_bins x ! i) + (if p = 0 then 0 else 1)]"
    "bc_relocs x' = bc_relocs x + (if p = 0 then 0 else 1)"
  shows "bctx_relocs (Bs[i := r # Bs ! i]) h' x'"
proof -
  have len: "length (bc_bins x) = length Bs" using assms(1) unfolding bctx_relocs_def by (metis length_map)
  have f: "methods h' xs = methods h xs" if "xs \<in> set Bs" for xs using methods_frame [OF _ assms(4)] assms(3) that by simp
  have c: "methods h' (concat Bs) = methods h (concat Bs)" using methods_frame [OF assms(3,4)] .
  have r: "methods h' (r # Bs ! i) = methods h (Bs ! i) + (if p = 0 then 0 else 1)" using f assms(2,4) by (simp add: methods_Cons)
  have "map (methods h') (Bs[i := r # Bs ! i]) = (map (methods h) Bs)[i := methods h' (r # Bs ! i)]"
    unfolding map_update using f by (metis map_cong)
  moreover have "bb_relocs (bc_bins x ! i) = methods h (Bs ! i)" using assms(1,2) len unfolding bctx_relocs_def by (metis nth_map)
  moreover have "methods h' (concat (Bs[i := r # Bs ! i])) = methods h (concat Bs) + (if p = 0 then 0 else 1)"
    unfolding methods_update [OF assms(2)] using r c f assms(2) by simp
  ultimately show ?thesis using assms(1,5,6) r by (simp add: bctx_relocs_def)
qed

text \<open>Operations of a program that has the bins and gives methods with a packet.\<close>

lemma refn_inv:
  assumes "bctx_inv c R s" "bs_ctxs s c = Some x" "i < bc_nr_bins x" "\<And>n. fresh_alloc (be_malloc env n)"
  shows "\<exists>r s'. nouveau_bufctx_refn env c i bo flags s = Some (r, s') \<and> bctx_inv c R s' \<and>
    (\<exists>x'. bs_ctxs s' = (bs_ctxs s)(c \<mapsto> x') \<and> bc_nr_bins x' = bc_nr_bins x)"
proof -
  obtain Bs F where i: "c \<noteq> NULL" "bctx_lists R Bs F (bs_refs s) x" "bctx_relocs Bs (bs_refs s) x" using assms(1,2) unfolding bctx_inv_def by auto
  have n: "bc_nr_bins x = length Bs" "length (bc_bins x) = length Bs" using i(2) list_all2_lengthD unfolding bctx_lists_def by fastforce+
  have l: "i < length Bs" using assms(3) n by simp
  obtain r k h x' where q: "nouveau_bufctx_refn env c i bo flags s = Some (r, s\<lparr>bs_clock := k, bs_refs := h, bs_ctxs := (bs_ctxs s)(c \<mapsto> x')\<rparr>)"
    "r = NULL \<longrightarrow> h = bs_refs s \<and> x' = x"
    "r \<noteq> NULL \<longrightarrow> (\<exists>F'. bctx_lists R (Bs[i := r # Bs ! i]) F' h x') \<and> r \<notin> set (concat Bs) \<and>
      fld br_packet h = (fld br_packet (bs_refs s))(r := 0) \<and> map bb_relocs (bc_bins x') = map bb_relocs (bc_bins x) \<and> bc_relocs x' = bc_relocs x"
    using refn_ok [OF assms(2) i(2) l assms(4)] by blast
  show ?thesis
  proof (cases "r = NULL")
    case True
    then show ?thesis using q(1,2) i by (auto simp: bctx_inv_def)
  next
    case False
    then obtain F' where f: "bctx_lists R (Bs[i := r # Bs ! i]) F' h x'" using q(3) by blast
    have "bctx_relocs (Bs[i := r # Bs ! i]) h x'"
    proof (rule bctx_relocs_add [OF i(3) l])
      have "(map bb_relocs (bc_bins x))[i := bb_relocs (bc_bins x ! i)] = map bb_relocs (bc_bins x)" using n(2) l by (simp add: map_update [symmetric])
      then show "map bb_relocs (bc_bins x') = (map bb_relocs (bc_bins x))[i := bb_relocs (bc_bins x ! i) + (if (0 :: u32) = 0 then 0 else 1)]"
        using q(3) False by simp
    qed (use q(3) False in simp_all)
    moreover have "bc_nr_bins x' = length Bs" using f list_all2_lengthD unfolding bctx_lists_def by fastforce
    ultimately show ?thesis using q(1) f i(1) n by (auto simp: bctx_inv_def)
  qed
qed

lemma mthd_inv:
  assumes "bctx_inv c R s" "bs_ctxs s c = Some x" "i < bc_nr_bins x" "\<And>n. fresh_alloc (be_malloc env n)" "packet \<noteq> 0"
  shows "\<exists>r s'. nouveau_bufctx_mthd env c i packet bo data flags vor tor s = Some (r, s') \<and> bctx_inv c R s' \<and>
    (\<exists>x'. bs_ctxs s' = (bs_ctxs s)(c \<mapsto> x') \<and> bc_nr_bins x' = bc_nr_bins x)"
proof -
  obtain Bs F where i: "c \<noteq> NULL" "bctx_lists R Bs F (bs_refs s) x" "bctx_relocs Bs (bs_refs s) x" using assms(1,2) unfolding bctx_inv_def by auto
  have n: "bc_nr_bins x = length Bs" "length (bc_bins x) = length Bs" using i(2) list_all2_lengthD unfolding bctx_lists_def by fastforce+
  have l: "i < length Bs" using assms(3) n by simp
  obtain r k h x' where q: "nouveau_bufctx_refn env c i bo flags s = Some (r, s\<lparr>bs_clock := k, bs_refs := h, bs_ctxs := (bs_ctxs s)(c \<mapsto> x')\<rparr>)"
    "r = NULL \<longrightarrow> h = bs_refs s \<and> x' = x"
    "r \<noteq> NULL \<longrightarrow> (\<exists>F'. bctx_lists R (Bs[i := r # Bs ! i]) F' h x') \<and> r \<notin> set (concat Bs) \<and> (\<exists>q. h r = Some q) \<and>
      fld br_packet h = (fld br_packet (bs_refs s))(r := 0) \<and> map bb_relocs (bc_bins x') = map bb_relocs (bc_bins x) \<and> bc_relocs x' = bc_relocs x"
    using refn_ok [OF assms(2) i(2) l assms(4)] by blast
  show ?thesis
  proof (cases "r = NULL")
    case True
    then show ?thesis using q(1,2) i by (auto simp: nouveau_bufctx_mthd_def bctx_inv_def)
  next
    case False
    then obtain F' p where f: "bctx_lists R (Bs[i := r # Bs ! i]) F' h x'" "h r = Some p" using q(3) by blast
    have n': "bc_nr_bins x' = length Bs" "length (bc_bins x') = length Bs" using f(1) list_all2_lengthD unfolding bctx_lists_def by fastforce+
    let ?g = "\<lambda>q. q\<lparr>br_packet := packet, br_data := ucast data, br_vor := vor, br_tor := tor\<rparr>"
    let ?h = "setf h r ?g"
    let ?y = "x'\<lparr>bc_bins := (bc_bins x')[i := (bc_bins x' ! i)\<lparr>bb_relocs := bb_relocs (bc_bins x' ! i) + 1\<rparr>], bc_relocs := bc_relocs x' + 1\<rparr>"
    have run: "nouveau_bufctx_mthd env c i packet bo data flags vor tor s =
        Some (r, s\<lparr>bs_clock := k, bs_refs := ?h, bs_ctxs := (bs_ctxs s)(c \<mapsto> ?y)\<rparr>)"
      using q(1) False f(2) n' l by (simp add: nouveau_bufctx_mthd_def ref_put_def ctx_put_def bin_put_def bin_get_def wr_def setf_def)
    have nx: "fld br_next ?h = fld br_next h" by (rule fld_setf_frame) simp
    have rin: "r \<in> set (concat (Bs[i := r # Bs ! i]) @ F')" using l by (auto intro!: bexI [of _ "r # Bs ! i"] simp: set_update_memI)
    have lb: "list_all2 (\<lambda>b xs. chain (fld br_next h) (bb_list b) xs NULL) (bc_bins x') (Bs[i := r # Bs ! i])" using f(1) by (simp add: bctx_lists_def)
    have "list_all2 (\<lambda>b xs. chain (fld br_next h) (bb_list b) xs NULL)
        ((bc_bins x')[i := (bc_bins x' ! i)\<lparr>bb_relocs := bb_relocs (bc_bins x' ! i) + 1\<rparr>]) ((Bs[i := r # Bs ! i])[i := r # Bs ! i])"
      using lb l list_all2_nthD2 [OF lb, of i] by (intro list_all2_update_cong) auto
    then have "bctx_lists R (Bs[i := r # Bs ! i]) F' ?h ?y" using f(1) nx own_refs_setf [OF _ rin] by (simp add: bctx_lists_def)
    moreover have "bctx_relocs (Bs[i := r # Bs ! i]) ?h ?y"
    proof (rule bctx_relocs_add [OF i(3) l])
      show "r \<notin> set (concat Bs)" using q(3) False by blast
      show "fld br_packet ?h = (fld br_packet (bs_refs s))(r := packet)" using q(3) False f(2) by (simp add: fld_setf domI)
      have e: "map bb_relocs (bc_bins x') = map bb_relocs (bc_bins x)" using q(3) False by blast
      moreover have "bb_relocs (bc_bins x' ! i) = bb_relocs (bc_bins x ! i)" using e n n' l by (metis nth_map)
      ultimately show "map bb_relocs (bc_bins ?y) = (map bb_relocs (bc_bins x))[i := bb_relocs (bc_bins x ! i) + (if packet = 0 then 0 else 1)]"
        using assms(5) by (simp add: map_update)
      show "bc_relocs ?y = bc_relocs x + (if packet = 0 then 0 else 1)" using q(3) False assms(5) by simp
    qed
    ultimately show ?thesis using run i(1) n n' by (auto simp: bctx_inv_def)
  qed
qed

lemma reset_inv:
  assumes "bctx_inv c R s" "bs_ctxs s c = Some x" "i < bc_nr_bins x"
  shows "\<exists>s'. nouveau_bufctx_reset c i s = Some s' \<and> bctx_inv c R s' \<and> (\<exists>x'. bs_ctxs s' = (bs_ctxs s)(c \<mapsto> x') \<and> bc_nr_bins x' = bc_nr_bins x)"
proof -
  obtain Bs F where i: "c \<noteq> NULL" "bctx_lists R Bs F (bs_refs s) x" "bctx_relocs Bs (bs_refs s) x" using assms(1,2) unfolding bctx_inv_def by auto
  have n: "bc_nr_bins x = length Bs" using i(2) list_all2_lengthD unfolding bctx_lists_def by fastforce
  obtain h x' where q: "nouveau_bufctx_reset c i s = Some (s\<lparr>bs_refs := h, bs_ctxs := (bs_ctxs s)(c \<mapsto> x')\<rparr>)"
    "bctx_lists R (Bs[i := []]) (rev (Bs ! i) @ F) h x'" "bctx_relocs (Bs[i := []]) h x'"
    using reset_ok [OF assms(2) i(2,3), of i] assms(3) n by auto
  moreover have "bc_nr_bins x' = length Bs" using q(2) list_all2_lengthD unfolding bctx_lists_def by fastforce
  ultimately show ?thesis using i(1) n by (auto simp: bctx_inv_def)
qed

lemma move_inv:
  assumes "bctx_inv c R s" "bs_ctxs s c = Some x" "\<And>x. bc_bins (f x) = bc_bins x" "\<And>x. bc_relocs (f x) = bc_relocs x"
    "\<And>x. bc_free (f x) = bc_free x" "\<And>x. bc_nr_bins (f x) = bc_nr_bins x"
    "\<And>x. mset (bc_pending (f x)) + mset (bc_current (f x)) = mset (bc_pending x) + mset (bc_current x)"
  shows "\<exists>s'. ctx_put s c f = Some s' \<and> bctx_inv c R s' \<and> (\<exists>x'. bs_ctxs s' = (bs_ctxs s)(c \<mapsto> x') \<and> bc_nr_bins x' = bc_nr_bins x)"
  using assms by (auto simp: ctx_put_def wr_def bctx_inv_def bctx_lists_def bctx_relocs_def)

section \<open>Deleting a context\<close>

lemma reset_bins_ok:
  assumes "bs_ctxs s c = Some x" "bctx_lists R Bs F (bs_refs s) x" "bctx_relocs Bs (bs_refs s) x" "n \<le> length Bs"
  shows "\<exists>h x' Bs' F'. reset_bins c n s = Some (s\<lparr>bs_refs := h, bs_ctxs := (bs_ctxs s)(c \<mapsto> x')\<rparr>) \<and> bctx_lists R Bs' F' h x' \<and>
    length Bs' = length Bs \<and> (\<forall>i < length Bs. Bs' ! i = (if i < n then [] else Bs ! i))"
  using assms
proof (induction n arbitrary: s x Bs F)
  case 0
  then show ?case by (intro exI [of _ "bs_refs s"] exI [of _ x] exI [of _ Bs] exI [of _ F]) (simp add: fun_upd_idem)
next
  case (Suc n)
  obtain h x' where q: "nouveau_bufctx_reset c n s = Some (s\<lparr>bs_refs := h, bs_ctxs := (bs_ctxs s)(c \<mapsto> x')\<rparr>)"
    "bctx_lists R (Bs[n := []]) (rev (Bs ! n) @ F) h x'" "bctx_relocs (Bs[n := []]) h x'"
    using reset_ok [OF Suc.prems(1-3), of n] Suc.prems(4) by auto
  define t where "t = s\<lparr>bs_refs := h, bs_ctxs := (bs_ctxs s)(c \<mapsto> x')\<rparr>"
  have t: "bs_ctxs t c = Some x'" "bctx_lists R (Bs[n := []]) (rev (Bs ! n) @ F) (bs_refs t) x'" "bctx_relocs (Bs[n := []]) (bs_refs t) x'"
    "n \<le> length (Bs[n := []])" using q(2,3) Suc.prems(4) by (simp_all add: t_def)
  obtain k y Bs' F' where r: "reset_bins c n t = Some (t\<lparr>bs_refs := k, bs_ctxs := (bs_ctxs t)(c \<mapsto> y)\<rparr>)" "bctx_lists R Bs' F' k y"
    "length Bs' = length (Bs[n := []])" "\<forall>i < length (Bs[n := []]). Bs' ! i = (if i < n then [] else Bs[n := []] ! i)"
    using Suc.IH [OF t] by blast
  have "\<forall>i < length Bs. Bs' ! i = (if i < Suc n then [] else Bs ! i)" using r(4) by (auto simp: nth_list_update)
  moreover have "reset_bins c (Suc n) s = Some (s\<lparr>bs_refs := k, bs_ctxs := (bs_ctxs s)(c \<mapsto> y)\<rparr>)" using q(1) r(1) by (simp add: t_def)
  moreover have "length Bs' = length Bs" using r(3) by simp
  ultimately show ?case using r(2) by blast
qed

lemma free_loop_ok:
  assumes "bs_ctxs s c = Some x" "own_refs R F (bs_refs s)" "chain (fld br_next (bs_refs s)) (bc_free x) F NULL"
  shows "\<exists>x'. free_loop c s = Some (s\<lparr>bs_refs := R, bs_ctxs := (bs_ctxs s)(c \<mapsto> x')\<rparr>)"
  using assms
proof (induction F arbitrary: s x)
  case Nil
  have "free_loop c s = Some s" using Nil by (subst free_loop.simps) (simp add: ld_def)
  moreover have "bs_refs s = R" using Nil.prems(2) by (auto simp: own_refs_def)
  ultimately show ?case using Nil by (intro exI [of _ x]) (auto simp: fun_upd_idem)
next
  case (Cons r F)
  have o: "own_refs R F ((bs_refs s)(r := None))"
  proof -
    have "R r = None" using Cons.prems(2) by (auto simp: own_refs_def)
    then show ?thesis using Cons.prems(2) by (auto simp: own_refs_def)
  qed
  obtain q where q: "bs_refs s r = Some q" "r \<noteq> NULL" "r \<notin> set F" using Cons.prems(2) by (auto simp: own_refs_def)
  let ?x = "x\<lparr>bc_free := br_next q\<rparr>"
  let ?s = "s\<lparr>bs_ctxs := (bs_ctxs s)(c \<mapsto> ?x), bs_refs := (bs_refs s)(r := None)\<rparr>"
  have "free_loop c s = free_loop c ?s"
    using Cons.prems(1,3) q by (subst free_loop.simps) (simp add: ld_def ctx_put_def wr_def dealloc_def)
  moreover have "chain (fld br_next (bs_refs ?s)) (bc_free ?x) F NULL"
  proof -
    have "fld br_next (bs_refs ?s) y = fld br_next (bs_refs s) y" if "y \<in> set F" for y using that q(3) by (auto simp: fld_def)
    note c = chain_cong [OF this]
    have "fld br_next (bs_refs s) r = br_next q" using q(1) by (simp add: fld_def)
    then have "chain (fld br_next (bs_refs s)) (br_next q) F NULL" using Cons.prems(3) by auto
    then show ?thesis using c by simp
  qed
  moreover define t where "t = ?s"
  ultimately have t: "free_loop c s = free_loop c t" "bs_ctxs t c = Some ?x" "own_refs R F (bs_refs t)" "chain (fld br_next (bs_refs t)) (bc_free ?x) F NULL"
    using o by simp_all
  obtain x' where "free_loop c t = Some (t\<lparr>bs_refs := R, bs_ctxs := (bs_ctxs t)(c \<mapsto> x')\<rparr>)" using Cons.IH [OF t(2-4)] by blast
  then have "free_loop c s = Some (s\<lparr>bs_refs := R, bs_ctxs := (bs_ctxs s)(c \<mapsto> x')\<rparr>)" using t(1) by (simp add: t_def)
  then show ?case by blast
qed

lemma del_ok:
  assumes "bctx_inv c R s"
  shows "\<exists>s'. nouveau_bufctx_del c s = Some s' \<and> bs_refs s' = R \<and> bs_ctxs s' = (bs_ctxs s)(c := None)"
proof -
  obtain x Bs F where i: "c \<noteq> NULL" "bs_ctxs s c = Some x" "bctx_lists R Bs F (bs_refs s) x" "bctx_relocs Bs (bs_refs s) x"
    using assms unfolding bctx_inv_def by blast
  have n: "bc_nr_bins x = length Bs" using i(3) list_all2_lengthD unfolding bctx_lists_def by fastforce
  obtain h x' Bs' F' where r: "reset_bins c (length Bs) s = Some (s\<lparr>bs_refs := h, bs_ctxs := (bs_ctxs s)(c \<mapsto> x')\<rparr>)" "bctx_lists R Bs' F' h x'"
    "length Bs' = length Bs" "\<forall>i < length Bs. Bs' ! i = (if i < length Bs then [] else Bs ! i)"
    using reset_bins_ok [OF i(2-4) order_refl] by blast
  have "concat Bs' = []" using r(3,4) by (auto simp: in_set_conv_nth)
  then have "own_refs R F' h" "chain (fld br_next h) (bc_free x') F' NULL"
    using r(2) unfolding bctx_lists_def by (metis append_Nil, blast)
  then obtain y where "free_loop c (s\<lparr>bs_refs := h, bs_ctxs := (bs_ctxs s)(c \<mapsto> x')\<rparr>) = Some (s\<lparr>bs_refs := R, bs_ctxs := (bs_ctxs s)(c \<mapsto> y)\<rparr>)"
    using free_loop_ok [of "s\<lparr>bs_refs := h, bs_ctxs := (bs_ctxs s)(c \<mapsto> x')\<rparr>" c x' R F'] by auto
  then show ?thesis using r(1) i(1,2) n by (simp add: nouveau_bufctx_del_def ld_def dealloc_def)
qed

section \<open>Sequences of operations\<close>

datatype bctx_op =
    Refn nat addr u32
  | Mthd nat u32 addr u64 u32 u32 u32
  | Reset nat
  | Validated
  | Flushed

fun op_ok :: "nat \<Rightarrow> bctx_op \<Rightarrow> bool" where
  "op_ok n (Refn bin bo flags) = (bin < n)"
| "op_ok n (Mthd bin packet bo data flags vor tor) = (bin < n \<and> packet \<noteq> 0)"
| "op_ok n (Reset bin) = (bin < n)"
| "op_ok n _ = True"

fun bctx_do :: "bufctx_env \<Rightarrow> addr \<Rightarrow> bctx_op \<Rightarrow> bufctx_state \<Rightarrow> bufctx_state option" where
  "bctx_do env c (Refn bin bo flags) s = map_option snd (nouveau_bufctx_refn env c bin bo flags s)"
| "bctx_do env c (Mthd bin packet bo data flags vor tor) s = map_option snd (nouveau_bufctx_mthd env c bin packet bo data flags vor tor s)"
| "bctx_do env c (Reset bin) s = nouveau_bufctx_reset c bin s"
| "bctx_do env c Validated s = bctx_validated c s"
| "bctx_do env c Flushed s = bctx_flushed c s"

primrec bctx_run :: "bufctx_env \<Rightarrow> addr \<Rightarrow> bctx_op list \<Rightarrow> bufctx_state \<Rightarrow> bufctx_state option" where
  "bctx_run env c [] s = Some s"
| "bctx_run env c (p # ps) s = do { s \<leftarrow> bctx_do env c p s; bctx_run env c ps s }"

lemma bctx_do_inv:
  assumes "bctx_inv c R s" "bs_ctxs s c = Some x" "op_ok (bc_nr_bins x) p" "\<And>n. fresh_alloc (be_malloc env n)"
  shows "\<exists>s'. bctx_do env c p s = Some s' \<and> bctx_inv c R s' \<and> (\<exists>x'. bs_ctxs s' = (bs_ctxs s)(c \<mapsto> x') \<and> bc_nr_bins x' = bc_nr_bins x)"
proof (cases p)
  case (Refn bin bo flags)
  then show ?thesis using refn_inv [OF assms(1,2) _ assms(4), of bin bo flags] assms(3) by auto
next
  case (Mthd bin packet bo data flags vor tor)
  then show ?thesis using mthd_inv [OF assms(1,2) _ assms(4), of bin packet bo data flags vor tor] assms(3) by auto
next
  case (Reset bin)
  then show ?thesis using reset_inv [OF assms(1,2)] assms(3) by auto
next
  case Validated
  then show ?thesis unfolding bctx_do.simps Validated bctx_validated_def by (intro move_inv [OF assms(1,2)]) simp_all
next
  case Flushed
  then show ?thesis unfolding bctx_do.simps Flushed bctx_flushed_def by (intro move_inv [OF assms(1,2)]) simp_all
qed

lemma bctx_run_inv:
  assumes "bctx_inv c R s" "bs_ctxs s c = Some x" "list_all (op_ok (bc_nr_bins x)) ps" "\<And>n. fresh_alloc (be_malloc env n)"
  shows "\<exists>s'. bctx_run env c ps s = Some s' \<and> bctx_inv c R s' \<and> (\<exists>x'. bs_ctxs s' = (bs_ctxs s)(c \<mapsto> x') \<and> bc_nr_bins x' = bc_nr_bins x)"
  using assms(1-3)
proof (induction ps arbitrary: s x)
  case Nil
  then show ?case by (intro exI [of _ s] conjI exI [of _ x]) (simp_all add: fun_upd_idem)
next
  case (Cons p ps)
  obtain s1 x1 where s1: "bctx_do env c p s = Some s1" "bctx_inv c R s1" "bs_ctxs s1 = (bs_ctxs s)(c \<mapsto> x1)" "bc_nr_bins x1 = bc_nr_bins x"
    using bctx_do_inv [OF Cons.prems(1,2) _ assms(4), of p] Cons.prems(3) by auto
  moreover have "bs_ctxs s1 c = Some x1" "list_all (op_ok (bc_nr_bins x1)) ps" using s1(3,4) Cons.prems(3) by simp_all
  ultimately obtain s2 x2 where s2: "bctx_run env c ps s1 = Some s2" "bctx_inv c R s2" "bs_ctxs s2 = (bs_ctxs s1)(c \<mapsto> x2)" "bc_nr_bins x2 = bc_nr_bins x1"
    using Cons.IH [of s1 x1] by blast
  have "bs_ctxs s2 = (bs_ctxs s)(c \<mapsto> x2)" "bc_nr_bins x2 = bc_nr_bins x" "bctx_run env c (p # ps) s = Some s2" using s1 s2 by simp_all
  then show ?case using s2(2) by blast
qed

section \<open>Theorems\<close>


definition ex_bufctx_env :: bufctx_env where
  "ex_bufctx_env = \<lparr>be_malloc = \<lambda>_. first_free 10, be_calloc = \<lambda>_. first_free 10, be_junk = \<lambda>_. \<lparr>br_bo = 0, br_packet = 9, br_flags = 0,
     br_data = 0, br_vor = 0, br_tor = 0, br_next = 5, br_bufctx = 0\<rparr>\<rparr>"

definition ex_bufctx_state :: bufctx_state where
  "ex_bufctx_state = \<lparr>bs_refs = Map.empty, bs_ctxs = Map.empty, bs_clock = 0\<rparr>"


end
