(* ===== verification/Nouveau_Push.thy ===== *)
theory Nouveau_Push
  imports Nouveau_Bo Nouveau_Bufctx
begin

text \<open>
  Push buffers, \<open>nouveau/pushbuf.c\<close> and the per-client table of \<open>nouveau/private.h\<close>. Commands are written into buffers of the
  push buffer; the buffers they use, the relocations and the ranges of commands are collected in a \<open>krec\<close> and handed to the
  kernel together. \<open>cur\<close>, \<open>end\<close> and \<open>bgn\<close> are counted in words from \<open>ptr\<close>, where the mapping of the current buffer begins. A
  pointer into the array of buffers of a krec is the krec and the index. Output for debugging is left out.
\<close>

section \<open>Structures\<close>

definition NOUVEAU_GEM_MAX_BUFFERS :: nat where "NOUVEAU_GEM_MAX_BUFFERS = 1024"
definition NOUVEAU_GEM_MAX_RELOCS :: nat where "NOUVEAU_GEM_MAX_RELOCS = 1024"
definition NOUVEAU_GEM_MAX_PUSH :: nat where "NOUVEAU_GEM_MAX_PUSH = 512"
definition NOUVEAU_GEM_RELOC_LOW :: u32 where "NOUVEAU_GEM_RELOC_LOW = 1"
definition NOUVEAU_GEM_RELOC_HIGH :: u32 where "NOUVEAU_GEM_RELOC_HIGH = 2"
definition NOUVEAU_GEM_RELOC_OR :: u32 where "NOUVEAU_GEM_RELOC_OR = 4"
definition NOUVEAU_GEM_CPU_PREP_NOWAIT :: u32 where "NOUVEAU_GEM_CPU_PREP_NOWAIT = 1"
definition NOUVEAU_GEM_CPU_PREP_WRITE :: u32 where "NOUVEAU_GEM_CPU_PREP_WRITE = 4"

record drm_nouveau_gem_pushbuf_bo_presumed =
  kd_valid :: u32
  kd_domain :: u32
  kd_offset :: u64

record drm_nouveau_gem_pushbuf_bo =
  kb_user_priv :: addr
  kb_handle :: u32
  kb_read_domains :: u32
  kb_write_domains :: u32
  kb_valid_domains :: u32
  kb_presumed :: drm_nouveau_gem_pushbuf_bo_presumed

record drm_nouveau_gem_pushbuf_reloc =
  kl_reloc_bo_index :: u32
  kl_reloc_bo_offset :: u32
  kl_bo_index :: u32
  kl_flags :: u32
  kl_data :: u32
  kl_vor :: u32
  kl_tor :: u32

record drm_nouveau_gem_pushbuf_push =
  kp_bo_index :: u32
  kp_offset :: u64
  kp_length :: u64

text \<open>The used parts of the three arrays; \<open>kr_next\<close> is \<open>None\<close> as long as it has not been set.\<close>

record nouveau_pushbuf_krec =
  kr_next :: "addr option"
  kr_buffer :: "drm_nouveau_gem_pushbuf_bo list"
  kr_reloc :: "drm_nouveau_gem_pushbuf_reloc list"
  kr_push :: "drm_nouveau_gem_pushbuf_push list"
  kr_vram_used :: u64
  kr_gart_used :: u64

record nouveau_pushbuf_priv =
  pb_client :: addr
  pb_channel :: addr
  pb_bufctx :: addr
  pb_rsvd_kick :: u32
  pb_flags :: u32
  pb_cur :: int
  pb_end :: int
  pb_list :: addr
  pb_krec :: addr
  pb_bctx_list :: "addr list"
  pb_bo :: addr
  pb_type :: u32
  pb_suffix0 :: u32
  pb_suffix1 :: u32
  pb_bgn :: int
  pb_bo_next :: nat
  pb_bos :: "addr list"

text \<open>The table of a client, by handle: where the buffer is listed and in which push buffer (\<open>NULL\<close> for none).\<close>

type_synonym kref = "addr \<times> nat"

record nouveau_client_priv =
  nc_kref :: "(kref option \<times> addr) list"

text \<open>A channel: whether its class is that of a FIFO, and of its \<open>struct nouveau_fifo\<close> the channel and the memory for commands.\<close>

record nouveau_channel =
  nf_fifo :: bool
  nf_channel :: u32
  nf_pushbuf :: u32

record push_state = nouveau_state +
  ps_bctx :: bufctx_state
  ps_clients :: "nouveau_client_priv heap"
  ps_chans :: "nouveau_channel heap"
  ps_krecs :: "nouveau_pushbuf_krec heap"
  ps_pushes :: "nouveau_pushbuf_priv heap"
  ps_words :: "addr \<Rightarrow> nat \<Rightarrow> u32"

text \<open>\<open>pe_pushbuf\<close> is given the channel, the krec and the suffix; it answers with the return value, the suffix, the memory
  available and what it presumes of the buffers. \<open>pe_kick\<close> is the callback \<open>kick_notify\<close> of a push buffer.\<close>

record push_env =
  pe_nouveau :: nouveau_env
  pe_krec :: "nat \<Rightarrow> nouveau_pushbuf_krec allocator"
  pe_push :: "nat \<Rightarrow> nouveau_pushbuf_priv allocator"
  pe_realloc :: "nat \<Rightarrow> bool"
  pe_mmap :: "nat \<Rightarrow> u64 \<Rightarrow> u64 \<Rightarrow> int \<times> u64"
  pe_cpu_prep :: "nat \<Rightarrow> u32 \<Rightarrow> u32 \<Rightarrow> int"
  pe_pushbuf :: "nat \<Rightarrow> u32 \<Rightarrow> nouveau_pushbuf_krec \<Rightarrow> u32 \<Rightarrow> u32 \<Rightarrow>
    int \<times> u32 \<times> u32 \<times> u64 \<times> u64 \<times> drm_nouveau_gem_pushbuf_bo_presumed list"
  pe_kick :: "addr \<Rightarrow> (push_state \<Rightarrow> push_state option) option"

definition krec_put :: "push_state \<Rightarrow> addr \<Rightarrow> (nouveau_pushbuf_krec \<Rightarrow> nouveau_pushbuf_krec) \<Rightarrow> push_state option" where
  "krec_put s k f = do { h \<leftarrow> wr (ps_krecs s) k f; Some (s\<lparr>ps_krecs := h\<rparr>) }"

definition push_put :: "push_state \<Rightarrow> addr \<Rightarrow> (nouveau_pushbuf_priv \<Rightarrow> nouveau_pushbuf_priv) \<Rightarrow> push_state option" where
  "push_put s p f = do { h \<leftarrow> wr (ps_pushes s) p f; Some (s\<lparr>ps_pushes := h\<rparr>) }"

section \<open>The table of a client\<close>

definition cli_entry :: "addr \<Rightarrow> addr \<Rightarrow> push_state \<Rightarrow> (kref option \<times> addr) option" where
  "cli_entry client bo s = do {
     c \<leftarrow> ps_clients s client;
     b \<leftarrow> ns_bos s bo;
     Some (if unat (nb_handle b) < length (nc_kref c) then nc_kref c ! unat (nb_handle b) else (None, NULL))
   }"

definition cli_kref_get :: "addr \<Rightarrow> addr \<Rightarrow> push_state \<Rightarrow> kref option option" where
  "cli_kref_get client bo s = map_option fst (cli_entry client bo s)"

definition cli_push_get :: "addr \<Rightarrow> addr \<Rightarrow> push_state \<Rightarrow> addr option" where
  "cli_push_get client bo s = map_option snd (cli_entry client bo s)"

text \<open>The table grows to twice the handle, computed in 32 bits; the result of \<open>realloc\<close> is used as it is.\<close>

definition cli_kref_set :: "push_env \<Rightarrow> addr \<Rightarrow> addr \<Rightarrow> kref option \<Rightarrow> addr \<Rightarrow> push_state \<Rightarrow> push_state option" where
  "cli_kref_set env client bo kref push s = do {
     c \<leftarrow> ps_clients s client;
     b \<leftarrow> ns_bos s bo;
     let handle = unat (nb_handle b);
     (tab, s) \<leftarrow> (if length (nc_kref c) \<le> handle then do {
         c_assert (pe_realloc env (ns_clock s));
         Some (nc_kref c @ replicate (unat (nb_handle b * 2) - length (nc_kref c)) (None, NULL), nv_tick s)
       }
       else Some (nc_kref c, s));
     c_assert (handle < length tab);
     Some (s\<lparr>ps_clients := (ps_clients s)(client \<mapsto> c\<lparr>nc_kref := tab[handle := (kref, push)]\<rparr>)\<rparr>)
   }"

section \<open>Where a buffer fits\<close>

text \<open>The last resort: buffers that may be in either memory are moved to VRAM until there is room in GART.\<close>

primrec fits_loop ::
  "nouveau_bo_priv heap \<Rightarrow> u64 \<Rightarrow> u64 \<Rightarrow> u64 \<Rightarrow> nat list \<Rightarrow> nouveau_pushbuf_krec \<Rightarrow> (bool \<times> nouveau_pushbuf_krec) option" where
  "fits_loop h vram_limit gart_limit sz [] krec = Some (False, krec)"
| "fits_loop h vram_limit gart_limit sz (i # is) krec =
    (let kref = kr_buffer krec ! i in
     if kb_valid_domains kref AND NOUVEAU_GEM_DOMAIN_GART = 0 then fits_loop h vram_limit gart_limit sz is krec
     else do {
       kbo \<leftarrow> h (kb_user_priv kref);
       if kb_valid_domains kref AND NOUVEAU_GEM_DOMAIN_VRAM = 0 \<or> vram_limit < kr_vram_used krec + nb_size kbo
       then fits_loop h vram_limit gart_limit sz is krec
       else
         let krec = krec\<lparr>kr_buffer := (kr_buffer krec)[i := kref\<lparr>kb_valid_domains := kb_valid_domains kref AND NOUVEAU_GEM_DOMAIN_VRAM\<rparr>],
               kr_gart_used := kr_gart_used krec - nb_size kbo, kr_vram_used := kr_vram_used krec + nb_size kbo\<rparr> in
         if kr_gart_used krec + sz \<le> gart_limit then Some (True, krec\<lparr>kr_gart_used := kr_gart_used krec + sz\<rparr>)
         else fits_loop h vram_limit gart_limit sz is krec
     })"

definition pushbuf_kref_fits ::
  "nouveau_bo_priv heap \<Rightarrow> u64 \<Rightarrow> u64 \<Rightarrow> u64 \<Rightarrow> u32 \<Rightarrow> nouveau_pushbuf_krec \<Rightarrow> (bool \<times> u32 \<times> nouveau_pushbuf_krec) option" where
  "pushbuf_kref_fits h vram_limit gart_limit sz domains krec =
    (if domains = NOUVEAU_GEM_DOMAIN_VRAM then
       if vram_limit < kr_vram_used krec + sz then Some (False, domains, krec)
       else Some (True, domains, krec\<lparr>kr_vram_used := kr_vram_used krec + sz\<rparr>)
     else if kr_gart_used krec + sz \<le> gart_limit then Some (True, domains, krec\<lparr>kr_gart_used := kr_gart_used krec + sz\<rparr>)
     else if domains AND NOUVEAU_GEM_DOMAIN_VRAM \<noteq> 0 \<and> kr_vram_used krec + sz \<le> vram_limit then
       Some (True, domains AND NOUVEAU_GEM_DOMAIN_VRAM, krec\<lparr>kr_vram_used := kr_vram_used krec + sz\<rparr>)
     else do {
       (ok, krec) \<leftarrow> fits_loop h vram_limit gart_limit sz [0..<length (kr_buffer krec)] krec;
       Some (ok, domains, krec)
     })"

section \<open>Commands and their ranges\<close>

text \<open>\<open>*push->cur++ = v\<close>, within the mapping of the current buffer.\<close>

definition push_word :: "addr \<Rightarrow> u32 \<Rightarrow> push_state \<Rightarrow> push_state option" where
  "push_word push v s = do {
     p \<leftarrow> ps_pushes s push;
     b \<leftarrow> ns_bos s (pb_bo p);
     c_assert (nb_map b \<noteq> 0 \<and> 0 \<le> pb_cur p \<and> 4 * pb_cur p + 4 \<le> uint (nb_size b));
     push_put (s\<lparr>ps_words := (ps_words s)(pb_bo p := (ps_words s (pb_bo p))(nat (pb_cur p) := v))\<rparr>) push (\<lambda>p. p\<lparr>pb_cur := pb_cur p + 1\<rparr>)
   }"

text \<open>The index of a buffer in the current krec, where it must be listed.\<close>

definition kref_index :: "addr \<Rightarrow> addr \<Rightarrow> addr \<Rightarrow> push_state \<Rightarrow> nat option" where
  "kref_index client krec bo s = do {
     kref \<leftarrow> cli_kref_get client bo s;
     (k, i) \<leftarrow> kref;
     c_assert (k = krec);
     Some i
   }"

definition push_range :: "addr \<Rightarrow> addr \<Rightarrow> u64 \<Rightarrow> u64 \<Rightarrow> push_state \<Rightarrow> push_state option" where
  "push_range push bo offset len s =
    (if bo = NULL then Some s
     else do {
       p \<leftarrow> ps_pushes s push;
       i \<leftarrow> kref_index (pb_client p) (pb_krec p) bo s;
       krec \<leftarrow> ps_krecs s (pb_krec p);
       c_assert (length (kr_push krec) < NOUVEAU_GEM_MAX_PUSH);
       krec_put s (pb_krec p) (\<lambda>k. k\<lparr>kr_push := kr_push k @ [\<lparr>kp_bo_index = of_nat i, kp_offset = offset, kp_length = len\<rparr>]\<rparr>)
     })"

definition nouveau_pushbuf_data :: "addr \<Rightarrow> addr \<Rightarrow> u64 \<Rightarrow> u64 \<Rightarrow> push_state \<Rightarrow> push_state option" where
  "nouveau_pushbuf_data push bo offset len s = do {
     p \<leftarrow> ps_pushes s push;
     s \<leftarrow> (if bo \<noteq> pb_bo p \<and> pb_bgn p \<noteq> pb_cur p then do {
         s \<leftarrow> (if pb_suffix0 p \<noteq> 0 \<or> pb_suffix1 p \<noteq> 0 then do {
             s \<leftarrow> push_word push (pb_suffix0 p) s;
             push_word push (pb_suffix1 p) s
           }
           else Some s);
         q \<leftarrow> ps_pushes s push;
         s \<leftarrow> push_range push (pb_bo q) (of_int (pb_bgn q * 4)) (of_int ((pb_cur q - pb_bgn q) * 4)) s;
         push_put s push (\<lambda>p. p\<lparr>pb_bgn := pb_cur p\<rparr>)
       }
       else Some s);
     push_range push bo offset len s
   }"

text \<open>A relocation at the current position; the value to be written there is returned.\<close>

definition pushbuf_krel :: "addr \<Rightarrow> addr \<Rightarrow> u32 \<Rightarrow> u32 \<Rightarrow> u32 \<Rightarrow> u32 \<Rightarrow> push_state \<Rightarrow> (u32 \<times> push_state) option" where
  "pushbuf_krel push bo data flags vor tor s = do {
     p \<leftarrow> ps_pushes s push;
     krec \<leftarrow> ps_krecs s (pb_krec p);
     pkref \<leftarrow> kref_index (pb_client p) (pb_krec p) (pb_bo p) s;
     bkref \<leftarrow> kref_index (pb_client p) (pb_krec p) bo s;
     c_assert (length (kr_reloc krec) < NOUVEAU_GEM_MAX_RELOCS \<and> bkref < length (kr_buffer krec));
     let presumed = kb_presumed (kr_buffer krec ! bkref);
     let (reloc, fl) =
       (if flags AND NOUVEAU_BO_LOW \<noteq> 0 then (ucast (kd_offset presumed + ucast data), NOUVEAU_GEM_RELOC_LOW)
        else if flags AND NOUVEAU_BO_HIGH \<noteq> 0 then (ucast (drop_bit 32 (kd_offset presumed + ucast data)), NOUVEAU_GEM_RELOC_HIGH)
        else (data, 0));
     let (reloc, fl) =
       (if flags AND NOUVEAU_BO_OR \<noteq> 0 then
          (reloc OR (if kd_domain presumed AND NOUVEAU_GEM_DOMAIN_VRAM \<noteq> 0 then vor else tor), fl OR NOUVEAU_GEM_RELOC_OR)
        else (reloc, fl));
     s \<leftarrow> krec_put s (pb_krec p) (\<lambda>k. k\<lparr>kr_reloc := kr_reloc k @ [\<lparr>kl_reloc_bo_index = of_nat pkref, kl_reloc_bo_offset = of_int (pb_cur p * 4),
       kl_bo_index = of_nat bkref, kl_flags = fl, kl_data = data, kl_vor = vor, kl_tor = tor\<rparr>]\<rparr>);
     Some (reloc, s)
   }"

definition nouveau_pushbuf_reloc :: "addr \<Rightarrow> addr \<Rightarrow> u32 \<Rightarrow> u32 \<Rightarrow> u32 \<Rightarrow> u32 \<Rightarrow> push_state \<Rightarrow> push_state option" where
  "nouveau_pushbuf_reloc push bo data flags vor tor s = do {
     (v, s) \<leftarrow> pushbuf_krel push bo data flags vor tor s;
     push_word push v s
   }"

section \<open>Handing over to the kernel\<close>

text \<open>What the kernel says of a buffer after a submission.\<close>

definition bo_moved :: "drm_nouveau_gem_pushbuf_bo \<Rightarrow> nouveau_bo_priv \<Rightarrow> nouveau_bo_priv" where
  "bo_moved kref b =
    (let info = kb_presumed kref;
         b = (if kd_valid info = 0 then
             b\<lparr>nb_flags := (nb_flags b AND NOT (NOUVEAU_BO_VRAM OR NOUVEAU_BO_GART)) OR
                 (if kd_domain info = NOUVEAU_GEM_DOMAIN_VRAM then NOUVEAU_BO_VRAM else NOUVEAU_BO_GART),
               nb_offset := kd_offset info\<rparr>
           else b);
         b = (if kb_write_domains kref \<noteq> 0 then b\<lparr>nb_access := nb_access b OR NOUVEAU_BO_WR\<rparr> else b) in
     if kb_read_domains kref \<noteq> 0 then b\<lparr>nb_access := nb_access b OR NOUVEAU_BO_RD\<rparr> else b)"

primrec update_bos :: "drm_nouveau_gem_pushbuf_bo list \<Rightarrow> push_state \<Rightarrow> push_state option" where
  "update_bos [] s = Some s"
| "update_bos (kref # krefs) s = do { s \<leftarrow> nvbo_put s (kb_user_priv kref) (bo_moved kref); update_bos krefs s }"

definition set_presumed :: "drm_nouveau_gem_pushbuf_bo_presumed list \<Rightarrow> nouveau_pushbuf_krec \<Rightarrow> nouveau_pushbuf_krec" where
  "set_presumed infos k = k\<lparr>kr_buffer := map (\<lambda>(b, i). b\<lparr>kb_presumed := i\<rparr>) (zip (kr_buffer k) infos) @ drop (length infos) (kr_buffer k)\<rparr>"

partial_function (option) submit_loop :: "push_env \<Rightarrow> addr \<Rightarrow> u32 \<Rightarrow> addr \<Rightarrow> int \<Rightarrow> push_state \<Rightarrow> (int \<times> push_state) option" where
  "submit_loop env push channel k ret s =
    (if k = NULL then Some (ret, s)
     else do {
       krec \<leftarrow> ps_krecs s k;
       if kr_push krec = [] then Some (ret, s)
       else do {
         p \<leftarrow> ps_pushes s push;
         let (ret, suffix0, suffix1, vram_available, gart_available, infos) =
           pe_pushbuf env (ns_clock s) channel krec (pb_suffix0 p) (pb_suffix1 p);
         let dev = ns_dev s;
         let s = (nv_tick s)\<lparr>ns_dev := dev\<lparr>nd_vram_limit := (vram_available * of_int (nd_vram_limit_percent dev)) div 100,
           nd_gart_limit := (gart_available * of_int (nd_gart_limit_percent dev)) div 100\<rparr>\<rparr>;
         s \<leftarrow> push_put s push (\<lambda>p. p\<lparr>pb_suffix0 := suffix0, pb_suffix1 := suffix1\<rparr>);
         s \<leftarrow> krec_put s k (set_presumed infos);
         if ret \<noteq> 0 then Some (ret, s)
         else do {
           krec \<leftarrow> ps_krecs s k;
           s \<leftarrow> update_bos (kr_buffer krec) s;
           k' \<leftarrow> kr_next krec;
           submit_loop env push channel k' ret s
         }
       }
     })"

definition pushbuf_submit :: "push_env \<Rightarrow> addr \<Rightarrow> addr \<Rightarrow> push_state \<Rightarrow> (int \<times> push_state) option" where
  "pushbuf_submit env push chan s = do {
     p \<leftarrow> ps_pushes s push;
     ch \<leftarrow> ps_chans s chan;
     if \<not> nf_fifo ch then Some (- EINVAL, s)
     else do {
       s \<leftarrow> (case pe_kick env push of Some f \<Rightarrow> f s | None \<Rightarrow> Some s);
       s \<leftarrow> nouveau_pushbuf_data push NULL 0 0 s;
       submit_loop env push (nf_channel ch) (pb_list p) 0 s
     }
   }"

text \<open>The entries of a krec leave the table of the client; \<open>unref\<close> says whether the references are dropped as well.\<close>

primrec release_krefs :: "push_env \<Rightarrow> addr \<Rightarrow> bool \<Rightarrow> drm_nouveau_gem_pushbuf_bo list \<Rightarrow> push_state \<Rightarrow> push_state option" where
  "release_krefs env client unref [] s = Some s"
| "release_krefs env client unref (kref # krefs) s = do {
     s \<leftarrow> cli_kref_set env client (kb_user_priv kref) None NULL s;
     s \<leftarrow> (if unref then nouveau_bo_ref NULL (kb_user_priv kref) s else Some s);
     release_krefs env client unref krefs s
   }"

primrec flush_bctxs :: "addr list \<Rightarrow> bufctx_state \<Rightarrow> bufctx_state option" where
  "flush_bctxs [] s = Some s"
| "flush_bctxs (c # cs) s = do { s \<leftarrow> bctx_flushed c s; flush_bctxs cs s }"

text \<open>Without a channel the krec is kept and a new one begun, whose \<open>next\<close> is not set; there is no check that it was allocated.\<close>

definition pushbuf_flush :: "push_env \<Rightarrow> addr \<Rightarrow> push_state \<Rightarrow> (int \<times> push_state) option" where
  "pushbuf_flush env push s = do {
     p \<leftarrow> ps_pushes s push;
     let k = pb_krec p;
     (ret, s) \<leftarrow> (if pb_channel p \<noteq> NULL then pushbuf_submit env push (pb_channel p) s
       else do {
         s \<leftarrow> nouveau_pushbuf_data push NULL 0 0 s;
         k' \<leftarrow> pe_krec env (ns_clock s) (ps_krecs s);
         s \<leftarrow> krec_put (nv_tick s) k (\<lambda>k. k\<lparr>kr_next := Some k'\<rparr>);
         s \<leftarrow> push_put (s\<lparr>ps_krecs := (ps_krecs s)(k' \<mapsto>
           \<lparr>kr_next = None, kr_buffer = [], kr_reloc = [], kr_push = [], kr_vram_used = 0, kr_gart_used = 0\<rparr>)\<rparr>) push (\<lambda>p. p\<lparr>pb_krec := k'\<rparr>);
         Some (0, s)
       });
     krec \<leftarrow> ps_krecs s k;
     s \<leftarrow> release_krefs env (pb_client p) (pb_channel p \<noteq> NULL) (kr_buffer krec) s;
     p \<leftarrow> ps_pushes s push;
     s \<leftarrow> krec_put s (pb_krec p) (\<lambda>k. k\<lparr>kr_vram_used := 0, kr_gart_used := 0, kr_buffer := [], kr_reloc := [], kr_push := []\<rparr>);
     b \<leftarrow> flush_bctxs (pb_bctx_list p) (ps_bctx s);
     s \<leftarrow> push_put (s\<lparr>ps_bctx := b\<rparr>) push (\<lambda>p. p\<lparr>pb_bctx_list := []\<rparr>);
     Some (ret, s)
   }"

section \<open>Listing a buffer\<close>

definition flag_domains :: "u32 \<Rightarrow> u32" where
  "flag_domains flags = (if flags AND NOUVEAU_BO_VRAM \<noteq> 0 then NOUVEAU_GEM_DOMAIN_VRAM else 0) OR
     (if flags AND NOUVEAU_BO_GART \<noteq> 0 then NOUVEAU_GEM_DOMAIN_GART else 0)"

text \<open>A buffer that is listed already: its entry is narrowed.\<close>

definition kref_again :: "addr \<Rightarrow> u64 \<Rightarrow> u32 \<Rightarrow> u32 \<Rightarrow> u32 \<Rightarrow> kref \<Rightarrow> push_state \<Rightarrow> (kref option \<times> push_state) option" where
  "kref_again krec sz domains domains_wr domains_rd ki s = (case ki of (k, i) \<Rightarrow> do {
     kr \<leftarrow> ps_krecs s k;
     cr \<leftarrow> ps_krecs s krec;
     c_assert (i < length (kr_buffer kr));
     let kref = kr_buffer kr ! i;
     let shrink = (kb_valid_domains kref AND NOUVEAU_GEM_DOMAIN_GART \<noteq> 0 \<and> domains = NOUVEAU_GEM_DOMAIN_VRAM);
     if kb_valid_domains kref AND domains = 0 \<or> (shrink \<and> nd_vram_limit (ns_dev s) < kr_vram_used cr + sz) then Some (None, s)
     else do {
       s \<leftarrow> (if shrink then krec_put s krec (\<lambda>c. c\<lparr>kr_vram_used := kr_vram_used c + sz, kr_gart_used := kr_gart_used c - sz\<rparr>) else Some s);
       s \<leftarrow> krec_put s k (\<lambda>c. c\<lparr>kr_buffer := (kr_buffer c)[i := kref\<lparr>kb_valid_domains := kb_valid_domains kref AND domains,
         kb_write_domains := kb_write_domains kref OR domains_wr, kb_read_domains := kb_read_domains kref OR domains_rd\<rparr>]\<rparr>);
       Some (Some (k, i), s)
     }
   })"

definition kref_new :: "push_env \<Rightarrow> addr \<Rightarrow> addr \<Rightarrow> addr \<Rightarrow> addr \<Rightarrow> u32 \<Rightarrow> u32 \<Rightarrow> u32 \<Rightarrow> push_state \<Rightarrow> (kref option \<times> push_state) option" where
  "kref_new env push client krec bo domains domains_wr domains_rd s = do {
     kr \<leftarrow> ps_krecs s krec;
     b \<leftarrow> ns_bos s bo;
     if length (kr_buffer kr) = NOUVEAU_GEM_MAX_BUFFERS then Some (None, s)
     else do {
       (ok, domains, kr) \<leftarrow> pushbuf_kref_fits (ns_bos s) (nd_vram_limit (ns_dev s)) (nd_gart_limit (ns_dev s)) (nb_size b) domains kr;
       if \<not> ok then Some (None, s\<lparr>ps_krecs := (ps_krecs s)(krec \<mapsto> kr)\<rparr>)
       else do {
         let i = length (kr_buffer kr);
         let kref = \<lparr>kb_user_priv = bo, kb_handle = nb_handle b, kb_read_domains = domains_rd, kb_write_domains = domains_wr,
           kb_valid_domains = domains, kb_presumed = \<lparr>kd_valid = 1,
             kd_domain = (if nb_flags b AND NOUVEAU_BO_VRAM \<noteq> 0 then NOUVEAU_GEM_DOMAIN_VRAM else NOUVEAU_GEM_DOMAIN_GART), kd_offset = nb_offset b\<rparr>\<rparr>;
         let s = s\<lparr>ps_krecs := (ps_krecs s)(krec \<mapsto> kr\<lparr>kr_buffer := kr_buffer kr @ [kref]\<rparr>)\<rparr>;
         s \<leftarrow> cli_kref_set env client bo (Some (krec, i)) push s;
         s \<leftarrow> nvbo_put s bo (\<lambda>b. b\<lparr>nb_refcnt := nb_refcnt b + 1\<rparr>);
         Some (Some (krec, i), s)
       }
     }
   }"

text \<open>A buffer that another push buffer of the client uses is flushed out of it first.\<close>

definition pushbuf_kref :: "push_env \<Rightarrow> addr \<Rightarrow> addr \<Rightarrow> u32 \<Rightarrow> push_state \<Rightarrow> (kref option \<times> push_state) option" where
  "pushbuf_kref env push bo flags s = do {
     p \<leftarrow> ps_pushes s push;
     let domains = flag_domains flags;
     let domains_wr = (if flags AND NOUVEAU_BO_WR \<noteq> 0 then domains else 0);
     let domains_rd = (if flags AND NOUVEAU_BO_RD \<noteq> 0 then domains else 0);
     fpush \<leftarrow> cli_push_get (pb_client p) bo s;
     s \<leftarrow> (if fpush \<noteq> NULL \<and> fpush \<noteq> push then map_option snd (pushbuf_flush env fpush s) else Some s);
     kref \<leftarrow> cli_kref_get (pb_client p) bo s;
     case kref of
       Some ki \<Rightarrow> do { b \<leftarrow> ns_bos s bo; kref_again (pb_krec p) (nb_size b) domains domains_wr domains_rd ki s }
     | None \<Rightarrow> kref_new env push (pb_client p) (pb_krec p) bo domains domains_wr domains_rd s
   }"

text \<open>The entries from \<open>sref\<close> on and the relocations from \<open>srel\<close> on are taken back.\<close>

definition pushbuf_refn_fail :: "push_env \<Rightarrow> addr \<Rightarrow> nat \<Rightarrow> nat \<Rightarrow> push_state \<Rightarrow> push_state option" where
  "pushbuf_refn_fail env push sref srel s = do {
     p \<leftarrow> ps_pushes s push;
     krec \<leftarrow> ps_krecs s (pb_krec p);
     c_assert (sref \<le> length (kr_buffer krec) \<and> srel \<le> length (kr_reloc krec));
     s \<leftarrow> release_krefs env (pb_client p) True (drop sref (kr_buffer krec)) s;
     krec_put s (pb_krec p) (\<lambda>k. k\<lparr>kr_buffer := take sref (kr_buffer k), kr_reloc := take srel (kr_reloc k)\<rparr>)
   }"

section \<open>Room for commands\<close>

text \<open>
  \<open>nouveau_pushbuf_space\<close>, \<open>pushbuf_validate\<close>, \<open>nouveau_pushbuf_kick\<close> and \<open>nouveau_bo_wait\<close> call one another. \<open>pushbuf_validate\<close>
  has the depth of the stack as an argument; the others are given what they call, validation one level down.
\<close>

type_synonym validator = "addr \<Rightarrow> bool \<Rightarrow> push_state \<Rightarrow> (int \<times> push_state) option"

definition nouveau_pushbuf_kick :: "push_env \<Rightarrow> validator \<Rightarrow> addr \<Rightarrow> addr \<Rightarrow> push_state \<Rightarrow> (int \<times> push_state) option" where
  "nouveau_pushbuf_kick env validate push chan s = do {
     p \<leftarrow> ps_pushes s push;
     if pb_channel p = NULL then pushbuf_submit env push chan s
     else do {
       (ret, s) \<leftarrow> pushbuf_flush env push s;
       validate push False s
     }
   }"

definition nouveau_bo_wait :: "push_env \<Rightarrow> validator \<Rightarrow> addr \<Rightarrow> u32 \<Rightarrow> addr \<Rightarrow> push_state \<Rightarrow> (int \<times> push_state) option" where
  "nouveau_bo_wait env validate bo acc client s =
    (if acc AND (NOUVEAU_BO_RD OR NOUVEAU_BO_WR) = 0 then Some (0, s)
     else do {
       push \<leftarrow> cli_push_get client bo s;
       s \<leftarrow> (if push = NULL then Some s
         else do {
           p \<leftarrow> ps_pushes s push;
           if pb_channel p = NULL then Some s else map_option snd (nouveau_pushbuf_kick env validate push (pb_channel p) s)
         });
       b \<leftarrow> ns_bos s bo;
       if nb_name b = 0 \<and> nb_access b AND NOUVEAU_BO_WR = 0 \<and> acc AND NOUVEAU_BO_WR = 0 then Some (0, s)
       else do {
         let flags = (if acc AND NOUVEAU_BO_WR \<noteq> 0 then NOUVEAU_GEM_CPU_PREP_WRITE else 0) OR
           (if acc AND NOUVEAU_BO_NOBLOCK \<noteq> 0 then NOUVEAU_GEM_CPU_PREP_NOWAIT else 0);
         let ret = pe_cpu_prep env (ns_clock s) (nb_handle b) flags;
         s \<leftarrow> (if ret = 0 then nvbo_put (nv_tick s) bo (\<lambda>b. b\<lparr>nb_access := 0\<rparr>) else Some (nv_tick s));
         Some (ret, s)
       }
     })"

definition nouveau_bo_map :: "push_env \<Rightarrow> validator \<Rightarrow> addr \<Rightarrow> u32 \<Rightarrow> addr \<Rightarrow> push_state \<Rightarrow> (int \<times> push_state) option" where
  "nouveau_bo_map env validate bo acc client s = do {
     b \<leftarrow> ns_bos s bo;
     if nb_map b \<noteq> 0 then nouveau_bo_wait env validate bo acc client s
     else
       let (errno, m) = pe_mmap env (ns_clock s) (nb_size b) (nb_map_handle b) in
       if errno \<noteq> 0 then Some (- errno, nv_tick s)
       else do {
         s \<leftarrow> nvbo_put (nv_tick s) bo (\<lambda>b. b\<lparr>nb_map := m\<rparr>);
         nouveau_bo_wait env validate bo acc client s
       }
   }"

text \<open>The next buffer when the words do not fit in the current one: \<open>Inl\<close> an error, else the buffer, \<open>NULL\<close> when they fit.\<close>

definition next_bo :: "push_env \<Rightarrow> addr \<Rightarrow> u32 \<Rightarrow> push_state \<Rightarrow> ((int + addr) \<times> push_state) option" where
  "next_bo env push dwords s = do {
     p \<leftarrow> ps_pushes s push;
     if pb_cur p + uint dwords < pb_end p then Some (Inr NULL, s)
     else if pb_bo_next p < length (pb_bos p) then do {
       let bo = pb_bos p ! pb_bo_next p;
       s \<leftarrow> nouveau_bo_ref bo NULL s;
       let n = Suc (pb_bo_next p);
       s \<leftarrow> push_put s push (\<lambda>p. p\<lparr>pb_bo_next := (if n = length (pb_bos p) \<and> pb_channel p \<noteq> NULL then 0 else n)\<rparr>);
       Some (Inr bo, s)
     }
     else do {
       c_assert (pb_bos p \<noteq> []);
       b \<leftarrow> ns_bos s (hd (pb_bos p));
       (ret, bo, s) \<leftarrow> nouveau_bo_new (pe_nouveau env) (pb_type p) 0 (nb_size b) None NULL s;
       Some (if ret \<noteq> 0 then (Inl ret, s) else (Inr bo, s))
     }
   }"

definition switch_bo :: "addr \<Rightarrow> addr \<Rightarrow> push_state \<Rightarrow> push_state option" where
  "switch_bo push bo s = do {
     s \<leftarrow> nouveau_pushbuf_data push NULL 0 0 s;
     p \<leftarrow> ps_pushes s push;
     s \<leftarrow> nouveau_bo_ref bo (pb_bo p) s;
     s \<leftarrow> nouveau_bo_ref NULL bo s;
     b \<leftarrow> ns_bos s bo;
     push_put s push (\<lambda>p. p\<lparr>pb_bo := bo, pb_bgn := 0, pb_cur := 0, pb_end := uint (nb_size b div 4) - uint (2 + pb_rsvd_kick p)\<rparr>)
   }"

text \<open>Whether the new buffer makes a flush necessary: an immediate push buffer is flushed when it changes buffers.\<close>

definition bo_needs_flush :: "push_env \<Rightarrow> addr \<Rightarrow> addr \<Rightarrow> push_state \<Rightarrow> (bool \<times> push_state) option" where
  "bo_needs_flush env push bo s = do {
     p \<leftarrow> ps_pushes s push;
     if bo = NULL then Some (False, s)
     else if pb_channel p \<noteq> NULL then Some (True, s)
     else do { (kref, s) \<leftarrow> pushbuf_kref env push bo (pb_flags p) s; Some (kref = None, s) }
   }"

text \<open>The change to the new buffer, and the validation that must follow a flush.\<close>

definition use_bo :: "push_env \<Rightarrow> validator \<Rightarrow> addr \<Rightarrow> addr \<Rightarrow> bool \<Rightarrow> push_state \<Rightarrow> (int \<times> push_state) option" where
  "use_bo env validate push bo flushed s = do {
     p \<leftarrow> ps_pushes s push;
     (ret, s) \<leftarrow> (if bo = NULL then Some (0, s) else nouveau_bo_map env validate bo NOUVEAU_BO_WR (pb_client p) s);
     if ret \<noteq> 0 then Some (ret, s)
     else do {
       s \<leftarrow> (if bo = NULL then Some s else switch_bo push bo s);
       p \<leftarrow> ps_pushes s push;
       (kref, s) \<leftarrow> pushbuf_kref env push (pb_bo p) (pb_flags p) s;
       if flushed then validate push False s else Some (0, s)
     }
   }"

definition nouveau_pushbuf_space ::
  "push_env \<Rightarrow> validator \<Rightarrow> addr \<Rightarrow> u32 \<Rightarrow> u32 \<Rightarrow> u32 \<Rightarrow> push_state \<Rightarrow> (int \<times> push_state) option" where
  "nouveau_pushbuf_space env validate push dwords relocs pushes s = do {
     p \<leftarrow> ps_pushes s push;
     (r, s) \<leftarrow> next_bo env push dwords s;
     case r of Inl ret \<Rightarrow> Some (ret, s)
     | Inr bo \<Rightarrow> do {
         (full, s) \<leftarrow> bo_needs_flush env push bo s;
         krec \<leftarrow> ps_krecs s (pb_krec p);
         let flushed = (full \<or> of_nat NOUVEAU_GEM_MAX_RELOCS \<le> of_nat (length (kr_reloc krec)) + relocs \<or>
           of_nat NOUVEAU_GEM_MAX_PUSH \<le> of_nat (length (kr_push krec)) + (pushes + 1));
         s \<leftarrow> (if flushed \<and> pb_bo p \<noteq> NULL \<and> kr_buffer krec \<noteq> [] then map_option snd (pushbuf_flush env push s) else Some s);
         use_bo env validate push bo flushed s
       }
   }"

section \<open>Validation\<close>

text \<open>\<open>DRMLISTDEL(&bctx->head)\<close> takes the context off the list of the push buffer that has it.\<close>

definition unlist_bctx :: "addr \<Rightarrow> push_state \<Rightarrow> push_state" where
  "unlist_bctx c s = s\<lparr>ps_pushes := (\<lambda>a. map_option (\<lambda>p. p\<lparr>pb_bctx_list := remove1 c (pb_bctx_list p)\<rparr>) (ps_pushes s a))\<rparr>"

primrec validate_refs :: "push_env \<Rightarrow> addr \<Rightarrow> addr list \<Rightarrow> push_state \<Rightarrow> (int \<times> push_state) option" where
  "validate_refs env push [] s = Some (0, s)"
| "validate_refs env push (r # rs) s = do {
     bref \<leftarrow> bs_refs (ps_bctx s) r;
     (kref, s) \<leftarrow> pushbuf_kref env push (br_bo bref) (br_flags bref) s;
     if kref = None then Some (- ENOSPC, s)
     else do {
       s \<leftarrow> (if br_packet bref \<noteq> 0 then do {
           (v, s) \<leftarrow> pushbuf_krel push (br_bo bref) (br_packet bref) 0 0 0 s;
           s \<leftarrow> push_word push 0 s;
           (v, s) \<leftarrow> pushbuf_krel push (br_bo bref) (br_data bref) (br_flags bref) (br_vor bref) (br_tor bref) s;
           push_word push 0 s
         }
         else Some s);
       validate_refs env push rs s
     }
   }"

text \<open>The body, with the recursive calls of \<open>validate\<close>. The number of entries is read from the krec there was before the call of
  \<open>nouveau_pushbuf_space\<close>, which may have begun another one.\<close>

definition validate_body :: "push_env \<Rightarrow> validator \<Rightarrow> validator" where
  "validate_body env validate push retry s = do {
     p \<leftarrow> ps_pushes s push;
     let bctx = pb_bufctx p;
     relocs \<leftarrow> (if bctx = NULL then Some 0 else do { c \<leftarrow> bs_ctxs (ps_bctx s) bctx; s32 (bc_relocs c * 2) });
     (ret, s) \<leftarrow> nouveau_pushbuf_space env validate push (of_int relocs) (of_int relocs) 0 s;
     if ret \<noteq> 0 \<or> bctx = NULL then Some (ret, s)
     else do {
       krec \<leftarrow> ps_krecs s (pb_krec p);
       s \<leftarrow> push_put (unlist_bctx bctx s) push (\<lambda>p. p\<lparr>pb_bctx_list := bctx # pb_bctx_list p\<rparr>);
       c \<leftarrow> bs_ctxs (ps_bctx s) bctx;
       (ret, s) \<leftarrow> validate_refs env push (bc_pending c) s;
       b \<leftarrow> bctx_validated bctx (ps_bctx s);
       let s = s\<lparr>ps_bctx := b\<rparr>;
       if ret = 0 then Some (0, s)
       else do {
         s \<leftarrow> pushbuf_refn_fail env push (length (kr_buffer krec)) (length (kr_reloc krec)) s;
         if retry then do {
           (r, s) \<leftarrow> pushbuf_flush env push s;
           validate push False s
         }
         else Some (ret, s)
       }
     }
   }"

primrec pushbuf_validate :: "push_env \<Rightarrow> nat \<Rightarrow> validator" where
  "pushbuf_validate env 0 = (\<lambda>push retry s. None)"
| "pushbuf_validate env (Suc d) = (\<lambda>push retry s. validate_body env (pushbuf_validate env d) push retry s)"

definition nouveau_pushbuf_validate :: "push_env \<Rightarrow> nat \<Rightarrow> addr \<Rightarrow> push_state \<Rightarrow> (int \<times> push_state) option" where
  "nouveau_pushbuf_validate env d push s = pushbuf_validate env d push True s"

text \<open>\<open>pushbuf_refn\<close>: the loop, and its second run after a flush.\<close>

primrec kref_all :: "push_env \<Rightarrow> addr \<Rightarrow> (addr \<times> u32) list \<Rightarrow> push_state \<Rightarrow> (int \<times> push_state) option" where
  "kref_all env push [] s = Some (0, s)"
| "kref_all env push (r # rs) s = do {
     (kref, s) \<leftarrow> pushbuf_kref env push (fst r) (snd r) s;
     if kref = None then Some (- ENOSPC, s) else kref_all env push rs s
   }"

definition pushbuf_refn_once :: "push_env \<Rightarrow> addr \<Rightarrow> (addr \<times> u32) list \<Rightarrow> push_state \<Rightarrow> (int \<times> push_state) option" where
  "pushbuf_refn_once env push refs s = do {
     p \<leftarrow> ps_pushes s push;
     krec \<leftarrow> ps_krecs s (pb_krec p);
     (ret, s) \<leftarrow> kref_all env push refs s;
     if ret = 0 then Some (0, s)
     else do {
       k \<leftarrow> ps_krecs s (pb_krec p);
       s \<leftarrow> pushbuf_refn_fail env push (length (kr_buffer krec)) (length (kr_reloc k)) s;
       Some (ret, s)
     }
   }"

definition nouveau_pushbuf_refn :: "push_env \<Rightarrow> nat \<Rightarrow> addr \<Rightarrow> (addr \<times> u32) list \<Rightarrow> push_state \<Rightarrow> (int \<times> push_state) option" where
  "nouveau_pushbuf_refn env d push refs s = do {
     (ret, s) \<leftarrow> pushbuf_refn_once env push refs s;
     if ret = 0 then Some (0, s)
     else do {
       (r, s) \<leftarrow> pushbuf_flush env push s;
       (r, s) \<leftarrow> nouveau_pushbuf_space env (pushbuf_validate env d) push 0 0 0 s;
       pushbuf_refn_once env push refs s
     }
   }"

definition nouveau_pushbuf_refd :: "addr \<Rightarrow> addr \<Rightarrow> push_state \<Rightarrow> u32 option" where
  "nouveau_pushbuf_refd push bo s = do {
     p \<leftarrow> ps_pushes s push;
     fpush \<leftarrow> cli_push_get (pb_client p) bo s;
     if fpush \<noteq> push then Some 0
     else do {
       kref \<leftarrow> cli_kref_get (pb_client p) bo s;
       (k, i) \<leftarrow> kref;
       krec \<leftarrow> ps_krecs s k;
       c_assert (i < length (kr_buffer krec));
       Some ((if kb_read_domains (kr_buffer krec ! i) \<noteq> 0 then NOUVEAU_BO_RD else 0) OR
         (if kb_write_domains (kr_buffer krec ! i) \<noteq> 0 then NOUVEAU_BO_WR else 0))
     }
   }"

definition nouveau_pushbuf_bufctx :: "addr \<Rightarrow> addr \<Rightarrow> push_state \<Rightarrow> (addr \<times> push_state) option" where
  "nouveau_pushbuf_bufctx push ctx s = do {
     p \<leftarrow> ps_pushes s push;
     s \<leftarrow> push_put s push (\<lambda>p. p\<lparr>pb_bufctx := ctx\<rparr>);
     Some (pb_bufctx p, s)
   }"

section \<open>Creation and deletion\<close>

partial_function (option) del_krecs :: "push_env \<Rightarrow> addr \<Rightarrow> addr \<Rightarrow> push_state \<Rightarrow> push_state option" where
  "del_krecs env client k s =
    (if k = NULL then Some s
     else do {
       krec \<leftarrow> ps_krecs s k;
       s \<leftarrow> release_krefs env client True (kr_buffer krec) s;
       k' \<leftarrow> kr_next krec;
       h \<leftarrow> dealloc (ps_krecs s) k;
       del_krecs env client k' (s\<lparr>ps_krecs := h\<rparr>)
     })"

primrec unref_all :: "addr list \<Rightarrow> push_state \<Rightarrow> push_state option" where
  "unref_all [] s = Some s"
| "unref_all (a # as) s = do { s \<leftarrow> nouveau_bo_ref NULL a s; unref_all as s }"

definition nouveau_pushbuf_del :: "push_env \<Rightarrow> addr \<Rightarrow> push_state \<Rightarrow> push_state option" where
  "nouveau_pushbuf_del env push s =
    (if push = NULL then Some s
     else do {
       p \<leftarrow> ps_pushes s push;
       s \<leftarrow> del_krecs env (pb_client p) (pb_list p) s;
       s \<leftarrow> unref_all (rev (pb_bos p)) s;
       s \<leftarrow> nouveau_bo_ref NULL (pb_bo p) s;
       h \<leftarrow> dealloc (ps_pushes s) push;
       Some (s\<lparr>ps_pushes := h\<rparr>)
     })"

text \<open>The buffers of a new push buffer, one after the other; the first error ends it.\<close>

primrec new_bos :: "push_env \<Rightarrow> addr \<Rightarrow> nat \<Rightarrow> u64 \<Rightarrow> push_state \<Rightarrow> (int \<times> push_state) option" where
  "new_bos env push 0 sz s = Some (0, s)"
| "new_bos env push (Suc n) sz s = do {
     p \<leftarrow> ps_pushes s push;
     (ret, bo, s) \<leftarrow> nouveau_bo_new (pe_nouveau env) (pb_type p) 0 sz None NULL s;
     if ret \<noteq> 0 then Some (ret, s)
     else do {
       s \<leftarrow> push_put s push (\<lambda>p. p\<lparr>pb_bos := pb_bos p @ [bo]\<rparr>);
       new_bos env push n sz s
     }
   }"

definition nouveau_pushbuf_new ::
  "push_env \<Rightarrow> addr \<Rightarrow> addr \<Rightarrow> nat \<Rightarrow> u32 \<Rightarrow> bool \<Rightarrow> push_state \<Rightarrow> (int \<times> addr \<times> push_state) option" where
  "nouveau_pushbuf_new env client chan nr sz immediate s = do {
     ch \<leftarrow> ps_chans s chan;
     if \<not> nf_fifo ch then Some (- EINVAL, NULL, s)
     else do {
       let krec0 = \<lparr>kr_next = Some NULL, kr_buffer = [], kr_reloc = [], kr_push = [], kr_vram_used = 0, kr_gart_used = 0\<rparr>;
       let (ret, suffix0, suffix1, vram_available, gart_available, infos) = pe_pushbuf env (ns_clock s) (nf_channel ch) krec0 0 0;
       let s = nv_tick s;
       if ret \<noteq> 0 then Some (ret, NULL, s)
       else case pe_push env (ns_clock s) (ps_pushes s) of
         None \<Rightarrow> Some (- ENOMEM, NULL, nv_tick s)
       | Some push \<Rightarrow> (case pe_krec env (ns_clock s) (ps_krecs s) of
           None \<Rightarrow> Some (- ENOMEM, NULL, nv_tick s)
         | Some k \<Rightarrow> do {
             let mem = (if nf_pushbuf ch AND NOUVEAU_GEM_DOMAIN_GART \<noteq> 0 then NOUVEAU_BO_GART
               else if nf_pushbuf ch AND NOUVEAU_GEM_DOMAIN_VRAM \<noteq> 0 then NOUVEAU_BO_VRAM else 0);
             let p = \<lparr>pb_client = client, pb_channel = (if immediate then chan else NULL), pb_bufctx = NULL, pb_rsvd_kick = 0,
               pb_flags = NOUVEAU_BO_RD OR mem, pb_cur = 0, pb_end = 0, pb_list = k, pb_krec = k, pb_bctx_list = [], pb_bo = NULL,
               pb_type = mem OR NOUVEAU_BO_MAP, pb_suffix0 = suffix0, pb_suffix1 = suffix1, pb_bgn = 0, pb_bo_next = 0, pb_bos = []\<rparr>;
             let s = (nv_tick s)\<lparr>ps_pushes := (ps_pushes s)(push \<mapsto> p), ps_krecs := (ps_krecs s)(k \<mapsto> krec0)\<rparr>;
             (ret, s) \<leftarrow> new_bos env push nr (ucast sz) s;
             if ret \<noteq> 0 then do { s \<leftarrow> nouveau_pushbuf_del env push s; Some (ret, NULL, s) }
             else Some (0, push, s)
           })
     }
   }"

end
