(* ===== verification/Nouveau_Loop.thy ===== *)
theory Nouveau_Loop
  imports Nouveau_Push
begin

text \<open>
  What validation does with a context that has more relocations than a krec: it flushes to make room, and validates again.
\<close>

section \<open>Contexts are kept\<close>

text \<open>Which context a push buffer has, and how many relocations a context has.\<close>

definition view :: "push_state \<Rightarrow> (addr \<Rightarrow> addr option) \<times> (addr \<Rightarrow> int option)" where
  "view s = (\<lambda>a. map_option pb_bufctx (ps_pushes s a), \<lambda>c. map_option bc_relocs (bs_ctxs (ps_bctx s) c))"

text \<open>A krec has no more relocations than there is room for.\<close>

definition at :: "(addr \<Rightarrow> addr option) \<times> (addr \<Rightarrow> int option) \<Rightarrow> push_state \<Rightarrow> bool" where
  "at V s \<longleftrightarrow> view s = V \<and> (\<forall>k r. ps_krecs s k = Some r \<longrightarrow> length (kr_reloc r) \<le> NOUVEAU_GEM_MAX_RELOCS)"

text \<open>A computation keeps the view \<open>V\<close>; \<open>g\<close> selects the state in its result.\<close>

definition keeps :: "(addr \<Rightarrow> addr option) \<times> (addr \<Rightarrow> int option) \<Rightarrow> ('r \<Rightarrow> push_state) \<Rightarrow> 'r option \<Rightarrow> bool" where
  "keeps V g m \<longleftrightarrow> (\<forall>x. m = Some x \<longrightarrow> at V (g x))"

named_theorems view_intros \<open>operations that keep the view\<close>

lemma keeps_simps [simp]: "keeps V g (Some x) \<longleftrightarrow> at V (g x)" "keeps V g None"
  by (simp_all add: keeps_def)

lemma keeps_state [view_intros]:
  "keeps V (\<lambda>s. s) m \<Longrightarrow> (\<And>s'. at V s' \<Longrightarrow> keeps V g (f s')) \<Longrightarrow> keeps V g (m \<bind> f)"
  by (auto simp: keeps_def split: bind_splits)

lemma keeps_pair [view_intros]:
  "keeps V snd m \<Longrightarrow> (\<And>r s'. at V s' \<Longrightarrow> keeps V g (f (r, s'))) \<Longrightarrow> keeps V g (m \<bind> f)"
  by (auto simp: keeps_def split: bind_splits)

lemma keeps_triple [view_intros]:
  "keeps V (\<lambda>(r, a, s). s) m \<Longrightarrow> (\<And>r a s'. at V s' \<Longrightarrow> keeps V g (f (r, a, s'))) \<Longrightarrow> keeps V g (m \<bind> f)" for m :: "(int \<times> addr \<times> push_state) option"
  by (auto simp: keeps_def split: bind_splits)

lemma keeps_load: "(\<And>x. m = Some x \<Longrightarrow> keeps V g (f x)) \<Longrightarrow> keeps V g (m \<bind> f)" for m :: "'l option"
  by (auto simp: keeps_def split: bind_splits)

lemmas keeps_loads [view_intros] = keeps_load [where 'l = nouveau_pushbuf_priv] keeps_load [where 'l = nouveau_pushbuf_krec]
  keeps_load [where 'l = nouveau_bo_priv] keeps_load [where 'l = nouveau_channel] keeps_load [where 'l = addr] keeps_load [where 'l = int]
  keeps_load [where 'l = "kref option"] keeps_load [where 'l = kref] keeps_load [where 'l = nouveau_client_priv]
  keeps_load [where 'l = nouveau_bufctx_priv] keeps_load [where 'l = nouveau_bufref_priv] keeps_load [where 'l = "nouveau_bo_priv heap"]
  keeps_load [where 'l = "nouveau_pushbuf_krec heap"] keeps_load [where 'l = "bool \<times> u32 \<times> nouveau_pushbuf_krec"]

lemma keeps_if [view_intros]: "(b \<Longrightarrow> keeps V g x) \<Longrightarrow> (\<not> b \<Longrightarrow> keeps V g y) \<Longrightarrow> keeps V g (if b then x else y)"
  by simp

lemma keeps_let [view_intros]: "(\<And>x. x = a \<Longrightarrow> keeps V g (f x)) \<Longrightarrow> keeps V g (let x = a in f x)"
  by simp

lemma keeps_snd [view_intros]: "keeps V snd m \<Longrightarrow> keeps V (\<lambda>s. s) (map_option snd m)"
  by (auto simp: keeps_def)

lemma at_upd [simp]:
  "at V (s\<lparr>ns_dev := x1\<rparr>) = at V s" "at V (s\<lparr>ns_bos := x2\<rparr>) = at V s" "at V (s\<lparr>ns_bo_list := x3\<rparr>) = at V s" "at V (s\<lparr>ns_lock := x4\<rparr>) = at V s"
  "at V (s\<lparr>ns_clock := x5\<rparr>) = at V s" "at V (s\<lparr>ps_clients := x6\<rparr>) = at V s" "at V (s\<lparr>ps_words := x8\<rparr>) = at V s"
  by (simp_all add: at_def view_def)

lemma at_tick [simp]: "at V (nv_tick s) = at V s" "at V (pthread_mutex_unlock s) = at V s"
  by (simp_all add: nv_tick_def pthread_mutex_unlock_def)

lemma at_krec [simp]: "at V s \<Longrightarrow> length (kr_reloc r) \<le> NOUVEAU_GEM_MAX_RELOCS \<Longrightarrow> at V (s\<lparr>ps_krecs := (ps_krecs s)(k \<mapsto> r)\<rparr>)"
  by (simp add: at_def view_def)

lemma at_relocs: "at V s \<Longrightarrow> ps_krecs s k = Some r \<Longrightarrow> length (kr_reloc r) \<le> NOUVEAU_GEM_MAX_RELOCS"
  by (simp add: at_def)

section \<open>The operations\<close>

lemma keeps_krec_put [view_intros]:
  "at V s \<Longrightarrow> (\<And>r. ps_krecs s k = Some r \<Longrightarrow> length (kr_reloc r) \<le> NOUVEAU_GEM_MAX_RELOCS \<Longrightarrow> length (kr_reloc (f r)) \<le> NOUVEAU_GEM_MAX_RELOCS) \<Longrightarrow>
   keeps V (\<lambda>s. s) (krec_put s k f)"
  unfolding krec_put_def keeps_def wr_def by (auto split: bind_splits option.splits simp: at_relocs)

lemma keeps_nvbo_put [view_intros]: "at V s \<Longrightarrow> keeps V (\<lambda>s. s) (nvbo_put s a f)"
  by (auto simp: nvbo_put_def keeps_def split: bind_splits)

lemma at_pushes: "(\<And>p. pb_bufctx (f p) = pb_bufctx p) \<Longrightarrow> ps_pushes s a = Some p \<Longrightarrow> at V (s\<lparr>ps_pushes := (ps_pushes s)(a \<mapsto> f p)\<rparr>) = at V s"
proof -
  assume "\<And>p. pb_bufctx (f p) = pb_bufctx p" "ps_pushes s a = Some p"
  then have "view (s\<lparr>ps_pushes := (ps_pushes s)(a \<mapsto> f p)\<rparr>) = view s" by (simp add: view_def fun_eq_iff)
  then show ?thesis by (simp add: at_def)
qed

lemma keeps_push_put [view_intros]: "at V s \<Longrightarrow> (\<And>p. pb_bufctx (f p) = pb_bufctx p) \<Longrightarrow> keeps V (\<lambda>s. s) (push_put s a f)"
  unfolding push_put_def keeps_def wr_def by (auto split: bind_splits option.splits simp: at_pushes)

lemma keeps_lock [view_intros]: "at V s \<Longrightarrow> keeps V (\<lambda>s. s) (pthread_mutex_lock s)"
  by (simp add: pthread_mutex_lock_def)

lemma keeps_bo_del [view_intros]: "at V s \<Longrightarrow> keeps V (\<lambda>s. s) (nouveau_bo_del a s)"
  unfolding nouveau_bo_del_def by (auto intro!: view_intros)

lemma keeps_bo_ref [view_intros]: "at V s \<Longrightarrow> keeps V (\<lambda>s. s) (nouveau_bo_ref a b s)"
  unfolding nouveau_bo_ref_def by (auto intro!: view_intros)

lemma keeps_bo_new [view_intros]: "at V s \<Longrightarrow> keeps V (\<lambda>(r, a, s). s) (nouveau_bo_new env flags al sz config pbo s)"
  unfolding nouveau_bo_new_def by (auto intro!: view_intros split: option.splits prod.splits)

lemma keeps_kref_set [view_intros]: "at V s \<Longrightarrow> keeps V (\<lambda>s. s) (cli_kref_set env c bo k p s)"
  unfolding cli_kref_set_def by (auto intro!: view_intros)

lemma keeps_word [view_intros]: "at V s \<Longrightarrow> keeps V (\<lambda>s. s) (push_word push v s)"
  unfolding push_word_def by (auto intro!: view_intros)

lemma keeps_range [view_intros]: "at V s \<Longrightarrow> keeps V (\<lambda>s. s) (push_range push bo off len s)"
  unfolding push_range_def by (auto intro!: view_intros)

lemma keeps_data [view_intros]: "at V s \<Longrightarrow> keeps V (\<lambda>s. s) (nouveau_pushbuf_data push bo off len s)"
  unfolding nouveau_pushbuf_data_def by (auto intro!: view_intros)

lemma keeps_krel [view_intros]: "at V s \<Longrightarrow> keeps V snd (pushbuf_krel push bo data flags vor tor s)"
  unfolding pushbuf_krel_def by (auto intro!: view_intros)

lemma keeps_update_bos [view_intros]: "at V s \<Longrightarrow> keeps V (\<lambda>s. s) (update_bos krefs s)"
  by (induction krefs arbitrary: s) (auto intro!: view_intros)

lemma keeps_release [view_intros]: "at V s \<Longrightarrow> keeps V (\<lambda>s. s) (release_krefs env c u krefs s)"
  by (induction krefs arbitrary: s) (auto intro!: view_intros)

text \<open>What a callback may do: anything but give push buffers other contexts or contexts other relocations.\<close>

definition kick_keeps :: "push_env \<Rightarrow> bool" where
  "kick_keeps env \<longleftrightarrow> (\<forall>push f s V. pe_kick env push = Some f \<longrightarrow> at V s \<longrightarrow> keeps V (\<lambda>s. s) (f s))"

lemma set_presumed_reloc [simp]: "kr_reloc (set_presumed infos k) = kr_reloc k"
  by (simp add: set_presumed_def)

lemma at_submit_loop: "submit_loop env push ch k ret s = Some y \<Longrightarrow> at V s \<longrightarrow> at V (snd y)"
proof (rule submit_loop.raw_induct [where P = "\<lambda>_ _ _ _ _ s y. at V s \<longrightarrow> at V (snd y)"], goal_cases)
  case (1 f env push ch k ret s y)
  have f: "keeps V snd (f env push ch k' ret' s')" if "at V s'" for k' ret' s' using 1(2) that by (auto simp: keeps_def)
  have "keeps V snd (Some y)" if "at V s" unfolding 1(3) [symmetric] using that by (auto intro!: view_intros f split: prod.splits)
  then show ?case by simp
qed

lemma keeps_submit_loop [view_intros]: "at V s \<Longrightarrow> keeps V snd (submit_loop env push ch k ret s)"
  by (auto simp: keeps_def dest: at_submit_loop)

lemma keeps_submit [view_intros]:
  assumes "kick_keeps env" "at V s"
  shows "keeps V snd (pushbuf_submit env push chan s)"
proof -
  have "keeps V (\<lambda>s. s) (case pe_kick env push of Some f \<Rightarrow> f s | None \<Rightarrow> Some s)"
    using assms unfolding kick_keeps_def by (auto split: option.splits simp del: split_paired_All)
  then show ?thesis using assms(2) unfolding pushbuf_submit_def by (auto intro!: view_intros)
qed

lemma at_bctxs:
  "(\<And>c. map_option bc_relocs (bs_ctxs b c) = map_option bc_relocs (bs_ctxs (ps_bctx s) c)) \<Longrightarrow> at V (s\<lparr>ps_bctx := b\<rparr>) = at V s"
  by (simp add: at_def view_def fun_eq_iff)

lemma ctx_put_relocs:
  "ctx_put b c f = Some b' \<Longrightarrow> (\<And>x. bc_relocs (f x) = bc_relocs x) \<Longrightarrow> map_option bc_relocs (bs_ctxs b' a) = map_option bc_relocs (bs_ctxs b a)"
  unfolding ctx_put_def wr_def by (auto split: bind_splits option.splits)

lemma flush_bctxs_relocs: "flush_bctxs cs b = Some b' \<Longrightarrow> map_option bc_relocs (bs_ctxs b' a) = map_option bc_relocs (bs_ctxs b a)"
proof (induction cs arbitrary: b)
  case (Cons c cs)
  then obtain b1 where b1: "bctx_flushed c b = Some b1" "flush_bctxs cs b1 = Some b'" by (auto split: bind_splits)
  then have "map_option bc_relocs (bs_ctxs b1 a) = map_option bc_relocs (bs_ctxs b a)"
    using ctx_put_relocs [of b c _ b1 a] unfolding bctx_flushed_def by simp
  then show ?case using Cons.IH [OF b1(2)] by simp
qed simp

lemma keeps_bctx [view_intros]: "(\<And>b. m = Some b \<Longrightarrow> keeps V g (f b)) \<Longrightarrow> keeps V g (m \<bind> f)" for m :: "bufctx_state option"
  by (rule keeps_load)

lemma keeps_flush [view_intros]:
  assumes "kick_keeps env" "at V s"
  shows "keeps V snd (pushbuf_flush env push s)"
  unfolding pushbuf_flush_def using assms by (auto intro!: view_intros simp: at_bctxs flush_bctxs_relocs split: prod.splits)

lemma fits_loop_reloc: "fits_loop h v g sz is k = Some (ok, k') \<Longrightarrow> kr_reloc k' = kr_reloc k"
  by (induction "is" arbitrary: k) (auto simp: Let_def split: if_splits bind_splits)

lemma fits_reloc: "pushbuf_kref_fits h v g sz d k = Some (ok, d', k') \<Longrightarrow> kr_reloc k' = kr_reloc k"
  unfolding pushbuf_kref_fits_def by (auto split: if_splits bind_splits dest: fits_loop_reloc)

lemma keeps_kref_again [view_intros]: "at V s \<Longrightarrow> keeps V snd (kref_again krec sz d w r ki s)"
  unfolding kref_again_def by (auto intro!: view_intros split: prod.splits)

lemma keeps_kref_new [view_intros]: "at V s \<Longrightarrow> keeps V snd (kref_new env push client krec bo d w r s)"
  unfolding kref_new_def by (auto intro!: view_intros simp: fits_reloc at_relocs)

lemma keeps_kref [view_intros]: "kick_keeps env \<Longrightarrow> at V s \<Longrightarrow> keeps V snd (pushbuf_kref env push bo flags s)"
  unfolding pushbuf_kref_def by (auto intro!: view_intros split: option.splits)

lemma keeps_refn_fail [view_intros]: "at V s \<Longrightarrow> keeps V (\<lambda>s. s) (pushbuf_refn_fail env push sref srel s)"
  unfolding pushbuf_refn_fail_def by (auto intro!: view_intros)

lemma keeps_next_bo [view_intros]: "at V s \<Longrightarrow> keeps V snd (next_bo env push dwords s)"
  unfolding next_bo_def by (auto intro!: view_intros)

lemma keeps_switch_bo [view_intros]: "at V s \<Longrightarrow> keeps V (\<lambda>s. s) (switch_bo push bo s)"
  unfolding switch_bo_def by (auto intro!: view_intros)

lemma at_unlist [simp]: "at V (unlist_bctx c s) = at V s"
  by (simp add: at_def view_def unlist_bctx_def fun_eq_iff option.map_comp comp_def)

lemma keeps_validate_refs [view_intros]: "kick_keeps env \<Longrightarrow> at V s \<Longrightarrow> keeps V snd (validate_refs env push rs s)"
  by (induction rs arbitrary: s) (auto intro!: view_intros)

lemma keeps_kick [view_intros]:
  "kick_keeps env \<Longrightarrow> (\<And>push s. at V s \<Longrightarrow> keeps V snd (validate push False s)) \<Longrightarrow> at V s \<Longrightarrow>
   keeps V snd (nouveau_pushbuf_kick env validate push chan s)"
  unfolding nouveau_pushbuf_kick_def by (auto intro!: view_intros)

lemma keeps_wait [view_intros]:
  "kick_keeps env \<Longrightarrow> (\<And>push s. at V s \<Longrightarrow> keeps V snd (validate push False s)) \<Longrightarrow> at V s \<Longrightarrow>
   keeps V snd (nouveau_bo_wait env validate bo acc client s)"
  unfolding nouveau_bo_wait_def by (auto intro!: view_intros)

lemma keeps_map [view_intros]:
  "kick_keeps env \<Longrightarrow> (\<And>push s. at V s \<Longrightarrow> keeps V snd (validate push False s)) \<Longrightarrow> at V s \<Longrightarrow>
   keeps V snd (nouveau_bo_map env validate bo acc client s)"
  unfolding nouveau_bo_map_def by (auto intro!: view_intros split: prod.splits)

lemma keeps_needs_flush [view_intros]: "kick_keeps env \<Longrightarrow> at V s \<Longrightarrow> keeps V snd (bo_needs_flush env push bo s)"
  unfolding bo_needs_flush_def by (auto intro!: view_intros)

lemma keeps_use_bo [view_intros]:
  "kick_keeps env \<Longrightarrow> (\<And>push s. at V s \<Longrightarrow> keeps V snd (validate push False s)) \<Longrightarrow> at V s \<Longrightarrow>
   keeps V snd (use_bo env validate push bo flushed s)"
  unfolding use_bo_def by (auto intro!: view_intros)

lemma keeps_space [view_intros]:
  "kick_keeps env \<Longrightarrow> (\<And>push s. at V s \<Longrightarrow> keeps V snd (validate push False s)) \<Longrightarrow> at V s \<Longrightarrow>
   keeps V snd (nouveau_pushbuf_space env validate push dwords relocs pushes s)"
  unfolding nouveau_pushbuf_space_def by (auto intro!: view_intros split: sum.splits)

lemma validated_relocs: "bctx_validated c b = Some b' \<Longrightarrow> map_option bc_relocs (bs_ctxs b' a) = map_option bc_relocs (bs_ctxs b a)"
  unfolding bctx_validated_def by (erule ctx_put_relocs) simp

lemma keeps_validate [view_intros]: "kick_keeps env \<Longrightarrow> at V s \<Longrightarrow> keeps V snd (pushbuf_validate env d push retry s)"
proof (induction d arbitrary: push retry s)
  case (Suc d)
  then show ?case unfolding pushbuf_validate.simps validate_body_def
    by (auto intro!: view_intros simp: at_bctxs validated_relocs)
qed simp

section \<open>No success\<close>

text \<open>A computation that does not return 0; the steps before its last keep the view \<open>V\<close>.\<close>

definition fails :: "(addr \<Rightarrow> addr option) \<times> (addr \<Rightarrow> int option) \<Rightarrow> (int \<times> push_state) option \<Rightarrow> bool" where
  "fails V m \<longleftrightarrow> (\<forall>s. m \<noteq> Some (0, s))"

lemma fails_simps [simp]: "fails V (Some (r, s)) \<longleftrightarrow> r \<noteq> 0" "fails V None"
  by (auto simp: fails_def)

lemma fails_state: "keeps V (\<lambda>s. s) m \<Longrightarrow> (\<And>s'. at V s' \<Longrightarrow> fails V (f s')) \<Longrightarrow> fails V (m \<bind> f)"
  by (auto simp: fails_def keeps_def split: bind_splits)

lemma fails_pair: "keeps V snd m \<Longrightarrow> (\<And>r s'. m = Some (r, s') \<Longrightarrow> at V s' \<Longrightarrow> fails V (f (r, s'))) \<Longrightarrow> fails V (m \<bind> f)"
  by (auto simp: fails_def keeps_def split: bind_splits)

lemma fails_load: "(\<And>x. m = Some x \<Longrightarrow> fails V (f x)) \<Longrightarrow> fails V (m \<bind> f)" for m :: "'l option"
  by (auto simp: fails_def split: bind_splits)

lemmas fails_binds = fails_state fails_pair fails_load [where 'l = nouveau_pushbuf_priv] fails_load [where 'l = nouveau_pushbuf_krec]

lemma fails_if: "(b \<Longrightarrow> fails V x) \<Longrightarrow> (\<not> b \<Longrightarrow> fails V y) \<Longrightarrow> fails V (if b then x else y)"
  by simp

lemma next_bo_error: "next_bo env push dwords s \<noteq> Some (Inl 0, s')"
  by (auto simp: next_bo_def Let_def split: bind_splits if_splits)

lemma space_fails:
  assumes "kick_keeps env" "\<And>push s. at V s \<Longrightarrow> keeps V snd (validate push False s)" "\<And>s. at V s \<Longrightarrow> fails V (validate push False s)"
    "at V s" "1024 \<le> unat relocs" "unat relocs < 2 ^ 31"
  shows "fails V (nouveau_pushbuf_space env validate push dwords relocs pushes s)"
proof -
  have full: "of_nat NOUVEAU_GEM_MAX_RELOCS \<le> of_nat (length (kr_reloc r)) + relocs" if "at V t" "ps_krecs t k = Some r" for t k r
  proof -
    have l: "length (kr_reloc r) \<le> 1024" using at_relocs [OF that] by (simp add: NOUVEAU_GEM_MAX_RELOCS_def)
    then have "unat (of_nat (length (kr_reloc r)) :: u32) = length (kr_reloc r)" by (intro unat_of_nat_small) simp
    then have "unat (of_nat (length (kr_reloc r)) + relocs) = length (kr_reloc r) + unat relocs"
      using l assms(6) by (subst unat_add_small) simp_all
    then show ?thesis using assms(5) by (simp add: word_le_nat_alt NOUVEAU_GEM_MAX_RELOCS_def)
  qed
  have "fails V (use_bo env validate push bo True t)" if "at V t" for bo t
    unfolding use_bo_def using that assms(1-3) by (auto intro!: fails_binds fails_if view_intros)
  then show ?thesis unfolding nouveau_pushbuf_space_def using assms(1,4) full
    by (auto intro!: fails_binds view_intros simp: next_bo_error split: sum.splits)
qed

lemma validate_fails:
  assumes "kick_keeps env" "at V s" "fst V push = Some c" "c \<noteq> NULL" "snd V c = Some n" "512 \<le> n"
  shows "fails V (pushbuf_validate env d push retry s)"
  using assms(2)
proof (induction d arbitrary: retry s)
  case (Suc d)
  have sp: "fails V (nouveau_pushbuf_space env (pushbuf_validate env d) push dw (of_int (n * 2)) pu s)" if "n * 2 < 2 ^ 31" for dw pu
  proof -
    have "unat (of_int (n * 2) :: u32) = nat (n * 2)" using that assms(6) unat_of_nat_small [of "nat (n * 2)", where 'a = 32] by simp
    then show ?thesis using Suc assms(1,6) that by (intro space_fails) (auto intro!: view_intros)
  qed
  have p: "pb_bufctx p = c" if "ps_pushes s push = Some p" for p using Suc.prems assms(3) that unfolding at_def view_def by auto
  have x: "bc_relocs x = n" if "bs_ctxs (ps_bctx s) c = Some x" for x using Suc.prems assms(5) that unfolding at_def view_def by auto
  have k: "keeps V snd (nouveau_pushbuf_space env (pushbuf_validate env d) push dw re pu s)" for dw re pu
    using assms(1) Suc.prems by (auto intro!: view_intros)
  show ?case unfolding pushbuf_validate.simps validate_body_def fails_def
    using p x sp assms(4) by (auto simp: Let_def fails_def in_s32_def split: bind_splits if_splits)
qed simp

section \<open>Theorem\<close>


definition ex_push_env :: push_env where
  "ex_push_env = \<lparr>pe_nouveau = ex_nouveau_env, pe_krec = \<lambda>_. first_free 10, pe_push = \<lambda>_. first_free 10, pe_realloc = \<lambda>_. True,
     pe_mmap = \<lambda>n _ _. (0, of_nat (Suc n)), pe_cpu_prep = \<lambda>_ _ _. 0, pe_pushbuf = \<lambda>_ _ _ _ _. (0, 0, 0, 100000, 100000, []), pe_kick = \<lambda>_. None\<rparr>"

definition ex_push :: nouveau_pushbuf_priv where
  "ex_push = \<lparr>pb_client = 1, pb_channel = 1, pb_bufctx = 1, pb_rsvd_kick = 0, pb_flags = 0x102, pb_cur = 0, pb_end = 0, pb_list = 1, pb_krec = 1,
     pb_bctx_list = [], pb_bo = 0, pb_type = 2, pb_suffix0 = 0, pb_suffix1 = 0, pb_bgn = 0, pb_bo_next = 0, pb_bos = []\<rparr>"

definition ex_krec :: nouveau_pushbuf_krec where
  "ex_krec = \<lparr>kr_next = Some 0, kr_buffer = [], kr_reloc = [], kr_push = [], kr_vram_used = 0, kr_gart_used = 0\<rparr>"

definition ex_push_state :: "int \<Rightarrow> push_state" where
  "ex_push_state n = \<lparr>ns_dev = ex_nouveau_dev 0x50, ns_bos = Map.empty, ns_bo_list = [], ns_lock = False, ns_clock = 0,
     ps_bctx = \<lparr>bs_refs = Map.empty, bs_ctxs = [1 \<mapsto> \<lparr>bc_pending = [], bc_current = [], bc_relocs = n, bc_free = 0, bc_nr_bins = 0, bc_bins = []\<rparr>], bs_clock = 0\<rparr>,
     ps_clients = [1 \<mapsto> \<lparr>nc_kref = []\<rparr>], ps_chans = [1 \<mapsto> \<lparr>nf_fifo = True, nf_channel = 1, nf_pushbuf = 4\<rparr>], ps_krecs = [1 \<mapsto> ex_krec],
     ps_pushes = [1 \<mapsto> ex_push], ps_words = \<lambda>_ _. 0\<rparr>"


end
