(* ===== verification/Nouveau_Place.thy ===== *)
theory Nouveau_Place
  imports Nouveau_Push
begin

text \<open>
  The two things that are kept of the buffers of a krec: the memory counters cover what is placed in each memory and stay
  within the limits of the device, and the table of the client finds every buffer that is listed.
\<close>

section \<open>Memory\<close>

text \<open>The sizes of the buffers that must be in VRAM, and of those that may be in GART.\<close>

definition bo_bytes :: "nouveau_bo_priv heap \<Rightarrow> drm_nouveau_gem_pushbuf_bo \<Rightarrow> nat" where
  "bo_bytes h kref = unat (fld nb_size h (kb_user_priv kref))"

definition in_vram :: "drm_nouveau_gem_pushbuf_bo \<Rightarrow> bool" where
  "in_vram kref \<longleftrightarrow> kb_valid_domains kref = NOUVEAU_GEM_DOMAIN_VRAM"

definition vram_bytes :: "nouveau_bo_priv heap \<Rightarrow> drm_nouveau_gem_pushbuf_bo list \<Rightarrow> nat" where
  "vram_bytes h ks = sum_list (map (bo_bytes h) (filter in_vram ks))"

definition gart_bytes :: "nouveau_bo_priv heap \<Rightarrow> drm_nouveau_gem_pushbuf_bo list \<Rightarrow> nat" where
  "gart_bytes h ks = sum_list (map (bo_bytes h) (filter (\<lambda>k. \<not> in_vram k) ks))"

text \<open>The counters cover the buffers and \<open>v\<close> and \<open>g\<close> bytes more, within the limits \<open>L\<close> and \<open>G\<close>.\<close>

definition covers :: "u64 \<Rightarrow> u64 \<Rightarrow> nouveau_bo_priv heap \<Rightarrow> nat \<Rightarrow> nat \<Rightarrow> nouveau_pushbuf_krec \<Rightarrow> bool" where
  "covers L G h v g kr \<longleftrightarrow> vram_bytes h (kr_buffer kr) + v \<le> unat (kr_vram_used kr) \<and> unat (kr_vram_used kr) \<le> unat L \<and>
     gart_bytes h (kr_buffer kr) + g \<le> unat (kr_gart_used kr) \<and> unat (kr_gart_used kr) \<le> unat G"

text \<open>Sizes and limits are far from where sums wrap around.\<close>

definition small :: "u64 \<Rightarrow> bool" where
  "small x \<longleftrightarrow> unat x < 2 ^ 62"

definition mem_ok :: "u64 \<Rightarrow> u64 \<Rightarrow> nouveau_bo_priv heap \<Rightarrow> bool" where
  "mem_ok L G h \<longleftrightarrow> small L \<and> small G \<and> (\<forall>b \<in> ran h. small (nb_size b))"

text \<open>An entry allows VRAM, GART or both.\<close>

definition domains_ok :: "u32 \<Rightarrow> bool" where
  "domains_ok d \<longleftrightarrow> d = 2 \<or> d = 4 \<or> d = 6"

lemma flag_domains_ok: "flag_domains flags \<noteq> 0 \<Longrightarrow> domains_ok (flag_domains flags)"
  by (auto simp: flag_domains_def domains_ok_def nouveau_flags split: if_splits)

lemma bytes_update:
  assumes "i < length ks"
  shows "vram_bytes h (ks[i := x]) + (if in_vram (ks ! i) then bo_bytes h (ks ! i) else 0) = vram_bytes h ks + (if in_vram x then bo_bytes h x else 0)"
    "gart_bytes h (ks[i := x]) + (if in_vram (ks ! i) then 0 else bo_bytes h (ks ! i)) = gart_bytes h ks + (if in_vram x then 0 else bo_bytes h x)"
proof -
  obtain A y B where "ks = A @ y # B" "length A = i" "y = ks ! i" using id_take_nth_drop [OF assms] assms by (metis length_take min.absorb4)
  then have "ks[i := x] = A @ x # B" "ks ! i = y" "ks = A @ y # B" by (metis list_update_length, simp_all)
  then show "vram_bytes h (ks[i := x]) + (if in_vram (ks ! i) then bo_bytes h (ks ! i) else 0) = vram_bytes h ks + (if in_vram x then bo_bytes h x else 0)"
    "gart_bytes h (ks[i := x]) + (if in_vram (ks ! i) then 0 else bo_bytes h (ks ! i)) = gart_bytes h ks + (if in_vram x then 0 else bo_bytes h x)"
    by (simp_all only:) (simp_all add: vram_bytes_def gart_bytes_def)
qed

lemma add_small: "small x \<Longrightarrow> small y \<Longrightarrow> unat (x + y) = unat x + unat y"
  unfolding small_def by (rule unat_add_small) simp

lemma le_small: "x \<le> y \<Longrightarrow> small y \<Longrightarrow> small x"
  by (simp add: small_def word_le_nat_alt)

text \<open>A buffer that may be in GART becomes one that must be in VRAM.\<close>

definition narrowed :: "drm_nouveau_gem_pushbuf_bo \<Rightarrow> drm_nouveau_gem_pushbuf_bo \<Rightarrow> bool" where
  "narrowed a b \<longleftrightarrow> kb_user_priv b = kb_user_priv a \<and> kb_handle b = kb_handle a \<and> domains_ok (kb_valid_domains b) \<and>
     kb_valid_domains b AND kb_valid_domains a = kb_valid_domains b"

lemma to_vram:
  assumes c: "covers L G h v g kr" and m: "mem_ok L G h" and i: "i < length (kr_buffer kr)" and b: "h (kb_user_priv (kr_buffer kr ! i)) = Some b"
    and d: "\<not> in_vram (kr_buffer kr ! i)" "in_vram x" "kb_user_priv x = kb_user_priv (kr_buffer kr ! i)" and l: "kr_vram_used kr + nb_size b \<le> L"
  shows "covers L G h v g (kr\<lparr>kr_buffer := (kr_buffer kr)[i := x], kr_gart_used := kr_gart_used kr - nb_size b, kr_vram_used := kr_vram_used kr + nb_size b\<rparr>)"
proof -
  have z: "bo_bytes h (kr_buffer kr ! i) = unat (nb_size b)" "bo_bytes h x = unat (nb_size b)" using b d(3) by (simp_all add: bo_bytes_def fld_def)
  have s: "small (nb_size b)" "small (kr_vram_used kr)" using m b c by (auto simp: mem_ok_def ran_def covers_def small_def)
  have vs: "vram_bytes h ((kr_buffer kr)[i := x]) = vram_bytes h (kr_buffer kr) + unat (nb_size b)"
    "gart_bytes h ((kr_buffer kr)[i := x]) + unat (nb_size b) = gart_bytes h (kr_buffer kr)"
    using bytes_update [OF i, of h x] d z by simp_all
  have ge: "unat (nb_size b) \<le> unat (kr_gart_used kr)" using vs(2) c by (simp add: covers_def)
  have "unat (kr_gart_used kr - nb_size b) = unat (kr_gart_used kr) - unat (nb_size b)" using ge by (simp add: unat_sub word_le_nat_alt)
  moreover have "unat (kr_vram_used kr + nb_size b) = unat (kr_vram_used kr) + unat (nb_size b)" using s by (simp add: add_small)
  ultimately show ?thesis using c vs l ge by (auto simp: covers_def word_le_nat_alt)
qed

lemma narrowed_refl: "domains_ok (kb_valid_domains a) \<Longrightarrow> narrowed a a"
  by (simp add: narrowed_def)

lemma narrowed_trans: "narrowed a b \<Longrightarrow> narrowed b c \<Longrightarrow> narrowed a c"
  unfolding narrowed_def by (metis and.assoc)

lemma narrowed_update:
  assumes "list_all (\<lambda>a. domains_ok (kb_valid_domains a)) ks" "narrowed (ks ! i) x"
  shows "list_all2 narrowed ks (ks[i := x])"
proof (rule list_all2_all_nthI)
  fix n assume "n < length ks"
  then show "narrowed (ks ! n) (ks[i := x] ! n)" using assms by (cases "n = i") (auto simp: list_all_length nth_list_update narrowed_refl)
qed simp

lemma narrowed_ok: "list_all2 narrowed ks ks' \<Longrightarrow> list_all (\<lambda>a. domains_ok (kb_valid_domains a)) ks'"
  by (auto simp: list_all2_conv_all_nth list_all_length narrowed_def)

lemma narrowed_user: "list_all2 narrowed ks ks' \<Longrightarrow> map kb_user_priv ks' = map kb_user_priv ks"
  by (rule nth_equalityI) (auto simp: list_all2_conv_all_nth narrowed_def)

text \<open>What listing a buffer leaves of a krec.\<close>

definition kr_like :: "nouveau_pushbuf_krec \<Rightarrow> nouveau_pushbuf_krec \<Rightarrow> bool" where
  "kr_like kr kr' \<longleftrightarrow> list_all2 narrowed (kr_buffer kr) (kr_buffer kr') \<and> kr_reloc kr' = kr_reloc kr \<and> kr_push kr' = kr_push kr \<and> kr_next kr' = kr_next kr"

lemma kr_like_trans: "kr_like a b \<Longrightarrow> kr_like b c \<Longrightarrow> kr_like a c"
proof -
  assume ab: "kr_like a b" and bc: "kr_like b c"
  have "list_all2 narrowed (kr_buffer a) (kr_buffer c)"
    using ab bc narrowed_trans unfolding kr_like_def list_all2_conv_all_nth by (metis (no_types, lifting))
  then show ?thesis using ab bc by (simp add: kr_like_def)
qed

lemma fits_loop_ok:
  assumes "mem_ok L G h" "covers L G h v g kr" "list_all (\<lambda>a. domains_ok (kb_valid_domains a)) (kr_buffer kr)"
    "\<forall>a \<in> set (kr_buffer kr). kb_user_priv a \<in> dom h" "\<forall>i \<in> set is. i < length (kr_buffer kr)" "small sz"
  shows "\<exists>ok kr'. fits_loop h L G sz is kr = Some (ok, kr') \<and> kr_like kr kr' \<and> covers L G h v (g + (if ok then unat sz else 0)) kr'"
  using assms(2-5)
proof (induction "is" arbitrary: kr)
  case Nil
  then show ?case by (auto simp: kr_like_def list_all2_refl narrowed_refl list_all_iff list.rel_refl_strong)
next
  case (Cons i "is")
  let ?k = "kr_buffer kr ! i"
  have i: "i < length (kr_buffer kr)" using Cons.prems(4) by simp
  have IH: "\<exists>ok kr'. fits_loop h L G sz is kr = Some (ok, kr') \<and> kr_like kr kr' \<and> covers L G h v (g + (if ok then unat sz else 0)) kr'"
    using Cons.IH [OF Cons.prems(1-3)] Cons.prems(4) by simp
  obtain b where b: "h (kb_user_priv ?k) = Some b" using Cons.prems(3) i by (meson domD nth_mem)
  have d: "domains_ok (kb_valid_domains ?k)" using Cons.prems(2) i by (simp add: list_all_length)
  show ?case
  proof (cases "kb_valid_domains ?k AND NOUVEAU_GEM_DOMAIN_GART = 0 \<or> kb_valid_domains ?k AND NOUVEAU_GEM_DOMAIN_VRAM = 0 \<or> L < kr_vram_used kr + nb_size b")
    case True
    then have "fits_loop h L G sz (i # is) kr = fits_loop h L G sz is kr" using b by (auto simp: Let_def)
    then show ?thesis using IH by simp
  next
    case False
    let ?x = "?k\<lparr>kb_valid_domains := kb_valid_domains ?k AND NOUVEAU_GEM_DOMAIN_VRAM\<rparr>"
    define kr1 where "kr1 = kr\<lparr>kr_buffer := (kr_buffer kr)[i := ?x], kr_gart_used := kr_gart_used kr - nb_size b, kr_vram_used := kr_vram_used kr + nb_size b\<rparr>"
    have v: "kb_valid_domains ?k = 6" using False d by (auto simp: domains_ok_def nouveau_flags)
    have n: "narrowed ?k ?x" using v by (simp add: narrowed_def domains_ok_def nouveau_flags)
    have c1: "covers L G h v g kr1" unfolding kr1_def
      using False v by (intro to_vram [OF Cons.prems(1) assms(1) i b]) (simp_all add: in_vram_def nouveau_flags not_less)
    have l1: "kr_like kr kr1" using narrowed_update [OF Cons.prems(2) n] by (simp add: kr_like_def kr1_def)
    have p1: "list_all (\<lambda>a. domains_ok (kb_valid_domains a)) (kr_buffer kr1)" using l1 narrowed_ok by (auto simp: kr_like_def)
    have u1: "\<forall>a \<in> set (kr_buffer kr1). kb_user_priv a \<in> dom h"
      using narrowed_user [of "kr_buffer kr" "kr_buffer kr1"] l1 Cons.prems(3) unfolding kr_like_def by (metis (no_types, lifting) image_iff list.set_map)
    have run: "fits_loop h L G sz (i # is) kr =
        (if kr_gart_used kr1 + sz \<le> G then Some (True, kr1\<lparr>kr_gart_used := kr_gart_used kr1 + sz\<rparr>) else fits_loop h L G sz is kr1)"
      using b False by (auto simp: kr1_def Let_def)
    show ?thesis
    proof (cases "kr_gart_used kr1 + sz \<le> G")
      case True
      have "small (kr_gart_used kr1)" using c1 assms(1) by (auto simp: covers_def small_def mem_ok_def)
      then have "unat (kr_gart_used kr1 + sz) = unat (kr_gart_used kr1) + unat sz" using assms(6) by (rule add_small)
      then have "covers L G h v (g + unat sz) (kr1\<lparr>kr_gart_used := kr_gart_used kr1 + sz\<rparr>)" using c1 True by (auto simp: covers_def word_le_nat_alt)
      moreover have "kr_like kr (kr1\<lparr>kr_gart_used := kr_gart_used kr1 + sz\<rparr>)" using l1 by (simp add: kr_like_def)
      ultimately show ?thesis unfolding run if_P [OF True] by (intro exI [of _ True] exI [of _ "kr1\<lparr>kr_gart_used := kr_gart_used kr1 + sz\<rparr>"]) simp
    next
      case False
      have "\<exists>ok kr'. fits_loop h L G sz is kr1 = Some (ok, kr') \<and> kr_like kr1 kr' \<and> covers L G h v (g + (if ok then unat sz else 0)) kr'"
        using Cons.IH [OF c1 p1 u1] Cons.prems(4) by (simp add: kr1_def)
      then show ?thesis unfolding run if_not_P [OF False] using kr_like_trans [OF l1] by blast
    qed
  qed
qed

lemma kr_like_refl: "list_all (\<lambda>a. domains_ok (kb_valid_domains a)) (kr_buffer kr) \<Longrightarrow> kr_like kr kr"
  by (auto simp: kr_like_def list_all_iff narrowed_refl list.rel_refl_strong)

lemma covers_more:
  assumes "mem_ok L G h" "covers L G h 0 0 kr" "small sz"
  shows "kr_vram_used kr + sz \<le> L \<Longrightarrow> covers L G h (unat sz) 0 (kr\<lparr>kr_vram_used := kr_vram_used kr + sz\<rparr>)"
    "kr_gart_used kr + sz \<le> G \<Longrightarrow> covers L G h 0 (unat sz) (kr\<lparr>kr_gart_used := kr_gart_used kr + sz\<rparr>)"
proof -
  have "small (kr_vram_used kr)" "small (kr_gart_used kr)" using assms(1,2) by (auto simp: covers_def small_def mem_ok_def)
  then have "unat (kr_vram_used kr + sz) = unat (kr_vram_used kr) + unat sz" "unat (kr_gart_used kr + sz) = unat (kr_gart_used kr) + unat sz"
    using assms(3) by (simp_all add: add_small)
  then show "kr_vram_used kr + sz \<le> L \<Longrightarrow> covers L G h (unat sz) 0 (kr\<lparr>kr_vram_used := kr_vram_used kr + sz\<rparr>)"
    "kr_gart_used kr + sz \<le> G \<Longrightarrow> covers L G h 0 (unat sz) (kr\<lparr>kr_gart_used := kr_gart_used kr + sz\<rparr>)"
    using assms(2) by (auto simp: covers_def word_le_nat_alt)
qed

lemma fits_ok:
  assumes "mem_ok L G h" "covers L G h 0 0 kr" "list_all (\<lambda>a. domains_ok (kb_valid_domains a)) (kr_buffer kr)"
    "\<forall>a \<in> set (kr_buffer kr). kb_user_priv a \<in> dom h" "small sz" "domains_ok d"
  shows "\<exists>ok d' kr'. pushbuf_kref_fits h L G sz d kr = Some (ok, d', kr') \<and> kr_like kr kr' \<and> domains_ok d' \<and> d' AND d = d' \<and>
    covers L G h (if ok \<and> d' = NOUVEAU_GEM_DOMAIN_VRAM then unat sz else 0) (if ok \<and> d' \<noteq> NOUVEAU_GEM_DOMAIN_VRAM then unat sz else 0) kr'"
proof -
  note more = covers_more [OF assms(1,2,5)] and refl = kr_like_refl [OF assms(3)]
  have like: "kr_like kr (kr\<lparr>kr_vram_used := x\<rparr>)" "kr_like kr (kr\<lparr>kr_gart_used := x\<rparr>)" for x using refl by (simp_all add: kr_like_def)
  consider (vram) "d = NOUVEAU_GEM_DOMAIN_VRAM" | (gart) "d \<noteq> NOUVEAU_GEM_DOMAIN_VRAM" "kr_gart_used kr + sz \<le> G"
    | (moved) "d \<noteq> NOUVEAU_GEM_DOMAIN_VRAM" "\<not> kr_gart_used kr + sz \<le> G" "d AND NOUVEAU_GEM_DOMAIN_VRAM \<noteq> 0 \<and> kr_vram_used kr + sz \<le> L"
    | (last) "d \<noteq> NOUVEAU_GEM_DOMAIN_VRAM" "\<not> kr_gart_used kr + sz \<le> G" "\<not> (d AND NOUVEAU_GEM_DOMAIN_VRAM \<noteq> 0 \<and> kr_vram_used kr + sz \<le> L)" by blast
  then show ?thesis
  proof cases
    case vram
    show ?thesis
    proof (cases "L < kr_vram_used kr + sz")
      case True
      then show ?thesis using vram assms(2,6) refl
        by (intro exI [of _ False] exI [of _ d] exI [of _ kr]) (simp add: pushbuf_kref_fits_def)
    next
      case False
      then show ?thesis using vram assms(6) like more(1)
        by (intro exI [of _ True] exI [of _ d] exI [of _ "kr\<lparr>kr_vram_used := kr_vram_used kr + sz\<rparr>"]) (simp add: pushbuf_kref_fits_def not_less)
    qed
  next
    case gart
    then show ?thesis using assms(6) like more(2)
      by (intro exI [of _ True] exI [of _ d] exI [of _ "kr\<lparr>kr_gart_used := kr_gart_used kr + sz\<rparr>"]) (simp add: pushbuf_kref_fits_def)
  next
    case moved
    have d: "d AND NOUVEAU_GEM_DOMAIN_VRAM = NOUVEAU_GEM_DOMAIN_VRAM" using moved(3) assms(6) by (auto simp: domains_ok_def nouveau_flags)
    have "domains_ok NOUVEAU_GEM_DOMAIN_VRAM" "NOUVEAU_GEM_DOMAIN_VRAM AND d = NOUVEAU_GEM_DOMAIN_VRAM" using d by (simp_all add: domains_ok_def nouveau_flags and.commute)
    moreover have "pushbuf_kref_fits h L G sz d kr = Some (True, NOUVEAU_GEM_DOMAIN_VRAM, kr\<lparr>kr_vram_used := kr_vram_used kr + sz\<rparr>)"
      using moved d by (simp add: pushbuf_kref_fits_def)
    ultimately show ?thesis using like more(1) moved(3)
      by (intro exI [of _ True] exI [of _ NOUVEAU_GEM_DOMAIN_VRAM] exI [of _ "kr\<lparr>kr_vram_used := kr_vram_used kr + sz\<rparr>"]) simp
  next
    case last
    have "pushbuf_kref_fits h L G sz d kr = do {
        (ok, krec) \<leftarrow> fits_loop h L G sz [0..<length (kr_buffer kr)] kr; Some (ok, d, krec) }"
      unfolding pushbuf_kref_fits_def if_not_P [OF last(1)] if_not_P [OF last(2)] if_not_P [OF last(3)] ..
    then show ?thesis using fits_loop_ok [OF assms(1-4) _ assms(5), of "[0..<length (kr_buffer kr)]"] last(1) assms(6) by fastforce
  qed
qed

text \<open>An entry that was made room for.\<close>

lemma covers_append:
  assumes "covers L G h (if kb_valid_domains x = NOUVEAU_GEM_DOMAIN_VRAM then bo_bytes h x else 0) (if kb_valid_domains x \<noteq> NOUVEAU_GEM_DOMAIN_VRAM then bo_bytes h x else 0) kr"
  shows "covers L G h 0 0 (kr\<lparr>kr_buffer := kr_buffer kr @ [x]\<rparr>)"
  using assms by (auto simp: covers_def vram_bytes_def gart_bytes_def in_vram_def split: if_splits)

lemma covers_weaken: "covers L G h v g kr \<Longrightarrow> covers L G h 0 0 kr"
  by (simp add: covers_def)

section \<open>The table\<close>

text \<open>
  The entries with index in \<open>I\<close> are listed for the buffers \<open>u\<close>: the table leads from the handle of a buffer to its entry,
  and has no other entries. Handles are positive, below \<open>2 ^ 31\<close> and different for different buffers.
\<close>

definition handles_ok :: "nouveau_bo_priv heap \<Rightarrow> bool" where
  "handles_ok h \<longleftrightarrow> inj_on (fld nb_handle h) (dom h) \<and> (\<forall>b \<in> ran h. 0 < unat (nb_handle b) \<and> unat (nb_handle b) < 2 ^ 31)"

definition slot :: "nouveau_bo_priv heap \<Rightarrow> addr \<Rightarrow> nat" where
  "slot h bo = unat (fld nb_handle h bo)"

definition tab_ok :: "addr \<Rightarrow> addr \<Rightarrow> (kref option \<times> addr) list \<Rightarrow> nouveau_bo_priv heap \<Rightarrow> (nat \<Rightarrow> addr) \<Rightarrow> nat set \<Rightarrow> bool" where
  "tab_ok k push tab h u I \<longleftrightarrow> (\<forall>i \<in> I. u i \<in> dom h \<and> slot h (u i) < length tab \<and> tab ! slot h (u i) = (Some (k, i), push)) \<and>
     (\<forall>n < length tab. tab ! n = (None, NULL) \<or> (\<exists>i \<in> I. n = slot h (u i)))"

lemma slot_inj: "handles_ok h \<Longrightarrow> a \<in> dom h \<Longrightarrow> b \<in> dom h \<Longrightarrow> slot h a = slot h b \<Longrightarrow> a = b"
  by (metis handles_ok_def inj_onD slot_def unsigned_word_eqI)

lemma slot_bounds: "handles_ok h \<Longrightarrow> a \<in> dom h \<Longrightarrow> 0 < slot h a \<and> slot h a < 2 ^ 31"
  unfolding handles_ok_def slot_def fld_def by (metis domD option.sel ranI)

text \<open>What the table says of a buffer.\<close>

definition lookup :: "(kref option \<times> addr) list \<Rightarrow> nat \<Rightarrow> kref option \<times> addr" where
  "lookup tab n = (if n < length tab then tab ! n else (None, NULL))"

lemma lookup_listed:
  assumes "tab_ok k push tab h u I" "handles_ok h" "bo \<in> dom h"
  shows "(\<exists>i \<in> I. u i = bo \<and> lookup tab (slot h bo) = (Some (k, i), push)) \<or> (bo \<notin> u ` I \<and> lookup tab (slot h bo) = (None, NULL))"
proof (cases "bo \<in> u ` I")
  case True
  then show ?thesis using assms(1) unfolding tab_ok_def lookup_def by auto
next
  case False
  then have "\<not> (\<exists>i \<in> I. slot h bo = slot h (u i))" using slot_inj [OF assms(2,3)] assms(1) unfolding tab_ok_def by fastforce
  then show ?thesis using False assms(1) unfolding tab_ok_def lookup_def by auto
qed

lemma cli_entry_lookup:
  "ps_clients s client = Some c \<Longrightarrow> bo \<in> dom (ns_bos s) \<Longrightarrow> cli_entry client bo s = Some (lookup (nc_kref c) (slot (ns_bos s) bo))"
  by (auto simp: cli_entry_def lookup_def slot_def fld_def)

text \<open>The table as \<open>cli_kref_set\<close> leaves it.\<close>

definition tab_set :: "(kref option \<times> addr) list \<Rightarrow> nat \<Rightarrow> kref option \<times> addr \<Rightarrow> (kref option \<times> addr) list" where
  "tab_set tab n e = (tab @ replicate (if n < length tab then 0 else n * 2 - length tab) (None, NULL))[n := e]"

lemma kref_set_tab:
  assumes "ps_clients s client = Some c" "bo \<in> dom (ns_bos s)" "handles_ok (ns_bos s)" "\<And>n. pe_realloc env n"
  shows "\<exists>n. cli_kref_set env client bo kref push s =
    Some (s\<lparr>ns_clock := n, ps_clients := (ps_clients s)(client \<mapsto> c\<lparr>nc_kref := tab_set (nc_kref c) (slot (ns_bos s) bo) (kref, push)\<rparr>)\<rparr>)"
proof -
  obtain b where b: "ns_bos s bo = Some b" using assms(2) by blast
  have n: "slot (ns_bos s) bo = unat (nb_handle b)" "0 < unat (nb_handle b)" "unat (nb_handle b) < 2 ^ 31"
    using b slot_bounds [OF assms(3,2)] by (simp_all add: slot_def fld_def)
  have "unat (nb_handle b * 2) = unat (nb_handle b) * 2" using n(3) by (subst unat_mult_small) simp_all
  then show ?thesis using assms(1,4) b n
    by (cases "unat (nb_handle b) < length (nc_kref c)";
        intro exI [of _ "if unat (nb_handle b) < length (nc_kref c) then ns_clock s else Suc (ns_clock s)"])
      (auto simp: cli_kref_set_def tab_set_def nv_tick_def Let_def)
qed

lemma tab_set_nth:
  "0 < n \<Longrightarrow> length tab \<le> length (tab_set tab n e) \<and> n < length (tab_set tab n e) \<and>
   (\<forall>m < length (tab_set tab n e). tab_set tab n e ! m = (if m = n then e else lookup tab m))"
  by (auto simp: tab_set_def lookup_def nth_list_update nth_append)

lemma tab_ok_set:
  assumes "tab_ok k push tab h u I" "handles_ok h" "bo \<in> dom h" "bo \<notin> u ` I" "i \<notin> I"
  shows "tab_ok k push (tab_set tab (slot h bo) (Some (k, i), push)) h (u(i := bo)) (insert i I)" (is "tab_ok _ _ ?t _ ?u _")
proof -
  note t = tab_set_nth [of "slot h bo" tab "(Some (k, i), push)"] and z = slot_bounds [OF assms(2,3)]
  have ne: "slot h (u j) \<noteq> slot h bo" if "j \<in> I" for j using that assms slot_inj [OF assms(2)] unfolding tab_ok_def by fastforce
  have old: "lookup tab (slot h (u j)) = (Some (k, j), push)" "slot h (u j) < length tab" "u j \<in> dom h" if "j \<in> I" for j
    using that assms(1) unfolding tab_ok_def lookup_def by auto
  have rest: "lookup tab n = (None, NULL) \<or> (\<exists>j \<in> insert i I. n = slot h (?u j))" for n
    using assms(1,5) unfolding tab_ok_def lookup_def by auto
  show ?thesis unfolding tab_ok_def
  proof (intro conjI)
    show "\<forall>j \<in> insert i I. ?u j \<in> dom h \<and> slot h (?u j) < length ?t \<and> ?t ! slot h (?u j) = (Some (k, j), push)"
      using assms(3,5) t z ne old by fastforce
    show "\<forall>n < length ?t. ?t ! n = (None, NULL) \<or> (\<exists>j \<in> insert i I. n = slot h (?u j))"
    proof (intro allI impI)
      fix n assume n: "n < length ?t"
      show "?t ! n = (None, NULL) \<or> (\<exists>j \<in> insert i I. n = slot h (?u j))"
      proof (cases "n = slot h bo")
        case False
        then have "?t ! n = lookup tab n" using t z n by simp
        then show ?thesis using rest [of n] by metis
      qed simp
    qed
  qed
qed

lemma tab_ok_clear:
  assumes "tab_ok k push tab h u (insert i I)" "handles_ok h" "i \<notin> I" "inj_on u (insert i I)"
  shows "tab_ok k push (tab_set tab (slot h (u i)) (None, NULL)) h u I"
proof -
  have d: "u i \<in> dom h" using assms(1) by (simp add: tab_ok_def)
  note t = tab_set_nth [of "slot h (u i)" tab "(None, NULL)"] and z = slot_bounds [OF assms(2) d]
  have ne: "slot h (u j) \<noteq> slot h (u i)" if "j \<in> I" for j
    using that assms slot_inj [OF assms(2) _ d, of "u j"] unfolding tab_ok_def inj_on_def by fastforce
  have "lookup tab (slot h (u j)) = (Some (k, j), push)" "slot h (u j) < length tab" if "j \<in> I" for j
    using that assms(1) unfolding tab_ok_def lookup_def by auto
  moreover have "n = slot h (u i) \<or> lookup tab n = (None, NULL) \<or> (\<exists>j \<in> I. n = slot h (u j))" for n using assms(1) unfolding tab_ok_def lookup_def by auto
  ultimately show ?thesis using assms(1) t z ne unfolding tab_ok_def by (auto 4 3)
qed

lemma tab_ok_cong: "tab_ok k push tab h u I \<Longrightarrow> (\<And>i. i \<in> I \<Longrightarrow> u' i = u i) \<Longrightarrow> dom h' = dom h \<Longrightarrow> fld nb_handle h' = fld nb_handle h \<Longrightarrow> tab_ok k push tab h' u' I"
  unfolding tab_ok_def slot_def by (auto 4 3)

end
