(* ===== verification/Nouveau_Refn.thy ===== *)
theory Nouveau_Refn
  imports Nouveau_Place Nouveau_Loop
begin

text \<open>
  Listing buffers in a krec: a list of buffers is taken as a whole or not at all, and every buffer is placed where all its
  uses allow it to be.
\<close>

section \<open>Listing a buffer\<close>

text \<open>One reference more to each buffer of a list.\<close>

definition bump :: "nouveau_bo_priv heap \<Rightarrow> addr list \<Rightarrow> nouveau_bo_priv heap" where
  "bump h xs = (\<lambda>a. map_option (\<lambda>b. b\<lparr>nb_refcnt := nb_refcnt b + int (count_list xs a)\<rparr>) (h a))"

lemma dom_bump [simp]: "dom (bump h xs) = dom h"
  by (auto simp: bump_def)

lemma fld_bump1: "fld nb_handle (bump h xs) a = fld nb_handle h a" "fld nb_size (bump h xs) a = fld nb_size h a"
  by (cases "h a"; simp add: fld_def bump_def)+

lemma fld_bump [simp]: "fld nb_handle (bump h xs) = fld nb_handle h" "fld nb_size (bump h xs) = fld nb_size h"
  by (rule ext, rule fld_bump1)+

lemma bump_Nil [simp]: "bump h [] = h"
  by (simp add: bump_def fun_eq_iff option.map_ident)

lemma bump_bump [simp]: "bump (bump h xs) ys = bump h (xs @ ys)"
  by (simp add: bump_def fun_eq_iff option.map_comp comp_def add.assoc)

text \<open>The invariant of a push buffer \<open>push\<close> that is the only one of its client.\<close>

abbreviation users :: "nouveau_pushbuf_krec \<Rightarrow> nat \<Rightarrow> addr" where
  "users kr i \<equiv> kb_user_priv (kr_buffer kr ! i)"

abbreviation devlim :: "push_state \<Rightarrow> (u64 \<Rightarrow> u64 \<Rightarrow> 'a) \<Rightarrow> 'a" where
  "devlim s f \<equiv> f (nd_vram_limit (ns_dev s)) (nd_gart_limit (ns_dev s))"

definition kr_ok :: "push_state \<Rightarrow> nouveau_pushbuf_krec \<Rightarrow> bool" where
  "kr_ok s kr \<longleftrightarrow> length (kr_buffer kr) \<le> NOUVEAU_GEM_MAX_BUFFERS \<and> list_all (\<lambda>a. domains_ok (kb_valid_domains a)) (kr_buffer kr) \<and>
     devlim s covers (ns_bos s) 0 0 kr"

definition push_inv :: "addr \<Rightarrow> nouveau_pushbuf_priv \<Rightarrow> push_state \<Rightarrow> bool" where
  "push_inv push p s \<longleftrightarrow> handles_ok (ns_bos s) \<and> devlim s mem_ok (ns_bos s) \<and> ps_pushes s push = Some p \<and>
     (\<exists>kr cl. ps_krecs s (pb_krec p) = Some kr \<and> ps_clients s (pb_client p) = Some cl \<and> kr_ok s kr \<and>
       tab_ok (pb_krec p) push (nc_kref cl) (ns_bos s) (users kr) {..<length (kr_buffer kr)})"

text \<open>How a krec grows: entries are narrowed and new ones added for the buffers \<open>new\<close>.\<close>

definition grown :: "addr list \<Rightarrow> nouveau_pushbuf_krec \<Rightarrow> nouveau_pushbuf_krec \<Rightarrow> bool" where
  "grown new kr kr' \<longleftrightarrow> (\<exists>ks es. kr_buffer kr' = ks @ es \<and> list_all2 narrowed (kr_buffer kr) ks \<and> map kb_user_priv es = new \<and>
     list_all (\<lambda>a. domains_ok (kb_valid_domains a)) es) \<and> kr_reloc kr' = kr_reloc kr"

text \<open>A buffer is listed, only for memory that \<open>flags\<close> allow.\<close>

definition listed :: "addr \<Rightarrow> u32 \<Rightarrow> nouveau_pushbuf_krec \<Rightarrow> bool" where
  "listed bo flags kr \<longleftrightarrow> (\<exists>e \<in> set (kr_buffer kr). kb_user_priv e = bo \<and> kb_valid_domains e \<noteq> 0 \<and>
     kb_valid_domains e AND flag_domains flags = kb_valid_domains e)"

lemma kr_like_grown: "kr_like kr kr' \<Longrightarrow> grown [] kr kr'"
  by (auto simp: kr_like_def grown_def)

lemma grown_trans:
  assumes "grown xs a b" "grown ys b c"
  shows "grown (xs @ ys) a c"
proof -
  obtain ks es where b: "kr_buffer b = ks @ es" "list_all2 narrowed (kr_buffer a) ks" "map kb_user_priv es = xs" using assms(1) unfolding grown_def by blast
  obtain ls fs where c: "kr_buffer c = ls @ fs" "list_all2 narrowed (kr_buffer b) ls" "map kb_user_priv fs = ys"
    "list_all (\<lambda>a. domains_ok (kb_valid_domains a)) fs" using assms(2) unfolding grown_def by blast
  obtain l1 l2 where l: "ls = l1 @ l2" "list_all2 narrowed ks l1" "list_all2 narrowed es l2"
    using c(2) unfolding b(1) by (metis list_all2_append1)
  have "list_all2 narrowed (kr_buffer a) l1"
    using b(2) l(2) narrowed_trans unfolding list_all2_conv_all_nth by (metis (no_types, lifting))
  moreover have "map kb_user_priv (l2 @ fs) = xs @ ys" using narrowed_user [OF l(3)] b(3) c(3) by simp
  moreover have "list_all (\<lambda>a. domains_ok (kb_valid_domains a)) (l2 @ fs)" using narrowed_ok [OF l(3)] c(4) by simp
  moreover have "kr_buffer c = l1 @ (l2 @ fs)" using c(1) l(1) by simp
  ultimately show ?thesis using assms unfolding grown_def by metis
qed

lemma listed_grown:
  assumes "listed bo fl kr" "grown xs kr kr'"
  shows "listed bo fl kr'"
proof -
  obtain e where e: "e \<in> set (kr_buffer kr)" "kb_user_priv e = bo" "kb_valid_domains e AND flag_domains fl = kb_valid_domains e"
    using assms(1) unfolding listed_def by blast
  obtain ks es where k: "kr_buffer kr' = ks @ es" "list_all2 narrowed (kr_buffer kr) ks" using assms(2) unfolding grown_def by blast
  obtain e' where e': "e' \<in> set ks" "narrowed e e'" using k(2) e(1) by (metis list_all2_conv_all_nth in_set_conv_nth)
  have "kb_valid_domains e' AND flag_domains fl = kb_valid_domains e'" using e(3) e'(2) unfolding narrowed_def by (metis and.assoc)
  moreover have "kb_valid_domains e' \<noteq> 0" using e'(2) by (auto simp: narrowed_def domains_ok_def)
  ultimately show ?thesis using e' e(2) k(1) unfolding listed_def narrowed_def by auto
qed

lemma covers_same:
  assumes "covers L G h v g kr" "i < length (kr_buffer kr)" "in_vram x = in_vram (kr_buffer kr ! i)" "kb_user_priv x = kb_user_priv (kr_buffer kr ! i)"
  shows "covers L G h v g (kr\<lparr>kr_buffer := (kr_buffer kr)[i := x]\<rparr>)"
proof -
  have "bo_bytes h x = bo_bytes h (kr_buffer kr ! i)" using assms(4) by (simp add: bo_bytes_def)
  then have "vram_bytes h ((kr_buffer kr)[i := x]) = vram_bytes h (kr_buffer kr)" "gart_bytes h ((kr_buffer kr)[i := x]) = gart_bytes h (kr_buffer kr)"
    using bytes_update [OF assms(2), of h x] assms(3) by (simp_all split: if_splits)
  then show ?thesis using assms(1) by (simp add: covers_def)
qed

lemma push_inv_krec:
  assumes "push_inv push p s" "ps_krecs s (pb_krec p) = Some kr" "kr_ok s kr'" "map kb_user_priv (kr_buffer kr') = map kb_user_priv (kr_buffer kr)"
  shows "push_inv push p (s\<lparr>ps_krecs := (ps_krecs s)(pb_krec p \<mapsto> kr')\<rparr>)"
proof -
  have len: "length (kr_buffer kr') = length (kr_buffer kr)" using assms(4) by (metis length_map)
  then have u: "users kr' i = users kr i" if "i < length (kr_buffer kr)" for i using assms(4) that by (metis nth_map)
  obtain cl where cl: "ps_clients s (pb_client p) = Some cl" "tab_ok (pb_krec p) push (nc_kref cl) (ns_bos s) (users kr) {..<length (kr_buffer kr)}"
    using assms(1,2) unfolding push_inv_def by auto
  have "tab_ok (pb_krec p) push (nc_kref cl) (ns_bos s) (users kr') {..<length (kr_buffer kr')}"
    unfolding len by (rule tab_ok_cong [OF cl(2)]) (auto simp: u)
  then show ?thesis using assms(1,3) cl(1) unfolding push_inv_def by (auto simp: kr_ok_def)
qed

lemma kref_again_ok:
  assumes inv: "push_inv push p s" and kr: "ps_krecs s (pb_krec p) = Some kr" and i: "i < length (kr_buffer kr)" "users kr i = bo"
    and b: "ns_bos s bo = Some b" and d: "domains_ok (flag_domains fl)"
  shows "\<exists>r kr'. kref_again (pb_krec p) (nb_size b) (flag_domains fl) w rd (pb_krec p, i) s = Some (r, s\<lparr>ps_krecs := (ps_krecs s)(pb_krec p \<mapsto> kr')\<rparr>) \<and>
    push_inv push p (s\<lparr>ps_krecs := (ps_krecs s)(pb_krec p \<mapsto> kr')\<rparr>) \<and> grown [] kr kr' \<and> (r \<noteq> None \<longrightarrow> listed bo fl kr')"
proof -
  let ?e = "kr_buffer kr ! i" and ?d = "flag_domains fl" and ?k = "pb_krec p"
  let ?x = "?e\<lparr>kb_valid_domains := kb_valid_domains ?e AND ?d, kb_write_domains := kb_write_domains ?e OR w, kb_read_domains := kb_read_domains ?e OR rd\<rparr>"
  have ok: "kr_ok s kr" "mem_ok (nd_vram_limit (ns_dev s)) (nd_gart_limit (ns_dev s)) (ns_bos s)" using inv kr by (auto simp: push_inv_def)
  have v: "domains_ok (kb_valid_domains ?e)" using ok(1) i(1) by (simp add: kr_ok_def list_all_length)
  let ?shrink = "kb_valid_domains ?e AND NOUVEAU_GEM_DOMAIN_GART \<noteq> 0 \<and> ?d = NOUVEAU_GEM_DOMAIN_VRAM"
  let ?no = "kb_valid_domains ?e AND ?d = 0 \<or> (?shrink \<and> nd_vram_limit (ns_dev s) < kr_vram_used kr + nb_size b)"
  show ?thesis
  proof (cases ?no)
    case True
    then have "kref_again ?k (nb_size b) ?d w rd (?k, i) s = Some (None, s)" using kr i(1) by (auto simp: kref_again_def Let_def)
    moreover have "s\<lparr>ps_krecs := (ps_krecs s)(?k \<mapsto> kr)\<rparr> = s" using kr by (simp add: fun_upd_idem)
    moreover have "grown [] kr kr" using ok(1) by (intro kr_like_grown kr_like_refl) (simp add: kr_ok_def)
    ultimately show ?thesis using inv by (intro exI [of _ None] exI [of _ kr]) simp
  next
    case no: False
    have n: "narrowed ?e ?x" using v d no by (auto simp: narrowed_def domains_ok_def)
    define kr' where "kr' = (if ?shrink
      then kr\<lparr>kr_vram_used := kr_vram_used kr + nb_size b, kr_gart_used := kr_gart_used kr - nb_size b, kr_buffer := (kr_buffer kr)[i := ?x]\<rparr>
      else kr\<lparr>kr_buffer := (kr_buffer kr)[i := ?x]\<rparr>)"
    have run: "kref_again ?k (nb_size b) ?d w rd (?k, i) s = Some (Some (?k, i), s\<lparr>ps_krecs := (ps_krecs s)(?k \<mapsto> kr')\<rparr>)"
      using kr i(1) no by (auto simp: kref_again_def kr'_def krec_put_def wr_def Let_def)
    have buf: "kr_buffer kr' = (kr_buffer kr)[i := ?x]" "kr_reloc kr' = kr_reloc kr" by (simp_all add: kr'_def)
    have g: "grown [] kr kr'"
      using narrowed_update [of "kr_buffer kr" i ?x] n ok(1) buf by (auto simp: grown_def kr_ok_def)
    have c: "covers (nd_vram_limit (ns_dev s)) (nd_gart_limit (ns_dev s)) (ns_bos s) 0 0 kr'"
    proof (cases ?shrink)
      case True
      have e: "kr' = kr\<lparr>kr_buffer := (kr_buffer kr)[i := ?x], kr_gart_used := kr_gart_used kr - nb_size b, kr_vram_used := kr_vram_used kr + nb_size b\<rparr>"
        unfolding kr'_def if_P [OF True] by simp
      show ?thesis unfolding e using True no ok b i v
        by (intro to_vram [OF _ ok(2) i(1)]) (auto simp: kr_ok_def in_vram_def domains_ok_def nouveau_flags not_less)
    next
      case False
      then show ?thesis unfolding kr'_def if_not_P [OF False] using no ok i v d
        by (intro covers_same) (auto simp: kr_ok_def in_vram_def domains_ok_def nouveau_flags)
    qed
    have "list_all (\<lambda>a. domains_ok (kb_valid_domains a)) (kr_buffer kr')" using g narrowed_ok unfolding grown_def by (metis append_Nil2 map_is_Nil_conv)
    then have "kr_ok s kr'" using ok(1) c buf by (simp add: kr_ok_def)
    moreover have "map kb_user_priv (kr_buffer kr') = map kb_user_priv (kr_buffer kr)" using buf i(1) by (simp add: map_update list_update_same_conv)
    ultimately have "push_inv push p (s\<lparr>ps_krecs := (ps_krecs s)(?k \<mapsto> kr')\<rparr>)" using push_inv_krec [OF inv kr] by blast
    moreover have "listed bo fl kr'" unfolding listed_def
      using i no buf by (intro bexI [of _ ?x]) (auto simp: and.assoc set_update_memI)
    ultimately show ?thesis using run g by blast
  qed
qed


section \<open>Listing buffers\<close>

text \<open>The krec of a push buffer, and what listing the buffers \<open>new\<close> has changed.\<close>

abbreviation krec_of :: "nouveau_pushbuf_priv \<Rightarrow> push_state \<Rightarrow> nouveau_pushbuf_krec" where
  "krec_of p s \<equiv> the (ps_krecs s (pb_krec p))"

definition took :: "addr \<Rightarrow> nouveau_pushbuf_priv \<Rightarrow> addr list \<Rightarrow> push_state \<Rightarrow> push_state \<Rightarrow> bool" where
  "took push p new s s' \<longleftrightarrow> push_inv push p s' \<and> ns_bos s' = bump (ns_bos s) new \<and> grown new (krec_of p s) (krec_of p s')"

lemma took_trans: "took push p xs s t \<Longrightarrow> took push p ys t u \<Longrightarrow> took push p (xs @ ys) s u"
  unfolding took_def using grown_trans by auto

lemma took_refl: "push_inv push p s \<Longrightarrow> took push p [] s s"
  unfolding took_def by (auto simp: push_inv_def kr_ok_def intro!: kr_like_grown [OF kr_like_refl])

lemma bump_one: "h a = Some b \<Longrightarrow> h(a \<mapsto> b\<lparr>nb_refcnt := nb_refcnt b + 1\<rparr>) = bump h [a]"
  by (auto simp: bump_def fun_eq_iff option.map_ident)

lemma bump_ok [simp]: "handles_ok (bump h xs) = handles_ok h" "mem_ok L G (bump h xs) = mem_ok L G h"
    "covers L G (bump h xs) v g kr = covers L G h v g kr" "tab_ok k push tab (bump h xs) u I = tab_ok k push tab h u I"
proof -
  have ran: "(\<forall>b \<in> ran (bump h xs). P b) = (\<forall>b \<in> ran h. P b)" if "\<And>b n. P (b\<lparr>nb_refcnt := n\<rparr>) = P b" for P
  proof -
    have "(\<forall>b \<in> ran (bump h xs). P b) = (\<forall>a b. h a = Some b \<longrightarrow> P (b\<lparr>nb_refcnt := nb_refcnt b + int (count_list xs a)\<rparr>))"
      by (auto simp: ran_def bump_def)
    then show ?thesis unfolding that by (auto simp: ran_def)
  qed
  show "handles_ok (bump h xs) = handles_ok h" "mem_ok L G (bump h xs) = mem_ok L G h"
    unfolding handles_ok_def mem_ok_def by (simp_all add: ran)
  have b: "bo_bytes (bump h xs) = bo_bytes h" by (simp add: bo_bytes_def fun_eq_iff)
  show "covers L G (bump h xs) v g kr = covers L G h v g kr" by (simp add: covers_def vram_bytes_def gart_bytes_def b)
  show "tab_ok k push tab (bump h xs) u I = tab_ok k push tab h u I" by (simp add: tab_ok_def slot_def)
qed

text \<open>An entry is appended, the table of the client knows of it and it holds a reference.\<close>

definition with_entry :: "addr \<Rightarrow> nouveau_pushbuf_priv \<Rightarrow> nouveau_pushbuf_krec \<Rightarrow> drm_nouveau_gem_pushbuf_bo \<Rightarrow> nat \<Rightarrow> push_state \<Rightarrow> push_state" where
  "with_entry push p kr x n s = s\<lparr>ps_krecs := (ps_krecs s)(pb_krec p \<mapsto> kr\<lparr>kr_buffer := kr_buffer kr @ [x]\<rparr>), ns_clock := n,
     ps_clients := (ps_clients s)(pb_client p \<mapsto> (the (ps_clients s (pb_client p)))\<lparr>nc_kref := tab_set (nc_kref (the (ps_clients s (pb_client p))))
       (slot (ns_bos s) (kb_user_priv x)) (Some (pb_krec p, length (kr_buffer kr)), push)\<rparr>), ns_bos := bump (ns_bos s) [kb_user_priv x]\<rparr>"

lemma with_entry_inv:
  assumes inv: "push_inv push p s" and kr: "kr_ok s kr" "map kb_user_priv (kr_buffer kr) = map kb_user_priv (kr_buffer (krec_of p s))"
    and x: "kb_user_priv x \<in> dom (ns_bos s)" "kb_user_priv x \<notin> kb_user_priv ` set (kr_buffer kr)" "domains_ok (kb_valid_domains x)"
    and room: "length (kr_buffer kr) \<noteq> NOUVEAU_GEM_MAX_BUFFERS"
    and c: "devlim s covers (ns_bos s) 0 0 (kr\<lparr>kr_buffer := kr_buffer kr @ [x]\<rparr>)"
  shows "push_inv push p (with_entry push p kr x n s)"
proof -
  let ?k = "pb_krec p" and ?h = "ns_bos s" and ?i = "length (kr_buffer kr)"
  obtain k0 cl where k0: "ps_krecs s ?k = Some k0" and cl: "ps_clients s (pb_client p) = Some cl"
    and tab: "tab_ok ?k push (nc_kref cl) ?h (users k0) {..<length (kr_buffer k0)}"
    and m: "handles_ok ?h" "devlim s mem_ok ?h" "ps_pushes s push = Some p" using inv unfolding push_inv_def by blast
  have i: "length (kr_buffer k0) = ?i" using kr(2) k0 by (metis length_map option.sel)
  have u0: "users k0 j = users kr j" if "j < ?i" for j using kr(2) k0 that by (metis length_map nth_map option.sel)
  have "tab_ok ?k push (nc_kref cl) ?h (users kr) {..<?i}"
    by (rule tab_ok_cong [OF tab [unfolded i]]) (simp_all add: u0)
  then have t: "tab_ok ?k push (tab_set (nc_kref cl) (slot ?h (kb_user_priv x)) (Some (?k, ?i), push)) ?h ((users kr)(?i := kb_user_priv x)) (insert ?i {..<?i})"
    using x(1,2) m(1) by (intro tab_ok_set) auto
  have "tab_ok ?k push (tab_set (nc_kref cl) (slot ?h (kb_user_priv x)) (Some (?k, ?i), push)) ?h (users (kr\<lparr>kr_buffer := kr_buffer kr @ [x]\<rparr>)) {..<Suc ?i}"
    unfolding lessThan_Suc by (rule tab_ok_cong [OF t]) (auto simp: nth_append)
  then show ?thesis using cl m kr(1) x(3) room c by (simp add: push_inv_def with_entry_def kr_ok_def)
qed

lemma kref_new_ok:
  assumes inv: "push_inv push p s" and bo: "ns_bos s bo = Some b" "bo \<notin> users (krec_of p s) ` {..<length (kr_buffer (krec_of p s))}"
    and d: "domains_ok (flag_domains fl)" and re: "\<And>n. pe_realloc env n"
  shows "\<exists>r s' new. kref_new env push (pb_client p) (pb_krec p) bo (flag_domains fl) w rd s = Some (r, s') \<and>
    took push p new s s' \<and> (r \<noteq> None \<longrightarrow> listed bo fl (krec_of p s'))"
proof -
  let ?k = "pb_krec p" and ?L = "nd_vram_limit (ns_dev s)" and ?G = "nd_gart_limit (ns_dev s)" and ?h = "ns_bos s"
  obtain kr cl where kr: "ps_krecs s ?k = Some kr" "kr_ok s kr" and cl: "ps_clients s (pb_client p) = Some cl"
    and tab: "tab_ok ?k push (nc_kref cl) ?h (users kr) {..<length (kr_buffer kr)}"
    and m: "handles_ok ?h" "mem_ok ?L ?G ?h" "ps_pushes s push = Some p" using inv unfolding push_inv_def by blast
  show ?thesis
  proof (cases "length (kr_buffer kr) = NOUVEAU_GEM_MAX_BUFFERS")
    case True
    then have "kref_new env push (pb_client p) ?k bo (flag_domains fl) w rd s = Some (None, s)" using kr(1) bo(1) by (simp add: kref_new_def)
    then show ?thesis using took_refl [OF inv] by blast
  next
    case room: False
    have us: "\<forall>a \<in> set (kr_buffer kr). kb_user_priv a \<in> dom ?h" using tab unfolding tab_ok_def by (metis in_set_conv_nth lessThan_iff)
    have sz: "small (nb_size b)" using m(2) bo(1) by (auto simp: mem_ok_def ran_def)
    obtain ok d' kr' where f: "pushbuf_kref_fits ?h ?L ?G (nb_size b) (flag_domains fl) kr = Some (ok, d', kr')" "kr_like kr kr'" "domains_ok d'"
        "d' AND flag_domains fl = d'" "covers ?L ?G ?h (if ok \<and> d' = NOUVEAU_GEM_DOMAIN_VRAM then unat (nb_size b) else 0)
          (if ok \<and> d' \<noteq> NOUVEAU_GEM_DOMAIN_VRAM then unat (nb_size b) else 0) kr'"
      using fits_ok [OF m(2) _ _ us sz d] kr(2) unfolding kr_ok_def by blast
    have us': "map kb_user_priv (kr_buffer kr') = map kb_user_priv (kr_buffer kr)" and len: "length (kr_buffer kr') = length (kr_buffer kr)"
      and ok': "list_all (\<lambda>a. domains_ok (kb_valid_domains a)) (kr_buffer kr')"
      using f(2) narrowed_user narrowed_ok unfolding kr_like_def by (blast, metis list_all2_lengthD, blast)
    have k': "kr_ok s kr'" using kr(2) len ok' covers_weaken [OF f(5)] by (simp add: kr_ok_def)
    show ?thesis
    proof (cases ok)
      case False
      let ?s = "s\<lparr>ps_krecs := (ps_krecs s)(?k \<mapsto> kr')\<rparr>"
      have "kref_new env push (pb_client p) ?k bo (flag_domains fl) w rd s = Some (None, ?s)" using kr(1) bo(1) room f(1) False by (simp add: kref_new_def)
      moreover have "took push p [] s ?s" unfolding took_def using push_inv_krec [OF inv kr(1) k' us'] kr_like_grown [OF f(2)] kr(1) by simp
      ultimately show ?thesis by blast
    next
      case True
      define x where "x = \<lparr>kb_user_priv = bo, kb_handle = nb_handle b, kb_read_domains = rd, kb_write_domains = w, kb_valid_domains = d',
        kb_presumed = \<lparr>kd_valid = 1, kd_domain = (if nb_flags b AND NOUVEAU_BO_VRAM \<noteq> 0 then NOUVEAU_GEM_DOMAIN_VRAM else NOUVEAU_GEM_DOMAIN_GART),
          kd_offset = nb_offset b\<rparr>\<rparr>"
      define s1 where "s1 = s\<lparr>ps_krecs := (ps_krecs s)(?k \<mapsto> kr'\<lparr>kr_buffer := kr_buffer kr' @ [x]\<rparr>)\<rparr>"
      have x: "kb_valid_domains x = d'" "kb_user_priv x = bo" "bo_bytes ?h x = unat (nb_size b)" using bo(1) by (simp_all add: x_def bo_bytes_def fld_def)
      obtain n where set: "cli_kref_set env (pb_client p) bo (Some (?k, length (kr_buffer kr'))) push s1 = Some (s1\<lparr>ns_clock := n, ps_clients :=
          (ps_clients s1)(pb_client p \<mapsto> cl\<lparr>nc_kref := tab_set (nc_kref cl) (slot ?h bo) (Some (?k, length (kr_buffer kr')), push)\<rparr>)\<rparr>)"
        using kref_set_tab [of s1 "pb_client p" cl bo env "Some (?k, length (kr_buffer kr'))" push] cl bo(1) m(1) re by (auto simp: s1_def)
      let ?s = "with_entry push p kr' x n s"
      have run: "kref_new env push (pb_client p) ?k bo (flag_domains fl) w rd s = Some (Some (?k, length (kr_buffer kr')), ?s)"
        using kr(1) bo(1) room f(1) True set cl x(2) bump_one [where h = ?h and a = bo and b = b, OF bo(1)]
        by (simp add: kref_new_def x_def [symmetric] s1_def [symmetric] nvbo_put_def wr_def with_entry_def Let_def) (simp add: s1_def)
      have "covers ?L ?G ?h 0 0 (kr'\<lparr>kr_buffer := kr_buffer kr' @ [x]\<rparr>)" by (rule covers_append) (use f(5) True x in \<open>simp split: if_splits\<close>)
      moreover have "bo \<notin> kb_user_priv ` set (kr_buffer kr')"
      proof -
        have "set (map kb_user_priv (kr_buffer kr')) = users kr ` {..<length (kr_buffer kr)}" unfolding us' set_map by (force simp: in_set_conv_nth)
        then show ?thesis using bo(2) kr(1) by simp
      qed
      ultimately have "push_inv push p ?s" using us' room len f(3) x bo(1) kr(1) k' by (intro with_entry_inv [OF inv]) auto
      moreover have "grown [bo] kr (krec_of p ?s)" using f(2,3) x unfolding grown_def kr_like_def
        by (intro conjI exI [of _ "kr_buffer kr'"] exI [of _ "[x]"]) (simp_all add: with_entry_def)
      ultimately have "took push p [bo] s ?s" unfolding took_def using kr(1) x(2) by (simp add: with_entry_def)
      moreover have "listed bo fl (krec_of p ?s)" unfolding listed_def using f(3,4) x
        by (intro bexI [of _ x]) (auto simp: with_entry_def domains_ok_def)
      ultimately show ?thesis using run by blast
    qed
  qed
qed

lemma pushbuf_kref_ok:
  assumes inv: "push_inv push p s" and bo: "bo \<in> dom (ns_bos s)" and fl: "flag_domains fl \<noteq> 0" and re: "\<And>n. pe_realloc env n"
  shows "\<exists>r s' new. pushbuf_kref env push bo fl s = Some (r, s') \<and> took push p new s s' \<and> (r \<noteq> None \<longrightarrow> listed bo fl (krec_of p s'))"
proof -
  let ?k = "pb_krec p"
  obtain b where b: "ns_bos s bo = Some b" using bo by blast
  note d = flag_domains_ok [OF fl]
  obtain kr cl where kr: "ps_krecs s ?k = Some kr" and cl: "ps_clients s (pb_client p) = Some cl"
    and tab: "tab_ok ?k push (nc_kref cl) (ns_bos s) (users kr) {..<length (kr_buffer kr)}"
    and m: "handles_ok (ns_bos s)" "ps_pushes s push = Some p" using inv unfolding push_inv_def by blast
  note e = cli_entry_lookup [OF cl bo]
  from lookup_listed [OF tab m(1) bo] show ?thesis
  proof (elim disjE bexE conjE)
    fix i assume i: "i \<in> {..<length (kr_buffer kr)}" "users kr i = bo" "lookup (nc_kref cl) (slot (ns_bos s) bo) = (Some (?k, i), push)"
    let ?w = "if fl AND NOUVEAU_BO_WR \<noteq> 0 then flag_domains fl else 0" and ?r = "if fl AND NOUVEAU_BO_RD \<noteq> 0 then flag_domains fl else 0"
    have run: "pushbuf_kref env push bo fl s = kref_again ?k (nb_size b) (flag_domains fl) ?w ?r (?k, i) s"
      using m(2) e i(3) b by (simp add: pushbuf_kref_def cli_push_get_def cli_kref_get_def Let_def)
    obtain r kr' where a: "kref_again ?k (nb_size b) (flag_domains fl) ?w ?r (?k, i) s = Some (r, s\<lparr>ps_krecs := (ps_krecs s)(?k \<mapsto> kr')\<rparr>)"
        "push_inv push p (s\<lparr>ps_krecs := (ps_krecs s)(?k \<mapsto> kr')\<rparr>)" "grown [] kr kr'" "r \<noteq> None \<longrightarrow> listed bo fl kr'"
      using kref_again_ok [OF inv kr _ i(2) b d, of ?w ?r] i(1) by blast
    have "took push p [] s (s\<lparr>ps_krecs := (ps_krecs s)(?k \<mapsto> kr')\<rparr>)" using a(2,3) kr by (simp add: took_def)
    then show ?thesis using run a(1,4) by (intro exI [of _ r] exI conjI) auto
  next
    assume n: "bo \<notin> users kr ` {..<length (kr_buffer kr)}" "lookup (nc_kref cl) (slot (ns_bos s) bo) = (None, NULL)"
    show ?thesis using kref_new_ok [OF inv b _ d re] m(2) e n kr
      by (simp add: pushbuf_kref_def cli_push_get_def cli_kref_get_def Let_def)
  qed
qed

lemma kref_all_ok:
  assumes "push_inv push p s" "\<And>bo fl. (bo, fl) \<in> set refs \<Longrightarrow> bo \<in> dom (ns_bos s) \<and> flag_domains fl \<noteq> 0" "\<And>n. pe_realloc env n"
  shows "\<exists>r s' new. kref_all env push refs s = Some (r, s') \<and> took push p new s s' \<and>
    (r = 0 \<and> (\<forall>(bo, fl) \<in> set refs. listed bo fl (krec_of p s')) \<or> r = - ENOSPC)"
  using assms(1,2)
proof (induction refs arbitrary: s)
  case Nil
  then show ?case using took_refl by (intro exI [of _ 0] exI [of _ s] exI [of _ "[]"]) simp
next
  case (Cons x refs)
  obtain bo fl where x: "x = (bo, fl)" by (cases x)
  obtain r s1 new where k: "pushbuf_kref env push bo fl s = Some (r, s1)" "took push p new s s1" "r \<noteq> None \<longrightarrow> listed bo fl (krec_of p s1)"
  proof -
    have "bo \<in> dom (ns_bos s)" "flag_domains fl \<noteq> 0" using Cons.prems(2) [of bo fl] x by simp_all
    then show thesis using pushbuf_kref_ok [OF Cons.prems(1) _ _ assms(3), of bo fl] that by blast
  qed
  show ?case
  proof (cases r)
    case None
    then show ?thesis using k x by (intro exI [of _ "- ENOSPC"] exI [of _ s1] exI [of _ new]) simp
  next
    case (Some ki)
    have inv: "push_inv push p s1" "\<And>bo fl. (bo, fl) \<in> set refs \<Longrightarrow> bo \<in> dom (ns_bos s1) \<and> flag_domains fl \<noteq> 0"
      using k(2) Cons.prems(2) unfolding took_def by auto
    obtain r' s2 new' where a: "kref_all env push refs s1 = Some (r', s2)" "took push p new' s1 s2"
        "r' = 0 \<and> (\<forall>(bo, fl) \<in> set refs. listed bo fl (krec_of p s2)) \<or> r' = - ENOSPC"
      using Cons.IH [OF inv] by blast
    have "listed bo fl (krec_of p s2)" using k(3) Some a(2) listed_grown unfolding took_def by blast
    then show ?thesis using a k(1) Some x took_trans [OF k(2) a(2)] by (intro exI [of _ r'] exI [of _ s2] exI [of _ "new @ new'"]) auto
  qed
qed


section \<open>Taking them back\<close>

lemma tab_ok_inj: "tab_ok k push tab h u I \<Longrightarrow> inj_on u I"
  unfolding tab_ok_def inj_on_def by (metis option.inject prod.inject)

lemma unref_bumped:
  assumes "ns_bos s = bump h (a # xs)" "h a = Some b" "1 \<le> nb_refcnt b" "a \<noteq> NULL"
  shows "nouveau_bo_ref NULL a s = Some (s\<lparr>ns_bos := bump h xs\<rparr>)"
proof -
  have "(bump h (a # xs))(a \<mapsto> b\<lparr>nb_refcnt := nb_refcnt b + int (count_list xs a)\<rparr>) = bump h xs"
    using assms(2) by (auto simp: bump_def fun_eq_iff)
  then show ?thesis using assms by (simp add: nouveau_bo_ref_def nvbo_put_def wr_def bump_def)
qed

text \<open>The entries are taken back one after the other; \<open>h\<close> are the buffers as they were before.\<close>

lemma release_krefs_ok:
  assumes "ps_clients s client = Some cl" "tab_ok k push (nc_kref cl) h u (A \<union> {n..<n + length es})" "A \<inter> {n..} = {}"
    "\<And>j. j < length es \<Longrightarrow> u (n + j) = kb_user_priv (es ! j)" "ns_bos s = bump h (map kb_user_priv es)" "handles_ok h"
    "\<forall>b \<in> ran h. 1 \<le> nb_refcnt b" "NULL \<notin> dom h" "\<And>n. pe_realloc env n"
  shows "\<exists>c cl'. release_krefs env client True es s = Some (s\<lparr>ns_clock := c, ps_clients := (ps_clients s)(client \<mapsto> cl'), ns_bos := h\<rparr>) \<and>
    tab_ok k push (nc_kref cl') h u A"
  using assms(1-5)
proof (induction es arbitrary: s cl n)
  case Nil
  then show ?case by (intro exI [of _ "ns_clock s"] exI [of _ cl]) (simp add: fun_upd_idem)
next
  case (Cons e es)
  let ?a = "kb_user_priv e" and ?I = "A \<union> {Suc n..<Suc n + length es}"
  have I: "A \<union> {n..<n + length (e # es)} = insert n ?I" "n \<notin> ?I" using Cons.prems(3) by auto
  have a: "u n = ?a" using Cons.prems(4) [of 0] by simp
  have d: "?a \<in> dom h" using Cons.prems(2) unfolding I(1) tab_ok_def a [symmetric] by simp
  then obtain b where b: "h ?a = Some b" by blast
  have ds: "?a \<in> dom (ns_bos s)" "handles_ok (ns_bos s)" using d assms(6) by (simp_all add: Cons.prems(5))
  define cl' where "cl' = cl\<lparr>nc_kref := tab_set (nc_kref cl) (slot h ?a) (None, NULL)\<rparr>"
  have sl: "slot (ns_bos s) ?a = slot h ?a" by (simp add: slot_def Cons.prems(5))
  obtain c where set: "cli_kref_set env client ?a None NULL s = Some (s\<lparr>ns_clock := c, ps_clients := (ps_clients s)(client \<mapsto> cl')\<rparr>)"
    using kref_set_tab [OF Cons.prems(1) ds, of env None NULL] assms(9) unfolding sl cl'_def by blast
  define s1 where "s1 = s\<lparr>ns_clock := c, ps_clients := (ps_clients s)(client \<mapsto> cl'), ns_bos := bump h (map kb_user_priv es)\<rparr>"
  have "1 \<le> nb_refcnt b" using assms(7) b by (auto simp: ran_def)
  moreover have "?a \<noteq> NULL" using d assms(8) by metis
  ultimately have ref: "nouveau_bo_ref NULL ?a (s\<lparr>ns_clock := c, ps_clients := (ps_clients s)(client \<mapsto> cl')\<rparr>) = Some s1"
    using Cons.prems(5) b by (subst unref_bumped [where h = h and xs = "map kb_user_priv es" and b = b]) (simp_all add: s1_def)
  have tab: "tab_ok k push (nc_kref cl') h u ?I"
    using tab_ok_clear [of k push "nc_kref cl" h u n ?I] Cons.prems(2) tab_ok_inj [OF Cons.prems(2)] assms(6) I a by (simp add: cl'_def)
  have "\<exists>c' cl''. release_krefs env client True es s1 = Some (s1\<lparr>ns_clock := c', ps_clients := (ps_clients s1)(client \<mapsto> cl''), ns_bos := h\<rparr>) \<and>
      tab_ok k push (nc_kref cl'') h u A"
  proof (rule Cons.IH [where cl = cl' and n = "Suc n"])
    show "tab_ok k push (nc_kref cl') h u (A \<union> {Suc n..<Suc n + length es})" by (rule tab)
    show "A \<inter> {Suc n..} = {}" using Cons.prems(3) by auto
    show "u (Suc n + j) = kb_user_priv (es ! j)" if "j < length es" for j using Cons.prems(4) [of "Suc j"] that by simp
  qed (simp_all add: s1_def)
  then obtain c' cl'' where r: "release_krefs env client True es s1 = Some (s1\<lparr>ns_clock := c', ps_clients := (ps_clients s1)(client \<mapsto> cl''), ns_bos := h\<rparr>)"
    "tab_ok k push (nc_kref cl'') h u A" by blast
  have "release_krefs env client True (e # es) s = Some (s\<lparr>ns_clock := c', ps_clients := (ps_clients s)(client \<mapsto> cl''), ns_bos := h\<rparr>)"
    using set ref r(1) by (simp add: s1_def)
  then show ?case using r(2) by blast
qed

lemma covers_take: "covers L G h v g kr \<Longrightarrow> kr_buffer kr = ks @ es \<Longrightarrow> covers L G h v g (kr\<lparr>kr_buffer := ks, kr_reloc := rs\<rparr>)"
  by (auto simp: covers_def vram_bytes_def gart_bytes_def)

text \<open>Whatever was listed since \<open>s\<close> is taken back.\<close>

lemma refn_fail_ok:
  assumes t: "took push p new s s1" and s: "push_inv push p s" and re: "\<And>n. pe_realloc env n"
    and refs: "\<forall>b \<in> ran (ns_bos s). 1 \<le> nb_refcnt b" "NULL \<notin> dom (ns_bos s)"
  shows "\<exists>s2. pushbuf_refn_fail env push (length (kr_buffer (krec_of p s))) (length (kr_reloc (krec_of p s1))) s1 = Some s2 \<and>
    took push p [] s s2"
proof -
  let ?k = "pb_krec p" and ?n = "length (kr_buffer (krec_of p s))" and ?h = "ns_bos s"
  obtain kr cl where kr: "ps_krecs s1 ?k = Some kr" "kr_ok s1 kr" and cl: "ps_clients s1 (pb_client p) = Some cl"
    and tab: "tab_ok ?k push (nc_kref cl) (ns_bos s1) (users kr) {..<length (kr_buffer kr)}" and m: "ps_pushes s1 push = Some p"
      "mem_ok (nd_vram_limit (ns_dev s1)) (nd_gart_limit (ns_dev s1)) (ns_bos s1)"
    using t unfolding took_def push_inv_def by blast
  have bos: "ns_bos s1 = bump ?h new" and hd: "handles_ok ?h" using t s by (simp_all add: took_def push_inv_def)
  obtain ks es where g: "kr_buffer kr = ks @ es" "list_all2 narrowed (kr_buffer (krec_of p s)) ks" "map kb_user_priv es = new" "kr_reloc kr = kr_reloc (krec_of p s)"
    using t kr(1) unfolding took_def grown_def by auto
  have n: "length ks = ?n" using g(2) by (simp add: list_all2_lengthD)
  have t0: "tab_ok ?k push (nc_kref cl) ?h (users kr) ({..<?n} \<union> {?n..<?n + length es})"
    using tab bos g(1) n by (simp add: ivl_disj_un)
  obtain c cl' where r: "release_krefs env (pb_client p) True es s1 = Some (s1\<lparr>ns_clock := c, ps_clients := (ps_clients s1)(pb_client p \<mapsto> cl'), ns_bos := ?h\<rparr>)"
      "tab_ok ?k push (nc_kref cl') ?h (users kr) {..<?n}"
  proof -
    have "{..<?n} \<inter> {?n..} = {}" "\<And>j. j < length es \<Longrightarrow> users kr (?n + j) = kb_user_priv (es ! j)" "ns_bos s1 = bump ?h (map kb_user_priv es)"
      using bos g(1,3) n by (auto simp: nth_append)
    then show thesis using release_krefs_ok [OF cl t0 _ _ _ hd refs re] that by blast
  qed
  define kx where "kx = kr\<lparr>kr_buffer := ks, kr_reloc := kr_reloc kr\<rparr>"
  define s2 where "s2 = s1\<lparr>ns_clock := c, ps_clients := (ps_clients s1)(pb_client p \<mapsto> cl'), ns_bos := ?h, ps_krecs := (ps_krecs s1)(?k \<mapsto> kx)\<rparr>"
  have "pushbuf_refn_fail env push ?n (length (kr_reloc (krec_of p s1))) s1 = Some s2"
    using kr(1) m(1) g(1) n r(1) by (simp add: pushbuf_refn_fail_def krec_put_def wr_def s2_def kx_def)
  moreover have "kr_ok s2 kx" using kr(2) covers_take [of _ _ ?h 0 0 kr ks es "kr_reloc kr"] g(1) bos by (simp add: kr_ok_def s2_def kx_def)
  moreover have "tab_ok ?k push (nc_kref cl') ?h (users kx) {..<length (kr_buffer kx)}"
    by (rule tab_ok_cong [of _ _ _ ?h "users kr"]) (use r(2) g(1) n in \<open>simp_all add: kx_def nth_append\<close>)
  ultimately show ?thesis using m bos hd g(2,4) kr(1) unfolding took_def push_inv_def grown_def
    by (intro exI [of _ s2] conjI exI [of _ ks] exI [of _ "[]"] exI [of _ kx] exI [of _ cl']) (simp_all add: s2_def kx_def)
qed


section \<open>All or nothing\<close>



text \<open>An empty push buffer and one buffer of 400 bytes.\<close>

definition ex_one_bo :: push_state where
  "ex_one_bo = (ex_push_state 0)\<lparr>ns_bos := [7 \<mapsto> nvbo_zero\<lparr>nb_handle := 3, nb_size := 400, nb_refcnt := 1\<rparr>]\<rparr>"

lemma ex_one_bo_inv: "push_inv 1 ex_push ex_one_bo"
  by (simp add: push_inv_def ex_one_bo_def ex_push_state_def ex_push_def ex_krec_def kr_ok_def tab_ok_def handles_ok_def mem_ok_def small_def
      covers_def vram_bytes_def gart_bytes_def ex_nouveau_dev_def)


end
