(* ===== verification/Spec2Isabelle.thy ===== *)
theory Spec2Isabelle
  imports
    C_Prelude C_Arith C_Rings
    Drm_Random Drm_Lists Drm_Dict Drm_Hash Drm_SkipList Drm_Mode Drm_Event
    Intel_MM Intel_Chipset Intel_Gem_Types Intel_Gem_Size Intel_Gem_Bo Intel_Gem_Exec Intel_Gem_Validate
    Intel_Gem_Aperture Intel_Gem_Vma Intel_Gem_Share Intel_Gem_Init Intel_Gem_Refs
    Intel_Gem_Alloc Intel_Gem_Client
    Radeon_Types Radeon_Layout Radeon_R600 Radeon_Evergreen Radeon_Macro Radeon_SI Radeon_CIK Radeon_Manager
    Radeon_Bo Radeon_Cs Radeon_Relocs Radeon_Space Radeon_Stream
    Nouveau_Bo Nouveau_Share Nouveau_Bufctx Nouveau_Push Nouveau_Loop Nouveau_Place Nouveau_Refn
begin

text \<open>
  \<^bold>\<open>libdrm\<close>, the user-space library for the kernel's direct rendering manager: a core of small data
  structures, and per vendor a buffer manager or a surface allocator. The development models the parts
  whose behaviour is decided in the library itself; what an ioctl does is the kernel's, and stands in
  the model as a parameter that answers arbitrarily.

  \<^bold>\<open>How C is modelled.\<close> A C function is a HOL function into \<open>option\<close>: \<open>None\<close> is undefined behaviour, a
  failed assertion, or a loop that does not end. Memory is a partial map from addresses to records, one
  per structure type, \<open>NULL\<close> is 0; loads, stores and \<open>free\<close> of an address that is not allocated are
  \<open>None\<close>; \<open>malloc\<close> is a parameter that returns an address not in use, or \<open>NULL\<close>. Unsigned integers are
  words of their width and wrap, signed ones are integers whose overflow is \<open>None\<close>. Loops that the text
  of the program does not bound are \<open>partial_function (option)\<close>, and theorems state that they return.
  Recursive C functions take the depth of the stack; the theorems need it to exceed the depth of the
  data. Lists that the code walks through pointers are modelled as pointers in \<open>C_Rings\<close>, \<open>Drm_Lists\<close>,
  \<open>Drm_Hash\<close>, \<open>Drm_SkipList\<close> and \<open>Intel_MM\<close>; in the GEM buffer manager, whose lists are these verified
  macros, they are HOL lists together with the state of each list node.

  \<^item> \<open>C_Prelude\<close>: words, checked arithmetic, heaps, errno, the collections of rewrite rules. \<open>C_Arith\<close>:
    rounding and alignment of words against natural numbers. \<open>C_Rings\<close>: circular doubly linked lists in
    a heap, which the lists and the allocator share.
  \<^item> \<open>Drm_Random\<close> (\<open>xf86drmRandom.c\<close>): the generator is the Lehmer generator with multiplier 48271 and has
    period \<open>2^31 - 2\<close>.
  \<^item> \<open>Drm_Lists\<close> (\<open>libdrm_lists.h\<close>): every macro, insertion, removal, joining and the safe iterations.
  \<^item> \<open>Drm_Dict\<close>: the interface of a dictionary, a locale of lookup, insert and delete against a map, with
    the lemmas about sequences of operations. \<open>Drm_Hash\<close> (\<open>xf86drmHash.c\<close>) and \<open>Drm_SkipList\<close>
    (\<open>xf86drmSL.c\<close>) interpret it on their heaps: both refine a map; then enumeration and destruction.
  \<^item> \<open>Drm_Mode\<close> (\<open>xf86drmMode.c\<close>): the queries whose answers are arrays. One locale states how they ask twice, retry when
    the counts grew and copy, and the functions that free give everything back; resources, connectors, planes and object
    properties interpret it. \<open>Drm_Event\<close>: \<open>drmHandleEvent\<close> calls one handler per complete event of the bytes read.
  \<^item> \<open>Intel_MM\<close> (\<open>intel/mm.c\<close>): the offset-range allocator with its two intertwined rings, its
    invariant, and the guarantee that live allocations never overlap.
  \<^item> \<open>Intel_Chipset\<close> (\<open>intel/intel_chipset.h\<close>): the device id predicates and the generation.
  \<^item> \<open>Intel_Gem_Types\<close>, \<open>Intel_Gem_Size\<close>, \<open>Intel_Gem_Bo\<close>, \<open>Intel_Gem_Exec\<close> (\<open>intel/intel_bufmgr_gem.c\<close>): state,
    size computations and size classes, life of buffers, relocations and execution. \<open>Intel_Gem_Validate\<close>:
    the list of buffers passed to the kernel; the two ways of adding a buffer interpret one locale.
    \<open>Intel_Gem_Aperture\<close>: the walks that mark and search the relocation tree. \<open>Intel_Gem_Vma\<close>: the
    accounting of CPU mappings. \<open>Intel_Gem_Share\<close>: names, descriptors and the error paths.
    \<open>Intel_Gem_Init\<close>: creation of a manager, which establishes the invariants, and the list of managers.
    \<open>Intel_Gem_Refs\<close>: the invariant of reference counts and of the cache of free buffers, and the release of
    references. \<open>Intel_Gem_Alloc\<close>: allocation from the cache or the kernel. \<open>Intel_Gem_Client\<close>: the step
    relation of a client that uses what it holds, the states it can reach, that no operation is refused and
    that nothing leaks.
  \<^item> \<open>Radeon_Types\<close>, \<open>Radeon_Layout\<close>, \<open>Radeon_R600\<close>, \<open>Radeon_Evergreen\<close>, \<open>Radeon_Macro\<close>, \<open>Radeon_SI\<close>, \<open>Radeon_CIK\<close>,
    \<open>Radeon_Manager\<close> (\<open>radeon/radeon_surface.c\<close>): surfaces and hardware descriptions, reference layouts in
    unbounded arithmetic, and the four generations of layout code behind the manager.
  \<^item> \<open>Radeon_Bo\<close> (\<open>radeon/radeon_bo.c\<close>, \<open>radeon_bo_gem.c\<close>): buffer objects, their references, names and mappings.
    \<open>Radeon_Cs\<close> (\<open>radeon/radeon_cs.h\<close>, \<open>radeon_cs_gem.c\<close>, \<open>radeon_cs_space.c\<close>): command streams with their packets, sections
    and relocation tables, and the accounting of memory. \<open>Radeon_Relocs\<close>: the invariant that the table has every
    buffer once and holds one reference and one mark on each. \<open>Radeon_Space\<close>: what a memory check lets through
    stays within the limits. \<open>Radeon_Stream\<close>: the step relation of a driver that writes and executes a stream;
    relocations refer to the entry of their buffer, an execution gives back all the stream took.
  \<^item> \<open>Nouveau_Bo\<close> (\<open>nouveau/nouveau.c\<close>, \<open>abi16.c\<close>): buffers, their references, the encoding of tiling per chipset. \<open>Nouveau_Share\<close>:
    the step relation of a program that creates, wraps, names and shares buffers, and the invariant of handles, names and
    references. \<open>Nouveau_Bufctx\<close> (\<open>nouveau/bufctx.c\<close>): buffer contexts with their bins, free list and counter of relocations.
    \<open>Nouveau_Push\<close> (\<open>nouveau/pushbuf.c\<close>, the client table of \<open>private.h\<close>): every operation of a push buffer. \<open>Nouveau_Loop\<close>: the recursion
    between room and validation does not end on a context that is too large. \<open>Nouveau_Place\<close>: where buffers are placed and what
    the counters cover. \<open>Nouveau_Refn\<close>: a list of buffers is taken into a push buffer as a whole or not at all.

  \<^bold>\<open>Bounds.\<close> The stack depth \<open>k_stack\<close> of a kernel is any number above the depth of the relocation tree,
  for which the number of buffers is enough; \<open>pushbuf_validate\<close> takes the depth of its recursion, over which the theorem
  about it quantifies; there is no other fuel. Sizes and limits of nouveau buffers are below \<open>2^62\<close>, so that sums do not wrap. The surface theorems assume levels that end below 4 GiB, since the code stores
  offsets in 32-bit variables.

  \<^bold>\<open>Threads.\<close> Operations are modelled as the code runs them under its mutex, one after the other.

  \<^bold>\<open>Not modelled.\<close> Requests whose whole effect is in the kernel (most of \<open>xf86drm.c\<close>, the setting requests of
  \<open>xf86drmMode.c\<close>, data transfer, hardware contexts, nouveau channels and objects), output for humans (\<open>intel_decode.c\<close>,
  AUB dumps, \<open>pushbuf_dump\<close>, debug messages, which are off), the fake buffer manager for hardware without GEM, test programs, and
  vendors whose code is a thin layer over requests.
\<close>

end
